(* ===== verification/Bridge_Prelude.thy ===== *)
theory Bridge_Prelude
  imports Main "HOL-Library.Sublist" "HOL-Library.Char_ord" "HOL-Library.Code_Target_Nat"
begin

text \<open>
  Shared vocabulary of the development.

  A Rust \<open>String\<close>, \<open>&str\<close>, \<open>Vec<u8>\<close> or \<open>&[u8]\<close> is a \<open>string\<close>, the list of
  its bytes (an Isabelle \<open>char\<close> is one octet).  A \<open>usize\<close> or \<open>u64\<close> that is only
  compared and added is a \<open>nat\<close> with the checked and the saturating operations of the
  source written out at 64 bits; the places where the width matters carry the bound.
  A \<open>Result<T, E>\<close> is \<open>'e + 'a\<close> with \<open>Inl\<close> for the error; \<open>bindR\<close> is the
  question-mark operator.

  The rest of the theory holds the functions of the Rust standard library that several
  components use (\<open>split\<close>, \<open>join\<close>, \<open>strip_prefix\<close>, \<open>parse\<close>) and the lemmas about
  them, collected in \<open>result_simps\<close> and \<open>byte_simps\<close>.
\<close>

named_theorems result_simps "evaluation and inversion of results"
named_theorems byte_simps "facts on byte strings: split, join, prefixes, decimals"
named_theorems errs_intros "the errors of a result, by its shape"
named_theorems oks_intros "the values of a result, by its shape"

section \<open>Results\<close>

definition bindR :: "'e + 'a \<Rightarrow> ('a \<Rightarrow> 'e + 'b) \<Rightarrow> 'e + 'b" where
  "bindR m f = (case m of Inl e \<Rightarrow> Inl e | Inr a \<Rightarrow> f a)"

definition map_err :: "('e \<Rightarrow> 'f) \<Rightarrow> 'e + 'a \<Rightarrow> 'f + 'a" where
  "map_err f m = (case m of Inl e \<Rightarrow> Inl (f e) | Inr a \<Rightarrow> Inr a)"

definition ok_or :: "'e \<Rightarrow> 'a option \<Rightarrow> 'e + 'a" where
  "ok_or e m = (case m of None \<Rightarrow> Inl e | Some a \<Rightarrow> Inr a)"

definition is_ok :: "'e + 'a \<Rightarrow> bool" where
  "is_ok m = (case m of Inl _ \<Rightarrow> False | Inr _ \<Rightarrow> True)"

lemma bindR_simps [simp, result_simps]:
  "bindR (Inl e) f = Inl e"
  "bindR (Inr a) f = f a"
  by (simp_all add: bindR_def)

lemma map_err_simps [simp, result_simps]:
  "map_err f (Inl e) = Inl (f e)"
  "map_err f (Inr a) = Inr a"
  by (simp_all add: map_err_def)

lemma ok_or_simps [simp, result_simps]:
  "ok_or e None = Inl e"
  "ok_or e (Some a) = Inr a"
  by (simp_all add: ok_or_def)

lemma is_ok_simps [simp, result_simps]:
  "\<not> is_ok (Inl e)"
  "is_ok (Inr a)"
  by (simp_all add: is_ok_def)

lemma bindR_eq_Inr [result_simps]:
  "bindR m f = Inr b \<longleftrightarrow> (\<exists>a. m = Inr a \<and> f a = Inr b)"
  by (cases m) auto

lemma bindR_eq_Inl [result_simps]:
  "bindR m f = Inl e \<longleftrightarrow> m = Inl e \<or> (\<exists>a. m = Inr a \<and> f a = Inl e)"
  by (cases m) auto

lemma map_err_eq_Inr [result_simps]: "map_err f m = Inr a \<longleftrightarrow> m = Inr a"
  by (cases m) auto

lemma map_err_eq_Inl [result_simps]: "map_err f m = Inl e \<longleftrightarrow> (\<exists>d. m = Inl d \<and> e = f d)"
  by (cases m) auto

lemma ok_or_eq_Inr [result_simps]: "ok_or e m = Inr a \<longleftrightarrow> m = Some a"
  by (cases m) auto

lemma ok_or_eq_Inl [result_simps]: "ok_or e m = Inl d \<longleftrightarrow> m = None \<and> d = e"
  by (cases m) auto

lemma is_ok_iff [result_simps]: "is_ok m \<longleftrightarrow> (\<exists>a. m = Inr a)"
  by (cases m) auto

text \<open>Inversion of a guard, without the case split that \<open>if_splits\<close> makes.\<close>

lemma guard_eq_Inr:
  "(if b then Inl e else m) = Inr a \<longleftrightarrow> \<not> b \<and> m = Inr a"
  "(if b then m else Inl e) = Inr a \<longleftrightarrow> b \<and> m = Inr a"
  by auto

lemma bindR_cong [fundef_cong]:
  assumes "m = m'" and "\<And>a. m' = Inr a \<Longrightarrow> f a = g a"
  shows "bindR m f = bindR m' g"
  using assms by (cases m') auto

subsection \<open>The errors and the values a function can return\<close>

text \<open>Every error returned satisfies \<open>P\<close>.\<close>

definition errs :: "('e \<Rightarrow> bool) \<Rightarrow> 'e + 'a \<Rightarrow> bool" where
  "errs P m \<longleftrightarrow> (case m of Inl e \<Rightarrow> P e | Inr _ \<Rightarrow> True)"

lemma errs_basic [errs_intros]:
  "errs P (Inr x)" "P e \<Longrightarrow> errs P (Inl e)" "P e \<Longrightarrow> errs P (ok_or e m)"
  by (simp_all add: errs_def ok_or_def split: option.splits)

lemma errs_bind [errs_intros]:
  "errs P m \<Longrightarrow> (\<And>x. m = Inr x \<Longrightarrow> errs P (f x)) \<Longrightarrow> errs P (bindR m f)"
  by (cases m) (auto simp: errs_def)

lemma errs_if [errs_intros]:
  "(c \<Longrightarrow> errs P m) \<Longrightarrow> (\<not> c \<Longrightarrow> errs P n) \<Longrightarrow> errs P (if c then m else n)"
  by simp

lemma errs_let [errs_intros]: "(\<And>y. y = x \<Longrightarrow> errs P (f y)) \<Longrightarrow> errs P (let y = x in f y)"
  by simp

text \<open>The dual: every value returned satisfies \<open>Q\<close>.\<close>

definition oks :: "('a \<Rightarrow> bool) \<Rightarrow> 'e + 'a \<Rightarrow> bool" where
  "oks Q m \<longleftrightarrow> (case m of Inl _ \<Rightarrow> True | Inr x \<Rightarrow> Q x)"

lemma oks_basic [oks_intros]: "oks Q (Inl e)" "Q x \<Longrightarrow> oks Q (Inr x)"
  by (simp_all add: oks_def)

lemma oks_bind [oks_intros]: "(\<And>x. m = Inr x \<Longrightarrow> oks Q (f x)) \<Longrightarrow> oks Q (bindR m f)"
  by (cases m) (auto simp: oks_def)

lemma oks_if [oks_intros]: "(c \<Longrightarrow> oks Q m) \<Longrightarrow> (\<not> c \<Longrightarrow> oks Q n) \<Longrightarrow> oks Q (if c then m else n)"
  by simp

lemma oks_prod [oks_intros]: "(\<And>a b. x = (a, b) \<Longrightarrow> oks Q (f a b)) \<Longrightarrow> oks Q (case x of (a, b) \<Rightarrow> f a b)"
  by (cases x) simp

lemma oksD: "oks Q m \<Longrightarrow> m = Inr x \<Longrightarrow> Q x"
  by (simp add: oks_def)

lemma errsD: "errs P m \<Longrightarrow> m = Inl e \<Longrightarrow> P e"
  by (simp add: errs_def)

lemma errs_option [errs_intros]:
  "errs P m \<Longrightarrow> (\<And>x. errs P (f x)) \<Longrightarrow> errs P (case v of None \<Rightarrow> m | Some x \<Rightarrow> f x)"
  by (cases v) simp_all

text \<open>\<open>iter().map(f).collect::<Result<Vec<_>, _>>()\<close>: the first error wins.\<close>

fun collectR :: "('a \<Rightarrow> 'e + 'b) \<Rightarrow> 'a list \<Rightarrow> 'e + 'b list" where
  "collectR f [] = Inr []"
| "collectR f (x # xs) = bindR (f x) (\<lambda>y. bindR (collectR f xs) (\<lambda>ys. Inr (y # ys)))"

lemma collectR_length: "collectR f xs = Inr ys \<Longrightarrow> length ys = length xs"
  by (induction xs arbitrary: ys) (auto simp: result_simps)

lemma collectR_nth: "collectR f xs = Inr ys \<Longrightarrow> i < length xs \<Longrightarrow> f (xs ! i) = Inr (ys ! i)"
  by (induction xs arbitrary: ys i) (auto simp: result_simps nth_Cons split: nat.splits)

section \<open>Machine integers at 64 bits\<close>

definition u64_max :: nat where
  "u64_max = 18446744073709551615"

definition u32_max :: nat where
  "u32_max = 4294967295"

text \<open>The supported hosts are 64-bit, so \<open>usize\<close> has the width of \<open>u64\<close>.\<close>

abbreviation usize_max :: nat where
  "usize_max \<equiv> u64_max"

definition checked_add :: "nat \<Rightarrow> nat \<Rightarrow> nat option" where
  "checked_add a b = (if a + b \<le> u64_max then Some (a + b) else None)"

definition checked_mul :: "nat \<Rightarrow> nat \<Rightarrow> nat option" where
  "checked_mul a b = (if a * b \<le> u64_max then Some (a * b) else None)"

definition checked_sub :: "nat \<Rightarrow> nat \<Rightarrow> nat option" where
  "checked_sub a b = (if b \<le> a then Some (a - b) else None)"

definition saturating_add :: "nat \<Rightarrow> nat \<Rightarrow> nat" where
  "saturating_add a b = min u64_max (a + b)"

definition saturating_sub :: "nat \<Rightarrow> nat \<Rightarrow> nat" where
  "saturating_sub a b = a - b"

lemma checked_add_eq_Some [byte_simps]:
  "checked_add a b = Some c \<longleftrightarrow> c = a + b \<and> a + b \<le> u64_max"
  by (auto simp: checked_add_def)

lemma checked_mul_eq_Some [byte_simps]:
  "checked_mul a b = Some c \<longleftrightarrow> c = a * b \<and> a * b \<le> u64_max"
  by (auto simp: checked_mul_def)

lemma checked_sub_eq_Some [byte_simps]:
  "checked_sub a b = Some c \<longleftrightarrow> b \<le> a \<and> c = a - b"
  by (auto simp: checked_sub_def)

lemma saturating_add_exact [byte_simps]: "a + b \<le> u64_max \<Longrightarrow> saturating_add a b = a + b"
  by (simp add: saturating_add_def)

lemma saturating_add_le: "saturating_add a b \<le> a + b"
  by (simp add: saturating_add_def)

lemma saturating_add_mono: "a \<le> a' \<Longrightarrow> b \<le> b' \<Longrightarrow> saturating_add a b \<le> saturating_add a' b'"
  by (auto simp: saturating_add_def)

section \<open>Bytes and ASCII classes\<close>

abbreviation NUL :: char where "NUL \<equiv> CHR 0x00"
abbreviation TAB :: char where "TAB \<equiv> CHR 0x09"
abbreviation LF :: char where "LF \<equiv> CHR 0x0A"
abbreviation CR :: char where "CR \<equiv> CHR 0x0D"
abbreviation SP :: char where "SP \<equiv> CHR 0x20"
abbreviation DQUOTE :: char where "DQUOTE \<equiv> CHR 0x22"
abbreviation QUOTE :: char where "QUOTE \<equiv> CHR 0x27"
abbreviation SLASH :: char where "SLASH \<equiv> CHR 0x2F"

definition byte :: "char \<Rightarrow> nat" where
  "byte c = of_char c"

definition is_ascii_digit :: "char \<Rightarrow> bool" where
  "is_ascii_digit c \<longleftrightarrow> 48 \<le> byte c \<and> byte c \<le> 57"

definition is_ascii_whitespace :: "char \<Rightarrow> bool" where
  "is_ascii_whitespace c \<longleftrightarrow> c = SP \<or> c = TAB \<or> c = LF \<or> c = CHR 0x0C \<or> c = CR"

definition digit_char :: "nat \<Rightarrow> char" where
  "digit_char d = char_of (48 + d)"

lemma byte_less: "byte c < 256"
  by (simp add: byte_def)

lemma byte_inj: "byte a = byte b \<longleftrightarrow> a = b"
  by (simp add: byte_def)

lemma byte_char_of: "n < 256 \<Longrightarrow> byte (char_of n) = n"
  by (simp add: byte_def)

lemma byte_digit_char: "d < 10 \<Longrightarrow> byte (digit_char d) = 48 + d"
  by (simp add: digit_char_def byte_def)

lemma digit_char_digit: "d < 10 \<Longrightarrow> is_ascii_digit (digit_char d)"
  by (simp add: is_ascii_digit_def byte_digit_char)

section \<open>Splitting and joining\<close>

text \<open>\<open>s.split(c)\<close>: the empty string has one empty piece.\<close>

fun split_on :: "'a \<Rightarrow> 'a list \<Rightarrow> 'a list list" where
  "split_on c [] = [[]]"
| "split_on c (x # xs) =
     (if x = c then [] # split_on c xs
      else (case split_on c xs of [] \<Rightarrow> [[x]] | f # fs \<Rightarrow> (x # f) # fs))"

text \<open>\<open>parts.join(sep)\<close>.\<close>

fun join_with :: "'a list \<Rightarrow> 'a list list \<Rightarrow> 'a list" where
  "join_with sep [] = []"
| "join_with sep [p] = p"
| "join_with sep (p # q # ps) = p @ sep @ join_with sep (q # ps)"

lemma split_on_nonempty [simp]: "split_on c s \<noteq> []"
  by (cases s) (auto split: list.splits)

lemma join_Cons: "join_with sep (p # ps) = (if ps = [] then p else p @ sep @ join_with sep ps)"
  by (cases ps) auto

lemma split_on_piece [byte_simps]: "p \<in> set (split_on c s) \<Longrightarrow> c \<notin> set p"
  by (induction s arbitrary: p) (auto split: list.splits if_splits)

lemma split_on_pieces_set: "p \<in> set (split_on c s) \<Longrightarrow> set p \<subseteq> set s"
proof (induction s arbitrary: p)
  case (Cons x s)
  then show ?case by (auto split: list.splits if_splits) blast+
qed simp

lemma split_on_free [byte_simps]: "c \<notin> set s \<Longrightarrow> split_on c s = [s]"
  by (induction s) (auto split: list.splits)

lemma split_on_append [byte_simps]:
  "c \<notin> set p \<Longrightarrow> split_on c (p @ c # s) = p # split_on c s"
  by (induction p) (auto split: list.splits)

lemma split_on_append_general:
  "split_on c (a @ c # b) = split_on c a @ split_on c b"
proof (induction a)
  case (Cons x a)
  then show ?case by (cases "split_on c a") (auto split: list.splits)
qed simp

lemma join_split [byte_simps]: "join_with [c] (split_on c s) = s"
proof (induction s)
  case (Cons x s)
  then show ?case
    by (cases "split_on c s") (auto simp: join_Cons split: if_splits)
qed simp

lemma split_join [byte_simps]:
  "ps \<noteq> [] \<Longrightarrow> \<forall>p \<in> set ps. c \<notin> set p \<Longrightarrow> split_on c (join_with [c] ps) = ps"
  by (induction "[c]" ps rule: join_with.induct) (auto simp: split_on_free split_on_append)

lemma length_split_on: "length (split_on c s) = Suc (count_list s c)"
proof (induction s)
  case (Cons x s)
  then show ?case by (cases "split_on c s") auto
qed simp

text \<open>\<open>strip_prefix\<close>, \<open>starts_with\<close>, \<open>strip_suffix\<close>.\<close>

definition strip_prefix :: "'a list \<Rightarrow> 'a list \<Rightarrow> 'a list option" where
  "strip_prefix p s = (if take (length p) s = p then Some (drop (length p) s) else None)"

definition starts_with :: "'a list \<Rightarrow> 'a list \<Rightarrow> bool" where
  "starts_with p s \<longleftrightarrow> take (length p) s = p"

definition strip_suffix :: "'a list \<Rightarrow> 'a list \<Rightarrow> 'a list option" where
  "strip_suffix p s = map_option rev (strip_prefix (rev p) (rev s))"

lemma strip_prefix_eq_Some [byte_simps]: "strip_prefix p s = Some t \<longleftrightarrow> s = p @ t"
  by (auto simp: strip_prefix_def append_eq_conv_conj) (metis append_take_drop_id)

lemma strip_prefix_append [simp]: "strip_prefix p (p @ t) = Some t"
  by (simp add: strip_prefix_eq_Some)

lemma strip_prefix_eq_None: "strip_prefix p s = None \<longleftrightarrow> \<not> starts_with p s"
  by (simp add: strip_prefix_def starts_with_def)

lemma starts_with_iff [byte_simps]: "starts_with p s \<longleftrightarrow> (\<exists>t. s = p @ t)"
  by (auto simp: starts_with_def) (metis append_take_drop_id)

lemma starts_with_prefix: "starts_with p s \<longleftrightarrow> prefix p s"
  by (simp add: starts_with_iff prefix_def)

lemma starts_with_append [simp]: "starts_with p (p @ t)"
  by (simp add: starts_with_def)

lemma strip_suffix_eq_Some [byte_simps]: "strip_suffix p s = Some t \<longleftrightarrow> s = t @ p"
  by (auto simp: strip_suffix_def strip_prefix_eq_Some) (metis rev_append rev_rev_ident)+

text \<open>The position of the first occurrence: \<open>memchr\<close> and \<open>iter().position\<close>.\<close>

fun position :: "('a \<Rightarrow> bool) \<Rightarrow> 'a list \<Rightarrow> nat option" where
  "position P [] = None"
| "position P (x # xs) = (if P x then Some 0 else map_option Suc (position P xs))"

lemma position_eq_None [byte_simps]: "position P xs = None \<longleftrightarrow> (\<forall>x \<in> set xs. \<not> P x)"
  by (induction xs) auto

lemma position_eq_Some [byte_simps]:
  "position P xs = Some i \<longleftrightarrow> i < length xs \<and> P (xs ! i) \<and> (\<forall>j < i. \<not> P (xs ! j))"
proof (induction xs arbitrary: i)
  case (Cons x xs)
  then show ?case by (cases i) (auto simp: nth_Cons split: nat.splits)
qed simp

lemma position_append_hit:
  "\<forall>x \<in> set a. \<not> P x \<Longrightarrow> P b \<Longrightarrow> position P (a @ b # c) = Some (length a)"
  by (induction a) auto

lemma position_append_miss:
  "position P b = None \<Longrightarrow> position P (b @ s) = map_option (\<lambda>i. length b + i) (position P s)"
  by (induction b; cases "position P s") (auto split: if_splits)

lemma position_append_Some: "position P b = Some i \<Longrightarrow> position P (b @ s) = Some i"
  by (induction b arbitrary: i) (auto split: if_splits)

lemma position_less: "position P b = Some i \<Longrightarrow> i < length b"
  by (simp add: position_eq_Some)

section \<open>Decimal numbers\<close>

text \<open>\<open>to_string\<close> of an unsigned integer.\<close>

fun decimal :: "nat \<Rightarrow> string" where
  "decimal n = (if n < 10 then [digit_char n] else decimal (n div 10) @ [digit_char (n mod 10)])"

declare decimal.simps [simp del]

definition digit_value :: "char \<Rightarrow> nat" where
  "digit_value c = byte c - 48"

definition decimal_value :: "string \<Rightarrow> nat" where
  "decimal_value s = foldl (\<lambda>n c. 10 * n + digit_value c) 0 s"

text \<open>
  \<open>str::parse\<close> for an unsigned integer type with the given maximum: one optional plus
  sign, at least one digit, digits only, and an error on overflow.
\<close>

definition parse_unsigned :: "nat \<Rightarrow> string \<Rightarrow> nat option" where
  "parse_unsigned maximum s =
     (let digits = (case s of [] \<Rightarrow> [] | c # r \<Rightarrow> if c = CHR 0x2B then r else s)
      in if digits = [] \<or> \<not> list_all is_ascii_digit digits then None
         else if decimal_value digits \<le> maximum then Some (decimal_value digits) else None)"

lemma decimal_nonempty [simp]: "decimal n \<noteq> []"
  by (subst decimal.simps) simp

lemma decimal_digits: "list_all is_ascii_digit (decimal n)"
proof (induction n rule: decimal.induct)
  case (1 n)
  then show ?case by (subst decimal.simps) (auto simp: digit_char_digit)
qed

lemma decimal_value_snoc [simp]:
  "decimal_value (s @ [c]) = 10 * decimal_value s + digit_value c"
  by (simp add: decimal_value_def)

lemma digit_value_digit_char [simp]: "d < 10 \<Longrightarrow> digit_value (digit_char d) = d"
  by (simp add: digit_value_def byte_digit_char)

lemma decimal_value_decimal [simp]: "decimal_value (decimal n) = n"
proof (induction n rule: decimal.induct)
  case (1 n)
  show ?case
  proof (cases "n < 10")
    case True
    then show ?thesis
      using decimal_value_snoc [of "[]" "digit_char n"]
      by (subst decimal.simps) (simp add: decimal_value_def)
  next
    case False
    with 1 show ?thesis by (subst decimal.simps) simp
  qed
qed

lemma is_ascii_digit_not_plus: "is_ascii_digit c \<Longrightarrow> c \<noteq> CHR 0x2B"
  by (auto simp: is_ascii_digit_def byte_def)

lemma parse_decimal_roundtrip [byte_simps]:
  assumes "n \<le> maximum"
  shows "parse_unsigned maximum (decimal n) = Some n"
proof -
  obtain c r where cr: "decimal n = c # r"
    by (meson decimal_nonempty neq_Nil_conv)
  with decimal_digits [of n] have "is_ascii_digit c" by simp
  then have "c \<noteq> CHR 0x2B" by (rule is_ascii_digit_not_plus)
  moreover have "decimal_value (c # r) = n" using cr by (metis decimal_value_decimal)
  ultimately show ?thesis
    using assms decimal_digits [of n] by (simp add: parse_unsigned_def cr)
qed

lemma parse_unsigned_bound: "parse_unsigned maximum s = Some n \<Longrightarrow> n \<le> maximum"
  by (auto simp: parse_unsigned_def Let_def split: if_splits list.splits)

lemma decimal_set: "c \<in> set (decimal n) \<Longrightarrow> is_ascii_digit c"
  using decimal_digits [of n] by (simp add: list_all_iff)

lemma length_decimal: "n < 10 ^ k \<Longrightarrow> 0 < k \<Longrightarrow> length (decimal n) \<le> k"
proof (induction n arbitrary: k rule: decimal.induct)
  case (1 n)
  show ?case
  proof (cases "n < 10")
    case True
    with "1.prems" show ?thesis by (subst decimal.simps) simp
  next
    case False
    with "1.prems" have "k \<noteq> 1" by auto
    with "1.prems"(2) obtain j where k: "k = Suc j" "0 < j" by (cases k) auto
    with "1.prems"(1) have "n div 10 < 10 ^ j" by (simp add: less_mult_imp_div_less mult.commute)
    with False k "1.IH" have "length (decimal (n div 10)) \<le> j" by blast
    with False k show ?thesis by (subst decimal.simps) simp
  qed
qed

text \<open>Rust's \<open>split_ascii_whitespace\<close>.\<close>

fun words_by :: "('a \<Rightarrow> bool) \<Rightarrow> 'a list \<Rightarrow> 'a list \<Rightarrow> 'a list list" where
  "words_by P acc [] = (if acc = [] then [] else [rev acc])"
| "words_by P acc (x # xs) =
     (if P x then (if acc = [] then words_by P [] xs else rev acc # words_by P [] xs)
      else words_by P (x # acc) xs)"

definition split_ascii_whitespace :: "string \<Rightarrow> string list" where
  "split_ascii_whitespace s = words_by is_ascii_whitespace [] s"

lemma words_by_word:
  "\<forall>x \<in> set w. \<not> P x \<Longrightarrow> words_by P acc (w @ s) = words_by P (rev w @ acc) s"
  by (induction w arbitrary: acc) auto

lemma words_by_sep:
  "\<forall>x \<in> set w. \<not> P x \<Longrightarrow> w \<noteq> [] \<Longrightarrow> P c \<Longrightarrow>
     words_by P [] (w @ c # s) = w # words_by P [] s"
  by (simp add: words_by_word)

lemma words_by_last:
  "\<forall>x \<in> set w. \<not> P x \<Longrightarrow> w \<noteq> [] \<Longrightarrow> words_by P [] w = [w]"
  using words_by_word [of w P "[]" "[]"] by simp

end
