(* ===== verification/Wire_Codec.thy ===== *)
theory Wire_Codec
  imports Bridge_Prelude
begin

text \<open>
  The interface between a component that writes messages and the one that reads them back:
  an encoder and a decoder that takes one message off the front of the bytes.  The law is
  that the decoder returns the message and leaves exactly the bytes after it; everything a
  client needs (no two messages share an encoding, a stream of messages splits in one way
  only, reading a stream gives the messages in order) follows from it once.
\<close>

fun decode_many :: "(string \<Rightarrow> ('f \<times> string) option) \<Rightarrow> nat \<Rightarrow> string \<Rightarrow> 'f list \<times> string" where
  "decode_many dec 0 s = ([], s)"
| "decode_many dec (Suc n) s =
     (case dec s of
        None \<Rightarrow> ([], s)
      | Some (f, r) \<Rightarrow> (case decode_many dec n r of (fs, t) \<Rightarrow> (f # fs, t)))"

locale wire_codec =
  fixes wf :: "'f \<Rightarrow> bool"
    and enc :: "'f \<Rightarrow> string"
    and dec :: "string \<Rightarrow> ('f \<times> string) option"
  assumes dec_enc: "wf f \<Longrightarrow> dec (enc f @ rest) = Some (f, rest)"
    and dec_empty: "dec [] = None"
begin

lemma enc_nonempty: "wf f \<Longrightarrow> enc f \<noteq> []"
  by (metis append_Nil dec_enc dec_empty option.distinct(1))

lemma enc_prefix_free:
  assumes "wf f" "wf g" "enc f @ a = enc g @ b"
  shows "f = g \<and> a = b"
proof -
  have "Some (f, a) = dec (enc f @ a)" by (rule dec_enc [OF assms(1), symmetric])
  also have "\<dots> = Some (g, b)" unfolding assms(3) by (rule dec_enc [OF assms(2)])
  finally show ?thesis by simp
qed

lemma enc_inj: "wf f \<Longrightarrow> wf g \<Longrightarrow> enc f = enc g \<Longrightarrow> f = g"
  by (rule conjunct1, rule enc_prefix_free [where a = "[]" and b = "[]"]) simp_all

lemma stream_inj:
  "list_all wf fs \<Longrightarrow> list_all wf gs \<Longrightarrow> concat (map enc fs) = concat (map enc gs) \<Longrightarrow> fs = gs"
proof (induction fs arbitrary: gs)
  case Nil
  then show ?case by (cases gs) (auto dest: enc_nonempty)
next
  case (Cons f fs)
  then obtain g gs' where gs: "gs = g # gs'" by (cases gs) (auto dest: enc_nonempty)
  with Cons.prems have "f = g \<and> concat (map enc fs) = concat (map enc gs')"
    by (intro enc_prefix_free) auto
  with Cons gs show ?case by auto
qed

lemma decode_stream:
  "list_all wf fs \<Longrightarrow>
     decode_many dec (length fs) (concat (map enc fs) @ rest) = (fs, rest)"
  by (induction fs) (auto simp: dec_enc)

end

end
