(* ===== verification/Utf8.thy ===== *)
theory Utf8
  imports Bridge_Prelude
begin

text \<open>
  UTF-8 as the Rust standard library defines it: \<open>std::str::from_utf8\<close> accepts exactly the
  well-formed sequences (no overlong form, no surrogate, nothing above U+10FFFF), \<open>chars\<close>
  reads the scalar values and \<open>collect\<close> writes them.  On top of it the trimming functions of
  \<open>str\<close>, with Unicode white space.  These are library functions the components call; the
  lemmas are the two round trips and the facts on trimming.
\<close>

definition scalar :: "nat \<Rightarrow> bool" where
  "scalar n \<longleftrightarrow> n < 0xD800 \<or> (0xE000 \<le> n \<and> n \<le> 0x10FFFF)"

definition continuation :: "char \<Rightarrow> bool" where
  "continuation c \<longleftrightarrow> 0x80 \<le> byte c \<and> byte c \<le> 0xBF"

definition payload6 :: "char \<Rightarrow> nat" where
  "payload6 c = byte c - 0x80"

definition second_of_three :: "nat \<Rightarrow> char \<Rightarrow> bool" where
  "second_of_three b c \<longleftrightarrow> continuation c \<and> (b = 0xE0 \<longrightarrow> 0xA0 \<le> byte c) \<and>
     (b = 0xED \<longrightarrow> byte c \<le> 0x9F)"

definition second_of_four :: "nat \<Rightarrow> char \<Rightarrow> bool" where
  "second_of_four b c \<longleftrightarrow> continuation c \<and> (b = 0xF0 \<longrightarrow> 0x90 \<le> byte c) \<and>
     (b = 0xF4 \<longrightarrow> byte c \<le> 0x8F)"

fun utf8_decode :: "string \<Rightarrow> nat list option" where
  "utf8_decode [] = Some []"
| "utf8_decode (c # cs) =
     (let b = byte c in
      if b < 0x80 then map_option ((#) b) (utf8_decode cs)
      else if 0xC2 \<le> b \<and> b \<le> 0xDF then
        (case cs of
           c1 # r \<Rightarrow>
             if continuation c1
             then map_option ((#) ((b - 0xC0) * 64 + payload6 c1)) (utf8_decode r)
             else None
         | [] \<Rightarrow> None)
      else if 0xE0 \<le> b \<and> b \<le> 0xEF then
        (case cs of
           c1 # c2 # r \<Rightarrow>
             if second_of_three b c1 \<and> continuation c2
             then map_option ((#) (((b - 0xE0) * 64 + payload6 c1) * 64 + payload6 c2))
                    (utf8_decode r)
             else None
         | _ \<Rightarrow> None)
      else if 0xF0 \<le> b \<and> b \<le> 0xF4 then
        (case cs of
           c1 # c2 # c3 # r \<Rightarrow>
             if second_of_four b c1 \<and> continuation c2 \<and> continuation c3
             then map_option
                    ((#) ((((b - 0xF0) * 64 + payload6 c1) * 64 + payload6 c2) * 64 + payload6 c3))
                    (utf8_decode r)
             else None
         | _ \<Rightarrow> None)
      else None)"

definition utf8_encode_char :: "nat \<Rightarrow> string" where
  "utf8_encode_char n =
     (if n < 0x80 then [char_of n]
      else if n < 0x800 then [char_of (0xC0 + n div 64), char_of (0x80 + n mod 64)]
      else if n < 0x10000 then
        [char_of (0xE0 + n div 64 div 64), char_of (0x80 + n div 64 mod 64),
         char_of (0x80 + n mod 64)]
      else
        [char_of (0xF0 + n div 64 div 64 div 64), char_of (0x80 + n div 64 div 64 mod 64),
         char_of (0x80 + n div 64 mod 64), char_of (0x80 + n mod 64)])"

definition utf8_encode :: "nat list \<Rightarrow> string" where
  "utf8_encode cs = concat (map utf8_encode_char cs)"

definition valid_utf8 :: "string \<Rightarrow> bool" where
  "valid_utf8 s \<longleftrightarrow> utf8_decode s \<noteq> None"

text \<open>The scalar values of a \<open>&str\<close>, which is always well-formed.\<close>

definition str_chars :: "string \<Rightarrow> nat list" where
  "str_chars s = (case utf8_decode s of Some cs \<Rightarrow> cs | None \<Rightarrow> [])"

lemma utf8_encode_simps [simp]:
  "utf8_encode [] = []"
  "utf8_encode (c # cs) = utf8_encode_char c @ utf8_encode cs"
  by (simp_all add: utf8_encode_def)

lemma byte_continuation [simp]: "k < 64 \<Longrightarrow> byte (char_of (128 + k :: nat)) = 128 + k"
  by (intro byte_char_of) linarith

lemma payload_char_of [simp]: "k < 64 \<Longrightarrow> payload6 (char_of (128 + k :: nat)) = k"
  by (simp add: payload6_def)

lemma continuation_char_of [simp]: "k < 64 \<Longrightarrow> continuation (char_of (128 + k :: nat))"
  by (simp add: continuation_def)

section \<open>One equation per sequence length\<close>

lemma decode_1: "byte c < 0x80 \<Longrightarrow> utf8_decode (c # r) = map_option ((#) (byte c)) (utf8_decode r)"
  by simp

lemma decode_2:
  "0xC2 \<le> byte c \<Longrightarrow> byte c \<le> 0xDF \<Longrightarrow> continuation c1 \<Longrightarrow>
     utf8_decode (c # c1 # r) =
     map_option ((#) ((byte c - 0xC0) * 64 + payload6 c1)) (utf8_decode r)"
  by (simp add: Let_def)

lemma decode_3:
  "0xE0 \<le> byte c \<Longrightarrow> byte c \<le> 0xEF \<Longrightarrow> second_of_three (byte c) c1 \<Longrightarrow> continuation c2 \<Longrightarrow>
     utf8_decode (c # c1 # c2 # r) =
     map_option ((#) (((byte c - 0xE0) * 64 + payload6 c1) * 64 + payload6 c2)) (utf8_decode r)"
  by (simp add: Let_def)

lemma decode_4:
  "0xF0 \<le> byte c \<Longrightarrow> byte c \<le> 0xF4 \<Longrightarrow> second_of_four (byte c) c1 \<Longrightarrow> continuation c2 \<Longrightarrow>
     continuation c3 \<Longrightarrow>
     utf8_decode (c # c1 # c2 # c3 # r) =
     map_option ((#) ((((byte c - 0xF0) * 64 + payload6 c1) * 64 + payload6 c2) * 64 + payload6 c3))
       (utf8_decode r)"
  by (simp add: Let_def)

text \<open>Every accepted string starts with a sequence of one of the four lengths.\<close>

lemma decode_Cons_cases:
  assumes "utf8_decode (c # cs) = Some ns"
  obtains
    (one) ms where "byte c < 0x80" "utf8_decode cs = Some ms" "ns = byte c # ms"
  | (two) c1 r ms where "0xC2 \<le> byte c" "byte c \<le> 0xDF" "continuation c1" "cs = c1 # r"
      "utf8_decode r = Some ms" "ns = ((byte c - 0xC0) * 64 + payload6 c1) # ms"
  | (three) c1 c2 r ms where "0xE0 \<le> byte c" "byte c \<le> 0xEF" "second_of_three (byte c) c1"
      "continuation c2" "cs = c1 # c2 # r" "utf8_decode r = Some ms"
      "ns = (((byte c - 0xE0) * 64 + payload6 c1) * 64 + payload6 c2) # ms"
  | (four) c1 c2 c3 r ms where "0xF0 \<le> byte c" "byte c \<le> 0xF4" "second_of_four (byte c) c1"
      "continuation c2" "continuation c3" "cs = c1 # c2 # c3 # r" "utf8_decode r = Some ms"
      "ns = ((((byte c - 0xF0) * 64 + payload6 c1) * 64 + payload6 c2) * 64 + payload6 c3) # ms"
proof -
  consider (a) "byte c < 0x80" | (b) "0xC2 \<le> byte c" "byte c \<le> 0xDF"
    | (c) "0xE0 \<le> byte c" "byte c \<le> 0xEF" | (d) "0xF0 \<le> byte c" "byte c \<le> 0xF4"
    | (e) "0x80 \<le> byte c" "byte c < 0xC2" | (f) "0xF4 < byte c"
    by linarith
  then show thesis
  proof cases
    case a
    with assms one show thesis by (auto simp: Let_def)
  next
    case b
    with assms two show thesis by (simp add: Let_def split: if_splits list.splits) blast
  next
    case c
    with assms three show thesis by (simp add: Let_def split: if_splits list.splits) blast
  next
    case d
    with assms four show thesis by (simp add: Let_def split: if_splits list.splits) blast
  qed (use assms in \<open>simp_all add: Let_def\<close>)
qed

declare utf8_decode.simps(2) [simp del]

section \<open>Reading what was written\<close>

lemma horner64 [simp]:
  fixes a y :: nat
  shows "y < 64 \<Longrightarrow> (a * 64 + y) div 64 = a" and "y < 64 \<Longrightarrow> (a * 64 + y) mod 64 = y"
  by simp_all

lemma div64_ge: "k * 64 \<le> n \<Longrightarrow> k \<le> (n :: nat) div 64"
  by (simp add: less_eq_div_iff_mult_less_eq)

lemma div64_less: "(n :: nat) < k * 64 \<Longrightarrow> n div 64 < k"
  by (simp add: less_mult_imp_div_less)

lemma decode_encode_2:
  assumes "0x80 \<le> n" "n < 0x800"
  shows "utf8_decode (utf8_encode_char n @ s) = map_option ((#) n) (utf8_decode s)"
proof -
  have q: "2 \<le> n div 64" "n div 64 < 32" using assms by (auto intro: div64_ge div64_less)
  then have b: "byte (char_of (0xC0 + n div 64)) = 0xC0 + n div 64"
    by (intro byte_char_of) linarith
  have "utf8_encode_char n = [char_of (0xC0 + n div 64), char_of (0x80 + n mod 64)]"
    using assms by (simp add: utf8_encode_char_def)
  then show ?thesis using b q by (simp add: decode_2)
qed

lemma decode_encode_3:
  assumes "0x800 \<le> n" "n < 0x10000" "scalar n"
  shows "utf8_decode (utf8_encode_char n @ s) = map_option ((#) n) (utf8_decode s)"
proof -
  define m where "m = n div 64"
  have m: "32 \<le> m" "m < 1024" using assms(1,2) unfolding m_def
    by (auto intro: div64_ge div64_less)
  have d: "m div 64 < 16" using m by (auto intro: div64_less)
  then have b: "byte (char_of (0xE0 + m div 64)) = 0xE0 + m div 64"
    by (intro byte_char_of) linarith
  have mm: "m div 64 * 64 + m mod 64 = m" by simp
  have lo: "m div 64 = 0 \<Longrightarrow> 32 \<le> m mod 64" using m mm by linarith
  have hi: "m div 64 = 13 \<Longrightarrow> m mod 64 \<le> 31"
  proof -
    assume 13: "m div 64 = 13"
    have "m < 896" using mm 13 mod_less_divisor [of 64 m] by linarith
    then have "n < 0xE000" unfolding m_def by (simp add: less_mult_imp_div_less div_less_iff_less_mult)
    with assms(3) have "n < 864 * 64" by (simp add: scalar_def)
    then have "m < 864" unfolding m_def by (rule div64_less)
    with 13 mm show "m mod 64 \<le> 31" by linarith
  qed
  have "second_of_three (0xE0 + m div 64) (char_of (0x80 + m mod 64))"
    using lo hi by (auto simp: second_of_three_def)
  moreover have "utf8_encode_char n =
      [char_of (0xE0 + m div 64), char_of (0x80 + m mod 64), char_of (0x80 + n mod 64)]"
    using assms by (simp add: utf8_encode_char_def m_def)
  moreover have "m * 64 + n mod 64 = n" by (simp add: m_def)
  ultimately show ?thesis using b d mm by (simp add: decode_3)
qed

lemma decode_encode_4:
  assumes "0x10000 \<le> n" "scalar n"
  shows "utf8_decode (utf8_encode_char n @ s) = map_option ((#) n) (utf8_decode s)"
proof -
  define m where "m = n div 64"
  define l where "l = m div 64"
  from assms have "n < 17408 * 64" by (auto simp: scalar_def)
  then have m: "1024 \<le> m" "m < 17408" using assms(1) unfolding m_def
    by (auto intro: div64_ge div64_less)
  then have l: "16 \<le> l" "l < 272" unfolding l_def by (auto intro: div64_ge div64_less)
  have ll: "l div 64 * 64 + l mod 64 = l" by simp
  have d: "l div 64 < 5" using l by (auto intro: div64_less)
  then have b: "byte (char_of (0xF0 + l div 64)) = 0xF0 + l div 64"
    by (intro byte_char_of) linarith
  have lo: "l div 64 = 0 \<Longrightarrow> 16 \<le> l mod 64" using l ll by linarith
  have hi: "l div 64 = 4 \<Longrightarrow> l mod 64 \<le> 15" using l ll by linarith
  have "second_of_four (0xF0 + l div 64) (char_of (0x80 + l mod 64))"
    using lo hi by (auto simp: second_of_four_def)
  moreover have "utf8_encode_char n =
      [char_of (0xF0 + l div 64), char_of (0x80 + l mod 64), char_of (0x80 + m mod 64),
       char_of (0x80 + n mod 64)]"
    using assms by (simp add: utf8_encode_char_def m_def l_def)
  moreover have "l * 64 + m mod 64 = m" "m * 64 + n mod 64 = n" by (simp_all add: l_def m_def)
  ultimately show ?thesis using b d ll by (simp add: decode_4)
qed

lemma decode_encode_char:
  assumes "scalar n"
  shows "utf8_decode (utf8_encode_char n @ s) = map_option ((#) n) (utf8_decode s)"
proof (cases "n < 0x80")
  case True
  then show ?thesis by (simp add: utf8_encode_char_def byte_char_of decode_1)
next
  case False
  with assms show ?thesis
    using decode_encode_2 decode_encode_3 decode_encode_4 by (meson not_le)
qed

lemma decode_encode:
  "list_all scalar cs \<Longrightarrow> utf8_decode (utf8_encode cs) = Some cs"
  by (induction cs) (auto simp: decode_encode_char)

section \<open>Writing what was read\<close>

lemma continuationE:
  assumes "continuation c"
  obtains y where "y < 64" "c = char_of (128 + y :: nat)" "payload6 c = y"
proof -
  from assms have "128 \<le> byte c" "byte c \<le> 191" by (auto simp: continuation_def)
  then show thesis
    by (intro that [of "byte c - 128"]) (auto simp: payload6_def byte_def)
qed

lemma leadE:
  assumes "k \<le> byte c"
  obtains x where "c = char_of (k + x :: nat)" "byte c = k + x"
  using assms by (intro that [of "byte c - k"]) (auto simp: byte_def)

lemma encode_2:
  assumes "0xC2 \<le> byte c" "byte c \<le> 0xDF" "continuation c1"
  shows "utf8_encode_char ((byte c - 0xC0) * 64 + payload6 c1) = [c, c1]"
    and "scalar ((byte c - 0xC0) * 64 + payload6 c1)"
proof -
  from assms(1) obtain x where x: "c = char_of (0xC0 + x :: nat)" "byte c = 0xC0 + x"
    by (elim leadE [of "0xC0", rotated]) linarith
  from assms(3) obtain y where y: "y < 64" "c1 = char_of (128 + y :: nat)" "payload6 c1 = y"
    by (rule continuationE)
  from assms x have "2 \<le> x" "x \<le> 31" by linarith+
  moreover from y have "(x * 64 + y) div 64 = x" "(x * 64 + y) mod 64 = y" by auto
  ultimately show "utf8_encode_char ((byte c - 0xC0) * 64 + payload6 c1) = [c, c1]"
    and "scalar ((byte c - 0xC0) * 64 + payload6 c1)"
    using x y by (auto simp: utf8_encode_char_def scalar_def)
qed

lemma encode_3:
  assumes "0xE0 \<le> byte c" "byte c \<le> 0xEF" "second_of_three (byte c) c1" "continuation c2"
  defines "n \<equiv> ((byte c - 0xE0) * 64 + payload6 c1) * 64 + payload6 c2"
  shows "utf8_encode_char n = [c, c1, c2]" and "scalar n"
proof -
  from assms(1) obtain x where x: "c = char_of (0xE0 + x :: nat)" "byte c = 0xE0 + x"
    by (rule leadE)
  from assms(3) have "continuation c1" by (simp add: second_of_three_def)
  then obtain y where y: "y < 64" "c1 = char_of (128 + y :: nat)" "payload6 c1 = y"
    by (rule continuationE)
  from assms(4) obtain z where z: "z < 64" "c2 = char_of (128 + z :: nat)" "payload6 c2 = z"
    by (rule continuationE)
  have n: "n = (x * 64 + y) * 64 + z" using x y z by (simp add: n_def)
  then have lin: "n = 4096 * x + 64 * y + z" by simp
  from assms x have x16: "x < 16" by linarith
  from assms(3) x y have lo: "x = 0 \<Longrightarrow> 32 \<le> y" and hi: "x = 13 \<Longrightarrow> y \<le> 31"
    by (auto simp: second_of_three_def)
  have parts: "n div 64 = x * 64 + y" "n mod 64 = z" "(x * 64 + y) div 64 = x"
      "(x * 64 + y) mod 64 = y"
    unfolding n using y(1) z(1) by (simp_all only: horner64)
  have "x = 0 \<and> 32 \<le> y \<or> 1 \<le> x" using lo by linarith
  then have ge: "0x800 \<le> n" using lin by (elim disjE conjE; linarith)
  have lt: "n < 0x10000" using x16 y(1) z(1) lin by linarith
  consider "x < 13" | "x = 13" | "13 < x" by linarith
  then show "scalar n"
  proof cases
    case 1
    then have "n < 0xD800" using y(1) z(1) lin by linarith
    then show ?thesis by (simp add: scalar_def)
  next
    case 2
    then have "n < 0xD800" using hi z(1) lin by linarith
    then show ?thesis by (simp add: scalar_def)
  next
    case 3
    then have "0xE000 \<le> n" using lin by linarith
    with lt show ?thesis by (simp add: scalar_def)
  qed
  have "utf8_encode_char n =
      [char_of (0xE0 + n div 64 div 64), char_of (0x80 + n div 64 mod 64), char_of (0x80 + n mod 64)]"
    using ge lt by (simp add: utf8_encode_char_def)
  then show "utf8_encode_char n = [c, c1, c2]" unfolding parts using x y z by simp
qed

lemma encode_4:
  assumes "0xF0 \<le> byte c" "byte c \<le> 0xF4" "second_of_four (byte c) c1" "continuation c2"
    "continuation c3"
  defines "n \<equiv> (((byte c - 0xF0) * 64 + payload6 c1) * 64 + payload6 c2) * 64 + payload6 c3"
  shows "utf8_encode_char n = [c, c1, c2, c3]" and "scalar n"
proof -
  from assms(1) obtain x where x: "c = char_of (0xF0 + x :: nat)" "byte c = 0xF0 + x"
    by (rule leadE)
  from assms(3) have "continuation c1" by (simp add: second_of_four_def)
  then obtain y where y: "y < 64" "c1 = char_of (128 + y :: nat)" "payload6 c1 = y"
    by (rule continuationE)
  from assms(4) obtain z where z: "z < 64" "c2 = char_of (128 + z :: nat)" "payload6 c2 = z"
    by (rule continuationE)
  from assms(5) obtain w where w: "w < 64" "c3 = char_of (128 + w :: nat)" "payload6 c3 = w"
    by (rule continuationE)
  have n: "n = ((x * 64 + y) * 64 + z) * 64 + w" using x y z w by (simp add: n_def)
  then have lin: "n = 262144 * x + 4096 * y + 64 * z + w" by simp
  from assms x have x4: "x \<le> 4" by linarith
  from assms(3) x y have lo: "x = 0 \<Longrightarrow> 16 \<le> y" and hi: "x = 4 \<Longrightarrow> y \<le> 15"
    by (auto simp: second_of_four_def)
  have parts: "n div 64 = (x * 64 + y) * 64 + z" "n mod 64 = w"
      "((x * 64 + y) * 64 + z) div 64 = x * 64 + y" "((x * 64 + y) * 64 + z) mod 64 = z"
      "(x * 64 + y) div 64 = x" "(x * 64 + y) mod 64 = y"
    unfolding n using y(1) z(1) w(1) by (simp_all only: horner64)
  have "x = 0 \<and> 16 \<le> y \<or> 1 \<le> x" using lo by linarith
  then have ge: "0x10000 \<le> n" using lin by (elim disjE conjE; linarith)
  have "x = 4 \<and> y \<le> 15 \<or> x \<le> 3" using x4 hi by linarith
  then have "n \<le> 0x10FFFF" using y(1) z(1) w(1) lin by (elim disjE conjE; linarith)
  with ge show "scalar n" by (simp add: scalar_def)
  have "utf8_encode_char n =
      [char_of (0xF0 + n div 64 div 64 div 64), char_of (0x80 + n div 64 div 64 mod 64),
       char_of (0x80 + n div 64 mod 64), char_of (0x80 + n mod 64)]"
    using ge by (simp add: utf8_encode_char_def)
  then show "utf8_encode_char n = [c, c1, c2, c3]" unfolding parts using x y z w by simp
qed

lemma encode_1: "byte c < 0x80 \<Longrightarrow> utf8_encode_char (byte c) = [c] \<and> scalar (byte c)"
  by (simp add: utf8_encode_char_def byte_def scalar_def)

lemma encode_decode:
  "utf8_decode s = Some cs \<Longrightarrow> utf8_encode cs = s \<and> list_all scalar cs"
proof (induction "length s" arbitrary: s cs rule: less_induct)
  case less
  show ?case
  proof (cases s)
    case Nil
    with less.prems show ?thesis by simp
  next
    case (Cons c t)
    with less.prems have "utf8_decode (c # t) = Some cs" by simp
    then show ?thesis
    proof (cases rule: decode_Cons_cases)
      case (one ms)
      with less.hyps [of t ms] Cons show ?thesis using encode_1 by simp
    next
      case (two c1 r ms)
      with less.hyps [of r ms] Cons show ?thesis using encode_2 [of c c1] by simp
    next
      case (three c1 c2 r ms)
      with less.hyps [of r ms] Cons show ?thesis using encode_3 [of c c1 c2] by simp
    next
      case (four c1 c2 c3 r ms)
      with less.hyps [of r ms] Cons show ?thesis using encode_4 [of c c1 c2 c3] by simp
    qed
  qed
qed

lemma decode_inj: "utf8_decode s = Some cs \<Longrightarrow> utf8_decode t = Some cs \<Longrightarrow> s = t"
  by (metis encode_decode)

lemma decode_ascii: "\<forall>c \<in> set s. byte c < 0x80 \<Longrightarrow> utf8_decode s = Some (map byte s)"
  by (induction s) (auto simp: decode_1)

lemma valid_utf8_ascii: "\<forall>c \<in> set s. byte c < 0x80 \<Longrightarrow> valid_utf8 s"
  by (simp add: valid_utf8_def decode_ascii)

section \<open>White space and trimming\<close>

text \<open>\<open>char::is_whitespace\<close>: the Unicode property \<open>White_Space\<close>.\<close>

definition is_whitespace :: "nat \<Rightarrow> bool" where
  "is_whitespace n \<longleftrightarrow>
     (9 \<le> n \<and> n \<le> 13) \<or> n = 0x20 \<or> n = 0x85 \<or> n = 0xA0 \<or> n = 0x1680 \<or>
     (0x2000 \<le> n \<and> n \<le> 0x200A) \<or> n = 0x2028 \<or> n = 0x2029 \<or> n = 0x202F \<or> n = 0x205F \<or>
     n = 0x3000"

definition trim_end_chars :: "nat list \<Rightarrow> nat list" where
  "trim_end_chars cs = rev (dropWhile is_whitespace (rev cs))"

definition trim_chars :: "nat list \<Rightarrow> nat list" where
  "trim_chars cs = trim_end_chars (dropWhile is_whitespace cs)"

definition trim_end :: "string \<Rightarrow> string" where
  "trim_end s = utf8_encode (trim_end_chars (str_chars s))"

definition trim :: "string \<Rightarrow> string" where
  "trim s = utf8_encode (trim_chars (str_chars s))"

end
