(* ===== verification/Ssh_Frame.thy ===== *)
theory Ssh_Frame
  imports Wire_Codec Utf8 "HOL-Library.Word"
begin

text \<open>
  The CXSB1 frames of the session between the bridge and the remote side.  The bridge's
  reader and writer are \<open>src/ssh/frame.rs\<close>; the helper's are \<open>src/remote_helper_protocol.rs\<close>,
  a second implementation of the same wire format.

  A buffered reader is the list of the buffers that \<open>fill_buf\<close> will return, in order, and
  what comes after the last one: the end of the file or a transport error.  A writer is a
  parameter (its \<open>write_all\<close>), so that the order of the two writes and the propagation of
  a failed one are part of the model.
\<close>

section \<open>Readers and writers\<close>

datatype io_kind = UnexpectedEof | InvalidData | InvalidInput | Other_Kind string

record io_err =
  io_kind :: io_kind
  io_message :: string

definition io_new :: "io_kind \<Rightarrow> string \<Rightarrow> io_err" where
  "io_new kind message = \<lparr>io_kind = kind, io_message = message\<rparr>"

datatype stream_end = Eof | Broken io_err

record reader =
  rd_buffers :: "string list"
  rd_end :: stream_end

definition wf_reader :: "reader \<Rightarrow> bool" where
  "wf_reader r \<longleftrightarrow> [] \<notin> set (rd_buffers r)"

definition fill_buf :: "reader \<Rightarrow> io_err + string" where
  "fill_buf r =
     (case rd_buffers r of
        b # _ \<Rightarrow> Inr b
      | [] \<Rightarrow> (case rd_end r of Eof \<Rightarrow> Inr [] | Broken e \<Rightarrow> Inl e))"

definition consume :: "nat \<Rightarrow> reader \<Rightarrow> reader" where
  "consume n r =
     (case rd_buffers r of
        [] \<Rightarrow> r
      | b # bs \<Rightarrow> r\<lparr>rd_buffers := (if n < length b then drop n b # bs else bs)\<rparr>)"

definition early_eof :: io_err where
  "early_eof = io_new UnexpectedEof ''early eof''"

fun read_exact_buffers :: "nat \<Rightarrow> string list \<Rightarrow> stream_end \<Rightarrow> (io_err + string) \<times> string list" where
  "read_exact_buffers n [] e =
     (if n = 0 then (Inr [], [])
      else (case e of Eof \<Rightarrow> (Inl early_eof, []) | Broken x \<Rightarrow> (Inl x, [])))"
| "read_exact_buffers n (b # bs) e =
     (if n = 0 then (Inr [], b # bs)
      else if n < length b then (Inr (take n b), drop n b # bs)
      else (case read_exact_buffers (n - length b) bs e of
              (Inl x, rest) \<Rightarrow> (Inl x, rest)
            | (Inr s, rest) \<Rightarrow> (Inr (b @ s), rest)))"

definition read_exact :: "nat \<Rightarrow> reader \<Rightarrow> (io_err + string) \<times> reader" where
  "read_exact n r =
     (case read_exact_buffers n (rd_buffers r) (rd_end r) of
        (res, rest) \<Rightarrow> (res, r\<lparr>rd_buffers := rest\<rparr>))"

section \<open>Frames\<close>

definition MAGIC :: string where
  "MAGIC = ''CXSB1''"

definition MAX_HEADER_BYTES :: nat where
  "MAX_HEADER_BYTES = 256"

datatype frame_kind =
    Hello
  | HelloAck
  | Open
  | Data
  | Cancel
  | Close
  | Ready
  | Stdout
  | Stderr
  | Exit
  | Error

fun as_token :: "frame_kind \<Rightarrow> string" where
  "as_token Hello = ''HELLO''"
| "as_token HelloAck = ''HELLO_ACK''"
| "as_token Open = ''OPEN''"
| "as_token Data = ''DATA''"
| "as_token Cancel = ''CANCEL''"
| "as_token Close = ''CLOSE''"
| "as_token Ready = ''READY''"
| "as_token Stdout = ''STDOUT''"
| "as_token Stderr = ''STDERR''"
| "as_token Exit = ''EXIT''"
| "as_token Error = ''ERROR''"

definition from_token :: "string \<Rightarrow> frame_kind option" where
  "from_token token =
     (if token = ''HELLO'' then Some Hello
      else if token = ''HELLO_ACK'' then Some HelloAck
      else if token = ''OPEN'' then Some Open
      else if token = ''DATA'' then Some Data
      else if token = ''CANCEL'' then Some Cancel
      else if token = ''CLOSE'' then Some Close
      else if token = ''READY'' then Some Ready
      else if token = ''STDOUT'' then Some Stdout
      else if token = ''STDERR'' then Some Stderr
      else if token = ''EXIT'' then Some Exit
      else if token = ''ERROR'' then Some Error
      else None)"

record frame =
  fr_kind :: frame_kind
  fr_request_id :: "64 word"
  fr_payload :: string

definition header_byte :: "char \<Rightarrow> bool" where
  "header_byte c \<longleftrightarrow> 0x20 \<le> byte c \<and> byte c < 0x7F"

definition not_ascii :: io_err where
  "not_ascii = io_new InvalidData ''SSH bridge frame header is not ASCII''"

definition header_too_long :: io_err where
  "header_too_long =
     io_new InvalidData ''SSH bridge frame header exceeds the configured bound''"

definition truncated_header :: io_err where
  "truncated_header = io_new UnexpectedEof ''truncated SSH bridge frame header''"

definition truncated_payload :: io_err where
  "truncated_payload = io_new UnexpectedEof ''truncated SSH bridge frame payload''"

text \<open>
  The header loop of \<open>read_frame\<close>: \<open>Inr None\<close> is the clean end of the stream between two
  frames.
\<close>

function read_header :: "reader \<Rightarrow> string \<Rightarrow> (io_err + string option) \<times> reader" where
  "read_header r header =
     (case fill_buf r of
        Inl e \<Rightarrow> (Inl e, r)
      | Inr buffered \<Rightarrow>
          if buffered = [] then
            (if header = [] then (Inr None, r) else (Inl truncated_header, r))
          else
            (let newline = position (\<lambda>b. b = LF) buffered;
                 content_len = (case newline of Some i \<Rightarrow> i | None \<Rightarrow> length buffered);
                 remaining = MAX_HEADER_BYTES - length header;
                 accepted = min content_len remaining
             in if \<not> list_all header_byte (take accepted buffered) then (Inl not_ascii, r)
                else if remaining < content_len then (Inl header_too_long, r)
                else
                  (let header' = header @ take content_len buffered;
                       r' = consume (content_len + (if newline = None then 0 else 1)) r
                   in if newline \<noteq> None then (Inr (Some header'), r')
                      else read_header r' header')))"
  by pat_completeness auto
termination
  by (relation "measure (\<lambda>(r, header). length (rd_buffers r))")
     (auto simp: fill_buf_def consume_def split: list.splits stream_end.splits)

declare read_header.simps [simp del]

definition field :: "string list \<Rightarrow> nat \<Rightarrow> string option" where
  "field fs i = (if i < length fs then Some (fs ! i) else None)"

definition malformed_header :: io_err where
  "malformed_header = io_new InvalidData ''malformed SSH bridge frame header''"

definition parse_header :: "nat \<Rightarrow> string \<Rightarrow> io_err + (frame_kind \<times> 64 word \<times> nat)" where
  "parse_header max_payload header =
     (if \<not> valid_utf8 header then
        Inl (io_new InvalidData ''SSH bridge frame header is not UTF-8'')
      else
        (let fs = split_ascii_whitespace header in
         case (field fs 0, field fs 1, field fs 2, field fs 3) of
           (magic, Some kind, Some request_id, Some payload_len) \<Rightarrow>
             if magic \<noteq> Some MAGIC \<or> field fs 4 \<noteq> None then Inl malformed_header
             else
               bindR (ok_or (io_new InvalidData ''unknown SSH bridge frame kind'')
                        (from_token kind)) (\<lambda>kind.
               bindR (ok_or (io_new InvalidData ''invalid SSH bridge frame request id'')
                        (parse_unsigned u64_max request_id)) (\<lambda>request_id.
               bindR (ok_or (io_new InvalidData ''invalid SSH bridge frame payload length'')
                        (parse_unsigned usize_max payload_len)) (\<lambda>payload_len.
               if max_payload < payload_len then
                 Inl (io_new InvalidData
                        ''SSH bridge frame payload exceeds the configured bound'')
               else Inr (kind, word_of_nat request_id, payload_len))))
         | _ \<Rightarrow> Inl malformed_header))"

definition read_frame :: "reader \<Rightarrow> nat \<Rightarrow> (io_err + frame option) \<times> reader" where
  "read_frame r max_payload =
     (case read_header r [] of
        (Inl e, r') \<Rightarrow> (Inl e, r')
      | (Inr None, r') \<Rightarrow> (Inr None, r')
      | (Inr (Some header), r') \<Rightarrow>
          (case parse_header max_payload header of
             Inl e \<Rightarrow> (Inl e, r')
           | Inr (kind, request_id, payload_len) \<Rightarrow>
               (case read_exact payload_len r' of
                  (Inl e, r'') \<Rightarrow>
                    (Inl (if io_kind e = UnexpectedEof then truncated_payload else e), r'')
                | (Inr payload, r'') \<Rightarrow>
                    (Inr (Some \<lparr>fr_kind = kind, fr_request_id = request_id,
                                fr_payload = payload\<rparr>), r''))))"

definition frame_header :: "frame \<Rightarrow> string" where
  "frame_header frame =
     MAGIC @ [SP] @ as_token (fr_kind frame) @ [SP] @ decimal (unat (fr_request_id frame)) @
     [SP] @ decimal (length (fr_payload frame)) @ [LF]"

definition write_frame ::
  "('w \<Rightarrow> string \<Rightarrow> (io_err + unit) \<times> 'w) \<Rightarrow> 'w \<Rightarrow> frame \<Rightarrow> nat \<Rightarrow> (io_err + unit) \<times> 'w" where
  "write_frame write_all w frame max_payload =
     (if max_payload < length (fr_payload frame) then
        (Inl (io_new InvalidInput ''SSH bridge frame payload exceeds the configured bound''), w)
      else if MAX_HEADER_BYTES < length (frame_header frame) then
        (Inl (io_new InvalidInput ''SSH bridge frame header exceeds the configured bound''), w)
      else
        (case write_all w (frame_header frame) of
           (Inl e, w') \<Rightarrow> (Inl e, w')
         | (Inr _, w') \<Rightarrow> write_all w' (fr_payload frame)))"

text \<open>\<open>impl Write for Vec<u8>\<close>: every write succeeds and appends.\<close>

definition vec_write_all :: "string \<Rightarrow> string \<Rightarrow> (io_err + unit) \<times> string" where
  "vec_write_all w bytes = (Inr (), w @ bytes)"

section \<open>The result does not depend on how the bytes arrive\<close>

text \<open>The header read from the bytes of the stream as one string.\<close>

definition flat_header :: "string \<Rightarrow> string \<Rightarrow> stream_end \<Rightarrow> (io_err + string option) \<times> string" where
  "flat_header h s e =
     (let newline = position (\<lambda>b. b = LF) s;
          content = (case newline of Some i \<Rightarrow> take i s | None \<Rightarrow> s);
          remaining = MAX_HEADER_BYTES - length h
      in if \<not> list_all header_byte (take remaining content) then (Inl not_ascii, s)
         else if remaining < length content then (Inl header_too_long, s)
         else (case newline of
                 Some i \<Rightarrow> (Inr (Some (h @ content)), drop (i + 1) s)
               | None \<Rightarrow>
                   (case e of
                      Broken x \<Rightarrow> (Inl x, [])
                    | Eof \<Rightarrow> if h @ s = [] then (Inr None, []) else (Inl truncated_header, []))))"

definition flat_exact :: "nat \<Rightarrow> string \<Rightarrow> stream_end \<Rightarrow> (io_err + string) \<times> string" where
  "flat_exact n s e =
     (if n \<le> length s then (Inr (take n s), drop n s)
      else (case e of Eof \<Rightarrow> (Inl early_eof, []) | Broken x \<Rightarrow> (Inl x, [])))"

definition flat_frame :: "string \<Rightarrow> stream_end \<Rightarrow> nat \<Rightarrow> (io_err + frame option) \<times> string" where
  "flat_frame s e max_payload =
     (case flat_header [] s e of
        (Inl x, t) \<Rightarrow> (Inl x, t)
      | (Inr None, t) \<Rightarrow> (Inr None, t)
      | (Inr (Some header), t) \<Rightarrow>
          (case parse_header max_payload header of
             Inl x \<Rightarrow> (Inl x, t)
           | Inr (kind, request_id, payload_len) \<Rightarrow>
               (case flat_exact payload_len t e of
                  (Inl x, u) \<Rightarrow>
                    (Inl (if io_kind x = UnexpectedEof then truncated_payload else x), u)
                | (Inr payload, u) \<Rightarrow>
                    (Inr (Some \<lparr>fr_kind = kind, fr_request_id = request_id,
                                fr_payload = payload\<rparr>), u))))"

lemma flat_header_step:
  assumes "position (\<lambda>b. b = LF) b = None" and "length b \<le> MAX_HEADER_BYTES - length h"
    and "list_all header_byte b"
  shows "fst (flat_header h (b @ s) e) = fst (flat_header (h @ b) s e)"
    and "is_ok (fst (flat_header (h @ b) s e)) \<Longrightarrow>
         snd (flat_header h (b @ s) e) = snd (flat_header (h @ b) s e)"
  using assms
  by (cases "position (\<lambda>b. b = LF) s";
      auto simp: flat_header_def Let_def position_append_miss diff_diff_eq
        split: stream_end.splits)+

lemma flat_header_miss_error:
  assumes "position (\<lambda>b. b = LF) b = None"
    and "\<not> list_all header_byte (take (MAX_HEADER_BYTES - length h) b)"
  shows "fst (flat_header h (b @ s) e) = Inl not_ascii"
  using assms
  by (cases "position (\<lambda>b. b = LF) s") (auto simp: flat_header_def Let_def position_append_miss)

lemma flat_header_miss_long:
  assumes "position (\<lambda>b. b = LF) b = None"
    and "list_all header_byte (take (MAX_HEADER_BYTES - length h) b)"
    and "MAX_HEADER_BYTES - length h < length b"
  shows "fst (flat_header h (b @ s) e) = Inl header_too_long"
  using assms
  by (cases "position (\<lambda>b. b = LF) s") (auto simp: flat_header_def Let_def position_append_miss)

lemma flat_header_hit:
  assumes "position (\<lambda>b. b = LF) b = Some i"
  shows "flat_header h (b @ s) e = 
    (if \<not> list_all header_byte (take (MAX_HEADER_BYTES - length h) (take i b)) then (Inl not_ascii, b @ s)
     else if MAX_HEADER_BYTES - length h < i then (Inl header_too_long, b @ s)
     else (Inr (Some (h @ take i b)), drop (i + 1) b @ s))"
  using assms position_less [OF assms]
  by (simp add: flat_header_def Let_def position_append_Some)

lemma take_min_length: "take (min (length b) k) b = take k b"
  by (simp add: min_def)

definition header_agrees ::
  "reader \<Rightarrow> (io_err + string option) \<times> reader \<Rightarrow> (io_err + string option) \<times> string \<Rightarrow> bool" where
  "header_agrees r res flat \<longleftrightarrow>
     fst res = fst flat \<and>
     (is_ok (fst res) \<longrightarrow> concat (rd_buffers (snd res)) = snd flat \<and> wf_reader (snd res) \<and>
        rd_end (snd res) = rd_end r)"

lemma header_agrees_error: "fst flat = Inl e \<Longrightarrow> header_agrees r (Inl e, r') flat"
  by (simp add: header_agrees_def)

lemma wf_reader_consume:
  assumes "wf_reader r" shows "wf_reader (consume n r)"
proof (cases "rd_buffers r")
  case (Cons b bs)
  have "n < length b \<Longrightarrow> drop n b \<noteq> []" by simp
  with assms Cons show ?thesis by (auto simp: wf_reader_def consume_def)
qed (use assms in \<open>simp add: wf_reader_def consume_def\<close>)

lemma concat_consume:
  "rd_buffers r = b # bs \<Longrightarrow> n \<le> length b \<Longrightarrow>
     concat (rd_buffers (consume n r)) = drop n b @ concat bs"
  by (auto simp: consume_def)

lemma rd_end_consume [simp]: "rd_end (consume n r) = rd_end r"
  by (auto simp: consume_def split: list.splits)

lemma read_header_flat:
  assumes "wf_reader r" and "length h \<le> MAX_HEADER_BYTES"
  shows "header_agrees r (read_header r h) (flat_header h (concat (rd_buffers r)) (rd_end r))"
  using assms
proof (induction r h rule: read_header.induct)
  case (1 r h)
  show ?case
  proof (cases "rd_buffers r")
    case Nil
    with "1.prems" show ?thesis
      by (subst read_header.simps)
         (auto simp: fill_buf_def header_agrees_def flat_header_def Let_def wf_reader_def
           split: stream_end.splits)
  next
    case (Cons b bs)
    then have b: "b \<noteq> []" "fill_buf r = Inr b"
      using "1.prems"(1) by (auto simp: wf_reader_def fill_buf_def)
    show ?thesis
    proof (cases "position (\<lambda>b. b = LF) b")
      case (Some i)
      then have i: "i < length b" by (rule position_less)
      then have "take (min i (MAX_HEADER_BYTES - length h)) b =
          take (MAX_HEADER_BYTES - length h) (take i b)" by (simp add: min.commute)
      moreover have "concat (rd_buffers (consume (Suc i) r)) = drop (Suc i) b @ concat bs"
        using Cons i by (intro concat_consume) auto
      ultimately show ?thesis
        using b Some Cons "1.prems"(1) wf_reader_consume
        by (subst read_header.simps) (simp add: header_agrees_def flat_header_hit Let_def)
    next
      case None
      let ?k = "MAX_HEADER_BYTES - length h"
      consider (bad) "\<not> list_all header_byte (take ?k b)"
        | (long) "list_all header_byte (take ?k b)" "?k < length b"
        | (go) "list_all header_byte b" "length b \<le> ?k"
        by (metis leI take_all)
      then show ?thesis
      proof cases
        case bad
        with b None Cons show ?thesis
          by (subst read_header.simps)
             (simp add: Let_def take_min_length header_agrees_error flat_header_miss_error)
      next
        case long
        with b None Cons show ?thesis
          by (subst read_header.simps)
             (simp add: Let_def take_min_length header_agrees_error flat_header_miss_long)
      next
        case go
        let ?r' = "consume (length b) r"
        have r': "rd_buffers ?r' = bs" "wf_reader ?r'"
          using Cons "1.prems"(1) by (auto simp: consume_def wf_reader_def)
        have "length (h @ b) \<le> MAX_HEADER_BYTES" using go "1.prems"(2) by simp
        then have "header_agrees ?r' (read_header ?r' (h @ b))
            (flat_header (h @ b) (concat bs) (rd_end r))"
          using "1.IH" [OF b(2) b(1) refl refl refl refl] None go r' by (simp add: Let_def)
        moreover have "read_header r h = read_header ?r' (h @ b)"
          using b None go by (subst read_header.simps) (simp add: Let_def)
        ultimately show ?thesis
          using Cons flat_header_step [OF None go(2,1)]
          by (simp add: header_agrees_def)
      qed
    qed
  qed
qed

lemma read_exact_flat:
  assumes "[] \<notin> set bs"
  shows "fst (read_exact_buffers n bs e) = fst (flat_exact n (concat bs) e)"
    and "is_ok (fst (read_exact_buffers n bs e)) \<Longrightarrow>
         concat (snd (read_exact_buffers n bs e)) = snd (flat_exact n (concat bs) e) \<and>
         [] \<notin> set (snd (read_exact_buffers n bs e))"
  using assms
proof (induction n bs e rule: read_exact_buffers.induct)
  case (2 n b bs e)
  { case 1
    with 2 show ?case by (auto simp: flat_exact_def split: sum.splits prod.splits if_splits stream_end.splits)
  next
    case 2
    with "2.IH" show ?case
      by (auto simp: flat_exact_def split: sum.splits prod.splits if_splits stream_end.splits)
  }
qed (auto simp: flat_exact_def split: stream_end.splits)

lemma read_exact_reader:
  assumes "wf_reader r"
  shows "fst (read_exact n r) = fst (flat_exact n (concat (rd_buffers r)) (rd_end r))"
    and "is_ok (fst (read_exact n r)) \<Longrightarrow>
      concat (rd_buffers (snd (read_exact n r))) = snd (flat_exact n (concat (rd_buffers r)) (rd_end r))
      \<and> wf_reader (snd (read_exact n r)) \<and> rd_end (snd (read_exact n r)) = rd_end r"
  using assms read_exact_flat [of "rd_buffers r" n "rd_end r"]
  by (auto simp: read_exact_def wf_reader_def split: prod.splits)

definition frame_agrees ::
  "reader \<Rightarrow> (io_err + frame option) \<times> reader \<Rightarrow> (io_err + frame option) \<times> string \<Rightarrow> bool" where
  "frame_agrees r res flat \<longleftrightarrow>
     fst res = fst flat \<and>
     (is_ok (fst res) \<longrightarrow> concat (rd_buffers (snd res)) = snd flat \<and> wf_reader (snd res) \<and>
        rd_end (snd res) = rd_end r)"

lemma read_frame_flat:
  assumes "wf_reader r"
  shows "frame_agrees r (read_frame r m) (flat_frame (concat (rd_buffers r)) (rd_end r) m)"
proof -
  obtain res r' where res: "read_header r [] = (res, r')" by force
  obtain fl t where fl: "flat_header [] (concat (rd_buffers r)) (rd_end r) = (fl, t)" by force
  have agree: "header_agrees r (res, r') (fl, t)"
    using read_header_flat [OF assms, of "[]"] by (simp add: res fl)
  show ?thesis
  proof (cases res)
    case (Inl e)
    with agree have "fl = Inl e" by (simp add: header_agrees_def)
    with Inl res fl show ?thesis
      by (simp add: frame_agrees_def read_frame_def flat_frame_def)
  next
    case (Inr h)
    with agree have r': "fl = Inr h" "concat (rd_buffers r') = t" "wf_reader r'" "rd_end r' = rd_end r"
      by (auto simp: header_agrees_def)
    show ?thesis
    proof (cases h)
      case None
      with Inr r' res fl show ?thesis
        by (simp add: frame_agrees_def read_frame_def flat_frame_def)
    next
      case (Some header)
      show ?thesis
      proof (cases "parse_header m header")
        case (Inl e)
        with Inr Some r' res fl show ?thesis
          by (simp add: frame_agrees_def read_frame_def flat_frame_def)
      next
        case ok: (Inr a)
        obtain kind request_id payload_len where a: "a = (kind, request_id, payload_len)"
          by (cases a) auto
        from read_exact_reader [OF r'(3), of payload_len] r'(2,4) Inr Some ok a r'(1) res fl
        show ?thesis
          by (auto simp: frame_agrees_def read_frame_def flat_frame_def split: prod.splits sum.splits)
      qed
    qed
  qed
qed

section \<open>Reading what was written\<close>

definition frame_wf :: "nat \<Rightarrow> frame \<Rightarrow> bool" where
  "frame_wf max_payload f \<longleftrightarrow>
     length (fr_payload f) \<le> max_payload \<and> length (fr_payload f) \<le> usize_max"

definition frame_wire :: "frame \<Rightarrow> string" where
  "frame_wire f = frame_header f @ fr_payload f"

definition decode_frame :: "nat \<Rightarrow> string \<Rightarrow> (frame \<times> string) option" where
  "decode_frame m s = (case flat_frame s Eof m of (Inr (Some f), r) \<Rightarrow> Some (f, r) | _ \<Rightarrow> None)"

lemma from_token_as_token [simp]: "from_token (as_token k) = Some k"
  by (cases k) (simp_all add: from_token_def)

lemma from_token_Some: "from_token t = Some k \<Longrightarrow> t = as_token k"
  by (auto simp: from_token_def split: if_splits)

lemma word_char: "is_ascii_digit c \<Longrightarrow> \<not> is_ascii_whitespace c \<and> header_byte c \<and> c \<noteq> LF"
  by (auto simp: is_ascii_digit_def is_ascii_whitespace_def header_byte_def byte_def)

lemma token_words: "c \<in> set (as_token k) \<union> set MAGIC \<Longrightarrow>
    \<not> is_ascii_whitespace c \<and> header_byte c \<and> c \<noteq> LF"
  by (cases k) (auto simp: MAGIC_def is_ascii_whitespace_def header_byte_def byte_def)

lemma token_nonempty [simp]: "as_token k \<noteq> []" "MAGIC \<noteq> []"
  by (cases k) (auto simp: MAGIC_def)

lemma header_ascii_valid: "list_all header_byte h \<Longrightarrow> valid_utf8 h"
  by (rule valid_utf8_ascii) (auto simp: list_all_iff header_byte_def)

definition header_line :: "frame \<Rightarrow> string" where
  "header_line f =
     MAGIC @ [SP] @ as_token (fr_kind f) @ [SP] @ decimal (unat (fr_request_id f)) @
     [SP] @ decimal (length (fr_payload f))"

lemma frame_header_line: "frame_header f = header_line f @ [LF]"
  by (simp add: frame_header_def header_line_def)

lemma SP_props: "is_ascii_whitespace SP" "header_byte SP" "SP \<noteq> LF"
  by (simp_all add: is_ascii_whitespace_def header_byte_def byte_def)

lemma header_line_bytes: "list_all header_byte (header_line f) \<and> LF \<notin> set (header_line f)"
  using SP_props token_words word_char decimal_set
  by (fastforce simp: header_line_def list_all_iff)

lemma header_line_words:
  "split_ascii_whitespace (header_line f) =
     [MAGIC, as_token (fr_kind f), decimal (unat (fr_request_id f)),
      decimal (length (fr_payload f))]"
proof -
  have free: "\<forall>x \<in> set MAGIC. \<not> is_ascii_whitespace x" "\<forall>x \<in> set (as_token k). \<not> is_ascii_whitespace x"
    "\<forall>x \<in> set (decimal n). \<not> is_ascii_whitespace x" for k n
    using token_words word_char decimal_set by blast+
  show ?thesis
    unfolding split_ascii_whitespace_def header_line_def
    using words_by_sep [OF free(1) token_nonempty(2) SP_props(1)]
      words_by_sep [OF free(2) token_nonempty(1) SP_props(1)]
      words_by_sep [OF free(3) decimal_nonempty SP_props(1)]
      words_by_last [OF free(3) decimal_nonempty]
    by simp
qed

lemma unat_u64_max: "unat (w :: 64 word) \<le> u64_max"
  using unsigned_less [of w, where 'a = nat] by (simp add: u64_max_def)

lemma parse_header_line:
  assumes "frame_wf m f"
  shows "parse_header m (header_line f) =
    Inr (fr_kind f, fr_request_id f, length (fr_payload f))"
  using assms header_line_bytes [of f] unat_u64_max [of "fr_request_id f"]
  by (simp add: parse_header_def header_line_words header_ascii_valid Let_def field_def
      parse_decimal_roundtrip frame_wf_def)

lemma length_decimal_u64: "n \<le> u64_max \<Longrightarrow> length (decimal n) \<le> 20"
  by (rule length_decimal) (auto simp: u64_max_def)

lemma length_header_line:
  assumes "frame_wf m f"
  shows "length (header_line f) \<le> 57"
proof -
  have "length (as_token (fr_kind f)) \<le> 9" by (cases "fr_kind f") auto
  moreover have "length (decimal (unat (fr_request_id f))) \<le> 20"
    by (rule length_decimal_u64) (rule unat_u64_max)
  moreover have "length (decimal (length (fr_payload f))) \<le> 20"
    using assms by (intro length_decimal_u64) (simp add: frame_wf_def)
  ultimately show ?thesis by (simp add: header_line_def MAGIC_def)
qed

lemma flat_header_frame:
  assumes "frame_wf m f"
  shows "flat_header [] (frame_wire f @ rest) e = (Inr (Some (header_line f)), fr_payload f @ rest)"
proof -
  have "position (\<lambda>b. b = LF) (header_line f @ LF # fr_payload f @ rest) = Some (length (header_line f))"
    using header_line_bytes by (intro position_append_hit) auto
  then show ?thesis
    using header_line_bytes [of f] length_header_line [OF assms]
    by (simp add: flat_header_def frame_wire_def frame_header_line MAX_HEADER_BYTES_def)
qed

lemma flat_frame_wire:
  assumes "frame_wf m f"
  shows "flat_frame (frame_wire f @ rest) e m = (Inr (Some f), rest)"
  using assms
  by (simp add: flat_frame_def flat_header_frame parse_header_line flat_exact_def)

lemma decode_frame_empty: "decode_frame m [] = None"
  by (simp add: decode_frame_def flat_frame_def flat_header_def)

lemma decode_frame_wire:
  "frame_wf m f \<Longrightarrow> decode_frame m (frame_wire f @ rest) = Some (f, rest)"
  by (simp add: decode_frame_def flat_frame_wire)

interpretation cxsb1: wire_codec "frame_wf m" frame_wire "decode_frame m" for m :: nat
  by unfold_locales (simp_all add: decode_frame_empty decode_frame_wire)

text \<open>Writing to a vector appends exactly the wire form, or rejects an oversized payload.\<close>

lemma write_frame_vec:
  assumes "length (fr_payload f) \<le> usize_max"
  shows "write_frame vec_write_all w f m =
    (if m < length (fr_payload f)
     then (Inl (io_new InvalidInput ''SSH bridge frame payload exceeds the configured bound''), w)
     else (Inr (), w @ frame_wire f))"
proof -
  have "length (frame_header f) \<le> MAX_HEADER_BYTES"
    using length_header_line [of "length (fr_payload f)" f] assms
    by (simp add: frame_header_line MAX_HEADER_BYTES_def frame_wf_def)
  then show ?thesis
    by (simp add: write_frame_def vec_write_all_def frame_wire_def)
qed

text \<open>A loop that reads frames until it has \<open>n\<close> of them.\<close>

fun read_frames :: "nat \<Rightarrow> reader \<Rightarrow> nat \<Rightarrow> frame list \<times> reader" where
  "read_frames 0 r m = ([], r)"
| "read_frames (Suc n) r m =
     (case read_frame r m of
        (Inr (Some f), r') \<Rightarrow> (case read_frames n r' m of (fs, r'') \<Rightarrow> (f # fs, r''))
      | (_, r') \<Rightarrow> ([], r))"

lemma read_frames_stream:
  assumes "wf_reader r" and "list_all (frame_wf m) fs"
    and "concat (rd_buffers r) = concat (map frame_wire fs) @ rest"
  shows "\<exists>r'. read_frames (length fs) r m = (fs, r') \<and> concat (rd_buffers r') = rest \<and>
           wf_reader r' \<and> rd_end r' = rd_end r"
  using assms
proof (induction fs arbitrary: r)
  case (Cons f fs)
  have "flat_frame (concat (rd_buffers r)) (rd_end r) m =
      (Inr (Some f), concat (map frame_wire fs) @ rest)"
    using Cons.prems by (simp add: flat_frame_wire)
  with read_frame_flat [OF Cons.prems(1), of m] obtain r' where
    r': "read_frame r m = (Inr (Some f), r')" "wf_reader r'" "rd_end r' = rd_end r"
      "concat (rd_buffers r') = concat (map frame_wire fs) @ rest"
    by (cases "read_frame r m") (auto simp: frame_agrees_def)
  with Cons.IH [OF r'(2) _ r'(4)] Cons.prems(2) show ?case by auto
qed simp

section \<open>Properties\<close>

text \<open>C32: Reading a frame does not depend on how the bytes arrive. Two readers that will deliver
  the same bytes and the same end of stream, however cut into buffers, return the same frame or
  the same error, and after a success have the same bytes left.\<close>

theorem read_frame_chunking:
  assumes "wf_reader r" "wf_reader s"
    and "concat (rd_buffers r) = concat (rd_buffers s)" "rd_end r = rd_end s"
  shows "fst (read_frame r m) = fst (read_frame s m) \<and>
    (is_ok (fst (read_frame r m)) \<longrightarrow>
      concat (rd_buffers (snd (read_frame r m))) = concat (rd_buffers (snd (read_frame s m))))"
  using read_frame_flat [OF assms(1), of m] read_frame_flat [OF assms(2), of m] assms(3,4)
  by (simp add: frame_agrees_def)

lemma read_frame_chunking_witness:
  "fst (read_frame \<lparr>rd_buffers = [''CX'', ''SB1''], rd_end = Eof\<rparr> 8) =
     fst (read_frame \<lparr>rd_buffers = [''CXSB1''], rd_end = Eof\<rparr> 8)"
  by (rule read_frame_chunking [THEN conjunct1]) (simp_all add: wf_reader_def)

fun write_frames ::
  "('w \<Rightarrow> string \<Rightarrow> (io_err + unit) \<times> 'w) \<Rightarrow> 'w \<Rightarrow> frame list \<Rightarrow> nat \<Rightarrow> (io_err + unit) \<times> 'w" where
  "write_frames wa w [] m = (Inr (), w)"
| "write_frames wa w (f # fs) m =
     (case write_frame wa w f m of
        (Inl e, w') \<Rightarrow> (Inl e, w')
      | (Inr _, w') \<Rightarrow> write_frames wa w' fs m)"

lemma write_frames_vec:
  "list_all (frame_wf m) fs \<Longrightarrow>
     write_frames vec_write_all w fs m = (Inr (), w @ concat (map frame_wire fs))"
proof (induction fs arbitrary: w)
  case (Cons f fs)
  then have "length (fr_payload f) \<le> usize_max" "\<not> m < length (fr_payload f)"
    by (auto simp: frame_wf_def)
  with Cons show ?case by (simp add: write_frame_vec)
qed simp

text \<open>Frames survive the wire. Any sequence of frames within the payload bound, written one
  after the other, is read back frame by frame, in order and unchanged, by a reader that receives
  the bytes in any cut, and the reader is left exactly at the bytes that follow.\<close>

theorem frames_survive_the_wire:
  assumes "list_all (frame_wf m) fs" and "wf_reader r"
    and "write_frames vec_write_all [] fs m = (Inr (), bytes)"
    and "concat (rd_buffers r) = bytes @ rest"
  shows "\<exists>r'. read_frames (length fs) r m = (fs, r') \<and> concat (rd_buffers r') = rest"
  using read_frames_stream [OF assms(2,1), of rest] assms(3,4) write_frames_vec [OF assms(1), of "[]"]
  by auto

definition sample_frame :: frame where
  "sample_frame = \<lparr>fr_kind = Data, fr_request_id = 7, fr_payload = ''ok''\<rparr>"

lemma frames_survive_the_wire_witness:
  "\<exists>r'. read_frames (length [sample_frame])
      \<lparr>rd_buffers = [frame_wire sample_frame, ''tail''], rd_end = Eof\<rparr> 8 = ([sample_frame], r') \<and>
    concat (rd_buffers r') = ''tail''"
proof (rule frames_survive_the_wire [where bytes = "frame_wire sample_frame"])
  show wf: "list_all (frame_wf 8) [sample_frame]"
    by (simp add: frame_wf_def sample_frame_def u64_max_def)
  show "write_frames vec_write_all [] [sample_frame] 8 = (Inr (), frame_wire sample_frame)"
    using write_frames_vec [OF wf, of "[]"] by simp
  show "wf_reader \<lparr>rd_buffers = [frame_wire sample_frame, ''tail''], rd_end = Eof\<rparr>"
    by (simp add: wf_reader_def frame_wire_def sample_frame_def)
qed simp

text \<open>A byte stream splits into frames in one way only: two sequences of frames within the
  bound that have the same bytes are the same sequence, so no payload can forge a frame
  boundary.\<close>

theorem frame_stream_unambiguous:
  assumes "list_all (frame_wf m) fs" and "list_all (frame_wf m) gs"
    and "concat (map frame_wire fs) = concat (map frame_wire gs)"
  shows "fs = gs"
  by (rule cxsb1.stream_inj [OF assms])

lemma frame_stream_unambiguous_witness: "[sample_frame] = [sample_frame]"
  by (rule frame_stream_unambiguous [of 8]) (simp_all add: frame_wf_def sample_frame_def u64_max_def)

end
