(* ===== verification/Helper_Frame.thy ===== *)
theory Helper_Frame
  imports Ssh_Frame
begin

text \<open>
  The framing of the precompiled remote helper (\<open>src/remote_helper_protocol.rs\<close>): a
  synchronous reader and writer of the same CXSB1 wire format, kept by hand in step with the
  bridge's asynchronous one.  The two are translated separately; the lemmas show that they
  agree on every input, so that either side reads what the other wrote.
\<close>

function helper_read_header :: "reader \<Rightarrow> string \<Rightarrow> (io_err + string option) \<times> reader" where
  "helper_read_header r header =
     (case fill_buf r of
        Inl e \<Rightarrow> (Inl e, r)
      | Inr [] \<Rightarrow> (if header = [] then (Inr None, r) else (Inl truncated_header, r))
      | Inr (b # bs) \<Rightarrow>
          (let buffered = b # bs;
               newline = position (\<lambda>b. b = LF) buffered;
               content_len = (case newline of None \<Rightarrow> length buffered | Some i \<Rightarrow> i);
               remaining = MAX_HEADER_BYTES - length header;
               accepted = min content_len remaining
           in if list_ex (\<lambda>c. \<not> header_byte c) (take accepted buffered) then (Inl not_ascii, r)
              else if content_len > remaining then (Inl header_too_long, r)
              else
                (case newline of
                   Some i \<Rightarrow> (Inr (Some (header @ take content_len buffered)),
                              consume (content_len + 1) r)
                 | None \<Rightarrow> helper_read_header (consume content_len r)
                             (header @ take content_len buffered))))"
  by pat_completeness auto
termination
  by (relation "measure (\<lambda>(r, header). length (rd_buffers r))")
     (auto simp: fill_buf_def consume_def split: list.splits stream_end.splits)

declare helper_read_header.simps [simp del]

definition helper_read_frame :: "reader \<Rightarrow> nat \<Rightarrow> (io_err + frame option) \<times> reader" where
  "helper_read_frame r max_payload =
     (case helper_read_header r [] of
        (Inl e, r') \<Rightarrow> (Inl e, r')
      | (Inr None, r') \<Rightarrow> (Inr None, r')
      | (Inr (Some header), r') \<Rightarrow>
          (case parse_header max_payload header of
             Inl e \<Rightarrow> (Inl e, r')
           | Inr (kind, request_id, payload_len) \<Rightarrow>
               (case read_exact payload_len r' of
                  (Inr payload, r'') \<Rightarrow>
                    (Inr (Some \<lparr>fr_kind = kind, fr_request_id = request_id,
                                fr_payload = payload\<rparr>), r'')
                | (Inl e, r'') \<Rightarrow>
                    (Inl (if io_kind e = UnexpectedEof then truncated_payload else e), r''))))"

definition helper_write_frame ::
  "('w \<Rightarrow> string \<Rightarrow> (io_err + unit) \<times> 'w) \<Rightarrow> 'w \<Rightarrow> frame \<Rightarrow> nat \<Rightarrow> (io_err + unit) \<times> 'w" where
  "helper_write_frame write_all w frame max_payload =
     (let header = frame_header frame in
      if length (fr_payload frame) > max_payload then
        (Inl (io_new InvalidInput ''SSH bridge frame payload exceeds the configured bound''), w)
      else if length header > MAX_HEADER_BYTES then
        (Inl (io_new InvalidInput ''SSH bridge frame header exceeds the configured bound''), w)
      else
        (case write_all w header of
           (Inl e, w') \<Rightarrow> (Inl e, w')
         | (Inr _, w') \<Rightarrow> write_all w' (fr_payload frame)))"

lemma list_ex_not: "list_ex (\<lambda>c. \<not> P c) xs \<longleftrightarrow> \<not> list_all P xs"
  by (auto simp: list_ex_iff list_all_iff)

lemma helper_read_header_eq: "helper_read_header r header = read_header r header"
proof (induction r header rule: helper_read_header.induct)
  case (1 r header)
  show ?case
  proof (cases "fill_buf r")
    case (Inl e)
    then show ?thesis
      by (subst helper_read_header.simps, subst read_header.simps) simp
  next
    case (Inr buffered)
    show ?thesis
    proof (cases buffered)
      case Nil
      with Inr show ?thesis
        by (subst helper_read_header.simps, subst read_header.simps) simp
    next
      case (Cons b bs)
      note IH = "1.IH" [OF Inr Cons refl refl refl refl refl]
      show ?thesis
        using IH
        by (subst helper_read_header.simps, subst read_header.simps)
           (cases "position (\<lambda>b. b = LF) buffered"; simp add: Inr Cons Let_def list_ex_not)
    qed
  qed
qed

lemma helper_read_frame_eq: "helper_read_frame r m = read_frame r m"
  by (simp add: helper_read_frame_def read_frame_def helper_read_header_eq
      split: prod.splits sum.splits option.splits)

lemma helper_write_frame_eq: "helper_write_frame wa w f m = write_frame wa w f m"
  by (simp add: helper_write_frame_def write_frame_def Let_def)

section \<open>Properties\<close>

text \<open>The two implementations of the protocol interoperate. On every input the helper's reader
  and writer return what the bridge's do, values, errors and remaining state alike; in particular
  what either side writes the other reads.\<close>

theorem helper_bridge_agree:
  "helper_read_frame r m = read_frame r m \<and> helper_write_frame wa w f m = write_frame wa w f m"
  by (simp add: helper_read_frame_eq helper_write_frame_eq)

end
