(* ===== verification/Bridge_Error.thy ===== *)
theory Bridge_Error
  imports Bridge_Prelude
begin

text \<open>
  The error values every component returns (\<open>src/error.rs\<close>): the closed list of codes,
  the details an error carries to the client, the constructors, and the attachment of the
  remote context, which fills a missing field and never replaces one.
\<close>

datatype error_code =
    HostKeyUnknown
  | AuthRequired
  | ConnectTimeout
  | RemoteCapabilityMissing
  | RemoteAbsolutePathRequired
  | PathOutsideRoot
  | ReadOnlyHost
  | WriteConflict
  | ReadConflict
  | NotFound
  | PermissionDenied
  | NotDirectory
  | MutationOutcomeUnknown
  | JobStartOutcomeUnknown
  | JobCancelOutcomeUnknown
  | JobStateInvalid
  | JobExpired
  | OutputLimit
  | RequestTooLarge
  | ProtocolError
  | Cancelled
  | CommandTimeout
  | RemoteExit
  | InvalidConfig
  | InvalidArgument
  | Io

record error_shell_metadata =
  esm_kind :: string
  esm_version :: "string option"
  esm_fallback :: bool

record error_details =
  ed_host :: "string option"
  ed_shell :: "error_shell_metadata option"
  ed_physical_root :: "string option"
  ed_operation :: "string option"
  ed_path :: "string option"
  ed_elapsed_ms :: "nat option"
  ed_exit_status :: "int option"
  ed_requested_shell :: "string option"
  ed_available_shells :: "string list option"
  ed_remote_process_may_continue :: "bool option"
  ed_bytes_seen :: "nat option"
  ed_mutation_may_have_applied :: "bool option"
  ed_failed_path :: "string option"
  ed_changed_paths :: "string list option"
  ed_not_changed_paths :: "string list option"
  ed_outcome_unknown_paths :: "string list option"
  ed_job_id :: "string option"

definition default_details :: error_details where
  "default_details =
     \<lparr>ed_host = None, ed_shell = None, ed_physical_root = None, ed_operation = None,
      ed_path = None, ed_elapsed_ms = None, ed_exit_status = None, ed_requested_shell = None,
      ed_available_shells = None, ed_remote_process_may_continue = None, ed_bytes_seen = None,
      ed_mutation_may_have_applied = None, ed_failed_path = None, ed_changed_paths = None,
      ed_not_changed_paths = None, ed_outcome_unknown_paths = None, ed_job_id = None\<rparr>"

record bridge_error =
  be_code :: error_code
  be_message :: string
  be_retryable :: bool
  be_details :: error_details

type_synonym 'a bridge_result = "bridge_error + 'a"

definition new_error :: "error_code \<Rightarrow> string \<Rightarrow> bool \<Rightarrow> bridge_error" where
  "new_error code message retryable =
     \<lparr>be_code = code, be_message = message, be_retryable = retryable,
      be_details = default_details\<rparr>"

definition invalid_argument :: "string \<Rightarrow> bridge_error" where
  "invalid_argument message = new_error InvalidArgument message False"

definition invalid_config :: "string \<Rightarrow> bridge_error" where
  "invalid_config message = new_error InvalidConfig message False"

definition io_error :: "string \<Rightarrow> bridge_error" where
  "io_error message = new_error Io message False"

definition read_conflict_error :: bridge_error where
  "read_conflict_error =
     new_error ReadConflict ''remote file changed while being read'' False"

definition not_found_error :: bridge_error where
  "not_found_error = new_error NotFound ''remote path was not found'' False"

definition permission_denied_error :: bridge_error where
  "permission_denied_error =
     new_error PermissionDenied ''remote path permission was denied'' False"

definition not_directory_error :: bridge_error where
  "not_directory_error = new_error NotDirectory ''remote path is not a directory'' False"

definition mutation_outcome_unknown_error :: bridge_error where
  "mutation_outcome_unknown_error =
     (let e = new_error MutationOutcomeUnknown
                ''remote mutation outcome could not be confirmed'' False
      in e\<lparr>be_details := (be_details e)\<lparr>ed_mutation_may_have_applied := Some True\<rparr>\<rparr>)"

text \<open>\<open>protocol_error\<close> of \<open>src/remote/protocol.rs\<close>, used by every wire parser.\<close>

definition protocol_error :: "string \<Rightarrow> bridge_error" where
  "protocol_error message = new_error ProtocolError message False"

definition attach_available_remote_context ::
  "bridge_error \<Rightarrow> string option \<Rightarrow> string option \<Rightarrow> error_shell_metadata option
     \<Rightarrow> bridge_error" where
  "attach_available_remote_context error host physical_root shell =
     (let d0 = be_details error;
          d1 = (if ed_host d0 = None then d0\<lparr>ed_host := host\<rparr> else d0);
          d2 = (if ed_physical_root d1 = None then d1\<lparr>ed_physical_root := physical_root\<rparr> else d1);
          d3 = (if ed_shell d2 = None then d2\<lparr>ed_shell := shell\<rparr> else d2)
      in error\<lparr>be_details := d3\<rparr>)"

lemma new_error_fields [simp]:
  "be_code (new_error c m r) = c"
  "be_message (new_error c m r) = m"
  "be_retryable (new_error c m r) = r"
  "be_details (new_error c m r) = default_details"
  by (simp_all add: new_error_def)

lemma constructor_codes [simp]:
  "be_code (invalid_argument m) = InvalidArgument"
  "be_code (invalid_config m) = InvalidConfig"
  "be_code (io_error m) = Io"
  "be_code read_conflict_error = ReadConflict"
  "be_code not_found_error = NotFound"
  "be_code permission_denied_error = PermissionDenied"
  "be_code not_directory_error = NotDirectory"
  "be_code mutation_outcome_unknown_error = MutationOutcomeUnknown"
  "be_code (protocol_error m) = ProtocolError"
  by (simp_all add: invalid_argument_def invalid_config_def io_error_def read_conflict_error_def
      not_found_error_def permission_denied_error_def not_directory_error_def
      mutation_outcome_unknown_error_def protocol_error_def Let_def)

lemma attach_context_keeps [simp]:
  "be_code (attach_available_remote_context e h p s) = be_code e"
  "be_message (attach_available_remote_context e h p s) = be_message e"
  "be_retryable (attach_available_remote_context e h p s) = be_retryable e"
  by (simp_all add: attach_available_remote_context_def Let_def)

text \<open>
  Attaching twice is attaching once with the first non-missing values: an outer layer that
  knows less never overwrites what an inner layer recorded.
\<close>

definition or_else :: "'a option \<Rightarrow> 'a option \<Rightarrow> 'a option" where
  "or_else a b = (if a = None then b else a)"

lemma or_else_simps [simp]:
  "or_else None b = b"
  "or_else (Some x) b = Some x"
  "or_else a None = a"
  "or_else (or_else a b) c = or_else a (or_else b c)"
  by (auto simp: or_else_def)

lemma attach_context_normal_form:
  "attach_available_remote_context e h p s =
     e\<lparr>be_details := (be_details e)
         \<lparr>ed_host := or_else (ed_host (be_details e)) h,
          ed_physical_root := or_else (ed_physical_root (be_details e)) p,
          ed_shell := or_else (ed_shell (be_details e)) s\<rparr>\<rparr>"
  unfolding attach_available_remote_context_def Let_def
  by (cases "ed_host (be_details e)"; cases "ed_physical_root (be_details e)";
      cases "ed_shell (be_details e)"; simp)

lemma attach_context_first_wins:
  "attach_available_remote_context (attach_available_remote_context e h p s) h' p' s' =
   attach_available_remote_context e (or_else h h') (or_else p p') (or_else s s')"
  by (simp add: attach_context_normal_form)

end
