(* ===== verification/Remote_Path.thy ===== *)
theory Remote_Path
  imports Bridge_Error
begin

text \<open>
  Lexical resolution of remote paths (\<open>src/path.rs\<close>): \<open>RemotePath::absolute\<close> and
  \<open>RemotePath::resolve\<close>, with the two normalising loops.  The lemmas show that a resolved
  path is canonical, that it never leaves its root, and that resolving is idempotent.
\<close>

record remote_path =
  rp_absolute :: string
  rp_relative :: string

abbreviation DOT :: string where "DOT \<equiv> ''.''"
abbreviation DOTDOT :: string where "DOTDOT \<equiv> ''..''"

definition outside_root :: bridge_error where
  "outside_root =
     new_error PathOutsideRoot ''requested path is outside the configured root'' False"

text \<open>The loop of \<open>normalize_absolute\<close>; \<open>Vec::pop\<close> on an empty vector does nothing.\<close>

fun normalize_components :: "string list \<Rightarrow> string list \<Rightarrow> string list" where
  "normalize_components acc [] = acc"
| "normalize_components acc (c # cs) =
     (if c = [] \<or> c = DOT then normalize_components acc cs
      else if c = DOTDOT then normalize_components (butlast acc) cs
      else normalize_components (acc @ [c]) cs)"

definition normalize_absolute :: "string \<Rightarrow> string list" where
  "normalize_absolute path = normalize_components [] (split_on SLASH path)"

fun normalize_relative_loop ::
  "nat \<Rightarrow> string list \<Rightarrow> string list \<Rightarrow> string list bridge_result" where
  "normalize_relative_loop n acc [] = Inr acc"
| "normalize_relative_loop n acc (c # cs) =
     (if c = [] \<or> c = DOT then normalize_relative_loop n acc cs
      else if c = DOTDOT then
        (if length acc = n then Inl outside_root
         else normalize_relative_loop n (butlast acc) cs)
      else normalize_relative_loop n (acc @ [c]) cs)"

definition normalize_relative :: "string list \<Rightarrow> string \<Rightarrow> string list bridge_result" where
  "normalize_relative root requested =
     normalize_relative_loop (length root) root (split_on SLASH requested)"

definition resolve :: "string \<Rightarrow> string \<Rightarrow> remote_path bridge_result" where
  "resolve root requested =
     (if NUL \<in> set root \<or> NUL \<in> set requested then
        Inl (invalid_argument ''NUL is not valid in a remote path'')
      else if \<not> starts_with ''/'' root then
        Inl (invalid_argument ''remote root must be an absolute path'')
      else
        (let root_components = normalize_absolute root in
         bindR
           (if starts_with ''/'' requested then
              (let components = normalize_absolute requested in
               if \<not> starts_with root_components components then Inl outside_root
               else Inr components)
            else normalize_relative root_components requested)
           (\<lambda>absolute_components.
              Inr \<lparr>rp_absolute =
                     (if absolute_components = [] then ''/''
                      else ''/'' @ join_with ''/'' absolute_components),
                   rp_relative =
                     join_with ''/'' (drop (length root_components) absolute_components)\<rparr>)))"

definition absolute :: "string \<Rightarrow> remote_path bridge_result" where
  "absolute requested =
     (if NUL \<in> set requested then
        Inl (invalid_argument ''NUL is not valid in a remote path'')
      else if \<not> starts_with ''/'' requested then
        Inl (new_error RemoteAbsolutePathRequired ''remote paths must be absolute'' False)
      else resolve ''/'' requested)"

section \<open>Canonical paths\<close>

text \<open>A component that names an entry: not empty, not a dot entry, no slash.\<close>

definition plain_component :: "string \<Rightarrow> bool" where
  "plain_component c \<longleftrightarrow> c \<noteq> [] \<and> c \<noteq> DOT \<and> c \<noteq> DOTDOT \<and> SLASH \<notin> set c"

definition canonical_path :: "string \<Rightarrow> bool" where
  "canonical_path p \<longleftrightarrow>
     p = ''/'' \<or> (\<exists>cs. cs \<noteq> [] \<and> list_all plain_component cs \<and> p = ''/'' @ join_with ''/'' cs)"

lemma plain_componentD [byte_simps]:
  assumes "plain_component c"
  shows "c \<noteq> []" "c \<noteq> DOT" "c \<noteq> DOTDOT" "SLASH \<notin> set c"
  using assms by (auto simp: plain_component_def)

lemma list_all_butlast: "list_all P xs \<Longrightarrow> list_all P (butlast xs)"
  by (auto simp: list_all_iff dest: in_set_butlastD)

lemma normalize_components_plain:
  assumes "list_all plain_component acc" and "\<forall>c \<in> set cs. SLASH \<notin> set c"
  shows "list_all plain_component (normalize_components acc cs)"
  using assms
  by (induction acc cs rule: normalize_components.induct)
     (auto simp: plain_component_def list_all_butlast)

lemma normalize_absolute_plain: "list_all plain_component (normalize_absolute p)"
  unfolding normalize_absolute_def
  by (rule normalize_components_plain) (auto simp: split_on_piece)

lemma normalize_relative_loop_plain:
  assumes "normalize_relative_loop n acc cs = Inr r"
    and "list_all plain_component acc" and "\<forall>c \<in> set cs. SLASH \<notin> set c"
  shows "list_all plain_component r"
  using assms
  by (induction n acc cs arbitrary: r rule: normalize_relative_loop.induct)
     (auto simp: plain_component_def list_all_butlast split: if_splits)

lemma normalize_relative_plain:
  assumes "normalize_relative root req = Inr r" and "list_all plain_component root"
  shows "list_all plain_component r"
  using assms unfolding normalize_relative_def
  by (auto intro: normalize_relative_loop_plain simp: split_on_piece)

text \<open>Plain components pass through the loop unchanged, so normalising is idempotent.\<close>

lemma normalize_components_id:
  "list_all plain_component cs \<Longrightarrow> normalize_components acc cs = acc @ cs"
  by (induction cs arbitrary: acc) (auto simp: plain_component_def)

lemma normalize_components_append:
  "normalize_components acc (cs @ ds) = normalize_components (normalize_components acc cs) ds"
  by (induction acc cs rule: normalize_components.induct) auto

lemma normalize_absolute_canonical:
  assumes "list_all plain_component cs"
  shows "normalize_absolute (''/'' @ join_with ''/'' cs) = cs"
proof (cases "cs = []")
  case True
  then show ?thesis by (simp add: normalize_absolute_def)
next
  case False
  from assms have "\<forall>c \<in> set cs. SLASH \<notin> set c"
    by (auto simp: list_all_iff plain_component_def)
  with False have "split_on SLASH (join_with ''/'' cs) = cs" by (rule split_join)
  then have "split_on SLASH (''/'' @ join_with ''/'' cs) = [] # cs" by simp
  with assms show ?thesis by (simp add: normalize_absolute_def normalize_components_id)
qed

lemma normalize_absolute_root: "normalize_absolute ''/'' = []"
  by (simp add: normalize_absolute_def)

text \<open>The relative loop only ever extends the root it started from.\<close>

lemma normalize_relative_loop_extends:
  assumes "normalize_relative_loop (length root) (root @ acc) cs = Inr r"
  shows "\<exists>tail. r = root @ tail"
  using assms
proof (induction cs arbitrary: acc)
  case (Cons c cs)
  show ?case
  proof (cases "c = [] \<or> c = DOT")
    case True
    with Cons show ?thesis by auto
  next
    case plain: False
    show ?thesis
    proof (cases "c = DOTDOT")
      case True
      with Cons.prems have "acc \<noteq> []" by (auto split: if_splits)
      with True Cons.prems plain
      have "normalize_relative_loop (length root) (root @ butlast acc) cs = Inr r"
        by (simp add: butlast_append)
      then show ?thesis by (rule Cons.IH)
    next
      case False
      with plain Cons.prems
      have "normalize_relative_loop (length root) (root @ acc @ [c]) cs = Inr r" by simp
      then show ?thesis by (rule Cons.IH)
    qed
  qed
qed auto

lemma normalize_relative_extends:
  "normalize_relative root req = Inr r \<Longrightarrow> \<exists>tail. r = root @ tail"
  unfolding normalize_relative_def using normalize_relative_loop_extends [of root "[]"] by simp

lemma normalize_relative_loop_agrees:
  assumes "normalize_relative_loop n acc cs = Inr r"
  shows "normalize_components acc cs = r"
  using assms
  by (induction n acc cs arbitrary: r rule: normalize_relative_loop.induct) (auto split: if_splits)

text \<open>What a successful resolution returned, in terms of component lists.\<close>

lemma resolve_Inr:
  assumes "resolve root req = Inr p"
  obtains cs tail where
    "cs = normalize_absolute root @ tail"
    "list_all plain_component cs"
    "rp_absolute p = (if cs = [] then ''/'' else ''/'' @ join_with ''/'' cs)"
    "rp_relative p = join_with ''/'' tail"
proof -
  let ?root = "normalize_absolute root"
  from assms obtain cs where
    cs: "(if starts_with ''/'' req then
            if \<not> starts_with ?root (normalize_absolute req) then Inl outside_root
            else Inr (normalize_absolute req)
          else normalize_relative ?root req) = Inr cs"
    and p: "p = \<lparr>rp_absolute = (if cs = [] then ''/'' else ''/'' @ join_with ''/'' cs),
                 rp_relative = join_with ''/'' (drop (length ?root) cs)\<rparr>"
    by (auto simp: resolve_def Let_def bindR_eq_Inr split: if_splits)
  from cs have "\<exists>tail. cs = ?root @ tail"
    by (auto simp: starts_with_iff split: if_splits dest: normalize_relative_extends)
  then obtain tail where tail: "cs = ?root @ tail" ..
  from cs have "list_all plain_component cs"
    by (auto split: if_splits
        intro: normalize_absolute_plain normalize_relative_plain)
  with p tail that show thesis by simp
qed

lemma resolve_canonical: "resolve root req = Inr p \<Longrightarrow> canonical_path (rp_absolute p)"
  by (erule resolve_Inr) (auto simp: canonical_path_def)

lemma resolve_within_root:
  assumes "resolve root req = Inr p"
  shows "starts_with (normalize_absolute root) (normalize_absolute (rp_absolute p))"
  using assms
proof (rule resolve_Inr)
  fix cs tail
  assume cs: "cs = normalize_absolute root @ tail" "list_all plain_component cs"
    and p: "rp_absolute p = (if cs = [] then ''/'' else ''/'' @ join_with ''/'' cs)"
  have "normalize_absolute (rp_absolute p) = cs"
    using p cs(2) normalize_absolute_canonical [of cs] normalize_absolute_root by auto
  with cs(1) show ?thesis by simp
qed

lemma normalize_relative_loop_error:
  "normalize_relative_loop n acc cs = Inl e \<Longrightarrow> e = outside_root"
  by (induction n acc cs rule: normalize_relative_loop.induct) (auto split: if_splits)

lemma outside_root_code [simp]: "be_code outside_root = PathOutsideRoot"
  by (simp add: outside_root_def)

lemma resolve_error_code:
  assumes "resolve root req = Inl e"
  shows "be_code e = InvalidArgument \<or> be_code e = PathOutsideRoot"
  using assms
  by (auto simp: resolve_def Let_def bindR_eq_Inl normalize_relative_def split: if_splits
      dest!: normalize_relative_loop_error)

lemma absolute_Inr_iff:
  "(\<exists>p. absolute req = Inr p) \<longleftrightarrow> NUL \<notin> set req \<and> starts_with ''/'' req"
  by (auto simp: absolute_def resolve_def Let_def normalize_absolute_root starts_with_def)

section \<open>Properties\<close>

lemma normalize_absolute_join:
  "normalize_absolute (root @ SLASH # req) = normalize_components (normalize_absolute root) (split_on SLASH req)"
  by (simp add: normalize_absolute_def split_on_append_general normalize_components_append)

text \<open>C33: A resolved path is canonical (absolute, no empty, dot or dot-dot component) and stays
  inside the root: the components of the normalised root are a prefix of its components, and
  the relative part is what follows them.\<close>

theorem resolve_contained:
  assumes "resolve root req = Inr p"
  shows "canonical_path (rp_absolute p) \<and>
    normalize_absolute (rp_absolute p) = normalize_absolute root @ normalize_absolute (rp_relative p) \<and>
    NUL \<notin> set root \<union> set req"
proof -
  from assms obtain cs tail where
    cs: "cs = normalize_absolute root @ tail" "list_all plain_component cs"
    and p: "rp_absolute p = (if cs = [] then ''/'' else ''/'' @ join_with ''/'' cs)"
    "rp_relative p = join_with ''/'' tail" by (rule resolve_Inr)
  have "normalize_absolute (rp_absolute p) = cs"
    using p(1) cs(2) normalize_absolute_canonical [of cs] normalize_absolute_root by auto
  moreover have "normalize_absolute (join_with ''/'' tail) = tail"
    using normalize_absolute_canonical [of tail] cs
    by (simp add: normalize_absolute_def list_all_append split: if_splits)
  ultimately show ?thesis
    using assms cs(1) p(2) resolve_canonical [OF assms] by (auto simp: resolve_def split: if_splits)
qed

lemma resolve_contained_witness:
  "canonical_path ''/srv/b'' \<and>
    normalize_absolute ''/srv/b'' = normalize_absolute ''/srv'' @ normalize_absolute ''b'' \<and>
    NUL \<notin> set ''/srv'' \<union> set ''a/../b''"
  using resolve_contained [of "''/srv''" "''a/../b''" "\<lparr>rp_absolute = ''/srv/b'', rp_relative = ''b''\<rparr>"]
  by (simp add: resolve_def normalize_absolute_def normalize_relative_def starts_with_def)

text \<open>Resolving a relative request is resolving the absolute path it denotes below the root:
  whenever the relative loop accepts a request, the absolute route gives the same path. The two
  routes of the code cannot disagree on where a path points.\<close>

theorem resolve_relative_absolute:
  assumes "resolve root req = Inr p" and "\<not> starts_with ''/'' req"
  shows "resolve root (root @ ''/'' @ req) = Inr p"
proof -
  let ?root = "normalize_absolute root"
  from assms obtain cs where
    ok: "NUL \<notin> set root" "NUL \<notin> set req" "starts_with ''/'' root"
    and cs: "normalize_relative ?root req = Inr cs"
    and p: "p = \<lparr>rp_absolute = (if cs = [] then ''/'' else ''/'' @ join_with ''/'' cs),
                 rp_relative = join_with ''/'' (drop (length ?root) cs)\<rparr>"
    by (auto simp: resolve_def Let_def bindR_eq_Inr split: if_splits)
  have "normalize_absolute (root @ SLASH # req) = cs"
    using cs normalize_relative_loop_agrees
    by (simp add: normalize_absolute_join normalize_relative_def)
  moreover have "starts_with ?root cs"
    using normalize_relative_extends [OF cs] by (auto simp: starts_with_iff)
  moreover have "starts_with ''/'' (root @ SLASH # req)" using ok(3) by (auto simp: starts_with_iff)
  ultimately show ?thesis using ok p by (simp add: resolve_def Let_def)
qed

lemma resolve_relative_absolute_witness:
  "resolve ''/srv'' ''/srv/a/../b'' = Inr \<lparr>rp_absolute = ''/srv/b'', rp_relative = ''b''\<rparr>"
  using resolve_relative_absolute [of "''/srv''" "''a/../b''" "\<lparr>rp_absolute = ''/srv/b'', rp_relative = ''b''\<rparr>"]
  by (simp add: resolve_def normalize_absolute_def normalize_relative_def starts_with_def)

lemma resolve_components:
  assumes "resolve root req = Inr p"
  shows "normalize_absolute (rp_absolute p) = normalize_absolute req \<or>
    normalize_absolute (rp_absolute p) = normalize_components (normalize_absolute root) (split_on SLASH req)"
proof -
  let ?root = "normalize_absolute root"
  from assms obtain cs where
    cs: "(if starts_with ''/'' req then
            if \<not> starts_with ?root (normalize_absolute req) then Inl outside_root
            else Inr (normalize_absolute req)
          else normalize_relative ?root req) = Inr cs"
    and p: "rp_absolute p = (if cs = [] then ''/'' else ''/'' @ join_with ''/'' cs)"
    by (auto simp: resolve_def Let_def bindR_eq_Inr split: if_splits)
  have "list_all plain_component cs"
    using cs by (auto split: if_splits intro: normalize_absolute_plain normalize_relative_plain)
  then have "normalize_absolute (rp_absolute p) = cs"
    using p normalize_absolute_canonical [of cs] normalize_absolute_root by auto
  with cs show ?thesis
    by (auto simp: normalize_relative_def dest: normalize_relative_loop_agrees split: if_splits)
qed

lemma normalize_components_NUL:
  "\<forall>d \<in> set acc \<union> set ds. NUL \<notin> set d \<Longrightarrow> \<forall>d \<in> set (normalize_components acc ds). NUL \<notin> set d"
  by (induction acc ds rule: normalize_components.induct) (auto dest: in_set_butlastD)

lemma split_NUL: "NUL \<notin> set q \<Longrightarrow> \<forall>d \<in> set (split_on SLASH q). NUL \<notin> set d"
  by (auto dest: split_on_pieces_set)

lemma normalize_absolute_NUL: "NUL \<notin> set q \<Longrightarrow> \<forall>d \<in> set (normalize_absolute q). NUL \<notin> set d"
  unfolding normalize_absolute_def by (rule normalize_components_NUL) (simp add: split_NUL)

lemma resolve_components_NUL:
  assumes "resolve root req = Inr p"
  shows "\<forall>d \<in> set (normalize_absolute (rp_absolute p)). NUL \<notin> set d"
proof -
  have nul: "NUL \<notin> set root" "NUL \<notin> set req"
    using assms by (auto simp: resolve_def split: if_splits)
  have "\<forall>d \<in> set (normalize_absolute root) \<union> set (split_on SLASH req). NUL \<notin> set d"
    using normalize_absolute_NUL [OF nul(1)] split_NUL [OF nul(2)] by blast
  then have "\<forall>d \<in> set (normalize_components (normalize_absolute root) (split_on SLASH req)). NUL \<notin> set d"
    by (rule normalize_components_NUL)
  with resolve_components [OF assms] normalize_absolute_NUL [OF nul(2)] show ?thesis by presburger
qed

text \<open>Resolving is idempotent: the absolute path of a resolution resolves, under the same
  root, to itself.\<close>

theorem resolve_idempotent:
  assumes "resolve root req = Inr p"
  shows "resolve root (rp_absolute p) = Inr p"
proof -
  from assms obtain cs tail where
    cs: "cs = normalize_absolute root @ tail" "list_all plain_component cs"
    and p: "rp_absolute p = (if cs = [] then ''/'' else ''/'' @ join_with ''/'' cs)"
    "rp_relative p = join_with ''/'' tail" by (rule resolve_Inr)
  have norm: "normalize_absolute (rp_absolute p) = cs"
    using p(1) cs(2) normalize_absolute_canonical [of cs] normalize_absolute_root by auto
  have "NUL \<notin> set c" if "c \<in> set cs" for c
    using resolve_components_NUL [OF assms] norm that by blast
  moreover have "set (join_with ''/'' ds) \<subseteq> insert SLASH (\<Union> (set ` set ds))" for ds
    by (induction "''/''" ds rule: join_with.induct) auto
  ultimately have "NUL \<notin> set (rp_absolute p)" using p(1) by (auto split: if_splits)
  moreover have "starts_with ''/'' (rp_absolute p)" using p(1) by (simp add: starts_with_def)
  moreover have "NUL \<notin> set root" "starts_with ''/'' root"
    using assms by (auto simp: resolve_def split: if_splits)
  ultimately show ?thesis
    using norm cs(1) p by (cases p) (simp add: resolve_def Let_def)
qed

lemma resolve_idempotent_witness:
  "resolve ''/srv'' ''/srv/b'' = Inr \<lparr>rp_absolute = ''/srv/b'', rp_relative = ''b''\<rparr>"
  using resolve_idempotent [of "''/srv''" "''a/../b''" "\<lparr>rp_absolute = ''/srv/b'', rp_relative = ''b''\<rparr>"]
  by (simp add: resolve_def normalize_absolute_def normalize_relative_def starts_with_def)

end
