(* ===== verification/Shell_Quote.thy ===== *)
theory Shell_Quote
  imports Bridge_Error
begin

text \<open>
  Quoting for the remote shell (\<open>src/quote.rs\<close>): the exact length computed up front with
  checked arithmetic, the bounded append of a prepared word, \<open>shell_word\<close> and
  \<open>fixed_command\<close>.  The contract is stated against the quoting rules of the POSIX shell
  (\<open>sh_fields\<close>): what the shell reads back is exactly the list of arguments, and no byte of
  an argument is ever seen by the shell outside quotes.
\<close>

section \<open>The code\<close>

definition quote_too_large :: bridge_error where
  "quote_too_large = new_error RequestTooLarge ''shell word is too large'' False"

text \<open>A \<open>String\<close> with the capacity it was allocated with.\<close>

record string_buffer =
  sb_content :: string
  sb_capacity :: nat

record prepared_shell_word =
  psw_value :: string
  psw_length :: nat

definition checked_shell_value_stats :: "string \<Rightarrow> (nat \<times> nat) bridge_result" where
  "checked_shell_value_stats value =
     (if NUL \<in> set value then
        Inl (invalid_argument ''NUL is not representable in a shell word'')
      else Inr (length value, length (filter (\<lambda>b. b = QUOTE) value)))"

definition checked_shell_word_len_from_stats :: "nat \<Rightarrow> nat \<Rightarrow> nat bridge_result" where
  "checked_shell_word_len_from_stats value_length quote_count =
     ok_or quote_too_large
       (Option.bind (checked_add value_length 2) (\<lambda>len.
          Option.bind (checked_mul quote_count 4) (\<lambda>q. checked_add q len)))"

definition checked_shell_word_len :: "string \<Rightarrow> nat bridge_result" where
  "checked_shell_word_len value =
     bindR (checked_shell_value_stats value)
       (\<lambda>(value_length, quote_count).
          checked_shell_word_len_from_stats value_length quote_count)"

definition prepare_shell_word :: "string \<Rightarrow> prepared_shell_word bridge_result" where
  "prepare_shell_word value =
     bindR (checked_shell_word_len value) (\<lambda>len. Inr \<lparr>psw_value = value, psw_length = len\<rparr>)"

text \<open>The escape of one quote: close, a quote in double quotes, reopen.\<close>

definition escaped_quote :: string where
  "escaped_quote = [QUOTE, DQUOTE, QUOTE, DQUOTE, QUOTE]"

function push_prevalidated_shell_value :: "string \<Rightarrow> string \<Rightarrow> string" where
  "push_prevalidated_shell_value encoded remaining =
     (case position (\<lambda>b. b = QUOTE) remaining of
        None \<Rightarrow> encoded @ remaining
      | Some index \<Rightarrow>
          push_prevalidated_shell_value (encoded @ take index remaining @ escaped_quote)
            (drop (index + 1) remaining))"
  by pat_completeness auto
termination
  by (relation "measure (\<lambda>(encoded, remaining). length remaining)")
     (auto simp: position_eq_Some)

declare push_prevalidated_shell_value.simps [simp del]

definition push_prevalidated_shell_word :: "string \<Rightarrow> string \<Rightarrow> string" where
  "push_prevalidated_shell_word encoded value =
     push_prevalidated_shell_value (encoded @ [QUOTE]) value @ [QUOTE]"

definition push_to :: "prepared_shell_word \<Rightarrow> string_buffer \<Rightarrow> unit bridge_result \<times> string_buffer" where
  "push_to word encoded =
     (if saturating_sub (sb_capacity encoded) (length (sb_content encoded)) < psw_length word
      then (Inl quote_too_large, encoded)
      else (Inr (), encoded\<lparr>sb_content :=
              push_prevalidated_shell_word (sb_content encoded) (psw_value word)\<rparr>))"

definition shell_word :: "string \<Rightarrow> string bridge_result" where
  "shell_word value =
     bindR (prepare_shell_word value) (\<lambda>word.
       (case push_to word \<lparr>sb_content = [], sb_capacity = psw_length word\<rparr> of
          (Inl e, _) \<Rightarrow> Inl e
        | (Inr _, encoded) \<Rightarrow> Inr (sb_content encoded)))"

fun push_arguments :: "string \<Rightarrow> string list \<Rightarrow> string bridge_result" where
  "push_arguments command [] = Inr command"
| "push_arguments command (argument # args) =
     bindR (shell_word argument) (\<lambda>w. push_arguments (command @ [SP] @ w) args)"

definition fixed_command :: "string \<Rightarrow> string list \<Rightarrow> string bridge_result" where
  "fixed_command script args =
     (if NUL \<in> set script then
        Inl (invalid_argument ''NUL is not representable in a shell command'')
      else push_arguments script args)"

section \<open>What the POSIX shell reads\<close>

text \<open>
  Field splitting and quote removal of a simple command line.  A byte outside quotes other
  than the blank and the characters of plain words, or an expansion character inside double
  quotes, makes the reading undefined (\<open>None\<close>): such a line would not be a list of literal words.
\<close>

datatype quote_mode = Unquoted | In_Single | In_Double

definition sh_expansion_char :: "char \<Rightarrow> bool" where
  "sh_expansion_char c \<longleftrightarrow> c = CHR 0x24 \<or> c = CHR 0x60 \<or> c = CHR 0x5C"

definition sh_plain_char :: "char \<Rightarrow> bool" where
  "sh_plain_char c \<longleftrightarrow> c \<in> set ''abcdefghijklmnopqrstuvwxyzABCDEFGHIJKLMNOPQRSTUVWXYZ0123456789_-./''"

fun sh_fields :: "quote_mode \<Rightarrow> bool \<Rightarrow> string \<Rightarrow> string \<Rightarrow> string list option" where
  "sh_fields Unquoted started word [] = Some (if started then [word] else [])"
| "sh_fields Unquoted started word (c # cs) =
     (if c = QUOTE then sh_fields In_Single True word cs
      else if c = DQUOTE then sh_fields In_Double True word cs
      else if c = SP then
        map_option (\<lambda>ws. if started then word # ws else ws) (sh_fields Unquoted False [] cs)
      else if sh_plain_char c then sh_fields Unquoted True (word @ [c]) cs
      else None)"
| "sh_fields In_Single started word [] = None"
| "sh_fields In_Single started word (c # cs) =
     (if c = QUOTE then sh_fields Unquoted True word cs
      else sh_fields In_Single True (word @ [c]) cs)"
| "sh_fields In_Double started word [] = None"
| "sh_fields In_Double started word (c # cs) =
     (if c = DQUOTE then sh_fields Unquoted True word cs
      else if sh_expansion_char c then None
      else sh_fields In_Double True (word @ [c]) cs)"

definition sh_words :: "string \<Rightarrow> string list option" where
  "sh_words line = sh_fields Unquoted False [] line"

section \<open>The loop computes the bytewise escape\<close>

definition escape_byte :: "char \<Rightarrow> string" where
  "escape_byte c = (if c = QUOTE then escaped_quote else [c])"

definition escape_value :: "string \<Rightarrow> string" where
  "escape_value v = concat (map escape_byte v)"

lemma escape_value_simps [simp]:
  "escape_value [] = []"
  "escape_value (c # cs) = escape_byte c @ escape_value cs"
  "escape_value (a @ b) = escape_value a @ escape_value b"
  by (simp_all add: escape_value_def)

lemma escape_value_plain: "QUOTE \<notin> set s \<Longrightarrow> escape_value s = s"
  by (induction s) (auto simp: escape_byte_def)

lemma push_value_escape:
  "push_prevalidated_shell_value encoded v = encoded @ escape_value v"
proof (induction encoded v rule: push_prevalidated_shell_value.induct)
  case (1 encoded remaining)
  show ?case
  proof (cases "position (\<lambda>b. b = QUOTE) remaining")
    case None
    then have "QUOTE \<notin> set remaining" by (auto simp: position_eq_None)
    with None show ?thesis
      by (subst push_prevalidated_shell_value.simps) (simp add: escape_value_plain)
  next
    case (Some i)
    then have i: "i < length remaining" "remaining ! i = QUOTE"
      and before: "QUOTE \<notin> set (take i remaining)"
      by (auto simp: position_eq_Some in_set_conv_nth)
    from i have "remaining = take i remaining @ QUOTE # drop (i + 1) remaining"
      by (metis Suc_eq_plus1 id_take_nth_drop)
    then have "escape_value remaining =
        take i remaining @ escaped_quote @ escape_value (drop (i + 1) remaining)"
      using before
      by (metis escape_byte_def escape_value_plain escape_value_simps(2) escape_value_simps(3))
    with Some "1.IH" [OF Some] show ?thesis
      by (subst push_prevalidated_shell_value.simps) simp
  qed
qed

lemma push_word_escape:
  "push_prevalidated_shell_word encoded v = encoded @ [QUOTE] @ escape_value v @ [QUOTE]"
  by (simp add: push_prevalidated_shell_word_def push_value_escape)

lemma length_escape_value:
  "length (escape_value v) = length v + 4 * length (filter (\<lambda>b. b = QUOTE) v)"
  by (induction v) (auto simp: escape_byte_def escaped_quote_def)

definition quoted :: "string \<Rightarrow> string" where
  "quoted v = [QUOTE] @ escape_value v @ [QUOTE]"

lemma length_quoted:
  "length (quoted v) = length v + 2 + 4 * length (filter (\<lambda>b. b = QUOTE) v)"
  by (simp add: quoted_def length_escape_value)

lemma checked_shell_word_len_eq:
  "checked_shell_word_len v =
     (if NUL \<in> set v then Inl (invalid_argument ''NUL is not representable in a shell word'')
      else if length (quoted v) \<le> u64_max then Inr (length (quoted v))
      else Inl quote_too_large)"
  by (auto simp: checked_shell_word_len_def checked_shell_value_stats_def length_quoted
      checked_shell_word_len_from_stats_def checked_add_def checked_mul_def ok_or_def
      split: option.splits)

lemma shell_word_eq:
  "shell_word v =
     (if NUL \<in> set v then Inl (invalid_argument ''NUL is not representable in a shell word'')
      else if length (quoted v) \<le> u64_max then Inr (quoted v)
      else Inl quote_too_large)"
  by (simp add: shell_word_def prepare_shell_word_def checked_shell_word_len_eq push_to_def
      push_word_escape quoted_def saturating_sub_def)

section \<open>The shell reads the v back\<close>

lemma sh_fields_escape:
  "sh_fields In_Single st word (escape_value v @ rest) =
   sh_fields In_Single (st \<or> v \<noteq> []) (word @ v) rest"
  by (induction v arbitrary: word st)
     (auto simp: escape_byte_def escaped_quote_def sh_expansion_char_def)

lemma sh_fields_single_started: "sh_fields In_Single st word cs = sh_fields In_Single True word cs"
  by (cases cs) auto

lemma sh_fields_quoted:
  "sh_fields Unquoted st word (quoted v @ rest) = sh_fields Unquoted True (word @ v) rest"
  by (simp add: quoted_def sh_fields_escape)

lemma sh_words_quoted: "sh_words (quoted v) = Some [v]"
  using sh_fields_quoted [of False "[]" v "[]"] by (simp add: sh_words_def)

lemma push_arguments_Inr:
  assumes "push_arguments command args = Inr line"
  shows "\<exists>suffix. line = command @ suffix \<and> sh_words suffix = Some args \<and>
           (suffix = [] \<or> (\<exists>t. suffix = SP # t))"
  using assms
proof (induction args arbitrary: command)
  case Nil
  then show ?case by (simp add: sh_words_def)
next
  case (Cons a args)
  then have rest: "push_arguments (command @ [SP] @ quoted a) args = Inr line"
    by (auto simp: bindR_eq_Inr shell_word_eq split: if_splits)
  from Cons.IH [OF rest] obtain suffix where
    suffix: "line = (command @ [SP] @ quoted a) @ suffix" "sh_words suffix = Some args"
      "suffix = [] \<or> (\<exists>t. suffix = SP # t)" by blast
  have "sh_words ([SP] @ quoted a @ suffix) = Some (a # args)"
    using suffix(2,3) sh_fields_quoted [of False "[]" a suffix]
    by (auto simp: sh_words_def)
  with suffix(1) show ?case by (intro exI [of _ "[SP] @ quoted a @ suffix"]) simp
qed

lemma push_arguments_ok_iff:
  "is_ok (push_arguments command args) \<longleftrightarrow> list_all (\<lambda>a. is_ok (shell_word a)) args"
  by (induction args arbitrary: command) (auto simp: shell_word_eq)

section \<open>Properties\<close>

text \<open>What \<open>shell_word\<close> returns is read back by the POSIX shell as exactly one word, the
  original value, with no byte of it outside quotes, and has the length computed up front.\<close>

theorem shell_word_reads_back:
  assumes "shell_word v = Inr w"
  shows "sh_words w = Some [v] \<and> checked_shell_word_len v = Inr (length w)"
  using assms by (auto simp: shell_word_eq checked_shell_word_len_eq sh_words_quoted split: if_splits)

lemma shell_word_reads_back_witness:
  "sh_words (quoted ''a'') = Some [''a''] \<and> checked_shell_word_len ''a'' = Inr (length (quoted ''a''))"
  by (rule shell_word_reads_back) (simp add: shell_word_eq length_quoted u64_max_def)

text \<open>C34: A fixed command is its script followed by words that the shell reads back as exactly the
  arguments, in order: no argument can end its quotes or add a word.\<close>

theorem fixed_command_reads_back:
  assumes "fixed_command script args = Inr line"
  shows "\<exists>suffix. line = script @ suffix \<and> sh_words suffix = Some args"
  using assms by (auto simp: fixed_command_def split: if_splits dest: push_arguments_Inr)

lemma fixed_command_reads_back_witness:
  "\<exists>suffix. ''cat'' @ [SP] @ quoted ''a'' = ''cat'' @ suffix \<and> sh_words suffix = Some [''a'']"
  by (rule fixed_command_reads_back)
     (simp add: fixed_command_def shell_word_eq length_quoted u64_max_def)

text \<open>A prepared word is pushed completely or not at all. When the remaining capacity holds the
  length computed up front, the buffer grows by exactly that many bytes and stays within its
  capacity; otherwise the error is returned and the buffer is untouched.\<close>

theorem push_to_bounded:
  assumes "prepare_shell_word v = Inr word" and "length (sb_content b) \<le> sb_capacity b"
  shows "case push_to word b of
      (Inr _, b') \<Rightarrow> sb_content b' = sb_content b @ quoted v \<and> sb_capacity b' = sb_capacity b \<and>
        length (sb_content b') = length (sb_content b) + psw_length word \<and>
        length (sb_content b') \<le> sb_capacity b'
    | (Inl e, b') \<Rightarrow> e = quote_too_large \<and> b' = b \<and>
        sb_capacity b < length (sb_content b) + psw_length word"
proof -
  from assms(1) have w: "psw_value word = v" "psw_length word = length (quoted v)"
    by (auto simp: prepare_shell_word_def checked_shell_word_len_eq result_simps split: if_splits)
  have "push_prevalidated_shell_word (sb_content b) v = sb_content b @ quoted v"
    by (simp add: push_word_escape quoted_def)
  with w assms(2) show ?thesis
    by (auto simp: push_to_def saturating_sub_def)
qed

definition sample_word :: prepared_shell_word where
  "sample_word = \<lparr>psw_value = ''a'', psw_length = 3\<rparr>"

definition sample_buffer :: string_buffer where
  "sample_buffer = \<lparr>sb_content = ''b'', sb_capacity = 8\<rparr>"

lemma push_to_bounded_witness:
  "case push_to sample_word sample_buffer of
      (Inr _, b') \<Rightarrow> sb_content b' = sb_content sample_buffer @ quoted ''a'' \<and>
        sb_capacity b' = sb_capacity sample_buffer \<and>
        length (sb_content b') = length (sb_content sample_buffer) + psw_length sample_word \<and>
        length (sb_content b') \<le> sb_capacity b'
    | (Inl e, b') \<Rightarrow> e = quote_too_large \<and> b' = sample_buffer \<and>
        sb_capacity sample_buffer < length (sb_content sample_buffer) + psw_length sample_word"
  by (rule push_to_bounded)
     (simp_all add: prepare_shell_word_def checked_shell_word_len_eq length_quoted u64_max_def
       sample_word_def sample_buffer_def)

end
