(* ===== verification/Job_Protocol.thy ===== *)
theory Job_Protocol
  imports Bridge_Prelude
begin

text \<open>
  The shared vocabulary of durable remote jobs (\<open>src/job_protocol.rs\<close>): job identifiers,
  the life cycle of a job, and the records the bridge and the helper exchange.
\<close>

definition JOB_RECORD_VERSION :: nat where "JOB_RECORD_VERSION = 1"
definition JOB_ID_HEX_BYTES :: nat where "JOB_ID_HEX_BYTES = 32"
definition MAX_JOB_LABEL_BYTES :: nat where "MAX_JOB_LABEL_BYTES = 256"
definition DEFAULT_JOB_LOG_PAGE_BYTES :: nat where "DEFAULT_JOB_LOG_PAGE_BYTES = 256 * 1024"
definition MAX_JOB_LOG_PAGE_BYTES :: nat where "MAX_JOB_LOG_PAGE_BYTES = 1024 * 1024"
definition MAX_JOB_LIST_ENTRIES :: nat where "MAX_JOB_LIST_ENTRIES = 1000"

section \<open>Job identifiers\<close>

datatype job_id = JobId string

datatype job_protocol_error = InvalidJobId

definition hex_digit :: "nat \<Rightarrow> char" where
  "hex_digit d = (if d < 10 then char_of (48 + d) else char_of (87 + d))"

text \<open>\<open>{byte:02x}\<close>.\<close>

definition hex_byte :: "char \<Rightarrow> string" where
  "hex_byte b = [hex_digit (byte b div 16), hex_digit (byte b mod 16)]"

text \<open>\<open>JobId::generate\<close>, with the 16 bytes the random source filled in as its argument.\<close>

definition job_id_generate :: "string \<Rightarrow> job_id" where
  "job_id_generate bytes = JobId (concat (map hex_byte bytes))"

definition lower_hex_char :: "char \<Rightarrow> bool" where
  "lower_hex_char c \<longleftrightarrow> is_ascii_digit c \<or> (97 \<le> byte c \<and> byte c \<le> 102)"

definition job_id_parse :: "string \<Rightarrow> job_protocol_error + job_id" where
  "job_id_parse s =
     (if length s \<noteq> JOB_ID_HEX_BYTES \<or> \<not> list_all lower_hex_char s
      then Inl InvalidJobId else Inr (JobId s))"

fun job_id_as_str :: "job_id \<Rightarrow> string" where
  "job_id_as_str (JobId s) = s"

section \<open>The life cycle\<close>

datatype job_state = Starting | Running | Succeeded | Failed | Cancelled | TimedOut | Lost

fun is_terminal :: "job_state \<Rightarrow> bool" where
  "is_terminal Succeeded = True"
| "is_terminal Failed = True"
| "is_terminal Cancelled = True"
| "is_terminal TimedOut = True"
| "is_terminal Lost = True"
| "is_terminal _ = False"

fun can_transition_to :: "job_state \<Rightarrow> job_state \<Rightarrow> bool" where
  "can_transition_to Starting next = (next = Running \<or> next = Lost)"
| "can_transition_to Running next = is_terminal next"
| "can_transition_to _ next = False"

section \<open>Records\<close>

datatype job_shell = Bash | Sh | Login string

record process_identity =
  pi_pid :: int
  pi_start_ticks :: nat

record job_request_record =
  jr_version :: nat
  jr_job_id :: job_id
  jr_shell :: job_shell
  jr_cwd :: string
  jr_command :: string
  jr_stdin_base64 :: string
  jr_timeout_ms :: "nat option"
  jr_label :: "string option"
  jr_max_output_bytes :: nat
  jr_created_unix_ms :: nat

record job_state_record =
  js_version :: nat
  js_job_id :: job_id
  js_state :: job_state
  js_boot_id :: string
  js_runner :: "process_identity option"
  js_command_group :: "process_identity option"
  js_created_unix_ms :: nat
  js_started_unix_ms :: "nat option"
  js_finished_unix_ms :: "nat option"
  js_exit_code :: "int option"
  js_signal :: "int option"
  js_stdout_retained_bytes :: nat
  js_stdout_observed_bytes :: nat
  js_stderr_retained_bytes :: nat
  js_stderr_observed_bytes :: nat
  js_stdout_truncated :: bool
  js_stderr_truncated :: bool

record job_logs_request =
  jl_job_id :: job_id
  jl_stdout_offset :: nat
  jl_stderr_offset :: nat
  jl_max_bytes :: nat

datatype job_log_encoding = Log_Utf8 | Log_Base64

record job_log_page =
  jp_encoding :: job_log_encoding
  jp_value :: string
  jp_next_offset :: nat
  jp_eof :: bool
  jp_retained_bytes :: nat
  jp_observed_bytes :: nat
  jp_truncated :: bool

record job_logs_response =
  jlr_job_id :: job_id
  jlr_state :: job_state
  jlr_stdout :: job_log_page
  jlr_stderr :: job_log_page

record job_summary =
  jm_job_id :: job_id
  jm_label :: "string option"
  jm_state :: job_state
  jm_cwd :: string
  jm_created_unix_ms :: nat
  jm_started_unix_ms :: "nat option"
  jm_finished_unix_ms :: "nat option"
  jm_exit_code :: "int option"
  jm_signal :: "int option"

datatype job_control_request =
    Req_Start job_request_record
  | Req_Status job_id
  | Req_Logs job_logs_request
  | Req_Cancel job_id
  | Req_List nat
  | Req_Delete job_id

datatype job_control_response =
    Resp_Started job_state_record
  | Resp_Status job_state_record
  | Resp_Logs job_logs_response
  | Resp_Cancelled job_state_record
  | Resp_Listed "job_summary list"
  | Resp_Deleted job_id

section \<open>Lemmas\<close>

lemma hex_digit_lower: "d < 16 \<Longrightarrow> lower_hex_char (hex_digit d)"
  by (auto simp: hex_digit_def lower_hex_char_def is_ascii_digit_def byte_char_of)

lemma hex_byte_lower: "list_all lower_hex_char (hex_byte b)"
  using byte_less [of b] by (auto simp: hex_byte_def intro!: hex_digit_lower)

lemma length_hex: "length (concat (map hex_byte bytes)) = 2 * length bytes"
  by (induction bytes) (auto simp: hex_byte_def)

lemma hex_digit_inj: "a < 16 \<Longrightarrow> b < 16 \<Longrightarrow> hex_digit a = hex_digit b \<Longrightarrow> a = b"
proof -
  assume a: "a < 16" "b < 16" and eq: "hex_digit a = hex_digit b"
  then have "byte (hex_digit a) = byte (hex_digit b)" by simp
  with a show "a = b" by (auto simp: hex_digit_def byte_char_of split: if_splits)
qed

lemma hex_byte_inj: "hex_byte a = hex_byte b \<Longrightarrow> a = b"
proof -
  assume "hex_byte a = hex_byte b"
  then have "byte a div 16 = byte b div 16" "byte a mod 16 = byte b mod 16"
    using byte_less [of a] byte_less [of b]
    by (auto simp: hex_byte_def intro!: hex_digit_inj)
  then have "byte a = byte b" by (metis div_mult_mod_eq)
  then show "a = b" by (simp add: byte_inj)
qed

lemma hex_inj:
  "concat (map hex_byte xs) = concat (map hex_byte ys) \<Longrightarrow> xs = ys"
proof (induction xs arbitrary: ys)
  case Nil
  then show ?case by (cases ys) (auto simp: hex_byte_def)
next
  case (Cons x xs)
  then show ?case
    by (cases ys) (auto simp: hex_byte_def dest!: Cons.IH intro!: hex_byte_inj)
qed

text \<open>A recorded history of a job, and the histories the life cycle allows.\<close>

fun job_run :: "job_state \<Rightarrow> job_state list \<Rightarrow> bool" where
  "job_run s [] = True"
| "job_run s (t # ts) = (can_transition_to s t \<and> job_run t ts)"

inductive job_reachable :: "job_state \<Rightarrow> bool" where
  start: "job_reachable Starting"
| step: "job_reachable s \<Longrightarrow> can_transition_to s t \<Longrightarrow> job_reachable t"

lemma terminal_stuck: "is_terminal s \<Longrightarrow> \<not> can_transition_to s t"
  by (cases s) auto

lemma not_terminal_progress: "\<not> is_terminal s \<Longrightarrow> can_transition_to s Lost"
  by (cases s) auto

lemma job_run_terminal: "is_terminal s \<Longrightarrow> job_run s ts \<Longrightarrow> ts = []"
  by (cases ts) (auto simp: terminal_stuck)

lemma job_run_Lost [simp]: "job_run Lost ts \<longleftrightarrow> ts = []"
  by (cases ts) auto

lemma job_run_running: "job_run Running ts \<Longrightarrow> length ts \<le> 1"
  by (cases ts) (auto dest: job_run_terminal)

lemma job_run_starting: "job_run Starting ts \<Longrightarrow> length ts \<le> 2"
  by (cases ts) (auto dest: job_run_running)

section \<open>Properties\<close>

text \<open>A generated job id parses back to itself, and two generated ids are equal only if the
  random bytes were: the identifier carries all the entropy it was made from.\<close>

theorem job_id_roundtrip:
  assumes "length a = 16" and "length b = 16"
  shows "job_id_parse (job_id_as_str (job_id_generate a)) = Inr (job_id_generate a) \<and>
    (job_id_generate a = job_id_generate b \<longleftrightarrow> a = b)"
proof -
  have "list_all lower_hex_char (concat (map hex_byte a))"
    using hex_byte_lower by (auto simp: list_all_iff)
  then show ?thesis
    using assms(1) by (auto simp: job_id_parse_def job_id_generate_def length_hex JOB_ID_HEX_BYTES_def
        dest: hex_inj)
qed

lemma job_id_roundtrip_witness:
  "job_id_parse (job_id_as_str (job_id_generate ''0123456789abcdef'')) =
      Inr (job_id_generate ''0123456789abcdef'') \<and>
    (job_id_generate ''0123456789abcdef'' = job_id_generate ''0123456789abcdeF'' \<longleftrightarrow>
      ''0123456789abcdef'' = ''0123456789abcdeF'')"
  by (rule job_id_roundtrip) simp_all

text \<open>The life cycle of a job. Every recorded history from \<open>Starting\<close> has at most two
  transitions; a terminal state is only ever the last one, nothing leaves it, and any state that is
  not terminal can still be given up as \<open>Lost\<close>.\<close>

theorem job_history_bounded:
  assumes "job_run Starting history"
  shows "length history \<le> 2 \<and>
    (\<forall>i < length history. is_terminal (history ! i) \<longrightarrow> i = length history - 1) \<and>
    (\<not> is_terminal (last (Starting # history)) \<longrightarrow> job_run Starting (history @ [Lost]))"
proof -
  have tail: "\<forall>i < length ts. is_terminal (ts ! i) \<longrightarrow> i = length ts - 1" if "job_run s ts" for s ts
    using that
  proof (induction ts arbitrary: s)
    case (Cons t ts)
    then have run: "job_run t ts" by simp
    show ?case
    proof (intro allI impI)
      fix i assume i: "i < length (t # ts)" "is_terminal ((t # ts) ! i)"
      show "i = length (t # ts) - 1"
      proof (cases i)
        case 0
        with i run show ?thesis by (auto dest: job_run_terminal)
      next
        case (Suc j)
        with i Cons.IH [OF run] show ?thesis by auto
      qed
    qed
  qed simp
  have "job_run s (ts @ [Lost])" if "job_run s ts" "\<not> is_terminal (last (s # ts))" for s ts
    using that by (induction ts arbitrary: s) (auto simp: not_terminal_progress split: if_splits)
  with assms tail show ?thesis by (auto dest: job_run_starting)
qed

lemma job_history_bounded_witness:
  "length [Running] \<le> 2 \<and> job_run Starting ([Running] @ [Lost])"
  using job_history_bounded [of "[Running]"] by simp

end
