(* ===== verification/Fixed_Protocol.thy ===== *)
theory Fixed_Protocol
  imports Bridge_Error Utf8 "HOL-Library.Word"
begin

text \<open>
  Parsing what the fixed remote operations print (\<open>src/remote/protocol.rs\<close>), on top of the
  internal spool of \<open>src/output.rs\<close>: the paged cursor that cuts a captured stream into
  delimited records, the NUL-separated field list, and the parsers of the single fields.
  The captured files are values of the model: a missing file fails to open and a file
  shorter than the recorded length fails in \<open>read_exact\<close>.

  Base64 is the \<open>base64\<close> crate, a parameter of the two encoders.
\<close>

unbundle bit_operations_syntax

section \<open>Captured output\<close>

datatype stream_kind = Stdout_Stream | Stderr_Stream

record output_page =
  op_bytes :: string
  op_offset :: nat
  op_next_offset :: nat
  op_eof :: bool

record captured_output =
  co_stdout_file :: "string option"
  co_stderr_file :: "string option"
  co_stdout_len :: nat
  co_stderr_len :: nat
  co_aggregate_bytes :: nat

definition MAX_FRAME_BYTES :: nat where
  "MAX_FRAME_BYTES = 8 * 1024 * 1024"

definition stream_file :: "captured_output \<Rightarrow> stream_kind \<Rightarrow> string option" where
  "stream_file out stream =
     (case stream of Stdout_Stream \<Rightarrow> co_stdout_file out | Stderr_Stream \<Rightarrow> co_stderr_file out)"

definition stream_len :: "captured_output \<Rightarrow> stream_kind \<Rightarrow> nat" where
  "stream_len out stream =
     (case stream of Stdout_Stream \<Rightarrow> co_stdout_len out | Stderr_Stream \<Rightarrow> co_stderr_len out)"

text \<open>Open, seek and \<open>read_exact\<close>.\<close>

definition file_read_exact :: "string option \<Rightarrow> nat \<Rightarrow> nat \<Rightarrow> string bridge_result" where
  "file_read_exact file offset wanted =
     (if wanted = 0 then Inr []
      else (case file of
              None \<Rightarrow> Inl (io_error ''No such file or directory (os error 2)'')
            | Some s \<Rightarrow>
                if offset + wanted \<le> length s then Inr (take wanted (drop offset s))
                else Inl (io_error ''failed to fill whole buffer'')))"

definition internal_read :: "captured_output \<Rightarrow> stream_kind \<Rightarrow> nat \<Rightarrow> nat \<Rightarrow> output_page bridge_result" where
  "internal_read out stream offset max_bytes =
     (if max_bytes = 0 \<or> MAX_FRAME_BYTES + 1 < max_bytes then
        Inl (invalid_argument ''internal output page size is invalid'')
      else if stream_len out stream < offset then
        Inl (invalid_argument ''output offset exceeds stream length'')
      else
        bindR (file_read_exact (stream_file out stream) offset
                 (min (stream_len out stream - offset) max_bytes)) (\<lambda>bytes.
        bindR (ok_or (protocol_error ''internal output offset overflowed'')
                 (checked_add offset (length bytes))) (\<lambda>next_offset.
        Inr \<lparr>op_bytes = bytes, op_offset = offset, op_next_offset = next_offset,
             op_eof = (next_offset = stream_len out stream)\<rparr>)))"

section \<open>The spool cursor\<close>

definition CURSOR_PAGE_BYTES :: nat where
  "CURSOR_PAGE_BYTES = 64 * 1024"

text \<open>
  The \<open>length\<close> field of the source is copied from the captured output by the constructor
  and never written again: here it is read from the output (\<open>cursor_length\<close>).
\<close>

record spool_cursor =
  sc_output :: captured_output
  sc_stream :: stream_kind
  sc_offset :: nat
  sc_page :: string
  sc_page_index :: nat
  sc_discarded_incomplete :: bool

definition cursor_length :: "spool_cursor \<Rightarrow> nat" where
  "cursor_length c = stream_len (sc_output c) (sc_stream c)"

definition cursor_new :: "captured_output \<Rightarrow> stream_kind \<Rightarrow> nat \<Rightarrow> spool_cursor bridge_result" where
  "cursor_new out stream maximum =
     (if maximum < stream_len out stream then
        Inl (protocol_error ''fixed stream exceeded its protocol bound'')
      else Inr \<lparr>sc_output = out, sc_stream = stream, sc_offset = 0, sc_page = [],
                sc_page_index = 0, sc_discarded_incomplete = False\<rparr>)"

definition extend_record :: "string \<Rightarrow> string \<Rightarrow> nat \<Rightarrow> string bridge_result" where
  "extend_record rec bytes maximum =
     bindR (ok_or (protocol_error ''protocol record length overflowed'')
              (checked_add (length rec) (length bytes))) (\<lambda>new_length.
     if maximum < new_length then Inl (protocol_error ''protocol record is oversized'')
     else Inr (rec @ bytes))"

lemma internal_read_progress:
  assumes "internal_read out stream offset CURSOR_PAGE_BYTES = Inr page"
    and "offset \<noteq> stream_len out stream"
  shows "offset < op_next_offset page" and "op_next_offset page \<le> stream_len out stream"
    and "op_bytes page \<noteq> []"
  using assms
  by (auto simp: internal_read_def file_read_exact_def result_simps byte_simps CURSOR_PAGE_BYTES_def
      split: if_splits option.splits)

function next_delimited ::
  "spool_cursor \<Rightarrow> char \<Rightarrow> nat \<Rightarrow> string \<Rightarrow> bool \<Rightarrow> string
     \<Rightarrow> string option bridge_result \<times> spool_cursor" where
  "next_delimited c delimiter maximum incomplete discard_incomplete rec =
     (if sc_page_index c = length (sc_page c) then
        (if sc_offset c = cursor_length c then
           (if rec = [] then (Inr None, c)
            else if discard_incomplete then (Inr None, c\<lparr>sc_discarded_incomplete := True\<rparr>)
            else (Inl (protocol_error incomplete), c))
         else
           (case internal_read (sc_output c) (sc_stream c) (sc_offset c) CURSOR_PAGE_BYTES of
              Inl e \<Rightarrow> (Inl e, c)
            | Inr page \<Rightarrow>
                if op_bytes page = [] \<and> \<not> op_eof page then
                  (Inl (protocol_error ''fixed stream cursor made no progress''), c)
                else
                  next_delimited
                    (c\<lparr>sc_offset := op_next_offset page, sc_page := op_bytes page,
                       sc_page_index := 0\<rparr>)
                    delimiter maximum incomplete discard_incomplete rec))
      else
        (let remaining = drop (sc_page_index c) (sc_page c) in
         case position (\<lambda>b. b = delimiter) remaining of
           Some relative \<Rightarrow>
             (case extend_record rec (take relative remaining) maximum of
                Inl e \<Rightarrow> (Inl e, c)
              | Inr rec' \<Rightarrow>
                  (Inr (Some rec'), c\<lparr>sc_page_index := sc_page_index c + relative + 1\<rparr>))
         | None \<Rightarrow>
             (case extend_record rec remaining maximum of
                Inl e \<Rightarrow> (Inl e, c)
              | Inr rec' \<Rightarrow>
                  next_delimited (c\<lparr>sc_page_index := length (sc_page c)\<rparr>)
                    delimiter maximum incomplete discard_incomplete rec')))"
  by pat_completeness auto
termination
proof (relation "measure (\<lambda>(c, _). 2 * (cursor_length c - sc_offset c)
    + (if sc_page_index c = length (sc_page c) then 0 else 1))", goal_cases)
  case (2 c delimiter maximum incomplete discard_incomplete rec page)
  then show ?case
    using internal_read_progress [of "sc_output c" "sc_stream c" "sc_offset c" page]
    by (auto simp: cursor_length_def)
qed (auto simp: cursor_length_def)

declare next_delimited.simps [simp del]

definition next_field :: "spool_cursor \<Rightarrow> nat \<Rightarrow> string option bridge_result \<times> spool_cursor" where
  "next_field c maximum =
     next_delimited c NUL maximum ''protocol record is not NUL terminated'' False []"

definition next_field_capped :: "spool_cursor \<Rightarrow> nat \<Rightarrow> string option bridge_result \<times> spool_cursor" where
  "next_field_capped c maximum =
     next_delimited c NUL maximum ''protocol record is not NUL terminated'' True []"

definition next_line :: "spool_cursor \<Rightarrow> nat \<Rightarrow> string option bridge_result \<times> spool_cursor" where
  "next_line c maximum =
     next_delimited c LF maximum ''protocol line is not newline terminated'' False []"

definition next_line_capped :: "spool_cursor \<Rightarrow> nat \<Rightarrow> string option bridge_result \<times> spool_cursor" where
  "next_line_capped c maximum =
     next_delimited c LF maximum ''protocol line is not newline terminated'' True []"

text \<open>The loop of \<open>read_to_end\<close>.\<close>

function read_to_end_loop :: "spool_cursor \<Rightarrow> string \<Rightarrow> string bridge_result" where
  "read_to_end_loop c bytes =
     (if sc_offset c < cursor_length c \<or> sc_page_index c < length (sc_page c) then
        (if sc_page_index c = length (sc_page c) then
           (case internal_read (sc_output c) (sc_stream c) (sc_offset c) CURSOR_PAGE_BYTES of
              Inl e \<Rightarrow> Inl e
            | Inr page \<Rightarrow>
                if op_bytes page = [] \<and> \<not> op_eof page then
                  Inl (protocol_error ''fixed stream cursor made no progress'')
                else
                  read_to_end_loop
                    (c\<lparr>sc_offset := op_next_offset page, sc_page := op_bytes page,
                       sc_page_index := length (op_bytes page)\<rparr>)
                    (bytes @ op_bytes page))
         else
           read_to_end_loop (c\<lparr>sc_page_index := length (sc_page c)\<rparr>)
             (bytes @ drop (sc_page_index c) (sc_page c)))
      else Inr bytes)"
  by pat_completeness auto
termination
proof (relation "measure (\<lambda>(c, _). 2 * (cursor_length c - sc_offset c)
    + (if sc_page_index c = length (sc_page c) then 0 else 1))", goal_cases)
  case (2 c bytes page)
  then show ?case
    using internal_read_progress [of "sc_output c" "sc_stream c" "sc_offset c" page]
    by (auto simp: cursor_length_def)
qed (auto simp: cursor_length_def)

declare read_to_end_loop.simps [simp del]

definition read_to_end :: "spool_cursor \<Rightarrow> nat \<Rightarrow> string bridge_result" where
  "read_to_end c maximum =
     (if maximum < cursor_length c then
        Inl (protocol_error ''fixed stream exceeded its protocol bound'')
      else
        bindR (read_to_end_loop c []) (\<lambda>bytes.
          if length bytes \<noteq> cursor_length c then
            Inl (protocol_error ''fixed stream length changed while parsing'')
          else Inr bytes))"

definition read_small_stream :: "captured_output \<Rightarrow> stream_kind \<Rightarrow> nat \<Rightarrow> string bridge_result" where
  "read_small_stream out stream maximum =
     bindR (cursor_new out stream maximum) (\<lambda>c. read_to_end c maximum)"

section \<open>What the cursor reads\<close>

text \<open>
  The recorded length is the length of the file, and it fits the address space: what
  \<open>capture_internal\<close> guarantees of an output it returned.
\<close>

definition stream_ok :: "captured_output \<Rightarrow> stream_kind \<Rightarrow> bool" where
  "stream_ok out stream \<longleftrightarrow>
     stream_len out stream \<le> u64_max \<and>
     (\<exists>s. stream_file out stream = Some s \<and> stream_len out stream = length s)"

definition stream_content :: "captured_output \<Rightarrow> stream_kind \<Rightarrow> string" where
  "stream_content out stream = the (stream_file out stream)"

definition cursor_ok :: "spool_cursor \<Rightarrow> bool" where
  "cursor_ok c \<longleftrightarrow>
     stream_ok (sc_output c) (sc_stream c) \<and> sc_offset c \<le> cursor_length c \<and>
     sc_page_index c \<le> length (sc_page c) \<and> length (sc_page c) \<le> sc_offset c \<and>
     sc_page c = drop (sc_offset c - length (sc_page c))
       (take (sc_offset c) (stream_content (sc_output c) (sc_stream c)))"

text \<open>The bytes the cursor has not returned yet.\<close>

definition pending :: "spool_cursor \<Rightarrow> string" where
  "pending c = drop (sc_page_index c) (sc_page c) @
     drop (sc_offset c) (stream_content (sc_output c) (sc_stream c))"

lemma internal_read_ok:
  assumes "stream_ok out stream" "offset \<le> stream_len out stream"
    and "0 < n" "n \<le> MAX_FRAME_BYTES + 1"
  shows "internal_read out stream offset n =
    Inr \<lparr>op_bytes = take n (drop offset (stream_content out stream)), op_offset = offset,
         op_next_offset = min (stream_len out stream) (offset + n),
         op_eof = (stream_len out stream \<le> offset + n)\<rparr>"
proof -
  from assms(1) obtain s where s: "stream_file out stream = Some s" "stream_len out stream = length s"
    "length s \<le> u64_max" by (auto simp: stream_ok_def)
  have "take (min (length s - offset) n) (drop offset s) = take n (drop offset s)"
    by (metis length_drop take_all_iff min.cobounded1 min_def nle_le)
  with s assms show ?thesis
    by (auto simp: internal_read_def file_read_exact_def stream_content_def checked_add_def
        ok_or_def min_def)
qed

lemma pending_new:
  "cursor_new out stream maximum = Inr c \<Longrightarrow> stream_ok out stream \<Longrightarrow>
     cursor_ok c \<and> pending c = stream_content out stream \<and> sc_output c = out \<and> sc_stream c = stream"
  by (auto simp: cursor_new_def cursor_ok_def pending_def split: if_splits)

definition load_page :: "spool_cursor \<Rightarrow> output_page \<Rightarrow> spool_cursor" where
  "load_page c page =
     c\<lparr>sc_offset := op_next_offset page, sc_page := op_bytes page, sc_page_index := 0\<rparr>"

lemma stream_ok_length:
  "stream_ok out stream \<Longrightarrow> stream_len out stream = length (stream_content out stream)"
  by (auto simp: stream_ok_def stream_content_def)

text \<open>Loading a page keeps the invariant and the pending bytes.\<close>

lemma load_page_ok:
  assumes "cursor_ok c" and "sc_page_index c = length (sc_page c)"
    and "internal_read (sc_output c) (sc_stream c) (sc_offset c) CURSOR_PAGE_BYTES = Inr page"
  shows "cursor_ok (load_page c page)" and "pending (load_page c page) = pending c"
proof -
  let ?s = "stream_content (sc_output c) (sc_stream c)"
  have ok: "stream_ok (sc_output c) (sc_stream c)" "sc_offset c \<le> length ?s"
    using assms(1) stream_ok_length by (auto simp: cursor_ok_def cursor_length_def)
  have page: "op_bytes page = take CURSOR_PAGE_BYTES (drop (sc_offset c) ?s)"
    "op_next_offset page = min (length ?s) (sc_offset c + CURSOR_PAGE_BYTES)"
    using internal_read_ok [OF ok(1), of "sc_offset c" CURSOR_PAGE_BYTES] ok assms(3)
    by (auto simp: stream_ok_length CURSOR_PAGE_BYTES_def MAX_FRAME_BYTES_def)
  let ?n = "op_next_offset page"
  have n: "sc_offset c \<le> ?n" "?n \<le> length ?s" using ok(2) page(2) by auto
  have bytes: "op_bytes page = drop (sc_offset c) (take ?n ?s)"
    unfolding page by (simp add: take_drop min_def add.commute)
  show "cursor_ok (load_page c page)"
    using ok n bytes stream_ok_length [OF ok(1)]
    by (auto simp: cursor_ok_def load_page_def cursor_length_def)
  have "op_bytes page @ drop ?n ?s = drop (sc_offset c) ?s"
    unfolding bytes using n by (metis append_take_drop_id drop_append drop_take length_take
        min.absorb2 diff_is_0_eq drop0)
  then show "pending (load_page c page) = pending c"
    using assms(2) by (simp add: pending_def load_page_def)
qed

lemma page_read_exists:
  assumes "cursor_ok c" "sc_offset c \<noteq> cursor_length c"
  obtains page where
    "internal_read (sc_output c) (sc_stream c) (sc_offset c) CURSOR_PAGE_BYTES = Inr page"
    "op_bytes page \<noteq> []"
proof -
  have "stream_ok (sc_output c) (sc_stream c)"
    "sc_offset c \<le> stream_len (sc_output c) (sc_stream c)"
    using assms(1) by (auto simp: cursor_ok_def cursor_length_def)
  from internal_read_ok [OF this, of CURSOR_PAGE_BYTES] obtain page where
    page: "internal_read (sc_output c) (sc_stream c) (sc_offset c) CURSOR_PAGE_BYTES = Inr page"
    by (auto simp: CURSOR_PAGE_BYTES_def MAX_FRAME_BYTES_def)
  with internal_read_progress(3) [OF page] assms(2) that show thesis
    by (auto simp: cursor_length_def)
qed

definition flat_next ::
  "char \<Rightarrow> nat \<Rightarrow> string \<Rightarrow> bool \<Rightarrow> string \<Rightarrow> string \<Rightarrow> string option bridge_result \<times> string" where
  "flat_next delimiter maximum incomplete discard rec s =
     (case position (\<lambda>b. b = delimiter) s of
        Some i \<Rightarrow>
          if maximum < length rec + i then (Inl (protocol_error ''protocol record is oversized''), s)
          else (Inr (Some (rec @ take i s)), drop (i + 1) s)
      | None \<Rightarrow>
          if s \<noteq> [] \<and> maximum < length rec + length s then
            (Inl (protocol_error ''protocol record is oversized''), s)
          else if rec @ s = [] \<or> discard then (Inr None, [])
          else (Inl (protocol_error incomplete), []))"

lemma flat_next_step:
  assumes "position (\<lambda>b. b = delimiter) a = None" and "length rec + length a \<le> maximum"
  shows "fst (flat_next delimiter maximum incomplete discard rec (a @ s)) =
         fst (flat_next delimiter maximum incomplete discard (rec @ a) s)"
    and "is_ok (fst (flat_next delimiter maximum incomplete discard (rec @ a) s)) \<Longrightarrow>
         snd (flat_next delimiter maximum incomplete discard rec (a @ s)) =
         snd (flat_next delimiter maximum incomplete discard (rec @ a) s)"
proof -
  note position_append_miss [OF assms(1), of s]
  with assms(2) show
    "fst (flat_next delimiter maximum incomplete discard rec (a @ s)) =
         fst (flat_next delimiter maximum incomplete discard (rec @ a) s)"
    "is_ok (fst (flat_next delimiter maximum incomplete discard (rec @ a) s)) \<Longrightarrow>
         snd (flat_next delimiter maximum incomplete discard rec (a @ s)) =
         snd (flat_next delimiter maximum incomplete discard (rec @ a) s)"
    by (cases "position (\<lambda>b. b = delimiter) s"; auto simp: flat_next_def add.assoc)+
qed

lemma flat_next_oversized:
  assumes "position (\<lambda>b. b = delimiter) a = None" "a \<noteq> []" "maximum < length rec + length a"
  shows "fst (flat_next delimiter maximum incomplete discard rec (a @ s)) =
    Inl (protocol_error ''protocol record is oversized'')"
  using assms(2,3) position_append_miss [OF assms(1), of s]
  by (cases "position (\<lambda>b. b = delimiter) s") (auto simp: flat_next_def)

lemma extend_record_eq:
  "length rec + length bytes \<le> u64_max \<Longrightarrow>
     extend_record rec bytes maximum =
       (if maximum < length rec + length bytes
        then Inl (protocol_error ''protocol record is oversized'') else Inr (rec @ bytes))"
  by (simp add: extend_record_def checked_add_def)

definition next_agrees ::
  "spool_cursor \<Rightarrow> string option bridge_result \<times> spool_cursor
     \<Rightarrow> string option bridge_result \<times> string \<Rightarrow> bool" where
  "next_agrees c res flat \<longleftrightarrow>
     fst res = fst flat \<and>
     (is_ok (fst res) \<longrightarrow> pending (snd res) = snd flat \<and> cursor_ok (snd res) \<and>
        sc_output (snd res) = sc_output c \<and> sc_stream (snd res) = sc_stream c)"

lemma cursor_ok_advance:
  "cursor_ok c \<Longrightarrow> n \<le> length (sc_page c) \<Longrightarrow> cursor_ok (c\<lparr>sc_page_index := n\<rparr>)"
  by (simp add: cursor_ok_def cursor_length_def)

lemma cursor_ok_discard [simp]: "cursor_ok (c\<lparr>sc_discarded_incomplete := b\<rparr>) = cursor_ok c"
  by (simp add: cursor_ok_def cursor_length_def)

lemma pending_discard [simp]: "pending (c\<lparr>sc_discarded_incomplete := b\<rparr>) = pending c"
  by (simp add: pending_def)

lemma pending_end:
  "cursor_ok c \<Longrightarrow> sc_page_index c = length (sc_page c) \<Longrightarrow> sc_offset c = cursor_length c \<Longrightarrow>
     pending c = []"
  by (simp add: pending_def cursor_ok_def cursor_length_def stream_ok_length)

lemma next_delimited_flat:
  assumes "cursor_ok c" and "length rec + length (pending c) \<le> u64_max"
  shows "next_agrees c (next_delimited c d maximum incomplete discard rec)
           (flat_next d maximum incomplete discard rec (pending c))"
  using assms
proof (induction c d maximum incomplete discard rec rule: next_delimited.induct)
  case (1 c d maximum incomplete discard rec)
  note step = next_delimited.simps [of c d maximum incomplete discard rec]
  show ?case
  proof (cases "sc_page_index c = length (sc_page c)")
    case drained: True
    show ?thesis
    proof (cases "sc_offset c = cursor_length c")
      case True
      with drained "1.prems" have "pending c = []" by (simp add: pending_end)
      with True drained "1.prems" show ?thesis
        by (simp add: step next_agrees_def flat_next_def)
    next
      case False
      from page_read_exists [OF "1.prems"(1) False] obtain page where
        page: "internal_read (sc_output c) (sc_stream c) (sc_offset c) CURSOR_PAGE_BYTES = Inr page"
          "op_bytes page \<noteq> []" .
      note loaded = load_page_ok [OF "1.prems"(1) drained page(1)]
      have "next_delimited c d maximum incomplete discard rec =
          next_delimited (load_page c page) d maximum incomplete discard rec"
        using drained False page by (simp add: step load_page_def)
      moreover have "next_agrees (load_page c page)
          (next_delimited (load_page c page) d maximum incomplete discard rec)
          (flat_next d maximum incomplete discard rec (pending (load_page c page)))"
        using "1.IH"(1) [OF drained False page(1)] page(2) loaded "1.prems"
        by (simp add: load_page_def)
      ultimately show ?thesis using loaded(2) by (simp add: next_agrees_def load_page_def)
    qed
  next
    case False
    let ?rem = "drop (sc_page_index c) (sc_page c)"
    let ?rest = "drop (sc_offset c) (stream_content (sc_output c) (sc_stream c))"
    have pend: "pending c = ?rem @ ?rest" by (simp add: pending_def)
    show ?thesis
    proof (cases "position (\<lambda>b. b = d) ?rem")
      case (Some i)
      then have i: "i < length ?rem" by (simp add: position_eq_Some)
      have pos: "position (\<lambda>b. b = d) (pending c) = Some i"
        using Some i unfolding pend by (auto simp: position_eq_Some nth_append)
      have "length rec + length (take i ?rem) \<le> u64_max"
        using "1.prems"(2) i pend by simp
      moreover have "cursor_ok (c\<lparr>sc_page_index := sc_page_index c + i + 1\<rparr>)"
        using "1.prems"(1) i by (intro cursor_ok_advance) auto
      moreover have "pending (c\<lparr>sc_page_index := sc_page_index c + i + 1\<rparr>) = drop (i + 1) (pending c)"
        using i by (simp add: pending_def add.commute)
      moreover have "take i (pending c) = take i ?rem" using i pend by simp
      ultimately show ?thesis
        using False Some i
        by (simp add: step next_agrees_def flat_next_def pos extend_record_eq Let_def)
    next
      case None
      let ?c' = "c\<lparr>sc_page_index := length (sc_page c)\<rparr>"
      have c': "cursor_ok ?c'" "pending ?c' = ?rest"
        using "1.prems"(1) cursor_ok_advance by (auto simp: pending_def)
      have rem: "?rem \<noteq> []" using False "1.prems"(1) by (auto simp: cursor_ok_def)
      have len: "length rec + length ?rem \<le> u64_max" using "1.prems"(2) pend by simp
      show ?thesis
      proof (cases "maximum < length rec + length ?rem")
        case True
        have "fst (flat_next d maximum incomplete discard rec (pending c)) =
            Inl (protocol_error ''protocol record is oversized'')"
          unfolding pend by (rule flat_next_oversized [OF None rem True])
        with False None True len show ?thesis
          by (simp add: step next_agrees_def extend_record_eq Let_def)
      next
        case fits: False
        have "next_agrees ?c' (next_delimited ?c' d maximum incomplete discard (rec @ ?rem))
            (flat_next d maximum incomplete discard (rec @ ?rem) (pending ?c'))"
          using "1.IH"(2) [OF False refl None] len fits c' "1.prems"(2) pend
          by (simp add: extend_record_eq)
        moreover have "next_delimited c d maximum incomplete discard rec =
            next_delimited ?c' d maximum incomplete discard (rec @ ?rem)"
          using False None len fits by (simp add: step extend_record_eq Let_def)
        ultimately show ?thesis
          using flat_next_step [OF None, of rec maximum incomplete discard ?rest] fits c'(2) pend
          by (simp add: next_agrees_def)
      qed
    qed
  qed
qed

lemma read_to_end_loop_pending:
  "cursor_ok c \<Longrightarrow> read_to_end_loop c bytes = Inr (bytes @ pending c)"
proof (induction c bytes rule: read_to_end_loop.induct)
  case (1 c bytes)
  note step = read_to_end_loop.simps [of c bytes]
  show ?case
  proof (cases "sc_page_index c = length (sc_page c)")
    case drained: True
    show ?thesis
    proof (cases "sc_offset c = cursor_length c")
      case True
      with drained "1.prems" show ?thesis by (simp add: step pending_end)
    next
      case False
      with "1.prems" have lt: "sc_offset c < cursor_length c" by (simp add: cursor_ok_def)
      from page_read_exists [OF "1.prems" False] obtain page where
        page: "internal_read (sc_output c) (sc_stream c) (sc_offset c) CURSOR_PAGE_BYTES = Inr page"
          "op_bytes page \<noteq> []" .
      let ?c' = "c\<lparr>sc_offset := op_next_offset page, sc_page := op_bytes page,
                    sc_page_index := length (op_bytes page)\<rparr>"
      have "cursor_ok ?c'"
        using cursor_ok_advance [OF load_page_ok(1) [OF "1.prems" drained page(1)],
            of "length (op_bytes page)"] by (simp add: load_page_def)
      then have "read_to_end_loop ?c' (bytes @ op_bytes page) =
          Inr ((bytes @ op_bytes page) @ pending ?c')"
        using "1.IH"(1) [OF _ drained page(1)] lt page(2) by simp
      moreover have "op_bytes page @ pending ?c' = pending c"
        using load_page_ok(2) [OF "1.prems" drained page(1)]
        by (simp add: load_page_def pending_def)
      ultimately show ?thesis using drained lt page by (simp add: step)
    qed
  next
    case False
    with "1.prems" have lt: "sc_page_index c < length (sc_page c)" by (simp add: cursor_ok_def)
    let ?c' = "c\<lparr>sc_page_index := length (sc_page c)\<rparr>"
    have "read_to_end_loop ?c' (bytes @ drop (sc_page_index c) (sc_page c)) =
        Inr ((bytes @ drop (sc_page_index c) (sc_page c)) @ pending ?c')"
      using "1.IH"(2) [OF _ False] lt cursor_ok_advance [OF "1.prems"] by simp
    then show ?thesis using False lt by (simp add: step pending_def)
  qed
qed

lemma read_small_stream_eq:
  assumes "stream_ok out stream"
  shows "read_small_stream out stream maximum =
    (if maximum < stream_len out stream
     then Inl (protocol_error ''fixed stream exceeded its protocol bound'')
     else Inr (stream_content out stream))"
proof (cases "maximum < stream_len out stream")
  case False
  then obtain c where c: "cursor_new out stream maximum = Inr c" by (auto simp: cursor_new_def)
  with pending_new [OF c assms] False stream_ok_length [OF assms] show ?thesis
    by (simp add: read_small_stream_def read_to_end_def cursor_length_def read_to_end_loop_pending)
qed (simp add: read_small_stream_def cursor_new_def)

section \<open>Fields\<close>

definition nul_fields :: "string \<Rightarrow> string list bridge_result" where
  "nul_fields bytes =
     (if bytes = [] then Inr []
      else if last bytes \<noteq> NUL then Inl (protocol_error ''protocol record is not NUL terminated'')
      else
        (let fs = split_on NUL (take (length bytes - 1) bytes) in
         if list_ex (\<lambda>f. f = []) fs then Inl (protocol_error ''protocol contains an empty field'')
         else Inr fs))"

definition utf8 :: "string \<Rightarrow> string bridge_result" where
  "utf8 fld = (if valid_utf8 fld then Inr fld else Inl (protocol_error ''protocol metadata is not UTF-8''))"

definition parse_u64 :: "string \<Rightarrow> nat bridge_result" where
  "parse_u64 fld =
     bindR (utf8 fld) (\<lambda>s.
       ok_or (protocol_error ''protocol integer is invalid'') (parse_unsigned u64_max s))"

text \<open>The mask \<open>0o7777\<close> of the source is \<open>0xFFF\<close>.\<close>

definition parse_mode :: "string \<Rightarrow> 32 word bridge_result" where
  "parse_mode fld =
     bindR (utf8 fld) (\<lambda>s.
       bindR (ok_or (protocol_error ''protocol mode is invalid'') (parse_unsigned u32_max s))
         (\<lambda>mode. Inr ((word_of_nat mode :: 32 word) AND 0xFFF)))"

text \<open>\<open>parse::<i64>\<close>: an optional sign, at least one digit, an error on overflow.\<close>

definition parse_i64 :: "string \<Rightarrow> int option" where
  "parse_i64 s =
     (let (negative, digits) =
        (case s of [] \<Rightarrow> (False, [])
         | c # r \<Rightarrow> if c = CHR 0x2B then (False, r) else if c = CHR 0x2D then (True, r)
                     else (False, s))
      in if digits = [] \<or> \<not> list_all is_ascii_digit digits then None
         else
           (let v = (if negative then - int (decimal_value digits) else int (decimal_value digits))
            in if -9223372036854775808 \<le> v \<and> v \<le> 9223372036854775807 then Some v else None))"

definition split_once :: "char \<Rightarrow> string \<Rightarrow> (string \<times> string) option" where
  "split_once c s =
     map_option (\<lambda>i. (take i s, drop (i + 1) s)) (position (\<lambda>b. b = c) s)"

definition parse_mtime :: "string \<Rightarrow> (int \<times> nat) bridge_result" where
  "parse_mtime fld =
     (let invalid = protocol_error ''protocol timestamp is invalid'' in
      bindR (utf8 fld) (\<lambda>v.
      bindR (ok_or invalid (split_once (CHR 0x2E) v)) (\<lambda>(seconds, fraction).
      bindR (ok_or invalid (parse_i64 seconds)) (\<lambda>seconds.
      (let digits = take 9 (takeWhile is_ascii_digit fraction) in
       if digits = [] then Inl invalid
       else
         bindR (ok_or invalid
                  (parse_unsigned u32_max (digits @ replicate (9 - length digits) (CHR 0x30))))
           (\<lambda>nanos. Inr (seconds, nanos)))))))"

datatype remote_file_kind =
    File_Kind | Directory_Kind | Symlink_Kind | BlockDevice_Kind | CharacterDevice_Kind
  | Fifo_Kind | Socket_Kind | Other_File_Kind

definition kind :: "string \<Rightarrow> remote_file_kind bridge_result" where
  "kind fld =
     (if fld = ''f'' then Inr File_Kind
      else if fld = ''d'' then Inr Directory_Kind
      else if fld = ''l'' then Inr Symlink_Kind
      else if fld = ''b'' then Inr BlockDevice_Kind
      else if fld = ''c'' then Inr CharacterDevice_Kind
      else if fld = ''p'' then Inr Fifo_Kind
      else if fld = ''s'' then Inr Socket_Kind
      else if fld = ''o'' \<or> fld = ''?'' then Inr Other_File_Kind
      else Inl (protocol_error ''protocol file kind is invalid''))"

datatype entry_error_code =
    Entry_ReadConflict | Entry_NotFound | Entry_PermissionDenied | Entry_InvalidArgument

record entry_error_value =
  ee_code :: entry_error_code
  ee_message :: string

definition entry_error :: "string \<Rightarrow> entry_error_value bridge_result" where
  "entry_error status =
     (if status = ''NOT_FOUND'' then
        Inr \<lparr>ee_code = Entry_NotFound, ee_message = ''remote path was not found''\<rparr>
      else if status = ''PERMISSION_DENIED'' then
        Inr \<lparr>ee_code = Entry_PermissionDenied, ee_message = ''remote path permission was denied''\<rparr>
      else if status = ''INVALID_ARGUMENT'' then
        Inr \<lparr>ee_code = Entry_InvalidArgument, ee_message = ''remote path is not a regular file''\<rparr>
      else if status = ''READ_CONFLICT'' then
        Inr \<lparr>ee_code = Entry_ReadConflict, ee_message = ''remote file changed while being read''\<rparr>
      else Inl (protocol_error ''protocol status is invalid''))"

text \<open>The capability mismatch record a fixed script prints on standard error.\<close>

definition capability_mismatch :: "captured_output \<Rightarrow> string list \<Rightarrow> string option bridge_result" where
  "capability_mismatch out required =
     (if co_stderr_len out = 0 then Inr None
      else if 4096 < co_stderr_len out then Inr None
      else
        bindR (internal_read out Stderr_Stream 0 4096) (\<lambda>page.
          let pre = ''CODE=CAPABILITY_MISMATCH'' @ [NUL] in
          if \<not> starts_with pre (op_bytes page) then Inr None
          else if co_stdout_len out \<noteq> 0 \<or> \<not> op_eof page then
            Inl (protocol_error ''capability mismatch record is malformed'')
          else
            (let rest = drop (length pre) (op_bytes page) in
             case Option.bind (strip_prefix ''CAPABILITY='' rest) (strip_suffix [NUL]) of
               None \<Rightarrow> Inl (protocol_error ''capability mismatch record is malformed'')
             | Some v \<Rightarrow>
                 if v = [] \<or> NUL \<in> set v then
                   Inl (protocol_error ''capability mismatch record is malformed'')
                 else if \<not> valid_utf8 v then
                   Inl (protocol_error ''capability mismatch key is invalid'')
                 else if v \<notin> set required then
                   Inl (protocol_error ''capability mismatch named an unexpected key'')
                 else Inr (Some v))))"

section \<open>Values and contexts for the client\<close>

datatype value_encoding = Encoding_Utf8 | Encoding_Base64

record encoded_value =
  ev_encoding :: value_encoding
  ev_value :: string

definition encode_bytes :: "(string \<Rightarrow> string) \<Rightarrow> string \<Rightarrow> encoded_value" where
  "encode_bytes base64 bytes =
     (if valid_utf8 bytes \<and> NUL \<notin> set bytes
      then \<lparr>ev_encoding = Encoding_Utf8, ev_value = bytes\<rparr>
      else \<lparr>ev_encoding = Encoding_Base64, ev_value = base64 bytes\<rparr>)"

definition encode_owned_bytes :: "(string \<Rightarrow> string) \<Rightarrow> string \<Rightarrow> encoded_value" where
  "encode_owned_bytes base64 bytes =
     (if NUL \<in> set bytes then \<lparr>ev_encoding = Encoding_Base64, ev_value = base64 bytes\<rparr>
      else (case utf8_decode bytes of
              Some _ \<Rightarrow> \<lparr>ev_encoding = Encoding_Utf8, ev_value = bytes\<rparr>
            | None \<Rightarrow> \<lparr>ev_encoding = Encoding_Base64, ev_value = base64 bytes\<rparr>))"

datatype shell_kind = Bash_Shell string | PosixSh_Shell | Login_Shell

record shell_selection =
  ss_shell :: shell_kind
  ss_fallback :: bool

datatype shell_name = Name_Bash | Name_Sh | Name_Login

record shell_metadata =
  sm_kind :: shell_name
  sm_version :: "string option"
  sm_fallback :: bool

fun mk_shell_metadata :: "shell_kind \<Rightarrow> bool \<Rightarrow> shell_metadata" where
  "mk_shell_metadata (Bash_Shell version) fallback =
     \<lparr>sm_kind = Name_Bash, sm_version = Some version, sm_fallback = fallback\<rparr>"
| "mk_shell_metadata PosixSh_Shell fallback =
     \<lparr>sm_kind = Name_Sh, sm_version = None, sm_fallback = fallback\<rparr>"
| "mk_shell_metadata Login_Shell fallback =
     \<lparr>sm_kind = Name_Login, sm_version = None, sm_fallback = fallback\<rparr>"

definition shell_selection_metadata :: "shell_selection \<Rightarrow> shell_metadata" where
  "shell_selection_metadata shell = mk_shell_metadata (ss_shell shell) (ss_fallback shell)"

datatype helper_mode = Persistent | Temporary | Shell_Mode

record remote_context =
  rc_remote :: bool
  rc_host :: string
  rc_physical_root :: string
  rc_shell :: shell_metadata
  rc_helper_mode :: "helper_mode option"

definition mk_context :: "string \<Rightarrow> string \<Rightarrow> shell_selection \<Rightarrow> helper_mode \<Rightarrow> remote_context" where
  "mk_context host physical_root shell mode =
     \<lparr>rc_remote = True, rc_host = host, rc_physical_root = physical_root,
      rc_shell = shell_selection_metadata shell, rc_helper_mode = Some mode\<rparr>"

fun shell_name_text :: "shell_name \<Rightarrow> string" where
  "shell_name_text Name_Bash = ''bash''"
| "shell_name_text Name_Sh = ''sh''"
| "shell_name_text Name_Login = ''login''"

definition attach_remote_context :: "bridge_error \<Rightarrow> remote_context \<Rightarrow> bridge_error" where
  "attach_remote_context error context =
     attach_available_remote_context error (Some (rc_host context))
       (Some (rc_physical_root context))
       (Some \<lparr>esm_kind = shell_name_text (sm_kind (rc_shell context)),
              esm_version = sm_version (rc_shell context),
              esm_fallback = sm_fallback (rc_shell context)\<rparr>)"

definition attach_optional_remote_context ::
  "bridge_error \<Rightarrow> remote_context option \<Rightarrow> bridge_error" where
  "attach_optional_remote_context error context =
     (case context of Some c \<Rightarrow> attach_remote_context error c | None \<Rightarrow> error)"

section \<open>The field list\<close>

definition nul_record :: "string \<Rightarrow> string" where
  "nul_record f = f @ [NUL]"

lemma split_nul_records:
  assumes "fs \<noteq> []" "\<forall>f \<in> set fs. NUL \<notin> set f"
  shows "split_on NUL (butlast (concat (map nul_record fs))) = fs"
  using assms
proof (induction fs)
  case (Cons f fs)
  show ?case
  proof (cases "fs = []")
    case True
    with Cons.prems show ?thesis by (simp add: nul_record_def split_on_free)
  next
    case False
    then have "concat (map nul_record fs) \<noteq> []" by (cases fs) (auto simp: nul_record_def)
    with False Cons show ?thesis
      by (simp add: nul_record_def butlast_append split_on_append)
  qed
qed simp

lemma concat_nul_split:
  "concat (map nul_record (split_on NUL s)) = s @ [NUL]"
proof (induction s)
  case (Cons x s)
  then show ?case
    by (cases "split_on NUL s") (auto simp: nul_record_def split: if_splits)
qed (simp add: nul_record_def)

text \<open>
  \<open>nul_fields\<close> accepts exactly the concatenations of non-empty NUL-terminated fields, and
  returns the fields.
\<close>

lemma nul_fields_iff:
  "nul_fields bytes = Inr fs \<longleftrightarrow>
     bytes = concat (map nul_record fs) \<and> (\<forall>f \<in> set fs. f \<noteq> [] \<and> NUL \<notin> set f)"
proof
  assume fs: "nul_fields bytes = Inr fs"
  show "bytes = concat (map nul_record fs) \<and> (\<forall>f \<in> set fs. f \<noteq> [] \<and> NUL \<notin> set f)"
  proof (cases "bytes = []")
    case True
    with fs show ?thesis by (simp add: nul_fields_def)
  next
    case False
    then have bytes: "bytes = butlast bytes @ [last bytes]" by simp
    from False fs have "last bytes = NUL" "fs = split_on NUL (butlast bytes)" "[] \<notin> set fs"
      by (auto simp: nul_fields_def Let_def list_ex_iff butlast_conv_take split: if_splits)
    with bytes show ?thesis
      using concat_nul_split [of "butlast bytes"] split_on_piece [of _ NUL "butlast bytes"] by auto
  qed
next
  assume a: "bytes = concat (map nul_record fs) \<and> (\<forall>f \<in> set fs. f \<noteq> [] \<and> NUL \<notin> set f)"
  show "nul_fields bytes = Inr fs"
  proof (cases "fs = []")
    case True
    with a show ?thesis by (simp add: nul_fields_def)
  next
    case False
    then obtain gs g where gs: "fs = gs @ [g]" by (metis rev_exhaust)
    with a have "bytes \<noteq> []" "last bytes = NUL" by (auto simp: nul_record_def)
    moreover have "split_on NUL (take (length bytes - 1) bytes) = fs"
      using a False split_nul_records [of fs] by (metis butlast_conv_take)
    moreover have "[] \<notin> set fs" using a by blast
    ultimately show ?thesis by (auto simp: nul_fields_def list_ex_iff)
  qed
qed

lemma parse_u64_decimal: "n \<le> u64_max \<Longrightarrow> parse_u64 (decimal n) = Inr n"
proof -
  have "valid_utf8 (decimal n)"
    using decimal_set [of _ n] by (intro valid_utf8_ascii) (fastforce simp: is_ascii_digit_def)
  then show "n \<le> u64_max \<Longrightarrow> parse_u64 (decimal n) = Inr n"
    by (simp add: parse_u64_def utf8_def parse_decimal_roundtrip)
qed

lemma parse_u64_bound: "parse_u64 fld = Inr n \<Longrightarrow> n \<le> u64_max"
  by (auto simp: parse_u64_def result_simps utf8_def dest: parse_unsigned_bound split: if_splits)

lemma encode_owned_bytes_eq: "encode_owned_bytes b64 bytes = encode_bytes b64 bytes"
  by (auto simp: encode_owned_bytes_def encode_bytes_def valid_utf8_def split: option.splits)

lemma attach_remote_context_keeps [simp]:
  "be_code (attach_remote_context e c) = be_code e"
  "be_message (attach_remote_context e c) = be_message e"
  "be_retryable (attach_remote_context e c) = be_retryable e"
  by (simp_all add: attach_remote_context_def)

lemma attach_optional_remote_context_keeps [simp]:
  "be_code (attach_optional_remote_context e c) = be_code e"
  "be_message (attach_optional_remote_context e c) = be_message e"
  "be_retryable (attach_optional_remote_context e c) = be_retryable e"
  by (simp_all add: attach_optional_remote_context_def split: option.splits)

section \<open>Properties\<close>

text \<open>A loop that reads up to \<open>n\<close> fields from the cursor, as its clients do.\<close>

fun read_fields :: "nat \<Rightarrow> spool_cursor \<Rightarrow> nat \<Rightarrow> string list bridge_result \<times> spool_cursor" where
  "read_fields 0 c maximum = (Inr [], c)"
| "read_fields (Suc n) c maximum =
     (case next_field c maximum of
        (Inl e, c') \<Rightarrow> (Inl e, c')
      | (Inr None, c') \<Rightarrow> (Inr [], c')
      | (Inr (Some f), c') \<Rightarrow>
          (case read_fields n c' maximum of
             (Inl e, c'') \<Rightarrow> (Inl e, c'')
           | (Inr fs, c'') \<Rightarrow> (Inr (f # fs), c'')))"

lemma cursor_pending_bound: "cursor_ok c \<Longrightarrow> length (pending c) \<le> u64_max"
proof -
  assume c: "cursor_ok c"
  let ?s = "stream_content (sc_output c) (sc_stream c)"
  have ok: "stream_ok (sc_output c) (sc_stream c)" using c by (simp add: cursor_ok_def)
  then have "stream_len (sc_output c) (sc_stream c) \<le> u64_max" by (simp add: stream_ok_def)
  then have "length ?s \<le> u64_max" by (simp only: stream_ok_length [OF ok])
  moreover have "length (pending c) \<le> length (sc_page c) + (length ?s - sc_offset c)"
    by (simp add: pending_def)
  moreover have "length (sc_page c) \<le> sc_offset c" "sc_offset c \<le> length ?s"
    using c stream_ok_length [of "sc_output c" "sc_stream c"]
    by (auto simp: cursor_ok_def cursor_length_def)
  ultimately show ?thesis by linarith
qed

lemma next_field_flat:
  "cursor_ok c \<Longrightarrow> next_agrees c (next_field c maximum)
     (flat_next NUL maximum ''protocol record is not NUL terminated'' False [] (pending c))"
  unfolding next_field_def by (rule next_delimited_flat) (simp_all add: cursor_pending_bound)

lemma next_field_record:
  assumes "cursor_ok c" "pending c = nul_record f @ s" "NUL \<notin> set f" "length f \<le> maximum"
  shows "\<exists>c'. next_field c maximum = (Inr (Some f), c') \<and> pending c' = s \<and> cursor_ok c'"
proof -
  have "position (\<lambda>b. b = NUL) (f @ NUL # s) = Some (length f)"
    using assms(3) by (intro position_append_hit) auto
  then have "flat_next NUL maximum ''protocol record is not NUL terminated'' False [] (pending c) =
      (Inr (Some f), s)"
    using assms(2,4) by (simp add: flat_next_def nul_record_def)
  with next_field_flat [OF assms(1), of maximum] show ?thesis
    by (cases "next_field c maximum") (simp add: next_agrees_def)
qed

lemma next_field_end:
  assumes "cursor_ok c" "pending c = []"
  shows "\<exists>c'. next_field c maximum = (Inr None, c')"
proof -
  have "flat_next NUL maximum ''protocol record is not NUL terminated'' False [] (pending c) = (Inr None, [])"
    using assms(2) by (simp add: flat_next_def)
  with next_field_flat [OF assms(1), of maximum] show ?thesis
    by (cases "next_field c maximum") (simp add: next_agrees_def)
qed

lemma read_fields_pending:
  assumes "cursor_ok c" "pending c = concat (map nul_record fs)"
    and "\<forall>f \<in> set fs. NUL \<notin> set f \<and> length f \<le> maximum" "length fs < n"
  shows "fst (read_fields n c maximum) = Inr fs"
  using assms
proof (induction fs arbitrary: n c)
  case Nil
  then obtain k where "n = Suc k" by (cases n) auto
  with next_field_end [OF Nil.prems(1), of maximum] Nil.prems(2) show ?case by auto
next
  case (Cons f fs)
  from Cons.prems(4) obtain k where k: "n = Suc k" "length fs < k" by (cases n) auto
  from Cons.prems(2) have "pending c = nul_record f @ concat (map nul_record fs)" by simp
  with next_field_record [OF Cons.prems(1) this] Cons.prems(3) obtain c' where
    "next_field c maximum = (Inr (Some f), c')" "pending c' = concat (map nul_record fs)" "cursor_ok c'"
    by auto
  with Cons.IH [of c' k] Cons.prems(3) k show ?case
    by (cases "read_fields k c' maximum") auto
qed

text \<open>Paging is invisible to the parser. If a captured stream holds NUL-terminated fields, none
  longer than the limit, then reading fields from a fresh cursor returns exactly these fields in
  order, wherever the 64 KiB page boundaries fall in them.\<close>

theorem cursor_reads_fields:
  assumes "stream_ok out stream" and "stream_content out stream = concat (map nul_record fs)"
    and "cursor_new out stream limit = Inr c"
    and "\<forall>f \<in> set fs. NUL \<notin> set f \<and> length f \<le> maximum" and "length fs < n"
  shows "fst (read_fields n c maximum) = Inr fs"
  using pending_new [OF assms(3,1)] assms(2,4,5) by (intro read_fields_pending) auto

definition sample_output :: captured_output where
  "sample_output =
     \<lparr>co_stdout_file = Some (''a'' @ [NUL] @ ''bc'' @ [NUL]), co_stderr_file = None,
      co_stdout_len = 5, co_stderr_len = 0, co_aggregate_bytes = 5\<rparr>"

definition sample_cursor :: spool_cursor where
  "sample_cursor = \<lparr>sc_output = sample_output, sc_stream = Stdout_Stream, sc_offset = 0, sc_page = [],
     sc_page_index = 0, sc_discarded_incomplete = False\<rparr>"

lemma sample_stream_ok: "stream_ok sample_output Stdout_Stream"
  by (simp add: stream_ok_def stream_len_def stream_file_def sample_output_def u64_max_def)

lemma cursor_reads_fields_witness: "fst (read_fields 3 sample_cursor 2) = Inr [''a'', ''bc'']"
  by (rule cursor_reads_fields [OF sample_stream_ok, where limit = 9])
     (simp_all add: stream_content_def stream_file_def stream_len_def sample_output_def
       nul_record_def cursor_new_def sample_cursor_def)

text \<open>Reading a small stream returns the whole captured stream or, when it is longer than the
  operation allows, the protocol error; never a prefix.\<close>

theorem read_small_stream_whole:
  assumes "stream_ok out stream"
  shows "read_small_stream out stream maximum =
    (if maximum < stream_len out stream
     then Inl (protocol_error ''fixed stream exceeded its protocol bound'')
     else Inr (stream_content out stream))"
  by (rule read_small_stream_eq [OF assms])

lemma read_small_stream_whole_witness:
  "read_small_stream sample_output Stdout_Stream 5 =
    (if 5 < stream_len sample_output Stdout_Stream
     then Inl (protocol_error ''fixed stream exceeded its protocol bound'')
     else Inr (stream_content sample_output Stdout_Stream))"
  by (rule read_small_stream_whole [OF sample_stream_ok])

text \<open>\<open>nul_fields\<close> accepts exactly the concatenations of non-empty NUL-terminated fields and
  returns the fields.\<close>

theorem nul_fields_exact:
  "nul_fields bytes = Inr fs \<longleftrightarrow>
     bytes = concat (map nul_record fs) \<and> (\<forall>f \<in> set fs. f \<noteq> [] \<and> NUL \<notin> set f)"
  by (rule nul_fields_iff)

lemma nul_fields_exact_witness: "nul_fields (''a'' @ [NUL]) = Inr [''a'']"
  by (rule nul_fields_exact [THEN iffD2]) (simp add: nul_record_def)

text \<open>The two encoders of untrusted bytes agree, and what they encode as text is the bytes
  themselves, valid UTF-8 without NUL; everything else goes through base64.\<close>

theorem encoders_agree:
  "encode_owned_bytes base64 bytes = encode_bytes base64 bytes \<and>
    (ev_encoding (encode_bytes base64 bytes) = Encoding_Utf8 \<longleftrightarrow>
       valid_utf8 bytes \<and> NUL \<notin> set bytes \<and> ev_value (encode_bytes base64 bytes) = bytes)"
  by (auto simp: encode_owned_bytes_eq encode_bytes_def)

end
