(* ===== verification/Patch_Types.thy ===== *)
theory Patch_Types
  imports Bridge_Error
begin

text \<open>
  What the patch parser and the patch driver share (the head of \<open>src/remote/patch.rs\<close>): the
  compiled limits, the kinds of file operation, the checks on a patch path and the errors.
\<close>

definition MAX_PATCH_BYTES :: nat where "MAX_PATCH_BYTES = 4 * 1024 * 1024"
definition MAX_PATCH_FILES :: nat where "MAX_PATCH_FILES = 32"
definition MAX_PATCH_HUNKS :: nat where "MAX_PATCH_HUNKS = 4096"
definition MAX_PATCH_BODY_LINES :: nat where "MAX_PATCH_BODY_LINES = 100000"
definition MAX_PATCH_PATH_BYTES :: nat where "MAX_PATCH_PATH_BYTES = 64 * 1024"

datatype file_patch_operation = Create_File | Update_File | Delete_File

datatype patched_file = Write_File string | Remove_File

definition invalid_patch :: "string \<Rightarrow> bridge_error" where
  "invalid_patch message = invalid_argument message"

definition patch_too_large :: "string \<Rightarrow> bridge_error" where
  "patch_too_large message = new_error RequestTooLarge message False"

definition write_conflict :: "string \<Rightarrow> bridge_error" where
  "write_conflict message = new_error WriteConflict message False"

fun check_path_components :: "string list \<Rightarrow> unit bridge_result" where
  "check_path_components [] = Inr ()"
| "check_path_components (c # cs) =
     (if c = ''..'' then Inl (new_error PathOutsideRoot ''patch path contains traversal'' False)
      else if c = [] \<or> c = ''.'' then Inl (invalid_patch ''patch path is not canonical'')
      else check_path_components cs)"

definition validate_absolute_patch_path :: "string \<Rightarrow> unit bridge_result" where
  "validate_absolute_patch_path path =
     (if MAX_PATCH_PATH_BYTES < length path then
        Inl (patch_too_large ''patch path exceeds the compiled byte limit'')
      else if length path < 2 \<or> \<not> starts_with ''/'' path then
        Inl (invalid_patch ''patch path is not canonical'')
      else check_path_components (split_on SLASH (drop 1 path)))"

lemma patch_error_codes [simp]:
  "be_code (invalid_patch m) = InvalidArgument"
  "be_code (patch_too_large m) = RequestTooLarge"
  "be_code (write_conflict m) = WriteConflict"
  by (simp_all add: invalid_patch_def patch_too_large_def write_conflict_def)

definition patch_component :: "string \<Rightarrow> bool" where
  "patch_component c \<longleftrightarrow> c \<noteq> [] \<and> c \<noteq> ''.'' \<and> c \<noteq> ''..'' \<and> SLASH \<notin> set c"

lemma check_path_components_ok:
  "check_path_components cs = Inr () \<longleftrightarrow> (\<forall>c \<in> set cs. c \<noteq> [] \<and> c \<noteq> ''.'' \<and> c \<noteq> ''..'')"
  by (induction cs) auto

lemma validate_path_ok:
  "validate_absolute_patch_path path = Inr () \<longleftrightarrow>
     length path \<le> MAX_PATCH_PATH_BYTES \<and>
     (\<exists>cs. cs \<noteq> [] \<and> list_all patch_component cs \<and> path = ''/'' @ join_with ''/'' cs)"
  (is "?lhs \<longleftrightarrow> ?len \<and> ?rhs")
proof
  assume ok: ?lhs
  then have len: ?len and path: "path = SLASH # drop 1 path"
    and parts: "check_path_components (split_on SLASH (drop 1 path)) = Inr ()"
    by (auto simp: validate_absolute_patch_path_def starts_with_iff split: if_splits)
  from parts have "list_all patch_component (split_on SLASH (drop 1 path))"
    by (auto simp: check_path_components_ok list_all_iff patch_component_def split_on_piece)
  moreover have "path = ''/'' @ join_with ''/'' (split_on SLASH (drop 1 path))"
    using path by (simp add: join_split)
  ultimately show "?len \<and> ?rhs" using len by (metis split_on_nonempty)
next
  assume r: "?len \<and> ?rhs"
  then obtain cs where cs: "cs \<noteq> []" "list_all patch_component cs" "path = ''/'' @ join_with ''/'' cs"
    by blast
  then have "split_on SLASH (join_with ''/'' cs) = cs"
    by (intro split_join) (auto simp: list_all_iff patch_component_def)
  moreover have "join_with ''/'' cs \<noteq> []"
    using cs(1,2) by (cases cs) (auto simp: join_Cons patch_component_def)
  ultimately show ?lhs
    using r cs
    by (cases "join_with ''/'' cs")
       (auto simp: validate_absolute_patch_path_def check_path_components_ok list_all_iff
         patch_component_def starts_with_def)
qed

end
