(* ===== verification/Codex_Patch.thy ===== *)
theory Codex_Patch
  imports Patch_Types Utf8
begin

text \<open>
  The parser of the apply-patch format (\<open>src/remote/codex_patch.rs\<close>).  The source walks an
  index through the vector of records up to the end marker; here the records that are still
  to be read are a list, so \<open>index < end\<close> is "not empty" and \<open>records[index]\<close> is its head.
\<close>

definition BEGIN_PATCH :: string where "BEGIN_PATCH = ''*** Begin Patch''"
definition END_PATCH :: string where "END_PATCH = ''*** End Patch''"
definition ENVIRONMENT_ID :: string where "ENVIRONMENT_ID = ''*** Environment ID: ''"
definition ADD_FILE :: string where "ADD_FILE = ''*** Add File: ''"
definition UPDATE_FILE :: string where "UPDATE_FILE = ''*** Update File: ''"
definition DELETE_FILE :: string where "DELETE_FILE = ''*** Delete File: ''"
definition MOVE_TO :: string where "MOVE_TO = ''*** Move to: ''"
definition END_OF_FILE :: string where "END_OF_FILE = ''*** End of File''"

definition MAX_CODEX_RECORDS :: nat where
  "MAX_CODEX_RECORDS = MAX_PATCH_BODY_LINES + (2 * MAX_PATCH_HUNKS) + MAX_PATCH_FILES + 3"

record codex_update_chunk =
  ck_context :: "string option"
  ck_old_lines :: "string list"
  ck_new_lines :: "string list"
  ck_context_line_indices :: "(nat \<times> nat) list"
  ck_end_of_file :: bool

record codex_file_patch =
  cf_path :: string
  cf_move_path :: "string option"
  cf_operation :: file_patch_operation
  cf_add_bytes :: "string option"
  cf_chunks :: "codex_update_chunk list"

section \<open>Checks on single records\<close>

definition validate_codex_path :: "string \<Rightarrow> unit bridge_result" where
  "validate_codex_path path =
     (if \<not> starts_with ''/'' path then Inl (invalid_patch ''Codex patch path is not absolute'')
      else if TAB \<in> set path \<or> CR \<in> set path \<or> LF \<in> set path then
        Inl (invalid_patch ''Codex patch path is invalid'')
      else validate_absolute_patch_path path)"

definition is_file_directive :: "string \<Rightarrow> bool" where
  "is_file_directive rec \<longleftrightarrow>
     starts_with ADD_FILE rec \<or> starts_with UPDATE_FILE rec \<or> starts_with DELETE_FILE rec"

definition reject_nested_or_mixed_record :: "string \<Rightarrow> unit bridge_result" where
  "reject_nested_or_mixed_record rec =
     (if rec = BEGIN_PATCH \<or> rec = END_PATCH then
        Inl (invalid_patch ''Codex patch envelope is nested'')
      else if starts_with ENVIRONMENT_ID rec \<or> starts_with ''*** '' rec then
        Inl (invalid_patch ''Codex patch marker is invalid'')
      else Inr ())"

definition increment_hunks :: "nat \<Rightarrow> nat bridge_result" where
  "increment_hunks count =
     bindR (ok_or (patch_too_large ''patch hunk count overflowed'') (checked_add count 1)) (\<lambda>t.
       if MAX_PATCH_HUNKS < t then Inl (patch_too_large ''patch contains too many hunks'')
       else Inr t)"

definition increment_body_lines :: "nat \<Rightarrow> nat bridge_result" where
  "increment_body_lines count =
     bindR (ok_or (patch_too_large ''patch body count overflowed'') (checked_add count 1)) (\<lambda>t.
       if MAX_PATCH_BODY_LINES < t then Inl (patch_too_large ''patch contains too many body lines'')
       else Inr t)"

definition extend_line :: "string \<Rightarrow> string \<Rightarrow> nat \<Rightarrow> string bridge_result" where
  "extend_line bytes line maximum =
     bindR (ok_or (patch_too_large ''patched file size overflowed'')
              (Option.bind (checked_add (length bytes) (length line)) (\<lambda>n. checked_add n 1)))
       (\<lambda>next.
          if maximum < next then Inl (patch_too_large ''patched file exceeds the output limit'')
          else Inr (bytes @ line @ [LF]))"

section \<open>The body of an added file\<close>

fun parse_add_lines ::
  "string list \<Rightarrow> nat \<Rightarrow> string \<Rightarrow> (string \<times> string list \<times> nat) bridge_result" where
  "parse_add_lines [] count bytes = Inr (bytes, [], count)"
| "parse_add_lines (r # rs) count bytes =
     (if is_file_directive r then Inr (bytes, r # rs, count)
      else
        bindR (reject_nested_or_mixed_record r) (\<lambda>_.
        bindR (ok_or (invalid_patch ''Codex add-file line is invalid'') (strip_prefix ''+'' r)) (\<lambda>text.
        bindR (increment_body_lines count) (\<lambda>count'.
        bindR (extend_line bytes text MAX_PATCH_BYTES) (\<lambda>bytes'.
        parse_add_lines rs count' bytes')))))"

section \<open>One chunk of an updated file\<close>

text \<open>\<open>split_at_checked(1)\<close>: the first byte, if it is a whole character.\<close>

definition split_first_byte :: "string \<Rightarrow> (char \<times> string) option" where
  "split_first_byte s =
     (case s of
        [] \<Rightarrow> None
      | c # t \<Rightarrow> (case t of [] \<Rightarrow> Some (c, t)
                  | d # _ \<Rightarrow> if continuation d then None else Some (c, t)))"

record chunk_lines =
  cl_old :: "string list"
  cl_new :: "string list"
  cl_indices :: "(nat \<times> nat) list"
  cl_eof :: bool

definition chunk_boundary :: "string \<Rightarrow> bool" where
  "chunk_boundary rec \<longleftrightarrow>
     rec = ''@@'' \<or> starts_with ''@@ '' rec \<or> is_file_directive rec \<or> starts_with MOVE_TO rec"

definition add_chunk_line :: "char \<Rightarrow> string \<Rightarrow> chunk_lines \<Rightarrow> chunk_lines bridge_result" where
  "add_chunk_line mark text l =
     (if mark = SP then
        Inr (l\<lparr>cl_indices := cl_indices l @ [(length (cl_old l), length (cl_new l))],
               cl_old := cl_old l @ [text], cl_new := cl_new l @ [text]\<rparr>)
      else if mark = CHR 0x2D then Inr (l\<lparr>cl_old := cl_old l @ [text]\<rparr>)
      else if mark = CHR 0x2B then Inr (l\<lparr>cl_new := cl_new l @ [text]\<rparr>)
      else Inl (invalid_patch ''Codex update-file line is invalid''))"

fun parse_chunk_lines ::
  "string list \<Rightarrow> nat \<Rightarrow> chunk_lines \<Rightarrow> (chunk_lines \<times> string list \<times> nat) bridge_result" where
  "parse_chunk_lines [] count l = Inr (l, [], count)"
| "parse_chunk_lines (r # rs) count l =
     (if r = END_OF_FILE then Inr (l\<lparr>cl_eof := True\<rparr>, dropWhile (\<lambda>s. s = []) rs, count)
      else if chunk_boundary r then Inr (l, r # rs, count)
      else
        bindR (reject_nested_or_mixed_record r) (\<lambda>_.
        bindR (ok_or (invalid_patch ''Codex update-file line is invalid'') (split_first_byte r))
          (\<lambda>(mark, text).
        bindR (add_chunk_line mark text l) (\<lambda>l'.
        bindR (increment_body_lines count) (\<lambda>count'.
        parse_chunk_lines rs count' l')))))"

definition parse_chunk_context :: "string list \<Rightarrow> (string option \<times> string list) bridge_result" where
  "parse_chunk_context recs =
     (case recs of
        [] \<Rightarrow> Inr (None, [])
      | r # rs \<Rightarrow>
          if r = ''@@'' then Inr (None, rs)
          else (case strip_prefix ''@@ '' r of
                  Some context \<Rightarrow>
                    if context = [] then Inl (invalid_patch ''Codex patch context is empty'')
                    else Inr (Some context, rs)
                | None \<Rightarrow> Inr (None, recs)))"

definition check_end_of_file :: "bool \<Rightarrow> string list \<Rightarrow> unit bridge_result" where
  "check_end_of_file end_of_file recs =
     (case recs of
        [] \<Rightarrow> Inr ()
      | r # _ \<Rightarrow>
          if \<not> end_of_file then Inr ()
          else if starts_with MOVE_TO r then
            Inl (invalid_patch ''Codex patch move directive is misplaced'')
          else if \<not> is_file_directive r then
            Inl (invalid_patch ''Codex end-of-file marker is not final'')
          else Inr ())"

definition parse_update_chunk ::
  "string list \<Rightarrow> nat \<Rightarrow> (codex_update_chunk \<times> string list \<times> nat) bridge_result" where
  "parse_update_chunk recs count =
     bindR (parse_chunk_context recs) (\<lambda>(context, recs1).
     bindR (parse_chunk_lines recs1 count
              \<lparr>cl_old = [], cl_new = [], cl_indices = [], cl_eof = False\<rparr>)
       (\<lambda>(l, recs2, count').
     bindR (check_end_of_file (cl_eof l) recs2) (\<lambda>_.
     Inr (\<lparr>ck_context = context, ck_old_lines = cl_old l, ck_new_lines = cl_new l,
           ck_context_line_indices = cl_indices l, ck_end_of_file = cl_eof l\<rparr>, recs2, count'))))"

section \<open>How far the parsers read\<close>

lemma length_dropWhile: "length (dropWhile P xs) \<le> length xs"
  by (induction xs) auto

lemma parse_add_lines_length:
  "parse_add_lines rs count bytes = Inr (b, rest, t) \<Longrightarrow> length rest \<le> length rs"
  by (induction rs count bytes rule: parse_add_lines.induct)
     (auto simp: result_simps split: if_splits dest: le_SucI)

lemma parse_chunk_lines_length:
  "parse_chunk_lines rs count l = Inr (l', rest, t) \<Longrightarrow>
     length rest \<le> length rs \<and>
     (rs \<noteq> [] \<and> \<not> chunk_boundary (hd rs) \<longrightarrow> length rest < length rs)"
proof (induction rs count l rule: parse_chunk_lines.induct)
  case (2 r rs count l)
  show ?case
  proof (cases "r = END_OF_FILE")
    case True
    with "2.prems" length_dropWhile [of "\<lambda>s. s = []" rs] show ?thesis by auto
  next
    case False
    with "2.prems" "2.IH" show ?thesis
      by (fastforce simp: result_simps split: if_splits)
  qed
qed simp

lemma parse_chunk_context_length:
  "parse_chunk_context recs = Inr (c, rest) \<Longrightarrow>
     length rest \<le> length recs \<and>
     (rest = recs \<or> length rest < length recs) \<and>
     (recs \<noteq> [] \<and> (hd recs = ''@@'' \<or> starts_with ''@@ '' (hd recs)) \<longrightarrow> length rest < length recs)"
  by (auto simp: parse_chunk_context_def strip_prefix_eq_None
      split: list.splits if_splits option.splits)

lemma parse_update_chunk_length:
  assumes "parse_update_chunk recs count = Inr (c, rest, t)"
    and "recs \<noteq> []" "\<not> is_file_directive (hd recs)" "\<not> starts_with MOVE_TO (hd recs)"
  shows "length rest < length recs"
proof -
  from assms(1) obtain ctx recs1 l where
    ctx: "parse_chunk_context recs = Inr (ctx, recs1)" and
    lines: "parse_chunk_lines recs1 count
       \<lparr>cl_old = [], cl_new = [], cl_indices = [], cl_eof = False\<rparr> = Inr (l, rest, t)"
    by (auto simp: parse_update_chunk_def result_simps)
  note parse_chunk_context_length [OF ctx] parse_chunk_lines_length [OF lines]
  with assms show ?thesis by (auto simp: chunk_boundary_def)
qed


section \<open>All the chunks of an updated file\<close>

function parse_chunks ::
  "string list \<Rightarrow> nat \<Rightarrow> nat \<Rightarrow> codex_update_chunk list \<Rightarrow>
     (codex_update_chunk list \<times> string list \<times> nat \<times> nat) bridge_result" where
  "parse_chunks [] hunks count chunks = Inr (chunks, [], hunks, count)"
| "parse_chunks (r # rs) hunks count chunks =
     (if is_file_directive r then Inr (chunks, r # rs, hunks, count)
      else if starts_with MOVE_TO r then
        Inl (invalid_patch ''Codex patch move directive is misplaced'')
      else
        bindR (increment_hunks hunks) (\<lambda>hunks'.
        bindR (parse_update_chunk (r # rs) count) (\<lambda>(chunk, rest, count').
        parse_chunks rest hunks' count' (chunks @ [chunk]))))"
  by pat_completeness auto
termination
  by (relation "measure (\<lambda>(rs, _). length rs)")
     (auto dest!: parse_update_chunk_length)

section \<open>One file\<close>

text \<open>The file directive at the head of a section, in the order the source tries them.\<close>

definition parse_directive :: "string \<Rightarrow> (file_patch_operation \<times> string) bridge_result" where
  "parse_directive r =
     (case strip_prefix ADD_FILE r of Some path \<Rightarrow> Inr (Create_File, path)
      | None \<Rightarrow>
     (case strip_prefix UPDATE_FILE r of Some path \<Rightarrow> Inr (Update_File, path)
      | None \<Rightarrow>
     (case strip_prefix DELETE_FILE r of Some path \<Rightarrow> Inr (Delete_File, path)
      | None \<Rightarrow> Inl (invalid_patch ''Codex patch file directive is invalid''))))"

text \<open>The counters and the set of paths that the loop over the files carries.\<close>

record parse_totals =
  pt_paths :: "string set"
  pt_hunks :: nat
  pt_body_lines :: nat

definition parse_move ::
  "string \<Rightarrow> string list \<Rightarrow> string set \<Rightarrow> (string option \<times> string list \<times> string set) bridge_result"
where
  "parse_move path recs paths =
     (case recs of
        [] \<Rightarrow> Inr (None, [], paths)
      | r # rs \<Rightarrow>
          (case strip_prefix MOVE_TO r of
             None \<Rightarrow> Inr (None, recs, paths)
           | Some move_path \<Rightarrow>
               bindR (validate_codex_path move_path) (\<lambda>_.
                 if move_path \<noteq> path \<and> move_path \<in> paths then
                   Inl (invalid_patch ''patch contains an overlapping path'')
                 else Inr (Some move_path, rs, insert move_path paths))))"

definition parse_section ::
  "file_patch_operation \<Rightarrow> string \<Rightarrow> string list \<Rightarrow> parse_totals \<Rightarrow>
     (codex_file_patch \<times> string list \<times> parse_totals) bridge_result" where
  "parse_section operation path recs t =
     (case operation of
        Create_File \<Rightarrow>
          bindR (parse_add_lines recs (pt_body_lines t) []) (\<lambda>(bytes, rest, count).
            if bytes = [] then Inl (invalid_patch ''Codex add-file section is empty'')
            else Inr (\<lparr>cf_path = path, cf_move_path = None, cf_operation = operation,
                       cf_add_bytes = Some bytes, cf_chunks = []\<rparr>, rest, t\<lparr>pt_body_lines := count\<rparr>))
      | Delete_File \<Rightarrow>
          Inr (\<lparr>cf_path = path, cf_move_path = None, cf_operation = operation,
                cf_add_bytes = None, cf_chunks = []\<rparr>, recs, t)
      | Update_File \<Rightarrow>
          bindR (parse_move path recs (pt_paths t)) (\<lambda>(move_path, recs', paths).
          bindR (parse_chunks recs' (pt_hunks t) (pt_body_lines t) [])
            (\<lambda>(chunks, rest, hunks, count).
          Inr (\<lparr>cf_path = path, cf_move_path = move_path, cf_operation = operation,
                cf_add_bytes = None, cf_chunks = chunks\<rparr>, rest,
               \<lparr>pt_paths = paths, pt_hunks = hunks, pt_body_lines = count\<rparr>))))"

definition parse_file ::
  "string list \<Rightarrow> parse_totals \<Rightarrow> (codex_file_patch \<times> string list \<times> parse_totals) bridge_result"
where
  "parse_file recs t =
     bindR (parse_directive (hd recs)) (\<lambda>(operation, path).
     bindR (validate_codex_path path) (\<lambda>_.
       if path \<in> pt_paths t then Inl (invalid_patch ''patch contains a duplicate path'')
       else parse_section operation path (tl recs) (t\<lparr>pt_paths := insert path (pt_paths t)\<rparr>)))"

lemma parse_chunks_length:
  "parse_chunks recs hunks count chunks = Inr (cs, rest, h, t) \<Longrightarrow> length rest \<le> length recs"
proof (induction recs hunks count chunks rule: parse_chunks.induct)
  case (2 r rs hunks count chunks)
  show ?case
  proof (cases "is_file_directive r \<or> starts_with MOVE_TO r")
    case True
    with "2.prems" show ?thesis by (auto split: if_splits)
  next
    case False
    with "2.prems" obtain hunks' chunk rest' count' where
      i: "increment_hunks hunks = Inr hunks'" and
      c: "parse_update_chunk (r # rs) count = Inr (chunk, rest', count')" and
      p: "parse_chunks rest' hunks' count' (chunks @ [chunk]) = Inr (cs, rest, h, t)"
      by (auto simp: result_simps)
    from "2.IH" [OF _ _ i c refl refl p] False have "length rest \<le> length rest'" by simp
    moreover from parse_update_chunk_length [OF c] False have "length rest' < length (r # rs)"
      by simp
    ultimately show ?thesis by simp
  qed
qed simp

lemma parse_move_length:
  "parse_move path recs paths = Inr (m, rest, ps) \<Longrightarrow> length rest \<le> length recs"
  by (auto simp: parse_move_def result_simps split: list.splits option.splits if_splits)

lemma parse_section_length:
  "parse_section operation path recs t = Inr (p, rest, t') \<Longrightarrow> length rest \<le> length recs"
  by (cases operation)
     (auto simp: parse_section_def result_simps split: if_splits
       dest!: parse_add_lines_length parse_move_length parse_chunks_length)

lemma parse_file_length:
  "parse_file recs t = Inr (p, rest, t') \<Longrightarrow> recs \<noteq> [] \<Longrightarrow> length rest < length recs"
  by (cases recs) (auto simp: parse_file_def result_simps split: if_splits dest!: parse_section_length)

section \<open>The patch\<close>

function parse_files ::
  "string list \<Rightarrow> parse_totals \<Rightarrow> codex_file_patch list \<Rightarrow>
     (codex_file_patch list \<times> parse_totals) bridge_result" where
  "parse_files [] t patches = Inr (patches, t)"
| "parse_files (r # rs) t patches =
     (if length patches = MAX_PATCH_FILES then
        Inl (patch_too_large ''patch contains too many files'')
      else
        bindR (parse_file (r # rs) t) (\<lambda>(p, rest, t').
        parse_files rest t' (patches @ [p])))"
  by pat_completeness auto
termination
  by (relation "measure (\<lambda>(rs, _). length rs)") (auto dest!: parse_file_length)

definition parse_environment_id :: "string \<Rightarrow> string list \<Rightarrow> string list bridge_result" where
  "parse_environment_id expected recs =
     (case recs of
        [] \<Rightarrow> Inr []
      | r # rs \<Rightarrow>
          (case strip_prefix ENVIRONMENT_ID r of
             None \<Rightarrow> Inr recs
           | Some environment_id \<Rightarrow>
               if environment_id = [] then
                 Inl (invalid_patch ''Codex patch environment id is empty'')
               else if environment_id \<noteq> expected then
                 Inl (invalid_patch ''Codex patch environment id does not match host'')
               else Inr rs))"

definition trim_matches :: "char \<Rightarrow> string \<Rightarrow> string" where
  "trim_matches c s = rev (dropWhile (\<lambda>d. d = c) (rev (dropWhile (\<lambda>d. d = c) s)))"

text \<open>The records between the begin and the end marker.\<close>

definition patch_body :: "string \<Rightarrow> string list bridge_result" where
  "patch_body input =
     (if MAX_PATCH_BYTES < length input then
        Inl (patch_too_large ''patch exceeds the compiled byte limit'')
      else if NUL \<in> set input then Inl (invalid_patch ''patch contains NUL'')
      else
        let records = take (MAX_CODEX_RECORDS + 1) (split_on LF (trim_matches LF input)) in
        if MAX_CODEX_RECORDS < length records then
          Inl (patch_too_large ''Codex patch contains too many records'')
        else if records = [] \<or> hd records \<noteq> BEGIN_PATCH then
          Inl (invalid_patch ''patch must use Codex apply_patch syntax'')
        else
          bindR (ok_or (invalid_patch ''Codex patch end marker is missing'')
                   (position (\<lambda>r. r = END_PATCH) records)) (\<lambda>end_index.
            if end_index + 1 \<noteq> length records then
              Inl (invalid_patch ''Codex patch envelope has trailing data'')
            else Inr (drop 1 (take end_index records))))"

definition empty_totals :: parse_totals where
  "empty_totals = \<lparr>pt_paths = {}, pt_hunks = 0, pt_body_lines = 0\<rparr>"

definition parse_codex_patch :: "string \<Rightarrow> string \<Rightarrow> codex_file_patch list bridge_result" where
  "parse_codex_patch input expected_environment_id =
     bindR (patch_body input) (\<lambda>body.
     bindR (parse_environment_id expected_environment_id body) (\<lambda>recs.
     bindR (parse_files recs empty_totals []) (\<lambda>(patches, _).
       if patches = [] then Inl (invalid_patch ''Codex patch contains no file operations'')
       else Inr patches)))"

end
