(* ===== verification/Codex_Apply.thy ===== *)
theory Codex_Apply
  imports Codex_Patch
begin

text \<open>
  Applying a parsed patch to a file (\<open>apply_codex_file\<close> and below in
  \<open>src/remote/codex_patch.rs\<close>).  An index or a slice out of range is a value of its own here
  (\<open>Panic\<close>), beside the errors the code returns, so that the absence of panics is a theorem
  and not an assumption.
\<close>

datatype apply_failure = Err bridge_error | Panic

type_synonym 'a apply_result = "apply_failure + 'a"

section \<open>Looking for lines\<close>

datatype match_mode = Exact | TrimEnd | Trim | UnicodeNormalized

definition normalize_char :: "nat \<Rightarrow> nat" where
  "normalize_char c =
     (if c \<in> {0x2010, 0x2011, 0x2012, 0x2013, 0x2014, 0x2015, 0x2212} then 0x2D
      else if c \<in> {0x2018, 0x2019, 0x201A, 0x201B} then 0x27
      else if c \<in> {0x201C, 0x201D, 0x201E, 0x201F} then 0x22
      else if c \<in> {0xA0, 0x2002, 0x2003, 0x2004, 0x2005, 0x2006, 0x2007, 0x2008, 0x2009, 0x200A,
                    0x202F, 0x205F, 0x3000} then 0x20
      else c)"

definition normalize_unicode :: "string \<Rightarrow> string" where
  "normalize_unicode s = utf8_encode (map normalize_char (str_chars (trim s)))"

fun line_matches :: "match_mode \<Rightarrow> string \<Rightarrow> string \<Rightarrow> bool" where
  "line_matches Exact actual expected \<longleftrightarrow> actual = expected"
| "line_matches TrimEnd actual expected \<longleftrightarrow> trim_end actual = trim_end expected"
| "line_matches Trim actual expected \<longleftrightarrow> trim actual = trim expected"
| "line_matches UnicodeNormalized actual expected \<longleftrightarrow>
     normalize_unicode actual = normalize_unicode expected"

text \<open>\<open>&xs[a..b]\<close>.\<close>

definition slice :: "'a list \<Rightarrow> nat \<Rightarrow> nat \<Rightarrow> 'a list apply_result" where
  "slice xs a b = (if a \<le> b \<and> b \<le> length xs then Inr (take (b - a) (drop a xs)) else Inl Panic)"

definition sequence_matches ::
  "string list \<Rightarrow> string list \<Rightarrow> nat \<Rightarrow> match_mode \<Rightarrow> bool apply_result" where
  "sequence_matches haystack needle start mode =
     bindR (slice haystack start (start + length needle)) (\<lambda>found.
     Inr (list_all (\<lambda>(actual, expected). line_matches mode actual expected) (zip found needle)))"

fun seek_mode ::
  "string list \<Rightarrow> string list \<Rightarrow> match_mode \<Rightarrow> nat list \<Rightarrow> nat option apply_result" where
  "seek_mode haystack needle mode [] = Inr None"
| "seek_mode haystack needle mode (candidate # rest) =
     bindR (sequence_matches haystack needle candidate mode) (\<lambda>found.
       if found then Inr (Some candidate) else seek_mode haystack needle mode rest)"

fun seek_modes ::
  "string list \<Rightarrow> string list \<Rightarrow> nat list \<Rightarrow> match_mode list \<Rightarrow> nat option apply_result" where
  "seek_modes haystack needle candidates [] = Inr None"
| "seek_modes haystack needle candidates (mode # modes) =
     bindR (seek_mode haystack needle mode candidates) (\<lambda>found.
       case found of
         Some candidate \<Rightarrow> Inr (Some candidate)
       | None \<Rightarrow> seek_modes haystack needle candidates modes)"

text \<open>The inclusive range of candidates is \<open>[first..<Suc last]\<close>.\<close>

definition seek_candidates ::
  "string list \<Rightarrow> string list \<Rightarrow> nat list \<Rightarrow> nat option apply_result" where
  "seek_candidates haystack needle candidates =
     seek_modes haystack needle candidates [Exact, TrimEnd, Trim, UnicodeNormalized]"

definition seek_sequence ::
  "string list \<Rightarrow> string list \<Rightarrow> nat \<Rightarrow> bool \<Rightarrow> nat option apply_result" where
  "seek_sequence haystack needle start end_of_file =
     (if needle = [] then
        Inr (Some (if end_of_file then length haystack else min start (length haystack)))
      else
        (case checked_sub (length haystack) (length needle) of
           None \<Rightarrow> Inr None
         | Some last_index \<Rightarrow>
             if last_index < start then Inr None
             else
               bindR (if end_of_file then seek_candidates haystack needle [last_index]
                      else Inr None) (\<lambda>at_end.
                 case at_end of
                   Some found \<Rightarrow> Inr (Some found)
                 | None \<Rightarrow> seek_candidates haystack needle [start..<Suc last_index])))"

section \<open>Planning the replacements\<close>

definition or_err :: "bridge_error \<Rightarrow> 'a option \<Rightarrow> 'a apply_result" where
  "or_err e m = ok_or (Err e) m"

definition lift_err :: "'a bridge_result \<Rightarrow> 'a apply_result" where
  "lift_err m = map_err Err m"

text \<open>The loop over \<open>context_line_indices\<close>: a context line keeps the text of the file.\<close>

fun keep_context ::
  "string list \<Rightarrow> nat \<Rightarrow> (nat \<times> nat) list \<Rightarrow> string list \<Rightarrow> string list apply_result" where
  "keep_context lines start [] new_lines = Inr new_lines"
| "keep_context lines start ((old_index, new_index) # rest) new_lines =
     bindR (or_err (write_conflict ''Codex patch context was not found'')
              (if start + old_index < length lines then Some (lines ! (start + old_index)) else None))
       (\<lambda>actual.
         if new_index < length new_lines
         then keep_context lines start rest (new_lines[new_index := actual])
         else Inl Panic)"

record replacement =
  rp_start :: nat
  rp_old_len :: nat
  rp_new_lines :: "string list"

definition seek_context :: "string list \<Rightarrow> string option \<Rightarrow> nat \<Rightarrow> nat apply_result" where
  "seek_context lines context cursor =
     (case context of
        None \<Rightarrow> Inr cursor
      | Some c \<Rightarrow>
          bindR (seek_sequence lines [c] cursor False) (\<lambda>found.
          bindR (or_err (write_conflict ''Codex patch context was not found'') found) (\<lambda>f.
          Inr (f + 1))))"

definition seek_start :: "string list \<Rightarrow> codex_update_chunk \<Rightarrow> nat \<Rightarrow> nat apply_result" where
  "seek_start lines chunk cursor =
     (if ck_old_lines chunk = [] \<and> ck_context chunk = None then Inr (length lines)
      else
        bindR (seek_sequence lines (ck_old_lines chunk) cursor (ck_end_of_file chunk)) (\<lambda>found.
        or_err (write_conflict ''Codex patch expected lines were not found'') found))"

fun plan_chunks ::
  "string list \<Rightarrow> codex_update_chunk list \<Rightarrow> nat \<Rightarrow> replacement list \<Rightarrow> replacement list apply_result"
where
  "plan_chunks lines [] cursor replacements = Inr replacements"
| "plan_chunks lines (chunk # chunks) cursor replacements =
     bindR (seek_context lines (ck_context chunk) cursor) (\<lambda>cursor'.
       if ck_old_lines chunk = [] \<and> ck_new_lines chunk = []
       then plan_chunks lines chunks cursor' replacements
       else
         bindR (seek_start lines chunk cursor') (\<lambda>start.
         bindR (keep_context lines start (ck_context_line_indices chunk) (ck_new_lines chunk))
           (\<lambda>new_lines.
         bindR (or_err (patch_too_large ''patch line position overflowed'')
                  (checked_add start (length (ck_old_lines chunk)))) (\<lambda>cursor''.
         plan_chunks lines chunks cursor''
           (replacements @ [\<lparr>rp_start = start, rp_old_len = length (ck_old_lines chunk),
                              rp_new_lines = new_lines\<rparr>])))))"

section \<open>Writing the file out\<close>

fun extend_lines :: "string \<Rightarrow> string list \<Rightarrow> nat \<Rightarrow> string bridge_result" where
  "extend_lines output [] maximum = Inr output"
| "extend_lines output (line # rest) maximum =
     bindR (extend_line output line maximum) (\<lambda>output'. extend_lines output' rest maximum)"

fun render_replacements ::
  "string list \<Rightarrow> replacement list \<Rightarrow> nat \<Rightarrow> nat \<Rightarrow> string \<Rightarrow> string apply_result" where
  "render_replacements lines [] maximum copied output =
     bindR (slice lines copied (length lines)) (\<lambda>rest.
     lift_err (extend_lines output rest maximum))"
| "render_replacements lines (r # rs) maximum copied output =
     bindR (slice lines copied (rp_start r)) (\<lambda>before.
     bindR (lift_err (extend_lines output before maximum)) (\<lambda>output'.
     bindR (lift_err (extend_lines output' (rp_new_lines r) maximum)) (\<lambda>output''.
     bindR (or_err (patch_too_large ''patch line position overflowed'')
              (checked_add (rp_start r) (rp_old_len r))) (\<lambda>copied'.
     render_replacements lines rs maximum copied' output''))))"

definition base_lines :: "string \<Rightarrow> string list" where
  "base_lines base =
     (let lines = split_on LF base in if last lines = [] then butlast lines else lines)"

definition apply_update :: "string \<Rightarrow> codex_file_patch \<Rightarrow> nat \<Rightarrow> patched_file apply_result" where
  "apply_update base patch maximum =
     (if NUL \<in> set base then Inl (Err (invalid_patch ''patch base contains NUL''))
      else if \<not> valid_utf8 base then Inl (Err (invalid_patch ''patch base is not UTF-8''))
      else
        (let lines = base_lines base in
         bindR (plan_chunks lines (cf_chunks patch) 0 []) (\<lambda>replacements.
         bindR (render_replacements lines replacements maximum 0 []) (\<lambda>output.
           if output = base \<and> cf_move_path patch = None then
             Inl (Err (write_conflict ''patch update would leave the file unchanged''))
           else Inr (Write_File output)))))"

definition apply_codex_file ::
  "string option \<Rightarrow> codex_file_patch \<Rightarrow> nat \<Rightarrow> patched_file apply_result" where
  "apply_codex_file base patch maximum =
     (case cf_operation patch of
        Create_File \<Rightarrow>
          if base \<noteq> None then
            Inl (Err (write_conflict ''patch base presence does not match operation''))
          else
            bindR (or_err (invalid_patch ''Codex add-file content is missing'') (cf_add_bytes patch))
              (\<lambda>bytes.
                if maximum < length bytes then
                  Inl (Err (patch_too_large ''patched file exceeds the output limit''))
                else Inr (Write_File bytes))
      | Delete_File \<Rightarrow>
          if base = None then
            Inl (Err (write_conflict ''patch base presence does not match operation''))
          else Inr Remove_File
      | Update_File \<Rightarrow>
          bindR (or_err (write_conflict ''patch base presence does not match operation'') base)
            (\<lambda>base. apply_update base patch maximum))"

end
