(* ===== verification/Patch_Grammar.thy ===== *)
theory Patch_Grammar
  imports Codex_Patch
begin

text \<open>
  The language the parser of \<open>src/remote/codex_patch.rs\<close> accepts, written as a grammar: an
  abstract syntax of patches, its rendering as records, and the value it denotes.  The
  lemmas show loop by loop that the parser accepts exactly the renderings of well-formed
  patches and returns what they denote (\<open>_sound\<close>: what was accepted is a rendering;
  \<open>_complete\<close>: a rendering is accepted).
\<close>

section \<open>Syntax\<close>

datatype hunk_line = Keep string | Drop string | Insert string

text \<open>
  The header of a hunk is missing, \<open>@@\<close>, or \<open>@@\<close> with a context; the end-of-file marker
  may be followed by blank records.
\<close>

record hunk =
  hk_header :: "string option option"
  hk_lines :: "hunk_line list"
  hk_eof :: "nat option"

datatype file_section =
    Add_Section string "string list"
  | Delete_Section string
  | Update_Section string "string option" "hunk list"

section \<open>Rendering\<close>

fun line_record :: "hunk_line \<Rightarrow> string" where
  "line_record (Keep t) = SP # t"
| "line_record (Drop t) = CHR 0x2D # t"
| "line_record (Insert t) = CHR 0x2B # t"

fun header_records :: "string option option \<Rightarrow> string list" where
  "header_records None = []"
| "header_records (Some None) = [''@@'']"
| "header_records (Some (Some c)) = [''@@ '' @ c]"

fun eof_records :: "nat option \<Rightarrow> string list" where
  "eof_records None = []"
| "eof_records (Some n) = END_OF_FILE # replicate n []"

definition hunk_records :: "hunk \<Rightarrow> string list" where
  "hunk_records h = header_records (hk_header h) @ map line_record (hk_lines h) @ eof_records (hk_eof h)"

fun section_records :: "file_section \<Rightarrow> string list" where
  "section_records (Add_Section path ls) = (ADD_FILE @ path) # map (\<lambda>l. CHR 0x2B # l) ls"
| "section_records (Delete_Section path) = [DELETE_FILE @ path]"
| "section_records (Update_Section path move hs) =
     (UPDATE_FILE @ path) # (case move of None \<Rightarrow> [] | Some m \<Rightarrow> [MOVE_TO @ m]) @
     concat (map hunk_records hs)"

definition environment_records :: "string option \<Rightarrow> string list" where
  "environment_records eid = (case eid of None \<Rightarrow> [] | Some e \<Rightarrow> [ENVIRONMENT_ID @ e])"

definition patch_records :: "string option \<Rightarrow> file_section list \<Rightarrow> string list" where
  "patch_records eid secs =
     BEGIN_PATCH # environment_records eid @ concat (map section_records secs) @ [END_PATCH]"

definition patch_text :: "string option \<Rightarrow> file_section list \<Rightarrow> string" where
  "patch_text eid secs = join_with [LF] (patch_records eid secs)"

section \<open>Meaning\<close>

definition old_of :: "hunk_line list \<Rightarrow> string list" where
  "old_of ls = concat (map (\<lambda>l. case l of Keep t \<Rightarrow> [t] | Drop t \<Rightarrow> [t] | Insert _ \<Rightarrow> []) ls)"

definition new_of :: "hunk_line list \<Rightarrow> string list" where
  "new_of ls = concat (map (\<lambda>l. case l of Keep t \<Rightarrow> [t] | Drop _ \<Rightarrow> [] | Insert t \<Rightarrow> [t]) ls)"

fun keep_indices :: "nat \<Rightarrow> nat \<Rightarrow> hunk_line list \<Rightarrow> (nat \<times> nat) list" where
  "keep_indices i j [] = []"
| "keep_indices i j (Keep t # ls) = (i, j) # keep_indices (Suc i) (Suc j) ls"
| "keep_indices i j (Drop t # ls) = keep_indices (Suc i) j ls"
| "keep_indices i j (Insert t # ls) = keep_indices i (Suc j) ls"

definition denote_hunk :: "hunk \<Rightarrow> codex_update_chunk" where
  "denote_hunk h =
     \<lparr>ck_context = (case hk_header h of Some c \<Rightarrow> c | None \<Rightarrow> None),
      ck_old_lines = old_of (hk_lines h), ck_new_lines = new_of (hk_lines h),
      ck_context_line_indices = keep_indices 0 0 (hk_lines h),
      ck_end_of_file = (hk_eof h \<noteq> None)\<rparr>"

definition file_text :: "string list \<Rightarrow> string" where
  "file_text ls = concat (map (\<lambda>l. l @ [LF]) ls)"

fun denote_section :: "file_section \<Rightarrow> codex_file_patch" where
  "denote_section (Add_Section path ls) =
     \<lparr>cf_path = path, cf_move_path = None, cf_operation = Create_File,
      cf_add_bytes = Some (file_text ls), cf_chunks = []\<rparr>"
| "denote_section (Delete_Section path) =
     \<lparr>cf_path = path, cf_move_path = None, cf_operation = Delete_File,
      cf_add_bytes = None, cf_chunks = []\<rparr>"
| "denote_section (Update_Section path move hs) =
     \<lparr>cf_path = path, cf_move_path = move, cf_operation = Update_File,
      cf_add_bytes = None, cf_chunks = map denote_hunk hs\<rparr>"

section \<open>Well-formed patches\<close>

fun line_text :: "hunk_line \<Rightarrow> string" where
  "line_text (Keep t) = t"
| "line_text (Drop t) = t"
| "line_text (Insert t) = t"

text \<open>The text after the mark starts at a character boundary, as in every \<open>&str\<close>.\<close>

definition line_ok :: "hunk_line \<Rightarrow> bool" where
  "line_ok l \<longleftrightarrow> (case line_text l of [] \<Rightarrow> True | c # _ \<Rightarrow> \<not> continuation c)"

definition hunk_ok :: "hunk \<Rightarrow> bool" where
  "hunk_ok h \<longleftrightarrow> list_all line_ok (hk_lines h) \<and> hk_header h \<noteq> Some (Some []) \<and>
     \<not> (hk_header h = None \<and> hk_lines h = [] \<and> hk_eof h = None)"

text \<open>Only the first hunk may go without a header, only the last may end the file.\<close>

fun hunks_ok :: "bool \<Rightarrow> hunk list \<Rightarrow> bool" where
  "hunks_ok first [] = True"
| "hunks_ok first (h # hs) \<longleftrightarrow>
     hunk_ok h \<and> (first \<or> hk_header h \<noteq> None) \<and> (hk_eof h \<noteq> None \<longrightarrow> hs = []) \<and> hunks_ok False hs"

definition path_ok :: "string \<Rightarrow> bool" where
  "path_ok path \<longleftrightarrow> validate_codex_path path = Inr ()"

fun section_ok :: "file_section \<Rightarrow> bool" where
  "section_ok (Add_Section path ls) \<longleftrightarrow>
     path_ok path \<and> ls \<noteq> [] \<and> length (file_text ls) \<le> MAX_PATCH_BYTES"
| "section_ok (Delete_Section path) \<longleftrightarrow> path_ok path"
| "section_ok (Update_Section path move hs) \<longleftrightarrow>
     path_ok path \<and> (case move of None \<Rightarrow> True | Some m \<Rightarrow> path_ok m) \<and> hunks_ok True hs"

fun section_paths :: "file_section \<Rightarrow> string list" where
  "section_paths (Add_Section path ls) = [path]"
| "section_paths (Delete_Section path) = [path]"
| "section_paths (Update_Section path move hs) =
     path # (case move of None \<Rightarrow> [] | Some m \<Rightarrow> if m = path then [] else [m])"

fun section_hunks :: "file_section \<Rightarrow> nat" where
  "section_hunks (Update_Section path move hs) = length hs"
| "section_hunks _ = 0"

fun section_body_lines :: "file_section \<Rightarrow> nat" where
  "section_body_lines (Add_Section path ls) = length ls"
| "section_body_lines (Delete_Section path) = 0"
| "section_body_lines (Update_Section path move hs) = sum_list (map (\<lambda>h. length (hk_lines h)) hs)"

definition patch_ok :: "string \<Rightarrow> string option \<Rightarrow> file_section list \<Rightarrow> bool" where
  "patch_ok expected eid secs \<longleftrightarrow>
     (eid = None \<or> eid = Some expected \<and> expected \<noteq> []) \<and>
     secs \<noteq> [] \<and> length secs \<le> MAX_PATCH_FILES \<and> list_all section_ok secs \<and>
     distinct (concat (map section_paths secs)) \<and>
     sum_list (map section_hunks secs) \<le> MAX_PATCH_HUNKS \<and>
     sum_list (map section_body_lines secs) \<le> MAX_PATCH_BODY_LINES \<and>
     length (patch_records eid secs) \<le> MAX_CODEX_RECORDS \<and>
     (\<forall>r \<in> set (patch_records eid secs). LF \<notin> set r)"

section \<open>Heads of records\<close>

lemmas markers = BEGIN_PATCH_def END_PATCH_def ENVIRONMENT_ID_def ADD_FILE_def UPDATE_FILE_def
  DELETE_FILE_def MOVE_TO_def END_OF_FILE_def

lemma marker_heads [simp]:
  "is_file_directive (ADD_FILE @ p)" "is_file_directive (UPDATE_FILE @ p)"
  "is_file_directive (DELETE_FILE @ p)"
  "\<not> is_file_directive (line_record l)" "\<not> is_file_directive (CHR 0x2B # t)"
  "\<not> is_file_directive END_OF_FILE" "\<not> is_file_directive ''@@''" "\<not> is_file_directive (''@@ '' @ p)"
  "\<not> is_file_directive (MOVE_TO @ p)" "\<not> is_file_directive []"
  "\<not> is_file_directive (CHR 0x40 # t)"
  by (cases l; simp add: is_file_directive_def markers starts_with_def)+

lemma chunk_boundary_heads [simp]:
  "\<not> chunk_boundary (line_record l)" "\<not> chunk_boundary END_OF_FILE"
  "chunk_boundary ''@@''" "chunk_boundary (''@@ '' @ p)"
  by (cases l; simp add: chunk_boundary_def is_file_directive_def markers starts_with_def)+

lemma directive_boundary: "is_file_directive r \<Longrightarrow> chunk_boundary r \<and> \<not> starts_with MOVE_TO r \<and> r \<noteq> [] \<and> r \<noteq> END_OF_FILE"
  by (auto simp: chunk_boundary_def is_file_directive_def markers starts_with_iff)

lemma line_record_plain [simp]:
  "line_record l \<noteq> END_OF_FILE" "reject_nested_or_mixed_record (line_record l) = Inr ()"
  "reject_nested_or_mixed_record (CHR 0x2B # t) = Inr ()" "line_record l \<noteq> []"
  by (cases l; simp add: reject_nested_or_mixed_record_def markers starts_with_def)+

lemma increment_body_lines_Inr [simp]:
  "increment_body_lines n = Inr m \<longleftrightarrow> m = Suc n \<and> Suc n \<le> MAX_PATCH_BODY_LINES"
  by (auto simp: increment_body_lines_def checked_add_def u64_max_def MAX_PATCH_BODY_LINES_def ok_or_def)

lemma increment_ok [simp]:
  "Suc n \<le> MAX_PATCH_BODY_LINES \<Longrightarrow> increment_body_lines n = Inr (Suc n)"
  "Suc n \<le> MAX_PATCH_HUNKS \<Longrightarrow> increment_hunks n = Inr (Suc n)"
  by (simp_all add: increment_body_lines_def increment_hunks_def checked_add_def u64_max_def
      MAX_PATCH_BODY_LINES_def MAX_PATCH_HUNKS_def ok_or_def)

lemma increment_hunks_Inr [simp]:
  "increment_hunks n = Inr m \<longleftrightarrow> m = Suc n \<and> Suc n \<le> MAX_PATCH_HUNKS"
  by (auto simp: increment_hunks_def checked_add_def u64_max_def MAX_PATCH_HUNKS_def ok_or_def)

lemma extend_line_Inr:
  assumes "maximum \<le> u64_max"
  shows "extend_line bytes line maximum = Inr b \<longleftrightarrow>
     b = bytes @ line @ [LF] \<and> length bytes + length line + 1 \<le> maximum"
  using assms
  by (auto simp: extend_line_def checked_add_def ok_or_def bindR_def split: if_splits)

lemma split_first_byte_Some:
  "split_first_byte s = Some (c, t) \<longleftrightarrow> s = c # t \<and> (case t of [] \<Rightarrow> True | d # _ \<Rightarrow> \<not> continuation d)"
  by (auto simp: split_first_byte_def split: list.splits)

end
