(* ===== verification/Patch_Parse.thy ===== *)
theory Patch_Parse
  imports Patch_Grammar
begin

text \<open>
  The parser of \<open>src/remote/codex_patch.rs\<close> against the grammar of \<open>Patch_Grammar\<close>, loop by
  loop, and the resulting properties of \<open>parse_codex_patch\<close>.
\<close>

section \<open>Added files\<close>

lemma file_text_simps [simp]:
  "file_text [] = []" "file_text (l # ls) = l @ LF # file_text ls"
  "file_text (ls @ ms) = file_text ls @ file_text ms"
  by (simp_all add: file_text_def)

lemma patch_bytes_fit: "MAX_PATCH_BYTES \<le> u64_max"
  by (simp add: MAX_PATCH_BYTES_def u64_max_def)

lemma parse_add_lines_sound:
  assumes "parse_add_lines rs n b = Inr (b', rest, n')"
  shows "\<exists>ls. rs = map (\<lambda>l. CHR 0x2B # l) ls @ rest \<and> b' = b @ file_text ls \<and>
     n' = n + length ls \<and> (n \<le> MAX_PATCH_BODY_LINES \<longrightarrow> n' \<le> MAX_PATCH_BODY_LINES) \<and>
     (length b \<le> MAX_PATCH_BYTES \<longrightarrow> length b' \<le> MAX_PATCH_BYTES) \<and>
     (rest = [] \<or> is_file_directive (hd rest))"
  using assms
proof (induction rs n b rule: parse_add_lines.induct)
  case (2 r rs n b)
  show ?case
  proof (cases "is_file_directive r")
    case True
    with "2.prems" show ?thesis by (intro exI [of _ "[]"]) auto
  next
    case False
    with "2.prems" obtain tx where
      t: "r = CHR 0x2B # tx" "Suc n \<le> MAX_PATCH_BODY_LINES"
        "length b + length tx + 1 \<le> MAX_PATCH_BYTES"
        "parse_add_lines rs (Suc n) (b @ tx @ [LF]) = Inr (b', rest, n')"
      by (auto simp: result_simps strip_prefix_eq_Some extend_line_Inr [OF patch_bytes_fit])
    have x: "extend_line b tx MAX_PATCH_BYTES = Inr (b @ tx @ [LF])"
      using t by (simp add: extend_line_Inr [OF patch_bytes_fit])
    have "\<exists>ls. rs = map (\<lambda>l. CHR 0x2B # l) ls @ rest \<and> b' = (b @ tx @ [LF]) @ file_text ls \<and>
       n' = Suc n + length ls \<and> (Suc n \<le> MAX_PATCH_BODY_LINES \<longrightarrow> n' \<le> MAX_PATCH_BODY_LINES) \<and>
       (length (b @ tx @ [LF]) \<le> MAX_PATCH_BYTES \<longrightarrow> length b' \<le> MAX_PATCH_BYTES) \<and>
       (rest = [] \<or> is_file_directive (hd rest))"
      using t False x by (intro "2.IH") (auto simp: strip_prefix_def)
    then obtain ls where ls: "rs = map (\<lambda>l. CHR 0x2B # l) ls @ rest"
      "b' = (b @ tx @ [LF]) @ file_text ls" "n' = Suc n + length ls"
      "Suc n \<le> MAX_PATCH_BODY_LINES \<longrightarrow> n' \<le> MAX_PATCH_BODY_LINES"
      "length (b @ tx @ [LF]) \<le> MAX_PATCH_BYTES \<longrightarrow> length b' \<le> MAX_PATCH_BYTES"
      "rest = [] \<or> is_file_directive (hd rest)" by blast
    with t show ?thesis by (intro exI [of _ "tx # ls"]) auto
  qed
qed simp

lemma parse_add_lines_complete:
  assumes "rest = [] \<or> is_file_directive (hd rest)"
    and "n + length ls \<le> MAX_PATCH_BODY_LINES" "length b + length (file_text ls) \<le> MAX_PATCH_BYTES"
  shows "parse_add_lines (map (\<lambda>l. CHR 0x2B # l) ls @ rest) n b =
    Inr (b @ file_text ls, rest, n + length ls)"
  using assms
proof (induction ls arbitrary: n b)
  case Nil
  then show ?case by (cases rest) auto
next
  case (Cons l ls)
  have "extend_line b l MAX_PATCH_BYTES = Inr (b @ l @ [LF])" "increment_body_lines n = Inr (Suc n)"
    using Cons.prems by (auto simp: extend_line_Inr [OF patch_bytes_fit])
  moreover have "strip_prefix ''+'' (CHR 0x2B # l) = Some l" by (simp add: strip_prefix_eq_Some)
  ultimately show ?case using Cons by simp
qed

section \<open>The lines of a hunk\<close>

lemma of_simps [simp]:
  "old_of [] = []" "new_of [] = []"
  "old_of (Keep t # ls) = t # old_of ls" "new_of (Keep t # ls) = t # new_of ls"
  "old_of (Drop t # ls) = t # old_of ls" "new_of (Drop t # ls) = new_of ls"
  "old_of (Insert t # ls) = old_of ls" "new_of (Insert t # ls) = t # new_of ls"
  by (simp_all add: old_of_def new_of_def)

text \<open>The accumulator after some more lines and the end-of-file marker.\<close>

definition add_lines :: "chunk_lines \<Rightarrow> hunk_line list \<Rightarrow> bool \<Rightarrow> chunk_lines" where
  "add_lines l ls eof =
     \<lparr>cl_old = cl_old l @ old_of ls, cl_new = cl_new l @ new_of ls,
      cl_indices = cl_indices l @ keep_indices (length (cl_old l)) (length (cl_new l)) ls,
      cl_eof = (cl_eof l \<or> eof)\<rparr>"

lemma add_lines_Nil [simp]: "add_lines l [] False = l" "add_lines l [] True = l\<lparr>cl_eof := True\<rparr>"
  by (simp_all add: add_lines_def)

lemma add_chunk_line_sound:
  assumes "add_chunk_line m tx l = Inr l'"
  shows "\<exists>h. line_record h = m # tx \<and> (\<forall>ls eof. add_lines l' ls eof = add_lines l (h # ls) eof)"
proof -
  consider "m = SP" | "m = CHR 0x2D" | "m = CHR 0x2B"
    using assms by (auto simp: add_chunk_line_def split: if_splits)
  then show ?thesis
  proof cases
    case 1
    with assms show ?thesis
      by (intro exI [of _ "Keep tx"]) (auto simp: add_chunk_line_def add_lines_def)
  next
    case 2
    with assms show ?thesis
      by (intro exI [of _ "Drop tx"]) (auto simp: add_chunk_line_def add_lines_def)
  next
    case 3
    with assms show ?thesis
      by (intro exI [of _ "Insert tx"]) (auto simp: add_chunk_line_def add_lines_def)
  qed
qed

lemma split_line_record:
  "line_record h = m # tx \<Longrightarrow> split_first_byte r = Some (m, tx) \<longleftrightarrow> r = line_record h \<and> line_ok h"
  by (cases h) (auto simp: split_first_byte_Some line_ok_def)

lemma dropWhile_blank:
  "\<exists>k. rs = replicate k [] @ dropWhile (\<lambda>s. s = []) rs"
  by (induction rs) (auto intro: exI [of _ 0] exI [of _ "Suc k" for k])

lemma dropWhile_blank_hd: "dropWhile (\<lambda>s. s = []) rs = [] \<or> hd (dropWhile (\<lambda>s. s = []) rs) \<noteq> []"
  by (induction rs) auto

lemma dropWhile_replicate_blank:
  "rest = [] \<or> hd rest \<noteq> [] \<Longrightarrow> dropWhile (\<lambda>s. s = []) (replicate k [] @ rest) = rest"
  by (induction k) (cases rest; simp)+

definition after_lines :: "nat option \<Rightarrow> string list \<Rightarrow> bool" where
  "after_lines eof rest \<longleftrightarrow> rest = [] \<or> (if eof = None then chunk_boundary (hd rest) else hd rest \<noteq> [])"

lemma parse_chunk_lines_sound:
  assumes "parse_chunk_lines rs n l = Inr (l', rest, n')"
  shows "\<exists>ls eof. rs = map line_record ls @ eof_records eof @ rest \<and> list_all line_ok ls \<and>
     l' = add_lines l ls (eof \<noteq> None) \<and> n' = n + length ls \<and>
     (n \<le> MAX_PATCH_BODY_LINES \<longrightarrow> n' \<le> MAX_PATCH_BODY_LINES) \<and> after_lines eof rest"
  using assms
proof (induction rs n l rule: parse_chunk_lines.induct)
  case (1 n l)
  then show ?case by (intro exI [of _ "[]"] exI [of _ None]) (auto simp: after_lines_def)
next
  case (2 r rs n l)
  consider "r = END_OF_FILE" | "r \<noteq> END_OF_FILE" "chunk_boundary r"
    | "r \<noteq> END_OF_FILE" "\<not> chunk_boundary r" by blast
  then show ?case
  proof cases
    case 1
    obtain k where "rs = replicate k [] @ dropWhile (\<lambda>s. s = []) rs" using dropWhile_blank by blast
    with 1 "2.prems" dropWhile_blank_hd [of rs] show ?thesis
      by (intro exI [of _ "[]"] exI [of _ "Some k"]) (auto simp: after_lines_def)
  next
    case 2
    with "2.prems" show ?thesis
      by (intro exI [of _ "[]"] exI [of _ None]) (auto simp: after_lines_def)
  next
    case 3
    from "2.prems" 3 obtain m tx l1 where
      r: "reject_nested_or_mixed_record r = Inr ()" "split_first_byte r = Some (m, tx)"
      and a: "add_chunk_line m tx l = Inr l1"
      and i: "Suc n \<le> MAX_PATCH_BODY_LINES"
      and p: "parse_chunk_lines rs (Suc n) l1 = Inr (l', rest, n')"
      by (auto simp: result_simps)
    have "ok_or (invalid_patch ''Codex update-file line is invalid'') (split_first_byte r) = Inr (m, tx)"
      "increment_body_lines n = Inr (Suc n)" using r i by simp_all
    from "2.IH" [OF 3 r(1) this(1) refl a this(2) p] obtain ls eof where
      ls: "rs = map line_record ls @ eof_records eof @ rest" "list_all line_ok ls"
      "l' = add_lines l1 ls (eof \<noteq> None)" "n' = Suc n + length ls"
      "Suc n \<le> MAX_PATCH_BODY_LINES \<longrightarrow> n' \<le> MAX_PATCH_BODY_LINES" "after_lines eof rest" by blast
    from add_chunk_line_sound [OF a] obtain h where h: "line_record h = m # tx"
      "\<And>ls eof. add_lines l1 ls eof = add_lines l (h # ls) eof" by blast
    from r(2) have "r = line_record h" "line_ok h" by (simp_all add: split_line_record [OF h(1)])
    with ls h(2) i show ?thesis by (intro exI [of _ "h # ls"] exI [of _ eof]) auto
  qed
qed

lemma parse_chunk_lines_complete:
  assumes "list_all line_ok ls" "n + length ls \<le> MAX_PATCH_BODY_LINES" "after_lines eof rest"
  shows "parse_chunk_lines (map line_record ls @ eof_records eof @ rest) n l =
    Inr (add_lines l ls (eof \<noteq> None), rest, n + length ls)"
  using assms
proof (induction ls arbitrary: n l)
  case Nil
  show ?case
  proof (cases eof)
    case None
    with Nil show ?thesis
      by (cases rest) (auto simp: after_lines_def)
  next
    case (Some k)
    have "dropWhile (\<lambda>s. s = []) (replicate k [] @ rest) = rest"
      using Nil.prems(3) Some by (simp add: dropWhile_replicate_blank after_lines_def)
    with Some show ?thesis by simp
  qed
next
  case (Cons h ls)
  obtain m tx where m: "line_record h = m # tx" "tx = line_text h" by (cases h) auto
  obtain l1 where a: "add_chunk_line m tx l = Inr l1"
    using m by (cases h) (auto simp: add_chunk_line_def)
  then have eq: "add_lines l1 ls e = add_lines l (h # ls) e" for e
    using m(1) by (cases h) (auto simp: add_chunk_line_def add_lines_def)
  have "split_first_byte (line_record h) = Some (m, tx)"
    using m Cons.prems(1) by (simp add: split_line_record)
  moreover have "increment_body_lines n = Inr (Suc n)" using Cons.prems by simp
  ultimately show ?case using Cons a eq by simp
qed

section \<open>One hunk\<close>

definition after_hunk :: "hunk \<Rightarrow> string list \<Rightarrow> bool" where
  "after_hunk h rest \<longleftrightarrow>
     rest = [] \<or> (if hk_eof h = None then chunk_boundary (hd rest) else is_file_directive (hd rest))"

lemma after_hunk_lines: "after_hunk h rest \<Longrightarrow> after_lines (hk_eof h) rest"
  by (auto simp: after_hunk_def after_lines_def dest: directive_boundary)

lemma parse_chunk_context_sound:
  assumes "parse_chunk_context recs = Inr (c, rest)"
  shows "\<exists>hdr. recs = header_records hdr @ rest \<and> hdr \<noteq> Some (Some []) \<and>
     c = (case hdr of Some x \<Rightarrow> x | None \<Rightarrow> None) \<and>
     (hdr = None \<longrightarrow> recs = [] \<or> hd recs \<noteq> ''@@'' \<and> \<not> starts_with ''@@ '' (hd recs))"
proof (cases recs)
  case Nil
  with assms show ?thesis by (intro exI [of _ None]) (auto simp: parse_chunk_context_def)
next
  case (Cons r rs)
  consider "r = ''@@''" | x where "r = ''@@ '' @ x" | "r \<noteq> ''@@''" "strip_prefix ''@@ '' r = None"
    using strip_prefix_eq_Some [of "''@@ ''" r] by (cases "strip_prefix ''@@ '' r") auto
  then show ?thesis
  proof cases
    case 1
    with assms Cons show ?thesis
      by (intro exI [of _ "Some None"]) (auto simp: parse_chunk_context_def)
  next
    case (2 x)
    then have "strip_prefix ''@@ '' r = Some x" by (simp only: strip_prefix_append)
    with 2 assms Cons show ?thesis
      by (intro exI [of _ "Some (Some x)"]) (auto simp: parse_chunk_context_def split: if_splits)
  next
    case 3
    with assms Cons show ?thesis
      by (intro exI [of _ None]) (auto simp: parse_chunk_context_def strip_prefix_eq_None)
  qed
qed

lemma line_head:
  "line_record l \<noteq> ''@@''" "strip_prefix ''@@ '' (line_record l) = None"
  "END_OF_FILE \<noteq> ''@@''" "strip_prefix ''@@ '' END_OF_FILE = None"
  by (cases l; simp add: strip_prefix_def END_OF_FILE_def)+

lemma no_header_head:
  assumes "ls \<noteq> [] \<or> eof \<noteq> None"
  shows "hd (map line_record ls @ eof_records eof @ rest) \<noteq> ''@@'' \<and>
     strip_prefix ''@@ '' (hd (map line_record ls @ eof_records eof @ rest)) = None \<and>
     \<not> chunk_boundary (hd (map line_record ls @ eof_records eof @ rest))"
proof (cases ls)
  case Nil
  with assms obtain k where "eof = Some k" by auto
  with Nil show ?thesis by (simp add: line_head)
next
  case (Cons l ls')
  then show ?thesis by (simp add: line_head)
qed

lemma parse_update_chunk_sound:
  assumes "parse_update_chunk recs n = Inr (c, rest, n')"
    and "recs \<noteq> []" "\<not> is_file_directive (hd recs)" "\<not> starts_with MOVE_TO (hd recs)"
  shows "\<exists>h. recs = hunk_records h @ rest \<and> hunk_ok h \<and> c = denote_hunk h \<and>
     n' = n + length (hk_lines h) \<and> (n \<le> MAX_PATCH_BODY_LINES \<longrightarrow> n' \<le> MAX_PATCH_BODY_LINES) \<and>
     after_hunk h rest \<and> (chunk_boundary (hd recs) \<longrightarrow> hk_header h \<noteq> None)"
proof -
  let ?z = "\<lparr>cl_old = [], cl_new = [], cl_indices = [], cl_eof = False\<rparr>"
  from assms(1) obtain ctx recs1 l where
    ctx: "parse_chunk_context recs = Inr (ctx, recs1)" and
    lines: "parse_chunk_lines recs1 n ?z = Inr (l, rest, n')" and
    eof: "check_end_of_file (cl_eof l) rest = Inr ()" and
    c: "c = \<lparr>ck_context = ctx, ck_old_lines = cl_old l, ck_new_lines = cl_new l,
           ck_context_line_indices = cl_indices l, ck_end_of_file = cl_eof l\<rparr>"
    by (auto simp: parse_update_chunk_def result_simps)
  from parse_chunk_context_sound [OF ctx] obtain hdr where
    hdr: "recs = header_records hdr @ recs1" "hdr \<noteq> Some (Some [])"
      "ctx = (case hdr of Some x \<Rightarrow> x | None \<Rightarrow> None)"
      "hdr = None \<longrightarrow> recs = [] \<or> hd recs \<noteq> ''@@'' \<and> \<not> starts_with ''@@ '' (hd recs)" by blast
  from parse_chunk_lines_sound [OF lines] obtain ls e where
    ls: "recs1 = map line_record ls @ eof_records e @ rest" "list_all line_ok ls"
      "l = add_lines ?z ls (e \<noteq> None)" "n' = n + length ls"
      "n \<le> MAX_PATCH_BODY_LINES \<longrightarrow> n' \<le> MAX_PATCH_BODY_LINES" "after_lines e rest" by blast
  define h where "h = \<lparr>hk_header = hdr, hk_lines = ls, hk_eof = e\<rparr>"
  have bnd: "chunk_boundary (hd recs) \<longrightarrow> hdr \<noteq> None"
    using hdr(4) assms(2-4) by (auto simp: chunk_boundary_def)
  have "\<not> (hdr = None \<and> ls = [] \<and> e = None)"
    using bnd assms(2) hdr(1) ls(1,6) by (cases hdr; cases e) (auto simp: after_lines_def)
  with hdr(2) ls(2) have "hunk_ok h" by (auto simp: hunk_ok_def h_def)
  moreover have "after_hunk h rest"
    using ls(3,6) eof
    by (cases rest) (auto simp: after_hunk_def after_lines_def check_end_of_file_def h_def add_lines_def split: if_splits)
  moreover have "c = denote_hunk h"
    using c hdr(3) ls(3) by (simp add: denote_hunk_def h_def add_lines_def)
  ultimately show ?thesis
    using hdr(1) ls(1,4,5) bnd by (intro exI [of _ h]) (simp add: h_def hunk_records_def)
qed

lemma parse_chunk_context_complete:
  assumes "hdr \<noteq> Some (Some [])"
    and "hdr = None \<longrightarrow> recs \<noteq> [] \<and> hd recs \<noteq> ''@@'' \<and> strip_prefix ''@@ '' (hd recs) = None"
  shows "parse_chunk_context (header_records hdr @ recs) =
    Inr (case hdr of Some x \<Rightarrow> x | None \<Rightarrow> None, recs)"
proof (cases hdr)
  case None
  with assms show ?thesis by (cases recs) (auto simp: parse_chunk_context_def)
next
  case (Some x)
  with assms(1) show ?thesis
    by (cases x) (auto simp: parse_chunk_context_def strip_prefix_def)
qed

lemma parse_update_chunk_complete:
  assumes "hunk_ok h" "n + length (hk_lines h) \<le> MAX_PATCH_BODY_LINES" "after_hunk h rest"
  shows "parse_update_chunk (hunk_records h @ rest) n =
    Inr (denote_hunk h, rest, n + length (hk_lines h))"
proof -
  let ?z = "\<lparr>cl_old = [], cl_new = [], cl_indices = [], cl_eof = False\<rparr>"
  let ?body = "map line_record (hk_lines h) @ eof_records (hk_eof h) @ rest"
  have "hk_header h = None \<longrightarrow> ?body \<noteq> [] \<and> hd ?body \<noteq> ''@@'' \<and> strip_prefix ''@@ '' (hd ?body) = None"
    using assms(1) no_header_head [of "hk_lines h" "hk_eof h" rest]
    by (cases "hk_eof h") (auto simp: hunk_ok_def)
  then have ctx: "parse_chunk_context (header_records (hk_header h) @ ?body) =
      Inr (case hk_header h of Some x \<Rightarrow> x | None \<Rightarrow> None, ?body)"
    using assms(1) by (intro parse_chunk_context_complete) (auto simp: hunk_ok_def)
  have lines: "parse_chunk_lines ?body n ?z =
      Inr (add_lines ?z (hk_lines h) (hk_eof h \<noteq> None), rest, n + length (hk_lines h))"
    using assms after_hunk_lines by (intro parse_chunk_lines_complete) (auto simp: hunk_ok_def)
  have "check_end_of_file (hk_eof h \<noteq> None) rest = Inr ()"
    using assms(3) directive_boundary
    by (cases rest) (auto simp: check_end_of_file_def after_hunk_def split: if_splits)
  with ctx lines show ?thesis
    by (simp add: parse_update_chunk_def hunk_records_def denote_hunk_def add_lines_def)
qed

section \<open>The hunks of a file\<close>

definition lines_count :: "hunk list \<Rightarrow> nat" where
  "lines_count hs = sum_list (map (\<lambda>h. length (hk_lines h)) hs)"

lemma lines_count_simps [simp]:
  "lines_count [] = 0" "lines_count (h # hs) = length (hk_lines h) + lines_count hs"
  by (simp_all add: lines_count_def)

definition section_end :: "string list \<Rightarrow> bool" where
  "section_end rest \<longleftrightarrow> rest = [] \<or> is_file_directive (hd rest)"

lemma hunks_ok_weaken: "hunks_ok False hs \<Longrightarrow> hunks_ok b hs"
  by (cases hs) auto

lemma parse_chunks_sound:
  assumes "parse_chunks recs k n cs = Inr (cs', rest, k', n')"
  shows "\<exists>hs. recs = concat (map hunk_records hs) @ rest \<and> cs' = cs @ map denote_hunk hs \<and>
     k' = k + length hs \<and> n' = n + lines_count hs \<and> section_end rest \<and>
     (k \<le> MAX_PATCH_HUNKS \<longrightarrow> k' \<le> MAX_PATCH_HUNKS) \<and>
     (n \<le> MAX_PATCH_BODY_LINES \<longrightarrow> n' \<le> MAX_PATCH_BODY_LINES) \<and>
     hunks_ok True hs \<and> (recs \<noteq> [] \<and> chunk_boundary (hd recs) \<longrightarrow> hunks_ok False hs)"
  using assms
proof (induction recs k n cs rule: parse_chunks.induct)
  case (1 k n cs)
  then show ?case by (intro exI [of _ "[]"]) (simp add: section_end_def)
next
  case (2 r rs k n cs)
  show ?case
  proof (cases "is_file_directive r")
    case True
    with "2.prems" show ?thesis by (intro exI [of _ "[]"]) (auto simp: section_end_def)
  next
    case False
    with "2.prems" obtain c rest1 n1 where move: "\<not> starts_with MOVE_TO r" and
      k: "Suc k \<le> MAX_PATCH_HUNKS" and
      c: "parse_update_chunk (r # rs) n = Inr (c, rest1, n1)" and
      p: "parse_chunks rest1 (Suc k) n1 (cs @ [c]) = Inr (cs', rest, k', n')"
      by (auto simp: result_simps split: if_splits)
    have i: "increment_hunks k = Inr (Suc k)" using k by simp
    from parse_update_chunk_sound [OF c] False move obtain h where
      h: "r # rs = hunk_records h @ rest1" "hunk_ok h" "c = denote_hunk h"
        "n1 = n + length (hk_lines h)" "n \<le> MAX_PATCH_BODY_LINES \<longrightarrow> n1 \<le> MAX_PATCH_BODY_LINES"
        "after_hunk h rest1" "chunk_boundary r \<longrightarrow> hk_header h \<noteq> None" by auto
    from "2.IH" [OF False move i c refl refl p] obtain hs where
      hs: "rest1 = concat (map hunk_records hs) @ rest" "cs' = (cs @ [c]) @ map denote_hunk hs"
        "k' = Suc k + length hs" "n' = n1 + lines_count hs" "section_end rest"
        "Suc k \<le> MAX_PATCH_HUNKS \<longrightarrow> k' \<le> MAX_PATCH_HUNKS"
        "n1 \<le> MAX_PATCH_BODY_LINES \<longrightarrow> n' \<le> MAX_PATCH_BODY_LINES" "hunks_ok True hs"
        "rest1 \<noteq> [] \<and> chunk_boundary (hd rest1) \<longrightarrow> hunks_ok False hs" by blast
    have stop: "hs = []" if "rest1 = [] \<or> is_file_directive (hd rest1)"
      using that p hs(3) by (cases rest1) auto
    have "hunks_ok False hs"
      using hs(9) h(6) stop directive_boundary by (cases "rest1 = []") (auto simp: after_hunk_def split: if_splits)
    moreover have "hk_eof h \<noteq> None \<longrightarrow> hs = []"
      using h(6) stop by (auto simp: after_hunk_def split: if_splits)
    ultimately have ok: "hunks_ok True (h # hs)" "chunk_boundary r \<Longrightarrow> hunks_ok False (h # hs)"
      using h(2,7) by auto
    show ?thesis
    proof (intro exI conjI)
      show "r # rs = concat (map hunk_records (h # hs)) @ rest" using h(1) hs(1) by simp
      show "r # rs \<noteq> [] \<and> chunk_boundary (hd (r # rs)) \<longrightarrow> hunks_ok False (h # hs)"
        using ok(2) by (simp only: list.sel) blast
      show "section_end rest" by (rule hs(5))
      show "hunks_ok True (h # hs)" by (rule ok(1))
    qed (use h(3-5) hs(2-4,6,7) k in simp_all)
  qed
qed

lemma hunk_records_head:
  assumes "hunk_ok h"
  shows "hunk_records h \<noteq> [] \<and> \<not> is_file_directive (hd (hunk_records h)) \<and>
    \<not> starts_with MOVE_TO (hd (hunk_records h)) \<and>
    (hk_header h \<noteq> None \<longrightarrow> chunk_boundary (hd (hunk_records h)))"
proof (cases "hk_header h")
  case None
  then have ne: "hk_lines h \<noteq> [] \<or> hk_eof h \<noteq> None" using assms by (auto simp: hunk_ok_def)
  with None have "hunk_records h \<noteq> []" by (cases "hk_eof h") (auto simp: hunk_records_def)
  moreover have "\<not> chunk_boundary (hd (hunk_records h))"
    using no_header_head [OF ne, of "[]"] None by (simp add: hunk_records_def)
  ultimately show ?thesis using None by (auto simp: chunk_boundary_def)
next
  case (Some x)
  then show ?thesis
    by (cases x) (auto simp: hunk_records_def MOVE_TO_def starts_with_def chunk_boundary_def)
qed

lemma parse_chunks_complete:
  assumes "hunks_ok b hs" "section_end rest"
    and "k + length hs \<le> MAX_PATCH_HUNKS" "n + lines_count hs \<le> MAX_PATCH_BODY_LINES"
  shows "parse_chunks (concat (map hunk_records hs) @ rest) k n cs =
    Inr (cs @ map denote_hunk hs, rest, k + length hs, n + lines_count hs)"
  using assms
proof (induction hs arbitrary: b k n cs)
  case Nil
  then show ?case by (cases rest) (auto simp: section_end_def)
next
  case (Cons h hs)
  let ?rest = "concat (map hunk_records hs) @ rest"
  have "after_hunk h ?rest"
  proof (cases hs)
    case Nil
    with Cons.prems show ?thesis by (auto simp: after_hunk_def section_end_def directive_boundary)
  next
    case (Cons h' hs')
    with Cons.prems(1) have "hk_eof h = None" "hunk_ok h'" "hk_header h' \<noteq> None" by auto
    with hunk_records_head [of h'] Cons show ?thesis by (simp add: after_hunk_def)
  qed
  with Cons.prems have c: "parse_update_chunk (hunk_records h @ ?rest) n =
      Inr (denote_hunk h, ?rest, n + length (hk_lines h))"
    by (intro parse_update_chunk_complete) auto
  from Cons.prems have "hunk_ok h" by simp
  with hunk_records_head obtain r rs where
    r: "hunk_records h = r # rs" "\<not> is_file_directive r" "\<not> starts_with MOVE_TO r"
    by (metis list.exhaust list.sel(1))
  have "Suc k \<le> MAX_PATCH_HUNKS" using Cons.prems by simp
  with c r Cons.IH [of False "Suc k" "n + length (hk_lines h)" "cs @ [denote_hunk h]"] Cons.prems
  show ?case by simp
qed

section \<open>One file\<close>

lemma section_body_lines_Update [simp]:
  "section_body_lines (Update_Section path move hs) = lines_count hs"
  by (simp add: lines_count_def)

declare section_body_lines.simps(3) [simp del]

lemma directive_prefixes:
  "strip_prefix ADD_FILE (UPDATE_FILE @ p) = None" "strip_prefix ADD_FILE (DELETE_FILE @ p) = None"
  "strip_prefix UPDATE_FILE (DELETE_FILE @ p) = None"
  by (simp_all add: strip_prefix_def markers)

lemma parse_directive_records [simp]:
  "parse_directive (ADD_FILE @ p) = Inr (Create_File, p)"
  "parse_directive (UPDATE_FILE @ p) = Inr (Update_File, p)"
  "parse_directive (DELETE_FILE @ p) = Inr (Delete_File, p)"
  by (simp_all add: parse_directive_def directive_prefixes)

lemma parse_directive_sound:
  "parse_directive r = Inr (op, path) \<Longrightarrow>
     r = (case op of Create_File \<Rightarrow> ADD_FILE | Update_File \<Rightarrow> UPDATE_FILE | Delete_File \<Rightarrow> DELETE_FILE) @ path"
  by (auto simp: parse_directive_def strip_prefix_eq_Some split: option.splits)

lemma parse_move_sound:
  assumes "parse_move path recs paths = Inr (move, rest, paths')" "path \<in> paths"
  shows "recs = (case move of None \<Rightarrow> [] | Some m \<Rightarrow> [MOVE_TO @ m]) @ rest \<and>
    (case move of None \<Rightarrow> paths' = paths
     | Some m \<Rightarrow> path_ok m \<and> (m = path \<or> m \<notin> paths) \<and> paths' = insert m paths)"
  using assms
  by (auto simp: parse_move_def result_simps path_ok_def strip_prefix_eq_Some
      split: list.splits option.splits if_splits)

lemma parse_move_none:
  "(\<And>r rs. recs = r # rs \<Longrightarrow> strip_prefix MOVE_TO r = None) \<Longrightarrow>
     parse_move path recs paths = Inr (None, recs, paths)"
  by (cases recs) (simp_all add: parse_move_def)

lemma no_move_head:
  assumes "hunks_ok True hs" "section_end rest" "concat (map hunk_records hs) @ rest = r # rs"
  shows "strip_prefix MOVE_TO r = None"
proof (cases hs)
  case Nil
  with assms show ?thesis
    by (auto simp: section_end_def strip_prefix_eq_None dest: directive_boundary)
next
  case (Cons h hs')
  with assms(1) hunk_records_head [of h] have "hunk_records h \<noteq> []"
    "\<not> starts_with MOVE_TO (hd (hunk_records h))" by auto
  with assms(3) Cons show ?thesis by (cases "hunk_records h") (auto simp: strip_prefix_eq_None)
qed

definition section_step :: "file_section \<Rightarrow> parse_totals \<Rightarrow> parse_totals" where
  "section_step s t =
     \<lparr>pt_paths = pt_paths t \<union> set (section_paths s),
      pt_hunks = pt_hunks t + section_hunks s,
      pt_body_lines = pt_body_lines t + section_body_lines s\<rparr>"

definition totals_ok :: "parse_totals \<Rightarrow> bool" where
  "totals_ok t \<longleftrightarrow> pt_hunks t \<le> MAX_PATCH_HUNKS \<and> pt_body_lines t \<le> MAX_PATCH_BODY_LINES"

lemma file_text_empty [simp]: "file_text ls = [] \<longleftrightarrow> ls = []"
  by (cases ls) auto

lemma parse_totals_eqI:
  "pt_paths a = pt_paths b \<Longrightarrow> pt_hunks a = pt_hunks b \<Longrightarrow> pt_body_lines a = pt_body_lines b \<Longrightarrow>
     a = (b :: parse_totals)"
  by simp

lemma parse_section_Add:
  assumes "parse_section Create_File path recs (t\<lparr>pt_paths := insert path (pt_paths t)\<rparr>) = Inr (p, rest, t')"
    and "path_ok path" "path \<notin> pt_paths t" "totals_ok t"
  shows "\<exists>s. (ADD_FILE @ path) # recs = section_records s @ rest \<and> section_ok s \<and>
    p = denote_section s \<and> t' = section_step s t \<and> totals_ok t' \<and>
    distinct (section_paths s) \<and> set (section_paths s) \<inter> pt_paths t = {}"
proof -
  from assms(1) obtain b n where
    b: "parse_add_lines recs (pt_body_lines t) [] = Inr (b, rest, n)" "b \<noteq> []"
      "p = \<lparr>cf_path = path, cf_move_path = None, cf_operation = Create_File,
            cf_add_bytes = Some b, cf_chunks = []\<rparr>"
      "t' = t\<lparr>pt_paths := insert path (pt_paths t), pt_body_lines := n\<rparr>"
    by (auto simp: parse_section_def result_simps split: if_splits)
  from parse_add_lines_sound [OF b(1)] obtain ls where
    "recs = map (\<lambda>l. CHR 0x2B # l) ls @ rest" "b = file_text ls" "n = pt_body_lines t + length ls"
    "pt_body_lines t \<le> MAX_PATCH_BODY_LINES \<longrightarrow> n \<le> MAX_PATCH_BODY_LINES" "length b \<le> MAX_PATCH_BYTES"
    by auto
  with b assms(2-4) show ?thesis
    by (intro exI [of _ "Add_Section path ls"]) (auto simp: section_step_def totals_ok_def)
qed

lemma parse_section_Update:
  assumes "parse_section Update_File path recs (t\<lparr>pt_paths := insert path (pt_paths t)\<rparr>) = Inr (p, rest, t')"
    and "path_ok path" "path \<notin> pt_paths t" "totals_ok t"
  shows "\<exists>s. (UPDATE_FILE @ path) # recs = section_records s @ rest \<and> section_ok s \<and>
    p = denote_section s \<and> t' = section_step s t \<and> totals_ok t' \<and>
    distinct (section_paths s) \<and> set (section_paths s) \<inter> pt_paths t = {}"
proof -
  from assms(1) obtain move recs1 paths cs k n where
    m: "parse_move path recs (insert path (pt_paths t)) = Inr (move, recs1, paths)" and
    c: "parse_chunks recs1 (pt_hunks t) (pt_body_lines t) [] = Inr (cs, rest, k, n)" and
    p: "p = \<lparr>cf_path = path, cf_move_path = move, cf_operation = Update_File,
             cf_add_bytes = None, cf_chunks = cs\<rparr>" and
    t': "t' = \<lparr>pt_paths = paths, pt_hunks = k, pt_body_lines = n\<rparr>"
    by (auto simp: parse_section_def result_simps)
  from parse_move_sound [OF m] have
    mv: "recs = (case move of None \<Rightarrow> [] | Some m \<Rightarrow> [MOVE_TO @ m]) @ recs1"
      "case move of None \<Rightarrow> paths = insert path (pt_paths t)
       | Some m \<Rightarrow> path_ok m \<and> (m = path \<or> m \<notin> insert path (pt_paths t)) \<and>
           paths = insert m (insert path (pt_paths t))" by auto
  from parse_chunks_sound [OF c] obtain hs where
    hs: "recs1 = concat (map hunk_records hs) @ rest" "cs = map denote_hunk hs"
      "k = pt_hunks t + length hs" "n = pt_body_lines t + lines_count hs"
      "pt_hunks t \<le> MAX_PATCH_HUNKS \<longrightarrow> k \<le> MAX_PATCH_HUNKS"
      "pt_body_lines t \<le> MAX_PATCH_BODY_LINES \<longrightarrow> n \<le> MAX_PATCH_BODY_LINES"
      "hunks_ok True hs" by auto
  show ?thesis
    using mv hs p t' assms(2-4)
    by (intro exI [of _ "Update_Section path move hs"])
       (cases move; auto simp: section_step_def totals_ok_def)
qed

lemma parse_file_sound:
  assumes "parse_file recs t = Inr (p, rest, t')" "recs \<noteq> []" "totals_ok t"
  shows "\<exists>s. recs = section_records s @ rest \<and> section_ok s \<and>
    p = denote_section s \<and> t' = section_step s t \<and> totals_ok t' \<and>
    distinct (section_paths s) \<and> set (section_paths s) \<inter> pt_paths t = {}"
proof -
  from assms(1,2) obtain r rs operation path where
    recs: "recs = r # rs" and d: "parse_directive r = Inr (operation, path)" and
    v: "path_ok path" and n: "path \<notin> pt_paths t" and
    s: "parse_section operation path rs (t\<lparr>pt_paths := insert path (pt_paths t)\<rparr>) = Inr (p, rest, t')"
    by (cases recs) (auto simp: parse_file_def result_simps path_ok_def split: if_splits)
  show ?thesis
  proof (cases operation)
    case Create_File
    with parse_section_Add [of path rs t p rest t'] s v n assms(3) recs show ?thesis
      using parse_directive_sound [OF d] by simp
  next
    case Update_File
    with parse_section_Update [of path rs t p rest t'] s v n assms(3) recs show ?thesis
      using parse_directive_sound [OF d] by simp
  next
    case Delete_File
    with s v n assms(3) parse_directive_sound [OF d] recs show ?thesis
      by (intro exI [of _ "Delete_Section path"])
         (auto simp: parse_section_def section_step_def totals_ok_def)
  qed
qed

text \<open>An added file and an update end at the end of the records or at a file directive.\<close>

lemma parse_file_complete:
  assumes "section_ok s" "distinct (section_paths s)" "set (section_paths s) \<inter> pt_paths t = {}"
    and "totals_ok (section_step s t)" "section_end rest"
  shows "parse_file (section_records s @ rest) t = Inr (denote_section s, rest, section_step s t)"
proof (cases s)
  case (Add_Section path ls)
  have "parse_add_lines (map (\<lambda>l. CHR 0x2B # l) ls @ rest) (pt_body_lines t) [] =
      Inr ([] @ file_text ls, rest, pt_body_lines t + length ls)"
    using assms Add_Section
    by (intro parse_add_lines_complete) (auto simp: section_end_def totals_ok_def section_step_def)
  with assms Add_Section show ?thesis
    by (simp add: parse_file_def parse_section_def
        path_ok_def section_step_def)
next
  case (Delete_Section path)
  with assms show ?thesis
    by (simp add: parse_file_def parse_section_def
        path_ok_def section_step_def)
next
  case (Update_Section path move hs)
  let ?body = "concat (map hunk_records hs) @ rest"
  have hs: "hunks_ok True hs" using assms(1) Update_Section by simp
  have c: "parse_chunks ?body (pt_hunks t) (pt_body_lines t) [] =
      Inr (map denote_hunk hs, rest, pt_hunks t + length hs, pt_body_lines t + lines_count hs)"
    using parse_chunks_complete [OF hs assms(5), of "pt_hunks t" "pt_body_lines t" "[]"]
      assms(4) Update_Section by (simp add: totals_ok_def section_step_def)
  show ?thesis
  proof (cases move)
    case None
    have "parse_move path ?body (insert path (pt_paths t)) = Inr (None, ?body, insert path (pt_paths t))"
      using no_move_head [OF hs assms(5)] by (rule parse_move_none)
    with None c assms Update_Section show ?thesis
      by (simp add: parse_file_def parse_section_def
          path_ok_def section_step_def)
  next
    case (Some m)
    have "parse_move path ((MOVE_TO @ m) # ?body) (insert path (pt_paths t)) =
        Inr (Some m, ?body, insert m (insert path (pt_paths t)))"
      using assms Update_Section Some by (auto simp: parse_move_def path_ok_def split: if_splits)
    with Some c assms Update_Section show ?thesis
      by (auto simp: parse_file_def parse_section_def
          path_ok_def section_step_def insert_absorb split: if_splits)
  qed
qed

section \<open>All the files\<close>

definition sections_step :: "file_section list \<Rightarrow> parse_totals \<Rightarrow> parse_totals" where
  "sections_step secs t = fold section_step secs t"

lemma sections_step_totals:
  "pt_paths (fold section_step secs t) = pt_paths t \<union> set (concat (map section_paths secs))"
  "pt_hunks (fold section_step secs t) = pt_hunks t + sum_list (map section_hunks secs)"
  "pt_body_lines (fold section_step secs t) = pt_body_lines t + sum_list (map section_body_lines secs)"
  by (induction secs arbitrary: t) (auto simp: section_step_def)

definition sections_ok :: "file_section list \<Rightarrow> parse_totals \<Rightarrow> bool" where
  "sections_ok secs t \<longleftrightarrow>
     list_all section_ok secs \<and> distinct (concat (map section_paths secs)) \<and>
     set (concat (map section_paths secs)) \<inter> pt_paths t = {} \<and>
     totals_ok (fold section_step secs t)"

lemma sections_ok_Cons:
  "sections_ok (s # secs) t \<longleftrightarrow>
     section_ok s \<and> distinct (section_paths s) \<and> set (section_paths s) \<inter> pt_paths t = {} \<and>
     sections_ok secs (section_step s t)"
  by (auto simp: sections_ok_def section_step_def)

lemma parse_files_sound:
  assumes "parse_files recs t ps = Inr (ps', t')" "totals_ok t" "length ps \<le> MAX_PATCH_FILES"
  shows "\<exists>secs. recs = concat (map section_records secs) \<and> ps' = ps @ map denote_section secs \<and>
    sections_ok secs t \<and> length ps + length secs \<le> MAX_PATCH_FILES"
  using assms
proof (induction recs t ps rule: parse_files.induct)
  case (1 t ps)
  then show ?case by (intro exI [of _ "[]"]) (simp add: sections_ok_def)
next
  case (2 r rs t ps)
  then obtain p rest t1 where len: "length ps \<noteq> MAX_PATCH_FILES" and
    f: "parse_file (r # rs) t = Inr (p, rest, t1)" and
    p: "parse_files rest t1 (ps @ [p]) = Inr (ps', t')"
    by (auto simp: result_simps split: if_splits)
  from parse_file_sound [OF f _ "2.prems"(2)] obtain s where
    s: "r # rs = section_records s @ rest" "section_ok s" "p = denote_section s"
      "t1 = section_step s t" "totals_ok t1"
      "distinct (section_paths s)" "set (section_paths s) \<inter> pt_paths t = {}" by blast
  have "length (ps @ [p]) \<le> MAX_PATCH_FILES" using len "2.prems"(3) by simp
  from "2.IH" [OF len f refl refl p s(5) this] obtain secs where
    "rest = concat (map section_records secs)" "ps' = (ps @ [p]) @ map denote_section secs"
    "sections_ok secs t1" "length (ps @ [p]) + length secs \<le> MAX_PATCH_FILES" by blast
  with s show ?case by (intro exI [of _ "s # secs"]) (simp add: sections_ok_Cons)
qed

lemma section_records_head:
  "\<exists>r rs. section_records s = r # rs \<and> is_file_directive r"
  by (cases s) auto

lemma sections_end: "section_end (concat (map section_records secs))"
proof (cases secs)
  case (Cons s secs')
  then show ?thesis using section_records_head [of s] by (auto simp: section_end_def)
qed (simp add: section_end_def)

lemma section_step_mono:
  "totals_ok (fold section_step secs t) \<Longrightarrow> totals_ok t"
  by (simp add: totals_ok_def sections_step_totals)

lemma parse_files_complete:
  assumes "sections_ok secs t" "length ps + length secs \<le> MAX_PATCH_FILES"
  shows "parse_files (concat (map section_records secs)) t ps =
    Inr (ps @ map denote_section secs, fold section_step secs t)"
  using assms
proof (induction secs arbitrary: t ps)
  case (Cons s secs)
  let ?rest = "concat (map section_records secs)"
  have s: "section_ok s" "distinct (section_paths s)" "set (section_paths s) \<inter> pt_paths t = {}"
    "sections_ok secs (section_step s t)"
    using Cons.prems(1) by (auto simp: sections_ok_Cons)
  then have "totals_ok (section_step s t)"
    by (auto simp: sections_ok_def intro: section_step_mono)
  with s have f: "parse_file (section_records s @ ?rest) t = Inr (denote_section s, ?rest, section_step s t)"
    by (intro parse_file_complete sections_end) auto
  obtain r rs where r: "section_records s = r # rs" using section_records_head by blast
  have "length ps \<noteq> MAX_PATCH_FILES" using Cons.prems(2) by simp
  with f r Cons.IH [OF s(4), of "ps @ [denote_section s]"] Cons.prems(2) show ?case by simp
qed simp

end
