(* ===== verification/Patch_Language.thy ===== *)
theory Patch_Language
  imports Patch_Parse
begin

text \<open>
  \<open>parse_codex_patch\<close> as a whole: the envelope (trimming, splitting, the begin and the end
  marker, the limit on the records) and the environment id around the loop over the files.
\<close>

section \<open>The envelope\<close>

lemma takeWhile_replicate: "\<exists>k. takeWhile (\<lambda>d. d = c) s = replicate k c"
  by (rule exI [of _ "length (takeWhile (\<lambda>d. d = c) s)"], rule replicate_eqI)
     (auto dest: set_takeWhileD)

lemma trim_matches_sound: "\<exists>a b. s = replicate a c @ trim_matches c s @ replicate b c"
proof -
  let ?t = "dropWhile (\<lambda>d. d = c) s"
  obtain a where a: "takeWhile (\<lambda>d. d = c) s = replicate a c"
    using takeWhile_replicate [of c s] by (rule exE)
  obtain b where b: "takeWhile (\<lambda>d. d = c) (rev ?t) = replicate b c"
    using takeWhile_replicate [of c "rev ?t"] by (rule exE)
  have "rev (rev ?t) = trim_matches c s @ replicate b c"
    unfolding trim_matches_def
    by (metis b rev_append rev_replicate takeWhile_dropWhile_id)
  then have "?t = trim_matches c s @ replicate b c" by simp
  then have "s = replicate a c @ trim_matches c s @ replicate b c"
    by (metis a takeWhile_dropWhile_id)
  then show ?thesis by blast
qed

lemma dropWhile_replicate_ne:
  "t \<noteq> [] \<Longrightarrow> hd t \<noteq> c \<Longrightarrow> dropWhile (\<lambda>d. d = c) (replicate a c @ t) = t"
  by (induction a) (cases t; simp)+

lemma trim_matches_complete:
  assumes "t \<noteq> []" "hd t \<noteq> c" "last t \<noteq> c"
  shows "trim_matches c (replicate a c @ t @ replicate b c) = t"
proof -
  have "dropWhile (\<lambda>d. d = c) (replicate a c @ t @ replicate b c) = t @ replicate b c"
    using assms(1,2) by (intro dropWhile_replicate_ne) auto
  moreover have "dropWhile (\<lambda>d. d = c) (replicate b c @ rev t) = rev t"
    using assms(1,3) by (intro dropWhile_replicate_ne) (auto simp: hd_rev)
  ultimately show ?thesis by (simp add: trim_matches_def)
qed

lemma last_join_with: "ps \<noteq> [] \<Longrightarrow> last ps \<noteq> [] \<Longrightarrow> last (join_with sep ps) = last (last ps) \<and> join_with sep ps \<noteq> []"
  by (induction sep ps rule: join_with.induct) auto

definition envelope :: "string list \<Rightarrow> string" where
  "envelope body = join_with [LF] (BEGIN_PATCH # body @ [END_PATCH])"

lemma trim_envelope: "trim_matches LF (replicate a LF @ envelope body @ replicate b LF) = envelope body"
proof (rule trim_matches_complete)
  let ?rs = "BEGIN_PATCH # body @ [END_PATCH]"
  have "last ?rs = END_PATCH" by simp
  with last_join_with [of ?rs "[LF]"] show "envelope body \<noteq> []" "last (envelope body) \<noteq> LF"
    by (simp_all add: envelope_def END_PATCH_def)
  show "hd (envelope body) \<noteq> LF"
    by (simp add: envelope_def join_Cons BEGIN_PATCH_def)
qed

lemma patch_body_iff:
  "patch_body input = Inr body \<longleftrightarrow>
     length input \<le> MAX_PATCH_BYTES \<and> NUL \<notin> set input \<and>
     length body + 2 \<le> MAX_CODEX_RECORDS \<and> END_PATCH \<notin> set body \<and> (\<forall>r \<in> set body. LF \<notin> set r) \<and>
     (\<exists>a b. input = replicate a LF @ envelope body @ replicate b LF)" (is "?l \<longleftrightarrow> ?r")
proof
  assume l: ?l
  define rs where "rs = split_on LF (trim_matches LF input)"
  define records where "records = take (MAX_CODEX_RECORDS + 1) rs"
  from l obtain i where lim: "length input \<le> MAX_PATCH_BYTES" "NUL \<notin> set input"
    and len: "length records \<le> MAX_CODEX_RECORDS"
    and hd: "records \<noteq> []" "hd records = BEGIN_PATCH"
    and i: "position (\<lambda>r. r = END_PATCH) records = Some i" "i + 1 = length records"
    and body: "body = drop 1 (take i records)"
    by (auto simp: patch_body_def Let_def records_def rs_def result_simps split: if_splits)
  from len have rs: "records = rs" by (auto simp: records_def)
  from i have last: "last records = END_PATCH" and before: "END_PATCH \<notin> set (take i records)"
    by (auto simp: position_eq_Some last_conv_nth in_set_conv_nth) (metis Suc_eq_plus1 diff_Suc_1 hd(1) last_conv_nth)
  from i have i_eq: "take i records = butlast records" by (metis add_diff_cancel_right' butlast_conv_take)
  obtain r rest where r: "records = r # rest" using hd(1) by (cases records) auto
  with hd last have rest: "rest \<noteq> []" by (auto simp: BEGIN_PATCH_def END_PATCH_def)
  have records: "records = BEGIN_PATCH # body @ [END_PATCH]"
    using r hd(2) last rest body i_eq append_butlast_last_id [OF rest] by auto
  have "trim_matches LF input = join_with [LF] records" unfolding rs rs_def by (simp add: join_split)
  then have "trim_matches LF input = envelope body" by (simp only: records envelope_def)
  with trim_matches_sound [of input LF] have "\<exists>a b. input = replicate a LF @ envelope body @ replicate b LF"
    by auto
  moreover have "END_PATCH \<notin> set body" using before records i_eq by auto
  moreover have "\<forall>r \<in> set body. LF \<notin> set r"
    using records rs rs_def split_on_piece [of _ LF "trim_matches LF input"] by auto
  moreover have "length body + 2 \<le> MAX_CODEX_RECORDS" using len records by simp
  ultimately show ?r using lim by blast
next
  assume r: ?r
  let ?rs = "BEGIN_PATCH # body @ [END_PATCH]"
  from r have split: "split_on LF (envelope body) = ?rs"
    unfolding envelope_def by (intro split_join) (auto simp: BEGIN_PATCH_def END_PATCH_def)
  have "position (\<lambda>r. r = END_PATCH) ((BEGIN_PATCH # body) @ END_PATCH # []) = Some (length (BEGIN_PATCH # body))"
    using r by (intro position_append_hit) (auto simp: BEGIN_PATCH_def END_PATCH_def)
  moreover have "trim_matches LF input = envelope body" using r trim_envelope by auto
  moreover have "take (MAX_CODEX_RECORDS + 1) ?rs = ?rs"
    using r by (intro take_all) simp
  ultimately show ?l
    using r split by (simp add: patch_body_def Let_def)
qed

section \<open>The language of the parser\<close>

lemma parse_environment_id_sound:
  "parse_environment_id expected body = Inr recs \<Longrightarrow>
     \<exists>eid. body = environment_records eid @ recs \<and> (eid = None \<or> eid = Some expected \<and> expected \<noteq> [])"
  by (auto simp: parse_environment_id_def environment_records_def strip_prefix_eq_Some
      split: list.splits option.splits if_splits)

lemma parse_environment_id_complete:
  assumes "eid = None \<or> eid = Some expected \<and> expected \<noteq> []"
  shows "parse_environment_id expected (environment_records eid @ concat (map section_records secs)) =
    Inr (concat (map section_records secs))"
proof (cases eid)
  case None
  show ?thesis
  proof (cases secs)
    case (Cons s ss)
    obtain r rs where "section_records s = r # rs" "is_file_directive r"
      using section_records_head by blast
    moreover from this have "strip_prefix ENVIRONMENT_ID r = None"
      by (auto simp: is_file_directive_def starts_with_iff markers strip_prefix_def)
    ultimately show ?thesis using None Cons by (simp add: parse_environment_id_def environment_records_def)
  qed (use None in \<open>simp add: parse_environment_id_def environment_records_def\<close>)
next
  case (Some e)
  with assms show ?thesis by (auto simp: parse_environment_id_def environment_records_def)
qed

lemma marker_free:
  "END_PATCH \<noteq> ENVIRONMENT_ID @ e" "END_PATCH \<noteq> ADD_FILE @ p" "END_PATCH \<noteq> UPDATE_FILE @ p"
  "END_PATCH \<noteq> DELETE_FILE @ p" "END_PATCH \<noteq> MOVE_TO @ p" "END_PATCH \<noteq> END_OF_FILE"
  "END_PATCH \<noteq> line_record l" "END_PATCH \<noteq> ''@@''" "END_PATCH \<noteq> ''@@ '' @ p" "END_PATCH \<noteq> []"
  "END_PATCH \<noteq> CHR 0x2B # p" "END_PATCH \<noteq> CHR 0x40 # p"
  by (cases l; simp add: markers)+

lemma hunk_records_free: "END_PATCH \<notin> set (hunk_records h)"
proof -
  have "END_PATCH \<notin> set (header_records hdr)" for hdr
    by (cases hdr rule: header_records.cases) (use marker_free in auto)
  moreover have "END_PATCH \<notin> set (eof_records e)" for e
    by (cases e) (use marker_free in auto)
  moreover have "END_PATCH \<notin> set (map line_record ls)" for ls using marker_free by auto
  ultimately show ?thesis by (simp add: hunk_records_def)
qed

lemma section_records_free: "END_PATCH \<notin> set (section_records s)"
  using hunk_records_free marker_free by (cases s) (auto split: option.splits)

lemma patch_records_free: "END_PATCH \<notin> set (environment_records eid @ concat (map section_records secs))"
  using section_records_free marker_free by (auto simp: environment_records_def split: option.splits)

lemma sections_ok_empty_totals:
  "sections_ok secs empty_totals \<longleftrightarrow>
     list_all section_ok secs \<and> distinct (concat (map section_paths secs)) \<and>
     sum_list (map section_hunks secs) \<le> MAX_PATCH_HUNKS \<and>
     sum_list (map section_body_lines secs) \<le> MAX_PATCH_BODY_LINES"
  by (auto simp: sections_ok_def totals_ok_def sections_step_totals empty_totals_def)

lemma patch_text_envelope:
  "patch_text eid secs = envelope (environment_records eid @ concat (map section_records secs))"
  by (simp add: patch_text_def patch_records_def envelope_def)

lemma parse_codex_patch_sound:
  assumes "parse_codex_patch input expected = Inr patches"
  shows "\<exists>eid secs a b. patch_ok expected eid secs \<and> patches = map denote_section secs \<and>
    input = replicate a LF @ patch_text eid secs @ replicate b LF \<and>
    length input \<le> MAX_PATCH_BYTES \<and> NUL \<notin> set input"
proof -
  from assms obtain body recs t where
    body: "patch_body input = Inr body" and env: "parse_environment_id expected body = Inr recs" and
    files: "parse_files recs empty_totals [] = Inr (patches, t)" and ne: "patches \<noteq> []"
    by (auto simp: parse_codex_patch_def result_simps split: if_splits)
  from parse_environment_id_sound [OF env] obtain eid where
    eid: "body = environment_records eid @ recs" "eid = None \<or> eid = Some expected \<and> expected \<noteq> []"
    by blast
  have "totals_ok empty_totals" by (simp add: totals_ok_def empty_totals_def)
  from parse_files_sound [OF files this] obtain secs where
    secs: "recs = concat (map section_records secs)" "patches = map denote_section secs"
      "sections_ok secs empty_totals" "length secs \<le> MAX_PATCH_FILES" by auto
  from body obtain a b where
    b: "length input \<le> MAX_PATCH_BYTES" "NUL \<notin> set input" "length body + 2 \<le> MAX_CODEX_RECORDS"
      "\<forall>r \<in> set body. LF \<notin> set r" "input = replicate a LF @ envelope body @ replicate b LF"
    unfolding patch_body_iff by blast
  have "patch_ok expected eid secs"
    using eid secs ne b
    by (auto simp: patch_ok_def sections_ok_empty_totals patch_records_def BEGIN_PATCH_def END_PATCH_def)
  moreover have "input = replicate a LF @ patch_text eid secs @ replicate b LF"
    using b(5) eid(1) secs(1) by (simp add: patch_text_envelope)
  ultimately show ?thesis using secs(2) b(1,2) by blast
qed

lemma parse_codex_patch_complete:
  assumes "patch_ok expected eid secs"
    and "input = replicate a LF @ patch_text eid secs @ replicate b LF"
    and "length input \<le> MAX_PATCH_BYTES" "NUL \<notin> set input"
  shows "parse_codex_patch input expected = Inr (map denote_section secs)"
proof -
  let ?body = "environment_records eid @ concat (map section_records secs)"
  have "patch_body input = Inr ?body"
    unfolding patch_body_iff
  proof (intro conjI exI)
    show "input = replicate a LF @ envelope ?body @ replicate b LF"
      using assms(2) by (simp add: patch_text_envelope)
    show "END_PATCH \<notin> set ?body" by (rule patch_records_free)
  qed (use assms in \<open>auto simp: patch_ok_def patch_records_def\<close>)
  moreover have "parse_environment_id expected ?body = Inr (concat (map section_records secs))"
    using assms(1) by (intro parse_environment_id_complete) (auto simp: patch_ok_def)
  moreover have "parse_files (concat (map section_records secs)) empty_totals [] =
      Inr ([] @ map denote_section secs, fold section_step secs empty_totals)"
    using assms(1) by (intro parse_files_complete) (auto simp: patch_ok_def sections_ok_empty_totals)
  ultimately show ?thesis
    using assms(1) by (simp add: parse_codex_patch_def patch_ok_def)
qed

section \<open>What an accepted patch is made of\<close>

text \<open>The paths a parsed file names: its own and the target of a move elsewhere.\<close>

definition named_paths :: "codex_file_patch \<Rightarrow> string list" where
  "named_paths p = cf_path p #
     (case cf_move_path p of None \<Rightarrow> [] | Some m \<Rightarrow> if m = cf_path p then [] else [m])"

definition chunk_lines_count :: "codex_update_chunk \<Rightarrow> nat" where
  "chunk_lines_count c =
     length (ck_old_lines c) + length (ck_new_lines c) - length (ck_context_line_indices c)"

text \<open>The context indices point at equal lines of the two sides, in increasing order.\<close>

definition chunk_wf :: "codex_update_chunk \<Rightarrow> bool" where
  "chunk_wf c \<longleftrightarrow>
     (\<forall>(i, j) \<in> set (ck_context_line_indices c).
        i < length (ck_old_lines c) \<and> j < length (ck_new_lines c) \<and>
        ck_old_lines c ! i = ck_new_lines c ! j) \<and>
     sorted_wrt (<) (map fst (ck_context_line_indices c)) \<and>
     sorted_wrt (<) (map snd (ck_context_line_indices c))"

definition file_wf :: "codex_file_patch \<Rightarrow> bool" where
  "file_wf p \<longleftrightarrow>
     list_all path_ok (named_paths p) \<and> list_all chunk_wf (cf_chunks p) \<and>
     (case cf_operation p of
        Create_File \<Rightarrow> cf_move_path p = None \<and> cf_chunks p = [] \<and>
          (\<exists>b. cf_add_bytes p = Some b \<and> b \<noteq> [] \<and> last b = LF \<and> length b \<le> MAX_PATCH_BYTES)
      | Delete_File \<Rightarrow> cf_move_path p = None \<and> cf_chunks p = [] \<and> cf_add_bytes p = None
      | Update_File \<Rightarrow> cf_add_bytes p = None)"

lemma keep_indices_bounds:
  assumes "(a, b) \<in> set (keep_indices i j ls)"
  shows "i \<le> a \<and> a < i + length (old_of ls) \<and> j \<le> b \<and> b < j + length (new_of ls) \<and>
    old_of ls ! (a - i) = new_of ls ! (b - j)"
  using assms
proof (induction i j ls rule: keep_indices.induct)
  case (2 i j t ls)
  then consider "a = i" "b = j" | "(a, b) \<in> set (keep_indices (Suc i) (Suc j) ls)" by auto
  then show ?case
  proof cases
    case 2
    from "2.IH" [OF this] show ?thesis by (simp add: nth_Cons' Suc_le_eq) linarith?
  qed auto
next
  case (3 i j t ls)
  then have "(a, b) \<in> set (keep_indices (Suc i) j ls)" by simp
  from "3.IH" [OF this] show ?case by (simp add: nth_Cons' Suc_le_eq)
next
  case (4 i j t ls)
  then have "(a, b) \<in> set (keep_indices i (Suc j) ls)" by simp
  from "4.IH" [OF this] show ?case by (simp add: nth_Cons' Suc_le_eq)
qed simp

lemma keep_indices_sorted:
  "sorted_wrt (<) (map fst (keep_indices i j ls)) \<and> sorted_wrt (<) (map snd (keep_indices i j ls))"
proof (induction i j ls rule: keep_indices.induct)
  case (2 i j t ls)
  then show ?case by (force dest: keep_indices_bounds)
qed auto

lemma denote_hunk_wf: "chunk_wf (denote_hunk h)"
  using keep_indices_bounds [of _ _ 0 0 "hk_lines h"] keep_indices_sorted [of 0 0 "hk_lines h"]
  by (auto simp: chunk_wf_def denote_hunk_def)

lemma last_file_text: "ls \<noteq> [] \<Longrightarrow> last (file_text ls) = LF"
  by (induction ls) auto

lemma denote_section_wf: "section_ok s \<Longrightarrow> file_wf (denote_section s)"
  by (cases s) (auto simp: file_wf_def named_paths_def denote_hunk_wf list_all_iff last_file_text
      split: option.splits)

lemma denote_section_paths: "named_paths (denote_section s) = section_paths s"
  by (cases s) (auto simp: named_paths_def split: option.splits)

lemma denote_section_hunks: "length (cf_chunks (denote_section s)) = section_hunks s"
  by (cases s) auto

section \<open>Properties\<close>

text \<open>C29: The parser accepts exactly the patch grammar. For every input, the parser returns
  \<open>patches\<close> if and only if the input is, up to newlines around it, the text of a well-formed
  patch whose meaning is \<open>patches\<close>: every grammatical patch is accepted with its intended
  meaning, and nothing else is accepted.\<close>

theorem parse_codex_patch_language:
  "parse_codex_patch input expected = Inr patches \<longleftrightarrow>
     (\<exists>eid secs a b. patch_ok expected eid secs \<and> patches = map denote_section secs \<and>
        input = replicate a LF @ patch_text eid secs @ replicate b LF \<and>
        length input \<le> MAX_PATCH_BYTES \<and> NUL \<notin> set input)"
  using parse_codex_patch_sound parse_codex_patch_complete by metis

text \<open>Whatever the parser accepts respects the compiled limits: between one and 32 files,
  at most 4096 hunks, no path named twice (the targets of moves included), every path absolute
  and canonical, every added file non-empty, newline-terminated and within the byte limit, and
  every context index in range of the lines it relates.\<close>

theorem parse_codex_patch_bounds:
  assumes "parse_codex_patch input expected = Inr patches"
  shows "patches \<noteq> [] \<and> length patches \<le> MAX_PATCH_FILES \<and> list_all file_wf patches \<and>
    distinct (concat (map named_paths patches)) \<and>
    sum_list (map (\<lambda>p. length (cf_chunks p)) patches) \<le> MAX_PATCH_HUNKS"
proof -
  from parse_codex_patch_sound [OF assms] obtain eid secs where
    s: "patch_ok expected eid secs" "patches = map denote_section secs" by blast
  then show ?thesis
    by (auto simp: patch_ok_def list_all_iff denote_section_wf denote_section_paths
        denote_section_hunks comp_def)
qed

definition sample_patch :: string where
  "sample_patch = ''*** Begin Patch'' @ [LF] @ ''*** Update File: /a'' @ [LF] @ ''@@'' @ [LF] @
     '' k'' @ [LF] @ ''-x'' @ [LF] @ ''+y'' @ [LF] @ ''*** End Patch'' @ [LF]"

definition sample_parsed :: "codex_file_patch list" where
  "sample_parsed =
     [\<lparr>cf_path = ''/a'', cf_move_path = None, cf_operation = Update_File, cf_add_bytes = None,
       cf_chunks = [\<lparr>ck_context = None, ck_old_lines = [''k'', ''x''], ck_new_lines = [''k'', ''y''],
         ck_context_line_indices = [(0, 0)], ck_end_of_file = False\<rparr>]\<rparr>]"

lemma sample_patch_parses: "parse_codex_patch sample_patch ''dev'' = Inr sample_parsed"
proof -
  have "parse_codex_patch sample_patch ''dev'' = Inr (map denote_section
      [Update_Section ''/a'' None [\<lparr>hk_header = Some None, hk_lines = [Keep ''k'', Drop ''x'', Insert ''y''],
         hk_eof = None\<rparr>]])"
    by (rule parse_codex_patch_complete [where eid = None and a = 0 and b = 1])
       (simp_all add: sample_patch_def patch_ok_def patch_text_def patch_records_def hunk_records_def
         environment_records_def markers path_ok_def validate_codex_path_def starts_with_def
         validate_path_ok validate_absolute_patch_path_def hunk_ok_def line_ok_def continuation_def byte_def
         MAX_CODEX_RECORDS_def MAX_PATCH_BYTES_def MAX_PATCH_FILES_def MAX_PATCH_HUNKS_def
         MAX_PATCH_BODY_LINES_def MAX_PATCH_PATH_BYTES_def lines_count_def)
  then show ?thesis by (simp add: sample_parsed_def denote_hunk_def)
qed

lemma parse_codex_patch_bounds_witness:
  "sample_parsed \<noteq> [] \<and> length sample_parsed \<le> MAX_PATCH_FILES \<and> list_all file_wf sample_parsed \<and>
    distinct (concat (map named_paths sample_parsed)) \<and>
    sum_list (map (\<lambda>p. length (cf_chunks p)) sample_parsed) \<le> MAX_PATCH_HUNKS"
  by (rule parse_codex_patch_bounds [OF sample_patch_parses])

end
