(* ===== verification/Apply_Correct.thy ===== *)
theory Apply_Correct
  imports Codex_Apply Patch_Language
begin

text \<open>
  \<open>apply_codex_file\<close> against a specification by decomposition: an update splits the file
  into kept and replaced runs of lines, in the order of the chunks (\<open>edits\<close>).  The search
  and the planning loop never leave the file, so that no index is out of range, and what is
  written is the kept lines with the replacements between them.
\<close>

section \<open>The search\<close>

text \<open>The lines from an index on match the wanted ones under one of the modes.\<close>

definition block_matches :: "match_mode \<Rightarrow> string list \<Rightarrow> string list \<Rightarrow> bool" where
  "block_matches mode found wanted \<longleftrightarrow> list_all2 (line_matches mode) found wanted"

definition found_at :: "string list \<Rightarrow> string list \<Rightarrow> match_mode \<Rightarrow> nat \<Rightarrow> bool" where
  "found_at haystack needle mode i \<longleftrightarrow> block_matches mode (take (length needle) (drop i haystack)) needle"

lemma list_all_zip:
  "length xs = length ys \<Longrightarrow> list_all (\<lambda>(x, y). P x y) (zip xs ys) = list_all2 P xs ys"
  by (induction xs ys rule: list_induct2) auto

lemma sequence_matches_found:
  "i + length needle \<le> length haystack \<Longrightarrow>
     sequence_matches haystack needle i mode = Inr (found_at haystack needle mode i)"
  by (simp add: sequence_matches_def slice_def found_at_def block_matches_def list_all_zip)

lemma seek_mode_find:
  "\<forall>i \<in> set cs. i + length needle \<le> length haystack \<Longrightarrow>
     seek_mode haystack needle mode cs = Inr (List.find (found_at haystack needle mode) cs)"
  by (induction cs) (auto simp: sequence_matches_found)

lemma seek_modes_spec:
  assumes "\<forall>i \<in> set cs. i + length needle \<le> length haystack"
  shows "\<exists>r. seek_modes haystack needle cs modes = Inr r \<and>
    (\<forall>i. r = Some i \<longrightarrow> i \<in> set cs \<and> (\<exists>mode \<in> set modes. found_at haystack needle mode i)) \<and>
    (r = None \<longrightarrow> (\<forall>i \<in> set cs. \<forall>mode \<in> set modes. \<not> found_at haystack needle mode i))"
  using assms
proof (induction modes)
  case (Cons mode modes)
  show ?case
  proof (cases "List.find (found_at haystack needle mode) cs")
    case None
    from Cons.IH [OF Cons.prems] obtain r where
      r: "seek_modes haystack needle cs modes = Inr r"
      "\<forall>i. r = Some i \<longrightarrow> i \<in> set cs \<and> (\<exists>mode \<in> set modes. found_at haystack needle mode i)"
      "r = None \<longrightarrow> (\<forall>i \<in> set cs. \<forall>mode \<in> set modes. \<not> found_at haystack needle mode i)" by blast
    from None have "\<forall>i \<in> set cs. \<not> found_at haystack needle mode i" by (simp add: find_None_iff)
    with r None Cons.prems show ?thesis
      by (intro exI [of _ r]) (auto simp: seek_mode_find)
  next
    case (Some i)
    then have "i \<in> set cs" "found_at haystack needle mode i" by (auto simp: find_Some_iff)
    with Some Cons.prems show ?thesis
      by (intro exI [of _ "Some i"]) (auto simp: seek_mode_find)
  qed
qed simp

lemma seek_candidates_spec:
  assumes "\<forall>i \<in> set cs. i + length needle \<le> length haystack"
  shows "\<exists>r. seek_candidates haystack needle cs = Inr r \<and>
    (\<forall>i. r = Some i \<longrightarrow> i \<in> set cs \<and> (\<exists>mode. found_at haystack needle mode i)) \<and>
    (r = None \<longrightarrow> (\<forall>i \<in> set cs. \<forall>mode. \<not> found_at haystack needle mode i))"
proof -
  have "mode \<in> set [Exact, TrimEnd, Trim, UnicodeNormalized]" for mode by (cases mode) auto
  with seek_modes_spec [OF assms, of "[Exact, TrimEnd, Trim, UnicodeNormalized]"]
  show ?thesis unfolding seek_candidates_def by blast
qed

text \<open>An exact match anywhere is preferred to a lenient one, and the first of them is taken.\<close>

lemma seek_candidates_exact:
  assumes "\<forall>i \<in> set cs. i + length needle \<le> length haystack"
    and "List.find (found_at haystack needle Exact) cs = Some i"
  shows "seek_candidates haystack needle cs = Inr (Some i)"
  using assms by (simp add: seek_candidates_def seek_mode_find)

lemma found_at_Nil [simp]: "found_at haystack [] mode i"
  by (simp add: found_at_def block_matches_def)

lemma seek_sequence_spec:
  assumes "start \<le> length haystack"
  shows "\<exists>r. seek_sequence haystack needle start eof = Inr r \<and>
    (\<forall>i. r = Some i \<longrightarrow> start \<le> i \<and> i + length needle \<le> length haystack \<and>
        (\<exists>mode. found_at haystack needle mode i)) \<and>
    (r = None \<longrightarrow> needle \<noteq> [] \<and>
       (\<forall>i mode. start \<le> i \<and> i + length needle \<le> length haystack \<longrightarrow> \<not> found_at haystack needle mode i))"
proof (cases "needle = []")
  case True
  with assms show ?thesis by (simp add: seek_sequence_def)
next
  case ne: False
  show ?thesis
  proof (cases "start + length needle \<le> length haystack")
    case False
    then have "seek_sequence haystack needle start eof = Inr None"
      using ne by (auto simp: seek_sequence_def checked_sub_def)
    moreover have "\<not> (start \<le> i \<and> i + length needle \<le> length haystack)" for i
      using False by linarith
    ultimately show ?thesis using ne by auto
  next
    case True
    define last_index where "last_index = length haystack - length needle"
    have li: "i + length needle \<le> length haystack \<longleftrightarrow> i \<le> last_index" for i
      using True by (auto simp: last_index_def)
    have "\<not> length haystack - length needle < start" using True by linarith
    then have unfolded: "seek_sequence haystack needle start eof =
        bindR (if eof then seek_candidates haystack needle [last_index] else Inr None)
          (\<lambda>at_end. case at_end of Some found \<Rightarrow> Inr (Some found)
             | None \<Rightarrow> seek_candidates haystack needle [start..<Suc last_index])"
      unfolding seek_sequence_def checked_sub_def last_index_def
      using True ne by (simp del: upt_Suc)
    have "\<forall>i \<in> set [start..<Suc last_index]. i + length needle \<le> length haystack"
      by (auto simp: li)
    from seek_candidates_spec [OF this] obtain r where
      r: "seek_candidates haystack needle [start..<Suc last_index] = Inr r"
      "\<forall>i. r = Some i \<longrightarrow> i \<in> set [start..<Suc last_index] \<and> (\<exists>mode. found_at haystack needle mode i)"
      "r = None \<longrightarrow> (\<forall>i \<in> set [start..<Suc last_index]. \<forall>mode. \<not> found_at haystack needle mode i)"
      by blast
    have "\<forall>i \<in> set [last_index]. i + length needle \<le> length haystack" by (simp add: li)
    from seek_candidates_spec [OF this] obtain q where
      q: "seek_candidates haystack needle [last_index] = Inr q"
      "\<forall>i. q = Some i \<longrightarrow> i \<in> set [last_index] \<and> (\<exists>mode. found_at haystack needle mode i)"
      by blast
    show ?thesis
    proof (cases "eof \<and> q \<noteq> None")
      case T: True
      then obtain i where i: "q = Some i" by auto
      with T q(1) have "seek_sequence haystack needle start eof = Inr (Some i)"
        unfolding unfolded by simp
      moreover from i q(2) have "i = last_index" "\<exists>mode. found_at haystack needle mode i" by auto
      moreover have "start \<le> last_index" using True by (simp add: last_index_def)
      ultimately show ?thesis by (intro exI [of _ "Some i"]) (auto simp: li)
    next
      case F: False
      with q(1) r(1) have "seek_sequence haystack needle start eof = Inr r"
        unfolding unfolded by auto
      with r(2,3) ne show ?thesis by (intro exI [of _ r]) (auto simp: li)
    qed
  qed
qed

section \<open>Context lines\<close>

definition merge_context :: "codex_update_chunk \<Rightarrow> string list \<Rightarrow> string list" where
  "merge_context c old =
     fold (\<lambda>(i, j) new. new[j := old ! i]) (ck_context_line_indices c) (ck_new_lines c)"

lemma length_merge: "length (fold (\<lambda>(i, j) new. new[j := old ! i]) ixs new) = length new"
  by (induction ixs arbitrary: new) auto

lemma keep_context_merge:
  assumes "\<forall>(i, j) \<in> set ixs. i < k \<and> j < length new" "start + k \<le> length lines"
  shows "keep_context lines start ixs new =
    Inr (fold (\<lambda>(i, j) new. new[j := take k (drop start lines) ! i]) ixs new)"
  using assms
  by (induction ixs arbitrary: new) (auto simp: or_err_def)

lemma keep_context_chunk:
  assumes "chunk_wf c" "start + length (ck_old_lines c) \<le> length lines"
  shows "keep_context lines start (ck_context_line_indices c) (ck_new_lines c) =
    Inr (merge_context c (take (length (ck_old_lines c)) (drop start lines)))"
  unfolding merge_context_def using assms
  by (intro keep_context_merge) (auto simp: chunk_wf_def)

section \<open>What an update does to the lines\<close>

text \<open>
  One chunk: the lines up to and including the context line are kept, then more lines are
  kept, a run of lines that matches the old side is replaced, and the rest is left to the
  next chunks.  A chunk with no lines only moves past its context line.
\<close>

definition context_skip :: "codex_update_chunk \<Rightarrow> string list \<Rightarrow> bool" where
  "context_skip c skipped \<longleftrightarrow>
     (case ck_context c of
        None \<Rightarrow> skipped = []
      | Some x \<Rightarrow> skipped \<noteq> [] \<and> (\<exists>mode. line_matches mode (last skipped) x))"

inductive edits :: "string list \<Rightarrow> codex_update_chunk list \<Rightarrow> string list \<Rightarrow> bool" where
  edits_done: "edits ls [] ls"
| edits_replace:
    "context_skip c skipped \<Longrightarrow> block_matches mode old (ck_old_lines c) \<Longrightarrow>
     (ck_old_lines c = [] \<and> ck_context c = None \<longrightarrow> post = []) \<Longrightarrow>
     edits post cs out \<Longrightarrow>
     edits (skipped @ kept @ old @ post) (c # cs) (skipped @ kept @ merge_context c old @ out)"
| edits_skip:
    "context_skip c skipped \<Longrightarrow> ck_old_lines c = [] \<Longrightarrow> ck_new_lines c = [] \<Longrightarrow>
     edits post cs out \<Longrightarrow> edits (skipped @ post) (c # cs) (skipped @ out)"

fun placed :: "nat \<Rightarrow> nat \<Rightarrow> replacement list \<Rightarrow> bool" where
  "placed n c [] \<longleftrightarrow> c \<le> n"
| "placed n c (r # rs) \<longleftrightarrow>
     c \<le> rp_start r \<and> rp_start r + rp_old_len r \<le> n \<and> placed n (rp_start r + rp_old_len r) rs"

fun assemble :: "string list \<Rightarrow> nat \<Rightarrow> replacement list \<Rightarrow> string list" where
  "assemble lines copied [] = drop copied lines"
| "assemble lines copied (r # rs) =
     take (rp_start r - copied) (drop copied lines) @ rp_new_lines r @
     assemble lines (rp_start r + rp_old_len r) rs"

lemma placed_mono: "placed n c rs \<Longrightarrow> b \<le> c \<Longrightarrow> placed n b rs"
  by (cases rs) auto

lemma segment_split:
  "a \<le> b \<Longrightarrow> b \<le> length xs \<Longrightarrow> drop a xs = take (b - a) (drop a xs) @ drop b xs"
  by (metis append_take_drop_id drop_drop le_add_diff_inverse2)

lemma assemble_skip:
  assumes "a \<le> c" "placed (length lines) c rs"
  shows "assemble lines a rs = take (c - a) (drop a lines) @ assemble lines c rs"
proof (cases rs)
  case Nil
  with assms segment_split [of a c lines] show ?thesis by simp
next
  case (Cons r rs')
  with assms have r: "c \<le> rp_start r" "rp_start r \<le> length lines" by auto
  have "rp_start r - a = (c - a) + (rp_start r - c)" using assms(1) r(1) by simp
  then have "take (rp_start r - a) (drop a lines) =
      take (c - a) (drop a lines) @ take (rp_start r - c) (drop c lines)"
    using assms(1) by (simp only: take_add drop_drop) simp
  with Cons show ?thesis by simp
qed

definition patch_error :: "bridge_error \<Rightarrow> bool" where
  "patch_error e \<longleftrightarrow> be_code e \<in> {InvalidArgument, RequestTooLarge, WriteConflict}"

lemma patch_error_simps [simp]:
  "patch_error (invalid_patch m)" "patch_error (patch_too_large m)" "patch_error (write_conflict m)"
  by (simp_all add: patch_error_def)

text \<open>A result that is a patch error, or a value with a property: never a panic.\<close>

definition ok_or_error :: "('a \<Rightarrow> bool) \<Rightarrow> 'a apply_result \<Rightarrow> bool" where
  "ok_or_error P m \<longleftrightarrow> (case m of Inl (Err e) \<Rightarrow> patch_error e | Inl Panic \<Rightarrow> False | Inr a \<Rightarrow> P a)"

lemma ok_or_error_simps [simp]:
  "ok_or_error P (Inr a) = P a" "ok_or_error P (Inl (Err e)) = patch_error e"
  "ok_or_error P (Inl Panic) = False"
  by (simp_all add: ok_or_error_def)

lemma ok_or_error_bind:
  assumes "ok_or_error P m" "\<And>a. m = Inr a \<Longrightarrow> P a \<Longrightarrow> ok_or_error Q (f a)"
  shows "ok_or_error Q (bindR m f)"
  using assms by (cases m) (auto simp: ok_or_error_def split: apply_failure.splits)

lemma ok_or_error_or_err [simp]:
  "patch_error e \<Longrightarrow> ok_or_error P (or_err e m) \<longleftrightarrow> (\<forall>a. m = Some a \<longrightarrow> P a)"
  by (cases m) (auto simp: or_err_def)

lemma ok_or_error_mono: "ok_or_error P m \<Longrightarrow> (\<And>a. P a \<Longrightarrow> Q a) \<Longrightarrow> ok_or_error Q m"
  by (cases m) (auto simp: ok_or_error_def split: apply_failure.splits)

section \<open>Planning\<close>

lemma seek_context_spec:
  assumes "cursor \<le> length lines"
  shows "ok_or_error (\<lambda>c'. cursor \<le> c' \<and> c' \<le> length lines \<and>
      (case ctx of None \<Rightarrow> c' = cursor
       | Some x \<Rightarrow> cursor < c' \<and> (\<exists>mode. line_matches mode (lines ! (c' - 1)) x)))
    (seek_context lines ctx cursor)"
proof (cases ctx)
  case None
  with assms show ?thesis by (simp add: seek_context_def)
next
  case (Some x)
  from seek_sequence_spec [OF assms, of "[x]" False] obtain r where
    r: "seek_sequence lines [x] cursor False = Inr r"
    "\<forall>i. r = Some i \<longrightarrow> cursor \<le> i \<and> i + length [x] \<le> length lines \<and> (\<exists>mode. found_at lines [x] mode i)"
    by blast
  have "line_matches mode (lines ! i) x" if "found_at lines [x] mode i" "i < length lines" for mode i
    using that by (simp add: found_at_def block_matches_def take_Suc hd_drop_conv_nth)
  with Some r show ?thesis
    by (cases r) (auto simp: seek_context_def or_err_def Suc_le_eq)
qed

lemma seek_start_spec:
  assumes "cursor \<le> length lines"
  shows "ok_or_error (\<lambda>s. cursor \<le> s \<and> s + length (ck_old_lines c) \<le> length lines \<and>
      (\<exists>mode. found_at lines (ck_old_lines c) mode s) \<and>
      (ck_old_lines c = [] \<and> ck_context c = None \<longrightarrow> s = length lines))
    (seek_start lines c cursor)"
proof (cases "ck_old_lines c = [] \<and> ck_context c = None")
  case True
  with assms show ?thesis by (simp add: seek_start_def)
next
  case False
  from seek_sequence_spec [OF assms, of "ck_old_lines c" "ck_end_of_file c"] obtain r where
    r: "seek_sequence lines (ck_old_lines c) cursor (ck_end_of_file c) = Inr r"
    "\<forall>i. r = Some i \<longrightarrow> cursor \<le> i \<and> i + length (ck_old_lines c) \<le> length lines \<and>
       (\<exists>mode. found_at lines (ck_old_lines c) mode i)"
    by blast
  have "ok_or_error (\<lambda>s. cursor \<le> s \<and> s + length (ck_old_lines c) \<le> length lines \<and>
      (\<exists>mode. found_at lines (ck_old_lines c) mode s)) (seek_start lines c cursor)"
    using assms False r by (auto simp: seek_start_def)
  then show ?thesis by (rule ok_or_error_mono) (use False in auto)
qed

lemma context_skip_segment:
  assumes "cursor \<le> c'" "c' \<le> length lines"
    and "case ck_context c of None \<Rightarrow> c' = cursor
       | Some x \<Rightarrow> cursor < c' \<and> (\<exists>mode. line_matches mode (lines ! (c' - 1)) x)"
  shows "context_skip c (take (c' - cursor) (drop cursor lines))"
proof (cases "ck_context c")
  case None
  with assms show ?thesis by (simp add: context_skip_def)
next
  case (Some x)
  with assms have "cursor < c'" by simp
  then have ne: "take (c' - cursor) (drop cursor lines) \<noteq> []" using assms(2) by simp
  then have "last (take (c' - cursor) (drop cursor lines)) = lines ! (c' - 1)"
    using assms(2) \<open>cursor < c'\<close> by (simp add: last_conv_nth)
  with Some ne assms(3) show ?thesis by (simp add: context_skip_def)
qed

lemma edits_replace_at:
  assumes "cursor \<le> c'" "c' \<le> s" "s + n \<le> length lines" "n = length (ck_old_lines c)"
    and "context_skip c (take (c' - cursor) (drop cursor lines))"
    and "found_at lines (ck_old_lines c) mode s"
    and "ck_old_lines c = [] \<and> ck_context c = None \<longrightarrow> s = length lines"
    and "edits (drop (s + n) lines) cs out"
  shows "edits (drop cursor lines) (c # cs)
    (take (s - cursor) (drop cursor lines) @ merge_context c (take n (drop s lines)) @ out)"
proof -
  let ?skipped = "take (c' - cursor) (drop cursor lines)" and ?kept = "take (s - c') (drop c' lines)"
  have old: "block_matches mode (take n (drop s lines)) (ck_old_lines c)"
    using assms(4,6) by (simp add: found_at_def)
  have post: "ck_old_lines c = [] \<and> ck_context c = None \<longrightarrow> drop (s + n) lines = []"
    using assms(7) by auto
  have "s - cursor = (c' - cursor) + (s - c')" using assms(1,2) by simp
  then have keep: "take (s - cursor) (drop cursor lines) = ?skipped @ ?kept"
    using assms(1) by (simp only: take_add drop_drop) simp
  have "drop cursor lines = take (s - cursor) (drop cursor lines) @ drop s lines"
    using assms(1-3) by (intro segment_split) auto
  also have "drop s lines = take n (drop s lines) @ drop (s + n) lines"
    using segment_split [of s "s + n" lines] assms(3) by simp
  finally have whole: "drop cursor lines =
      ?skipped @ ?kept @ take n (drop s lines) @ drop (s + n) lines"
    using keep by simp
  show ?thesis
    using edits_replace [OF assms(5) old post assms(8), of ?kept]
    by (subst whole, subst keep) simp
qed

definition planned ::
  "string list \<Rightarrow> codex_update_chunk list \<Rightarrow> nat \<Rightarrow> replacement list \<Rightarrow> bool" where
  "planned lines chunks cursor rs \<longleftrightarrow>
     placed (length lines) cursor rs \<and> edits (drop cursor lines) chunks (assemble lines cursor rs)"

lemma plan_chunks_spec:
  assumes "cursor \<le> length lines" "list_all chunk_wf chunks"
  shows "ok_or_error (\<lambda>all. \<exists>rs. all = acc @ rs \<and> planned lines chunks cursor rs)
    (plan_chunks lines chunks cursor acc)"
  using assms
proof (induction chunks arbitrary: cursor acc)
  case Nil
  then show ?case by (auto simp: planned_def edits_done)
next
  case (Cons c chunks)
  have ctx: "ok_or_error (\<lambda>c'. cursor \<le> c' \<and> c' \<le> length lines \<and>
      context_skip c (take (c' - cursor) (drop cursor lines))) (seek_context lines (ck_context c) cursor)"
    by (rule ok_or_error_mono [OF seek_context_spec [OF Cons.prems(1)]])
       (auto intro: context_skip_segment)
  show ?case
    unfolding plan_chunks.simps
  proof (rule ok_or_error_bind [OF ctx], goal_cases)
    case (1 c')
    then have c': "cursor \<le> c'" "c' \<le> length lines"
      "context_skip c (take (c' - cursor) (drop cursor lines))" by auto
    show ?case
    proof (cases "ck_old_lines c = [] \<and> ck_new_lines c = []")
      case True
      have skip: "planned lines (c # chunks) cursor rs" if "planned lines chunks c' rs" for rs
        using that True c' assemble_skip [of cursor c' lines rs] placed_mono [of _ c' rs cursor]
          edits_skip [OF c'(3), of "drop c' lines" chunks "assemble lines c' rs"]
          segment_split [of cursor c' lines]
        by (simp add: planned_def)
      have "list_all chunk_wf chunks" using Cons.prems(2) by simp
      from Cons.IH [OF c'(2) this, of acc] True show ?thesis
        by (auto elim!: ok_or_error_mono dest: skip)
    next
      case False
      have wf: "chunk_wf c" "list_all chunk_wf chunks" using Cons.prems(2) by auto
      let ?n = "length (ck_old_lines c)"
      have "ok_or_error (\<lambda>all. \<exists>rs. all = acc @ rs \<and> planned lines (c # chunks) cursor rs)
        (bindR (seek_start lines c c') (\<lambda>start.
         bindR (keep_context lines start (ck_context_line_indices c) (ck_new_lines c)) (\<lambda>new_lines.
         bindR (or_err (patch_too_large ''patch line position overflowed'') (checked_add start ?n)) (\<lambda>cursor''.
         plan_chunks lines chunks cursor''
           (acc @ [\<lparr>rp_start = start, rp_old_len = ?n, rp_new_lines = new_lines\<rparr>])))))"
      proof (rule ok_or_error_bind [OF seek_start_spec [OF c'(2)]], goal_cases)
        case (1 start)
        then obtain mode where s: "c' \<le> start" "start + ?n \<le> length lines"
          "found_at lines (ck_old_lines c) mode start"
          "ck_old_lines c = [] \<and> ck_context c = None \<longrightarrow> start = length lines" by blast
        let ?new = "merge_context c (take ?n (drop start lines))"
        let ?r = "\<lparr>rp_start = start, rp_old_len = ?n, rp_new_lines = ?new\<rparr>"
        have step: "planned lines (c # chunks) cursor (?r # rs)" if "planned lines chunks (start + ?n) rs" for rs
          using that s(1,2) c'(1) edits_replace_at [OF c'(1) s(1,2) refl c'(3) s(3,4)]
          by (simp add: planned_def)
        have IH: "ok_or_error (\<lambda>all. \<exists>rs. all = (acc @ [?r]) @ rs \<and> planned lines chunks (start + ?n) rs)
            (plan_chunks lines chunks (start + ?n) (acc @ [?r]))"
          by (rule Cons.IH [OF s(2) wf(2)])
        have "ok_or_error (\<lambda>all. \<exists>rs. all = acc @ rs \<and> planned lines (c # chunks) cursor rs)
            (plan_chunks lines chunks (start + ?n) (acc @ [?r]))"
          by (rule ok_or_error_mono [OF IH]) (use step in fastforce)
        then show ?case
          by (simp add: keep_context_chunk [OF wf(1) s(2)] checked_add_def or_err_def)
      qed
      with False show ?thesis by (simp only: if_False)
    qed
  qed
qed

section \<open>Rendering\<close>

lemma extend_line_spec:
  "ok_or_error (\<lambda>b. b = out @ line @ [LF] \<and> length b \<le> m) (lift_err (extend_line out line m))"
  by (auto simp: extend_line_def lift_err_def ok_or_def checked_add_def bindR_def split: if_splits)

lemma lift_err_bind: "lift_err (bindR x f) = bindR (lift_err x) (\<lambda>a. lift_err (f a))"
  by (cases x) (auto simp: lift_err_def)

lemma lift_err_Inr [simp]: "lift_err (Inr a) = Inr a"
  by (simp add: lift_err_def)

lemma extend_lines_spec:
  "ok_or_error (\<lambda>b. b = out @ file_text ls \<and> (length out \<le> m \<longrightarrow> length b \<le> m))
     (lift_err (extend_lines out ls m))"
proof (induction ls arbitrary: out)
  case (Cons l ls)
  show ?case
    unfolding extend_lines.simps lift_err_bind
    by (rule ok_or_error_bind [OF extend_line_spec])
       (rule ok_or_error_mono [OF Cons.IH], auto)
qed simp

lemma render_spec:
  assumes "placed (length lines) copied rs"
  shows "ok_or_error (\<lambda>b. b = out @ file_text (assemble lines copied rs) \<and> (length out \<le> m \<longrightarrow> length b \<le> m))
    (render_replacements lines rs m copied out)"
  using assms
proof (induction rs arbitrary: copied out)
  case Nil
  then show ?case using extend_lines_spec [of out "drop copied lines" m] by (simp add: slice_def)
next
  case (Cons r rs)
  let ?before = "take (rp_start r - copied) (drop copied lines)"
  have slice: "slice lines copied (rp_start r) = Inr ?before"
    using Cons.prems by (simp add: slice_def)
  show ?case
    unfolding render_replacements.simps slice bindR_simps
  proof (rule ok_or_error_bind [OF extend_lines_spec], rule ok_or_error_bind [OF extend_lines_spec],
      rule ok_or_error_bind [where P = "\<lambda>c. c = rp_start r + rp_old_len r"], goal_cases)
    case (1 out1 out2)
    show ?case by (simp add: checked_add_eq_Some)
  next
    case (2 out1 out2 c)
    have "placed (length lines) c rs" using Cons.prems 2 by simp
    from Cons.IH [OF this, of out2] show ?case
      by (rule ok_or_error_mono) (use 2 in auto)
  qed
qed

lemma apply_update_spec:
  assumes "list_all chunk_wf (cf_chunks p)"
  shows "ok_or_error (\<lambda>f. \<exists>out. f = Write_File (file_text out) \<and> valid_utf8 base \<and>
      edits (base_lines base) (cf_chunks p) out \<and> length (file_text out) \<le> m \<and>
      (cf_move_path p = None \<longrightarrow> file_text out \<noteq> base))
    (apply_update base p m)"
proof -
  let ?lines = "base_lines base"
  have plan: "ok_or_error (\<lambda>rs. planned ?lines (cf_chunks p) 0 rs) (plan_chunks ?lines (cf_chunks p) 0 [])"
    by (rule ok_or_error_mono [OF plan_chunks_spec [OF _ assms]]) auto
  show ?thesis
  proof (cases "NUL \<in> set base \<or> \<not> valid_utf8 base")
    case True
    then show ?thesis by (auto simp: apply_update_def)
  next
    case False
    have "ok_or_error (\<lambda>f. \<exists>out. f = Write_File (file_text out) \<and> valid_utf8 base \<and>
        edits ?lines (cf_chunks p) out \<and> length (file_text out) \<le> m \<and>
        (cf_move_path p = None \<longrightarrow> file_text out \<noteq> base))
      (bindR (plan_chunks ?lines (cf_chunks p) 0 []) (\<lambda>rs.
        bindR (render_replacements ?lines rs m 0 []) (\<lambda>output.
          if output = base \<and> cf_move_path p = None then
            Inl (Err (write_conflict ''patch update would leave the file unchanged''))
          else Inr (Write_File output))))"
    proof (rule ok_or_error_bind [OF plan], goal_cases)
      case (1 rs)
      then have rs: "placed (length ?lines) 0 rs" "edits ?lines (cf_chunks p) (assemble ?lines 0 rs)"
        by (auto simp: planned_def)
      show ?case
        by (rule ok_or_error_bind [OF render_spec [OF rs(1)]]) (use rs(2) False in auto)
    qed
    with False show ?thesis by (simp add: apply_update_def Let_def)
  qed
qed

section \<open>Diffs\<close>

text \<open>A diff: runs of kept lines with a hunk after each, and the lines after the last hunk.\<close>

fun diff_old :: "(string list \<times> hunk_line list) list \<Rightarrow> string list \<Rightarrow> string list" where
  "diff_old [] tail = tail"
| "diff_old ((kept, ls) # ds) tail = kept @ old_of ls @ diff_old ds tail"

fun diff_new :: "(string list \<times> hunk_line list) list \<Rightarrow> string list \<Rightarrow> string list" where
  "diff_new [] tail = tail"
| "diff_new ((kept, ls) # ds) tail = kept @ new_of ls @ diff_new ds tail"

text \<open>No hunk's old side occurs in the file before its place, after the previous hunk.\<close>

fun unambiguous :: "(string list \<times> hunk_line list) list \<Rightarrow> string list \<Rightarrow> bool" where
  "unambiguous [] tail \<longleftrightarrow> True"
| "unambiguous ((kept, ls) # ds) tail \<longleftrightarrow>
     old_of ls \<noteq> [] \<and>
     (\<forall>i < length kept. \<not> found_at (diff_old ((kept, ls) # ds) tail) (old_of ls) Exact i) \<and>
     unambiguous ds tail"

definition plain_hunk :: "hunk_line list \<Rightarrow> hunk" where
  "plain_hunk ls = \<lparr>hk_header = Some None, hk_lines = ls, hk_eof = None\<rparr>"

definition diff_chunks :: "(string list \<times> hunk_line list) list \<Rightarrow> codex_update_chunk list" where
  "diff_chunks ds = map (\<lambda>(kept, ls). denote_hunk (plain_hunk ls)) ds"

lemma find_upt:
  assumes "a \<le> b" "b < n" "P b" "\<And>i. a \<le> i \<Longrightarrow> i < b \<Longrightarrow> \<not> P i"
  shows "List.find P [a..<n] = Some b"
proof -
  have "[a..<n] = [a..<b] @ b # [Suc b..<n]"
    using assms(1,2) by (metis less_imp_le_nat upt_add_eq_append upt_conv_Cons le_Suc_ex)
  moreover have "List.find P [a..<b] = None" using assms(4) by (auto simp: find_None_iff)
  moreover have "List.find P (xs @ ys) = (case List.find P xs of None \<Rightarrow> List.find P ys | Some x \<Rightarrow> Some x)" for xs ys
    by (induction xs) auto
  ultimately show ?thesis using assms(3) by simp
qed

lemma merge_exact:
  "(\<forall>(i, j) \<in> set ixs. j < length new \<and> new ! j = old ! i) \<Longrightarrow>
     fold (\<lambda>(i, j) new. new[j := old ! i]) ixs new = new"
proof (induction ixs)
  case (Cons ix ixs)
  obtain i j where ix: "ix = (i, j)" by force
  with Cons.prems have "new[j := old ! i] = new" by (auto simp: list_update_same_conv)
  with ix Cons show ?case by simp
qed simp

lemma merge_context_denote: "merge_context (denote_hunk h) (old_of (hk_lines h)) = new_of (hk_lines h)"
  using keep_indices_bounds [of _ _ 0 0 "hk_lines h"]
  by (auto simp: merge_context_def denote_hunk_def intro!: merge_exact)

lemma found_at_drop: "found_at lines needle mode (cursor + i) = found_at (drop cursor lines) needle mode i"
  by (simp add: found_at_def add.commute)

lemma seek_sequence_exact:
  assumes "needle \<noteq> []" "start \<le> i" "i + length needle \<le> length lines"
    and "found_at lines needle Exact i"
    and "\<And>k. start \<le> k \<Longrightarrow> k < i \<Longrightarrow> \<not> found_at lines needle Exact k"
  shows "seek_sequence lines needle start False = Inr (Some i)"
proof -
  let ?last = "length lines - length needle"
  have "List.find (found_at lines needle Exact) [start..<Suc ?last] = Some i"
    using assms by (intro find_upt) auto
  then have "seek_candidates lines needle [start..<Suc ?last] = Inr (Some i)"
    using assms(3) by (intro seek_candidates_exact) auto
  moreover have "\<not> ?last < start" "length needle \<le> length lines" using assms(2,3) by linarith+
  ultimately show ?thesis
    using assms(1) by (simp add: seek_sequence_def checked_sub_def del: upt_Suc)
qed

lemma list_all2_exact: "list_all2 (line_matches Exact) xs ys \<longleftrightarrow> xs = ys"
  by (simp add: list_all2_eq [symmetric] fun_eq_iff list_all2_conv_all_nth list_eq_iff_nth_eq)

lemma diff_old_length: "drop cursor lines = diff_old ((kept, ls) # ds) tail \<Longrightarrow>
    cursor \<le> length lines \<Longrightarrow>
    drop (cursor + length kept + length (old_of ls)) lines = diff_old ds tail \<and>
    take (length (old_of ls)) (drop (cursor + length kept) lines) = old_of ls \<and>
    take (length kept) (drop cursor lines) = kept \<and>
    cursor + length kept + length (old_of ls) \<le> length lines"
proof (intro conjI)
  assume d: "drop cursor lines = diff_old ((kept, ls) # ds) tail" and c: "cursor \<le> length lines"
  from d have "drop (length kept + length (old_of ls)) (drop cursor lines) = diff_old ds tail" by simp
  then show "drop (cursor + length kept + length (old_of ls)) lines = diff_old ds tail"
    by (simp add: ac_simps)
  from d have "take (length (old_of ls)) (drop (length kept) (drop cursor lines)) = old_of ls" by simp
  then show "take (length (old_of ls)) (drop (cursor + length kept) lines) = old_of ls"
    by (simp add: ac_simps)
  from d show "take (length kept) (drop cursor lines) = kept" by simp
  from arg_cong [OF d, of length] c show "cursor + length kept + length (old_of ls) \<le> length lines" by simp
qed

lemma plan_diff:
  assumes "drop cursor lines = diff_old ds tail" "cursor \<le> length lines"
    and "unambiguous ds tail" "length lines \<le> u64_max"
  shows "\<exists>rs. plan_chunks lines (diff_chunks ds) cursor acc = Inr (acc @ rs) \<and>
    placed (length lines) cursor rs \<and> assemble lines cursor rs = diff_new ds tail"
  using assms
proof (induction ds arbitrary: cursor acc)
  case Nil
  then show ?case by (auto simp: diff_chunks_def)
next
  case (Cons d ds)
  obtain kept ls where d: "d = (kept, ls)" by force
  note pos = diff_old_length [OF Cons.prems(1) [unfolded d] Cons.prems(2)]
  let ?s = "cursor + length kept" and ?n = "length (old_of ls)"
  let ?c = "denote_hunk (plain_hunk ls)"
  let ?r = "\<lparr>rp_start = ?s, rp_old_len = ?n, rp_new_lines = new_of ls\<rparr>"
  have c: "ck_context ?c = None" "ck_old_lines ?c = old_of ls" "ck_new_lines ?c = new_of ls"
    "\<not> ck_end_of_file ?c"
    by (simp_all add: denote_hunk_def plain_hunk_def)
  have ne: "old_of ls \<noteq> []" using Cons.prems(3) d by simp
  have seek: "seek_sequence lines (old_of ls) cursor False = Inr (Some ?s)"
  proof (rule seek_sequence_exact)
    show "found_at lines (old_of ls) Exact ?s"
      using pos by (simp add: found_at_def block_matches_def list_all2_exact)
    show "\<not> found_at lines (old_of ls) Exact k" if "cursor \<le> k" "k < ?s" for k
      using Cons.prems(1,3) d that found_at_drop [of lines "old_of ls" Exact cursor "k - cursor"]
      by auto
  qed (use ne pos in auto)
  have keep: "keep_context lines ?s (ck_context_line_indices ?c) (new_of ls) = Inr (new_of ls)"
    using keep_context_chunk [OF denote_hunk_wf, of ?s "plain_hunk ls" lines] c pos
      merge_context_denote [of "plain_hunk ls"]
    by (simp add: plain_hunk_def denote_hunk_def)
  have add: "checked_add ?s ?n = Some (?s + ?n)"
    using pos Cons.prems(4) by (simp add: checked_add_def)
  have "unambiguous ds tail" using Cons.prems(3) d by simp
  with Cons.IH [of "?s + ?n" "acc @ [?r]"] pos Cons.prems(4) obtain rs where
    rs: "plan_chunks lines (diff_chunks ds) (?s + ?n) (acc @ [?r]) = Inr ((acc @ [?r]) @ rs)"
      "placed (length lines) (?s + ?n) rs" "assemble lines (?s + ?n) rs = diff_new ds tail"
    by blast
  have "plan_chunks lines (diff_chunks (d # ds)) cursor acc = Inr (acc @ ?r # rs)"
    using rs(1) c ne seek keep add
    by (simp add: d diff_chunks_def seek_context_def seek_start_def or_err_def)
  with rs(2,3) pos d show ?case by (intro exI [of _ "?r # rs"]) simp
qed

lemma extend_lines_ok:
  assumes "length (out @ file_text ls) \<le> m" "m \<le> u64_max"
  shows "extend_lines out ls m = Inr (out @ file_text ls)"
  using assms
proof (induction ls arbitrary: out)
  case (Cons l ls)
  then have "extend_line out l m = Inr (out @ l @ [LF])" by (simp add: extend_line_Inr)
  with Cons show ?case by simp
qed simp

lemma render_ok:
  assumes "placed (length lines) copied rs" "length lines \<le> u64_max" "m \<le> u64_max"
    and "length (out @ file_text (assemble lines copied rs)) \<le> m"
  shows "render_replacements lines rs m copied out = Inr (out @ file_text (assemble lines copied rs))"
  using assms
proof (induction rs arbitrary: copied out)
  case Nil
  then show ?case by (simp add: slice_def extend_lines_ok)
next
  case (Cons r rs)
  let ?before = "take (rp_start r - copied) (drop copied lines)"
  have slice: "slice lines copied (rp_start r) = Inr ?before"
    using Cons.prems(1) by (simp add: slice_def)
  have add: "checked_add (rp_start r) (rp_old_len r) = Some (rp_start r + rp_old_len r)"
    using Cons.prems(1,2) by (simp add: checked_add_def)
  have "extend_lines out ?before m = Inr (out @ file_text ?before)"
    "extend_lines (out @ file_text ?before) (rp_new_lines r) m =
      Inr ((out @ file_text ?before) @ file_text (rp_new_lines r))"
    using Cons.prems(3,4) by (intro extend_lines_ok; simp)+
  with Cons slice add show ?case by (simp add: or_err_def)
qed

lemma base_lines_file_text:
  assumes "\<forall>l \<in> set ls. LF \<notin> set l"
  shows "base_lines (file_text ls) = ls"
proof -
  have "split_on LF (file_text ls) = ls @ [[]]"
    using assms by (induction ls) (auto simp: split_on_append)
  then show ?thesis by (simp add: base_lines_def)
qed

lemma length_file_text_ge: "length ls \<le> length (file_text ls)"
  by (induction ls) auto

lemma parsed_file_wf:
  assumes "parse_codex_patch input expected = Inr patches" "p \<in> set patches"
  shows "file_wf p"
proof -
  from parse_codex_patch_sound [OF assms(1)] obtain eid secs where
    "patch_ok expected eid secs" "patches = map denote_section secs" by blast
  with assms(2) show ?thesis by (auto simp: patch_ok_def list_all_iff denote_section_wf)
qed

lemma apply_codex_file_total:
  assumes "file_wf p"
  shows "ok_or_error (\<lambda>f. True) (apply_codex_file base p maximum)"
proof -
  from assms have chunks: "list_all chunk_wf (cf_chunks p)" by (simp add: file_wf_def)
  show ?thesis
  proof (cases "cf_operation p")
    case Create_File
    then show ?thesis
      by (auto simp: apply_codex_file_def intro!: ok_or_error_bind [where P = "\<lambda>_. True"])
  next
    case Update_File
    then show ?thesis
      by (auto simp: apply_codex_file_def intro!: ok_or_error_bind [where P = "\<lambda>_. True"]
          ok_or_error_mono [OF apply_update_spec [OF chunks]])
  next
    case Delete_File
    then show ?thesis by (simp add: apply_codex_file_def)
  qed
qed

section \<open>Properties\<close>

text \<open>Applying never panics. For a file of a patch the parser accepted, and any file content
  and size limit, applying it returns a file or an error with one of three codes; no slice and
  no index is ever out of range.\<close>

theorem apply_codex_file_no_panic:
  assumes "parse_codex_patch input expected = Inr patches" and "p \<in> set patches"
  shows "ok_or_error (\<lambda>f. True) (apply_codex_file base p maximum)"
  using parsed_file_wf [OF assms] by (rule apply_codex_file_total)

lemma apply_codex_file_no_panic_witness:
  "ok_or_error (\<lambda>f. True) (apply_codex_file (Some ''anything'') (hd sample_parsed) 3)"
  by (rule apply_codex_file_no_panic [OF sample_patch_parses]) (simp add: sample_parsed_def)

text \<open>C31: A successful update edits exactly where the chunks match. The lines of the file split,
  in the order of the chunks, into runs that are kept and runs that match the old side of a
  chunk under one of the comparison modes; only the latter are replaced, by the new side with
  its context lines taken from the file. The result is made of whole lines, fits the limit and,
  unless the file is also moved, differs from the base.\<close>

theorem apply_update_edits:
  assumes "parse_codex_patch input expected = Inr patches" "p \<in> set patches"
    and "cf_operation p = Update_File"
    and "apply_codex_file base p maximum = Inr result"
  shows "\<exists>content out. base = Some content \<and> result = Write_File (file_text out) \<and>
    edits (base_lines content) (cf_chunks p) out \<and> length (file_text out) \<le> maximum \<and>
    (cf_move_path p = None \<longrightarrow> file_text out \<noteq> content)"
proof -
  from parsed_file_wf [OF assms(1,2)] have chunks: "list_all chunk_wf (cf_chunks p)" by (simp add: file_wf_def)
  have "\<exists>content. base = Some content \<and> apply_update content p maximum = Inr result"
    using assms(3,4) by (cases base) (simp_all add: apply_codex_file_def or_err_def)
  then obtain content where
    c: "base = Some content" "apply_update content p maximum = Inr result" by blast
  have "ok_or_error (\<lambda>f. \<exists>out. f = Write_File (file_text out) \<and> valid_utf8 content \<and>
      edits (base_lines content) (cf_chunks p) out \<and> length (file_text out) \<le> maximum \<and>
      (cf_move_path p = None \<longrightarrow> file_text out \<noteq> content)) (Inr result)"
    using apply_update_spec [OF chunks, of content maximum] unfolding c(2) .
  then obtain out where
    "result = Write_File (file_text out)" "edits (base_lines content) (cf_chunks p) out"
    "length (file_text out) \<le> maximum" "cf_move_path p = None \<longrightarrow> file_text out \<noteq> content"
    unfolding ok_or_error_simps by (elim exE conjE) (rule that)
  with c(1) show ?thesis by (intro exI conjI)
qed

lemma sample_apply:
  "apply_codex_file (Some (''k'' @ [LF] @ ''x'' @ [LF])) (hd sample_parsed) 100 =
     Inr (Write_File (''k'' @ [LF] @ ''y'' @ [LF]))"
  by (simp add: sample_parsed_def apply_codex_file_def or_err_def apply_update_def valid_utf8_ascii
      byte_def base_lines_def seek_context_def seek_start_def seek_sequence_def checked_sub_def
      sequence_matches_found seek_candidates_def found_at_def block_matches_def checked_add_def
      u64_max_def slice_def extend_line_def Let_def upt_rec)

lemma apply_update_edits_witness:
  "\<exists>out. ''k'' @ [LF] @ ''y'' @ [LF] = file_text out \<and>
    edits (base_lines (''k'' @ [LF] @ ''x'' @ [LF])) (cf_chunks (hd sample_parsed)) out \<and>
    length (file_text out) \<le> 100 \<and> file_text out \<noteq> ''k'' @ [LF] @ ''x'' @ [LF]"
proof -
  have "hd sample_parsed \<in> set sample_parsed" "cf_operation (hd sample_parsed) = Update_File"
    "cf_move_path (hd sample_parsed) = None" by (simp_all add: sample_parsed_def)
  with apply_update_edits [OF sample_patch_parses _ _ sample_apply] show ?thesis by auto
qed

lemma apply_update_diff:
  assumes "base = file_text (diff_old ds tail)" and "unambiguous ds tail"
    and "\<forall>l \<in> set (diff_old ds tail). LF \<notin> set l"
    and "valid_utf8 base" "NUL \<notin> set base" "cf_chunks p = diff_chunks ds"
    and "file_text (diff_new ds tail) \<noteq> base \<or> cf_move_path p \<noteq> None"
    and "length (file_text (diff_new ds tail)) \<le> maximum" "length base \<le> u64_max" "maximum \<le> u64_max"
  shows "apply_update base p maximum = Inr (Write_File (file_text (diff_new ds tail)))"
proof -
  let ?lines = "diff_old ds tail"
  have lines: "base_lines base = ?lines" using assms(1,3) by (simp add: base_lines_file_text)
  have len: "length ?lines \<le> u64_max"
    using length_file_text_ge [of ?lines] assms(9) [unfolded assms(1)] by (rule le_trans)
  obtain rs where rs: "plan_chunks ?lines (diff_chunks ds) 0 [] = Inr rs"
    "placed (length ?lines) 0 rs" "assemble ?lines 0 rs = diff_new ds tail"
    using plan_diff [of 0 ?lines ds tail "[]"] assms(2) len by auto
  have "render_replacements ?lines rs maximum 0 [] = Inr (file_text (diff_new ds tail))"
    using render_ok [OF rs(2) len assms(10), of "[]"] rs(3) assms(8) by simp
  with lines rs(1) assms(4-7) show ?thesis by (auto simp: apply_update_def)
qed

text \<open>C30: Applying a diff produces the new file. If the file is the old side of a diff whose
  hunks are each located by their old lines (no earlier exact occurrence after the previous
  hunk), then applying the hunks writes the new side of the diff.\<close>

theorem apply_diff:
  assumes "base = file_text (diff_old ds tail)" and "unambiguous ds tail"
    and "\<forall>l \<in> set (diff_old ds tail). LF \<notin> set l"
    and "valid_utf8 base" "NUL \<notin> set base"
    and "cf_operation p = Update_File" "cf_chunks p = diff_chunks ds"
    and "file_text (diff_new ds tail) \<noteq> base \<or> cf_move_path p \<noteq> None"
    and "length (file_text (diff_new ds tail)) \<le> maximum" "length base \<le> u64_max" "maximum \<le> u64_max"
  shows "apply_codex_file (Some base) p maximum = Inr (Write_File (file_text (diff_new ds tail)))"
  using apply_update_diff [OF assms(1-5,7-11)] assms(6) by (simp add: apply_codex_file_def or_err_def)

lemma sample_diff:
  "diff_chunks [([], [Keep ''k'', Drop ''x'', Insert ''y''])] = cf_chunks (hd sample_parsed)"
  by (simp add: diff_chunks_def plain_hunk_def denote_hunk_def sample_parsed_def)

lemma apply_diff_witness:
  "apply_codex_file (Some (''k'' @ [LF] @ ''x'' @ [LF])) (hd sample_parsed) 100 =
     Inr (Write_File (''k'' @ [LF] @ ''y'' @ [LF]))"
  using apply_diff [of "''k'' @ [LF] @ ''x'' @ [LF]" "[([], [Keep ''k'', Drop ''x'', Insert ''y''])]" "[]"
      "hd sample_parsed" 100, OF _ _ _ _ _ _ sample_diff [symmetric]]
  by (simp add: valid_utf8_ascii byte_def u64_max_def sample_parsed_def)

end
