(* ===== verification/Edit_Cache.thy ===== *)
theory Edit_Cache
  imports Bridge_Prelude "HOL-Library.AList" "HOL-Library.List_Lexorder" "HOL-Library.Char_ord"
begin

text \<open>
  The write-behind cache of remote files (\<open>src/remote/edit_cache.rs\<close>).  The source guards one
  \<open>CacheState\<close> by a mutex and releases it around every call of the backend; each section
  between two such calls is one function on the state here, so that the sections can be
  interleaved (theory \<open>Edit_System\<close>).

  A \<open>HashMap\<close> is an association list whose order stands for the unspecified iteration order;
  an instant is a natural number of milliseconds, given by the caller (\<open>now\<close>); the hex digest
  of the sha2 crate is a parameter (\<open>sha\<close>); \<open>Option::expect\<close> that fails is the value \<open>None\<close>.
\<close>

section \<open>Data\<close>

record cache_key =
  key_host :: string
  key_path :: string

datatype remote_base = Base_Missing | Base_Regular string nat

datatype desired_state = Present string | Deleted

datatype generation = Generation nat

instantiation generation :: linorder
begin

fun less_eq_generation :: "generation \<Rightarrow> generation \<Rightarrow> bool" where
  "less_eq_generation (Generation a) (Generation b) \<longleftrightarrow> a \<le> b"

fun less_generation :: "generation \<Rightarrow> generation \<Rightarrow> bool" where
  "less_generation (Generation a) (Generation b) \<longleftrightarrow> a < b"

instance
proof
  fix x y z :: generation
  show "x < y \<longleftrightarrow> x \<le> y \<and> \<not> y \<le> x" by (cases x; cases y) auto
  show "x \<le> x" by (cases x) auto
  show "x \<le> y \<Longrightarrow> y \<le> z \<Longrightarrow> x \<le> z" by (cases x; cases y; cases z) auto
  show "x \<le> y \<Longrightarrow> y \<le> x \<Longrightarrow> x = y" by (cases x; cases y) auto
  show "x \<le> y \<or> y \<le> x" by (cases x; cases y) auto
qed

end

record remote_snapshot =
  sn_base :: remote_base
  sn_desired :: desired_state

record cached_entry =
  ce_base :: remote_base
  ce_desired :: desired_state
  ce_desired_sha256 :: "string option"
  ce_generation :: generation

datatype load_entry_disposition = Cached cached_entry | Load_ImmediateWriteRequired

record prepared_edit =
  pe_key :: cache_key
  pe_expected_generation :: generation
  pe_desired :: desired_state
  pe_payload_bytes :: nat

record commit_item =
  ci_key :: cache_key
  ci_base :: remote_base
  ci_desired :: desired_state
  ci_desired_sha256 :: "string option"
  ci_generation :: generation

record commit_success =
  cs_key :: cache_key
  cs_generation :: generation
  cs_base :: remote_base

datatype edit_error_kind = Transient | Conflict | OutcomeUnknown | Permanent

datatype edit_error_code =
    Edit_HostKeyUnknown | Edit_AuthRequired | Edit_ConnectTimeout | Edit_RemoteCapabilityMissing
  | Edit_RemoteAbsolutePathRequired | Edit_PathOutsideRoot | Edit_ReadOnlyHost | Edit_WriteConflict
  | Edit_ReadConflict | Edit_NotFound | Edit_PermissionDenied | Edit_NotDirectory
  | Edit_MutationOutcomeUnknown | Edit_OutputLimit | Edit_RequestTooLarge | Edit_ProtocolError
  | Edit_Cancelled | Edit_CommandTimeout | Edit_RemoteExit | Edit_InvalidConfig
  | Edit_InvalidArgument | Edit_Io

record edit_error =
  xe_kind :: edit_error_kind
  xe_code :: "edit_error_code option"
  xe_message :: string

record commit_batch_outcome =
  co_successes :: "commit_success list"
  co_error :: "edit_error option"

record edit_cache_config =
  cfg_flush_delay :: nat
  cfg_flush_threshold_bytes :: nat
  cfg_max_bytes :: nat

datatype batch_mutation_disposition = Buffered "generation list" | Batch_ImmediateWriteRequired

record host_edit_status =
  st_pending_paths :: "string list"
  st_outcome_unknown_paths :: "string list"
  st_pending_payload_bytes :: nat
  st_cached_bytes :: nat

record discard_host_edits_result =
  dh_discarded_paths :: "string list"
  dh_discarded_payload_bytes :: nat
  dh_had_outcome_unknown :: bool

record entry =
  en_base :: remote_base
  en_desired :: desired_state
  en_desired_sha256 :: "string option"
  en_generation :: generation
  en_dirty :: bool
  en_in_flight :: "generation option"
  en_conflict :: "edit_error option"
  en_lru_sequence :: nat

record host_state =
  hs_entries :: "(string \<times> entry) list"
  hs_dirty_payload_bytes :: nat
  hs_first_dirty_deadline :: "nat option"
  hs_retry_deadline :: "nat option"
  hs_retry_attempt :: nat
  hs_last_transient :: "edit_error option"
  hs_timer_running :: bool

record cache_state =
  st_hosts :: "(string \<times> host_state) list"
  st_total_bytes :: nat
  st_lru_sequence :: nat
  st_next_generation :: nat
  st_shutting_down :: bool

type_synonym 'a edit_result = "edit_error + 'a"

section \<open>Small helpers\<close>

definition permanent_error :: "string \<Rightarrow> edit_error" where
  "permanent_error message = \<lparr>xe_kind = Permanent, xe_code = None, xe_message = message\<rparr>"

definition transient_error :: "string \<Rightarrow> edit_error" where
  "transient_error message = \<lparr>xe_kind = Transient, xe_code = None, xe_message = message\<rparr>"

definition retry_delay :: "nat \<Rightarrow> nat" where
  "retry_delay attempt = [1000, 2000, 4000, 8000, 16000, 30000] ! min attempt 5"

fun desired_size :: "desired_state \<Rightarrow> nat" where
  "desired_size (Present bytes) = length bytes"
| "desired_size Deleted = 0"

fun desired_sha256 :: "(string \<Rightarrow> string) \<Rightarrow> desired_state \<Rightarrow> string option" where
  "desired_sha256 sha (Present bytes) = Some (sha bytes)"
| "desired_sha256 sha Deleted = None"

definition snapshot_desired_sha256 :: "(string \<Rightarrow> string) \<Rightarrow> remote_snapshot \<Rightarrow> string option" where
  "snapshot_desired_sha256 sha snapshot =
     (case (sn_base snapshot, sn_desired snapshot) of
        (Base_Regular sha256 _, Present _) \<Rightarrow> Some sha256
      | (_, desired) \<Rightarrow> desired_sha256 sha desired)"

definition new_cache :: cache_state where
  "new_cache = \<lparr>st_hosts = [], st_total_bytes = 0, st_lru_sequence = 0, st_next_generation = 1,
                st_shutting_down = False\<rparr>"

definition new_host :: host_state where
  "new_host = \<lparr>hs_entries = [], hs_dirty_payload_bytes = 0, hs_first_dirty_deadline = None,
               hs_retry_deadline = None, hs_retry_attempt = 0, hs_last_transient = None,
               hs_timer_running = False\<rparr>"

definition host_dirty :: "host_state \<Rightarrow> bool" where
  "host_dirty h \<longleftrightarrow> list_ex (\<lambda>(_, e). en_dirty e) (hs_entries h)"

definition host_conflict :: "host_state \<Rightarrow> bool" where
  "host_conflict h \<longleftrightarrow> list_ex (\<lambda>(_, e). en_conflict e \<noteq> None) (hs_entries h)"

text \<open>\<open>host_state_mut\<close> as far as it creates the host, and the two ways to reach into the maps.\<close>

definition ensure_host :: "string \<Rightarrow> cache_state \<Rightarrow> cache_state" where
  "ensure_host host s =
     (case map_of (st_hosts s) host of
        Some _ \<Rightarrow> s
      | None \<Rightarrow> s\<lparr>st_hosts := st_hosts s @ [(host, new_host)]\<rparr>)"

definition update_host :: "string \<Rightarrow> (host_state \<Rightarrow> host_state) \<Rightarrow> cache_state \<Rightarrow> cache_state" where
  "update_host host f s =
     s\<lparr>st_hosts := map (\<lambda>(k, h). (k, if k = host then f h else h)) (st_hosts s)\<rparr>"

definition get_entry :: "cache_state \<Rightarrow> string \<Rightarrow> string \<Rightarrow> entry option" where
  "get_entry s host path =
     Option.bind (map_of (st_hosts s) host) (\<lambda>h. map_of (hs_entries h) path)"

definition update_entry ::
  "string \<Rightarrow> string \<Rightarrow> (entry \<Rightarrow> entry) \<Rightarrow> cache_state \<Rightarrow> cache_state" where
  "update_entry host path f s =
     update_host host (\<lambda>h. h\<lparr>hs_entries :=
       map (\<lambda>(p, e). (p, if p = path then f e else e)) (hs_entries h)\<rparr>) s"

definition insert_entry :: "string \<Rightarrow> string \<Rightarrow> entry \<Rightarrow> cache_state \<Rightarrow> cache_state" where
  "insert_entry host path e s =
     update_host host (\<lambda>h. h\<lparr>hs_entries := AList.update path e (hs_entries h)\<rparr>) (ensure_host host s)"

definition remove_entry :: "string \<Rightarrow> string \<Rightarrow> cache_state \<Rightarrow> cache_state" where
  "remove_entry host path s =
     update_host host (\<lambda>h. h\<lparr>hs_entries := AList.delete path (hs_entries h)\<rparr>) s"

definition next_lru :: "cache_state \<Rightarrow> nat \<times> cache_state" where
  "next_lru s =
     (let n = saturating_add (st_lru_sequence s) 1 in (n, s\<lparr>st_lru_sequence := n\<rparr>))"

section \<open>Making room\<close>

definition evictable :: "cache_key list \<Rightarrow> string \<Rightarrow> string \<Rightarrow> entry \<Rightarrow> bool" where
  "evictable protected host path e \<longleftrightarrow>
     \<not> list_ex (\<lambda>k. key_host k = host \<and> key_path k = path) protected \<and>
     \<not> en_dirty e \<and> en_in_flight e = None"

definition eviction_candidates ::
  "cache_key list \<Rightarrow> cache_state \<Rightarrow> (nat \<times> string \<times> string) list" where
  "eviction_candidates protected s =
     concat (map (\<lambda>(host, h).
       map (\<lambda>(path, e). (en_lru_sequence e, host, path))
         (filter (\<lambda>(path, e). evictable protected host path e) (hs_entries h))) (st_hosts s))"

definition evict :: "string \<Rightarrow> string \<Rightarrow> cache_state \<Rightarrow> cache_state" where
  "evict host path s =
     (remove_entry host path s)\<lparr>st_total_bytes :=
        (case get_entry s host path of
           Some e \<Rightarrow> saturating_sub (st_total_bytes s) (desired_size (en_desired e))
         | None \<Rightarrow> st_total_bytes s)\<rparr>"

definition entry_count :: "cache_state \<Rightarrow> nat" where
  "entry_count s = sum_list (map (\<lambda>(_, h). length (hs_entries h)) (st_hosts s))"

lemma sum_list_less:
  fixes f g :: "'a \<Rightarrow> nat"
  assumes "\<And>x. x \<in> set xs \<Longrightarrow> f x \<le> g x" "x \<in> set xs" "f x < g x"
  shows "sum_list (map f xs) < sum_list (map g xs)"
  using assms
proof (induction xs)
  case (Cons y xs)
  have le: "sum_list (map f xs) \<le> sum_list (map g xs)"
    using Cons.prems(1) by (intro sum_list_mono) auto
  show ?case
  proof (cases "x = y")
    case True
    with Cons.prems(3) le show ?thesis by simp
  next
    case False
    with Cons have "sum_list (map f xs) < sum_list (map g xs)" by auto
    moreover have "f y \<le> g y" using Cons.prems(1) by simp
    ultimately show ?thesis by simp
  qed
qed simp

lemma delete_filter: "AList.delete k xs = filter (\<lambda>(k', _). k' \<noteq> k) xs"
  by (auto simp: AList.delete_eq intro!: filter_cong)

lemma evict_count:
  assumes "(n, host, path) \<in> set (eviction_candidates protected s)"
  shows "entry_count (evict host path s) < entry_count s"
proof -
  from assms obtain h e where h: "(host, h) \<in> set (st_hosts s)" and e: "(path, e) \<in> set (hs_entries h)"
    by (auto simp: eviction_candidates_def)
  let ?f = "\<lambda>(k, h). length (hs_entries (if k = host then h\<lparr>hs_entries := AList.delete path (hs_entries h)\<rparr> else h))"
  have "sum_list (map ?f (st_hosts s)) < sum_list (map (\<lambda>(_, h). length (hs_entries h)) (st_hosts s))"
  proof (rule sum_list_less [OF _ h])
    show "?f x \<le> (case x of (_, h) \<Rightarrow> length (hs_entries h))" for x
      by (cases x) (simp add: AList.length_delete_le)
    have "length (filter (\<lambda>(k', _). k' \<noteq> path) (hs_entries h)) < length (hs_entries h)"
      using e by (intro length_filter_less [of "(path, e)"]) auto
    then show "?f (host, h) < (case (host, h) of (_, h) \<Rightarrow> length (hs_entries h))"
      by (simp add: delete_filter)
  qed
  moreover have "entry_count (evict host path s) = sum_list (map ?f (st_hosts s))"
    by (simp add: entry_count_def evict_def remove_entry_def update_host_def comp_def case_prod_unfold)
  ultimately show ?thesis by (simp add: entry_count_def)
qed

text \<open>\<open>min_by_key\<close>: the first candidate with the least sequence number.\<close>

definition oldest :: "(nat \<times> string \<times> string) list \<Rightarrow> (nat \<times> string \<times> string) option" where
  "oldest cs = (if cs = [] then None else Some (arg_min_list fst cs))"

lemma oldest_in: "oldest cs = Some c \<Longrightarrow> c \<in> set cs"
  by (auto simp: oldest_def arg_min_list_in split: if_splits)

function make_capacity ::
  "cache_state \<Rightarrow> nat \<Rightarrow> nat \<Rightarrow> cache_key list \<Rightarrow> bool \<times> cache_state" where
  "make_capacity s maximum additional protected =
     (if maximum < saturating_add (st_total_bytes s) additional then
        (case oldest (eviction_candidates protected s) of
           None \<Rightarrow> (False, s)
         | Some (_, host, path) \<Rightarrow> make_capacity (evict host path s) maximum additional protected)
      else (True, s))"
  by pat_completeness auto
termination
  by (relation "measure (\<lambda>(s, _). entry_count s)") (auto dest!: oldest_in intro: evict_count)

declare make_capacity.simps [simp del]

section \<open>Reading and loading\<close>

definition lookup_complete_with_hash ::
  "cache_key \<Rightarrow> cache_state \<Rightarrow> (desired_state \<times> string option) option \<times> cache_state" where
  "lookup_complete_with_hash key s =
     (let (lru, s1) = next_lru s in
      case get_entry s1 (key_host key) (key_path key) of
        None \<Rightarrow> (None, s1)
      | Some e \<Rightarrow>
          (Some (en_desired e, en_desired_sha256 e),
           update_entry (key_host key) (key_path key) (\<lambda>e. e\<lparr>en_lru_sequence := lru\<rparr>) s1))"

definition lookup_complete :: "cache_key \<Rightarrow> cache_state \<Rightarrow> desired_state option \<times> cache_state" where
  "lookup_complete key s =
     (let (r, s1) = lookup_complete_with_hash key s in (map_option fst r, s1))"

definition lookup_entry :: "cache_key \<Rightarrow> cache_state \<Rightarrow> cached_entry option edit_result \<times> cache_state" where
  "lookup_entry key s =
     (let (lru, s1) = next_lru s in
      case get_entry s1 (key_host key) (key_path key) of
        None \<Rightarrow> (Inr None, s1)
      | Some e \<Rightarrow>
          (case en_conflict e of
             Some error \<Rightarrow> (Inl error, s1)
           | None \<Rightarrow>
               (Inr (Some \<lparr>ce_base = en_base e, ce_desired = en_desired e,
                           ce_desired_sha256 = en_desired_sha256 e,
                           ce_generation = en_generation e\<rparr>),
                update_entry (key_host key) (key_path key) (\<lambda>e. e\<lparr>en_lru_sequence := lru\<rparr>) s1)))"

definition clean_entry :: "(string \<Rightarrow> string) \<Rightarrow> remote_snapshot \<Rightarrow> nat \<Rightarrow> entry" where
  "clean_entry sha snapshot lru =
     \<lparr>en_base = sn_base snapshot, en_desired = sn_desired snapshot,
      en_desired_sha256 = snapshot_desired_sha256 sha snapshot, en_generation = Generation 0,
      en_dirty = False, en_in_flight = None, en_conflict = None, en_lru_sequence = lru\<rparr>"

definition insert_clean ::
  "(string \<Rightarrow> string) \<Rightarrow> cache_key \<Rightarrow> remote_snapshot \<Rightarrow> cache_state \<Rightarrow> cache_state" where
  "insert_clean sha key snapshot s =
     (let (lru, s1) = next_lru s;
          s2 = insert_entry (key_host key) (key_path key) (clean_entry sha snapshot lru) s1
      in s2\<lparr>st_total_bytes :=
             saturating_add (st_total_bytes s2) (desired_size (sn_desired snapshot))\<rparr>)"

text \<open>The section of \<open>load_complete\<close> after the fetch.\<close>

definition load_fetched ::
  "edit_cache_config \<Rightarrow> (string \<Rightarrow> string) \<Rightarrow> cache_key \<Rightarrow> remote_snapshot \<Rightarrow> cache_state
     \<Rightarrow> desired_state \<times> cache_state" where
  "load_fetched cfg sha key snapshot s =
     (let desired = sn_desired snapshot; size = desired_size desired in
      if cfg_max_bytes cfg = 0 \<or> cfg_max_bytes cfg < size then (desired, s)
      else
        (case get_entry s (key_host key) (key_path key) of
           Some existing \<Rightarrow> (en_desired existing, s)
         | None \<Rightarrow>
             (case make_capacity s (cfg_max_bytes cfg) size [] of
                (False, s1) \<Rightarrow> (desired, s1)
              | (True, s1) \<Rightarrow> (desired, insert_clean sha key snapshot s1))))"

text \<open>
  \<open>load_complete\<close> when nothing else runs between its sections.  The fetch of the backend runs
  over a state of its own, which is passed through: it is called for a key that is not cached, and only then.
\<close>

definition load_complete ::
  "edit_cache_config \<Rightarrow> (string \<Rightarrow> string) \<Rightarrow> (cache_key \<Rightarrow> 'r \<Rightarrow> remote_snapshot edit_result \<times> 'r)
     \<Rightarrow> cache_key \<Rightarrow> cache_state \<Rightarrow> 'r \<Rightarrow> desired_state edit_result \<times> cache_state \<times> 'r" where
  "load_complete cfg sha fetch key s r =
     (case lookup_complete key s of
        (Some desired, s1) \<Rightarrow> (Inr desired, s1, r)
      | (None, s1) \<Rightarrow>
          (case lookup_complete key (ensure_host (key_host key) s1) of
             (Some desired, s2) \<Rightarrow> (Inr desired, s2, r)
           | (None, s2) \<Rightarrow>
               (case fetch key r of
                  (Inl error, r1) \<Rightarrow> (Inl error, s2, r1)
                | (Inr snapshot, r1) \<Rightarrow>
                    (let (desired, s3) = load_fetched cfg sha key snapshot s2
                     in (Inr desired, s3, r1)))))"

definition load_entry_complete ::
  "edit_cache_config \<Rightarrow> (string \<Rightarrow> string) \<Rightarrow> (cache_key \<Rightarrow> 'r \<Rightarrow> remote_snapshot edit_result \<times> 'r)
     \<Rightarrow> cache_key \<Rightarrow> cache_state \<Rightarrow> 'r \<Rightarrow> load_entry_disposition edit_result \<times> cache_state \<times> 'r" where
  "load_entry_complete cfg sha fetch key s r =
     (case lookup_entry key s of
        (Inl error, s1) \<Rightarrow> (Inl error, s1, r)
      | (Inr (Some e), s1) \<Rightarrow> (Inr (Cached e), s1, r)
      | (Inr None, s1) \<Rightarrow>
          (case load_complete cfg sha fetch key s1 r of
             (Inl error, s2, r1) \<Rightarrow> (Inl error, s2, r1)
           | (Inr _, s2, r1) \<Rightarrow>
               (case lookup_entry key s2 of
                  (Inl error, s3) \<Rightarrow> (Inl error, s3, r1)
                | (Inr (Some e), s3) \<Rightarrow> (Inr (Cached e), s3, r1)
                | (Inr None, s3) \<Rightarrow> (Inr Load_ImmediateWriteRequired, s3, r1))))"

definition cache_clean_if_absent ::
  "edit_cache_config \<Rightarrow> (string \<Rightarrow> string) \<Rightarrow> cache_key \<Rightarrow> remote_snapshot \<Rightarrow> cache_state \<Rightarrow> cache_state"
where
  "cache_clean_if_absent cfg sha key snapshot s =
     (let size = desired_size (sn_desired snapshot) in
      if cfg_max_bytes cfg < size then s
      else if get_entry s (key_host key) (key_path key) \<noteq> None then s
      else
        (case make_capacity s (cfg_max_bytes cfg) size [] of
           (False, s1) \<Rightarrow> s1
         | (True, s1) \<Rightarrow> insert_clean sha key snapshot s1))"

end
