(* ===== verification/Edit_Flush.thy ===== *)
theory Edit_Flush
  imports Edit_Cache
begin

text \<open>
  The writing side of \<open>src/remote/edit_cache.rs\<close>: buffering a prepared batch, the two
  sections of \<open>flush_once\<close> around the commit, the loop of \<open>flush_host\<close>, and the operations
  on the pending edits of a host (status, retry, discard, invalidation, shutdown, timer).
\<close>

section \<open>Buffering a batch\<close>

text \<open>\<open>paths.windows(2).any(|pair| pair[0] == pair[1])\<close> on the sorted paths.\<close>

fun adjacent_equal :: "string list \<Rightarrow> bool" where
  "adjacent_equal (a # b # rest) \<longleftrightarrow> a = b \<or> adjacent_equal (b # rest)"
| "adjacent_equal _ \<longleftrightarrow> False"

definition edit_path :: "prepared_edit \<Rightarrow> string" where
  "edit_path e = key_path (pe_key e)"

text \<open>The validation loop over the edits.\<close>

fun check_generations :: "cache_state \<Rightarrow> string \<Rightarrow> prepared_edit list \<Rightarrow> unit edit_result" where
  "check_generations s host [] = Inr ()"
| "check_generations s host (edit # edits) =
     (case get_entry s host (edit_path edit) of
        None \<Rightarrow> Inl (transient_error ''prepared edit cache entry was evicted'')
      | Some e \<Rightarrow>
          if en_generation e \<noteq> pe_expected_generation edit then
            Inl (transient_error ''prepared edit cache generation changed concurrently'')
          else check_generations s host edits)"

definition saturating_sum :: "nat list \<Rightarrow> nat" where
  "saturating_sum ns = foldl saturating_add 0 ns"

definition old_size :: "cache_state \<Rightarrow> string \<Rightarrow> prepared_edit \<Rightarrow> nat" where
  "old_size s host edit =
     (case get_entry s host (edit_path edit) of None \<Rightarrow> 0 | Some e \<Rightarrow> desired_size (en_desired e))"

text \<open>The loop that writes the edits into their entries; \<open>None\<close> is the failed \<open>expect\<close>.\<close>

fun apply_edits ::
  "(string \<Rightarrow> string) \<Rightarrow> string \<Rightarrow> prepared_edit list \<Rightarrow> cache_state
     \<Rightarrow> (generation list \<times> cache_state) option" where
  "apply_edits sha host [] s = Some ([], s)"
| "apply_edits sha host (edit # edits) s =
     (let g = Generation (st_next_generation s);
          s1 = s\<lparr>st_next_generation := saturating_add (st_next_generation s) 1\<rparr>;
          (lru, s2) = next_lru s1
      in case get_entry s2 host (edit_path edit) of
           None \<Rightarrow> None
         | Some _ \<Rightarrow>
             (let s3 = update_entry host (edit_path edit)
                         (\<lambda>e. e\<lparr>en_desired_sha256 := desired_sha256 sha (pe_desired edit),
                                en_desired := pe_desired edit, en_generation := g,
                                en_dirty := True, en_lru_sequence := lru\<rparr>) s2
              in map_option (\<lambda>(gs, s4). (g # gs, s4)) (apply_edits sha host edits s3)))"

text \<open>What the caller of the section starts afterwards: the timer and a flush.\<close>

record mutate_effects =
  me_start_timer :: bool
  me_flush_now :: bool

definition no_effects :: mutate_effects where
  "no_effects = \<lparr>me_start_timer = False, me_flush_now = False\<rparr>"

definition touch_host ::
  "edit_cache_config \<Rightarrow> nat \<Rightarrow> nat \<Rightarrow> host_state \<Rightarrow> host_state" where
  "touch_host cfg now payload h =
     h\<lparr>hs_dirty_payload_bytes := saturating_add (hs_dirty_payload_bytes h) payload,
       hs_first_dirty_deadline :=
         (if hs_first_dirty_deadline h = None then Some (now + cfg_flush_delay cfg)
          else hs_first_dirty_deadline h),
       hs_timer_running := True\<rparr>"

text \<open>
  \<open>mutate_prepared_batch\<close> from the point where it holds the preparation lock of the host and
  the state lock.
\<close>

definition mutate_locked ::
  "edit_cache_config \<Rightarrow> (string \<Rightarrow> string) \<Rightarrow> nat \<Rightarrow> string \<Rightarrow> prepared_edit list \<Rightarrow> cache_state
     \<Rightarrow> (batch_mutation_disposition edit_result \<times> cache_state \<times> mutate_effects) option" where
  "mutate_locked cfg sha now host edits s =
     (case check_generations s host edits of
        Inl error \<Rightarrow> Some (Inl error, s, no_effects)
      | Inr _ \<Rightarrow>
          (let old_bytes = saturating_sum (map (old_size s host) edits);
               new_bytes = saturating_sum (map (\<lambda>e. desired_size (pe_desired e)) edits);
               additional = saturating_sub new_bytes old_bytes
           in case make_capacity s (cfg_max_bytes cfg) additional (map pe_key edits) of
                (False, s1) \<Rightarrow> Some (Inr Batch_ImmediateWriteRequired, s1, no_effects)
              | (True, s1) \<Rightarrow>
                  (case apply_edits sha host edits s1 of
                     None \<Rightarrow> None
                   | Some (generations, s2) \<Rightarrow>
                       (let payload = saturating_sum (map pe_payload_bytes edits);
                            s3 = ensure_host host s2;
                            h = the (map_of (st_hosts s3) host);
                            s4 = update_host host (touch_host cfg now payload) s3;
                            s5 = s4\<lparr>st_total_bytes :=
                                   saturating_add (saturating_sub (st_total_bytes s4) old_bytes) new_bytes\<rparr>
                        in Some (Inr (Buffered generations), s5,
                                 \<lparr>me_start_timer = \<not> hs_timer_running h,
                                  me_flush_now =
                                    (cfg_flush_threshold_bytes cfg \<le>
                                       saturating_add (hs_dirty_payload_bytes h) payload)\<rparr>)))))"

definition mutate_prepared_batch ::
  "edit_cache_config \<Rightarrow> (string \<Rightarrow> string) \<Rightarrow> nat \<Rightarrow> prepared_edit list \<Rightarrow> cache_state
     \<Rightarrow> (batch_mutation_disposition edit_result \<times> cache_state \<times> mutate_effects) option" where
  "mutate_prepared_batch cfg sha now edits s =
     (case edits of
        [] \<Rightarrow> Some (Inr (Buffered []), s, no_effects)
      | first # _ \<Rightarrow>
          (let host_name = key_host (pe_key first) in
           if list_ex (\<lambda>e. key_host (pe_key e) \<noteq> host_name) edits then
             Some (Inl (permanent_error ''prepared edit batch contains more than one SSH host''), s, no_effects)
           else if adjacent_equal (sort (map edit_path edits)) then
             Some (Inl (permanent_error ''prepared edit batch contains duplicate paths''), s, no_effects)
           else if list_ex (\<lambda>e. cfg_max_bytes cfg < desired_size (pe_desired e)) edits then
             Some (Inr Batch_ImmediateWriteRequired, s, no_effects)
           else mutate_locked cfg sha now host_name edits (ensure_host host_name s)))"

section \<open>Flushing\<close>

datatype flush_progress = Clean | More

datatype flush_start = Flush_Error edit_error | Flush_Clean | Flush_Items "commit_item list"

definition wants_flush :: "entry \<Rightarrow> bool" where
  "wants_flush e \<longleftrightarrow> en_dirty e \<and> en_in_flight e = None"

definition commit_item_of :: "string \<Rightarrow> string \<Rightarrow> entry \<Rightarrow> commit_item" where
  "commit_item_of host path e =
     \<lparr>ci_key = \<lparr>key_host = host, key_path = path\<rparr>, ci_base = en_base e, ci_desired = en_desired e,
      ci_desired_sha256 = en_desired_sha256 e, ci_generation = en_generation e\<rparr>"

definition first_conflict :: "host_state \<Rightarrow> edit_error option" where
  "first_conflict h =
     (case List.find (\<lambda>(_, e). en_conflict e \<noteq> None) (hs_entries h) of
        None \<Rightarrow> None | Some (_, e) \<Rightarrow> en_conflict e)"

definition item_path :: "commit_item \<Rightarrow> string" where
  "item_path i = key_path (ci_key i)"

text \<open>The section before the commit.\<close>

definition flush_begin :: "string \<Rightarrow> cache_state \<Rightarrow> flush_start \<times> cache_state" where
  "flush_begin host s =
     (case map_of (st_hosts s) host of
        None \<Rightarrow> (Flush_Clean, s)
      | Some h \<Rightarrow>
          (case first_conflict h of
             Some error \<Rightarrow> (Flush_Error error, s)
           | None \<Rightarrow>
               (let items = map (\<lambda>(path, e). commit_item_of host path e)
                              (filter (\<lambda>(_, e). wants_flush e) (hs_entries h));
                    marked = map (\<lambda>(path, e).
                      (path, if wants_flush e then e\<lparr>en_in_flight := Some (en_generation e)\<rparr> else e))
                      (hs_entries h);
                    items = sort_key item_path items
                in if items = [] then (Flush_Clean, s)
                   else
                     (Flush_Items items,
                      update_host host (\<lambda>h. h\<lparr>hs_entries := marked, hs_dirty_payload_bytes := 0,
                        hs_first_dirty_deadline := None, hs_retry_deadline := None\<rparr>) s))))"

text \<open>The section after it.\<close>

definition accept_success :: "commit_success \<Rightarrow> entry \<Rightarrow> entry" where
  "accept_success success e =
     (if en_in_flight e \<noteq> Some (cs_generation success) then e
      else
        e\<lparr>en_base := cs_base success, en_in_flight := None,
          en_dirty := (if en_generation e = cs_generation success then False else en_dirty e)\<rparr>)"

definition accept_successes :: "string \<Rightarrow> commit_success list \<Rightarrow> cache_state \<Rightarrow> cache_state" where
  "accept_successes host successes s =
     fold (\<lambda>c. update_entry host (key_path (cs_key c)) (accept_success c)) successes s"

definition reject_item :: "edit_error \<Rightarrow> commit_item \<Rightarrow> entry \<Rightarrow> entry" where
  "reject_item error i e =
     (if en_in_flight e \<noteq> Some (ci_generation i) then e
      else
        e\<lparr>en_in_flight := None,
          en_conflict := (if xe_kind error \<noteq> Transient then Some error else en_conflict e)\<rparr>)"

definition reject_items :: "string \<Rightarrow> edit_error \<Rightarrow> commit_item list \<Rightarrow> cache_state \<Rightarrow> cache_state" where
  "reject_items host error items s =
     fold (\<lambda>i. update_entry host (item_path i) (reject_item error i)) items s"

definition schedule_retry :: "nat \<Rightarrow> edit_error \<Rightarrow> host_state \<Rightarrow> host_state" where
  "schedule_retry now error h =
     (if xe_kind error = Transient then
        h\<lparr>hs_retry_deadline := Some (now + retry_delay (hs_retry_attempt h)),
          hs_retry_attempt := saturating_add (hs_retry_attempt h) 1,
          hs_last_transient := Some error\<rparr>
      else h)"

definition flush_finish ::
  "string \<Rightarrow> nat \<Rightarrow> commit_item list \<Rightarrow> commit_batch_outcome \<Rightarrow> cache_state
     \<Rightarrow> (flush_progress edit_result \<times> cache_state) option" where
  "flush_finish host now items outcome s =
     (case map_of (st_hosts s) host of
        None \<Rightarrow> None
      | Some _ \<Rightarrow>
          (let s1 = accept_successes host (co_successes outcome) s in
           case co_error outcome of
             None \<Rightarrow>
               (let s2 = update_host host (\<lambda>h. h\<lparr>hs_retry_attempt := 0, hs_retry_deadline := None,
                           hs_last_transient := None\<rparr>) s1
                in Some (Inr (if host_dirty (the (map_of (st_hosts s2) host)) then More else Clean), s2))
           | Some error \<Rightarrow>
               Some (Inl error,
                 update_host host (schedule_retry now error) (reject_items host error items s1))))"

text \<open>
  \<open>flush_once\<close> and the loop of \<open>flush_host\<close> when nothing else runs between their sections.
  The backend is a function on a remote state, and the clock is a parameter.
\<close>

definition flush_once ::
  "('r \<Rightarrow> string \<Rightarrow> commit_item list \<Rightarrow> commit_batch_outcome \<times> 'r) \<Rightarrow> nat \<Rightarrow> string
     \<Rightarrow> cache_state \<Rightarrow> 'r \<Rightarrow> (flush_progress edit_result \<times> cache_state \<times> 'r) option" where
  "flush_once commit now host s r =
     (case flush_begin host (ensure_host host s) of
        (Flush_Error error, s1) \<Rightarrow> Some (Inl error, s1, r)
      | (Flush_Clean, s1) \<Rightarrow> Some (Inr Clean, s1, r)
      | (Flush_Items items, s1) \<Rightarrow>
          (let (outcome, r1) = commit r host items in
           map_option (\<lambda>(res, s2). (res, s2, r1)) (flush_finish host now items outcome s1)))"

text \<open>The loop ends at the first pass that is not \<open>More\<close>; \<open>fuel\<close> bounds the passes.\<close>

fun flush_host ::
  "nat \<Rightarrow> ('r \<Rightarrow> string \<Rightarrow> commit_item list \<Rightarrow> commit_batch_outcome \<times> 'r) \<Rightarrow> nat \<Rightarrow> string
     \<Rightarrow> cache_state \<Rightarrow> 'r \<Rightarrow> (unit edit_result \<times> cache_state \<times> 'r) option" where
  "flush_host 0 commit now host s r = None"
| "flush_host (Suc fuel) commit now host s r =
     (case flush_once commit now host s r of
        None \<Rightarrow> None
      | Some (Inl error, s1, r1) \<Rightarrow> Some (Inl error, s1, r1)
      | Some (Inr Clean, s1, r1) \<Rightarrow> Some (Inr (), s1, r1)
      | Some (Inr More, s1, r1) \<Rightarrow> flush_host fuel commit now host s1 r1)"

section \<open>The pending edits of a host\<close>

definition entry_pending :: "entry \<Rightarrow> bool" where
  "entry_pending e \<longleftrightarrow> en_dirty e \<or> en_in_flight e \<noteq> None \<or> en_conflict e \<noteq> None"

definition outcome_unknown :: "entry \<Rightarrow> bool" where
  "outcome_unknown e \<longleftrightarrow>
     (case en_conflict e of None \<Rightarrow> False | Some error \<Rightarrow> xe_kind error = OutcomeUnknown)"

definition host_status :: "string \<Rightarrow> cache_state \<Rightarrow> host_edit_status" where
  "host_status host s =
     (case map_of (st_hosts s) host of
        None \<Rightarrow> \<lparr>st_pending_paths = [], st_outcome_unknown_paths = [],
                 st_pending_payload_bytes = 0, st_cached_bytes = st_total_bytes s\<rparr>
      | Some h \<Rightarrow>
          \<lparr>st_pending_paths = sort (map fst (filter (\<lambda>(_, e). entry_pending e) (hs_entries h))),
           st_outcome_unknown_paths = sort (map fst (filter (\<lambda>(_, e). outcome_unknown e) (hs_entries h))),
           st_pending_payload_bytes = saturating_sum
             (map (\<lambda>(_, e). desired_size (en_desired e)) (filter (\<lambda>(_, e). entry_pending e) (hs_entries h))),
           st_cached_bytes = st_total_bytes s\<rparr>)"

text \<open>The section of \<open>retry_outcome_unknown_host\<close> before its flush.\<close>

definition retry_entry :: "entry \<Rightarrow> entry" where
  "retry_entry e = (if outcome_unknown e then e\<lparr>en_conflict := None, en_dirty := True\<rparr> else e)"

definition retry_outcome_unknown :: "string \<Rightarrow> cache_state \<Rightarrow> cache_state" where
  "retry_outcome_unknown host s =
     update_host host (\<lambda>h. h\<lparr>hs_entries := map (\<lambda>(p, e). (p, retry_entry e)) (hs_entries h)\<rparr>) s"

definition discard_host_edits :: "string \<Rightarrow> cache_state \<Rightarrow> discard_host_edits_result \<times> cache_state" where
  "discard_host_edits host s =
     (case map_of (st_hosts s) host of
        None \<Rightarrow>
          (\<lparr>dh_discarded_paths = [], dh_discarded_payload_bytes = 0, dh_had_outcome_unknown = False\<rparr>, s)
      | Some h \<Rightarrow>
          (let gone = filter (\<lambda>(_, e). entry_pending e) (hs_entries h);
               kept = filter (\<lambda>(_, e). \<not> entry_pending e) (hs_entries h);
               bytes = saturating_sum (map (\<lambda>(_, e). desired_size (en_desired e)) gone);
               unknown = list_ex (\<lambda>(_, e). outcome_unknown e) gone
           in if gone = [] then
                (\<lparr>dh_discarded_paths = [], dh_discarded_payload_bytes = 0,
                  dh_had_outcome_unknown = unknown\<rparr>, s)
              else
                (\<lparr>dh_discarded_paths = sort (map fst gone), dh_discarded_payload_bytes = bytes,
                  dh_had_outcome_unknown = unknown\<rparr>,
                 (update_host host (\<lambda>h. h\<lparr>hs_entries := kept, hs_dirty_payload_bytes := 0,
                    hs_first_dirty_deadline := None, hs_retry_deadline := None, hs_retry_attempt := 0,
                    hs_last_transient := None\<rparr>) s)
                   \<lparr>st_total_bytes := saturating_sub (st_total_bytes s) bytes\<rparr>)))"

definition invalidate_clean_host :: "string \<Rightarrow> cache_state \<Rightarrow> cache_state" where
  "invalidate_clean_host host s =
     (case map_of (st_hosts s) host of
        None \<Rightarrow> s
      | Some h \<Rightarrow>
          (let clean = (\<lambda>(_, e). \<not> en_dirty e \<and> en_in_flight e = None);
               removed = saturating_sum
                 (map (\<lambda>(_, e). desired_size (en_desired e)) (filter clean (hs_entries h)))
           in (update_host host (\<lambda>h. h\<lparr>hs_entries := filter (\<lambda>x. \<not> clean x) (hs_entries h)\<rparr>) s)
                \<lparr>st_total_bytes := saturating_sub (st_total_bytes s) removed\<rparr>))"

text \<open>The first section of \<open>shutdown\<close>: the hosts to flush, none the second time.\<close>

definition shutdown_begin :: "cache_state \<Rightarrow> string list \<times> cache_state" where
  "shutdown_begin s =
     (if st_shutting_down s then ([], s) else (map fst (st_hosts s), s\<lparr>st_shutting_down := True\<rparr>))"

fun flush_hosts ::
  "nat \<Rightarrow> ('r \<Rightarrow> string \<Rightarrow> commit_item list \<Rightarrow> commit_batch_outcome \<times> 'r) \<Rightarrow> nat \<Rightarrow> string list
     \<Rightarrow> edit_error option \<Rightarrow> cache_state \<Rightarrow> 'r \<Rightarrow> (edit_error option \<times> cache_state \<times> 'r) option" where
  "flush_hosts fuel commit now [] first_error s r = Some (first_error, s, r)"
| "flush_hosts fuel commit now (host # hosts) first_error s r =
     (case flush_host fuel commit now host s r of
        None \<Rightarrow> None
      | Some (Inl error, s1, r1) \<Rightarrow>
          flush_hosts fuel commit now hosts
            (if first_error = None then Some error else first_error) s1 r1
      | Some (Inr _, s1, r1) \<Rightarrow> flush_hosts fuel commit now hosts first_error s1 r1)"

definition shutdown ::
  "nat \<Rightarrow> ('r \<Rightarrow> string \<Rightarrow> commit_item list \<Rightarrow> commit_batch_outcome \<times> 'r) \<Rightarrow> nat
     \<Rightarrow> cache_state \<Rightarrow> 'r \<Rightarrow> (unit edit_result \<times> cache_state \<times> 'r) option" where
  "shutdown fuel commit now s r =
     (let (hosts, s1) = shutdown_begin s in
      map_option (\<lambda>(first_error, s2, r1).
          (case first_error of Some error \<Rightarrow> Inl error | None \<Rightarrow> Inr (), s2, r1))
        (flush_hosts fuel commit now hosts None s1 r))"

section \<open>The timer\<close>

datatype timer_decision = Timer_Stop | Timer_Wait | Timer_Wake nat

text \<open>One round of the loop of \<open>spawn_timer\<close> under the state lock.\<close>

definition timer_round ::
  "edit_cache_config \<Rightarrow> nat \<Rightarrow> string \<Rightarrow> cache_state \<Rightarrow> timer_decision \<times> cache_state" where
  "timer_round cfg now host s =
     (let stopped = update_host host (\<lambda>h. h\<lparr>hs_timer_running := False\<rparr>) s in
      if st_shutting_down s then (Timer_Stop, stopped)
      else
        (case map_of (st_hosts s) host of
           None \<Rightarrow> (Timer_Stop, s)
         | Some h \<Rightarrow>
             if host_conflict h \<or> \<not> host_dirty h then (Timer_Stop, stopped)
             else if cfg_flush_threshold_bytes cfg \<le> hs_dirty_payload_bytes h then (Timer_Wake now, s)
             else
               (case hs_retry_deadline h of
                  Some t \<Rightarrow> (Timer_Wake t, s)
                | None \<Rightarrow>
                    (case hs_first_dirty_deadline h of
                       Some t \<Rightarrow> (Timer_Wake t, s)
                     | None \<Rightarrow> (Timer_Wait, s)))))"

end
