(* ===== verification/Edit_Invariant.thy ===== *)
theory Edit_Invariant
  imports Edit_Flush
begin

text \<open>
  The well-formedness of the cache and what each section does to single entries: the entry
  found under a key afterwards (\<open>get_entry_*\<close>), the bytes it accounts for
  (\<open>total_size_*\<close>), and the preservation of the invariant (\<open>cache_ok_*\<close>).
\<close>

named_theorems cache_simps

section \<open>Association lists\<close>

definition weight :: "('v \<Rightarrow> nat) \<Rightarrow> ('k \<times> 'v) list \<Rightarrow> nat" where
  "weight w xs = sum_list (map (\<lambda>(_, v). w v) xs)"

definition adjust :: "'k \<Rightarrow> ('v \<Rightarrow> 'v) \<Rightarrow> ('k \<times> 'v) list \<Rightarrow> ('k \<times> 'v) list" where
  "adjust k f xs = map (\<lambda>(k', v). (k', if k' = k then f v else v)) xs"

lemma weight_simps [simp]:
  "weight w [] = 0" "weight w ((k, v) # xs) = w v + weight w xs"
  "weight w (xs @ ys) = weight w xs + weight w ys"
  by (simp_all add: weight_def)

lemma map_fst_adjust [simp]: "map fst (adjust k f xs) = map fst xs"
  by (auto simp: adjust_def)

lemma map_of_adjust [simp]:
  "map_of (adjust k f xs) k' = (if k' = k then map_option f (map_of xs k) else map_of xs k')"
  by (induction xs) (auto simp: adjust_def)

lemma weight_adjust_None: "map_of xs k = None \<Longrightarrow> weight w (adjust k f xs) = weight w xs"
  by (induction xs) (auto simp: adjust_def split: if_splits)

lemma weight_adjust:
  "distinct (map fst xs) \<Longrightarrow> map_of xs k = Some v \<Longrightarrow>
     weight w (adjust k f xs) + w v = weight w xs + w (f v)"
proof (induction xs)
  case (Cons x xs)
  obtain k' v' where x: "x = (k', v')" by force
  show ?case
  proof (cases "k' = k")
    case True
    with Cons.prems x have "map_of xs k = None" by (auto simp: map_of_eq_None_iff)
    then have "weight w (adjust k f xs) = weight w xs" by (rule weight_adjust_None)
    with True x Cons.prems show ?thesis by (simp add: adjust_def)
  next
    case False
    with Cons x have "weight w (adjust k f xs) + w v = weight w xs + w (f v)" by simp
    with False x show ?thesis by (simp add: adjust_def)
  qed
qed simp

lemma weight_delete:
  "distinct (map fst xs) \<Longrightarrow> map_of xs k = Some v \<Longrightarrow> weight w (AList.delete k xs) + w v = weight w xs"
proof (induction xs)
  case (Cons x xs)
  obtain k' v' where x: "x = (k', v')" by force
  show ?case
  proof (cases "k' = k")
    case True
    with Cons.prems x have "map_of xs k = None" by (auto simp: map_of_eq_None_iff)
    then have "AList.delete k xs = xs" by (simp add: map_of_eq_None_iff AList.delete_idem)
    with True x Cons.prems show ?thesis by simp
  next
    case False
    with Cons x show ?thesis by auto
  qed
qed simp

lemma weight_update_fresh:
  "map_of xs k = None \<Longrightarrow> weight w (AList.update k v xs) = weight w xs + w v"
  by (induction xs) (auto split: if_splits)

lemma weight_filter:
  "weight w (filter P xs) + weight w (filter (\<lambda>x. \<not> P x) xs) = weight w xs"
  by (induction xs) auto

lemma weight_ge: "map_of xs k = Some v \<Longrightarrow> w v \<le> weight w xs"
  by (induction xs) (auto split: if_splits)

lemma map_of_filter_distinct:
  "distinct (map fst xs) \<Longrightarrow>
     map_of (filter (\<lambda>(k, v). P v) xs) k = (case map_of xs k of Some v \<Rightarrow> if P v then Some v else None | None \<Rightarrow> None)"
proof (induction xs)
  case (Cons x xs)
  obtain k' v' where x: "x = (k', v')" by force
  with Cons.prems have "k' = k \<Longrightarrow> map_of xs k = None" by (auto simp: map_of_eq_None_iff)
  with Cons x show ?case by auto
qed simp

lemma distinct_fst_filter: "distinct (map fst xs) \<Longrightarrow> distinct (map fst (filter P xs))"
  by (induction xs) auto

section \<open>The invariant\<close>

definition entry_size :: "entry \<Rightarrow> nat" where
  "entry_size e = desired_size (en_desired e)"

definition host_size :: "host_state \<Rightarrow> nat" where
  "host_size h = weight entry_size (hs_entries h)"

definition total_size :: "cache_state \<Rightarrow> nat" where
  "total_size s = weight host_size (st_hosts s)"

definition entry_ok :: "nat \<Rightarrow> entry \<Rightarrow> bool" where
  "entry_ok next e \<longleftrightarrow>
     (en_conflict e \<noteq> None \<longrightarrow> en_dirty e \<and> en_in_flight e = None) \<and>
     (\<forall>g. en_in_flight e = Some g \<longrightarrow> en_dirty e \<and> g \<le> en_generation e) \<and>
     (en_dirty e \<longrightarrow> Generation 0 < en_generation e) \<and>
     en_generation e < Generation next"

definition keys_ok :: "cache_state \<Rightarrow> bool" where
  "keys_ok s \<longleftrightarrow>
     distinct (map fst (st_hosts s)) \<and>
     (\<forall>(k, h) \<in> set (st_hosts s). distinct (map fst (hs_entries h)))"

definition cache_ok :: "edit_cache_config \<Rightarrow> cache_state \<Rightarrow> bool" where
  "cache_ok cfg s \<longleftrightarrow>
     keys_ok s \<and> st_total_bytes s = total_size s \<and> total_size s \<le> cfg_max_bytes cfg \<and>
     0 < st_next_generation s \<and>
     (\<forall>host path e. get_entry s host path = Some e \<longrightarrow> entry_ok (st_next_generation s) e)"

lemma update_host_adjust [cache_simps]:
  "update_host host f s = s\<lparr>st_hosts := adjust host f (st_hosts s)\<rparr>"
  by (simp add: update_host_def adjust_def)

lemma update_entry_adjust [cache_simps]:
  "update_entry host path f s =
     s\<lparr>st_hosts := adjust host (\<lambda>h. h\<lparr>hs_entries := adjust path f (hs_entries h)\<rparr>) (st_hosts s)\<rparr>"
  by (simp add: update_entry_def update_host_adjust adjust_def)

lemma keys_okD:
  assumes "keys_ok s" "map_of (st_hosts s) host = Some h"
  shows "distinct (map fst (hs_entries h))"
  using assms by (auto simp: keys_ok_def dest: map_of_SomeD)

lemma keys_ok_adjust:
  assumes "keys_ok s" "\<And>h. distinct (map fst (hs_entries h)) \<Longrightarrow> distinct (map fst (hs_entries (f h)))"
  shows "keys_ok (s\<lparr>st_hosts := adjust host f (st_hosts s)\<rparr>)"
proof -
  have "distinct (map fst (adjust host f (st_hosts s)))" using assms(1) by (simp add: keys_ok_def)
  moreover have "\<forall>(k, h) \<in> set (adjust host f (st_hosts s)). distinct (map fst (hs_entries h))"
    using assms by (auto simp: keys_ok_def adjust_def)
  ultimately show ?thesis by (simp add: keys_ok_def)
qed

lemma keys_ok_ensure: "keys_ok s \<Longrightarrow> keys_ok (ensure_host host s)"
  by (auto simp: keys_ok_def ensure_host_def new_host_def map_of_eq_None_iff split: option.splits)

subsection \<open>Entries under a key\<close>

lemma get_entry_hosts: "st_hosts s = st_hosts t \<Longrightarrow> get_entry s h p = get_entry t h p"
  by (simp add: get_entry_def)

lemma get_entry_fields [simp]:
  "get_entry (s\<lparr>st_total_bytes := a\<rparr>) = get_entry s"
  "get_entry (s\<lparr>st_lru_sequence := b\<rparr>) = get_entry s"
  "get_entry (s\<lparr>st_next_generation := c\<rparr>) = get_entry s"
  "get_entry (s\<lparr>st_shutting_down := d\<rparr>) = get_entry s"
  by (auto simp: get_entry_def fun_eq_iff)

lemma get_entry_ensure [simp]: "get_entry (ensure_host host s) h p = get_entry s h p"
  by (auto simp: get_entry_def ensure_host_def new_host_def map_add_def split: option.splits)

lemma get_entry_update_entry:
  "get_entry (update_entry host path f s) h p =
     (if h = host \<and> p = path then map_option f (get_entry s h p) else get_entry s h p)"
  by (cases "map_of (st_hosts s) host") (auto simp: get_entry_def update_entry_adjust)

lemma get_entry_update_host:
  "get_entry (update_host host f s) h p =
     (if h = host then Option.bind (map_of (st_hosts s) host) (\<lambda>x. map_of (hs_entries (f x)) p)
      else get_entry s h p)"
  by (cases "map_of (st_hosts s) host") (auto simp: get_entry_def update_host_adjust)

lemma get_entry_update_host_same:
  assumes "\<And>h. hs_entries (f h) = hs_entries h"
  shows "get_entry (update_host host f s) = get_entry s"
proof (intro ext)
  fix h p
  show "get_entry (update_host host f s) h p = get_entry s h p"
    unfolding get_entry_update_host
    by (cases "map_of (st_hosts s) host") (auto simp: get_entry_def assms)
qed

lemma get_entry_remove:
  "get_entry (remove_entry host path s) h p =
     (if h = host \<and> p = path then None else get_entry s h p)"
  unfolding remove_entry_def get_entry_update_host
  by (cases "map_of (st_hosts s) host") (auto simp: get_entry_def AList.delete_conv)

lemma map_of_ensure: "\<exists>h. map_of (st_hosts (ensure_host host s)) host = Some h"
  by (auto simp: ensure_host_def map_add_def split: option.splits)

lemma get_entry_insert:
  "get_entry (insert_entry host path e s) h p =
     (if h = host \<and> p = path then Some e else get_entry s h p)"
proof -
  obtain x where x: "map_of (st_hosts (ensure_host host s)) host = Some x" using map_of_ensure by blast
  have "get_entry s host p = map_of (hs_entries x) p"
    using get_entry_ensure [of host s host p] x by (simp add: get_entry_def)
  with x show ?thesis
    by (simp add: insert_entry_def get_entry_update_host AList.update_conv)
qed

lemma next_lru_eq: "next_lru s = (fst (next_lru s), s\<lparr>st_lru_sequence := fst (next_lru s)\<rparr>)"
  by (simp add: next_lru_def Let_def)

subsection \<open>Sizes\<close>

lemma total_size_fields [simp]:
  "total_size (s\<lparr>st_total_bytes := a\<rparr>) = total_size s"
  "total_size (s\<lparr>st_lru_sequence := b\<rparr>) = total_size s"
  "total_size (s\<lparr>st_next_generation := c\<rparr>) = total_size s"
  "total_size (s\<lparr>st_shutting_down := d\<rparr>) = total_size s"
  by (simp_all add: total_size_def)

lemma total_size_ensure [simp]: "total_size (ensure_host host s) = total_size s"
  by (auto simp: total_size_def ensure_host_def new_host_def host_size_def split: option.splits)

lemma total_size_update_host:
  assumes "keys_ok s"
  shows "total_size (update_host host f s) + (case map_of (st_hosts s) host of None \<Rightarrow> 0 | Some h \<Rightarrow> host_size h) =
    total_size s + (case map_of (st_hosts s) host of None \<Rightarrow> 0 | Some h \<Rightarrow> host_size (f h))"
proof (cases "map_of (st_hosts s) host")
  case None
  then show ?thesis by (simp add: total_size_def update_host_adjust weight_adjust_None)
next
  case (Some h)
  with assms weight_adjust [of "st_hosts s" host h host_size f] show ?thesis
    by (simp add: total_size_def update_host_adjust keys_ok_def)
qed

lemma total_size_update_host_same:
  assumes "keys_ok s" "\<And>h. map_of (st_hosts s) host = Some h \<Longrightarrow> host_size (f h) = host_size h"
  shows "total_size (update_host host f s) = total_size s"
  using total_size_update_host [OF assms(1), of host f] assms(2) by (auto split: option.splits)

lemma total_size_update_entry:
  assumes "keys_ok s" "get_entry s host path = Some e"
  shows "total_size (update_entry host path f s) + entry_size e = total_size s + entry_size (f e)"
proof -
  from assms(2) obtain h where h: "map_of (st_hosts s) host = Some h" "map_of (hs_entries h) path = Some e"
    by (auto simp: get_entry_def bind_eq_Some_conv)
  have "host_size (h\<lparr>hs_entries := adjust path f (hs_entries h)\<rparr>) + entry_size e = host_size h + entry_size (f e)"
    using weight_adjust [OF keys_okD [OF assms(1) h(1)] h(2), of entry_size f] by (simp add: host_size_def)
  with total_size_update_host [OF assms(1), of host "\<lambda>h. h\<lparr>hs_entries := adjust path f (hs_entries h)\<rparr>"] h
  show ?thesis by (simp add: update_entry_def update_host_adjust adjust_def)
qed

lemma total_size_update_entry_same:
  assumes "keys_ok s" "\<And>e. entry_size (f e) = entry_size e"
  shows "total_size (update_entry host path f s) = total_size s"
proof (cases "get_entry s host path")
  case None
  have "host_size (h\<lparr>hs_entries := adjust path f (hs_entries h)\<rparr>) = host_size h" if "map_of (st_hosts s) host = Some h" for h
    using None that weight_adjust_None [of "hs_entries h" path entry_size f]
    by (simp add: get_entry_def host_size_def)
  then have "total_size (update_host host (\<lambda>h. h\<lparr>hs_entries := adjust path f (hs_entries h)\<rparr>) s) = total_size s"
    by (rule total_size_update_host_same [OF assms(1)])
  then show ?thesis by (simp add: update_entry_def adjust_def)
next
  case (Some e)
  with total_size_update_entry [OF assms(1) Some, of f] assms(2) show ?thesis by simp
qed

lemma total_size_remove:
  assumes "keys_ok s" "get_entry s host path = Some e"
  shows "total_size (remove_entry host path s) + entry_size e = total_size s"
proof -
  from assms(2) obtain h where h: "map_of (st_hosts s) host = Some h" "map_of (hs_entries h) path = Some e"
    by (auto simp: get_entry_def bind_eq_Some_conv)
  have "host_size (h\<lparr>hs_entries := AList.delete path (hs_entries h)\<rparr>) + entry_size e = host_size h"
    using weight_delete [OF keys_okD [OF assms(1) h(1)] h(2), of entry_size] by (simp add: host_size_def)
  with total_size_update_host [OF assms(1), of host "\<lambda>h. h\<lparr>hs_entries := AList.delete path (hs_entries h)\<rparr>"] h
  show ?thesis by (simp add: remove_entry_def)
qed

lemma total_size_insert:
  assumes "keys_ok s" "get_entry s host path = None"
  shows "total_size (insert_entry host path e s) = total_size s + entry_size e"
proof -
  obtain x where x: "map_of (st_hosts (ensure_host host s)) host = Some x" using map_of_ensure by blast
  have "map_of (hs_entries x) path = None"
    using get_entry_ensure [of host s host path] x assms(2) by (simp add: get_entry_def)
  then have "host_size (x\<lparr>hs_entries := AList.update path e (hs_entries x)\<rparr>) = host_size x + entry_size e"
    by (simp add: host_size_def weight_update_fresh)
  with total_size_update_host [OF keys_ok_ensure [OF assms(1), of host], of host
      "\<lambda>h. h\<lparr>hs_entries := AList.update path e (hs_entries h)\<rparr>"] x
  show ?thesis by (simp add: insert_entry_def)
qed

lemma total_size_ge: "keys_ok s \<Longrightarrow> get_entry s host path = Some e \<Longrightarrow> entry_size e \<le> total_size s"
  using total_size_remove by (metis le_add2)

section \<open>Preservation\<close>

lemma keys_ok_fields [simp]:
  "keys_ok (s\<lparr>st_total_bytes := a\<rparr>) = keys_ok s"
  "keys_ok (s\<lparr>st_lru_sequence := b\<rparr>) = keys_ok s"
  "keys_ok (s\<lparr>st_next_generation := c\<rparr>) = keys_ok s"
  "keys_ok (s\<lparr>st_shutting_down := d\<rparr>) = keys_ok s"
  by (simp_all add: keys_ok_def)

lemma cache_ok_fields [simp]:
  "cache_ok cfg (s\<lparr>st_lru_sequence := b\<rparr>) = cache_ok cfg s"
  "cache_ok cfg (s\<lparr>st_shutting_down := d\<rparr>) = cache_ok cfg s"
  by (simp_all add: cache_ok_def)

lemma other_fields [simp]:
  "st_total_bytes (update_host host f s) = st_total_bytes s"
  "st_next_generation (update_host host f s) = st_next_generation s"
  "st_shutting_down (update_host host f s) = st_shutting_down s"
  "st_total_bytes (update_entry host path g s) = st_total_bytes s"
  "st_next_generation (update_entry host path g s) = st_next_generation s"
  "st_shutting_down (update_entry host path g s) = st_shutting_down s"
  "st_total_bytes (ensure_host host s) = st_total_bytes s"
  "st_next_generation (ensure_host host s) = st_next_generation s"
  "st_shutting_down (ensure_host host s) = st_shutting_down s"
  "st_total_bytes (insert_entry host path e s) = st_total_bytes s"
  "st_next_generation (insert_entry host path e s) = st_next_generation s"
  "st_shutting_down (insert_entry host path e s) = st_shutting_down s"
  "st_next_generation (remove_entry host path s) = st_next_generation s"
  "st_shutting_down (remove_entry host path s) = st_shutting_down s"
  by (simp_all add: update_host_def update_entry_def ensure_host_def insert_entry_def remove_entry_def
      split: option.splits)

lemma keys_ok_update_host:
  "keys_ok s \<Longrightarrow> (\<And>h. distinct (map fst (hs_entries h)) \<Longrightarrow> distinct (map fst (hs_entries (f h)))) \<Longrightarrow>
     keys_ok (update_host host f s)"
  unfolding update_host_adjust by (rule keys_ok_adjust)

lemma keys_ok_update_entry: "keys_ok s \<Longrightarrow> keys_ok (update_entry host path f s)"
  unfolding update_entry_adjust by (rule keys_ok_adjust) simp_all

lemma keys_ok_remove: "keys_ok s \<Longrightarrow> keys_ok (remove_entry host path s)"
  unfolding remove_entry_def by (rule keys_ok_update_host) (simp_all add: distinct_delete)

lemma keys_ok_insert: "keys_ok s \<Longrightarrow> keys_ok (insert_entry host path e s)"
  unfolding insert_entry_def
  by (intro keys_ok_update_host keys_ok_ensure) (simp_all add: distinct_update)

lemma cache_ok_new: "cache_ok cfg new_cache"
  by (simp add: cache_ok_def new_cache_def keys_ok_def total_size_def get_entry_def)

lemma cache_ok_ensure: "cache_ok cfg s \<Longrightarrow> cache_ok cfg (ensure_host host s)"
  by (simp add: cache_ok_def keys_ok_ensure)

lemma cache_okD:
  assumes "cache_ok cfg s"
  shows "keys_ok s" "st_total_bytes s = total_size s" "total_size s \<le> cfg_max_bytes cfg"
    "0 < st_next_generation s"
    "get_entry s host path = Some e \<Longrightarrow> entry_ok (st_next_generation s) e"
  using assms by (auto simp: cache_ok_def)

lemma cache_ok_update_entry:
  assumes "cache_ok cfg s" "\<And>e. entry_size (f e) = entry_size e"
    and "\<And>e. get_entry s host path = Some e \<Longrightarrow> entry_ok (st_next_generation s) e \<Longrightarrow>
      entry_ok (st_next_generation s) (f e)"
  shows "cache_ok cfg (update_entry host path f s)"
  unfolding cache_ok_def
  using cache_okD [OF assms(1)] assms(3) keys_ok_update_entry total_size_update_entry_same [OF _ assms(2)]
  by (auto simp: get_entry_update_entry split: if_splits)

text \<open>Touching the sequence number changes nothing the invariant speaks of.\<close>

lemma cache_ok_touch:
  "cache_ok cfg s \<Longrightarrow> cache_ok cfg (update_entry host path (\<lambda>e. e\<lparr>en_lru_sequence := n\<rparr>) s)"
  by (rule cache_ok_update_entry) (auto simp: entry_size_def entry_ok_def)

lemma cache_ok_next_lru: "cache_ok cfg s \<Longrightarrow> cache_ok cfg (snd (next_lru s))"
  by (simp add: next_lru_def Let_def)

lemma cache_ok_lookup: "cache_ok cfg s \<Longrightarrow> cache_ok cfg (snd (lookup_complete_with_hash key s))"
  by (auto simp: lookup_complete_with_hash_def next_lru_def Let_def cache_ok_touch split: option.splits)

lemma cache_ok_lookup_entry: "cache_ok cfg s \<Longrightarrow> cache_ok cfg (snd (lookup_entry key s))"
  by (auto simp: lookup_entry_def next_lru_def Let_def cache_ok_touch split: option.splits)

section \<open>Making room\<close>

definition host_meta :: "cache_state \<Rightarrow> string \<Rightarrow> host_state option" where
  "host_meta s host = map_option (\<lambda>h. h\<lparr>hs_entries := []\<rparr>) (map_of (st_hosts s) host)"

lemma host_meta_fields [simp]:
  "host_meta (s\<lparr>st_total_bytes := a\<rparr>) = host_meta s"
  "host_meta (s\<lparr>st_lru_sequence := b\<rparr>) = host_meta s"
  "host_meta (s\<lparr>st_next_generation := c\<rparr>) = host_meta s"
  "host_meta (s\<lparr>st_shutting_down := d\<rparr>) = host_meta s"
  by (simp_all add: host_meta_def fun_eq_iff)

text \<open>What eviction may do: drop evictable entries and nothing else.\<close>

definition only_evicts :: "cache_key list \<Rightarrow> cache_state \<Rightarrow> cache_state \<Rightarrow> bool" where
  "only_evicts protected s t \<longleftrightarrow>
     st_next_generation t = st_next_generation s \<and> st_shutting_down t = st_shutting_down s \<and>
     host_meta t = host_meta s \<and>
     (\<forall>host path. get_entry t host path = get_entry s host path \<or>
        get_entry t host path = None \<and>
        (\<exists>e. get_entry s host path = Some e \<and> evictable protected host path e))"

lemma only_evicts_refl: "only_evicts protected s s"
  by (simp add: only_evicts_def)

lemma only_evicts_trans:
  "only_evicts protected s t \<Longrightarrow> only_evicts protected t u \<Longrightarrow> only_evicts protected s u"
  unfolding only_evicts_def by (intro conjI allI) (simp, simp, simp, metis)

lemma candidate_entry:
  assumes "keys_ok s" "(n, host, path) \<in> set (eviction_candidates protected s)"
  shows "\<exists>e. get_entry s host path = Some e \<and> evictable protected host path e \<and> en_lru_sequence e = n"
proof -
  from assms(2) obtain h e where "(host, h) \<in> set (st_hosts s)" "(path, e) \<in> set (hs_entries h)"
    "evictable protected host path e" "en_lru_sequence e = n"
    by (auto simp: eviction_candidates_def)
  with assms(1) show ?thesis
    by (auto simp: keys_ok_def get_entry_def)
qed

lemma evict_ok:
  assumes "cache_ok cfg s" "(n, host, path) \<in> set (eviction_candidates protected s)"
  shows "cache_ok cfg (evict host path s)" "only_evicts protected s (evict host path s)"
    "total_size (evict host path s) \<le> total_size s"
proof -
  note ok = cache_okD [OF assms(1)]
  from candidate_entry [OF ok(1) assms(2)] obtain e where
    e: "get_entry s host path = Some e" "evictable protected host path e" by blast
  have size: "total_size (remove_entry host path s) + entry_size e = total_size s"
    by (rule total_size_remove [OF ok(1) e(1)])
  have meta: "host_meta (remove_entry host path s) = host_meta s"
    by (auto simp: host_meta_def remove_entry_def update_host_adjust fun_eq_iff option.map_comp comp_def
        cong: map_option_cong)
  show "cache_ok cfg (evict host path s)"
    using size ok keys_ok_remove e(1)
    by (auto simp: cache_ok_def evict_def entry_size_def saturating_sub_def get_entry_remove split: if_splits)
  show "only_evicts protected s (evict host path s)"
    using e meta by (auto simp: only_evicts_def evict_def get_entry_remove)
  show "total_size (evict host path s) \<le> total_size s" using size by (simp add: evict_def)
qed

lemma make_capacity_ok:
  assumes "make_capacity s maximum additional protected = (enough, t)" "cache_ok cfg s"
  shows "cache_ok cfg t \<and> only_evicts protected s t \<and> total_size t \<le> total_size s \<and>
    (enough \<longrightarrow> saturating_add (st_total_bytes t) additional \<le> maximum) \<and>
    (\<not> enough \<longrightarrow> maximum < saturating_add (st_total_bytes t) additional \<and> eviction_candidates protected t = [])"
  using assms
proof (induction s maximum additional protected rule: make_capacity.induct)
  case (1 s maximum additional protected)
  note step = make_capacity.simps [of s maximum additional protected]
  show ?case
  proof (cases "maximum < saturating_add (st_total_bytes s) additional")
    case False
    with "1.prems" show ?thesis by (simp add: step only_evicts_refl)
  next
    case full: True
    show ?thesis
    proof (cases "oldest (eviction_candidates protected s)")
      case None
      with full "1.prems" show ?thesis
        by (auto simp: step only_evicts_refl oldest_def split: if_splits)
    next
      case (Some c)
      obtain n host path where c: "c = (n, host, path)" by (cases c) auto
      with Some have "(n, host, path) \<in> set (eviction_candidates protected s)" by (auto dest: oldest_in)
      note ev = evict_ok [OF "1.prems"(2) this]
      from "1.prems"(1) full Some c
      have "make_capacity (evict host path s) maximum additional protected = (enough, t)"
        by (simp add: step)
      from "1.IH" [OF full Some [unfolded c] refl refl this ev(1)] ev(2,3) show ?thesis
        by (auto intro: only_evicts_trans)
    qed
  qed
qed

end
