(* ===== verification/Edit_Mutate.thy ===== *)
theory Edit_Mutate
  imports Edit_Invariant
begin

text \<open>
  Loading and buffering against the invariant: what \<open>load_fetched\<close>, \<open>cache_clean_if_absent\<close>
  and \<open>mutate_prepared_batch\<close> leave in the cache.
\<close>

section \<open>Saturating sums\<close>

lemma saturating_sum_eq: "saturating_sum ns = min u64_max (sum_list ns)"
proof -
  have "foldl saturating_add (min u64_max a) ns = min u64_max (a + sum_list ns)" for a
  proof (induction ns arbitrary: a)
    case (Cons n ns)
    have "saturating_add (min u64_max a) n = min u64_max (a + n)" by (simp add: saturating_add_def min_def)
    with Cons show ?case by (simp add: add.assoc)
  qed simp
  from this [of 0] show ?thesis by (simp add: saturating_sum_def)
qed

section \<open>Loading\<close>

lemma insert_clean_entry:
  "get_entry (insert_clean sha key snapshot s) host path =
     (if host = key_host key \<and> path = key_path key
      then Some (clean_entry sha snapshot (fst (next_lru s))) else get_entry s host path)"
  by (simp add: insert_clean_def next_lru_def Let_def get_entry_insert)

lemma cache_ok_insert_clean:
  assumes "cache_ok cfg s" "get_entry s (key_host key) (key_path key) = None"
    and "saturating_add (st_total_bytes s) (desired_size (sn_desired snapshot)) \<le> cfg_max_bytes cfg"
    and "cfg_max_bytes cfg < u64_max"
  shows "cache_ok cfg (insert_clean sha key snapshot s)"
proof -
  note ok = cache_okD [OF assms(1)]
  let ?n = "desired_size (sn_desired snapshot)"
  have sum: "st_total_bytes s + ?n \<le> cfg_max_bytes cfg" "saturating_add (st_total_bytes s) ?n = st_total_bytes s + ?n"
    using assms(3,4) by (auto simp: saturating_add_def min_def split: if_splits)
  let ?e = "clean_entry sha snapshot (fst (next_lru s))"
  let ?s1 = "s\<lparr>st_lru_sequence := fst (next_lru s)\<rparr>"
  have "total_size (insert_entry (key_host key) (key_path key) ?e ?s1) = total_size s + ?n"
    using total_size_insert [of ?s1 "key_host key" "key_path key" ?e] ok(1) assms(2)
    by (simp add: entry_size_def clean_entry_def)
  moreover have "keys_ok (insert_entry (key_host key) (key_path key) ?e ?s1)"
    using ok(1) by (intro keys_ok_insert) simp
  moreover have "entry_ok (st_next_generation s) ?e" using ok(4) by (simp add: entry_ok_def clean_entry_def)
  ultimately show ?thesis
    using ok sum
    by (auto simp: cache_ok_def insert_clean_def next_lru_def Let_def get_entry_insert split: if_splits)
qed

lemma cache_ok_load_fetched:
  assumes "load_fetched cfg sha key snapshot s = (d, t)" "cache_ok cfg s" "cfg_max_bytes cfg < u64_max"
  shows "cache_ok cfg t"
proof -
  note capacity = make_capacity_ok [OF _ assms(2)]
  show ?thesis
    using assms(1,2) capacity [of "cfg_max_bytes cfg" "desired_size (sn_desired snapshot)" "[]"] assms(3)
    by (auto simp: load_fetched_def Let_def only_evicts_def split: if_splits option.splits prod.splits bool.splits
        intro!: cache_ok_insert_clean) metis+
qed

lemma cache_ok_cache_clean:
  assumes "cache_ok cfg s" "cfg_max_bytes cfg < u64_max"
  shows "cache_ok cfg (cache_clean_if_absent cfg sha key snapshot s)"
  using assms make_capacity_ok [OF _ assms(1), of "cfg_max_bytes cfg" "desired_size (sn_desired snapshot)" "[]"]
  by (auto simp: cache_clean_if_absent_def Let_def only_evicts_def split: prod.splits bool.splits
      intro!: cache_ok_insert_clean) metis+

section \<open>Buffering\<close>

definition edited :: "(string \<Rightarrow> string) \<Rightarrow> prepared_edit \<Rightarrow> generation \<Rightarrow> entry \<Rightarrow> entry \<Rightarrow> bool" where
  "edited sha edit g e e' \<longleftrightarrow>
     e' = e\<lparr>en_desired_sha256 := desired_sha256 sha (pe_desired edit), en_desired := pe_desired edit,
            en_generation := g, en_dirty := True, en_lru_sequence := en_lru_sequence e'\<rparr>"

definition batch_applied ::
  "(string \<Rightarrow> string) \<Rightarrow> string \<Rightarrow> prepared_edit list \<Rightarrow> cache_state \<Rightarrow> cache_state \<Rightarrow> bool" where
  "batch_applied sha host edits s t \<longleftrightarrow>
     (\<forall>h p. h \<noteq> host \<or> p \<notin> set (map edit_path edits) \<longrightarrow> get_entry t h p = get_entry s h p) \<and>
     (\<forall>i < length edits. \<exists>e e'. get_entry s host (edit_path (edits ! i)) = Some e \<and>
        get_entry t host (edit_path (edits ! i)) = Some e' \<and>
        edited sha (edits ! i) (Generation (st_next_generation s + i)) e e')"

lemma host_meta_update_entry [simp]: "host_meta (update_entry host path f s) = host_meta s"
  by (auto simp: host_meta_def update_entry_adjust fun_eq_iff option.map_comp comp_def)

lemma apply_edits_spec:
  assumes "distinct (map edit_path edits)" "\<forall>e \<in> set edits. get_entry s host (edit_path e) \<noteq> None"
    and "keys_ok s" "st_next_generation s + length edits \<le> u64_max"
  shows "\<exists>t. apply_edits sha host edits s =
      Some (map Generation [st_next_generation s ..< st_next_generation s + length edits], t) \<and>
    keys_ok t \<and> st_next_generation t = st_next_generation s + length edits \<and>
    st_total_bytes t = st_total_bytes s \<and> st_shutting_down t = st_shutting_down s \<and>
    host_meta t = host_meta s \<and> batch_applied sha host edits s t \<and>
    total_size t + sum_list (map (old_size s host) edits) =
      total_size s + sum_list (map (\<lambda>e. desired_size (pe_desired e)) edits)"
  using assms
proof (induction edits arbitrary: s)
  case Nil
  then show ?case by (simp add: batch_applied_def)
next
  case (Cons edit edits)
  let ?p = "edit_path edit" and ?n = "st_next_generation s"
  define lru where "lru = saturating_add (st_lru_sequence s) 1"
  define s2 where "s2 = s\<lparr>st_next_generation := ?n + 1, st_lru_sequence := lru\<rparr>"
  define f :: "entry \<Rightarrow> entry" where "f = (\<lambda>e. e\<lparr>en_desired_sha256 := desired_sha256 sha (pe_desired edit),
      en_desired := pe_desired edit, en_generation := Generation ?n, en_dirty := True,
      en_lru_sequence := lru\<rparr>)"
  define s3 where "s3 = update_entry host ?p f s2"
  have nxt: "saturating_add ?n 1 = ?n + 1" using Cons.prems(4) by (simp add: saturating_add_def)
  obtain e where e: "get_entry s host ?p = Some e" using Cons.prems(2) by auto
  have get2: "get_entry s2 = get_entry s" by (simp add: s2_def)
  have s3: "keys_ok s3" "st_next_generation s3 = ?n + 1" "st_total_bytes s3 = st_total_bytes s"
    "st_shutting_down s3 = st_shutting_down s" "host_meta s3 = host_meta s"
    using Cons.prems(3) by (simp_all add: s3_def s2_def keys_ok_update_entry)
  have get3: "get_entry s3 h p = (if h = host \<and> p = ?p then Some (f e) else get_entry s h p)" for h p
    by (simp add: s3_def get_entry_update_entry get2 e)
  have other: "get_entry s3 host (edit_path x) = get_entry s host (edit_path x)" if "x \<in> set edits" for x
    using Cons.prems(1) imageI [OF that, of edit_path] by (auto simp: get3)
  have "\<exists>t. apply_edits sha host edits s3 =
      Some (map Generation [st_next_generation s3 ..< st_next_generation s3 + length edits], t) \<and>
    keys_ok t \<and> st_next_generation t = st_next_generation s3 + length edits \<and>
    st_total_bytes t = st_total_bytes s3 \<and> st_shutting_down t = st_shutting_down s3 \<and>
    host_meta t = host_meta s3 \<and> batch_applied sha host edits s3 t \<and>
    total_size t + sum_list (map (old_size s3 host) edits) =
      total_size s3 + sum_list (map (\<lambda>e. desired_size (pe_desired e)) edits)"
    using Cons.prems s3 other by (intro Cons.IH) auto
  then obtain t where t: "apply_edits sha host edits s3 =
      Some (map Generation [?n + 1 ..< ?n + 1 + length edits], t)"
    "keys_ok t" "st_next_generation t = ?n + 1 + length edits" "st_total_bytes t = st_total_bytes s"
    "st_shutting_down t = st_shutting_down s" "host_meta t = host_meta s"
    "batch_applied sha host edits s3 t"
    "total_size t + sum_list (map (old_size s3 host) edits) =
      total_size s3 + sum_list (map (\<lambda>e. desired_size (pe_desired e)) edits)"
    unfolding s3 by blast
  have nl: "next_lru (s\<lparr>st_next_generation := ?n + 1\<rparr>) = (lru, s2)"
    by (simp add: next_lru_def s2_def lru_def Let_def)
  have run: "apply_edits sha host (edit # edits) s =
      Some (Generation ?n # map Generation [?n + 1 ..< ?n + 1 + length edits], t)"
    unfolding apply_edits.simps Let_def nxt nl prod.case get2 e option.case
      f_def [symmetric] s3_def [symmetric] t(1) by (simp del: upt_Suc)
  have upt: "[?n ..< ?n + length (edit # edits)] = ?n # [?n + 1 ..< ?n + 1 + length edits]"
    by (simp add: upt_rec)
  have olds: "map (old_size s3 host) edits = map (old_size s host) edits"
    using other by (auto simp: old_size_def)
  have t8: "total_size t + sum_list (map (old_size s host) edits) =
      total_size s3 + sum_list (map (\<lambda>e. desired_size (pe_desired e)) edits)"
    using t(8) unfolding olds .
  have s3_size: "total_size s3 + old_size s host edit = total_size s + desired_size (pe_desired edit)"
    using total_size_update_entry [of s2 host ?p e f] Cons.prems(3) e get2
    by (simp add: s3_def s2_def old_size_def entry_size_def f_def)
  have size: "total_size t + sum_list (map (old_size s host) (edit # edits)) =
      total_size s + sum_list (map (\<lambda>e. desired_size (pe_desired e)) (edit # edits))"
    using t8 s3_size unfolding list.map sum_list.Cons by linarith
  have applied: "batch_applied sha host (edit # edits) s t"
    unfolding batch_applied_def
  proof (intro conjI allI impI)
    fix h p assume "h \<noteq> host \<or> p \<notin> set (map edit_path (edit # edits))"
    then show "get_entry t h p = get_entry s h p"
      using t(7) get3 by (auto simp: batch_applied_def)
  next
    fix i assume i: "i < length (edit # edits)"
    show "\<exists>e e'. get_entry s host (edit_path ((edit # edits) ! i)) = Some e \<and>
        get_entry t host (edit_path ((edit # edits) ! i)) = Some e' \<and>
        edited sha ((edit # edits) ! i) (Generation (?n + i)) e e'"
    proof (cases i)
      case 0
      have "get_entry t host ?p = Some (f e)"
        using t(7) get3 [of host ?p] Cons.prems(1) by (auto simp: batch_applied_def)
      with 0 e show ?thesis by (simp add: edited_def f_def)
    next
      case (Suc j)
      with i have j: "j < length edits" by simp
      with t(7) have "\<exists>e e'. get_entry s3 host (edit_path (edits ! j)) = Some e \<and>
          get_entry t host (edit_path (edits ! j)) = Some e' \<and>
          edited sha (edits ! j) (Generation (st_next_generation s3 + j)) e e'"
        unfolding batch_applied_def by blast
      with Suc other [OF nth_mem [OF j]] show ?thesis by (simp add: s3(2))
    qed
  qed
  show ?case using run upt t(2-6) size applied by simp
qed

lemma check_generations_ok:
  "check_generations s host edits = Inr u \<Longrightarrow> edit \<in> set edits \<Longrightarrow>
     \<exists>e. get_entry s host (edit_path edit) = Some e \<and> en_generation e = pe_expected_generation edit"
  by (induction edits) (auto split: option.splits if_splits)

lemma check_generations_code: "check_generations s host edits = Inl error \<Longrightarrow> xe_kind error = Transient"
  by (induction edits) (auto simp: transient_error_def split: option.splits if_splits)

lemma sum_old_sizes:
  "keys_ok s \<Longrightarrow> distinct (map edit_path edits) \<Longrightarrow> sum_list (map (old_size s host) edits) \<le> total_size s"
proof (induction edits arbitrary: s)
  case (Cons edit edits)
  let ?p = "edit_path edit"
  let ?t = "remove_entry host ?p s"
  have olds: "map (old_size ?t host) edits = map (old_size s host) edits"
  proof (rule map_cong [OF refl])
    fix x assume x: "x \<in> set edits"
    have "edit_path x \<noteq> ?p" using Cons.prems(2) imageI [OF x, of edit_path] by auto
    then show "old_size ?t host x = old_size s host x" by (simp add: old_size_def get_entry_remove)
  qed
  have IH: "sum_list (map (old_size s host) edits) \<le> total_size ?t"
    using Cons.IH [of ?t, unfolded olds] Cons.prems by (simp add: keys_ok_remove)
  have "total_size ?t + old_size s host edit \<le> total_size s"
  proof (cases "get_entry s host ?p")
    case None
    have "AList.delete ?p (hs_entries h) = hs_entries h" if "map_of (st_hosts s) host = Some h" for h
      using None that by (intro AList.delete_id) (simp add: get_entry_def map_of_eq_None_iff)
    then have "total_size ?t = total_size s"
      unfolding remove_entry_def
      by (intro total_size_update_host_same [OF Cons.prems(1)]) (simp add: host_size_def)
    with None show ?thesis by (simp add: old_size_def)
  next
    case (Some e)
    with total_size_remove [OF Cons.prems(1) Some] show ?thesis by (simp add: old_size_def entry_size_def)
  qed
  with IH show ?case by simp
qed simp

definition batch_host :: "string \<Rightarrow> prepared_edit list \<Rightarrow> bool" where
  "batch_host host edits \<longleftrightarrow>
     (\<forall>e \<in> set edits. key_host (pe_key e) = host) \<and> distinct (map edit_path edits)"

lemma only_evicts_batch:
  assumes "only_evicts (map pe_key edits) s t" "batch_host host edits" "e \<in> set edits"
  shows "get_entry t host (edit_path e) = get_entry s host (edit_path e)"
proof -
  have "\<not> evictable (map pe_key edits) host (edit_path e) x" for x
    using assms(2,3) by (auto simp: evictable_def list_ex_iff batch_host_def edit_path_def)
  with assms(1) show ?thesis unfolding only_evicts_def by blast
qed

text \<open>What a buffered batch leaves: some clean entries evicted, then every edit in its entry.\<close>

definition batch_buffered ::
  "(string \<Rightarrow> string) \<Rightarrow> string \<Rightarrow> prepared_edit list \<Rightarrow> cache_state \<Rightarrow> cache_state \<Rightarrow> generation list \<Rightarrow> bool"
where
  "batch_buffered sha host edits s t gs \<longleftrightarrow>
     batch_host host edits \<and>
     gs = map Generation [st_next_generation s ..< st_next_generation s + length edits] \<and>
     st_next_generation t = st_next_generation s + length edits \<and>
     (\<forall>e \<in> set edits. \<exists>x. get_entry s host (edit_path e) = Some x \<and>
        en_generation x = pe_expected_generation e) \<and>
     (\<exists>u. only_evicts (map pe_key edits) s u \<and> batch_applied sha host edits u t)"

lemma total_after_batch:
  fixes total old new add m :: nat
  assumes "old \<le> total" "m < u64_max" "saturating_add total (saturating_sub (min u64_max new) old) \<le> m"
  shows "total - old + new \<le> m" "new \<le> m + old" "min u64_max new = new"
proof -
  have "saturating_add total (saturating_sub (min u64_max new) old) =
      total + (min u64_max new - old)"
    using assms(2,3) by (auto simp: saturating_add_def saturating_sub_def min_def split: if_splits)
  with assms(3) have le: "total + (min u64_max new - old) \<le> m" by simp
  have "new < u64_max"
  proof (rule ccontr)
    assume "\<not> new < u64_max"
    then have "min u64_max new = u64_max" by simp
    with le assms(1,2) show False by linarith
  qed
  then show m: "min u64_max new = new" by simp
  show "total - old + new \<le> m" "new \<le> m + old" using le assms(1) unfolding m by linarith+
qed

lemma entry_ok_edited:
  assumes "entry_ok n e" "edited sha edit (Generation g) e e'" "n \<le> g" "g < m" "0 < n"
  shows "entry_ok m e'"
proof -
  have f: "en_conflict e' = en_conflict e" "en_in_flight e' = en_in_flight e"
    "en_generation e' = Generation g" "en_dirty e'"
    using assms(2) by (simp_all add: edited_def) (cases e', simp)+
  have "x \<le> Generation g" if "en_in_flight e = Some x" for x
    using that assms(1,3) by (cases x; cases "en_generation e") (auto simp: entry_ok_def)
  with f assms show ?thesis by (auto simp: entry_ok_def)
qed

lemma entry_ok_mono: "entry_ok n e \<Longrightarrow> n \<le> m \<Longrightarrow> entry_ok m e"
  by (cases "en_generation e") (auto simp: entry_ok_def)

text \<open>Only a buffered batch changes the generations; a refused one at most evicted.\<close>

definition batch_outcome ::
  "(string \<Rightarrow> string) \<Rightarrow> string \<Rightarrow> prepared_edit list \<Rightarrow> cache_state \<Rightarrow> cache_state
     \<Rightarrow> batch_mutation_disposition edit_result \<Rightarrow> bool" where
  "batch_outcome sha host edits s t r \<longleftrightarrow>
     (case r of
        Inr (Buffered gs) \<Rightarrow> batch_buffered sha host edits s t gs
      | _ \<Rightarrow> only_evicts (map pe_key edits) s t)"

lemma get_entry_touch_host [simp]:
  "get_entry (update_host host (touch_host cfg now payload) s) = get_entry s"
  by (rule get_entry_update_host_same) (simp add: touch_host_def)

lemma mutate_locked_spec:
  assumes "cache_ok cfg s" "batch_host host edits" "cfg_max_bytes cfg < u64_max"
    and "st_next_generation s + length edits \<le> u64_max"
  shows "\<exists>r t eff. mutate_locked cfg sha now host edits s = Some (r, t, eff) \<and>
    cache_ok cfg t \<and> batch_outcome sha host edits s t r"
proof (cases "check_generations s host edits")
  case (Inl error)
  with assms(1) show ?thesis by (simp add: mutate_locked_def batch_outcome_def only_evicts_refl)
next
  case (Inr u)
  let ?old = "sum_list (map (old_size s host) edits)"
  let ?new = "sum_list (map (\<lambda>e. desired_size (pe_desired e)) edits)"
  note checked = check_generations_ok [OF Inr]
  have dist: "distinct (map edit_path edits)" using assms(2) by (simp add: batch_host_def)
  note ok = cache_okD [OF assms(1)]
  have old_le: "?old \<le> cfg_max_bytes cfg"
    using sum_old_sizes [OF ok(1) dist, of host] ok(3) by (rule le_trans)
  have old: "saturating_sum (map (old_size s host) edits) = ?old"
    using old_le assms(3) by (simp add: saturating_sum_eq)
  obtain enough s1 where cap: "make_capacity s (cfg_max_bytes cfg)
      (saturating_sub (min u64_max ?new) ?old) (map pe_key edits) = (enough, s1)" by force
  note capacity = make_capacity_ok [OF cap assms(1)]
  have ok1: "cache_ok cfg s1" and ev: "only_evicts (map pe_key edits) s s1" using capacity by auto
  note cok1 = cache_okD [OF ok1]
  have news: "saturating_sum (map (\<lambda>e. desired_size (pe_desired e)) edits) = min u64_max ?new"
    by (simp add: saturating_sum_eq)
  show ?thesis
  proof (cases enough)
    case False
    with Inr cap old ev ok1 show ?thesis
      by (simp add: mutate_locked_def Let_def news batch_outcome_def)
  next
    case True
    have next1: "st_next_generation s1 = st_next_generation s" using ev by (simp add: only_evicts_def)
    have same: "e \<in> set edits \<Longrightarrow> get_entry s1 host (edit_path e) = get_entry s host (edit_path e)" for e
      by (rule only_evicts_batch [OF ev assms(2)])
    have olds: "map (old_size s1 host) edits = map (old_size s host) edits"
      using same by (auto simp: old_size_def)
    have "\<forall>e \<in> set edits. get_entry s1 host (edit_path e) \<noteq> None" using same checked by fastforce
    from apply_edits_spec [OF dist this cok1(1), of sha] assms(4) next1 obtain s2 where
      s2: "apply_edits sha host edits s1 =
          Some (map Generation [st_next_generation s ..< st_next_generation s + length edits], s2)"
        "keys_ok s2" "st_next_generation s2 = st_next_generation s + length edits"
        "st_total_bytes s2 = st_total_bytes s1" "batch_applied sha host edits s1 s2"
        "total_size s2 + ?old = total_size s1 + ?new"
      unfolding olds by auto
    have room: "saturating_add (st_total_bytes s1) (saturating_sub (min u64_max ?new) ?old) \<le> cfg_max_bytes cfg"
      using capacity True by simp
    have "?old \<le> st_total_bytes s1"
      using sum_old_sizes [OF cok1(1) dist, of host] unfolding olds cok1(2) .
    note total = total_after_batch [OF this assms(3) room]
    have total2: "total_size s2 \<le> cfg_max_bytes cfg"
      "saturating_add (saturating_sub (st_total_bytes s2) ?old) (min u64_max ?new) = total_size s2"
    proof -
      have t2: "total_size s2 = st_total_bytes s1 - ?old + ?new"
        using s2(6) \<open>?old \<le> st_total_bytes s1\<close> cok1(2) by linarith
      with total(1) show le: "total_size s2 \<le> cfg_max_bytes cfg" by simp
      show "saturating_add (saturating_sub (st_total_bytes s2) ?old) (min u64_max ?new) = total_size s2"
        unfolding total(3) s2(4) saturating_sub_def t2 [symmetric]
        using le assms(3) t2 by (simp add: saturating_add_def)
    qed
    let ?payload = "saturating_sum (map pe_payload_bytes edits)"
    define t where "t = (update_host host (touch_host cfg now ?payload) (ensure_host host s2))
        \<lparr>st_total_bytes := total_size s2\<rparr>"
    have "\<exists>eff. mutate_locked cfg sha now host edits s =
        Some (Inr (Buffered (map Generation [st_next_generation s ..< st_next_generation s + length edits])), t, eff)"
      using Inr cap True s2(1) total2(2) old news
      by (simp add: mutate_locked_def Let_def t_def)
    moreover have get_t: "get_entry t h p = get_entry s2 h p" for h p by (simp add: t_def)
    moreover have "batch_applied sha host edits s1 t"
      using s2(5) by (simp add: batch_applied_def get_t)
    moreover have "cache_ok cfg t"
    proof -
      have keys: "keys_ok t"
        unfolding t_def keys_ok_fields
        by (intro keys_ok_update_host keys_ok_ensure s2(2)) (simp add: touch_host_def)
      have size: "total_size t = total_size s2"
        unfolding t_def total_size_fields
        using total_size_update_host_same [OF keys_ok_ensure [OF s2(2), of host], of host "touch_host cfg now ?payload"]
        by (simp add: host_size_def touch_host_def)
      have entries: "entry_ok (st_next_generation t) e" if e: "get_entry t h p = Some e" for h p e
      proof (cases "h = host \<and> p \<in> set (map edit_path edits)")
        case True
        then obtain i where i: "i < length edits" "p = edit_path (edits ! i)" by (auto simp: in_set_conv_nth)
        with s2(5) obtain x x' where
          x: "get_entry s1 host p = Some x" "get_entry s2 host p = Some x'"
          "edited sha (edits ! i) (Generation (st_next_generation s1 + i)) x x'"
          unfolding batch_applied_def by blast
        have "entry_ok (st_next_generation s2) x'"
          using entry_ok_edited [OF cok1(5) [OF x(1)] x(3), of "st_next_generation s2"] cok1(4) i(1) s2(3) next1
          by simp
        with x(2) e True show ?thesis by (simp add: get_t) (simp add: t_def)
      next
        case False
        then have "get_entry s2 h p = get_entry s1 h p" using s2(5) unfolding batch_applied_def by blast
        with e have "entry_ok (st_next_generation s1) e" using cok1(5) by (simp add: get_t)
        then have "entry_ok (st_next_generation s2) e" by (rule entry_ok_mono) (simp add: s2(3) next1)
        then show ?thesis by (simp add: t_def)
      qed
      have "st_next_generation t = st_next_generation s2" by (simp add: t_def)
      then have "0 < st_next_generation t" using s2(3) ok(4) by simp
      with keys size entries total2(1) show ?thesis
        unfolding cache_ok_def by (simp add: size) (simp add: t_def)
    qed
    moreover have "st_next_generation t = st_next_generation s + length edits"
      by (simp add: t_def s2(3))
    ultimately show ?thesis
      using ev checked assms(2) by (auto simp: batch_outcome_def batch_buffered_def)
  qed
qed

end
