(* ===== verification/Edit_System.thy ===== *)
theory Edit_System
  imports Edit_Mutate
begin

text \<open>
  The cache with commits in flight.  The state is the cache and, for every host that holds its
  flush lock, the items handed to the backend; a step is one section of an operation under the
  state lock, so that loads, edits, discards and commits interleave freely.  The invariant
  says in particular that a clean entry is in step with the base recorded for the remote file.
\<close>

section \<open>The steps\<close>

text \<open>The recorded base of a file describes a content.\<close>

fun base_describes :: "(string \<Rightarrow> string) \<Rightarrow> remote_base \<Rightarrow> desired_state \<Rightarrow> bool" where
  "base_describes sha (Base_Regular h mode) (Present bytes) \<longleftrightarrow> h = sha bytes"
| "base_describes sha Base_Missing Deleted \<longleftrightarrow> True"
| "base_describes sha _ _ \<longleftrightarrow> False"

definition snapshot_ok :: "(string \<Rightarrow> string) \<Rightarrow> remote_snapshot \<Rightarrow> bool" where
  "snapshot_ok sha snapshot \<longleftrightarrow> base_describes sha (sn_base snapshot) (sn_desired snapshot)"

text \<open>The hash sent with an item is the hash of its content.\<close>

definition items_hashed :: "(string \<Rightarrow> string) \<Rightarrow> commit_item list \<Rightarrow> bool" where
  "items_hashed sha items \<longleftrightarrow>
     list_all (\<lambda>i. ci_desired_sha256 i = desired_sha256 sha (ci_desired i)) items"

definition success_for :: "(string \<Rightarrow> string) \<Rightarrow> commit_item \<Rightarrow> commit_success \<Rightarrow> bool" where
  "success_for sha i c \<longleftrightarrow>
     cs_key c = ci_key i \<and> cs_generation c = ci_generation i \<and>
     base_describes sha (cs_base c) (ci_desired i)"

text \<open>What a backend may answer: successes for a first part of the items, all without an error.\<close>

definition lawful_outcome ::
  "(string \<Rightarrow> string) \<Rightarrow> commit_item list \<Rightarrow> commit_batch_outcome \<Rightarrow> bool" where
  "lawful_outcome sha items outcome \<longleftrightarrow>
     (\<exists>n \<le> length items. list_all2 (success_for sha) (take n items) (co_successes outcome) \<and>
        (co_error outcome = None \<longrightarrow> n = length items))"

record edit_system =
  sy_cache :: cache_state
  sy_flights :: "string \<Rightarrow> commit_item list option"

inductive edit_step ::
  "edit_cache_config \<Rightarrow> (string \<Rightarrow> string) \<Rightarrow> edit_system \<Rightarrow> edit_system \<Rightarrow> bool"
  for cfg :: edit_cache_config and sha :: "string \<Rightarrow> string" where
  step_lookup: "edit_step cfg sha y (y\<lparr>sy_cache := snd (lookup_complete_with_hash key (sy_cache y))\<rparr>)"
| step_lookup_entry: "edit_step cfg sha y (y\<lparr>sy_cache := snd (lookup_entry key (sy_cache y))\<rparr>)"
| step_ensure: "edit_step cfg sha y (y\<lparr>sy_cache := ensure_host host (sy_cache y)\<rparr>)"
| step_load: "snapshot_ok sha snapshot \<Longrightarrow>
    edit_step cfg sha y (y\<lparr>sy_cache := snd (load_fetched cfg sha key snapshot (sy_cache y))\<rparr>)"
| step_clean: "snapshot_ok sha snapshot \<Longrightarrow>
    edit_step cfg sha y (y\<lparr>sy_cache := cache_clean_if_absent cfg sha key snapshot (sy_cache y)\<rparr>)"
| step_mutate: "mutate_prepared_batch cfg sha now edits (sy_cache y) = Some (r, c, eff) \<Longrightarrow>
    st_next_generation (sy_cache y) + length edits \<le> u64_max \<Longrightarrow>
    edit_step cfg sha y (y\<lparr>sy_cache := c\<rparr>)"
| step_flush_begin: "sy_flights y host = None \<Longrightarrow>
    flush_begin host (sy_cache y) = (Flush_Items items, c) \<Longrightarrow>
    edit_step cfg sha y \<lparr>sy_cache = c, sy_flights = (sy_flights y)(host := Some items)\<rparr>"
| step_flush_finish: "sy_flights y host = Some items \<Longrightarrow> lawful_outcome sha items outcome \<Longrightarrow>
    flush_finish host now items outcome (sy_cache y) = Some (r, c) \<Longrightarrow>
    edit_step cfg sha y \<lparr>sy_cache = c, sy_flights = (sy_flights y)(host := None)\<rparr>"
| step_retry: "edit_step cfg sha y (y\<lparr>sy_cache := retry_outcome_unknown host (sy_cache y)\<rparr>)"
| step_discard: "edit_step cfg sha y (y\<lparr>sy_cache := snd (discard_host_edits host (sy_cache y))\<rparr>)"
| step_invalidate: "edit_step cfg sha y (y\<lparr>sy_cache := invalidate_clean_host host (sy_cache y)\<rparr>)"
| step_shutdown: "edit_step cfg sha y (y\<lparr>sy_cache := snd (shutdown_begin (sy_cache y))\<rparr>)"
| step_timer: "edit_step cfg sha y (y\<lparr>sy_cache := snd (timer_round cfg now host (sy_cache y))\<rparr>)"

definition initial_system :: edit_system where
  "initial_system = \<lparr>sy_cache = new_cache, sy_flights = (\<lambda>_. None)\<rparr>"

inductive edit_reachable ::
  "edit_cache_config \<Rightarrow> (string \<Rightarrow> string) \<Rightarrow> edit_system \<Rightarrow> bool"
  for cfg :: edit_cache_config and sha :: "string \<Rightarrow> string" where
  reach_init: "edit_reachable cfg sha initial_system"
| reach_step: "edit_reachable cfg sha y \<Longrightarrow> edit_step cfg sha y z \<Longrightarrow> edit_reachable cfg sha z"

section \<open>The invariant\<close>

definition in_step :: "(string \<Rightarrow> string) \<Rightarrow> entry \<Rightarrow> bool" where
  "in_step sha e \<longleftrightarrow>
     en_desired_sha256 e = desired_sha256 sha (en_desired e) \<and>
     (\<not> en_dirty e \<longrightarrow> base_describes sha (en_base e) (en_desired e))"

text \<open>An entry in flight has an item of its host's flight, and has it unless edited since.\<close>

definition tracked :: "(string \<Rightarrow> commit_item list option) \<Rightarrow> string \<Rightarrow> string \<Rightarrow> entry \<Rightarrow> bool" where
  "tracked flights host path e \<longleftrightarrow>
     (\<forall>g. en_in_flight e = Some g \<longrightarrow>
        (\<exists>items. flights host = Some items \<and>
           (\<exists>i \<in> set items. item_path i = path \<and> ci_generation i = g \<and>
              (en_generation e = g \<longrightarrow> en_desired e = ci_desired i))))"

definition flights_ok :: "(string \<Rightarrow> string) \<Rightarrow> edit_system \<Rightarrow> bool" where
  "flights_ok sha y \<longleftrightarrow>
     (\<forall>host items. sy_flights y host = Some items \<longrightarrow>
        distinct (map item_path items) \<and> items_hashed sha items \<and> map_of (st_hosts (sy_cache y)) host \<noteq> None)"

definition system_ok :: "edit_cache_config \<Rightarrow> (string \<Rightarrow> string) \<Rightarrow> edit_system \<Rightarrow> bool" where
  "system_ok cfg sha y \<longleftrightarrow>
     cache_ok cfg (sy_cache y) \<and> flights_ok sha y \<and>
     (\<forall>host path e. get_entry (sy_cache y) host path = Some e \<longrightarrow>
        in_step sha e \<and> tracked (sy_flights y) host path e)"

definition entries_from ::
  "(string \<Rightarrow> string \<Rightarrow> entry \<Rightarrow> entry \<Rightarrow> bool) \<Rightarrow> cache_state \<Rightarrow> cache_state \<Rightarrow> bool" where
  "entries_from R s t \<longleftrightarrow>
     (\<forall>host path e'. get_entry t host path = Some e' \<longrightarrow>
        (\<exists>e. get_entry s host path = Some e \<and> R host path e e'))"

definition hosts_kept :: "cache_state \<Rightarrow> cache_state \<Rightarrow> bool" where
  "hosts_kept s t \<longleftrightarrow> (\<forall>host. map_of (st_hosts s) host \<noteq> None \<longrightarrow> map_of (st_hosts t) host \<noteq> None)"

lemma system_okI_cache:
  assumes "system_ok cfg sha y" "cache_ok cfg c" "hosts_kept (sy_cache y) c"
    and "\<And>host path e. get_entry c host path = Some e \<Longrightarrow>
      in_step sha e \<and> tracked (sy_flights y) host path e"
  shows "system_ok cfg sha (y\<lparr>sy_cache := c\<rparr>)"
  using assms by (auto simp: system_ok_def flights_ok_def hosts_kept_def)

text \<open>Steps that only drop entries or change fields the invariant does not read.\<close>

definition same_content :: "entry \<Rightarrow> entry \<Rightarrow> bool" where
  "same_content e e' \<longleftrightarrow>
     en_base e' = en_base e \<and> en_desired e' = en_desired e \<and>
     en_desired_sha256 e' = en_desired_sha256 e \<and> en_generation e' = en_generation e \<and>
     (en_dirty e \<longrightarrow> en_dirty e') \<and> (en_in_flight e' = en_in_flight e \<or> en_in_flight e' = None)"

lemma system_ok_same:
  assumes "system_ok cfg sha y" "cache_ok cfg c" "hosts_kept (sy_cache y) c"
    and "entries_from (\<lambda>_ _. same_content) (sy_cache y) c"
  shows "system_ok cfg sha (y\<lparr>sy_cache := c\<rparr>)"
proof (rule system_okI_cache [OF assms(1-3)])
  fix host path e' assume "get_entry c host path = Some e'"
  with assms(4) obtain e where e: "get_entry (sy_cache y) host path = Some e" "same_content e e'"
    unfolding entries_from_def by blast
  with assms(1) have "in_step sha e" "tracked (sy_flights y) host path e" by (auto simp: system_ok_def)
  with e(2) show "in_step sha e' \<and> tracked (sy_flights y) host path e'"
    by (auto simp: same_content_def in_step_def tracked_def)
qed

lemma same_content_refl [simp]: "same_content e e"
  by (simp add: same_content_def)

lemma hosts_kept_refl [simp]: "hosts_kept s s"
  by (simp add: hosts_kept_def)

lemma hosts_kept_trans: "hosts_kept s t \<Longrightarrow> hosts_kept t u \<Longrightarrow> hosts_kept s u"
  by (simp add: hosts_kept_def)

lemma hosts_kept_simps [simp]:
  "hosts_kept s (t\<lparr>st_total_bytes := a\<rparr>) = hosts_kept s t"
  "hosts_kept s (t\<lparr>st_lru_sequence := b\<rparr>) = hosts_kept s t"
  "hosts_kept s (t\<lparr>st_next_generation := c\<rparr>) = hosts_kept s t"
  "hosts_kept s (t\<lparr>st_shutting_down := d\<rparr>) = hosts_kept s t"
  "hosts_kept s (ensure_host host s)"
  "hosts_kept s (update_host host f s)"
  "hosts_kept s (update_entry host path g s)"
  by (auto simp: hosts_kept_def ensure_host_def update_host_adjust update_entry_adjust map_add_def
      split: option.splits)

lemma hosts_kept_insert: "hosts_kept s (insert_entry host path e s)"
  unfolding insert_entry_def by (rule hosts_kept_trans [OF hosts_kept_simps(5) hosts_kept_simps(6)])

lemma hosts_kept_meta:
  assumes "host_meta t = host_meta s"
  shows "hosts_kept s t"
  unfolding hosts_kept_def
proof (intro allI impI)
  fix host assume "map_of (st_hosts s) host \<noteq> None"
  moreover have "host_meta t host = host_meta s host" by (simp add: assms)
  ultimately show "map_of (st_hosts t) host \<noteq> None"
    by (cases "map_of (st_hosts t) host") (auto simp: host_meta_def)
qed

lemma only_evicts_from: "only_evicts protected s t \<Longrightarrow> entries_from (\<lambda>_ _. same_content) s t"
  unfolding only_evicts_def entries_from_def by (metis option.distinct(1) same_content_refl)

lemma only_evicts_hosts: "only_evicts protected s t \<Longrightarrow> hosts_kept s t"
  by (rule hosts_kept_meta) (simp add: only_evicts_def)

section \<open>Updates of one host\<close>

lemma update_host_cong:
  assumes "keys_ok s" "map_of (st_hosts s) host = Some h" "f h = g h"
  shows "update_host host f s = update_host host g s"
proof -
  have "f x = g x" if "(host, x) \<in> set (st_hosts s)" for x
    using that assms by (auto simp: keys_ok_def)
  then have "map (\<lambda>(k, h). (k, if k = host then f h else h)) (st_hosts s) =
      map (\<lambda>(k, h). (k, if k = host then g h else h)) (st_hosts s)"
    by (intro map_cong [OF refl]) auto
  then show ?thesis by (simp add: update_host_def)
qed

lemma cache_ok_host_fields:
  assumes "cache_ok cfg s" "\<And>h. hs_entries (f h) = hs_entries h"
  shows "cache_ok cfg (update_host host f s)"
  using cache_okD [OF assms(1)]
  by (simp add: cache_ok_def keys_ok_update_host get_entry_update_host_same assms(2)
      total_size_update_host_same host_size_def)

lemma map_of_map_values:
  "map_of (map (\<lambda>(p, e). (p, g e)) xs) p = map_option g (map_of xs p)"
  by (induction xs) auto

lemma weight_map_values:
  "(\<And>e. w (g e) = w e) \<Longrightarrow> weight w (map (\<lambda>(p, e). (p, g e)) xs) = weight w xs"
  by (induction xs) auto

text \<open>A step that rewrites every entry of a host in place.\<close>

lemma get_entry_map_entries:
  assumes "\<And>h. hs_entries (f h) = map (\<lambda>(p, e). (p, g e)) (hs_entries h)"
  shows "get_entry (update_host host f s) h p =
     (if h = host then map_option g (get_entry s h p) else get_entry s h p)"
  unfolding get_entry_update_host
  by (cases "map_of (st_hosts s) host") (auto simp: get_entry_def assms map_of_map_values)

lemma cache_ok_map_entries:
  assumes "cache_ok cfg s" "\<And>h. hs_entries (f h) = map (\<lambda>(p, e). (p, g e)) (hs_entries h)"
    and "\<And>e. entry_size (g e) = entry_size e"
    and "\<And>p e. get_entry s host p = Some e \<Longrightarrow> entry_ok (st_next_generation s) e \<Longrightarrow>
      entry_ok (st_next_generation s) (g e)"
  shows "cache_ok cfg (update_host host f s)"
proof -
  note ok = cache_okD [OF assms(1)]
  have "total_size (update_host host f s) = total_size s"
    by (rule total_size_update_host_same [OF ok(1)]) (simp add: host_size_def assms(2,3) weight_map_values)
  moreover have "keys_ok (update_host host f s)"
    by (rule keys_ok_update_host [OF ok(1)]) (simp add: assms(2) comp_def case_prod_unfold)
  moreover have "entry_ok (st_next_generation s) e" if "get_entry (update_host host f s) h p = Some e" for h p e
    using that ok(5) assms(4) unfolding get_entry_map_entries [OF assms(2)] by (auto split: if_splits)
  ultimately show ?thesis using ok by (simp add: cache_ok_def)
qed

text \<open>A step that drops entries of a host and the bytes they account for.\<close>

definition drop_entries :: "(entry \<Rightarrow> bool) \<Rightarrow> string \<Rightarrow> cache_state \<Rightarrow> cache_state" where
  "drop_entries P host s =
     update_host host (\<lambda>h. h\<lparr>hs_entries := filter (\<lambda>(p, e). \<not> P e) (hs_entries h)\<rparr>) s"

lemma get_entry_drop:
  assumes "keys_ok s"
  shows "get_entry (drop_entries P host s) h p =
     (case get_entry s h p of None \<Rightarrow> None | Some e \<Rightarrow> if h = host \<and> P e then None else Some e)"
proof (cases "map_of (st_hosts s) host")
  case None
  then show ?thesis
    unfolding drop_entries_def get_entry_update_host by (auto simp: get_entry_def split: option.splits)
next
  case (Some x)
  from map_of_filter_distinct [OF keys_okD [OF assms Some], of "\<lambda>e. \<not> P e" p] Some show ?thesis
    unfolding drop_entries_def get_entry_update_host
    by (auto simp: get_entry_def split: option.splits)
qed

lemma weight_filter_sum:
  "weight w (filter P xs) = sum_list (map (\<lambda>(_, e). w e) (filter P xs))"
  by (simp add: weight_def)

lemma cache_ok_drop:
  assumes "cache_ok cfg s" "map_of (st_hosts s) host = Some h" "cfg_max_bytes cfg < u64_max"
  shows "cache_ok cfg ((drop_entries P host s)\<lparr>st_total_bytes := saturating_sub (st_total_bytes s)
     (saturating_sum (map (\<lambda>(_, e). desired_size (en_desired e)) (filter (\<lambda>(_, e). P e) (hs_entries h))))\<rparr>)"
proof -
  note ok = cache_okD [OF assms(1)]
  let ?gone = "sum_list (map (\<lambda>(_, e). desired_size (en_desired e)) (filter (\<lambda>(_, e). P e) (hs_entries h)))"
  let ?t = "drop_entries P host s"
  have gone: "weight entry_size (filter (\<lambda>(_, e). P e) (hs_entries h)) = ?gone"
    by (simp add: weight_def entry_size_def case_prod_unfold)
  have "?gone + weight entry_size (filter (\<lambda>(_, e). \<not> P e) (hs_entries h)) = host_size h"
    using weight_filter [of entry_size "\<lambda>(_, e). P e" "hs_entries h"] gone
    by (simp add: host_size_def case_prod_unfold)
  then have size: "total_size ?t + ?gone = total_size s"
    using total_size_update_host [OF ok(1), of host
        "\<lambda>h. h\<lparr>hs_entries := filter (\<lambda>(p, e). \<not> P e) (hs_entries h)\<rparr>"] assms(2)
    by (simp add: drop_entries_def host_size_def)
  have keys: "keys_ok ?t"
    unfolding drop_entries_def by (rule keys_ok_update_host [OF ok(1)]) (simp add: distinct_fst_filter)
  have "saturating_sum (map (\<lambda>(_, e). desired_size (en_desired e)) (filter (\<lambda>(_, e). P e) (hs_entries h))) = ?gone"
    using size ok(3) assms(3) by (simp add: saturating_sum_eq)
  moreover have "entry_ok (st_next_generation s) e" if "get_entry ?t h p = Some e" for h p e
    using that ok(5) unfolding get_entry_drop [OF ok(1)] by (auto split: option.splits if_splits)
  moreover have "st_next_generation ?t = st_next_generation s" by (simp add: drop_entries_def)
  ultimately show ?thesis
    using ok size keys by (simp add: cache_ok_def saturating_sub_def)
qed

end
