(* ===== verification/Edit_Steps.thy ===== *)
theory Edit_Steps
  imports Edit_System
begin

text \<open>
  Every section of the cache keeps the invariant of theory \<open>Edit_System\<close>, so every reachable
  state of the interleaved system has it.
\<close>

section \<open>Lookups and loads\<close>

lemma entries_from_update_entry:
  assumes "\<And>e. same_content e (f e)"
  shows "entries_from (\<lambda>_ _. same_content) s (update_entry host path f s)"
  using assms by (auto simp: entries_from_def get_entry_update_entry)

lemma entries_from_fields [simp]:
  "entries_from R s (t\<lparr>st_total_bytes := a\<rparr>) = entries_from R s t"
  "entries_from R s (t\<lparr>st_lru_sequence := b\<rparr>) = entries_from R s t"
  "entries_from R s (t\<lparr>st_shutting_down := d\<rparr>) = entries_from R s t"
  "entries_from R (s\<lparr>st_lru_sequence := b\<rparr>) t = entries_from R s t"
  by (simp_all add: entries_from_def)

lemma entries_from_refl [simp]: "entries_from (\<lambda>_ _. same_content) s s"
  by (auto simp: entries_from_def)

lemma same_content_lru [simp]: "same_content e (e\<lparr>en_lru_sequence := n\<rparr>)"
  by (simp add: same_content_def)

lemma entries_from_touch [simp]:
  "entries_from (\<lambda>_ _. same_content) s
     (update_entry host path (\<lambda>e. e\<lparr>en_lru_sequence := n\<rparr>) (s\<lparr>st_lru_sequence := m\<rparr>))"
  using entries_from_update_entry [of "\<lambda>e. e\<lparr>en_lru_sequence := n\<rparr>" "s\<lparr>st_lru_sequence := m\<rparr>"]
  by (auto simp: entries_from_def get_entry_update_entry)

lemma hosts_kept_touch [simp]: "hosts_kept s (update_entry host path f (s\<lparr>st_lru_sequence := m\<rparr>))"
  by (rule hosts_kept_trans [of _ "s\<lparr>st_lru_sequence := m\<rparr>"]) simp_all

lemma system_ok_lookup:
  assumes "system_ok cfg sha y"
  shows "system_ok cfg sha (y\<lparr>sy_cache := snd (lookup_complete_with_hash key (sy_cache y))\<rparr>)"
proof (rule system_ok_same [OF assms])
  show "cache_ok cfg (snd (lookup_complete_with_hash key (sy_cache y)))"
    using assms by (simp add: system_ok_def cache_ok_lookup)
qed (simp_all add: lookup_complete_with_hash_def next_lru_def Let_def split: option.splits)

lemma system_ok_lookup_entry:
  assumes "system_ok cfg sha y"
  shows "system_ok cfg sha (y\<lparr>sy_cache := snd (lookup_entry key (sy_cache y))\<rparr>)"
proof (rule system_ok_same [OF assms])
  show "cache_ok cfg (snd (lookup_entry key (sy_cache y)))"
    using assms by (simp add: system_ok_def cache_ok_lookup_entry)
qed (simp_all add: lookup_entry_def next_lru_def Let_def split: option.splits)

lemma entries_from_ensure [simp]:
  "entries_from (\<lambda>_ _. same_content) s (ensure_host host s)"
  by (auto simp: entries_from_def)

lemma system_ok_ensure:
  assumes "system_ok cfg sha y"
  shows "system_ok cfg sha (y\<lparr>sy_cache := ensure_host host (sy_cache y)\<rparr>)"
  by (rule system_ok_same [OF assms]) (use assms in \<open>simp_all add: system_ok_def cache_ok_ensure\<close>)

lemma in_step_clean: "snapshot_ok sha snapshot \<Longrightarrow> in_step sha (clean_entry sha snapshot lru)"
  by (cases "sn_base snapshot"; cases "sn_desired snapshot")
    (simp_all add: in_step_def clean_entry_def snapshot_ok_def snapshot_desired_sha256_def)

lemma tracked_clean: "tracked flights host path (clean_entry sha snapshot lru)"
  by (simp add: tracked_def clean_entry_def)

text \<open>A load at most evicts, and then inserts a clean entry where there was none.\<close>

definition loads :: "(string \<Rightarrow> string) \<Rightarrow> cache_key \<Rightarrow> remote_snapshot \<Rightarrow> cache_state \<Rightarrow> cache_state \<Rightarrow> bool" where
  "loads sha key snapshot s t \<longleftrightarrow>
     (\<exists>u. only_evicts [] s u \<and>
        (t = u \<or> get_entry s (key_host key) (key_path key) = None \<and> t = insert_clean sha key snapshot u))"

lemma loads_refl: "loads sha key snapshot s s"
  using only_evicts_refl unfolding loads_def by blast

lemma loads_evicts: "only_evicts [] s u \<Longrightarrow> loads sha key snapshot s u"
  unfolding loads_def by blast

lemma loads_insert:
  "only_evicts [] s u \<Longrightarrow> get_entry s (key_host key) (key_path key) = None \<Longrightarrow>
     loads sha key snapshot s (insert_clean sha key snapshot u)"
  unfolding loads_def by blast

lemma load_fetched_loads:
  assumes "cache_ok cfg s"
  shows "loads sha key snapshot s (snd (load_fetched cfg sha key snapshot s))"
proof -
  obtain b u where cap: "make_capacity s (cfg_max_bytes cfg) (desired_size (sn_desired snapshot)) [] = (b, u)"
    by force
  from make_capacity_ok [OF cap assms] have "only_evicts [] s u" by blast
  then show ?thesis
    by (cases b; cases "get_entry s (key_host key) (key_path key)")
      (simp_all add: load_fetched_def Let_def cap loads_refl loads_evicts loads_insert)
qed

lemma cache_clean_loads:
  assumes "cache_ok cfg s"
  shows "loads sha key snapshot s (cache_clean_if_absent cfg sha key snapshot s)"
proof -
  obtain b u where cap: "make_capacity s (cfg_max_bytes cfg) (desired_size (sn_desired snapshot)) [] = (b, u)"
    by force
  from make_capacity_ok [OF cap assms] have "only_evicts [] s u" by blast
  then show ?thesis
    by (cases b; cases "get_entry s (key_host key) (key_path key)")
      (simp_all add: cache_clean_if_absent_def Let_def cap loads_refl loads_evicts loads_insert)
qed

lemma hosts_kept_insert_clean: "hosts_kept s (insert_clean sha key snapshot s)"
  unfolding insert_clean_def next_lru_def Let_def prod.case hosts_kept_simps
  by (rule hosts_kept_trans [OF _ hosts_kept_insert]) simp

lemma loads_hosts: "loads sha key snapshot s t \<Longrightarrow> hosts_kept s t"
  unfolding loads_def using only_evicts_hosts hosts_kept_trans [OF _ hosts_kept_insert_clean] by blast

lemma loads_entry:
  assumes "loads sha key snapshot s t" "get_entry t host path = Some e"
  shows "get_entry s host path = Some e \<or> (\<exists>lru. e = clean_entry sha snapshot lru)"
proof -
  from assms(1) obtain u where u: "only_evicts [] s u" "t = u \<or> t = insert_clean sha key snapshot u"
    unfolding loads_def by blast
  have old: "get_entry s host path = Some x" if "get_entry u host path = Some x" for x
    using u(1) that unfolding only_evicts_def by (metis option.distinct(1))
  from u(2) show ?thesis
  proof
    assume "t = u" then show ?thesis using old assms(2) by simp
  next
    assume "t = insert_clean sha key snapshot u"
    with assms(2) old show ?thesis by (auto simp: insert_clean_entry split: if_splits)
  qed
qed

lemma system_ok_loads:
  assumes "system_ok cfg sha y" "cache_ok cfg c" "loads sha key snapshot (sy_cache y) c"
    and "snapshot_ok sha snapshot"
  shows "system_ok cfg sha (y\<lparr>sy_cache := c\<rparr>)"
proof (rule system_okI_cache [OF assms(1,2) loads_hosts [OF assms(3)]])
  fix host path e assume "get_entry c host path = Some e"
  from loads_entry [OF assms(3) this] assms(1,4) show "in_step sha e \<and> tracked (sy_flights y) host path e"
    by (auto simp: system_ok_def in_step_clean tracked_clean)
qed

section \<open>Buffered edits\<close>

lemma apply_edits_hosts: "apply_edits sha host edits s = Some (gs, t) \<Longrightarrow> hosts_kept s t"
proof (induction edits arbitrary: s gs)
  case (Cons edit edits)
  then obtain f gs' n m where "apply_edits sha host edits
      (update_entry host (edit_path edit) f (s\<lparr>st_next_generation := n, st_lru_sequence := m\<rparr>)) = Some (gs', t)"
    by (auto simp: Let_def next_lru_def split: option.splits)
  from Cons.IH [OF this] show ?case
    by (rule hosts_kept_trans [rotated])
      (rule hosts_kept_trans [of _ "s\<lparr>st_next_generation := n, st_lru_sequence := m\<rparr>"], simp_all)
qed simp

lemma mutate_locked_hosts:
  assumes "mutate_locked cfg sha now host edits s = Some (r, t, eff)" "cache_ok cfg s"
  shows "hosts_kept s t"
proof -
  have evicted: "hosts_kept s u" if "make_capacity s m a p = (b, u)" for m a p b u
    using make_capacity_ok [OF that assms(2)] by (auto intro: only_evicts_hosts)
  have applied: "hosts_kept s (update_host host f (ensure_host host v))"
    if "make_capacity s m a p = (b, u)" "apply_edits sha host edits u = Some (gs, v)" for m a p b u gs v f
    by (rule hosts_kept_trans [OF evicted [OF that(1)] hosts_kept_trans [OF apply_edits_hosts [OF that(2)]]])
      (rule hosts_kept_trans [OF hosts_kept_simps(5) hosts_kept_simps(6)])
  from assms(1) show ?thesis
    by (auto simp: mutate_locked_def Let_def split: sum.splits option.splits prod.splits bool.splits
        intro: evicted applied)
qed

lemma adjacent_equal_sorted: "sorted xs \<Longrightarrow> adjacent_equal xs \<longleftrightarrow> \<not> distinct xs"
proof (induction xs rule: adjacent_equal.induct)
  case (1 a b rest)
  then have "a \<notin> set rest" if "a \<noteq> b" using that by (auto dest: bspec [where x = a] intro: antisym)
  with 1 show ?case by auto
qed simp_all

lemma adjacent_equal_sort: "adjacent_equal (sort xs) \<longleftrightarrow> \<not> distinct xs"
  by (simp add: adjacent_equal_sorted)

text \<open>
  The batch from its call: which cache it worked on, with the host created or not, and what it
  left.
\<close>

lemma mutate_batch_spec:
  assumes "cache_ok cfg s" "cfg_max_bytes cfg < u64_max"
    and "st_next_generation s + length edits \<le> u64_max"
  shows "\<exists>r t eff. mutate_prepared_batch cfg sha now edits s = Some (r, t, eff) \<and>
    cache_ok cfg t \<and> hosts_kept s t \<and>
    (\<exists>host u. (u = s \<or> u = ensure_host host s) \<and> batch_outcome sha host edits u t r)"
proof (cases edits)
  case Nil
  have "batch_outcome sha host [] s s (Inr (Buffered []))" for host
    by (auto simp: batch_outcome_def batch_buffered_def batch_applied_def batch_host_def intro: only_evicts_refl)
  with Nil assms(1) show ?thesis by (auto simp: mutate_prepared_batch_def)
next
  case (Cons first rest)
  define host where "host = key_host (pe_key first)"
  have refused: "batch_outcome sha host edits s s r" if "\<And>gs. r \<noteq> Inr (Buffered gs)" for r
    using that by (auto simp: batch_outcome_def only_evicts_refl split: sum.splits batch_mutation_disposition.splits)
  have "\<exists>m n. mutate_prepared_batch cfg sha now edits s =
      (if list_ex (\<lambda>e. key_host (pe_key e) \<noteq> host) edits then Some (Inl m, s, no_effects)
       else if \<not> distinct (map edit_path edits) then Some (Inl n, s, no_effects)
       else if list_ex (\<lambda>e. cfg_max_bytes cfg < desired_size (pe_desired e)) edits then
         Some (Inr Batch_ImmediateWriteRequired, s, no_effects)
       else mutate_locked cfg sha now host edits (ensure_host host s))"
    unfolding mutate_prepared_batch_def Cons list.case Let_def adjacent_equal_sort host_def
    by (intro exI) (rule refl)
  then obtain m n where code: "mutate_prepared_batch cfg sha now edits s =
      (if list_ex (\<lambda>e. key_host (pe_key e) \<noteq> host) edits then Some (Inl m, s, no_effects)
       else if \<not> distinct (map edit_path edits) then Some (Inl n, s, no_effects)
       else if list_ex (\<lambda>e. cfg_max_bytes cfg < desired_size (pe_desired e)) edits then
         Some (Inr Batch_ImmediateWriteRequired, s, no_effects)
       else mutate_locked cfg sha now host edits (ensure_host host s))" by blast
  show ?thesis
  proof (cases "batch_host host edits \<and> \<not> list_ex (\<lambda>e. cfg_max_bytes cfg < desired_size (pe_desired e)) edits")
    case False
    then have "\<exists>r. mutate_prepared_batch cfg sha now edits s = Some (r, s, no_effects) \<and>
        (\<forall>gs. r \<noteq> Inr (Buffered gs))"
      unfolding code batch_host_def list_ex_iff by auto
    with refused assms(1) hosts_kept_refl show ?thesis by blast
  next
    case True
    then have run: "mutate_prepared_batch cfg sha now edits s =
        mutate_locked cfg sha now host edits (ensure_host host s)"
      unfolding code batch_host_def list_ex_iff by auto
    from mutate_locked_spec [OF cache_ok_ensure [OF assms(1)] conjunct1 [OF True] assms(2), of host sha now] assms(3)
    obtain r t eff where m: "mutate_locked cfg sha now host edits (ensure_host host s) = Some (r, t, eff)"
      "cache_ok cfg t" "batch_outcome sha host edits (ensure_host host s) t r" by auto
    have "hosts_kept s t"
      using mutate_locked_hosts [OF m(1) cache_ok_ensure [OF assms(1)]]
      by (rule hosts_kept_trans [OF hosts_kept_simps(5)])
    moreover have "mutate_prepared_batch cfg sha now edits s = Some (r, t, eff)" using m(1) run by simp
    ultimately show ?thesis using m(2,3) by (intro exI [of _ r] exI [of _ t] exI [of _ eff]) auto
  qed
qed

lemma edited_ok:
  assumes "edited sha edit (Generation n) e e'" "entry_ok n e" "tracked flights host path e"
  shows "in_step sha e' \<and> tracked flights host path e'"
proof -
  have f: "en_dirty e'" "en_in_flight e' = en_in_flight e" "en_generation e' = Generation n"
    "en_desired_sha256 e' = desired_sha256 sha (en_desired e')"
    using assms(1) by (simp_all add: edited_def) (cases e', simp)+
  have "g < Generation n" if "en_in_flight e = Some g" for g
    using assms(2) that by (auto simp: entry_ok_def intro: le_less_trans)
  with f assms(3) show ?thesis by (fastforce simp: in_step_def tracked_def)
qed

lemma system_ok_batch:
  assumes "system_ok cfg sha y" "cache_ok cfg t" "hosts_kept (sy_cache y) t"
    and "u = sy_cache y \<or> u = ensure_host host (sy_cache y)" "batch_outcome sha host edits u t r"
  shows "system_ok cfg sha (y\<lparr>sy_cache := t\<rparr>)"
proof (rule system_okI_cache [OF assms(1-3)])
  fix h p e' assume e': "get_entry t h p = Some e'"
  have get_u: "get_entry u = get_entry (sy_cache y)" and next_u: "st_next_generation u = st_next_generation (sy_cache y)"
    using assms(4) by (auto simp: fun_eq_iff)
  have good: "in_step sha e \<and> tracked (sy_flights y) h p e \<and> entry_ok (st_next_generation u) e"
    if "get_entry u h p = Some e" for e
    using assms(1) that by (auto simp: system_ok_def cache_ok_def get_u next_u)
  have evicted: "in_step sha e \<and> tracked (sy_flights y) h p e \<and> entry_ok (st_next_generation u) e"
    if "only_evicts (map pe_key edits) u v" "get_entry v h p = Some e" for v e
    using that good unfolding only_evicts_def by (metis option.distinct(1))
  show "in_step sha e' \<and> tracked (sy_flights y) h p e'"
  proof (cases "\<exists>gs. r = Inr (Buffered gs)")
    case False
    then have "only_evicts (map pe_key edits) u t"
      using assms(5) by (auto simp: batch_outcome_def split: sum.splits batch_mutation_disposition.splits)
    from evicted [OF this e'] show ?thesis by blast
  next
    case True
    then obtain v where v: "only_evicts (map pe_key edits) u v" "batch_applied sha host edits v t"
      using assms(5) by (auto simp: batch_outcome_def batch_buffered_def)
    show ?thesis
    proof (cases "h = host \<and> p \<in> set (map edit_path edits)")
      case False
      then have "get_entry v h p = Some e'" using v(2) e' unfolding batch_applied_def by metis
      from evicted [OF v(1) this] show ?thesis by blast
    next
      case True
      then obtain i where i: "i < length edits" "p = edit_path (edits ! i)" by (auto simp: in_set_conv_nth)
      with v(2) True e' obtain e where e: "get_entry v h p = Some e"
        "edited sha (edits ! i) (Generation (st_next_generation v + i)) e e'"
        unfolding batch_applied_def by (metis option.inject)
      have "st_next_generation v = st_next_generation u" using v(1) by (simp add: only_evicts_def)
      then have "entry_ok (st_next_generation v + i) e"
        using evicted [OF v(1) e(1)] by (auto intro: entry_ok_mono)
      from edited_ok [OF e(2) this] evicted [OF v(1) e(1)] show ?thesis by blast
    qed
  qed
qed

end
