(* ===== verification/Edit_Commit.thy ===== *)
theory Edit_Commit
  imports Edit_Steps "HOL-Library.Multiset"
begin

text \<open>
  The two sections of a flush and the remaining steps keep the invariant; the reachable states
  have it, and the flush never meets the failed \<open>expect\<close> of the source.
\<close>

section \<open>Before the commit\<close>

definition mark_entry :: "entry \<Rightarrow> entry" where
  "mark_entry e = (if wants_flush e then e\<lparr>en_in_flight := Some (en_generation e)\<rparr> else e)"

definition start_flush :: "host_state \<Rightarrow> host_state" where
  "start_flush h = h\<lparr>hs_entries := map (\<lambda>(p, e). (p, mark_entry e)) (hs_entries h),
     hs_dirty_payload_bytes := 0, hs_first_dirty_deadline := None, hs_retry_deadline := None\<rparr>"

lemma hs_entries_start [simp]: "hs_entries (start_flush h) = map (\<lambda>(p, e). (p, mark_entry e)) (hs_entries h)"
  by (simp add: start_flush_def)

definition flush_items :: "string \<Rightarrow> host_state \<Rightarrow> commit_item list" where
  "flush_items host h = sort_key item_path (map (\<lambda>(path, e). commit_item_of host path e)
     (filter (\<lambda>(_, e). wants_flush e) (hs_entries h)))"

lemma flush_begin_items:
  assumes "flush_begin host s = (Flush_Items items, c)" "keys_ok s"
  shows "\<exists>h. map_of (st_hosts s) host = Some h \<and> first_conflict h = None \<and>
    items = flush_items host h \<and> items \<noteq> [] \<and> c = update_host host start_flush s"
proof -
  from assms(1) obtain h where h: "map_of (st_hosts s) host = Some h" "first_conflict h = None"
    "items = flush_items host h" "items \<noteq> []"
    "c = update_host host (\<lambda>x. x\<lparr>hs_entries := map (\<lambda>(p, e). (p, mark_entry e)) (hs_entries h),
           hs_dirty_payload_bytes := 0, hs_first_dirty_deadline := None, hs_retry_deadline := None\<rparr>) s"
    by (auto simp: flush_begin_def flush_items_def mark_entry_def Let_def
        split: option.splits if_splits cong: if_cong)
  moreover have "c = update_host host start_flush s"
    unfolding h(5) by (rule update_host_cong [OF assms(2) h(1)]) (simp add: start_flush_def)
  ultimately show ?thesis by blast
qed

lemma flush_items_set:
  assumes "distinct (map fst (hs_entries h))"
  shows "i \<in> set (flush_items host h) \<longleftrightarrow>
    (\<exists>path e. map_of (hs_entries h) path = Some e \<and> wants_flush e \<and> i = commit_item_of host path e)"
  using assms by (auto simp: flush_items_def)

lemma item_path_commit [simp]: "item_path (commit_item_of host path e) = path"
  by (simp add: item_path_def commit_item_of_def)

lemma flush_items_distinct:
  assumes "distinct (map fst (hs_entries h))"
  shows "distinct (map item_path (flush_items host h))"
proof -
  let ?xs = "filter (\<lambda>(_, e). wants_flush e) (hs_entries h)"
  have "mset (map item_path (flush_items host h)) = mset (map fst ?xs)"
    by (simp add: flush_items_def comp_def case_prod_unfold image_mset.compositionality)
  from mset_eq_imp_distinct_iff [OF this] distinct_fst_filter [OF assms] show ?thesis by blast
qed

lemma first_conflict_None:
  assumes "first_conflict h = None" "map_of (hs_entries h) path = Some e"
  shows "en_conflict e = None"
proof -
  have "(path, e) \<in> set (hs_entries h)" using assms(2) by (rule map_of_SomeD)
  with assms(1) show ?thesis by (auto simp: first_conflict_def find_None_iff split: option.splits)
      (auto simp: find_Some_iff)
qed

lemma entry_ok_mark: "entry_ok n e \<Longrightarrow> en_conflict e = None \<Longrightarrow> entry_ok n (mark_entry e)"
  by (auto simp: entry_ok_def mark_entry_def wants_flush_def)

lemma cache_ok_start:
  assumes "cache_ok cfg s" "map_of (st_hosts s) host = Some h" "first_conflict h = None"
  shows "cache_ok cfg (update_host host start_flush s)"
proof (rule cache_ok_map_entries [OF assms(1), where g = mark_entry])
  fix p e assume "get_entry s host p = Some e" "entry_ok (st_next_generation s) e"
  with assms(2,3) first_conflict_None show "entry_ok (st_next_generation s) (mark_entry e)"
    by (auto simp: get_entry_def intro: entry_ok_mark)
qed (simp_all add: entry_size_def mark_entry_def)

lemma get_entry_start:
  "get_entry (update_host host start_flush s) h p =
     (if h = host then map_option mark_entry (get_entry s h p) else get_entry s h p)"
  by (rule get_entry_map_entries) simp

text \<open>An entry that changes to \<open>mark_entry e\<close> is followed by its item.\<close>

lemma tracked_mark:
  assumes "tracked flights host path e" "flights host = None"
    and "wants_flush e \<Longrightarrow> commit_item_of host path e \<in> set items"
  shows "tracked (flights(host := Some items)) host path (mark_entry e)"
proof (cases "wants_flush e")
  case True
  with assms(3) show ?thesis
    by (auto simp: tracked_def mark_entry_def commit_item_of_def item_path_def intro!: bexI)
next
  case False
  with assms(1,2) show ?thesis by (simp add: tracked_def mark_entry_def)
qed

lemma system_ok_begin:
  assumes "system_ok cfg sha y" "sy_flights y host = None"
    and "flush_begin host (sy_cache y) = (Flush_Items items, c)"
  shows "system_ok cfg sha \<lparr>sy_cache = c, sy_flights = (sy_flights y)(host := Some items)\<rparr>"
proof -
  have ok: "cache_ok cfg (sy_cache y)" using assms(1) by (simp add: system_ok_def)
  note keys = cache_okD(1) [OF ok]
  from flush_begin_items [OF assms(3) keys] obtain h where h: "map_of (st_hosts (sy_cache y)) host = Some h"
    "items = flush_items host h" "first_conflict h = None" "c = update_host host start_flush (sy_cache y)" by blast
  note dist = keys_okD [OF keys h(1)]
  have kept: "hosts_kept (sy_cache y) c" using h(4) by simp
  have "ci_desired_sha256 i = desired_sha256 sha (ci_desired i)" if "i \<in> set items" for i
  proof -
    from that obtain p e where e: "map_of (hs_entries h) p = Some e" "i = commit_item_of host p e"
      unfolding h(2) flush_items_set [OF dist] by blast
    then have "get_entry (sy_cache y) host p = Some e" using h(1) by (simp add: get_entry_def)
    with assms(1) have "in_step sha e" unfolding system_ok_def by blast
    with e(2) show ?thesis by (simp add: commit_item_of_def in_step_def)
  qed
  then have "items_hashed sha items" by (simp add: items_hashed_def list_all_iff)
  then have "flights_ok sha \<lparr>sy_cache = c, sy_flights = (sy_flights y)(host := Some items)\<rparr>"
    using assms(1) kept h(1) flush_items_distinct [OF dist]
    by (auto simp: flights_ok_def system_ok_def hosts_kept_def h(2))
  moreover have "in_step sha e' \<and> tracked ((sy_flights y)(host := Some items)) k p e'"
    if e': "get_entry c k p = Some e'" for k p e'
  proof (cases "k = host")
    case True
    with e' obtain e where e: "get_entry (sy_cache y) host p = Some e" "e' = mark_entry e"
      by (auto simp: h(4) get_entry_start)
    with assms(1) have good: "in_step sha e" "tracked (sy_flights y) host p e" by (auto simp: system_ok_def)
    have "wants_flush e \<Longrightarrow> commit_item_of host p e \<in> set items"
      using e(1) h(1) unfolding h(2) flush_items_set [OF dist] by (auto simp: get_entry_def)
    from tracked_mark [OF good(2) assms(2) this] good(1) e(2) True show ?thesis
      by (auto simp: in_step_def mark_entry_def wants_flush_def)
  next
    case False
    with e' have "get_entry (sy_cache y) k p = Some e'" by (simp add: h(4) get_entry_start)
    with assms(1) False show ?thesis by (auto simp: system_ok_def tracked_def)
  qed
  ultimately show ?thesis
    using cache_ok_start [OF ok h(1,3)] by (simp add: system_ok_def h(4))
qed

section \<open>After the commit\<close>

lemma get_entry_fold:
  "get_entry (fold (\<lambda>x. update_entry host (k x) (f x)) xs s) h p =
     (if h = host then map_option (fold (\<lambda>x e. if k x = p then f x e else e) xs) (get_entry s h p)
      else get_entry s h p)"
proof (induction xs arbitrary: s)
  case Nil
  then show ?case by (simp add: option.map_id0 [unfolded id_def])
next
  case (Cons x xs)
  then show ?case
    by (auto simp: get_entry_update_entry option.map_comp comp_def)
qed

lemma cache_ok_fold:
  assumes "\<And>x e. entry_size (f x e) = entry_size e" "\<And>x n e. entry_ok n e \<Longrightarrow> entry_ok n (f x e)"
  shows "cache_ok cfg s \<Longrightarrow> cache_ok cfg (fold (\<lambda>x. update_entry host (k x) (f x)) xs s)"
  by (induction xs arbitrary: s) (simp_all add: cache_ok_update_entry assms)

lemma hosts_kept_fold: "hosts_kept s (fold (\<lambda>x. update_entry host (k x) (f x)) xs s)"
  by (induction xs arbitrary: s) (auto intro: hosts_kept_trans [OF hosts_kept_simps(7)])

lemma entry_ok_accept: "entry_ok n e \<Longrightarrow> entry_ok n (accept_success c e)"
  by (auto simp: entry_ok_def accept_success_def)

lemma entry_ok_reject: "entry_ok n e \<Longrightarrow> entry_ok n (reject_item error i e)"
  by (auto simp: entry_ok_def reject_item_def)

lemma entry_size_settle [simp]:
  "entry_size (accept_success c e) = entry_size e" "entry_size (reject_item error i e) = entry_size e"
  by (simp_all add: entry_size_def accept_success_def reject_item_def)

text \<open>The settling of one entry: by the successes, and by the items when there was an error.\<close>

definition settle_entry ::
  "commit_item list \<Rightarrow> commit_batch_outcome \<Rightarrow> string \<Rightarrow> entry \<Rightarrow> entry" where
  "settle_entry items outcome path e =
     (let e1 = fold (\<lambda>c e. if key_path (cs_key c) = path then accept_success c e else e)
                 (co_successes outcome) e
      in case co_error outcome of
           None \<Rightarrow> e1
         | Some error \<Rightarrow> fold (\<lambda>i e. if item_path i = path then reject_item error i e else e) items e1)"

lemma flush_finish_spec:
  assumes "flush_finish host now items outcome s = Some (r, t)"
  shows "get_entry t h p =
      (if h = host then map_option (settle_entry items outcome p) (get_entry s h p) else get_entry s h p)"
    and "cache_ok cfg s \<Longrightarrow> cache_ok cfg t" and "hosts_kept s t"
proof -
  have retry: "hs_entries (schedule_retry now error h) = hs_entries h" for error h
    by (simp add: schedule_retry_def)
  note defs = flush_finish_def Let_def accept_successes_def reject_items_def
  show "get_entry t h p =
      (if h = host then map_option (settle_entry items outcome p) (get_entry s h p) else get_entry s h p)"
    using assms
    by (auto simp: defs get_entry_update_host_same retry get_entry_fold settle_entry_def [abs_def] option.map_comp comp_def
        split: option.splits)
  show "cache_ok cfg t" if "cache_ok cfg s"
    using assms that
    by (auto simp: defs retry split: option.splits
        intro!: cache_ok_host_fields cache_ok_fold entry_ok_accept entry_ok_reject)
  show "hosts_kept s t"
    using assms
    by (auto simp: defs split: option.splits
        intro: hosts_kept_trans [OF hosts_kept_fold hosts_kept_simps(6)]
          hosts_kept_trans [OF hosts_kept_fold hosts_kept_trans [OF hosts_kept_fold hosts_kept_simps(6)]])
qed

text \<open>What the settling keeps of an entry whose flight holds \<open>items\<close>.\<close>

definition follows :: "(string \<Rightarrow> string) \<Rightarrow> commit_item list \<Rightarrow> string \<Rightarrow> entry \<Rightarrow> bool" where
  "follows sha items path e \<longleftrightarrow> in_step sha e \<and> (en_in_flight e \<noteq> None \<longrightarrow> en_dirty e) \<and>
     (\<forall>g. en_in_flight e = Some g \<longrightarrow>
        (\<exists>i \<in> set items. item_path i = path \<and> ci_generation i = g \<and>
           (en_generation e = g \<longrightarrow> en_desired e = ci_desired i)))"

lemma item_unique:
  "distinct (map item_path items) \<Longrightarrow> i \<in> set items \<Longrightarrow> j \<in> set items \<Longrightarrow>
     item_path i = item_path j \<Longrightarrow> i = j"
  by (auto simp: distinct_map dest: inj_onD)

lemma follows_accept:
  assumes "follows sha items path e" "distinct (map item_path items)" "i \<in> set items"
    and "success_for sha i c" "key_path (cs_key c) = path"
  shows "follows sha items path (accept_success c e)"
proof (cases "en_in_flight e = Some (cs_generation c)")
  case False
  with assms(1) show ?thesis by (simp add: accept_success_def)
next
  case True
  with assms(1) obtain j where j: "j \<in> set items" "item_path j = path"
    "ci_generation j = cs_generation c"
    "en_generation e = cs_generation c \<longrightarrow> en_desired e = ci_desired j"
    unfolding follows_def by blast
  have "item_path i = path" using assms(4,5) by (simp add: success_for_def item_path_def)
  with item_unique [OF assms(2) j(1) assms(3)] j(2) have "j = i" by simp
  with j(4) assms(4) have "en_generation e = cs_generation c \<Longrightarrow> base_describes sha (cs_base c) (en_desired e)"
    by (simp add: success_for_def)
  moreover have "en_dirty e" if "en_generation e \<noteq> cs_generation c"
    using True assms(1) by (simp add: follows_def)
  moreover have "en_desired_sha256 e = desired_sha256 sha (en_desired e)"
    using assms(1) by (simp add: follows_def in_step_def)
  ultimately show ?thesis
    by (simp add: follows_def accept_success_def in_step_def True)
qed

lemma follows_reject:
  assumes "follows sha items path e"
  shows "follows sha items path (reject_item error i e)"
  using assms by (cases "en_in_flight e = Some (ci_generation i)")
    (simp_all add: follows_def reject_item_def in_step_def)

lemma fold_invariant_if:
  assumes "\<And>x e. x \<in> set xs \<Longrightarrow> k x = p \<Longrightarrow> P e \<Longrightarrow> P (f x e)" "P e"
  shows "P (fold (\<lambda>x e. if k x = p then f x e else e) xs e)"
  using assms by (induction xs arbitrary: e) auto

lemma lawful_success:
  assumes "lawful_outcome sha items outcome" "c \<in> set (co_successes outcome)"
  shows "\<exists>i \<in> set items. success_for sha i c"
proof -
  from assms(1) obtain n where n: "list_all2 (success_for sha) (take n items) (co_successes outcome)"
    unfolding lawful_outcome_def by blast
  from assms(2) obtain j where j: "j < length (co_successes outcome)" "c = co_successes outcome ! j"
    by (auto simp: in_set_conv_nth)
  with n have "success_for sha (take n items ! j) c" "take n items ! j \<in> set (take n items)"
    by (metis list_all2_nthD2, metis list_all2_lengthD nth_mem)
  then show ?thesis by (blast dest: in_set_takeD)
qed

lemma follows_settle:
  assumes "follows sha items path e" "distinct (map item_path items)" "lawful_outcome sha items outcome"
  shows "follows sha items path (settle_entry items outcome path e)"
proof -
  have "follows sha items path (fold (\<lambda>c e. if key_path (cs_key c) = path then accept_success c e else e)
      (co_successes outcome) e)"
  proof (rule fold_invariant_if [where P = "follows sha items path"])
    show "follows sha items path e" by (rule assms(1))
  next
    fix c e assume "c \<in> set (co_successes outcome)" "key_path (cs_key c) = path" "follows sha items path e"
    with lawful_success [OF assms(3)] show "follows sha items path (accept_success c e)"
      by (blast intro: follows_accept [OF _ assms(2)])
  qed
  then show ?thesis
    by (cases "co_error outcome")
      (simp_all add: settle_entry_def fold_invariant_if [where P = "follows sha items path"] follows_reject)
qed

subsection \<open>Nothing stays in flight\<close>

lemma fold_clears:
  assumes "\<And>x e. en_in_flight e = None \<Longrightarrow> en_in_flight (f x e) = None"
    and "\<And>e. en_in_flight e = Some g \<Longrightarrow> en_in_flight (f x e) = None"
    and "\<And>x e. en_in_flight (f x e) \<in> {en_in_flight e, None}"
    and "x \<in> set xs" "k x = p" "en_in_flight e \<in> {Some g, None}"
  shows "en_in_flight (fold (\<lambda>x e. if k x = p then f x e else e) xs e) = None"
  using assms(4,6)
proof (induction xs arbitrary: e)
  case (Cons y ys)
  have none: "en_in_flight (fold (\<lambda>x e. if k x = p then f x e else e) ys a) = None"
    if "en_in_flight a = None" for a
    by (rule fold_invariant_if [where P = "\<lambda>e. en_in_flight e = None", OF assms(1) that])
  show ?case
  proof (cases "x = y")
    case True
    with Cons.prems assms(1,2,5) have "en_in_flight (f y e) = None" by auto
    with True assms(5) show ?thesis by (simp add: none)
  next
    case False
    let ?e = "if k y = p then f y e else e"
    have "en_in_flight ?e \<in> {Some g, None}" using Cons.prems(2) assms(3) [of y e] by auto
    with False Cons.prems(1) Cons.IH [of ?e] show ?thesis by simp
  qed
qed simp

lemma settle_clears:
  assumes "follows sha items path e" "lawful_outcome sha items outcome"
  shows "en_in_flight (settle_entry items outcome path e) = None"
proof -
  let ?e1 = "fold (\<lambda>c e. if key_path (cs_key c) = path then accept_success c e else e) (co_successes outcome) e"
  have none: "en_in_flight ?e1 = None" if "en_in_flight e = None"
    by (rule fold_invariant_if [where P = "\<lambda>e. en_in_flight e = None", OF _ that]) (simp add: accept_success_def)
  show ?thesis
  proof (cases "en_in_flight e")
    case None
    with none show ?thesis
      by (auto simp: settle_entry_def Let_def reject_item_def split: option.splits
          intro!: fold_invariant_if [where P = "\<lambda>e. en_in_flight e = None"])
  next
    case (Some g)
    with assms(1) obtain i where i: "i \<in> set items" "item_path i = path" "ci_generation i = g"
      unfolding follows_def by blast
    show ?thesis
    proof (cases "co_error outcome")
      case None
      with assms(2) have "list_all2 (success_for sha) items (co_successes outcome)"
        by (auto simp: lawful_outcome_def)
      with i obtain c where "c \<in> set (co_successes outcome)" "key_path (cs_key c) = path" "cs_generation c = g"
        by (auto simp: list_all2_conv_all_nth in_set_conv_nth success_for_def item_path_def) metis
      with Some have "en_in_flight ?e1 = None"
        by (intro fold_clears [where x = c and g = g]) (auto simp: accept_success_def)
      with None show ?thesis by (simp add: settle_entry_def)
    next
      case (Some error)
      have "en_in_flight ?e1 \<in> {Some g, None}"
        by (rule fold_invariant_if [where P = "\<lambda>e. en_in_flight e \<in> {Some g, None}"])
          (use \<open>en_in_flight e = Some g\<close> in \<open>auto simp: accept_success_def\<close>)
      with i have "en_in_flight (fold (\<lambda>i e. if item_path i = path then reject_item error i e else e) items ?e1) = None"
        by (intro fold_clears [where x = i and g = g]) (auto simp: reject_item_def)
      with Some show ?thesis by (simp add: settle_entry_def)
    qed
  qed
qed

lemma tracked_follows:
  "tracked flights host path e \<Longrightarrow> flights host = Some items \<Longrightarrow> in_step sha e \<Longrightarrow>
     entry_ok n e \<Longrightarrow> follows sha items path e"
  by (auto simp: tracked_def follows_def entry_ok_def)

lemma system_ok_finish:
  assumes "system_ok cfg sha y" "sy_flights y host = Some items" "lawful_outcome sha items outcome"
    and "flush_finish host now items outcome (sy_cache y) = Some (r, c)"
  shows "system_ok cfg sha \<lparr>sy_cache = c, sy_flights = (sy_flights y)(host := None)\<rparr>"
proof -
  note fin = flush_finish_spec [OF assms(4)]
  have ok: "cache_ok cfg c" using assms(1) fin(2) by (simp add: system_ok_def)
  have fl: "flights_ok sha \<lparr>sy_cache = c, sy_flights = (sy_flights y)(host := None)\<rparr>"
    using assms(1) fin(3) by (auto simp: flights_ok_def system_ok_def hosts_kept_def)
  have dist: "distinct (map item_path items)" using assms(1,2) by (auto simp: system_ok_def flights_ok_def)
  have "in_step sha e' \<and> tracked ((sy_flights y)(host := None)) k p e'"
    if e': "get_entry c k p = Some e'" for k p e'
  proof (cases "k = host")
    case True
    with e' obtain e where e: "get_entry (sy_cache y) host p = Some e" "e' = settle_entry items outcome p e"
      by (auto simp: fin(1))
    from assms(1) e(1) have "tracked (sy_flights y) host p e" "in_step sha e"
      "entry_ok (st_next_generation (sy_cache y)) e" by (auto simp: system_ok_def cache_ok_def)
    from tracked_follows [OF this(1) assms(2) this(2,3)] have "follows sha items p e" .
    from follows_settle [OF this dist assms(3)] settle_clears [OF this assms(3)] e(2) show ?thesis
      by (simp add: follows_def tracked_def)
  next
    case False
    with e' have "get_entry (sy_cache y) k p = Some e'" by (simp add: fin(1))
    with assms(1) False show ?thesis by (auto simp: system_ok_def tracked_def)
  qed
  with ok fl show ?thesis by (simp add: system_ok_def)
qed

section \<open>The other steps\<close>

lemma same_content_retry: "same_content e (retry_entry e)"
  by (simp add: same_content_def retry_entry_def)

lemma system_ok_retry:
  assumes "system_ok cfg sha y"
  shows "system_ok cfg sha (y\<lparr>sy_cache := retry_outcome_unknown host (sy_cache y)\<rparr>)"
proof -
  let ?f = "\<lambda>h. h\<lparr>hs_entries := map (\<lambda>(p, e). (p, retry_entry e)) (hs_entries h)\<rparr>"
  have ok: "cache_ok cfg (sy_cache y)" using assms by (simp add: system_ok_def)
  have "get_entry (update_host host ?f (sy_cache y)) h p =
      (if h = host then map_option retry_entry (get_entry (sy_cache y) h p) else get_entry (sy_cache y) h p)" for h p
    by (rule get_entry_map_entries) simp
  then have "entries_from (\<lambda>_ _. same_content) (sy_cache y) (retry_outcome_unknown host (sy_cache y))"
    by (auto simp: entries_from_def retry_outcome_unknown_def same_content_retry)
  moreover have "cache_ok cfg (retry_outcome_unknown host (sy_cache y))"
    unfolding retry_outcome_unknown_def
    by (rule cache_ok_map_entries [OF ok, where g = retry_entry])
      (auto simp: entry_size_def retry_entry_def entry_ok_def outcome_unknown_def split: option.splits)
  ultimately show ?thesis by (intro system_ok_same [OF assms]) (simp_all add: retry_outcome_unknown_def)
qed

lemma entries_from_drop: "keys_ok s \<Longrightarrow> entries_from (\<lambda>_ _. same_content) s (drop_entries P host s)"
  by (auto simp: entries_from_def get_entry_drop split: option.splits if_splits)

lemma update_host_comp: "update_host host f (update_host host g s) = update_host host (\<lambda>h. f (g h)) s"
  by (auto simp: update_host_def comp_def case_prod_unfold)

lemma get_entry_discard:
  assumes "keys_ok s"
  shows "get_entry (snd (discard_host_edits host s)) h p =
     (case get_entry s h p of None \<Rightarrow> None | Some e \<Rightarrow> if h = host \<and> entry_pending e then None else Some e)"
    and "cache_ok cfg s \<Longrightarrow> cfg_max_bytes cfg < u64_max \<Longrightarrow> cache_ok cfg (snd (discard_host_edits host s))"
    and "hosts_kept s (snd (discard_host_edits host s))"
proof -
  let ?t = "snd (discard_host_edits host s)"
  let ?clear = "\<lambda>h. h\<lparr>hs_dirty_payload_bytes := 0, hs_first_dirty_deadline := None,
      hs_retry_deadline := None, hs_retry_attempt := 0, hs_last_transient := None\<rparr>"
  consider (None) "map_of (st_hosts s) host = None" "?t = s"
    | (Same) h where "map_of (st_hosts s) host = Some h" "?t = s"
        "filter (\<lambda>(_, e). entry_pending e) (hs_entries h) = []"
    | (Drop) h where "map_of (st_hosts s) host = Some h"
        "?t = update_host host ?clear ((drop_entries entry_pending host s)\<lparr>st_total_bytes :=
           saturating_sub (st_total_bytes s) (saturating_sum (map (\<lambda>(_, e). desired_size (en_desired e))
             (filter (\<lambda>(_, e). entry_pending e) (hs_entries h))))\<rparr>)"
  proof (cases "map_of (st_hosts s) host")
    case None then show ?thesis using that(1) by (simp add: discard_host_edits_def)
  next
    case (Some h)
    show ?thesis
    proof (cases "filter (\<lambda>(_, e). entry_pending e) (hs_entries h) = []")
      case True then show ?thesis using that(2) Some by (simp add: discard_host_edits_def)
    next
      case False
      let ?f = "\<lambda>x. x\<lparr>hs_entries := filter (\<lambda>(_, e). \<not> entry_pending e) (hs_entries h), hs_dirty_payload_bytes := 0,
          hs_first_dirty_deadline := None, hs_retry_deadline := None, hs_retry_attempt := 0, hs_last_transient := None\<rparr>"
      have "update_host host ?f s = update_host host
          (\<lambda>h. ?clear (h\<lparr>hs_entries := filter (\<lambda>(p, e). \<not> entry_pending e) (hs_entries h)\<rparr>)) s"
        by (rule update_host_cong [OF assms Some]) simp
      also have "\<dots> = update_host host ?clear (drop_entries entry_pending host s)"
        by (simp add: drop_entries_def update_host_comp)
      finally show ?thesis
        using that(3) Some False by (simp add: discard_host_edits_def Let_def update_host_def)
    qed
  qed
  note cases = this
  show "get_entry ?t h p =
     (case get_entry s h p of None \<Rightarrow> None | Some e \<Rightarrow> if h = host \<and> entry_pending e then None else Some e)"
  proof (cases rule: cases)
    case None then show ?thesis by (auto simp: get_entry_def split: option.splits)
  next
    case (Same x)
    then have "\<not> entry_pending e" if "map_of (hs_entries x) p = Some e" for e
      using map_of_SomeD [OF that] by (auto simp: filter_empty_conv)
    with Same show ?thesis by (auto simp: get_entry_def split: option.splits)
  next
    case (Drop x)
    then show ?thesis by (simp add: get_entry_update_host_same get_entry_drop [OF assms])
  qed
  show "cache_ok cfg ?t" if "cache_ok cfg s" "cfg_max_bytes cfg < u64_max"
  proof (cases rule: cases)
    case (Drop x)
    show ?thesis unfolding Drop(2)
      by (intro cache_ok_host_fields cache_ok_drop [OF that(1) Drop(1) that(2)]) simp
  qed (simp_all add: that)
  show "hosts_kept s ?t"
  proof (cases rule: cases)
    case (Drop x)
    have "hosts_kept s (drop_entries entry_pending host s)" by (simp add: drop_entries_def)
    then show ?thesis unfolding Drop(2) by (intro hosts_kept_trans [OF _ hosts_kept_simps(6)]) simp
  qed simp_all
qed

lemma system_ok_discard:
  assumes "system_ok cfg sha y" "cfg_max_bytes cfg < u64_max"
  shows "system_ok cfg sha (y\<lparr>sy_cache := snd (discard_host_edits host (sy_cache y))\<rparr>)"
proof -
  have ok: "cache_ok cfg (sy_cache y)" using assms by (simp add: system_ok_def)
  note discard = get_entry_discard [OF cache_okD(1) [OF ok], where host = host]
  show ?thesis
    by (rule system_ok_same [OF assms(1) discard(2) [OF ok assms(2)] discard(3)])
      (auto simp: entries_from_def discard(1) split: option.splits if_splits)
qed

lemma invalidate_drop:
  "invalidate_clean_host host s = s \<and> map_of (st_hosts s) host = None \<or>
   (\<exists>h. map_of (st_hosts s) host = Some h \<and>
     invalidate_clean_host host s = (drop_entries (\<lambda>e. \<not> en_dirty e \<and> en_in_flight e = None) host s)
       \<lparr>st_total_bytes := saturating_sub (st_total_bytes s) (saturating_sum
          (map (\<lambda>(_, e). desired_size (en_desired e))
            (filter (\<lambda>(_, e). \<not> en_dirty e \<and> en_in_flight e = None) (hs_entries h))))\<rparr>)"
  by (cases "map_of (st_hosts s) host")
    (simp_all add: invalidate_clean_host_def drop_entries_def Let_def case_prod_unfold)

lemma system_ok_invalidate:
  assumes "system_ok cfg sha y" "cfg_max_bytes cfg < u64_max"
  shows "system_ok cfg sha (y\<lparr>sy_cache := invalidate_clean_host host (sy_cache y)\<rparr>)"
proof -
  let ?P = "\<lambda>e. \<not> en_dirty e \<and> en_in_flight e = None"
  have ok: "cache_ok cfg (sy_cache y)" using assms by (simp add: system_ok_def)
  note keys = cache_okD(1) [OF ok]
  from invalidate_drop [of host "sy_cache y"] show ?thesis
  proof (elim disjE conjE exE)
    assume "invalidate_clean_host host (sy_cache y) = sy_cache y"
    with assms(1) show ?thesis by simp
  next
    fix h assume h: "map_of (st_hosts (sy_cache y)) host = Some h"
      "invalidate_clean_host host (sy_cache y) = (drop_entries ?P host (sy_cache y))\<lparr>st_total_bytes :=
         saturating_sub (st_total_bytes (sy_cache y)) (saturating_sum
           (map (\<lambda>(_, e). desired_size (en_desired e)) (filter (\<lambda>(_, e). ?P e) (hs_entries h))))\<rparr>"
    have "hosts_kept (sy_cache y) (drop_entries ?P host (sy_cache y))" by (simp add: drop_entries_def)
    moreover note cache_ok_drop [OF ok h(1) assms(2), of ?P] entries_from_drop [OF keys, of ?P host]
    ultimately show ?thesis by (intro system_ok_same [OF assms(1)]) (simp_all add: h(2))
  qed
qed

lemma system_ok_shutdown:
  assumes "system_ok cfg sha y"
  shows "system_ok cfg sha (y\<lparr>sy_cache := snd (shutdown_begin (sy_cache y))\<rparr>)"
  by (rule system_ok_same [OF assms])
    (use assms in \<open>simp_all add: shutdown_begin_def system_ok_def\<close>)

lemma timer_round_state:
  "snd (timer_round cfg now host s) \<in> {s, update_host host (\<lambda>h. h\<lparr>hs_timer_running := False\<rparr>) s}"
  by (auto simp: timer_round_def Let_def split: option.splits)

lemma system_ok_timer:
  assumes "system_ok cfg sha y"
  shows "system_ok cfg sha (y\<lparr>sy_cache := snd (timer_round cfg now host (sy_cache y))\<rparr>)"
proof (cases "snd (timer_round cfg now host (sy_cache y)) = sy_cache y")
  case True
  with assms show ?thesis by simp
next
  case False
  let ?f = "\<lambda>h. h\<lparr>hs_timer_running := False\<rparr>"
  have t: "snd (timer_round cfg now host (sy_cache y)) = update_host host ?f (sy_cache y)"
    using timer_round_state [of cfg now host "sy_cache y"] False by blast
  have "get_entry (update_host host ?f (sy_cache y)) = get_entry (sy_cache y)"
    by (rule get_entry_update_host_same) simp
  then have "entries_from (\<lambda>_ _. same_content) (sy_cache y) (update_host host ?f (sy_cache y))"
    by (simp add: entries_from_def)
  moreover have "cache_ok cfg (update_host host ?f (sy_cache y))"
    using assms by (intro cache_ok_host_fields) (simp_all add: system_ok_def)
  ultimately show ?thesis unfolding t by (intro system_ok_same [OF assms]) simp_all
qed

section \<open>Every reachable state\<close>

lemma edit_step_ok:
  assumes "edit_step cfg sha y z" "system_ok cfg sha y" "cfg_max_bytes cfg < u64_max"
  shows "system_ok cfg sha z"
  using assms(1)
proof cases
  case (step_load snapshot key)
  have ok: "cache_ok cfg (sy_cache y)" using assms(2) by (simp add: system_ok_def)
  obtain d t where "load_fetched cfg sha key snapshot (sy_cache y) = (d, t)" by force
  with cache_ok_load_fetched [OF this ok assms(3)] load_fetched_loads [OF ok, of sha key snapshot]
  have "cache_ok cfg t" "loads sha key snapshot (sy_cache y) t" "z = y\<lparr>sy_cache := t\<rparr>"
    using step_load(1) by simp_all
  with system_ok_loads [OF assms(2)] step_load(2) show ?thesis by blast
next
  case (step_clean snapshot key)
  have ok: "cache_ok cfg (sy_cache y)" using assms(2) by (simp add: system_ok_def)
  from system_ok_loads [OF assms(2) cache_ok_cache_clean [OF ok assms(3)] cache_clean_loads [OF ok] step_clean(2)]
  show ?thesis unfolding step_clean(1) .
next
  case (step_mutate now edits r c eff)
  have ok: "cache_ok cfg (sy_cache y)" using assms(2) by (simp add: system_ok_def)
  from mutate_batch_spec [OF ok assms(3) step_mutate(3), of sha now] step_mutate(2)
  obtain host u where "cache_ok cfg c" "hosts_kept (sy_cache y) c"
    "u = sy_cache y \<or> u = ensure_host host (sy_cache y)" "batch_outcome sha host edits u c r" by auto
  with step_mutate(1) assms(2) show ?thesis by (auto intro: system_ok_batch)
next
  case (step_flush_begin host items c)
  with assms(2) show ?thesis by (simp add: system_ok_begin)
next
  case (step_flush_finish host items outcome now r c)
  with assms(2) show ?thesis by (simp add: system_ok_finish)
qed (use assms in \<open>simp_all add: system_ok_lookup system_ok_lookup_entry system_ok_ensure
  system_ok_retry system_ok_discard system_ok_invalidate system_ok_shutdown system_ok_timer\<close>)

lemma initial_system_ok: "system_ok cfg sha initial_system"
  using cache_ok_new [of cfg] by (simp add: system_ok_def initial_system_def flights_ok_def new_cache_def get_entry_def)

lemma edit_reachable_ok:
  assumes "edit_reachable cfg sha y" "cfg_max_bytes cfg < u64_max"
  shows "system_ok cfg sha y"
  using assms(1) by induction (auto intro: initial_system_ok edit_step_ok assms(2))

end
