(* ===== verification/Edit_Backend.thy ===== *)
theory Edit_Backend
  imports Edit_Commit
begin

text \<open>
  The contract of the \<open>EditBackend\<close> trait as the cache relies on it, and what the cache then
  gives: a flush that runs alone ends after one pass and reports success only when nothing is
  pending, no section fails its \<open>expect\<close>, and every step keeps every dirty edit.
\<close>

section \<open>No edit is lost\<close>

text \<open>An edit survives as itself or under a newer edit of the same file.\<close>

definition survives :: "entry \<Rightarrow> entry \<Rightarrow> bool" where
  "survives e e' \<longleftrightarrow>
     en_dirty e' \<and> en_generation e < en_generation e' \<or>
     en_generation e' = en_generation e \<and> en_desired e' = en_desired e"

definition dirty_survive :: "cache_state \<Rightarrow> cache_state \<Rightarrow> bool" where
  "dirty_survive s t \<longleftrightarrow>
     (\<forall>host path e. get_entry s host path = Some e \<longrightarrow> en_dirty e \<longrightarrow>
        (\<exists>e'. get_entry t host path = Some e' \<and> survives e e'))"

lemma survives_refl [simp]: "survives e e"
  by (simp add: survives_def)

lemma dirty_survive_refl [simp]: "dirty_survive s s"
  by (auto simp: dirty_survive_def)

lemma dirty_survive_fields [simp]:
  "dirty_survive s (t\<lparr>st_total_bytes := a\<rparr>) = dirty_survive s t"
  "dirty_survive s (t\<lparr>st_lru_sequence := b\<rparr>) = dirty_survive s t"
  "dirty_survive s (t\<lparr>st_shutting_down := c\<rparr>) = dirty_survive s t"
  by (simp_all add: dirty_survive_def)

text \<open>A step that maps every entry, some of them by \<open>f\<close>.\<close>

lemma dirty_survive_map:
  assumes "\<And>host path. get_entry t host path = map_option (f host path) (get_entry s host path)"
    and "\<And>host path e. survives e (f host path e)"
  shows "dirty_survive s t"
  using assms by (auto simp: dirty_survive_def)

lemma dirty_survive_lookup: "dirty_survive s (snd (lookup_complete_with_hash key s))"
  by (auto simp: lookup_complete_with_hash_def next_lru_def Let_def get_entry_update_entry survives_def
      dirty_survive_def split: option.splits)

lemma dirty_survive_lookup_entry: "dirty_survive s (snd (lookup_entry key s))"
  by (auto simp: lookup_entry_def next_lru_def Let_def get_entry_update_entry survives_def
      dirty_survive_def split: option.splits)

lemma dirty_survive_same: "get_entry t = get_entry s \<Longrightarrow> dirty_survive s t"
  by (auto simp: dirty_survive_def)

lemma only_evicts_dirty:
  assumes "only_evicts protected s t" "get_entry s host path = Some e" "en_dirty e"
  shows "get_entry t host path = Some e"
proof -
  have "\<not> evictable protected host path e" using assms(3) by (simp add: evictable_def)
  with assms(1,2) show ?thesis unfolding only_evicts_def by (metis option.inject)
qed

lemma dirty_survive_loads:
  assumes "loads sha key snapshot s t"
  shows "dirty_survive s t"
  unfolding dirty_survive_def
proof (intro allI impI)
  fix host path e assume e: "get_entry s host path = Some e" "en_dirty e"
  from assms obtain u where u: "only_evicts [] s u"
    "t = u \<or> get_entry s (key_host key) (key_path key) = None \<and> t = insert_clean sha key snapshot u"
    unfolding loads_def by blast
  from only_evicts_dirty [OF u(1) e] have "get_entry u host path = Some e" .
  with u(2) e(1) have "get_entry t host path = Some e" by (auto simp: insert_clean_entry)
  then show "\<exists>e'. get_entry t host path = Some e' \<and> survives e e'" by simp
qed

lemma dirty_survive_batch:
  assumes "batch_outcome sha host edits u t r" "cache_ok cfg u"
  shows "dirty_survive u t"
  unfolding dirty_survive_def
proof (intro allI impI)
  fix h p e assume e: "get_entry u h p = Some e" "en_dirty e"
  show "\<exists>e'. get_entry t h p = Some e' \<and> survives e e'"
  proof (cases "\<exists>gs. r = Inr (Buffered gs)")
    case False
    then have "only_evicts (map pe_key edits) u t"
      using assms(1) by (auto simp: batch_outcome_def split: sum.splits batch_mutation_disposition.splits)
    from only_evicts_dirty [OF this e] show ?thesis by simp
  next
    case True
    then obtain v where v: "only_evicts (map pe_key edits) u v" "batch_applied sha host edits v t"
      using assms(1) by (auto simp: batch_outcome_def batch_buffered_def)
    note ev = only_evicts_dirty [OF v(1) e]
    show ?thesis
    proof (cases "h = host \<and> p \<in> set (map edit_path edits)")
      case False
      then have "get_entry t h p = get_entry v h p" using v(2) unfolding batch_applied_def by blast
      with ev show ?thesis by simp
    next
      case True
      then obtain i where i: "i < length edits" "p = edit_path (edits ! i)" by (auto simp: in_set_conv_nth)
      with v(2) True ev obtain e' where e': "get_entry t h p = Some e'"
        "edited sha (edits ! i) (Generation (st_next_generation v + i)) e e'"
        unfolding batch_applied_def by (metis option.inject)
      have "en_generation e < Generation (st_next_generation u)"
        using cache_okD(5) [OF assms(2) e(1)] by (simp add: entry_ok_def)
      moreover have "st_next_generation v = st_next_generation u" using v(1) by (simp add: only_evicts_def)
      moreover have "en_generation e' = Generation (st_next_generation v + i)" "en_dirty e'"
        using e'(2) by (simp_all add: edited_def) (cases e', simp)+
      ultimately have "survives e e'" by (cases "en_generation e") (simp add: survives_def)
      with e'(1) show ?thesis by blast
    qed
  qed
qed

lemma survives_mark: "survives e (mark_entry e)"
  by (simp add: survives_def mark_entry_def)

lemma fold_survives:
  assumes "\<And>x e. en_generation (f x e) = en_generation e \<and> en_desired (f x e) = en_desired e"
  shows "en_generation (fold (\<lambda>x e. if k x = p then f x e else e) xs e) = en_generation e \<and>
    en_desired (fold (\<lambda>x e. if k x = p then f x e else e) xs e) = en_desired e"
  using assms by (induction xs arbitrary: e) auto

lemma settle_same:
  "en_generation (settle_entry items outcome path e) = en_generation e \<and>
   en_desired (settle_entry items outcome path e) = en_desired e"
proof -
  have a: "en_generation (accept_success c e) = en_generation e \<and> en_desired (accept_success c e) = en_desired e"
    for c e by (simp add: accept_success_def)
  have b: "en_generation (reject_item error i e) = en_generation e \<and> en_desired (reject_item error i e) = en_desired e"
    for error i e by (simp add: reject_item_def)
  show ?thesis
    by (cases "co_error outcome") (simp_all add: settle_entry_def fold_survives a b)
qed

lemma dirty_survive_begin:
  assumes "flush_begin host s = (Flush_Items items, c)" "keys_ok s"
  shows "dirty_survive s c"
proof -
  from flush_begin_items [OF assms] have c: "c = update_host host start_flush s" by blast
  show ?thesis
    by (rule dirty_survive_map [where f = "\<lambda>h p e. if h = host then mark_entry e else e"])
      (simp_all add: c get_entry_start survives_mark option.map_ident)
qed

lemma dirty_survive_finish:
  "flush_finish host now items outcome s = Some (r, c) \<Longrightarrow> dirty_survive s c"
  by (rule dirty_survive_map [where f = "\<lambda>h p e. if h = host then settle_entry items outcome p e else e"])
    (simp_all add: flush_finish_spec(1) settle_same survives_def option.map_ident)

lemma dirty_survive_retry: "dirty_survive s (retry_outcome_unknown host s)"
proof -
  let ?f = "\<lambda>h. h\<lparr>hs_entries := map (\<lambda>(p, e). (p, retry_entry e)) (hs_entries h)\<rparr>"
  have "get_entry (update_host host ?f s) h p =
      (if h = host then map_option retry_entry (get_entry s h p) else get_entry s h p)" for h p
    by (rule get_entry_map_entries) simp
  moreover have "survives e (retry_entry e)" for e by (simp add: survives_def retry_entry_def)
  ultimately show ?thesis
    unfolding retry_outcome_unknown_def
    by (intro dirty_survive_map [where f = "\<lambda>h p e. if h = host then retry_entry e else e"])
      (simp_all add: option.map_ident)
qed

lemma dirty_survive_invalidate:
  assumes "keys_ok s"
  shows "dirty_survive s (invalidate_clean_host host s)"
  using invalidate_drop [of host s]
proof (elim disjE conjE exE)
  fix h assume "invalidate_clean_host host s = drop_entries (\<lambda>e. \<not> en_dirty e \<and> en_in_flight e = None) host s
    \<lparr>st_total_bytes := saturating_sub (st_total_bytes s) (saturating_sum
       (map (\<lambda>(_, e). desired_size (en_desired e)) (filter (\<lambda>(_, e). \<not> en_dirty e \<and> en_in_flight e = None) (hs_entries h))))\<rparr>"
  then show ?thesis by (simp add: dirty_survive_def get_entry_drop [OF assms])
qed simp

lemma dirty_survive_timer: "dirty_survive s (snd (timer_round cfg now host s))"
  using timer_round_state [of cfg now host s]
  by (auto intro!: dirty_survive_same get_entry_update_host_same)

text \<open>Every step but a discard keeps every dirty edit.\<close>

lemma edit_step_survive:
  assumes "edit_step cfg sha y z" "system_ok cfg sha y" "cfg_max_bytes cfg < u64_max"
  shows "dirty_survive (sy_cache y) (sy_cache z) \<or>
    (\<exists>host. sy_cache z = snd (discard_host_edits host (sy_cache y)))"
  using assms(1)
proof cases
  case (step_mutate now edits r c eff)
  have ok: "cache_ok cfg (sy_cache y)" using assms(2) by (simp add: system_ok_def)
  from mutate_batch_spec [OF ok assms(3) step_mutate(3), of sha now] step_mutate(2)
  obtain host u where u: "u = sy_cache y \<or> u = ensure_host host (sy_cache y)" "batch_outcome sha host edits u c r"
    by auto
  then have "dirty_survive u c" using ok cache_ok_ensure by (blast intro: dirty_survive_batch)
  with u(1) step_mutate(1) show ?thesis by (auto simp: dirty_survive_def)
next
  case (step_flush_begin host items c)
  then show ?thesis
    using assms(2) dirty_survive_begin cache_okD(1) by (auto simp: system_ok_def)
qed (use assms(2) in \<open>auto simp: dirty_survive_lookup dirty_survive_lookup_entry dirty_survive_retry
  system_ok_def dirty_survive_timer shutdown_begin_def fun_eq_iff
  intro: dirty_survive_loads load_fetched_loads cache_clean_loads dirty_survive_finish
    dirty_survive_invalidate cache_okD dirty_survive_same\<close>)

section \<open>A flush that runs alone\<close>

lemma flush_finish_total:
  "map_of (st_hosts s) host \<noteq> None \<Longrightarrow> \<exists>r t. flush_finish host now items outcome s = Some (r, t)"
  by (cases "co_error outcome") (auto simp: flush_finish_def Let_def)

lemma flights_okD:
  "system_ok cfg sha y \<Longrightarrow> sy_flights y host = Some items \<Longrightarrow>
     distinct (map item_path items) \<and> items_hashed sha items \<and> map_of (st_hosts (sy_cache y)) host \<noteq> None"
  unfolding system_ok_def flights_ok_def by blast

lemma sort_key_Nil: "sort_key f xs = [] \<longleftrightarrow> xs = []"
  by (metis length_0_conv length_sort)

lemma entry_of_list:
  assumes "keys_ok s" "map_of (st_hosts s) host = Some h"
  shows "(p, e) \<in> set (hs_entries h) \<longleftrightarrow> get_entry s host p = Some e"
  using keys_okD [OF assms] assms(2) by (simp add: get_entry_def)

lemma host_dirty_iff:
  assumes "keys_ok s" "map_of (st_hosts s) host = Some h"
  shows "host_dirty h \<longleftrightarrow> (\<exists>p e. get_entry s host p = Some e \<and> en_dirty e)"
  unfolding entry_of_list [OF assms, symmetric] by (auto simp: host_dirty_def list_ex_iff)

lemma first_conflict_iff:
  assumes "keys_ok s" "map_of (st_hosts s) host = Some h" "first_conflict h = None"
    and "get_entry s host p = Some e"
  shows "en_conflict e = None"
  using first_conflict_None [OF assms(3)] assms(2,4) by (simp add: get_entry_def)

lemma pending_paths_iff:
  assumes "keys_ok s"
  shows "p \<in> set (st_pending_paths (host_status host s)) \<longleftrightarrow>
    (\<exists>e. get_entry s host p = Some e \<and> entry_pending e)"
proof (cases "map_of (st_hosts s) host")
  case None
  then show ?thesis by (simp add: host_status_def get_entry_def)
next
  case (Some h)
  then show ?thesis
    using entry_of_list [OF assms Some] by (force simp: host_status_def)
qed

lemma settle_commits:
  assumes "wants_flush e" "commit_item_of host path e \<in> set items" "distinct (map item_path items)"
    and "lawful_outcome sha items outcome" "co_error outcome = None" "in_step sha (mark_entry e)"
  shows "\<not> en_dirty (settle_entry items outcome path (mark_entry e))"
proof -
  let ?P = "\<lambda>x. en_generation x = en_generation e \<and> (en_in_flight x = Some (en_generation e) \<or> \<not> en_dirty x)"
  have "follows sha items path (mark_entry e)"
    using assms(1,2,6) by (auto simp: follows_def mark_entry_def wants_flush_def commit_item_of_def item_path_def
        intro!: bexI)
  from settle_clears [OF this assms(4)] have none: "en_in_flight (settle_entry items outcome path (mark_entry e)) = None" .
  have "?P (fold (\<lambda>c e. if key_path (cs_key c) = path then accept_success c e else e) (co_successes outcome) (mark_entry e))"
    by (rule fold_invariant_if [where P = ?P]) (use assms(1) in \<open>auto simp: accept_success_def mark_entry_def\<close>)
  then have "?P (settle_entry items outcome path (mark_entry e))"
    using assms(5) by (simp add: settle_entry_def)
  with none show ?thesis by simp
qed

lemma settle_idle:
  assumes "en_in_flight e = None"
  shows "settle_entry items outcome path e = e"
proof -
  have "fold (\<lambda>x e. if k x = p then f x e else e) xs e = e"
    if "\<And>x. f x e = e" for xs :: "'b list" and k :: "'b \<Rightarrow> string" and f p
    using that by (induction xs) auto
  note idle = this
  have "accept_success c e = e" "reject_item error i e = e" for c error i
    using assms by (simp_all add: accept_success_def reject_item_def)
  then show ?thesis by (simp add: settle_entry_def idle split: option.splits)
qed

lemma settle_conflict:
  assumes "co_error outcome = None"
  shows "en_conflict (settle_entry items outcome path e) = en_conflict e"
proof -
  have "en_conflict (fold (\<lambda>c e. if key_path (cs_key c) = path then accept_success c e else e) cs x) = en_conflict x"
    for cs x by (induction cs arbitrary: x) (auto simp: accept_success_def)
  with assms show ?thesis by (simp add: settle_entry_def)
qed

section \<open>The contract\<close>

locale edit_backend =
  fixes sha :: "string \<Rightarrow> string"
    and commit :: "'r \<Rightarrow> string \<Rightarrow> commit_item list \<Rightarrow> commit_batch_outcome \<times> 'r"
  assumes lawful: "items_hashed sha items \<Longrightarrow> items \<noteq> [] \<Longrightarrow>
    \<forall>i \<in> set items. key_host (ci_key i) = host \<Longrightarrow>
    lawful_outcome sha items (fst (commit r host items))"
begin

lemma flush_begin_hashed:
  assumes "system_ok cfg sha y" "flush_begin host (sy_cache y) = (Flush_Items items, c)"
    and "sy_flights y host = None"
  shows "items_hashed sha items" "items \<noteq> []" "\<forall>i \<in> set items. key_host (ci_key i) = host"
proof -
  show "items_hashed sha items"
    using flights_okD [OF system_ok_begin [OF assms(1,3,2)], of host items] by simp
  have keys: "keys_ok (sy_cache y)" using assms(1) by (auto simp: system_ok_def cache_ok_def)
  from flush_begin_items [OF assms(2) keys] obtain h where
    h: "map_of (st_hosts (sy_cache y)) host = Some h" "items = flush_items host h" "items \<noteq> []" by blast
  show "items \<noteq> []" by (rule h(3))
  show "\<forall>i \<in> set items. key_host (ci_key i) = host"
    by (auto simp: h(2) flush_items_set [OF keys_okD [OF keys h(1)]] commit_item_of_def)
qed

text \<open>A pass that reaches the backend is answered lawfully and finishes.\<close>

lemma flush_pass:
  assumes "system_ok cfg sha y" "sy_flights y host = None"
    and "flush_begin host (sy_cache y) = (Flush_Items items, c)"
  shows "\<exists>r' t. flush_finish host now items (fst (commit r host items)) c = Some (r', t) \<and>
    system_ok cfg sha \<lparr>sy_cache = t, sy_flights = sy_flights y\<rparr>"
proof -
  note hashed = flush_begin_hashed [OF assms(1,3,2)]
  let ?z = "\<lparr>sy_cache = c, sy_flights = (sy_flights y)(host := Some items)\<rparr>"
  have ok: "system_ok cfg sha ?z" by (rule system_ok_begin [OF assms])
  from flights_okD [OF this, of host items] have "map_of (st_hosts c) host \<noteq> None" by simp
  from flush_finish_total [OF this] obtain r' t where
    fin: "flush_finish host now items (fst (commit r host items)) c = Some (r', t)" by blast
  have "system_ok cfg sha \<lparr>sy_cache = t, sy_flights = ((sy_flights y)(host := Some items))(host := None)\<rparr>"
    using system_ok_finish [OF ok _ lawful [OF hashed] , of host now r] fin by simp
  moreover have "((sy_flights y)(host := Some items))(host := None) = sy_flights y"
    using assms(2) by auto
  ultimately show ?thesis using fin by auto
qed

text \<open>What a pass leaves when the backend reported no error.\<close>

lemma flush_pass_clean:
  assumes "system_ok cfg sha y" "sy_flights y host = None"
    and "flush_begin host (sy_cache y) = (Flush_Items items, c)"
    and "flush_finish host now items outcome c = Some (r', t)"
    and "lawful_outcome sha items outcome" "co_error outcome = None"
    and "get_entry t host p = Some e'"
  shows "\<not> entry_pending e'"
proof -
  have keys: "keys_ok (sy_cache y)" using assms(1) by (simp add: system_ok_def cache_ok_def)
  from flush_begin_items [OF assms(3) keys] obtain h where h: "map_of (st_hosts (sy_cache y)) host = Some h"
    "first_conflict h = None" "items = flush_items host h" "c = update_host host start_flush (sy_cache y)" by blast
  note dist = keys_okD [OF keys h(1)]
  from assms(7) obtain e where e: "get_entry (sy_cache y) host p = Some e"
    "e' = settle_entry items outcome p (mark_entry e)"
    unfolding flush_finish_spec(1) [OF assms(4)] h(4) get_entry_start by auto
  have e_ok: "in_step sha e" "tracked (sy_flights y) host p e"
    using assms(1) e(1) by (auto simp: system_ok_def)
  have idle: "en_in_flight e = None" using e_ok(2) assms(2) by (cases "en_in_flight e") (auto simp: tracked_def)
  have "en_conflict e = None" by (rule first_conflict_iff [OF keys h(1,2) e(1)])
  then have conflict: "en_conflict e' = None"
    unfolding e(2) settle_conflict [OF assms(6)] by (simp add: mark_entry_def)
  show ?thesis
  proof (cases "en_dirty e")
    case True
    with idle have wants: "wants_flush e" by (simp add: wants_flush_def)
    have item: "commit_item_of host p e \<in> set items"
      using wants e(1) h(1) unfolding h(3) flush_items_set [OF dist] by (auto simp: get_entry_def)
    have "in_step sha (mark_entry e)" using e_ok(1) by (auto simp: in_step_def mark_entry_def wants_flush_def)
    from settle_commits [OF wants item _ assms(5,6) this] flush_items_distinct [OF dist] h(3)
    have "\<not> en_dirty e'" by (simp add: e(2))
    moreover have "follows sha items p (mark_entry e)"
      using e_ok(1) wants item by (auto simp: follows_def mark_entry_def in_step_def commit_item_of_def
          item_path_def wants_flush_def intro!: bexI)
    from settle_clears [OF this assms(5)] have "en_in_flight e' = None" by (simp add: e(2))
    ultimately show ?thesis using conflict by (simp add: entry_pending_def)
  next
    case False
    then have "mark_entry e = e" by (simp add: mark_entry_def wants_flush_def)
    with idle have "e' = e" by (simp add: e(2) settle_idle)
    with False idle conflict show ?thesis by (simp add: entry_pending_def)
  qed
qed

lemma flush_alone:
  assumes "system_ok cfg sha y" "sy_flights y host = None"
  shows "\<exists>res t r'. flush_host (Suc fuel) commit now host (sy_cache y) r = Some (res, t, r') \<and>
    system_ok cfg sha \<lparr>sy_cache = t, sy_flights = sy_flights y\<rparr> \<and>
    (\<forall>u. res = Inr u \<longrightarrow> st_pending_paths (host_status host t) = []) \<and>
    (\<forall>h p. map_option en_desired (get_entry t h p) = map_option en_desired (get_entry (sy_cache y) h p))"
proof -
  define z where "z = y\<lparr>sy_cache := ensure_host host (sy_cache y)\<rparr>"
  have z: "system_ok cfg sha z" "sy_flights z host = None" "sy_cache z = ensure_host host (sy_cache y)"
    using system_ok_ensure [OF assms(1)] assms(2) by (simp_all add: z_def)
  have keys: "keys_ok (sy_cache z)" using z(1) by (simp add: system_ok_def cache_ok_def)
  have zz: "\<lparr>sy_cache = sy_cache z, sy_flights = sy_flights y\<rparr> = z" by (simp add: z_def)
  have same: "get_entry (sy_cache z) = get_entry (sy_cache y)" by (simp add: z(3) fun_eq_iff)
  obtain h where h: "map_of (st_hosts (sy_cache z)) host = Some h"
    using map_of_ensure [of host "sy_cache y"] z(3) by auto
  show ?thesis
  proof (cases "flush_begin host (sy_cache z)")
    case (Pair start c)
    show ?thesis
    proof (cases start)
      case (Flush_Error error)
      with Pair h have "c = sy_cache z" by (auto simp: flush_begin_def Let_def split: option.splits if_splits)
      with Pair Flush_Error have "flush_host (Suc fuel) commit now host (sy_cache y) r = Some (Inl error, sy_cache z, r)"
        by (simp add: flush_once_def z(3))
      with z(1) zz same show ?thesis by simp
    next
      case Flush_Clean
      with Pair h have c: "c = sy_cache z" "first_conflict h = None"
        "\<forall>x \<in> set (hs_entries h). \<not> wants_flush (snd x)"
        by (auto simp: flush_begin_def Let_def sort_key_Nil filter_empty_conv split: option.splits if_splits)
      with Pair Flush_Clean have run: "flush_host (Suc fuel) commit now host (sy_cache y) r = Some (Inr (), sy_cache z, r)"
        by (simp add: flush_once_def z(3))
      have "\<not> entry_pending e" if e: "get_entry (sy_cache z) host p = Some e" for p e
      proof -
        have "tracked (sy_flights z) host p e" using z(1) e by (auto simp: system_ok_def)
        then have "en_in_flight e = None" using z(2) by (cases "en_in_flight e") (auto simp: tracked_def)
        moreover have "\<not> wants_flush e" using c(3) e unfolding entry_of_list [OF keys h, symmetric] by fastforce
        ultimately show ?thesis
          using first_conflict_iff [OF keys h c(2) e] by (simp add: entry_pending_def wants_flush_def)
      qed
      then have "set (st_pending_paths (host_status host (sy_cache z))) = {}"
        unfolding set_eq_iff pending_paths_iff [OF keys] by simp
      with run z(1) zz same show ?thesis by simp
    next
      case (Flush_Items items)
      note begin_z = Pair [unfolded Flush_Items]
      obtain outcome r1 where o: "commit r host items = (outcome, r1)" by force
      from flush_pass [OF z(1,2) begin_z, of now r] obtain res t where
        fin: "flush_finish host now items outcome c = Some (res, t)"
        "system_ok cfg sha \<lparr>sy_cache = t, sy_flights = sy_flights z\<rparr>" by (auto simp: o)
      have keys_t: "keys_ok t" using fin(2) by (simp add: system_ok_def cache_ok_def)
      have lawful': "lawful_outcome sha items outcome"
        using lawful [OF flush_begin_hashed [OF z(1) begin_z z(2)], of r] o by simp
      have once: "flush_once commit now host (sy_cache y) r = Some (res, t, r1)"
        using begin_z fin(1) o by (simp add: flush_once_def z(3))
      have kept: "map_option en_desired (get_entry t h p) = map_option en_desired (get_entry (sy_cache y) h p)" for h p
      proof -
        have c: "c = update_host host start_flush (sy_cache z)" using flush_begin_items [OF begin_z keys] by blast
        have "en_desired (mark_entry e) = en_desired e" for e by (simp add: mark_entry_def)
        with settle_same show ?thesis
          unfolding flush_finish_spec(1) [OF fin(1)] c get_entry_start same by (simp add: option.map_comp comp_def)
      qed
      show ?thesis
      proof (cases "co_error outcome")
        case (Some error)
        with fin(1) have "res = Inl error" by (auto simp: flush_finish_def Let_def split: option.splits)
        with once fin(2) kept show ?thesis by (simp add: z_def)
      next
        case None
        have clean: "\<not> entry_pending e" if "get_entry t host p = Some e" for p e
          by (rule flush_pass_clean [OF z(1,2) begin_z fin(1) lawful' None that])
        have "map_of (st_hosts c) host \<noteq> None"
          using flush_begin_items [OF begin_z keys] h by (auto simp: update_host_adjust)
        with flush_finish_spec(3) [OF fin(1)] have "map_of (st_hosts t) host \<noteq> None"
          unfolding hosts_kept_def by blast
        then obtain h' where h': "map_of (st_hosts t) host = Some h'" by blast
        have "res = Inr (if host_dirty h' then More else Clean)"
          using fin(1) None h' by (auto simp: flush_finish_def Let_def split: option.splits)
        moreover have "\<not> host_dirty h'"
          using clean unfolding host_dirty_iff [OF keys_t h'] by (auto simp: entry_pending_def)
        ultimately have "flush_host (Suc fuel) commit now host (sy_cache y) r = Some (Inr (), t, r1)"
          using once by simp
        moreover have "set (st_pending_paths (host_status host t)) = {}"
          unfolding set_eq_iff pending_paths_iff [OF keys_t] using clean by simp
        ultimately show ?thesis using fin(2) kept by (simp add: z_def)
      qed
    qed
  qed
qed

end

end
