(* ===== verification/Fixed_Command.thy ===== *)
theory Fixed_Command
  imports Shell_Quote Remote_Path Utf8
begin

text \<open>
  The command line of a fixed operation (\<open>src/ssh/process.rs\<close>): its length computed in
  advance, its rendering within a bound, and the pinning of the rooted arguments to paths
  relative to the operation root.
\<close>

section \<open>Rendering\<close>

definition rendered_too_large :: bridge_error where
  "rendered_too_large =
     new_error RequestTooLarge ''rendered command exceeds the configured frame limit'' False"

fun sum_rendered :: "nat \<Rightarrow> nat list \<Rightarrow> nat bridge_result" where
  "sum_rendered len [] = Inr len"
| "sum_rendered len (n # ns) =
     bindR (ok_or rendered_too_large (checked_add len n)) (\<lambda>t. sum_rendered t ns)"

definition checked_rendered_length :: "nat list \<Rightarrow> nat bridge_result" where
  "checked_rendered_length lengths = sum_rendered 0 lengths"

definition ensure_rendered_bound :: "nat \<Rightarrow> nat \<Rightarrow> unit bridge_result" where
  "ensure_rendered_bound len maximum = (if maximum < len then Inl rendered_too_large else Inr ())"

definition FIXED_COMMAND_PREFIX :: string where
  "FIXED_COMMAND_PREFIX = ''exec sh -c ''"

definition FIXED_COMMAND_ARG0 :: string where
  "FIXED_COMMAND_ARG0 = '' codex-ssh-bridge-op''"

definition head_length :: "prepared_shell_word \<Rightarrow> nat bridge_result" where
  "head_length script =
     checked_rendered_length [length FIXED_COMMAND_PREFIX, psw_length script, length FIXED_COMMAND_ARG0]"

text \<open>The fold of \<open>render_fixed_command_length\<close>, which prepares each argument on its way.\<close>

fun fold_raw_arguments :: "nat \<Rightarrow> string list \<Rightarrow> nat bridge_result" where
  "fold_raw_arguments len [] = Inr len"
| "fold_raw_arguments len (a # args) =
     bindR (prepare_shell_word a) (\<lambda>w.
       bindR (checked_rendered_length [len, 1, psw_length w]) (\<lambda>l. fold_raw_arguments l args))"

definition render_fixed_command_length :: "string \<Rightarrow> string list \<Rightarrow> nat bridge_result" where
  "render_fixed_command_length script args =
     bindR (prepare_shell_word script) (\<lambda>s.
       bindR (head_length s) (\<lambda>len. fold_raw_arguments len args))"

text \<open>The fold and the append loop of \<open>render_fixed_command_text\<close>.\<close>

fun fold_prepared :: "nat \<Rightarrow> prepared_shell_word list \<Rightarrow> nat bridge_result" where
  "fold_prepared len [] = Inr len"
| "fold_prepared len (w # ws) =
     bindR (checked_rendered_length [len, 1, psw_length w]) (\<lambda>l. fold_prepared l ws)"

definition push_str :: "string \<Rightarrow> string_buffer \<Rightarrow> string_buffer" where
  "push_str s b = b\<lparr>sb_content := sb_content b @ s\<rparr>"

fun push_words :: "string_buffer \<Rightarrow> prepared_shell_word list \<Rightarrow> string_buffer bridge_result" where
  "push_words b [] = Inr b"
| "push_words b (w # ws) =
     (case push_to w (push_str [SP] b) of
        (Inl e, _) \<Rightarrow> Inl e
      | (Inr _, b') \<Rightarrow> push_words b' ws)"

definition render_fixed_command_text :: "string \<Rightarrow> string list \<Rightarrow> nat \<Rightarrow> string bridge_result" where
  "render_fixed_command_text script args maximum =
     bindR (prepare_shell_word script) (\<lambda>s.
     bindR (collectR prepare_shell_word args) (\<lambda>ws.
     bindR (bindR (head_length s) (\<lambda>len. fold_prepared len ws)) (\<lambda>len.
     bindR (ensure_rendered_bound len maximum) (\<lambda>_.
       (case push_to s (push_str FIXED_COMMAND_PREFIX \<lparr>sb_content = [], sb_capacity = len\<rparr>) of
          (Inl e, _) \<Rightarrow> Inl e
        | (Inr _, b) \<Rightarrow>
            bindR (push_words (push_str FIXED_COMMAND_ARG0 b) ws) (\<lambda>b. Inr (sb_content b)))))))"

definition render_fixed_command :: "string \<Rightarrow> string list \<Rightarrow> string bridge_result" where
  "render_fixed_command script args = render_fixed_command_text script args usize_max"

section \<open>Pinning\<close>

record rooted_argument_stride =
  ras_start :: nat
  ras_step :: nat

record rooted_path_inputs =
  rpi_argument_indices :: "nat list"
  rpi_argument_stride :: "rooted_argument_stride option"
  rpi_stdin_nul_paths :: bool

definition rooted_path_error :: bridge_error where
  "rooted_path_error =
     new_error ProtocolError ''fixed rooted path escaped the configured root'' False"

definition root_relative_bytes :: "string \<Rightarrow> string \<Rightarrow> string bridge_result" where
  "root_relative_bytes configured_root path =
     bindR
       (if path = configured_root then Inr []
        else if configured_root = ''/'' then ok_or rooted_path_error (strip_prefix ''/'' path)
        else ok_or rooted_path_error
               (Option.bind (strip_prefix configured_root path) (\<lambda>suffix. strip_prefix ''/'' suffix)))
       (\<lambda>relative. if relative = [] then Inr ''.'' else Inr (''./'' @ relative))"

definition root_relative_one :: "string \<Rightarrow> string \<Rightarrow> string bridge_result" where
  "root_relative_one configured_root path =
     bindR (root_relative_bytes configured_root path) (\<lambda>pinned.
       if valid_utf8 pinned then Inr pinned else Inl rooted_path_error)"

fun pin_indices :: "string \<Rightarrow> nat list \<Rightarrow> string list \<Rightarrow> string list bridge_result" where
  "pin_indices root [] args = Inr args"
| "pin_indices root (i # is) args =
     (if i < length args then
        bindR (root_relative_one root (args ! i)) (\<lambda>a. pin_indices root is (args[i := a]))
      else Inl (new_error ProtocolError ''fixed rooted argument index is invalid'' False))"

text \<open>\<open>skip(start).step_by(step)\<close>: the indices \<open>start\<close>, \<open>start + step\<close>, and so on.\<close>

definition stride_indices :: "rooted_argument_stride \<Rightarrow> nat \<Rightarrow> nat list" where
  "stride_indices stride n =
     filter (\<lambda>i. ras_start stride \<le> i \<and> (i - ras_start stride) mod ras_step stride = 0) [0 ..< n]"

definition pin_stride ::
  "string \<Rightarrow> rooted_argument_stride option \<Rightarrow> string list \<Rightarrow> string list bridge_result" where
  "pin_stride root stride args =
     (case stride of
        None \<Rightarrow> Inr args
      | Some s \<Rightarrow>
          if ras_step s = 0 \<or> length args \<le> ras_start s then
            Inl (new_error ProtocolError ''fixed rooted argument stride is invalid'' False)
          else pin_indices root (stride_indices s (length args)) args)"

fun pin_fields :: "string \<Rightarrow> string list \<Rightarrow> string bridge_result" where
  "pin_fields root [] = Inr []"
| "pin_fields root (f # fs) =
     bindR (root_relative_bytes root f) (\<lambda>p. bindR (pin_fields root fs) (\<lambda>r. Inr (p @ NUL # r)))"

definition pin_stdin :: "string \<Rightarrow> string option \<Rightarrow> string option bridge_result" where
  "pin_stdin root stdin =
     (case stdin of
        None \<Rightarrow> Inl (new_error ProtocolError ''fixed rooted stdin is missing'' False)
      | Some bytes \<Rightarrow>
          if bytes = [] \<or> last bytes \<noteq> NUL then
            Inl (new_error ProtocolError ''fixed rooted stdin is not NUL terminated'' False)
          else bindR (pin_fields root (split_on NUL (butlast bytes))) (\<lambda>r. Inr (Some r)))"

definition pin_fixed_inputs ::
  "string \<Rightarrow> string list \<Rightarrow> string option \<Rightarrow> rooted_path_inputs
     \<Rightarrow> (string list \<times> string option) bridge_result" where
  "pin_fixed_inputs configured_root args stdin rooted =
     bindR (resolve configured_root ''.'') (\<lambda>configured.
     bindR (pin_indices (rp_absolute configured) (rpi_argument_indices rooted) args) (\<lambda>args1.
     bindR (pin_stride (rp_absolute configured) (rpi_argument_stride rooted) args1) (\<lambda>args2.
     if rpi_stdin_nul_paths rooted then
       bindR (pin_stdin (rp_absolute configured) stdin) (\<lambda>stdin1. Inr (args2, stdin1))
     else Inr (args2, stdin))))"

section \<open>What is rendered\<close>

definition rendered_command :: "string \<Rightarrow> string list \<Rightarrow> string" where
  "rendered_command script args =
     FIXED_COMMAND_PREFIX @ quoted script @ FIXED_COMMAND_ARG0 @ concat (map (\<lambda>a. SP # quoted a) args)"

lemma sum_rendered_eq:
  "len \<le> u64_max \<Longrightarrow> sum_rendered len ns =
     (if len + sum_list ns \<le> u64_max then Inr (len + sum_list ns) else Inl rendered_too_large)"
  by (induction ns arbitrary: len) (auto simp: checked_add_def add.assoc)

lemma checked_rendered_length_eq:
  "checked_rendered_length ns = (if sum_list ns \<le> u64_max then Inr (sum_list ns) else Inl rendered_too_large)"
  by (simp add: checked_rendered_length_def sum_rendered_eq)

text \<open>A value that can be quoted: no NUL, and a quoted form that fits the address space.\<close>

definition quotable :: "string \<Rightarrow> bool" where
  "quotable v \<longleftrightarrow> NUL \<notin> set v \<and> length (quoted v) \<le> u64_max"

definition prepared :: "string \<Rightarrow> prepared_shell_word" where
  "prepared v = \<lparr>psw_value = v, psw_length = length (quoted v)\<rparr>"

lemma prepare_shell_word_Inr: "prepare_shell_word v = Inr w \<longleftrightarrow> quotable v \<and> w = prepared v"
  by (auto simp: prepare_shell_word_def checked_shell_word_len_eq quotable_def prepared_def)

lemma prepare_quotable: "quotable v \<Longrightarrow> prepare_shell_word v = Inr (prepared v)"
  by (simp add: prepare_shell_word_Inr)

lemma collect_prepared:
  "collectR prepare_shell_word args = Inr ws \<longleftrightarrow> list_all quotable args \<and> ws = map prepared args"
  by (induction args arbitrary: ws) (auto simp: bindR_eq_Inr prepare_shell_word_Inr)

lemma length_rendered:
  "length (rendered_command script args) = length FIXED_COMMAND_PREFIX + length (quoted script) +
     length FIXED_COMMAND_ARG0 + sum_list (map (\<lambda>a. 1 + length (quoted a)) args)"
  by (simp add: rendered_command_def length_concat comp_def)

lemma fold_prepared_eq:
  "len \<le> u64_max \<Longrightarrow> fold_prepared len (map prepared args) =
     (let n = len + sum_list (map (\<lambda>a. 1 + length (quoted a)) args)
      in if n \<le> u64_max then Inr n else Inl rendered_too_large)"
  by (induction args arbitrary: len)
    (auto simp: checked_rendered_length_eq prepared_def Let_def add.assoc)

lemma head_length_eq:
  "head_length (prepared script) =
     (let n = length FIXED_COMMAND_PREFIX + length (quoted script) + length FIXED_COMMAND_ARG0
      in if n \<le> u64_max then Inr n else Inl rendered_too_large)"
  by (simp add: head_length_def checked_rendered_length_eq prepared_def Let_def add.assoc)

lemma total_length_eq:
  "bindR (head_length (prepared script)) (\<lambda>len. fold_prepared len (map prepared args)) =
     (if length (rendered_command script args) \<le> u64_max
      then Inr (length (rendered_command script args)) else Inl rendered_too_large)"
  by (auto simp: head_length_eq fold_prepared_eq Let_def length_rendered)

lemma push_to_prepared:
  "length (sb_content b) + length (quoted v) \<le> sb_capacity b \<Longrightarrow>
     push_to (prepared v) b = (Inr (), b\<lparr>sb_content := sb_content b @ quoted v\<rparr>)"
  by (simp add: push_to_def prepared_def push_word_escape quoted_def saturating_sub_def)

lemma push_words_prepared:
  "length (sb_content b) + sum_list (map (\<lambda>a. 1 + length (quoted a)) args) \<le> sb_capacity b \<Longrightarrow>
     push_words b (map prepared args) =
       Inr (b\<lparr>sb_content := sb_content b @ concat (map (\<lambda>a. SP # quoted a) args)\<rparr>)"
proof (induction args arbitrary: b)
  case (Cons a args)
  have "push_to (prepared a) (push_str [SP] b) =
      (Inr (), b\<lparr>sb_content := sb_content b @ SP # quoted a\<rparr>)"
    using Cons.prems by (subst push_to_prepared) (simp_all add: push_str_def)
  with Cons.IH [of "b\<lparr>sb_content := sb_content b @ SP # quoted a\<rparr>"] Cons.prems show ?case by simp
qed simp

text \<open>The whole function: which inputs it accepts and what it writes.\<close>

lemma render_text_ok:
  assumes "quotable script" "list_all quotable args"
  shows "render_fixed_command_text script args maximum =
    (if length (rendered_command script args) \<le> min u64_max maximum
     then Inr (rendered_command script args) else Inl rendered_too_large)"
proof (cases "length (rendered_command script args) \<le> u64_max")
  case True
  let ?len = "length (rendered_command script args)"
  let ?b = "\<lparr>sb_content = FIXED_COMMAND_PREFIX, sb_capacity = ?len\<rparr>"
  have total: "bindR (head_length (prepared script)) (\<lambda>len. fold_prepared len (map prepared args)) = Inr ?len"
    using True by (simp add: total_length_eq)
  have "push_to (prepared script) ?b = (Inr (), ?b\<lparr>sb_content := FIXED_COMMAND_PREFIX @ quoted script\<rparr>)"
    by (subst push_to_prepared) (simp_all add: length_rendered)
  moreover have "push_words \<lparr>sb_content = FIXED_COMMAND_PREFIX @ quoted script @ FIXED_COMMAND_ARG0, sb_capacity = ?len\<rparr>
      (map prepared args) = Inr \<lparr>sb_content = rendered_command script args, sb_capacity = ?len\<rparr>"
    by (subst push_words_prepared) (simp_all add: length_rendered, simp add: rendered_command_def)
  moreover have "collectR prepare_shell_word args = Inr (map prepared args)"
    using assms(2) by (simp add: collect_prepared)
  ultimately show ?thesis
    using True by (simp add: render_fixed_command_text_def prepare_quotable [OF assms(1)] total
        ensure_rendered_bound_def push_str_def)
next
  case False
  have "collectR prepare_shell_word args = Inr (map prepared args)"
    using assms(2) by (simp add: collect_prepared)
  with False show ?thesis
    by (simp add: render_fixed_command_text_def prepare_quotable [OF assms(1)] total_length_eq)
qed

lemma render_text_Inr:
  "render_fixed_command_text script args maximum = Inr line \<longleftrightarrow>
     quotable script \<and> list_all quotable args \<and> line = rendered_command script args \<and>
     length line \<le> u64_max \<and> length line \<le> maximum"
proof (cases "quotable script \<and> list_all quotable args")
  case True
  with render_text_ok [of script args maximum] show ?thesis by auto
next
  case False
  have "render_fixed_command_text script args maximum \<noteq> Inr line"
  proof
    assume "render_fixed_command_text script args maximum = Inr line"
    then have "\<exists>w. prepare_shell_word script = Inr w" "\<exists>ws. collectR prepare_shell_word args = Inr ws"
      by (auto simp: render_fixed_command_text_def bindR_eq_Inr)
    with False show False by (auto simp: prepare_shell_word_Inr collect_prepared)
  qed
  with False show ?thesis by blast
qed

lemma fold_raw_Inr:
  "len \<le> u64_max \<Longrightarrow> fold_raw_arguments len args = Inr n \<longleftrightarrow>
     list_all quotable args \<and> n = len + sum_list (map (\<lambda>a. 1 + length (quoted a)) args) \<and> n \<le> u64_max"
proof (induction args arbitrary: len)
  case (Cons a args)
  show ?case
  proof (cases "quotable a \<and> len + (1 + length (quoted a)) \<le> u64_max")
    case True
    with Cons.IH [of "len + (1 + length (quoted a))"] show ?thesis
      by (auto simp: prepare_quotable checked_rendered_length_eq prepared_def add.assoc)
  next
    case False
    then show ?thesis
      by (auto simp: bindR_eq_Inr prepare_shell_word_Inr checked_rendered_length_eq prepared_def)
  qed
qed auto

lemma render_length_Inr:
  "render_fixed_command_length script args = Inr n \<longleftrightarrow>
     quotable script \<and> list_all quotable args \<and> n = length (rendered_command script args) \<and> n \<le> u64_max"
  by (auto simp: render_fixed_command_length_def bindR_eq_Inr prepare_shell_word_Inr head_length_eq
      fold_raw_Inr length_rendered Let_def split: if_splits)

section \<open>What the shell and the kernel see\<close>

lemma sh_fields_words:
  "sh_fields Unquoted False [] (concat (map (\<lambda>a. SP # quoted a) args)) = Some args"
proof (induction args)
  case (Cons a args)
  have "sh_fields Unquoted True a (concat (map (\<lambda>a. SP # quoted a) args)) = Some (a # args)"
    using Cons.IH by (cases args) auto
  with sh_fields_quoted [of False "[]" a] show ?case by simp
qed simp

lemma sh_fields_after_word:
  "sh_fields Unquoted True w (concat (map (\<lambda>a. SP # quoted a) args)) = Some (w # args)"
  using sh_fields_words [of args] by (cases args) auto

text \<open>
  The pinned path is relative to the root, and joined with it gives the path that was pinned.
\<close>

definition under_root :: "string \<Rightarrow> string \<Rightarrow> string" where
  "under_root root relative =
     (if relative = [] then root else if root = ''/'' then ''/'' @ relative else root @ ''/'' @ relative)"

lemma root_relative_bytes_Inr:
  "root_relative_bytes root path = Inr p \<longleftrightarrow>
     (\<exists>relative. path = under_root root relative \<and> (relative = [] \<longrightarrow> path = root) \<and>
        (path = root \<longrightarrow> relative = []) \<and>
        p = (if relative = [] then ''.'' else ''./'' @ relative)) \<or>
     path \<noteq> root \<and> root \<noteq> ''/'' \<and> path = root @ ''/'' \<and> p = ''.''"
  by (auto simp: root_relative_bytes_def under_root_def bindR_eq_Inr ok_or_eq_Inr bind_eq_Some_conv
      strip_prefix_eq_Some split: if_splits)

end
