(* ===== verification/Capability.thy ===== *)
theory Capability
  imports Fixed_Protocol Remote_Path
begin

text \<open>
  The capability probe (\<open>src/capability.rs\<close>): the parser of the probe output, with its closed
  set of keys and its bounds, and the choice of the remote shell.
\<close>

section \<open>Data\<close>

definition TOOL_NAMES :: "string list" where
  "TOOL_NAMES =
     [''mktemp'', ''dd_nofollow'', ''sha256sum'', ''stat'', ''find'', ''grep'', ''rg'', ''timeout'',
      ''ln'', ''mv'', ''read_slice'', ''find_nul'', ''stat_printf'', ''rg_json'', ''grep_nul'',
      ''xargs_nul'', ''search_bound'', ''safe_write'', ''guarded_delete'']"

definition MAX_SHELL_VERSION_BYTES :: nat where "MAX_SHELL_VERSION_BYTES = 256"
definition MAX_LOGIN_SHELL_BYTES :: nat where "MAX_LOGIN_SHELL_BYTES = 4096"
definition MAX_KERNEL_NAME_BYTES :: nat where "MAX_KERNEL_NAME_BYTES = 64"
definition MAX_MACHINE_ARCH_BYTES :: nat where "MAX_MACHINE_ARCH_BYTES = 64"
definition MAX_REMOTE_CONTEXT_ROOT_BYTES :: nat where "MAX_REMOTE_CONTEXT_ROOT_BYTES = 65536"

record capability =
  cap_physical_root :: string
  cap_root_device :: nat
  cap_root_inode :: nat
  cap_kernel_name :: "string option"
  cap_machine_arch :: "string option"
  cap_shell :: shell_kind
  cap_bash_version :: "string option"
  cap_login_shell :: "string option"
  cap_tools :: "string \<rightharpoonup> bool"

datatype shell_request = Req_Auto | Req_Bash | Req_Sh | Req_Login

section \<open>Choosing a shell\<close>

definition bash_missing :: bridge_error where
  "bash_missing =
     (let e = new_error RemoteCapabilityMissing ''Bash is not available on the remote host'' False
      in e\<lparr>be_details := (be_details e)\<lparr>ed_requested_shell := Some ''bash'',
             ed_available_shells := Some [''sh'']\<rparr>\<rparr>)"

definition select_shell :: "capability \<Rightarrow> shell_request \<Rightarrow> shell_selection bridge_result" where
  "select_shell c requested =
     (case requested of
        Req_Auto \<Rightarrow>
          (case cap_shell c of
             Bash_Shell v \<Rightarrow> Inr \<lparr>ss_shell = Bash_Shell v, ss_fallback = False\<rparr>
           | _ \<Rightarrow> Inr \<lparr>ss_shell = PosixSh_Shell, ss_fallback = True\<rparr>)
      | Req_Bash \<Rightarrow>
          (case cap_shell c of
             Bash_Shell v \<Rightarrow> Inr \<lparr>ss_shell = Bash_Shell v, ss_fallback = False\<rparr>
           | _ \<Rightarrow> Inl bash_missing)
      | Req_Sh \<Rightarrow> Inr \<lparr>ss_shell = PosixSh_Shell, ss_fallback = False\<rparr>
      | Req_Login \<Rightarrow>
          if cap_login_shell c = None then
            Inl (new_error RemoteCapabilityMissing
                   ''remote account login shell could not be resolved safely'' False)
          else Inr \<lparr>ss_shell = Login_Shell, ss_fallback = False\<rparr>)"

section \<open>Parsing the probe output\<close>

definition is_ascii_control :: "char \<Rightarrow> bool" where
  "is_ascii_control c \<longleftrightarrow> byte c < 32 \<or> byte c = 127"

definition fixed_keys :: "string list" where
  "fixed_keys =
     [''CODEX_SSH_PROBE'', ''REQUESTED_ROOT'', ''ROOT'', ''ROOT_DEVICE'', ''ROOT_INODE'',
      ''KERNEL_NAME'', ''MACHINE_ARCH'', ''SHELL_KIND'', ''BASH_VERSION'', ''LOGIN_SHELL'']"

definition validate_key_value :: "string \<Rightarrow> string \<Rightarrow> unit bridge_result" where
  "validate_key_value key v =
     (if key \<in> set fixed_keys then Inr ()
      else
        (case strip_prefix ''TOOL_'' key of
           Some name \<Rightarrow>
             if name \<in> set TOOL_NAMES \<and> (v = ''0'' \<or> v = ''1'') then Inr ()
             else if name \<notin> set TOOL_NAMES then Inl (protocol_error ''unknown capability tool key'')
             else Inl (protocol_error ''capability tool value must be 0 or 1'')
         | None \<Rightarrow> Inl (protocol_error ''unknown capability key'')))"

fun parse_records :: "(string \<rightharpoonup> string) \<Rightarrow> string list \<Rightarrow> (string \<rightharpoonup> string) bridge_result" where
  "parse_records records [] = Inr records"
| "parse_records records (raw # raws) =
     (if raw = [] then Inl (protocol_error ''capability output contains an empty record'')
      else if \<not> valid_utf8 raw then Inl (protocol_error ''capability output is not valid UTF-8'')
      else
        (case split_once (CHR ''='') raw of
           None \<Rightarrow> Inl (protocol_error ''capability record has no value'')
         | Some (key, v) \<Rightarrow>
             bindR (validate_key_value key v) (\<lambda>_.
               if records key \<noteq> None then
                 Inl (protocol_error ''capability output contains a duplicate key'')
               else parse_records (records(key \<mapsto> v)) raws)))"

definition required :: "(string \<rightharpoonup> string) \<Rightarrow> string \<Rightarrow> string bridge_result" where
  "required records key =
     ok_or (protocol_error ''capability output is missing a required key'') (records key)"

definition optional_bounded_record ::
  "(string \<rightharpoonup> string) \<Rightarrow> string \<Rightarrow> nat \<Rightarrow> string option bridge_result" where
  "optional_bounded_record records key max_bytes =
     (case records key of
        None \<Rightarrow> Inr None
      | Some v \<Rightarrow>
          if v = [] then Inr None
          else if max_bytes < length v \<or> list_ex is_ascii_control v then
            Inl (protocol_error ''capability platform record is invalid'')
          else Inr (Some v))"

definition parse_root_identity_number :: "string \<Rightarrow> nat bridge_result" where
  "parse_root_identity_number v =
     (if v = [] \<or> list_ex (\<lambda>b. \<not> is_ascii_digit b) v then Inl (protocol_error ''root identity is invalid'')
      else ok_or (protocol_error ''root identity is invalid'') (parse_unsigned u64_max v))"

definition parse_physical_root :: "(string \<rightharpoonup> string) \<Rightarrow> string bridge_result" where
  "parse_physical_root records =
     bindR (required records ''ROOT'') (\<lambda>root.
       if MAX_REMOTE_CONTEXT_ROOT_BYTES < length root then
         Inl (protocol_error ''physical root exceeds the safe context limit'')
       else if \<not> starts_with ''/'' root then Inl (protocol_error ''physical root is not absolute'')
       else
         bindR (map_err (\<lambda>_. protocol_error ''physical root is invalid'') (resolve ''/'' root))
           (\<lambda>normalized.
              if rp_absolute normalized \<noteq> root then
                Inl (protocol_error ''physical root is not normalized'')
              else Inr root))"

definition parse_shell ::
  "(string \<rightharpoonup> string) \<Rightarrow> (shell_kind \<times> string option) bridge_result" where
  "parse_shell records =
     bindR (required records ''BASH_VERSION'') (\<lambda>version.
       if MAX_SHELL_VERSION_BYTES < length version then
         Inl (protocol_error ''shell version exceeds the safe metadata limit'')
       else
         bindR (required records ''SHELL_KIND'') (\<lambda>kind.
           if kind = ''bash'' then
             (if version \<noteq> [] then Inr (Bash_Shell version, Some version)
              else Inl (protocol_error ''Bash capability has no version''))
           else if kind = ''sh'' then
             (if version = [] then Inr (PosixSh_Shell, None)
              else Inl (protocol_error ''sh capability has a Bash version''))
           else Inl (protocol_error ''unknown shell capability'')))"

definition parse_login_shell :: "(string \<rightharpoonup> string) \<Rightarrow> string option bridge_result" where
  "parse_login_shell records =
     bindR (required records ''LOGIN_SHELL'') (\<lambda>v.
       if v = [] then Inr None
       else if MAX_LOGIN_SHELL_BYTES < length v \<or> list_ex is_ascii_control v \<or> \<not> starts_with ''/'' v then
         Inl (protocol_error ''login shell path is invalid'')
       else Inr (Some v))"

definition record_tools :: "(string \<rightharpoonup> string) \<Rightarrow> (string \<rightharpoonup> bool)" where
  "record_tools records = (\<lambda>name. map_option (\<lambda>v. v = ''1'') (records (''TOOL_'' @ name)))"

definition parse_capability :: "(string \<rightharpoonup> string) \<Rightarrow> string \<Rightarrow> capability bridge_result" where
  "parse_capability records requested =
     bindR (required records ''CODEX_SSH_PROBE'') (\<lambda>version.
     if version \<noteq> ''1'' then Inl (protocol_error ''unsupported capability protocol version'')
     else bindR (required records ''REQUESTED_ROOT'') (\<lambda>root.
     if root \<noteq> requested then
       Inl (protocol_error ''capability output does not match the requested root'')
     else bindR (parse_physical_root records) (\<lambda>physical_root.
     bindR (bindR (required records ''ROOT_DEVICE'') parse_root_identity_number) (\<lambda>root_device.
     bindR (bindR (required records ''ROOT_INODE'') parse_root_identity_number) (\<lambda>root_inode.
     bindR (optional_bounded_record records ''KERNEL_NAME'' MAX_KERNEL_NAME_BYTES) (\<lambda>kernel_name.
     bindR (optional_bounded_record records ''MACHINE_ARCH'' MAX_MACHINE_ARCH_BYTES) (\<lambda>machine_arch.
     bindR (parse_shell records) (\<lambda>(shell, bash_version).
     bindR (parse_login_shell records) (\<lambda>login_shell.
       Inr \<lparr>cap_physical_root = physical_root, cap_root_device = root_device,
            cap_root_inode = root_inode, cap_kernel_name = kernel_name,
            cap_machine_arch = machine_arch, cap_shell = shell, cap_bash_version = bash_version,
            cap_login_shell = login_shell, cap_tools = record_tools records\<rparr>)))))))))"

definition parse_probe_output :: "string \<Rightarrow> remote_path \<Rightarrow> capability bridge_result" where
  "parse_probe_output output expected_requested_root =
     (if output = [] \<or> last output \<noteq> NUL then
        Inl (protocol_error ''capability output is not NUL terminated'')
      else
        bindR (parse_records Map.empty (split_on NUL (butlast output))) (\<lambda>records.
          parse_capability records (rp_absolute expected_requested_root)))"

section \<open>What an accepted probe guarantees\<close>

definition optional_text :: "nat \<Rightarrow> string option \<Rightarrow> bool" where
  "optional_text n t \<longleftrightarrow>
     (\<forall>v. t = Some v \<longrightarrow> v \<noteq> [] \<and> length v \<le> n \<and> \<not> list_ex is_ascii_control v)"

definition capability_ok :: "capability \<Rightarrow> bool" where
  "capability_ok c \<longleftrightarrow>
     canonical_path (cap_physical_root c) \<and>
     length (cap_physical_root c) \<le> MAX_REMOTE_CONTEXT_ROOT_BYTES \<and>
     cap_root_device c \<le> u64_max \<and> cap_root_inode c \<le> u64_max \<and>
     optional_text MAX_KERNEL_NAME_BYTES (cap_kernel_name c) \<and>
     optional_text MAX_MACHINE_ARCH_BYTES (cap_machine_arch c) \<and>
     (case cap_bash_version c of
        None \<Rightarrow> cap_shell c = PosixSh_Shell
      | Some v \<Rightarrow> cap_shell c = Bash_Shell v \<and> v \<noteq> [] \<and> length v \<le> MAX_SHELL_VERSION_BYTES) \<and>
     optional_text MAX_LOGIN_SHELL_BYTES (cap_login_shell c) \<and>
     (\<forall>v. cap_login_shell c = Some v \<longrightarrow> starts_with ''/'' v) \<and>
     dom (cap_tools c) \<subseteq> set TOOL_NAMES"

lemma parse_records_keys:
  assumes "parse_records records raws = Inr r"
    and "\<forall>k v. records k = Some v \<longrightarrow> validate_key_value k v = Inr ()"
  shows "\<forall>k v. r k = Some v \<longrightarrow> validate_key_value k v = Inr ()"
  using assms
proof (induction records raws arbitrary: r rule: parse_records.induct)
  case (2 records raw raws)
  from "2.prems"(1) obtain key val where kv: "raw \<noteq> []" "valid_utf8 raw"
    "split_once (CHR ''='') raw = Some (key, val)"
    "validate_key_value key val = Inr ()" "records key = None"
    "parse_records (records(key \<mapsto> val)) raws = Inr r"
    by (auto simp: bindR_eq_Inr split: if_splits option.splits)
  have "\<forall>k v. (records(key \<mapsto> val)) k = Some v \<longrightarrow> validate_key_value k v = Inr ()"
    using "2.prems"(2) kv(4) by simp
  with "2.IH" [of "(key, val)" key val "()" r] kv show ?case by (simp del: fun_upd_apply)
qed simp

lemma tool_key_fixed: "''TOOL_'' @ name \<notin> set fixed_keys"
  by (simp add: fixed_keys_def)

lemma parse_records_tools:
  assumes "parse_records Map.empty raws = Inr r"
  shows "dom (record_tools r) \<subseteq> set TOOL_NAMES"
proof
  fix name assume "name \<in> dom (record_tools r)"
  then obtain v where "r (''TOOL_'' @ name) = Some v" by (auto simp: record_tools_def)
  with parse_records_keys [OF assms] have "validate_key_value (''TOOL_'' @ name) v = Inr ()" by simp
  then show "name \<in> set TOOL_NAMES"
    using tool_key_fixed [of name] strip_prefix_append [of "''TOOL_''" name]
    by (simp add: validate_key_value_def split: if_splits)
qed

lemma optional_bounded_ok: "optional_bounded_record r k n = Inr t \<Longrightarrow> optional_text n t"
  by (auto simp: optional_bounded_record_def optional_text_def split: option.splits if_splits)

lemma parse_capability_ok:
  assumes "parse_capability r req = Inr c" "dom (record_tools r) \<subseteq> set TOOL_NAMES"
  shows "capability_ok c"
proof -
  from assms(1) obtain device inode where c: "parse_physical_root r = Inr (cap_physical_root c)"
    "parse_root_identity_number device = Inr (cap_root_device c)"
    "parse_root_identity_number inode = Inr (cap_root_inode c)"
    "optional_bounded_record r ''KERNEL_NAME'' MAX_KERNEL_NAME_BYTES = Inr (cap_kernel_name c)"
    "optional_bounded_record r ''MACHINE_ARCH'' MAX_MACHINE_ARCH_BYTES = Inr (cap_machine_arch c)"
    "parse_shell r = Inr (cap_shell c, cap_bash_version c)"
    "parse_login_shell r = Inr (cap_login_shell c)" "cap_tools c = record_tools r"
    by (auto simp: parse_capability_def bindR_eq_Inr split: if_splits)
  from c(1) obtain n where "resolve ''/'' (cap_physical_root c) = Inr n" "rp_absolute n = cap_physical_root c"
    "length (cap_physical_root c) \<le> MAX_REMOTE_CONTEXT_ROOT_BYTES"
    by (auto simp: parse_physical_root_def bindR_eq_Inr map_err_eq_Inr split: if_splits)
  with resolve_canonical [OF this(1)]
  have "canonical_path (cap_physical_root c) \<and> length (cap_physical_root c) \<le> MAX_REMOTE_CONTEXT_ROOT_BYTES"
    by simp
  moreover have "cap_root_device c \<le> u64_max \<and> cap_root_inode c \<le> u64_max"
    using c(2,3) parse_unsigned_bound
    by (auto simp: parse_root_identity_number_def ok_or_eq_Inr split: if_splits)
  moreover have "case cap_bash_version c of
        None \<Rightarrow> cap_shell c = PosixSh_Shell
      | Some v \<Rightarrow> cap_shell c = Bash_Shell v \<and> v \<noteq> [] \<and> length v \<le> MAX_SHELL_VERSION_BYTES"
    using c(6) by (auto simp: parse_shell_def bindR_eq_Inr split: if_splits option.splits)
  moreover have "optional_text MAX_LOGIN_SHELL_BYTES (cap_login_shell c) \<and>
      (\<forall>v. cap_login_shell c = Some v \<longrightarrow> starts_with ''/'' v)"
    using c(7) by (auto simp: parse_login_shell_def bindR_eq_Inr optional_text_def split: if_splits)
  ultimately show ?thesis
    using optional_bounded_ok [OF c(4)] optional_bounded_ok [OF c(5)] assms(2) c(8)
    by (simp add: capability_ok_def)
qed

section \<open>Every output the probe prints is read back\<close>

definition probe_record :: "string \<times> string \<Rightarrow> string" where
  "probe_record kv = fst kv @ CHR ''='' # snd kv"

definition probe_output :: "(string \<times> string) list \<Rightarrow> string" where
  "probe_output kvs = concat (map (\<lambda>kv. probe_record kv @ [NUL]) kvs)"

definition text_ok :: "string \<Rightarrow> bool" where
  "text_ok v \<longleftrightarrow> valid_utf8 v \<and> NUL \<notin> set v"

definition option_text :: "string option \<Rightarrow> string" where
  "option_text t = (case t of None \<Rightarrow> [] | Some v \<Rightarrow> v)"

definition capability_records :: "remote_path \<Rightarrow> capability \<Rightarrow> (string \<times> string) list" where
  "capability_records requested c =
     [(''CODEX_SSH_PROBE'', ''1''), (''REQUESTED_ROOT'', rp_absolute requested),
      (''ROOT'', cap_physical_root c), (''ROOT_DEVICE'', decimal (cap_root_device c)),
      (''ROOT_INODE'', decimal (cap_root_inode c)), (''KERNEL_NAME'', option_text (cap_kernel_name c)),
      (''MACHINE_ARCH'', option_text (cap_machine_arch c)),
      (''SHELL_KIND'', if cap_bash_version c = None then ''sh'' else ''bash''),
      (''BASH_VERSION'', option_text (cap_bash_version c)),
      (''LOGIN_SHELL'', option_text (cap_login_shell c))] @
     map (\<lambda>name. (''TOOL_'' @ name, if cap_tools c name = Some True then ''1'' else ''0'')) TOOL_NAMES"

lemma valid_utf8_ascii_append:
  "\<forall>c \<in> set k. byte c < 0x80 \<Longrightarrow> valid_utf8 (k @ s) = valid_utf8 s"
  by (induction k) (auto simp: valid_utf8_def decode_1 simp del: utf8_decode.simps)

text \<open>A key of the closed set with a value that is allowed under it.\<close>

definition pair_ok :: "string \<times> string \<Rightarrow> bool" where
  "pair_ok kv \<longleftrightarrow> validate_key_value (fst kv) (snd kv) = Inr () \<and> text_ok (snd kv) \<and>
     (\<forall>c \<in> set (fst kv). byte c < 0x80 \<and> c \<noteq> NUL \<and> c \<noteq> CHR ''='')"

lemma split_probe_record:
  assumes "pair_ok kv"
  shows "probe_record kv \<noteq> []" "valid_utf8 (probe_record kv)" "NUL \<notin> set (probe_record kv)"
    "split_once (CHR ''='') (probe_record kv) = Some kv"
proof -
  have "\<forall>c \<in> set (fst kv). \<not> c = CHR ''=''" using assms by (auto simp: pair_ok_def)
  from position_append_hit [of "fst kv" "\<lambda>c. c = CHR ''=''" "CHR ''=''" "snd kv", OF this]
  show "split_once (CHR ''='') (probe_record kv) = Some kv"
    by (simp add: split_once_def probe_record_def)
  have "valid_utf8 (CHR ''='' # snd kv) = valid_utf8 (snd kv)"
    using valid_utf8_ascii_append [of "''=''" "snd kv"] by (simp add: byte_def)
  then show "valid_utf8 (probe_record kv)"
    using assms valid_utf8_ascii_append [of "fst kv" "CHR ''='' # snd kv"]
    by (simp add: probe_record_def pair_ok_def text_ok_def)
qed (use assms in \<open>auto simp: probe_record_def pair_ok_def text_ok_def\<close>)

lemma parse_records_print:
  assumes "list_all pair_ok kvs" "distinct (map fst kvs)" "\<forall>kv \<in> set kvs. m (fst kv) = None"
  shows "parse_records m (map probe_record kvs) = Inr (m ++ map_of kvs)"
  using assms
proof (induction kvs arbitrary: m)
  case (Cons kv kvs)
  obtain k v where kv: "kv = (k, v)" by force
  have ok: "pair_ok kv" using Cons.prems(1) by simp
  have "parse_records (m(k \<mapsto> v)) (map probe_record kvs) = Inr (m(k \<mapsto> v) ++ map_of kvs)"
    using Cons.prems kv by (intro Cons.IH) force+
  moreover have "m(k \<mapsto> v) ++ map_of kvs = m ++ map_of (kv # kvs)"
  proof -
    have "map_of kvs k = None" using Cons.prems(2) kv by (auto simp: map_of_eq_None_iff)
    then show ?thesis by (auto simp: kv map_add_def fun_eq_iff split: option.splits)
  qed
  ultimately show ?case
    using split_probe_record [OF ok] ok Cons.prems(3) by (simp add: kv pair_ok_def del: fun_upd_apply)
qed simp

lemma probe_output_join: "kvs \<noteq> [] \<Longrightarrow> probe_output kvs = join_with [NUL] (map probe_record kvs) @ [NUL]"
  by (induction kvs) (auto simp: probe_output_def join_Cons)

lemma parse_probe_print:
  assumes "list_all pair_ok kvs" "distinct (map fst kvs)" "kvs \<noteq> []"
  shows "parse_probe_output (probe_output kvs) requested = parse_capability (map_of kvs) (rp_absolute requested)"
proof -
  have "\<forall>p \<in> set (map probe_record kvs). NUL \<notin> set p"
    using assms(1) split_probe_record(3) by (auto simp: list_all_iff)
  from split_join [OF _ this] assms(3)
  have "split_on NUL (butlast (probe_output kvs)) = map probe_record kvs" by (simp add: probe_output_join)
  with parse_records_print [of kvs Map.empty] assms show ?thesis
    by (simp add: parse_probe_output_def probe_output_join)
qed

lemma resolve_slash_canonical:
  assumes "canonical_path p" "NUL \<notin> set p"
  shows "\<exists>q. resolve ''/'' p = Inr q \<and> rp_absolute q = p"
proof -
  from assms(1) consider "p = ''/''" | cs where "cs \<noteq> []" "list_all plain_component cs" "p = ''/'' @ join_with ''/'' cs"
    by (auto simp: canonical_path_def)
  then show ?thesis
  proof cases
    case 1
    then show ?thesis by (simp add: resolve_def normalize_absolute_root starts_with_def)
  next
    case 2
    then have "normalize_absolute p = cs" using normalize_absolute_canonical by blast
    with 2 assms(2) show ?thesis
      by (simp add: resolve_def normalize_absolute_root starts_with_def)
  qed
qed

definition capability_texts_ok :: "remote_path \<Rightarrow> capability \<Rightarrow> bool" where
  "capability_texts_ok requested c \<longleftrightarrow>
     text_ok (rp_absolute requested) \<and> text_ok (cap_physical_root c) \<and>
     text_ok (option_text (cap_kernel_name c)) \<and> text_ok (option_text (cap_machine_arch c)) \<and>
     text_ok (option_text (cap_bash_version c)) \<and> text_ok (option_text (cap_login_shell c))"

lemma decimal_ascii: "\<forall>c \<in> set (decimal n). byte c < 0x80 \<and> c \<noteq> NUL"
proof
  fix c assume "c \<in> set (decimal n)"
  then have "is_ascii_digit c" by (rule decimal_set)
  then show "byte c < 0x80 \<and> c \<noteq> NUL" by (auto simp: is_ascii_digit_def byte_def)
qed

lemma decimal_text: "text_ok (decimal n)"
  using decimal_ascii [of n] by (auto simp: text_ok_def intro: valid_utf8_ascii)

lemma tool_pair_ok:
  assumes "name \<in> set TOOL_NAMES"
  shows "pair_ok (''TOOL_'' @ name, if b then ''1'' else ''0'')"
proof -
  have "\<forall>c \<in> set name. byte c < 0x80 \<and> c \<noteq> NUL \<and> c \<noteq> CHR ''=''"
    using assms by (auto simp: TOOL_NAMES_def byte_def)
  moreover have "validate_key_value (''TOOL_'' @ name) (if b then ''1'' else ''0'') = Inr ()"
    using assms tool_key_fixed [of name] strip_prefix_append [of "''TOOL_''" name]
    by (simp add: validate_key_value_def)
  moreover have "text_ok (if b then ''1'' else ''0'')"
    by (auto simp: text_ok_def byte_def intro!: valid_utf8_ascii)
  ultimately show ?thesis by (auto simp: pair_ok_def byte_def)
qed

lemma fixed_pair_ok: "k \<in> set fixed_keys \<Longrightarrow> text_ok v \<Longrightarrow> pair_ok (k, v)"
  by (auto simp: pair_ok_def validate_key_value_def) (auto simp: fixed_keys_def byte_def)

lemma capability_pairs_ok:
  assumes "capability_texts_ok requested c"
  shows "list_all pair_ok (capability_records requested c)"
proof -
  have "text_ok ''1''" "text_ok ''sh''" "text_ok ''bash''"
    by (auto simp: text_ok_def byte_def intro!: valid_utf8_ascii)
  then have "list_all pair_ok (take 10 (capability_records requested c))"
    using assms decimal_text
    by (auto simp: capability_records_def capability_texts_ok_def intro!: fixed_pair_ok simp: fixed_keys_def)
  moreover have "list_all pair_ok (map (\<lambda>name. (''TOOL_'' @ name,
      if cap_tools c name = Some True then ''1'' else ''0'')) TOOL_NAMES)"
    unfolding list_all_iff set_map using tool_pair_ok by blast
  ultimately show ?thesis by (simp add: capability_records_def)
qed

lemma tool_names_distinct: "distinct TOOL_NAMES"
  by (simp add: TOOL_NAMES_def)

lemma capability_keys_distinct: "distinct (map fst (capability_records requested c))"
proof -
  have "map fst (capability_records requested c) = fixed_keys @ map (\<lambda>name. ''TOOL_'' @ name) TOOL_NAMES"
    by (simp add: capability_records_def fixed_keys_def comp_def)
  moreover have "distinct (map (\<lambda>name. ''TOOL_'' @ name) TOOL_NAMES)"
    by (simp add: distinct_map tool_names_distinct inj_on_def)
  moreover have "distinct fixed_keys" by (simp add: fixed_keys_def)
  ultimately show ?thesis using tool_key_fixed by auto
qed

lemma map_of_tools:
  "map_of (map (\<lambda>name. (''TOOL_'' @ name, f name)) names) (''TOOL_'' @ n) =
     (if n \<in> set names then Some (f n) else None)"
  by (induction names) auto

lemma record_tools_print:
  assumes "dom (cap_tools c) = set TOOL_NAMES"
  shows "record_tools (map_of (capability_records requested c)) = cap_tools c"
proof
  fix n
  have "map_of (take 10 (capability_records requested c)) (''TOOL_'' @ n) = None"
    by (simp add: capability_records_def)
  then have "map_of (capability_records requested c) (''TOOL_'' @ n) =
      (if n \<in> set TOOL_NAMES then Some (if cap_tools c n = Some True then ''1'' else ''0'') else None)"
    using map_of_tools [of "\<lambda>n. if cap_tools c n = Some True then ''1'' else ''0''" TOOL_NAMES n]
    by (simp add: capability_records_def)
  moreover have "cap_tools c n = None \<longleftrightarrow> n \<notin> set TOOL_NAMES" using assms by auto
  ultimately show "record_tools (map_of (capability_records requested c)) n = cap_tools c n"
    by (cases "cap_tools c n") (auto simp: record_tools_def)
qed

lemma parse_probe_reads:
  assumes "capability_ok c" "dom (cap_tools c) = set TOOL_NAMES" "capability_texts_ok requested c"
  shows "parse_probe_output (probe_output (capability_records requested c)) requested = Inr c"
proof -
  let ?m = "map_of (capability_records requested c)"
  have step: "parse_probe_output (probe_output (capability_records requested c)) requested =
      parse_capability ?m (rp_absolute requested)"
    by (rule parse_probe_print [OF capability_pairs_ok [OF assms(3)] capability_keys_distinct])
      (simp add: capability_records_def)
  have look: "?m ''CODEX_SSH_PROBE'' = Some ''1''" "?m ''REQUESTED_ROOT'' = Some (rp_absolute requested)"
    "?m ''ROOT'' = Some (cap_physical_root c)" "?m ''ROOT_DEVICE'' = Some (decimal (cap_root_device c))"
    "?m ''ROOT_INODE'' = Some (decimal (cap_root_inode c))"
    "?m ''KERNEL_NAME'' = Some (option_text (cap_kernel_name c))"
    "?m ''MACHINE_ARCH'' = Some (option_text (cap_machine_arch c))"
    "?m ''SHELL_KIND'' = Some (if cap_bash_version c = None then ''sh'' else ''bash'')"
    "?m ''BASH_VERSION'' = Some (option_text (cap_bash_version c))"
    "?m ''LOGIN_SHELL'' = Some (option_text (cap_login_shell c))"
    by (simp_all add: capability_records_def)
  have root: "parse_physical_root ?m = Inr (cap_physical_root c)"
    using resolve_slash_canonical [of "cap_physical_root c"] assms(1,3)
    by (auto simp: parse_physical_root_def required_def look capability_ok_def capability_texts_ok_def
        text_ok_def canonical_path_def starts_with_def)
  have number: "parse_root_identity_number (decimal n) = Inr n" if "n \<le> u64_max" for n
    using that decimal_digits [of n] parse_decimal_roundtrip [OF that]
    by (auto simp: parse_root_identity_number_def list_ex_iff list_all_iff)
  have numbers: "parse_root_identity_number (decimal (cap_root_device c)) = Inr (cap_root_device c)"
    "parse_root_identity_number (decimal (cap_root_inode c)) = Inr (cap_root_inode c)"
    using assms(1) by (auto simp: capability_ok_def intro: number)
  have optional: "optional_bounded_record ?m k n = Inr t" if "?m k = Some (option_text t)" "optional_text n t" for k n t
    using that by (cases t) (auto simp: optional_bounded_record_def option_text_def optional_text_def)
  have texts: "optional_bounded_record ?m ''KERNEL_NAME'' MAX_KERNEL_NAME_BYTES = Inr (cap_kernel_name c)"
    "optional_bounded_record ?m ''MACHINE_ARCH'' MAX_MACHINE_ARCH_BYTES = Inr (cap_machine_arch c)"
    using assms(1) look by (auto simp: capability_ok_def intro: optional)
  have shell: "parse_shell ?m = Inr (cap_shell c, cap_bash_version c)"
    using assms(1)
    by (cases "cap_bash_version c")
      (auto simp: parse_shell_def required_def look capability_ok_def option_text_def)
  have login: "parse_login_shell ?m = Inr (cap_login_shell c)"
    using assms(1)
    by (cases "cap_login_shell c")
      (auto simp: parse_login_shell_def required_def look capability_ok_def option_text_def optional_text_def)
  show ?thesis
    unfolding step
    by (simp add: parse_capability_def required_def look root numbers texts shell login
        record_tools_print [OF assms(2)])
qed

definition sample_capability :: capability where
  "sample_capability =
     \<lparr>cap_physical_root = ''/'', cap_root_device = 7, cap_root_inode = 2, cap_kernel_name = Some ''Linux'',
      cap_machine_arch = None, cap_shell = Bash_Shell ''5.2'', cap_bash_version = Some ''5.2'',
      cap_login_shell = Some ''/bin/sh'', cap_tools = map_of (map (\<lambda>n. (n, True)) TOOL_NAMES)\<rparr>"

definition slash_path :: remote_path where
  "slash_path = \<lparr>rp_absolute = ''/'', rp_relative = []\<rparr>"

lemma sample_capability_ok:
  "capability_ok sample_capability" "dom (cap_tools sample_capability) = set TOOL_NAMES"
  "capability_texts_ok slash_path sample_capability"
proof -
  have "dom (cap_tools sample_capability) = set TOOL_NAMES"
    by (simp add: sample_capability_def dom_map_of_conv_image_fst image_image comp_def)
  then show "dom (cap_tools sample_capability) = set TOOL_NAMES"
    "capability_ok sample_capability"
    by (simp_all add: capability_ok_def) (simp add: sample_capability_def canonical_path_def u64_max_def
        MAX_REMOTE_CONTEXT_ROOT_BYTES_def MAX_KERNEL_NAME_BYTES_def MAX_SHELL_VERSION_BYTES_def
        MAX_LOGIN_SHELL_BYTES_def optional_text_def is_ascii_control_def byte_def starts_with_def)
  show "capability_texts_ok slash_path sample_capability"
    by (auto simp: capability_texts_ok_def slash_path_def sample_capability_def text_ok_def option_text_def
        byte_def intro!: valid_utf8_ascii)
qed

section \<open>Properties\<close>

text \<open>An accepted probe describes a canonical absolute root within its bound, a shell that
  agrees with the reported Bash version, printable bounded texts and tools of the closed list only.\<close>

theorem parse_probe_output_ok:
  assumes "parse_probe_output output requested = Inr c"
  shows "capability_ok c"
proof -
  from assms obtain records where r: "parse_records Map.empty (split_on NUL (butlast output)) = Inr records"
    "parse_capability records (rp_absolute requested) = Inr c"
    by (auto simp: parse_probe_output_def bindR_eq_Inr split: if_splits)
  show ?thesis by (rule parse_capability_ok [OF r(2) parse_records_tools [OF r(1)]])
qed

lemma parse_probe_output_ok_witness: "capability_ok sample_capability"
  by (rule parse_probe_output_ok [OF parse_probe_reads [OF sample_capability_ok]])

text \<open>The output that the probe script prints for a well-formed capability is parsed back to that
  very capability.\<close>

theorem parse_probe_roundtrip:
  assumes "capability_ok c" "dom (cap_tools c) = set TOOL_NAMES" "capability_texts_ok requested c"
  shows "parse_probe_output (probe_output (capability_records requested c)) requested = Inr c"
  by (rule parse_probe_reads [OF assms])

lemma parse_probe_roundtrip_witness:
  "parse_probe_output (probe_output (capability_records slash_path sample_capability)) slash_path =
     Inr sample_capability"
  by (rule parse_probe_roundtrip [OF sample_capability_ok])

text \<open>Whatever shell is selected can be run: Bash only when the probe found it, the login shell
  only when it is known, and the fallback is flagged exactly when Bash was wanted but is missing.\<close>

theorem select_shell_sound:
  "case select_shell c requested of
     Inr s \<Rightarrow>
       (case ss_shell s of
          Bash_Shell v \<Rightarrow> cap_shell c = Bash_Shell v \<and> (requested = Req_Auto \<or> requested = Req_Bash)
        | PosixSh_Shell \<Rightarrow> requested = Req_Auto \<or> requested = Req_Sh
        | Login_Shell \<Rightarrow> requested = Req_Login \<and> cap_login_shell c \<noteq> None) \<and>
       (ss_fallback s \<longleftrightarrow> requested = Req_Auto \<and> (\<nexists>v. cap_shell c = Bash_Shell v))
   | Inl e \<Rightarrow>
       be_code e = RemoteCapabilityMissing \<and>
       (requested = Req_Bash \<and> (\<nexists>v. cap_shell c = Bash_Shell v) \<or>
        requested = Req_Login \<and> cap_login_shell c = None)"
  by (cases requested; cases "cap_shell c")
    (simp_all add: select_shell_def bash_missing_def new_error_def Let_def)

end
