(* ===== verification/Fixed_Runner.thy ===== *)
theory Fixed_Runner
  imports Fixed_Command Capability
begin

text \<open>
  One fixed operation (\<open>SshRunner::execute_fixed_once\<close> of \<open>src/ssh/process.rs\<close>): the checks
  before anything is sent, the command that is sent, and the errors after it.  The waits, the
  host initialisation, the session and the capture are parameters (\<open>runner_world\<close>), each the
  result of one call of the source in its order; the result says what was sent.
\<close>

section \<open>Data\<close>

datatype fixed_operation_kind = Op_ReadOnly | Op_Mutation

record effective_limits =
  lim_connect_timeout_ms :: nat
  lim_command_timeout_ms :: nat
  lim_max_frame_bytes :: nat
  lim_read_chunk_bytes :: nat
  lim_max_read_bytes :: nat
  lim_max_write_bytes :: nat
  lim_preview_bytes :: nat
  lim_max_output_bytes :: nat

record fixed_run_request =
  fr_kind :: fixed_operation_kind
  fr_host :: string
  fr_script :: string
  fr_args :: "string list"
  fr_stdin :: "string option"
  fr_rooted :: rooted_path_inputs
  fr_required :: "string list"
  fr_stdout_limit :: nat
  fr_stderr_limit :: nat
  fr_timeout_ms :: nat

record session_command =
  sq_command :: string
  sq_cwd :: string
  sq_shell :: shell_selection
  sq_stdin :: "string option"

record session_result =
  sr_status :: int
  sr_stdout :: string
  sr_stderr :: string
  sr_stdout_truncated :: bool
  sr_stderr_truncated :: bool
  sr_elapsed_ms :: nat
  sr_remote_process_may_continue :: bool

record fixed_run_result =
  fx_capability :: capability
  fx_shell :: shell_selection
  fx_helper_mode :: helper_mode
  fx_output :: captured_output
  fx_elapsed_ms :: nat
  fx_remote_process_may_continue :: bool

record runner_world =
  rw_alias :: "unit bridge_result"
  rw_admitted :: "unit bridge_result"
  rw_initialize :: "capability bridge_result"
  rw_session :: "helper_mode bridge_result"
  rw_deadline :: "unit bridge_result"
  rw_timeout :: "unit bridge_result"
  rw_response_timeout :: "unit bridge_result"
  rw_execute :: "session_command \<Rightarrow> session_result bridge_result"
  rw_capture :: "session_result \<Rightarrow> captured_output bridge_result"

definition REMOTE_OPERATION_ROOT :: string where
  "REMOTE_OPERATION_ROOT = ''/''"

section \<open>Errors\<close>

definition mutation_unknown :: "bridge_error \<Rightarrow> bridge_error" where
  "mutation_unknown source =
     (let e = mutation_outcome_unknown_error; d = be_details source
      in e\<lparr>be_details := (be_details e)
             \<lparr>ed_host := ed_host d, ed_physical_root := ed_physical_root d, ed_shell := ed_shell d,
              ed_elapsed_ms := ed_elapsed_ms d, ed_exit_status := ed_exit_status d,
              ed_bytes_seen := ed_bytes_seen d,
              ed_remote_process_may_continue := ed_remote_process_may_continue d\<rparr>\<rparr>)"

definition after_spawn_error :: "fixed_operation_kind \<Rightarrow> bridge_error \<Rightarrow> bridge_error" where
  "after_spawn_error op error =
     (case op of Op_ReadOnly \<Rightarrow> error | Op_Mutation \<Rightarrow> mutation_unknown error)"

definition shell_error_metadata :: "shell_selection \<Rightarrow> error_shell_metadata" where
  "shell_error_metadata shell =
     (case ss_shell shell of
        Bash_Shell v \<Rightarrow> \<lparr>esm_kind = ''bash'', esm_version = Some v, esm_fallback = ss_fallback shell\<rparr>
      | PosixSh_Shell \<Rightarrow> \<lparr>esm_kind = ''sh'', esm_version = None, esm_fallback = ss_fallback shell\<rparr>
      | Login_Shell \<Rightarrow> \<lparr>esm_kind = ''login'', esm_version = None, esm_fallback = ss_fallback shell\<rparr>)"

definition attach_selected_context ::
  "bridge_error \<Rightarrow> string \<Rightarrow> string \<Rightarrow> shell_selection \<Rightarrow> bridge_error" where
  "attach_selected_context error host physical_root shell =
     attach_available_remote_context error (Some host) (Some physical_root)
       (Some (shell_error_metadata shell))"

definition fixed_too_large :: bridge_error where
  "fixed_too_large =
     new_error RequestTooLarge ''fixed request exceeds the configured frame limit'' False"

definition capability_lacking :: "string \<Rightarrow> bridge_error" where
  "capability_lacking key =
     new_error RemoteCapabilityMissing (''remote host lacks required capability: '' @ key) False"

definition fixed_exit_error :: "string \<Rightarrow> int \<Rightarrow> bridge_error" where
  "fixed_exit_error host status =
     (let e = new_error RemoteExit ''remote fixed operation failed'' False
      in e\<lparr>be_details := (be_details e)\<lparr>ed_exit_status := Some status, ed_host := Some host\<rparr>\<rparr>)"

definition fixed_truncated_error :: "session_result \<Rightarrow> bridge_error" where
  "fixed_truncated_error r =
     (let e = new_error OutputLimit ''fixed output exceeded its stream limit'' False
      in e\<lparr>be_details := (be_details e)\<lparr>ed_elapsed_ms := Some (sr_elapsed_ms r),
             ed_bytes_seen := Some (saturating_add (length (sr_stdout r)) (length (sr_stderr r))),
             ed_remote_process_may_continue := Some True\<rparr>\<rparr>)"

definition posix_sh :: shell_selection where
  "posix_sh = \<lparr>ss_shell = PosixSh_Shell, ss_fallback = False\<rparr>"

section \<open>The operation\<close>

text \<open>The checks on the request alone, up to the capture limit.\<close>

definition preflight_fixed :: "effective_limits \<Rightarrow> fixed_run_request \<Rightarrow> nat bridge_result" where
  "preflight_fixed limits request =
     (if fr_timeout_ms request = 0 \<or> lim_command_timeout_ms limits < fr_timeout_ms request then
        Inl (invalid_argument ''fixed command timeout is outside the configured limit'')
      else
        bindR (render_fixed_command_length (fr_script request) (fr_args request)) (\<lambda>len.
        bindR (ok_or fixed_too_large
                 (checked_add len (case fr_stdin request of None \<Rightarrow> 0 | Some s \<Rightarrow> length s)))
          (\<lambda>transport_bytes.
        if lim_max_frame_bytes limits < transport_bytes \<or> fr_stdout_limit request = 0 \<or>
           fr_stderr_limit request = 0 then Inl fixed_too_large
        else
          bindR (ok_or (new_error RequestTooLarge ''fixed output limit overflowed'' False)
                   (checked_add (fr_stdout_limit request) (fr_stderr_limit request))) (\<lambda>capture_limit.
          if lim_max_output_bytes limits < capture_limit then
            Inl (new_error RequestTooLarge ''fixed output exceeds the configured limit'' False)
          else Inr capture_limit))))"

fun check_required :: "capability \<Rightarrow> string list \<Rightarrow> unit bridge_result" where
  "check_required c [] = Inr ()"
| "check_required c (key # keys) =
     (if cap_tools c key \<noteq> Some True then Inl (capability_lacking key) else check_required c keys)"

text \<open>The pinned inputs and the command rendered from them.\<close>

definition prepare_command ::
  "effective_limits \<Rightarrow> fixed_run_request \<Rightarrow> session_command bridge_result" where
  "prepare_command limits request =
     bindR (pin_fixed_inputs REMOTE_OPERATION_ROOT (fr_args request) (fr_stdin request) (fr_rooted request))
       (\<lambda>(args, stdin).
     bindR (ok_or rendered_too_large
              (checked_sub (lim_max_frame_bytes limits) (case stdin of None \<Rightarrow> 0 | Some s \<Rightarrow> length s)))
       (\<lambda>command_limit.
     bindR (render_fixed_command_text (fr_script request) args command_limit) (\<lambda>command.
       Inr \<lparr>sq_command = command, sq_cwd = REMOTE_OPERATION_ROOT, sq_shell = posix_sh, sq_stdin = stdin\<rparr>)))"

text \<open>Everything before the send: the command, or the error of a step that sent nothing.\<close>

definition before_send ::
  "effective_limits \<Rightarrow> runner_world \<Rightarrow> fixed_run_request
     \<Rightarrow> (capability \<times> helper_mode \<times> session_command) bridge_result" where
  "before_send limits world request =
     bindR (rw_alias world) (\<lambda>_.
     bindR (preflight_fixed limits request) (\<lambda>_.
     bindR (rw_admitted world) (\<lambda>_.
     bindR (rw_initialize world) (\<lambda>c.
     let attach = (\<lambda>e. attach_selected_context e (fr_host request) (cap_physical_root c) posix_sh) in
     bindR (map_err attach (check_required c (fr_required request))) (\<lambda>_.
     bindR (map_err attach (rw_session world)) (\<lambda>mode.
     bindR (rw_deadline world) (\<lambda>_.
     bindR (prepare_command limits request) (\<lambda>command.
     bindR (map_err attach (rw_timeout world)) (\<lambda>_.
     bindR (rw_response_timeout world) (\<lambda>_.
       Inr (c, mode, command)))))))))))"

definition after_send ::
  "runner_world \<Rightarrow> fixed_run_request \<Rightarrow> capability \<Rightarrow> helper_mode \<Rightarrow> session_command
     \<Rightarrow> fixed_run_result bridge_result" where
  "after_send world request c mode command =
     map_err (\<lambda>e. attach_selected_context (after_spawn_error (fr_kind request) e)
                    (fr_host request) (cap_physical_root c) posix_sh)
       (bindR (rw_execute world command) (\<lambda>r.
        if sr_status r \<noteq> 0 then Inl (fixed_exit_error (fr_host request) (sr_status r))
        else if sr_stdout_truncated r \<or> sr_stderr_truncated r then Inl (fixed_truncated_error r)
        else
          bindR (rw_capture world r) (\<lambda>out.
          if fr_stdout_limit request < co_stdout_len out \<or> fr_stderr_limit request < co_stderr_len out then
            Inl (new_error OutputLimit ''fixed output exceeded its stream limit'' False)
          else
            Inr \<lparr>fx_capability = c, fx_shell = posix_sh, fx_helper_mode = mode, fx_output = out,
                 fx_elapsed_ms = sr_elapsed_ms r,
                 fx_remote_process_may_continue = sr_remote_process_may_continue r\<rparr>)))"

definition execute_fixed_once ::
  "effective_limits \<Rightarrow> runner_world \<Rightarrow> fixed_run_request
     \<Rightarrow> fixed_run_result bridge_result \<times> session_command option" where
  "execute_fixed_once limits world request =
     (case before_send limits world request of
        Inl e \<Rightarrow> (Inl e, None)
      | Inr (c, mode, command) \<Rightarrow> (after_send world request c mode command, Some command))"

section \<open>Lemmas\<close>

lemma attach_selected_fields [simp]:
  "be_code (attach_selected_context e h p s) = be_code e"
  "be_message (attach_selected_context e h p s) = be_message e"
  "be_retryable (attach_selected_context e h p s) = be_retryable e"
  by (simp_all add: attach_selected_context_def)

lemma mutation_unknown_fields [simp]:
  "be_code (mutation_unknown e) = MutationOutcomeUnknown"
  "\<not> be_retryable (mutation_unknown e)"
  "ed_mutation_may_have_applied (be_details (mutation_unknown e)) = Some True"
  by (simp_all add: mutation_unknown_def mutation_outcome_unknown_error_def Let_def)

lemma attach_keeps_applied [simp]:
  "ed_mutation_may_have_applied (be_details (attach_selected_context e h p s)) =
     ed_mutation_may_have_applied (be_details e)"
  by (simp add: attach_selected_context_def attach_context_normal_form)

lemma before_send_command:
  assumes "before_send limits world request = Inr (c, mode, command)"
  shows "prepare_command limits request = Inr command" "rw_initialize world = Inr c"
    "check_required c (fr_required request) = Inr ()"
  using assms by (auto simp: before_send_def bindR_eq_Inr map_err_eq_Inr Let_def)

lemma check_required_Inr:
  "check_required c keys = Inr () \<longleftrightarrow> (\<forall>k \<in> set keys. cap_tools c k = Some True)"
  by (induction keys) auto

lemma prepare_command_Inr:
  assumes "prepare_command limits request = Inr command"
  shows "\<exists>args stdin. pin_fixed_inputs REMOTE_OPERATION_ROOT (fr_args request) (fr_stdin request)
      (fr_rooted request) = Inr (args, stdin) \<and>
    command = \<lparr>sq_command = rendered_command (fr_script request) args, sq_cwd = REMOTE_OPERATION_ROOT,
      sq_shell = posix_sh, sq_stdin = stdin\<rparr> \<and>
    length (sq_command command) + (case stdin of None \<Rightarrow> 0 | Some s \<Rightarrow> length s) \<le> lim_max_frame_bytes limits"
  using assms
  by (auto simp: prepare_command_def bindR_eq_Inr render_text_Inr ok_or_eq_Inr checked_sub_def
      split: if_splits)

lemma after_send_mutation:
  assumes "after_send world request c mode command = Inl e" "fr_kind request = Op_Mutation"
  shows "be_code e = MutationOutcomeUnknown" "\<not> be_retryable e"
    "ed_mutation_may_have_applied (be_details e) = Some True"
  using assms by (auto simp: after_send_def after_spawn_error_def map_err_eq_Inl)

end
