(* ===== verification/Edit_Sync.thy ===== *)
theory Edit_Sync
  imports Edit_Backend Fixed_Runner
begin

text \<open>
  The backend of the cache over SSH (\<open>src/remote/edit_sync.rs\<close>): the arguments of a batch, its
  partition into requests that fit a frame, the parser of the result, and the commit.  The
  runner is a parameter with a state of its own; the shell script is a parameter too.  The
  commit satisfies the contract \<open>edit_backend\<close>.
\<close>

section \<open>Errors\<close>

definition sync_permanent :: "string \<Rightarrow> edit_error" where
  "sync_permanent message = \<lparr>xe_kind = Permanent, xe_code = None, xe_message = message\<rparr>"

definition sync_unknown :: "string \<Rightarrow> edit_error" where
  "sync_unknown message =
     \<lparr>xe_kind = OutcomeUnknown, xe_code = Some Edit_MutationOutcomeUnknown, xe_message = message\<rparr>"

fun to_edit_error_code :: "error_code \<Rightarrow> edit_error_code" where
  "to_edit_error_code HostKeyUnknown = Edit_HostKeyUnknown"
| "to_edit_error_code AuthRequired = Edit_AuthRequired"
| "to_edit_error_code ConnectTimeout = Edit_ConnectTimeout"
| "to_edit_error_code RemoteCapabilityMissing = Edit_RemoteCapabilityMissing"
| "to_edit_error_code RemoteAbsolutePathRequired = Edit_RemoteAbsolutePathRequired"
| "to_edit_error_code PathOutsideRoot = Edit_PathOutsideRoot"
| "to_edit_error_code ReadOnlyHost = Edit_ReadOnlyHost"
| "to_edit_error_code WriteConflict = Edit_WriteConflict"
| "to_edit_error_code ReadConflict = Edit_ReadConflict"
| "to_edit_error_code NotFound = Edit_NotFound"
| "to_edit_error_code PermissionDenied = Edit_PermissionDenied"
| "to_edit_error_code NotDirectory = Edit_NotDirectory"
| "to_edit_error_code MutationOutcomeUnknown = Edit_MutationOutcomeUnknown"
| "to_edit_error_code JobStartOutcomeUnknown = Edit_MutationOutcomeUnknown"
| "to_edit_error_code JobCancelOutcomeUnknown = Edit_MutationOutcomeUnknown"
| "to_edit_error_code JobStateInvalid = Edit_ProtocolError"
| "to_edit_error_code JobExpired = Edit_NotFound"
| "to_edit_error_code OutputLimit = Edit_OutputLimit"
| "to_edit_error_code RequestTooLarge = Edit_RequestTooLarge"
| "to_edit_error_code ProtocolError = Edit_ProtocolError"
| "to_edit_error_code Cancelled = Edit_Cancelled"
| "to_edit_error_code CommandTimeout = Edit_CommandTimeout"
| "to_edit_error_code RemoteExit = Edit_RemoteExit"
| "to_edit_error_code InvalidConfig = Edit_InvalidConfig"
| "to_edit_error_code InvalidArgument = Edit_InvalidArgument"
| "to_edit_error_code Io = Edit_Io"

fun from_edit_error_code :: "edit_error_code \<Rightarrow> error_code" where
  "from_edit_error_code Edit_HostKeyUnknown = HostKeyUnknown"
| "from_edit_error_code Edit_AuthRequired = AuthRequired"
| "from_edit_error_code Edit_ConnectTimeout = ConnectTimeout"
| "from_edit_error_code Edit_RemoteCapabilityMissing = RemoteCapabilityMissing"
| "from_edit_error_code Edit_RemoteAbsolutePathRequired = RemoteAbsolutePathRequired"
| "from_edit_error_code Edit_PathOutsideRoot = PathOutsideRoot"
| "from_edit_error_code Edit_ReadOnlyHost = ReadOnlyHost"
| "from_edit_error_code Edit_WriteConflict = WriteConflict"
| "from_edit_error_code Edit_ReadConflict = ReadConflict"
| "from_edit_error_code Edit_NotFound = NotFound"
| "from_edit_error_code Edit_PermissionDenied = PermissionDenied"
| "from_edit_error_code Edit_NotDirectory = NotDirectory"
| "from_edit_error_code Edit_MutationOutcomeUnknown = MutationOutcomeUnknown"
| "from_edit_error_code Edit_OutputLimit = OutputLimit"
| "from_edit_error_code Edit_RequestTooLarge = RequestTooLarge"
| "from_edit_error_code Edit_ProtocolError = ProtocolError"
| "from_edit_error_code Edit_Cancelled = Cancelled"
| "from_edit_error_code Edit_CommandTimeout = CommandTimeout"
| "from_edit_error_code Edit_RemoteExit = RemoteExit"
| "from_edit_error_code Edit_InvalidConfig = InvalidConfig"
| "from_edit_error_code Edit_InvalidArgument = InvalidArgument"
| "from_edit_error_code Edit_Io = Io"

definition map_runner_error :: "bridge_error \<Rightarrow> edit_error" where
  "map_runner_error error =
     \<lparr>xe_kind =
        (if be_code error = MutationOutcomeUnknown then OutcomeUnknown
         else if be_code error = WriteConflict then Conflict
         else if be_code error = InvalidArgument \<or> be_code error = RequestTooLarge then Permanent
         else if be_retryable error then Transient
         else Permanent),
      xe_code = Some (to_edit_error_code (be_code error)), xe_message = be_message error\<rparr>"

definition map_bridge_error :: "bridge_error \<Rightarrow> edit_error" where
  "map_bridge_error error =
     \<lparr>xe_kind = Permanent, xe_code = Some (to_edit_error_code (be_code error)),
      xe_message = be_message error\<rparr>"

definition edit_bridge_error :: "edit_error \<Rightarrow> bridge_error" where
  "edit_bridge_error error =
     (case xe_code error of
        Some code \<Rightarrow>
          if xe_kind error \<noteq> OutcomeUnknown then
            new_error (from_edit_error_code code) (xe_message error) (xe_kind error = Transient)
          else mutation_outcome_unknown_error\<lparr>be_message := xe_message error\<rparr>
      | None \<Rightarrow>
          (case xe_kind error of
             Conflict \<Rightarrow> new_error WriteConflict (xe_message error) False
           | OutcomeUnknown \<Rightarrow> mutation_outcome_unknown_error\<lparr>be_message := xe_message error\<rparr>
           | Permanent \<Rightarrow> new_error InvalidArgument (xe_message error) False
           | Transient \<Rightarrow> new_error Io (xe_message error) True))"

section \<open>The arguments of a batch\<close>

definition rsplit_once :: "char \<Rightarrow> string \<Rightarrow> (string \<times> string) option" where
  "rsplit_once c s =
     map_option (\<lambda>i. (take (length s - Suc i) s, drop (length s - i) s))
       (position (\<lambda>b. b = c) (rev s))"

definition split_parent_basename :: "string \<Rightarrow> (string \<times> string) bridge_result" where
  "split_parent_basename path =
     bindR (ok_or (invalid_argument ''write target is invalid'') (rsplit_once SLASH path))
       (\<lambda>(parent, basename).
          if basename = [] \<or> basename = ''.'' \<or> basename = ''..'' then
            Inl (invalid_argument ''write target is invalid'')
          else Inr (if parent = [] then ''/'' else parent, basename))"

text \<open>\<open>format!("{:o}")\<close>.\<close>

fun octal :: "nat \<Rightarrow> string" where
  "octal n = (if n < 8 then [digit_char n] else octal (n div 8) @ [digit_char (n mod 8)])"

declare octal.simps [simp del]

fun base_fields :: "remote_base \<Rightarrow> string \<times> string \<times> nat" where
  "base_fields Base_Missing = (''M'', [], 384)"
| "base_fields (Base_Regular h mode) = (''R'', h, mode)"

definition item_arguments ::
  "bool \<Rightarrow> commit_item \<Rightarrow> nat \<Rightarrow> (string list \<times> nat) edit_result" where
  "item_arguments hash_contents item stdin_bytes =
     bindR (map_err map_bridge_error (split_parent_basename (item_path item))) (\<lambda>(parent, basename).
     let (base_kind, base_hash, mode) = base_fields (ci_base item) in
     (case ci_desired item of
        Deleted \<Rightarrow>
          Inr ([parent, basename, base_kind, base_hash, ''D'', decimal 0, [], octal 0], stdin_bytes)
      | Present bytes \<Rightarrow>
          bindR (ok_or (sync_permanent ''batch stdin length overflowed'')
                   (checked_add stdin_bytes (length bytes))) (\<lambda>n.
          bindR (if hash_contents then
                   ok_or (sync_permanent ''cached content hash is missing'') (ci_desired_sha256 item)
                 else Inr (replicate 64 (CHR ''0''))) (\<lambda>hash.
            Inr ([parent, basename, base_kind, base_hash, ''P'', decimal (length bytes), hash, octal mode], n)))))"

fun arguments_loop ::
  "bool \<Rightarrow> string list \<Rightarrow> nat \<Rightarrow> commit_item list \<Rightarrow> (string list \<times> nat) edit_result" where
  "arguments_loop hash_contents args stdin_bytes [] = Inr (args, stdin_bytes)"
| "arguments_loop hash_contents args stdin_bytes (item # items) =
     bindR (item_arguments hash_contents item stdin_bytes) (\<lambda>(flds, n).
       arguments_loop hash_contents (args @ flds) n items)"

definition prepare_batch_arguments :: "commit_item list \<Rightarrow> bool \<Rightarrow> (string list \<times> nat) edit_result" where
  "prepare_batch_arguments items hash_contents = arguments_loop hash_contents [] 0 items"

fun item_bytes :: "commit_item \<Rightarrow> string" where
  "item_bytes i = (case ci_desired i of Present bytes \<Rightarrow> bytes | Deleted \<Rightarrow> [])"

definition prepare_batch :: "commit_item list \<Rightarrow> (string list \<times> string) edit_result" where
  "prepare_batch items =
     bindR (prepare_batch_arguments items True) (\<lambda>(args, _). Inr (args, concat (map item_bytes items)))"

definition batch_transport_bytes :: "string \<Rightarrow> commit_item list \<Rightarrow> nat edit_result" where
  "batch_transport_bytes script items =
     bindR (prepare_batch_arguments items False) (\<lambda>(args, stdin_bytes).
     bindR (map_err map_bridge_error (render_fixed_command script args)) (\<lambda>command.
       ok_or (sync_permanent ''batch transport length overflowed'')
         (checked_add (length command) stdin_bytes)))"

section \<open>Partition\<close>

definition one_edit_too_large :: edit_error where
  "one_edit_too_large = sync_permanent ''one edit cannot fit the configured frame limit''"

fun partition_loop ::
  "string \<Rightarrow> nat \<Rightarrow> commit_item list list \<Rightarrow> commit_item list \<Rightarrow> commit_item list
     \<Rightarrow> commit_item list list edit_result" where
  "partition_loop script maximum partitions current [] =
     Inr (if current = [] then partitions else partitions @ [current])"
| "partition_loop script maximum partitions current (item # items) =
     bindR (batch_transport_bytes script (current @ [item])) (\<lambda>n.
       if n \<le> maximum then partition_loop script maximum partitions (current @ [item]) items
       else if current = [] then Inl one_edit_too_large
       else
         bindR (batch_transport_bytes script [item]) (\<lambda>m.
           if maximum < m then Inl one_edit_too_large
           else partition_loop script maximum (partitions @ [current]) [item] items))"

definition partition_items ::
  "string \<Rightarrow> commit_item list \<Rightarrow> nat \<Rightarrow> commit_item list list edit_result" where
  "partition_items script items maximum_frame_bytes =
     partition_loop script maximum_frame_bytes [] [] items"

section \<open>The result of a batch\<close>

definition parse_batch_decimal :: "string \<Rightarrow> string \<Rightarrow> nat edit_result" where
  "parse_batch_decimal field leader =
     bindR (ok_or (sync_unknown ''batch mutation numeric field is invalid'') (strip_prefix leader field))
       (\<lambda>v. if v = [] \<or> \<not> list_all is_ascii_digit v then
              Inl (sync_unknown ''batch mutation numeric field is invalid'')
            else ok_or (sync_unknown ''batch mutation numeric field is invalid'')
                   (parse_unsigned u64_max v))"

definition parse_field_usize :: "string \<Rightarrow> string \<Rightarrow> nat edit_result" where
  "parse_field_usize field leader = parse_batch_decimal field leader"

definition parse_field_u32 :: "string \<Rightarrow> string \<Rightarrow> nat edit_result" where
  "parse_field_u32 field leader =
     bindR (parse_batch_decimal field leader) (\<lambda>n.
       if n \<le> u32_max then Inr n else Inl (sync_unknown ''batch mutation number is out of range''))"

definition item_base :: "commit_item \<Rightarrow> string \<Rightarrow> nat \<Rightarrow> remote_base edit_result" where
  "item_base item hash mode =
     (case ci_desired item of
        Deleted \<Rightarrow>
          if hash = ''-'' \<and> mode = 0 then Inr Base_Missing
          else Inl (sync_unknown ''batch deletion result is invalid'')
      | Present _ \<Rightarrow>
          bindR (ok_or (sync_unknown ''cached content hash is missing'') (ci_desired_sha256 item))
            (\<lambda>expected.
               if hash \<noteq> expected \<or> 511 < mode then
                 Inl (sync_unknown ''batch mutation result does not match its input'')
               else Inr (Base_Regular expected mode)))"

datatype batch_record = Record_Conflict string | Record_Success commit_success

text \<open>One record of four fields, at position \<open>expected\<close>.\<close>

definition parse_batch_record ::
  "commit_item list \<Rightarrow> nat \<Rightarrow> string list \<Rightarrow> batch_record edit_result" where
  "parse_batch_record items expected flds =
     bindR (parse_field_usize (flds ! 0) ''INDEX='') (\<lambda>index.
     if index \<noteq> expected \<or> length items \<le> index then
       Inl (sync_unknown ''batch mutation index is invalid'')
     else
       bindR (ok_or (sync_unknown ''batch mutation status is invalid'')
                (strip_prefix ''STATUS='' (flds ! 1))) (\<lambda>status.
       if status = ''CONFLICT'' then
         Inr (Record_Conflict (item_path (items ! index)))
       else if status \<noteq> ''CHANGED'' \<and> status \<noteq> ''UNCHANGED'' then
         Inl (sync_unknown ''batch mutation status is invalid'')
       else
         bindR (ok_or (sync_unknown ''batch mutation hash is invalid'')
                  (strip_prefix ''SHA256='' (flds ! 2))) (\<lambda>hash.
         bindR (parse_field_u32 (flds ! 3) ''MODE='') (\<lambda>mode.
         bindR (item_base (items ! index) hash mode) (\<lambda>base.
           Inr (Record_Success \<lparr>cs_key = ci_key (items ! index),
                  cs_generation = ci_generation (items ! index), cs_base = base\<rparr>))))))"

definition successful :: "commit_success list \<Rightarrow> commit_batch_outcome" where
  "successful successes = \<lparr>co_successes = successes, co_error = None\<rparr>"

definition failed :: "edit_error \<Rightarrow> commit_batch_outcome" where
  "failed error = \<lparr>co_successes = [], co_error = Some error\<rparr>"

definition write_conflict_error :: "string \<Rightarrow> edit_error" where
  "write_conflict_error path =
     \<lparr>xe_kind = Conflict, xe_code = Some Edit_WriteConflict, xe_message = ''WRITE_CONFLICT: '' @ path\<rparr>"

text \<open>\<open>chunks_exact(4).enumerate()\<close>: a remainder of fewer than four flds is not visited.\<close>

fun parse_records_loop ::
  "commit_item list \<Rightarrow> nat \<Rightarrow> commit_success list \<Rightarrow> string list \<Rightarrow> commit_batch_outcome edit_result" where
  "parse_records_loop items expected successes (a # b # c # d # rest) =
     bindR (parse_batch_record items expected [a, b, c, d]) (\<lambda>rec.
       (case rec of
          Record_Conflict path \<Rightarrow>
            Inr \<lparr>co_successes = successes, co_error = Some (write_conflict_error path)\<rparr>
        | Record_Success s \<Rightarrow> parse_records_loop items (Suc expected) (successes @ [s]) rest))"
| "parse_records_loop items expected successes _ =
     (if length successes \<noteq> length items then
        Inl (sync_unknown ''batch mutation result is incomplete'')
      else Inr (successful successes))"

definition parse_batch_result ::
  "string \<Rightarrow> string \<Rightarrow> commit_item list \<Rightarrow> commit_batch_outcome edit_result" where
  "parse_batch_result stdout stderr items =
     (if stderr \<noteq> [] \<or> stdout = [] \<or> last stdout \<noteq> NUL then
        Inl (sync_unknown ''batch mutation protocol is incomplete'')
      else
        (let flds = split_on NUL (butlast stdout) in
         if length flds mod 4 \<noteq> 0 then
           Inl (sync_unknown ''batch mutation protocol field count is invalid'')
         else parse_records_loop items 0 [] flds))"

section \<open>The commit\<close>

definition ITEM_ARGUMENTS :: nat where "ITEM_ARGUMENTS = 8"
definition RECORD_BYTES :: nat where "RECORD_BYTES = 192"

definition is_present :: "desired_state \<Rightarrow> bool" where
  "is_present d = (case d of Present _ \<Rightarrow> True | Deleted \<Rightarrow> False)"

definition batch_capabilities :: "commit_item list \<Rightarrow> string list edit_result" where
  "batch_capabilities items =
     (case (list_ex (\<lambda>i. is_present (ci_desired i)) items,
            list_ex (\<lambda>i. \<not> is_present (ci_desired i)) items) of
        (True, True) \<Rightarrow> Inr [''safe_write'', ''guarded_delete'']
      | (True, False) \<Rightarrow> Inr [''safe_write'']
      | (False, True) \<Rightarrow> Inr [''guarded_delete'']
      | (False, False) \<Rightarrow> Inl (sync_permanent ''batch contains no edit operations''))"

definition batch_request ::
  "string \<Rightarrow> effective_limits \<Rightarrow> string \<Rightarrow> commit_item list \<Rightarrow> fixed_run_request edit_result" where
  "batch_request script limits host items =
     bindR (prepare_batch items) (\<lambda>(args, stdin).
     bindR (map_err map_bridge_error (render_fixed_command script args)) (\<lambda>command.
     bindR (ok_or (sync_permanent ''batch transport length overflowed'')
              (checked_add (length command) (length stdin))) (\<lambda>transport_bytes.
     if lim_max_frame_bytes limits < transport_bytes then
       Inl (sync_permanent ''batch exceeds the configured frame limit'')
     else
       bindR (ok_or (sync_permanent ''batch output limit overflowed'')
                (checked_mul RECORD_BYTES (length items))) (\<lambda>output_limit.
       if output_limit = 0 \<or> lim_max_output_bytes limits < output_limit then
         Inl (sync_permanent ''batch output exceeds the configured limit'')
       else
         bindR (batch_capabilities items) (\<lambda>caps.
           Inr \<lparr>fr_kind = Op_Mutation, fr_host = host, fr_script = script, fr_args = args,
                fr_stdin = Some stdin,
                fr_rooted = \<lparr>rpi_argument_indices = [],
                   rpi_argument_stride = Some \<lparr>ras_start = 0, ras_step = ITEM_ARGUMENTS\<rparr>,
                   rpi_stdin_nul_paths = False\<rparr>,
                fr_required = caps, fr_stdout_limit = output_limit, fr_stderr_limit = 1,
                fr_timeout_ms = lim_command_timeout_ms limits\<rparr>)))))"

type_synonym 'r runner = "'r \<Rightarrow> fixed_run_request \<Rightarrow> fixed_run_result bridge_result \<times> 'r"

definition batch_answer ::
  "commit_item list \<Rightarrow> fixed_run_request \<Rightarrow> fixed_run_result bridge_result
     \<Rightarrow> commit_batch_outcome edit_result" where
  "batch_answer items request answer =
     bindR (map_err map_runner_error answer) (\<lambda>result.
     bindR (map_err map_runner_error (read_small_stream (fx_output result) Stderr_Stream 1)) (\<lambda>stderr.
     bindR (map_err map_runner_error
              (read_small_stream (fx_output result) Stdout_Stream (fr_stdout_limit request))) (\<lambda>stdout.
       parse_batch_result stdout stderr items)))"

definition commit_partition ::
  "string \<Rightarrow> effective_limits \<Rightarrow> 'r runner \<Rightarrow> 'r \<Rightarrow> string \<Rightarrow> commit_item list
     \<Rightarrow> commit_batch_outcome edit_result \<times> 'r" where
  "commit_partition script limits runner r host items =
     (case batch_request script limits host items of
        Inl error \<Rightarrow> (Inl error, r)
      | Inr request \<Rightarrow>
          (let (answer, r1) = runner r request in (batch_answer items request answer, r1)))"

fun commit_partitions ::
  "string \<Rightarrow> effective_limits \<Rightarrow> 'r runner \<Rightarrow> 'r \<Rightarrow> string \<Rightarrow> commit_success list
     \<Rightarrow> commit_item list list \<Rightarrow> commit_batch_outcome \<times> 'r" where
  "commit_partitions script limits runner r host committed [] = (successful committed, r)"
| "commit_partitions script limits runner r host committed (p # ps) =
     (case commit_partition script limits runner r host p of
        (Inl error, r1) \<Rightarrow> (\<lparr>co_successes = committed, co_error = Some error\<rparr>, r1)
      | (Inr outcome, r1) \<Rightarrow>
          if co_error outcome \<noteq> None then
            (\<lparr>co_successes = committed @ co_successes outcome, co_error = co_error outcome\<rparr>, r1)
          else commit_partitions script limits runner r1 host (committed @ co_successes outcome) ps)"

definition commit_batch ::
  "string \<Rightarrow> effective_limits \<Rightarrow> 'r runner \<Rightarrow> 'r \<Rightarrow> string \<Rightarrow> commit_item list
     \<Rightarrow> commit_batch_outcome \<times> 'r" where
  "commit_batch script limits runner r host items =
     (if items = [] then (successful [], r)
      else if list_ex (\<lambda>i. key_host (ci_key i) \<noteq> host) items then
        (failed (sync_permanent ''batch contains a different SSH host''), r)
      else
        (case partition_items script items (lim_max_frame_bytes limits) of
           Inl error \<Rightarrow> (failed error, r)
         | Inr partitions \<Rightarrow> commit_partitions script limits runner r host [] partitions))"

section \<open>Lemmas\<close>

lemma partition_loop_ok:
  assumes "partition_loop script maximum partitions current items = Inr ps"
    and "\<forall>p \<in> set partitions. p \<noteq> [] \<and> (\<exists>n \<le> maximum. batch_transport_bytes script p = Inr n)"
    and "current \<noteq> [] \<longrightarrow> (\<exists>n \<le> maximum. batch_transport_bytes script current = Inr n)"
  shows "concat ps = concat partitions @ current @ items \<and>
    (\<forall>p \<in> set ps. p \<noteq> [] \<and> (\<exists>n \<le> maximum. batch_transport_bytes script p = Inr n))"
  using assms
proof (induction items arbitrary: partitions current)
  case (Cons item items)
  from Cons.prems(1) obtain n where n: "batch_transport_bytes script (current @ [item]) = Inr n"
    by (auto simp: bindR_eq_Inr)
  show ?case
  proof (cases "n \<le> maximum")
    case True
    with Cons.prems(1) n have "partition_loop script maximum partitions (current @ [item]) items = Inr ps"
      by simp
    from Cons.IH [OF this Cons.prems(2)] n True show ?thesis by simp
  next
    case False
    with Cons.prems(1) n obtain m where m: "current \<noteq> []" "batch_transport_bytes script [item] = Inr m"
      "m \<le> maximum" "partition_loop script maximum (partitions @ [current]) [item] items = Inr ps"
      by (auto simp: bindR_eq_Inr guard_eq_Inr simp del: partition_loop.simps(1))
    have "\<forall>p \<in> set (partitions @ [current]). p \<noteq> [] \<and> (\<exists>n \<le> maximum. batch_transport_bytes script p = Inr n)"
      using Cons.prems(2,3) m(1) by simp
    from Cons.IH [OF m(4) this] m(2,3) show ?thesis by simp
  qed
qed (auto split: if_splits)

lemma item_base_describes:
  assumes "item_base i hash mode = Inr base" "ci_desired_sha256 i = desired_sha256 sha (ci_desired i)"
  shows "base_describes sha base (ci_desired i)"
  using assms by (auto simp: item_base_def bindR_eq_Inr split: desired_state.splits if_splits)

lemma parse_record_Success:
  assumes "parse_batch_record items n flds = Inr (Record_Success s)"
  shows "\<exists>hash mode base. n < length items \<and> item_base (items ! n) hash mode = Inr base \<and>
    s = \<lparr>cs_key = ci_key (items ! n), cs_generation = ci_generation (items ! n), cs_base = base\<rparr>"
proof -
  have conflict: "(if b then Inr (Record_Conflict p) else m) = Inr (Record_Success s) \<longleftrightarrow>
      \<not> b \<and> m = Inr (Record_Success s)" for b p and m :: "batch_record edit_result" by auto
  from assms show ?thesis
    unfolding parse_batch_record_def bindR_eq_Inr guard_eq_Inr conflict ok_or_eq_Inr
    by (elim exE conjE) (simp only: de_Morgan_disj not_le not_not sum.inject batch_record.inject, blast)
qed

lemma parse_record_success:
  assumes "parse_batch_record items n flds = Inr (Record_Success s)" "items_hashed sha items"
  shows "n < length items \<and> success_for sha (items ! n) s"
proof -
  from parse_record_Success [OF assms(1)] obtain hash mode base where
    s: "n < length items" "item_base (items ! n) hash mode = Inr base"
    "s = \<lparr>cs_key = ci_key (items ! n), cs_generation = ci_generation (items ! n), cs_base = base\<rparr>" by blast
  have "ci_desired_sha256 (items ! n) = desired_sha256 sha (ci_desired (items ! n))"
    using s(1) assms(2) by (simp add: items_hashed_def list_all_length)
  from item_base_describes [OF s(2) this] s(1,3) show ?thesis by (simp add: success_for_def)
qed

lemma lawful_complete:
  assumes "list_all2 (success_for sha) (take n items) successes" "n \<le> length items"
    and "length successes = length items"
  shows "lawful_outcome sha items (successful successes)"
proof -
  have "n = length items" using list_all2_lengthD [OF assms(1)] assms(2,3) by simp
  with assms(1) show ?thesis by (auto simp: lawful_outcome_def successful_def)
qed

lemma parse_loop_lawful:
  assumes "parse_records_loop items n successes flds = Inr outcome" "items_hashed sha items"
    and "list_all2 (success_for sha) (take n items) successes" "n \<le> length items"
  shows "lawful_outcome sha items outcome"
  using assms
proof (induction items n successes flds rule: parse_records_loop.induct)
  case (1 items n successes a b c d rest)
  from "1.prems"(1) obtain rec where rec: "parse_batch_record items n [a, b, c, d] = Inr rec"
    by (auto simp: bindR_eq_Inr)
  show ?case
  proof (cases rec)
    case (Record_Conflict path)
    with "1.prems" rec show ?thesis by (auto simp: lawful_outcome_def)
  next
    case (Record_Success s)
    from parse_record_success [OF rec [unfolded Record_Success] "1.prems"(2)]
    have s: "n < length items" "success_for sha (items ! n) s" by auto
    have "list_all2 (success_for sha) (take (Suc n) items) (successes @ [s])"
      using s "1.prems"(3) by (simp add: take_Suc_conv_app_nth list_all2_appendI)
    with "1.IH" [OF rec Record_Success] "1.prems"(1,2) s(1) rec Record_Success show ?thesis by simp
  qed
qed (auto intro: lawful_complete split: if_splits)

lemma parse_batch_lawful:
  assumes "parse_batch_result stdout stderr items = Inr outcome" "items_hashed sha items"
  shows "lawful_outcome sha items outcome"
  using assms parse_loop_lawful [of items 0 "[]"]
  by (auto simp: parse_batch_result_def Let_def split: if_splits)

lemma batch_answer_Inr:
  "batch_answer items request answer = Inr outcome \<Longrightarrow>
     \<exists>stdout stderr. parse_batch_result stdout stderr items = Inr outcome"
  unfolding batch_answer_def bindR_eq_Inr by blast

lemma commit_partition_lawful:
  assumes "commit_partition script limits runner r host items = (Inr outcome, r1)" "items_hashed sha items"
  shows "lawful_outcome sha items outcome"
proof -
  from assms(1) obtain request answer where "batch_answer items request answer = Inr outcome"
    by (auto simp: commit_partition_def Let_def split: sum.splits prod.splits)
  then obtain stdout stderr where "parse_batch_result stdout stderr items = Inr outcome"
    using batch_answer_Inr by blast
  from parse_batch_lawful [OF this assms(2)] show ?thesis .
qed

lemma commit_partitions_lawful:
  assumes "items_hashed sha (before @ concat ps)" "list_all2 (success_for sha) before committed"
  shows "lawful_outcome sha (before @ concat ps)
    (fst (commit_partitions script limits runner r host committed ps))"
  using assms
proof (induction ps arbitrary: before committed r)
  case Nil
  then show ?case by (auto simp: lawful_outcome_def successful_def)
next
  case (Cons p ps)
  obtain answer r1 where run: "commit_partition script limits runner r host p = (answer, r1)" by force
  have len: "length before = length committed" using Cons.prems(2) by (rule list_all2_lengthD)
  show ?case
  proof (cases answer)
    case (Inl error)
    with run Cons.prems(2) show ?thesis
      by (auto simp: lawful_outcome_def intro!: exI [of _ "length before"])
  next
    case (Inr outcome)
    have "items_hashed sha p" using Cons.prems(1) by (simp add: items_hashed_def)
    from commit_partition_lawful [OF run [unfolded Inr] this] obtain n where
      n: "n \<le> length p" "list_all2 (success_for sha) (take n p) (co_successes outcome)"
      "co_error outcome = None \<longrightarrow> n = length p" by (auto simp: lawful_outcome_def)
    show ?thesis
    proof (cases "co_error outcome")
      case None
      with n have all: "list_all2 (success_for sha) (before @ p) (committed @ co_successes outcome)"
        using Cons.prems(2) by (auto intro: list_all2_appendI)
      from Cons.IH [of "before @ p", OF _ all] Cons.prems(1) run Inr None show ?thesis by simp
    next
      case (Some error)
      have "list_all2 (success_for sha) (take (length before + n) (before @ p @ concat ps))
          (committed @ co_successes outcome)"
        using Cons.prems(2) n(1,2) by (auto intro: list_all2_appendI)
      with run Inr Some n(1) show ?thesis
        by (auto simp: lawful_outcome_def intro!: exI [of _ "length before + n"])
    qed
  qed
qed

lemma commit_batch_lawful:
  assumes "items_hashed sha items" "items \<noteq> []" "\<forall>i \<in> set items. key_host (ci_key i) = host"
  shows "lawful_outcome sha items (fst (commit_batch script limits runner r host items))"
proof (cases "partition_items script items (lim_max_frame_bytes limits)")
  case (Inl error)
  with assms(2,3) show ?thesis
    by (auto simp: commit_batch_def failed_def lawful_outcome_def list_ex_iff intro!: exI [of _ 0])
next
  case (Inr ps)
  then have "concat ps = items"
    using partition_loop_ok [of script "lim_max_frame_bytes limits" "[]" "[]" items ps]
    by (simp add: partition_items_def)
  with commit_partitions_lawful [of sha "[]" ps "[]" script limits runner r host] Inr assms show ?thesis
    by (auto simp: commit_batch_def list_ex_iff)
qed

interpretation ssh_backend: edit_backend sha "commit_batch script limits runner"
  for sha script limits runner
  by unfold_locales (rule commit_batch_lawful)

end
