(* ===== verification/Edit_Properties.thy ===== *)
theory Edit_Properties
  imports Edit_Sync
begin

text \<open>
  What the edit cache promises over every interleaving of its operations, and what a flush over
  the session gives: the properties of the theories \<open>Edit_Cache\<close> to \<open>Edit_Sync\<close>.
\<close>

section \<open>A run to instantiate the properties\<close>

definition demo_cfg :: edit_cache_config where
  "demo_cfg = \<lparr>cfg_flush_delay = 500, cfg_flush_threshold_bytes = 1000, cfg_max_bytes = 8\<rparr>"

definition demo_key :: cache_key where
  "demo_key = \<lparr>key_host = ''h'', key_path = ''/f''\<rparr>"

definition demo_snapshot :: remote_snapshot where
  "demo_snapshot = \<lparr>sn_base = Base_Regular ''ab'' 420, sn_desired = Present ''ab''\<rparr>"

definition demo_edit :: prepared_edit where
  "demo_edit = \<lparr>pe_key = demo_key, pe_expected_generation = Generation 0,
                pe_desired = Present ''xyz'', pe_payload_bytes = 3\<rparr>"

definition demo_clean :: entry where
  "demo_clean = clean_entry id demo_snapshot 1"

definition demo_dirty :: entry where
  "demo_dirty = demo_clean\<lparr>en_desired_sha256 := Some ''xyz'', en_desired := Present ''xyz'',
                            en_generation := Generation 1, en_dirty := True, en_lru_sequence := 2\<rparr>"

definition demo_host :: "entry \<Rightarrow> host_state" where
  "demo_host e = new_host\<lparr>hs_entries := [(''/f'', e)]\<rparr>"

definition demo_loaded :: cache_state where
  "demo_loaded = \<lparr>st_hosts = [(''h'', demo_host demo_clean)], st_total_bytes = 2, st_lru_sequence = 1,
                  st_next_generation = 1, st_shutting_down = False\<rparr>"

definition demo_buffered :: cache_state where
  "demo_buffered = \<lparr>st_hosts = [(''h'', (demo_host demo_dirty)\<lparr>hs_dirty_payload_bytes := 3,
                       hs_first_dirty_deadline := Some 500, hs_timer_running := True\<rparr>)],
                    st_total_bytes = 3, st_lru_sequence = 2, st_next_generation = 2,
                    st_shutting_down = False\<rparr>"

lemmas demo_defs = demo_cfg_def demo_key_def demo_snapshot_def demo_edit_def demo_clean_def demo_dirty_def
  demo_host_def demo_loaded_def demo_buffered_def clean_entry_def snapshot_desired_sha256_def new_host_def
  new_cache_def u64_max_def saturating_add_def saturating_sub_def Let_def

lemma demo_load: "load_fetched demo_cfg id demo_key demo_snapshot new_cache = (Present ''ab'', demo_loaded)"
  by (simp add: demo_defs load_fetched_def get_entry_def make_capacity.simps insert_clean_def next_lru_def
      insert_entry_def ensure_host_def update_host_def)

lemma demo_mutate:
  "mutate_prepared_batch demo_cfg id 0 [demo_edit] demo_loaded =
     Some (Inr (Buffered [Generation 1]), demo_buffered, \<lparr>me_start_timer = True, me_flush_now = False\<rparr>)"
  by (simp add: demo_defs mutate_prepared_batch_def mutate_locked_def get_entry_def make_capacity.simps
      next_lru_def edit_path_def old_size_def saturating_sum_def touch_host_def update_entry_def
      ensure_host_def update_host_def)

definition demo_system :: edit_system where
  "demo_system = \<lparr>sy_cache = demo_buffered, sy_flights = (\<lambda>_. None)\<rparr>"

lemma demo_snapshot_ok: "snapshot_ok id demo_snapshot"
  by (simp add: snapshot_ok_def demo_snapshot_def)

lemma demo_reach_loaded: "edit_reachable demo_cfg id \<lparr>sy_cache = demo_loaded, sy_flights = (\<lambda>_. None)\<rparr>"
  using reach_step [OF reach_init step_load [OF demo_snapshot_ok, of demo_cfg initial_system demo_key]]
  by (simp add: demo_load initial_system_def)

lemma demo_reachable: "edit_reachable demo_cfg id demo_system"
  using reach_step [OF demo_reach_loaded step_mutate [of demo_cfg id 0 "[demo_edit]"], of _ demo_buffered]
  by (simp add: demo_mutate demo_system_def) (simp add: demo_loaded_def u64_max_def)

lemma demo_max: "cfg_max_bytes demo_cfg < u64_max"
  by (simp add: demo_cfg_def u64_max_def)

lemma demo_entry: "get_entry demo_buffered ''h'' ''/f'' = Some demo_dirty"
  by (simp add: get_entry_def demo_buffered_def demo_host_def)


section \<open>Making room\<close>

lemma entry_candidate:
  assumes "get_entry s host path = Some e" "evictable protected host path e"
  shows "(en_lru_sequence e, host, path) \<in> set (eviction_candidates protected s)"
proof -
  from assms(1) obtain h where h: "map_of (st_hosts s) host = Some h" "map_of (hs_entries h) path = Some e"
    by (cases "map_of (st_hosts s) host") (auto simp: get_entry_def)
  from map_of_SomeD [OF h(1)] map_of_SomeD [OF h(2)] assms(2) show ?thesis
    by (fastforce simp: eviction_candidates_def image_iff)
qed

lemma oldest_least: "oldest cs = Some c \<Longrightarrow> d \<in> set cs \<Longrightarrow> fst c \<le> fst d"
  by (auto simp: oldest_def f_arg_min_list_f split: if_splits)

lemma make_capacity_oldest_first:
  assumes "make_capacity s maximum additional protected = (enough, t)" "cache_ok cfg s"
    and "get_entry s h p = Some e" "get_entry t h p = None"
    and "get_entry t h' p' = Some e'" "evictable protected h' p' e'"
  shows "en_lru_sequence e \<le> en_lru_sequence e'"
  using assms
proof (induction s maximum additional protected rule: make_capacity.induct)
  case (1 s maximum additional protected)
  note step = make_capacity.simps [of s maximum additional protected]
  from "1.prems"(1,3,4) have full: "maximum < saturating_add (st_total_bytes s) additional"
    by (auto simp: step split: if_splits)
  from "1.prems"(1,3,4) full obtain n host path where
    c: "oldest (eviction_candidates protected s) = Some (n, host, path)"
    by (auto simp: step split: option.splits)
  note cand = oldest_in [OF c]
  note ev = evict_ok [OF "1.prems"(2) cand]
  from "1.prems"(1) full c have rest: "make_capacity (evict host path s) maximum additional protected = (enough, t)"
    by (simp add: step)
  have kept: "only_evicts protected s t"
    using make_capacity_ok [OF "1.prems"(1,2)] by blast
  with "1.prems"(5) have "get_entry s h' p' = Some e'" unfolding only_evicts_def by (metis option.distinct(1))
  from oldest_least [OF c entry_candidate [OF this "1.prems"(6)]] have least: "n \<le> en_lru_sequence e'" by simp
  show ?case
  proof (cases "get_entry (evict host path s) h p")
    case (Some x)
    with ev(2) "1.prems"(3) have "x = e" unfolding only_evicts_def by (metis option.distinct(1) option.inject)
    with "1.IH" [OF full c refl refl rest ev(1)] Some "1.prems"(4-6) show ?thesis by simp
  next
    case None
    have keys: "keys_ok s" using "1.prems"(2) by (simp add: cache_ok_def)
    from None "1.prems"(3) have "h = host \<and> p = path"
      by (auto simp: evict_def get_entry_remove split: if_splits)
    with candidate_entry [OF keys cand] "1.prems"(3) have "en_lru_sequence e = n" by auto
    with least show ?thesis by simp
  qed
qed

section \<open>The properties of the cache\<close>

text \<open>C20: in every reachable state the byte counter is the size of the cached contents and stays within the budget.\<close>

theorem cache_stays_bounded:
  assumes "edit_reachable cfg sha y" "cfg_max_bytes cfg < u64_max"
  shows "st_total_bytes (sy_cache y) = total_size (sy_cache y) \<and>
    st_total_bytes (sy_cache y) \<le> cfg_max_bytes cfg"
  using edit_reachable_ok [OF assms] by (simp add: system_ok_def cache_ok_def)

lemma cache_stays_bounded_witness:
  "st_total_bytes demo_buffered = total_size demo_buffered \<and> st_total_bytes demo_buffered \<le> 8"
  using cache_stays_bounded [OF demo_reachable demo_max] by (simp add: demo_system_def demo_cfg_def)

text \<open>C19: a clean entry describes the remote file it was loaded from or committed to: whatever
  interleaving of loads, edits and commits came before, its content is the one its recorded base
  (hash or absence) stands for.\<close>

theorem clean_entry_in_step:
  assumes "edit_reachable cfg sha y" "cfg_max_bytes cfg < u64_max"
    and "get_entry (sy_cache y) host path = Some e" "\<not> en_dirty e"
  shows "base_describes sha (en_base e) (en_desired e) \<and> en_desired_sha256 e = desired_sha256 sha (en_desired e)"
  using edit_reachable_ok [OF assms(1,2)] assms(3,4) by (auto simp: system_ok_def in_step_def)

lemma clean_entry_in_step_witness:
  "base_describes id (en_base demo_clean) (en_desired demo_clean) \<and>
     en_desired_sha256 demo_clean = desired_sha256 id (en_desired demo_clean)"
  using clean_entry_in_step [OF demo_reach_loaded demo_max, of "''h''" "''/f''" demo_clean]
  by (simp add: demo_loaded_def demo_host_def get_entry_def) (simp add: demo_defs)

definition edit_kept :: "(string \<Rightarrow> string) \<Rightarrow> entry \<Rightarrow> entry \<Rightarrow> bool" where
  "edit_kept sha e e' \<longleftrightarrow>
     (if en_generation e' = en_generation e then
        en_desired e' = en_desired e \<and> (en_dirty e' \<or> base_describes sha (en_base e') (en_desired e))
      else en_dirty e' \<and> en_generation e < en_generation e')"

text \<open>C1: no step loses a buffered edit.  After any step but the discard of that host the entry is
  there, with a newer edit of the same file, or with the same content still dirty or committed.\<close>

theorem edit_never_lost:
  assumes "edit_reachable cfg sha y" "cfg_max_bytes cfg < u64_max" "edit_step cfg sha y z"
    and "get_entry (sy_cache y) host path = Some e" "en_dirty e"
    and "sy_cache z \<noteq> snd (discard_host_edits host (sy_cache y))"
  shows "\<exists>e'. get_entry (sy_cache z) host path = Some e' \<and> edit_kept sha e e'"
proof -
  have y: "system_ok cfg sha y" by (rule edit_reachable_ok [OF assms(1,2)])
  have z: "system_ok cfg sha z" by (rule edit_step_ok [OF assms(3) y assms(2)])
  have keys: "keys_ok (sy_cache y)" using y by (simp add: system_ok_def cache_ok_def)
  have "\<exists>e'. get_entry (sy_cache z) host path = Some e' \<and> survives e e'"
    using edit_step_survive [OF assms(3) y assms(2)]
  proof
    assume "dirty_survive (sy_cache y) (sy_cache z)"
    with assms(4,5) show ?thesis unfolding dirty_survive_def by blast
  next
    assume "\<exists>other. sy_cache z = snd (discard_host_edits other (sy_cache y))"
    with assms(4,6) show ?thesis by (auto simp: get_entry_discard(1) [OF keys])
  qed
  then obtain e' where e': "get_entry (sy_cache z) host path = Some e'" "survives e e'" by blast
  with z have "in_step sha e'" by (auto simp: system_ok_def)
  with e' show ?thesis by (auto simp: survives_def edit_kept_def in_step_def)
qed

definition demo_item :: commit_item where
  "demo_item = \<lparr>ci_key = demo_key, ci_base = Base_Regular ''ab'' 420, ci_desired = Present ''xyz'',
                 ci_desired_sha256 = Some ''xyz'', ci_generation = Generation 1\<rparr>"

definition demo_flying :: cache_state where
  "demo_flying = demo_buffered\<lparr>st_hosts := [(''h'', (demo_host (demo_dirty\<lparr>en_in_flight := Some (Generation 1)\<rparr>))
     \<lparr>hs_dirty_payload_bytes := 0, hs_first_dirty_deadline := None, hs_timer_running := True\<rparr>)]\<rparr>"

lemma demo_begin: "flush_begin ''h'' demo_buffered = (Flush_Items [demo_item], demo_flying)"
  by (simp add: demo_defs demo_item_def demo_flying_def flush_begin_def first_conflict_def wants_flush_def
      commit_item_of_def update_host_def)

lemma edit_never_lost_witness:
  "\<exists>e'. get_entry demo_flying ''h'' ''/f'' = Some e' \<and> edit_kept id demo_dirty e'"
proof -
  have step: "edit_step demo_cfg id demo_system
      \<lparr>sy_cache = demo_flying, sy_flights = (sy_flights demo_system)(''h'' := Some [demo_item])\<rparr>"
    by (rule step_flush_begin) (simp_all add: demo_system_def demo_begin)
  have "demo_flying \<noteq> snd (discard_host_edits ''h'' demo_buffered)"
    by (simp add: demo_flying_def demo_buffered_def discard_host_edits_def entry_pending_def demo_host_def
        demo_dirty_def new_host_def update_host_def Let_def)
  with edit_never_lost [OF demo_reachable demo_max step, of "''h''" "''/f''" demo_dirty] demo_entry show ?thesis
    by (simp add: demo_system_def) (simp add: demo_dirty_def)
qed

text \<open>making room evicts only clean, idle and unprotected entries, the least recently used
  first, until the request fits; it refuses only when nothing evictable is left.\<close>

theorem make_capacity_evicts:
  assumes "cache_ok cfg s" "make_capacity s maximum additional protected = (enough, t)"
  shows "enough = (saturating_add (st_total_bytes t) additional \<le> maximum) \<and>
    (\<forall>h p e. get_entry t h p = Some e \<longrightarrow>
       get_entry s h p = Some e \<and> (\<not> enough \<longrightarrow> \<not> evictable protected h p e)) \<and>
    (\<forall>h p e. get_entry s h p = Some e \<and> get_entry t h p = None \<longrightarrow>
       evictable protected h p e \<and>
       (\<forall>h' p' e'. get_entry t h' p' = Some e' \<and> evictable protected h' p' e' \<longrightarrow>
          en_lru_sequence e \<le> en_lru_sequence e'))"
proof (intro conjI allI impI)
  note ok = make_capacity_ok [OF assms(2,1)]
  then have kept: "get_entry t h p = get_entry s h p \<or> get_entry t h p = None \<and>
      (\<exists>e. get_entry s h p = Some e \<and> evictable protected h p e)" for h p
    unfolding only_evicts_def by blast
  show "enough = (saturating_add (st_total_bytes t) additional \<le> maximum)"
    using ok by (cases enough) auto
  show "get_entry s h p = Some e" if "get_entry t h p = Some e" for h p e
    using that kept [of h p] by auto
  show "\<not> evictable protected h p e" if "get_entry t h p = Some e" "\<not> enough" for h p e
    using that ok entry_candidate by fastforce
  show "evictable protected h p e" if "get_entry s h p = Some e \<and> get_entry t h p = None" for h p e
    using that kept [of h p] by auto
  show "en_lru_sequence e \<le> en_lru_sequence e'"
    if "get_entry s h p = Some e \<and> get_entry t h p = None"
      "get_entry t h' p' = Some e' \<and> evictable protected h' p' e'" for h p e h' p' e'
    using that make_capacity_oldest_first [OF assms(2,1)] by blast
qed

lemma make_capacity_evicts_witness:
  "get_entry (snd (make_capacity demo_loaded 8 7 [])) ''h'' ''/f'' = None \<and>
     fst (make_capacity demo_loaded 8 7 []) = (saturating_add (st_total_bytes (snd (make_capacity demo_loaded 8 7 []))) 7 \<le> 8)"
proof -
  have ok: "cache_ok demo_cfg demo_loaded"
    using edit_reachable_ok [OF demo_reach_loaded demo_max] by (simp add: system_ok_def)
  have "get_entry (snd (make_capacity demo_loaded 8 7 [])) ''h'' ''/f'' = None"
    by (simp add: demo_defs make_capacity.simps eviction_candidates_def evictable_def oldest_def evict_def
        remove_entry_def update_host_def get_entry_def)
  with make_capacity_evicts [OF ok, of 8 7 "[]"] show ?thesis by (metis prod.collapse)
qed


section \<open>Buffering a batch\<close>

text \<open>The two outcomes of a batch: every edit under its own new generation, or only clean entries gone.\<close>

definition batch_stored ::
  "(string \<Rightarrow> string) \<Rightarrow> prepared_edit list \<Rightarrow> cache_state \<Rightarrow> cache_state \<Rightarrow> generation list \<Rightarrow> bool" where
  "batch_stored sha edits s t gs \<longleftrightarrow>
     distinct gs \<and> length gs = length edits \<and>
     (\<forall>i < length edits. \<exists>e e' host path.
        pe_key (edits ! i) = \<lparr>key_host = host, key_path = path\<rparr> \<and>
        get_entry s host path = Some e \<and> get_entry t host path = Some e' \<and>
        en_generation e = pe_expected_generation (edits ! i) \<and> en_generation e < gs ! i \<and>
        en_dirty e' \<and> en_generation e' = gs ! i \<and> en_desired e' = pe_desired (edits ! i) \<and>
        en_base e' = en_base e \<and> en_in_flight e' = en_in_flight e)"

definition only_clean_gone :: "cache_state \<Rightarrow> cache_state \<Rightarrow> bool" where
  "only_clean_gone s t \<longleftrightarrow>
     (\<forall>h p. get_entry t h p = get_entry s h p \<or>
        get_entry t h p = None \<and> (\<forall>e. get_entry s h p = Some e \<longrightarrow> \<not> en_dirty e \<and> en_in_flight e = None))"

lemma only_evicts_clean_gone: "only_evicts protected s t \<Longrightarrow> only_clean_gone s t"
  unfolding only_evicts_def only_clean_gone_def evictable_def by (metis option.inject)

lemma batch_buffered_stored:
  assumes "batch_buffered sha host edits u t gs" "cache_ok cfg u"
  shows "batch_stored sha edits u t gs"
  unfolding batch_stored_def
proof (intro conjI allI impI)
  let ?n = "st_next_generation u"
  have gs: "gs = map Generation [?n ..< ?n + length edits]"
    using assms(1) by (simp add: batch_buffered_def)
  then show "distinct gs" by (simp add: distinct_map inj_on_def)
  show "length gs = length edits" by (simp add: gs)
  fix i assume i: "i < length edits"
  let ?p = "edit_path (edits ! i)"
  from assms(1) obtain v where v: "only_evicts (map pe_key edits) u v" "batch_applied sha host edits v t"
    by (auto simp: batch_buffered_def)
  have n: "st_next_generation v = ?n" using v(1) by (simp add: only_evicts_def)
  from v(2) i obtain e e' where e: "get_entry v host ?p = Some e" "get_entry t host ?p = Some e'"
    "edited sha (edits ! i) (Generation (?n + i)) e e'"
    unfolding batch_applied_def n by blast
  note eq = e(3) [unfolded edited_def]
  have same: "get_entry u host ?p = Some e"
    using v(1) e(1) unfolding only_evicts_def by (metis option.distinct(1))
  from assms(1) i have "\<exists>x. get_entry u host ?p = Some x \<and> en_generation x = pe_expected_generation (edits ! i)"
    unfolding batch_buffered_def by (meson nth_mem)
  with same have expected: "en_generation e = pe_expected_generation (edits ! i)" by simp
  have "entry_ok ?n e" using assms(2) same by (simp add: cache_ok_def)
  then have "en_generation e < gs ! i"
    using i unfolding gs entry_ok_def by (cases "en_generation e") auto
  moreover have "pe_key (edits ! i) = \<lparr>key_host = host, key_path = ?p\<rparr>"
    using assms(1) i by (simp add: edit_path_def batch_buffered_def batch_host_def)
  moreover have "en_dirty e'" "en_generation e' = gs ! i" "en_desired e' = pe_desired (edits ! i)"
    "en_base e' = en_base e" "en_in_flight e' = en_in_flight e"
    using i by (subst eq; simp add: gs)+
  ultimately show "\<exists>e e' host path. pe_key (edits ! i) = \<lparr>key_host = host, key_path = path\<rparr> \<and>
      get_entry u host path = Some e \<and> get_entry t host path = Some e' \<and>
      en_generation e = pe_expected_generation (edits ! i) \<and> en_generation e < gs ! i \<and>
      en_dirty e' \<and> en_generation e' = gs ! i \<and> en_desired e' = pe_desired (edits ! i) \<and>
      en_base e' = en_base e \<and> en_in_flight e' = en_in_flight e"
    using same e(2) expected by blast
qed


lemma batch_all_or_nothing_reachable:
  assumes "edit_reachable cfg sha y" "cfg_max_bytes cfg < u64_max"
    and "st_next_generation (sy_cache y) + length edits \<le> u64_max"
  shows "\<exists>r t eff. mutate_prepared_batch cfg sha now edits (sy_cache y) = Some (r, t, eff) \<and>
    (case r of
       Inr (Buffered gs) \<Rightarrow> batch_stored sha edits (sy_cache y) t gs
     | _ \<Rightarrow> only_clean_gone (sy_cache y) t)"
proof -
  have ok: "cache_ok cfg (sy_cache y)" using edit_reachable_ok [OF assms(1,2)] by (simp add: system_ok_def)
  from mutate_batch_spec [OF ok assms(2,3)] obtain r t eff host u where
    run: "mutate_prepared_batch cfg sha now edits (sy_cache y) = Some (r, t, eff)"
    and u: "u = sy_cache y \<or> u = ensure_host host (sy_cache y)" "batch_outcome sha host edits u t r" by blast
  have ok_u: "cache_ok cfg u" using u(1) ok cache_ok_ensure by blast
  have same: "get_entry u = get_entry (sy_cache y)" using u(1) by (auto simp: fun_eq_iff)
  have "case r of Inr (Buffered gs) \<Rightarrow> batch_stored sha edits u t gs | _ \<Rightarrow> only_clean_gone u t"
    using u(2) batch_buffered_stored [OF _ ok_u] only_evicts_clean_gone
    by (auto simp: batch_outcome_def split: sum.splits batch_mutation_disposition.splits)
  then have "case r of Inr (Buffered gs) \<Rightarrow> batch_stored sha edits (sy_cache y) t gs
      | _ \<Rightarrow> only_clean_gone (sy_cache y) t"
    unfolding batch_stored_def only_clean_gone_def same .
  with run show ?thesis by blast
qed

text \<open>C8: a batch is buffered as a whole or not at all, and never fails its \<open>expect\<close>.  Buffered, every
  edit met the generation its caller had read and is now dirty under a newer one of its own, over the
  same base; otherwise nothing but clean entries (evicted to make room) differs.\<close>

theorem batch_all_or_nothing:
  assumes "edit_reachable cfg sha y" "cfg_max_bytes cfg < u64_max"
    and "st_next_generation (sy_cache y) + length edits \<le> u64_max"
  shows "\<exists>r t eff. mutate_prepared_batch cfg sha now edits (sy_cache y) = Some (r, t, eff) \<and>
    (case r of
       Inr (Buffered gs) \<Rightarrow> batch_stored sha edits (sy_cache y) t gs
     | _ \<Rightarrow> only_clean_gone (sy_cache y) t)"
  by (rule batch_all_or_nothing_reachable [OF assms])

lemma batch_all_or_nothing_witness: "batch_stored id [demo_edit] demo_loaded demo_buffered [Generation 1]"
proof -
  have "st_next_generation demo_loaded + length [demo_edit] \<le> u64_max"
    by (simp add: demo_loaded_def u64_max_def)
  with batch_all_or_nothing [OF demo_reach_loaded demo_max, of "[demo_edit]" 0] show ?thesis
    by (simp add: demo_mutate)
qed

section \<open>Flushing over the session\<close>

definition demo_limits :: effective_limits where
  "demo_limits = \<lparr>lim_connect_timeout_ms = 1000, lim_command_timeout_ms = 1000, lim_max_frame_bytes = 1000,
     lim_read_chunk_bytes = 100, lim_max_read_bytes = 1000, lim_max_write_bytes = 1000,
     lim_preview_bytes = 100, lim_max_output_bytes = 1000\<rparr>"

definition demo_answer :: string where
  "demo_answer = join_with [NUL] [''INDEX=0'', ''STATUS=CHANGED'', ''SHA256=xyz'', ''MODE=420''] @ [NUL]"

definition demo_runner :: "unit runner" where
  "demo_runner = (\<lambda>r _. (Inr \<lparr>fx_capability = sample_capability, fx_shell = posix_sh,
     fx_helper_mode = Persistent, fx_output = \<lparr>co_stdout_file = Some demo_answer, co_stderr_file = None,
       co_stdout_len = length demo_answer, co_stderr_len = 0, co_aggregate_bytes = length demo_answer\<rparr>,
     fx_elapsed_ms = 1, fx_remote_process_may_continue = False\<rparr>, r))"

definition demo_clean_again :: cache_state where
  "demo_clean_again = demo_buffered\<lparr>st_hosts := [(''h'', (demo_host
     (demo_dirty\<lparr>en_base := Base_Regular ''xyz'' 420, en_dirty := False\<rparr>))\<lparr>hs_timer_running := True\<rparr>)]\<rparr>"

lemma demo_commit:
  "commit_batch ''cat'' demo_limits demo_runner () ''h'' [demo_item] =
     (successful [\<lparr>cs_key = demo_key, cs_generation = Generation 1, cs_base = Base_Regular ''xyz'' 420\<rparr>], ())"
  by code_simp

lemma demo_flush:
  "flush_host 1 (commit_batch ''cat'' demo_limits demo_runner) 0 ''h'' demo_buffered () =
     Some (Inr (), demo_clean_again, ())"
proof -
  have same: "ensure_host ''h'' demo_buffered = demo_buffered" by (simp add: ensure_host_def demo_buffered_def)
  have finish: "flush_finish ''h'' 0 [demo_item]
      (successful [\<lparr>cs_key = demo_key, cs_generation = Generation 1, cs_base = Base_Regular ''xyz'' 420\<rparr>])
      demo_flying = Some (Inr Clean, demo_clean_again)"
    by (simp add: successful_def flush_finish_def demo_flying_def demo_clean_again_def demo_defs
        accept_successes_def accept_success_def update_entry_def update_host_def host_dirty_def)
  have "flush_once (commit_batch ''cat'' demo_limits demo_runner) 0 ''h'' demo_buffered () =
      Some (Inr Clean, demo_clean_again, ())"
    by (simp add: flush_once_def same demo_begin demo_commit finish [unfolded One_nat_def])
  then show ?thesis by simp
qed

text \<open>C2: a flush of a host over the session that runs alone returns after one pass, whatever the
  remote side answers, leaves the cache in a state that satisfies the invariant and every content as
  it was, and reports success only when nothing of the host is pending any more.\<close>

theorem flush_over_session:
  assumes "edit_reachable cfg sha y" "cfg_max_bytes cfg < u64_max" "sy_flights y host = None"
  shows "\<exists>res t r'. flush_host (Suc fuel) (commit_batch script limits runner) now host (sy_cache y) r
      = Some (res, t, r') \<and>
    system_ok cfg sha \<lparr>sy_cache = t, sy_flights = sy_flights y\<rparr> \<and>
    (\<forall>u. res = Inr u \<longrightarrow> st_pending_paths (host_status host t) = []) \<and>
    (\<forall>h p. map_option en_desired (get_entry t h p) = map_option en_desired (get_entry (sy_cache y) h p))"
  by (rule ssh_backend.flush_alone [OF edit_reachable_ok [OF assms(1,2)] assms(3)])

lemma flush_over_session_witness: "st_pending_paths (host_status ''h'' demo_clean_again) = []"
  using flush_over_session [OF demo_reachable demo_max, of "''h''" 0 "''cat''" demo_limits demo_runner 0 "()"] demo_flush
  by (simp add: demo_system_def)


section \<open>What the generation check does not see\<close>

definition other_snapshot :: remote_snapshot where
  "other_snapshot = \<lparr>sn_base = Base_Regular ''cd'' 420, sn_desired = Present ''cd''\<rparr>"

lemma load_missing:
  assumes "load_fetched cfg sha key sn s = (d, t)" "cache_ok cfg s"
    and "get_entry s (key_host key) (key_path key) = None" "get_entry t (key_host key) (key_path key) = Some e"
  shows "d = sn_desired sn \<and> (\<exists>lru. e = clean_entry sha sn lru)"
proof -
  have d: "d = sn_desired sn"
    using assms(1,3) by (auto simp: load_fetched_def Let_def split: if_splits prod.splits bool.splits)
  have "loads sha key sn s t" using load_fetched_loads [OF assms(2), of sha key sn] assms(1) by simp
  then obtain u where u: "only_evicts [] s u" "t = u \<or> t = insert_clean sha key sn u"
    unfolding loads_def by blast
  from u(1) assms(3) have "get_entry u (key_host key) (key_path key) = None"
    unfolding only_evicts_def by (metis option.distinct(1))
  with u(2) assms(4) d show ?thesis by (auto simp: insert_clean_entry)
qed

lemma single_edit_accepted:
  assumes "get_entry s (key_host (pe_key edit)) (key_path (pe_key edit)) = Some e"
    and "en_generation e = pe_expected_generation edit"
    and "mutate_prepared_batch cfg sha now [edit] s = Some (r, t, eff)"
  shows "r \<noteq> Inl error"
proof -
  have "check_generations (ensure_host (key_host (pe_key edit)) s) (key_host (pe_key edit)) [edit] = Inr ()"
    using assms(1,2) by (simp add: edit_path_def)
  with assms(3) show ?thesis
    by (auto simp: mutate_prepared_batch_def mutate_locked_def Let_def
        split: if_splits bool.splits prod.splits option.splits simp del: check_generations.simps)
qed

text \<open>C38: every clean load has generation 0.  So let a file be loaded, its entry be dropped (evicted or
  invalidated) and the file be loaded again, in any later state of the cache and with any other content on
  the host.  An edit prepared from the first load is then never refused for its generation, or at all:
  when it is buffered, it replaces the content of the second load, which its author has not seen, over the base of
  the second load, so that the commit does not notice the change in between either.\<close>

theorem reload_reuses_generation:
  assumes "edit_reachable cfg sha y" "edit_reachable cfg sha z" "cfg_max_bytes cfg < u64_max"
    and "snapshot_ok sha first" "snapshot_ok sha second"
    and "get_entry (sy_cache y) (key_host key) (key_path key) = None"
    and "get_entry (sy_cache z) (key_host key) (key_path key) = None"
    and "load_fetched cfg sha key first (sy_cache y) = (d, s)" "get_entry s (key_host key) (key_path key) = Some e"
    and "load_fetched cfg sha key second (sy_cache z) = (d', t)" "get_entry t (key_host key) (key_path key) = Some e'"
    and "pe_key edit = key" "pe_expected_generation edit = en_generation e" "st_next_generation t < u64_max"
  shows "d = sn_desired first \<and> d' = sn_desired second \<and>
    (\<exists>r u eff. mutate_prepared_batch cfg sha now [edit] t = Some (r, u, eff) \<and>
       (case r of
          Inl _ \<Rightarrow> False
        | Inr Batch_ImmediateWriteRequired \<Rightarrow> True
        | Inr (Buffered _) \<Rightarrow>
            \<exists>x. get_entry u (key_host key) (key_path key) = Some x \<and> en_dirty x \<and>
              en_desired x = pe_desired edit \<and> en_base x = sn_base second))"
proof -
  have ok: "cache_ok cfg (sy_cache y)" "cache_ok cfg (sy_cache z)"
    using edit_reachable_ok [OF assms(1,3)] edit_reachable_ok [OF assms(2,3)] by (simp_all add: system_ok_def)
  note one = load_missing [OF assms(8) ok(1) assms(6,9)]
  note two = load_missing [OF assms(10) ok(2) assms(7,11)]
  have "edit_step cfg sha z (z\<lparr>sy_cache := t\<rparr>)"
    using step_load [OF assms(5), of cfg z key] assms(10) by simp
  then have reach: "edit_reachable cfg sha (z\<lparr>sy_cache := t\<rparr>)" using assms(2) by (rule reach_step [rotated])
  have cache: "sy_cache (z\<lparr>sy_cache := t\<rparr>) = t" by simp
  have "st_next_generation (sy_cache (z\<lparr>sy_cache := t\<rparr>)) + length [edit] \<le> u64_max" using assms(14) by simp
  from batch_all_or_nothing_reachable [OF reach assms(3) this, of now, unfolded cache] obtain r u eff where
    run: "mutate_prepared_batch cfg sha now [edit] t = Some (r, u, eff)"
    and eff: "case r of Inr (Buffered gs) \<Rightarrow> batch_stored sha [edit] t u gs | _ \<Rightarrow> only_clean_gone t u" by blast
  have accepted: "r \<noteq> Inl error" for error
    by (rule single_edit_accepted [OF _ _ run, where e = e']) (use assms(11-13) one two in \<open>auto simp: clean_entry_def\<close>)
  have "case r of Inl _ \<Rightarrow> False | Inr Batch_ImmediateWriteRequired \<Rightarrow> True
      | Inr (Buffered _) \<Rightarrow> \<exists>x. get_entry u (key_host key) (key_path key) = Some x \<and> en_dirty x \<and>
          en_desired x = pe_desired edit \<and> en_base x = sn_base second"
  proof (cases r)
    case (Inr answer)
    show ?thesis
    proof (cases answer)
      case (Buffered gs)
      with eff Inr have "batch_stored sha [edit] t u gs" by simp
      with Buffered Inr assms(11,12) two show ?thesis by (auto simp: batch_stored_def clean_entry_def)
    qed (simp add: Inr)
  qed (use accepted in simp)
  with run one two show ?thesis by blast
qed

lemma other_reload:
  "load_fetched demo_cfg id demo_key other_snapshot (invalidate_clean_host ''h'' demo_loaded) =
     (Present ''cd'', snd (load_fetched demo_cfg id demo_key other_snapshot (invalidate_clean_host ''h'' demo_loaded)))"
  "get_entry (snd (load_fetched demo_cfg id demo_key other_snapshot (invalidate_clean_host ''h'' demo_loaded))) ''h'' ''/f'' =
     Some (clean_entry id other_snapshot 2)"
  "st_next_generation (snd (load_fetched demo_cfg id demo_key other_snapshot (invalidate_clean_host ''h'' demo_loaded))) = 1"
  by code_simp+

lemma reload_reuses_generation_witness:
  "\<exists>answer u eff. mutate_prepared_batch demo_cfg id 0 [demo_edit]
     (snd (load_fetched demo_cfg id demo_key other_snapshot (invalidate_clean_host ''h'' demo_loaded))) =
     Some (Inr answer, u, eff)"
proof -
  let ?z = "\<lparr>sy_cache = invalidate_clean_host ''h'' demo_loaded, sy_flights = (\<lambda>_. None)\<rparr>"
  have "edit_step demo_cfg id \<lparr>sy_cache = demo_loaded, sy_flights = (\<lambda>_. None)\<rparr> ?z"
    using step_invalidate [of demo_cfg id "\<lparr>sy_cache = demo_loaded, sy_flights = (\<lambda>_. None)\<rparr>" "''h''"] by simp
  with demo_reach_loaded have z: "edit_reachable demo_cfg id ?z" by (blast intro: reach_step)
  have snaps: "snapshot_ok id demo_snapshot" "snapshot_ok id other_snapshot"
    by (simp_all add: snapshot_ok_def demo_snapshot_def other_snapshot_def)
  have gone: "get_entry (sy_cache initial_system) (key_host demo_key) (key_path demo_key) = None"
    "get_entry (sy_cache ?z) (key_host demo_key) (key_path demo_key) = None" by code_simp+
  have load: "load_fetched demo_cfg id demo_key demo_snapshot (sy_cache initial_system) = (Present ''ab'', demo_loaded)"
    "get_entry demo_loaded (key_host demo_key) (key_path demo_key) = Some demo_clean"
    using demo_load by (simp add: initial_system_def) code_simp
  have key: "key_host demo_key = ''h''" "key_path demo_key = ''/f''" by (simp_all add: demo_key_def)
  have gen: "pe_key demo_edit = demo_key" "pe_expected_generation demo_edit = en_generation demo_clean"
    by (simp_all add: demo_edit_def demo_clean_def clean_entry_def)
  have room: "st_next_generation (snd (load_fetched demo_cfg id demo_key other_snapshot (invalidate_clean_host ''h'' demo_loaded)))
      < u64_max" unfolding other_reload(3) by (simp add: u64_max_def)
  have reload: "load_fetched demo_cfg id demo_key other_snapshot (sy_cache ?z) = (Present ''cd'',
      snd (load_fetched demo_cfg id demo_key other_snapshot (invalidate_clean_host ''h'' demo_loaded)))"
    using other_reload(1) by simp
  have again: "get_entry (snd (load_fetched demo_cfg id demo_key other_snapshot (invalidate_clean_host ''h'' demo_loaded)))
      (key_host demo_key) (key_path demo_key) = Some (clean_entry id other_snapshot 2)"
    unfolding key by (rule other_reload(2))
  show ?thesis
    using reload_reuses_generation [OF reach_init z demo_max snaps gone load reload again gen room, of 0]
  proof (elim conjE exE, goal_cases)
    case (1 r u eff)
    then show ?case by (cases r) auto
  qed
qed

end
