(* ===== verification/Runner_Properties.thy ===== *)
theory Runner_Properties
  imports Edit_Sync
begin

text \<open>
  What the runner of fixed operations promises: the command it sends is the one the shell reads
  back, its paths are pinned below the operation root, and an error of a mutation after the send
  is never reported as if nothing had happened.  The last section carries this through the commit
  of a batch of edits.
\<close>

section \<open>Rendering\<close>

lemma rendered_words:
  "sh_words (rendered_command script args) =
     Some ([''exec'', ''sh'', ''-c'', script, ''codex-ssh-bridge-op''] @ args)"
proof -
  have "sh_fields Unquoted True script (FIXED_COMMAND_ARG0 @ concat (map (\<lambda>a. SP # quoted a) args)) =
      Some ([script, ''codex-ssh-bridge-op''] @ args)"
    using sh_fields_after_word [of "''codex-ssh-bridge-op''" args] by (simp add: FIXED_COMMAND_ARG0_def sh_plain_char_def)
  then show ?thesis
    by (simp add: sh_words_def rendered_command_def FIXED_COMMAND_PREFIX_def sh_plain_char_def sh_fields_quoted)
qed

text \<open>the length computed in advance and the rendering agree: they accept the same inputs, the
  line has exactly that length, and the shell reads it back as the script and the arguments.\<close>

theorem render_fixed_command_exact:
  "render_fixed_command_length script args = Inr n \<longleftrightarrow>
     (\<exists>line. render_fixed_command script args = Inr line \<and> length line = n \<and>
        sh_words line = Some ([''exec'', ''sh'', ''-c'', script, ''codex-ssh-bridge-op''] @ args))"
  unfolding render_fixed_command_def render_length_Inr render_text_Inr
  using rendered_words [of script args] by auto

section \<open>Pinning\<close>

definition pinned_path :: "string \<Rightarrow> string" where
  "pinned_path relative = (if relative = [] then ''.'' else ''./'' @ relative)"

lemma root_relative_slash:
  "root_relative_bytes ''/'' path = Inr p \<longleftrightarrow> (\<exists>relative. path = ''/'' @ relative \<and> p = pinned_path relative)"
  by (auto simp: root_relative_bytes_Inr under_root_def pinned_path_def)

text \<open>The argument at an index is pinned, the others are not touched.\<close>

definition pinned_at :: "nat list \<Rightarrow> string list \<Rightarrow> string list \<Rightarrow> bool" where
  "pinned_at indices args args' \<longleftrightarrow>
     length args' = length args \<and>
     (\<forall>i < length args. if i \<in> set indices
        then \<exists>relative. args ! i = ''/'' @ relative \<and> args' ! i = pinned_path relative
        else args' ! i = args ! i)"

lemma pinned_not_absolute: "pinned_path relative \<noteq> ''/'' @ x"
  by (simp add: pinned_path_def)

lemma pin_indices_Inr:
  "pin_indices ''/'' ks args = Inr args' \<Longrightarrow> pinned_at ks args args'"
proof (induction ks arbitrary: args)
  case Nil
  then show ?case by (simp add: pinned_at_def)
next
  case (Cons i ks)
  from Cons.prems obtain a where i: "i < length args" "root_relative_one ''/'' (args ! i) = Inr a"
    "pin_indices ''/'' ks (args[i := a]) = Inr args'" by (auto simp: bindR_eq_Inr split: if_splits)
  from i(2) obtain relative where a: "args ! i = ''/'' @ relative" "a = pinned_path relative"
    by (auto simp: root_relative_one_def bindR_eq_Inr root_relative_slash split: if_splits)
  have ih: "pinned_at ks (args[i := a]) args'" by (rule Cons.IH [OF i(3)])
  have "i \<notin> set ks"
  proof
    assume "i \<in> set ks"
    with ih i(1) obtain r where "a = ''/'' @ r"
      unfolding pinned_at_def by (metis length_list_update nth_list_update_eq)
    with a(2) pinned_not_absolute show False by metis
  qed
  have "if j \<in> set (i # ks) then \<exists>r. args ! j = ''/'' @ r \<and> args' ! j = pinned_path r
      else args' ! j = args ! j" if j: "j < length args" for j
  proof (cases "j = i")
    case True
    with ih i(1) a \<open>i \<notin> set ks\<close> show ?thesis by (auto simp: pinned_at_def)
  next
    case False
    with ih j have "if j \<in> set ks then \<exists>r. args ! j = ''/'' @ r \<and> args' ! j = pinned_path r
        else args' ! j = args ! j" unfolding pinned_at_def by (metis length_list_update nth_list_update_neq)
    with False show ?thesis by auto
  qed
  moreover have "length args' = length args" using ih by (simp add: pinned_at_def)
  ultimately show ?case unfolding pinned_at_def by blast
qed

definition selected_indices :: "rooted_path_inputs \<Rightarrow> nat \<Rightarrow> nat list" where
  "selected_indices rooted n = rpi_argument_indices rooted @
     (case rpi_argument_stride rooted of None \<Rightarrow> [] | Some s \<Rightarrow> stride_indices s n)"

lemma pinned_at_append:
  assumes "pinned_at ks args args1" "pinned_at js args1 args2"
  shows "pinned_at (ks @ js) args args2"
  unfolding pinned_at_def
proof (intro conjI allI impI)
  show "length args2 = length args" using assms by (simp add: pinned_at_def)
  fix i assume i: "i < length args"
  have one: "if i \<in> set ks then \<exists>r. args ! i = ''/'' @ r \<and> args1 ! i = pinned_path r else args1 ! i = args ! i"
    and two: "if i \<in> set js then \<exists>r. args1 ! i = ''/'' @ r \<and> args2 ! i = pinned_path r else args2 ! i = args1 ! i"
    using assms i by (auto simp: pinned_at_def)
  show "if i \<in> set (ks @ js) then \<exists>r. args ! i = ''/'' @ r \<and> args2 ! i = pinned_path r else args2 ! i = args ! i"
  proof (cases "i \<in> set ks")
    case True
    with one obtain r where r: "args ! i = ''/'' @ r" "args1 ! i = pinned_path r" by auto
    with two pinned_not_absolute [of r] have "args2 ! i = pinned_path r" by (auto split: if_splits)
    with True r show ?thesis by auto
  next
    case False
    with one two show ?thesis by auto
  qed
qed

lemma resolve_root: "resolve ''/'' ''.'' = Inr \<lparr>rp_absolute = ''/'', rp_relative = []\<rparr>"
  by code_simp

lemma pin_stride_Inr:
  assumes "pin_stride ''/'' stride args = Inr args'"
  shows "pinned_at (case stride of None \<Rightarrow> [] | Some s \<Rightarrow> stride_indices s (length args)) args args'"
  using assms by (cases stride) (auto simp: pin_stride_def pinned_at_def dest: pin_indices_Inr split: if_splits)

lemma pin_fixed_inputs_args:
  assumes "pin_fixed_inputs REMOTE_OPERATION_ROOT args stdin rooted = Inr (args', stdin')"
  shows "pinned_at (selected_indices rooted (length args)) args args'"
proof -
  from assms obtain args1 where one: "pin_indices ''/'' (rpi_argument_indices rooted) args = Inr args1"
    and two: "pin_stride ''/'' (rpi_argument_stride rooted) args1 = Inr args'"
    by (auto simp: pin_fixed_inputs_def REMOTE_OPERATION_ROOT_def resolve_root bindR_eq_Inr split: if_splits)
  note p1 = pin_indices_Inr [OF one]
  then have "length args1 = length args" by (simp add: pinned_at_def)
  with pinned_at_append [OF p1 pin_stride_Inr [OF two]] show ?thesis
    by (simp add: selected_indices_def cong: option.case_cong)
qed


section \<open>One operation\<close>

definition demo_world :: "session_result bridge_result \<Rightarrow> captured_output bridge_result \<Rightarrow> runner_world" where
  "demo_world answer captured =
     \<lparr>rw_alias = Inr (), rw_admitted = Inr (), rw_initialize = Inr sample_capability,
      rw_session = Inr Persistent, rw_deadline = Inr (), rw_timeout = Inr (), rw_response_timeout = Inr (),
      rw_execute = (\<lambda>_. answer), rw_capture = (\<lambda>_. captured)\<rparr>"

definition demo_result :: "int \<Rightarrow> session_result" where
  "demo_result status =
     \<lparr>sr_status = status, sr_stdout = [], sr_stderr = [], sr_stdout_truncated = False,
      sr_stderr_truncated = False, sr_elapsed_ms = 1, sr_remote_process_may_continue = False\<rparr>"

definition empty_output :: captured_output where
  "empty_output = \<lparr>co_stdout_file = None, co_stderr_file = None, co_stdout_len = 0, co_stderr_len = 0,
                   co_aggregate_bytes = 0\<rparr>"

definition frame_limits :: "nat \<Rightarrow> effective_limits" where
  "frame_limits frame_bytes =
     \<lparr>lim_connect_timeout_ms = 1000, lim_command_timeout_ms = 1000, lim_max_frame_bytes = frame_bytes,
      lim_read_chunk_bytes = 100, lim_max_read_bytes = 1000, lim_max_write_bytes = 1000,
      lim_preview_bytes = 100, lim_max_output_bytes = 1000\<rparr>"

definition demo_request :: fixed_run_request where
  "demo_request =
     \<lparr>fr_kind = Op_Mutation, fr_host = ''h'', fr_script = ''rm'', fr_args = [''/x''], fr_stdin = None,
      fr_rooted = \<lparr>rpi_argument_indices = [0], rpi_argument_stride = None, rpi_stdin_nul_paths = False\<rparr>,
      fr_required = [''safe_write''], fr_stdout_limit = 10, fr_stderr_limit = 10, fr_timeout_ms = 5\<rparr>"

definition demo_command :: session_command where
  "demo_command =
     \<lparr>sq_command = rendered_command ''rm'' [''./x''], sq_cwd = ''/'', sq_shell = posix_sh, sq_stdin = None\<rparr>"

definition demo_unknown :: bridge_error where
  "demo_unknown = attach_selected_context (mutation_unknown (fixed_exit_error ''h'' 1)) ''h'' ''/'' posix_sh"

lemma demo_sent:
  "execute_fixed_once (frame_limits 1000) (demo_world (Inr (demo_result 1)) (Inr empty_output)) demo_request =
     (Inl demo_unknown, Some demo_command)"
proof -
  let ?run = "execute_fixed_once (frame_limits 1000) (demo_world (Inr (demo_result 1)) (Inr empty_output)) demo_request"
  have "snd ?run = Some demo_command" "case fst ?run of Inl e \<Rightarrow> e = demo_unknown | Inr _ \<Rightarrow> False"
    by code_simp+
  then show ?thesis by (cases ?run) (auto split: sum.splits)
qed

lemma execute_sends:
  assumes "execute_fixed_once limits world request = (res, Some command)"
  shows "\<exists>c mode. before_send limits world request = Inr (c, mode, command) \<and>
    res = after_send world request c mode command"
  using assms by (auto simp: execute_fixed_once_def split: sum.splits)

text \<open>C7: a command is handed to the session only on a host that has every required capability; the
  shell there reads it as the fixed script with the arguments of the request, those at the declared
  positions turned from absolute paths into paths below the operation root (which is the working
  directory) and the others unchanged; command and input fit the frame.\<close>

theorem sent_command_is_pinned:
  assumes "execute_fixed_once limits world request = (res, Some command)"
  shows "\<exists>c args. rw_initialize world = Inr c \<and>
    (\<forall>key \<in> set (fr_required request). cap_tools c key = Some True) \<and>
    pinned_at (selected_indices (fr_rooted request) (length (fr_args request))) (fr_args request) args \<and>
    sq_cwd command = REMOTE_OPERATION_ROOT \<and>
    sh_words (sq_command command) =
      Some ([''exec'', ''sh'', ''-c'', fr_script request, ''codex-ssh-bridge-op''] @ args) \<and>
    length (sq_command command) + (case sq_stdin command of None \<Rightarrow> 0 | Some bytes \<Rightarrow> length bytes)
      \<le> lim_max_frame_bytes limits"
proof -
  from execute_sends [OF assms] obtain c mode where
    b: "before_send limits world request = Inr (c, mode, command)" by blast
  from prepare_command_Inr [OF before_send_command(1) [OF b]] obtain args stdin where
    pin: "pin_fixed_inputs REMOTE_OPERATION_ROOT (fr_args request) (fr_stdin request) (fr_rooted request) = Inr (args, stdin)"
    and command: "command = \<lparr>sq_command = rendered_command (fr_script request) args, sq_cwd = REMOTE_OPERATION_ROOT,
      sq_shell = posix_sh, sq_stdin = stdin\<rparr>"
    and fits: "length (sq_command command) + (case stdin of None \<Rightarrow> 0 | Some s \<Rightarrow> length s) \<le> lim_max_frame_bytes limits"
    by blast
  from command fits pin_fixed_inputs_args [OF pin] before_send_command(2,3) [OF b] check_required_Inr
  show ?thesis by (intro exI [of _ c] exI [of _ args]) (simp add: rendered_words)
qed

lemma sent_command_is_pinned_witness:
  "length (sq_command demo_command) \<le> 1000 \<and> (\<exists>args. sh_words (sq_command demo_command) =
     Some ([''exec'', ''sh'', ''-c'', ''rm'', ''codex-ssh-bridge-op''] @ args))"
  using sent_command_is_pinned [OF demo_sent]
  by (auto simp: demo_command_def frame_limits_def demo_request_def)

text \<open>C21: once a mutation has been handed to the session, every error of the operation says that its
  outcome is unknown: it may have applied and it must not be retried blindly, whatever the underlying
  error was.\<close>

theorem sent_mutation_outcome_unknown:
  assumes "execute_fixed_once limits world request = (Inl e, Some command)"
    and "fr_kind request = Op_Mutation"
  shows "be_code e = MutationOutcomeUnknown \<and> \<not> be_retryable e \<and>
    ed_mutation_may_have_applied (be_details e) = Some True"
proof -
  from execute_sends [OF assms(1)] obtain c mode where
    "after_send world request c mode command = Inl e" by auto
  from after_send_mutation [OF this assms(2)] show ?thesis by blast
qed

lemma sent_mutation_outcome_unknown_witness:
  "be_code demo_unknown = MutationOutcomeUnknown \<and> \<not> be_retryable demo_unknown"
  using sent_mutation_outcome_unknown [OF demo_sent] by (simp add: demo_request_def)


section \<open>Errors of the readers and of the commit\<close>

lemma local_errors_final [simp]:
  "\<not> be_retryable (protocol_error m)" "\<not> be_retryable (invalid_argument m)" "\<not> be_retryable (io_error m)"
  by (simp_all add: protocol_error_def invalid_argument_def io_error_def)

lemma internal_read_errs: "errs (\<lambda>e. \<not> be_retryable e) (internal_read out stream offset n)"
  unfolding internal_read_def file_read_exact_def
  by (intro errs_intros local_errors_final)

lemma read_to_end_loop_errs: "errs (\<lambda>e. \<not> be_retryable e) (read_to_end_loop c bytes)"
proof (induction c bytes rule: read_to_end_loop.induct)
  case (1 c bytes)
  note read = internal_read_errs [of "sc_output c" "sc_stream c" "sc_offset c" CURSOR_PAGE_BYTES]
  show ?case
    using "1.IH" read
    by (subst read_to_end_loop.simps)
      (auto simp: errs_def split: sum.splits)
qed

lemma read_small_stream_errs: "errs (\<lambda>e. \<not> be_retryable e) (read_small_stream out stream n)"
  unfolding read_small_stream_def read_to_end_def cursor_new_def
  by (intro errs_intros read_to_end_loop_errs local_errors_final)

lemma sync_unknown_kind [simp]: "xe_kind (sync_unknown m) = OutcomeUnknown"
  by (simp add: sync_unknown_def)

lemma parse_field_errs:
  "errs (\<lambda>e. xe_kind e = OutcomeUnknown) (parse_field_usize field leader)"
  "errs (\<lambda>e. xe_kind e = OutcomeUnknown) (parse_field_u32 field leader)"
  unfolding parse_field_u32_def parse_field_usize_def parse_batch_decimal_def
  by (intro errs_intros sync_unknown_kind)+

lemma item_base_errs: "errs (\<lambda>e. xe_kind e = OutcomeUnknown) (item_base item hash mode)"
  unfolding item_base_def
  by (cases "ci_desired item"; simp only: desired_state.case) (intro errs_intros sync_unknown_kind)+

lemma parse_batch_record_errs:
  "errs (\<lambda>e. xe_kind e = OutcomeUnknown) (parse_batch_record items expected flds)"
  unfolding parse_batch_record_def
  by (intro errs_intros parse_field_errs item_base_errs sync_unknown_kind)

lemma parse_records_loop_errs:
  "errs (\<lambda>e. xe_kind e = OutcomeUnknown) (parse_records_loop items expected successes flds)"
proof (induction items expected successes flds rule: parse_records_loop.induct)
  case (1 items expected successes a b c d rest)
  show ?case
    unfolding parse_records_loop.simps
    by (intro errs_bind parse_batch_record_errs)
      (auto simp: errs_def intro!: "1.IH" [unfolded errs_def] split: batch_record.split)
qed (auto intro!: errs_intros)

lemma parse_batch_result_errs:
  "errs (\<lambda>e. xe_kind e = OutcomeUnknown) (parse_batch_result stdout stderr items)"
  unfolding parse_batch_result_def
  by (intro errs_intros parse_records_loop_errs sync_unknown_kind)


section \<open>A commit over the session\<close>

text \<open>The runner the backend holds, with the commands handed to the session as its state.\<close>

definition session_runner ::
  "effective_limits \<Rightarrow> (session_command list \<Rightarrow> runner_world) \<Rightarrow> session_command list runner" where
  "session_runner limits world sent request =
     (let (answer, command) = execute_fixed_once limits (world sent) request
      in (answer, case command of None \<Rightarrow> sent | Some c \<Rightarrow> sent @ [c]))"

lemma parse_records_loop_complete:
  "parse_records_loop items expected successes flds = Inr outcome \<Longrightarrow>
     (case co_error outcome of
        None \<Rightarrow> length (co_successes outcome) = length items
      | Some e \<Rightarrow> xe_kind e = Conflict)"
proof (induction items expected successes flds rule: parse_records_loop.induct)
  case (1 items expected successes a b c d rest)
  then obtain rec where rec: "parse_batch_record items expected [a, b, c, d] = Inr rec"
    by (auto simp: bindR_eq_Inr)
  show ?case
  proof (cases rec)
    case (Record_Conflict path)
    with rec "1.prems" have "outcome = \<lparr>co_successes = successes, co_error = Some (write_conflict_error path)\<rparr>"
      by simp
    then show ?thesis by (simp add: write_conflict_error_def)
  next
    case (Record_Success s)
    with rec "1.prems" "1.IH" [OF rec Record_Success] show ?thesis by simp
  qed
qed (auto simp: successful_def split: if_splits)

lemma parse_batch_result_complete:
  "parse_batch_result stdout stderr items = Inr outcome \<Longrightarrow>
     (case co_error outcome of
        None \<Rightarrow> length (co_successes outcome) = length items
      | Some e \<Rightarrow> xe_kind e = Conflict)"
  by (auto simp: parse_batch_result_def Let_def dest: parse_records_loop_complete split: if_splits)

lemma batch_request_mutation:
  assumes "batch_request script limits host items = Inr request"
  shows "fr_kind request = Op_Mutation"
proof -
  have "oks (\<lambda>r. fr_kind r = Op_Mutation) (batch_request script limits host items)"
    unfolding batch_request_def by (intro oks_intros) simp
  from oksD [OF this assms] show ?thesis .
qed

lemma map_runner_unknown:
  "be_code e = MutationOutcomeUnknown \<Longrightarrow> xe_kind (map_runner_error e) = OutcomeUnknown"
  by (simp add: map_runner_error_def)

lemma map_runner_final: "\<not> be_retryable e \<Longrightarrow> xe_kind (map_runner_error e) \<noteq> Transient"
  by (simp add: map_runner_error_def)

lemma errs_map_err: "errs (\<lambda>e. P (f e)) m \<Longrightarrow> errs P (map_err f m)"
  by (cases m) (auto simp: errs_def)

lemma batch_answer_errs:
  "errs (\<lambda>e. xe_kind e \<noteq> Transient) (batch_answer items request (Inr result))"
proof -
  have "errs (\<lambda>e. xe_kind e \<noteq> Transient) (parse_batch_result a b items)" for a b
    using parse_batch_result_errs [of a b items] by (auto simp: errs_def split: sum.splits)
  moreover have "errs (\<lambda>e. xe_kind e \<noteq> Transient) (map_err map_runner_error (read_small_stream o1 s n))" for o1 s n
    using read_small_stream_errs [of o1 s n] map_runner_final
    by (intro errs_map_err) (auto simp: errs_def split: sum.splits)
  ultimately show ?thesis unfolding batch_answer_def by (intro errs_intros) (auto simp: errs_basic(1))
qed

text \<open>A success names its edit: the file and the generation that was committed.\<close>

definition success_names :: "commit_item \<Rightarrow> commit_success \<Rightarrow> bool" where
  "success_names i x \<longleftrightarrow> cs_key x = ci_key i \<and> cs_generation x = ci_generation i"

lemma names_complete:
  "list_all2 success_names (take n items) successes \<Longrightarrow> length successes = length items \<Longrightarrow>
     list_all2 success_names items successes"
  by (metis list_all2_lengthD take_all_iff take_all length_take min.absorb_iff1)

lemma parse_records_loop_names:
  assumes "parse_records_loop items n successes flds = Inr outcome" "co_error outcome = None"
    and "list_all2 success_names (take n items) successes" "n \<le> length items"
  shows "list_all2 success_names items (co_successes outcome)"
  using assms
proof (induction items n successes flds rule: parse_records_loop.induct)
  case (1 items n successes a b c d rest)
  from "1.prems"(1) obtain rec where rec: "parse_batch_record items n [a, b, c, d] = Inr rec"
    by (auto simp: bindR_eq_Inr)
  show ?case
  proof (cases rec)
    case (Record_Conflict path)
    with "1.prems"(1,2) rec show ?thesis by auto
  next
    case (Record_Success s)
    from parse_record_Success [OF rec [unfolded Record_Success]]
    have s: "n < length items" "success_names (items ! n) s" by (auto simp: success_names_def)
    have "list_all2 success_names (take (Suc n) items) (successes @ [s])"
      using s "1.prems"(3) by (simp add: take_Suc_conv_app_nth list_all2_appendI)
    with "1.IH" [OF rec Record_Success] "1.prems"(1,2) s(1) rec Record_Success show ?thesis by simp
  qed
qed (auto simp: successful_def intro: names_complete split: if_splits)

lemma parse_batch_result_names:
  "parse_batch_result stdout stderr items = Inr outcome \<Longrightarrow> co_error outcome = None \<Longrightarrow>
     list_all2 success_names items (co_successes outcome)"
  by (auto simp: parse_batch_result_def Let_def split: if_splits intro: parse_records_loop_names)

text \<open>The command that is sent for a part of a batch.\<close>

definition part_command ::
  "string \<Rightarrow> effective_limits \<Rightarrow> string \<Rightarrow> commit_item list \<Rightarrow> session_command \<Rightarrow> bool" where
  "part_command script limits host part command \<longleftrightarrow>
     (\<exists>request. batch_request script limits host part = Inr request \<and> prepare_command limits request = Inr command)"

lemma commit_partition_session:
  assumes "commit_partition script limits (session_runner limits world) sent host p = (answer, sent')"
  shows "case answer of
      Inr outcome \<Rightarrow> (\<exists>command. sent' = sent @ [command] \<and> part_command script limits host p command) \<and>
        (case co_error outcome of
           None \<Rightarrow> list_all2 success_names p (co_successes outcome) | Some e \<Rightarrow> xe_kind e = Conflict)
    | Inl e \<Rightarrow> xe_kind e = Transient \<longrightarrow> sent' = sent"
proof (cases "batch_request script limits host p")
  case (Inl e)
  with assms show ?thesis by (auto simp: commit_partition_def)
next
  case (Inr request)
  note mutation = batch_request_mutation [OF Inr]
  obtain res command where run: "execute_fixed_once limits (world sent) request = (res, command)" by force
  with assms Inr have answer: "answer = batch_answer p request res"
    and log: "sent' = (case command of None \<Rightarrow> sent | Some c \<Rightarrow> sent @ [c])"
    by (auto simp: commit_partition_def session_runner_def)
  show ?thesis
  proof (cases res)
    case (Inl e)
    then have a: "answer = Inl (map_runner_error e)" by (simp add: answer batch_answer_def)
    show ?thesis
    proof (cases command)
      case (Some c)
      from execute_sends [OF run [unfolded Some]] Inl obtain cap mode where
        "after_send (world sent) request cap mode c = Inl e" by auto
      from after_send_mutation(1) [OF this mutation] a show ?thesis by (simp add: map_runner_unknown)
    qed (use a log in simp)
  next
    case (Inr result)
    with run obtain c where c: "command = Some c" by (auto simp: execute_fixed_once_def split: sum.splits)
    with run obtain cap mode where "before_send limits (world sent) request = Inr (cap, mode, c)"
      using execute_sends by blast
    from before_send_command(1) [OF this] \<open>batch_request script limits host p = Inr request\<close>
    have sent: "part_command script limits host p c" by (auto simp: part_command_def)
    show ?thesis
    proof (cases answer)
      case (Inl e)
      with answer errsD [OF batch_answer_errs] Inr have "xe_kind e \<noteq> Transient" by metis
      with Inl show ?thesis by simp
    next
      case o: (Inr outcome)
      from batch_answer_Inr [OF o [unfolded answer]] parse_batch_result_complete parse_batch_result_names
      have "case co_error outcome of
          None \<Rightarrow> list_all2 success_names p (co_successes outcome) | Some e \<Rightarrow> xe_kind e = Conflict"
        by (fastforce split: option.splits)
      with o sent log c show ?thesis by auto
    qed
  qed
qed

lemma commit_partitions_session:
  assumes "commit_partitions script limits (session_runner limits world) sent host committed ps = (outcome, sent')"
    and "co_error outcome = Some e" "xe_kind e = Transient"
  shows "\<exists>gone rest commands later. ps = gone @ rest \<and> sent' = sent @ commands \<and>
    list_all2 (part_command script limits host) gone commands \<and>
    co_successes outcome = committed @ later \<and> list_all2 success_names (concat gone) later"
  using assms
proof (induction ps arbitrary: sent committed)
  case Nil
  then show ?case by (auto simp: successful_def)
next
  case (Cons p ps)
  obtain answer sent1 where run: "commit_partition script limits (session_runner limits world) sent host p = (answer, sent1)"
    by force
  note step = commit_partition_session [OF run]
  show ?case
  proof (cases answer)
    case (Inl x)
    with Cons.prems run step show ?thesis by (intro exI [of _ "[]"] exI [of _ "p # ps"]) auto
  next
    case (Inr o1)
    with step obtain c where c: "sent1 = sent @ [c]" "part_command script limits host p c" by auto
    show ?thesis
    proof (cases "co_error o1")
      case None
      with Inr step have named: "list_all2 success_names p (co_successes o1)" by simp
      have "commit_partitions script limits (session_runner limits world) sent1 host
          (committed @ co_successes o1) ps = (outcome, sent')"
        using Inr run Cons.prems(1) None by simp
      from Cons.IH [OF this Cons.prems(2,3)] obtain gone rest commands later where
        d: "ps = gone @ rest" "sent' = sent1 @ commands" "list_all2 (part_command script limits host) gone commands"
        "co_successes outcome = (committed @ co_successes o1) @ later" "list_all2 success_names (concat gone) later"
        by blast
      with c named show ?thesis
        by (intro exI [of _ "p # gone"] exI [of _ rest] exI [of _ "c # commands"] exI [of _ "co_successes o1 @ later"])
          (simp add: list_all2_appendI)
    next
      case (Some x)
      with Inr run Cons.prems step show ?thesis by auto
    qed
  qed
qed


section \<open>The size of a batch\<close>

definition unescaped :: "char \<Rightarrow> bool" where
  "unescaped c \<longleftrightarrow> c \<noteq> NUL \<and> c \<noteq> QUOTE"

text \<open>The hash field of an item is 64 characters that quoting leaves as they are.\<close>

definition hash_sized :: "commit_item \<Rightarrow> bool" where
  "hash_sized i \<longleftrightarrow>
     (case ci_desired i of
        Deleted \<Rightarrow> True
      | Present _ \<Rightarrow> \<exists>h. ci_desired_sha256 i = Some h \<and> length h = 64 \<and> list_all unescaped h)"

definition same_quoting :: "string \<Rightarrow> string \<Rightarrow> bool" where
  "same_quoting a b \<longleftrightarrow> quotable a = quotable b \<and> length (quoted a) = length (quoted b)"

lemma same_quoting_refl [simp]: "same_quoting a a"
  by (simp add: same_quoting_def)

lemma same_quoting_hex:
  assumes "list_all unescaped a" "list_all unescaped b" "length a = length b"
  shows "same_quoting a b"
proof -
  have plain: "NUL \<notin> set x \<and> length (quoted x) = length x + 2" if "list_all unescaped x" for x
  proof -
    have hex: "unescaped c" if "c \<in> set x" for c
      using that \<open>list_all unescaped x\<close> by (simp add: list_all_iff)
    have "\<not> unescaped NUL" "\<not> unescaped QUOTE" by code_simp+
    with hex have "NUL \<notin> set x" "filter (\<lambda>c. c = QUOTE) x = []"
      by (auto simp: filter_empty_conv)
    then show ?thesis by (simp add: length_quoted)
  qed
  with assms show ?thesis by (simp add: same_quoting_def quotable_def)
qed

lemma item_arguments_sizing:
  assumes "hash_sized i"
  shows "case item_arguments False i n of
      Inl e \<Rightarrow> item_arguments True i n = Inl e
    | Inr (flds, m) \<Rightarrow> \<exists>flds'. item_arguments True i n = Inr (flds', m) \<and> list_all2 same_quoting flds flds' \<and>
        m = n + length (item_bytes i)"
proof (cases "ci_desired i")
  case Deleted
  obtain bk bh mode where b: "base_fields (ci_base i) = (bk, bh, mode)" by (cases "base_fields (ci_base i)") auto
  show ?thesis
    unfolding item_arguments_def Deleted b
    by (cases "split_parent_basename (item_path i)") (auto simp: Deleted)
next
  case (Present bytes)
  with assms obtain h where h: "ci_desired_sha256 i = Some h" "length h = 64" "list_all unescaped h"
    by (auto simp: hash_sized_def)
  obtain bk bh mode where b: "base_fields (ci_base i) = (bk, bh, mode)" by (cases "base_fields (ci_base i)") auto
  have zero: "unescaped (CHR ''0'')" by code_simp
  then have zeros: "list_all unescaped (replicate 64 (CHR ''0''))" unfolding list_all_iff by simp
  have hash: "same_quoting (replicate 64 (CHR ''0'')) h"
    by (rule same_quoting_hex [OF zeros h(3)]) (simp only: h(2) length_replicate)
  show ?thesis
    unfolding item_arguments_def Present b h(1)
    by (cases "split_parent_basename (item_path i)"; cases "checked_add n (length bytes)")
      (auto simp: Present hash checked_add_def split: if_splits)
qed

lemma arguments_loop_sizing:
  assumes "list_all hash_sized items" "list_all2 same_quoting args args'"
  shows "case arguments_loop False args n items of
      Inl e \<Rightarrow> arguments_loop True args' n items = Inl e
    | Inr (out, m) \<Rightarrow> \<exists>out'. arguments_loop True args' n items = Inr (out', m) \<and> list_all2 same_quoting out out' \<and>
        m = n + length (concat (map item_bytes items))"
  using assms
proof (induction items arbitrary: args args' n)
  case (Cons i items)
  from Cons.prems(1) have i: "hash_sized i" "list_all hash_sized items" by simp_all
  note one = item_arguments_sizing [OF i(1), of n]
  show ?case
  proof (cases "item_arguments False i n")
    case (Inl e)
    with one show ?thesis by simp
  next
    case (Inr r)
    obtain flds m where r: "r = (flds, m)" by force
    with one Inr obtain flds' where f: "item_arguments True i n = Inr (flds', m)" "list_all2 same_quoting flds flds'"
      "m = n + length (item_bytes i)" by auto
    have "list_all2 same_quoting (args @ flds) (args' @ flds')"
      using Cons.prems(2) f(2) by (rule list_all2_appendI)
    from Cons.IH [OF i(2) this, of m] f Inr r show ?thesis
      by (auto simp: add.assoc split: sum.splits prod.splits simp del: item_bytes.simps)
  qed
qed auto

lemma same_quoting_list:
  "list_all2 same_quoting args args' \<Longrightarrow>
     list_all quotable args = list_all quotable args' \<and>
     sum_list (map (\<lambda>a. 1 + length (quoted a)) args) = sum_list (map (\<lambda>a. 1 + length (quoted a)) args')"
  by (induction args args' rule: list_all2_induct) (auto simp: same_quoting_def)

lemma render_same_quoting:
  assumes "list_all2 same_quoting args args'"
  shows "(\<exists>line. render_fixed_command script args = Inr line \<and> length line = n) \<longleftrightarrow>
    (\<exists>line. render_fixed_command script args' = Inr line \<and> length line = n)"
proof -
  note same = same_quoting_list [OF assms]
  then have "length (rendered_command script args) = length (rendered_command script args')"
    by (simp only: length_rendered)
  with same show ?thesis unfolding render_fixed_command_def render_text_Inr by auto
qed


lemma map_err_Inr [simp]: "map_err f m = Inr x \<longleftrightarrow> m = Inr x"
  by (simp add: map_err_eq_Inr)

lemma batch_transport_bytes_Inr:
  assumes "list_all hash_sized items"
  shows "batch_transport_bytes script items = Inr n \<longleftrightarrow>
    (\<exists>args stdin line. prepare_batch items = Inr (args, stdin) \<and>
       render_fixed_command script args = Inr line \<and> n = length line + length stdin \<and> n \<le> u64_max)"
proof (cases "prepare_batch_arguments items False")
  case (Inl e)
  with arguments_loop_sizing [OF assms, of "[]" "[]" 0] show ?thesis
    by (simp add: batch_transport_bytes_def prepare_batch_def prepare_batch_arguments_def)
next
  case (Inr r)
  obtain args m where r: "r = (args, m)" by force
  with Inr arguments_loop_sizing [OF assms, of "[]" "[]" 0] obtain args' where
    a: "prepare_batch_arguments items True = Inr (args', m)" "list_all2 same_quoting args args'"
    "m = length (concat (map item_bytes items))"
    by (auto simp: prepare_batch_arguments_def simp del: item_bytes.simps)
  have left: "batch_transport_bytes script items = Inr n \<longleftrightarrow>
      (\<exists>line. render_fixed_command script args = Inr line \<and> length line = n - m \<and> m \<le> n \<and> n \<le> u64_max)"
    unfolding batch_transport_bytes_def Inr r
    by (auto simp: bindR_eq_Inr ok_or_eq_Inr checked_add_def)
  have right: "(\<exists>args stdin line. prepare_batch items = Inr (args, stdin) \<and>
       render_fixed_command script args = Inr line \<and> n = length line + length stdin \<and> n \<le> u64_max) \<longleftrightarrow>
      (\<exists>line. render_fixed_command script args' = Inr line \<and> length line = n - m \<and> m \<le> n \<and> n \<le> u64_max)"
    unfolding prepare_batch_def a(1) a(3) by (auto simp del: item_bytes.simps)
  show ?thesis
    unfolding left right using render_same_quoting [OF a(2), of script "n - m"] by blast
qed

definition demo_deletion :: "string \<Rightarrow> commit_item" where
  "demo_deletion path =
     \<lparr>ci_key = \<lparr>key_host = ''h'', key_path = path\<rparr>, ci_base = Base_Regular ''ab'' 420, ci_desired = Deleted,
      ci_desired_sha256 = None, ci_generation = Generation 1\<rparr>"

lemma demo_deletion_sized: "list_all hash_sized [demo_deletion p]"
  by (simp add: hash_sized_def demo_deletion_def)

lemma demo_partition: "partition_items ''rm'' [demo_deletion ''/x/f''] 68 = Inr [[demo_deletion ''/x/f'']]"
  by code_simp

text \<open>C22: the split of a batch keeps every edit in order and loses none, no part is empty, and the
  command and input later encoded for a part, with the real hashes, fit the frame: sizing a part with
  a placeholder for the hashes is exact.\<close>

theorem partition_fits:
  assumes "partition_items script items maximum = Inr parts" "list_all hash_sized items"
  shows "concat parts = items \<and>
    (\<forall>part \<in> set parts. part \<noteq> [] \<and>
       (\<exists>args stdin line. prepare_batch part = Inr (args, stdin) \<and>
          render_fixed_command script args = Inr line \<and> length line + length stdin \<le> maximum))"
proof -
  from partition_loop_ok [OF assms(1) [unfolded partition_items_def]] have p: "concat parts = items"
    "\<forall>part \<in> set parts. part \<noteq> [] \<and> (\<exists>n \<le> maximum. batch_transport_bytes script part = Inr n)" by simp_all
  have "list_all hash_sized part" if "part \<in> set parts" for part
    using assms(2) that unfolding p(1) [symmetric] by (auto simp: list_all_iff)
  with p show ?thesis by (fastforce simp: batch_transport_bytes_Inr)
qed

lemma partition_fits_witness:
  "\<exists>args stdin line. prepare_batch [demo_deletion ''/x/f''] = Inr (args, stdin) \<and>
     render_fixed_command ''rm'' args = Inr line \<and> length line + length stdin \<le> 68"
  using partition_fits [OF demo_partition demo_deletion_sized] by simp

section \<open>What a failed commit says\<close>

text \<open>C3: a commit that reports a transient error, the only kind that is retried without the user, has handed to
  the session exactly one command for each of the first parts of the batch, in order.  No part is empty, and it
  reports precisely the edits of these parts as committed, one success for each.  So the edits
  that stay pending were not sent, and nothing whose outcome is open is ever sent a second time by a retry.\<close>

theorem transient_commit_nothing_open:
  assumes "commit_batch script limits (session_runner limits world) sent host items = (outcome, sent')"
    and "co_error outcome = Some e" "xe_kind e = Transient"
  shows "\<exists>parts kept commands. items = concat parts @ kept \<and> [] \<notin> set parts \<and>
    sent' = sent @ commands \<and> list_all2 (part_command script limits host) parts commands \<and>
    list_all2 success_names (concat parts) (co_successes outcome)"
proof (cases "items = [] \<or> list_ex (\<lambda>i. key_host (ci_key i) \<noteq> host) items")
  case True
  with assms show ?thesis
    by (auto simp: commit_batch_def successful_def failed_def sync_permanent_def split: if_splits)
next
  case False
  show ?thesis
  proof (cases "partition_items script items (lim_max_frame_bytes limits)")
    case (Inl x)
    with assms False show ?thesis by (intro exI [of _ "[]"] exI [of _ items]) (auto simp: commit_batch_def failed_def)
  next
    case (Inr ps)
    with assms(1) False have
      "commit_partitions script limits (session_runner limits world) sent host [] ps = (outcome, sent')"
      by (simp add: commit_batch_def)
    from commit_partitions_session [OF this assms(2,3)] obtain gone rest commands where
      g: "ps = gone @ rest" "sent' = sent @ commands" "list_all2 (part_command script limits host) gone commands"
      "list_all2 success_names (concat gone) (co_successes outcome)" by auto
    have "concat ps = items" "[] \<notin> set ps"
      using partition_loop_ok [OF Inr [unfolded partition_items_def]] by auto
    with g show ?thesis by (intro exI [of _ gone] exI [of _ "concat rest"] exI [of _ commands]) auto
  qed
qed

text \<open>Two deletions that fit one frame each; the host answers the first and is gone for the second.\<close>

definition deleted_output :: captured_output where
  "deleted_output =
     (let answer = join_with [NUL] [''INDEX=0'', ''STATUS=CHANGED'', ''SHA256=-'', ''MODE=0''] @ [NUL]
      in \<lparr>co_stdout_file = Some answer, co_stderr_file = None, co_stdout_len = length answer, co_stderr_len = 0,
          co_aggregate_bytes = length answer\<rparr>)"

definition demo_half_offline :: "session_command list \<Rightarrow> runner_world" where
  "demo_half_offline sent =
     (if sent = [] then demo_world (Inr (demo_result 0)) (Inr deleted_output)
      else (demo_world (Inr (demo_result 0)) (Inr empty_output))
             \<lparr>rw_session := Inl (new_error ConnectTimeout ''timed out'' True)\<rparr>)"

definition demo_transient :: edit_error where
  "demo_transient = \<lparr>xe_kind = Transient, xe_code = Some Edit_ConnectTimeout, xe_message = ''timed out''\<rparr>"

definition demo_first_command :: session_command where
  "demo_first_command =
     \<lparr>sq_command = rendered_command ''rm'' [''./x'', ''f'', ''R'', ''ab'', ''D'', ''0'', [], ''0''], sq_cwd = ''/'',
      sq_shell = posix_sh, sq_stdin = Some []\<rparr>"

lemma demo_commit_offline:
  "commit_batch ''rm'' (frame_limits 75) (session_runner (frame_limits 75) demo_half_offline) [] ''h''
     [demo_deletion ''/x/f'', demo_deletion ''/x/g''] =
   (\<lparr>co_successes = [\<lparr>cs_key = \<lparr>key_host = ''h'', key_path = ''/x/f''\<rparr>, cs_generation = Generation 1,
        cs_base = Base_Missing\<rparr>], co_error = Some demo_transient\<rparr>, [demo_first_command])"
  by code_simp

lemma transient_commit_nothing_open_witness:
  "\<exists>parts kept. [demo_deletion ''/x/f'', demo_deletion ''/x/g''] = concat parts @ kept \<and> [] \<notin> set parts \<and>
     list_all2 (part_command ''rm'' (frame_limits 75) ''h'') parts [demo_first_command] \<and> length (concat parts) = 1"
proof -
  have transient: "xe_kind demo_transient = Transient" by (simp add: demo_transient_def)
  from transient_commit_nothing_open [OF demo_commit_offline commit_batch_outcome.select_convs(2) transient]
  obtain parts kept where
    "[demo_deletion ''/x/f'', demo_deletion ''/x/g''] = concat parts @ kept" "[] \<notin> set parts"
    "list_all2 (part_command ''rm'' (frame_limits 75) ''h'') parts [demo_first_command]"
    and n: "list_all2 success_names (concat parts) [\<lparr>cs_key = \<lparr>key_host = ''h'', key_path = ''/x/f''\<rparr>,
        cs_generation = Generation 1, cs_base = Base_Missing\<rparr>]" by auto
  moreover have "length (concat parts) = 1" using list_all2_lengthD [OF n] by simp
  ultimately show ?thesis by blast
qed

section \<open>Sized before pinning, sent after it\<close>

text \<open>The command that is sent is longer than the one that was sized: by one byte for every path
  that is not the root itself.\<close>

lemma length_pinned: "length (quoted (pinned_path relative)) =
    length (quoted (''/'' @ relative)) + (if relative = [] then 0 else 1)"
  by (simp add: pinned_path_def length_quoted)

lemma sum_list_if_filter: "sum_list (map (\<lambda>i. if P i then 1 else 0) xs) = length (filter P xs)"
  by (induction xs) auto

lemma sum_list_pinned:
  assumes "pinned_at ks args args'"
  shows "sum_list (map (\<lambda>a. 1 + length (quoted a)) args') = sum_list (map (\<lambda>a. 1 + length (quoted a)) args) +
    length (filter (\<lambda>i. i \<in> set ks \<and> args ! i \<noteq> ''/'') [0 ..< length args])"
proof -
  let ?w = "\<lambda>a. 1 + length (quoted a)"
  have len: "length args' = length args" using assms by (simp add: pinned_at_def)
  have one: "?w (args' ! i) = ?w (args ! i) + (if i \<in> set ks \<and> args ! i \<noteq> ''/'' then 1 else 0)"
    if "i < length args" for i
  proof (cases "i \<in> set ks")
    case True
    with assms that obtain r where "args ! i = ''/'' @ r" "args' ! i = pinned_path r"
      unfolding pinned_at_def by meson
    with True show ?thesis by (simp add: length_pinned)
  next
    case False
    with assms that show ?thesis by (simp add: pinned_at_def)
  qed
  have by_index: "map ?w xs = map (\<lambda>i. ?w (xs ! i)) [0 ..< length xs]" for xs
    by (rule nth_equalityI) simp_all
  have "sum_list (map ?w args') = sum_list (map (\<lambda>i. ?w (args' ! i)) [0 ..< length args])"
    unfolding by_index [of args'] len ..
  also have "\<dots> = sum_list (map (\<lambda>i. ?w (args ! i) + (if i \<in> set ks \<and> args ! i \<noteq> ''/'' then 1 else 0)) [0 ..< length args])"
    by (rule arg_cong [where f = sum_list]) (rule map_cong, rule refl, use one in auto)
  also have "\<dots> = sum_list (map (\<lambda>i. ?w (args ! i)) [0 ..< length args]) +
      sum_list (map (\<lambda>i. if i \<in> set ks \<and> args ! i \<noteq> ''/'' then 1 else 0) [0 ..< length args])"
    by (rule sum_list_addf)
  also have "sum_list (map (\<lambda>i. ?w (args ! i)) [0 ..< length args]) = sum_list (map ?w args)"
    unfolding by_index [of args] ..
  also have "sum_list (map (\<lambda>i. if i \<in> set ks \<and> args ! i \<noteq> ''/'' then 1 else 0) [0 ..< length args]) =
      length (filter (\<lambda>i. i \<in> set ks \<and> args ! i \<noteq> ''/'') [0 ..< length args])"
    by (rule sum_list_if_filter)
  finally show ?thesis .
qed

text \<open>The length check that decides how edits are split is made before the paths are pinned.\<close>

lemma sent_command_longer:
  assumes "execute_fixed_once limits world request = (res, Some command)"
  shows "length (sq_command command) = length (rendered_command (fr_script request) (fr_args request)) +
    length (filter (\<lambda>i. i \<in> set (selected_indices (fr_rooted request) (length (fr_args request))) \<and>
      fr_args request ! i \<noteq> ''/'') [0 ..< length (fr_args request)])"
proof -
  from execute_sends [OF assms] obtain c mode where
    b: "before_send limits world request = Inr (c, mode, command)" by blast
  from prepare_command_Inr [OF before_send_command(1) [OF b]] obtain args stdin where
    pin: "pin_fixed_inputs REMOTE_OPERATION_ROOT (fr_args request) (fr_stdin request) (fr_rooted request) = Inr (args, stdin)"
    and command: "sq_command command = rendered_command (fr_script request) args" by auto
  show ?thesis
    unfolding command length_rendered sum_list_pinned [OF pin_fixed_inputs_args [OF pin]] by simp
qed

text \<open>The arguments of a batch are blocks of eight, each led by the directory of its file.\<close>

definition below_root :: "commit_item \<Rightarrow> bool" where
  "below_root i \<longleftrightarrow>
     (case split_parent_basename (item_path i) of Inr (parent, _) \<Rightarrow> parent \<noteq> ''/'' | Inl _ \<Rightarrow> False)"

definition led_by_parent :: "commit_item \<Rightarrow> string list \<Rightarrow> bool" where
  "led_by_parent i flds \<longleftrightarrow> length flds = ITEM_ARGUMENTS \<and> (below_root i \<longleftrightarrow> flds ! 0 \<noteq> ''/'')"

lemma item_arguments_led:
  assumes "item_arguments h i n = Inr (flds, m)"
  shows "led_by_parent i flds"
proof -
  from assms obtain parent basename where split: "split_parent_basename (item_path i) = Inr (parent, basename)"
    unfolding item_arguments_def bindR_eq_Inr by auto
  have "oks (\<lambda>r. length (fst r) = ITEM_ARGUMENTS \<and> fst r ! 0 = parent) (item_arguments h i n)"
    unfolding item_arguments_def split map_err_Inr [THEN iffD2, OF refl] bindR_simps prod.case Let_def
    by (cases "ci_desired i"; simp only: desired_state.case) (intro oks_intros, simp add: ITEM_ARGUMENTS_def)+
  from oksD [OF this assms] split show ?thesis by (simp add: led_by_parent_def below_root_def)
qed

lemma arguments_loop_blocks:
  "arguments_loop h args n items = Inr (out, m) \<Longrightarrow>
     \<exists>blocks. out = args @ concat blocks \<and> list_all2 led_by_parent items blocks"
proof (induction items arbitrary: args n)
  case (Cons i items)
  then obtain flds k where one: "item_arguments h i n = Inr (flds, k)"
    and rest: "arguments_loop h (args @ flds) k items = Inr (out, m)" by (auto simp: bindR_eq_Inr)
  from Cons.IH [OF rest] obtain blocks where "out = (args @ flds) @ concat blocks" "list_all2 led_by_parent items blocks"
    by blast
  with item_arguments_led [OF one] show ?case by (intro exI [of _ "flds # blocks"]) simp
qed simp

lemma led_count:
  assumes "list_all2 led_by_parent items blocks"
  shows "length (filter (\<lambda>k. k mod ITEM_ARGUMENTS = 0 \<and> concat blocks ! k \<noteq> ''/'') [0 ..< length (concat blocks)]) =
    length (filter below_root items)"
  using assms
proof (induction items blocks rule: list_all2_induct)
  case (Cons i items flds blocks)
  then have n: "length flds = 8" "below_root i \<longleftrightarrow> flds ! 0 \<noteq> ''/''"
    by (simp_all add: led_by_parent_def ITEM_ARGUMENTS_def)
  let ?P = "\<lambda>l k. k mod 8 = 0 \<and> l ! k \<noteq> (''/'' :: string)"
  have up: "[0 ..< 8 + m] = [0, 1, 2, 3, 4, 5, 6, 7] @ map (\<lambda>k. k + 8) [0 ..< m]" for m :: nat
  proof -
    have "[0 ..< 8 + m] = [0 ..< 8] @ [8 ..< m + 8]" using upt_add_eq_append [of 0 8 m] by (simp only: add.commute [of 8 m] le0)
    moreover have "[8 ..< m + 8] = map (\<lambda>k. k + 8) [0 ..< m]" by (rule map_add_upt [symmetric])
    moreover have "[0 ..< 8] = [0, 1, 2, 3, 4, 5, 6, 7 :: nat]" by (simp add: upt_rec)
    ultimately show ?thesis by simp
  qed
  have "filter (?P (flds @ concat blocks)) [0, 1, 2, 3, 4, 5, 6, 7] = (if below_root i then [0] else [])"
    using n by (simp add: nth_append)
  moreover have "length (filter (?P (flds @ concat blocks)) (map (\<lambda>k. k + 8) [0 ..< length (concat blocks)])) =
      length (filter (?P (concat blocks)) [0 ..< length (concat blocks)])"
    using n(1) by (simp add: filter_map o_def nth_append)
  ultimately have "length (filter (?P (flds @ concat blocks)) [0 ..< 8 + length (concat blocks)]) =
      (if below_root i then 1 else 0) + length (filter (?P (concat blocks)) [0 ..< length (concat blocks)])"
    unfolding up filter_append length_append by simp
  with Cons.IH n(1) show ?case by (simp add: ITEM_ARGUMENTS_def)
qed simp

text \<open>A part that is too long once its directories are pinned is not sent.\<close>

lemma batch_request_fields:
  assumes "batch_request script limits host items = Inr request"
  shows "fr_script request = script \<and> prepare_batch items = Inr (fr_args request, the (fr_stdin request)) \<and>
    fr_stdin request \<noteq> None \<and> \<not> rpi_stdin_nul_paths (fr_rooted request) \<and> selected_indices (fr_rooted request) m = filter (\<lambda>i. i mod ITEM_ARGUMENTS = 0) [0 ..< m]"
proof -
  have "oks (\<lambda>r. fr_script r = script \<and> prepare_batch items = Inr (fr_args r, the (fr_stdin r)) \<and>
      fr_stdin r \<noteq> None \<and> \<not> rpi_stdin_nul_paths (fr_rooted r) \<and> selected_indices (fr_rooted r) m = filter (\<lambda>i. i mod ITEM_ARGUMENTS = 0) [0 ..< m])
      (batch_request script limits host items)"
  proof (cases "prepare_batch items")
    case (Inr x)
    then show ?thesis
      by (cases x) (simp only: batch_request_def bindR_simps prod.case, intro oks_intros,
          simp add: selected_indices_def stride_indices_def)
  qed (simp add: batch_request_def oks_def)
  from oksD [OF this assms] show ?thesis .
qed

lemma boundary_not_sent:
  assumes "batch_request script limits host part = Inr request" "list_all hash_sized part"
    and "batch_transport_bytes script part = Inr n" "lim_max_frame_bytes limits < n + length (filter below_root part)"
  shows "\<exists>e. execute_fixed_once limits world request = (Inl e, None) \<and> before_send limits world request = Inl e"
proof (cases "before_send limits world request")
  case (Inr sends)
  obtain c mode command where "sends = (c, mode, command)" by (cases sends) auto
  with Inr have run: "execute_fixed_once limits world request = (after_send world request c mode command, Some command)"
    and prep: "prepare_command limits request = Inr command"
    by (simp_all add: execute_fixed_once_def before_send_command(1))
  from assms(3) obtain args stdin line where sized: "prepare_batch part = Inr (args, stdin)"
    "render_fixed_command script args = Inr line" "n = length line + length stdin"
    unfolding batch_transport_bytes_Inr [OF assms(2)] by blast
  note flds = batch_request_fields [OF assms(1)]
  with sized(1) have req: "fr_args request = args" "fr_stdin request = Some stdin" by auto
  from sized(1) obtain m where "arguments_loop True [] 0 part = Inr (args, m)"
    by (auto simp: prepare_batch_def prepare_batch_arguments_def bindR_eq_Inr)
  from arguments_loop_blocks [OF this] obtain blocks where "args = concat blocks" "list_all2 led_by_parent part blocks" by auto
  note blocks = this
  have "filter (\<lambda>i. i \<in> set (selected_indices (fr_rooted request) (length args)) \<and> args ! i \<noteq> ''/'') [0 ..< length args] =
      filter (\<lambda>i. i mod ITEM_ARGUMENTS = 0 \<and> args ! i \<noteq> ''/'') [0 ..< length args]"
    using flds by (intro filter_cong refl) simp
  with led_count [OF blocks(2)] have count: "length (filter (\<lambda>i. i \<in> set (selected_indices (fr_rooted request)
      (length args)) \<and> args ! i \<noteq> ''/'') [0 ..< length args]) = length (filter below_root part)"
    by (simp add: blocks(1))
  have "line = rendered_command script args"
    using sized(2) by (simp add: render_fixed_command_def render_text_Inr)
  with sent_command_longer [OF run] count flds req sized(3)
  have long: "length (sq_command command) + length stdin = n + length (filter below_root part)" by simp
  from prepare_command_Inr [OF prep] flds req have "length (sq_command command) + length stdin \<le> lim_max_frame_bytes limits"
    by (auto simp: pin_fixed_inputs_def bindR_eq_Inr)
  with long assms(4) show ?thesis by simp
qed (simp add: execute_fixed_once_def)

text \<open>What can go wrong on a host that is ready, before anything is sent, is final.\<close>

definition host_ready :: "runner_world \<Rightarrow> bool" where
  "host_ready world \<longleftrightarrow>
     rw_alias world = Inr () \<and> rw_admitted world = Inr () \<and> (\<exists>mode. rw_session world = Inr mode) \<and>
     rw_deadline world = Inr () \<and> rw_timeout world = Inr () \<and> rw_response_timeout world = Inr () \<and>
     (\<exists>c. rw_initialize world = Inr c \<and> cap_tools c ''safe_write'' = Some True \<and> cap_tools c ''guarded_delete'' = Some True)"

definition final_error :: "bridge_error \<Rightarrow> bool" where
  "final_error e \<longleftrightarrow> \<not> be_retryable e \<and> be_code e \<noteq> MutationOutcomeUnknown \<and> be_code e \<noteq> WriteConflict"

lemma final_errors [simp]:
  "final_error rendered_too_large" "final_error fixed_too_large" "final_error rooted_path_error"
  "final_error quote_too_large" "final_error (invalid_argument m)"
  "final_error (new_error RequestTooLarge m False)" "final_error (new_error ProtocolError m False)"
  by (simp_all add: final_error_def rendered_too_large_def fixed_too_large_def rooted_path_error_def
      quote_too_large_def invalid_argument_def)

lemma final_permanent: "final_error e \<Longrightarrow> xe_kind (map_runner_error e) = Permanent"
  by (simp add: final_error_def map_runner_error_def)

lemma errs_case_prod: "(\<And>a b. errs P (f a b)) \<Longrightarrow> errs P (case x of (a, b) \<Rightarrow> f a b)"
  by (cases x) simp

lemma errs_collectR: "(\<And>x. errs P (f x)) \<Longrightarrow> errs P (collectR f xs)"
  by (induction xs) (auto intro!: errs_intros)

lemma word_errs: "errs final_error (prepare_shell_word v)"
  unfolding prepare_shell_word_def checked_shell_word_len_eq by (intro errs_intros final_errors)

lemma length_errs: "errs final_error (checked_rendered_length ns)"
proof -
  have "errs final_error (sum_rendered len ns)" for len
    by (induction ns arbitrary: len) (auto intro!: errs_intros)
  then show ?thesis by (simp add: checked_rendered_length_def)
qed

lemma fold_raw_errs: "errs final_error (fold_raw_arguments len args)"
  by (induction args arbitrary: len) (auto intro!: errs_intros word_errs length_errs)

lemma fold_prepared_errs: "errs final_error (fold_prepared len ws)"
  by (induction ws arbitrary: len) (auto intro!: errs_intros length_errs)

lemma push_errs:
  assumes "\<And>b. errs final_error (f b)"
  shows "errs final_error (case push_to w b of (Inl e, _) \<Rightarrow> Inl e | (Inr _, b') \<Rightarrow> f b')"
  using assms by (simp add: push_to_def errs_basic)

lemma push_words_errs: "errs final_error (push_words b ws)"
  by (induction ws arbitrary: b) (auto intro!: errs_intros push_errs)

lemma head_length_errs: "errs final_error (head_length w)"
  unfolding head_length_def by (rule length_errs)

lemma render_length_errs: "errs final_error (render_fixed_command_length script args)"
  unfolding render_fixed_command_length_def by (intro errs_intros word_errs head_length_errs fold_raw_errs)

lemma render_text_errs: "errs final_error (render_fixed_command_text script args n)"
  unfolding render_fixed_command_text_def ensure_rendered_bound_def
  by (intro errs_intros word_errs head_length_errs fold_prepared_errs errs_collectR push_errs push_words_errs final_errors)

lemma root_relative_errs: "errs final_error (root_relative_one root path)"
  unfolding root_relative_one_def root_relative_bytes_def by (intro errs_intros final_errors)

lemma pin_indices_errs: "errs final_error (pin_indices root ks args)"
  by (induction ks arbitrary: args) (auto intro!: errs_intros root_relative_errs)

lemma pin_stride_errs: "errs final_error (pin_stride root stride args)"
  unfolding pin_stride_def by (intro errs_intros pin_indices_errs final_errors)

lemma prepare_command_errs:
  assumes "\<not> rpi_stdin_nul_paths (fr_rooted request)"
  shows "errs final_error (prepare_command limits request)"
proof -
  have "errs final_error (pin_fixed_inputs REMOTE_OPERATION_ROOT (fr_args request) (fr_stdin request) (fr_rooted request))"
    unfolding pin_fixed_inputs_def REMOTE_OPERATION_ROOT_def resolve_root bindR_simps if_not_P [OF assms]
    by (intro errs_intros pin_indices_errs pin_stride_errs)
  then show ?thesis unfolding prepare_command_def
    by (intro errs_intros errs_case_prod render_text_errs final_errors)
qed

lemma preflight_errs: "errs final_error (preflight_fixed limits request)"
  unfolding preflight_fixed_def by (intro errs_intros render_length_errs final_errors)

lemma before_send_errs:
  assumes "host_ready world" "set (fr_required request) \<subseteq> {''safe_write'', ''guarded_delete''}"
    "\<not> rpi_stdin_nul_paths (fr_rooted request)"
  shows "errs final_error (before_send limits world request)"
proof -
  from assms(1) obtain c mode where ready: "rw_alias world = Inr ()" "rw_admitted world = Inr ()"
    "rw_session world = Inr mode" "rw_deadline world = Inr ()" "rw_timeout world = Inr ()" "rw_response_timeout world = Inr ()"
    "rw_initialize world = Inr c"
    and tools: "cap_tools c ''safe_write'' = Some True" "cap_tools c ''guarded_delete'' = Some True"
    by (auto simp: host_ready_def)
  from tools assms(2) have "check_required c (fr_required request) = Inr ()" by (auto simp: check_required_Inr)
  then show ?thesis
    unfolding before_send_def ready bindR_simps Let_def
    by (simp only: map_err_simps bindR_simps)
      (intro errs_intros preflight_errs prepare_command_errs assms(3))
qed

lemma batch_request_errs: "errs (\<lambda>e. xe_kind e = Permanent) (batch_request script limits host items)"
proof -
  have bridge: "errs (\<lambda>e. xe_kind e = Permanent) (map_err map_bridge_error m)" for m :: "'x bridge_result"
    by (cases m) (simp_all add: errs_def map_bridge_error_def)
  have local: "xe_kind (sync_permanent m) = Permanent" for m by (simp add: sync_permanent_def)
  have item: "errs (\<lambda>e. xe_kind e = Permanent) (item_arguments h i n)" for h i n
    unfolding item_arguments_def Let_def
    by (cases "ci_desired i"; simp only: desired_state.case)
      (intro errs_intros errs_case_prod bridge local)+
  have loop: "errs (\<lambda>e. xe_kind e = Permanent) (arguments_loop h args n items)" for h args n items
    by (induction items arbitrary: args n) (auto intro!: errs_intros errs_case_prod item)
  have prepared: "errs (\<lambda>e. xe_kind e = Permanent) (prepare_batch items)"
    unfolding prepare_batch_def prepare_batch_arguments_def by (intro errs_intros errs_case_prod loop)
  have caps: "errs (\<lambda>e. xe_kind e = Permanent) (batch_capabilities items)"
    unfolding batch_capabilities_def
    by (cases "list_ex (\<lambda>i. is_present (ci_desired i)) items"; cases "list_ex (\<lambda>i. \<not> is_present (ci_desired i)) items";
        simp only: prod.case bool.case) (intro errs_intros local)+
  show ?thesis
    unfolding batch_request_def by (intro errs_intros errs_case_prod bridge local prepared caps)
qed

lemma batch_request_required:
  assumes "batch_request script limits host items = Inr request"
  shows "set (fr_required request) \<subseteq> {''safe_write'', ''guarded_delete''}"
proof -
  have "oks (\<lambda>caps. set caps \<subseteq> {''safe_write'', ''guarded_delete''}) (batch_capabilities items)"
    unfolding batch_capabilities_def
    by (cases "list_ex (\<lambda>i. is_present (ci_desired i)) items"; cases "list_ex (\<lambda>i. \<not> is_present (ci_desired i)) items";
        simp only: prod.case bool.case) (intro oks_intros, simp?)+
  then have "oks (\<lambda>r. set (fr_required r) \<subseteq> {''safe_write'', ''guarded_delete''}) (batch_request script limits host items)"
    unfolding batch_request_def by (intro oks_intros) (drule oksD, assumption, simp only: fixed_run_request.select_convs)
  from oksD [OF this assms] show ?thesis .
qed

text \<open>C37: the split of a batch sizes its parts before the paths are pinned, and pinning adds a byte for every file
  that is not directly below the root.  So a part that the split accepted, but whose size with
  these bytes is over the frame limit, is never sent: whatever the host is like, the commit of the part fails before
  anything is handed to the session, and on a host that is ready it fails for good.\<close>

theorem boundary_part_refused:
  assumes "partition_items script items (lim_max_frame_bytes limits) = Inr parts" "part \<in> set parts"
    and "list_all hash_sized items" and "batch_transport_bytes script part = Inr n"
    and "lim_max_frame_bytes limits < n + length (filter below_root part)"
  shows "n \<le> lim_max_frame_bytes limits \<and>
    (\<exists>e. commit_partition script limits (session_runner limits world) sent host part = (Inl e, sent) \<and>
       (host_ready (world sent) \<longrightarrow> xe_kind e = Permanent))"
proof -
  from partition_loop_ok [OF assms(1) [unfolded partition_items_def]] assms(2,4)
  have fits: "n \<le> lim_max_frame_bytes limits" and whole: "concat parts = items" by auto
  have hashed: "list_all hash_sized part"
    using assms(2,3) by (auto simp: whole [symmetric] list_all_iff)
  show ?thesis
  proof (cases "batch_request script limits host part")
    case (Inl e)
    with fits errsD [OF batch_request_errs Inl] show ?thesis by (simp add: commit_partition_def)
  next
    case (Inr request)
    from boundary_not_sent [OF Inr hashed assms(4,5)] obtain e where
      e: "execute_fixed_once limits (world sent) request = (Inl e, None)" "before_send limits (world sent) request = Inl e"
      by blast
    then have "commit_partition script limits (session_runner limits world) sent host part = (Inl (map_runner_error e), sent)"
      using Inr by (simp add: commit_partition_def session_runner_def batch_answer_def)
    moreover have "xe_kind (map_runner_error e) = Permanent" if "host_ready (world sent)"
      using errsD [OF before_send_errs [OF that batch_request_required [OF Inr]] e(2)] batch_request_fields [OF Inr]
      by (simp add: final_permanent)
    ultimately show ?thesis using fits by blast
  qed
qed

lemma boundary_part_refused_witness:
  "\<exists>e. commit_partition ''rm'' (frame_limits 68) (session_runner (frame_limits 68)
      (\<lambda>_. demo_world (Inr (demo_result 0)) (Inr empty_output))) [] ''h'' [demo_deletion ''/x/f''] = (Inl e, []) \<and>
    xe_kind e = Permanent"
proof -
  let ?limits = "frame_limits 68" and ?world = "\<lambda>_. demo_world (Inr (demo_result 0)) (Inr empty_output)"
  have limit: "lim_max_frame_bytes ?limits = 68" by (simp add: frame_limits_def)
  have parts: "partition_items ''rm'' [demo_deletion ''/x/f''] (lim_max_frame_bytes ?limits) = Inr [[demo_deletion ''/x/f'']]"
    unfolding limit by (rule demo_partition)
  have sized: "batch_transport_bytes ''rm'' [demo_deletion ''/x/f''] = Inr 68" by code_simp
  have below: "length (filter below_root [demo_deletion ''/x/f'']) = 1" by code_simp
  have ready: "host_ready (?world sent)" for sent
    by (simp add: host_ready_def demo_world_def sample_capability_def TOOL_NAMES_def)
  have over: "lim_max_frame_bytes ?limits < 68 + length (filter below_root [demo_deletion ''/x/f''])"
    unfolding limit below by simp
  from boundary_part_refused [OF parts list.set_intros(1) demo_deletion_sized sized over, of ?world "[]" "''h''"] ready
  show ?thesis by blast
qed

end
