(* ===== verification/Probe_Cache.thy ===== *)
theory Probe_Cache
  imports Capability
begin

text \<open>
  The cache of probed capabilities (\<open>CapabilityCache\<close> of \<open>src/capability.rs\<close>): at most one probe
  of a host runs at a time, callers that come meanwhile wait for it, and an invalidation starts
  over.  The \<open>Arc\<close>s are numbers in a store of cells and flights, so that \<open>Arc::ptr_eq\<close> is
  equality of numbers; the sections under the mutex are functions, and the callers, the probes and
  the drop of a caller's future are the steps that interleave them.
\<close>

section \<open>The cache\<close>

datatype flight_outcome = Outcome_Pending | Outcome_Sent "capability bridge_result" | Sender_Dropped

record probe_flight =
  pf_cell :: nat
  pf_outcome :: flight_outcome

record capability_cache =
  cc_entries :: "string \<rightharpoonup> nat"
  cc_in_flight :: "string \<rightharpoonup> nat"
  cc_cells :: "nat \<rightharpoonup> capability"
  cc_flights :: "nat \<rightharpoonup> probe_flight"
  cc_fresh :: nat

datatype cache_lookup = Lookup_Ready capability | Lookup_Leader nat | Lookup_Follower nat

definition empty_cache :: capability_cache where
  "empty_cache = \<lparr>cc_entries = Map.empty, cc_in_flight = Map.empty, cc_cells = Map.empty,
                  cc_flights = Map.empty, cc_fresh = 0\<rparr>"

definition cache_get :: "string \<Rightarrow> capability_cache \<Rightarrow> capability option" where
  "cache_get host s = Option.bind (cc_entries s host) (cc_cells s)"

text \<open>\<open>entry(host).or_insert_with\<close>.\<close>

definition ensure_cell :: "string \<Rightarrow> capability_cache \<Rightarrow> nat \<times> capability_cache" where
  "ensure_cell host s =
     (case cc_entries s host of
        Some cell \<Rightarrow> (cell, s)
      | None \<Rightarrow> (cc_fresh s, s\<lparr>cc_entries := (cc_entries s)(host \<mapsto> cc_fresh s), cc_fresh := Suc (cc_fresh s)\<rparr>))"

definition lookup_probe :: "string \<Rightarrow> capability_cache \<Rightarrow> cache_lookup \<times> capability_cache" where
  "lookup_probe host s =
     (let (cell, s1) = ensure_cell host s in
      case cc_cells s1 cell of
        Some c \<Rightarrow> (Lookup_Ready c, s1)
      | None \<Rightarrow>
          (case cc_in_flight s1 host of
             Some f \<Rightarrow> (Lookup_Follower f, s1)
           | None \<Rightarrow>
               (Lookup_Leader (cc_fresh s1),
                s1\<lparr>cc_flights := (cc_flights s1)(cc_fresh s1 \<mapsto> \<lparr>pf_cell = cell, pf_outcome = Outcome_Pending\<rparr>),
                   cc_in_flight := (cc_in_flight s1)(host \<mapsto> cc_fresh s1),
                   cc_fresh := Suc (cc_fresh s1)\<rparr>)))"

definition remove_generation :: "string \<Rightarrow> nat \<Rightarrow> bool \<Rightarrow> capability_cache \<Rightarrow> capability_cache" where
  "remove_generation host f remove_cell s =
     (let s1 = (if remove_cell \<and> cc_entries s host \<noteq> None \<and>
                   cc_entries s host = map_option pf_cell (cc_flights s f)
                then s\<lparr>cc_entries := (cc_entries s)(host := None)\<rparr> else s)
      in if cc_in_flight s1 host = Some f then s1\<lparr>cc_in_flight := (cc_in_flight s1)(host := None)\<rparr> else s1)"

definition invalidate_probe :: "string \<Rightarrow> capability_cache \<Rightarrow> bool \<times> capability_cache" where
  "invalidate_probe host s =
     (cc_entries s host \<noteq> None \<or> cc_in_flight s host \<noteq> None,
      s\<lparr>cc_entries := (cc_entries s)(host := None), cc_in_flight := (cc_in_flight s)(host := None)\<rparr>)"

text \<open>The leader stores a successful outcome (\<open>OnceCell::set\<close> keeps a value already there) and sends it.\<close>

definition store_outcome :: "nat \<Rightarrow> capability bridge_result \<Rightarrow> capability_cache \<Rightarrow> capability_cache" where
  "store_outcome f outcome s =
     (case (cc_flights s f, outcome) of
        (Some flight, Inr c) \<Rightarrow>
          if cc_cells s (pf_cell flight) = None then s\<lparr>cc_cells := (cc_cells s)(pf_cell flight \<mapsto> c)\<rparr> else s
      | _ \<Rightarrow> s)"

definition set_outcome :: "nat \<Rightarrow> flight_outcome \<Rightarrow> capability_cache \<Rightarrow> capability_cache" where
  "set_outcome f outcome s =
     s\<lparr>cc_flights := (cc_flights s)(f := map_option (\<lambda>fl. fl\<lparr>pf_outcome := outcome\<rparr>) (cc_flights s f))\<rparr>"

datatype probe_wait = Wait_Completed "capability bridge_result" | Wait_Abandoned

text \<open>What a follower's wait returns now; \<open>None\<close> while it has to go on waiting.\<close>

definition wait_for_probe :: "nat \<Rightarrow> capability_cache \<Rightarrow> probe_wait option" where
  "wait_for_probe f s =
     (case cc_flights s f of
        None \<Rightarrow> None
      | Some flight \<Rightarrow>
          (case pf_outcome flight of
             Outcome_Pending \<Rightarrow> None
           | Outcome_Sent outcome \<Rightarrow> Some (Wait_Completed outcome)
           | Sender_Dropped \<Rightarrow> Some Wait_Abandoned))"

section \<open>Callers and probes\<close>

text \<open>A leader probes, stores what it got, then leaves the table, then sends.\<close>

datatype leader_phase = Probing | Stored "capability bridge_result" | Removed "capability bridge_result"

text \<open>
  The last three fields are history: how often a host was invalidated, the host and that count when
  a flight began, and what its probe returned.
\<close>

record probe_system =
  pb_cache :: capability_cache
  pb_leaders :: "nat \<rightharpoonup> string \<times> leader_phase"
  pb_epoch :: "string \<Rightarrow> nat"
  pb_started :: "nat \<rightharpoonup> string \<times> nat"
  pb_answer :: "nat \<rightharpoonup> capability bridge_result"

definition initial_probes :: probe_system where
  "initial_probes = \<lparr>pb_cache = empty_cache, pb_leaders = Map.empty, pb_epoch = (\<lambda>_. 0),
                     pb_started = Map.empty, pb_answer = Map.empty\<rparr>"

inductive probe_step :: "probe_system \<Rightarrow> probe_system \<Rightarrow> bool" where
  probe_served: "lookup_probe host (pb_cache p) = (Lookup_Ready c, s) \<Longrightarrow> probe_step p (p\<lparr>pb_cache := s\<rparr>)"
| probe_joined: "lookup_probe host (pb_cache p) = (Lookup_Follower f, s) \<Longrightarrow> probe_step p (p\<lparr>pb_cache := s\<rparr>)"
| probe_begun: "lookup_probe host (pb_cache p) = (Lookup_Leader f, s) \<Longrightarrow>
    probe_step p (p\<lparr>pb_cache := s, pb_leaders := (pb_leaders p)(f \<mapsto> (host, Probing)),
      pb_started := (pb_started p)(f \<mapsto> (host, pb_epoch p host))\<rparr>)"
| probe_stored: "pb_leaders p f = Some (host, Probing) \<Longrightarrow>
    probe_step p (p\<lparr>pb_cache := store_outcome f outcome (pb_cache p),
      pb_leaders := (pb_leaders p)(f \<mapsto> (host, Stored outcome)),
      pb_answer := (pb_answer p)(f \<mapsto> outcome)\<rparr>)"
| probe_removed: "pb_leaders p f = Some (host, Stored outcome) \<Longrightarrow>
    probe_step p (p\<lparr>pb_cache := remove_generation host f (\<not> is_ok outcome) (pb_cache p),
      pb_leaders := (pb_leaders p)(f \<mapsto> (host, Removed outcome))\<rparr>)"
| probe_sent: "pb_leaders p f = Some (host, Removed outcome) \<Longrightarrow>
    probe_step p (p\<lparr>pb_cache := set_outcome f (Outcome_Sent outcome) (pb_cache p),
      pb_leaders := (pb_leaders p)(f := None)\<rparr>)"
| probe_dropped: "pb_leaders p f = Some (host, phase) \<Longrightarrow>
    probe_step p (p\<lparr>pb_cache := set_outcome f Sender_Dropped (pb_cache p),
      pb_leaders := (pb_leaders p)(f := None)\<rparr>)"
| probe_abandoned: "wait_for_probe f (pb_cache p) = Some Wait_Abandoned \<Longrightarrow>
    pb_started p f = Some (host, e) \<Longrightarrow>
    probe_step p (p\<lparr>pb_cache := remove_generation host f True (pb_cache p)\<rparr>)"
| probe_invalidated: "probe_step p (p\<lparr>pb_cache := snd (invalidate_probe host (pb_cache p)),
      pb_epoch := (pb_epoch p)(host := Suc (pb_epoch p host))\<rparr>)"

inductive probes_reachable :: "probe_system \<Rightarrow> bool" where
  probes_init: "probes_reachable initial_probes"
| probes_step: "probes_reachable p \<Longrightarrow> probe_step p q \<Longrightarrow> probes_reachable q"


section \<open>The invariant\<close>

text \<open>Numbers in use are below the fresh one, and a cell belongs to one host.\<close>

definition store_ok :: "capability_cache \<Rightarrow> bool" where
  "store_ok s \<longleftrightarrow>
     (\<forall>h c. cc_entries s h = Some c \<longrightarrow> c < cc_fresh s) \<and>
     (\<forall>c x. cc_cells s c = Some x \<longrightarrow> c < cc_fresh s) \<and>
     (\<forall>f fl. cc_flights s f = Some fl \<longrightarrow> f < cc_fresh s \<and> pf_cell fl < cc_fresh s) \<and>
     (\<forall>h g c. cc_entries s h = Some c \<and> cc_entries s g = Some c \<longrightarrow> h = g)"

text \<open>The history covers the flights, and a filled cell holds what a flight's probe returned.\<close>

definition history_ok :: "probe_system \<Rightarrow> bool" where
  "history_ok p \<longleftrightarrow>
     (\<forall>f. (pb_started p f = None) = (cc_flights (pb_cache p) f = None)) \<and>
     (\<forall>f. pb_answer p f \<noteq> None \<longrightarrow> cc_flights (pb_cache p) f \<noteq> None) \<and>
     (\<forall>f h. pb_leaders p f = Some (h, Probing) \<longrightarrow> pb_answer p f = None) \<and>
     (\<forall>c x. cc_cells (pb_cache p) c = Some x \<longrightarrow>
        (\<exists>f fl. cc_flights (pb_cache p) f = Some fl \<and> pf_cell fl = c \<and> pb_answer p f = Some (Inr x)))"

text \<open>A flight whose cell is in the table began after the last invalidation of its host.\<close>

definition current_ok :: "probe_system \<Rightarrow> bool" where
  "current_ok p \<longleftrightarrow>
     (\<forall>f fl h e. cc_flights (pb_cache p) f = Some fl \<and> pb_started p f = Some (h, e) \<longrightarrow>
        e \<le> pb_epoch p h \<and>
        (\<forall>g. cc_entries (pb_cache p) g = Some (pf_cell fl) \<longrightarrow> g = h \<and> e = pb_epoch p h) \<and>
        (\<forall>g. cc_in_flight (pb_cache p) g = Some f \<longrightarrow> g = h)) \<and>
     (\<forall>h f. cc_in_flight (pb_cache p) h = Some f \<longrightarrow> cc_flights (pb_cache p) f \<noteq> None)"

text \<open>A pending flight has its leader, and a running probe of the current count is in the table.\<close>

definition leader_ok :: "probe_system \<Rightarrow> nat \<Rightarrow> bool" where
  "leader_ok p f \<longleftrightarrow>
     (case pb_leaders p f of
        None \<Rightarrow> \<forall>fl h. cc_flights (pb_cache p) f = Some fl \<longrightarrow>
          pf_outcome fl \<noteq> Outcome_Pending \<and>
          (cc_in_flight (pb_cache p) h = Some f \<longrightarrow> pf_outcome fl = Sender_Dropped)
      | Some (h, phase) \<Rightarrow>
          (\<exists>fl e. cc_flights (pb_cache p) f = Some fl \<and> pf_outcome fl = Outcome_Pending \<and>
             pb_started p f = Some (h, e) \<and>
             (phase = Probing \<and> e = pb_epoch p h \<longrightarrow> cc_in_flight (pb_cache p) h = Some f)) \<and>
          (\<forall>r g. phase = Removed r \<longrightarrow> cc_in_flight (pb_cache p) g \<noteq> Some f))"

definition single_ok :: "probe_system \<Rightarrow> bool" where
  "single_ok p \<longleftrightarrow>
     (\<forall>f g h e. pb_leaders p f = Some (h, Probing) \<and> pb_leaders p g = Some (h, Probing) \<and>
        pb_started p f = Some (h, e) \<and> pb_started p g = Some (h, e) \<longrightarrow> f = g)"

definition probes_ok :: "probe_system \<Rightarrow> bool" where
  "probes_ok p \<longleftrightarrow> store_ok (pb_cache p) \<and> history_ok p \<and> current_ok p \<and> (\<forall>f. leader_ok p f) \<and> single_ok p"

lemma initial_probes_ok: "probes_ok initial_probes"
  by (simp add: probes_ok_def initial_probes_def empty_cache_def store_ok_def history_ok_def current_ok_def
      leader_ok_def single_ok_def)

text \<open>What the sections change.\<close>

lemma ensure_cell_eq:
  "ensure_cell host s = (cell, t) \<longleftrightarrow>
     cc_entries s host = Some cell \<and> t = s \<or>
     cc_entries s host = None \<and> cell = cc_fresh s \<and>
       t = s\<lparr>cc_entries := (cc_entries s)(host \<mapsto> cc_fresh s), cc_fresh := Suc (cc_fresh s)\<rparr>"
  by (auto simp: ensure_cell_def split: option.splits)

lemma flight_below:
  "store_ok s \<Longrightarrow> cc_flights s f = Some fl \<Longrightarrow> pf_cell fl \<noteq> cc_fresh s \<and> f \<noteq> cc_fresh s"
  unfolding store_ok_def by (metis less_irrefl)

lemma probes_ok_ensure:
  assumes "probes_ok p" "ensure_cell host (pb_cache p) = (cell, s)"
  shows "probes_ok (p\<lparr>pb_cache := s\<rparr>)"
proof (cases "s = pb_cache p")
  case False
  with assms(2) have s: "cc_entries (pb_cache p) host = None" "s = (pb_cache p)\<lparr>cc_entries :=
      (cc_entries (pb_cache p))(host \<mapsto> cc_fresh (pb_cache p)), cc_fresh := Suc (cc_fresh (pb_cache p))\<rparr>"
    unfolding ensure_cell_eq by auto
  have store: "store_ok s"
    using assms(1) unfolding probes_ok_def store_ok_def s by (auto simp: less_Suc_eq)
  have cell: "pf_cell fl \<noteq> cc_fresh (pb_cache p)" if "cc_flights (pb_cache p) f = Some fl" for f fl
    using assms(1) that flight_below unfolding probes_ok_def by blast
  have "current_ok (p\<lparr>pb_cache := s\<rparr>)"
    using assms(1) cell unfolding probes_ok_def by (simp add: current_ok_def s) metis
  moreover have "history_ok (p\<lparr>pb_cache := s\<rparr>)"
    using assms(1) unfolding probes_ok_def by (simp add: history_ok_def s)
  moreover have "single_ok (p\<lparr>pb_cache := s\<rparr>)"
    using assms(1) unfolding probes_ok_def by (simp add: single_ok_def s)
  moreover have "leader_ok (p\<lparr>pb_cache := s\<rparr>) f = leader_ok p f" for f
    by (simp add: leader_ok_def s split: option.split)
  with assms(1) have "\<forall>f. leader_ok (p\<lparr>pb_cache := s\<rparr>) f" by (simp add: probes_ok_def)
  ultimately show ?thesis using store by (simp add: probes_ok_def)
qed (use assms(1) in simp)


text \<open>Entries that leave the two tables.\<close>

definition shrinks :: "capability_cache \<Rightarrow> capability_cache \<Rightarrow> bool" where
  "shrinks s t \<longleftrightarrow>
     cc_cells t = cc_cells s \<and> cc_flights t = cc_flights s \<and> cc_fresh t = cc_fresh s \<and>
     (\<forall>h c. cc_entries t h = Some c \<longrightarrow> cc_entries s h = Some c) \<and>
     (\<forall>h f. cc_in_flight t h = Some f \<longrightarrow> cc_in_flight s h = Some f)"

lemma remove_generation_shrinks: "shrinks s (remove_generation host f b s)"
  by (auto simp: remove_generation_def shrinks_def Let_def split: if_splits)

lemma remove_generation_in_flight:
  "cc_in_flight (remove_generation host f b s) h =
     (if h = host \<and> cc_in_flight s h = Some f then None else cc_in_flight s h)"
  by (auto simp: remove_generation_def Let_def)

lemma probes_ok_shrink:
  assumes "probes_ok p" "shrinks (pb_cache p) s"
    and "\<And>f h. pb_leaders p f = Some (h, Probing) \<Longrightarrow> pb_started p f = Some (h, pb_epoch p h) \<Longrightarrow>
      cc_in_flight s h = cc_in_flight (pb_cache p) h"
  shows "probes_ok (p\<lparr>pb_cache := s\<rparr>)"
proof -
  note sh = assms(2) [unfolded shrinks_def]
  have same: "cc_cells s = cc_cells (pb_cache p)" "cc_flights s = cc_flights (pb_cache p)"
    "cc_fresh s = cc_fresh (pb_cache p)" using sh by simp_all
  have store: "store_ok s"
    using assms(1) sh unfolding probes_ok_def store_ok_def same by blast
  moreover have "history_ok (p\<lparr>pb_cache := s\<rparr>)" "single_ok (p\<lparr>pb_cache := s\<rparr>)"
    using assms(1) by (simp_all add: probes_ok_def history_ok_def single_ok_def same)
  moreover have "current_ok (p\<lparr>pb_cache := s\<rparr>)"
    using assms(1) sh unfolding probes_ok_def by (simp add: current_ok_def same) metis
  moreover have "leader_ok (p\<lparr>pb_cache := s\<rparr>) f" if old: "leader_ok p f" for f
  proof (cases "pb_leaders p f")
    case None
    with old sh show ?thesis by (simp add: leader_ok_def same) blast
  next
    case (Some x)
    obtain h phase where x: "x = (h, phase)" by force
    from old obtain fl e where fl: "cc_flights (pb_cache p) f = Some fl" "pf_outcome fl = Outcome_Pending"
      "pb_started p f = Some (h, e)" "phase = Probing \<and> e = pb_epoch p h \<longrightarrow> cc_in_flight (pb_cache p) h = Some f"
      and gone: "\<And>r g. phase = Removed r \<Longrightarrow> cc_in_flight (pb_cache p) g \<noteq> Some f"
      by (auto simp: leader_ok_def Some x)
    from assms(3) [of f h] fl Some x have "phase = Probing \<and> e = pb_epoch p h \<longrightarrow> cc_in_flight s h = Some f" by auto
    moreover from gone sh have "cc_in_flight s g \<noteq> Some f" if "phase = Removed r" for r g using that by blast
    ultimately show ?thesis using fl by (auto simp: leader_ok_def Some x same)
  qed
  ultimately show ?thesis using assms(1) by (simp add: probes_ok_def)
qed

lemma probes_ok_begin:
  assumes "probes_ok p" "cc_entries (pb_cache p) host = Some cell" "cc_in_flight (pb_cache p) host = None"
    and "f = cc_fresh (pb_cache p)"
    and "s = (pb_cache p)\<lparr>cc_flights := (cc_flights (pb_cache p))(f \<mapsto> \<lparr>pf_cell = cell, pf_outcome = Outcome_Pending\<rparr>),
      cc_in_flight := (cc_in_flight (pb_cache p))(host \<mapsto> f), cc_fresh := Suc f\<rparr>"
  shows "probes_ok (p\<lparr>pb_cache := s, pb_leaders := (pb_leaders p)(f \<mapsto> (host, Probing)),
      pb_started := (pb_started p)(f \<mapsto> (host, pb_epoch p host))\<rparr>)"
proof -
  let ?c = "pb_cache p"
  let ?q = "p\<lparr>pb_cache := s, pb_leaders := (pb_leaders p)(f \<mapsto> (host, Probing)),
      pb_started := (pb_started p)(f \<mapsto> (host, pb_epoch p host))\<rparr>"
  have ok: "store_ok ?c" "history_ok p" "current_ok p" "leader_ok p g" "single_ok p" for g
    using assms(1) by (simp_all add: probes_ok_def)
  have new: "cc_flights ?c f = None" using flight_below [OF ok(1)] assms(4) by (cases "cc_flights ?c f") auto
  have fresh: "pb_started p f = None" "pb_answer p f = None"
    using ok(2) new unfolding history_ok_def by auto
  have unused: "cc_in_flight ?c g \<noteq> Some f" for g using ok(3) new unfolding current_ok_def by blast
  have store: "store_ok s"
    using ok(1) assms(2,4) unfolding store_ok_def assms(5) by (auto simp: less_Suc_eq)
  have filled: "\<exists>g gl. cc_flights s g = Some gl \<and> pf_cell gl = c \<and> pb_answer p g = Some (Inr x)"
    if "cc_cells ?c c = Some x" for c x
  proof -
    from that ok(2) obtain g gl where g: "cc_flights ?c g = Some gl" "pf_cell gl = c" "pb_answer p g = Some (Inr x)"
      unfolding history_ok_def by blast
    moreover from g(1) new have "g \<noteq> f" by auto
    ultimately show ?thesis by (simp add: assms(5)) blast
  qed
  have flights: "cc_flights s = (cc_flights ?c)(f \<mapsto> \<lparr>pf_cell = cell, pf_outcome = Outcome_Pending\<rparr>)"
    "cc_cells s = cc_cells ?c" "cc_entries s = cc_entries ?c" "cc_in_flight s = (cc_in_flight ?c)(host \<mapsto> f)"
    by (simp_all add: assms(5))
  have history: "history_ok ?q"
    unfolding history_ok_def
  proof (intro conjI allI impI)
    show "(pb_started ?q g = None) = (cc_flights (pb_cache ?q) g = None)" for g
      using ok(2) by (simp add: history_ok_def flights)
    show "cc_flights (pb_cache ?q) g \<noteq> None" if "pb_answer ?q g \<noteq> None" for g
      using ok(2) that by (simp add: history_ok_def flights del: not_None_eq)
    show "pb_answer ?q g = None" if "pb_leaders ?q g = Some (h, Probing)" for g h
      using ok(2) that fresh by (auto simp: history_ok_def split: if_splits)
    show "\<exists>g gl. cc_flights (pb_cache ?q) g = Some gl \<and> pf_cell gl = c \<and> pb_answer ?q g = Some (Inr x)"
      if "cc_cells (pb_cache ?q) c = Some x" for c x
      using filled [of c x] that by (simp add: flights(2))
  qed
  have owner: "g = host" if "cc_entries ?c g = Some cell" for g
    using ok(1) that assms(2) unfolding store_ok_def by blast
  have current: "current_ok ?q"
    unfolding current_ok_def
  proof (intro conjI allI impI; (elim conjE)?)
    fix g gl h e assume g: "cc_flights (pb_cache ?q) g = Some gl" "pb_started ?q g = Some (h, e)"
    have old: "cc_flights ?c g = Some gl \<and> pb_started p g = Some (h, e)" if "g \<noteq> f" using g that by (simp add: flights)
    show "e \<le> pb_epoch ?q h" using g ok(3) old by (cases "g = f") (auto simp: current_ok_def)
    show "k = h" if "cc_entries (pb_cache ?q) k = Some (pf_cell gl)" for k
      using that g ok(3) old owner by (cases "g = f") (auto simp: current_ok_def flights)
    show "e = pb_epoch ?q h" if "cc_entries (pb_cache ?q) k = Some (pf_cell gl)" for k
      using that g ok(3) old by (cases "g = f") (auto simp: current_ok_def flights)
    show "k = h" if "cc_in_flight (pb_cache ?q) k = Some g" for k
      using that g ok(3) old unused by (cases "g = f") (auto simp: current_ok_def flights split: if_splits)
  next
    fix h g assume "cc_in_flight (pb_cache ?q) h = Some g"
    with ok(3) show "cc_flights (pb_cache ?q) g \<noteq> None"
      by (auto simp: current_ok_def flights split: if_splits)
  qed
  have leader: "leader_ok ?q g" for g
  proof (cases "g = f")
    case True
    then show ?thesis by (simp add: leader_ok_def assms(5))
  next
    case False
    show ?thesis
    proof (cases "pb_leaders p g")
      case None
      with ok(4) [of g] False show ?thesis by (auto simp: leader_ok_def assms(5))
    next
      case (Some x)
      obtain h phase where x: "x = (h, phase)" by force
      with Some ok(4) [of g] False assms(3) show ?thesis by (auto simp: leader_ok_def assms(5))
    qed
  qed
  have "pb_epoch p host \<noteq> e" if "pb_leaders p g = Some (host, Probing)" "pb_started p g = Some (host, e)" for g e
    using ok(4) [of g] that assms(3) by (auto simp: leader_ok_def)
  then have single: "single_ok ?q"
    using ok(5) fresh unfolding single_ok_def by auto
  show ?thesis using store history current leader single by (simp add: probes_ok_def)
qed


text \<open>A leader that moves on.\<close>

lemma probes_okD:
  assumes "probes_ok p"
  shows "store_ok (pb_cache p)" "history_ok p" "current_ok p" "leader_ok p f" "single_ok p"
  using assms by (simp_all add: probes_ok_def)

lemma probing_leader:
  assumes "probes_ok p" "pb_leaders p f = Some (h, phase)"
  shows "\<exists>fl e. cc_flights (pb_cache p) f = Some fl \<and> pf_outcome fl = Outcome_Pending \<and>
    pb_started p f = Some (h, e) \<and> (phase = Probing \<and> e = pb_epoch p h \<longrightarrow> cc_in_flight (pb_cache p) h = Some f)"
  using probes_okD(4) [OF assms(1), of f] assms(2) by (simp add: leader_ok_def)

lemma probes_ok_phase:
  assumes "probes_ok p" "pb_leaders p f = Some (host, old)" "phase \<noteq> Probing"
    and "\<And>r g. phase = Removed r \<Longrightarrow> cc_in_flight (pb_cache p) g \<noteq> Some f"
  shows "probes_ok (p\<lparr>pb_leaders := (pb_leaders p)(f \<mapsto> (host, phase))\<rparr>)"
proof -
  let ?q = "p\<lparr>pb_leaders := (pb_leaders p)(f \<mapsto> (host, phase))\<rparr>"
  have "history_ok ?q" using probes_okD(2) [OF assms(1)] assms(3) by (simp add: history_ok_def)
  moreover have "single_ok ?q" using probes_okD(5) [OF assms(1)] assms(3) by (simp add: single_ok_def)
  moreover have "current_ok ?q" using probes_okD(3) [OF assms(1)] by (simp add: current_ok_def)
  moreover have "leader_ok ?q g" for g
  proof (cases "g = f")
    case True
    with probing_leader [OF assms(1,2)] assms(3,4) show ?thesis by (auto simp: leader_ok_def)
  next
    case False
    with probes_okD(4) [OF assms(1), of g] show ?thesis
      by (simp add: leader_ok_def split: option.splits prod.splits)
  qed
  ultimately show ?thesis using probes_okD(1) [OF assms(1)] by (simp add: probes_ok_def)
qed

lemma probes_ok_answer:
  assumes "probes_ok p" "pb_leaders p f = Some (host, Stored outcome)" "pb_answer p f = None"
  shows "probes_ok (p\<lparr>pb_cache := store_outcome f outcome (pb_cache p), pb_answer := (pb_answer p)(f \<mapsto> outcome)\<rparr>)"
proof -
  let ?c = "store_outcome f outcome (pb_cache p)"
  let ?q = "p\<lparr>pb_cache := ?c, pb_answer := (pb_answer p)(f \<mapsto> outcome)\<rparr>"
  obtain fl e where fl: "cc_flights (pb_cache p) f = Some fl" using probing_leader [OF assms(1,2)] by blast
  have same: "cc_entries ?c = cc_entries (pb_cache p)" "cc_in_flight ?c = cc_in_flight (pb_cache p)"
    "cc_flights ?c = cc_flights (pb_cache p)" "cc_fresh ?c = cc_fresh (pb_cache p)"
    by (auto simp: store_outcome_def split: option.splits sum.splits)
  have cells: "cc_cells ?c c = Some x \<Longrightarrow>
      cc_cells (pb_cache p) c = Some x \<or> c = pf_cell fl \<and> outcome = Inr x" for c x
    by (auto simp: store_outcome_def fl split: sum.splits if_splits)
  have "store_ok ?c"
    using probes_okD(1) [OF assms(1)] cells fl unfolding store_ok_def same by blast
  moreover have "\<exists>g gl. cc_flights (pb_cache p) g = Some gl \<and> pf_cell gl = c \<and>
      ((pb_answer p)(f \<mapsto> outcome)) g = Some (Inr x)" if new: "cc_cells ?c c = Some x" for c x
  proof (cases "cc_cells (pb_cache p) c = Some x")
    case True
    with probes_okD(2) [OF assms(1)] obtain g gl where
      "cc_flights (pb_cache p) g = Some gl" "pf_cell gl = c" "pb_answer p g = Some (Inr x)"
      unfolding history_ok_def by blast
    moreover from this(3) assms(3) have "g \<noteq> f" by auto
    ultimately show ?thesis by auto
  next
    case False
    with cells [OF new] fl show ?thesis by auto
  qed
  then have "history_ok ?q"
    using probes_okD(2) [OF assms(1)] fl assms(2) by (auto simp: history_ok_def same)
  moreover have "current_ok ?q" using probes_okD(3) [OF assms(1)] by (simp add: current_ok_def same)
  moreover have "single_ok ?q" using probes_okD(5) [OF assms(1)] by (simp add: single_ok_def)
  moreover have "leader_ok ?q g = leader_ok p g" for g by (simp add: leader_ok_def same split: option.split)
  ultimately show ?thesis using probes_okD(4) [OF assms(1)] by (simp add: probes_ok_def)
qed

lemma probes_ok_end:
  assumes "probes_ok p" "pb_leaders p f = Some (host, phase)" "outcome \<noteq> Outcome_Pending"
    and "outcome \<noteq> Sender_Dropped \<Longrightarrow> \<exists>r. phase = Removed r"
  shows "probes_ok (p\<lparr>pb_cache := set_outcome f outcome (pb_cache p), pb_leaders := (pb_leaders p)(f := None)\<rparr>)"
proof -
  let ?c = "set_outcome f outcome (pb_cache p)"
  let ?q = "p\<lparr>pb_cache := ?c, pb_leaders := (pb_leaders p)(f := None)\<rparr>"
  obtain fl where fl: "cc_flights (pb_cache p) f = Some fl" using probing_leader [OF assms(1,2)] by blast
  have same: "cc_entries ?c = cc_entries (pb_cache p)" "cc_in_flight ?c = cc_in_flight (pb_cache p)"
    "cc_cells ?c = cc_cells (pb_cache p)" "cc_fresh ?c = cc_fresh (pb_cache p)" by (simp_all add: set_outcome_def)
  have flights: "cc_flights ?c g = map_option (\<lambda>x. if g = f then x\<lparr>pf_outcome := outcome\<rparr> else x) (cc_flights (pb_cache p) g)" for g
    by (cases "cc_flights (pb_cache p) g") (auto simp: set_outcome_def)
  have none: "(cc_flights ?c g = None) = (cc_flights (pb_cache p) g = None)" for g by (simp add: flights)
  have cell: "(\<exists>gl. cc_flights ?c g = Some gl \<and> pf_cell gl = k) = (\<exists>gl. cc_flights (pb_cache p) g = Some gl \<and> pf_cell gl = k)" for g k
    by (cases "g = f") (auto simp: flights)
  have "store_ok ?c" using probes_okD(1) [OF assms(1)] by (auto simp: store_ok_def same flights)
  moreover have "history_ok ?q" using probes_okD(2) [OF assms(1)] cell by (simp add: history_ok_def same none) metis
  moreover have "current_ok ?q" using probes_okD(3) [OF assms(1)]
    by (auto simp: current_ok_def same flights)
  moreover have "single_ok ?q" using probes_okD(5) [OF assms(1)] by (simp add: single_ok_def)
  moreover have "leader_ok ?q g" for g
  proof (cases "g = f")
    case True
    have "outcome = Sender_Dropped \<or> (\<exists>r. phase = Removed r)" using assms(4) by blast
    with probes_okD(4) [OF assms(1), of f] assms(2,3) True show ?thesis by (auto simp: leader_ok_def same flights)
  next
    case False
    with probes_okD(4) [OF assms(1), of g] show ?thesis
      by (auto simp: leader_ok_def same flights split: option.splits)
  qed
  ultimately show ?thesis by (simp add: probes_ok_def)
qed


lemma probes_ok_invalidate:
  assumes "probes_ok p"
  shows "probes_ok (p\<lparr>pb_cache := snd (invalidate_probe host (pb_cache p)),
      pb_epoch := (pb_epoch p)(host := Suc (pb_epoch p host))\<rparr>)"
proof -
  let ?c = "snd (invalidate_probe host (pb_cache p))"
  let ?q = "p\<lparr>pb_cache := ?c, pb_epoch := (pb_epoch p)(host := Suc (pb_epoch p host))\<rparr>"
  have tables: "cc_entries ?c = (cc_entries (pb_cache p))(host := None)"
    "cc_in_flight ?c = (cc_in_flight (pb_cache p))(host := None)" "cc_cells ?c = cc_cells (pb_cache p)"
    "cc_flights ?c = cc_flights (pb_cache p)" "cc_fresh ?c = cc_fresh (pb_cache p)"
    by (simp_all add: invalidate_probe_def)
  have "store_ok ?c"
    using probes_okD(1) [OF assms] by (simp add: store_ok_def tables)
  moreover have "history_ok ?q" using probes_okD(2) [OF assms] by (simp add: history_ok_def tables)
  moreover have "single_ok ?q" using probes_okD(5) [OF assms] by (simp add: single_ok_def)
  moreover have "current_ok ?q"
    unfolding current_ok_def
  proof (intro conjI allI impI; (elim conjE)?)
    fix f fl h e assume f: "cc_flights (pb_cache ?q) f = Some fl" "pb_started ?q f = Some (h, e)"
    with probes_okD(3) [OF assms] have old: "e \<le> pb_epoch p h"
      "\<And>g. cc_entries (pb_cache p) g = Some (pf_cell fl) \<Longrightarrow> g = h \<and> e = pb_epoch p h"
      "\<And>g. cc_in_flight (pb_cache p) g = Some f \<Longrightarrow> g = h" by (simp_all add: current_ok_def tables)
    show "e \<le> pb_epoch ?q h" using old(1) by auto
    show "g = h" if "cc_entries (pb_cache ?q) g = Some (pf_cell fl)" for g
      using that old(2) by (simp add: tables split: if_splits)
    show "e = pb_epoch ?q h" if "cc_entries (pb_cache ?q) g = Some (pf_cell fl)" for g
      using that old(2) [of g] by (auto simp: tables split: if_splits)
    show "g = h" if "cc_in_flight (pb_cache ?q) g = Some f" for g
      using that old(3) by (simp add: tables split: if_splits)
  next
    fix h f assume "cc_in_flight (pb_cache ?q) h = Some f"
    with probes_okD(3) [OF assms] show "cc_flights (pb_cache ?q) f \<noteq> None"
      by (auto simp: current_ok_def tables split: if_splits)
  qed
  moreover have "leader_ok ?q f" for f
  proof (cases "pb_leaders p f")
    case None
    with probes_okD(4) [OF assms, of f] show ?thesis by (auto simp: leader_ok_def tables)
  next
    case (Some x)
    obtain h phase where x: "x = (h, phase)" by force
    from probing_leader [OF assms Some [unfolded x]] obtain fl e where
      fl: "cc_flights (pb_cache p) f = Some fl" "pf_outcome fl = Outcome_Pending" "pb_started p f = Some (h, e)"
      "phase = Probing \<and> e = pb_epoch p h \<longrightarrow> cc_in_flight (pb_cache p) h = Some f" by blast
    have "e \<le> pb_epoch p h" using probes_okD(3) [OF assms] fl by (simp add: current_ok_def)
    with fl probes_okD(4) [OF assms, of f] Some x show ?thesis by (auto simp: leader_ok_def tables)
  qed
  ultimately show ?thesis by (simp add: probes_ok_def)
qed

lemma probes_ok_removed:
  assumes "probes_ok p" "pb_leaders p f = Some (host, Stored outcome)"
  shows "probes_ok (p\<lparr>pb_cache := remove_generation host f b (pb_cache p),
      pb_leaders := (pb_leaders p)(f \<mapsto> (host, Removed outcome))\<rparr>)"
proof -
  let ?q = "p\<lparr>pb_cache := remove_generation host f b (pb_cache p)\<rparr>"
  have q: "probes_ok ?q"
  proof (rule probes_ok_shrink [OF assms(1) remove_generation_shrinks])
    fix g h assume "pb_leaders p g = Some (h, Probing)" "pb_started p g = Some (h, pb_epoch p h)"
    with probing_leader [OF assms(1), of g h Probing] assms(2)
    show "cc_in_flight (remove_generation host f b (pb_cache p)) h = cc_in_flight (pb_cache p) h"
      by (auto simp: remove_generation_in_flight)
  qed
  from probing_leader [OF assms] obtain fl e where
    "cc_flights (pb_cache p) f = Some fl" "pb_started p f = Some (host, e)" by blast
  with probes_okD(3) [OF assms(1)] have "cc_in_flight (pb_cache p) g = Some f \<Longrightarrow> g = host" for g
    by (auto simp: current_ok_def)
  then have "cc_in_flight (pb_cache ?q) g \<noteq> Some f" for g
    by (auto simp: remove_generation_in_flight)
  with probes_ok_phase [OF q, of f host "Stored outcome" "Removed outcome"] assms(2) show ?thesis by simp
qed

lemma probes_ok_abandoned:
  assumes "probes_ok p" "wait_for_probe f (pb_cache p) = Some Wait_Abandoned"
  shows "probes_ok (p\<lparr>pb_cache := remove_generation host f b (pb_cache p)\<rparr>)"
proof (rule probes_ok_shrink [OF assms(1) remove_generation_shrinks])
  fix g h assume g: "pb_leaders p g = Some (h, Probing)" "pb_started p g = Some (h, pb_epoch p h)"
  from probing_leader [OF assms(1) g(1)] g(2) obtain fl where
    "cc_flights (pb_cache p) g = Some fl" "pf_outcome fl = Outcome_Pending" "cc_in_flight (pb_cache p) h = Some g" by auto
  with assms(2) have "cc_in_flight (pb_cache p) h \<noteq> Some f" by (auto simp: wait_for_probe_def)
  then show "cc_in_flight (remove_generation host f b (pb_cache p)) h = cc_in_flight (pb_cache p) h"
    by (auto simp: remove_generation_in_flight)
qed

lemma lookup_probe_cases:
  assumes "lookup_probe host s = (answer, t)" "ensure_cell host s = (cell, u)"
  shows "case answer of
      Lookup_Leader f \<Rightarrow> cc_cells u cell = None \<and> cc_in_flight u host = None \<and> f = cc_fresh u \<and>
        t = u\<lparr>cc_flights := (cc_flights u)(f \<mapsto> \<lparr>pf_cell = cell, pf_outcome = Outcome_Pending\<rparr>),
              cc_in_flight := (cc_in_flight u)(host \<mapsto> f), cc_fresh := Suc f\<rparr>
    | Lookup_Follower f \<Rightarrow> cc_in_flight u host = Some f \<and> t = u
    | Lookup_Ready c \<Rightarrow> cc_cells u cell = Some c \<and> t = u"
  using assms by (auto simp: lookup_probe_def Let_def split: option.splits prod.splits)

lemma probe_step_ok:
  assumes "probe_step p q" "probes_ok p"
  shows "probes_ok q"
  using assms(1)
proof cases
  case (probe_served host c s)
  obtain cell u where u: "ensure_cell host (pb_cache p) = (cell, u)" by force
  from lookup_probe_cases [OF probe_served(2) u] probes_ok_ensure [OF assms(2) u] probe_served(1) show ?thesis by simp
next
  case (probe_joined host f s)
  obtain cell u where u: "ensure_cell host (pb_cache p) = (cell, u)" by force
  from lookup_probe_cases [OF probe_joined(2) u] probes_ok_ensure [OF assms(2) u] probe_joined(1) show ?thesis by simp
next
  case (probe_begun host f s)
  obtain cell u where u: "ensure_cell host (pb_cache p) = (cell, u)" by force
  have entry: "cc_entries u host = Some cell" using u by (auto simp: ensure_cell_eq)
  from lookup_probe_cases [OF probe_begun(2) u] have s: "cc_in_flight u host = None" "f = cc_fresh u"
    "s = u\<lparr>cc_flights := (cc_flights u)(f \<mapsto> \<lparr>pf_cell = cell, pf_outcome = Outcome_Pending\<rparr>),
           cc_in_flight := (cc_in_flight u)(host \<mapsto> f), cc_fresh := Suc f\<rparr>" by simp_all
  have "probes_ok ((p\<lparr>pb_cache := u\<rparr>)\<lparr>pb_cache := s, pb_leaders := (pb_leaders (p\<lparr>pb_cache := u\<rparr>))(f \<mapsto> (host, Probing)),
      pb_started := (pb_started (p\<lparr>pb_cache := u\<rparr>))(f \<mapsto> (host, pb_epoch (p\<lparr>pb_cache := u\<rparr>) host))\<rparr>)"
    by (rule probes_ok_begin [OF probes_ok_ensure [OF assms(2) u], of _ cell]) (simp_all add: entry s)
  with probe_begun(1) show ?thesis by simp
next
  case (probe_stored f host outcome)
  have "probes_ok (p\<lparr>pb_leaders := (pb_leaders p)(f \<mapsto> (host, Stored outcome))\<rparr>)"
    by (rule probes_ok_phase [OF assms(2) probe_stored(2)]) simp_all
  from probes_ok_answer [OF this, of f host outcome] probes_okD(2) [OF assms(2)] probe_stored(2)
  have "probes_ok ((p\<lparr>pb_leaders := (pb_leaders p)(f \<mapsto> (host, Stored outcome))\<rparr>)
      \<lparr>pb_cache := store_outcome f outcome (pb_cache p), pb_answer := (pb_answer p)(f \<mapsto> outcome)\<rparr>)"
    by (auto simp: history_ok_def)
  also have "(p\<lparr>pb_leaders := (pb_leaders p)(f \<mapsto> (host, Stored outcome))\<rparr>)
      \<lparr>pb_cache := store_outcome f outcome (pb_cache p), pb_answer := (pb_answer p)(f \<mapsto> outcome)\<rparr> = q"
    unfolding probe_stored(1) by (rule probe_system.equality) simp_all
  finally show ?thesis .
next
  case (probe_removed f host outcome)
  with probes_ok_removed [OF assms(2) probe_removed(2)] show ?thesis by simp
next
  case (probe_sent f host outcome)
  with probes_ok_end [OF assms(2) probe_sent(2)] show ?thesis by simp
next
  case (probe_dropped f host phase)
  with probes_ok_end [OF assms(2) probe_dropped(2), of Sender_Dropped] show ?thesis by simp
next
  case (probe_abandoned f host e)
  with probes_ok_abandoned [OF assms(2)] show ?thesis by simp
next
  case (probe_invalidated host)
  with probes_ok_invalidate [OF assms(2)] show ?thesis by simp
qed

lemma probes_reachable_ok: "probes_reachable p \<Longrightarrow> probes_ok p"
  by (induction rule: probes_reachable.induct) (auto intro: initial_probes_ok probe_step_ok)


section \<open>A run\<close>

definition demo_begun :: probe_system where
  "demo_begun =
     initial_probes\<lparr>pb_cache := snd (lookup_probe ''h'' empty_cache), pb_leaders := [1 \<mapsto> (''h'', Probing)],
       pb_started := [1 \<mapsto> (''h'', 0)]\<rparr>"

lemma demo_lookup: "lookup_probe ''h'' empty_cache = (Lookup_Leader 1, snd (lookup_probe ''h'' empty_cache))"
  by (simp add: lookup_probe_def ensure_cell_def empty_cache_def)

lemma demo_begun_reachable: "probes_reachable demo_begun"
  using probes_step [OF probes_init probe_begun [of "''h''" initial_probes 1]] demo_lookup
  by (simp add: initial_probes_def demo_begun_def)

definition demo_stored :: probe_system where
  "demo_stored =
     demo_begun\<lparr>pb_cache := store_outcome 1 (Inr sample_capability) (pb_cache demo_begun),
       pb_leaders := [1 \<mapsto> (''h'', Stored (Inr sample_capability))], pb_answer := [1 \<mapsto> Inr sample_capability]\<rparr>"

lemma demo_stored_reachable: "probes_reachable demo_stored"
  using probes_step [OF demo_begun_reachable probe_stored [of demo_begun 1 "''h''" "Inr sample_capability"]]
  by (simp add: demo_stored_def) (simp add: demo_begun_def initial_probes_def)

definition demo_dead :: probe_system where
  "demo_dead =
     demo_begun\<lparr>pb_cache := set_outcome 1 Sender_Dropped (pb_cache demo_begun), pb_leaders := Map.empty\<rparr>"

lemma demo_dead_reachable: "probes_reachable demo_dead"
  using probes_step [OF demo_begun_reachable probe_dropped [of demo_begun 1 "''h''" Probing]]
  by (simp add: demo_dead_def) (simp add: demo_begun_def initial_probes_def)

text \<open>A second probe of the host after an invalidation, while the first still runs.\<close>

definition demo_invalidated :: probe_system where
  "demo_invalidated =
     demo_begun\<lparr>pb_cache := snd (invalidate_probe ''h'' (pb_cache demo_begun)), pb_epoch := (\<lambda>_. 0)(''h'' := 1)\<rparr>"

lemma demo_invalidated_reachable: "probes_reachable demo_invalidated"
  using probes_step [OF demo_begun_reachable probe_invalidated [of demo_begun "''h''"]]
  by (simp add: demo_invalidated_def) (simp add: demo_begun_def initial_probes_def)

definition demo_twice :: probe_system where
  "demo_twice =
     demo_invalidated\<lparr>pb_cache := snd (lookup_probe ''h'' (pb_cache demo_invalidated)),
       pb_leaders := [1 \<mapsto> (''h'', Probing), 3 \<mapsto> (''h'', Probing)],
       pb_started := [1 \<mapsto> (''h'', 0), 3 \<mapsto> (''h'', 1)]\<rparr>"

lemma demo_twice_reachable: "probes_reachable demo_twice"
proof -
  have "lookup_probe ''h'' (pb_cache demo_invalidated) =
      (Lookup_Leader 3, snd (lookup_probe ''h'' (pb_cache demo_invalidated)))"
    by (simp add: lookup_probe_def ensure_cell_def empty_cache_def demo_invalidated_def demo_begun_def
        invalidate_probe_def)
  from probes_step [OF demo_invalidated_reachable probe_begun [OF this]] show ?thesis
    by (simp add: demo_twice_def) (simp add: demo_invalidated_def demo_begun_def)
qed

section \<open>Properties\<close>

text \<open>C35: a capability in the cache is the answer of a probe of that host that began after the last
  invalidation of the host, in any interleaving of callers, probes, aborted probes and invalidations.\<close>

theorem cached_capability_fresh:
  assumes "probes_reachable p" "cache_get host (pb_cache p) = Some c"
  shows "\<exists>f. pb_started p f = Some (host, pb_epoch p host) \<and> pb_answer p f = Some (Inr c)"
proof -
  note ok = probes_reachable_ok [OF assms(1)]
  from assms(2) obtain cell where cell: "cc_entries (pb_cache p) host = Some cell" "cc_cells (pb_cache p) cell = Some c"
    by (auto simp: cache_get_def bind_eq_Some_conv)
  from cell(2) probes_okD(2) [OF ok] obtain f fl where
    f: "cc_flights (pb_cache p) f = Some fl" "pf_cell fl = cell" "pb_answer p f = Some (Inr c)"
    unfolding history_ok_def by blast
  from f(1) probes_okD(2) [OF ok] obtain h e where start: "pb_started p f = Some (h, e)"
    unfolding history_ok_def by (cases "pb_started p f") auto
  with f(1,2) cell(1) probes_okD(3) [OF ok] have "host = h \<and> e = pb_epoch p h"
    unfolding current_ok_def by metis
  with start f(3) show ?thesis by blast
qed

lemma cached_capability_fresh_witness:
  "\<exists>f. pb_started demo_stored f = Some (''h'', 0) \<and> pb_answer demo_stored f = Some (Inr sample_capability)"
proof -
  have "cache_get ''h'' (pb_cache demo_stored) = Some sample_capability"
    by (simp add: demo_stored_def demo_begun_def cache_get_def store_outcome_def lookup_probe_def
        ensure_cell_def empty_cache_def)
  from cached_capability_fresh [OF demo_stored_reachable this] show ?thesis
    by (simp add: demo_stored_def demo_begun_def initial_probes_def)
qed

text \<open>two probes of one host run at the same time only when the host was invalidated between their
  beginnings.\<close>

theorem probes_single_flight:
  assumes "probes_reachable p" "f \<noteq> g"
    and "pb_leaders p f = Some (host, Probing)" "pb_leaders p g = Some (host, Probing)"
  shows "\<exists>d e. pb_started p f = Some (host, d) \<and> pb_started p g = Some (host, e) \<and> d \<noteq> e"
proof -
  note ok = probes_reachable_ok [OF assms(1)]
  from probing_leader [OF ok assms(3)] probing_leader [OF ok assms(4)] obtain d e where
    "pb_started p f = Some (host, d)" "pb_started p g = Some (host, e)" by blast
  moreover from this probes_okD(5) [OF ok] assms(2-4) have "d \<noteq> e" unfolding single_ok_def by blast
  ultimately show ?thesis by blast
qed

lemma probes_single_flight_witness:
  "\<exists>d e. pb_started demo_twice 1 = Some (''h'', d) \<and> pb_started demo_twice 3 = Some (''h'', e) \<and> d \<noteq> e"
  using probes_single_flight [OF demo_twice_reachable, of 1 3 "''h''"] by (simp add: demo_twice_def)

text \<open>a probe whose caller was dropped blocks nobody: a flight in the table without a running leader
  is seen as abandoned by everyone who waits for it, and who has removed it does not wait again but
  probes or finds the answer.\<close>

theorem abandoned_probe_replaced:
  assumes "probes_reachable p" "cc_in_flight (pb_cache p) host = Some f" "pb_leaders p f = None"
  shows "wait_for_probe f (pb_cache p) = Some Wait_Abandoned \<and>
    (case fst (lookup_probe host (remove_generation host f True (pb_cache p))) of
       Lookup_Leader _ \<Rightarrow> True | Lookup_Ready _ \<Rightarrow> True | Lookup_Follower _ \<Rightarrow> False)"
proof
  note ok = probes_reachable_ok [OF assms(1)]
  from probes_okD(3) [OF ok] assms(2) obtain fl where fl: "cc_flights (pb_cache p) f = Some fl"
    unfolding current_ok_def by blast
  with probes_okD(4) [OF ok, of f] assms(2,3) show "wait_for_probe f (pb_cache p) = Some Wait_Abandoned"
    by (auto simp: leader_ok_def wait_for_probe_def)
  let ?s = "remove_generation host f True (pb_cache p)"
  obtain cell u where u: "ensure_cell host ?s = (cell, u)" by force
  then have "cc_in_flight u host = None"
    using assms(2) by (auto simp: ensure_cell_eq remove_generation_in_flight)
  with lookup_probe_cases [OF surjective_pairing u]
  show "case fst (lookup_probe host ?s) of
      Lookup_Leader _ \<Rightarrow> True | Lookup_Ready _ \<Rightarrow> True | Lookup_Follower _ \<Rightarrow> False"
    by (auto split: cache_lookup.splits)
qed

lemma abandoned_probe_replaced_witness: "wait_for_probe 1 (pb_cache demo_dead) = Some Wait_Abandoned"
proof -
  have "cc_in_flight (pb_cache demo_dead) ''h'' = Some 1" "pb_leaders demo_dead 1 = None"
    by (simp_all add: demo_dead_def demo_begun_def set_outcome_def lookup_probe_def ensure_cell_def empty_cache_def)
  from abandoned_probe_replaced [OF demo_dead_reachable this] show ?thesis by blast
qed

end
