(* ===== verification/Session_Pool.thy ===== *)
theory Session_Pool
  imports Bridge_Prelude
begin

text \<open>
  The pool of reusable sessions (\<open>SessionPool\<close> of \<open>src/ssh/process.rs\<close>).  Slots are numbers in a
  store, so that \<open>Arc::ptr_eq\<close> is equality of numbers, and a session is a number with the set of
  the reusable ones beside it: a session that closes or is retired is never reusable again.
  The drop of a lease is two sections, the decrement of the count and the part under the mutex,
  and other callers may come between them.  A session that dies while a section runs counts as dead
  from the start of that section.
\<close>

section \<open>The pool\<close>

record session_slot =
  ss_host :: string
  ss_session :: nat
  ss_leases :: nat

record session_pool =
  sp_hosts :: "string \<rightharpoonup> nat list"
  sp_slots :: "nat \<rightharpoonup> session_slot"
  sp_fresh :: nat

definition slot_reusable :: "nat set \<Rightarrow> session_pool \<Rightarrow> nat \<Rightarrow> bool" where
  "slot_reusable reusable s k =
     (case sp_slots s k of None \<Rightarrow> False | Some slot \<Rightarrow> ss_session slot \<in> reusable)"

text \<open>\<open>fetch_add\<close> and \<open>fetch_sub\<close> on the count of a slot wrap around.\<close>

definition add_lease :: "nat \<Rightarrow> session_pool \<Rightarrow> session_pool" where
  "add_lease k s =
     s\<lparr>sp_slots := (sp_slots s)(k := map_option (\<lambda>slot. slot\<lparr>ss_leases := (ss_leases slot + 1) mod 2 ^ 64\<rparr>) (sp_slots s k))\<rparr>"

definition lease_reusable ::
  "nat set \<Rightarrow> string \<Rightarrow> session_pool \<Rightarrow> nat option \<times> session_pool" where
  "lease_reusable reusable host s =
     (case sp_hosts s host of
        None \<Rightarrow> (None, s)
      | Some slots \<Rightarrow>
          (let slots = filter (slot_reusable reusable s) slots;
               s1 = s\<lparr>sp_hosts := (sp_hosts s)(host \<mapsto> slots)\<rparr>
           in case slots of
                [] \<Rightarrow> (None, s1)
              | k # _ \<Rightarrow> (Some k, add_lease k s1)))"

text \<open>The slot leased, the session retired if there is one, and the pool.\<close>

definition insert_leased ::
  "nat set \<Rightarrow> string \<Rightarrow> nat \<Rightarrow> session_pool \<Rightarrow> nat \<times> nat option \<times> session_pool" where
  "insert_leased reusable host session s =
     (let slots = filter (slot_reusable reusable s) (case sp_hosts s host of None \<Rightarrow> [] | Some slots \<Rightarrow> slots);
          s1 = s\<lparr>sp_hosts := (sp_hosts s)(host \<mapsto> slots)\<rparr>
      in case slots of
           k # _ \<Rightarrow> (k, Some session, add_lease k s1)
         | [] \<Rightarrow>
             (sp_fresh s, None,
              s1\<lparr>sp_slots := (sp_slots s1)(sp_fresh s \<mapsto> \<lparr>ss_host = host, ss_session = session, ss_leases = 1\<rparr>),
                 sp_hosts := (sp_hosts s1)(host \<mapsto> slots @ [sp_fresh s]), sp_fresh := Suc (sp_fresh s)\<rparr>))"

text \<open>\<open>release\<close>: the decrement, which returns the count before it, and the section under the mutex.\<close>

definition release_count :: "nat \<Rightarrow> session_pool \<Rightarrow> nat \<times> session_pool" where
  "release_count k s =
     (case sp_slots s k of
        None \<Rightarrow> (0, s)
      | Some slot \<Rightarrow>
          (ss_leases slot,
           s\<lparr>sp_slots := (sp_slots s)(k \<mapsto> slot\<lparr>ss_leases := (ss_leases slot + (2 ^ 64 - 1)) mod 2 ^ 64\<rparr>)\<rparr>))"

definition release_locked :: "nat set \<Rightarrow> nat \<Rightarrow> session_pool \<Rightarrow> nat option \<times> session_pool" where
  "release_locked reusable k s =
     (case sp_slots s k of
        None \<Rightarrow> (None, s)
      | Some released \<Rightarrow>
          (case sp_hosts s (ss_host released) of
             None \<Rightarrow> (None, s)
           | Some slots \<Rightarrow>
               (let alive = ss_session released \<in> reusable;
                    retain = (alive \<and>
                      \<not> list_ex (\<lambda>j. j \<noteq> k \<and> slot_reusable reusable s j \<and>
                           (case sp_slots s j of None \<Rightarrow> False | Some slot \<Rightarrow> ss_leases slot = 0)) slots);
                    retired = (if \<not> retain \<and> alive then Some (ss_session released) else None);
                    left = (case retired of None \<Rightarrow> reusable | Some x \<Rightarrow> reusable - {x});
                    slots = filter (\<lambda>j. slot_reusable left s j \<and> (retain \<or> j \<noteq> k)) slots
                in (retired,
                    s\<lparr>sp_hosts := (sp_hosts s)(ss_host released := if slots = [] then None else Some slots)\<rparr>))))"

definition remove_session :: "string \<Rightarrow> nat \<Rightarrow> session_pool \<Rightarrow> session_pool" where
  "remove_session host expected s =
     (case sp_hosts s host of
        None \<Rightarrow> s
      | Some slots \<Rightarrow>
          (let slots = filter (\<lambda>j. case sp_slots s j of None \<Rightarrow> True | Some slot \<Rightarrow> ss_session slot \<noteq> expected) slots
           in s\<lparr>sp_hosts := (sp_hosts s)(host := if slots = [] then None else Some slots)\<rparr>))"

section \<open>Callers\<close>

text \<open>
  The leases held and the drops between their two sections, by slot.  A new session has a fresh
  number; the runner removes a session from the pool only after it found it not reusable.
\<close>

record pool_system =
  po_pool :: session_pool
  po_reusable :: "nat set"
  po_sessions :: nat
  po_held :: "nat \<Rightarrow> nat"
  po_dropping :: "nat \<Rightarrow> nat"

definition initial_pool :: pool_system where
  "initial_pool = \<lparr>po_pool = \<lparr>sp_hosts = Map.empty, sp_slots = Map.empty, sp_fresh = 0\<rparr>, po_reusable = {},
                   po_sessions = 0, po_held = (\<lambda>_. 0), po_dropping = (\<lambda>_. 0)\<rparr>"

definition retire :: "nat option \<Rightarrow> nat set \<Rightarrow> nat set" where
  "retire session reusable = (case session of None \<Rightarrow> reusable | Some x \<Rightarrow> reusable - {x})"

inductive pool_step :: "pool_system \<Rightarrow> pool_system \<Rightarrow> bool" where
  pool_none: "lease_reusable (po_reusable p) host (po_pool p) = (None, s) \<Longrightarrow>
    pool_step p (p\<lparr>po_pool := s\<rparr>)"
| pool_lease: "lease_reusable (po_reusable p) host (po_pool p) = (Some k, s) \<Longrightarrow>
    Suc (po_held p k) < 2 ^ 64 \<Longrightarrow>
    pool_step p (p\<lparr>po_pool := s, po_held := (po_held p)(k := Suc (po_held p k))\<rparr>)"
| pool_insert: "session = po_sessions p \<Longrightarrow>
    insert_leased (insert session (po_reusable p)) host session (po_pool p) = (k, retired, s) \<Longrightarrow>
    Suc (po_held p k) < 2 ^ 64 \<Longrightarrow>
    pool_step p (p\<lparr>po_pool := s, po_sessions := Suc session,
      po_reusable := retire retired (insert session (po_reusable p)),
      po_held := (po_held p)(k := Suc (po_held p k))\<rparr>)"
| pool_count: "0 < po_held p k \<Longrightarrow> release_count k (po_pool p) = (previous, s) \<Longrightarrow>
    pool_step p (p\<lparr>po_pool := s, po_held := (po_held p)(k := po_held p k - 1),
      po_dropping := (if 1 < previous then po_dropping p else (po_dropping p)(k := Suc (po_dropping p k)))\<rparr>)"
| pool_release: "0 < po_dropping p k \<Longrightarrow>
    release_locked (po_reusable p) k (po_pool p) = (retired, s) \<Longrightarrow>
    pool_step p (p\<lparr>po_pool := s, po_reusable := retire retired (po_reusable p),
      po_dropping := (po_dropping p)(k := po_dropping p k - 1)\<rparr>)"
| pool_remove: "session \<notin> po_reusable p \<Longrightarrow>
    pool_step p (p\<lparr>po_pool := remove_session host session (po_pool p)\<rparr>)"
| pool_died: "pool_step p (p\<lparr>po_reusable := po_reusable p - {session}\<rparr>)"

inductive pool_reachable :: "pool_system \<Rightarrow> bool" where
  pool_init: "pool_reachable initial_pool"
| pool_next: "pool_reachable p \<Longrightarrow> pool_step p q \<Longrightarrow> pool_reachable q"


section \<open>The invariant\<close>

definition slots_ok :: "pool_system \<Rightarrow> bool" where
  "slots_ok p \<longleftrightarrow>
     (\<forall>k slot. sp_slots (po_pool p) k = Some slot \<longrightarrow>
        k < sp_fresh (po_pool p) \<and> ss_session slot < po_sessions p \<and> ss_leases slot = po_held p k) \<and>
     (\<forall>k. po_held p k < 2 ^ 64 \<and> (0 < po_held p k + po_dropping p k \<longrightarrow> sp_slots (po_pool p) k \<noteq> None))"

definition hosts_ok :: "pool_system \<Rightarrow> bool" where
  "hosts_ok p \<longleftrightarrow>
     (\<forall>host ks. sp_hosts (po_pool p) host = Some ks \<longrightarrow>
        length ks \<le> 1 \<and> (\<forall>k \<in> set ks. \<exists>slot. sp_slots (po_pool p) k = Some slot \<and> ss_host slot = host))"

text \<open>A slot whose session is reusable is in the list of its host.\<close>

definition reusable_ok :: "pool_system \<Rightarrow> bool" where
  "reusable_ok p \<longleftrightarrow>
     (\<forall>k slot. sp_slots (po_pool p) k = Some slot \<and> ss_session slot \<in> po_reusable p \<longrightarrow>
        (\<exists>ks. sp_hosts (po_pool p) (ss_host slot) = Some ks \<and> k \<in> set ks))"

definition pool_ok :: "pool_system \<Rightarrow> bool" where
  "pool_ok p \<longleftrightarrow> slots_ok p \<and> hosts_ok p \<and> reusable_ok p"

lemma pool_okD:
  assumes "pool_ok p"
  shows "slots_ok p" "hosts_ok p" "reusable_ok p"
  using assms by (simp_all add: pool_ok_def)

lemma hosts_okD:
  assumes "hosts_ok p" "sp_hosts (po_pool p) host = Some ks"
  shows "length ks \<le> 1" "k \<in> set ks \<Longrightarrow> \<exists>slot. sp_slots (po_pool p) k = Some slot \<and> ss_host slot = host"
  using assms by (auto simp: hosts_ok_def)

lemma short_list: "length ks \<le> 1 \<Longrightarrow> k \<in> set ks \<Longrightarrow> ks = [k]"
  by (cases ks) (auto simp: length_Suc_conv le_Suc_eq)

lemma live_slot_listed:
  assumes "pool_ok p" "sp_slots (po_pool p) k = Some slot" "ss_session slot \<in> po_reusable p"
  shows "sp_hosts (po_pool p) (ss_host slot) = Some [k]"
proof -
  from pool_okD(3) [OF assms(1)] assms(2,3) obtain ks where
    "sp_hosts (po_pool p) (ss_host slot) = Some ks" "k \<in> set ks" unfolding reusable_ok_def by blast
  with hosts_okD(1) [OF pool_okD(2) [OF assms(1)]] short_list show ?thesis by metis
qed

text \<open>Lists of slots that lose some that are not reusable.\<close>

lemma pool_ok_filter:
  assumes "pool_ok p" "sp_hosts (po_pool p) host = Some slots"
    and "set ks \<subseteq> set slots" "length ks \<le> length slots"
    and "\<And>k. k \<in> set slots \<Longrightarrow> slot_reusable (po_reusable p) (po_pool p) k \<Longrightarrow> k \<in> set ks"
    and "entry = Some ks \<or> entry = None \<and> ks = []"
  shows "pool_ok (p\<lparr>po_pool := (po_pool p)\<lparr>sp_hosts := (sp_hosts (po_pool p))(host := entry)\<rparr>\<rparr>)"
proof -
  let ?q = "p\<lparr>po_pool := (po_pool p)\<lparr>sp_hosts := (sp_hosts (po_pool p))(host := entry)\<rparr>\<rparr>"
  have "slots_ok ?q" using pool_okD(1) [OF assms(1)] by (simp add: slots_ok_def)
  moreover have "hosts_ok ?q"
    unfolding hosts_ok_def
  proof (intro allI impI conjI ballI)
    fix h js assume js: "sp_hosts (po_pool ?q) h = Some js"
    show "length js \<le> 1"
      using js hosts_okD(1) [OF pool_okD(2) [OF assms(1)]] assms(2,4,6)
      by (fastforce split: if_splits)
    fix k assume k: "k \<in> set js"
    show "\<exists>slot. sp_slots (po_pool ?q) k = Some slot \<and> ss_host slot = h"
      using js k hosts_okD(2) [OF pool_okD(2) [OF assms(1)]] assms(2,3,6)
      by (fastforce split: if_splits)
  qed
  moreover have "reusable_ok ?q"
    unfolding reusable_ok_def
  proof (intro allI impI; elim conjE)
    fix k slot assume slot: "sp_slots (po_pool ?q) k = Some slot" "ss_session slot \<in> po_reusable ?q"
    with live_slot_listed [OF assms(1), of k slot] have listed: "sp_hosts (po_pool p) (ss_host slot) = Some [k]" by simp
    show "\<exists>ks. sp_hosts (po_pool ?q) (ss_host slot) = Some ks \<and> k \<in> set ks"
    proof (cases "ss_host slot = host")
      case True
      with listed assms(2) have "k \<in> set slots" by simp
      with assms(5) slot have "k \<in> set ks" by (simp add: slot_reusable_def)
      with assms(6) True show ?thesis by auto
    next
      case False
      with listed show ?thesis by simp
    qed
  qed
  ultimately show ?thesis by (simp add: pool_ok_def)
qed

lemma pool_ok_add_lease:
  assumes "pool_ok p" "sp_slots (po_pool p) k \<noteq> None" "Suc (po_held p k) < 2 ^ 64"
  shows "pool_ok (p\<lparr>po_pool := add_lease k (po_pool p), po_held := (po_held p)(k := Suc (po_held p k))\<rparr>)"
proof -
  let ?q = "p\<lparr>po_pool := add_lease k (po_pool p), po_held := (po_held p)(k := Suc (po_held p k))\<rparr>"
  from assms(2) obtain slot where slot: "sp_slots (po_pool p) k = Some slot" by blast
  then have leases: "ss_leases slot = po_held p k" using pool_okD(1) [OF assms(1)] by (simp add: slots_ok_def)
  have slots: "sp_slots (add_lease k (po_pool p)) = (sp_slots (po_pool p))(k \<mapsto> slot\<lparr>ss_leases := Suc (po_held p k)\<rparr>)"
    "sp_hosts (add_lease k (po_pool p)) = sp_hosts (po_pool p)" "sp_fresh (add_lease k (po_pool p)) = sp_fresh (po_pool p)"
    using assms(3) by (simp_all add: add_lease_def slot leases)
  have "slots_ok ?q" using pool_okD(1) [OF assms(1)] slot assms(3) by (auto simp: slots_ok_def slots)
  moreover have "hosts_ok ?q" using pool_okD(2) [OF assms(1)] slot by (fastforce simp: hosts_ok_def slots)
  moreover have "reusable_ok ?q" using pool_okD(3) [OF assms(1)] slot by (auto simp: reusable_ok_def slots)
  ultimately show ?thesis by (simp add: pool_ok_def)
qed


lemma pool_ok_fewer:
  assumes "pool_ok p" "left \<subseteq> po_reusable p"
  shows "pool_ok (p\<lparr>po_reusable := left\<rparr>)"
proof -
  have "slots_ok (p\<lparr>po_reusable := left\<rparr>)" using pool_okD(1) [OF assms(1)] by (simp add: slots_ok_def)
  moreover have "hosts_ok (p\<lparr>po_reusable := left\<rparr>)" using pool_okD(2) [OF assms(1)] by (simp add: hosts_ok_def)
  moreover have "reusable_ok (p\<lparr>po_reusable := left\<rparr>)"
    using pool_okD(3) [OF assms(1)] assms(2) unfolding reusable_ok_def by auto
  ultimately show ?thesis by (simp add: pool_ok_def)
qed

lemma pool_ok_session:
  assumes "pool_ok p"
  shows "pool_ok (p\<lparr>po_sessions := Suc (po_sessions p), po_reusable := insert (po_sessions p) (po_reusable p)\<rparr>)"
proof -
  let ?q = "p\<lparr>po_sessions := Suc (po_sessions p), po_reusable := insert (po_sessions p) (po_reusable p)\<rparr>"
  have unused: "sp_slots (po_pool p) k = Some slot \<Longrightarrow> ss_session slot \<noteq> po_sessions p" for k slot
    using pool_okD(1) [OF assms] unfolding slots_ok_def by (metis less_irrefl)
  have "slots_ok ?q" using pool_okD(1) [OF assms] by (auto simp: slots_ok_def less_Suc_eq)
  moreover have "hosts_ok ?q" using pool_okD(2) [OF assms] by (simp add: hosts_ok_def)
  moreover have "reusable_ok ?q" using pool_okD(3) [OF assms] unused by (simp add: reusable_ok_def) blast
  ultimately show ?thesis by (simp add: pool_ok_def)
qed

lemma filtered_first:
  assumes "pool_ok p" "sp_hosts (po_pool p) host = Some slots"
    and "filter (slot_reusable reusable (po_pool p)) slots = k # rest"
  shows "sp_slots (po_pool p) k \<noteq> None"
proof -
  have "k \<in> set slots" using assms(3) by (metis filter_is_subset list.set_intros(1) subsetD)
  with hosts_okD(2) [OF pool_okD(2) [OF assms(1)] assms(2)] show ?thesis by auto
qed

lemma pool_ok_lease:
  assumes "pool_ok p" "lease_reusable (po_reusable p) host (po_pool p) = (answer, s)"
  shows "case answer of
      None \<Rightarrow> pool_ok (p\<lparr>po_pool := s\<rparr>)
    | Some k \<Rightarrow> Suc (po_held p k) < 2 ^ 64 \<longrightarrow>
        pool_ok (p\<lparr>po_pool := s, po_held := (po_held p)(k := Suc (po_held p k))\<rparr>)"
proof (cases "sp_hosts (po_pool p) host")
  case None
  with assms show ?thesis by (auto simp: lease_reusable_def)
next
  case (Some slots)
  let ?ks = "filter (slot_reusable (po_reusable p) (po_pool p)) slots"
  let ?q = "p\<lparr>po_pool := (po_pool p)\<lparr>sp_hosts := (sp_hosts (po_pool p))(host := Some ?ks)\<rparr>\<rparr>"
  have q: "pool_ok ?q" by (rule pool_ok_filter [OF assms(1) Some, of ?ks]) auto
  show ?thesis
  proof (cases ?ks)
    case Nil
    with assms(2) Some q show ?thesis by (auto simp: lease_reusable_def Let_def)
  next
    case (Cons k rest)
    with assms(2) Some have "answer = Some k" "s = add_lease k (po_pool ?q)" by (auto simp: lease_reusable_def Let_def)
    with pool_ok_add_lease [OF q, of k] filtered_first [OF assms(1) Some Cons] show ?thesis by simp
  qed
qed

lemma pool_ok_new_slot:
  assumes "pool_ok p" "sp_hosts (po_pool p) host = None \<or> sp_hosts (po_pool p) host = Some []"
    and "k = sp_fresh (po_pool p)" "session < po_sessions p"
  shows "pool_ok (p\<lparr>po_pool := (po_pool p)\<lparr>
      sp_slots := (sp_slots (po_pool p))(k \<mapsto> \<lparr>ss_host = host, ss_session = session, ss_leases = 1\<rparr>),
      sp_hosts := (sp_hosts (po_pool p))(host \<mapsto> [k]), sp_fresh := Suc k\<rparr>,
    po_held := (po_held p)(k := Suc (po_held p k))\<rparr>)"
proof -
  let ?q = "p\<lparr>po_pool := (po_pool p)\<lparr>
      sp_slots := (sp_slots (po_pool p))(k \<mapsto> \<lparr>ss_host = host, ss_session = session, ss_leases = 1\<rparr>),
      sp_hosts := (sp_hosts (po_pool p))(host \<mapsto> [k]), sp_fresh := Suc k\<rparr>,
    po_held := (po_held p)(k := Suc (po_held p k))\<rparr>"
  have new: "sp_slots (po_pool p) k = None"
    using pool_okD(1) [OF assms(1)] assms(3) unfolding slots_ok_def by (metis less_irrefl option.exhaust)
  then have held: "po_held p k = 0" using pool_okD(1) [OF assms(1)] unfolding slots_ok_def by fastforce
  have "slots_ok ?q"
    using pool_okD(1) [OF assms(1)] assms(3,4) held by (auto simp: slots_ok_def less_Suc_eq)
  moreover have "hosts_ok ?q"
    using pool_okD(2) [OF assms(1)] new by (fastforce simp: hosts_ok_def)
  moreover have "reusable_ok ?q"
    unfolding reusable_ok_def
  proof (intro allI impI; elim conjE)
    fix j slot assume slot: "sp_slots (po_pool ?q) j = Some slot" "ss_session slot \<in> po_reusable ?q"
    show "\<exists>ks. sp_hosts (po_pool ?q) (ss_host slot) = Some ks \<and> j \<in> set ks"
    proof (cases "j = k")
      case True
      with slot show ?thesis by auto
    next
      case False
      with slot live_slot_listed [OF assms(1), of j slot] assms(2) show ?thesis by auto
    qed
  qed
  ultimately show ?thesis by (simp add: pool_ok_def)
qed

lemma pool_ok_count:
  assumes "pool_ok p" "0 < po_held p k" "release_count k (po_pool p) = (previous, s)"
  shows "previous = po_held p k" "pool_ok (p\<lparr>po_pool := s, po_held := (po_held p)(k := po_held p k - 1),
      po_dropping := (if 1 < previous then po_dropping p else (po_dropping p)(k := Suc (po_dropping p k)))\<rparr>)"
proof -
  from pool_okD(1) [OF assms(1)] assms(2) obtain slot where slot: "sp_slots (po_pool p) k = Some slot"
    "ss_leases slot = po_held p k" "po_held p k < 2 ^ 64" unfolding slots_ok_def by (metis add_gr_0 not_None_eq)
  have "(po_held p k + (2 ^ 64 - 1)) mod 2 ^ 64 = po_held p k - 1"
  proof -
    have "po_held p k + (2 ^ 64 - 1) = (po_held p k - 1) + 2 ^ 64" using assms(2) by simp
    then show ?thesis using slot(3) by (metis less_imp_diff_less mod_add_self2 mod_less)
  qed
  with assms(3) slot have s: "previous = po_held p k"
    "s = (po_pool p)\<lparr>sp_slots := (sp_slots (po_pool p))(k \<mapsto> slot\<lparr>ss_leases := po_held p k - 1\<rparr>)\<rparr>"
    by (auto simp: release_count_def simp del: One_nat_def)
  show "previous = po_held p k" by (rule s(1))
  let ?q = "p\<lparr>po_pool := s, po_held := (po_held p)(k := po_held p k - 1),
      po_dropping := (if 1 < previous then po_dropping p else (po_dropping p)(k := Suc (po_dropping p k)))\<rparr>"
  have "slots_ok ?q" using pool_okD(1) [OF assms(1)] slot
    by (auto simp: slots_ok_def s(2) intro: less_imp_diff_less)
  moreover have "hosts_ok ?q" using pool_okD(2) [OF assms(1)] slot by (fastforce simp: hosts_ok_def s(2))
  moreover have "reusable_ok ?q" using pool_okD(3) [OF assms(1)] slot by (auto simp: reusable_ok_def s(2))
  ultimately show "pool_ok ?q" by (simp add: pool_ok_def)
qed

text \<open>The section of a release: a reusable session is the only one of its host, so it stays.\<close>

lemma release_locked_eq:
  assumes "pool_ok p" "release_locked (po_reusable p) k (po_pool p) = (retired, s)"
  shows "retired = None" "pool_ok (p\<lparr>po_pool := s\<rparr>)"
proof -
  have "retired = None \<and> pool_ok (p\<lparr>po_pool := s\<rparr>)"
  proof (cases "sp_slots (po_pool p) k")
    case None
    with assms show ?thesis by (auto simp: release_locked_def)
  next
    case slot: (Some slot)
    show ?thesis
    proof (cases "sp_hosts (po_pool p) (ss_host slot)")
      case None
      with assms slot show ?thesis by (auto simp: release_locked_def)
    next
      case hosts: (Some slots)
      show ?thesis
      proof (cases "ss_session slot \<in> po_reusable p")
        case True
        with live_slot_listed [OF assms(1) slot] hosts have "slots = [k]" by simp
        with assms(2) slot hosts True have r: "retired = None" "s = (po_pool p)\<lparr>sp_hosts := (sp_hosts (po_pool p))(ss_host slot := Some [k])\<rparr>"
          by (auto simp: release_locked_def Let_def slot_reusable_def)
        have "pool_ok (p\<lparr>po_pool := s\<rparr>)"
          unfolding r(2) by (rule pool_ok_filter [OF assms(1) hosts, of "[k]"]) (simp_all add: \<open>slots = [k]\<close>)
        with r(1) show ?thesis by simp
      next
        case False
        let ?ks = "filter (\<lambda>j. slot_reusable (po_reusable p) (po_pool p) j \<and> j \<noteq> k) slots"
        from assms(2) slot hosts False have r: "retired = None"
          "s = (po_pool p)\<lparr>sp_hosts := (sp_hosts (po_pool p))(ss_host slot := if ?ks = [] then None else Some ?ks)\<rparr>"
          by (auto simp: release_locked_def Let_def)
        have "pool_ok (p\<lparr>po_pool := s\<rparr>)"
          unfolding r(2)
          by (rule pool_ok_filter [OF assms(1) hosts, of ?ks]) (use slot False in \<open>auto simp: slot_reusable_def\<close>)
        with r(1) show ?thesis by simp
      qed
    qed
  qed
  then show "retired = None" "pool_ok (p\<lparr>po_pool := s\<rparr>)" by simp_all
qed

lemma pool_ok_remove:
  assumes "pool_ok p" "session \<notin> po_reusable p"
  shows "pool_ok (p\<lparr>po_pool := remove_session host session (po_pool p)\<rparr>)"
proof (cases "sp_hosts (po_pool p) host")
  case None
  with assms(1) show ?thesis by (simp add: remove_session_def)
next
  case (Some slots)
  let ?ks = "filter (\<lambda>j. case sp_slots (po_pool p) j of None \<Rightarrow> True | Some slot \<Rightarrow> ss_session slot \<noteq> session) slots"
  have "remove_session host session (po_pool p) =
      (po_pool p)\<lparr>sp_hosts := (sp_hosts (po_pool p))(host := if ?ks = [] then None else Some ?ks)\<rparr>"
    by (simp add: remove_session_def Some Let_def)
  moreover have "pool_ok (p\<lparr>po_pool := (po_pool p)\<lparr>sp_hosts := (sp_hosts (po_pool p))(host := if ?ks = [] then None else Some ?ks)\<rparr>\<rparr>)"
    by (rule pool_ok_filter [OF assms(1) Some, of ?ks])
      (use assms(2) in \<open>auto simp: slot_reusable_def split: option.splits\<close>)
  ultimately show ?thesis by simp
qed


lemma pool_ok_insert:
  assumes "pool_ok p" "session < po_sessions p" "insert_leased (po_reusable p) host session (po_pool p) = (k, retired, s)"
    and "Suc (po_held p k) < 2 ^ 64"
  shows "pool_ok (p\<lparr>po_pool := s, po_reusable := retire retired (po_reusable p),
      po_held := (po_held p)(k := Suc (po_held p k))\<rparr>)"
    and "retired \<noteq> None \<Longrightarrow> retired = Some session"
proof -
  define slots where "slots = (case sp_hosts (po_pool p) host of None \<Rightarrow> [] | Some slots \<Rightarrow> slots)"
  let ?ks = "filter (slot_reusable (po_reusable p) (po_pool p)) slots"
  have "pool_ok (p\<lparr>po_pool := s, po_reusable := retire retired (po_reusable p),
      po_held := (po_held p)(k := Suc (po_held p k))\<rparr>) \<and> (retired \<noteq> None \<longrightarrow> retired = Some session)"
  proof (cases ?ks)
    case Nil
    then have r: "retired = None" "k = sp_fresh (po_pool p)"
      "s = (po_pool p)\<lparr>
        sp_slots := (sp_slots (po_pool p))(k \<mapsto> \<lparr>ss_host = host, ss_session = session, ss_leases = 1\<rparr>),
        sp_hosts := (sp_hosts (po_pool p))(host \<mapsto> [k]), sp_fresh := Suc k\<rparr>"
      using assms(3) by (auto simp: insert_leased_def Let_def slots_def)
    show ?thesis
    proof (cases "sp_hosts (po_pool p) host")
      case None
      with pool_ok_new_slot [OF assms(1) _ r(2) assms(2), of host] r show ?thesis by (simp add: retire_def)
    next
      case (Some xs)
      with Nil have none: "filter (slot_reusable (po_reusable p) (po_pool p)) xs = []" by (simp add: slots_def)
      let ?q = "p\<lparr>po_pool := (po_pool p)\<lparr>sp_hosts := (sp_hosts (po_pool p))(host := Some [])\<rparr>\<rparr>"
      have q: "pool_ok ?q"
        by (rule pool_ok_filter [OF assms(1) Some, of "[]"]) (use none in \<open>auto simp: filter_empty_conv\<close>)
      from pool_ok_new_slot [OF q, of host k session] r assms(2) show ?thesis by (simp add: retire_def)
    qed
  next
    case (Cons j rest)
    then obtain xs where xs: "sp_hosts (po_pool p) host = Some xs" "slots = xs"
      by (cases "sp_hosts (po_pool p) host") (auto simp: slots_def)
    let ?q = "p\<lparr>po_pool := (po_pool p)\<lparr>sp_hosts := (sp_hosts (po_pool p))(host := Some ?ks)\<rparr>\<rparr>"
    have q: "pool_ok ?q" by (rule pool_ok_filter [OF assms(1) xs(1), of ?ks]) (auto simp: xs(2))
    from assms(3) Cons xs have r: "k = j" "retired = Some session" "s = add_lease j (po_pool ?q)"
      by (auto simp: insert_leased_def Let_def)
    have "pool_ok (?q\<lparr>po_pool := add_lease j (po_pool ?q), po_held := (po_held ?q)(j := Suc (po_held ?q j))\<rparr>)"
      using pool_ok_add_lease [OF q, of j] filtered_first [OF assms(1) xs(1)] Cons xs(2) assms(4) r(1) by simp
    from pool_ok_fewer [OF this, of "po_reusable p - {session}"]
    have "pool_ok (?q\<lparr>po_pool := add_lease j (po_pool ?q), po_held := (po_held ?q)(j := Suc (po_held ?q j)),
        po_reusable := po_reusable p - {session}\<rparr>)" by simp
    also have "?q\<lparr>po_pool := add_lease j (po_pool ?q), po_held := (po_held ?q)(j := Suc (po_held ?q j)),
        po_reusable := po_reusable p - {session}\<rparr> =
      p\<lparr>po_pool := s, po_reusable := retire retired (po_reusable p), po_held := (po_held p)(k := Suc (po_held p k))\<rparr>"
      by (rule pool_system.equality) (simp_all add: r retire_def)
    finally show ?thesis using r(2) by simp
  qed
  then show "pool_ok (p\<lparr>po_pool := s, po_reusable := retire retired (po_reusable p),
      po_held := (po_held p)(k := Suc (po_held p k))\<rparr>)" "retired \<noteq> None \<Longrightarrow> retired = Some session" by auto
qed

lemma initial_pool_ok: "pool_ok initial_pool"
  by (simp add: pool_ok_def slots_ok_def hosts_ok_def reusable_ok_def initial_pool_def)

lemma pool_step_ok:
  assumes "pool_step p q" "pool_ok p"
  shows "pool_ok q"
  using assms(1)
proof cases
  case (pool_none host s)
  with pool_ok_lease [OF assms(2) pool_none(2)] show ?thesis by simp
next
  case (pool_lease host k s)
  with pool_ok_lease [OF assms(2) pool_lease(2)] show ?thesis by simp
next
  case (pool_insert session host k retired s)
  let ?p = "p\<lparr>po_sessions := Suc (po_sessions p), po_reusable := insert (po_sessions p) (po_reusable p)\<rparr>"
  have "pool_ok (?p\<lparr>po_pool := s, po_reusable := retire retired (po_reusable ?p),
      po_held := (po_held ?p)(k := Suc (po_held ?p k))\<rparr>)"
    by (rule pool_ok_insert(1) [OF pool_ok_session [OF assms(2)], of session host]) (use pool_insert in simp_all)
  also have "?p\<lparr>po_pool := s, po_reusable := retire retired (po_reusable ?p),
      po_held := (po_held ?p)(k := Suc (po_held ?p k))\<rparr> = q"
    unfolding pool_insert(1,2) by (rule pool_system.equality) simp_all
  finally show ?thesis .
next
  case (pool_count k previous s)
  with pool_ok_count(2) [OF assms(2) pool_count(2,3)] show ?thesis by simp
next
  case (pool_release k retired s)
  note r = release_locked_eq [OF assms(2) pool_release(3)]
  have "pool_ok (p\<lparr>po_pool := s, po_dropping := (po_dropping p)(k := po_dropping p k - 1)\<rparr>)"
    using r(2) by (auto simp: pool_ok_def slots_ok_def hosts_ok_def reusable_ok_def)
  with pool_release(1) r(1) show ?thesis by (simp add: retire_def)
next
  case (pool_remove session host)
  with pool_ok_remove [OF assms(2)] show ?thesis by simp
next
  case (pool_died session)
  with pool_ok_fewer [OF assms(2), of "po_reusable p - {session}"] show ?thesis by auto
qed

lemma pool_reachable_ok: "pool_reachable p \<Longrightarrow> pool_ok p"
  by (induction rule: pool_reachable.induct) (auto intro: initial_pool_ok pool_step_ok)

section \<open>Properties\<close>

text \<open>C36: all callers of a host share one live session: the pool counts exactly the leases held, a live
  session that was ever pooled is the one the next caller of its host is given, and the drop of a
  lease never retires a session, whatever other callers do between its two sections.\<close>

theorem pool_shares_one_session:
  assumes "pool_reachable p" "sp_slots (po_pool p) k = Some slot"
  shows "ss_leases slot = po_held p k \<and>
    (ss_session slot \<in> po_reusable p \<longrightarrow>
       fst (lease_reusable (po_reusable p) (ss_host slot) (po_pool p)) = Some k) \<and>
    fst (release_locked (po_reusable p) k (po_pool p)) = None"
proof (intro conjI impI)
  note ok = pool_reachable_ok [OF assms(1)]
  show "ss_leases slot = po_held p k" using pool_okD(1) [OF ok] assms(2) by (simp add: slots_ok_def)
  show "fst (lease_reusable (po_reusable p) (ss_host slot) (po_pool p)) = Some k"
    if "ss_session slot \<in> po_reusable p"
    using live_slot_listed [OF ok assms(2) that] that assms(2)
    by (simp add: lease_reusable_def slot_reusable_def)
  show "fst (release_locked (po_reusable p) k (po_pool p)) = None"
    using release_locked_eq(1) [OF ok surjective_pairing] .
qed

definition demo_pool :: pool_system where
  "demo_pool =
     \<lparr>po_pool = \<lparr>sp_hosts = [''h'' \<mapsto> [0]], sp_slots = [0 \<mapsto> \<lparr>ss_host = ''h'', ss_session = 0, ss_leases = 1\<rparr>],
                 sp_fresh = 1\<rparr>,
      po_reusable = {0}, po_sessions = 1, po_held = (\<lambda>_. 0)(0 := 1), po_dropping = (\<lambda>_. 0)\<rparr>"

lemma demo_pool_reachable: "pool_reachable demo_pool"
  using pool_next [OF pool_init pool_insert [of 0 initial_pool "''h''" 0 None "po_pool demo_pool"]]
  by (simp add: initial_pool_def demo_pool_def insert_leased_def retire_def)

lemma pool_shares_one_session_witness:
  "fst (lease_reusable {0} ''h'' (po_pool demo_pool)) = Some 0 \<and>
     fst (release_locked {0} 0 (po_pool demo_pool)) = None"
  using pool_shares_one_session [OF demo_pool_reachable, of 0 "\<lparr>ss_host = ''h'', ss_session = 0, ss_leases = 1\<rparr>"]
  by (simp add: demo_pool_def)

end
