(* ===== verification/Bridge_Config.thy ===== *)
theory Bridge_Config
  imports Fixed_Runner Edit_Cache
begin

text \<open>
  The configuration (\<open>src/config.rs\<close>): the limits with their defaults and compiled maxima,
  the host profiles and their overrides, validation, the lookup of a host, the merge of the
  aliases found in the OpenSSH configuration and the migration from version 1.  A
  \<open>BTreeMap\<close> is the association list of its entries in key order.  TOML, the file checks and
  the search of the OpenSSH files are not modelled: \<open>migrate_v1\<close> starts from the parsed text
  and \<open>merge_aliases\<close> from the aliases found.
\<close>

section \<open>Data\<close>

definition MAX_CONNECT_TIMEOUT_MS :: nat where "MAX_CONNECT_TIMEOUT_MS = 120000"
definition MAX_COMMAND_TIMEOUT_MS :: nat where "MAX_COMMAND_TIMEOUT_MS = 3600000"
definition MAX_READ_CHUNK_BYTES :: nat where "MAX_READ_CHUNK_BYTES = 1024 * 1024"
definition MAX_PREVIEW_BYTES :: nat where "MAX_PREVIEW_BYTES = 1024 * 1024"
definition CONFIG_VERSION :: nat where "CONFIG_VERSION = 2"
definition DEFAULT_GLOBAL_SPOOL_QUOTA_BYTES :: nat where
  "DEFAULT_GLOBAL_SPOOL_QUOTA_BYTES = 512 * 1024 * 1024"
definition MIN_GLOBAL_SPOOL_QUOTA_BYTES :: nat where
  "MIN_GLOBAL_SPOOL_QUOTA_BYTES = 64 * 1024 * 1024"
definition MAX_GLOBAL_SPOOL_QUOTA_BYTES :: nat where
  "MAX_GLOBAL_SPOOL_QUOTA_BYTES = 512 * 1024 * 1024"
definition DEFAULT_RETENTION_SERIALIZATION_JOBS :: nat where "DEFAULT_RETENTION_SERIALIZATION_JOBS = 2"
definition MAX_RETENTION_SERIALIZATION_JOBS :: nat where "MAX_RETENTION_SERIALIZATION_JOBS = 4"
definition DEFAULT_EDIT_FLUSH_DELAY_MS :: nat where "DEFAULT_EDIT_FLUSH_DELAY_MS = 30000"
definition MAX_EDIT_FLUSH_DELAY_MS :: nat where "MAX_EDIT_FLUSH_DELAY_MS = 300000"
definition DEFAULT_EDIT_FLUSH_THRESHOLD_BYTES :: nat where
  "DEFAULT_EDIT_FLUSH_THRESHOLD_BYTES = 16 * 1024"
definition MAX_EDIT_FLUSH_THRESHOLD_BYTES :: nat where
  "MAX_EDIT_FLUSH_THRESHOLD_BYTES = 4 * 1024 * 1024"
definition DEFAULT_EDIT_CACHE_MAX_BYTES :: nat where "DEFAULT_EDIT_CACHE_MAX_BYTES = 16 * 1024 * 1024"
definition MAX_EDIT_CACHE_MAX_BYTES :: nat where "MAX_EDIT_CACHE_MAX_BYTES = 64 * 1024 * 1024"
definition MAX_READ_BYTES :: nat where "MAX_READ_BYTES = 1024 * 1024"
definition MAX_WRITE_BYTES :: nat where "MAX_WRITE_BYTES = 4 * 1024 * 1024"
definition MAX_OUTPUT_BYTES :: nat where "MAX_OUTPUT_BYTES = 64 * 1024 * 1024"

lemmas config_constants = MAX_CONNECT_TIMEOUT_MS_def MAX_COMMAND_TIMEOUT_MS_def
  MAX_READ_CHUNK_BYTES_def MAX_PREVIEW_BYTES_def CONFIG_VERSION_def
  DEFAULT_GLOBAL_SPOOL_QUOTA_BYTES_def MIN_GLOBAL_SPOOL_QUOTA_BYTES_def
  MAX_GLOBAL_SPOOL_QUOTA_BYTES_def DEFAULT_RETENTION_SERIALIZATION_JOBS_def
  MAX_RETENTION_SERIALIZATION_JOBS_def DEFAULT_EDIT_FLUSH_DELAY_MS_def MAX_EDIT_FLUSH_DELAY_MS_def
  DEFAULT_EDIT_FLUSH_THRESHOLD_BYTES_def MAX_EDIT_FLUSH_THRESHOLD_BYTES_def
  DEFAULT_EDIT_CACHE_MAX_BYTES_def MAX_EDIT_CACHE_MAX_BYTES_def MAX_READ_BYTES_def
  MAX_WRITE_BYTES_def MAX_OUTPUT_BYTES_def MAX_FRAME_BYTES_def

record global_limits =
  gl_connect_timeout_ms :: nat
  gl_command_timeout_ms :: nat
  gl_max_frame_bytes :: nat
  gl_read_chunk_bytes :: nat
  gl_max_read_bytes :: nat
  gl_max_write_bytes :: nat
  gl_preview_bytes :: nat
  gl_max_output_bytes :: nat
  gl_global_spool_quota_bytes :: nat
  gl_retention_serialization_jobs :: nat
  gl_edit_flush_delay_ms :: nat
  gl_edit_flush_threshold_bytes :: nat
  gl_edit_cache_max_bytes :: nat

record host_limit_overrides =
  ho_connect_timeout_ms :: "nat option"
  ho_command_timeout_ms :: "nat option"
  ho_max_read_bytes :: "nat option"
  ho_max_write_bytes :: "nat option"
  ho_preview_bytes :: "nat option"
  ho_max_output_bytes :: "nat option"

record host_profile =
  hp_root :: string
  hp_description :: "string option"
  hp_read_only :: bool
  hp_limits :: host_limit_overrides

record bridge_config =
  bc_version :: nat
  bc_limits :: global_limits
  bc_hosts :: "(string \<times> host_profile) list"

record resolved_host =
  rh_alias :: string
  rh_profile :: host_profile
  rh_limits :: effective_limits

text \<open>The parsed form of a version 1 file; the two concurrency limits are read and dropped.\<close>

record limits_v1 =
  l1_connect_timeout_ms :: nat
  l1_command_timeout_ms :: nat
  l1_max_frame_bytes :: nat
  l1_read_chunk_bytes :: nat
  l1_max_read_bytes :: nat
  l1_max_write_bytes :: nat
  l1_preview_bytes :: nat
  l1_max_output_bytes :: nat
  l1_global_concurrency :: nat
  l1_per_host_concurrency :: nat
  l1_global_spool_quota_bytes :: nat
  l1_retention_serialization_jobs :: nat

record config_v1 =
  c1_version :: nat
  c1_limits :: limits_v1
  c1_hosts :: "(string \<times> host_profile) list"

record migrated_v1 =
  mg_config :: bridge_config
  mg_explicit_aliases :: "string list"

definition default_limits :: global_limits where
  "default_limits =
     \<lparr>gl_connect_timeout_ms = 10000, gl_command_timeout_ms = 300000,
      gl_max_frame_bytes = MAX_FRAME_BYTES, gl_read_chunk_bytes = 256 * 1024,
      gl_max_read_bytes = MAX_READ_BYTES, gl_max_write_bytes = MAX_WRITE_BYTES,
      gl_preview_bytes = 256 * 1024, gl_max_output_bytes = MAX_OUTPUT_BYTES,
      gl_global_spool_quota_bytes = DEFAULT_GLOBAL_SPOOL_QUOTA_BYTES,
      gl_retention_serialization_jobs = DEFAULT_RETENTION_SERIALIZATION_JOBS,
      gl_edit_flush_delay_ms = DEFAULT_EDIT_FLUSH_DELAY_MS,
      gl_edit_flush_threshold_bytes = DEFAULT_EDIT_FLUSH_THRESHOLD_BYTES,
      gl_edit_cache_max_bytes = DEFAULT_EDIT_CACHE_MAX_BYTES\<rparr>"

definition no_overrides :: host_limit_overrides where
  "no_overrides =
     \<lparr>ho_connect_timeout_ms = None, ho_command_timeout_ms = None, ho_max_read_bytes = None,
      ho_max_write_bytes = None, ho_preview_bytes = None, ho_max_output_bytes = None\<rparr>"

definition default_config :: bridge_config where
  "default_config = \<lparr>bc_version = CONFIG_VERSION, bc_limits = default_limits, bc_hosts = []\<rparr>"

section \<open>Validation\<close>

definition validate_positive :: "string \<Rightarrow> nat \<Rightarrow> nat \<Rightarrow> unit bridge_result" where
  "validate_positive name n maximum =
     (if n = 0 \<or> maximum < n
      then Inl (invalid_config (name @ '' must be between 1 and '' @ decimal maximum))
      else Inr ())"

definition validate_limits :: "global_limits \<Rightarrow> unit bridge_result" where
  "validate_limits l =
     bindR (validate_positive ''connect_timeout_ms'' (gl_connect_timeout_ms l) MAX_CONNECT_TIMEOUT_MS) (\<lambda>_.
     bindR (validate_positive ''command_timeout_ms'' (gl_command_timeout_ms l) MAX_COMMAND_TIMEOUT_MS) (\<lambda>_.
     bindR (validate_positive ''max_frame_bytes'' (gl_max_frame_bytes l) MAX_FRAME_BYTES) (\<lambda>_.
     bindR (validate_positive ''read_chunk_bytes'' (gl_read_chunk_bytes l) MAX_READ_CHUNK_BYTES) (\<lambda>_.
     bindR (validate_positive ''max_read_bytes'' (gl_max_read_bytes l) MAX_READ_BYTES) (\<lambda>_.
     bindR (validate_positive ''max_write_bytes'' (gl_max_write_bytes l) MAX_WRITE_BYTES) (\<lambda>_.
     bindR (validate_positive ''preview_bytes'' (gl_preview_bytes l) MAX_PREVIEW_BYTES) (\<lambda>_.
     bindR (validate_positive ''max_output_bytes'' (gl_max_output_bytes l) MAX_OUTPUT_BYTES) (\<lambda>_.
     if gl_global_spool_quota_bytes l < MIN_GLOBAL_SPOOL_QUOTA_BYTES \<or>
        MAX_GLOBAL_SPOOL_QUOTA_BYTES < gl_global_spool_quota_bytes l then
       Inl (invalid_config (''global_spool_quota_bytes must be between '' @
              decimal MIN_GLOBAL_SPOOL_QUOTA_BYTES @ '' and '' @ decimal MAX_GLOBAL_SPOOL_QUOTA_BYTES))
     else
     bindR (validate_positive ''retention_serialization_jobs'' (gl_retention_serialization_jobs l)
              MAX_RETENTION_SERIALIZATION_JOBS) (\<lambda>_.
     bindR (validate_positive ''edit_flush_delay_ms'' (gl_edit_flush_delay_ms l)
              MAX_EDIT_FLUSH_DELAY_MS) (\<lambda>_.
     bindR (validate_positive ''edit_flush_threshold_bytes'' (gl_edit_flush_threshold_bytes l)
              MAX_EDIT_FLUSH_THRESHOLD_BYTES) (\<lambda>_.
     bindR (validate_positive ''edit_cache_max_bytes'' (gl_edit_cache_max_bytes l)
              MAX_EDIT_CACHE_MAX_BYTES) (\<lambda>_.
     if gl_edit_cache_max_bytes l < gl_edit_flush_threshold_bytes l then
       Inl (invalid_config ''edit_flush_threshold_bytes must not exceed edit_cache_max_bytes'')
     else Inr ()))))))))))))"

definition is_ascii_alphanumeric :: "char \<Rightarrow> bool" where
  "is_ascii_alphanumeric c \<longleftrightarrow>
     is_ascii_digit c \<or> 65 \<le> byte c \<and> byte c \<le> 90 \<or> 97 \<le> byte c \<and> byte c \<le> 122"

definition valid_alias :: "string \<Rightarrow> bool" where
  "valid_alias alias \<longleftrightarrow>
     1 \<le> length alias \<and> length alias \<le> 128 \<and> is_ascii_alphanumeric (alias ! 0) \<and>
     list_all (\<lambda>c. is_ascii_alphanumeric c \<or> c = CHR ''.'' \<or> c = CHR ''_'' \<or> c = CHR ''-'')
       (drop 1 alias)"

fun validate_aliases :: "(string \<times> host_profile) list \<Rightarrow> unit bridge_result" where
  "validate_aliases [] = Inr ()"
| "validate_aliases ((alias, profile) # hosts) =
     (if \<not> valid_alias alias then Inl (invalid_config (''invalid host alias: '' @ alias))
      else validate_aliases hosts)"

definition validate_config :: "bridge_config \<Rightarrow> unit bridge_result" where
  "validate_config c =
     (if bc_version c \<noteq> CONFIG_VERSION then
        Inl (invalid_config (''unsupported configuration version '' @ decimal (bc_version c) @
               ''; expected '' @ decimal CONFIG_VERSION))
      else bindR (validate_limits (bc_limits c)) (\<lambda>_. validate_aliases (bc_hosts c)))"

section \<open>Hosts\<close>

definition effective_limits_for :: "global_limits \<Rightarrow> host_limit_overrides \<Rightarrow> effective_limits" where
  "effective_limits_for global host =
     \<lparr>lim_connect_timeout_ms = case_option (gl_connect_timeout_ms global) id (ho_connect_timeout_ms host),
      lim_command_timeout_ms = case_option (gl_command_timeout_ms global) id (ho_command_timeout_ms host),
      lim_max_frame_bytes = gl_max_frame_bytes global,
      lim_read_chunk_bytes = gl_read_chunk_bytes global,
      lim_max_read_bytes = case_option (gl_max_read_bytes global) id (ho_max_read_bytes host),
      lim_max_write_bytes = case_option (gl_max_write_bytes global) id (ho_max_write_bytes host),
      lim_preview_bytes = case_option (gl_preview_bytes global) id (ho_preview_bytes host),
      lim_max_output_bytes = case_option (gl_max_output_bytes global) id (ho_max_output_bytes host)\<rparr>"

definition config_host :: "bridge_config \<Rightarrow> string \<Rightarrow> resolved_host bridge_result" where
  "config_host c alias =
     (if \<not> valid_alias alias then Inl (invalid_argument ''invalid host alias'')
      else
        bindR (validate_config c) (\<lambda>_.
        bindR (ok_or (invalid_config ''unknown host alias'') (map_of (bc_hosts c) alias)) (\<lambda>profile.
          Inr \<lparr>rh_alias = alias, rh_profile = profile,
               rh_limits = effective_limits_for (bc_limits c) (hp_limits profile)\<rparr>)))"

definition config_limits :: "bridge_config \<Rightarrow> effective_limits" where
  "config_limits c = effective_limits_for (bc_limits c) no_overrides"

definition discover_hosts :: "bridge_config \<Rightarrow> string list" where
  "discover_hosts c = map fst (bc_hosts c)"

definition require_discovered_alias :: "bridge_config \<Rightarrow> string \<Rightarrow> string bridge_result" where
  "require_discovered_alias c alias =
     (if \<not> valid_alias alias then Inl (invalid_argument ''invalid host alias'')
      else if map_of (bc_hosts c) alias = None then Inl (invalid_config ''unknown host alias'')
      else Inr alias)"

definition discovered_profile :: host_profile where
  "discovered_profile =
     \<lparr>hp_root = ''/'', hp_description = None, hp_read_only = False, hp_limits = no_overrides\<rparr>"

text \<open>\<open>BTreeMap::entry(alias).or_insert_with\<close>.\<close>

fun or_insert :: "'k::linorder \<Rightarrow> 'v \<Rightarrow> ('k \<times> 'v) list \<Rightarrow> ('k \<times> 'v) list" where
  "or_insert k v [] = [(k, v)]"
| "or_insert k v ((a, b) # ps) =
     (if k < a then (k, v) # (a, b) # ps
      else if k = a then (a, b) # ps
      else (a, b) # or_insert k v ps)"

definition merge_aliases :: "string list \<Rightarrow> bridge_config \<Rightarrow> bridge_config" where
  "merge_aliases aliases c =
     c\<lparr>bc_hosts := fold (\<lambda>a. or_insert a discovered_profile) aliases (bc_hosts c)\<rparr>"

text \<open>
  \<open>Config::load_with_discovery_from\<close> after the file is read and parsed: the hosts are not
  part of the file (the field is skipped by the deserialiser), they are the aliases found.
\<close>

definition load_with_discovery :: "nat \<Rightarrow> global_limits \<Rightarrow> string list \<Rightarrow> bridge_config bridge_result" where
  "load_with_discovery version limits aliases =
     (let config = \<lparr>bc_version = version, bc_limits = limits, bc_hosts = []\<rparr>
      in bindR (validate_config config) (\<lambda>_. Inr (merge_aliases aliases config)))"

section \<open>Migration\<close>

definition migrate_v1 :: "config_v1 \<Rightarrow> migrated_v1 bridge_result" where
  "migrate_v1 old =
     (if c1_version old \<noteq> 1 then Inl (invalid_config ''configuration is not version 1'')
      else
        let l = c1_limits old;
            config = \<lparr>bc_version = CONFIG_VERSION,
              bc_limits =
                \<lparr>gl_connect_timeout_ms = l1_connect_timeout_ms l,
                 gl_command_timeout_ms = l1_command_timeout_ms l,
                 gl_max_frame_bytes = l1_max_frame_bytes l,
                 gl_read_chunk_bytes = l1_read_chunk_bytes l,
                 gl_max_read_bytes = l1_max_read_bytes l,
                 gl_max_write_bytes = l1_max_write_bytes l,
                 gl_preview_bytes = l1_preview_bytes l,
                 gl_max_output_bytes = l1_max_output_bytes l,
                 gl_global_spool_quota_bytes = l1_global_spool_quota_bytes l,
                 gl_retention_serialization_jobs = l1_retention_serialization_jobs l,
                 gl_edit_flush_delay_ms = gl_edit_flush_delay_ms default_limits,
                 gl_edit_flush_threshold_bytes = gl_edit_flush_threshold_bytes default_limits,
                 gl_edit_cache_max_bytes = gl_edit_cache_max_bytes default_limits\<rparr>,
              bc_hosts = []\<rparr>
        in bindR (validate_config config) (\<lambda>_.
             Inr \<lparr>mg_config = config, mg_explicit_aliases = map fst (c1_hosts old)\<rparr>))"

text \<open>The edit cache is configured from the global limits (\<open>RemoteBridge::new\<close>).\<close>

definition edit_cache_config_of :: "bridge_config \<Rightarrow> edit_cache_config" where
  "edit_cache_config_of c =
     \<lparr>cfg_flush_delay = gl_edit_flush_delay_ms (bc_limits c),
      cfg_flush_threshold_bytes = gl_edit_flush_threshold_bytes (bc_limits c),
      cfg_max_bytes = gl_edit_cache_max_bytes (bc_limits c)\<rparr>"

section \<open>Lemmas\<close>

lemma validate_positive_Inr [result_simps]:
  "validate_positive name n maximum = Inr u \<longleftrightarrow> 0 < n \<and> n \<le> maximum"
  by (auto simp: validate_positive_def)

text \<open>A map in key order: strictly increasing keys.\<close>

abbreviation key_ordered :: "('k::linorder \<times> 'v) list \<Rightarrow> bool" where
  "key_ordered ps \<equiv> sorted_wrt (<) (map fst ps)"

lemma set_or_insert: "fst ` set (or_insert k v ps) = insert k (fst ` set ps)"
  by (induction k v ps rule: or_insert.induct) auto

lemma key_ordered_or_insert: "key_ordered ps \<Longrightarrow> key_ordered (or_insert k v ps)"
proof (induction k v ps rule: or_insert.induct)
  case (2 k v a b ps)
  have "\<forall>x \<in> fst ` set (or_insert k v ps). a < x" if "a < k"
    using 2(2) that by (auto simp: set_or_insert)
  with 2 show ?case by (auto simp: not_less order.order_iff_strict)
qed simp

lemma key_ordered_absent:
  fixes k :: "'k::linorder"
  shows "\<forall>x \<in> fst ` set ps. k < x \<Longrightarrow> map_of ps k = None"
  unfolding map_of_eq_None_iff using less_irrefl [of k] by blast

lemma map_of_or_insert:
  "key_ordered ps \<Longrightarrow>
     map_of (or_insert k v ps) x = (if x = k then Some (case_option v id (map_of ps k)) else map_of ps x)"
proof (induction k v ps rule: or_insert.induct)
  case (2 k v a b ps)
  have "map_of ps k = None" if "k < a" using 2(2) that by (intro key_ordered_absent) auto
  with 2 show ?case by auto
qed simp

lemma merge_fold:
  assumes "key_ordered ps"
  shows "key_ordered (fold (\<lambda>a. or_insert a v) ks ps) \<and>
    map_of (fold (\<lambda>a. or_insert a v) ks ps) x =
      (case map_of ps x of Some w \<Rightarrow> Some w | None \<Rightarrow> if x \<in> set ks then Some v else None)"
  using assms
proof (induction ks arbitrary: ps)
  case (Cons k ks)
  from Cons.IH [OF key_ordered_or_insert [OF Cons.prems, of k v]] show ?case
    by (auto simp: map_of_or_insert [OF Cons.prems] split: option.splits)
qed (simp split: option.splits)

lemma validate_aliases_Inr [result_simps]:
  "validate_aliases hosts = Inr u \<longleftrightarrow> (\<forall>a \<in> fst ` set hosts. valid_alias a)"
  by (induction hosts rule: validate_aliases.induct) auto

text \<open>What a validated configuration promises of its limits.\<close>

definition limits_ok :: "global_limits \<Rightarrow> bool" where
  "limits_ok l \<longleftrightarrow>
     0 < gl_connect_timeout_ms l \<and> gl_connect_timeout_ms l \<le> MAX_CONNECT_TIMEOUT_MS \<and>
     0 < gl_command_timeout_ms l \<and> gl_command_timeout_ms l \<le> MAX_COMMAND_TIMEOUT_MS \<and>
     0 < gl_max_frame_bytes l \<and> gl_max_frame_bytes l \<le> MAX_FRAME_BYTES \<and>
     0 < gl_read_chunk_bytes l \<and> gl_read_chunk_bytes l \<le> MAX_READ_CHUNK_BYTES \<and>
     0 < gl_max_read_bytes l \<and> gl_max_read_bytes l \<le> MAX_READ_BYTES \<and>
     0 < gl_max_write_bytes l \<and> gl_max_write_bytes l \<le> MAX_WRITE_BYTES \<and>
     0 < gl_preview_bytes l \<and> gl_preview_bytes l \<le> MAX_PREVIEW_BYTES \<and>
     0 < gl_max_output_bytes l \<and> gl_max_output_bytes l \<le> MAX_OUTPUT_BYTES \<and>
     MIN_GLOBAL_SPOOL_QUOTA_BYTES \<le> gl_global_spool_quota_bytes l \<and>
     gl_global_spool_quota_bytes l \<le> MAX_GLOBAL_SPOOL_QUOTA_BYTES \<and>
     0 < gl_retention_serialization_jobs l \<and>
     gl_retention_serialization_jobs l \<le> MAX_RETENTION_SERIALIZATION_JOBS \<and>
     0 < gl_edit_flush_delay_ms l \<and> gl_edit_flush_delay_ms l \<le> MAX_EDIT_FLUSH_DELAY_MS \<and>
     0 < gl_edit_flush_threshold_bytes l \<and>
     gl_edit_flush_threshold_bytes l \<le> MAX_EDIT_FLUSH_THRESHOLD_BYTES \<and>
     gl_edit_flush_threshold_bytes l \<le> gl_edit_cache_max_bytes l \<and>
     gl_edit_cache_max_bytes l \<le> MAX_EDIT_CACHE_MAX_BYTES"

lemma validate_limits_Inr [result_simps]: "validate_limits l = Inr u \<longleftrightarrow> limits_ok l"
  by (auto simp: validate_limits_def limits_ok_def bindR_eq_Inr guard_eq_Inr validate_positive_Inr not_less)

lemma validate_config_Inr [result_simps]:
  "validate_config c = Inr u \<longleftrightarrow>
     bc_version c = CONFIG_VERSION \<and> limits_ok (bc_limits c) \<and> (\<forall>a \<in> fst ` set (bc_hosts c). valid_alias a)"
  by (auto simp: validate_config_def bindR_eq_Inr guard_eq_Inr validate_limits_Inr validate_aliases_Inr)

lemma default_limits_ok: "limits_ok default_limits"
  by (simp add: limits_ok_def default_limits_def config_constants)

section \<open>Properties\<close>

lemma option_safe:
  "valid_alias a \<Longrightarrow> a \<noteq> [] \<and> hd a \<noteq> CHR ''-'' \<and> (\<forall>c \<in> set a. \<not> is_ascii_whitespace c \<and> c \<noteq> NUL)"
  by (cases a) (auto simp: valid_alias_def is_ascii_alphanumeric_def is_ascii_digit_def byte_def
      is_ascii_whitespace_def list_all_iff)

text \<open>a configuration that was loaded has every limit within its compiled bounds, with the
  flush threshold within the edit cache; a host is known exactly when its alias was found; each
  known host has the global limits and the root of the remote file system, and its alias is
  never read as an option, is never empty and holds no blank and no NUL; and the edit cache is configured
  with a budget far from the end of the machine integers.\<close>

theorem loaded_config_sound:
  assumes "load_with_discovery version limits aliases = Inr c" "\<forall>a \<in> set aliases. valid_alias a"
  shows "limits_ok (bc_limits c) \<and> bc_limits c = limits \<and>
    key_ordered (bc_hosts c) \<and> set (discover_hosts c) = set aliases \<and>
    (\<forall>a. require_discovered_alias c a = Inr a \<longleftrightarrow> a \<in> set aliases) \<and>
    (\<forall>a \<in> set aliases. config_host c a =
       Inr \<lparr>rh_alias = a, rh_profile = discovered_profile, rh_limits = config_limits c\<rparr> \<and>
       a \<noteq> [] \<and> hd a \<noteq> CHR ''-'' \<and> (\<forall>x \<in> set a. \<not> is_ascii_whitespace x \<and> x \<noteq> NUL)) \<and>
    cfg_flush_threshold_bytes (edit_cache_config_of c) \<le> cfg_max_bytes (edit_cache_config_of c) \<and>
    0 < cfg_flush_threshold_bytes (edit_cache_config_of c) \<and>
    cfg_max_bytes (edit_cache_config_of c) < u64_max"
proof -
  let ?hs = "fold (\<lambda>a. or_insert a discovered_profile) aliases []"
  have c: "c = \<lparr>bc_version = CONFIG_VERSION, bc_limits = limits, bc_hosts = ?hs\<rparr>" and ok: "limits_ok limits"
    using assms(1)
    by (auto simp: load_with_discovery_def Let_def bindR_eq_Inr validate_config_Inr merge_aliases_def)
  have mo: "map_of ?hs x = (if x \<in> set aliases then Some discovered_profile else None)" for x
    using merge_fold [of "[]" discovered_profile aliases x] by simp
  have ko: "key_ordered ?hs" using merge_fold [of "[]" discovered_profile aliases] by simp
  have keys: "fst ` set ?hs = set aliases"
    unfolding dom_map_of_conv_image_fst [symmetric] by (auto simp: mo split: if_splits)
  have v: "validate_config c = Inr ()" using assms(2) by (auto simp: c validate_config_Inr ok keys)
  have "config_host c a =
      Inr \<lparr>rh_alias = a, rh_profile = discovered_profile, rh_limits = config_limits c\<rparr>"
    if "a \<in> set aliases" for a
    using v that assms(2)
    by (simp add: config_host_def config_limits_def c mo) (simp add: discovered_profile_def)
  moreover have "require_discovered_alias c a = Inr a \<longleftrightarrow> a \<in> set aliases" for a
    using assms(2) by (simp add: require_discovered_alias_def c mo)
  moreover have "gl_edit_cache_max_bytes limits < u64_max"
    using ok by (simp add: limits_ok_def config_constants u64_max_def)
  moreover have "0 < gl_edit_flush_threshold_bytes limits"
    "gl_edit_flush_threshold_bytes limits \<le> gl_edit_cache_max_bytes limits"
    using ok by (simp_all add: limits_ok_def)
  moreover have "\<forall>a \<in> set aliases. a \<noteq> [] \<and> hd a \<noteq> CHR ''-'' \<and>
      (\<forall>x \<in> set a. \<not> is_ascii_whitespace x \<and> x \<noteq> NUL)"
    using assms(2) option_safe by blast
  moreover have "bc_limits c = limits" "key_ordered (bc_hosts c)" "set (discover_hosts c) = set aliases"
    "edit_cache_config_of c = \<lparr>cfg_flush_delay = gl_edit_flush_delay_ms limits,
       cfg_flush_threshold_bytes = gl_edit_flush_threshold_bytes limits,
       cfg_max_bytes = gl_edit_cache_max_bytes limits\<rparr>"
    using ko keys by (simp_all add: c discover_hosts_def edit_cache_config_of_def)
  ultimately show ?thesis using ok by simp
qed

lemma loaded_config_sound_witness:
  "set (discover_hosts (merge_aliases [''web'', ''db-1''] default_config)) = {''web'', ''db-1''}"
proof -
  have "validate_config default_config = Inr ()"
    using default_limits_ok by (simp add: validate_config_Inr) (simp add: default_config_def)
  then have "load_with_discovery 2 default_limits [''web'', ''db-1''] =
      Inr (merge_aliases [''web'', ''db-1''] default_config)"
    by (simp add: load_with_discovery_def default_config_def CONFIG_VERSION_def)
  moreover have "valid_alias ''web''" "valid_alias ''db-1''" by code_simp+
  ultimately show ?thesis
    using loaded_config_sound [of 2 default_limits "[''web'', ''db-1'']"] by simp
qed

end
