(* ===== verification/Write_Request.thy ===== *)
theory Write_Request
  imports Bridge_Config Edit_Sync Remote_Path Patch_Types
begin

text \<open>
  The guarded mutations of one file (\<open>src/remote/write.rs\<close>): the checks and the hash of a
  write or delete request, the arguments of the fixed operation, the answer it accepts, and
  the execution of a request that was checked.  The digest, Base64, the shell scripts and the
  runner are parameters, gathered in \<open>bridge\<close>.
\<close>

section \<open>Data\<close>

definition WRITE_PROTOCOL_LIMIT :: nat where "WRITE_PROTOCOL_LIMIT = 512"
definition MAX_INPUT_PATH_BYTES :: nat where "MAX_INPUT_PATH_BYTES = 64 * 1024"

datatype write_encoding = Write_Utf8 | Write_Base64
datatype write_mode = Mode_Create | Mode_Replace "string option"
datatype write_operation = Write_Create | Write_Replace
datatype mutation_target = Target_Write | Target_Delete | Target_Patch

record write_request =
  wq_host :: string
  wq_path :: string
  wq_content :: string
  wq_encoding :: write_encoding
  wq_mode :: write_mode

record guarded_delete_request =
  dq_host :: string
  dq_path :: string
  dq_expected_sha256 :: string

record prepared_mutation_path =
  pm_host :: string
  pm_path :: remote_path
  pm_parent :: string
  pm_basename :: string

record resolved_write =
  wv_host :: string
  wv_path :: remote_path
  wv_parent :: string
  wv_basename :: string
  wv_content :: string
  wv_operation :: write_operation
  wv_expected_sha256 :: "string option"
  wv_raw_bytes :: nat
  wv_sha256 :: string

record resolved_delete =
  dv_host :: string
  dv_path :: remote_path
  dv_parent :: string
  dv_basename :: string
  dv_expected_sha256 :: string

record write_success =
  ws_operation :: write_operation
  ws_size :: nat
  ws_sha256 :: string
  ws_mode :: nat

datatype write_protocol =
  Write_Success write_success | Write_Domain error_code | Write_CapabilityMismatch

datatype delete_protocol =
  Delete_Success string | Delete_Domain error_code | Delete_CapabilityMismatch

record write_result =
  wt_context :: remote_context
  wt_actual_path :: encoded_value
  wt_relative_path :: encoded_value
  wt_operation :: write_operation
  wt_raw_bytes :: nat
  wt_sha256 :: string
  wt_mode :: nat
  wt_temporary_cleanup_confirmed :: bool

record guarded_delete_result =
  dt_actual_path :: encoded_value
  dt_relative_path :: encoded_value
  dt_deleted_sha256 :: string
  dt_absence_confirmed :: bool

text \<open>
  What the operations use of the bridge.  \<open>br_run\<close> is \<open>execute_fixed_once\<close> over a state of its
  own; \<open>br_worker\<close> says whether the task that runs it is joined without a panic.  The backend of
  the edit cache is \<open>br_fetch\<close>, \<open>br_commit\<close> and the remembered \<open>br_context\<close>; a fetch runs a
  command over the same state as every other operation.  \<open>br_fuel\<close> bounds the passes of a flush.
\<close>

record 'r bridge =
  br_config :: bridge_config
  br_sha :: "string \<Rightarrow> string"
  br_base64 :: "string \<Rightarrow> string"
  br_unbase64 :: "string \<Rightarrow> string option"
  br_write_script :: string
  br_delete_script :: string
  br_snapshot_script :: string
  br_worker :: "'r \<Rightarrow> bool"
  br_run :: "'r runner"
  br_invalidate_capability :: "string \<Rightarrow> 'r \<Rightarrow> 'r"
  br_buffering :: bool
  br_fetch :: "cache_key \<Rightarrow> 'r \<Rightarrow> remote_snapshot edit_result \<times> 'r"
  br_commit :: "'r \<Rightarrow> string \<Rightarrow> commit_item list \<Rightarrow> commit_batch_outcome \<times> 'r"
  br_context :: "'r \<Rightarrow> string \<Rightarrow> remote_context option"
  br_fuel :: nat

section \<open>Errors\<close>

definition request_too_large :: bridge_error where
  "request_too_large =
     new_error RequestTooLarge ''write request exceeds the configured frame limit'' False"

definition write_too_large :: bridge_error where
  "write_too_large = new_error RequestTooLarge ''write content exceeds the configured limit'' False"

definition domain_error :: "error_code \<Rightarrow> bridge_error" where
  "domain_error code =
     (case code of
        WriteConflict \<Rightarrow> new_error WriteConflict ''remote write target conflicts with the request'' False
      | NotFound \<Rightarrow> not_found_error
      | NotDirectory \<Rightarrow> not_directory_error
      | PermissionDenied \<Rightarrow> permission_denied_error
      | _ \<Rightarrow> mutation_outcome_unknown_error)"

definition delete_domain_error :: "error_code \<Rightarrow> bridge_error" where
  "delete_domain_error code =
     (case code of
        WriteConflict \<Rightarrow>
          new_error WriteConflict ''remote delete target conflicts with the expected content'' False
      | NotFound \<Rightarrow> not_found_error
      | NotDirectory \<Rightarrow> not_directory_error
      | PermissionDenied \<Rightarrow> permission_denied_error
      | _ \<Rightarrow> mutation_outcome_unknown_error)"

definition attach_fixed_result_context ::
  "bridge_error \<Rightarrow> string \<Rightarrow> fixed_run_result \<Rightarrow> bridge_error" where
  "attach_fixed_result_context error host result =
     (let e = attach_available_remote_context error (Some host)
                (Some (cap_physical_root (fx_capability result)))
                (Some \<lparr>esm_kind = shell_name_text (sm_kind (shell_selection_metadata (fx_shell result))),
                       esm_version = sm_version (shell_selection_metadata (fx_shell result)),
                       esm_fallback = sm_fallback (shell_selection_metadata (fx_shell result))\<rparr>);
          d0 = be_details e;
          d1 = (if ed_elapsed_ms d0 = None then d0\<lparr>ed_elapsed_ms := Some (fx_elapsed_ms result)\<rparr> else d0);
          d2 = (if ed_bytes_seen d1 = None
                then d1\<lparr>ed_bytes_seen := Some (co_aggregate_bytes (fx_output result))\<rparr> else d1);
          d3 = (if ed_remote_process_may_continue d2 = None
                then d2\<lparr>ed_remote_process_may_continue := Some (fx_remote_process_may_continue result)\<rparr>
                else d2)
      in e\<lparr>be_details := d3\<rparr>)"

section \<open>Checks\<close>

definition validate_write_path :: "string \<Rightarrow> unit bridge_result" where
  "validate_write_path path =
     (if path = [] \<or> path = ''.'' then
        Inl (invalid_argument ''write target must not be empty or dot'')
      else if MAX_INPUT_PATH_BYTES < length path then Inl request_too_large
      else if NUL \<in> set path then Inl (invalid_argument ''NUL is not valid in a remote path'')
      else Inr ())"

definition hash_char :: "char \<Rightarrow> bool" where
  "hash_char c \<longleftrightarrow> is_ascii_digit c \<or> 97 \<le> byte c \<and> byte c \<le> 102"

definition validate_hash :: "string \<Rightarrow> unit bridge_result" where
  "validate_hash hash =
     (if length hash \<noteq> 64 \<or> \<not> list_all hash_char hash then
        Inl (invalid_argument ''expected SHA-256 must be 64 lowercase hexadecimal characters'')
      else Inr ())"

definition root_target_message :: "mutation_target \<Rightarrow> string" where
  "root_target_message target =
     (case target of
        Target_Write \<Rightarrow> ''write target must not be the remote filesystem root''
      | Target_Delete \<Rightarrow> ''delete target must not be the remote filesystem root''
      | Target_Patch \<Rightarrow> ''patch target must not be the remote filesystem root'')"

definition prepare_mutation_path ::
  "bridge_config \<Rightarrow> string \<Rightarrow> string \<Rightarrow> mutation_target \<Rightarrow> prepared_mutation_path bridge_result" where
  "prepare_mutation_path config host requested target =
     bindR (require_discovered_alias config host) (\<lambda>_.
     bindR (validate_write_path requested) (\<lambda>_.
     bindR (absolute requested) (\<lambda>path.
     if rp_absolute path = ''/'' then Inl (invalid_argument (root_target_message target))
     else
       bindR (split_parent_basename (rp_absolute path)) (\<lambda>(parent, basename).
         Inr \<lparr>pm_host = host, pm_path = path, pm_parent = parent, pm_basename = basename\<rparr>))))"

definition prepare_patch_path ::
  "bridge_config \<Rightarrow> string \<Rightarrow> string \<Rightarrow> prepared_mutation_path bridge_result" where
  "prepare_patch_path config host requested = prepare_mutation_path config host requested Target_Patch"

definition preflight_base64_length :: "string \<Rightarrow> nat \<Rightarrow> unit bridge_result" where
  "preflight_base64_length content max_write_bytes =
     (if content = [] then Inr ()
      else if length content mod 4 \<noteq> 0 then
        Inl (invalid_argument ''write content is not canonical Base64'')
      else
        (let padding = length (takeWhile (\<lambda>c. c = CHR ''='') (rev content)) in
         if 2 < padding \<or> CHR ''='' \<in> set (take (length content - padding) content) then
           Inl (invalid_argument ''write content is not canonical Base64'')
         else
           bindR (ok_or write_too_large
                    (Option.bind (checked_mul (length content div 4) 3) (\<lambda>n. checked_sub n padding)))
             (\<lambda>decoded_length.
                if max_write_bytes < decoded_length then Inl write_too_large else Inr ())))"

definition fixed_args :: "resolved_write \<Rightarrow> string list" where
  "fixed_args w =
     [wv_parent w, wv_basename w,
      (case wv_operation w of Write_Create \<Rightarrow> ''CREATE'' | Write_Replace \<Rightarrow> ''REPLACE''),
      decimal (wv_raw_bytes w), wv_sha256 w,
      (if wv_expected_sha256 w \<noteq> None then ''1'' else ''0''),
      case_option [] id (wv_expected_sha256 w)]"

definition delete_fixed_args :: "resolved_delete \<Rightarrow> string list" where
  "delete_fixed_args d = [dv_parent d, dv_basename d, dv_expected_sha256 d]"

definition decode_content ::
  "'r bridge \<Rightarrow> string \<Rightarrow> write_encoding \<Rightarrow> string bridge_result" where
  "decode_content b content encoding =
     (let maximum = lim_max_write_bytes (config_limits (br_config b)) in
      case encoding of
        Write_Utf8 \<Rightarrow> if maximum < length content then Inl write_too_large else Inr content
      | Write_Base64 \<Rightarrow>
          bindR (preflight_base64_length content maximum) (\<lambda>_.
          bindR (ok_or (invalid_argument ''write content is not canonical Base64'') (br_unbase64 b content))
            (\<lambda>decoded. if maximum < length decoded then Inl write_too_large else Inr decoded)))"

definition resolve_mode :: "write_mode \<Rightarrow> (write_operation \<times> string option) bridge_result" where
  "resolve_mode mode =
     (case mode of
        Mode_Create \<Rightarrow> Inr (Write_Create, None)
      | Mode_Replace None \<Rightarrow> Inr (Write_Replace, None)
      | Mode_Replace (Some expected) \<Rightarrow>
          bindR (validate_hash expected) (\<lambda>_. Inr (Write_Replace, Some expected)))"

definition preflight_write_resolved ::
  "'r bridge \<Rightarrow> prepared_mutation_path \<Rightarrow> string \<Rightarrow> write_encoding \<Rightarrow> write_mode
     \<Rightarrow> resolved_write bridge_result" where
  "preflight_write_resolved b prep content encoding mode =
     bindR (resolve_mode mode) (\<lambda>(operation, expected).
     bindR (decode_content b content encoding) (\<lambda>bytes.
     let w = \<lparr>wv_host = pm_host prep, wv_path = pm_path prep, wv_parent = pm_parent prep,
              wv_basename = pm_basename prep, wv_content = bytes, wv_operation = operation,
              wv_expected_sha256 = expected, wv_raw_bytes = length bytes, wv_sha256 = br_sha b bytes\<rparr>
     in
     bindR (render_fixed_command (br_write_script b) (fixed_args w)) (\<lambda>command.
     bindR (ok_or request_too_large (checked_add (length command) (length bytes))) (\<lambda>transport_bytes.
     if lim_max_frame_bytes (config_limits (br_config b)) < transport_bytes then Inl request_too_large
     else Inr w))))"

definition preflight_write :: "'r bridge \<Rightarrow> write_request \<Rightarrow> resolved_write bridge_result" where
  "preflight_write b q =
     bindR (prepare_mutation_path (br_config b) (wq_host q) (wq_path q) Target_Write) (\<lambda>path.
       preflight_write_resolved b path (wq_content q) (wq_encoding q) (wq_mode q))"

definition preflight_delete_resolved ::
  "'r bridge \<Rightarrow> prepared_mutation_path \<Rightarrow> string \<Rightarrow> resolved_delete bridge_result" where
  "preflight_delete_resolved b prep expected =
     bindR (config_host (br_config b) (pm_host prep)) (\<lambda>host.
     bindR (validate_hash expected) (\<lambda>_.
     let d = \<lparr>dv_host = pm_host prep, dv_path = pm_path prep, dv_parent = pm_parent prep,
              dv_basename = pm_basename prep, dv_expected_sha256 = expected\<rparr>
     in
     bindR (render_fixed_command (br_delete_script b) (delete_fixed_args d)) (\<lambda>command.
     if lim_max_frame_bytes (rh_limits host) < length command then Inl request_too_large
     else Inr d)))"

definition preflight_delete :: "'r bridge \<Rightarrow> guarded_delete_request \<Rightarrow> resolved_delete bridge_result" where
  "preflight_delete b q =
     bindR (prepare_mutation_path (br_config b) (dq_host q) (dq_path q) Target_Delete) (\<lambda>path.
       preflight_delete_resolved b path (dq_expected_sha256 q))"

section \<open>The answer of the script\<close>

definition parse_mutation_records :: "string \<Rightarrow> string list bridge_result" where
  "parse_mutation_records bytes =
     (if bytes = [] \<or> last bytes \<noteq> NUL then
        Inl (protocol_error ''write protocol is not NUL terminated'')
      else
        (let records = split_on NUL (take (length bytes - 1) bytes) in
         if list_ex (\<lambda>r. r = []) records then
           Inl (protocol_error ''write protocol contains an empty record'')
         else if records = [] then Inl (protocol_error ''write protocol is empty'')
         else Inr records))"

definition parse_decimal_field :: "string \<Rightarrow> string \<Rightarrow> nat bridge_result" where
  "parse_decimal_field rec pre =
     (let invalid = protocol_error ''write numeric field is invalid'' in
      bindR (ok_or invalid (strip_prefix pre rec)) (\<lambda>v.
        if v = [] \<or> \<not> list_all is_ascii_digit v then Inl invalid
        else ok_or invalid (parse_unsigned u64_max v)))"

definition parse_text_field :: "string \<Rightarrow> string \<Rightarrow> string bridge_result" where
  "parse_text_field rec pre =
     (let invalid = protocol_error ''write text field is invalid'' in
      bindR (ok_or invalid (strip_prefix pre rec)) (\<lambda>v.
        if valid_utf8 v then Inr v else Inl invalid))"

text \<open>The single status record that both scripts can print.\<close>

definition domain_status :: "string \<Rightarrow> error_code option" where
  "domain_status status =
     (if status = ''STATUS=WRITE_CONFLICT'' then Some WriteConflict
      else if status = ''STATUS=NOT_FOUND'' then Some NotFound
      else if status = ''STATUS=NOT_DIRECTORY'' then Some NotDirectory
      else if status = ''STATUS=PERMISSION_DENIED'' then Some PermissionDenied
      else None)"

definition parse_write_success ::
  "resolved_write \<Rightarrow> string \<Rightarrow> string \<Rightarrow> string \<Rightarrow> string \<Rightarrow> string \<Rightarrow> write_protocol bridge_result" where
  "parse_write_success w operation length_field sha mode cleanup =
     bindR (if operation = ''OPERATION=CREATE'' then Inr Write_Create
            else if operation = ''OPERATION=REPLACE'' then Inr Write_Replace
            else Inl (protocol_error ''write operation is invalid'')) (\<lambda>operation.
     bindR (parse_decimal_field length_field ''SIZE='') (\<lambda>bytes.
     bindR (parse_text_field sha ''SHA256='') (\<lambda>sha.
     bindR (map_err (\<lambda>_. protocol_error ''write hash is invalid'') (validate_hash sha)) (\<lambda>_.
     bindR (parse_decimal_field mode ''MODE='') (\<lambda>mode.
     if u32_max < mode then Inl (protocol_error ''write mode is invalid'')
     else if 511 < mode then Inl (protocol_error ''write mode is invalid'')
     else if cleanup \<noteq> ''TEMPORARY_CLEANUP_CONFIRMED=1'' then
       Inl (protocol_error ''write cleanup proof is invalid'')
     else if operation \<noteq> wv_operation w \<or> bytes \<noteq> wv_raw_bytes w \<or> sha \<noteq> wv_sha256 w \<or>
             operation = Write_Create \<and> mode \<noteq> 384 then
       Inl (protocol_error ''write success does not match the request'')
     else
       Inr (Write_Success \<lparr>ws_operation = operation, ws_size = bytes, ws_sha256 = sha, ws_mode = mode\<rparr>))))))"

definition parse_write_protocol_bytes ::
  "string \<Rightarrow> string \<Rightarrow> resolved_write \<Rightarrow> write_protocol bridge_result" where
  "parse_write_protocol_bytes stdout stderr w =
     (if stderr \<noteq> [] then Inl (protocol_error ''write protocol stderr is not empty'')
      else
        bindR (parse_mutation_records stdout) (\<lambda>records.
          let invalid = Inl (protocol_error ''write protocol record is invalid'') in
          case records of
            [status] \<Rightarrow>
              (case domain_status status of Some code \<Rightarrow> Inr (Write_Domain code) | None \<Rightarrow> invalid)
          | [status, capability] \<Rightarrow>
              if status = ''STATUS=CAPABILITY_MISMATCH'' \<and> capability = ''CAPABILITY=safe_write''
              then Inr Write_CapabilityMismatch else invalid
          | [status, operation, length_field, sha, mode, cleanup] \<Rightarrow>
              if status = ''STATUS=SUCCESS''
              then parse_write_success w operation length_field sha mode cleanup else invalid
          | _ \<Rightarrow> invalid))"

definition parse_delete_protocol_bytes ::
  "string \<Rightarrow> string \<Rightarrow> resolved_delete \<Rightarrow> delete_protocol bridge_result" where
  "parse_delete_protocol_bytes stdout stderr d =
     (if stderr \<noteq> [] then Inl (protocol_error ''delete protocol stderr is not empty'')
      else
        bindR (parse_mutation_records stdout) (\<lambda>records.
          let invalid = Inl (protocol_error ''delete protocol record is invalid'') in
          case records of
            [status] \<Rightarrow>
              (case domain_status status of Some code \<Rightarrow> Inr (Delete_Domain code) | None \<Rightarrow> invalid)
          | [status, capability] \<Rightarrow>
              if status = ''STATUS=CAPABILITY_MISMATCH'' \<and> capability = ''CAPABILITY=guarded_delete''
              then Inr Delete_CapabilityMismatch else invalid
          | [status, operation, sha, absence] \<Rightarrow>
              if status = ''STATUS=SUCCESS'' \<and> operation = ''OPERATION=DELETE'' \<and>
                 absence = ''ABSENCE_CONFIRMED=1'' then
                bindR (parse_text_field sha ''SHA256='') (\<lambda>sha.
                bindR (map_err (\<lambda>_. protocol_error ''delete hash is invalid'') (validate_hash sha)) (\<lambda>_.
                if sha \<noteq> dv_expected_sha256 d then
                  Inl (protocol_error ''delete success does not match the request'')
                else Inr (Delete_Success sha)))
              else invalid
          | _ \<Rightarrow> invalid))"

definition parse_write_protocol ::
  "fixed_run_result \<Rightarrow> resolved_write \<Rightarrow> write_protocol bridge_result" where
  "parse_write_protocol result w =
     bindR (read_small_stream (fx_output result) Stderr_Stream 1) (\<lambda>stderr.
     bindR (read_small_stream (fx_output result) Stdout_Stream WRITE_PROTOCOL_LIMIT) (\<lambda>stdout.
       parse_write_protocol_bytes stdout stderr w))"

definition parse_delete_protocol ::
  "fixed_run_result \<Rightarrow> resolved_delete \<Rightarrow> delete_protocol bridge_result" where
  "parse_delete_protocol result d =
     bindR (read_small_stream (fx_output result) Stderr_Stream 1) (\<lambda>stderr.
     bindR (read_small_stream (fx_output result) Stdout_Stream WRITE_PROTOCOL_LIMIT) (\<lambda>stdout.
       parse_delete_protocol_bytes stdout stderr d))"

section \<open>Execution\<close>

definition execute_owned_mutation ::
  "'r bridge \<Rightarrow> 'r \<Rightarrow> fixed_run_request \<Rightarrow> fixed_run_result bridge_result \<times> 'r" where
  "execute_owned_mutation b r request =
     (let (answer, r1) = br_run b r request
      in (if br_worker b r then answer else Inl mutation_outcome_unknown_error, r1))"

definition write_run_request :: "'r bridge \<Rightarrow> resolved_write \<Rightarrow> fixed_run_request" where
  "write_run_request b w =
     \<lparr>fr_kind = Op_Mutation, fr_host = wv_host w, fr_script = br_write_script b, fr_args = fixed_args w,
      fr_stdin = Some (wv_content w),
      fr_rooted = \<lparr>rpi_argument_indices = [0], rpi_argument_stride = None, rpi_stdin_nul_paths = False\<rparr>,
      fr_required = [''safe_write''], fr_stdout_limit = WRITE_PROTOCOL_LIMIT, fr_stderr_limit = 1,
      fr_timeout_ms = lim_command_timeout_ms (config_limits (br_config b))\<rparr>"

definition delete_run_request :: "'r bridge \<Rightarrow> resolved_delete \<Rightarrow> fixed_run_request" where
  "delete_run_request b d =
     \<lparr>fr_kind = Op_Mutation, fr_host = dv_host d, fr_script = br_delete_script b,
      fr_args = delete_fixed_args d, fr_stdin = None,
      fr_rooted = \<lparr>rpi_argument_indices = [0], rpi_argument_stride = None, rpi_stdin_nul_paths = False\<rparr>,
      fr_required = [''guarded_delete''], fr_stdout_limit = WRITE_PROTOCOL_LIMIT, fr_stderr_limit = 1,
      fr_timeout_ms = lim_command_timeout_ms (config_limits (br_config b))\<rparr>"

definition result_context :: "string \<Rightarrow> fixed_run_result \<Rightarrow> remote_context" where
  "result_context host result =
     mk_context host (cap_physical_root (fx_capability result)) (fx_shell result) (fx_helper_mode result)"

definition capability_mismatch_error :: "string \<Rightarrow> bridge_error" where
  "capability_mismatch_error operation =
     new_error RemoteCapabilityMissing
       (''remote '' @ operation @ '' capability is unavailable'') False"

definition execute_preflighted_write ::
  "'r bridge \<Rightarrow> 'r \<Rightarrow> resolved_write \<Rightarrow> write_result bridge_result \<times> 'r" where
  "execute_preflighted_write b r w =
     (case execute_owned_mutation b r (write_run_request b w) of
        (Inl error, r1) \<Rightarrow> (Inl error, r1)
      | (Inr result, r1) \<Rightarrow>
          (let attach = (\<lambda>e. attach_fixed_result_context e (wv_host w) result) in
           case parse_write_protocol result w of
             Inl _ \<Rightarrow> (Inl (attach mutation_outcome_unknown_error), r1)
           | Inr (Write_Success s) \<Rightarrow>
               (Inr \<lparr>wt_context = result_context (wv_host w) result,
                     wt_actual_path = encode_bytes (br_base64 b) (rp_absolute (wv_path w)),
                     wt_relative_path = encode_bytes (br_base64 b) (rp_relative (wv_path w)),
                     wt_operation = ws_operation s, wt_raw_bytes = ws_size s, wt_sha256 = ws_sha256 s,
                     wt_mode = ws_mode s, wt_temporary_cleanup_confirmed = True\<rparr>, r1)
           | Inr (Write_Domain code) \<Rightarrow> (Inl (attach (domain_error code)), r1)
           | Inr Write_CapabilityMismatch \<Rightarrow>
               (Inl (attach (capability_mismatch_error ''safe-write'')),
                br_invalidate_capability b (wv_host w) r1)))"

definition execute_preflighted_delete ::
  "'r bridge \<Rightarrow> 'r \<Rightarrow> resolved_delete \<Rightarrow> (guarded_delete_result \<times> remote_context) bridge_result \<times> 'r" where
  "execute_preflighted_delete b r d =
     (case execute_owned_mutation b r (delete_run_request b d) of
        (Inl error, r1) \<Rightarrow> (Inl error, r1)
      | (Inr result, r1) \<Rightarrow>
          (let attach = (\<lambda>e. attach_fixed_result_context e (dv_host d) result) in
           case parse_delete_protocol result d of
             Inl _ \<Rightarrow> (Inl (attach mutation_outcome_unknown_error), r1)
           | Inr (Delete_Success sha) \<Rightarrow>
               (Inr (\<lparr>dt_actual_path = encode_bytes (br_base64 b) (rp_absolute (dv_path d)),
                      dt_relative_path = encode_bytes (br_base64 b) (rp_relative (dv_path d)),
                      dt_deleted_sha256 = sha, dt_absence_confirmed = True\<rparr>,
                     result_context (dv_host d) result), r1)
           | Inr (Delete_Domain code) \<Rightarrow> (Inl (attach (delete_domain_error code)), r1)
           | Inr Delete_CapabilityMismatch \<Rightarrow>
               (Inl (attach (capability_mismatch_error ''guarded-delete'')),
                br_invalidate_capability b (dv_host d) r1)))"

definition guarded_delete ::
  "'r bridge \<Rightarrow> 'r \<Rightarrow> guarded_delete_request \<Rightarrow> guarded_delete_result bridge_result \<times> 'r" where
  "guarded_delete b r q =
     (case preflight_delete b q of
        Inl error \<Rightarrow> (Inl error, r)
      | Inr d \<Rightarrow> (let (answer, r1) = execute_preflighted_delete b r d in (map_sum id fst answer, r1)))"

section \<open>Writing through the edit cache\<close>

definition cancelled_write :: bridge_error where
  "cancelled_write = new_error Cancelled ''remote write was cancelled'' False"

definition missing_context :: bridge_error where
  "missing_context = new_error ProtocolError ''edit context is missing'' False"

text \<open>The content the request expects, against the content that is visible.\<close>

definition check_write_base :: "resolved_write \<Rightarrow> cached_entry \<Rightarrow> unit bridge_result" where
  "check_write_base w current =
     (let conflict = new_error WriteConflict ''remote write base conflicts with the request'' False in
      bindR
        (case (wv_operation w, ce_desired current) of
           (Write_Create, Deleted) \<Rightarrow> Inr ()
         | (Write_Replace, Present _) \<Rightarrow> Inr ()
         | _ \<Rightarrow> Inl conflict)
        (\<lambda>_.
           case wv_expected_sha256 w of
             None \<Rightarrow> Inr ()
           | Some expected \<Rightarrow>
               if \<not> is_present (ce_desired current) then Inl conflict
               else if ce_desired_sha256 current \<noteq> Some expected then
                 Inl (new_error WriteConflict ''remote write base hash conflicts with the request'' False)
               else Inr ()))"

type_synonym ('a, 'r) edit_run = "('a bridge_result \<times> mutate_effects \<times> cache_state \<times> 'r) option"

text \<open>
  The fallback: flush the host, run the operation on the host, and drop the clean entries
  when it succeeded.
\<close>

definition after_flush ::
  "'r bridge \<Rightarrow> nat \<Rightarrow> string \<Rightarrow> ('r \<Rightarrow> ('a bridge_result \<times> 'r) option) \<Rightarrow> cache_state \<Rightarrow> 'r
     \<Rightarrow> ('a, 'r) edit_run"
where
  "after_flush b now host execute s r =
     (case flush_host (br_fuel b) (br_commit b) now host s r of
        None \<Rightarrow> None
      | Some (Inl error, s1, r1) \<Rightarrow> Some (Inl (edit_bridge_error error), no_effects, s1, r1)
      | Some (Inr _, s1, r1) \<Rightarrow>
          (case execute r1 of
             None \<Rightarrow> None
           | Some (Inl error, r2) \<Rightarrow> Some (Inl error, no_effects, s1, r2)
           | Some (Inr result, r2) \<Rightarrow> Some (Inr result, no_effects, invalidate_clean_host host s1, r2)))"

definition write_key :: "resolved_write \<Rightarrow> cache_key" where
  "write_key w = \<lparr>key_host = wv_host w, key_path = rp_absolute (wv_path w)\<rparr>"

definition buffered_result :: "'r bridge \<Rightarrow> resolved_write \<Rightarrow> cached_entry \<Rightarrow> remote_context \<Rightarrow> write_result" where
  "buffered_result b w current context =
     \<lparr>wt_context = context,
      wt_actual_path = encode_bytes (br_base64 b) (rp_absolute (wv_path w)),
      wt_relative_path = encode_bytes (br_base64 b) (rp_relative (wv_path w)),
      wt_operation = wv_operation w, wt_raw_bytes = wv_raw_bytes w, wt_sha256 = wv_sha256 w,
      wt_mode = (case ce_base current of Base_Missing \<Rightarrow> 384 | Base_Regular _ mode \<Rightarrow> mode),
      wt_temporary_cleanup_confirmed = False\<rparr>"

definition write_edit :: "resolved_write \<Rightarrow> cached_entry \<Rightarrow> prepared_edit" where
  "write_edit w current =
     \<lparr>pe_key = write_key w, pe_expected_generation = ce_generation current,
      pe_desired = Present (wv_content w), pe_payload_bytes = length (wv_content w)\<rparr>"

definition write_loaded ::
  "'r bridge \<Rightarrow> nat \<Rightarrow> resolved_write \<Rightarrow> cached_entry \<Rightarrow> cache_state \<Rightarrow> 'r \<Rightarrow> (write_result, 'r) edit_run" where
  "write_loaded b now w current s r =
     (case check_write_base w current of
        Inl error \<Rightarrow> Some (Inl error, no_effects, s, r)
      | Inr _ \<Rightarrow>
          (case mutate_prepared_batch (edit_cache_config_of (br_config b)) (br_sha b) now
                  [write_edit w current] s of
             None \<Rightarrow> None
           | Some (Inl error, s1, effects) \<Rightarrow> Some (Inl (edit_bridge_error error), effects, s1, r)
           | Some (Inr Batch_ImmediateWriteRequired, s1, effects) \<Rightarrow>
               after_flush b now (wv_host w) (\<lambda>r. Some (execute_preflighted_write b r w)) s1 r
           | Some (Inr (Buffered _), s1, effects) \<Rightarrow>
               (case br_context b r (wv_host w) of
                  None \<Rightarrow> Some (Inl missing_context, effects, s1, r)
                | Some context \<Rightarrow>
                    Some (Inr (buffered_result b w current context), effects, s1, r))))"

definition bridge_write ::
  "'r bridge \<Rightarrow> nat \<Rightarrow> bool \<Rightarrow> write_request \<Rightarrow> cache_state \<Rightarrow> 'r \<Rightarrow> (write_result, 'r) edit_run" where
  "bridge_write b now cancelled q s r =
     (case preflight_write b q of
        Inl error \<Rightarrow> Some (Inl error, no_effects, s, r)
      | Inr w \<Rightarrow>
          if cancelled then Some (Inl cancelled_write, no_effects, s, r)
          else if \<not> br_buffering b then
            (let (result, r1) = execute_preflighted_write b r w in Some (result, no_effects, s, r1))
          else
            (case load_entry_complete (edit_cache_config_of (br_config b)) (br_sha b) (br_fetch b)
                    (write_key w) s r of
               (Inl error, s1, r1) \<Rightarrow> Some (Inl (edit_bridge_error error), no_effects, s1, r1)
             | (Inr Load_ImmediateWriteRequired, s1, r1) \<Rightarrow>
                 after_flush b now (wv_host w) (\<lambda>r. Some (execute_preflighted_write b r w)) s1 r1
             | (Inr (Cached current), s1, r1) \<Rightarrow> write_loaded b now w current s1 r1))"

end
