(* ===== verification/Write_Properties.thy ===== *)
theory Write_Properties
  imports Write_Request Runner_Properties
begin

text \<open>
  What a guarded write or delete promises: its answer is accepted only when it is the answer
  to the request, an error is definite only when the script said so, and a checked request is
  within the limits and names a file.
\<close>

section \<open>The answers of the scripts\<close>

text \<open>The records the scripts print, one \<open>printf\<close> each.\<close>

definition domain_text :: "error_code \<Rightarrow> string" where
  "domain_text code =
     (case code of
        WriteConflict \<Rightarrow> ''STATUS=WRITE_CONFLICT''
      | NotFound \<Rightarrow> ''STATUS=NOT_FOUND''
      | NotDirectory \<Rightarrow> ''STATUS=NOT_DIRECTORY''
      | _ \<Rightarrow> ''STATUS=PERMISSION_DENIED'')"

definition write_answer :: "write_protocol \<Rightarrow> string list" where
  "write_answer p =
     (case p of
        Write_Domain code \<Rightarrow> [domain_text code]
      | Write_CapabilityMismatch \<Rightarrow> [''STATUS=CAPABILITY_MISMATCH'', ''CAPABILITY=safe_write'']
      | Write_Success s \<Rightarrow>
          [''STATUS=SUCCESS'',
           (case ws_operation s of Write_Create \<Rightarrow> ''OPERATION=CREATE'' | Write_Replace \<Rightarrow> ''OPERATION=REPLACE''),
           ''SIZE='' @ decimal (ws_size s), ''SHA256='' @ ws_sha256 s, ''MODE='' @ decimal (ws_mode s),
           ''TEMPORARY_CLEANUP_CONFIRMED=1''])"

definition domain_code :: "error_code \<Rightarrow> bool" where
  "domain_code code \<longleftrightarrow> code \<in> {WriteConflict, NotFound, NotDirectory, PermissionDenied}"

definition answers_write :: "resolved_write \<Rightarrow> write_protocol \<Rightarrow> bool" where
  "answers_write w p \<longleftrightarrow>
     (case p of
        Write_Success s \<Rightarrow> ws_operation s = wv_operation w \<and> ws_size s = wv_raw_bytes w \<and>
          ws_sha256 s = wv_sha256 w \<and> ws_mode s \<le> 511 \<and> (wv_operation w = Write_Create \<longrightarrow> ws_mode s = 384)
      | Write_Domain code \<Rightarrow> domain_code code
      | Write_CapabilityMismatch \<Rightarrow> True)"

text \<open>The records of an accepted answer, up to leading zeros of the two numbers.\<close>

definition same_decimal :: "string \<Rightarrow> string \<Rightarrow> string \<Rightarrow> bool" where
  "same_decimal pre a b \<longleftrightarrow>
     (\<exists>u v. a = pre @ u \<and> b = pre @ v \<and> list_all is_ascii_digit u \<and> decimal_value u = decimal_value v)"

definition same_answer :: "string list \<Rightarrow> string list \<Rightarrow> bool" where
  "same_answer xs ys \<longleftrightarrow>
     list_all2 (\<lambda>x y. x = y \<or> same_decimal ''SIZE='' x y \<or> same_decimal ''MODE='' x y) xs ys"

lemma parse_mutation_records_iff:
  "parse_mutation_records bytes = Inr rs \<longleftrightarrow> rs \<noteq> [] \<and> nul_fields bytes = Inr rs"
  by (auto simp: parse_mutation_records_def nul_fields_def Let_def guard_eq_Inr)

lemma domain_status_eq:
  "domain_status status = Some code \<longleftrightarrow> domain_code code \<and> status = domain_text code"
  unfolding domain_code_def domain_status_def
  by (cases code) (simp_all add: domain_text_def)

lemma list_size_cases:
  "(case xs of [a] \<Rightarrow> f a | [a, b] \<Rightarrow> g a b | [a, b, c, d, e, h] \<Rightarrow> k a b c d e h | _ \<Rightarrow> Inl z) = Inr p \<longleftrightarrow>
     (\<exists>a. xs = [a] \<and> f a = Inr p) \<or> (\<exists>a b. xs = [a, b] \<and> g a b = Inr p) \<or>
     (\<exists>a b c d e h. xs = [a, b, c, d, e, h] \<and> k a b c d e h = Inr p)"
  by (auto split: list.splits)

lemma validate_hash_Inr: "validate_hash h = Inr u \<longleftrightarrow> length h = 64 \<and> list_all hash_char h"
  by (auto simp: validate_hash_def)

lemma hash_plain:
  assumes "validate_hash h = Inr ()"
  shows "valid_utf8 h" "NUL \<notin> set h"
proof -
  have "\<forall>c \<in> set h. byte c < 128 \<and> c \<noteq> NUL"
    using assms by (auto simp: validate_hash_Inr list_all_iff hash_char_def is_ascii_digit_def byte_def)
  then show "valid_utf8 h" "NUL \<notin> set h" by (auto intro: valid_utf8_ascii)
qed

lemma parse_decimal_field_decimal:
  "n \<le> u64_max \<Longrightarrow> parse_decimal_field (pre @ decimal n) pre = Inr n"
  by (simp add: parse_decimal_field_def Let_def strip_prefix_append decimal_digits parse_decimal_roundtrip)

lemma parse_decimal_field_Inr:
  "parse_decimal_field rec pre = Inr n \<Longrightarrow> same_decimal pre rec (pre @ decimal n)"
  by (auto simp: parse_decimal_field_def Let_def bindR_eq_Inr ok_or_eq_Inr guard_eq_Inr
      strip_prefix_eq_Some same_decimal_def parse_unsigned_def decimal_value_decimal is_ascii_digit_not_plus split: if_splits list.splits)

lemma parse_text_field_Inr: "parse_text_field rec pre = Inr v \<longleftrightarrow> rec = pre @ v \<and> valid_utf8 v"
  by (auto simp: parse_text_field_def Let_def bindR_eq_Inr ok_or_eq_Inr guard_eq_Inr strip_prefix_eq_Some)

lemma parse_text_field_hash:
  "validate_hash v = Inr () \<Longrightarrow> parse_text_field (''SHA256='' @ v) ''SHA256='' = Inr v"
  by (rule parse_text_field_Inr [THEN iffD2]) (simp add: hash_plain)

lemma parse_write_success_Inr:
  assumes "parse_write_success w oper len sha mode cleanup = Inr p"
  shows "answers_write w p \<and> same_answer [''STATUS=SUCCESS'', oper, len, sha, mode, cleanup] (write_answer p)"
proof -
  from assms obtain n m where n: "parse_decimal_field len ''SIZE='' = Inr n" "parse_decimal_field mode ''MODE='' = Inr m"
    "parse_text_field sha ''SHA256='' = Inr (wv_sha256 w)" "m \<le> 511"
    "oper = (case wv_operation w of Write_Create \<Rightarrow> ''OPERATION=CREATE'' | Write_Replace \<Rightarrow> ''OPERATION=REPLACE'')"
    "n = wv_raw_bytes w" "cleanup = ''TEMPORARY_CLEANUP_CONFIRMED=1''" "wv_operation w = Write_Create \<longrightarrow> m = 384"
    "p = Write_Success \<lparr>ws_operation = wv_operation w, ws_size = n, ws_sha256 = wv_sha256 w, ws_mode = m\<rparr>"
    unfolding parse_write_success_def bindR_eq_Inr guard_eq_Inr map_err_eq_Inr
    by (cases "wv_operation w") (auto split: if_splits)
  have "same_decimal ''SIZE='' len (''SIZE='' @ decimal n)" "same_decimal ''MODE='' mode (''MODE='' @ decimal m)"
    using n(1,2) by (auto dest: parse_decimal_field_Inr)
  with n show ?thesis
    by (simp add: answers_write_def write_answer_def same_answer_def parse_text_field_Inr)
qed

lemma parse_write_protocol_sound:
  assumes "parse_write_protocol_bytes stdout stderr w = Inr p"
  shows "stderr = [] \<and> answers_write w p \<and>
    (\<exists>rs. stdout = concat (map nul_record rs) \<and> same_answer rs (write_answer p))"
proof -
  from assms obtain rs where rs: "parse_mutation_records stdout = Inr rs" "stderr = []"
    by (auto simp: parse_write_protocol_bytes_def bindR_eq_Inr guard_eq_Inr)
  have out: "stdout = concat (map nul_record rs)"
    using rs(1) by (simp add: parse_mutation_records_iff nul_fields_iff)
  have refl: "same_answer xs xs" for xs by (simp add: same_answer_def list_all2_refl)
  have "answers_write w p \<and> same_answer rs (write_answer p)"
  proof -
    have "(case rs of [a] \<Rightarrow> (case domain_status a of Some code \<Rightarrow> Inr (Write_Domain code)
              | None \<Rightarrow> Inl (protocol_error ''write protocol record is invalid''))
        | [a, b] \<Rightarrow> if a = ''STATUS=CAPABILITY_MISMATCH'' \<and> b = ''CAPABILITY=safe_write''
              then Inr Write_CapabilityMismatch else Inl (protocol_error ''write protocol record is invalid'')
        | [a, b, c, d, e, h] \<Rightarrow> if a = ''STATUS=SUCCESS'' then parse_write_success w b c d e h
              else Inl (protocol_error ''write protocol record is invalid'')
        | _ \<Rightarrow> Inl (protocol_error ''write protocol record is invalid'')) = Inr p"
      using assms rs by (simp add: parse_write_protocol_bytes_def Let_def)
    then consider
        (domain) a code where "rs = [a]" "domain_status a = Some code" "p = Write_Domain code"
      | (capability) "rs = [''STATUS=CAPABILITY_MISMATCH'', ''CAPABILITY=safe_write'']" "p = Write_CapabilityMismatch"
      | (success) b c d e h where "rs = [''STATUS=SUCCESS'', b, c, d, e, h]" "parse_write_success w b c d e h = Inr p"
      unfolding list_size_cases by (auto split: option.splits if_splits)
    then show ?thesis
      by cases (auto simp: domain_status_eq answers_write_def write_answer_def refl dest: parse_write_success_Inr)
  qed
  with out rs(2) show ?thesis by blast
qed

lemma write_answer_records:
  assumes "answers_write w p" "validate_hash (wv_sha256 w) = Inr ()" "wv_raw_bytes w \<le> u64_max"
  shows "parse_mutation_records (concat (map nul_record (write_answer p))) = Inr (write_answer p)"
proof -
  have dec: "NUL \<notin> set (decimal n)" for n
    using decimal_digits [of n] by (auto simp: list_all_iff is_ascii_digit_def byte_def)
  have "\<forall>f \<in> set (write_answer p). f \<noteq> [] \<and> NUL \<notin> set f"
    using assms(1) hash_plain(2) [OF assms(2)]
    by (auto simp: write_answer_def answers_write_def domain_text_def dec
        split: write_protocol.splits error_code.splits write_operation.splits)
  moreover have "write_answer p \<noteq> []" by (simp add: write_answer_def split: write_protocol.splits)
  ultimately show ?thesis by (simp add: parse_mutation_records_iff nul_fields_iff)
qed

lemma parse_write_protocol_complete:
  assumes "answers_write w p" "validate_hash (wv_sha256 w) = Inr ()" "wv_raw_bytes w \<le> u64_max"
  shows "parse_write_protocol_bytes (concat (map nul_record (write_answer p))) [] w = Inr p"
proof (cases p)
  case (Write_Success s)
  have "ws_mode s \<le> u64_max" using assms(1) Write_Success by (simp add: answers_write_def u64_max_def)
  with assms(1) write_answer_records [OF assms] show ?thesis
    using hash_plain(1) [OF assms(2)] assms(2,3)
    by (cases "wv_operation w")
      (auto simp: Write_Success parse_write_protocol_bytes_def write_answer_def answers_write_def Let_def
        parse_write_success_def parse_decimal_field_decimal [where pre = "''SIZE=''", simplified]
        parse_decimal_field_decimal [where pre = "''MODE=''", simplified]
        parse_text_field_hash [simplified] u32_max_def)
next
  case (Write_Domain code)
  with assms(1) have "domain_status (domain_text code) = Some code"
    by (simp add: domain_status_eq answers_write_def)
  with write_answer_records [OF assms] show ?thesis
    by (simp add: Write_Domain parse_write_protocol_bytes_def write_answer_def Let_def)
next
  case Write_CapabilityMismatch
  with write_answer_records [OF assms] show ?thesis
    by (simp add: parse_write_protocol_bytes_def write_answer_def Let_def)
qed

text \<open>The delete script likewise.\<close>

definition delete_answer :: "delete_protocol \<Rightarrow> string list" where
  "delete_answer p =
     (case p of
        Delete_Domain code \<Rightarrow> [domain_text code]
      | Delete_CapabilityMismatch \<Rightarrow> [''STATUS=CAPABILITY_MISMATCH'', ''CAPABILITY=guarded_delete'']
      | Delete_Success sha \<Rightarrow>
          [''STATUS=SUCCESS'', ''OPERATION=DELETE'', ''SHA256='' @ sha, ''ABSENCE_CONFIRMED=1''])"

definition answers_delete :: "resolved_delete \<Rightarrow> delete_protocol \<Rightarrow> bool" where
  "answers_delete d p \<longleftrightarrow>
     (case p of
        Delete_Success sha \<Rightarrow> sha = dv_expected_sha256 d \<and> validate_hash sha = Inr ()
      | Delete_Domain code \<Rightarrow> domain_code code
      | Delete_CapabilityMismatch \<Rightarrow> True)"

lemma delete_size_cases:
  "(case xs of [a] \<Rightarrow> f a | [a, b] \<Rightarrow> g a b | [a, b, c, d] \<Rightarrow> k a b c d | _ \<Rightarrow> Inl z) = Inr p \<longleftrightarrow>
     (\<exists>a. xs = [a] \<and> f a = Inr p) \<or> (\<exists>a b. xs = [a, b] \<and> g a b = Inr p) \<or>
     (\<exists>a b c d. xs = [a, b, c, d] \<and> k a b c d = Inr p)"
  by (auto split: list.splits)

lemma parse_delete_protocol_iff:
  "parse_delete_protocol_bytes stdout stderr d = Inr p \<longleftrightarrow>
     stderr = [] \<and> answers_delete d p \<and> stdout = concat (map nul_record (delete_answer p))"
proof
  assume parse: "parse_delete_protocol_bytes stdout stderr d = Inr p"
  then obtain rs where rs: "parse_mutation_records stdout = Inr rs" "stderr = []"
    by (auto simp: parse_delete_protocol_bytes_def bindR_eq_Inr guard_eq_Inr)
  have out: "stdout = concat (map nul_record rs)"
    using rs(1) by (simp add: parse_mutation_records_iff nul_fields_iff)
  have "(case rs of [a] \<Rightarrow> (case domain_status a of Some code \<Rightarrow> Inr (Delete_Domain code)
            | None \<Rightarrow> Inl (protocol_error ''delete protocol record is invalid''))
      | [a, b] \<Rightarrow> if a = ''STATUS=CAPABILITY_MISMATCH'' \<and> b = ''CAPABILITY=guarded_delete''
            then Inr Delete_CapabilityMismatch else Inl (protocol_error ''delete protocol record is invalid'')
      | [a, b, c, e] \<Rightarrow>
          if a = ''STATUS=SUCCESS'' \<and> b = ''OPERATION=DELETE'' \<and> e = ''ABSENCE_CONFIRMED=1'' then
            bindR (parse_text_field c ''SHA256='') (\<lambda>sha.
            bindR (map_err (\<lambda>_. protocol_error ''delete hash is invalid'') (validate_hash sha)) (\<lambda>_.
            if sha \<noteq> dv_expected_sha256 d then
              Inl (protocol_error ''delete success does not match the request'')
            else Inr (Delete_Success sha)))
          else Inl (protocol_error ''delete protocol record is invalid'')
      | _ \<Rightarrow> Inl (protocol_error ''delete protocol record is invalid'')) = Inr p"
    using parse rs by (simp add: parse_delete_protocol_bytes_def Let_def)
  then have "answers_delete d p \<and> rs = delete_answer p"
    unfolding delete_size_cases bindR_eq_Inr guard_eq_Inr map_err_eq_Inr parse_text_field_Inr
    by (auto simp: answers_delete_def delete_answer_def domain_status_eq split: option.splits if_splits)
  with out rs(2) show "stderr = [] \<and> answers_delete d p \<and> stdout = concat (map nul_record (delete_answer p))"
    by simp
next
  assume a: "stderr = [] \<and> answers_delete d p \<and> stdout = concat (map nul_record (delete_answer p))"
  have "\<forall>f \<in> set (delete_answer p). f \<noteq> [] \<and> NUL \<notin> set f" "delete_answer p \<noteq> []"
    using a by (auto simp: delete_answer_def answers_delete_def domain_text_def
        split: delete_protocol.splits error_code.splits dest: hash_plain(2))
  with a have rs: "parse_mutation_records stdout = Inr (delete_answer p)"
    by (simp add: parse_mutation_records_iff nul_fields_iff)
  have "domain_status (domain_text code) = Some code" if "domain_code code" for code
    using that by (simp add: domain_status_eq)
  with a rs show "parse_delete_protocol_bytes stdout stderr d = Inr p"
    by (cases p)
      (auto simp: parse_delete_protocol_bytes_def delete_answer_def answers_delete_def Let_def
        parse_text_field_hash [simplified])
qed

text \<open>an answer of the write script is accepted only when it answers the request: the operation,
  the size and the hash asked for, a permission mode (0600 for a created file) or one of the four
  refusals; its bytes are then the records the script prints, up to leading zeros, and nothing on the
  standard error; and every answer the script can print is read back.  An answer of the delete script
  is accepted exactly when it is the printed answer for the hash asked for.\<close>

theorem mutation_answers_exact:
  assumes "validate_hash (wv_sha256 w) = Inr ()" "wv_raw_bytes w \<le> u64_max"
  shows "(\<forall>stdout stderr p. parse_write_protocol_bytes stdout stderr w = Inr p \<longrightarrow>
      stderr = [] \<and> answers_write w p \<and>
      (\<exists>rs. stdout = concat (map nul_record rs) \<and> same_answer rs (write_answer p))) \<and>
    (\<forall>p. answers_write w p \<longrightarrow>
      parse_write_protocol_bytes (concat (map nul_record (write_answer p))) [] w = Inr p) \<and>
    (\<forall>stdout stderr d p. parse_delete_protocol_bytes stdout stderr d = Inr p \<longleftrightarrow>
      stderr = [] \<and> answers_delete d p \<and> stdout = concat (map nul_record (delete_answer p)))"
  using parse_write_protocol_sound parse_write_protocol_complete [OF _ assms] parse_delete_protocol_iff
  by blast

definition demo_write :: resolved_write where
  "demo_write =
     \<lparr>wv_host = ''web'', wv_path = \<lparr>rp_absolute = ''/a/b'', rp_relative = ''a/b''\<rparr>, wv_parent = ''/a'',
      wv_basename = ''b'', wv_content = ''hello'', wv_operation = Write_Create, wv_expected_sha256 = None,
      wv_raw_bytes = 5, wv_sha256 = replicate 64 CHR ''a''\<rparr>"

definition demo_success :: write_success where
  "demo_success =
     \<lparr>ws_operation = Write_Create, ws_size = 5, ws_sha256 = replicate 64 CHR ''a'', ws_mode = 384\<rparr>"

lemma mutation_answers_exact_witness:
  "parse_write_protocol_bytes (concat (map nul_record (write_answer (Write_Success demo_success)))) []
     demo_write = Inr (Write_Success demo_success)"
proof -
  have "validate_hash (wv_sha256 demo_write) = Inr ()"
    by (simp add: validate_hash_Inr demo_write_def list_all_iff hash_char_def byte_def)
  moreover have "wv_raw_bytes demo_write \<le> u64_max" by (simp add: demo_write_def u64_max_def)
  moreover have "answers_write demo_write (Write_Success demo_success)"
    by (simp add: answers_write_def demo_write_def demo_success_def)
  ultimately show ?thesis using mutation_answers_exact [of demo_write] by blast
qed

section \<open>Execution over the session\<close>

lemma attach_fixed_result_fields [simp]:
  "be_code (attach_fixed_result_context e host result) = be_code e"
  "be_retryable (attach_fixed_result_context e host result) = be_retryable e"
  by (simp_all add: attach_fixed_result_context_def Let_def)

lemma standard_errors_final [simp]:
  "\<not> be_retryable mutation_outcome_unknown_error" "\<not> be_retryable not_found_error"
  "\<not> be_retryable not_directory_error" "\<not> be_retryable permission_denied_error"
  by (simp_all add: mutation_outcome_unknown_error_def not_found_error_def not_directory_error_def
      permission_denied_error_def Let_def)

lemma domain_error_fields [simp]:
  "domain_code code \<Longrightarrow> be_code (domain_error code) = code" "\<not> be_retryable (domain_error code)"
  "domain_code code \<Longrightarrow> be_code (delete_domain_error code) = code" "\<not> be_retryable (delete_domain_error code)"
  by (auto simp: domain_error_def delete_domain_error_def domain_code_def split: error_code.splits)

lemma owned_mutation_over_session:
  assumes "br_run b = session_runner limits world" "fr_kind request = Op_Mutation"
    and "execute_owned_mutation b sent request = (answer, sent')"
  shows "(\<exists>e. answer = Inl e) \<and> sent' = sent \<or>
    (\<exists>c. sent' = sent @ [c] \<and> prepare_command limits request = Inr c \<and>
      (case answer of
         Inl e \<Rightarrow> be_code e = MutationOutcomeUnknown \<and> \<not> be_retryable e
       | Inr result \<Rightarrow> fst (session_runner limits world sent request) = Inr result))"
proof (cases "execute_fixed_once limits (world sent) request")
  case (Pair res command)
  have run: "answer = (if br_worker b sent then res else Inl mutation_outcome_unknown_error)"
    "sent' = (case command of None \<Rightarrow> sent | Some c \<Rightarrow> sent @ [c])"
    "fst (session_runner limits world sent request) = res"
    using assms(3) Pair by (auto simp: execute_owned_mutation_def session_runner_def assms(1) Let_def)
  show ?thesis
  proof (cases command)
    case None
    then have "\<exists>e. res = Inl e" using Pair by (auto simp: execute_fixed_once_def split: sum.splits)
    with None run show ?thesis by auto
  next
    case (Some c)
    with Pair obtain cap mode where sent: "before_send limits (world sent) request = Inr (cap, mode, c)"
      "res = after_send (world sent) request cap mode c" using execute_sends by blast
    have "be_code e = MutationOutcomeUnknown \<and> \<not> be_retryable e" if "res = Inl e" for e
      using after_send_mutation [OF _ assms(2)] sent(2) that by metis
    with run Some before_send_command(1) [OF sent(1)] show ?thesis by (auto split: sum.splits)
  qed
qed

text \<open>The answers that make an error definite.\<close>

fun definite_write :: "write_protocol \<Rightarrow> error_code \<Rightarrow> bool" where
  "definite_write (Write_Domain code) c \<longleftrightarrow> c = code"
| "definite_write Write_CapabilityMismatch c \<longleftrightarrow> c = RemoteCapabilityMissing"
| "definite_write (Write_Success _) c \<longleftrightarrow> False"

fun definite_delete :: "delete_protocol \<Rightarrow> error_code \<Rightarrow> bool" where
  "definite_delete (Delete_Domain code) c \<longleftrightarrow> c = code"
| "definite_delete Delete_CapabilityMismatch c \<longleftrightarrow> c = RemoteCapabilityMissing"
| "definite_delete (Delete_Success _) c \<longleftrightarrow> False"

definition definite_error ::
  "(error_code \<Rightarrow> bool) \<Rightarrow> bridge_error \<Rightarrow> bool" where
  "definite_error said e \<longleftrightarrow>
     \<not> be_retryable e \<and> (be_code e = MutationOutcomeUnknown \<or> said (be_code e))"

definition write_settled ::
  "effective_limits \<Rightarrow> (session_command list \<Rightarrow> runner_world) \<Rightarrow> session_command list bridge
     \<Rightarrow> session_command list \<Rightarrow> resolved_write \<Rightarrow> write_result bridge_result \<Rightarrow> bool" where
  "write_settled limits world b sent w res \<longleftrightarrow>
     (case res of
        Inr t \<Rightarrow> wt_operation t = wv_operation w \<and> wt_raw_bytes t = wv_raw_bytes w \<and>
          wt_sha256 t = wv_sha256 w \<and> wt_mode t \<le> 511 \<and> wt_temporary_cleanup_confirmed t
      | Inl e \<Rightarrow> definite_error
          (\<lambda>code. \<exists>result p. fst (session_runner limits world sent (write_run_request b w)) = Inr result \<and>
             parse_write_protocol result w = Inr p \<and> definite_write p code) e)"

definition delete_settled ::
  "effective_limits \<Rightarrow> (session_command list \<Rightarrow> runner_world) \<Rightarrow> session_command list bridge
     \<Rightarrow> session_command list \<Rightarrow> resolved_delete \<Rightarrow> (guarded_delete_result \<times> remote_context) bridge_result
     \<Rightarrow> bool" where
  "delete_settled limits world b sent d res \<longleftrightarrow>
     (case res of
        Inr (t, _) \<Rightarrow> dt_deleted_sha256 t = dv_expected_sha256 d \<and> dt_absence_confirmed t
      | Inl e \<Rightarrow> definite_error
          (\<lambda>code. \<exists>result p. fst (session_runner limits world sent (delete_run_request b d)) = Inr result \<and>
             parse_delete_protocol result d = Inr p \<and> definite_delete p code) e)"

text \<open>Nothing was sent, or exactly the prepared command and the outcome is settled.\<close>

definition sent_at_most ::
  "effective_limits \<Rightarrow> fixed_run_request \<Rightarrow> session_command list \<Rightarrow> session_command list
     \<Rightarrow> ('a bridge_result \<Rightarrow> bool) \<Rightarrow> 'a bridge_result \<Rightarrow> bool" where
  "sent_at_most limits request sent sent' settled res \<longleftrightarrow>
     (\<exists>e. res = Inl e) \<and> sent' = sent \<or>
     (\<exists>c. sent' = sent @ [c] \<and> prepare_command limits request = Inr c \<and> settled res)"

lemma parse_write_protocol_answers:
  "parse_write_protocol result w = Inr p \<Longrightarrow> answers_write w p"
  using parse_write_protocol_sound by (fastforce simp: parse_write_protocol_def bindR_eq_Inr)

lemma parse_delete_protocol_answers:
  "parse_delete_protocol result d = Inr p \<Longrightarrow> answers_delete d p"
  using parse_delete_protocol_iff by (fastforce simp: parse_delete_protocol_def bindR_eq_Inr)

lemma write_over_session:
  assumes "br_run b = session_runner limits world" "\<And>h r. br_invalidate_capability b h r = r"
    and "execute_preflighted_write b sent w = (res, sent')"
  shows "sent_at_most limits (write_run_request b w) sent sent' (write_settled limits world b sent w) res"
proof (cases "execute_owned_mutation b sent (write_run_request b w)")
  case (Pair answer sent1)
  note owned = owned_mutation_over_session [OF assms(1) _ Pair]
  show ?thesis
  proof (cases answer)
    case (Inl e)
    with Pair assms(3) have "res = Inl e" "sent' = sent1" by (auto simp: execute_preflighted_write_def)
    with owned Inl show ?thesis
      by (auto simp: sent_at_most_def write_settled_def definite_error_def write_run_request_def)
  next
    case (Inr result)
    with owned have sent: "\<exists>c. sent1 = sent @ [c] \<and> prepare_command limits (write_run_request b w) = Inr c"
      and run: "fst (session_runner limits world sent (write_run_request b w)) = Inr result"
      by (auto simp: write_run_request_def)
    have "sent' = sent1 \<and> write_settled limits world b sent w res"
    proof (cases "parse_write_protocol result w")
      case (Inl e)
      with Inr Pair assms(3) show ?thesis
        by (auto simp: execute_preflighted_write_def Let_def write_settled_def definite_error_def)
    next
      case (Inr p)
      note a = parse_write_protocol_answers [OF Inr]
      show ?thesis
      proof (cases p)
        case (Write_Success s)
        with Inr \<open>answer = Inr result\<close> Pair assms(3) a show ?thesis
          by (auto simp: execute_preflighted_write_def Let_def write_settled_def answers_write_def)
      next
        case (Write_Domain code)
        with Inr \<open>answer = Inr result\<close> Pair assms(3) a run show ?thesis
          by (auto simp: execute_preflighted_write_def Let_def write_settled_def answers_write_def
              definite_error_def intro!: exI [of _ p])
      next
        case Write_CapabilityMismatch
        with Inr \<open>answer = Inr result\<close> Pair assms(2,3) run show ?thesis
          by (auto simp: execute_preflighted_write_def Let_def write_settled_def definite_error_def
              capability_mismatch_error_def intro!: exI [of _ p])
      qed
    qed
    with sent show ?thesis by (auto simp: sent_at_most_def)
  qed
qed

lemma delete_over_session:
  assumes "br_run b = session_runner limits world" "\<And>h r. br_invalidate_capability b h r = r"
    and "execute_preflighted_delete b sent d = (res, sent')"
  shows "sent_at_most limits (delete_run_request b d) sent sent' (delete_settled limits world b sent d) res"
proof (cases "execute_owned_mutation b sent (delete_run_request b d)")
  case (Pair answer sent1)
  note owned = owned_mutation_over_session [OF assms(1) _ Pair]
  show ?thesis
  proof (cases answer)
    case (Inl e)
    with Pair assms(3) have "res = Inl e" "sent' = sent1" by (auto simp: execute_preflighted_delete_def)
    with owned Inl show ?thesis
      by (auto simp: sent_at_most_def delete_settled_def definite_error_def delete_run_request_def)
  next
    case (Inr result)
    with owned have sent: "\<exists>c. sent1 = sent @ [c] \<and> prepare_command limits (delete_run_request b d) = Inr c"
      and run: "fst (session_runner limits world sent (delete_run_request b d)) = Inr result"
      by (auto simp: delete_run_request_def)
    have "sent' = sent1 \<and> delete_settled limits world b sent d res"
    proof (cases "parse_delete_protocol result d")
      case (Inl e)
      with Inr Pair assms(3) show ?thesis
        by (auto simp: execute_preflighted_delete_def Let_def delete_settled_def definite_error_def)
    next
      case (Inr p)
      with \<open>answer = Inr result\<close> Pair assms(2,3) run parse_delete_protocol_answers [OF Inr] show ?thesis
        by (cases p) (auto simp: execute_preflighted_delete_def Let_def delete_settled_def
            answers_delete_def definite_error_def capability_mismatch_error_def intro!: exI [of _ p])
    qed
    with sent show ?thesis by (auto simp: sent_at_most_def)
  qed
qed

text \<open>C28: a guarded write or delete sends nothing and fails, or hands exactly the command prepared for
  the request to the session.  Then a success repeats the operation, size and hash of the request (a
  delete its hash) with the cleanup or the absence confirmed, and an error is final: it says that the outcome
  is unknown, unless the answer of the script itself names this error.\<close>

theorem guarded_mutation_outcome:
  assumes "br_run b = session_runner limits world" "\<And>h r. br_invalidate_capability b h r = r"
  shows "(\<forall>w. case execute_preflighted_write b sent w of (res, sent') \<Rightarrow>
      sent_at_most limits (write_run_request b w) sent sent' (write_settled limits world b sent w) res) \<and>
    (\<forall>d. case execute_preflighted_delete b sent d of (res, sent') \<Rightarrow>
      sent_at_most limits (delete_run_request b d) sent sent' (delete_settled limits world b sent d) res)"
  using write_over_session [OF assms] delete_over_session [OF assms] by (auto split: prod.splits)

definition demo_bridge :: "session_command list bridge" where
  "demo_bridge =
     \<lparr>br_config = merge_aliases [''web''] default_config, br_sha = (\<lambda>_. replicate 64 CHR ''a''), br_base64 = id,
      br_unbase64 = (\<lambda>_. None), br_write_script = ''w'', br_delete_script = ''d'', br_snapshot_script = ''s'', br_worker = (\<lambda>_. True),
      br_run = session_runner (frame_limits 1000) (\<lambda>_. demo_world (Inr (demo_result 1)) (Inr empty_output)),
      br_invalidate_capability = (\<lambda>_ r. r), br_buffering = True,
      br_fetch = (\<lambda>_ r. (Inr \<lparr>sn_base = Base_Missing, sn_desired = Deleted\<rparr>, r)),
      br_commit = (\<lambda>r _ _. (successful [], r)), br_context = (\<lambda>_ _. None), br_fuel = 1\<rparr>"

lemma guarded_mutation_outcome_witness:
  "length (snd (execute_preflighted_write demo_bridge [] demo_write)) \<le> 1"
proof -
  have "br_run demo_bridge = session_runner (frame_limits 1000) (\<lambda>_. demo_world (Inr (demo_result 1)) (Inr empty_output))"
    "br_invalidate_capability demo_bridge h r = r" for h r by (simp_all add: demo_bridge_def)
  from guarded_mutation_outcome [OF this, THEN conjunct1, rule_format, of demo_write "[]"] show ?thesis
    by (cases "execute_preflighted_write demo_bridge [] demo_write") (auto simp: sent_at_most_def)
qed

section \<open>A checked request\<close>

lemma rsplit_once_last:
  assumes "c \<notin> set b"
  shows "rsplit_once c (a @ c # b) = Some (a, b)"
proof -
  have "position (\<lambda>x. x = c) (rev b @ c # rev a) = Some (length (rev b))"
    using assms by (intro position_append_hit) auto
  then show ?thesis by (simp add: rsplit_once_def Suc_diff_le)
qed

lemma join_snoc: "cs \<noteq> [] \<Longrightarrow> join_with sep (cs @ [c]) = join_with sep cs @ sep @ c"
  by (induction cs rule: induct_list012) (simp_all add: join_Cons)

lemma split_parent_canonical:
  assumes "canonical_path p" "p \<noteq> ''/''"
  shows "\<exists>parent base. split_parent_basename p = Inr (parent, base) \<and> canonical_path parent \<and>
    plain_component base \<and> p = (if parent = ''/'' then ''/'' else parent @ ''/'') @ base"
proof -
  from assms obtain cs where cs: "cs \<noteq> []" "list_all plain_component cs" "p = ''/'' @ join_with ''/'' cs"
    by (auto simp: canonical_path_def)
  then obtain ds base where ds: "cs = ds @ [base]" by (metis rev_exhaust)
  have base: "plain_component base" "list_all plain_component ds" using cs(2) ds by simp_all
  note b = plain_componentD [OF base(1)]
  show ?thesis
  proof (cases "ds = []")
    case True
    then have "p = [] @ SLASH # base" using cs(3) ds by simp
    then have "split_parent_basename p = Inr (''/'', base)"
      using b rsplit_once_last [of SLASH base "[]"] by (simp add: split_parent_basename_def)
    with True base(1) cs(3) ds show ?thesis by (auto simp: canonical_path_def)
  next
    case False
    let ?parent = "''/'' @ join_with ''/'' ds"
    have p: "p = ?parent @ SLASH # base" using cs(3) ds False by (simp add: join_snoc)
    then have "split_parent_basename p = Inr (?parent, base)"
      using b rsplit_once_last [of SLASH base ?parent] by (simp add: split_parent_basename_def)
    moreover have "canonical_path ?parent" using False base(2) by (auto simp: canonical_path_def)
    moreover have "?parent \<noteq> ''/''"
    proof -
      from False obtain d ds' where "ds = d # ds'" by (cases ds) auto
      with base(2) show ?thesis by (auto simp: join_Cons plain_component_def)
    qed
    ultimately show ?thesis using p base(1) by auto
  qed
qed

text \<open>A prepared path is a canonical path below the root, split into its parent and its last name.\<close>

definition prepared_ok :: "bridge_config \<Rightarrow> string \<Rightarrow> prepared_mutation_path \<Rightarrow> bool" where
  "prepared_ok config requested m \<longleftrightarrow>
     pm_host m \<in> set (discover_hosts config) \<and> absolute requested = Inr (pm_path m) \<and>
     length requested \<le> MAX_INPUT_PATH_BYTES \<and>
     canonical_path (pm_parent m) \<and> plain_component (pm_basename m) \<and>
     rp_absolute (pm_path m) = (if pm_parent m = ''/'' then ''/'' else pm_parent m @ ''/'') @ pm_basename m"

lemma absolute_canonical: "absolute req = Inr p \<Longrightarrow> canonical_path (rp_absolute p)"
  by (auto simp: absolute_def guard_eq_Inr intro: resolve_canonical)

lemma prepare_mutation_path_ok:
  assumes "prepare_mutation_path config host requested target = Inr m"
  shows "prepared_ok config requested m \<and> pm_host m = host"
proof -
  from assms obtain path parent base where
    m: "m = \<lparr>pm_host = host, pm_path = path, pm_parent = parent, pm_basename = base\<rparr>"
    and path: "absolute requested = Inr path" "rp_absolute path \<noteq> ''/''"
      "split_parent_basename (rp_absolute path) = Inr (parent, base)"
    and host: "require_discovered_alias config host = Inr host"
    and len: "length requested \<le> MAX_INPUT_PATH_BYTES"
    unfolding prepare_mutation_path_def bindR_eq_Inr guard_eq_Inr
    by (auto simp: validate_write_path_def require_discovered_alias_def guard_eq_Inr split: if_splits)
  have "host \<in> set (discover_hosts config)"
    using host by (auto simp: require_discovered_alias_def discover_hosts_def guard_eq_Inr map_of_eq_None_iff)
  with m path len split_parent_canonical [OF absolute_canonical [OF path(1)] path(2)] show ?thesis
    by (auto simp: prepared_ok_def)
qed

lemma decode_content_Inr:
  assumes "decode_content b content encoding = Inr bytes"
  shows "length bytes \<le> lim_max_write_bytes (config_limits (br_config b)) \<and>
    (case encoding of Write_Utf8 \<Rightarrow> bytes = content | Write_Base64 \<Rightarrow> br_unbase64 b content = Some bytes)"
  using assms
  by (cases encoding) (auto simp: decode_content_def Let_def bindR_eq_Inr guard_eq_Inr ok_or_eq_Inr)

lemma resolve_mode_Inr:
  assumes "resolve_mode mode = Inr (operation, expected)"
  shows "(case mode of
      Mode_Create \<Rightarrow> operation = Write_Create \<and> expected = None
    | Mode_Replace e \<Rightarrow> operation = Write_Replace \<and> expected = e \<and>
        (case e of None \<Rightarrow> True | Some h \<Rightarrow> validate_hash h = Inr ()))"
  using assms by (auto simp: resolve_mode_def bindR_eq_Inr split: write_mode.splits option.splits)

text \<open>a write request that passes the checks names a configured host and a file below the root of the
  remote file system, by its canonical parent and its last name; its content is the text or the decoded
  bytes, within the write limit, with their true length and hash; the operation and the expected hash are those
  of the request, well-formed; and the command with the content fits the frame.\<close>

theorem checked_write:
  assumes "preflight_write b q = Inr w"
  shows "(\<exists>m. prepared_ok (br_config b) (wq_path q) m \<and> pm_host m = wq_host q \<and> wv_host w = wq_host q \<and>
      wv_path w = pm_path m \<and> wv_parent w = pm_parent m \<and> wv_basename w = pm_basename m) \<and>
    (case wq_encoding q of
       Write_Utf8 \<Rightarrow> wv_content w = wq_content q
     | Write_Base64 \<Rightarrow> br_unbase64 b (wq_content q) = Some (wv_content w)) \<and>
    length (wv_content w) \<le> lim_max_write_bytes (config_limits (br_config b)) \<and>
    wv_raw_bytes w = length (wv_content w) \<and> wv_sha256 w = br_sha b (wv_content w) \<and>
    (case wq_mode q of
       Mode_Create \<Rightarrow> wv_operation w = Write_Create \<and> wv_expected_sha256 w = None
     | Mode_Replace e \<Rightarrow> wv_operation w = Write_Replace \<and> wv_expected_sha256 w = e \<and>
         (case e of None \<Rightarrow> True | Some h \<Rightarrow> validate_hash h = Inr ())) \<and>
    length (rendered_command (br_write_script b) (fixed_args w)) + length (wv_content w)
      \<le> lim_max_frame_bytes (config_limits (br_config b))"
proof -
  from assms obtain m operation expected bytes where
    m: "prepare_mutation_path (br_config b) (wq_host q) (wq_path q) Target_Write = Inr m"
    and mode: "resolve_mode (wq_mode q) = Inr (operation, expected)"
    and bytes: "decode_content b (wq_content q) (wq_encoding q) = Inr bytes"
    and w: "w = \<lparr>wv_host = pm_host m, wv_path = pm_path m, wv_parent = pm_parent m,
              wv_basename = pm_basename m, wv_content = bytes, wv_operation = operation,
              wv_expected_sha256 = expected, wv_raw_bytes = length bytes, wv_sha256 = br_sha b bytes\<rparr>"
    and frame: "length (rendered_command (br_write_script b) (fixed_args w)) + length bytes
        \<le> lim_max_frame_bytes (config_limits (br_config b))"
    by (auto simp: preflight_write_def preflight_write_resolved_def bindR_eq_Inr guard_eq_Inr Let_def
        ok_or_eq_Inr checked_add_def render_fixed_command_def render_text_Inr not_less split: if_splits)
  from prepare_mutation_path_ok [OF m] have "prepared_ok (br_config b) (wq_path q) m" "pm_host m = wq_host q"
    by simp_all
  moreover have "wv_host w = pm_host m" "wv_path w = pm_path m" "wv_parent w = pm_parent m"
    "wv_basename w = pm_basename m" "wv_content w = bytes" "wv_operation w = operation"
    "wv_expected_sha256 w = expected" "wv_raw_bytes w = length bytes" "wv_sha256 w = br_sha b bytes"
    by (simp_all add: w)
  ultimately show ?thesis
    using decode_content_Inr [OF bytes] resolve_mode_Inr [OF mode] frame by metis
qed

definition demo_create :: write_request where
  "demo_create =
     \<lparr>wq_host = ''web'', wq_path = ''/a/./b'', wq_content = ''hello'', wq_encoding = Write_Utf8,
      wq_mode = Mode_Create\<rparr>"

lemma demo_preflight: "preflight_write demo_bridge demo_create = Inr demo_write"
  by code_simp

lemma checked_write_witness:
  "length (rendered_command ''w'' (fixed_args demo_write)) + length (wv_content demo_write) \<le> 8388608"
  using checked_write [OF demo_preflight]
  by (simp add: demo_bridge_def config_limits_def effective_limits_for_def merge_aliases_def
      default_config_def default_limits_def config_constants)

end
