(* ===== verification/Edit_Load.thy ===== *)
theory Edit_Load
  imports Edit_Properties
begin

text \<open>
  Loads and batches as relations between the cache before and after: a load keeps every entry
  with pending work and adds only what the backend answered; a buffered batch stores its edits
  and touches nothing else but clean entries.  The operations that read files through the cache
  and then edit them (write, patch) are composed from these.
\<close>

section \<open>Loads\<close>

text \<open>
  What the backend may answer to a read of a key is a relation \<open>f\<close> of keys and snapshots.  The
  same entry up to its place in the order of use.
\<close>

definition kept :: "entry \<Rightarrow> entry \<Rightarrow> bool" where
  "kept e e' \<longleftrightarrow> e' = e\<lparr>en_lru_sequence := en_lru_sequence e'\<rparr>"

definition answered ::
  "(string \<Rightarrow> string) \<Rightarrow> (cache_key \<Rightarrow> remote_snapshot \<Rightarrow> bool) \<Rightarrow> string \<Rightarrow> string \<Rightarrow> entry \<Rightarrow> bool"
where
  "answered sha f h p e \<longleftrightarrow>
     (\<exists>sn lru. f \<lparr>key_host = h, key_path = p\<rparr> sn \<and> e = clean_entry sha sn lru)"

definition loading ::
  "(string \<Rightarrow> string) \<Rightarrow> (cache_key \<Rightarrow> remote_snapshot \<Rightarrow> bool) \<Rightarrow> cache_state \<Rightarrow> cache_state \<Rightarrow> bool"
where
  "loading sha f s t \<longleftrightarrow>
     st_next_generation t = st_next_generation s \<and>
     (\<forall>h p e. get_entry s h p = Some e \<longrightarrow> en_dirty e \<or> en_in_flight e \<noteq> None \<longrightarrow>
        (\<exists>e'. get_entry t h p = Some e' \<and> kept e e')) \<and>
     (\<forall>h p e'. get_entry t h p = Some e' \<longrightarrow>
        (\<exists>e. get_entry s h p = Some e \<and> kept e e') \<or> answered sha f h p e')"

lemma key_eta [simp]: "\<lparr>key_host = key_host k, key_path = key_path k\<rparr> = k"
  by (cases k) simp

lemma kept_fields:
  assumes "kept e e'"
  shows "en_base e' = en_base e" "en_desired e' = en_desired e" "en_desired_sha256 e' = en_desired_sha256 e"
    "en_generation e' = en_generation e" "en_dirty e' = en_dirty e" "en_in_flight e' = en_in_flight e"
    "en_conflict e' = en_conflict e"
  using assms unfolding kept_def by (metis entry.select_convs entry.surjective entry.update_convs(8))+

lemma kept_refl [simp]: "kept e e"
  by (simp add: kept_def)

lemma kept_lru [simp]: "kept e (e\<lparr>en_lru_sequence := n\<rparr>)"
  by (simp add: kept_def)

lemma kept_trans: "kept e e' \<Longrightarrow> kept e' e'' \<Longrightarrow> kept e e''"
  unfolding kept_def by (metis entry.surjective entry.update_convs(8))

lemma answered_kept: "answered sha f h p e \<Longrightarrow> kept e e' \<Longrightarrow> answered sha f h p e'"
  unfolding answered_def kept_def by (metis clean_entry_def entry.update_convs(8))

lemma answered_clean: "answered sha f h p e \<Longrightarrow> \<not> en_dirty e \<and> en_in_flight e = None \<and> en_conflict e = None"
  by (auto simp: answered_def clean_entry_def)

lemma loading_refl: "loading sha f s s"
  by (auto simp: loading_def intro: kept_refl)

lemma loading_trans:
  assumes "loading sha f s t" "loading sha f t u"
  shows "loading sha f s u"
  unfolding loading_def
proof (intro conjI allI impI)
  show "st_next_generation u = st_next_generation s" using assms by (simp add: loading_def)
next
  fix h p e assume e: "get_entry s h p = Some e" "en_dirty e \<or> en_in_flight e \<noteq> None"
  with assms(1) obtain e' where e': "get_entry t h p = Some e'" "kept e e'" unfolding loading_def by blast
  with e(2) have "en_dirty e' \<or> en_in_flight e' \<noteq> None" by (simp add: kept_fields [OF e'(2)])
  with assms(2) e'(1) obtain e'' where "get_entry u h p = Some e''" "kept e' e''" unfolding loading_def by blast
  with e'(2) show "\<exists>e'. get_entry u h p = Some e' \<and> kept e e'" using kept_trans by blast
next
  fix h p e'' assume "get_entry u h p = Some e''"
  with assms(2) consider e' where "get_entry t h p = Some e'" "kept e' e''" | "answered sha f h p e''"
    unfolding loading_def by blast
  then show "(\<exists>e. get_entry s h p = Some e \<and> kept e e'') \<or> answered sha f h p e''"
  proof cases
    case 1
    with assms(1) show ?thesis unfolding loading_def using kept_trans answered_kept by metis
  qed simp
qed

lemma loading_same:
  "get_entry t = get_entry s \<Longrightarrow> st_next_generation t = st_next_generation s \<Longrightarrow> loading sha f s t"
  by (auto simp: loading_def)

lemma loading_touch:
  "loading sha f s (update_entry h p (\<lambda>e. e\<lparr>en_lru_sequence := n\<rparr>) (s\<lparr>st_lru_sequence := m\<rparr>))"
proof -
  have "st_next_generation (update_entry h p (\<lambda>e. e\<lparr>en_lru_sequence := n\<rparr>) (s\<lparr>st_lru_sequence := m\<rparr>)) =
      st_next_generation s"
    by (simp add: update_entry_adjust)
  then show ?thesis by (auto simp: loading_def get_entry_update_entry)
qed

lemma loading_lookup_entry: "loading sha f s (snd (lookup_entry key s))"
  by (auto simp: lookup_entry_def next_lru_def Let_def loading_touch loading_same split: option.splits)

lemma loading_lookup: "loading sha f s (snd (lookup_complete key s))"
  by (auto simp: lookup_complete_def lookup_complete_with_hash_def next_lru_def Let_def loading_touch
      loading_same split: option.splits)

lemma loading_evicts: "only_evicts [] s t \<Longrightarrow> loading sha f s t"
  unfolding loading_def only_evicts_def evictable_def by (metis kept_refl option.distinct(1) option.inject)

lemma loading_insert:
  assumes "f key sn" "get_entry s (key_host key) (key_path key) = None"
  shows "loading sha f s (insert_clean sha key sn s)"
proof -
  have "st_next_generation (insert_clean sha key sn s) = st_next_generation s"
    by (simp add: insert_clean_def next_lru_def Let_def insert_entry_def ensure_host_def update_host_adjust split: option.splits)
  then show ?thesis
    using assms by (auto simp: loading_def insert_clean_entry answered_def)
qed

lemma loading_load_fetched:
  assumes "cache_ok cfg s" "f key sn"
  shows "loading sha f s (snd (load_fetched cfg sha key sn s))"
proof -
  have "loads sha key sn s (snd (load_fetched cfg sha key sn s))" by (rule load_fetched_loads [OF assms(1)])
  then obtain u where u: "only_evicts [] s u" "snd (load_fetched cfg sha key sn s) = u \<or>
      get_entry s (key_host key) (key_path key) = None \<and> snd (load_fetched cfg sha key sn s) = insert_clean sha key sn u"
    unfolding loads_def by blast
  note e = loading_evicts [OF u(1), of sha f]
  show ?thesis
  proof (cases "snd (load_fetched cfg sha key sn s) = u")
    case False
    with u have "get_entry u (key_host key) (key_path key) = None"
      unfolding only_evicts_def by (metis option.distinct(1))
    from loading_trans [OF e loading_insert [where f = f, OF assms(2) this]] u(2) False show ?thesis by simp
  qed (use e in simp)
qed

lemma lookup_complete_None:
  assumes "lookup_complete key s = (x, t)"
  shows "x = None \<longleftrightarrow> get_entry s (key_host key) (key_path key) = None"
    "get_entry t (key_host key) (key_path key) = None \<longleftrightarrow> get_entry s (key_host key) (key_path key) = None"
  using assms
  by (auto simp: lookup_complete_def lookup_complete_with_hash_def next_lru_def Let_def get_entry_update_entry
      split: option.splits)

lemma lookup_entry_None:
  assumes "lookup_entry key s = (x, t)"
  shows "x = Inr None \<longleftrightarrow> get_entry s (key_host key) (key_path key) = None"
    "get_entry t (key_host key) (key_path key) = None \<longleftrightarrow> get_entry s (key_host key) (key_path key) = None"
  using assms
  by (auto simp: lookup_entry_def next_lru_def Let_def get_entry_update_entry split: option.splits)

text \<open>The one command of a load: a read of a file that is not cached.\<close>

definition read_missing ::
  "(cache_key \<Rightarrow> 'r \<Rightarrow> remote_snapshot edit_result \<times> 'r) \<Rightarrow> cache_key \<Rightarrow> cache_state \<Rightarrow> 'r \<Rightarrow> 'r" where
  "read_missing fetch key s r =
     (if get_entry s (key_host key) (key_path key) = None then snd (fetch key r) else r)"

lemma load_complete_loading:
  assumes "load_complete cfg sha fetch key s r = (res, t, r')" "cache_ok cfg s" "cfg_max_bytes cfg < u64_max"
    and "\<And>sn. fst (fetch key r) = Inr sn \<Longrightarrow> f key sn"
  shows "loading sha f s t \<and> cache_ok cfg t \<and> r' = read_missing fetch key s r"
proof -
  obtain x1 s1 where l1: "lookup_complete key s = (x1, s1)" by force
  obtain x2 s2 where l2: "lookup_complete key (ensure_host (key_host key) s1) = (x2, s2)" by force
  note none1 = lookup_complete_None [OF l1] and none2 = lookup_complete_None [OF l2]
  have ok_lookup: "cache_ok cfg (snd (lookup_complete key x))" if "cache_ok cfg x" for x
    using cache_ok_lookup [OF that, of key]
    by (cases "lookup_complete_with_hash key x") (simp add: lookup_complete_def)
  have ok1: "cache_ok cfg s1" using ok_lookup [OF assms(2)] l1 by simp
  then have ok2: "cache_ok cfg s2"
    using ok_lookup [OF cache_ok_ensure, of s1 "key_host key"] l2 by simp
  have "loading sha f s s1" using loading_lookup [of sha f s key] l1 by simp
  moreover have "loading sha f s1 (ensure_host (key_host key) s1)"
    by (intro loading_same) (simp_all add: fun_eq_iff)
  moreover have "loading sha f (ensure_host (key_host key) s1) s2"
    using loading_lookup [of sha f "ensure_host (key_host key) s1" key] l2 by simp
  ultimately have load1: "loading sha f s s1" and load2: "loading sha f s s2"
    using loading_trans by blast+
  show ?thesis
  proof (cases x1)
    case (Some d)
    with assms(1) l1 load1 ok1 none1 show ?thesis by (auto simp: load_complete_def read_missing_def)
  next
    case None
    with none1 none2 have missing: "x2 = None" "get_entry s (key_host key) (key_path key) = None" by simp_all
    obtain answer r1 where fetch: "fetch key r = (answer, r1)" by force
    show ?thesis
    proof (cases answer)
      case (Inl e)
      with None missing assms(1) l1 l2 load2 ok2 fetch show ?thesis by (simp add: load_complete_def read_missing_def)
    next
      case (Inr sn)
      obtain d u where lf: "load_fetched cfg sha key sn s2 = (d, u)" by force
      with Inr None missing assms(1) l1 l2 fetch have "t = u" "r' = r1" by (simp_all add: load_complete_def)
      moreover have "f key sn" using assms(4) fetch Inr by simp
      then have "loading sha f s u"
        using loading_trans [OF load2 loading_load_fetched [where f = f, OF ok2]] lf by fastforce
      ultimately show ?thesis
        using cache_ok_load_fetched [OF lf ok2 assms(3)] missing fetch by (simp add: read_missing_def)
    qed
  qed
qed

text \<open>What a caller of \<open>load_entry_complete\<close> holds is the entry as it then is.\<close>

definition holds_entry :: "cache_state \<Rightarrow> cache_key \<Rightarrow> cached_entry \<Rightarrow> bool" where
  "holds_entry s key c \<longleftrightarrow>
     (\<exists>e. get_entry s (key_host key) (key_path key) = Some e \<and> en_conflict e = None \<and>
        c = \<lparr>ce_base = en_base e, ce_desired = en_desired e, ce_desired_sha256 = en_desired_sha256 e,
             ce_generation = en_generation e\<rparr>)"

lemma lookup_entry_holds:
  "lookup_entry key s = (Inr (Some c), t) \<Longrightarrow> holds_entry t key c"
  by (auto simp: lookup_entry_def next_lru_def Let_def holds_entry_def get_entry_update_entry split: option.splits)

lemma load_entry_loading:
  assumes "load_entry_complete cfg sha fetch key s r = (res, t, r')" "cache_ok cfg s" "cfg_max_bytes cfg < u64_max"
    and "\<And>sn. fst (fetch key r) = Inr sn \<Longrightarrow> f key sn"
  shows "loading sha f s t \<and> cache_ok cfg t \<and> r' = read_missing fetch key s r \<and>
    (\<forall>c. res = Inr (Cached c) \<longrightarrow> holds_entry t key c)"
proof -
  obtain x1 s1 where l1: "lookup_entry key s = (x1, s1)" by force
  obtain x2 s2 r2 where l2: "load_complete cfg sha fetch key s1 r = (x2, s2, r2)" by (cases "load_complete cfg sha fetch key s1 r") auto
  obtain x3 s3 where l3: "lookup_entry key s2 = (x3, s3)" by force
  have ok1: "cache_ok cfg s1" using cache_ok_lookup_entry [OF assms(2), of key] l1 by simp
  note two = load_complete_loading [where f = f, OF l2 ok1 assms(3,4)]
  have ok3: "cache_ok cfg s3" using cache_ok_lookup_entry two l3 by (metis snd_conv)
  have one: "loading sha f s s1" using loading_lookup_entry [of sha f s key] l1 by simp
  have three: "loading sha f s2 s3" using loading_lookup_entry [of sha f s2 key] l3 by simp
  have same: "read_missing fetch key s1 r = read_missing fetch key s r"
    using lookup_entry_None(2) [OF l1] by (simp add: read_missing_def)
  note all = one two ok1 ok3 same loading_trans [OF one] loading_trans [OF loading_trans [OF one two [THEN conjunct1]] three]
  note held = lookup_entry_holds [of key s _ s1] lookup_entry_holds [of key s2 _ s3]
  show ?thesis
  proof (cases "x1 = Inr None")
    case True
    with assms(1) l1 l2 l3 all held show ?thesis
      by (auto simp: load_entry_complete_def split: sum.splits option.splits)
  next
    case False
    then have "read_missing fetch key s r = r" using lookup_entry_None(1) [OF l1] by (auto simp: read_missing_def)
    with False assms(1) l1 one ok1 held show ?thesis
      by (auto simp: load_entry_complete_def split: sum.splits option.splits)
  qed
qed

section \<open>What a caller has seen\<close>

text \<open>
  The content of a file for a reader of the cache: the content of its entry, or, where there is
  no entry with pending work, the content on the host.
\<close>

definition seen ::
  "(cache_key \<Rightarrow> remote_snapshot \<Rightarrow> bool) \<Rightarrow> cache_state \<Rightarrow> cache_key \<Rightarrow> desired_state \<Rightarrow> bool"
where
  "seen f s key d \<longleftrightarrow>
     (\<exists>e. get_entry s (key_host key) (key_path key) = Some e \<and> en_conflict e = None \<and> en_desired e = d) \<or>
     (\<forall>e. get_entry s (key_host key) (key_path key) = Some e \<longrightarrow> \<not> en_dirty e \<and> en_in_flight e = None) \<and>
     (\<exists>sn. f key sn \<and> sn_desired sn = d)"

lemma loading_holds_seen:
  assumes "loading sha f s t" "holds_entry t key c"
  shows "seen f s key (ce_desired c)"
proof -
  let ?h = "key_host key" and ?p = "key_path key"
  from assms(2) obtain e' where e': "get_entry t ?h ?p = Some e'" "en_conflict e' = None" "en_desired e' = ce_desired c"
    by (auto simp: holds_entry_def)
  with assms(1) consider (old) e where "get_entry s ?h ?p = Some e" "kept e e'" | (fetched) "answered sha f ?h ?p e'"
    unfolding loading_def by blast
  then show ?thesis
  proof cases
    case old
    with e' show ?thesis by (auto simp: seen_def kept_fields)
  next
    case fetched
    then obtain sn where sn: "f key sn" "sn_desired sn = ce_desired c"
      using e'(3) by (auto simp: answered_def clean_entry_def)
    show ?thesis
    proof (cases "\<forall>e. get_entry s ?h ?p = Some e \<longrightarrow> \<not> en_dirty e \<and> en_in_flight e = None")
      case True
      with sn show ?thesis by (auto simp: seen_def)
    next
      case False
      then obtain e where e: "get_entry s ?h ?p = Some e" "en_dirty e \<or> en_in_flight e \<noteq> None" by blast
      with assms(1) e'(1) have "kept e e'" unfolding loading_def by force
      with e e' show ?thesis by (auto simp: seen_def kept_fields)
    qed
  qed
qed

section \<open>Batches\<close>

definition pending_kept :: "cache_key list \<Rightarrow> cache_state \<Rightarrow> cache_state \<Rightarrow> bool" where
  "pending_kept keys s t \<longleftrightarrow>
     (\<forall>h p e. get_entry s h p = Some e \<longrightarrow> en_dirty e \<or> en_in_flight e \<noteq> None \<longrightarrow>
        \<lparr>key_host = h, key_path = p\<rparr> \<notin> set keys \<longrightarrow>
        (\<exists>e'. get_entry t h p = Some e' \<and> kept e e'))"

lemma loading_pending: "loading sha f s t \<Longrightarrow> pending_kept keys s t"
  unfolding loading_def pending_kept_def by blast

lemma pending_kept_trans:
  assumes "pending_kept [] s t" "pending_kept keys t u"
  shows "pending_kept keys s u"
  unfolding pending_kept_def
proof (intro allI impI)
  fix h p e assume e: "get_entry s h p = Some e" "en_dirty e \<or> en_in_flight e \<noteq> None"
    "\<lparr>key_host = h, key_path = p\<rparr> \<notin> set keys"
  with assms(1) obtain e' where e': "get_entry t h p = Some e'" "kept e e'" unfolding pending_kept_def by force
  with e(2) have "en_dirty e' \<or> en_in_flight e' \<noteq> None" by (simp add: kept_fields [OF e'(2)])
  with assms(2) e'(1) e(3) obtain e'' where "get_entry u h p = Some e''" "kept e' e''"
    unfolding pending_kept_def by blast
  with e'(2) show "\<exists>e'. get_entry u h p = Some e' \<and> kept e e'" using kept_trans by blast
qed

lemma mutate_batch_effect:
  assumes "mutate_prepared_batch cfg sha now edits s = Some (r, t, eff)" "cache_ok cfg s"
    and "cfg_max_bytes cfg < u64_max" "st_next_generation s + length edits \<le> u64_max"
  shows "cache_ok cfg t \<and>
    (case r of
       Inr (Buffered gs) \<Rightarrow> batch_stored sha edits s t gs \<and> pending_kept (map pe_key edits) s t
     | _ \<Rightarrow> only_clean_gone s t)"
proof -
  from mutate_batch_spec [OF assms(2-4), where now = now and sha = sha] assms(1) obtain host u where
    ok: "cache_ok cfg t" and u: "u = s \<or> u = ensure_host host s" "batch_outcome sha host edits u t r"
    by auto
  have ok_u: "cache_ok cfg u" using u(1) assms(2) cache_ok_ensure by blast
  have same: "get_entry u = get_entry s" using u(1) by (auto simp: fun_eq_iff)
  have "pending_kept (map pe_key edits) s t" if "batch_buffered sha host edits u t gs" for gs
  proof -
    from that obtain v where v: "only_evicts (map pe_key edits) u v" "batch_applied sha host edits v t"
      "batch_host host edits" by (auto simp: batch_buffered_def)
    have keys: "\<lparr>key_host = host, key_path = p\<rparr> \<in> set (map pe_key edits)" if "p \<in> set (map edit_path edits)" for p
      using that v(3) by (force simp: edit_path_def batch_host_def)
    show ?thesis
      unfolding pending_kept_def
    proof (intro allI impI)
      fix h p e assume e: "get_entry s h p = Some e" "en_dirty e \<or> en_in_flight e \<noteq> None"
        "\<lparr>key_host = h, key_path = p\<rparr> \<notin> set (map pe_key edits)"
      then have "h \<noteq> host \<or> p \<notin> set (map edit_path edits)" using keys by blast
      with v(2) have "get_entry t h p = get_entry v h p" unfolding batch_applied_def by blast
      moreover have "get_entry v h p = Some e"
        using v(1) e(1,2) same unfolding only_evicts_def evictable_def by (metis option.inject)
      ultimately show "\<exists>e'. get_entry t h p = Some e' \<and> kept e e'" by simp
    qed
  qed
  then have "case r of
       Inr (Buffered gs) \<Rightarrow> batch_stored sha edits u t gs \<and> pending_kept (map pe_key edits) s t
     | _ \<Rightarrow> only_clean_gone u t"
    using u(2) batch_buffered_stored [OF _ ok_u] only_evicts_clean_gone
    by (auto simp: batch_outcome_def split: sum.splits batch_mutation_disposition.splits)
  with ok show ?thesis unfolding batch_stored_def only_clean_gone_def same by blast
qed

end
