(* ===== verification/Write_Buffered.thy ===== *)
theory Write_Buffered
  imports Write_Properties Edit_Load
begin

text \<open>
  A write through the edit cache: when it is reported as buffered, it replaces the content its
  caller has seen, under the base the request asked for, and no mutation was run: all that was sent is
  the read of a file that was not cached.
\<close>

definition visible_hashed ::
  "(string \<Rightarrow> string) \<Rightarrow> (cache_key \<Rightarrow> remote_snapshot \<Rightarrow> bool) \<Rightarrow> cache_state \<Rightarrow> bool" where
  "visible_hashed sha f s \<longleftrightarrow>
     (\<forall>h p e. get_entry s h p = Some e \<longrightarrow> in_step sha e) \<and> (\<forall>k sn. f k sn \<longrightarrow> snapshot_ok sha sn)"

text \<open>What the backend answers to a read of a file, in a given state of the session.\<close>

definition answers_at :: "'r bridge \<Rightarrow> 'r \<Rightarrow> cache_key \<Rightarrow> remote_snapshot \<Rightarrow> bool" where
  "answers_at b r key sn \<longleftrightarrow> fst (br_fetch b key r) = Inr sn"

lemma loading_hashed:
  assumes "loading sha f s t" "visible_hashed sha f s" "holds_entry t key c"
  shows "ce_desired_sha256 c = desired_sha256 sha (ce_desired c)"
proof -
  from assms(3) obtain e' where e': "get_entry t (key_host key) (key_path key) = Some e'"
    "c = \<lparr>ce_base = en_base e', ce_desired = en_desired e', ce_desired_sha256 = en_desired_sha256 e',
          ce_generation = en_generation e'\<rparr>"
    by (auto simp: holds_entry_def)
  have "in_step sha e'"
  proof -
    from assms(1) e'(1) consider e where "get_entry s (key_host key) (key_path key) = Some e" "kept e e'"
      | "answered sha f (key_host key) (key_path key) e'" unfolding loading_def by blast
    then show ?thesis
    proof cases
      case 1
      with assms(2) show ?thesis by (auto simp: visible_hashed_def in_step_def kept_fields)
    next
      case 2
      with assms(2) show ?thesis by (auto simp: visible_hashed_def answered_def intro: in_step_clean)
    qed
  qed
  with e'(2) show ?thesis by (simp add: in_step_def)
qed

lemma reachable_hashed:
  assumes "edit_reachable cfg sha y" "cfg_max_bytes cfg < u64_max" "\<forall>k sn. f k sn \<longrightarrow> snapshot_ok sha sn"
  shows "visible_hashed sha f (sy_cache y)"
  using edit_reachable_ok [OF assms(1,2)] assms(3) by (auto simp: visible_hashed_def system_ok_def)

lemma check_write_base_Inr:
  assumes "check_write_base w c = Inr u" "ce_desired_sha256 c = desired_sha256 sha (ce_desired c)"
  shows "(case wv_operation w of Write_Create \<Rightarrow> ce_desired c = Deleted
      | Write_Replace \<Rightarrow> \<exists>bytes. ce_desired c = Present bytes) \<and>
    (\<forall>x. wv_expected_sha256 w = Some x \<longrightarrow> (\<exists>bytes. ce_desired c = Present bytes \<and> sha bytes = x))"
  using assms
  by (cases "wv_operation w"; cases "ce_desired c")
    (auto simp: check_write_base_def Let_def is_present_def split: option.splits if_splits)

lemma sent_write_confirmed:
  assumes "execute_preflighted_write b r w = (Inr res, r')"
  shows "wt_temporary_cleanup_confirmed res"
  using assms by (auto simp: execute_preflighted_write_def Let_def split: prod.splits sum.splits write_protocol.splits)

lemma after_flush_confirmed:
  assumes "after_flush b now host (\<lambda>r. Some (execute_preflighted_write b r w)) s r = Some (Inr res, eff, t, r')"
  shows "wt_temporary_cleanup_confirmed res"
  using assms sent_write_confirmed
  by (auto simp: after_flush_def split: option.splits sum.splits prod.splits)

lemma write_buffered_steps:
  assumes "bridge_write b now False q s r = Some (Inr res, eff, t, r')" "br_buffering b"
    and "\<not> wt_temporary_cleanup_confirmed res"
  shows "\<exists>w c s1 gs rc. preflight_write b q = Inr w \<and>
    load_entry_complete (edit_cache_config_of (br_config b)) (br_sha b) (br_fetch b) (write_key w) s r =
      (Inr (Cached c), s1, r') \<and>
    check_write_base w c = Inr () \<and>
    mutate_prepared_batch (edit_cache_config_of (br_config b)) (br_sha b) now [write_edit w c] s1 =
      Some (Inr (Buffered gs), t, eff) \<and>
    res = buffered_result b w c rc"
proof -
  from assms(1) obtain w where w: "preflight_write b q = Inr w"
    by (auto simp: bridge_write_def split: sum.splits)
  note no = after_flush_confirmed [where b = b and now = now and res = res and t = t and eff = eff and r' = r']
  from assms w no obtain c s1 r1 where
    load: "load_entry_complete (edit_cache_config_of (br_config b)) (br_sha b) (br_fetch b) (write_key w) s r =
      (Inr (Cached c), s1, r1)"
    and run: "write_loaded b now w c s1 r1 = Some (Inr res, eff, t, r')"
    by (auto simp: bridge_write_def split: sum.splits prod.splits load_entry_disposition.splits)
  from run have base: "check_write_base w c = Inr ()" by (auto simp: write_loaded_def split: sum.splits)
  with run assms(3) no obtain gs rc where
    "mutate_prepared_batch (edit_cache_config_of (br_config b)) (br_sha b) now [write_edit w c] s1 =
      Some (Inr (Buffered gs), t, eff)" "res = buffered_result b w c rc" "r' = r1"
    by (auto simp: write_loaded_def split: option.splits prod.splits sum.splits batch_mutation_disposition.splits)
  with w load base show ?thesis by blast
qed

text \<open>C23: a write that is reported as buffered ran no mutation and no flush: what was sent is one read of the file when
  the cache did not hold it, and nothing when it did.  The write replaced the content its caller has
  seen (the edit already buffered, or the file on the host): none for a create, some for a replacement,
  and content with the expected hash when the request names one.  The file now holds the new content as a
  pending edit, and every other file with pending work keeps it.\<close>

theorem buffered_write_replaces_seen:
  assumes "edit_reachable (edit_cache_config_of (br_config b)) (br_sha b) y"
    and "cfg_max_bytes (edit_cache_config_of (br_config b)) < u64_max"
    and "st_next_generation (sy_cache y) < u64_max"
    and "\<forall>k sn. answers_at b r k sn \<longrightarrow> snapshot_ok (br_sha b) sn"
    and "bridge_write b now False q (sy_cache y) r = Some (Inr res, eff, t, r')" "br_buffering b"
    and "\<not> wt_temporary_cleanup_confirmed res"
  shows "\<exists>w d e. preflight_write b q = Inr w \<and>
    r' = (if get_entry (sy_cache y) (wv_host w) (rp_absolute (wv_path w)) = None
          then snd (br_fetch b (write_key w) r) else r) \<and>
    seen (answers_at b r) (sy_cache y) (write_key w) d \<and>
    (case wv_operation w of Write_Create \<Rightarrow> d = Deleted | Write_Replace \<Rightarrow> \<exists>bytes. d = Present bytes) \<and>
    (\<forall>x. wv_expected_sha256 w = Some x \<longrightarrow> (\<exists>bytes. d = Present bytes \<and> br_sha b bytes = x)) \<and>
    get_entry t (wv_host w) (rp_absolute (wv_path w)) = Some e \<and> en_dirty e \<and>
    en_desired e = Present (wv_content w) \<and> pending_kept [write_key w] (sy_cache y) t"
proof -
  let ?cfg = "edit_cache_config_of (br_config b)" and ?s = "sy_cache y"
  have ok: "cache_ok ?cfg ?s" using edit_reachable_ok [OF assms(1,2)] by (simp add: system_ok_def)
  from write_buffered_steps [OF assms(5-7)] obtain w c s1 gs where
    w: "preflight_write b q = Inr w" "check_write_base w c = Inr ()"
    and load: "load_entry_complete ?cfg (br_sha b) (br_fetch b) (write_key w) ?s r = (Inr (Cached c), s1, r')"
    and run: "mutate_prepared_batch ?cfg (br_sha b) now [write_edit w c] s1 = Some (Inr (Buffered gs), t, eff)"
    by auto
  have answered: "answers_at b r (write_key w) sn" if "fst (br_fetch b (write_key w) r) = Inr sn" for sn
    using that by (simp add: answers_at_def)
  note loaded = load_entry_loading [where f = "answers_at b r", OF load ok assms(2) answered]
  then have held: "holds_entry s1 (write_key w) c" and loading: "loading (br_sha b) (answers_at b r) ?s s1"
    by simp_all
  have hashed: "ce_desired_sha256 c = desired_sha256 (br_sha b) (ce_desired c)"
    by (rule loading_hashed [OF loading reachable_hashed [OF assms(1,2,4)] held])
  have "st_next_generation s1 + length [write_edit w c] \<le> u64_max"
    using loading assms(3) by (simp add: loading_def)
  from mutate_batch_effect [OF run _ assms(2) this] loaded have
    batch: "batch_stored (br_sha b) [write_edit w c] s1 t gs" "pending_kept [write_key w] s1 t"
    by (simp_all add: write_edit_def)
  from batch(1) obtain e where "get_entry t (wv_host w) (rp_absolute (wv_path w)) = Some e" "en_dirty e"
    "en_desired e = Present (wv_content w)"
    by (auto simp: batch_stored_def write_edit_def write_key_def)
  moreover have "seen (answers_at b r) ?s (write_key w) (ce_desired c)"
    by (rule loading_holds_seen [OF loading held])
  moreover have "pending_kept [write_key w] ?s t"
    by (rule pending_kept_trans [OF loading_pending [OF loading] batch(2)])
  ultimately show ?thesis
    using w(1) loaded check_write_base_Inr [OF w(2) hashed] unfolding read_missing_def write_key_def by auto
qed

definition demo_context :: remote_context where
  "demo_context = mk_context ''web'' ''/'' posix_sh Persistent"

definition demo_edit_bridge :: "session_command list bridge" where
  "demo_edit_bridge = demo_bridge\<lparr>br_context := (\<lambda>_ _. Some demo_context)\<rparr>"

text \<open>The file is not cached, and reading it is a command of its own.\<close>

definition demo_read :: session_command where
  "demo_read = \<lparr>sq_command = ''snapshot'', sq_cwd = ''/'', sq_shell = posix_sh, sq_stdin = None\<rparr>"

definition demo_reading_bridge :: "session_command list bridge" where
  "demo_reading_bridge = demo_edit_bridge
     \<lparr>br_fetch := (\<lambda>_ sent. (Inr \<lparr>sn_base = Base_Missing, sn_desired = Deleted\<rparr>, sent @ [demo_read]))\<rparr>"

lemma demo_buffered:
  "case bridge_write demo_reading_bridge 0 False demo_create new_cache [] of
     Some (Inr res, _, _, _) \<Rightarrow> \<not> wt_temporary_cleanup_confirmed res
   | _ \<Rightarrow> False"
  by code_simp

lemma buffered_write_replaces_seen_witness:
  "\<exists>res eff t e. bridge_write demo_reading_bridge 0 False demo_create new_cache [] = Some (Inr res, eff, t, [demo_read]) \<and>
     get_entry t ''web'' ''/a/b'' = Some e \<and> en_dirty e \<and> en_desired e = Present ''hello'' \<and>
     pending_kept [write_key demo_write] new_cache t"
proof -
  let ?b = demo_reading_bridge
  obtain res eff t r' where run: "bridge_write ?b 0 False demo_create (sy_cache initial_system) [] = Some (Inr res, eff, t, r')"
    "\<not> wt_temporary_cleanup_confirmed res"
    using demo_buffered
    by (cases "bridge_write ?b 0 False demo_create new_cache []"; cases "fst (the (bridge_write ?b 0 False demo_create new_cache []))")
      (auto simp: initial_system_def)
  have max: "cfg_max_bytes (edit_cache_config_of (br_config ?b)) < u64_max"
    by (simp add: demo_reading_bridge_def demo_edit_bridge_def demo_bridge_def edit_cache_config_of_def merge_aliases_def
        default_config_def default_limits_def config_constants u64_max_def)
  have gen: "st_next_generation (sy_cache initial_system) < u64_max"
    by (simp add: initial_system_def new_cache_def u64_max_def)
  have snap: "\<forall>k sn. answers_at ?b [] k sn \<longrightarrow> snapshot_ok (br_sha ?b) sn"
    by (auto simp: demo_reading_bridge_def demo_edit_bridge_def demo_bridge_def snapshot_ok_def answers_at_def)
  have buf: "br_buffering ?b" by (simp add: demo_reading_bridge_def demo_edit_bridge_def demo_bridge_def)
  have pre: "preflight_write ?b demo_create = Inr demo_write"
    by code_simp
  have empty: "get_entry new_cache h p = None" for h p by (simp add: get_entry_def new_cache_def)
  have sent: "snd (br_fetch ?b key []) = [demo_read]" for key by (simp add: demo_reading_bridge_def)
  from buffered_write_replaces_seen [OF reach_init max gen snap run(1) buf run(2)] obtain e where
    "r' = [demo_read]"
    "get_entry t (wv_host demo_write) (rp_absolute (wv_path demo_write)) = Some e" "en_dirty e"
    "en_desired e = Present (wv_content demo_write)" "pending_kept [write_key demo_write] new_cache t"
    by (auto simp: pre initial_system_def sent empty)
  with run(1) show ?thesis by (auto simp: demo_write_def initial_system_def)
qed

end
