(* ===== verification/Remote_Snapshot.thy ===== *)
theory Remote_Snapshot
  imports Write_Request
begin

text \<open>
  Reading the whole content of one file (\<open>execute_readonly_fixed\<close> of \<open>src/remote/mod.rs\<close>,
  \<open>snapshot_file\<close> and the parser of its answer in \<open>src/remote/patch.rs\<close>, \<open>fetch_snapshot\<close> of
  \<open>src/remote/edit_sync.rs\<close>): the reprobe after a capability mismatch, the limits of the capture,
  the classification of every answer, and the snapshot the edit cache stores.
\<close>

section \<open>A read-only operation\<close>

definition still_unavailable :: bridge_error where
  "still_unavailable =
     new_error RemoteCapabilityMissing ''remote read capability remained unavailable after reprobe'' False"

definition execute_readonly_fixed ::
  "'r bridge \<Rightarrow> 'r \<Rightarrow> fixed_run_request \<Rightarrow> fixed_run_result bridge_result \<times> 'r" where
  "execute_readonly_fixed b r request =
     (case br_run b r request of
        (Inl error, r1) \<Rightarrow> (Inl error, r1)
      | (Inr first, r1) \<Rightarrow>
          (case capability_mismatch (fx_output first) (fr_required request) of
             Inl error \<Rightarrow> (Inl (attach_fixed_result_context error (fr_host request) first), r1)
           | Inr None \<Rightarrow> (Inr first, r1)
           | Inr (Some _) \<Rightarrow>
               (case br_run b (br_invalidate_capability b (fr_host request) r1) request of
                  (Inl error, r2) \<Rightarrow> (Inl (attach_fixed_result_context error (fr_host request) first), r2)
                | (Inr second, r2) \<Rightarrow>
                    (case capability_mismatch (fx_output second) (fr_required request) of
                       Inl error \<Rightarrow> (Inl (attach_fixed_result_context error (fr_host request) second), r2)
                     | Inr None \<Rightarrow> (Inr second, r2)
                     | Inr (Some _) \<Rightarrow>
                         (Inl (attach_fixed_result_context still_unavailable (fr_host request) second), r2)))))"

section \<open>The answer of the snapshot script\<close>

definition SNAPSHOT_PROTOCOL_BYTES :: nat where "SNAPSHOT_PROTOCOL_BYTES = 1024"
definition SNAPSHOT_CAPTURE_METADATA_BYTES :: nat where "SNAPSHOT_CAPTURE_METADATA_BYTES = 2048"

datatype file_snapshot = Snap_Missing | Snap_Regular string string nat

fun snapshot_base :: "file_snapshot \<Rightarrow> string option" where
  "snapshot_base Snap_Missing = None"
| "snapshot_base (Snap_Regular bytes sha mode) = Some bytes"

fun snapshot_sha256 :: "file_snapshot \<Rightarrow> string option" where
  "snapshot_sha256 Snap_Missing = None"
| "snapshot_sha256 (Snap_Regular bytes sha mode) = Some sha"

definition snapshot_protocol_error :: "string \<Rightarrow> bridge_error" where
  "snapshot_protocol_error message = new_error ProtocolError message False"

definition parse_snapshot_u64 :: "string \<Rightarrow> string \<Rightarrow> nat bridge_result" where
  "parse_snapshot_u64 rec pre =
     (let invalid = snapshot_protocol_error ''snapshot numeric field is invalid'' in
      bindR (ok_or invalid (strip_prefix pre rec)) (\<lambda>v. map_err (\<lambda>_. invalid) (parse_u64 v)))"

definition snapshot_text :: "string \<Rightarrow> string \<Rightarrow> string bridge_result" where
  "snapshot_text rec pre =
     (let invalid = snapshot_protocol_error ''snapshot text field is invalid'' in
      bindR (ok_or invalid (strip_prefix pre rec)) (\<lambda>v. map_err (\<lambda>_. invalid) (utf8 v)))"

definition octal_digit :: "char \<Rightarrow> bool" where
  "octal_digit c \<longleftrightarrow> 48 \<le> byte c \<and> byte c \<le> 55"

definition octal_value :: "string \<Rightarrow> nat" where
  "octal_value s = foldl (\<lambda>n c. 8 * n + digit_value c) 0 s"

text \<open>\<open>mode & 0o7000 != 0\<close>: one of the bits 9, 10 and 11 is set.\<close>

definition parse_snapshot_mode :: "string \<Rightarrow> nat bridge_result" where
  "parse_snapshot_mode mode =
     (if mode = [] \<or> 4 < length mode \<or> \<not> list_all octal_digit mode then
        Inl (snapshot_protocol_error ''snapshot mode is invalid'')
      else if octal_value mode div 512 mod 8 \<noteq> 0 then
        Inl (write_conflict ''patch base has unsafe special mode bits'')
      else Inr (octal_value mode))"

definition base_too_large :: bridge_error where
  "base_too_large = patch_too_large ''patch base exceeds the configured write limit''"

definition parse_snapshot_success ::
  "(string \<Rightarrow> string) \<Rightarrow> string \<Rightarrow> nat \<Rightarrow> string \<Rightarrow> string \<Rightarrow> string \<Rightarrow> string \<Rightarrow> string
     \<Rightarrow> file_snapshot bridge_result" where
  "parse_snapshot_success sha stdout maximum size_field mode device inode links =
     bindR (parse_snapshot_u64 size_field ''SIZE='') (\<lambda>expected.
     bindR (parse_snapshot_u64 device ''DEVICE='') (\<lambda>_.
     bindR (parse_snapshot_u64 inode ''INODE='') (\<lambda>_.
     bindR (parse_snapshot_u64 links ''LINKS='') (\<lambda>_.
     bindR (snapshot_text mode ''MODE='') (\<lambda>mode.
     bindR (parse_snapshot_mode mode) (\<lambda>mode.
     if maximum < expected then Inl base_too_large
     else if length stdout \<noteq> expected then Inl read_conflict_error
     else Inr (Snap_Regular stdout (sha stdout) mode)))))))"

definition parse_snapshot_protocol ::
  "(string \<Rightarrow> string) \<Rightarrow> string \<Rightarrow> string \<Rightarrow> nat \<Rightarrow> file_snapshot bridge_result" where
  "parse_snapshot_protocol sha stderr stdout maximum =
     bindR (nul_fields stderr) (\<lambda>flds.
     case flds of
       [] \<Rightarrow> Inl (snapshot_protocol_error ''snapshot status is missing'')
     | status # rest \<Rightarrow>
         if status = ''STATUS=READ_CONFLICT'' then
           (if rest \<noteq> [] then Inl (snapshot_protocol_error ''snapshot read-conflict record is invalid'')
            else Inl read_conflict_error)
         else if status \<noteq> ''STATUS=SUCCESS'' \<and> stdout \<noteq> [] then
           Inl (snapshot_protocol_error ''snapshot non-success produced raw content'')
         else if status = ''STATUS=SUCCESS'' \<and> maximum < length stdout then Inl base_too_large
         else if status = ''STATUS=MISSING'' \<and> rest = [] then Inr Snap_Missing
         else if status = ''STATUS=WRITE_CONFLICT'' \<and> rest = [] then
           Inl (write_conflict ''patch base conflicts with the request'')
         else if status = ''STATUS=NOT_FOUND'' \<and> rest = [] then Inl not_found_error
         else if status = ''STATUS=PERMISSION_DENIED'' \<and> rest = [] then Inl permission_denied_error
         else if status = ''STATUS=NOT_DIRECTORY'' \<and> rest = [] then Inl not_directory_error
         else if status = ''STATUS=REQUEST_TOO_LARGE'' \<and> rest = [] then Inl base_too_large
         else
           (case (status = ''STATUS=SUCCESS'', rest) of
              (True, [size_field, mode, device, inode, links]) \<Rightarrow>
                parse_snapshot_success sha stdout maximum size_field mode device inode links
            | _ \<Rightarrow> Inl (snapshot_protocol_error ''snapshot protocol record is invalid'')))"

section \<open>The limits of the capture\<close>

text \<open>The limit of the captured stream and the largest snapshot it can hold.\<close>

definition snapshot_limits ::
  "(string \<Rightarrow> 'e) \<Rightarrow> nat \<Rightarrow> nat \<Rightarrow> 'e + nat \<times> nat \<times> nat" where
  "snapshot_limits err maximum_bytes max_output_bytes =
     bindR (ok_or (err ''snapshot output limit overflowed'') (checked_add maximum_bytes 1)) (\<lambda>desired.
     bindR (ok_or (err ''snapshot protocol reserve exceeds the output limit'')
              (case checked_sub max_output_bytes SNAPSHOT_CAPTURE_METADATA_BYTES of
                 Some available \<Rightarrow> if 0 < available then Some available else None
               | None \<Rightarrow> None)) (\<lambda>available.
     let stdout_limit = min desired available; snapshot_maximum = stdout_limit - 1 in
     bindR (ok_or (err ''snapshot output limit overflowed'') (checked_add snapshot_maximum 1)) (\<lambda>read_limit.
       Inr (stdout_limit, snapshot_maximum, read_limit))))"

definition snapshot_request ::
  "'r bridge \<Rightarrow> string \<Rightarrow> string \<Rightarrow> string \<Rightarrow> nat \<Rightarrow> nat \<Rightarrow> fixed_run_request" where
  "snapshot_request b host parent basename stdout_limit snapshot_maximum =
     \<lparr>fr_kind = Op_ReadOnly, fr_host = host, fr_script = br_snapshot_script b,
      fr_args = [parent, basename, decimal snapshot_maximum], fr_stdin = None,
      fr_rooted = \<lparr>rpi_argument_indices = [0], rpi_argument_stride = None, rpi_stdin_nul_paths = False\<rparr>,
      fr_required = [''safe_write''], fr_stdout_limit = stdout_limit,
      fr_stderr_limit = SNAPSHOT_CAPTURE_METADATA_BYTES,
      fr_timeout_ms = lim_command_timeout_ms (config_limits (br_config b))\<rparr>"

section \<open>A snapshot for a patch\<close>

definition snapshot_runner_error :: "bridge_error \<Rightarrow> bridge_error" where
  "snapshot_runner_error error =
     (if be_code error = OutputLimit then
        error\<lparr>be_code := RequestTooLarge, be_message := ''snapshot exceeded the aggregate base limit'',
              be_retryable := False\<rparr>
      else error)"

definition limit_error :: "bridge_error \<Rightarrow> bridge_error \<Rightarrow> bridge_error" where
  "limit_error replacement error = (if be_code error = OutputLimit then replacement else error)"

definition snapshot_file ::
  "'r bridge \<Rightarrow> string \<Rightarrow> prepared_mutation_path \<Rightarrow> nat \<Rightarrow> 'r
     \<Rightarrow> (file_snapshot \<times> remote_context) bridge_result \<times> 'r" where
  "snapshot_file b host path maximum_bytes r =
     (case snapshot_limits patch_too_large maximum_bytes (lim_max_output_bytes (config_limits (br_config b))) of
        Inl error \<Rightarrow> (Inl error, r)
      | Inr (stdout_limit, snapshot_maximum, read_limit) \<Rightarrow>
          (case execute_readonly_fixed b r
                  (snapshot_request b host (pm_parent path) (pm_basename path) stdout_limit snapshot_maximum) of
             (Inl error, r1) \<Rightarrow> (Inl (snapshot_runner_error error), r1)
           | (Inr result, r1) \<Rightarrow>
               (map_err (\<lambda>e. attach_fixed_result_context e host result)
                  (bindR (map_err (limit_error (snapshot_protocol_error
                              ''snapshot metadata exceeds the protocol limit''))
                            (read_small_stream (fx_output result) Stderr_Stream SNAPSHOT_PROTOCOL_BYTES))
                     (\<lambda>stderr.
                   bindR (map_err (limit_error (patch_too_large ''snapshot exceeded the aggregate base limit''))
                            (read_small_stream (fx_output result) Stdout_Stream read_limit))
                     (\<lambda>stdout.
                   bindR (parse_snapshot_protocol (br_sha b) stderr stdout snapshot_maximum) (\<lambda>snapshot.
                     Inr (snapshot, result_context host result))))),
                r1)))"

section \<open>A snapshot for the edit cache\<close>

definition cache_snapshot :: "file_snapshot \<Rightarrow> remote_snapshot" where
  "cache_snapshot snapshot =
     (case snapshot of
        Snap_Missing \<Rightarrow> \<lparr>sn_base = Base_Missing, sn_desired = Deleted\<rparr>
      | Snap_Regular bytes sha mode \<Rightarrow> \<lparr>sn_base = Base_Regular sha mode, sn_desired = Present bytes\<rparr>)"

definition fetch_snapshot ::
  "'r bridge \<Rightarrow> nat \<Rightarrow> cache_key \<Rightarrow> 'r \<Rightarrow> remote_snapshot edit_result \<times> 'r" where
  "fetch_snapshot b maximum_snapshot_bytes key r =
     (case bindR (map_err map_bridge_error (split_parent_basename (key_path key))) (\<lambda>(parent, basename).
           bindR (snapshot_limits sync_permanent maximum_snapshot_bytes
                    (lim_max_output_bytes (config_limits (br_config b))))
             (\<lambda>(stdout_limit, snapshot_maximum, read_limit).
                Inr (snapshot_request b (key_host key) parent basename stdout_limit snapshot_maximum,
                     snapshot_maximum, read_limit))) of
        Inl error \<Rightarrow> (Inl error, r)
      | Inr (request, snapshot_maximum, read_limit) \<Rightarrow>
          (case execute_readonly_fixed b r request of
             (Inl error, r1) \<Rightarrow> (Inl (map_runner_error error), r1)
           | (Inr result, r1) \<Rightarrow>
               (map_err map_runner_error
                  (bindR (read_small_stream (fx_output result) Stderr_Stream SNAPSHOT_PROTOCOL_BYTES) (\<lambda>stderr.
                   bindR (read_small_stream (fx_output result) Stdout_Stream read_limit) (\<lambda>stdout.
                   bindR (parse_snapshot_protocol (br_sha b) stderr stdout snapshot_maximum) (\<lambda>snapshot.
                     Inr (cache_snapshot snapshot))))),
                r1)))"

end
