(* ===== verification/Patch_Driver.thy ===== *)
theory Patch_Driver
  imports Remote_Snapshot Codex_Apply
begin

text \<open>
  The \<open>apply_patch\<close> operation (\<open>src/remote/patch.rs\<close>): the paths a patch changes, their checks, the
  progress that every error reports, the patch computed through the edit cache, and the immediate
  form, which reads every base, computes every file and only then runs the mutations one by one.

  \<open>cancel\<close> answers the polls of the cancellation token, each named by its place in the code.  A run
  is \<open>None\<close> when the code panics.
\<close>

section \<open>Requests and paths\<close>

record apply_patch_request =
  aq_host :: string
  aq_patch :: string

record apply_patch_result =
  ar_context :: remote_context
  ar_changed_paths :: "string list"

record resolved_file_patch =
  rf_patch :: codex_file_patch
  rf_source :: prepared_mutation_path
  rf_destination :: "prepared_mutation_path option"

record patch_snapshots =
  ps_source :: file_snapshot
  ps_destination :: "file_snapshot option"

datatype prepared_mutation = Mutation_Write resolved_write | Mutation_Delete resolved_delete

datatype patch_poll = Poll_Start | Poll_File nat | Poll_Snapshot nat | Poll_Mutation nat

definition patch_path :: "codex_file_patch \<Rightarrow> string" where
  "patch_path patch = cf_path patch"

definition move_path :: "codex_file_patch \<Rightarrow> string option" where
  "move_path patch = cf_move_path patch"

text \<open>The destination of a move that is one.\<close>

definition move_destination :: "codex_file_patch \<Rightarrow> string option" where
  "move_destination patch =
     (case move_path patch of
        Some destination \<Rightarrow> if destination \<noteq> patch_path patch then Some destination else None
      | None \<Rightarrow> None)"

definition mutation_paths :: "codex_file_patch \<Rightarrow> string list" where
  "mutation_paths patch =
     (case move_destination patch of
        Some destination \<Rightarrow> [destination, cf_path patch]
      | None \<Rightarrow> [cf_path patch])"

definition with_failed_path :: "string \<Rightarrow> bridge_error \<Rightarrow> bridge_error" where
  "with_failed_path path error = error\<lparr>be_details := (be_details error)\<lparr>ed_failed_path := Some path\<rparr>\<rparr>"

definition resolve_patch_file ::
  "bridge_config \<Rightarrow> string \<Rightarrow> codex_file_patch \<Rightarrow> resolved_file_patch bridge_result" where
  "resolve_patch_file config host patch =
     map_err (\<lambda>error. if ed_failed_path (be_details error) = None
                      then with_failed_path (patch_path patch) error else error)
       (bindR (prepare_patch_path config host (patch_path patch)) (\<lambda>source.
        bindR (case move_destination patch of
                 Some destination \<Rightarrow>
                   bindR (map_err (with_failed_path destination) (prepare_patch_path config host destination))
                     (\<lambda>d. Inr (Some d))
               | None \<Rightarrow> Inr None) (\<lambda>destination.
          Inr \<lparr>rf_patch = patch, rf_source = source, rf_destination = destination\<rparr>)))"

fun resolve_patch_files ::
  "bridge_config \<Rightarrow> string \<Rightarrow> codex_file_patch list \<Rightarrow> resolved_file_patch list bridge_result" where
  "resolve_patch_files config host [] = Inr []"
| "resolve_patch_files config host (patch # patches) =
     bindR (resolve_patch_file config host patch) (\<lambda>file.
     bindR (resolve_patch_files config host patches) (\<lambda>files. Inr (file # files)))"

section \<open>Progress\<close>

definition attach_preparation_progress ::
  "bridge_error \<Rightarrow> string option \<Rightarrow> string list \<Rightarrow> bridge_error" where
  "attach_preparation_progress error failed_path all_paths =
     (let d = be_details error;
          d1 = (case failed_path of Some path \<Rightarrow> d\<lparr>ed_failed_path := Some path\<rparr> | None \<Rightarrow> d)
      in error\<lparr>be_details := d1\<lparr>ed_changed_paths := Some [], ed_not_changed_paths := Some all_paths,
                                ed_outcome_unknown_paths := Some []\<rparr>\<rparr>)"

definition attach_mutation_progress ::
  "bridge_error \<Rightarrow> nat \<Rightarrow> string list \<Rightarrow> bridge_error option" where
  "attach_mutation_progress error current all_paths =
     (if length all_paths \<le> current then None
      else
        (let current_path = all_paths ! current;
             outcome_unknown = (be_code error = MutationOutcomeUnknown \<or>
               ed_mutation_may_have_applied (be_details error) = Some True);
             d = (be_details error)\<lparr>ed_changed_paths := Some (take current all_paths)\<rparr>
         in Some (error\<lparr>be_details :=
              (if outcome_unknown then
                 d\<lparr>ed_failed_path := Some current_path,
                   ed_not_changed_paths := Some (drop (current + 1) all_paths),
                   ed_outcome_unknown_paths := Some [current_path]\<rparr>
               else
                 d\<lparr>ed_failed_path := (if be_code error \<noteq> Cancelled then Some current_path else None),
                   ed_not_changed_paths := Some (drop current all_paths),
                   ed_outcome_unknown_paths := Some []\<rparr>)\<rparr>)))"

definition attach_mutation_progress_context ::
  "bridge_error \<Rightarrow> nat \<Rightarrow> string list \<Rightarrow> remote_context \<Rightarrow> bridge_error option" where
  "attach_mutation_progress_context error current all_paths context =
     map_option (\<lambda>e. attach_remote_context e context) (attach_mutation_progress error current all_paths)"

definition cancelled_patch :: bridge_error where
  "cancelled_patch = new_error Cancelled ''remote patch was cancelled'' False"

definition outputs_too_large :: bridge_error where
  "outputs_too_large = patch_too_large ''patch outputs exceed the aggregate write limit''"

definition map_apply_err :: "(bridge_error \<Rightarrow> bridge_error) \<Rightarrow> 'a apply_result \<Rightarrow> 'a apply_result" where
  "map_apply_err f = map_err (case_apply_failure (\<lambda>e. Err (f e)) Panic)"

section \<open>The checked patch\<close>

text \<open>The head of both forms: the checks, the parsed files and the paths they change.\<close>

definition patch_head ::
  "'r bridge \<Rightarrow> apply_patch_request \<Rightarrow> (string list \<times> resolved_file_patch list) bridge_result" where
  "patch_head b q =
     bindR (require_discovered_alias (br_config b) (aq_host q)) (\<lambda>_.
     if lim_max_write_bytes (config_limits (br_config b)) < length (aq_patch q) then
       Inl (patch_too_large ''patch exceeds the effective host write limit'')
     else
       bindR (parse_codex_patch (aq_patch q) (aq_host q)) (\<lambda>patches.
       let all_paths = concat (map mutation_paths patches) in
       bindR (map_err (\<lambda>e. attach_preparation_progress e None all_paths)
                (resolve_patch_files (br_config b) (aq_host q) patches)) (\<lambda>resolved.
         Inr (all_paths, resolved))))"

section \<open>The snapshots of the immediate form\<close>

definition move_without_path :: "resolved_file_patch \<Rightarrow> string apply_result" where
  "move_without_path file = ok_or Panic (cf_move_path (rf_patch file))"

text \<open>One base: its host must be that of the first, and its size counts against the limit.\<close>

definition take_snapshot ::
  "'r bridge \<Rightarrow> string \<Rightarrow> string list \<Rightarrow> prepared_mutation_path \<Rightarrow> string \<Rightarrow> nat
     \<Rightarrow> remote_context option \<Rightarrow> 'r
     \<Rightarrow> (file_snapshot \<times> nat \<times> remote_context) apply_result \<times> 'r" where
  "take_snapshot b host all_paths path display remaining operation_context r =
     (let attach = (\<lambda>e. attach_preparation_progress e (Some display) all_paths) in
      case snapshot_file b host path remaining r of
        (Inl error, r1) \<Rightarrow>
          (Inl (Err (attach_optional_remote_context (attach error) operation_context)), r1)
      | (Inr (snapshot, snapshot_context), r1) \<Rightarrow>
          (if (case operation_context of Some c \<Rightarrow> rc_host c \<noteq> rc_host snapshot_context | None \<Rightarrow> False) then
             (Inl (Err (attach_remote_context (attach read_conflict_error) snapshot_context)), r1)
           else
             (case checked_sub remaining
                     (case snapshot of Snap_Regular bytes _ _ \<Rightarrow> length bytes | Snap_Missing \<Rightarrow> 0) of
                None \<Rightarrow>
                  (Inl (Err (attach_remote_context
                      (attach (patch_too_large ''patch bases exceed the aggregate write limit''))
                      snapshot_context)), r1)
              | Some left \<Rightarrow>
                  (Inr (snapshot, left, case_option snapshot_context id operation_context), r1))))"

definition take_file_snapshots ::
  "'r bridge \<Rightarrow> string \<Rightarrow> string list \<Rightarrow> resolved_file_patch \<Rightarrow> nat \<Rightarrow> remote_context option \<Rightarrow> 'r
     \<Rightarrow> (patch_snapshots \<times> nat \<times> remote_context) apply_result \<times> 'r" where
  "take_file_snapshots b host all_paths file remaining operation_context r =
     (case take_snapshot b host all_paths (rf_source file) (patch_path (rf_patch file)) remaining
             operation_context r of
        (Inl failure, r1) \<Rightarrow> (Inl failure, r1)
      | (Inr (source, left, context), r1) \<Rightarrow>
          (case rf_destination file of
             None \<Rightarrow> (Inr (\<lparr>ps_source = source, ps_destination = None\<rparr>, left, context), r1)
           | Some path \<Rightarrow>
               (case move_without_path file of
                  Inl failure \<Rightarrow> (Inl failure, r1)
                | Inr display \<Rightarrow>
                    (case take_snapshot b host all_paths path display left (Some context) r1 of
                       (Inl failure, r2) \<Rightarrow> (Inl failure, r2)
                     | (Inr (destination, left, context), r2) \<Rightarrow>
                         (Inr (\<lparr>ps_source = source, ps_destination = Some destination\<rparr>, left, context),
                          r2)))))"

fun take_snapshots ::
  "'r bridge \<Rightarrow> (patch_poll \<Rightarrow> bool) \<Rightarrow> string \<Rightarrow> string list \<Rightarrow> nat \<Rightarrow> resolved_file_patch list \<Rightarrow> nat
     \<Rightarrow> remote_context option \<Rightarrow> 'r
     \<Rightarrow> (patch_snapshots list \<times> remote_context option) apply_result \<times> 'r" where
  "take_snapshots b cancel host all_paths i [] remaining operation_context r =
     (Inr ([], operation_context), r)"
| "take_snapshots b cancel host all_paths i (file # files) remaining operation_context r =
     (if cancel (Poll_Snapshot i) then
        (Inl (Err (attach_optional_remote_context
            (attach_preparation_progress cancelled_patch None all_paths) operation_context)), r)
      else
        (case take_file_snapshots b host all_paths file remaining operation_context r of
           (Inl failure, r1) \<Rightarrow> (Inl failure, r1)
         | (Inr (taken, left, context), r1) \<Rightarrow>
             (case take_snapshots b cancel host all_paths (Suc i) files left (Some context) r1 of
                (Inl failure, r2) \<Rightarrow> (Inl failure, r2)
              | (Inr (snapshots, context), r2) \<Rightarrow> (Inr (taken # snapshots, context), r2))))"

section \<open>The files of the immediate form\<close>

fun apply_files ::
  "(bridge_error \<Rightarrow> string option \<Rightarrow> bridge_error) \<Rightarrow> nat \<Rightarrow> (resolved_file_patch \<times> patch_snapshots) list
     \<Rightarrow> (resolved_file_patch \<times> patched_file \<times> patch_snapshots) list apply_result" where
  "apply_files attach remaining [] = Inr []"
| "apply_files attach remaining ((file, snapshots) # rest) =
     bindR (map_apply_err (\<lambda>e. attach e (Some (cf_path (rf_patch file))))
              (apply_codex_file (snapshot_base (ps_source snapshots)) (rf_patch file) remaining)) (\<lambda>output.
     bindR (case output of
              Write_File bytes \<Rightarrow>
                ok_or (Err (attach outputs_too_large (Some (cf_path (rf_patch file)))))
                  (checked_sub remaining (length bytes))
            | Remove_File \<Rightarrow> Inr remaining) (\<lambda>remaining.
     bindR (apply_files attach remaining rest) (\<lambda>outputs. Inr ((file, output, snapshots) # outputs))))"

definition patch_content ::
  "(bridge_error \<Rightarrow> string option \<Rightarrow> bridge_error) \<Rightarrow> string \<Rightarrow> string \<Rightarrow> string apply_result" where
  "patch_content attach source_path bytes =
     (if valid_utf8 bytes then Inr bytes
      else Inl (Err (attach (snapshot_protocol_error ''prepared patch output is not UTF-8'')
             (Some source_path))))"

definition prepare_move ::
  "'r bridge \<Rightarrow> (bridge_error \<Rightarrow> string option \<Rightarrow> bridge_error) \<Rightarrow> prepared_mutation_path
     \<Rightarrow> resolved_file_patch \<times> patched_file \<times> patch_snapshots \<Rightarrow> prepared_mutation list apply_result" where
  "prepare_move b attach destination computed =
     (case computed of (file, output, snapshots) \<Rightarrow>
        let source_path = cf_path (rf_patch file); fail = (\<lambda>e p. Err (attach e (Some p))) in
        bindR (move_without_path file) (\<lambda>destination_path.
        bindR (case output of
                 Write_File bytes \<Rightarrow> Inr bytes
               | Remove_File \<Rightarrow> Inl (fail (invalid_patch ''Codex patch move did not produce file content'') source_path))
          (\<lambda>bytes.
        bindR (case ps_destination snapshots of
                 Some snapshot \<Rightarrow> Inr snapshot
               | None \<Rightarrow> Inl (fail (snapshot_protocol_error ''move destination snapshot is missing'') destination_path))
          (\<lambda>snapshot.
        let mode = (case snapshot of
                      Snap_Missing \<Rightarrow> Mode_Create
                    | Snap_Regular _ sha _ \<Rightarrow> Mode_Replace (Some sha)) in
        bindR (patch_content attach source_path bytes) (\<lambda>content.
        bindR (map_err (\<lambda>e. Err (attach e (Some destination_path)))
                 (preflight_write_resolved b destination content Write_Utf8 mode)) (\<lambda>write.
        bindR (case snapshot_sha256 (ps_source snapshots) of
                 Some expected \<Rightarrow> Inr expected
               | None \<Rightarrow> Inl (fail (write_conflict ''patch move source has no regular base'') source_path))
          (\<lambda>expected.
        bindR (map_err (\<lambda>e. Err (attach e (Some source_path)))
                 (preflight_delete_resolved b (rf_source file) expected)) (\<lambda>delete.
          Inr [Mutation_Write write, Mutation_Delete delete]))))))))"

definition prepare_single ::
  "'r bridge \<Rightarrow> (bridge_error \<Rightarrow> string option \<Rightarrow> bridge_error)
     \<Rightarrow> resolved_file_patch \<times> patched_file \<times> patch_snapshots \<Rightarrow> prepared_mutation list apply_result" where
  "prepare_single b attach computed =
     (case computed of (file, output, snapshots) \<Rightarrow>
        let source_path = cf_path (rf_patch file); expected = snapshot_sha256 (ps_source snapshots);
            fail = (\<lambda>e. Err (attach e (Some source_path))) in
        case output of
          Write_File bytes \<Rightarrow>
            bindR (case cf_operation (rf_patch file) of
                     Create_File \<Rightarrow> Inr Mode_Create
                   | Update_File \<Rightarrow> Inr (Mode_Replace expected)
                   | Delete_File \<Rightarrow> Inl (fail (invalid_patch ''patch delete produced a write frame''))) (\<lambda>mode.
            bindR (patch_content attach source_path bytes) (\<lambda>content.
            bindR (map_err (\<lambda>e. Err (attach e (Some source_path)))
                     (preflight_write_resolved b (rf_source file) content Write_Utf8 mode)) (\<lambda>write.
              Inr [Mutation_Write write])))
        | Remove_File \<Rightarrow>
            bindR (case expected of
                     Some sha \<Rightarrow> Inr sha
                   | None \<Rightarrow> Inl (fail (write_conflict ''patch delete has no regular base''))) (\<lambda>sha.
            bindR (map_err (\<lambda>e. Err (attach e (Some source_path)))
                     (preflight_delete_resolved b (rf_source file) sha)) (\<lambda>delete.
              Inr [Mutation_Delete delete])))"

fun prepare_mutations ::
  "'r bridge \<Rightarrow> (bridge_error \<Rightarrow> string option \<Rightarrow> bridge_error)
     \<Rightarrow> (resolved_file_patch \<times> patched_file \<times> patch_snapshots) list \<Rightarrow> prepared_mutation list apply_result" where
  "prepare_mutations b attach [] = Inr []"
| "prepare_mutations b attach (computed # rest) =
     bindR (case rf_destination (fst computed) of
              Some destination \<Rightarrow> prepare_move b attach destination computed
            | None \<Rightarrow> prepare_single b attach computed) (\<lambda>mutations.
     bindR (prepare_mutations b attach rest) (\<lambda>later. Inr (mutations @ later)))"

section \<open>The mutations of the immediate form\<close>

definition run_mutation ::
  "'r bridge \<Rightarrow> 'r \<Rightarrow> prepared_mutation \<Rightarrow> remote_context bridge_result \<times> 'r" where
  "run_mutation b r mutation =
     (case mutation of
        Mutation_Write w \<Rightarrow>
          (let (answer, r1) = execute_preflighted_write b r w in (map_sum id wt_context answer, r1))
      | Mutation_Delete d \<Rightarrow>
          (let (answer, r1) = execute_preflighted_delete b r d in (map_sum id snd answer, r1)))"

fun run_mutations ::
  "'r bridge \<Rightarrow> (patch_poll \<Rightarrow> bool) \<Rightarrow> string list \<Rightarrow> remote_context \<Rightarrow> nat \<Rightarrow> prepared_mutation list
     \<Rightarrow> string list \<Rightarrow> 'r \<Rightarrow> string list apply_result \<times> 'r" where
  "run_mutations b cancel all_paths context i [] changed r = (Inr changed, r)"
| "run_mutations b cancel all_paths context i (mutation # mutations) changed r =
     (let stop = (\<lambda>e. Inl (case attach_mutation_progress_context e i all_paths context of
                             Some error \<Rightarrow> Err error | None \<Rightarrow> Panic)) in
      if cancel (Poll_Mutation i) then (stop cancelled_patch, r)
      else
        (case run_mutation b r mutation of
           (Inl error, r1) \<Rightarrow> (stop error, r1)
         | (Inr _, r1) \<Rightarrow>
             (if length all_paths \<le> i then (Inl Panic, r1)
              else run_mutations b cancel all_paths context (Suc i) mutations (changed @ [all_paths ! i]) r1)))"

section \<open>The immediate form\<close>

definition attach_after_snapshots ::
  "string list \<Rightarrow> remote_context \<Rightarrow> bridge_error \<Rightarrow> string option \<Rightarrow> bridge_error" where
  "attach_after_snapshots all_paths context error failed_path =
     attach_remote_context (attach_preparation_progress error failed_path all_paths) context"

definition plan_mutations ::
  "'r bridge \<Rightarrow> string list \<Rightarrow> remote_context \<Rightarrow> resolved_file_patch list \<Rightarrow> patch_snapshots list
     \<Rightarrow> prepared_mutation list apply_result" where
  "plan_mutations b all_paths context resolved snapshots =
     bindR (apply_files (attach_after_snapshots all_paths context)
              (lim_max_write_bytes (config_limits (br_config b))) (zip resolved snapshots))
       (prepare_mutations b (attach_after_snapshots all_paths context))"

definition immediate_patch ::
  "'r bridge \<Rightarrow> (patch_poll \<Rightarrow> bool) \<Rightarrow> apply_patch_request \<Rightarrow> 'r \<Rightarrow> apply_patch_result apply_result \<times> 'r" where
  "immediate_patch b cancel q r =
     (case patch_head b q of
        Inl error \<Rightarrow> (Inl (Err error), r)
      | Inr (all_paths, resolved) \<Rightarrow>
          (case take_snapshots b cancel (aq_host q) all_paths 0 resolved
                  (lim_max_write_bytes (config_limits (br_config b))) None r of
             (Inl failure, r1) \<Rightarrow> (Inl failure, r1)
           | (Inr (_, None), r1) \<Rightarrow>
               (Inl (Err (attach_preparation_progress
                   (invalid_patch ''patch contains no file operations'') None all_paths)), r1)
           | (Inr (snapshots, Some context), r1) \<Rightarrow>
               (case plan_mutations b all_paths context resolved snapshots of
                  Inl failure \<Rightarrow> (Inl failure, r1)
                | Inr mutations \<Rightarrow>
                    (case run_mutations b cancel all_paths context 0 mutations [] r1 of
                       (Inl failure, r2) \<Rightarrow> (Inl failure, r2)
                     | (Inr changed, r2) \<Rightarrow>
                         (Inr \<lparr>ar_context = context, ar_changed_paths = changed\<rparr>, r2)))))"

definition run_of :: "'a apply_result \<times> 'r \<Rightarrow> ('a bridge_result \<times> 'r) option" where
  "run_of run =
     (case run of
        (Inl Panic, r) \<Rightarrow> None
      | (Inl (Err error), r) \<Rightarrow> Some (Inl error, r)
      | (Inr result, r) \<Rightarrow> Some (Inr result, r))"

definition apply_patch_immediate ::
  "'r bridge \<Rightarrow> (patch_poll \<Rightarrow> bool) \<Rightarrow> apply_patch_request \<Rightarrow> 'r
     \<Rightarrow> (apply_patch_result bridge_result \<times> 'r) option" where
  "apply_patch_immediate b cancel q r = run_of (immediate_patch b cancel q r)"

section \<open>The patch through the edit cache\<close>

text \<open>Why the computation of the edits stops: an error, a panic, or a file that the cache cannot hold.\<close>

datatype prepare_stop = Stop apply_failure | Stop_Immediate

definition load_for_patch ::
  "'r bridge \<Rightarrow> string list \<Rightarrow> string \<Rightarrow> string \<Rightarrow> cache_state \<Rightarrow> 'r
     \<Rightarrow> (prepare_stop + cached_entry) \<times> cache_state \<times> 'r" where
  "load_for_patch b all_paths host path s r =
     (case load_entry_complete (edit_cache_config_of (br_config b)) (br_sha b) (br_fetch b)
             \<lparr>key_host = host, key_path = path\<rparr> s r of
        (Inl error, s1, r1) \<Rightarrow>
          (Inl (Stop (Err (attach_preparation_progress (edit_bridge_error error) (Some path) all_paths))), s1, r1)
      | (Inr Load_ImmediateWriteRequired, s1, r1) \<Rightarrow> (Inl Stop_Immediate, s1, r1)
      | (Inr (Cached current), s1, r1) \<Rightarrow> (Inr current, s1, r1))"

definition load_file ::
  "'r bridge \<Rightarrow> string list \<Rightarrow> string \<Rightarrow> codex_file_patch \<Rightarrow> cache_state \<Rightarrow> 'r
     \<Rightarrow> (prepare_stop + cached_entry \<times> (string \<times> cached_entry) option) \<times> cache_state \<times> 'r" where
  "load_file b all_paths host patch s r =
     (case load_for_patch b all_paths host (patch_path patch) s r of
        (Inl stop, s1, r1) \<Rightarrow> (Inl stop, s1, r1)
      | (Inr source, s1, r1) \<Rightarrow>
          (case move_destination patch of
             None \<Rightarrow> (Inr (source, None), s1, r1)
           | Some destination \<Rightarrow>
               (case load_for_patch b all_paths host destination s1 r1 of
                  (Inl stop, s2, r2) \<Rightarrow> (Inl stop, s2, r2)
                | (Inr current, s2, r2) \<Rightarrow> (Inr (source, Some (destination, current)), s2, r2))))"

definition patch_edit ::
  "string \<Rightarrow> string \<Rightarrow> cached_entry \<Rightarrow> desired_state \<Rightarrow> nat \<Rightarrow> prepared_edit" where
  "patch_edit host path current desired payload =
     \<lparr>pe_key = \<lparr>key_host = host, key_path = path\<rparr>, pe_expected_generation = ce_generation current,
      pe_desired = desired, pe_payload_bytes = payload\<rparr>"

text \<open>The content the patch is applied to, and \<open>expect\<close> on its hash.\<close>

definition cached_base :: "cached_entry \<Rightarrow> string option apply_result" where
  "cached_base current =
     (case ce_desired current of
        Present bytes \<Rightarrow> if ce_desired_sha256 current = None then Inl Panic else Inr (Some bytes)
      | Deleted \<Rightarrow> Inr None)"

definition edit_file ::
  "string \<Rightarrow> string list \<Rightarrow> codex_file_patch \<Rightarrow> cached_entry \<Rightarrow> (string \<times> cached_entry) option \<Rightarrow> nat \<Rightarrow> nat
     \<Rightarrow> (prepared_edit list \<times> nat) apply_result" where
  "edit_file host all_paths patch source destination remaining payload =
     (let attach = (\<lambda>e. attach_preparation_progress e (Some (patch_path patch)) all_paths) in
      bindR (cached_base source) (\<lambda>base.
      bindR (map_apply_err attach (apply_codex_file base patch remaining)) (\<lambda>output.
      bindR (case output of
               Write_File bytes \<Rightarrow>
                 bindR (ok_or (Err (attach outputs_too_large)) (checked_sub remaining (length bytes)))
                   (\<lambda>left. Inr (Present bytes, left))
             | Remove_File \<Rightarrow> Inr (Deleted, remaining)) (\<lambda>(desired, left).
      case destination of
        None \<Rightarrow> Inr ([patch_edit host (patch_path patch) source desired payload], left)
      | Some (path, current) \<Rightarrow>
          if desired = Deleted then
            Inl (Err (attach (invalid_patch ''Codex patch move did not produce file content'')))
          else
            Inr ([patch_edit host path current desired payload,
                  patch_edit host (patch_path patch) source Deleted 0], left)))))"

fun prepare_files ::
  "'r bridge \<Rightarrow> (patch_poll \<Rightarrow> bool) \<Rightarrow> string \<Rightarrow> string list \<Rightarrow> nat \<Rightarrow> resolved_file_patch list \<Rightarrow> nat \<Rightarrow> nat
     \<Rightarrow> cache_state \<Rightarrow> 'r \<Rightarrow> (prepare_stop + prepared_edit list) \<times> cache_state \<times> 'r" where
  "prepare_files b cancel host all_paths i [] remaining payload s r = (Inr [], s, r)"
| "prepare_files b cancel host all_paths i (file # files) remaining payload s r =
     (if cancel (Poll_File i) then
        (Inl (Stop (Err (attach_preparation_progress cancelled_patch
            (Some (patch_path (rf_patch file))) all_paths))), s, r)
      else
        (case load_file b all_paths host (rf_patch file) s r of
           (Inl stop, s1, r1) \<Rightarrow> (Inl stop, s1, r1)
         | (Inr (source, destination), s1, r1) \<Rightarrow>
             (case edit_file host all_paths (rf_patch file) source destination remaining payload of
                Inl failure \<Rightarrow> (Inl (Stop failure), s1, r1)
              | Inr (edits, left) \<Rightarrow>
                  (case prepare_files b cancel host all_paths (Suc i) files left 0 s1 r1 of
                     (Inl stop, s2, r2) \<Rightarrow> (Inl stop, s2, r2)
                   | (Inr later, s2, r2) \<Rightarrow> (Inr (edits @ later), s2, r2)))))"

definition buffer_edits ::
  "'r bridge \<Rightarrow> (patch_poll \<Rightarrow> bool) \<Rightarrow> nat \<Rightarrow> apply_patch_request \<Rightarrow> string list \<Rightarrow> prepared_edit list
     \<Rightarrow> cache_state \<Rightarrow> 'r \<Rightarrow> (apply_patch_result, 'r) edit_run" where
  "buffer_edits b cancel now q all_paths edits s r =
     (case mutate_prepared_batch (edit_cache_config_of (br_config b)) (br_sha b) now edits s of
        None \<Rightarrow> None
      | Some (Inl error, s1, effects) \<Rightarrow> Some (Inl (edit_bridge_error error), effects, s1, r)
      | Some (Inr Batch_ImmediateWriteRequired, s1, effects) \<Rightarrow>
          after_flush b now (aq_host q) (apply_patch_immediate b cancel q) s1 r
      | Some (Inr (Buffered _), s1, effects) \<Rightarrow>
          (case br_context b r (aq_host q) of
             None \<Rightarrow> Some (Inl missing_context, effects, s1, r)
           | Some context \<Rightarrow>
               Some (Inr \<lparr>ar_context = context, ar_changed_paths = all_paths\<rparr>, effects, s1, r)))"

definition apply_patch ::
  "'r bridge \<Rightarrow> (patch_poll \<Rightarrow> bool) \<Rightarrow> nat \<Rightarrow> apply_patch_request \<Rightarrow> cache_state \<Rightarrow> 'r
     \<Rightarrow> (apply_patch_result, 'r) edit_run" where
  "apply_patch b cancel now q s r =
     (if \<not> br_buffering b then
        (case apply_patch_immediate b cancel q r of
           None \<Rightarrow> None
         | Some (result, r1) \<Rightarrow> Some (result, no_effects, s, r1))
      else
        (case patch_head b q of
           Inl error \<Rightarrow> Some (Inl error, no_effects, s, r)
         | Inr (all_paths, resolved) \<Rightarrow>
             if cancel Poll_Start then
               Some (Inl (attach_preparation_progress cancelled_patch None all_paths), no_effects, s, r)
             else
               (case prepare_files b cancel (aq_host q) all_paths 0 resolved
                       (lim_max_write_bytes (config_limits (br_config b))) (length (aq_patch q)) s r of
                  (Inl (Stop Panic), s1, r1) \<Rightarrow> None
                | (Inl (Stop (Err error)), s1, r1) \<Rightarrow> Some (Inl error, no_effects, s1, r1)
                | (Inl Stop_Immediate, s1, r1) \<Rightarrow>
                    after_flush b now (aq_host q) (apply_patch_immediate b cancel q) s1 r1
                | (Inr edits, s1, r1) \<Rightarrow> buffer_edits b cancel now q all_paths edits s1 r1)))"

end
