(* ===== verification/Snapshot_Properties.thy ===== *)
theory Snapshot_Properties
  imports Remote_Snapshot Write_Buffered
begin

text \<open>
  What a snapshot promises: an accepted answer is the whole content with its length, hash and plain
  permission bits, or the absence of the file; every answer the script prints is read back; and what the
  edit cache fetches satisfies the assumption of its invariant.
\<close>

section \<open>The mode\<close>

lemma octal_bound: "list_all octal_digit s \<Longrightarrow> octal_value s < 8 ^ length s"
proof (induction s rule: rev_induct)
  case (snoc c s)
  then have "octal_value s < 8 ^ length s" "digit_value c \<le> 7"
    by (auto simp: octal_digit_def digit_value_def byte_def)
  then show ?case by (simp add: octal_value_def)
qed (simp add: octal_value_def)

lemma parse_snapshot_mode_Inr:
  assumes "parse_snapshot_mode s = Inr mode"
  shows "mode < 512 \<and> mode = octal_value s"
proof -
  from assms have s: "length s \<le> 4" "list_all octal_digit s" "mode = octal_value s"
    "octal_value s div 512 mod 8 = 0"
    by (auto simp: parse_snapshot_mode_def guard_eq_Inr)
  have "octal_value s < 8 ^ 4"
    using octal_bound [OF s(2)] power_increasing [OF s(1), of "8::nat"] by simp
  then have "octal_value s div 512 < 8" by simp
  with s(4) have "octal_value s div 512 = 0" by simp
  with s(3) show ?thesis by (simp add: div_eq_0_iff)
qed

lemma octal_digits: "list_all octal_digit (octal n)"
proof (induction n rule: octal.induct)
  case (1 n)
  have "octal_digit (digit_char d)" if "d < 8" for d
    using that by (simp add: octal_digit_def byte_digit_char)
  with 1 show ?case by (subst octal.simps) (auto simp: not_less)
qed

lemma octal_value_octal: "octal_value (octal n) = n"
proof (induction n rule: octal.induct)
  case (1 n)
  have "digit_value (digit_char d) = d" if "d < 8" for d
    using that by (simp add: digit_value_def byte_digit_char)
  with 1 show ?case by (subst octal.simps) (auto simp: octal_value_def)
qed

lemma octal_nonempty [simp]: "octal n \<noteq> []"
  by (subst octal.simps) simp

lemma length_octal: "n < 512 \<Longrightarrow> length (octal n) \<le> 3"
  by (subst octal.simps, subst octal.simps, subst octal.simps) auto

lemma parse_snapshot_mode_octal: "mode < 512 \<Longrightarrow> parse_snapshot_mode (octal mode) = Inr mode"
  using length_octal [of mode]
  by (simp add: parse_snapshot_mode_def octal_digits octal_value_octal div_less)

section \<open>The answer\<close>

text \<open>The records of a success, as the script prints them to the standard error.\<close>

definition snapshot_records :: "string \<Rightarrow> string \<Rightarrow> string \<Rightarrow> string \<Rightarrow> string \<Rightarrow> string list" where
  "snapshot_records len mode device inode links =
     [''STATUS=SUCCESS'', ''SIZE='' @ len, ''MODE='' @ mode, ''DEVICE='' @ device, ''INODE='' @ inode,
      ''LINKS='' @ links]"

lemma parse_snapshot_u64_Inr:
  "parse_snapshot_u64 rec pre = Inr n \<longleftrightarrow> (\<exists>v. rec = pre @ v \<and> parse_u64 v = Inr n)"
  by (auto simp: parse_snapshot_u64_def Let_def bindR_eq_Inr ok_or_eq_Inr map_err_eq_Inr strip_prefix_eq_Some)

lemma snapshot_text_Inr:
  "snapshot_text rec pre = Inr v \<longleftrightarrow> rec = pre @ v \<and> valid_utf8 v"
  by (auto simp: snapshot_text_def Let_def bindR_eq_Inr ok_or_eq_Inr map_err_eq_Inr strip_prefix_eq_Some
      utf8_def)

lemma parse_snapshot_success_Inr:
  "parse_snapshot_success sha stdout maximum a m d i l = Inr snap \<longleftrightarrow>
     (\<exists>len mode device inode links n.
        [''STATUS=SUCCESS'', a, m, d, i, l] = snapshot_records len mode device inode links \<and>
        parse_u64 len = Inr (length stdout) \<and> length stdout \<le> maximum \<and> valid_utf8 mode \<and>
        parse_snapshot_mode mode = Inr n \<and> is_ok (parse_u64 device) \<and> is_ok (parse_u64 inode) \<and>
        is_ok (parse_u64 links) \<and> snap = Snap_Regular stdout (sha stdout) n)"
  unfolding parse_snapshot_success_def bindR_eq_Inr guard_eq_Inr parse_snapshot_u64_Inr snapshot_text_Inr
    snapshot_records_def is_ok_iff
  by auto

text \<open>The decision tree of the parser, over any distinct status words.\<close>

lemma snapshot_decision:
  assumes "success \<notin> {conflict, missing, a, b, c, d, e}" "missing \<noteq> conflict"
  shows "(case flds of
       [] \<Rightarrow> Inl e0
     | status # rest \<Rightarrow>
         if status = conflict then (if rest \<noteq> [] then Inl e1 else Inl e2)
         else if status \<noteq> success \<and> stdout \<noteq> [] then Inl e3
         else if status = success \<and> maximum < length stdout then Inl e4
         else if status = missing \<and> rest = [] then Inr m
         else if status = a \<and> rest = [] then Inl ea
         else if status = b \<and> rest = [] then Inl eb
         else if status = c \<and> rest = [] then Inl ec
         else if status = d \<and> rest = [] then Inl ed
         else if status = e \<and> rest = [] then Inl ee
         else (case (status = success, rest) of
                 (True, [v, w, x, y, z]) \<Rightarrow> f v w x y z
               | _ \<Rightarrow> Inl e9)) = Inr snap \<longleftrightarrow>
     flds = [missing] \<and> stdout = [] \<and> snap = m \<or>
     (\<exists>v w x y z. flds = [success, v, w, x, y, z] \<and> length stdout \<le> maximum \<and> f v w x y z = Inr snap)"
proof (cases flds)
  case (Cons status rest)
  then show ?thesis
    using assms by (cases "status = success"; cases rest) (auto simp: not_less split: list.splits)
qed simp

lemma parse_snapshot_Inr:
  "parse_snapshot_protocol sha stderr stdout maximum = Inr snap \<longleftrightarrow>
     (\<exists>flds. nul_fields stderr = Inr flds \<and>
       (flds = [''STATUS=MISSING''] \<and> stdout = [] \<and> snap = Snap_Missing \<or>
        (\<exists>a m d i l. flds = [''STATUS=SUCCESS'', a, m, d, i, l] \<and> length stdout \<le> maximum \<and>
           parse_snapshot_success sha stdout maximum a m d i l = Inr snap)))"
  unfolding parse_snapshot_protocol_def bindR_eq_Inr
  by (intro ex_cong1 conj_cong refl snapshot_decision) simp_all

text \<open>an accepted answer of the snapshot script says that the file is missing, with no content, or
  gives the whole content: its printed length is the length received, the hash is computed from what was
  received, and the mode has permission bits only.  And the answer printed for a content, a mode and the identity of
  a file is read back as them.\<close>

theorem snapshot_answer_exact:
  assumes "mode < 512" "device \<le> u64_max" "inode \<le> u64_max" "links \<le> u64_max" "length bytes \<le> u64_max"
  shows "(\<forall>sha stderr stdout maximum snap. parse_snapshot_protocol sha stderr stdout maximum = Inr snap \<longrightarrow>
      (case snap of
         Snap_Missing \<Rightarrow> stdout = [] \<and> stderr = nul_record ''STATUS=MISSING''
       | Snap_Regular content h m \<Rightarrow> content = stdout \<and> h = sha stdout \<and> length stdout \<le> maximum \<and> m < 512 \<and>
           (\<exists>len mode_text device inode links.
              stderr = concat (map nul_record (snapshot_records len mode_text device inode links)) \<and>
              parse_u64 len = Inr (length stdout) \<and> octal_value mode_text = m))) \<and>
    parse_snapshot_protocol sha
      (concat (map nul_record (snapshot_records (decimal (length bytes)) (octal mode) (decimal device)
         (decimal inode) (decimal links)))) bytes (length bytes) = Inr (Snap_Regular bytes (sha bytes) mode) \<and>
    parse_snapshot_protocol sha (nul_record ''STATUS=MISSING'') [] maximum = Inr Snap_Missing"
proof (intro conjI allI impI)
  fix sha stderr stdout maximum snap
  assume "parse_snapshot_protocol sha stderr stdout maximum = Inr snap"
  then obtain flds where f: "nul_fields stderr = Inr flds" and
    c: "flds = [''STATUS=MISSING''] \<and> stdout = [] \<and> snap = Snap_Missing \<or>
      (\<exists>a m d i l. flds = [''STATUS=SUCCESS'', a, m, d, i, l] \<and> length stdout \<le> maximum \<and>
         parse_snapshot_success sha stdout maximum a m d i l = Inr snap)"
    unfolding parse_snapshot_Inr by blast
  have "stderr = concat (map nul_record flds)" using f by (simp add: nul_fields_iff)
  with c show "case snap of
         Snap_Missing \<Rightarrow> stdout = [] \<and> stderr = nul_record ''STATUS=MISSING''
       | Snap_Regular content h m \<Rightarrow> content = stdout \<and> h = sha stdout \<and> length stdout \<le> maximum \<and> m < 512 \<and>
           (\<exists>len mode_text device inode links.
              stderr = concat (map nul_record (snapshot_records len mode_text device inode links)) \<and>
              parse_u64 len = Inr (length stdout) \<and> octal_value mode_text = m)"
    unfolding parse_snapshot_success_Inr using parse_snapshot_mode_Inr by fastforce
next
  let ?d = "decimal device" and ?i = "decimal inode" and ?l = "decimal links" and ?n = "decimal (length bytes)"
  let ?flds = "snapshot_records ?n (octal mode) ?d ?i ?l"
  have plain: "NUL \<notin> set (decimal k)" "NUL \<notin> set (octal k)" for k
    using decimal_digits [of k] octal_digits [of k]
    by (auto simp: list_all_iff is_ascii_digit_def octal_digit_def byte_def)
  have "\<forall>f \<in> set ?flds. f \<noteq> [] \<and> NUL \<notin> set f" by (simp add: snapshot_records_def plain)
  then have "nul_fields (concat (map nul_record ?flds)) = Inr ?flds" by (simp add: nul_fields_iff)
  moreover have "valid_utf8 (octal mode)"
    using octal_digits [of mode] by (intro valid_utf8_ascii) (auto simp: list_all_iff octal_digit_def)
  then have "parse_snapshot_success sha bytes (length bytes) (''SIZE='' @ ?n) (''MODE='' @ octal mode)
      (''DEVICE='' @ ?d) (''INODE='' @ ?i) (''LINKS='' @ ?l) = Inr (Snap_Regular bytes (sha bytes) mode)"
    unfolding parse_snapshot_success_Inr using assms
    by (intro exI [of _ ?n] exI [of _ "octal mode"] exI [of _ ?d] exI [of _ ?i] exI [of _ ?l] exI [of _ mode])
      (simp add: snapshot_records_def parse_u64_decimal parse_snapshot_mode_octal)
  ultimately show "parse_snapshot_protocol sha (concat (map nul_record ?flds)) bytes (length bytes) =
      Inr (Snap_Regular bytes (sha bytes) mode)"
    unfolding parse_snapshot_Inr by (auto simp: snapshot_records_def)
next
  have "nul_fields (nul_record ''STATUS=MISSING'') = Inr [''STATUS=MISSING'']"
    by (simp add: nul_fields_iff)
  then show "parse_snapshot_protocol sha (nul_record ''STATUS=MISSING'') [] maximum = Inr Snap_Missing"
    unfolding parse_snapshot_Inr by auto
qed

lemma snapshot_answer_exact_witness:
  "parse_snapshot_protocol id
     (concat (map nul_record
        (snapshot_records (decimal (length ''hi'')) (octal 420) (decimal 1) (decimal 7) (decimal 1))))
     ''hi'' (length ''hi'') = Inr (Snap_Regular ''hi'' (id ''hi'') 420)"
  using snapshot_answer_exact [of 420 1 7 1 "''hi''", THEN conjunct2, THEN conjunct1, of id]
  by (simp only: u64_max_def) simp

section \<open>What the edit cache fetches\<close>

text \<open>a content the edit cache fetches is one read of the host under a read-only operation, within the
  byte budget of the cache, and its recorded base describes it: the base names the hash of that content, or says that the
  file is missing.  This is what the invariant of the cache assumes of its backend.\<close>

theorem fetched_snapshot_in_step:
  assumes "fetch_snapshot b maximum key r = (Inr snapshot, r')"
  shows "snapshot_ok (br_sha b) snapshot \<and> desired_size (sn_desired snapshot) \<le> maximum \<and>
    (\<exists>request result. fr_kind request = Op_ReadOnly \<and> fr_host request = key_host key \<and>
       execute_readonly_fixed b r request = (Inr result, r'))"
proof -
  from assms obtain parent basename stdout_limit maximum' read_limit result stderr stdout snap where
    lim: "snapshot_limits sync_permanent maximum (lim_max_output_bytes (config_limits (br_config b))) =
      Inr (stdout_limit, maximum', read_limit)"
    and run: "execute_readonly_fixed b r
      (snapshot_request b (key_host key) parent basename stdout_limit maximum') = (Inr result, r')"
    and parse: "parse_snapshot_protocol (br_sha b) stderr stdout maximum' = Inr snap"
    and snapshot: "snapshot = cache_snapshot snap"
    by (auto simp: fetch_snapshot_def bindR_eq_Inr map_err_eq_Inr split: sum.splits prod.splits)
  have "maximum' \<le> maximum"
    using lim by (auto simp: snapshot_limits_def bindR_eq_Inr ok_or_eq_Inr checked_add_def Let_def split: if_splits)
  moreover have "(snap = Snap_Missing) \<or> (\<exists>m. snap = Snap_Regular stdout (br_sha b stdout) m \<and> length stdout \<le> maximum')"
    using parse unfolding parse_snapshot_Inr parse_snapshot_success_Inr by blast
  ultimately have "snapshot_ok (br_sha b) snapshot" "desired_size (sn_desired snapshot) \<le> maximum"
    by (auto simp: snapshot cache_snapshot_def snapshot_ok_def)
  moreover have "fr_kind (snapshot_request b h p f k m) = Op_ReadOnly" "fr_host (snapshot_request b h p f k m) = h"
    for h p f k m by (simp_all add: snapshot_request_def)
  ultimately show ?thesis using run by blast
qed

text \<open>A host that answers every request with the record of a missing file.\<close>

definition missing_output :: captured_output where
  "missing_output =
     \<lparr>co_stdout_file = Some [], co_stderr_file = Some (nul_record ''STATUS=MISSING''), co_stdout_len = 0,
      co_stderr_len = 15, co_aggregate_bytes = 15\<rparr>"

definition missing_bridge :: "session_command list bridge" where
  "missing_bridge = demo_bridge
     \<lparr>br_run := session_runner (config_limits (br_config demo_bridge)) (\<lambda>_. demo_world (Inr (demo_result 0)) (Inr missing_output))\<rparr>"

lemma missing_fetched:
  "fst (fetch_snapshot missing_bridge 100 \<lparr>key_host = ''web'', key_path = ''/x/f''\<rparr> []) =
     Inr \<lparr>sn_base = Base_Missing, sn_desired = Deleted\<rparr>"
  by code_simp

lemma fetched_snapshot_in_step_witness:
  "\<exists>request result.
     fr_kind request = Op_ReadOnly \<and> fst (execute_readonly_fixed missing_bridge [] request) = Inr result"
proof -
  obtain r' where "fetch_snapshot missing_bridge 100 \<lparr>key_host = ''web'', key_path = ''/x/f''\<rparr> [] =
      (Inr \<lparr>sn_base = Base_Missing, sn_desired = Deleted\<rparr>, r')"
    using missing_fetched by (metis prod.collapse)
  from fetched_snapshot_in_step [OF this] show ?thesis by (metis fst_conv)
qed

end
