(* ===== verification/Patch_Properties.thy ===== *)
theory Patch_Properties
  imports Patch_Driver Apply_Correct Snapshot_Properties
begin

text \<open>
  What \<open>apply_patch\<close> in its immediate form guarantees: the mutations it plans are the patch
  of the snapshots, each guarded by the content it was computed from, and every outcome reports
  exactly which paths were changed, which may have been, and which were not.
\<close>

section \<open>Progress in an error\<close>

definition progress_in :: "bridge_error \<Rightarrow> string list \<Rightarrow> string list \<Rightarrow> string list \<Rightarrow> bool" where
  "progress_in e changed unknown rest \<longleftrightarrow>
     ed_changed_paths (be_details e) = Some changed \<and>
     ed_outcome_unknown_paths (be_details e) = Some unknown \<and>
     ed_not_changed_paths (be_details e) = Some rest"

definition maybe_applied :: "bridge_error \<Rightarrow> bool" where
  "maybe_applied e \<longleftrightarrow>
     be_code e = MutationOutcomeUnknown \<or> ed_mutation_may_have_applied (be_details e) = Some True"

lemma progress_attach_context [simp]:
  "progress_in (attach_remote_context e c) ch un re = progress_in e ch un re"
  "maybe_applied (attach_remote_context e c) = maybe_applied e"
  "progress_in (attach_optional_remote_context e oc) ch un re = progress_in e ch un re"
  by (simp_all add: progress_in_def maybe_applied_def attach_optional_remote_context_def
      attach_remote_context_def attach_context_normal_form split: option.split)

lemma code_attach_context [simp]: "be_code (attach_remote_context e c) = be_code e"
  by (simp add: attach_remote_context_def attach_context_normal_form)

lemma preparation_progress [simp]:
  "progress_in (attach_preparation_progress e p all_paths) [] [] all_paths"
  by (simp add: progress_in_def attach_preparation_progress_def Let_def)

lemma after_snapshots_progress [simp]:
  "progress_in (attach_after_snapshots all_paths c e p) [] [] all_paths"
  by (simp add: attach_after_snapshots_def)

lemma mutation_progress:
  assumes "i < length all_paths"
  shows "\<exists>e'. attach_mutation_progress_context e i all_paths c = Some e' \<and> be_code e' = be_code e \<and>
    maybe_applied e' = maybe_applied e \<and>
    (if maybe_applied e then progress_in e' (take i all_paths) [all_paths ! i] (drop (Suc i) all_paths)
     else progress_in e' (take i all_paths) [] (drop i all_paths))"
proof -
  let ?unknown = "be_code e = MutationOutcomeUnknown \<or> ed_mutation_may_have_applied (be_details e) = Some True"
  obtain e' where e': "attach_mutation_progress e i all_paths = Some e'"
    using assms by (simp add: attach_mutation_progress_def Let_def)
  moreover have "be_code e' = be_code e \<and> maybe_applied e' = maybe_applied e \<and>
    (if maybe_applied e then progress_in e' (take i all_paths) [all_paths ! i] (drop (Suc i) all_paths)
     else progress_in e' (take i all_paths) [] (drop i all_paths))"
    using assms e' by (cases ?unknown)
      (auto simp: attach_mutation_progress_def Let_def progress_in_def maybe_applied_def)
  ultimately show ?thesis by (auto simp: attach_mutation_progress_context_def)
qed

section \<open>Failures before the first mutation\<close>

text \<open>A failure that reports that no path was changed.\<close>

definition unchanged_failure :: "string list \<Rightarrow> apply_failure \<Rightarrow> bool" where
  "unchanged_failure all_paths failure \<longleftrightarrow> (\<exists>e. failure = Err e \<and> progress_in e [] [] all_paths)"

lemma unchanged_err [simp]:
  "unchanged_failure all_paths (Err (attach_preparation_progress e p all_paths))"
  "unchanged_failure all_paths (Err (attach_after_snapshots all_paths c e p))"
  "unchanged_failure all_paths (Err (attach_remote_context (attach_preparation_progress e p all_paths) c))"
  "unchanged_failure all_paths (Err (attach_optional_remote_context (attach_preparation_progress e p all_paths) oc))"
  by (simp_all add: unchanged_failure_def)

section \<open>The resolved files\<close>

definition resolved_ok :: "bridge_config \<Rightarrow> string \<Rightarrow> resolved_file_patch \<Rightarrow> bool" where
  "resolved_ok config host file \<longleftrightarrow>
     prepare_patch_path config host (cf_path (rf_patch file)) = Inr (rf_source file) \<and>
     (case move_destination (rf_patch file) of
        None \<Rightarrow> rf_destination file = None
      | Some path \<Rightarrow> \<exists>d. rf_destination file = Some d \<and> prepare_patch_path config host path = Inr d)"

lemma resolve_patch_file_ok:
  assumes "resolve_patch_file config host patch = Inr file"
  shows "rf_patch file = patch \<and> resolved_ok config host file"
proof -
  from assms obtain source dest where
    f: "file = \<lparr>rf_patch = patch, rf_source = source, rf_destination = dest\<rparr>"
    and source: "prepare_patch_path config host (cf_path patch) = Inr source"
    and dest: "(case move_destination patch of
        Some destination \<Rightarrow>
          bindR (map_err (with_failed_path destination) (prepare_patch_path config host destination))
            (\<lambda>d. Inr (Some d))
      | None \<Rightarrow> Inr None) = Inr dest"
    unfolding resolve_patch_file_def map_err_eq_Inr bindR_eq_Inr patch_path_def by blast
  show ?thesis
  proof (cases "move_destination patch")
    case None
    with dest source f show ?thesis by (simp add: resolved_ok_def)
  next
    case (Some path)
    with dest obtain d where "dest = Some d" "prepare_patch_path config host path = Inr d"
      by (auto simp: bindR_eq_Inr map_err_eq_Inr)
    with Some source f show ?thesis by (simp add: resolved_ok_def)
  qed
qed

lemma resolve_patch_files_ok:
  assumes "resolve_patch_files config host patches = Inr files"
  shows "map rf_patch files = patches \<and> list_all (resolved_ok config host) files"
  using assms
proof (induction patches arbitrary: files)
  case (Cons patch patches)
  then obtain fl rest where "resolve_patch_file config host patch = Inr fl"
    "resolve_patch_files config host patches = Inr rest" "files = fl # rest"
    by (auto simp: bindR_eq_Inr)
  with Cons.IH resolve_patch_file_ok [of config host patch fl] show ?case by simp
qed simp

lemma patch_head_ok:
  assumes "patch_head b q = Inr (all_paths, resolved)"
  shows "parse_codex_patch (aq_patch q) (aq_host q) = Inr (map rf_patch resolved) \<and>
    list_all (resolved_ok (br_config b) (aq_host q)) resolved \<and>
    all_paths = concat (map (\<lambda>f. mutation_paths (rf_patch f)) resolved)"
proof -
  from assms obtain patches where p: "parse_codex_patch (aq_patch q) (aq_host q) = Inr patches"
    "resolve_patch_files (br_config b) (aq_host q) patches = Inr resolved"
    "all_paths = concat (map mutation_paths patches)"
    by (auto simp: patch_head_def bindR_eq_Inr map_err_eq_Inr Let_def split: if_splits)
  then show ?thesis using resolve_patch_files_ok [OF p(2)] by (auto simp: comp_def)
qed

text \<open>A path of an accepted patch is canonical, so its checked form is the path itself.\<close>

lemma absolute_of_canonical:
  assumes "canonical_path p" "absolute p = Inr rp"
  shows "rp_absolute rp = p"
proof -
  from assms(1) obtain cs where cs: "list_all plain_component cs" "p = ''/'' @ join_with ''/'' cs"
    unfolding canonical_path_def using that [of "[]"] by auto
  note n = normalize_absolute_canonical [OF cs(1)]
  from assms(2) cs(2) n show ?thesis
    by (auto simp: absolute_def resolve_def Let_def bindR_eq_Inr split: if_splits)
qed

lemma path_ok_canonical: "path_ok p \<Longrightarrow> canonical_path p"
  by (auto simp: path_ok_def validate_codex_path_def validate_path_ok canonical_path_def bindR_eq_Inr
      list_all_iff patch_component_def plain_component_def split: if_splits)

lemma prepared_patch_path:
  assumes "prepare_patch_path config host p = Inr m" "path_ok p"
  shows "rp_absolute (pm_path m) = p \<and> pm_host m = host"
proof -
  from assms(1) have "absolute p = Inr (pm_path m)" "pm_host m = host"
    unfolding prepare_patch_path_def prepare_mutation_path_def bindR_eq_Inr guard_eq_Inr by auto
  with absolute_of_canonical [OF path_ok_canonical [OF assms(2)]] show ?thesis by simp
qed

section \<open>The plan\<close>

definition mutation_target_path :: "prepared_mutation \<Rightarrow> string" where
  "mutation_target_path mutation =
     (case mutation of
        Mutation_Write w \<Rightarrow> rp_absolute (wv_path w)
      | Mutation_Delete d \<Rightarrow> rp_absolute (dv_path d))"

text \<open>The mutation is refused by the host unless the file is what the snapshot says.\<close>

definition guarded_write :: "file_snapshot \<Rightarrow> resolved_write \<Rightarrow> bool" where
  "guarded_write snapshot w \<longleftrightarrow>
     (case snapshot of
        Snap_Missing \<Rightarrow> wv_operation w = Write_Create
      | Snap_Regular _ sha _ \<Rightarrow> wv_operation w = Write_Replace \<and> wv_expected_sha256 w = Some sha)"

definition guarded_removal :: "file_snapshot \<Rightarrow> resolved_delete \<Rightarrow> bool" where
  "guarded_removal snapshot d \<longleftrightarrow> snapshot_sha256 snapshot = Some (dv_expected_sha256 d)"

definition computed_from :: "string option \<Rightarrow> codex_file_patch \<Rightarrow> patched_file \<Rightarrow> bool" where
  "computed_from base patch out \<longleftrightarrow> (\<exists>maximum. apply_codex_file base patch maximum = Inr out)"

definition planned :: "resolved_file_patch \<times> patch_snapshots \<Rightarrow> prepared_mutation list \<Rightarrow> bool" where
  "planned file_snapshots mutations \<longleftrightarrow>
     (let patch = rf_patch (fst file_snapshots); snapshots = snd file_snapshots in
      map mutation_target_path mutations = mutation_paths patch \<and>
      (\<exists>out. computed_from (snapshot_base (ps_source snapshots)) patch out \<and>
        (case (move_destination patch, out) of
           (None, Write_File bytes) \<Rightarrow>
             (\<exists>w. mutations = [Mutation_Write w] \<and> wv_content w = bytes \<and>
                guarded_write (ps_source snapshots) w)
         | (None, Remove_File) \<Rightarrow>
             (\<exists>d. mutations = [Mutation_Delete d] \<and> guarded_removal (ps_source snapshots) d)
         | (Some _, Write_File bytes) \<Rightarrow>
             (\<exists>w d target. mutations = [Mutation_Write w, Mutation_Delete d] \<and> wv_content w = bytes \<and>
                ps_destination snapshots = Some target \<and> guarded_write target w \<and>
                guarded_removal (ps_source snapshots) d)
         | (Some _, Remove_File) \<Rightarrow> False)))"

lemma preflight_write_Inr:
  assumes "preflight_write_resolved b prep content Write_Utf8 mode = Inr w"
  shows "wv_path w = pm_path prep \<and> wv_content w = content \<and>
    (case mode of
       Mode_Create \<Rightarrow> wv_operation w = Write_Create
     | Mode_Replace expected \<Rightarrow> wv_operation w = Write_Replace \<and> wv_expected_sha256 w = expected)"
  using assms unfolding preflight_write_resolved_def bindR_eq_Inr
  by (auto simp: decode_content_def resolve_mode_def bindR_eq_Inr Let_def
      split: write_mode.splits option.splits if_splits)

lemma preflight_delete_Inr:
  assumes "preflight_delete_resolved b prep expected = Inr d"
  shows "dv_path d = pm_path prep \<and> dv_expected_sha256 d = expected"
  using assms unfolding preflight_delete_resolved_def bindR_eq_Inr
  by (auto simp: Let_def bindR_eq_Inr split: if_splits)

lemma applied_presence:
  assumes "apply_codex_file base patch maximum = Inr out"
  shows "(case cf_operation patch of Create_File \<Rightarrow> base = None | _ \<Rightarrow> base \<noteq> None)"
  using assms by (cases base) (auto simp: apply_codex_file_def or_err_def ok_or_def split: file_patch_operation.splits)

lemma snapshot_presence [simp]:
  "snapshot_base s = None \<longleftrightarrow> s = Snap_Missing" "snapshot_sha256 s = None \<longleftrightarrow> s = Snap_Missing"
  by (cases s; simp)+

definition file_paths_ok :: "bridge_config \<Rightarrow> string \<Rightarrow> resolved_file_patch \<Rightarrow> bool" where
  "file_paths_ok config host fl \<longleftrightarrow> resolved_ok config host fl \<and> file_wf (rf_patch fl)"

lemma source_path:
  assumes "file_paths_ok config host fl"
  shows "rp_absolute (pm_path (rf_source fl)) = cf_path (rf_patch fl)"
proof -
  from assms have "path_ok (cf_path (rf_patch fl))" by (simp add: file_paths_ok_def file_wf_def named_paths_def)
  with assms prepared_patch_path show ?thesis by (auto simp: file_paths_ok_def resolved_ok_def)
qed

lemma destination_path:
  assumes "file_paths_ok config host fl"
  shows "case move_destination (rf_patch fl) of
      None \<Rightarrow> rf_destination fl = None
    | Some path \<Rightarrow> cf_move_path (rf_patch fl) = Some path \<and>
        (\<exists>d. rf_destination fl = Some d \<and> rp_absolute (pm_path d) = path)"
proof (cases "move_destination (rf_patch fl)")
  case (Some path)
  then have m: "cf_move_path (rf_patch fl) = Some path" "path \<noteq> cf_path (rf_patch fl)"
    by (auto simp: move_destination_def move_path_def patch_path_def split: option.splits if_splits)
  with assms have "path_ok path" by (simp add: file_paths_ok_def file_wf_def named_paths_def)
  with assms Some m prepared_patch_path show ?thesis by (fastforce simp: file_paths_ok_def resolved_ok_def)
qed (use assms in \<open>simp add: file_paths_ok_def resolved_ok_def\<close>)

lemma apply_files_spec:
  assumes "\<forall>(fl, sn) \<in> set pairs. file_wf (rf_patch fl)"
  shows "case apply_files (attach_after_snapshots all_paths c) maximum pairs of
      Inl failure \<Rightarrow> unchanged_failure all_paths failure
    | Inr outs \<Rightarrow> map (\<lambda>(fl, out, sn). (fl, sn)) outs = pairs \<and>
        (\<forall>(fl, out, sn) \<in> set outs. computed_from (snapshot_base (ps_source sn)) (rf_patch fl) out)"
  using assms
proof (induction pairs arbitrary: maximum)
  case (Cons pair pairs)
  obtain fl sn where pair: "pair = (fl, sn)" by force
  let ?run = "apply_codex_file (snapshot_base (ps_source sn)) (rf_patch fl) maximum"
  have total: "ok_or_error (\<lambda>_. True) ?run" using Cons.prems pair by (intro apply_codex_file_total) simp
  show ?case
  proof (cases ?run)
    case (Inl failure)
    with total show ?thesis by (cases failure) (simp_all add: pair map_apply_err_def map_err_def)
  next
    case (Inr out)
    define left where "left = (case out of
        Write_File bytes \<Rightarrow> ok_or (Err (attach_after_snapshots all_paths c outputs_too_large (Some (cf_path (rf_patch fl)))))
            (checked_sub maximum (length bytes))
      | Remove_File \<Rightarrow> Inr maximum)"
    show ?thesis
    proof (cases left)
      case left: (Inl failure)
      then have "unchanged_failure all_paths failure"
        by (auto simp: left_def ok_or_def split: patched_file.splits option.splits)
      with Inr left show ?thesis by (simp add: pair map_apply_err_def map_err_def left_def)
    next
      case left: (Inr m)
      from Cons.IH [of m] Cons.prems Inr left show ?thesis
        by (cases "apply_files (attach_after_snapshots all_paths c) m pairs")
          (auto simp: pair map_apply_err_def map_err_def left_def computed_from_def)
    qed
  qed
qed simp

definition plan_step_ok ::
  "string list \<Rightarrow> resolved_file_patch \<times> patch_snapshots \<Rightarrow> prepared_mutation list apply_result \<Rightarrow> bool" where
  "plan_step_ok all_paths pair result \<longleftrightarrow>
     (case result of Inl failure \<Rightarrow> unchanged_failure all_paths failure | Inr mutations \<Rightarrow> planned pair mutations)"

lemma plan_step_bind:
  assumes "\<And>e. m = Inl e \<Longrightarrow> unchanged_failure all_paths e" "\<And>a. m = Inr a \<Longrightarrow> plan_step_ok all_paths pair (f a)"
  shows "plan_step_ok all_paths pair (bindR m f)"
  using assms by (cases m) (auto simp: plan_step_ok_def)

lemma plan_step_error [simp]:
  "plan_step_ok all_paths pair (Inl (Err (attach_after_snapshots all_paths c e p)))"
  by (simp add: plan_step_ok_def)

lemma prepare_single_spec:
  assumes "file_paths_ok config host fl" "move_destination (rf_patch fl) = None"
    and "computed_from (snapshot_base (ps_source sn)) (rf_patch fl) out"
  shows "plan_step_ok all_paths (fl, sn) (prepare_single b (attach_after_snapshots all_paths c) (fl, out, sn))"
proof -
  note path = source_path [OF assms(1)]
  from assms(3) obtain m where run: "apply_codex_file (snapshot_base (ps_source sn)) (rf_patch fl) m = Inr out"
    by (auto simp: computed_from_def)
  note presence = applied_presence [OF run]
  have paths: "mutation_paths (rf_patch fl) = [cf_path (rf_patch fl)]" by (simp add: mutation_paths_def assms(2))
  show ?thesis
  proof (cases out)
    case (Write_File bytes)
    have "plan_step_ok all_paths (fl, sn) (Inr [Mutation_Write w])"
      if w: "preflight_write_resolved b (rf_source fl) content Write_Utf8 mode = Inr w" "content = bytes"
        "mode = (if cf_operation (rf_patch fl) = Create_File then Mode_Create
           else Mode_Replace (snapshot_sha256 (ps_source sn)))" for w content mode
    proof -
      note f = preflight_write_Inr [OF w(1)]
      have "guarded_write (ps_source sn) w"
        using f w(3) presence
        by (cases "cf_operation (rf_patch fl)"; cases "ps_source sn") (auto simp: guarded_write_def)
      with f w(2) path paths assms(2,3) show ?thesis
        by (auto simp: plan_step_ok_def planned_def Let_def mutation_target_path_def Write_File)
    qed
    then show ?thesis
      unfolding prepare_single_def Write_File Let_def patch_content_def
      by (auto intro!: plan_step_bind simp: map_err_eq_Inl map_err_eq_Inr split: file_patch_operation.splits if_splits)
  next
    case Remove_File
    have "plan_step_ok all_paths (fl, sn) (Inr [Mutation_Delete d])"
      if d: "preflight_delete_resolved b (rf_source fl) expected = Inr d"
        "snapshot_sha256 (ps_source sn) = Some expected" for d expected
      using preflight_delete_Inr [OF d(1)] d(2) path paths assms(2,3)
      by (auto simp: plan_step_ok_def planned_def Let_def mutation_target_path_def Remove_File guarded_removal_def)
    then show ?thesis
      unfolding prepare_single_def Remove_File Let_def
      by (auto intro!: plan_step_bind simp: map_err_eq_Inl map_err_eq_Inr split: option.splits)
  qed
qed

lemma prepare_move_spec:
  assumes "file_paths_ok config host fl" "move_destination (rf_patch fl) = Some target"
    and "rf_destination fl = Some destination"
    and "computed_from (snapshot_base (ps_source sn)) (rf_patch fl) out"
  shows "plan_step_ok all_paths (fl, sn)
    (prepare_move b (attach_after_snapshots all_paths c) destination (fl, out, sn))"
proof -
  note path = source_path [OF assms(1)]
  from destination_path [OF assms(1)] assms(2,3) have moved: "cf_move_path (rf_patch fl) = Some target"
    "rp_absolute (pm_path destination) = target" by auto
  have paths: "mutation_paths (rf_patch fl) = [target, cf_path (rf_patch fl)]" by (simp add: mutation_paths_def assms(2))
  show ?thesis
  proof (cases out)
    case (Write_File bytes)
    have "plan_step_ok all_paths (fl, sn) (Inr [Mutation_Write w, Mutation_Delete d])"
      if w: "preflight_write_resolved b destination bytes Write_Utf8
          (case snapshot of Snap_Missing \<Rightarrow> Mode_Create | Snap_Regular _ sha _ \<Rightarrow> Mode_Replace (Some sha)) = Inr w"
        "ps_destination sn = Some snapshot"
        "preflight_delete_resolved b (rf_source fl) expected = Inr d"
        "snapshot_sha256 (ps_source sn) = Some expected" for w d snapshot expected
    proof -
      note f = preflight_write_Inr [OF w(1)] and g = preflight_delete_Inr [OF w(3)]
      have "guarded_write snapshot w" using f by (cases snapshot) (auto simp: guarded_write_def)
      with f g w(2,4) path paths moved(2) assms(2,4) show ?thesis
        by (auto simp: plan_step_ok_def planned_def Let_def mutation_target_path_def Write_File guarded_removal_def)
    qed
    then show ?thesis
      unfolding prepare_move_def Write_File Let_def patch_content_def move_without_path_def
      by (auto intro!: plan_step_bind simp: moved(1) ok_or_def map_err_eq_Inl map_err_eq_Inr split: option.splits if_splits)
  next
    case Remove_File
    show ?thesis
      by (auto simp: prepare_move_def Remove_File Let_def move_without_path_def moved(1) plan_step_ok_def)
  qed
qed

lemma prepare_mutations_spec:
  assumes "\<forall>(fl, out, sn) \<in> set outs. file_paths_ok config host fl \<and>
      computed_from (snapshot_base (ps_source sn)) (rf_patch fl) out"
  shows "case prepare_mutations b (attach_after_snapshots all_paths c) outs of
      Inl failure \<Rightarrow> unchanged_failure all_paths failure
    | Inr mutations \<Rightarrow> \<exists>groups. mutations = concat groups \<and>
        list_all2 planned (map (\<lambda>(fl, out, sn). (fl, sn)) outs) groups"
  using assms
proof (induction outs)
  case (Cons x outs)
  obtain fl out sn where x: "x = (fl, out, sn)" by (cases x) auto
  with Cons.prems have ok: "file_paths_ok config host fl" "computed_from (snapshot_base (ps_source sn)) (rf_patch fl) out"
    by auto
  let ?step = "case rf_destination fl of
      Some destination \<Rightarrow> prepare_move b (attach_after_snapshots all_paths c) destination (fl, out, sn)
    | None \<Rightarrow> prepare_single b (attach_after_snapshots all_paths c) (fl, out, sn)"
  have step: "plan_step_ok all_paths (fl, sn) ?step"
  proof (cases "move_destination (rf_patch fl)")
    case None
    with destination_path [OF ok(1)] prepare_single_spec [OF ok(1) None ok(2)] show ?thesis by (simp add: x)
  next
    case (Some target)
    with destination_path [OF ok(1)] obtain d where d: "rf_destination fl = Some d" by auto
    with prepare_move_spec [OF ok(1) Some d ok(2)] show ?thesis by (simp add: x)
  qed
  show ?case
  proof (cases ?step)
    case (Inl failure)
    with step show ?thesis by (simp add: x plan_step_ok_def)
  next
    case (Inr mutations)
    with step have now: "planned (fl, sn) mutations" by (simp add: plan_step_ok_def)
    from Cons.prems have "\<forall>(fl, out, sn) \<in> set outs. file_paths_ok config host fl \<and>
        computed_from (snapshot_base (ps_source sn)) (rf_patch fl) out" by simp
    note IH = Cons.IH [OF this]
    show ?thesis
    proof (cases "prepare_mutations b (attach_after_snapshots all_paths c) outs")
      case (Inl failure)
      with IH Inr show ?thesis by (simp add: x)
    next
      case later: (Inr later)
      with IH obtain groups where "later = concat groups"
        "list_all2 planned (map (\<lambda>(fl, out, sn). (fl, sn)) outs) groups" by auto
      with Inr later now show ?thesis by (intro exI [of _ "mutations # groups"] | simp add: x)+
    qed
  qed
qed simp

lemma planned_targets: "planned pair mutations \<Longrightarrow> map mutation_target_path mutations = mutation_paths (rf_patch (fst pair))"
  by (auto simp: planned_def Let_def)

lemma planned_groups_targets:
  "list_all2 planned pairs groups \<Longrightarrow>
     map mutation_target_path (concat groups) = concat (map (\<lambda>pair. mutation_paths (rf_patch (fst pair))) pairs)"
  by (induction pairs groups rule: list_all2_induct) (simp_all add: planned_targets)

text \<open>The computed files carry the files and snapshots they were computed from.\<close>

lemma computed_pairs:
  assumes "map (\<lambda>(fl, out, sn). (fl, sn)) outs = zip resolved snapshots" "(fl, out, sn) \<in> set outs"
  shows "fl \<in> set resolved"
proof -
  have "(fl, sn) \<in> set (map (\<lambda>(fl, out, sn). (fl, sn)) outs)" using assms(2) by force
  with assms(1) show ?thesis by (metis set_zip_leftD)
qed

lemma plan_mutations_spec:
  assumes "list_all (file_paths_ok config host) resolved"
  shows "case plan_mutations b all_paths c resolved snapshots of
      Inl failure \<Rightarrow> unchanged_failure all_paths failure
    | Inr mutations \<Rightarrow> \<exists>groups. mutations = concat groups \<and> list_all2 planned (zip resolved snapshots) groups"
proof -
  have ok: "file_paths_ok config host fl" if "fl \<in> set resolved" for fl
    using assms that by (simp add: list_all_iff)
  have wf: "\<forall>(fl, sn) \<in> set (zip resolved snapshots). file_wf (rf_patch fl)"
    using ok by (auto simp: file_paths_ok_def dest: set_zip_leftD)
  let ?run = "apply_files (attach_after_snapshots all_paths c) (lim_max_write_bytes (config_limits (br_config b)))
    (zip resolved snapshots)"
  note files = apply_files_spec [OF wf, where all_paths = all_paths and c = c
      and maximum = "lim_max_write_bytes (config_limits (br_config b))"]
  show ?thesis
  proof (cases ?run)
    case (Inl failure)
    with files show ?thesis by (simp add: plan_mutations_def)
  next
    case (Inr outs)
    with files have pairs: "map (\<lambda>(fl, out, sn). (fl, sn)) outs = zip resolved snapshots"
      and each: "\<forall>(fl, out, sn) \<in> set outs. computed_from (snapshot_base (ps_source sn)) (rf_patch fl) out"
      by simp_all
    have "\<forall>(fl, out, sn) \<in> set outs. file_paths_ok config host fl \<and>
        computed_from (snapshot_base (ps_source sn)) (rf_patch fl) out"
      using each computed_pairs [OF pairs] ok by fastforce
    from prepare_mutations_spec [OF this, where b = b and all_paths = all_paths and c = c, unfolded pairs] Inr show ?thesis
      by (simp add: plan_mutations_def)
  qed
qed

section \<open>The snapshots\<close>

lemma take_snapshot_failure:
  "take_snapshot b host all_paths path display remaining oc r = (Inl failure, r') \<Longrightarrow> unchanged_failure all_paths failure"
  by (auto simp: take_snapshot_def Let_def split: prod.splits sum.splits option.splits if_splits)

lemma take_file_snapshots_failure:
  assumes "take_file_snapshots b host all_paths fl remaining oc r = (Inl failure, r')" "file_paths_ok config host fl"
  shows "unchanged_failure all_paths failure"
  using assms destination_path [OF assms(2)]
  by (auto simp: take_file_snapshots_def move_without_path_def ok_or_def
      split: prod.splits sum.splits option.splits dest: take_snapshot_failure)

lemma take_snapshots_spec:
  assumes "take_snapshots b cancel host all_paths i files remaining oc r = (res, r')"
    and "list_all (file_paths_ok config host) files"
  shows "case res of
      Inl failure \<Rightarrow> unchanged_failure all_paths failure
    | Inr (snapshots, oc') \<Rightarrow> length snapshots = length files \<and> (files \<noteq> [] \<longrightarrow> oc' \<noteq> None) \<and>
        (oc \<noteq> None \<longrightarrow> oc' \<noteq> None)"
  using assms
proof (induction files arbitrary: i remaining oc r res r')
  case (Cons fl files)
  show ?case
  proof (cases "cancel (Poll_Snapshot i)")
    case True
    with Cons.prems show ?thesis by auto
  next
    case False
    obtain one r1 where one: "take_file_snapshots b host all_paths fl remaining oc r = (one, r1)" by force
    show ?thesis
    proof (cases one)
      case (Inl failure)
      with Cons.prems False one take_file_snapshots_failure show ?thesis by auto
    next
      case (Inr x)
      then obtain taken left c where x: "one = Inr (taken, left, c)" by (cases x) auto
      obtain later r2 where later: "take_snapshots b cancel host all_paths (Suc i) files left (Some c) r1 = (later, r2)"
        by force
      have "list_all (file_paths_ok config host) files" using Cons.prems(2) by simp
      from Cons.IH [OF later this] Cons.prems(1) False one x later show ?thesis
        by (auto split: sum.splits prod.splits)
    qed
  qed
qed auto

section \<open>The run of the mutations\<close>

text \<open>Running mutations that are all confirmed.\<close>

fun confirmed :: "'r bridge \<Rightarrow> 'r \<Rightarrow> prepared_mutation list \<Rightarrow> 'r \<Rightarrow> bool" where
  "confirmed b r [] r' \<longleftrightarrow> r' = r"
| "confirmed b r (mutation # mutations) r' \<longleftrightarrow>
     (\<exists>context r1. run_mutation b r mutation = (Inr context, r1) \<and> confirmed b r1 mutations r')"

text \<open>What an error reports at the mutation of a given path: the paths before it are changed; the path itself may
  have been when the error of its mutation says so, otherwise it counts with the unchanged ones.\<close>

definition partial_progress :: "string list \<Rightarrow> bool \<Rightarrow> bridge_error \<Rightarrow> nat \<Rightarrow> bool" where
  "partial_progress all_paths unknown e k \<longleftrightarrow>
     (if unknown then progress_in e (take k all_paths) [all_paths ! k] (drop (Suc k) all_paths)
      else progress_in e (take k all_paths) [] (drop k all_paths))"

text \<open>
  The first mutations were confirmed.  The next one was not run, since the patch was cancelled, or
  it was run and failed, and the error reported is its error.
\<close>

definition stopped_at ::
  "'r bridge \<Rightarrow> (patch_poll \<Rightarrow> bool) \<Rightarrow> string list \<Rightarrow> nat \<Rightarrow> 'r \<Rightarrow> prepared_mutation list \<Rightarrow> nat
     \<Rightarrow> bridge_error \<Rightarrow> 'r \<Rightarrow> bool" where
  "stopped_at b cancel all_paths i r mutations k e r' \<longleftrightarrow>
     k < length mutations \<and>
     (\<exists>r1. confirmed b r (take k mutations) r1 \<and>
        (cancel (Poll_Mutation (i + k)) \<and> r' = r1 \<and> be_code e = Cancelled \<and> partial_progress all_paths False e (i + k) \<or>
         (\<exists>failure. run_mutation b r1 (mutations ! k) = (Inl failure, r') \<and> be_code e = be_code failure \<and>
            partial_progress all_paths (maybe_applied failure) e (i + k))))"

lemma run_mutations_spec:
  assumes "run_mutations b cancel all_paths c i mutations changed r = (res, r')"
    and "length all_paths = i + length mutations" "changed = take i all_paths"
  shows "case res of
      Inr ch \<Rightarrow> ch = all_paths \<and> confirmed b r mutations r'
    | Inl failure \<Rightarrow> \<exists>e k. failure = Err e \<and> stopped_at b cancel all_paths i r mutations k e r'"
  using assms
proof (induction mutations arbitrary: i changed r)
  case (Cons mutation mutations)
  from Cons.prems(2) have i: "i < length all_paths" by simp
  let ?stop = "\<lambda>e. case attach_mutation_progress_context e i all_paths c of Some error \<Rightarrow> Err error | None \<Rightarrow> Panic"
  have stop: "\<exists>e'. ?stop e = Err e' \<and> be_code e' = be_code e \<and> partial_progress all_paths (maybe_applied e) e' i" for e
    using mutation_progress [OF i, of e c] by (auto simp: partial_progress_def)
  show ?case
  proof (cases "cancel (Poll_Mutation i)")
    case True
    with Cons.prems(1) have "res = Inl (?stop cancelled_patch)" "r' = r" by simp_all
    moreover have "be_code cancelled_patch = Cancelled" "\<not> maybe_applied cancelled_patch"
      by (simp_all add: cancelled_patch_def maybe_applied_def new_error_def default_details_def)
    ultimately show ?thesis using stop [of cancelled_patch] True
      by (auto simp: stopped_at_def intro!: exI [of _ 0])
  next
    case False
    obtain answer r1 where run: "run_mutation b r mutation = (answer, r1)" by force
    show ?thesis
    proof (cases answer)
      case (Inl e)
      with Cons.prems(1) False run have "res = Inl (?stop e)" "r' = r1" by simp_all
      with stop [of e] run Inl show ?thesis
        by (auto simp: stopped_at_def intro!: exI [of _ 0])
    next
      case (Inr ctx)
      with Cons.prems(1) False run i have next_run:
        "run_mutations b cancel all_paths c (Suc i) mutations (changed @ [all_paths ! i]) r1 = (res, r')" by simp
      have "changed @ [all_paths ! i] = take (Suc i) all_paths"
        using Cons.prems(3) i by (simp add: take_Suc_conv_app_nth)
      from Cons.IH [OF next_run _ this] Cons.prems(2) have IH: "case res of
          Inr ch \<Rightarrow> ch = all_paths \<and> confirmed b r1 mutations r'
        | Inl failure \<Rightarrow> \<exists>e k. failure = Err e \<and> stopped_at b cancel all_paths (Suc i) r1 mutations k e r'"
        by simp
      have shift: "stopped_at b cancel all_paths i r (mutation # mutations) (Suc k) e r'"
        if "stopped_at b cancel all_paths (Suc i) r1 mutations k e r'" for k e
        using that run Inr by (auto simp: stopped_at_def)
      show ?thesis using IH shift run Inr by (cases res) auto
    qed
  qed
qed auto

section \<open>The immediate form\<close>

definition patch_plan ::
  "string list \<Rightarrow> resolved_file_patch list \<Rightarrow> patch_snapshots list \<Rightarrow> prepared_mutation list \<Rightarrow> bool" where
  "patch_plan all_paths resolved snapshots mutations \<longleftrightarrow>
     length snapshots = length resolved \<and> map mutation_target_path mutations = all_paths \<and>
     (\<exists>groups. mutations = concat groups \<and> list_all2 planned (zip resolved snapshots) groups)"

definition snapshots_of ::
  "'r bridge \<Rightarrow> (patch_poll \<Rightarrow> bool) \<Rightarrow> apply_patch_request \<Rightarrow> string list \<Rightarrow> resolved_file_patch list \<Rightarrow> 'r
     \<Rightarrow> (patch_snapshots list \<times> remote_context option) apply_result \<times> 'r" where
  "snapshots_of b cancel q all_paths resolved r =
     take_snapshots b cancel (aq_host q) all_paths 0 resolved (lim_max_write_bytes (config_limits (br_config b)))
       None r"

text \<open>The mutations of a patch, when all its snapshots were taken and its contents could be computed.\<close>

definition planned_patch ::
  "'r bridge \<Rightarrow> string list \<Rightarrow> resolved_file_patch list
     \<Rightarrow> (patch_snapshots list \<times> remote_context option) apply_result
     \<Rightarrow> (remote_context \<times> prepared_mutation list) option" where
  "planned_patch b all_paths resolved taken =
     (case taken of
        Inr (snapshots, Some c) \<Rightarrow>
          (case plan_mutations b all_paths c resolved snapshots of Inr mutations \<Rightarrow> Some (c, mutations) | Inl _ \<Rightarrow> None)
      | _ \<Rightarrow> None)"

lemma patch_head_paths_ok:
  assumes "patch_head b q = Inr (all_paths, resolved)"
  shows "list_all (file_paths_ok (br_config b) (aq_host q)) resolved \<and> resolved \<noteq> []"
proof -
  note h = patch_head_ok [OF assms]
  have "file_wf (rf_patch fl)" if "fl \<in> set resolved" for fl
    by (rule parsed_file_wf [OF h [THEN conjunct1]]) (use that in simp)
  moreover have "resolved \<noteq> []"
    using h by (auto simp: parse_codex_patch_def bindR_eq_Inr split: if_splits)
  ultimately show ?thesis using h by (auto simp: list_all_iff file_paths_ok_def)
qed

lemma immediate_patch_cases:
  assumes "patch_head b q = Inr (all_paths, resolved)"
  shows "\<exists>result r' taken r1. apply_patch_immediate b cancel q r = Some (result, r') \<and>
    snapshots_of b cancel q all_paths resolved r = (taken, r1) \<and>
     (case planned_patch b all_paths resolved taken of
        None \<Rightarrow> \<exists>e. result = Inl e \<and> progress_in e [] [] all_paths \<and> r' = r1
      | Some (c, mutations) \<Rightarrow> (\<exists>snapshots. taken = Inr (snapshots, Some c) \<and>
            patch_plan all_paths resolved snapshots mutations) \<and>
          (case result of
             Inr res \<Rightarrow> res = \<lparr>ar_context = c, ar_changed_paths = all_paths\<rparr> \<and> confirmed b r1 mutations r'
           | Inl e \<Rightarrow> \<exists>k. stopped_at b cancel all_paths 0 r1 mutations k e r'))"
proof -
  note ok = patch_head_paths_ok [OF assms]
  obtain taken r1 where taken: "snapshots_of b cancel q all_paths resolved r = (taken, r1)" by force
  note spec = take_snapshots_spec [OF taken [unfolded snapshots_of_def] ok [THEN conjunct1]]
  note run = assms taken [unfolded snapshots_of_def]
  show ?thesis
  proof (cases taken)
    case (Inl failure)
    with spec obtain e where e: "failure = Err e" "progress_in e [] [] all_paths" by (auto simp: unchanged_failure_def)
    with run Inl have "apply_patch_immediate b cancel q r = Some (Inl e, r1)"
      by (simp add: apply_patch_immediate_def immediate_patch_def run_of_def)
    with e taken Inl show ?thesis by (auto simp: planned_patch_def)
  next
    case (Inr x)
    with spec ok obtain snapshots c where x: "taken = Inr (snapshots, Some c)" "length snapshots = length resolved"
      by (cases x) auto
    note plan = plan_mutations_spec [OF ok [THEN conjunct1], where b = b and all_paths = all_paths and c = c and snapshots = snapshots]
    show ?thesis
    proof (cases "plan_mutations b all_paths c resolved snapshots")
      case (Inl failure)
      with plan obtain e where e: "failure = Err e" "progress_in e [] [] all_paths" by (auto simp: unchanged_failure_def)
      with run Inl x have "apply_patch_immediate b cancel q r = Some (Inl e, r1)"
        by (simp add: apply_patch_immediate_def immediate_patch_def run_of_def)
      with e taken Inl x show ?thesis by (auto simp: planned_patch_def)
    next
      case mutations: (Inr mutations)
      with plan obtain groups where groups: "mutations = concat groups" "list_all2 planned (zip resolved snapshots) groups"
        by auto
      have "map (\<lambda>pair. mutation_paths (rf_patch (fst pair))) (zip resolved snapshots) =
          map (\<lambda>fl. mutation_paths (rf_patch fl)) (map fst (zip resolved snapshots))" by simp
      also have "\<dots> = map (\<lambda>fl. mutation_paths (rf_patch fl)) resolved" using x(2) by simp
      finally have targets: "map mutation_target_path mutations = all_paths"
        using planned_groups_targets [OF groups(2)] patch_head_ok [OF assms] groups(1) by simp
      with groups x(2) have pp: "patch_plan all_paths resolved snapshots mutations" by (auto simp: patch_plan_def)
      obtain res r' where ran: "run_mutations b cancel all_paths c 0 mutations [] r1 = (res, r')" by force
      have len: "length all_paths = 0 + length mutations" using targets by auto
      note ran_spec = run_mutations_spec [OF ran len]
      show ?thesis
      proof (cases res)
        case (Inl failure)
        with ran_spec obtain e k where e: "failure = Err e" "stopped_at b cancel all_paths 0 r1 mutations k e r'" by auto
        with run Inl x mutations ran have "apply_patch_immediate b cancel q r = Some (Inl e, r')"
          by (simp add: apply_patch_immediate_def immediate_patch_def run_of_def)
        with e taken x pp mutations show ?thesis by (auto simp: planned_patch_def)
      next
        case (Inr ch)
        with ran_spec have e: "ch = all_paths" "confirmed b r1 mutations r'" by auto
        with run Inr x mutations ran have
          "apply_patch_immediate b cancel q r = Some (Inr \<lparr>ar_context = c, ar_changed_paths = all_paths\<rparr>, r')"
          by (simp add: apply_patch_immediate_def immediate_patch_def run_of_def)
        with e taken x pp mutations show ?thesis by (auto simp: planned_patch_def)
      qed
    qed
  qed
qed

section \<open>Properties\<close>

lemma stopped_from_first:
  assumes "stopped_at b cancel all_paths 0 r mutations k e r'" "map mutation_target_path mutations = all_paths"
  shows "\<exists>k r2. k < length all_paths \<and> confirmed b r (take k mutations) r2 \<and>
    (cancel (Poll_Mutation k) \<and> r' = r2 \<and> be_code e = Cancelled \<and>
       progress_in e (take k all_paths) [] (drop k all_paths) \<or>
     (\<exists>failure. run_mutation b r2 (mutations ! k) = (Inl failure, r') \<and> be_code e = be_code failure \<and>
        (if maybe_applied failure
         then progress_in e (take k all_paths) [all_paths ! k] (drop (Suc k) all_paths)
         else progress_in e (take k all_paths) [] (drop k all_paths))))"
proof -
  have "length mutations = length all_paths" using assms(2) by auto
  with assms(1) show ?thesis
    unfolding stopped_at_def partial_progress_def by (intro exI [of _ k]) (simp only: add_0 if_False simp_thms)
qed

text \<open>C13: once its paths are known, a patch run in the immediate form never panics, and its outcome accounts for every
  path.  When its snapshots or contents fail, nothing is run and all paths are unchanged.  Otherwise a success
  reports them all, each confirmed; and an error comes from the first mutation that was not confirmed:
  the paths before it are reported as changed, those after it as unchanged, and its own path as
  possibly changed exactly when the error of the mutation says that it may have applied, as unchanged when it says
  that it did not or when the patch was cancelled before it.  No later mutation was run.\<close>

theorem patch_outcome_accounts_for_paths:
  assumes "patch_head b q = Inr (all_paths, resolved)"
  shows "\<exists>result r' taken r1. apply_patch_immediate b cancel q r = Some (result, r') \<and>
    snapshots_of b cancel q all_paths resolved r = (taken, r1) \<and>
    (case planned_patch b all_paths resolved taken of
       None \<Rightarrow> \<exists>e. result = Inl e \<and> progress_in e [] [] all_paths \<and> r' = r1
     | Some (c, mutations) \<Rightarrow> map mutation_target_path mutations = all_paths \<and>
         (case result of
            Inr res \<Rightarrow> ar_changed_paths res = all_paths \<and> confirmed b r1 mutations r'
          | Inl e \<Rightarrow> \<exists>k r2. k < length all_paths \<and> confirmed b r1 (take k mutations) r2 \<and>
              (cancel (Poll_Mutation k) \<and> r' = r2 \<and> be_code e = Cancelled \<and>
                 progress_in e (take k all_paths) [] (drop k all_paths) \<or>
               (\<exists>failure. run_mutation b r2 (mutations ! k) = (Inl failure, r') \<and> be_code e = be_code failure \<and>
                  (if maybe_applied failure
                   then progress_in e (take k all_paths) [all_paths ! k] (drop (Suc k) all_paths)
                   else progress_in e (take k all_paths) [] (drop k all_paths))))))"
proof -
  from immediate_patch_cases [OF assms, of cancel r] obtain result r' taken r1 where
    run: "apply_patch_immediate b cancel q r = Some (result, r')" "snapshots_of b cancel q all_paths resolved r = (taken, r1)"
    and c: "case planned_patch b all_paths resolved taken of
        None \<Rightarrow> \<exists>e. result = Inl e \<and> progress_in e [] [] all_paths \<and> r' = r1
      | Some (c, mutations) \<Rightarrow> (\<exists>snapshots. taken = Inr (snapshots, Some c) \<and>
            patch_plan all_paths resolved snapshots mutations) \<and>
          (case result of
             Inr res \<Rightarrow> res = \<lparr>ar_context = c, ar_changed_paths = all_paths\<rparr> \<and> confirmed b r1 mutations r'
           | Inl e \<Rightarrow> \<exists>k. stopped_at b cancel all_paths 0 r1 mutations k e r')" by blast
  show ?thesis
  proof (cases "planned_patch b all_paths resolved taken")
    case None
    with c have "\<exists>e. result = Inl e \<and> progress_in e [] [] all_paths \<and> r' = r1" by simp
    then show ?thesis using run
      by (intro exI [of _ result] exI [of _ r'] exI [of _ taken] exI [of _ r1]) (simp add: None)
  next
    case (Some plan)
    obtain cx mutations where plan: "plan = (cx, mutations)" by force
    with c Some have targets: "map mutation_target_path mutations = all_paths" by (auto simp: patch_plan_def)
    show ?thesis
    proof (cases result)
      case (Inl e)
      with c Some plan obtain k where "stopped_at b cancel all_paths 0 r1 mutations k e r'" by auto
      note stopped_from_first [OF this targets]
      then show ?thesis using run
        by (intro exI [of _ result] exI [of _ r'] exI [of _ taken] exI [of _ r1]) (simp add: Some plan Inl targets)
    next
      case (Inr res)
      with c Some plan have "ar_changed_paths res = all_paths" "confirmed b r1 mutations r'" by auto
      then show ?thesis using run
        by (intro exI [of _ result] exI [of _ r'] exI [of _ taken] exI [of _ r1]) (simp add: Some plan Inr targets)
    qed
  qed
qed

text \<open>A host on which the file is missing and then created, and a patch that adds it.\<close>

definition demo_patch :: apply_patch_request where
  "demo_patch = \<lparr>aq_host = ''web'',
     aq_patch = ''*** Begin Patch'' @ [LF] @ ''*** Add File: /a/b'' @ [LF] @ ''+hi'' @ [LF] @ ''*** End Patch'' @ [LF]\<rparr>"

definition created_output :: captured_output where
  "created_output =
     (let answer = concat (map nul_record (write_answer (Write_Success
            \<lparr>ws_operation = Write_Create, ws_size = 3, ws_sha256 = replicate 64 CHR ''a'', ws_mode = 384\<rparr>)))
      in \<lparr>co_stdout_file = Some answer, co_stderr_file = Some [], co_stdout_len = length answer,
          co_stderr_len = 0, co_aggregate_bytes = length answer\<rparr>)"

definition patch_bridge :: "session_command list bridge" where
  "patch_bridge = demo_bridge
     \<lparr>br_run := session_runner (config_limits (br_config demo_bridge))
        (\<lambda>sent. demo_world (Inr (demo_result 0)) (Inr (if sent = [] then missing_output else created_output)))\<rparr>"

lemma demo_patch_head:
  "case patch_head patch_bridge demo_patch of Inr (all_paths, _) \<Rightarrow> all_paths = [''/a/b''] | Inl _ \<Rightarrow> False"
  by code_simp

lemma demo_patch_run:
  "case apply_patch_immediate patch_bridge (\<lambda>_. False) demo_patch [] of
     Some (Inr res, _) \<Rightarrow> ar_changed_paths res = [''/a/b''] | _ \<Rightarrow> False"
  by code_simp

text \<open>The host answers the mutation with a failure.\<close>

definition failing_bridge :: "session_command list bridge" where
  "failing_bridge = demo_bridge
     \<lparr>br_run := session_runner (config_limits (br_config demo_bridge))
        (\<lambda>sent. demo_world (Inr (demo_result (if sent = [] then 0 else 1))) (Inr missing_output))\<rparr>"

lemma failing_patch:
  "case apply_patch_immediate failing_bridge (\<lambda>_. False) demo_patch [] of
     Some (Inl e, _) \<Rightarrow> ed_outcome_unknown_paths (be_details e) = Some [''/a/b''] | _ \<Rightarrow> False"
  "case patch_head failing_bridge demo_patch of Inr (all_paths, _) \<Rightarrow> all_paths = [''/a/b''] | Inl _ \<Rightarrow> False"
  by code_simp+

lemma patch_outcome_accounts_for_paths_witness:
  "\<exists>e r2 r' mutation failure. apply_patch_immediate failing_bridge (\<lambda>_. False) demo_patch [] = Some (Inl e, r') \<and>
     run_mutation failing_bridge r2 mutation = (Inl failure, r') \<and> maybe_applied failure \<and>
     progress_in e [] [''/a/b''] []"
proof -
  obtain resolved where head: "patch_head failing_bridge demo_patch = Inr ([''/a/b''], resolved)"
    using failing_patch(2) by (auto split: sum.splits)
  obtain e r' where run: "apply_patch_immediate failing_bridge (\<lambda>_. False) demo_patch [] = Some (Inl e, r')"
    "ed_outcome_unknown_paths (be_details e) = Some [''/a/b'']"
    using failing_patch(1) by (auto split: option.splits prod.splits sum.splits)
  have "\<exists>r2 mutation failure. run_mutation failing_bridge r2 mutation = (Inl failure, r') \<and> maybe_applied failure \<and>
     progress_in e [] [''/a/b''] []"
    using patch_outcome_accounts_for_paths [OF head, of "\<lambda>_. False" "[]"] run
    by (auto simp: progress_in_def split: option.splits if_splits)
  with run(1) show ?thesis by blast
qed

text \<open>C14: a patch that succeeds in the immediate form ran exactly the mutations of its plan, each confirmed by the
  host, one for every reported path and in that order.  Each file of the patch was read first, what is
  written is the patch applied to that content, and the mutation carries the guard of the content it was
  computed from: create where the file was missing, replace or delete only under the hash that was read.\<close>

theorem patch_mutations_guarded:
  assumes "patch_head b q = Inr (all_paths, resolved)"
    and "apply_patch_immediate b cancel q r = Some (Inr res, r')"
  shows "\<exists>snapshots r1 mutations groups.
    snapshots_of b cancel q all_paths resolved r = (Inr (snapshots, Some (ar_context res)), r1) \<and>
    length snapshots = length resolved \<and> mutations = concat groups \<and>
    list_all2 planned (zip resolved snapshots) groups \<and>
    map mutation_target_path mutations = all_paths \<and> confirmed b r1 mutations r'"
proof -
  from immediate_patch_cases [OF assms(1), of cancel r] assms(2) obtain taken r1 snapshots mutations c where
    "snapshots_of b cancel q all_paths resolved r = (taken, r1)" "taken = Inr (snapshots, Some c)"
    "patch_plan all_paths resolved snapshots mutations"
    "res = \<lparr>ar_context = c, ar_changed_paths = all_paths\<rparr>" "confirmed b r1 mutations r'"
    by (auto split: option.splits)
  then show ?thesis unfolding patch_plan_def by auto
qed

lemma patch_mutations_guarded_witness:
  "\<exists>r1 mutation r'. mutation_target_path mutation = ''/a/b'' \<and> confirmed patch_bridge r1 [mutation] r'"
proof -
  obtain resolved where head: "patch_head patch_bridge demo_patch = Inr ([''/a/b''], resolved)"
    using demo_patch_head by (auto split: sum.splits)
  obtain res r' where run: "apply_patch_immediate patch_bridge (\<lambda>_. False) demo_patch [] = Some (Inr res, r')"
    using demo_patch_run by (auto split: option.splits prod.splits sum.splits)
  from patch_mutations_guarded [OF head run] obtain r1 mutations where
    m: "map mutation_target_path mutations = [''/a/b'']" "confirmed patch_bridge r1 mutations r'" by (elim exE conjE)
  from m(1) obtain mutation where "mutations = [mutation]" "mutation_target_path mutation = ''/a/b''"
    by (auto simp: map_eq_Cons_conv)
  with m(2) show ?thesis by blast
qed

end
