(* ===== verification/Patch_Buffered.thy ===== *)
theory Patch_Buffered
  imports Patch_Properties
begin

text \<open>
  A patch through the edit cache: when it is buffered, every file it names holds, as a pending edit,
  the patch of the content its caller has seen, and every other pending edit is untouched; when the
  cache cannot hold it, the host is flushed and the immediate form runs instead.
\<close>

definition content_of :: "desired_state \<Rightarrow> string option" where
  "content_of d = (case d of Present bytes \<Rightarrow> Some bytes | Deleted \<Rightarrow> None)"

definition state_of :: "patched_file \<Rightarrow> desired_state" where
  "state_of out = (case out of Write_File bytes \<Rightarrow> Present bytes | Remove_File \<Rightarrow> Deleted)"

definition edit_for :: "string \<Rightarrow> string \<Rightarrow> desired_state \<Rightarrow> prepared_edit \<Rightarrow> bool" where
  "edit_for host path d e \<longleftrightarrow> pe_key e = \<lparr>key_host = host, key_path = path\<rparr> \<and> pe_desired e = d"

text \<open>The edits of one file: the new content where it goes, and the removal of a moved source.\<close>

definition file_edits ::
  "(cache_key \<Rightarrow> remote_snapshot \<Rightarrow> bool) \<Rightarrow> cache_state \<Rightarrow> string \<Rightarrow> resolved_file_patch
     \<Rightarrow> prepared_edit list \<Rightarrow> bool" where
  "file_edits f s host fl es \<longleftrightarrow>
     (\<exists>d out. seen f s \<lparr>key_host = host, key_path = cf_path (rf_patch fl)\<rparr> d \<and>
        computed_from (content_of d) (rf_patch fl) out \<and>
        (case move_destination (rf_patch fl) of
           None \<Rightarrow> \<exists>e. es = [e] \<and> edit_for host (cf_path (rf_patch fl)) (state_of out) e
         | Some path \<Rightarrow> out \<noteq> Remove_File \<and>
             (\<exists>e1 e2. es = [e1, e2] \<and> edit_for host path (state_of out) e1 \<and>
                edit_for host (cf_path (rf_patch fl)) Deleted e2)))"

lemma edit_file_Inr:
  assumes "edit_file host all_paths patch source destination remaining payload = Inr (es, left)"
  shows "\<exists>out. computed_from (content_of (ce_desired source)) patch out \<and>
    (case destination of
       None \<Rightarrow> \<exists>e. es = [e] \<and> edit_for host (cf_path patch) (state_of out) e
     | Some (path, _) \<Rightarrow> out \<noteq> Remove_File \<and>
         (\<exists>e1 e2. es = [e1, e2] \<and> edit_for host path (state_of out) e1 \<and> edit_for host (cf_path patch) Deleted e2))"
proof -
  from assms obtain base out desired m where
    base: "cached_base source = Inr base"
    and out: "apply_codex_file base patch remaining = Inr out"
    and desired: "desired = state_of out"
    and rest: "(case destination of
        None \<Rightarrow> Inr ([patch_edit host (patch_path patch) source desired payload], m)
      | Some (path, current) \<Rightarrow>
          if desired = Deleted then
            Inl (Err (attach_preparation_progress (invalid_patch ''Codex patch move did not produce file content'')
              (Some (patch_path patch)) all_paths))
          else
            Inr ([patch_edit host path current desired payload,
                  patch_edit host (patch_path patch) source Deleted 0], m)) = Inr (es, left)"
    unfolding edit_file_def Let_def bindR_eq_Inr map_apply_err_def map_err_eq_Inr
    by (fastforce simp: state_of_def bindR_eq_Inr split: patched_file.splits)
  have "base = content_of (ce_desired source)"
    using base by (auto simp: cached_base_def content_of_def split: desired_state.splits if_splits)
  with out have "computed_from (content_of (ce_desired source)) patch out" by (auto simp: computed_from_def)
  with rest desired show ?thesis
    by (intro exI [of _ out])
      (auto simp: edit_for_def patch_edit_def patch_path_def state_of_def split: option.splits if_splits)
qed

text \<open>Commands that are only reads of files for the cache, and what is answered after some of them.\<close>

definition reads_to :: "'r bridge \<Rightarrow> cache_key set \<Rightarrow> 'r \<Rightarrow> 'r \<Rightarrow> bool" where
  "reads_to b keys r r' \<longleftrightarrow> (\<exists>ks. set ks \<subseteq> keys \<and> r' = foldl (\<lambda>r key. snd (br_fetch b key r)) r ks)"

definition answers_after :: "'r bridge \<Rightarrow> cache_key set \<Rightarrow> 'r \<Rightarrow> cache_key \<Rightarrow> remote_snapshot \<Rightarrow> bool" where
  "answers_after b keys r key sn \<longleftrightarrow> (\<exists>r1. reads_to b keys r r1 \<and> answers_at b r1 key sn)"

definition keys_at :: "string \<Rightarrow> string list \<Rightarrow> cache_key set" where
  "keys_at host paths = (\<lambda>p. \<lparr>key_host = host, key_path = p\<rparr>) ` set paths"

lemma reads_refl [simp]: "reads_to b keys r r"
  by (auto simp: reads_to_def intro: exI [of _ "[]"])

lemma reads_trans: "reads_to b keys r r1 \<Longrightarrow> reads_to b keys r1 r2 \<Longrightarrow> reads_to b keys r r2"
  unfolding reads_to_def by (metis foldl_append set_append Un_least)

lemma reads_missing: "key \<in> keys \<Longrightarrow> reads_to b keys r (read_missing (br_fetch b) key s r)"
  by (auto simp: reads_to_def read_missing_def intro: exI [of _ "[key]"] exI [of _ "[]"])

lemma load_for_patch_loading:
  assumes "load_for_patch b all_paths host path s r = (res, t, r')"
    and "cache_ok (edit_cache_config_of (br_config b)) s"
    and "cfg_max_bytes (edit_cache_config_of (br_config b)) < u64_max" and "reads_to b keys r0 r"
    and "\<lparr>key_host = host, key_path = path\<rparr> \<in> keys"
  shows "loading (br_sha b) (answers_after b keys r0) s t \<and> cache_ok (edit_cache_config_of (br_config b)) t \<and> reads_to b keys r0 r' \<and>
    (\<forall>c. res = Inr c \<longrightarrow> holds_entry t \<lparr>key_host = host, key_path = path\<rparr> c)"
proof -
  let ?key = "\<lparr>key_host = host, key_path = path\<rparr>"
  obtain answer u v where load: "load_entry_complete (edit_cache_config_of (br_config b)) (br_sha b) (br_fetch b)
      ?key s r = (answer, u, v)" using prod_cases3 by blast
  have "answers_after b keys r0 ?key sn" if "fst (br_fetch b ?key r) = Inr sn" for sn
    using that assms(4) by (auto simp: answers_after_def answers_at_def)
  note loaded = load_entry_loading [where f = "answers_after b keys r0", OF load assms(2,3) this]
  have "reads_to b keys r0 v" using reads_trans [OF assms(4) reads_missing [OF assms(5)]] loaded by metis
  with loaded assms(1) load show ?thesis
    by (auto simp: load_for_patch_def split: sum.splits load_entry_disposition.splits)
qed

lemma load_file_loading:
  assumes "load_file b all_paths host patch s r = (res, t, r')"
    and "cache_ok (edit_cache_config_of (br_config b)) s"
    and "cfg_max_bytes (edit_cache_config_of (br_config b)) < u64_max" and "reads_to b keys r0 r"
    and "loading (br_sha b) (answers_after b keys r0) s0 s" and "keys_at host (mutation_paths patch) \<subseteq> keys"
  shows "loading (br_sha b) (answers_after b keys r0) s0 t \<and> cache_ok (edit_cache_config_of (br_config b)) t \<and> reads_to b keys r0 r' \<and>
    (\<forall>source destination. res = Inr (source, destination) \<longrightarrow>
       seen (answers_after b keys r0) s0 \<lparr>key_host = host, key_path = cf_path patch\<rparr> (ce_desired source) \<and>
       map_option fst destination = move_destination patch)"
proof -
  obtain one u r1 where one: "load_for_patch b all_paths host (patch_path patch) s r = (one, u, r1)" using prod_cases3 by blast
  have own: "\<lparr>key_host = host, key_path = patch_path patch\<rparr> \<in> keys"
    "\<lparr>key_host = host, key_path = path\<rparr> \<in> keys" if "move_destination patch = Some path" for path
    using assms(6) that by (auto simp: keys_at_def mutation_paths_def patch_path_def)
  moreover have "\<lparr>key_host = host, key_path = patch_path patch\<rparr> \<in> keys" if "move_destination patch = None"
    using assms(6) that by (auto simp: keys_at_def mutation_paths_def patch_path_def)
  ultimately have source: "\<lparr>key_host = host, key_path = patch_path patch\<rparr> \<in> keys"
    by (cases "move_destination patch") auto
  note l1 = load_for_patch_loading [OF one assms(2-4) source]
  have at_u: "loading (br_sha b) (answers_after b keys r0) s0 u" using loading_trans [OF assms(5)] l1 by blast
  have seen: "seen (answers_after b keys r0) s0 \<lparr>key_host = host, key_path = cf_path patch\<rparr> (ce_desired c)" if "one = Inr c" for c
    using loading_holds_seen [OF at_u] l1 that by (simp add: patch_path_def)
  show ?thesis
  proof (cases "move_destination patch")
    case None
    with assms(1) one at_u l1 seen show ?thesis by (auto simp: load_file_def split: sum.splits)
  next
    case (Some path)
    obtain two v r2 where two: "load_for_patch b all_paths host path u r1 = (two, v, r2)" using prod_cases3 by blast
    have "cache_ok (edit_cache_config_of (br_config b)) u" "reads_to b keys r0 r1" using l1 by simp_all
    note l2 = load_for_patch_loading [OF two this(1) assms(3) this(2) own(2) [OF Some]]
    have "loading (br_sha b) (answers_after b keys r0) s0 v" using loading_trans [OF at_u] l2 by blast
    with assms(1) one two Some at_u l1 l2 seen show ?thesis by (auto simp: load_file_def split: sum.splits)
  qed
qed

lemma prepare_files_spec:
  assumes "prepare_files b cancel host all_paths i files remaining payload s r = (res, t, r')"
    and "cache_ok (edit_cache_config_of (br_config b)) s"
    and "cfg_max_bytes (edit_cache_config_of (br_config b)) < u64_max" and "reads_to b keys r0 r"
    and "loading (br_sha b) (answers_after b keys r0) s0 s"
    and "keys_at host (concat (map (\<lambda>fl. mutation_paths (rf_patch fl)) files)) \<subseteq> keys"
  shows "loading (br_sha b) (answers_after b keys r0) s0 t \<and> cache_ok (edit_cache_config_of (br_config b)) t \<and> reads_to b keys r0 r' \<and>
    (\<forall>es. res = Inr es \<longrightarrow>
       (\<exists>groups. es = concat groups \<and> list_all2 (file_edits (answers_after b keys r0) s0 host) files groups))"
  using assms
proof (induction files arbitrary: i remaining payload s r res t r')
  case (Cons fl files)
  show ?case
  proof (cases "cancel (Poll_File i)")
    case True
    with Cons.prems show ?thesis by auto
  next
    case False
    obtain loaded u r1 where load: "load_file b all_paths host (rf_patch fl) s r = (loaded, u, r1)" using prod_cases3 by blast
    have own: "keys_at host (mutation_paths (rf_patch fl)) \<subseteq> keys"
      and others: "keys_at host (concat (map (\<lambda>fl. mutation_paths (rf_patch fl)) files)) \<subseteq> keys"
      using Cons.prems(6) by (auto simp: keys_at_def)
    note l = load_file_loading [OF load Cons.prems(2-5) own]
    show ?thesis
    proof (cases loaded)
      case (Inl stop)
      with Cons.prems(1) False load l show ?thesis by auto
    next
      case (Inr sd)
      obtain source destination where sd: "sd = (source, destination)" by force
      let ?edit = "edit_file host all_paths (rf_patch fl) source destination remaining payload"
      show ?thesis
      proof (cases ?edit)
        case (Inl failure)
        with Cons.prems(1) False load l Inr sd show ?thesis by auto
      next
        case edited: (Inr x)
        obtain es left where x: "x = (es, left)" by force
        obtain rest v r2 where rest: "prepare_files b cancel host all_paths (Suc i) files left 0 u r1 = (rest, v, r2)"
          using prod_cases3 by blast
        have at_u: "cache_ok (edit_cache_config_of (br_config b)) u" "reads_to b keys r0 r1"
          "loading (br_sha b) (answers_after b keys r0) s0 u" using l by simp_all
        note IH = Cons.IH [OF rest at_u(1) Cons.prems(3) at_u(2,3) others]
        have "file_edits (answers_after b keys r0) s0 host fl es"
          using edit_file_Inr [OF edited [unfolded x]] l Inr sd
          by (cases "move_destination (rf_patch fl)"; cases destination) (auto simp: file_edits_def)
        with Cons.prems(1) False load l Inr sd edited x rest IH show ?thesis
          by (auto split: sum.splits intro!: exI [of _ "es # _"])
      qed
    qed
  qed
qed auto

section \<open>The batch\<close>

definition pending :: "cache_state \<Rightarrow> string \<Rightarrow> string \<Rightarrow> desired_state \<Rightarrow> bool" where
  "pending t host path d \<longleftrightarrow> (\<exists>e. get_entry t host path = Some e \<and> en_dirty e \<and> en_desired e = d)"

lemma stored_pending:
  assumes "batch_stored sha es s t gs" "e \<in> set es" "edit_for host path d e"
  shows "pending t host path d"
proof -
  from assms(2) obtain i where "i < length es" "e = es ! i" by (metis in_set_conv_nth)
  with assms(1,3) show ?thesis by (force simp: batch_stored_def pending_def edit_for_def)
qed

text \<open>What one file of a buffered patch has become.\<close>

definition file_pending ::
  "(cache_key \<Rightarrow> remote_snapshot \<Rightarrow> bool) \<Rightarrow> cache_state \<Rightarrow> cache_state \<Rightarrow> string \<Rightarrow> codex_file_patch \<Rightarrow> bool"
where
  "file_pending f s t host patch \<longleftrightarrow>
     (\<exists>d out. seen f s \<lparr>key_host = host, key_path = cf_path patch\<rparr> d \<and>
        computed_from (content_of d) patch out \<and>
        (case move_destination patch of
           None \<Rightarrow> pending t host (cf_path patch) (state_of out)
         | Some path \<Rightarrow> out \<noteq> Remove_File \<and> pending t host path (state_of out) \<and>
             pending t host (cf_path patch) Deleted))"

lemma file_edits_pending:
  assumes "file_edits f s host fl es" "batch_stored sha later s1 t gs" "set es \<subseteq> set later"
  shows "file_pending f s t host (rf_patch fl)"
  using assms stored_pending [OF assms(2)]
  by (cases "move_destination (rf_patch fl)") (fastforce simp: file_edits_def file_pending_def)+

lemma file_edits_keys:
  assumes "file_edits f s host fl es"
  shows "map pe_key es = map (\<lambda>p. \<lparr>key_host = host, key_path = p\<rparr>) (mutation_paths (rf_patch fl))"
  using assms by (auto simp: file_edits_def mutation_paths_def edit_for_def split: option.splits)

lemma group_edits_keys:
  "list_all2 (file_edits f s host) files groups \<Longrightarrow>
     map pe_key (concat groups) =
     map (\<lambda>p. \<lparr>key_host = host, key_path = p\<rparr>) (concat (map (\<lambda>fl. mutation_paths (rf_patch fl)) files))"
  by (induction files groups rule: list_all2_induct) (simp_all add: file_edits_keys)

lemma head_paths_bound:
  assumes "patch_head b q = Inr (all_paths, resolved)"
  shows "length all_paths \<le> 2 * MAX_PATCH_FILES"
proof -
  note h = patch_head_ok [OF assms]
  from parse_codex_patch_sound [OF h [THEN conjunct1]] have n: "length resolved \<le> MAX_PATCH_FILES"
    by (auto simp: patch_ok_def dest!: arg_cong [where f = length and x = "map rf_patch resolved"])
  have two: "length (mutation_paths p) \<le> 2" for p by (simp add: mutation_paths_def split: option.split)
  have total: "length (concat (map (\<lambda>f. mutation_paths (rf_patch f)) fs)) \<le> 2 * length fs" for fs
  proof (induction fs)
    case (Cons fl fs)
    with two [of "rf_patch fl"] show ?case by simp
  qed simp
  have "all_paths = concat (map (\<lambda>f. mutation_paths (rf_patch f)) resolved)" using h by simp
  then have "length all_paths \<le> 2 * length resolved" using total [of resolved] by simp
  with n show ?thesis by linarith
qed

lemma after_flush_patch:
  assumes "patch_head b q = Inr (all_paths, resolved)"
    and "after_flush b now (aq_host q) (apply_patch_immediate b cancel q) u r = Some (Inr res, eff, t, r')"
  shows "(\<exists>s2 r1. flush_host (br_fuel b) (br_commit b) now (aq_host q) u r = Some (Inr (), s2, r1) \<and>
      apply_patch_immediate b cancel q r1 = Some (Inr res, r') \<and> t = invalidate_clean_host (aq_host q) s2) \<and>
    ar_changed_paths res = all_paths"
proof -
  from assms(2) obtain s2 r1 where f: "flush_host (br_fuel b) (br_commit b) now (aq_host q) u r = Some (Inr (), s2, r1)"
    "apply_patch_immediate b cancel q r1 = Some (Inr res, r')" "t = invalidate_clean_host (aq_host q) s2"
    by (auto simp: after_flush_def split: option.splits sum.splits prod.splits)
  from immediate_patch_cases [OF assms(1), of cancel r1] f(2) have "ar_changed_paths res = all_paths"
    by (auto split: option.splits)
  with f show ?thesis by blast
qed

text \<open>The two ways a patch succeeds through the edit cache.\<close>

lemma buffered_patch_steps:
  assumes "apply_patch b cancel now q s r = Some (Inr res, eff, t, r')" "br_buffering b"
    and "patch_head b q = Inr (all_paths, resolved)"
    and "prepare_files b cancel (aq_host q) all_paths 0 resolved
      (lim_max_write_bytes (config_limits (br_config b))) (length (aq_patch q)) s r = (outcome, s1, r1)"
  shows "(\<exists>u. after_flush b now (aq_host q) (apply_patch_immediate b cancel q) u r1 = Some (Inr res, eff, t, r')) \<or>
    (\<exists>es gs. outcome = Inr es \<and>
       mutate_prepared_batch (edit_cache_config_of (br_config b)) (br_sha b) now es s1 = Some (Inr (Buffered gs), t, eff) \<and>
       r' = r1 \<and> ar_changed_paths res = all_paths)"
proof (cases outcome)
  case (Inl stop)
  with assms show ?thesis
    by (auto simp: apply_patch_def split: prepare_stop.splits apply_failure.splits if_splits)
next
  case (Inr es)
  with assms have "buffer_edits b cancel now q all_paths es s1 r1 = Some (Inr res, eff, t, r')"
    by (auto simp: apply_patch_def split: if_splits)
  with Inr show ?thesis
    by (auto simp: buffer_edits_def split: option.splits sum.splits prod.splits batch_mutation_disposition.splits)
qed

lemma stored_groups_pending:
  assumes "list_all2 (file_edits f s host) resolved groups" "batch_stored sha (concat groups) s1 t gs"
  shows "list_all (\<lambda>fl. file_pending f s t host (rf_patch fl)) resolved"
  unfolding list_all_iff
proof
  fix fl assume "fl \<in> set resolved"
  then obtain i where i: "i < length resolved" "fl = resolved ! i" by (metis in_set_conv_nth)
  with assms(1) have g: "file_edits f s host fl (groups ! i)" "i < length groups"
    by (auto simp: list_all2_conv_all_nth)
  then have "set (groups ! i) \<subseteq> set (concat groups)" using nth_mem [OF g(2)] unfolding set_concat by blast
  from file_edits_pending [OF g(1) assms(2) this] show "file_pending f s t host (rf_patch fl)" .
qed

text \<open>C15: a patch that succeeds through the edit cache was either buffered or, when the cache cannot hold it, run in
  the immediate form after the pending edits of the host were flushed.  All that was run on the host before that, or
  at all when it was buffered, are reads of its own files.  When it was buffered, every file it names holds, as a pending edit, the patch of the content its caller has seen
  (the edit already buffered, or the file on the host), with a moved source pending its removal; every
  other file with pending work keeps it.\<close>

theorem buffered_patch_applies_to_seen:
  assumes "edit_reachable (edit_cache_config_of (br_config b)) (br_sha b) y"
    and "cfg_max_bytes (edit_cache_config_of (br_config b)) < u64_max"
    and "st_next_generation (sy_cache y) + 2 * MAX_PATCH_FILES \<le> u64_max"
    and "apply_patch b cancel now q (sy_cache y) r = Some (Inr res, eff, t, r')" "br_buffering b"
  shows "\<exists>resolved. patch_head b q = Inr (ar_changed_paths res, resolved) \<and>
    ((\<exists>s1 s2 r0 r1. reads_to b (keys_at (aq_host q) (ar_changed_paths res)) r r0 \<and>
        flush_host (br_fuel b) (br_commit b) now (aq_host q) s1 r0 = Some (Inr (), s2, r1) \<and>
        apply_patch_immediate b cancel q r1 = Some (Inr res, r') \<and> t = invalidate_clean_host (aq_host q) s2) \<or>
     reads_to b (keys_at (aq_host q) (ar_changed_paths res)) r r' \<and>
       list_all (\<lambda>fl. file_pending (answers_after b (keys_at (aq_host q) (ar_changed_paths res)) r) (sy_cache y) t
           (aq_host q) (rf_patch fl)) resolved \<and>
       pending_kept (map (\<lambda>p. \<lparr>key_host = aq_host q, key_path = p\<rparr>) (ar_changed_paths res)) (sy_cache y) t)"
proof -
  let ?cfg = "edit_cache_config_of (br_config b)" and ?s = "sy_cache y" and ?h = "aq_host q"
  have ok: "cache_ok ?cfg ?s" using edit_reachable_ok [OF assms(1,2)] by (simp add: system_ok_def)
  from assms(4,5) obtain all_paths resolved where head: "patch_head b q = Inr (all_paths, resolved)"
    by (auto simp: apply_patch_def split: sum.splits)
  obtain outcome s1 r0 where prep: "prepare_files b cancel ?h all_paths 0 resolved
      (lim_max_write_bytes (config_limits (br_config b))) (length (aq_patch q)) ?s r = (outcome, s1, r0)"
    using prod_cases3 by blast
  let ?keys = "keys_at ?h all_paths"
  have "keys_at ?h (concat (map (\<lambda>fl. mutation_paths (rf_patch fl)) resolved)) \<subseteq> ?keys"
    using patch_head_ok [OF head] by simp
  note files = prepare_files_spec [OF prep ok assms(2) reads_refl loading_refl this]
  from buffered_patch_steps [OF assms(4,5) head prep] show ?thesis
  proof (elim disjE exE conjE)
    fix u assume "after_flush b now ?h (apply_patch_immediate b cancel q) u r0 = Some (Inr res, eff, t, r')"
    from after_flush_patch [OF head this] head files show ?thesis by blast
  next
    fix es gs assume buffered: "outcome = Inr es" "r' = r0" "ar_changed_paths res = all_paths"
      "mutate_prepared_batch ?cfg (br_sha b) now es s1 = Some (Inr (Buffered gs), t, eff)"
    with files obtain groups where groups: "es = concat groups" "list_all2 (file_edits (answers_after b ?keys r) ?s ?h) resolved groups"
      by blast
    have keys: "map pe_key es = map (\<lambda>p. \<lparr>key_host = ?h, key_path = p\<rparr>) all_paths"
      using group_edits_keys [OF groups(2)] groups(1) patch_head_ok [OF head] by simp
    then have "length es = length all_paths" by (metis length_map)
    then have "st_next_generation s1 + length es \<le> u64_max"
      using files head_paths_bound [OF head] assms(3) by (simp add: loading_def)
    from mutate_batch_effect [OF buffered(4) _ assms(2) this] files have
      batch: "batch_stored (br_sha b) es s1 t gs" "pending_kept (map pe_key es) s1 t" by simp_all
    have "pending_kept (map (\<lambda>p. \<lparr>key_host = ?h, key_path = p\<rparr>) all_paths) ?s t"
      using pending_kept_trans [OF loading_pending batch(2)] files keys by auto
    with stored_groups_pending [OF groups(2) batch(1) [unfolded groups(1)]] head buffered(2,3) files
    show ?thesis by blast
  qed
qed

lemma demo_patch_buffered:
  "case apply_patch demo_edit_bridge (\<lambda>_. False) 0 demo_patch new_cache [] of
     Some (Inr res, _, _, r') \<Rightarrow> ar_changed_paths res = [''/a/b''] | _ \<Rightarrow> False"
  by code_simp

lemma buffered_patch_applies_to_seen_witness:
  "\<exists>res eff t r'. apply_patch demo_edit_bridge (\<lambda>_. False) 0 demo_patch new_cache [] = Some (Inr res, eff, t, r') \<and>
     (\<exists>resolved. patch_head demo_edit_bridge demo_patch = Inr (ar_changed_paths res, resolved))"
proof -
  let ?b = demo_edit_bridge
  obtain res eff t r' where run: "apply_patch ?b (\<lambda>_. False) 0 demo_patch (sy_cache initial_system) [] = Some (Inr res, eff, t, r')"
    using demo_patch_buffered by (auto simp: initial_system_def split: option.splits prod.splits sum.splits)
  have max: "cfg_max_bytes (edit_cache_config_of (br_config ?b)) < u64_max"
    by (simp add: demo_edit_bridge_def demo_bridge_def edit_cache_config_of_def merge_aliases_def
        default_config_def default_limits_def config_constants u64_max_def)
  have gen: "st_next_generation (sy_cache initial_system) + 2 * MAX_PATCH_FILES \<le> u64_max"
    by (simp add: initial_system_def new_cache_def u64_max_def MAX_PATCH_FILES_def)
  have buf: "br_buffering ?b" by (simp add: demo_edit_bridge_def demo_bridge_def)
  from buffered_patch_applies_to_seen [OF reach_init max gen run buf] run show ?thesis
    by (auto simp: initial_system_def)
qed

end
