(* ===== verification/Session_Request.thy ===== *)
theory Session_Request
  imports Ssh_Frame Capability
begin

text \<open>
  The requests of a multiplexed session (\<open>build_request_frames\<close> and its three forms in
  \<open>src/ssh/session.rs\<close>): one OPEN frame with the metadata of the request and DATA frames with its
  parts.  A time is a number of milliseconds; the sink of a request is only whether it has one.
\<close>

section \<open>Data\<close>

datatype session_action =
    Command_Action string string shell_selection "string option" "string option"
  | Search_Action string string "string list" nat bool
  | Job_Action string

record session_request =
  sq_action :: session_action
  sq_env :: "(string \<times> string option) list"
  sq_timeout_ms :: nat
  sq_admission_deadline :: nat
  sq_response_timeout :: nat
  sq_stdout_limit :: nat
  sq_stderr_limit :: nat
  sq_output :: bool

definition session_too_large :: "string \<Rightarrow> bridge_error" where
  "session_too_large what =
     new_error RequestTooLarge (''session '' @ what @ '' exceeds the configured frame limit'') False"

definition metadata_line :: "string \<Rightarrow> string \<Rightarrow> string" where
  "metadata_line key v = key @ ''='' @ v @ [LF]"

definition metadata_text :: "(string \<times> string) list \<Rightarrow> string" where
  "metadata_text pairs = concat (map (\<lambda>(key, v). metadata_line key v) pairs)"

definition open_frame :: "64 word \<Rightarrow> string \<Rightarrow> frame" where
  "open_frame request_id payload = \<lparr>fr_kind = Open, fr_request_id = request_id, fr_payload = payload\<rparr>"

definition data_frame :: "64 word \<Rightarrow> string \<Rightarrow> frame" where
  "data_frame request_id payload = \<lparr>fr_kind = Data, fr_request_id = request_id, fr_payload = payload\<rparr>"

text \<open>The loop over the named parts: the first that does not fit a frame is the error.\<close>

fun check_parts :: "nat \<Rightarrow> (string \<times> nat) list \<Rightarrow> unit bridge_result" where
  "check_parts max_payload [] = Inr ()"
| "check_parts max_payload ((name, bytes) # parts) =
     (if max_payload < bytes then Inl (session_too_large name) else check_parts max_payload parts)"

section \<open>Jobs\<close>

definition build_job_request_frames :: "64 word \<Rightarrow> string \<Rightarrow> nat \<Rightarrow> frame list bridge_result" where
  "build_job_request_frames request_id body max_payload =
     (if body = [] then Inl (invalid_argument ''session Job request must not be empty'')
      else if max_payload < length body then Inl (session_too_large ''Job request'')
      else
        (let metadata = metadata_text [(''operation'', ''job''), (''request_length'', decimal (length body))] in
         if max_payload < length metadata then Inl (session_too_large ''Job metadata'')
         else Inr [open_frame request_id metadata, data_frame request_id body]))"

section \<open>Commands\<close>

definition session_shell :: "shell_kind \<Rightarrow> string option \<Rightarrow> (string \<times> string) bridge_result" where
  "session_shell shell login_shell =
     (case shell of
        Bash_Shell _ \<Rightarrow> Inr (''bash'', [])
      | PosixSh_Shell \<Rightarrow> Inr (''sh'', [])
      | Login_Shell \<Rightarrow>
          (case login_shell of
             None \<Rightarrow>
               Inl (new_error RemoteCapabilityMissing
                 ''remote account login shell was not supplied to the SSH session'' False)
           | Some login \<Rightarrow>
               if \<not> starts_with ''/'' login \<or> list_ex is_ascii_control login then
                 Inl (invalid_argument ''remote account login shell path is invalid'')
               else Inr (''login'', login)))"

definition command_metadata ::
  "session_request \<Rightarrow> string \<Rightarrow> string \<Rightarrow> nat \<Rightarrow> nat \<Rightarrow> nat \<Rightarrow> (string \<times> string) list" where
  "command_metadata request shell login_shell cwd_length command_length stdin_length =
     [(''shell'', shell), (''cwd_length'', decimal cwd_length), (''command_length'', decimal command_length),
      (''stdin_length'', decimal stdin_length), (''login_shell'', login_shell),
      (''timeout_ms'', decimal (sq_timeout_ms request)),
      (''stdout_limit'', decimal (sq_stdout_limit request)),
      (''stderr_limit'', decimal (sq_stderr_limit request))]"

definition build_command_request_frames ::
  "64 word \<Rightarrow> session_request \<Rightarrow> string \<Rightarrow> string \<Rightarrow> shell_selection \<Rightarrow> string option \<Rightarrow> string \<Rightarrow> nat
     \<Rightarrow> frame list bridge_result" where
  "build_command_request_frames request_id request command cwd shell login_shell stdin max_payload =
     (if NUL \<in> set cwd \<or> NUL \<in> set command then
        Inl (invalid_argument ''NUL is not representable in a session cwd or command'')
      else
        bindR (check_parts max_payload
                 [(''cwd'', length cwd), (''command'', length command), (''stdin'', length stdin)]) (\<lambda>_.
        bindR (session_shell (ss_shell shell) login_shell) (\<lambda>(shell, login_shell).
        let metadata = metadata_text (command_metadata request shell login_shell (length cwd)
                         (length command) (length stdin)) in
        if max_payload < length metadata then Inl (session_too_large ''metadata'')
        else
          Inr ([open_frame request_id metadata, data_frame request_id cwd, data_frame request_id command] @
               (if stdin \<noteq> [] then [data_frame request_id stdin] else [])))))"

section \<open>Searches\<close>

fun encode_globs :: "string list \<Rightarrow> string bridge_result" where
  "encode_globs [] = Inr []"
| "encode_globs (glob # globs) =
     (if NUL \<in> set glob then Inl (invalid_argument ''native search glob must not contain NUL'')
      else bindR (encode_globs globs) (\<lambda>bytes. Inr (glob @ NUL # bytes)))"

definition search_metadata ::
  "session_request \<Rightarrow> nat \<Rightarrow> nat \<Rightarrow> nat \<Rightarrow> nat \<Rightarrow> bool \<Rightarrow> (string \<times> string) list" where
  "search_metadata request root_length query_length globs_length max_results binary =
     [(''operation'', ''search''), (''root_length'', decimal root_length),
      (''query_length'', decimal query_length), (''globs_length'', decimal globs_length),
      (''max_results'', decimal max_results), (''binary'', if binary then ''1'' else ''0''),
      (''timeout_ms'', decimal (sq_timeout_ms request)),
      (''stdout_limit'', decimal (sq_stdout_limit request)),
      (''stderr_limit'', decimal (sq_stderr_limit request))]"

definition build_search_request_frames ::
  "64 word \<Rightarrow> session_request \<Rightarrow> string \<Rightarrow> string \<Rightarrow> string list \<Rightarrow> nat \<Rightarrow> bool \<Rightarrow> nat
     \<Rightarrow> frame list bridge_result" where
  "build_search_request_frames request_id request root query globs max_results binary max_payload =
     (if NUL \<in> set root \<or> query = [] then
        Inl (invalid_argument ''native search root must not contain NUL and query must not be empty'')
      else
        bindR (encode_globs globs) (\<lambda>glob_bytes.
        bindR (check_parts max_payload
                 [(''search root'', length root), (''search query'', length query),
                  (''search globs'', length glob_bytes)]) (\<lambda>_.
        let metadata = metadata_text (search_metadata request (length root) (length query)
                         (length glob_bytes) max_results binary) in
        if max_payload < length metadata then Inl (session_too_large ''search metadata'')
        else
          Inr [open_frame request_id metadata, data_frame request_id root, data_frame request_id query,
               data_frame request_id glob_bytes])))"

definition build_request_frames ::
  "64 word \<Rightarrow> session_request \<Rightarrow> nat \<Rightarrow> frame list bridge_result" where
  "build_request_frames request_id request max_payload =
     (if sq_env request \<noteq> [] then
        Inl (invalid_argument ''per-request environment overrides are not supported by this dispatcher'')
      else
        (case sq_action request of
           Command_Action command cwd shell login_shell stdin \<Rightarrow>
             build_command_request_frames request_id request command cwd shell login_shell
               (case_option [] id stdin) max_payload
         | Search_Action root query globs max_results binary \<Rightarrow>
             build_search_request_frames request_id request root query globs max_results binary max_payload
         | Job_Action body \<Rightarrow> build_job_request_frames request_id body max_payload))"

end
