(* ===== verification/Helper_Request.thy ===== *)
theory Helper_Request
  imports Session_Request
begin

text \<open>
  How the remote helper reads a request (\<open>read_request\<close> and what it calls in
  \<open>src/remote_helper.rs\<close>).  The frames that follow the OPEN frame are a list, whose end is the end
  of the stream or a read error, as both are one message here.  An error is its message.  The JSON
  reader of job requests and the compiler of globs are parameters.
\<close>

section \<open>Reading in sequence\<close>

type_synonym 'a from_frames = "frame list \<Rightarrow> (string + 'a) \<times> frame list"

definition bindF :: "'a from_frames \<Rightarrow> ('a \<Rightarrow> 'b from_frames) \<Rightarrow> 'b from_frames" where
  "bindF m f = (\<lambda>frames. case m frames of (Inl e, rest) \<Rightarrow> (Inl e, rest) | (Inr a, rest) \<Rightarrow> f a rest)"

definition pureF :: "string + 'a \<Rightarrow> 'a from_frames" where
  "pureF r = (\<lambda>frames. (r, frames))"

section \<open>Requests\<close>

record command_spec =
  cs_request_id :: "64 word"
  cs_shell :: string
  cs_cwd :: string
  cs_command :: string
  cs_stdin :: string
  cs_login_shell :: "string option"
  cs_timeout_ms :: nat
  cs_stdout_limit :: nat
  cs_stderr_limit :: nat

record search_spec =
  es_request_id :: "64 word"
  es_root :: string
  es_query :: string
  es_globs :: "string list"
  es_max_results :: nat
  es_binary :: bool
  es_timeout_ms :: nat
  es_stdout_limit :: nat

datatype 'j request_spec =
  Spec_Command command_spec | Spec_Search search_spec | Spec_Job "64 word" 'j

fun spec_request_id :: "'j request_spec \<Rightarrow> 64 word" where
  "spec_request_id (Spec_Command spec) = cs_request_id spec"
| "spec_request_id (Spec_Search spec) = es_request_id spec"
| "spec_request_id (Spec_Job request_id job) = request_id"

section \<open>Metadata\<close>

definition metadata_keys :: "string list" where
  "metadata_keys =
     [''shell'', ''operation'', ''cwd_length'', ''command_length'', ''stdin_length'', ''root_length'',
      ''query_length'', ''globs_length'', ''max_results'', ''binary'', ''login_shell'', ''timeout_ms'',
      ''stdout_limit'', ''stderr_limit'', ''request_length'']"

text \<open>The ordered map of the fields is an association list; every key is inserted once.\<close>

fun parse_metadata_lines ::
  "string list \<Rightarrow> (string \<times> string) list \<Rightarrow> string + (string \<times> string) list" where
  "parse_metadata_lines [] flds = Inr flds"
| "parse_metadata_lines (line # lines) flds =
     (if line = [] then parse_metadata_lines lines flds
      else
        (case position (\<lambda>c. c = CHR ''='') line of
           None \<Rightarrow> Inl ''invalid-open-metadata''
         | Some i \<Rightarrow>
             (let key = take i line; v = drop (i + 1) line in
              if key \<notin> set metadata_keys \<or> map_of flds key \<noteq> None then Inl ''invalid-open-metadata''
              else parse_metadata_lines lines (flds @ [(key, v)]))))"

definition parse_metadata :: "string \<Rightarrow> string + (string \<times> string) list" where
  "parse_metadata payload =
     (if valid_utf8 payload then parse_metadata_lines (split_on LF payload) []
      else Inl ''metadata-is-not-utf8'')"

definition required_field :: "(string \<times> string) list \<Rightarrow> string \<Rightarrow> string + string" where
  "required_field flds key = ok_or ''invalid-open-metadata'' (map_of flds key)"

definition parse_field_u64 :: "(string \<times> string) list \<Rightarrow> string \<Rightarrow> string + nat" where
  "parse_field_u64 flds key =
     bindR (required_field flds key) (\<lambda>v.
     if v = [] \<or> \<not> list_all is_ascii_digit v then Inl ''invalid-open-number''
     else ok_or ''invalid-open-number'' (parse_unsigned u64_max v))"

definition parse_field_length :: "(string \<times> string) list \<Rightarrow> string \<Rightarrow> string + nat" where
  "parse_field_length flds key = parse_field_u64 flds key"

definition has_fields :: "(string \<times> string) list \<Rightarrow> string list \<Rightarrow> bool" where
  "has_fields flds needed \<longleftrightarrow> list_all (\<lambda>key. map_of flds key \<noteq> None) needed"

definition ensure_command_fields :: "(string \<times> string) list \<Rightarrow> string + unit" where
  "ensure_command_fields flds =
     (let needed = [''shell'', ''cwd_length'', ''command_length'', ''stdin_length'', ''timeout_ms'',
                      ''stdout_limit'', ''stderr_limit''] in
      if \<not> has_fields flds needed \<or>
         list_ex (\<lambda>key. key \<notin> set needed \<and> key \<noteq> ''login_shell'') (map fst flds)
      then Inl ''invalid-open-metadata'' else Inr ())"

definition ensure_search_fields :: "(string \<times> string) list \<Rightarrow> string + unit" where
  "ensure_search_fields flds =
     (let needed = [''operation'', ''root_length'', ''query_length'', ''globs_length'', ''max_results'',
                      ''binary'', ''timeout_ms'', ''stdout_limit'', ''stderr_limit''] in
      if length flds \<noteq> length needed \<or> \<not> has_fields flds needed
      then Inl ''invalid-open-metadata'' else Inr ())"

definition ensure_job_fields :: "(string \<times> string) list \<Rightarrow> string + unit" where
  "ensure_job_fields flds =
     (let needed = [''operation'', ''request_length''] in
      if length flds \<noteq> length needed \<or> \<not> has_fields flds needed
      then Inl ''invalid-open-metadata'' else Inr ())"

section \<open>Data frames\<close>

definition read_data :: "frame \<Rightarrow> nat \<Rightarrow> string from_frames" where
  "read_data opened expected_length = (\<lambda>frames.
     case frames of
       [] \<Rightarrow> (Inl ''truncated-request-data'', [])
     | frame # rest \<Rightarrow>
         if fr_kind frame \<noteq> Data \<or> fr_request_id frame \<noteq> fr_request_id opened \<or>
            length (fr_payload frame) \<noteq> expected_length
         then (Inl ''invalid-request-data'', rest)
         else (Inr (fr_payload frame), rest))"

definition utf8_or :: "string \<Rightarrow> string \<Rightarrow> string + string" where
  "utf8_or message bytes = (if valid_utf8 bytes then Inr bytes else Inl message)"

fun read_globs :: "(string \<Rightarrow> bool) \<Rightarrow> string list \<Rightarrow> string + string list" where
  "read_globs glob_ok [] = Inr []"
| "read_globs glob_ok (glob # globs) =
     (if glob = [] then read_globs glob_ok globs
      else
        bindR (utf8_or ''search-glob-is-not-utf8'' glob) (\<lambda>glob.
        if \<not> glob_ok glob then Inl ''invalid-search-glob''
        else bindR (read_globs glob_ok globs) (\<lambda>later. Inr (glob # later))))"

definition read_search_request ::
  "(string \<Rightarrow> bool) \<Rightarrow> frame \<Rightarrow> (string \<times> string) list \<Rightarrow> 'j request_spec from_frames" where
  "read_search_request glob_ok opened flds =
     bindF (pureF (parse_field_length flds ''root_length'')) (\<lambda>root_length.
     bindF (pureF (parse_field_length flds ''query_length'')) (\<lambda>query_length.
     bindF (pureF (parse_field_length flds ''globs_length'')) (\<lambda>globs_length.
     bindF (pureF (parse_field_length flds ''max_results'')) (\<lambda>max_results.
     bindF (pureF (bindR (required_field flds ''binary'') (\<lambda>v.
              if v = ''0'' then Inr False else if v = ''1'' then Inr True
              else Inl ''invalid-open-metadata''))) (\<lambda>binary.
     bindF (pureF (parse_field_u64 flds ''timeout_ms'')) (\<lambda>timeout.
     bindF (pureF (parse_field_u64 flds ''stdout_limit'')) (\<lambda>stdout_limit.
     bindF (pureF (parse_field_u64 flds ''stderr_limit'')) (\<lambda>_.
     bindF (read_data opened root_length) (\<lambda>bytes.
     bindF (pureF (utf8_or ''root-is-not-utf8'' bytes)) (\<lambda>root.
     if NUL \<in> set root then pureF (Inl ''invalid-search-root'')
     else
     bindF (read_data opened query_length) (\<lambda>query.
     if query = [] then pureF (Inl ''invalid-search-query'')
     else
     bindF (read_data opened globs_length) (\<lambda>glob_bytes.
     bindF (pureF (read_globs glob_ok (split_on NUL glob_bytes))) (\<lambda>globs.
       pureF (Inr (Spec_Search
         \<lparr>es_request_id = fr_request_id opened, es_root = root, es_query = query, es_globs = globs,
          es_max_results = max_results, es_binary = binary, es_timeout_ms = timeout,
          es_stdout_limit = stdout_limit\<rparr>)))))))))))))))"

definition read_login_shell :: "(string \<times> string) list \<Rightarrow> string + string option" where
  "read_login_shell flds =
     (case map_of flds ''login_shell'' of
        None \<Rightarrow> Inr None
      | Some v \<Rightarrow>
          if v = [] then Inr None
          else if starts_with ''/'' v \<and> \<not> list_ex is_ascii_control v then Inr (Some v)
          else Inl ''invalid-login-shell'')"

definition check_shell :: "string \<Rightarrow> string option \<Rightarrow> string + unit" where
  "check_shell shell login_shell =
     (if shell \<in> {''bash'', ''sh''} \<and> login_shell = None then Inr ()
      else if shell = ''login'' \<and> login_shell \<noteq> None then Inr ()
      else if shell \<in> {''bash'', ''sh'', ''login''} then Inl ''invalid-open-metadata''
      else Inl ''unsupported-shell'')"

definition read_command_request :: "frame \<Rightarrow> (string \<times> string) list \<Rightarrow> 'j request_spec from_frames" where
  "read_command_request opened flds =
     bindF (pureF (ensure_command_fields flds)) (\<lambda>_.
     bindF (pureF (required_field flds ''shell'')) (\<lambda>shell.
     bindF (pureF (parse_field_length flds ''cwd_length'')) (\<lambda>cwd_length.
     bindF (pureF (parse_field_length flds ''command_length'')) (\<lambda>command_length.
     bindF (pureF (parse_field_length flds ''stdin_length'')) (\<lambda>stdin_length.
     bindF (pureF (parse_field_u64 flds ''timeout_ms'')) (\<lambda>timeout.
     bindF (pureF (parse_field_u64 flds ''stdout_limit'')) (\<lambda>stdout_limit.
     bindF (pureF (parse_field_u64 flds ''stderr_limit'')) (\<lambda>stderr_limit.
     bindF (pureF (read_login_shell flds)) (\<lambda>login_shell.
     bindF (pureF (check_shell shell login_shell)) (\<lambda>_.
     bindF (read_data opened cwd_length) (\<lambda>bytes.
     bindF (pureF (utf8_or ''cwd-is-not-utf8'' bytes)) (\<lambda>cwd.
     bindF (read_data opened command_length) (\<lambda>bytes.
     bindF (pureF (utf8_or ''command-is-not-utf8'' bytes)) (\<lambda>command.
     bindF (if stdin_length = 0 then pureF (Inr []) else read_data opened stdin_length) (\<lambda>stdin.
       pureF (Inr (Spec_Command
         \<lparr>cs_request_id = fr_request_id opened, cs_shell = shell, cs_cwd = cwd, cs_command = command,
          cs_stdin = stdin, cs_login_shell = login_shell, cs_timeout_ms = timeout,
          cs_stdout_limit = stdout_limit, cs_stderr_limit = stderr_limit\<rparr>)))))))))))))))))"

definition read_request ::
  "(string \<Rightarrow> bool) \<Rightarrow> (string \<Rightarrow> 'j option) \<Rightarrow> frame \<Rightarrow> 'j request_spec from_frames" where
  "read_request glob_ok parse_job opened =
     bindF (pureF (parse_metadata (fr_payload opened))) (\<lambda>flds.
     if map_of flds ''operation'' = Some ''job'' then
       bindF (pureF (ensure_job_fields flds)) (\<lambda>_.
       bindF (pureF (parse_field_length flds ''request_length'')) (\<lambda>request_length.
       bindF (read_data opened request_length) (\<lambda>body.
       bindF (pureF (ok_or ''invalid-job-request'' (parse_job body))) (\<lambda>request.
         pureF (Inr (Spec_Job (fr_request_id opened) request))))))
     else if map_of flds ''operation'' = Some ''search'' then
       bindF (pureF (ensure_search_fields flds)) (\<lambda>_. read_search_request glob_ok opened flds)
     else if map_of flds ''operation'' \<noteq> None then pureF (Inl ''invalid-open-metadata'')
     else read_command_request opened flds)"

end
