(* ===== verification/Request_Properties.thy ===== *)
theory Request_Properties
  imports Helper_Request
begin

text \<open>
  The helper reads back exactly the request the bridge wrote: the metadata text is parsed to the
  fields it was printed from, and the data frames carry the parts with the announced lengths.
\<close>

section \<open>Text\<close>

lemma valid_utf8_append:
  assumes "valid_utf8 a" "valid_utf8 b"
  shows "valid_utf8 (a @ b)"
proof -
  from assms obtain x y where x: "utf8_decode a = Some x" "utf8_decode b = Some y"
    by (auto simp: valid_utf8_def)
  show ?thesis using encode_decode [OF x(1)] encode_decode [OF x(2)] decode_encode [of "x @ y"]
    by (auto simp: valid_utf8_def utf8_encode_def)
qed

lemma decimal_valid: "valid_utf8 (decimal n)"
  using decimal_ascii [of n] by (auto intro: valid_utf8_ascii)

section \<open>Metadata\<close>

text \<open>A field that the text can carry.\<close>

definition field_ok :: "string \<times> string \<Rightarrow> bool" where
  "field_ok pair \<longleftrightarrow> fst pair \<in> set metadata_keys \<and> LF \<notin> set (snd pair) \<and> valid_utf8 (snd pair)"

lemma metadata_key_plain:
  assumes "key \<in> set metadata_keys"
  shows "key \<noteq> []" "LF \<notin> set key" "CHR ''='' \<notin> set key" "\<forall>c \<in> set key. byte c < 0x80"
  using assms by (auto simp: metadata_keys_def byte_def)

lemma metadata_line_ok:
  assumes "field_ok (key, v)"
  shows "valid_utf8 (metadata_line key v)" "LF \<notin> set (key @ ''='' @ v)"
proof -
  from assms have key: "key \<in> set metadata_keys" and v: "LF \<notin> set v" "valid_utf8 v" by (simp_all add: field_ok_def)
  note plain = metadata_key_plain [OF key]
  have "valid_utf8 key" "valid_utf8 ''=''" "valid_utf8 [LF]"
    using plain(4) by (auto intro!: valid_utf8_ascii simp: byte_def)
  with v(2) have "valid_utf8 (key @ ''='' @ v @ [LF])" by (intro valid_utf8_append)
  then show "valid_utf8 (metadata_line key v)" by (simp add: metadata_line_def)
  show "LF \<notin> set (key @ ''='' @ v)" using plain(2) v(1) by auto
qed

lemma metadata_text_split:
  assumes "list_all field_ok pairs"
  shows "valid_utf8 (metadata_text pairs) \<and>
    split_on LF (metadata_text pairs) = map (\<lambda>(key, v). key @ ''='' @ v) pairs @ [[]]"
  using assms
proof (induction pairs)
  case Nil
  then show ?case by (simp add: metadata_text_def valid_utf8_def)
next
  case (Cons pair pairs)
  obtain key v where kv: "pair = (key, v)" by force
  with Cons have ok: "field_ok (key, v)" and IH: "valid_utf8 (metadata_text pairs)"
    "split_on LF (metadata_text pairs) = map (\<lambda>(key, v). key @ ''='' @ v) pairs @ [[]]" by auto
  have line: "metadata_text ((key, v) # pairs) = metadata_line key v @ metadata_text pairs"
    "metadata_text ((key, v) # pairs) = (key @ ''='' @ v) @ LF # metadata_text pairs"
    by (simp_all add: metadata_text_def metadata_line_def)
  have "split_on LF (metadata_text ((key, v) # pairs)) = map (\<lambda>(key, v). key @ ''='' @ v) ((key, v) # pairs) @ [[]]"
    unfolding line(2) split_on_append [OF metadata_line_ok(2) [OF ok]] IH(2) by simp
  with valid_utf8_append [OF metadata_line_ok(1) [OF ok] IH(1)] show ?case by (simp add: line(1) kv)
qed

lemma parse_metadata_lines_print:
  assumes "list_all field_ok pairs" "distinct (map fst (flds @ pairs))"
  shows "parse_metadata_lines (map (\<lambda>(key, v). key @ ''='' @ v) pairs @ [[]]) flds = Inr (flds @ pairs)"
  using assms
proof (induction pairs arbitrary: flds)
  case (Cons pair pairs)
  obtain key v where kv: "pair = (key, v)" by force
  with Cons.prems have ok: "field_ok (key, v)" by simp
  then have key: "key \<in> set metadata_keys" by (simp add: field_ok_def)
  have pos: "position (\<lambda>c. c = CHR ''='') (key @ CHR ''='' # v) = Some (length key)"
    using metadata_key_plain(3) [OF key] by (intro position_append_hit) auto
  have "map_of flds key = None" using Cons.prems(2) kv by (auto simp: map_of_eq_None_iff)
  moreover have "parse_metadata_lines (map (\<lambda>(key, v). key @ ''='' @ v) pairs @ [[]]) (flds @ [(key, v)]) =
      Inr ((flds @ [(key, v)]) @ pairs)"
    using Cons.prems kv by (intro Cons.IH) simp_all
  ultimately show ?case using kv key pos by simp
qed simp

lemma parse_metadata_print:
  assumes "list_all field_ok pairs" "distinct (map fst pairs)"
  shows "parse_metadata (metadata_text pairs) = Inr pairs"
  using metadata_text_split [OF assms(1)] parse_metadata_lines_print [OF assms(1), of "[]"] assms(2)
  by (simp add: parse_metadata_def)

lemma parse_field_decimal:
  assumes "map_of flds key = Some (decimal n)" "n \<le> u64_max"
  shows "parse_field_u64 flds key = Inr n"
  using assms decimal_digits [of n] parse_decimal_roundtrip [OF assms(2)]
  by (simp add: parse_field_u64_def required_field_def)

section \<open>The request\<close>

lemma bindF_pure [simp]:
  "bindF (pureF (Inr a)) f = f a" "bindF (pureF (Inl e)) f = pureF (Inl e)" "pureF r fs = (r, fs)"
  by (simp_all add: bindF_def pureF_def)

lemma bindF_read_data:
  assumes "fr_request_id opened = request_id"
  shows "bindF (read_data opened (length payload)) f (data_frame request_id payload # rest) = f payload rest"
  using assms by (simp add: bindF_def read_data_def data_frame_def)

lemma open_frame_fields [simp]:
  "fr_kind (open_frame i p) = Open" "fr_request_id (open_frame i p) = i" "fr_payload (open_frame i p) = p"
  "fr_kind (data_frame i p) = Data" "fr_request_id (data_frame i p) = i" "fr_payload (data_frame i p) = p"
  by (simp_all add: open_frame_def data_frame_def)

lemma check_parts_ok: "check_parts n parts = Inr u \<longleftrightarrow> (\<forall>(name, bytes) \<in> set parts. bytes \<le> n)"
  by (induction parts) (auto split: if_splits)

text \<open>The numbers of a request fit the fields of the protocol.\<close>

definition numbers_ok :: "session_request \<Rightarrow> bool" where
  "numbers_ok q \<longleftrightarrow>
     sq_timeout_ms q \<le> u64_max \<and> sq_stdout_limit q \<le> u64_max \<and> sq_stderr_limit q \<le> u64_max"

lemma decimal_plain: "LF \<notin> set (decimal n)"
  using decimal_set [of LF n] by (auto simp: is_ascii_digit_def byte_def)

lemma command_metadata_ok:
  assumes "shell \<in> {''bash'', ''sh'', ''login''}" "LF \<notin> set login" "valid_utf8 login"
  shows "parse_metadata (metadata_text (command_metadata q shell login a b c)) = Inr (command_metadata q shell login a b c)"
proof (rule parse_metadata_print)
  have "LF \<notin> set shell \<and> valid_utf8 shell"
    using assms(1) by (auto intro!: valid_utf8_ascii simp: byte_def)
  with assms(2,3) show "list_all field_ok (command_metadata q shell login a b c)"
    by (simp add: command_metadata_def field_ok_def metadata_keys_def decimal_plain decimal_valid)
  show "distinct (map fst (command_metadata q shell login a b c))" by (simp add: command_metadata_def)
qed

lemma search_metadata_ok:
  "parse_metadata (metadata_text (search_metadata q a b c n binary)) = Inr (search_metadata q a b c n binary)"
proof (rule parse_metadata_print)
  have "LF \<notin> set ''search'' \<and> valid_utf8 ''search''" "LF \<notin> set ''0'' \<and> valid_utf8 ''0''" "LF \<notin> set ''1'' \<and> valid_utf8 ''1''"
    by (auto intro!: valid_utf8_ascii simp: byte_def)
  then show "list_all field_ok (search_metadata q a b c n binary)"
    by (simp add: search_metadata_def field_ok_def metadata_keys_def decimal_plain decimal_valid)
  show "distinct (map fst (search_metadata q a b c n binary))" by (simp add: search_metadata_def)
qed

lemma job_metadata_ok:
  "parse_metadata (metadata_text [(''operation'', ''job''), (''request_length'', decimal n)]) =
     Inr [(''operation'', ''job''), (''request_length'', decimal n)]"
proof (rule parse_metadata_print)
  have "LF \<notin> set ''job'' \<and> valid_utf8 ''job''" by (auto intro!: valid_utf8_ascii simp: byte_def)
  then show "list_all field_ok [(''operation'', ''job''), (''request_length'', decimal n)]"
    by (simp add: field_ok_def metadata_keys_def decimal_plain decimal_valid)
qed simp

lemma encode_globs_split:
  assumes "encode_globs globs = Inr bytes"
  shows "split_on NUL bytes = globs @ [[]]"
  using assms
proof (induction globs arbitrary: bytes)
  case (Cons glob globs)
  then obtain later where "encode_globs globs = Inr later" "bytes = glob @ NUL # later" "NUL \<notin> set glob"
    by (auto simp: bindR_eq_Inr split: if_splits)
  with Cons.IH split_on_append [of NUL glob later] show ?case by simp
qed simp

lemma read_globs_ok:
  assumes "\<forall>glob \<in> set globs. glob \<noteq> [] \<longrightarrow> valid_utf8 glob \<and> glob_ok glob"
  shows "read_globs glob_ok (globs @ [[]]) = Inr (filter (\<lambda>glob. glob \<noteq> []) globs)"
  using assms by (induction globs) (auto simp: utf8_or_def)

lemma session_shell_Inr:
  assumes "session_shell shell login_shell = Inr (name, login)"
  shows "(case shell of
      Bash_Shell _ \<Rightarrow> name = ''bash'' \<and> login = []
    | PosixSh_Shell \<Rightarrow> name = ''sh'' \<and> login = []
    | Login_Shell \<Rightarrow> name = ''login'' \<and> login_shell = Some login \<and> starts_with ''/'' login \<and> \<not> list_ex is_ascii_control login)"
  using assms by (auto simp: session_shell_def split: shell_kind.splits option.splits if_splits)

lemma no_control_LF: "\<not> list_ex is_ascii_control s \<Longrightarrow> LF \<notin> set s"
  by (force simp: list_ex_iff is_ascii_control_def byte_def)

definition shell_word_of :: "shell_kind \<Rightarrow> string" where
  "shell_word_of shell = (case shell of Bash_Shell _ \<Rightarrow> ''bash'' | PosixSh_Shell \<Rightarrow> ''sh'' | Login_Shell \<Rightarrow> ''login'')"

text \<open>What the helper must be able to read: text, globs it can compile, a job request it knows.\<close>

definition action_readable :: "(string \<Rightarrow> bool) \<Rightarrow> (string \<Rightarrow> 'j option) \<Rightarrow> session_action \<Rightarrow> bool" where
  "action_readable glob_ok parse_job action \<longleftrightarrow>
     (case action of
        Command_Action command cwd shell login_shell stdin \<Rightarrow>
          valid_utf8 command \<and> valid_utf8 cwd \<and> (\<forall>login. login_shell = Some login \<longrightarrow> valid_utf8 login)
      | Search_Action root query globs max_results binary \<Rightarrow>
          valid_utf8 root \<and> max_results \<le> u64_max \<and>
          (\<forall>glob \<in> set globs. glob \<noteq> [] \<longrightarrow> valid_utf8 glob \<and> glob_ok glob)
      | Job_Action body \<Rightarrow> parse_job body \<noteq> None)"

text \<open>The request as the helper should understand it.\<close>

definition understood :: "(string \<Rightarrow> 'j option) \<Rightarrow> 64 word \<Rightarrow> session_request \<Rightarrow> 'j request_spec" where
  "understood parse_job request_id q =
     (case sq_action q of
        Command_Action command cwd shell login_shell stdin \<Rightarrow>
          Spec_Command
            \<lparr>cs_request_id = request_id, cs_shell = shell_word_of (ss_shell shell), cs_cwd = cwd,
             cs_command = command, cs_stdin = case_option [] id stdin,
             cs_login_shell = (if ss_shell shell = Login_Shell then login_shell else None),
             cs_timeout_ms = sq_timeout_ms q, cs_stdout_limit = sq_stdout_limit q,
             cs_stderr_limit = sq_stderr_limit q\<rparr>
      | Search_Action root query globs max_results binary \<Rightarrow>
          Spec_Search
            \<lparr>es_request_id = request_id, es_root = root, es_query = query,
             es_globs = filter (\<lambda>glob. glob \<noteq> []) globs, es_max_results = max_results, es_binary = binary,
             es_timeout_ms = sq_timeout_ms q, es_stdout_limit = sq_stdout_limit q\<rparr>
      | Job_Action body \<Rightarrow> Spec_Job request_id (the (parse_job body)))"

text \<open>The frames of a request: one OPEN frame, then DATA frames, all with its identifier and within the limit.\<close>

definition request_frames :: "64 word \<Rightarrow> nat \<Rightarrow> frame list \<Rightarrow> bool" where
  "request_frames request_id max_payload frames \<longleftrightarrow>
     frames \<noteq> [] \<and> fr_kind (hd frames) = Open \<and> (\<forall>f \<in> set (tl frames). fr_kind f = Data) \<and>
     (\<forall>f \<in> set frames. fr_request_id f = request_id \<and> length (fr_payload f) \<le> max_payload)"

lemma command_fields:
  assumes "parse_metadata payload = Inr (command_metadata q shell login a b c)"
    and "shell = ''bash'' \<and> login = [] \<or> shell = ''sh'' \<and> login = [] \<or>
         shell = ''login'' \<and> starts_with ''/'' login \<and> \<not> list_ex is_ascii_control login"
    and "numbers_ok q" "a \<le> u64_max" "b \<le> u64_max" "c \<le> u64_max"
  shows "read_request glob_ok parse_job (open_frame i payload) =
    bindF (read_data (open_frame i payload) a) (\<lambda>bytes.
    bindF (pureF (utf8_or ''cwd-is-not-utf8'' bytes)) (\<lambda>cwd.
    bindF (read_data (open_frame i payload) b) (\<lambda>bytes.
    bindF (pureF (utf8_or ''command-is-not-utf8'' bytes)) (\<lambda>command.
    bindF (if c = 0 then pureF (Inr []) else read_data (open_frame i payload) c) (\<lambda>stdin.
      pureF (Inr (Spec_Command
         \<lparr>cs_request_id = i, cs_shell = shell, cs_cwd = cwd, cs_command = command,
          cs_stdin = stdin, cs_login_shell = (if login = [] then None else Some login),
          cs_timeout_ms = sq_timeout_ms q, cs_stdout_limit = sq_stdout_limit q,
          cs_stderr_limit = sq_stderr_limit q\<rparr>)))))))"
proof -
  let ?flds = "command_metadata q shell login a b c"
  have nums: "parse_field_u64 ?flds ''cwd_length'' = Inr a" "parse_field_u64 ?flds ''command_length'' = Inr b"
    "parse_field_u64 ?flds ''stdin_length'' = Inr c" "parse_field_u64 ?flds ''timeout_ms'' = Inr (sq_timeout_ms q)"
    "parse_field_u64 ?flds ''stdout_limit'' = Inr (sq_stdout_limit q)"
    "parse_field_u64 ?flds ''stderr_limit'' = Inr (sq_stderr_limit q)"
    by (rule parse_field_decimal; use assms(3-6) in \<open>simp add: command_metadata_def numbers_ok_def\<close>)+
  have shell: "required_field ?flds ''shell'' = Inr shell" "map_of ?flds ''operation'' = None"
    "map_of ?flds ''login_shell'' = Some login"
    by (simp_all add: command_metadata_def required_field_def)
  have keys: "ensure_command_fields ?flds = Inr ()"
    by (simp add: ensure_command_fields_def has_fields_def command_metadata_def Let_def)
  have login: "read_login_shell ?flds = Inr (if login = [] then None else Some login)"
    using shell(3) assms(2) by (auto simp: read_login_shell_def)
  have check: "check_shell shell (if login = [] then None else Some login) = Inr ()"
    using assms(2) by (auto simp: check_shell_def starts_with_def)
  show ?thesis
    by (simp add: read_request_def assms(1) shell read_command_request_def keys nums parse_field_length_def login check)
qed

lemma search_fields:
  assumes "parse_metadata payload = Inr (search_metadata q a b c n binary)"
    and "numbers_ok q" "a \<le> u64_max" "b \<le> u64_max" "c \<le> u64_max" "n \<le> u64_max"
  shows "read_request glob_ok parse_job (open_frame i payload) =
    bindF (read_data (open_frame i payload) a) (\<lambda>bytes.
    bindF (pureF (utf8_or ''root-is-not-utf8'' bytes)) (\<lambda>root.
    if NUL \<in> set root then pureF (Inl ''invalid-search-root'')
    else
    bindF (read_data (open_frame i payload) b) (\<lambda>query.
    if query = [] then pureF (Inl ''invalid-search-query'')
    else
    bindF (read_data (open_frame i payload) c) (\<lambda>glob_bytes.
    bindF (pureF (read_globs glob_ok (split_on NUL glob_bytes))) (\<lambda>globs.
      pureF (Inr (Spec_Search
         \<lparr>es_request_id = i, es_root = root, es_query = query, es_globs = globs,
          es_max_results = n, es_binary = binary, es_timeout_ms = sq_timeout_ms q,
          es_stdout_limit = sq_stdout_limit q\<rparr>)))))))"
proof -
  let ?flds = "search_metadata q a b c n binary"
  have nums: "parse_field_u64 ?flds ''root_length'' = Inr a" "parse_field_u64 ?flds ''query_length'' = Inr b"
    "parse_field_u64 ?flds ''globs_length'' = Inr c" "parse_field_u64 ?flds ''max_results'' = Inr n"
    "parse_field_u64 ?flds ''timeout_ms'' = Inr (sq_timeout_ms q)"
    "parse_field_u64 ?flds ''stdout_limit'' = Inr (sq_stdout_limit q)"
    "parse_field_u64 ?flds ''stderr_limit'' = Inr (sq_stderr_limit q)"
    by (rule parse_field_decimal; use assms(2-6) in \<open>simp add: search_metadata_def numbers_ok_def\<close>)+
  have fs: "required_field ?flds ''binary'' = Inr (if binary then ''1'' else ''0'')"
    "map_of ?flds ''operation'' = Some ''search''"
    by (simp_all add: search_metadata_def required_field_def)
  have keys: "ensure_search_fields ?flds = Inr ()"
    by (simp add: ensure_search_fields_def has_fields_def search_metadata_def Let_def)
  have bin: "bindR (required_field ?flds ''binary'') (\<lambda>v. if v = ''0'' then Inr False else if v = ''1'' then Inr True
      else Inl ''invalid-open-metadata'') = Inr binary"
    by (simp add: fs(1))
  show ?thesis
    by (simp add: read_request_def assms(1) fs(2) bin read_search_request_def keys nums parse_field_length_def cong: if_cong)
qed

lemma read_command_frames:
  assumes "build_command_request_frames i q command cwd shell login_shell stdin max_payload = Inr frames"
    and "numbers_ok q" "max_payload \<le> u64_max" "valid_utf8 command" "valid_utf8 cwd"
    and "\<forall>login. login_shell = Some login \<longrightarrow> valid_utf8 login"
  shows "request_frames i max_payload frames \<and>
    read_request glob_ok parse_job (hd frames) (tl frames @ rest) =
      (Inr (Spec_Command
         \<lparr>cs_request_id = i, cs_shell = shell_word_of (ss_shell shell), cs_cwd = cwd, cs_command = command,
          cs_stdin = stdin, cs_login_shell = (if ss_shell shell = Login_Shell then login_shell else None),
          cs_timeout_ms = sq_timeout_ms q, cs_stdout_limit = sq_stdout_limit q,
          cs_stderr_limit = sq_stderr_limit q\<rparr>), rest)"
proof -
  from assms(1) obtain name login where
    parts: "length cwd \<le> max_payload" "length command \<le> max_payload" "length stdin \<le> max_payload"
    and shell: "session_shell (ss_shell shell) login_shell = Inr (name, login)"
    and size: "length (metadata_text (command_metadata q name login (length cwd) (length command) (length stdin))) \<le> max_payload"
    and frames: "frames = open_frame i (metadata_text (command_metadata q name login (length cwd) (length command) (length stdin))) # [data_frame i cwd, data_frame i command] @
        (if stdin \<noteq> [] then [data_frame i stdin] else [])"
    by (auto simp: build_command_request_frames_def bindR_eq_Inr check_parts_ok Let_def
        simp del: check_parts.simps split: if_splits)
  note s = session_shell_Inr [OF shell]
  have kind: "name = ''bash'' \<and> login = [] \<or> name = ''sh'' \<and> login = [] \<or>
         name = ''login'' \<and> starts_with ''/'' login \<and> \<not> list_ex is_ascii_control login"
    and login: "login = [] \<or> login_shell = Some login"
    and spec: "shell_word_of (ss_shell shell) = name"
      "(if ss_shell shell = Login_Shell then login_shell else None) = (if login = [] then None else Some login)"
    using s by (auto simp: shell_word_of_def starts_with_def split: shell_kind.splits)
  have "LF \<notin> set login" "valid_utf8 login"
    using kind login assms(6) no_control_LF by (auto simp: valid_utf8_def)
  with kind have meta: "parse_metadata (metadata_text (command_metadata q name login (length cwd) (length command) (length stdin))) = Inr (command_metadata q name login (length cwd) (length command) (length stdin))"
    by (intro command_metadata_ok) auto
  have "length cwd \<le> u64_max" "length command \<le> u64_max" "length stdin \<le> u64_max" using parts assms(3) by simp_all
  note run = command_fields [OF meta kind assms(2) this, of glob_ok parse_job i]
  have "read_request glob_ok parse_job (hd frames) (tl frames @ rest) =
      (Inr (Spec_Command
         \<lparr>cs_request_id = i, cs_shell = name, cs_cwd = cwd, cs_command = command,
          cs_stdin = stdin, cs_login_shell = (if login = [] then None else Some login),
          cs_timeout_ms = sq_timeout_ms q, cs_stdout_limit = sq_stdout_limit q,
          cs_stderr_limit = sq_stderr_limit q\<rparr>), rest)"
    unfolding frames append_Cons list.sel run
    using assms(4,5) by (cases "stdin = []") (simp_all add: bindF_read_data utf8_or_def)
  moreover have "request_frames i max_payload frames"
    using parts size frames by (auto simp: request_frames_def)
  ultimately show ?thesis by (simp add: spec)
qed

lemma read_search_frames:
  assumes "build_search_request_frames i q root query globs n binary max_payload = Inr frames"
    and "numbers_ok q" "max_payload \<le> u64_max" "n \<le> u64_max" "valid_utf8 root"
    and "\<forall>glob \<in> set globs. glob \<noteq> [] \<longrightarrow> valid_utf8 glob \<and> glob_ok glob"
  shows "request_frames i max_payload frames \<and>
    read_request glob_ok parse_job (hd frames) (tl frames @ rest) =
      (Inr (Spec_Search
         \<lparr>es_request_id = i, es_root = root, es_query = query,
          es_globs = filter (\<lambda>glob. glob \<noteq> []) globs, es_max_results = n, es_binary = binary,
          es_timeout_ms = sq_timeout_ms q, es_stdout_limit = sq_stdout_limit q\<rparr>), rest)"
proof -
  from assms(1) obtain bytes where
    parts: "length root \<le> max_payload" "length query \<le> max_payload" "length bytes \<le> max_payload"
    and globs: "encode_globs globs = Inr bytes" and plain: "NUL \<notin> set root" "query \<noteq> []"
    and size: "length (metadata_text (search_metadata q (length root) (length query) (length bytes) n binary)) \<le> max_payload"
    and frames: "frames = [open_frame i (metadata_text (search_metadata q (length root) (length query) (length bytes) n binary)), data_frame i root, data_frame i query, data_frame i bytes]"
    by (auto simp: build_search_request_frames_def bindR_eq_Inr check_parts_ok Let_def
        simp del: check_parts.simps split: if_splits)
  have "length root \<le> u64_max" "length query \<le> u64_max" "length bytes \<le> u64_max" using parts assms(3) by simp_all
  note run = search_fields [OF search_metadata_ok assms(2) this assms(4), of glob_ok parse_job i]
  have "request_frames i max_payload frames" using parts size frames by (auto simp: request_frames_def)
  moreover have "read_globs glob_ok (split_on NUL bytes) = Inr (filter (\<lambda>glob. glob \<noteq> []) globs)"
    using encode_globs_split [OF globs] read_globs_ok [OF assms(6)] by simp
  ultimately show ?thesis
    using assms(5) plain by (simp add: frames run bindF_read_data utf8_or_def)
qed

lemma read_job_frames:
  assumes "build_job_request_frames i body max_payload = Inr frames"
    and "max_payload \<le> u64_max" "parse_job body = Some job"
  shows "request_frames i max_payload frames \<and>
    read_request glob_ok parse_job (hd frames) (tl frames @ rest) = (Inr (Spec_Job i job), rest)"
proof -
  let ?flds = "[(''operation'', ''job''), (''request_length'', decimal (length body))]"
  from assms(1) have body: "length body \<le> max_payload" "length (metadata_text ?flds) \<le> max_payload"
    and frames: "frames = [open_frame i (metadata_text ?flds), data_frame i body]"
    by (auto simp: build_job_request_frames_def Let_def split: if_splits)
  have "parse_field_u64 ?flds ''request_length'' = Inr (length body)"
    using body(1) assms(2) by (intro parse_field_decimal) simp_all
  moreover have "ensure_job_fields ?flds = Inr ()" by (simp add: ensure_job_fields_def has_fields_def Let_def)
  ultimately have "read_request glob_ok parse_job (hd frames) (tl frames @ rest) = (Inr (Spec_Job i job), rest)"
    using assms(3) by (simp add: frames read_request_def job_metadata_ok parse_field_length_def bindF_read_data)
  with body frames show ?thesis by (auto simp: request_frames_def)
qed

section \<open>Properties\<close>

text \<open>C26: the helper understands exactly the request the bridge built.  Every request the bridge accepts becomes one
  OPEN frame and DATA frames with its identifier, each within the frame limit; from these frames, and
  without touching what follows them, the helper reads the same command, search or job: shell, directory,
  command, input, query, globs, limits and timeout.\<close>

theorem helper_reads_request:
  assumes "build_request_frames request_id q max_payload = Inr frames"
    and "numbers_ok q" "max_payload \<le> u64_max" "action_readable glob_ok parse_job (sq_action q)"
  shows "request_frames request_id max_payload frames \<and>
    read_request glob_ok parse_job (hd frames) (tl frames @ rest) = (Inr (understood parse_job request_id q), rest)"
proof (cases "sq_action q")
  case (Command_Action command cwd shell login_shell stdin)
  with assms(1) have "build_command_request_frames request_id q command cwd shell login_shell
      (case_option [] id stdin) max_payload = Inr frames"
    by (auto simp: build_request_frames_def split: if_splits)
  from read_command_frames [OF this assms(2,3), of glob_ok parse_job rest] assms(4) Command_Action show ?thesis
    by (simp add: action_readable_def understood_def)
next
  case (Search_Action root query globs max_results binary)
  with assms(1) have "build_search_request_frames request_id q root query globs max_results binary max_payload = Inr frames"
    by (auto simp: build_request_frames_def split: if_splits)
  from read_search_frames [OF this assms(2,3), where glob_ok = glob_ok and parse_job = parse_job and rest = rest]
    assms(4) Search_Action show ?thesis
    by (simp add: action_readable_def understood_def)
next
  case (Job_Action body)
  with assms(1) have "build_job_request_frames request_id body max_payload = Inr frames"
    by (auto simp: build_request_frames_def split: if_splits)
  from read_job_frames [OF this assms(3), where parse_job = parse_job and glob_ok = glob_ok and rest = rest]
    assms(4) Job_Action show ?thesis
    by (auto simp: action_readable_def understood_def)
qed

definition demo_session_request :: session_request where
  "demo_session_request =
     \<lparr>sq_action = Command_Action ''ls -l'' ''/tmp'' \<lparr>ss_shell = PosixSh_Shell, ss_fallback = False\<rparr> None (Some ''in''),
      sq_env = [], sq_timeout_ms = 1000, sq_admission_deadline = 5, sq_response_timeout = 1200,
      sq_stdout_limit = 100, sq_stderr_limit = 100, sq_output = False\<rparr>"

lemma demo_frames_built:
  "case build_request_frames 1 demo_session_request 4096 of Inr frames \<Rightarrow> length frames = 4 | Inl _ \<Rightarrow> False"
  by code_simp

lemma helper_reads_request_witness:
  "\<exists>frames. build_request_frames 1 demo_session_request 4096 = Inr frames \<and>
     read_request (\<lambda>_. True) (\<lambda>_. None :: unit option) (hd frames) (tl frames @ []) =
       (Inr (understood (\<lambda>_. None) 1 demo_session_request), [])"
proof -
  obtain frames where built: "build_request_frames 1 demo_session_request 4096 = Inr frames"
    using demo_frames_built by (auto split: sum.splits)
  have "numbers_ok demo_session_request" by (simp add: numbers_ok_def demo_session_request_def u64_max_def)
  moreover have "(4096 :: nat) \<le> u64_max" by (simp add: u64_max_def)
  moreover have "action_readable (\<lambda>_. True) (\<lambda>_. None :: unit option) (sq_action demo_session_request)"
    by (auto simp: action_readable_def demo_session_request_def byte_def intro!: valid_utf8_ascii)
  ultimately show ?thesis using helper_reads_request [OF built] built by blast
qed

end
