(* ===== verification/Utf8_Lossy.thy ===== *)
theory Utf8_Lossy
  imports Utf8
begin

text \<open>
  \<open>String::from_utf8_lossy\<close> and \<open>str::lines\<close> of the Rust standard library.  The former replaces every
  maximal ill-formed run (a lead byte and the continuation bytes that could still follow it) by U+FFFD.
\<close>

definition replacement :: string where
  "replacement = utf8_encode_char 0xFFFD"

text \<open>The length of the character at the front, or of the ill-formed run there.\<close>

definition front_char :: "string \<Rightarrow> bool \<times> nat" where
  "front_char s =
     (let b = byte (hd s); cs = tl s in
      if b < 0x80 then (True, 1)
      else if 0xC2 \<le> b \<and> b \<le> 0xDF then
        (case cs of c1 # _ \<Rightarrow> if continuation c1 then (True, 2) else (False, 1) | [] \<Rightarrow> (False, 1))
      else if 0xE0 \<le> b \<and> b \<le> 0xEF then
        (case cs of
           c1 # r \<Rightarrow>
             if \<not> second_of_three b c1 then (False, 1)
             else (case r of c2 # _ \<Rightarrow> if continuation c2 then (True, 3) else (False, 2) | [] \<Rightarrow> (False, 2))
         | [] \<Rightarrow> (False, 1))
      else if 0xF0 \<le> b \<and> b \<le> 0xF4 then
        (case cs of
           c1 # r \<Rightarrow>
             if \<not> second_of_four b c1 then (False, 1)
             else
               (case r of
                  c2 # r' \<Rightarrow>
                    if \<not> continuation c2 then (False, 2)
                    else (case r' of c3 # _ \<Rightarrow> if continuation c3 then (True, 4) else (False, 3) | [] \<Rightarrow> (False, 3))
                | [] \<Rightarrow> (False, 2))
         | [] \<Rightarrow> (False, 1))
      else (False, 1))"

lemma front_char_pos [simp]: "0 < snd (front_char s)"
  by (simp add: front_char_def Let_def split: list.split)

function utf8_lossy :: "string \<Rightarrow> string" where
  "utf8_lossy s =
     (if s = [] then []
      else
        (let (ok, n) = front_char s in
         (if ok then take n s else replacement) @ utf8_lossy (drop n s)))"
  by pat_completeness auto
termination
proof (relation "measure length")
  fix s :: string and x ok n
  assume "s \<noteq> []" "x = front_char s" "(ok, n) = x"
  then have "0 < n" using front_char_pos [of s] by (metis snd_conv)
  with \<open>s \<noteq> []\<close> show "(drop n s, s) \<in> measure length" by simp
qed simp

declare utf8_lossy.simps [simp del]

lemma front_char_valid:
  assumes "utf8_decode (c # cs) = Some u"
  shows "\<exists>v n. front_char (c # cs) = (True, n) \<and> utf8_decode (drop n (c # cs)) = Some v"
  using assms
  by (cases rule: decode_Cons_cases) (simp_all add: front_char_def Let_def del: utf8_decode.simps)

text \<open>Well-formed text is left alone.\<close>

lemma utf8_lossy_valid:
  assumes "valid_utf8 s"
  shows "utf8_lossy s = s"
  using assms
proof (induction s rule: utf8_lossy.induct)
  case (1 s)
  show ?case
  proof (cases s)
    case (Cons c cs)
    with "1.prems" obtain u where "utf8_decode (c # cs) = Some u" by (auto simp: valid_utf8_def)
    then obtain v n where f: "front_char s = (True, n)" "utf8_decode (drop n s) = Some v"
      using front_char_valid Cons by blast
    then have "utf8_lossy (drop n s) = drop n s"
      using "1.IH" [of "(True, n)" True n] Cons by (simp add: valid_utf8_def)
    with f Cons show ?thesis by (subst utf8_lossy.simps) (simp del: drop_Suc_Cons take_Suc_Cons)
  qed (simp add: utf8_lossy.simps)
qed

section \<open>Lines\<close>

text \<open>A line ends with a line feed, or a carriage return and a line feed; the last may lack its end.\<close>

definition end_line :: "string \<Rightarrow> string" where
  "end_line s = (if s \<noteq> [] \<and> last s = CHR 0x0D then butlast s else s)"

definition str_lines :: "string \<Rightarrow> string list" where
  "str_lines s =
     (let parts = split_on LF s in
      map end_line (butlast parts) @ (if last parts = [] then [] else [last parts]))"

lemma str_lines_Nil [simp]: "str_lines [] = []"
  by (simp add: str_lines_def)

lemma str_lines_line:
  assumes "LF \<notin> set l" "l = [] \<or> last l \<noteq> CHR 0x0D"
  shows "str_lines (l @ LF # s) = l # str_lines s"
proof -
  have "split_on LF (l @ LF # s) = l # split_on LF s" by (rule split_on_append [OF assms(1)])
  moreover have "split_on LF s \<noteq> []" by simp
  ultimately show ?thesis using assms(2) by (auto simp: str_lines_def Let_def end_line_def)
qed

end
