(* ===== verification/Session_Mux.thy ===== *)
theory Session_Mux
  imports Session_Request Utf8_Lossy
begin

text \<open>
  The multiplexed session with one host (\<open>src/ssh/session.rs\<close>): the handshake and the order in which the
  kinds of remote end are tried, the table of pending requests, and what each incoming frame does
  to it.  The two output streams of a request are treated by the same code, written out twice in the
  source.  An answer is what the one-shot channel of the request received; identifiers are 64-bit words,
  as the counter wraps.
\<close>

section \<open>Errors\<close>

definition host_error :: "string \<Rightarrow> bridge_error \<Rightarrow> bridge_error" where
  "host_error host e = e\<lparr>be_details := (be_details e)\<lparr>ed_host := Some host\<rparr>\<rparr>"

definition may_continue_error :: "string \<Rightarrow> bool \<Rightarrow> bridge_error \<Rightarrow> bridge_error" where
  "may_continue_error host may_continue e =
     e\<lparr>be_details := (be_details e)\<lparr>ed_host := Some host, ed_remote_process_may_continue := Some may_continue\<rparr>\<rparr>"

definition startup_error :: "string \<Rightarrow> string \<Rightarrow> bridge_error" where
  "startup_error host message =
     host_error host (new_error ProtocolError (''SSH dispatcher startup failed: '' @ message) False)"

definition session_protocol_error :: "string \<Rightarrow> string \<Rightarrow> bridge_error" where
  "session_protocol_error host message =
     host_error host (new_error ProtocolError (''SSH dispatcher protocol error: '' @ message) False)"

definition transport_error :: "string \<Rightarrow> bool \<Rightarrow> bridge_error" where
  "transport_error host may_continue =
     may_continue_error host may_continue (new_error Io ''SSH dispatcher transport closed unexpectedly'' False)"

definition cancelled_error :: "string \<Rightarrow> bool \<Rightarrow> bridge_error" where
  "cancelled_error host may_continue =
     may_continue_error host may_continue (new_error Cancelled ''SSH operation was cancelled'' False)"

definition timeout_error :: "string \<Rightarrow> bool \<Rightarrow> bridge_error" where
  "timeout_error host may_continue =
     may_continue_error host may_continue (new_error CommandTimeout ''remote command timed out'' False)"

definition connect_timeout_error :: "string \<Rightarrow> string \<Rightarrow> bridge_error" where
  "connect_timeout_error host message =
     may_continue_error host False (new_error ConnectTimeout message True)"

section \<open>The handshake\<close>

text \<open>\<open>split_once\<close>, and the last value of a repeated key, as a map collects it.\<close>

definition split_field :: "string \<Rightarrow> (string \<times> string) option" where
  "split_field f = map_option (\<lambda>i. (take i f, drop (i + 1) f)) (position (\<lambda>c. c = CHR ''='') f)"

definition handshake_fields :: "string \<Rightarrow> (string \<rightharpoonup> string)" where
  "handshake_fields payload = map_of (rev (List.map_filter split_field (split_on (CHR '';'') payload)))"

definition valid_handshake :: "string \<Rightarrow> string option \<Rightarrow> bool" where
  "valid_handshake payload helper_arch =
     (let fs = handshake_fields (utf8_lossy payload) in
      case helper_arch of
        Some expected \<Rightarrow>
          fs ''protocol'' = Some ''codex-ssh-helper/1'' \<and> fs ''version'' = Some ''1'' \<and> fs ''arch'' = Some expected
      | None \<Rightarrow> fs ''protocol'' = Some ''codex-ssh-dispatcher/1'')"

definition capability_missing_prefix :: string where
  "capability_missing_prefix = ''DISPATCHER_CAPABILITY_MISSING=''"

definition check_hello :: "string \<Rightarrow> string option \<Rightarrow> frame \<Rightarrow> unit bridge_result" where
  "check_hello host helper_arch hello =
     (if fr_kind hello = Error then
        (let message = utf8_lossy (fr_payload hello) in
         if starts_with capability_missing_prefix message then
           Inl (host_error host (new_error RemoteCapabilityMissing message False))
         else Inl (startup_error host message))
      else if fr_kind hello \<noteq> HelloAck \<or> fr_request_id hello \<noteq> 0 \<or>
              \<not> valid_handshake (fr_payload hello) helper_arch then
        Inl (startup_error host ''invalid SSH dispatcher handshake'')
      else Inr ())"

definition helper_startup_fallback_allowed :: "bridge_error \<Rightarrow> bool \<Rightarrow> bool" where
  "helper_startup_fallback_allowed e cancelled \<longleftrightarrow>
     \<not> cancelled \<and> be_code e \<notin> {Cancelled, ConnectTimeout, InvalidArgument, RemoteCapabilityMissing}"

text \<open>
  The remote ends tried by \<open>connect_with_capability\<close>: \<open>connect\<close> is one attempt over a state of its own,
  \<open>cancelled\<close> the token when the attempt has failed.
\<close>

definition connect_with_capability ::
  "bool \<Rightarrow> (helper_mode \<Rightarrow> 'r \<Rightarrow> 's bridge_result \<times> 'r) \<Rightarrow> ('r \<Rightarrow> bool) \<Rightarrow> 'r \<Rightarrow> 's bridge_result \<times> 'r"
where
  "connect_with_capability has_helper connect cancelled r =
     (if \<not> has_helper then connect Shell_Mode r
      else
        (case connect Persistent r of
           (Inr s, r1) \<Rightarrow> (Inr s, r1)
         | (Inl e, r1) \<Rightarrow>
             if helper_startup_fallback_allowed e (cancelled r1) then
               (case connect Temporary r1 of
                  (Inr s, r2) \<Rightarrow> (Inr s, r2)
                | (Inl e, r2) \<Rightarrow>
                    if helper_startup_fallback_allowed e (cancelled r2) then connect Shell_Mode r2
                    else (Inl e, r2))
             else (Inl e, r1)))"

section \<open>The EXIT payload\<close>

text \<open>\<open>str::parse::<i32>\<close>.\<close>

definition parse_i32 :: "string \<Rightarrow> int option" where
  "parse_i32 s =
     (case s of
        c # r \<Rightarrow>
          if c = CHR ''-'' then
            (if r \<noteq> [] \<and> list_all is_ascii_digit r \<and> decimal_value r \<le> 2 ^ 31
             then Some (- int (decimal_value r)) else None)
          else map_option int (parse_unsigned (2 ^ 31 - 1) s)
      | [] \<Rightarrow> None)"

definition parse_flag :: "string \<Rightarrow> string + bool" where
  "parse_flag v =
     (if v = ''0'' then Inr False else if v = ''1'' then Inr True
      else Inl ''dispatcher EXIT truncation flag is invalid'')"

record exit_info =
  xi_status :: int
  xi_stdout_truncated :: bool
  xi_stderr_truncated :: bool
  xi_may_continue :: bool
  xi_timed_out :: bool

fun optional_flag :: "string list \<Rightarrow> string + bool \<times> string list" where
  "optional_flag [] = Inr (False, [])"
| "optional_flag (line # lines) = bindR (parse_flag line) (\<lambda>v. Inr (v, lines))"

fun required_flag :: "string list \<Rightarrow> string + bool \<times> string list" where
  "required_flag [] = Inl ''dispatcher EXIT payload is incomplete''"
| "required_flag (line # lines) = bindR (parse_flag line) (\<lambda>v. Inr (v, lines))"

definition parse_exit :: "string \<Rightarrow> string + exit_info" where
  "parse_exit payload =
     (if \<not> valid_utf8 payload then Inl ''dispatcher EXIT payload is not UTF-8''
      else
        (case str_lines payload of
           [] \<Rightarrow> Inl ''dispatcher EXIT payload is missing status''
         | line # lines \<Rightarrow>
             bindR (ok_or ''dispatcher EXIT status is invalid'' (parse_i32 line)) (\<lambda>status.
             bindR (required_flag lines) (\<lambda>(stdout, lines).
             bindR (required_flag lines) (\<lambda>(stderr, lines).
             bindR (optional_flag lines) (\<lambda>(may_continue, lines).
             bindR (optional_flag lines) (\<lambda>(timed_out, lines).
             if lines \<noteq> [] then Inl ''dispatcher EXIT payload has extra fields''
             else Inr \<lparr>xi_status = status, xi_stdout_truncated = stdout, xi_stderr_truncated = stderr,
                       xi_may_continue = may_continue, xi_timed_out = timed_out\<rparr>)))))))"

section \<open>Output\<close>

definition OUTPUT_FORWARD_CHUNK_BYTES :: nat where "OUTPUT_FORWARD_CHUNK_BYTES = 64 * 1024"

text \<open>The queue to the task that writes a stream to its sink: whether it is open, whether a write has
  failed, and what was handed over.\<close>

record forwarder =
  fw_open :: bool
  fw_failed :: bool
  fw_sent :: string

definition new_forwarder :: forwarder where
  "new_forwarder = \<lparr>fw_open = True, fw_failed = False, fw_sent = []\<rparr>"

text \<open>\<open>accepts\<close> chunks are taken by the queue within the grace time.\<close>

function forward_chunks :: "nat \<Rightarrow> string \<Rightarrow> forwarder \<Rightarrow> bool \<times> forwarder" where
  "forward_chunks accepts bytes fw =
     (if bytes = [] then (True, fw)
      else if accepts = 0 then (False, fw\<lparr>fw_failed := True, fw_open := False\<rparr>)
      else
        (let n = min (length bytes) OUTPUT_FORWARD_CHUNK_BYTES in
         forward_chunks (accepts - 1) (drop n bytes) (fw\<lparr>fw_sent := fw_sent fw @ take n bytes\<rparr>)))"
  by pat_completeness auto
termination
  by (relation "measure (\<lambda>(accepts, _, _). accepts)") auto

declare forward_chunks.simps [simp del]

definition forward :: "nat \<Rightarrow> string \<Rightarrow> forwarder \<Rightarrow> bool \<times> forwarder" where
  "forward accepts bytes fw = (if fw_open fw then forward_chunks accepts bytes fw else (False, fw))"

record stream_capture =
  sc_limit :: nat
  sc_bytes :: string
  sc_seen :: nat
  sc_truncated :: bool
  sc_sink :: "forwarder option"

definition receive_output :: "nat \<Rightarrow> nat \<Rightarrow> nat \<Rightarrow> string \<Rightarrow> stream_capture \<Rightarrow> stream_capture" where
  "receive_output aggregate_limit aggregate_used accepts payload sc =
     (let payload_len = length payload;
          remaining = min (saturating_sub (sc_limit sc) (sc_seen sc)) (saturating_sub aggregate_limit aggregate_used);
          sc1 = (if remaining < payload_len then sc\<lparr>sc_truncated := True\<rparr> else sc);
          allowed = min remaining payload_len;
          (write_failed, sc2) =
            (case sc_sink sc1 of
               Some sink \<Rightarrow>
                 (let (written, sink1) = forward accepts (take allowed payload) sink
                  in (\<not> written, sc1\<lparr>sc_sink := Some sink1\<rparr>))
             | None \<Rightarrow> (False, sc1\<lparr>sc_bytes := sc_bytes sc1 @ take allowed payload\<rparr>));
          sc3 = (if write_failed
                 then sc2\<lparr>sc_sink := None, sc_truncated := True, sc_limit := sc_seen sc2\<rparr> else sc2)
      in sc3\<lparr>sc_seen := saturating_add (sc_seen sc3) payload_len\<rparr>)"

section \<open>The session\<close>

record session_answer =
  sa_request_id :: "64 word"
  sa_status :: int
  sa_stdout :: string
  sa_stderr :: string
  sa_stdout_truncated :: bool
  sa_stderr_truncated :: bool
  sa_elapsed_ms :: nat
  sa_may_continue :: bool
  sa_timed_out :: bool

record pending_request =
  pr_ready :: bool
  pr_aggregate_limit :: nat
  pr_stdout :: stream_capture
  pr_stderr :: stream_capture
  pr_sender :: bool

record session =
  se_host :: string
  se_helper_mode :: helper_mode
  se_max_payload :: nat
  se_max_output_bytes :: nat
  se_pending :: "64 word \<rightharpoonup> pending_request"
  se_next_id :: "64 word"
  se_closed :: bool
  se_retired :: bool
  se_ready :: "64 word set"
  se_answers :: "64 word \<rightharpoonup> session_answer bridge_result"

definition next_request_id :: "session \<Rightarrow> 64 word bridge_result \<times> session" where
  "next_request_id s =
     (let request_id = se_next_id s; s1 = s\<lparr>se_next_id := request_id + 1\<rparr> in
      (if request_id = 0
       then Inl (new_error ProtocolError ''SSH session request ID space is exhausted'' False)
       else Inr request_id, s1))"

definition is_reusable :: "session \<Rightarrow> bool" where
  "is_reusable s \<longleftrightarrow> \<not> se_closed s \<and> \<not> se_retired s"

text \<open>Sending on the channel of a request that was taken out of the table.\<close>

definition answer_with ::
  "64 word \<Rightarrow> pending_request \<Rightarrow> session_answer bridge_result \<Rightarrow> session \<Rightarrow> session" where
  "answer_with request_id p answer s =
     (if pr_sender p then s\<lparr>se_answers := (se_answers s)(request_id \<mapsto> answer)\<rparr> else s)"

definition fail_all :: "bridge_error \<Rightarrow> session \<Rightarrow> session" where
  "fail_all e s =
     s\<lparr>se_pending := Map.empty,
       se_answers := (\<lambda>i. case se_pending s i of
           Some p \<Rightarrow> if pr_sender p then Some (Inl e) else se_answers s i
         | None \<Rightarrow> se_answers s i)\<rparr>"

definition fail_request :: "64 word \<Rightarrow> bridge_error \<Rightarrow> session \<Rightarrow> session" where
  "fail_request request_id e s =
     (case se_pending s request_id of
        None \<Rightarrow> s
      | Some p \<Rightarrow>
          answer_with request_id p (Inl e) (s\<lparr>se_pending := (se_pending s)(request_id := None)\<rparr>))"

definition transport_failure :: "bridge_error \<Rightarrow> session \<Rightarrow> session" where
  "transport_failure e s = fail_all e (s\<lparr>se_closed := True\<rparr>)"

definition new_capture :: "nat \<Rightarrow> bool \<Rightarrow> stream_capture" where
  "new_capture limit sink =
     \<lparr>sc_limit = limit, sc_bytes = [], sc_seen = 0, sc_truncated = False,
      sc_sink = (if sink then Some new_forwarder else None)\<rparr>"

definition new_pending :: "session \<Rightarrow> session_request \<Rightarrow> pending_request" where
  "new_pending s q =
     \<lparr>pr_ready = True,
      pr_aggregate_limit = min (saturating_add (sq_stdout_limit q) (sq_stderr_limit q)) (se_max_output_bytes s),
      pr_stdout = new_capture (sq_stdout_limit q) (sq_output q),
      pr_stderr = new_capture (sq_stderr_limit q) (sq_output q), pr_sender = True\<rparr>"

section \<open>Incoming frames\<close>

text \<open>What the environment adds to a frame: chunks the sink queue accepts, failures of the writing tasks,
  and the time since the request was started.\<close>

record dispatch_env =
  de_accepts :: nat
  de_stdout_failed :: bool
  de_stderr_failed :: bool
  de_elapsed_ms :: nat

definition unknown_request :: "session \<Rightarrow> bridge_error" where
  "unknown_request s = session_protocol_error (se_host s) ''dispatcher returned an unknown request ID''"

definition dispatch_ready :: "64 word \<Rightarrow> session \<Rightarrow> unit bridge_result \<times> session" where
  "dispatch_ready request_id s =
     (case se_pending s request_id of
        None \<Rightarrow> (Inl (unknown_request s), s)
      | Some p \<Rightarrow>
          if \<not> pr_ready p then
            (Inl (session_protocol_error (se_host s) ''dispatcher returned duplicate READY''), s)
          else
            (Inr (), s\<lparr>se_pending := (se_pending s)(request_id \<mapsto> p\<lparr>pr_ready := False\<rparr>),
                       se_ready := insert request_id (se_ready s)\<rparr>))"

definition aggregate_used :: "pending_request \<Rightarrow> nat" where
  "aggregate_used p = saturating_add (sc_seen (pr_stdout p)) (sc_seen (pr_stderr p))"

definition request_output :: "dispatch_env \<Rightarrow> bool \<Rightarrow> string \<Rightarrow> pending_request \<Rightarrow> pending_request" where
  "request_output env is_stdout payload p =
     (let receive = receive_output (pr_aggregate_limit p) (aggregate_used p) (de_accepts env) payload in
      if is_stdout then p\<lparr>pr_stdout := receive (pr_stdout p)\<rparr>
      else p\<lparr>pr_stderr := receive (pr_stderr p)\<rparr>)"

definition dispatch_output ::
  "dispatch_env \<Rightarrow> bool \<Rightarrow> 64 word \<Rightarrow> string \<Rightarrow> session \<Rightarrow> unit bridge_result \<times> session" where
  "dispatch_output env is_stdout request_id payload s =
     (case se_pending s request_id of
        None \<Rightarrow> (Inl (unknown_request s), s)
      | Some p \<Rightarrow>
          (Inr (), s\<lparr>se_pending := (se_pending s)(request_id \<mapsto> request_output env is_stdout payload p)\<rparr>))"

definition forward_failed :: "bool \<Rightarrow> stream_capture \<Rightarrow> bool" where
  "forward_failed worker_failed sc =
     (case sc_sink sc of Some fw \<Rightarrow> fw_failed fw \<or> worker_failed | None \<Rightarrow> False)"

definition exit_answer ::
  "dispatch_env \<Rightarrow> 64 word \<Rightarrow> exit_info \<Rightarrow> pending_request \<Rightarrow> session_answer" where
  "exit_answer env request_id info p =
     \<lparr>sa_request_id = request_id, sa_status = xi_status info,
      sa_stdout = sc_bytes (pr_stdout p), sa_stderr = sc_bytes (pr_stderr p),
      sa_stdout_truncated = (sc_truncated (pr_stdout p) \<or> forward_failed (de_stdout_failed env) (pr_stdout p) \<or>
        xi_stdout_truncated info),
      sa_stderr_truncated = (sc_truncated (pr_stderr p) \<or> forward_failed (de_stderr_failed env) (pr_stderr p) \<or>
        xi_stderr_truncated info),
      sa_elapsed_ms = de_elapsed_ms env, sa_may_continue = xi_may_continue info,
      sa_timed_out = xi_timed_out info\<rparr>"

definition dispatch_exit ::
  "dispatch_env \<Rightarrow> 64 word \<Rightarrow> string \<Rightarrow> session \<Rightarrow> unit bridge_result \<times> session" where
  "dispatch_exit env request_id payload s =
     (case parse_exit payload of
        Inl message \<Rightarrow> (Inl (session_protocol_error (se_host s) message), s)
      | Inr info \<Rightarrow>
          (case se_pending s request_id of
             None \<Rightarrow>
               (Inl (session_protocol_error (se_host s) ''dispatcher returned an unknown exit request ID''), s)
           | Some p \<Rightarrow>
               (Inr (), answer_with request_id p (Inr (exit_answer env request_id info p))
                          (s\<lparr>se_pending := (se_pending s)(request_id := None)\<rparr>))))"

definition dispatch_error :: "64 word \<Rightarrow> string \<Rightarrow> session \<Rightarrow> unit bridge_result \<times> session" where
  "dispatch_error request_id payload s =
     (let message = trim (utf8_lossy payload);
          e = (if starts_with capability_missing_prefix message
               then new_error RemoteCapabilityMissing message False
               else session_protocol_error (se_host s) message)
      in if request_id = 0 then (Inl e, s) else (Inr (), fail_request request_id e s))"

definition dispatch_frame :: "dispatch_env \<Rightarrow> frame \<Rightarrow> session \<Rightarrow> unit bridge_result \<times> session" where
  "dispatch_frame env frame s =
     (case fr_kind frame of
        Ready \<Rightarrow> dispatch_ready (fr_request_id frame) s
      | Stdout \<Rightarrow> dispatch_output env True (fr_request_id frame) (fr_payload frame) s
      | Stderr \<Rightarrow> dispatch_output env False (fr_request_id frame) (fr_payload frame) s
      | Exit \<Rightarrow> dispatch_exit env (fr_request_id frame) (fr_payload frame) s
      | Error \<Rightarrow> dispatch_error (fr_request_id frame) (fr_payload frame) s
      | HelloAck \<Rightarrow>
          (Inl (session_protocol_error (se_host s) ''unexpected SSH dispatcher handshake frame''), s)
      | _ \<Rightarrow> (Inl (session_protocol_error (se_host s) ''unexpected SSH dispatcher frame''), s))"

end
