(* ===== verification/Session_Steps.thy ===== *)
theory Session_Steps
  imports Session_Mux
begin

text \<open>
  The tasks that share one session as a step relation: the calls of \<open>execute\<close> and \<open>abort_request\<close>, each
  cut at the points where it waits, and the reader, the writer, the child watcher and the callers of
  \<open>shutdown\<close> and \<open>retire_idle\<close> (\<open>src/ssh/session.rs\<close>).  Between \<open>closed\<close> and the draining of the table any
  other task may run, so the drains that are under way are part of the state.  A call is followed to its
  end: it is not dropped while it waits.
\<close>

datatype call_phase =
    Inserted "frame list"
  | Checked "frame list"
  | Sent
  | Started
  | Cancelling bool
  | Aborting bool
  | Finished "session_answer bridge_result"

record mux =
  mx_session :: session
  mx_calls :: "64 word \<rightharpoonup> call_phase"
  mx_failing :: "bridge_error list"
  mx_reader_done :: bool
  mx_sent :: "frame list"
  mx_begun :: nat

definition new_session :: "string \<Rightarrow> helper_mode \<Rightarrow> nat \<Rightarrow> nat \<Rightarrow> session" where
  "new_session host mode max_payload max_output_bytes =
     \<lparr>se_host = host, se_helper_mode = mode, se_max_payload = max_payload,
      se_max_output_bytes = max_output_bytes, se_pending = Map.empty, se_next_id = 1, se_closed = False,
      se_retired = False, se_ready = {}, se_answers = Map.empty\<rparr>"

definition new_mux :: "session \<Rightarrow> mux" where
  "new_mux s = \<lparr>mx_session = s, mx_calls = Map.empty, mx_failing = [], mx_reader_done = False,
                mx_sent = [], mx_begun = 0\<rparr>"

definition set_call :: "64 word \<Rightarrow> call_phase \<Rightarrow> mux \<Rightarrow> mux" where
  "set_call i ph m = m\<lparr>mx_calls := (mx_calls m)(i \<mapsto> ph)\<rparr>"

text \<open>The call returns before its request was handed to the writer: its entry is removed.\<close>

definition withdraw :: "64 word \<Rightarrow> bridge_error \<Rightarrow> mux \<Rightarrow> mux" where
  "withdraw i e m =
     set_call i (Finished (Inl e))
       (m\<lparr>mx_session := (mx_session m)\<lparr>se_pending := (se_pending (mx_session m))(i := None)\<rparr>\<rparr>)"

text \<open>The first half of \<open>transport_failure\<close>; the drain is a step of its own.\<close>

definition start_failure :: "bridge_error \<Rightarrow> mux \<Rightarrow> mux" where
  "start_failure e m =
     m\<lparr>mx_session := (mx_session m)\<lparr>se_closed := True\<rparr>, mx_failing := mx_failing m @ [e]\<rparr>"

definition mark_retired :: "mux \<Rightarrow> mux" where
  "mark_retired m = m\<lparr>mx_session := (mx_session m)\<lparr>se_retired := True\<rparr>\<rparr>"

definition lost_transport :: "mux \<Rightarrow> bridge_error" where
  "lost_transport m = transport_error (se_host (mx_session m)) True"

definition abort_error :: "mux \<Rightarrow> bool \<Rightarrow> bool \<Rightarrow> bridge_error" where
  "abort_error m timed_out may_continue =
     (if timed_out then timeout_error (se_host (mx_session m)) may_continue
      else cancelled_error (se_host (mx_session m)) may_continue)"

definition cancel_frame :: "64 word \<Rightarrow> frame" where
  "cancel_frame i = \<lparr>fr_kind = Cancel, fr_request_id = i, fr_payload = []\<rparr>"

definition close_frame :: frame where
  "close_frame = \<lparr>fr_kind = Close, fr_request_id = 0, fr_payload = []\<rparr>"

fun awaiting :: "call_phase \<Rightarrow> bool" where
  "awaiting Sent = True" | "awaiting Started = True" | "awaiting _ = False"

fun finished :: "call_phase \<Rightarrow> bool" where
  "finished (Finished _) = True" | "finished _ = False"

fun unsent :: "call_phase \<Rightarrow> bool" where
  "unsent (Inserted _) = True" | "unsent (Checked _) = True" | "unsent _ = False"

inductive mux_step :: "mux \<Rightarrow> mux \<Rightarrow> bool" where
  begin_exhausted:
    "next_request_id (mx_session m) = (Inl e, s) \<Longrightarrow>
     mux_step m (m\<lparr>mx_session := s, mx_begun := Suc (mx_begun m)\<rparr>)"
| begin_refused:
    "\<lbrakk>next_request_id (mx_session m) = (Inr i, s);
      build_request_frames i q (se_max_payload s) = Inl e\<rbrakk> \<Longrightarrow>
     mux_step m (set_call i (Finished (Inl e)) (m\<lparr>mx_session := s, mx_begun := Suc (mx_begun m)\<rparr>))"
| begin_inserted:
    "\<lbrakk>next_request_id (mx_session m) = (Inr i, s);
      build_request_frames i q (se_max_payload s) = Inr frames\<rbrakk> \<Longrightarrow>
     mux_step m (set_call i (Inserted frames)
       (m\<lparr>mx_session := s\<lparr>se_pending := (se_pending s)(i \<mapsto> new_pending s q)\<rparr>,
          mx_begun := Suc (mx_begun m)\<rparr>))"
| check_open:
    "\<lbrakk>mx_calls m i = Some (Inserted frames); \<not> se_closed (mx_session m)\<rbrakk> \<Longrightarrow>
     mux_step m (set_call i (Checked frames) m)"
| check_closed:
    "\<lbrakk>mx_calls m i = Some (Inserted frames); se_closed (mx_session m)\<rbrakk> \<Longrightarrow>
     mux_step m (withdraw i (lost_transport m) m)"
| enqueue:
    "mx_calls m i = Some (Checked frames) \<Longrightarrow>
     mux_step m (set_call i Sent (m\<lparr>mx_sent := mx_sent m @ frames\<rparr>))"
| enqueue_refused:
    "mx_calls m i = Some (Checked frames) \<Longrightarrow> mux_step m (withdraw i (lost_transport m) m)"
| not_admitted:
    "\<lbrakk>mx_calls m i = Some ph; unsent ph\<rbrakk> \<Longrightarrow> mux_step m (withdraw i (abort_error m timed_out False) m)"
| seen_ready:
    "\<lbrakk>mx_calls m i = Some Sent; i \<in> se_ready (mx_session m)\<rbrakk> \<Longrightarrow> mux_step m (set_call i Started m)"
| answered:
    "\<lbrakk>mx_calls m i = Some ph; awaiting ph; se_answers (mx_session m) i = Some a\<rbrakk> \<Longrightarrow>
     mux_step m (set_call i (Finished a) m)"
| orphaned:
    "\<lbrakk>mx_calls m i = Some ph; awaiting ph; se_answers (mx_session m) i = None;
      se_pending (mx_session m) i = None\<rbrakk> \<Longrightarrow>
     mux_step m (set_call i (Finished (Inl (lost_transport m))) m)"
| abort_open:
    "\<lbrakk>mx_calls m i = Some ph; awaiting ph; \<not> se_closed (mx_session m)\<rbrakk> \<Longrightarrow>
     mux_step m (set_call i (Cancelling timed_out) m)"
| abort_closed:
    "\<lbrakk>mx_calls m i = Some ph; awaiting ph; se_closed (mx_session m)\<rbrakk> \<Longrightarrow>
     mux_step m (set_call i (Finished (Inl (abort_error m timed_out True))) (start_failure (lost_transport m) m))"
| cancel_sent:
    "mx_calls m i = Some (Cancelling timed_out) \<Longrightarrow>
     mux_step m (set_call i (Aborting timed_out) (m\<lparr>mx_sent := mx_sent m @ [cancel_frame i]\<rparr>))"
| cancel_undelivered:
    "mx_calls m i = Some (Cancelling timed_out) \<Longrightarrow>
     mux_step m (set_call i (Finished (Inl (abort_error m timed_out True))) (start_failure (lost_transport m) m))"
| abort_confirmed:
    "\<lbrakk>mx_calls m i = Some (Aborting timed_out); se_answers (mx_session m) i = Some (Inr a)\<rbrakk> \<Longrightarrow>
     mux_step m (set_call i (Finished (Inl (abort_error m timed_out (sa_may_continue a)))) m)"
| abort_answered_error:
    "\<lbrakk>mx_calls m i = Some (Aborting timed_out); se_answers (mx_session m) i = Some (Inl e)\<rbrakk> \<Longrightarrow>
     mux_step m (set_call i (Finished (Inl (abort_error m timed_out True))) m)"
| abort_silent:
    "mx_calls m i = Some (Aborting timed_out) \<Longrightarrow>
     mux_step m (set_call i (Finished (Inl (abort_error m timed_out True)))
       (start_failure (lost_transport m) (mark_retired m)))"
| drain:
    "mx_failing m = before @ e # later \<Longrightarrow>
     mux_step m (m\<lparr>mx_session := fail_all e (mx_session m), mx_failing := before @ later\<rparr>)"
| read_good_frame:
    "\<lbrakk>\<not> mx_reader_done m; dispatch_frame env frame (mx_session m) = (Inr (), s)\<rbrakk> \<Longrightarrow>
     mux_step m (m\<lparr>mx_session := s\<rparr>)"
| read_bad_frame:
    "\<lbrakk>\<not> mx_reader_done m; dispatch_frame env frame (mx_session m) = (Inl e, s)\<rbrakk> \<Longrightarrow>
     mux_step m (start_failure e (m\<lparr>mx_session := s, mx_reader_done := True\<rparr>))"
| read_end:
    "\<not> mx_reader_done m \<Longrightarrow> mux_step m (start_failure (lost_transport m) (m\<lparr>mx_reader_done := True\<rparr>))"
| read_error:
    "\<not> mx_reader_done m \<Longrightarrow>
     mux_step m (start_failure (session_protocol_error (se_host (mx_session m)) message)
                   (m\<lparr>mx_reader_done := True\<rparr>))"
| write_failed: "mux_step m (start_failure (lost_transport m) m)"
| child_exited:
    "\<not> se_closed (mx_session m) \<Longrightarrow> mux_step m (start_failure (lost_transport m) m)"
| shut_down:
    "\<lbrakk>\<not> se_closed (mx_session m); sent = [close_frame] \<or> sent = []\<rbrakk> \<Longrightarrow>
     mux_step m (start_failure (lost_transport m) (m\<lparr>mx_sent := mx_sent m @ sent\<rparr>))"
| retire_idle:
    "mux_step m (m\<lparr>mx_session := (mx_session m)\<lparr>se_retired := True, se_closed := True\<rparr>\<rparr>)"

section \<open>Reachable states\<close>

inductive mux_reachable :: "mux \<Rightarrow> bool" where
  start: "mux_reachable (new_mux (new_session host mode max_payload max_output_bytes))"
| step: "mux_reachable m \<Longrightarrow> mux_step m m' \<Longrightarrow> mux_reachable m'"

end
