(* ===== verification/Session_Properties.thy ===== *)
theory Session_Properties
  imports Session_Steps
begin

text \<open>
  The requests of one session: whatever the interleaving of its tasks, an answer reaches the call it
  is for, no call is left waiting once the reader has ended, no entry outlives its call in an
  open session, and a failed call only says that the remote process is gone when that is known.
\<close>

section \<open>What a frame does to one request\<close>

abbreviation may_continue_of :: "bridge_error \<Rightarrow> bool option" where
  "may_continue_of e \<equiv> ed_remote_process_may_continue (be_details e)"

text \<open>The answers a request can get: its own, or an error that leaves the remote process open.\<close>

definition own_answer :: "64 word \<Rightarrow> session_answer bridge_result \<Rightarrow> bool" where
  "own_answer i a =
     (case a of Inr x \<Rightarrow> sa_request_id x = i | Inl e \<Rightarrow> may_continue_of e \<noteq> Some False)"

definition entry_kept :: "session \<Rightarrow> session \<Rightarrow> 64 word \<Rightarrow> bool" where
  "entry_kept s s' i \<longleftrightarrow>
     se_answers s' i = se_answers s i \<and>
     map_option pr_sender (se_pending s' i) = map_option pr_sender (se_pending s i)"

definition entry_answered :: "session \<Rightarrow> session \<Rightarrow> 64 word \<Rightarrow> bool" where
  "entry_answered s s' i \<longleftrightarrow>
     (\<exists>p. se_pending s i = Some p \<and> se_pending s' i = None \<and>
          (if pr_sender p then \<exists>a. se_answers s' i = Some a \<and> own_answer i a
           else se_answers s' i = se_answers s i))"

definition entry_step :: "session \<Rightarrow> session \<Rightarrow> 64 word \<Rightarrow> bool" where
  "entry_step s s' i \<longleftrightarrow> entry_kept s s' i \<or> entry_answered s s' i"

definition same_session :: "session \<Rightarrow> session \<Rightarrow> bool" where
  "same_session s s' \<longleftrightarrow> se_host s' = se_host s \<and> se_next_id s' = se_next_id s \<and> se_closed s' = se_closed s"

lemmas entry_defs = entry_step_def entry_kept_def entry_answered_def same_session_def

lemma may_continue_errors [simp]:
  "ed_remote_process_may_continue default_details = None"
  "may_continue_of (new_error code message retryable) = None"
  "may_continue_of (session_protocol_error host message) = None"
  "may_continue_of (transport_error host b) = Some b"
  "may_continue_of (cancelled_error host b) = Some b"
  "may_continue_of (timeout_error host b) = Some b"
  by (simp_all add: new_error_def default_details_def session_protocol_error_def host_error_def transport_error_def
      cancelled_error_def timeout_error_def may_continue_error_def)

lemma may_continue_abort [simp]: "may_continue_of (abort_error m timed_out b) = Some b"
  by (simp add: abort_error_def)

lemma request_output_sender [simp]: "pr_sender (request_output env is_stdout payload p) = pr_sender p"
  by (simp add: request_output_def Let_def)

lemma answer_entry:
  assumes "se_pending s j = Some p" "own_answer j a"
  shows "same_session s (answer_with j p a (s\<lparr>se_pending := (se_pending s)(j := None)\<rparr>))"
    "entry_step s (answer_with j p a (s\<lparr>se_pending := (se_pending s)(j := None)\<rparr>)) i"
  using assms by (auto simp: answer_with_def entry_defs)

lemma update_entry:
  assumes "se_pending s j = Some p" "pr_sender p' = pr_sender p"
  shows "same_session s (s\<lparr>se_pending := (se_pending s)(j \<mapsto> p')\<rparr>)"
    "entry_step s (s\<lparr>se_pending := (se_pending s)(j \<mapsto> p'), se_ready := R\<rparr>) i"
    "entry_step s (s\<lparr>se_pending := (se_pending s)(j \<mapsto> p')\<rparr>) i"
  using assms by (auto simp: entry_defs)

lemma entry_refl [simp]: "same_session s s" "entry_step s s i"
  by (simp_all add: entry_defs)

lemma dispatch_frame_entry:
  assumes "dispatch_frame env f s = (r, s')"
  shows "same_session s s' \<and> entry_step s s' i"
proof (cases "fr_kind f")
  case Exit
  then show ?thesis
    using assms
    by (auto simp: dispatch_frame_def dispatch_exit_def own_answer_def exit_answer_def
        intro!: answer_entry split: sum.splits option.splits)
next
  case Error
  then show ?thesis
    using assms
    by (auto simp: dispatch_frame_def dispatch_error_def fail_request_def Let_def own_answer_def
        intro!: answer_entry split: option.splits if_splits)
next
  case Ready
  then show ?thesis
    using assms update_entry[of s "fr_request_id f"]
    by (auto simp: dispatch_frame_def dispatch_ready_def same_session_def split: option.splits if_splits)
qed (use assms in \<open>auto simp: dispatch_frame_def dispatch_output_def intro!: update_entry split: option.splits\<close>)

lemma dispatch_other:
  assumes "dispatch_frame env f s = (r, s')" "i \<noteq> fr_request_id f"
  shows "se_pending s' i = se_pending s i \<and> se_answers s' i = se_answers s i"
  using assms
  by (cases "fr_kind f") (auto simp: dispatch_frame_def dispatch_ready_def dispatch_output_def
      dispatch_exit_def dispatch_error_def fail_request_def answer_with_def Let_def
      split: option.splits sum.splits if_splits)

lemma dispatch_frame_error:
  assumes "dispatch_frame env f s = (Inl e, s')"
  shows "may_continue_of e \<noteq> Some False"
proof (cases "fr_kind f")
  case Error
  then show ?thesis
    using assms by (auto simp: dispatch_frame_def dispatch_error_def Let_def split: if_splits)
qed (use assms in \<open>auto simp: dispatch_frame_def dispatch_ready_def dispatch_output_def dispatch_exit_def
       unknown_request_def split: option.splits sum.splits if_splits\<close>)

lemma fail_all_entry:
  assumes "may_continue_of e \<noteq> Some False"
  shows "same_session s (fail_all e s)" "se_pending (fail_all e s) = Map.empty"
    "entry_step s (fail_all e s) i"
  using assms by (auto simp: fail_all_def entry_defs own_answer_def split: option.splits)

section \<open>Every frame of a request carries its identifier\<close>

lemma build_request_frames_ids:
  "build_request_frames i q n = Inr frames \<Longrightarrow> \<forall>f\<in>set frames. fr_request_id f = i"
  by (auto simp: build_request_frames_def build_job_request_frames_def build_command_request_frames_def
      build_search_request_frames_def bindR_def Let_def open_frame_def data_frame_def
      split: session_action.splits sum.splits if_splits)

section \<open>The invariant\<close>

text \<open>
  The two invariants speak of one request each: \<open>p\<close>, \<open>a\<close> and \<open>c\<close> are its entry, its answer and the phase
  of its call.
\<close>

definition no_frames :: "64 word \<Rightarrow> frame list \<Rightarrow> bool" where
  "no_frames i sent \<longleftrightarrow> i \<noteq> 0 \<longrightarrow> (\<forall>f\<in>set sent. fr_request_id f \<noteq> i)"

definition request_ok ::
  "bool \<Rightarrow> 64 word \<Rightarrow> pending_request option \<Rightarrow> session_answer bridge_result option \<Rightarrow> call_phase option \<Rightarrow> bool"
where
  "request_ok closed i p a c =
     (case c of
        None \<Rightarrow> p = None \<and> a = None
      | Some ph \<Rightarrow>
          (\<forall>q. p = Some q \<longrightarrow> pr_sender q \<and> a = None) \<and> (\<forall>x. a = Some x \<longrightarrow> own_answer i x) \<and>
          (finished ph \<or> p \<noteq> None \<or> a \<noteq> None) \<and> (finished ph \<and> p \<noteq> None \<longrightarrow> closed) \<and>
          (\<forall>x. ph = Finished (Inr x) \<longrightarrow> a = Some (Inr x)))"

fun frames_ok :: "64 word \<Rightarrow> frame list \<Rightarrow> session_answer bridge_result option \<Rightarrow> call_phase option \<Rightarrow> bool" where
  "frames_ok i sent a None = no_frames i sent"
| "frames_ok i sent a (Some (Inserted fs)) \<longleftrightarrow> no_frames i sent \<and> (\<forall>f\<in>set fs. fr_request_id f = i)"
| "frames_ok i sent a (Some (Checked fs)) \<longleftrightarrow> no_frames i sent \<and> (\<forall>f\<in>set fs. fr_request_id f = i)"
| "frames_ok i sent a (Some (Finished r)) \<longleftrightarrow>
     (\<forall>e. r = Inl e \<longrightarrow> may_continue_of e = Some False \<longrightarrow>
       no_frames i sent \<or> (\<exists>x. a = Some (Inr x) \<and> \<not> sa_may_continue x))"
| "frames_ok i sent a (Some _) = True"

definition ids_ok :: "mux \<Rightarrow> bool" where
  "ids_ok m \<longleftrightarrow>
     se_next_id (mx_session m) = of_nat (Suc (mx_begun m)) \<and>
     (\<forall>i ph. mx_calls m i = Some ph \<longrightarrow> 0 < unat i \<and> unat i \<le> mx_begun m)"

definition requests_ok :: "mux \<Rightarrow> bool" where
  "requests_ok m \<longleftrightarrow>
     (\<forall>e\<in>set (mx_failing m). may_continue_of e \<noteq> Some False) \<and>
     (\<forall>i. request_ok (se_closed (mx_session m)) i (se_pending (mx_session m) i)
            (se_answers (mx_session m) i) (mx_calls m i) \<and>
          frames_ok i (mx_sent m) (se_answers (mx_session m) i) (mx_calls m i))"

definition drained_ok :: "mux \<Rightarrow> bool" where
  "drained_ok m \<longleftrightarrow>
     (mx_reader_done m \<longrightarrow> se_closed (mx_session m) \<and>
        (mx_failing m = [] \<longrightarrow>
          (\<forall>i p. se_pending (mx_session m) i = Some p \<longrightarrow> (\<exists>fs. mx_calls m i = Some (Inserted fs)))))"

section \<open>Identifiers\<close>

lemma ids_begin:
  assumes "ids_ok m" "Suc (mx_begun m) < 2 ^ 64" "next_request_id (mx_session m) = (r, s)"
  shows "r = Inr (of_nat (Suc (mx_begun m)))" "s = (mx_session m)\<lparr>se_next_id := of_nat (Suc (Suc (mx_begun m)))\<rparr>"
    "mx_calls m (of_nat (Suc (mx_begun m))) = None" "(of_nat (Suc (mx_begun m)) :: 64 word) \<noteq> 0"
    "unat (of_nat (Suc (mx_begun m)) :: 64 word) = Suc (mx_begun m)"
proof -
  show u: "unat (of_nat (Suc (mx_begun m)) :: 64 word) = Suc (mx_begun m)"
    using assms(2) by (simp add: unat_of_nat take_bit_nat_eq_self del: of_nat_Suc)
  then show z: "(of_nat (Suc (mx_begun m)) :: 64 word) \<noteq> 0" by (metis nat.distinct(1) unat_0)
  have n: "se_next_id (mx_session m) = of_nat (Suc (mx_begun m))" using assms(1) by (simp add: ids_ok_def)
  show "r = Inr (of_nat (Suc (mx_begun m)))"
    "s = (mx_session m)\<lparr>se_next_id := of_nat (Suc (Suc (mx_begun m)))\<rparr>"
    using assms(3) n z by (auto simp: next_request_id_def Let_def simp del: of_nat_Suc split: if_splits)
      (simp add: algebra_simps)
  show "mx_calls m (of_nat (Suc (mx_begun m))) = None"
    using assms(1) u unfolding ids_ok_def by (metis Suc_n_not_le_n option.exhaust)
qed

lemma begun_mono: "mux_step m m' \<Longrightarrow> mx_begun m \<le> mx_begun m'"
  by (cases rule: mux_step.cases, assumption)
    (auto simp: set_call_def withdraw_def start_failure_def mark_retired_def)

lemmas call_defs = set_call_def withdraw_def start_failure_def mark_retired_def

lemma ids_ok_step:
  assumes "mux_step m m'" "ids_ok m" "mx_begun m' < 2 ^ 64"
  shows "ids_ok m'"
  using assms(1)
proof cases
  case (begin_exhausted e s)
  then show ?thesis using ids_begin(1)[OF assms(2)] assms(3) by auto
next
  case (begin_refused i s q e)
  then have b: "Suc (mx_begun m) < 2 ^ 64" using assms(3) by (simp add: set_call_def)
  note ids_begin[OF assms(2) b begin_refused(2)]
  with begin_refused assms(2) show ?thesis
    by (auto simp: set_call_def ids_ok_def le_Suc_eq simp del: of_nat_Suc)
next
  case (begin_inserted i s q frames)
  then have b: "Suc (mx_begun m) < 2 ^ 64" using assms(3) by (simp add: set_call_def)
  note ids_begin[OF assms(2) b begin_inserted(2)]
  with begin_inserted assms(2) show ?thesis
    by (auto simp: set_call_def ids_ok_def le_Suc_eq simp del: of_nat_Suc)
next
  case (read_good_frame env frame s)
  then show ?thesis
    using assms(2) dispatch_frame_entry[of env frame "mx_session m" "Inr ()" s]
    by (simp add: ids_ok_def same_session_def)
next
  case (read_bad_frame env frame e s)
  then show ?thesis
    using assms(2) dispatch_frame_entry[of env frame "mx_session m" "Inl e" s]
    by (simp add: ids_ok_def same_session_def start_failure_def)
qed (use assms(2) in \<open>auto simp: call_defs ids_ok_def fail_all_def\<close>)

section \<open>Requests\<close>

definition slot_ok :: "mux \<Rightarrow> 64 word \<Rightarrow> bool" where
  "slot_ok m i \<longleftrightarrow>
     request_ok (se_closed (mx_session m)) i (se_pending (mx_session m) i) (se_answers (mx_session m) i)
       (mx_calls m i) \<and>
     frames_ok i (mx_sent m) (se_answers (mx_session m) i) (mx_calls m i)"

lemma awaiting_unfinished [simp]: "awaiting ph \<Longrightarrow> \<not> finished ph"
  by (cases ph) auto

lemma requests_ok_slots:
  "requests_ok m \<longleftrightarrow> (\<forall>e\<in>set (mx_failing m). may_continue_of e \<noteq> Some False) \<and> (\<forall>i. slot_ok m i)"
  by (simp add: requests_ok_def slot_ok_def)

lemma slot_ok_entry:
  assumes "slot_ok m i" "entry_step (mx_session m) s i" "se_closed s = se_closed (mx_session m)"
    "mx_calls m' = mx_calls m" "mx_sent m' = mx_sent m" "mx_session m' = s"
  shows "slot_ok m' i"
proof (cases "mx_calls m i")
  case None
  then show ?thesis using assms by (auto simp: slot_ok_def request_ok_def entry_defs)
next
  case (Some ph)
  then show ?thesis
    using assms
    by (cases ph; cases "se_pending (mx_session m) i")
      (auto simp: slot_ok_def request_ok_def entry_defs split: if_splits)
qed

lemma slot_ok_closing:
  assumes "slot_ok m i" "mx_session m' = (mx_session m)\<lparr>se_closed := True, se_retired := b\<rparr>"
    "mx_calls m' = mx_calls m" "mx_sent m' = mx_sent m"
  shows "slot_ok m' i"
  using assms by (auto simp: slot_ok_def request_ok_def split: option.splits)

lemma no_frames_append [simp]:
  "no_frames i (xs @ ys) \<longleftrightarrow> no_frames i xs \<and> no_frames i ys"
  by (auto simp: no_frames_def)

lemma no_frames_other: "i \<noteq> j \<Longrightarrow> \<forall>f\<in>set fs. fr_request_id f = j \<Longrightarrow> no_frames i fs"
  by (auto simp: no_frames_def)

text \<open>A step of the call \<open>i\<close>: its own slot is checked, the others only see more frames of \<open>i\<close>.\<close>

definition same_other_slots :: "64 word \<Rightarrow> mux \<Rightarrow> mux \<Rightarrow> bool" where
  "same_other_slots i m m' \<longleftrightarrow>
     (\<forall>j. j \<noteq> i \<longrightarrow> se_pending (mx_session m') j = se_pending (mx_session m) j \<and>
        mx_calls m' j = mx_calls m j) \<and>
     se_answers (mx_session m') = se_answers (mx_session m) \<and>
     (se_closed (mx_session m) \<longrightarrow> se_closed (mx_session m')) \<and>
     (\<exists>fs. mx_sent m' = mx_sent m @ fs \<and> (\<forall>f\<in>set fs. fr_request_id f = i \<or> fr_request_id f = 0))"

lemma slot_ok_others:
  assumes "same_other_slots i m m'" "slot_ok m j" "j \<noteq> i"
  shows "slot_ok m' j"
proof -
  obtain fs where fs: "mx_sent m' = mx_sent m @ fs" "no_frames j fs"
    using assms(1,3) by (auto simp: same_other_slots_def no_frames_def)
  show ?thesis
  proof (cases "mx_calls m j")
    case None
    then show ?thesis using assms fs by (auto simp: slot_ok_def same_other_slots_def request_ok_def)
  next
    case (Some ph)
    then show ?thesis
      using assms fs by (cases ph) (auto simp: slot_ok_def same_other_slots_def request_ok_def)
  qed
qed

lemma requests_ok_call:
  assumes "requests_ok m" "same_other_slots i m m'" "slot_ok m' i"
    "\<forall>e\<in>set (mx_failing m'). e \<in> set (mx_failing m) \<or> may_continue_of e \<noteq> Some False"
  shows "requests_ok m'"
  using assms slot_ok_others unfolding requests_ok_slots by metis

lemma requests_ok_session:
  assumes "requests_ok m" "\<forall>i. entry_step (mx_session m) s i" "se_closed s = se_closed (mx_session m)"
    "mx_calls m' = mx_calls m" "mx_sent m' = mx_sent m" "mx_session m' = s"
    "\<forall>e\<in>set (mx_failing m'). e \<in> set (mx_failing m) \<or> may_continue_of e \<noteq> Some False"
  shows "requests_ok m'"
  using assms slot_ok_entry unfolding requests_ok_slots by metis

lemma request_ok_mono: "request_ok c i p a ph \<Longrightarrow> (c \<longrightarrow> c') \<Longrightarrow> request_ok c' i p a ph"
  by (auto simp: request_ok_def split: option.splits)

lemma frames_ok_zero:
  "frames_ok i sent a c \<Longrightarrow> \<forall>f\<in>set fs. fr_request_id f = 0 \<Longrightarrow> frames_ok i (sent @ fs) a c"
  by (cases "(i, sent, a, c)" rule: frames_ok.cases) (auto simp: no_frames_def)

lemma requests_ok_closing:
  assumes "requests_ok m" "se_pending (mx_session m') = se_pending (mx_session m)"
    "se_answers (mx_session m') = se_answers (mx_session m)" "mx_calls m' = mx_calls m"
    "mx_sent m' = mx_sent m @ fs" "\<forall>f\<in>set fs. fr_request_id f = 0"
    "se_closed (mx_session m) \<longrightarrow> se_closed (mx_session m')"
    "\<forall>e\<in>set (mx_failing m'). e \<in> set (mx_failing m) \<or> may_continue_of e \<noteq> Some False"
  shows "requests_ok m'"
  using assms unfolding requests_ok_def by (auto intro: request_ok_mono frames_ok_zero)

lemma requests_ok_failure:
  "requests_ok m \<Longrightarrow> may_continue_of e \<noteq> Some False \<Longrightarrow> requests_ok (start_failure e m)"
  by (rule requests_ok_closing [where fs = "[]"]) (auto simp: start_failure_def)

lemma lost_transport_may_continue [simp]: "may_continue_of (lost_transport m) = Some True"
  by (simp add: lost_transport_def)

lemma requests_ok_phase:
  assumes "requests_ok m" "slot_ok (set_call i ph m) i"
  shows "requests_ok (set_call i ph m)"
  by (rule requests_ok_call [OF assms(1) _ assms(2)])
    (use assms(1) in \<open>auto simp: set_call_def same_other_slots_def requests_ok_slots\<close>)

lemma requests_ok_withdraw:
  assumes "requests_ok m" "mx_calls m i = Some ph" "unsent ph"
  shows "requests_ok (withdraw i e m)"
proof -
  have "slot_ok m i" using assms(1) by (simp add: requests_ok_slots)
  then have ok: "slot_ok (withdraw i e m) i"
    using assms(2,3) by (cases ph) (auto simp: withdraw_def set_call_def slot_ok_def request_ok_def)
  show ?thesis
    by (rule requests_ok_call [OF assms(1) _ ok])
      (use assms(1) in \<open>auto simp: withdraw_def set_call_def same_other_slots_def requests_ok_slots\<close>)
qed

text \<open>A call that is past its admission keeps its slot; what it returns is checked against its answer.\<close>

lemma slot_ok_phase:
  assumes "slot_ok m i" "mx_calls m i = Some ph" "\<not> finished ph"
  shows "\<not> finished ph' \<Longrightarrow> \<not> unsent ph' \<Longrightarrow> slot_ok (set_call i ph' m) i"
    "may_continue_of e \<noteq> Some False \<Longrightarrow> se_closed (mx_session m) \<or> se_pending (mx_session m) i = None \<or>
       se_answers (mx_session m) i \<noteq> None \<Longrightarrow> slot_ok (set_call i (Finished (Inl e)) m) i"
    "se_answers (mx_session m) i = Some (Inr a) \<Longrightarrow> slot_ok (set_call i (Finished (Inr a)) m) i"
    "se_answers (mx_session m) i = Some (Inr a) \<Longrightarrow> may_continue_of e = Some (sa_may_continue a) \<Longrightarrow>
       slot_ok (set_call i (Finished (Inl e)) m) i"
proof -
  show "slot_ok (set_call i ph' m) i" if "\<not> finished ph'" "\<not> unsent ph'"
    using assms that by (cases ph') (auto simp: set_call_def slot_ok_def request_ok_def)
qed (use assms in \<open>auto simp: set_call_def slot_ok_def request_ok_def\<close>)

lemma slot_m: "requests_ok m \<Longrightarrow> slot_ok m i"
  by (simp add: requests_ok_slots)

lemma requests_ok_answered:
  assumes "requests_ok m" "mx_calls m i = Some ph" "awaiting ph" "se_answers (mx_session m) i = Some a"
  shows "requests_ok (set_call i (Finished a) m)"
proof (rule requests_ok_phase [OF assms(1)])
  have "\<not> finished ph" using assms(3) by (cases ph) auto
  with assms show "slot_ok (set_call i (Finished a) m) i"
    using slot_m[OF assms(1), of i]
    by (cases a) (auto simp: slot_ok_def request_ok_def own_answer_def set_call_def)
qed

lemma requests_ok_retired: "requests_ok m \<Longrightarrow> requests_ok (mark_retired m)"
  by (rule requests_ok_closing [where fs = "[]"]) (auto simp: mark_retired_def)

lemma requests_ok_abort:
  assumes "requests_ok m" "mx_calls m i = Some ph" "\<not> finished ph" "may_continue_of e \<noteq> Some False"
  shows "requests_ok (set_call i (Finished (Inl e)) (start_failure (lost_transport m') m))"
proof -
  let ?m = "start_failure (lost_transport m') m"
  have ok: "requests_ok ?m" by (rule requests_ok_failure [OF assms(1)]) simp
  have "mx_calls ?m i = Some ph" "se_closed (mx_session ?m)"
    using assms(2) by (simp_all add: start_failure_def)
  then show ?thesis
    using ok slot_m[OF ok] assms(3,4) by (auto intro!: requests_ok_phase slot_ok_phase(2))
qed

lemma requests_ok_begin:
  assumes "requests_ok m" "mx_calls m i = None"
    and eq: "mx_calls m' = (mx_calls m)(i \<mapsto> ph)" "mx_sent m' = mx_sent m" "mx_failing m' = mx_failing m"
      "se_answers (mx_session m') = se_answers (mx_session m)"
      "se_closed (mx_session m') = se_closed (mx_session m)"
      "se_pending (mx_session m') = (se_pending (mx_session m))(i := p)"
    and ph: "(\<exists>e. ph = Finished (Inl e) \<and> p = None) \<or>
      (\<exists>fs q. ph = Inserted fs \<and> (\<forall>f\<in>set fs. fr_request_id f = i) \<and> p = Some q \<and> pr_sender q)"
  shows "requests_ok m'"
proof (rule requests_ok_call [OF assms(1)])
  show "same_other_slots i m m'" using eq by (simp add: same_other_slots_def)
  show "slot_ok m' i"
    using slot_m[OF assms(1), of i] assms(2) eq ph by (auto simp: slot_ok_def request_ok_def)
qed (use assms(1) eq in \<open>simp add: requests_ok_slots\<close>)

lemma requests_ok_step:
  assumes "mux_step m m'" "ids_ok m" "mx_begun m' < 2 ^ 64" "requests_ok m"
  shows "requests_ok m'"
  using assms(1)
proof cases
  case (begin_refused i s q e)
  have b: "Suc (mx_begun m) < 2 ^ 64" using assms(3) begin_refused by (simp add: set_call_def)
  note ids = ids_begin[OF assms(2) b begin_refused(2)]
  then have i: "mx_calls m i = None" by simp
  have p: "se_pending (mx_session m) i = None"
    using slot_m[OF assms(4), of i] i by (simp add: slot_ok_def request_ok_def)
  show ?thesis
    by (rule requests_ok_begin [OF assms(4) i, where ph = "Finished (Inl e)" and p = None])
      (use ids(2) begin_refused p in \<open>auto simp: set_call_def\<close>)
next
  case (begin_inserted i s q frames)
  have b: "Suc (mx_begun m) < 2 ^ 64" using assms(3) begin_inserted by (simp add: set_call_def)
  note ids = ids_begin[OF assms(2) b begin_inserted(2)]
  then have i: "mx_calls m i = None" by simp
  show ?thesis
    by (rule requests_ok_begin [OF assms(4) i, where ph = "Inserted frames" and p = "Some (new_pending s q)"])
      (use ids(2) begin_inserted build_request_frames_ids[OF begin_inserted(3)] in
        \<open>auto simp: set_call_def new_pending_def\<close>)
next
  case (drain before e later)
  then have e: "may_continue_of e \<noteq> Some False" using assms(4) by (simp add: requests_ok_slots)
  show ?thesis
    using drain assms(4) fail_all_entry[OF e, of "mx_session m"]
    by (auto intro!: requests_ok_session [OF assms(4), of "fail_all e (mx_session m)"] simp: same_session_def)
next
  case (read_good_frame env frame s)
  then show ?thesis
    using assms(4) dispatch_frame_entry[OF read_good_frame(3)]
    by (auto intro!: requests_ok_session [OF assms(4), of s] simp: same_session_def)
next
  case (read_bad_frame env frame e s)
  then have "requests_ok (m\<lparr>mx_session := s, mx_reader_done := True\<rparr>)"
    using assms(4) dispatch_frame_entry[OF read_bad_frame(3)]
    by (auto intro!: requests_ok_session [OF assms(4), of s] simp: same_session_def)
  then show ?thesis
    using read_bad_frame dispatch_frame_error[OF read_bad_frame(3)] by (simp add: requests_ok_failure)
next
  case begin_exhausted
  then show ?thesis using ids_begin(1)[OF assms(2)] assms(3) by auto
next
  case (check_open i frames)
  then have "slot_ok (set_call i (Checked frames) m) i"
    using slot_m[OF assms(4), of i] by (auto simp: set_call_def slot_ok_def request_ok_def)
  then show ?thesis using check_open(1) assms(4) by (simp add: requests_ok_phase)
next
  case (enqueue i frames)
  then show ?thesis
    using slot_m[OF assms(4), of i] assms(4)
    by (intro requests_ok_call [OF assms(4), of i])
      (auto simp: set_call_def same_other_slots_def slot_ok_def request_ok_def requests_ok_slots)
next
  case (cancel_sent i timed_out)
  then show ?thesis
    using slot_m[OF assms(4), of i] assms(4)
    by (intro requests_ok_call [OF assms(4), of i])
      (auto simp: set_call_def same_other_slots_def slot_ok_def request_ok_def requests_ok_slots cancel_frame_def)
next
  case (check_closed i frames)
  then show ?thesis using assms(4) by (simp add: requests_ok_withdraw)
next
  case (enqueue_refused i frames)
  then show ?thesis using assms(4) by (simp add: requests_ok_withdraw)
next
  case (not_admitted i ph timed_out)
  then show ?thesis using assms(4) by (simp add: requests_ok_withdraw)
next
  case (seen_ready i)
  then show ?thesis using assms(4) slot_m by (auto intro!: requests_ok_phase slot_ok_phase(1))
next
  case (answered i ph a)
  then show ?thesis using assms(4) by (simp add: requests_ok_answered)
next
  case (orphaned i ph)
  then show ?thesis using slot_m[OF assms(4), of i] by (auto simp: slot_ok_def request_ok_def)
next
  case (abort_open i ph timed_out)
  then show ?thesis using assms(4) slot_m by (auto intro!: requests_ok_phase slot_ok_phase(1) elim: awaiting.elims)
next
  case (abort_closed i ph timed_out)
  then show ?thesis using assms(4) by (auto intro!: requests_ok_abort elim: awaiting.elims)
next
  case (cancel_undelivered i timed_out)
  then show ?thesis using assms(4) by (auto intro!: requests_ok_abort)
next
  case (abort_confirmed i timed_out a)
  then show ?thesis using assms(4) slot_m by (auto intro!: requests_ok_phase slot_ok_phase(4))
next
  case (abort_answered_error i timed_out e)
  then show ?thesis using assms(4) slot_m by (auto intro!: requests_ok_phase slot_ok_phase(2))
next
  case (abort_silent i timed_out)
  then have "mx_calls (mark_retired m) i = Some (Aborting timed_out)" by (simp add: mark_retired_def)
  from requests_ok_abort [OF requests_ok_retired [OF assms(4)] this] show ?thesis
    using abort_silent(1) by simp
qed (use assms(4) in \<open>auto intro!: requests_ok_closing [OF assms(4)] simp: start_failure_def close_frame_def\<close>)

section \<open>Drained sessions\<close>

lemma drained_ok_step:
  assumes "mux_step m m'" "ids_ok m" "mx_begun m' < 2 ^ 64" "requests_ok m" "drained_ok m"
  shows "drained_ok m'"
  using assms(1)
proof cases
  case (begin_exhausted e s)
  then show ?thesis
    using assms(5) by (auto simp: drained_ok_def next_request_id_def Let_def split: if_splits)
next
  case (begin_refused i s q e)
  have b: "Suc (mx_begun m) < 2 ^ 64" using assms(3) begin_refused by (simp add: set_call_def)
  have "mx_calls m i = None" using ids_begin(1,3)[OF assms(2) b begin_refused(2)] by simp
  then have "se_pending (mx_session m) i = None"
    using slot_m[OF assms(4), of i] by (simp add: slot_ok_def request_ok_def)
  with begin_refused show ?thesis
    using assms(5) by (auto simp: drained_ok_def next_request_id_def Let_def call_defs split: if_splits)
next
  case (begin_inserted i s q frames)
  then show ?thesis
    using assms(5) by (auto simp: drained_ok_def next_request_id_def Let_def call_defs split: if_splits)
next
  case (abort_confirmed i timed_out a)
  then show ?thesis using assms(5) by (fastforce simp: drained_ok_def call_defs)
next
  case (answered i ph a)
  then have "\<nexists>fs. mx_calls m i = Some (Inserted fs)" by auto
  then show ?thesis using answered assms(5) by (fastforce simp: drained_ok_def call_defs)
next
  case (read_good_frame env frame s)
  then show ?thesis using assms(5) by (simp add: drained_ok_def)
qed (use assms(5) in \<open>auto simp: drained_ok_def call_defs fail_all_def split: if_splits\<close>)

section \<open>Every reachable state\<close>

lemma reachable_ok:
  assumes "mux_reachable m" "mx_begun m < 2 ^ 64"
  shows "ids_ok m \<and> requests_ok m \<and> drained_ok m"
  using assms
proof (induction rule: mux_reachable.induct)
  case (start host mode max_payload max_output_bytes)
  show ?case
    by (simp add: ids_ok_def requests_ok_def drained_ok_def new_mux_def new_session_def request_ok_def
        no_frames_def)
next
  case (step m m')
  then have "ids_ok m" "requests_ok m" "drained_ok m" using begun_mono by fastforce+
  then show ?case using step ids_ok_step requests_ok_step drained_ok_step by blast
qed

text \<open>A run: a job request is handed over, the remote end closes, and the drain answers it.\<close>

definition mux_demo_request :: session_request where
  "mux_demo_request = \<lparr>sq_action = Job_Action ''{}'', sq_env = [], sq_timeout_ms = 5, sq_admission_deadline = 9,
     sq_response_timeout = 9, sq_stdout_limit = 10, sq_stderr_limit = 10, sq_output = False\<rparr>"

definition mux_demo_session :: session where
  "mux_demo_session = new_session ''h'' Shell_Mode 100 100"

lemma mux_demo_frames:
  "build_request_frames 1 mux_demo_request 100 =
     Inr [open_frame 1 (''operation=job'' @ [LF] @ ''request_length=2'' @ [LF]), data_frame 1 ''{}'']"
  by code_simp

definition mux_demo_begun :: mux where
  "mux_demo_begun = (let frames = (case build_request_frames 1 mux_demo_request 100 of Inr fs \<Rightarrow> fs) in
     set_call 1 (Inserted frames)
       ((new_mux mux_demo_session)\<lparr>mx_session := mux_demo_session\<lparr>se_next_id := 2,
          se_pending := [1 \<mapsto> new_pending mux_demo_session mux_demo_request]\<rparr>, mx_begun := 1\<rparr>))"

lemma mux_demo_begun_reachable: "mux_reachable mux_demo_begun"
proof (rule mux_reachable.step)
  show "mux_reachable (new_mux mux_demo_session)" unfolding mux_demo_session_def by (rule mux_reachable.start)
  have id: "next_request_id (mx_session (new_mux mux_demo_session)) = (Inr 1, mux_demo_session\<lparr>se_next_id := 2\<rparr>)"
    by (simp add: next_request_id_def new_mux_def mux_demo_session_def new_session_def)
  have "build_request_frames 1 mux_demo_request (se_max_payload (mux_demo_session\<lparr>se_next_id := 2\<rparr>)) =
     build_request_frames 1 mux_demo_request 100"
    by (simp add: mux_demo_session_def new_session_def)
  then show "mux_step (new_mux mux_demo_session) mux_demo_begun"
    using mux_step.begin_inserted [OF id, of mux_demo_request] mux_demo_frames
    by (simp add: mux_demo_begun_def new_mux_def mux_demo_session_def new_session_def new_pending_def)
qed

definition mux_demo_sent :: mux where
  "mux_demo_sent = (let frames = (case mx_calls mux_demo_begun 1 of Some (Inserted fs) \<Rightarrow> fs) in
     set_call 1 Sent (set_call 1 (Checked frames) mux_demo_begun\<lparr>mx_sent := frames\<rparr>))"

definition mux_demo_exit_frame :: frame where
  "mux_demo_exit_frame = \<lparr>fr_kind = Exit, fr_request_id = 1,
     fr_payload = ''0'' @ [LF] @ ''0'' @ [LF] @ ''0'' @ [LF] @ ''0'' @ [LF] @ ''0'' @ [LF]\<rparr>"

definition mux_demo_env :: dispatch_env where
  "mux_demo_env = \<lparr>de_accepts = 1, de_stdout_failed = False, de_stderr_failed = False, de_elapsed_ms = 4\<rparr>"

definition mux_demo_answer :: session_answer where
  "mux_demo_answer = \<lparr>sa_request_id = 1, sa_status = 0, sa_stdout = [], sa_stderr = [],
     sa_stdout_truncated = False, sa_stderr_truncated = False, sa_elapsed_ms = 4, sa_may_continue = False,
     sa_timed_out = False\<rparr>"

definition mux_demo_answered :: mux where
  "mux_demo_answered = set_call 1 (Finished (Inr mux_demo_answer))
     (mux_demo_sent\<lparr>mx_session := snd (dispatch_frame mux_demo_env mux_demo_exit_frame (mx_session mux_demo_sent))\<rparr>)"

definition mux_demo_drained :: mux where
  "mux_demo_drained = (let m = start_failure (lost_transport mux_demo_sent) (mux_demo_sent\<lparr>mx_reader_done := True\<rparr>) in
     m\<lparr>mx_session := fail_all (lost_transport mux_demo_sent) (mx_session m), mx_failing := []\<rparr>)"

definition mux_demo_withdrawn :: mux where
  "mux_demo_withdrawn = withdraw 1 (abort_error mux_demo_begun False False) mux_demo_begun"

lemma mux_demo_call: "\<exists>frames. mx_calls mux_demo_begun 1 = Some (Inserted frames)"
  by (simp add: mux_demo_begun_def set_call_def Let_def)

lemma mux_demo_sent_reachable: "mux_reachable mux_demo_sent"
proof -
  obtain frames where f: "mx_calls mux_demo_begun 1 = Some (Inserted frames)" using mux_demo_call by blast
  have o: "\<not> se_closed (mx_session mux_demo_begun)" "mx_sent mux_demo_begun = []" by code_simp+
  have "mux_reachable (set_call 1 (Checked frames) mux_demo_begun)"
    by (rule mux_reachable.step [OF mux_demo_begun_reachable mux_step.check_open [OF f o(1)]])
  moreover have "mx_calls (set_call 1 (Checked frames) mux_demo_begun) 1 = Some (Checked frames)"
    by (simp add: set_call_def)
  ultimately have "mux_reachable (set_call 1 Sent (set_call 1 (Checked frames) mux_demo_begun
      \<lparr>mx_sent := mx_sent (set_call 1 (Checked frames) mux_demo_begun) @ frames\<rparr>))"
    using mux_reachable.step mux_step.enqueue by blast
  then show ?thesis using f o(2) by (simp add: mux_demo_sent_def Let_def set_call_def)
qed

lemma mux_demo_answered_reachable: "mux_reachable mux_demo_answered"
proof -
  let ?s = "snd (dispatch_frame mux_demo_env mux_demo_exit_frame (mx_session mux_demo_sent))"
  have "fst (dispatch_frame mux_demo_env mux_demo_exit_frame (mx_session mux_demo_sent)) = Inr ()" by code_simp
  then have d: "dispatch_frame mux_demo_env mux_demo_exit_frame (mx_session mux_demo_sent) = (Inr (), ?s)"
    by (metis prod.collapse)
  have "\<not> mx_reader_done mux_demo_sent" by code_simp
  then have r: "mux_reachable (mux_demo_sent\<lparr>mx_session := ?s\<rparr>)"
    by (rule mux_reachable.step [OF mux_demo_sent_reachable mux_step.read_good_frame [OF _ d]])
  have a: "se_answers ?s 1 = Some (Inr mux_demo_answer)" "mx_calls mux_demo_sent 1 = Some Sent" by code_simp+
  have "mux_step (mux_demo_sent\<lparr>mx_session := ?s\<rparr>) (set_call 1 (Finished (Inr mux_demo_answer)) (mux_demo_sent\<lparr>mx_session := ?s\<rparr>))"
    by (rule mux_step.answered [where ph = Sent]) (use a in simp_all)
  then show ?thesis unfolding mux_demo_answered_def by (rule mux_reachable.step [OF r])
qed

lemma mux_demo_answered_begun: "mx_begun mux_demo_answered < 2 ^ 64"
  by code_simp

lemma mux_demo_answered_call: "mx_calls mux_demo_answered 1 = Some (Finished (Inr mux_demo_answer))"
  by (simp add: mux_demo_answered_def set_call_def)

lemma mux_demo_drained_reachable: "mux_reachable mux_demo_drained"
proof -
  let ?m = "start_failure (lost_transport mux_demo_sent) (mux_demo_sent\<lparr>mx_reader_done := True\<rparr>)"
  have "\<not> mx_reader_done mux_demo_sent" by code_simp
  then have r: "mux_reachable ?m"
    by (rule mux_reachable.step [OF mux_demo_sent_reachable mux_step.read_end])
  have "mx_failing mux_demo_sent = []" by code_simp
  then have "mx_failing ?m = [] @ lost_transport mux_demo_sent # []" by (simp add: start_failure_def)
  from mux_reachable.step [OF r mux_step.drain [OF this]] show ?thesis
    by (simp add: mux_demo_drained_def Let_def)
qed

lemma mux_demo_withdrawn_reachable: "mux_reachable mux_demo_withdrawn"
proof -
  obtain frames where f: "mx_calls mux_demo_begun 1 = Some (Inserted frames)" using mux_demo_call by blast
  show ?thesis unfolding mux_demo_withdrawn_def
    by (rule mux_reachable.step [OF mux_demo_begun_reachable mux_step.not_admitted [OF f]]) simp
qed

section \<open>Properties\<close>

text \<open>C4: A frame of one request changes nothing for the others, and a call that returns a result
  returns the one answer of the request it opened; while the session is open, an entry of the
  table belongs to a call that has not returned.\<close>

theorem session_requests_isolated:
  assumes "mux_reachable m" "mx_begun m < 2 ^ 64"
  shows "(mx_calls m i = Some (Finished (Inr a)) \<longrightarrow>
      sa_request_id a = i \<and> se_answers (mx_session m) i = Some (Inr a) \<and> se_pending (mx_session m) i = None) \<and>
    (\<not> se_closed (mx_session m) \<and> se_pending (mx_session m) i = Some p \<longrightarrow>
      (\<exists>ph. mx_calls m i = Some ph \<and> \<not> finished ph) \<and> se_answers (mx_session m) i = None) \<and>
    (dispatch_frame env f (mx_session m) = (r, s) \<and> i \<noteq> fr_request_id f \<longrightarrow>
      se_pending s i = se_pending (mx_session m) i \<and> se_answers s i = se_answers (mx_session m) i)"
proof -
  have ok: "slot_ok m i" using reachable_ok[OF assms] slot_m by blast
  then have "mx_calls m i = Some (Finished (Inr a)) \<longrightarrow>
      sa_request_id a = i \<and> se_answers (mx_session m) i = Some (Inr a) \<and> se_pending (mx_session m) i = None"
    by (auto simp: slot_ok_def request_ok_def own_answer_def)
  moreover have "\<not> se_closed (mx_session m) \<and> se_pending (mx_session m) i = Some p \<longrightarrow>
      (\<exists>ph. mx_calls m i = Some ph \<and> \<not> finished ph) \<and> se_answers (mx_session m) i = None"
    using ok by (cases "mx_calls m i") (auto simp: slot_ok_def request_ok_def)
  ultimately show ?thesis using dispatch_other by blast
qed

theorem session_requests_isolated_witness:
  "mx_calls mux_demo_answered 1 \<noteq> None \<and> se_pending (mx_session mux_demo_answered) 1 = None"
  using session_requests_isolated [OF mux_demo_answered_reachable mux_demo_answered_begun, of 1 mux_demo_answer]
    mux_demo_answered_call by simp

text \<open>C5: Once the reader has ended and the drains it and the others started are through, no call waits
  for the remote end: each has its answer, or has not been handed over and finds the session closed.\<close>

theorem closed_session_answers_all:
  assumes "mux_reachable m" "mx_begun m < 2 ^ 64" "mx_reader_done m" "mx_failing m = []"
    "mx_calls m i = Some ph" "\<not> finished ph"
  shows "se_closed (mx_session m) \<and>
    ((\<exists>fs. ph = Inserted fs) \<or> (\<exists>a. se_answers (mx_session m) i = Some a))"
proof -
  have ok: "slot_ok m i" "drained_ok m" using reachable_ok[OF assms(1,2)] slot_m by blast+
  show ?thesis
  proof (cases "se_pending (mx_session m) i")
    case None
    then show ?thesis using ok assms(3-6) by (auto simp: slot_ok_def request_ok_def drained_ok_def)
  next
    case (Some p)
    then have "\<exists>fs. mx_calls m i = Some (Inserted fs)" using ok(2) assms(3,4) by (auto simp: drained_ok_def)
    then show ?thesis using ok(2) assms(3-5) by (auto simp: drained_ok_def)
  qed
qed

theorem closed_session_answers_all_witness: "se_answers (mx_session mux_demo_drained) 1 \<noteq> None"
proof -
  have "mx_begun mux_demo_drained < 2 ^ 64" "mx_reader_done mux_demo_drained" "mx_failing mux_demo_drained = []"
    "mx_calls mux_demo_drained 1 = Some Sent" by code_simp+
  from closed_session_answers_all [OF mux_demo_drained_reachable this] show ?thesis by auto
qed

text \<open>C6: A call whose error says that no remote process is left either handed nothing to the writer, or
  the remote end answered its request and said so.\<close>

theorem remote_process_gone_is_known:
  assumes "mux_reachable m" "mx_begun m < 2 ^ 64" "mx_calls m i = Some (Finished (Inl e))"
    "ed_remote_process_may_continue (be_details e) = Some False"
  shows "(\<forall>f\<in>set (mx_sent m). fr_request_id f \<noteq> i) \<or>
    (\<exists>a. se_answers (mx_session m) i = Some (Inr a) \<and> sa_request_id a = i \<and> \<not> sa_may_continue a)"
proof -
  have ok: "slot_ok m i" "ids_ok m" using reachable_ok[OF assms(1,2)] slot_m by blast+
  have "i \<noteq> 0" using ok(2) assms(3) by (auto simp: ids_ok_def)
  then show ?thesis
    using ok(1) assms(3,4) by (auto simp: slot_ok_def request_ok_def own_answer_def no_frames_def)
qed

theorem remote_process_gone_is_known_witness:
  "filter (\<lambda>f. fr_request_id f = 1) (mx_sent mux_demo_withdrawn) = []"
proof -
  have c: "mx_calls mux_demo_withdrawn 1 = Some (Finished (Inl (cancelled_error ''h'' False)))" by code_simp
  have d: "mx_begun mux_demo_withdrawn < 2 ^ 64" "se_answers (mx_session mux_demo_withdrawn) 1 = None" by code_simp+
  have "ed_remote_process_may_continue (be_details (cancelled_error ''h'' False)) = Some False" by code_simp
  from remote_process_gone_is_known [OF mux_demo_withdrawn_reachable d(1) c this] d(2) show ?thesis by (auto simp: filter_empty_conv)
qed

end
