(* ===== verification/Helper_Search.thy ===== *)
theory Helper_Search
  imports Bridge_Prelude
begin

text \<open>
  The search of one file by the remote helper (\<open>search_file\<close> and what it calls in
  \<open>src/remote_helper.rs\<close>).  The file arrives in buffers, a line may span many of them, and what is kept
  of a line is bounded.  The functions of the \<open>memchr\<close> crate are parameters: \<open>finder\<close> finds the query,
  \<open>newlines\<close> lists the positions of the newlines, \<open>nul_at\<close> finds a NUL.  Each round of the reading loop
  is one event.  The scratch buffer for the boundary is built anew at each use and is not kept.
\<close>

section \<open>State\<close>

record found_match =
  fm_line :: nat
  fm_column :: nat
  fm_content :: string

record file_search_outcome =
  so_matches :: "found_match list"
  so_output_truncated :: bool
  so_timed_out :: bool

record search_state =
  st_matches :: "found_match list"
  st_line :: string
  st_line_bytes :: nat
  st_first_column :: "nat option"
  st_overlap :: string
  st_line_number :: nat
  st_retained :: nat
  st_truncated :: bool

definition search_start :: search_state where
  "search_start =
     \<lparr>st_matches = [], st_line = [], st_line_bytes = 0, st_first_column = None, st_overlap = [],
      st_line_number = 1, st_retained = 0, st_truncated = False\<rparr>"

section \<open>One segment of a line\<close>

definition boundary_column ::
  "(string \<Rightarrow> nat option) \<Rightarrow> nat \<Rightarrow> string \<Rightarrow> string \<Rightarrow> nat \<Rightarrow> nat option"
where
  "boundary_column finder query_length overlap segment line_bytes =
     (if overlap = [] then None
      else
        (case finder (overlap @ take (min (length segment) (saturating_sub query_length 1)) segment) of
           Some index \<Rightarrow>
             if index < length overlap \<and> length overlap < saturating_add index query_length then
               Some (saturating_add (saturating_add (saturating_sub line_bytes (length overlap)) index) 1)
             else None
         | None \<Rightarrow> None))"

definition next_overlap :: "nat \<Rightarrow> string \<Rightarrow> string \<Rightarrow> string" where
  "next_overlap query_length overlap segment =
     (let overlap_limit = saturating_sub query_length 1 in
      if overlap_limit \<le> length segment then drop (saturating_sub (length segment) overlap_limit) segment
      else
        (let excess = saturating_sub (saturating_add (length overlap) (length segment)) overlap_limit in
         drop excess overlap @ segment))"

definition scan_search_segment ::
  "(string \<Rightarrow> nat option) \<Rightarrow> nat \<Rightarrow> nat \<Rightarrow> string \<Rightarrow> search_state \<Rightarrow> search_state"
where
  "scan_search_segment finder query_length line_content_budget segment st =
     (let retained = saturating_sub line_content_budget (length (st_line st));
          st1 = st\<lparr>st_line := st_line st @ take (min (length segment) retained) segment\<rparr>;
          column =
            (case st_first_column st1 of
               Some c \<Rightarrow> Some c
             | None \<Rightarrow>
                 (case boundary_column finder query_length (st_overlap st1) segment (st_line_bytes st1) of
                    Some c \<Rightarrow> Some c
                  | None \<Rightarrow>
                      map_option (\<lambda>index. saturating_add (saturating_add (st_line_bytes st1) index) 1)
                        (finder segment)));
          st2 = st1\<lparr>st_first_column := column,
                    st_line_bytes := saturating_add (st_line_bytes st1) (length segment)\<rparr>
      in if column \<noteq> None then st2\<lparr>st_overlap := []\<rparr>
         else st2\<lparr>st_overlap := next_overlap query_length (st_overlap st2) segment\<rparr>)"

definition finish_search_line :: "nat \<Rightarrow> nat \<Rightarrow> search_state \<Rightarrow> search_state" where
  "finish_search_line content_budget max_results st =
     (case st_first_column st of
        None \<Rightarrow> st
      | Some column \<Rightarrow>
          if max_results \<le> length (st_matches st) then st
          else if saturating_sub content_budget (st_retained st) < st_line_bytes st then
            st\<lparr>st_truncated := True\<rparr>
          else
            st\<lparr>st_retained := saturating_add (st_retained st) (st_line_bytes st),
               st_matches := st_matches st @
                 [\<lparr>fm_line = st_line_number st, fm_column = column, fm_content = st_line st\<rparr>]\<rparr>)"

section \<open>A file\<close>

record search_params =
  sp_finder :: "string \<Rightarrow> nat option"
  sp_newlines :: "string \<Rightarrow> nat list"
  sp_nul_at :: "string \<Rightarrow> nat option"
  sp_query :: string
  sp_binary :: bool
  sp_max_results :: nat
  sp_content_budget :: nat

datatype read_event = Cancel_Seen | Deadline_Passed | Read_Failed | Read_Buffer string

definition budget_left :: "search_params \<Rightarrow> search_state \<Rightarrow> nat" where
  "budget_left sp st = saturating_sub (min (sp_content_budget sp) u32_max) (st_retained st)"

definition scan :: "search_params \<Rightarrow> string \<Rightarrow> search_state \<Rightarrow> search_state" where
  "scan sp segment st =
     scan_search_segment (sp_finder sp) (length (sp_query sp)) (budget_left sp st) segment st"

definition finish :: "search_params \<Rightarrow> search_state \<Rightarrow> search_state" where
  "finish sp st = finish_search_line (min (sp_content_budget sp) u32_max) (sp_max_results sp) st"

definition binary_stop :: "search_params \<Rightarrow> search_state \<Rightarrow> bool" where
  "binary_stop sp st \<longleftrightarrow> sp_binary sp \<and> (sp_max_results sp \<le> length (st_matches st) \<or> st_truncated st)"

definition new_line :: "search_state \<Rightarrow> search_state" where
  "new_line st =
     st\<lparr>st_line := [], st_overlap := [], st_line_bytes := 0,
        st_line_number := saturating_add (st_line_number st) 1, st_first_column := None\<rparr>"

fun scan_lines :: "search_params \<Rightarrow> string \<Rightarrow> nat list \<Rightarrow> nat \<Rightarrow> search_state \<Rightarrow> nat \<times> search_state" where
  "scan_lines sp buffer [] segment_start st = (segment_start, st)"
| "scan_lines sp buffer (newline # newlines) segment_start st =
     (let st1 = finish sp (scan sp (drop segment_start (take newline buffer)) st) in
      if binary_stop sp st1 then (segment_start, st1)
      else scan_lines sp buffer newlines (saturating_add newline 1) (new_line st1))"

definition scan_buffer :: "search_params \<Rightarrow> string \<Rightarrow> search_state \<Rightarrow> search_state" where
  "scan_buffer sp buffer st =
     (let (segment_start, st1) = scan_lines sp buffer (sp_newlines sp buffer) 0 st in
      if binary_stop sp st1 then st1 else scan sp (drop segment_start buffer) st1)"

fun search_loop ::
  "search_params \<Rightarrow> read_event list \<Rightarrow> search_state \<Rightarrow> string + (search_state \<times> bool)"
where
  "search_loop sp [] st = Inr (if 0 < st_line_bytes st then finish sp st else st, False)"
| "search_loop sp (event # events) st =
     (case event of
        Cancel_Seen \<Rightarrow> Inr (st, False)
      | Deadline_Passed \<Rightarrow> Inr (st, True)
      | Read_Failed \<Rightarrow> Inl ''search-file-read-failed''
      | Read_Buffer buffer \<Rightarrow>
          if buffer = [] then Inr (if 0 < st_line_bytes st then finish sp st else st, False)
          else
            (let st1 = scan_buffer sp buffer st in
             if binary_stop sp st1 then Inr (st1, False) else search_loop sp events st1))"

fun file_contains_nul :: "search_params \<Rightarrow> read_event list \<Rightarrow> string + (bool \<times> bool)" where
  "file_contains_nul sp [] = Inr (False, False)"
| "file_contains_nul sp (event # events) =
     (case event of
        Cancel_Seen \<Rightarrow> Inr (False, False)
      | Deadline_Passed \<Rightarrow> Inr (False, True)
      | Read_Failed \<Rightarrow> Inl ''search-file-read-failed''
      | Read_Buffer buffer \<Rightarrow>
          if buffer = [] then Inr (False, False)
          else if sp_nul_at sp buffer \<noteq> None then Inr (True, False)
          else file_contains_nul sp events)"

text \<open>The file is opened twice: \<open>first_open\<close> and \<open>second_open\<close> give what each reading of it yields, or the
  error of the opening.\<close>

definition search_file ::
  "search_params \<Rightarrow> string + read_event list \<Rightarrow> string + read_event list \<Rightarrow> string + file_search_outcome"
where
  "search_file sp first_open second_open =
     (if sp_max_results sp = 0 then
        Inr \<lparr>so_matches = [], so_output_truncated = False, so_timed_out = False\<rparr>
      else
        bindR first_open (\<lambda>events.
        bindR (search_loop sp events search_start) (\<lambda>(st, timed_out).
        bindR (if \<not> sp_binary sp \<and> st_matches st \<noteq> [] \<and> \<not> timed_out
               then bindR second_open (file_contains_nul sp) else Inr (False, False))
          (\<lambda>(binary_file, check_timed_out).
        let discard = binary_file \<and> \<not> sp_binary sp in
        Inr \<lparr>so_matches = (if discard then [] else st_matches st),
             so_output_truncated = (\<not> discard \<and> st_truncated st),
             so_timed_out = (timed_out \<or> check_timed_out)\<rparr>))))"

end
