(* ===== verification/Search_Properties.thy ===== *)
theory Search_Properties
  imports Helper_Search
begin

text \<open>
  The streaming search of a file finds what a search line by line of the whole file finds, wherever
  the buffers are cut.
\<close>

section \<open>The first occurrence\<close>

fun first_occurrence :: "string \<Rightarrow> string \<Rightarrow> nat option" where
  "first_occurrence q [] = (if q = [] then Some 0 else None)"
| "first_occurrence q (c # r) = (if take (length q) (c # r) = q then Some 0 else map_option Suc (first_occurrence q r))"

definition occurs_at :: "string \<Rightarrow> string \<Rightarrow> nat \<Rightarrow> bool" where
  "occurs_at q xs i \<longleftrightarrow> take (length q) (drop i xs) = q"

lemma occurs_at_bound:
  assumes "occurs_at q xs i" "q \<noteq> []"
  shows "i + length q \<le> length xs"
proof -
  have "length (take (length q) (drop i xs)) = length q" using assms(1) by (simp add: occurs_at_def)
  then have "length q \<le> length xs - i" by simp
  moreover have "0 < length q" using assms(2) by simp
  ultimately show ?thesis by linarith
qed

lemma all_nat_cases: "(\<forall>i. P i) \<longleftrightarrow> P (0::nat) \<and> (\<forall>i. P (Suc i))"
  by (metis not0_implies_Suc)

lemma first_occurrence_None:
  "q \<noteq> [] \<Longrightarrow> first_occurrence q xs = None \<longleftrightarrow> (\<forall>i. \<not> occurs_at q xs i)"
proof (induction xs)
  case (Cons c r)
  then show ?case
    using all_nat_cases [of "\<lambda>i. \<not> occurs_at q (c # r) i"] by (simp add: occurs_at_def)
qed (simp add: occurs_at_def)

lemma first_occurrence_Some:
  "q \<noteq> [] \<Longrightarrow> first_occurrence q xs = Some i \<longleftrightarrow> occurs_at q xs i \<and> (\<forall>j<i. \<not> occurs_at q xs j)"
proof (induction xs arbitrary: i)
  case (Cons c r)
  then show ?case by (cases i) (auto simp: occurs_at_def All_less_Suc2)
qed (simp add: occurs_at_def)

text \<open>A window of the text.\<close>

lemma occurs_at_window:
  assumes "q \<noteq> []" "d + w \<le> length xs"
  shows "occurs_at q (take w (drop d xs)) i \<longleftrightarrow> occurs_at q xs (d + i) \<and> i + length q \<le> w"
proof -
  have "take (length q) (drop i (take w (drop d xs))) = take (min (length q) (w - i)) (drop (d + i) xs)"
    by (simp add: drop_take add.commute)
  moreover have "i + length q \<le> w" if "occurs_at q (take w (drop d xs)) i"
    using occurs_at_bound [OF that assms(1)] assms(2) by simp
  ultimately show ?thesis by (auto simp: occurs_at_def min_def split: if_splits)
qed

lemma first_occurrence_unique:
  assumes "q \<noteq> []" "\<And>i. occurs_at q xs i \<longleftrightarrow> (\<exists>j. i = d + j \<and> occurs_at q ys j)"
  shows "first_occurrence q xs = map_option ((+) d) (first_occurrence q ys)"
proof (cases "first_occurrence q ys")
  case None
  then have "first_occurrence q xs = None" using first_occurrence_None[OF assms(1)] assms(2) by blast
  then show ?thesis using None by simp
next
  case (Some i)
  then have i: "occurs_at q ys i" "\<forall>j<i. \<not> occurs_at q ys j" using first_occurrence_Some[OF assms(1)] by auto
  then have "occurs_at q xs (d + i)" using assms(2) by blast
  moreover have "\<not> occurs_at q xs j" if "j < d + i" for j using i(2) assms(2) that by auto
  ultimately have "first_occurrence q xs = Some (d + i)" using first_occurrence_Some[OF assms(1)] by blast
  then show ?thesis using Some by simp
qed

definition tail_of :: "string \<Rightarrow> string \<Rightarrow> string" where
  "tail_of q pre = drop (length pre - (length q - 1)) pre"

text \<open>A text grows by a segment: the occurrences are those across the boundary and those in the segment.\<close>

lemma first_occurrence_append:
  assumes "q \<noteq> []" "first_occurrence q pre = None"
  shows "first_occurrence q (pre @ seg) =
    (case first_occurrence q (tail_of q pre @ take (length q - 1) seg) of
       Some i \<Rightarrow> Some (length pre - length (tail_of q pre) + i)
     | None \<Rightarrow> map_option ((+) (length pre)) (first_occurrence q seg))"
    and "first_occurrence q (tail_of q pre @ take (length q - 1) seg) = Some i \<Longrightarrow>
      i < length (tail_of q pre) \<and> length (tail_of q pre) < i + length q"
proof -
  let ?n = "length pre" and ?t = "tail_of q pre" and ?m = "length q - 1"
  let ?b = "?t @ take ?m seg" and ?d = "?n - length ?t"
  have t: "length ?t = min ?n ?m" "?d + length ?t = ?n" by (auto simp: tail_of_def)
  have b: "?b = take (length ?b) (drop ?d (pre @ seg))"
    by (simp add: tail_of_def min_def)
  have bo: "occurs_at q ?b j \<longleftrightarrow> occurs_at q (pre @ seg) (?d + j) \<and> j + length q \<le> length ?b" for j
  proof -
    have "?d + length ?b \<le> length (pre @ seg)" using t by simp
    from occurs_at_window [OF assms(1) this] show ?thesis by (subst b) blast
  qed
  have so: "occurs_at q (pre @ seg) (?n + j) \<longleftrightarrow> occurs_at q seg j" for j
    by (simp add: occurs_at_def)
  have no: "\<not> occurs_at q (pre @ seg) j" if "j + length q \<le> ?n" for j
    using first_occurrence_None[OF assms(1), of pre] assms(2) occurs_at_window[OF assms(1), of 0 ?n "pre @ seg" j] that
    by simp
  have span: "\<exists>i. j = ?d + i \<and> occurs_at q ?b i" if "occurs_at q (pre @ seg) j" "j < ?n" for j
  proof -
    have "?n < j + length q" using no that by (meson leI)
    moreover have "j + length q \<le> ?n + length seg" using occurs_at_bound[OF that(1) assms(1)] by simp
    ultimately have "?d \<le> j" "(j - ?d) + length q \<le> length ?b" using t that(2) by (auto simp: min_def)
    then show ?thesis using bo[of "j - ?d"] that(1) by (metis le_add_diff_inverse)
  qed
  have within: "i < length ?t \<and> length ?t < i + length q" if "occurs_at q ?b i" for i
  proof -
    have "i + length q \<le> length ?b" "\<not> ?d + i + length q \<le> ?n" using bo that no by blast+
    then show ?thesis using t by (auto simp: min_def split: if_splits)
  qed
  show "i < length ?t \<and> length ?t < i + length q" if "first_occurrence q ?b = Some i"
    using that within first_occurrence_Some[OF assms(1)] by blast
  show "first_occurrence q (pre @ seg) =
    (case first_occurrence q ?b of Some i \<Rightarrow> Some (?d + i) | None \<Rightarrow> map_option ((+) ?n) (first_occurrence q seg))"
  proof (cases "first_occurrence q ?b")
    case None
    then have "\<not> occurs_at q ?b j" for j using first_occurrence_None[OF assms(1)] by blast
    then have "?n \<le> j" if "occurs_at q (pre @ seg) j" for j using span that by (meson leI)
    then have "first_occurrence q (pre @ seg) = map_option ((+) ?n) (first_occurrence q seg)"
      using so by (intro first_occurrence_unique [OF assms(1)]) (metis le_iff_add)
    then show ?thesis using None by simp
  next
    case (Some i)
    then have i: "occurs_at q ?b i" "\<forall>j<i. \<not> occurs_at q ?b j" using first_occurrence_Some[OF assms(1)] by auto
    have "\<not> occurs_at q (pre @ seg) j" if "j < ?d + i" for j
    proof
      assume o: "occurs_at q (pre @ seg) j"
      have "j < ?n" using that within[OF i(1)] t by linarith
      then show False using span[OF o] i(2) that by auto
    qed
    then have "first_occurrence q (pre @ seg) = Some (?d + i)" using i(1) bo first_occurrence_Some[OF assms(1)] by blast
    then show ?thesis using Some by simp
  qed
qed

section \<open>A line seen in segments\<close>

text \<open>\<open>pre\<close> is what was read of the line, \<open>budget\<close> what may be kept of it.\<close>

definition line_seen :: "string \<Rightarrow> nat \<Rightarrow> string \<Rightarrow> search_state \<Rightarrow> bool" where
  "line_seen q budget pre st \<longleftrightarrow>
     st_line st = take budget pre \<and> st_line_bytes st = length pre \<and>
     st_first_column st = map_option Suc (first_occurrence q pre) \<and>
     (first_occurrence q pre = None \<longrightarrow> st_overlap st = tail_of q pre)"

lemma first_occurrence_bound: "q \<noteq> [] \<Longrightarrow> first_occurrence q xs = Some i \<Longrightarrow> i + length q \<le> length xs"
  using first_occurrence_Some occurs_at_bound by blast

lemma first_occurrence_append_found:
  assumes "q \<noteq> []" "first_occurrence q pre = Some i"
  shows "first_occurrence q (pre @ seg) = Some i"
proof -
  have w: "occurs_at q pre j \<longleftrightarrow> occurs_at q (pre @ seg) j \<and> j + length q \<le> length pre" for j
    using occurs_at_window [OF assms(1), of 0 "length pre" "pre @ seg" j] by simp
  have i: "occurs_at q pre i" "\<forall>j<i. \<not> occurs_at q pre j" using assms first_occurrence_Some by auto
  have "\<not> occurs_at q (pre @ seg) j" if "j < i" for j
    using w[of j] w[of i] i that by (meson add_le_mono1 le_trans less_imp_le_nat)
  then show ?thesis using i(1) w[of i] first_occurrence_Some[OF assms(1)] by blast
qed

lemma next_overlap_tail:
  assumes "length pre + length seg \<le> u64_max"
  shows "next_overlap (length q) (tail_of q pre) seg = tail_of q (pre @ seg)"
proof (cases "length q - 1 \<le> length seg")
  case True
  then show ?thesis by (simp add: next_overlap_def tail_of_def saturating_sub_def Let_def)
next
  case False
  moreover have "saturating_add (length (tail_of q pre)) (length seg) = length (tail_of q pre) + length seg"
    using assms by (intro saturating_add_exact) (simp add: tail_of_def)
  moreover have "drop (length (tail_of q pre) + length seg - (length q - 1)) (tail_of q pre) @ seg =
    tail_of q (pre @ seg)"
    using False by (cases "length pre \<le> length q - 1") (auto simp: tail_of_def add.commute)
  ultimately show ?thesis by (simp add: next_overlap_def saturating_sub_def Let_def)
qed

lemma boundary_column_find:
  assumes "q \<noteq> []" "first_occurrence q pre = None" "finder = first_occurrence q" "length pre + length seg < u64_max"
    "length q < u64_max"
  shows "boundary_column finder (length q) (tail_of q pre) seg (length pre) =
    map_option (\<lambda>i. Suc (length pre - length (tail_of q pre) + i))
      (first_occurrence q (tail_of q pre @ take (length q - 1) seg))"
proof -
  let ?t = "tail_of q pre" and ?b = "tail_of q pre @ take (length q - 1) seg"
  have take: "take (min (length seg) (length q - 1)) seg = take (length q - 1) seg"
    by (simp add: min_def)
  have tl: "length ?t \<le> length pre" by (simp add: tail_of_def)
  show ?thesis
  proof (cases "first_occurrence q ?b")
    case None
    then show ?thesis using take assms(3) by (simp add: boundary_column_def saturating_sub_def)
  next
    case (Some i)
    note w = first_occurrence_append(2)[OF assms(1,2) Some]
    then have "?t \<noteq> []" by auto
    moreover have "length ?t < saturating_add i (length q)"
      using w tl assms(4) by (auto simp: saturating_add_def min_def)
    moreover have "saturating_add (saturating_add (length pre - length ?t) i) 1 = Suc (length pre - length ?t + i)"
    proof -
      have "saturating_add (length pre - length ?t) i = length pre - length ?t + i"
        by (rule saturating_add_exact) (use w tl assms(4) in linarith)
      moreover have "saturating_add (length pre - length ?t + i) 1 = length pre - length ?t + i + 1"
        by (rule saturating_add_exact) (use w tl assms(4) in linarith)
      ultimately show ?thesis by simp
    qed
    ultimately show ?thesis
      using take w Some assms(3) by (simp add: boundary_column_def saturating_sub_def)
  qed
qed

lemma scan_segment_seen:
  assumes "q \<noteq> []" "finder = first_occurrence q" "line_seen q budget pre st" "length pre + length seg < u64_max"
    "length q < u64_max"
  shows "line_seen q budget (pre @ seg) (scan_search_segment finder (length q) budget seg st)"
proof -
  have keep: "take budget pre @ take (min (length seg) (budget - length (take budget pre))) seg =
    take budget (pre @ seg)"
    by (cases "length pre \<le> budget") (auto simp: min_def)
  have len: "saturating_add (length pre) (length seg) = length pre + length seg"
    using assms(4) by (simp add: saturating_add_exact)
  have col: "map_option (\<lambda>i. saturating_add (saturating_add (length pre) i) 1) (first_occurrence q seg) =
    map_option (\<lambda>i. Suc (length pre + i)) (first_occurrence q seg)"
  proof (cases "first_occurrence q seg")
    case (Some i)
    then have "i + length q \<le> length seg" by (rule first_occurrence_bound[OF assms(1)])
    then show ?thesis using Some assms(4) by (simp add: saturating_add_def min_def)
  qed simp
  show ?thesis
  proof (cases "first_occurrence q pre")
    case (Some i)
    then show ?thesis
      using assms(3) first_occurrence_append_found[OF assms(1) Some] keep len
      by (simp add: line_seen_def scan_search_segment_def Let_def saturating_sub_def)
  next
    case None
    note b = boundary_column_find[OF assms(1) None assms(2,4,5)]
    note o = next_overlap_tail[of pre seg q]
    show ?thesis
      using assms(3,4) None first_occurrence_append(1)[OF assms(1) None, of seg] keep len b o col assms(2)
      by (cases "first_occurrence q (tail_of q pre @ take (length q - 1) seg)"; cases "first_occurrence q seg")
        (auto simp: line_seen_def scan_search_segment_def Let_def saturating_sub_def)
  qed
qed

section \<open>The reference\<close>

text \<open>A search line by line: the matches so far, the bytes kept and whether some were not.\<close>

type_synonym search_acc = "found_match list \<times> nat \<times> bool"

definition reference_line :: "search_params \<Rightarrow> nat \<Rightarrow> string \<Rightarrow> search_acc \<Rightarrow> search_acc" where
  "reference_line sp n line acc =
     (let (ms, kept, truncated) = acc in
      case first_occurrence (sp_query sp) line of
        None \<Rightarrow> acc
      | Some i \<Rightarrow>
          if sp_max_results sp \<le> length ms then acc
          else if min (sp_content_budget sp) u32_max < kept + length line then (ms, kept, True)
          else (ms @ [\<lparr>fm_line = n, fm_column = i + 1, fm_content = line\<rparr>], kept + length line, truncated))"

definition acc_stops :: "search_params \<Rightarrow> search_acc \<Rightarrow> bool" where
  "acc_stops sp acc \<longleftrightarrow> (let (ms, kept, truncated) = acc in
     sp_binary sp \<and> (sp_max_results sp \<le> length ms \<or> truncated))"

fun reference_lines :: "search_params \<Rightarrow> nat \<Rightarrow> string list \<Rightarrow> search_acc \<Rightarrow> search_acc" where
  "reference_lines sp n [] acc = acc"
| "reference_lines sp n (line # lines) acc =
     (let acc1 = reference_line sp n line acc in
      if acc_stops sp acc1 then acc1 else reference_lines sp (n + 1) lines acc1)"

definition file_lines :: "string \<Rightarrow> string list" where
  "file_lines bytes = (let ls = split_on LF bytes in if last ls = [] then butlast ls else ls)"

definition reference_outcome :: "search_params \<Rightarrow> string \<Rightarrow> file_search_outcome" where
  "reference_outcome sp bytes =
     (let (ms, kept, truncated) = reference_lines sp 1 (file_lines bytes) ([], 0, False);
          discard = (sp_max_results sp = 0 \<or> \<not> sp_binary sp \<and> ms \<noteq> [] \<and> NUL \<in> set bytes)
      in \<lparr>so_matches = (if discard then [] else ms), so_output_truncated = (\<not> discard \<and> truncated),
          so_timed_out = False\<rparr>)"

lemma file_lines_simps:
  "LF \<notin> set l \<Longrightarrow> file_lines (l @ LF # r) = l # file_lines r"
  "LF \<notin> set l \<Longrightarrow> file_lines l = (if l = [] then [] else [l])"
  by (auto simp: file_lines_def split_on_append split_on_free Let_def)

section \<open>The buffers of a file\<close>

definition line_feeds :: "string \<Rightarrow> nat list" where
  "line_feeds b = filter (\<lambda>i. b ! i = LF) [0..<length b]"

lemma line_feeds_simps:
  "LF \<notin> set l \<Longrightarrow> line_feeds l = []"
  "LF \<notin> set l \<Longrightarrow> line_feeds (l @ LF # r) = length l # map ((+) (length l + 1)) (line_feeds r)"
proof -
  show "line_feeds l = []" if l: "LF \<notin> set l"
  proof -
    have "l ! i \<noteq> LF" if "i < length l" for i using nth_mem[OF that] l by auto
    then show ?thesis by (simp add: line_feeds_def filter_empty_conv)
  qed
  assume l: "LF \<notin> set l"
  have "[0..<length (l @ LF # r)] = [0..<length l] @ length l # map ((+) (length l + 1)) [0..<length r]"
  proof -
    have "[0..<length l + (1 + length r)] = [0..<length l] @ [length l..<length l + (1 + length r)]"
      by (rule upt_add_eq_append) simp
    moreover have "[length l..<length l + (1 + length r)] = length l # [length l + 1..<length l + 1 + length r]"
      by (subst upt_conv_Cons) (simp_all del: upt_Suc)
    moreover have "[length l + 1..<length l + 1 + length r] = map ((+) (length l + 1)) [0..<length r]"
    proof -
      have "(+) (length l + 1) = (\<lambda>i. i + (length l + 1))" by (rule ext) simp
      then show ?thesis using map_add_upt [of "length l + 1" "length r"] by (simp only: add.commute)
    qed
    ultimately show ?thesis by simp
  qed
  moreover have "filter (\<lambda>i. (l @ LF # r) ! i = LF) [0..<length l] = []"
  proof -
    have "l ! i \<noteq> LF" if "i < length l" for i using nth_mem[OF that] l by auto
    then show ?thesis by (simp add: filter_empty_conv nth_append)
  qed
  moreover have "filter (\<lambda>i. (l @ LF # r) ! i = LF) (map ((+) (length l + 1)) [0..<length r]) =
    map ((+) (length l + 1)) (line_feeds r)"
    by (simp add: line_feeds_def filter_map comp_def nth_append)
  ultimately show "line_feeds (l @ LF # r) = length l # map ((+) (length l + 1)) (line_feeds r)"
    by (simp add: line_feeds_def)
qed

definition acc_of :: "search_state \<Rightarrow> search_acc" where
  "acc_of st = (st_matches st, st_retained st, st_truncated st)"

definition at_line :: "search_params \<Rightarrow> nat \<Rightarrow> string \<Rightarrow> search_state \<Rightarrow> bool" where
  "at_line sp n pre st \<longleftrightarrow>
     line_seen (sp_query sp) (budget_left sp st) pre st \<and> st_line_number st = n \<and> LF \<notin> set pre \<and>
     st_retained st \<le> min (sp_content_budget sp) u32_max"

text \<open>What is assumed of the byte searches.\<close>

definition searches_bytes :: "search_params \<Rightarrow> bool" where
  "searches_bytes sp \<longleftrightarrow> sp_finder sp = first_occurrence (sp_query sp) \<and> sp_newlines sp = line_feeds \<and>
     (\<forall>b. sp_nul_at sp b = position (\<lambda>c. c = NUL) b)"

lemma binary_stop_acc: "binary_stop sp st \<longleftrightarrow> acc_stops sp (acc_of st)"
  by (simp add: binary_stop_def acc_stops_def acc_of_def)

lemma scan_at_line:
  assumes "searches_bytes sp" "sp_query sp \<noteq> []" "length (sp_query sp) < u64_max" "at_line sp n pre st"
    "length pre + length seg < u64_max" "LF \<notin> set seg"
  shows "at_line sp n (pre @ seg) (scan sp seg st)" "acc_of (scan sp seg st) = acc_of st"
proof -
  show a: "acc_of (scan sp seg st) = acc_of st"
    by (simp add: scan_def scan_search_segment_def acc_of_def Let_def)
  then have b: "budget_left sp (scan sp seg st) = budget_left sp st"
    "st_retained (scan sp seg st) = st_retained st"
    by (simp_all add: acc_of_def budget_left_def)
  have n: "st_line_number (scan sp seg st) = st_line_number st"
    by (simp add: scan_def scan_search_segment_def Let_def)
  show "at_line sp n (pre @ seg) (scan sp seg st)"
    using scan_segment_seen[OF assms(2) _ _ assms(5,3)] assms(1,4,6) b n
    by (auto simp: at_line_def searches_bytes_def scan_def)
qed

lemma finish_at_line:
  assumes "at_line sp n line st"
  shows "acc_of (finish sp st) = reference_line sp n line (acc_of st)"
    "n < u64_max \<Longrightarrow> sp_query sp \<noteq> [] \<Longrightarrow> at_line sp (n + 1) [] (new_line (finish sp st))"
proof -
  let ?B = "min (sp_content_budget sp) u32_max"
  have s: "st_line st = take (?B - st_retained st) line" "st_line_bytes st = length line"
    "st_first_column st = map_option Suc (first_occurrence (sp_query sp) line)" "st_line_number st = n"
    "st_retained st \<le> ?B"
    using assms by (auto simp: at_line_def line_seen_def budget_left_def saturating_sub_def)
  have add: "saturating_add (st_retained st) (length line) = st_retained st + length line"
    if "\<not> ?B < st_retained st + length line"
    by (rule saturating_add_exact) (use that in \<open>simp add: u32_max_def u64_max_def\<close>)
  show "acc_of (finish sp st) = reference_line sp n line (acc_of st)"
    using s add by (cases "first_occurrence (sp_query sp) line")
      (auto simp: acc_of_def finish_def finish_search_line_def reference_line_def Let_def saturating_sub_def)
  show "at_line sp (n + 1) [] (new_line (finish sp st))" if "n < u64_max" "sp_query sp \<noteq> []"
    using s add that by (cases "first_occurrence (sp_query sp) line")
      (auto simp: at_line_def line_seen_def new_line_def finish_def finish_search_line_def saturating_sub_def
        saturating_add_def tail_of_def)
qed

text \<open>From one position of a buffer, with \<open>rest\<close> what later buffers hold.\<close>

definition scan_from :: "search_params \<Rightarrow> string \<Rightarrow> nat \<Rightarrow> search_state \<Rightarrow> search_state" where
  "scan_from sp buffer start st =
     (let (s, st1) = scan_lines sp buffer (map ((+) start) (line_feeds (drop start buffer))) start st in
      if binary_stop sp st1 then st1 else scan sp (drop s buffer) st1)"

definition same_search :: "search_params \<Rightarrow> nat \<Rightarrow> string \<Rightarrow> string \<Rightarrow> search_acc \<Rightarrow> search_state \<Rightarrow> bool" where
  "same_search sp n bytes rest acc st' \<longleftrightarrow>
     (if binary_stop sp st' then acc_of st' = reference_lines sp n (file_lines bytes) acc
      else \<exists>n' pre'. at_line sp n' pre' st' \<and> n' + length pre' \<le> n + length bytes - length rest \<and>
        reference_lines sp n (file_lines bytes) acc = reference_lines sp n' (file_lines (pre' @ rest)) (acc_of st'))"

lemma same_search_line:
  assumes "same_search sp (n + 1) bytes' rest (reference_line sp n line acc) st"
    "file_lines bytes = line # file_lines bytes'" "\<not> acc_stops sp (reference_line sp n line acc)"
    "Suc (length bytes') \<le> length bytes"
  shows "same_search sp n bytes rest acc st"
proof (cases "binary_stop sp st")
  case True
  then show ?thesis using assms(1-3) by (simp add: same_search_def Let_def)
next
  case False
  then obtain n' pre' where "at_line sp n' pre' st" "n' + length pre' \<le> n + 1 + length bytes' - length rest"
    "reference_lines sp (n + 1) (file_lines bytes') (reference_line sp n line acc) =
     reference_lines sp n' (file_lines (pre' @ rest)) (acc_of st)"
    using assms(1) by (auto simp: same_search_def)
  moreover have "n + 1 + length bytes' - length rest \<le> n + length bytes - length rest"
    using assms(4) by linarith
  ultimately show ?thesis
    using False assms(2,3) by (fastforce simp: same_search_def Let_def)
qed

lemma split_first_line:
  obtains "LF \<notin> set xs" | l r where "xs = l @ LF # r" "LF \<notin> set l"
  by (metis split_list_first)

lemma scan_from_search:
  assumes "searches_bytes sp" "sp_query sp \<noteq> []" "length (sp_query sp) < u64_max"
  shows "at_line sp n pre st \<Longrightarrow> \<not> binary_stop sp st \<Longrightarrow> start \<le> length buffer \<Longrightarrow>
    n + length (pre @ drop start buffer @ rest) < u64_max \<Longrightarrow> length buffer < u64_max \<Longrightarrow>
    same_search sp n (pre @ drop start buffer @ rest) rest (acc_of st) (scan_from sp buffer start st)"
proof (induction "length buffer - start" arbitrary: start n pre st rule: less_induct)
  case less
  show ?case
  proof (cases rule: split_first_line [of "drop start buffer"])
    case 1
    then have f: "scan_from sp buffer start st = scan sp (drop start buffer) st"
      using less.prems(2) by (simp add: scan_from_def line_feeds_simps)
    have a: "at_line sp n (pre @ drop start buffer) (scan sp (drop start buffer) st)"
      "acc_of (scan sp (drop start buffer) st) = acc_of st"
      using scan_at_line[OF assms less.prems(1) _ 1] less.prems(4) by auto
    have "\<not> binary_stop sp (scan sp (drop start buffer) st)"
      using less.prems(2) a(2) by (simp add: binary_stop_acc)
    then show ?thesis
      unfolding f same_search_def using a by (auto intro!: exI [of _ n] exI [of _ "pre @ drop start buffer"])
  next
    case (2 l r)
    let ?s1 = "scan sp l st" and ?n = "start + length l"
    let ?s2 = "finish sp ?s1"
    have len: "start + length l + 1 + length r = length buffer"
      using arg_cong[OF 2(1), of length] less.prems(3) by simp
    have seg: "drop start (take ?n buffer) = l" using 2(1) by (simp add: drop_take)
    have "drop (?n + 1) buffer = drop (length l + 1) (drop start buffer)" by (simp add: ac_simps)
    then have after: "drop (?n + 1) buffer = r" using 2(1) by simp
    have s1: "at_line sp n (pre @ l) ?s1" "acc_of ?s1 = acc_of st"
      using scan_at_line[OF assms less.prems(1) _ 2(2)] less.prems(4) 2(1) by auto
    have acc: "acc_of ?s2 = reference_line sp n (pre @ l) (acc_of st)"
      using finish_at_line(1)[OF s1(1)] s1(2) by simp
    have pre: "LF \<notin> set (pre @ l)" using s1(1) by (simp add: at_line_def)
    have bytes: "pre @ drop start buffer @ rest = (pre @ l) @ LF # (r @ rest)" using 2(1) by simp
    have fl: "file_lines (pre @ drop start buffer @ rest) = (pre @ l) # file_lines (r @ rest)"
      unfolding bytes by (rule file_lines_simps(1)[OF pre])
    have lf: "map ((+) start) (line_feeds (drop start buffer)) = ?n # map ((+) (?n + 1)) (line_feeds r)"
      using 2 by (simp add: line_feeds_simps(2) comp_def ac_simps)
    have sat: "saturating_add ?n 1 = ?n + 1"
      by (rule saturating_add_exact) (use len less.prems(5) in simp)
    show ?thesis
    proof (cases "binary_stop sp ?s2")
      case True
      then have "scan_from sp buffer start st = ?s2"
        using seg by (simp add: scan_from_def lf Let_def del: list.map)
      then show ?thesis using True acc fl by (simp add: same_search_def binary_stop_acc)
    next
      case False
      have step: "scan_from sp buffer start st = scan_from sp buffer (?n + 1) (new_line ?s2)"
        using seg False after by (simp add: scan_from_def lf sat [simplified] Let_def del: list.map)
      have n: "at_line sp (n + 1) [] (new_line ?s2)"
        using finish_at_line(2)[OF s1(1)] less.prems(4) assms(2) by simp
      have a: "acc_of (new_line ?s2) = acc_of ?s2" by (simp add: acc_of_def new_line_def)
      have "same_search sp (n + 1) ([] @ drop (?n + 1) buffer @ rest) rest (acc_of ?s2)
          (scan_from sp buffer (?n + 1) (new_line ?s2))"
        using less.hyps[OF _ n, of "?n + 1"] False a len less.prems(4,5) after bytes
        by (simp add: binary_stop_acc)
      then have "same_search sp (n + 1) (r @ rest) rest (reference_line sp n (pre @ l) (acc_of st))
          (scan_from sp buffer start st)"
        using after by (simp add: step acc)
      from same_search_line [OF this fl] show ?thesis
        using False acc bytes by (simp add: binary_stop_acc)
    qed
  qed
qed

lemma scan_buffer_from:
  assumes "searches_bytes sp"
  shows "scan_buffer sp buffer st = scan_from sp buffer 0 st"
proof -
  have "map ((+) 0) (line_feeds buffer) = line_feeds buffer" by (rule map_idI) simp
  then show ?thesis using assms by (simp only: scan_buffer_def scan_from_def searches_bytes_def drop_0)
qed

lemma search_loop_search:
  assumes "searches_bytes sp" "sp_query sp \<noteq> []" "length (sp_query sp) < u64_max"
  shows "at_line sp n pre st \<Longrightarrow> \<not> binary_stop sp st \<Longrightarrow> [] \<notin> set buffers \<Longrightarrow>
    n + length (pre @ concat buffers) < u64_max \<Longrightarrow>
    \<exists>st'. search_loop sp (map Read_Buffer buffers) st = Inr (st', False) \<and>
      acc_of st' = reference_lines sp n (file_lines (pre @ concat buffers)) (acc_of st)"
proof (induction buffers arbitrary: n pre st)
  case Nil
  have b: "st_line_bytes st = length pre" "LF \<notin> set pre" using Nil.prems(1) by (auto simp: at_line_def line_seen_def)
  show ?case
  proof (cases "pre = []")
    case True
    then show ?thesis using b by (simp add: file_lines_simps)
  next
    case False
    then show ?thesis
      using b finish_at_line(1)[OF Nil.prems(1)] by (simp add: file_lines_simps Let_def)
  qed
next
  case (Cons buffer buffers)
  have ne: "buffer \<noteq> []" using Cons.prems(3) by auto
  let ?st = "scan_buffer sp buffer st" and ?bytes = "pre @ buffer @ concat buffers"
  have s: "same_search sp n ?bytes (concat buffers) (acc_of st) ?st"
    using scan_from_search[OF assms Cons.prems(1,2), of 0 buffer "concat buffers"] Cons.prems(4)
    by (simp add: scan_buffer_from[OF assms(1)])
  show ?case
  proof (cases "binary_stop sp ?st")
    case True
    then show ?thesis using s ne by (simp add: same_search_def Let_def)
  next
    case False
    then obtain n' pre' where a: "at_line sp n' pre' ?st" "n' + length pre' \<le> n + length (pre @ buffer)"
      "reference_lines sp n (file_lines ?bytes) (acc_of st) =
       reference_lines sp n' (file_lines (pre' @ concat buffers)) (acc_of ?st)"
      using s by (auto simp: same_search_def)
    have "n' + length (pre' @ concat buffers) < u64_max" using a(2) Cons.prems(4) by simp
    from Cons.IH[OF a(1) False _ this] show ?thesis
      using a(3) False Cons.prems(3) ne by (simp add: Let_def)
  qed
qed

lemma contains_nul_search:
  "searches_bytes sp \<Longrightarrow> [] \<notin> set buffers \<Longrightarrow>
   file_contains_nul sp (map Read_Buffer buffers) = Inr (NUL \<in> set (concat buffers), False)"
  by (induction buffers) (auto simp: searches_bytes_def position_eq_None)

lemma search_start_at_line:
  "sp_query sp \<noteq> [] \<Longrightarrow> at_line sp 1 [] search_start"
  by (simp add: at_line_def line_seen_def search_start_def tail_of_def)

text \<open>C16: The search of a file reports exactly the first occurrence in each line that a search line by
  line of the whole content reports, under the same limits on results and bytes, wherever the
  buffers of the file are cut.\<close>

theorem file_search_chunking:
  assumes "searches_bytes sp" "sp_query sp \<noteq> []" "length (sp_query sp) < u64_max"
    "[] \<notin> set buffers" "[] \<notin> set again" "concat again = concat buffers"
    "Suc (length (concat buffers)) < u64_max"
  shows "search_file sp (Inr (map Read_Buffer buffers)) (Inr (map Read_Buffer again)) =
    Inr (reference_outcome sp (concat buffers))"
proof (cases "sp_max_results sp = 0")
  case False
  let ?ref = "reference_lines sp 1 (file_lines (concat buffers)) ([], 0, False)"
  have "\<not> binary_stop sp search_start" using False by (simp add: binary_stop_def search_start_def)
  then obtain st where st: "search_loop sp (map Read_Buffer buffers) search_start = Inr (st, False)"
    "acc_of st = ?ref"
    using search_loop_search[OF assms(1-3) search_start_at_line[OF assms(2)], of buffers] assms(4,7)
    by (auto simp: acc_of_def search_start_def)
  have nul: "file_contains_nul sp (map Read_Buffer again) = Inr (NUL \<in> set (concat buffers), False)"
    using contains_nul_search[OF assms(1,5)] assms(6) by simp
  show ?thesis
    using False st(2) by (simp add: search_file_def reference_outcome_def st(1) nul acc_of_def Let_def split: prod.splits)
      (auto simp: acc_of_def)
qed (simp add: search_file_def reference_outcome_def Let_def split: prod.splits)

definition demo_params :: search_params where
  "demo_params = \<lparr>sp_finder = first_occurrence ''ab'', sp_newlines = line_feeds,
     sp_nul_at = position (\<lambda>c. c = NUL), sp_query = ''ab'', sp_binary = False, sp_max_results = 5,
     sp_content_budget = 9\<rparr>"

theorem file_search_chunking_witness:
  "search_file demo_params (Inr [Read_Buffer ''xa'', Read_Buffer (''b'' @ [LF] @ ''a'')])
     (Inr [Read_Buffer (''xab'' @ [LF] @ ''a'')]) =
   Inr \<lparr>so_matches = [\<lparr>fm_line = 1, fm_column = 2, fm_content = ''xab''\<rparr>],
        so_output_truncated = False, so_timed_out = False\<rparr>"
proof -
  have "searches_bytes demo_params" by (simp add: searches_bytes_def demo_params_def)
  note t = file_search_chunking [OF this, of "[''xa'', ''b'' @ [LF] @ ''a'']" "[''xab'' @ [LF] @ ''a'']"]
  have "reference_outcome demo_params (concat [''xa'', ''b'' @ [LF] @ ''a'']) =
    \<lparr>so_matches = [\<lparr>fm_line = 1, fm_column = 2, fm_content = ''xab''\<rparr>],
     so_output_truncated = False, so_timed_out = False\<rparr>"
    by code_simp
  then show ?thesis using t by (simp add: demo_params_def u64_max_def)
qed

end
