(* ===== verification/Search_Records.thy ===== *)
theory Search_Records
  imports Helper_Search Fixed_Protocol
begin

text \<open>
  The records of a native search: the encoder of the helper (\<open>encode_search_match\<close> in
  \<open>src/remote_helper.rs\<close>) and the decoder of the bridge (\<open>parse_native_search_records\<close> in
  \<open>src/remote/search.rs\<close>), and that each record is read back.  A path is its bytes.
\<close>

section \<open>Little-endian numbers\<close>

text \<open>\<open>to_le_bytes\<close> and \<open>from_le_bytes\<close>.\<close>

fun le_bytes :: "nat \<Rightarrow> nat \<Rightarrow> string" where
  "le_bytes 0 v = []"
| "le_bytes (Suc n) v = char_of (v mod 256) # le_bytes n (v div 256)"

fun le_value :: "string \<Rightarrow> nat" where
  "le_value [] = 0"
| "le_value (c # cs) = of_char c + 256 * le_value cs"

lemma length_le_bytes [simp]: "length (le_bytes n v) = n"
  by (induction n arbitrary: v) auto

lemma le_value_bytes: "v < 256 ^ n \<Longrightarrow> le_value (le_bytes n v) = v"
proof (induction n arbitrary: v)
  case (Suc n)
  then have "v div 256 < 256 ^ n" by (simp add: less_mult_imp_div_less mult.commute)
  then show ?case using Suc.IH by simp
qed simp

lemma le_value_bytes_32: "v \<le> u32_max \<Longrightarrow> le_value (le_bytes 4 v) = v"
  by (rule le_value_bytes) (simp add: u32_max_def)

lemma le_value_bytes_64: "v \<le> u64_max \<Longrightarrow> le_value (le_bytes 8 v) = v"
  by (rule le_value_bytes) (simp add: u64_max_def)

section \<open>The encoder\<close>

definition u32_try_from :: "nat \<Rightarrow> nat option" where
  "u32_try_from n = (if n \<le> u32_max then Some n else None)"

definition encode_search_match :: "string \<Rightarrow> nat \<Rightarrow> nat \<Rightarrow> string \<Rightarrow> string + string" where
  "encode_search_match path line column content =
     bindR (ok_or ''search-path-too-long'' (u32_try_from (length path))) (\<lambda>path_length.
     bindR (ok_or ''search-line-too-long'' (u32_try_from (length content))) (\<lambda>content_length.
     bindR (ok_or ''search-record-too-large''
              (Option.bind (checked_add 5 (4 + 8 + 8 + 4)) (\<lambda>length1.
               Option.bind (checked_add length1 (length path)) (\<lambda>length2.
               checked_add length2 (length content))))) (\<lambda>_.
     Inr (''CXSM1'' @ le_bytes 4 path_length @ le_bytes 8 line @ le_bytes 8 column @
          le_bytes 4 content_length @ path @ content))))"

section \<open>The decoder\<close>

record search_match =
  sr_actual_path :: encoded_value
  sr_relative_path :: encoded_value
  sr_line :: nat
  sr_column :: nat
  sr_content :: encoded_value

definition search_relative :: "string \<Rightarrow> string \<Rightarrow> string bridge_result" where
  "search_relative root actual =
     ok_or (protocol_error ''search path escaped the configured root'')
       (Option.bind (strip_prefix root actual) (\<lambda>rest.
          if strip_suffix ''/'' root \<noteq> None then Some rest else strip_prefix ''/'' rest))"

definition RECORD_HEADER_BYTES :: nat where "RECORD_HEADER_BYTES = 5 + 4 + 8 + 8 + 4"

text \<open>\<open>checked_add\<close> and the bound of the buffer.\<close>

definition end_within :: "string \<Rightarrow> nat \<Rightarrow> nat \<Rightarrow> nat option" where
  "end_within bytes start n =
     (case checked_add start n of Some e \<Rightarrow> if e \<le> length bytes then Some e else None | None \<Rightarrow> None)"

definition byte_range :: "nat \<Rightarrow> nat \<Rightarrow> string \<Rightarrow> string" where
  "byte_range a b bytes = drop a (take b bytes)"

record record_header =
  rh_end :: nat
  rh_path_length :: nat
  rh_line :: nat
  rh_column :: nat
  rh_content_length :: nat

definition parse_record_header :: "string \<Rightarrow> nat \<Rightarrow> record_header bridge_result" where
  "parse_record_header bytes offset =
     bindR (ok_or (protocol_error ''native search record is truncated'')
              (end_within bytes offset RECORD_HEADER_BYTES)) (\<lambda>header_end.
     let header = byte_range offset header_end bytes;
         line = le_value (byte_range 9 17 header); column = le_value (byte_range 17 25 header) in
     if take 5 header \<noteq> ''CXSM1'' then Inl (protocol_error ''native search record magic is invalid'')
     else if line = 0 \<or> column = 0 then
       Inl (protocol_error ''native search line and column must be positive'')
     else Inr \<lparr>rh_end = header_end, rh_path_length = le_value (byte_range 5 9 header), rh_line = line,
               rh_column = column, rh_content_length = le_value (byte_range 25 29 header)\<rparr>)"

definition parse_native_record ::
  "(string \<Rightarrow> string) \<Rightarrow> string \<Rightarrow> string \<Rightarrow> nat \<Rightarrow> (search_match \<times> nat) bridge_result"
where
  "parse_native_record base64 bytes display_root offset =
     bindR (parse_record_header bytes offset) (\<lambda>h.
     bindR (ok_or (protocol_error ''native search path is truncated'')
              (end_within bytes (rh_end h) (rh_path_length h))) (\<lambda>path_end.
     bindR (ok_or (protocol_error ''native search content is truncated'')
              (end_within bytes path_end (rh_content_length h))) (\<lambda>content_end.
     let actual = byte_range (rh_end h) path_end bytes in
     bindR (search_relative display_root actual) (\<lambda>relative.
     Inr (\<lparr>sr_actual_path = encode_bytes base64 actual, sr_relative_path = encode_bytes base64 relative,
           sr_line = rh_line h, sr_column = rh_column h,
           sr_content = encode_bytes base64 (byte_range path_end content_end bytes)\<rparr>, content_end)))))"

lemma end_within_Some:
  "end_within bytes start n = Some e \<longleftrightarrow> e = start + n \<and> e \<le> length bytes \<and> e \<le> u64_max"
  by (auto simp: end_within_def checked_add_def)

lemma parse_native_record_advances:
  "parse_native_record base64 bytes display_root offset = Inr (m, e) \<Longrightarrow> offset < e \<and> e \<le> length bytes"
  by (auto simp: parse_native_record_def parse_record_header_def RECORD_HEADER_BYTES_def end_within_Some
      bindR_def ok_or_def Let_def split: sum.splits option.splits if_splits)

function parse_native_search_records ::
  "(string \<Rightarrow> string) \<Rightarrow> string \<Rightarrow> string \<Rightarrow> nat \<Rightarrow> nat \<Rightarrow> search_match list \<Rightarrow> bool
     \<Rightarrow> (search_match list \<times> bool) bridge_result"
where
  "parse_native_search_records base64 bytes display_root retain offset matches lookahead =
     (if length bytes \<le> offset then Inr (matches, lookahead)
      else
        (case parse_native_record base64 bytes display_root offset of
           Inl e \<Rightarrow> Inl e
         | Inr (m, content_end) \<Rightarrow>
             if length matches < retain then
               parse_native_search_records base64 bytes display_root retain content_end (matches @ [m]) lookahead
             else parse_native_search_records base64 bytes display_root retain content_end matches True))"
  by pat_completeness auto
termination
  by (relation "measure (\<lambda>(_, bytes, _, _, offset, _, _). length bytes - offset)")
    (auto dest: parse_native_record_advances)

declare parse_native_search_records.simps [simp del]

section \<open>Reading back\<close>

text \<open>\<open>Path::join\<close> with a relative name.\<close>

definition search_path :: "string \<Rightarrow> string \<Rightarrow> string" where
  "search_path root rel = (if strip_suffix ''/'' root \<noteq> None then root @ rel else root @ ''/'' @ rel)"

lemma search_relative_path: "search_relative root (search_path root rel) = Inr rel"
  by (simp add: search_relative_def search_path_def ok_or_def strip_prefix_def)

text \<open>What the client sees of a match.\<close>

definition reported_match ::
  "(string \<Rightarrow> string) \<Rightarrow> string \<Rightarrow> string \<times> nat \<times> nat \<times> string \<Rightarrow> search_match"
where
  "reported_match base64 root = (\<lambda>(rel, line, column, content).
     \<lparr>sr_actual_path = encode_bytes base64 (search_path root rel),
      sr_relative_path = encode_bytes base64 rel, sr_line = line, sr_column = column,
      sr_content = encode_bytes base64 content\<rparr>)"

definition encoded_match :: "string \<Rightarrow> string \<times> nat \<times> nat \<times> string \<Rightarrow> string + string" where
  "encoded_match root = (\<lambda>(rel, line, column, content).
     encode_search_match (search_path root rel) line column content)"

lemma encode_search_match_shape:
  assumes "encode_search_match path line column content = Inr rcd"
  shows "rcd = ''CXSM1'' @ le_bytes 4 (length path) @ le_bytes 8 line @ le_bytes 8 column @
      le_bytes 4 (length content) @ path @ content"
    "length path \<le> u32_max" "length content \<le> u32_max"
  using assms by (auto simp: encode_search_match_def u32_try_from_def bindR_def ok_or_def
      split: if_splits option.splits)

lemma byte_range_append: "length a = i \<Longrightarrow> i + length b = j \<Longrightarrow> byte_range i j (a @ b @ c) = b"
  by (auto simp: byte_range_def)

lemma parse_record_header_encoded:
  assumes "encode_search_match path line column content = Inr rcd" "0 < line" "0 < column"
    "line \<le> u64_max" "column \<le> u64_max" "length (before @ rcd @ later) \<le> u64_max"
  shows "parse_record_header (before @ rcd @ later) (length before) =
    Inr \<lparr>rh_end = length before + 29, rh_path_length = length path, rh_line = line, rh_column = column,
         rh_content_length = length content\<rparr>"
proof -
  note r = encode_search_match_shape[OF assms(1)]
  let ?h = "''CXSM1'' @ le_bytes 4 (length path) @ le_bytes 8 line @ le_bytes 8 column @ le_bytes 4 (length content)"
  define hdr where "hdr = ?h"
  have h: "byte_range (length before) (length before + 29) (before @ rcd @ later) = hdr"
    using byte_range_append [of before "length before" ?h "length before + 29" "path @ content @ later"]
    by (simp add: r(1) hdr_def)
  have e: "end_within (before @ rcd @ later) (length before) 29 = Some (length before + 29)"
    using assms(6) by (simp add: end_within_Some r(1))
  have parts: "take 5 hdr = ''CXSM1''" "byte_range 5 9 hdr = le_bytes 4 (length path)"
    "byte_range 9 17 hdr = le_bytes 8 line" "byte_range 17 25 hdr = le_bytes 8 column"
    "byte_range 25 29 hdr = le_bytes 4 (length content)"
    by (simp_all add: byte_range_def hdr_def)
  show ?thesis
    using assms(2-5) r(2,3) by (simp add: parse_record_header_def RECORD_HEADER_BYTES_def e h parts bindR_def
        ok_or_def Let_def le_value_bytes_32 le_value_bytes_64)
qed

lemma parse_native_record_encoded:
  assumes "encoded_match root (rel, line, column, content) = Inr rcd" "0 < line" "0 < column"
    "line \<le> u64_max" "column \<le> u64_max" "length (before @ rcd @ later) \<le> u64_max"
  shows "parse_native_record base64 (before @ rcd @ later) root (length before) =
    Inr (reported_match base64 root (rel, line, column, content), length before + length rcd)"
proof -
  let ?path = "search_path root rel" and ?bytes = "before @ rcd @ later"
  have enc: "encode_search_match ?path line column content = Inr rcd"
    using assms(1) by (simp add: encoded_match_def)
  note r = encode_search_match_shape[OF enc]
  note h = parse_record_header_encoded[OF enc assms(2-6)]
  have p: "end_within ?bytes (length before + 29) (length ?path) = Some (length before + 29 + length ?path)"
    "end_within ?bytes (length before + 29 + length ?path) (length content) = Some (length before + length rcd)"
    using assms(6) by (simp_all add: end_within_Some r(1))
  obtain hdr where hdr: "rcd = hdr @ ?path @ content" "length hdr = 29"
    using r(1) by (intro that [of "''CXSM1'' @ le_bytes 4 (length ?path) @ le_bytes 8 line @
      le_bytes 8 column @ le_bytes 4 (length content)"]) simp_all
  have b: "byte_range (length before + 29) (length before + 29 + length ?path) ?bytes = ?path"
    "byte_range (length before + 29 + length ?path) (length before + length rcd) ?bytes = content"
    using byte_range_append [of "before @ hdr" "length before + 29" ?path _ "content @ later"]
      byte_range_append [of "before @ hdr @ ?path" "length before + 29 + length ?path" content _ later]
    by (simp_all add: hdr add.assoc)
  show ?thesis
    by (simp add: parse_native_record_def h p b bindR_def ok_or_def Let_def search_relative_path reported_match_def)
qed

lemma parse_native_records_encoded:
  "map (encoded_match root) xs = map Inr records \<Longrightarrow>
   \<forall>(rel, line, column, content) \<in> set xs. 0 < line \<and> 0 < column \<and> line \<le> u64_max \<and> column \<le> u64_max \<Longrightarrow>
   length (before @ concat records) \<le> u64_max \<Longrightarrow>
   parse_native_search_records base64 (before @ concat records) root retain (length before) ms lookahead =
     Inr (ms @ take (retain - length ms) (map (reported_match base64 root) xs),
          lookahead \<or> (xs \<noteq> [] \<and> retain < length ms + length xs))"
proof (induction xs arbitrary: records before ms lookahead)
  case Nil
  then show ?case by (simp add: parse_native_search_records.simps)
next
  case (Cons x xs)
  obtain rel line column content where x: "x = (rel, line, column, content)" by (cases x)
  obtain rcd rs where r: "records = rcd # rs" "encoded_match root x = Inr rcd"
    "map (encoded_match root) xs = map Inr rs"
    using Cons.prems(1) by (cases records) auto
  have "parse_native_record base64 (before @ concat records) root (length before) =
      Inr (reported_match base64 root x, length before + length rcd)"
    using parse_native_record_encoded [of root rel line column content rcd before "concat rs"]
      r Cons.prems(2,3) x by auto
  moreover have "rcd \<noteq> []"
    using r(2) encode_search_match_shape(1) by (fastforce simp: x encoded_match_def)
  moreover have "parse_native_search_records base64 (before @ concat records) root retain
      (length before + length rcd) ms' l =
      Inr (ms' @ take (retain - length ms') (map (reported_match base64 root) xs),
          l \<or> (xs \<noteq> [] \<and> retain < length ms' + length xs))" for ms' l
    using Cons.IH [OF r(3), of "before @ rcd" ms' l] Cons.prems(2,3) r(1) by auto
  ultimately show ?case
    using r(1) by (subst parse_native_search_records.simps) (auto simp: Suc_diff_le not_less take_Cons')
qed

text \<open>C27: What the helper encodes for its matches, one record after the other, the bridge reads back as
  the same paths, positions and lines, keeps as many as asked for, and notices when there are more.\<close>

theorem native_records_read_back:
  assumes "map (encoded_match root) xs = map Inr records"
    "\<forall>(rel, line, column, content) \<in> set xs. 0 < line \<and> 0 < column \<and> line \<le> u64_max \<and> column \<le> u64_max"
    "length (concat records) \<le> u64_max"
  shows "parse_native_search_records base64 (concat records) root retain 0 [] False =
    Inr (take retain (map (reported_match base64 root) xs), retain < length xs)"
  using parse_native_records_encoded [OF assms(1,2), of "[]" base64 retain "[]" False] assms(3) by auto

theorem native_records_read_back_witness:
  "\<exists>rcd. encoded_match ''/r'' (''f'', 3, 2, ''xab'') = Inr rcd \<and>
     parse_native_search_records id (concat [rcd]) ''/r'' 1 0 [] False =
       Inr ([reported_match id ''/r'' (''f'', 3, 2, ''xab'')], False)"
proof -
  have "case encoded_match ''/r'' (''f'', 3, 2, ''xab'') of Inr rcd \<Rightarrow> length rcd \<le> 100 | Inl e \<Rightarrow> False"
    by code_simp
  then obtain rcd where r: "encoded_match ''/r'' (''f'', 3, 2, ''xab'') = Inr rcd" "length rcd \<le> 100"
    by (auto split: sum.splits)
  from native_records_read_back [of "''/r''" "[(''f'', 3, 2, ''xab'')]" "[rcd]" id 1] r
  show ?thesis by (auto simp: u64_max_def)
qed

end
