(* ===== verification/Helper_Walk.thy ===== *)
theory Helper_Walk
  imports Helper_Request Search_Records "HOL-Library.List_Lexorder" "HOL-Library.Char_ord"
begin

text \<open>
  The native search of the remote helper (\<open>execute_search\<close> in \<open>src/remote_helper.rs\<close>): the walk of the
  tree below the root, the limits on results and bytes, and the frames that are sent.  The tree is a
  value; the contents of a file are what each opening of it yields.  The cancel flag and the clock
  are read at successive instants, numbered by the model.  Globs are compiled and matched by a
  library, a parameter.  The walk is a loop with a stack, a function that might not return.
\<close>

datatype fs_node =
    File_Node "string + read_event list" "string + read_event list"
  | Dir_Node bool "(string \<times> fs_node) list"
  | Link_Node
  | Other_Node
  | Unknown_Node

datatype root_node = Root_Not_Found | Root_Denied | Root_Failed | Root_Other | Root_Directory bool "(string \<times> fs_node) list"

record search_env =
  en_cancelled :: "nat \<Rightarrow> bool"
  en_expired :: "nat \<Rightarrow> bool"
  en_glob_ok :: "string \<Rightarrow> bool"
  en_glob_match :: "string list \<Rightarrow> string \<Rightarrow> bool"
  en_finder :: "string \<Rightarrow> string \<Rightarrow> nat option"
  en_newlines :: "string \<Rightarrow> nat list"
  en_nul_at :: "string \<Rightarrow> nat option"
  en_max_frame :: nat

record walk_state =
  wk_clock :: nat
  wk_frames :: "frame list"
  wk_seen :: nat
  wk_matched :: nat
  wk_truncated :: bool
  wk_timed_out :: bool

definition walk_start :: walk_state where
  "walk_start = \<lparr>wk_clock = 0, wk_frames = [], wk_seen = 0, wk_matched = 0, wk_truncated = False,
                 wk_timed_out = False\<rparr>"

definition tick :: "walk_state \<Rightarrow> walk_state" where
  "tick st = st\<lparr>wk_clock := Suc (wk_clock st)\<rparr>"

definition deadline_passed :: "search_env \<Rightarrow> search_spec \<Rightarrow> nat \<Rightarrow> bool" where
  "deadline_passed en spec now \<longleftrightarrow> es_timeout_ms spec \<noteq> 0 \<and> en_expired en now"

definition file_name :: "string \<Rightarrow> string" where
  "file_name relative = last (split_on (CHR ''/'') relative)"

definition helper_matches_globs :: "search_env \<Rightarrow> string list \<Rightarrow> string \<Rightarrow> bool" where
  "helper_matches_globs en patterns relative \<longleftrightarrow>
     patterns = [] \<or> en_glob_match en patterns relative \<or> en_glob_match en patterns (file_name relative)"

definition compile_globs :: "search_env \<Rightarrow> string list \<Rightarrow> string + unit" where
  "compile_globs en globs =
     (if list_all (en_glob_ok en) globs then Inr () else Inl ''invalid-search-glob'')"

definition stdout_frame :: "64 word \<Rightarrow> string \<Rightarrow> frame" where
  "stdout_frame request_id payload =
     \<lparr>fr_kind = Stdout, fr_request_id = request_id, fr_payload = payload\<rparr>"

definition exit_frame :: "64 word \<Rightarrow> string \<Rightarrow> frame" where
  "exit_frame request_id payload =
     \<lparr>fr_kind = Exit, fr_request_id = request_id, fr_payload = payload\<rparr>"

section \<open>The matches of one file\<close>

text \<open>A frame beyond the limit is refused by the writer; after a cancel nothing is sent.\<close>

fun emit_matches ::
  "search_env \<Rightarrow> search_spec \<Rightarrow> string \<Rightarrow> found_match list \<Rightarrow> walk_state \<Rightarrow> (string + unit) \<times> walk_state"
where
  "emit_matches en spec path [] st = (Inr (), st)"
| "emit_matches en spec path (found # rest) st =
     (case encode_search_match path (fm_line found) (fm_column found) (fm_content found) of
        Inl e \<Rightarrow> (Inl e, st)
      | Inr encoded \<Rightarrow>
          if saturating_sub (es_stdout_limit spec) (wk_seen st) < length encoded then
            (Inr (), st\<lparr>wk_truncated := True\<rparr>)
          else
            (let cancelled = en_cancelled en (wk_clock st); st1 = tick st in
             if \<not> cancelled \<and> en_max_frame en < length encoded then (Inl ''search-output-write-failed'', st1)
             else
               (let st2 = st1\<lparr>wk_frames := (if cancelled then wk_frames st1
                                else wk_frames st1 @ [stdout_frame (es_request_id spec) encoded]),
                              wk_seen := saturating_add (wk_seen st1) (length encoded),
                              wk_matched := saturating_add (wk_matched st1) 1\<rparr>
                in if es_max_results spec \<le> wk_matched st2 then (Inr (), st2)
                   else emit_matches en spec path rest st2)))"

definition walk_done :: "search_spec \<Rightarrow> walk_state \<Rightarrow> bool" where
  "walk_done spec st \<longleftrightarrow> es_max_results spec \<le> wk_matched st \<or> wk_truncated st \<or> wk_timed_out st"

definition file_params :: "search_env \<Rightarrow> search_spec \<Rightarrow> walk_state \<Rightarrow> search_params" where
  "file_params en spec st =
     \<lparr>sp_finder = en_finder en (es_query spec), sp_newlines = en_newlines en, sp_nul_at = en_nul_at en,
      sp_query = es_query spec, sp_binary = es_binary spec,
      sp_max_results = saturating_sub (es_max_results spec) (wk_matched st),
      sp_content_budget = saturating_sub (es_stdout_limit spec) (wk_seen st)\<rparr>"

definition visit_file ::
  "search_env \<Rightarrow> search_spec \<Rightarrow> string \<Rightarrow> string + read_event list \<Rightarrow> string + read_event list \<Rightarrow> walk_state
     \<Rightarrow> (string + unit) \<times> walk_state"
where
  "visit_file en spec relative first_open second_open st =
     (case search_file (file_params en spec st) first_open second_open of
        Inl e \<Rightarrow> (Inl e, st)
      | Inr outcome \<Rightarrow>
          emit_matches en spec (search_path (es_root spec) relative) (so_matches outcome)
            (st\<lparr>wk_timed_out := (wk_timed_out st \<or> so_timed_out outcome),
                wk_truncated := (wk_truncated st \<or> so_output_truncated outcome)\<rparr>))"

section \<open>One directory\<close>

text \<open>A directory waits on the stack with its name relative to the root, empty for the root itself.\<close>

type_synonym walk_item = "string \<times> bool \<times> (string \<times> fs_node) list"

definition child_path :: "string \<Rightarrow> string \<Rightarrow> string" where
  "child_path parent name = (if parent = [] then name else parent @ ''/'' @ name)"

fun visit_entries ::
  "search_env \<Rightarrow> search_spec \<Rightarrow> string \<Rightarrow> (string \<times> fs_node) list \<Rightarrow> walk_item list \<Rightarrow> walk_state
     \<Rightarrow> (string + walk_item list) \<times> walk_state"
where
  "visit_entries en spec parent [] paths st = (Inr paths, st)"
| "visit_entries en spec parent ((name, node) # entries) paths st =
     (let st1 = tick st; relative = child_path parent name in
      if en_cancelled en (wk_clock st) then (Inr paths, st1)
      else
        (case node of
           Unknown_Node \<Rightarrow> (Inl ''search-entry-metadata-failed'', st1)
         | Link_Node \<Rightarrow> visit_entries en spec parent entries paths st1
         | Other_Node \<Rightarrow> visit_entries en spec parent entries paths st1
         | Dir_Node readable children \<Rightarrow>
             visit_entries en spec parent entries ((relative, readable, children) # paths) st1
         | File_Node first_open second_open \<Rightarrow>
             if \<not> helper_matches_globs en (es_globs spec) relative then
               visit_entries en spec parent entries paths st1
             else
               (case visit_file en spec relative first_open second_open st1 of
                  (Inl e, st2) \<Rightarrow> (Inl e, st2)
                | (Inr _, st2) \<Rightarrow>
                    if walk_done spec st2 then (Inr paths, st2)
                    else visit_entries en spec parent entries paths st2)))"

section \<open>The walk\<close>

partial_function (option) search_walk ::
  "search_env \<Rightarrow> search_spec \<Rightarrow> walk_item list \<Rightarrow> walk_state \<Rightarrow> ((string + unit) \<times> walk_state) option"
where
  "search_walk en spec paths st =
     (case paths of
        [] \<Rightarrow> Some (Inr (), st)
      | (parent, readable, entries) # rest \<Rightarrow>
          if en_cancelled en (wk_clock st) then Some (Inr (), tick st)
          else if deadline_passed en spec (Suc (wk_clock st)) then
            Some (Inr (), (tick (tick st))\<lparr>wk_timed_out := True\<rparr>)
          else if \<not> readable then Some (Inl ''search-directory-read-failed'', tick (tick st))
          else
            (case visit_entries en spec parent (rev (sort_key fst entries)) rest (tick (tick st)) of
               (Inl e, st1) \<Rightarrow> Some (Inl e, st1)
             | (Inr stack, st1) \<Rightarrow>
                 if walk_done spec st1 then Some (Inr (), st1) else search_walk en spec stack st1))"

definition bool_digit :: "bool \<Rightarrow> string" where
  "bool_digit b = (if b then ''1'' else ''0'')"

definition exit_payload :: "string \<Rightarrow> bool \<Rightarrow> bool \<Rightarrow> bool \<Rightarrow> bool \<Rightarrow> string" where
  "exit_payload status stdout_truncated stderr_truncated may_continue timed_out =
     status @ [LF] @ bool_digit stdout_truncated @ [LF] @ bool_digit stderr_truncated @ [LF] @
     bool_digit may_continue @ [LF] @ bool_digit timed_out @ [LF]"

definition finish_search :: "search_env \<Rightarrow> search_spec \<Rightarrow> walk_state \<Rightarrow> (string + unit) \<times> frame list" where
  "finish_search en spec st =
     (let status = (if en_cancelled en (wk_clock st) then ''130'' else ''0'');
          payload = exit_payload status (wk_truncated st) False False (wk_timed_out st) in
      if en_max_frame en < length payload then (Inl ''search-exit-write-failed'', wk_frames st)
      else (Inr (), wk_frames st @ [exit_frame (es_request_id spec) payload]))"

definition execute_search ::
  "search_env \<Rightarrow> search_spec \<Rightarrow> root_node \<Rightarrow> ((string + unit) \<times> frame list) option"
where
  "execute_search en spec root =
     (case root of
        Root_Not_Found \<Rightarrow> Some (Inl ''search-root-not-found'', [])
      | Root_Denied \<Rightarrow> Some (Inl ''search-root-permission-denied'', [])
      | Root_Failed \<Rightarrow> Some (Inl ''search-root-metadata-failed'', [])
      | Root_Other \<Rightarrow> Some (Inl ''search-root-not-directory'', [])
      | Root_Directory readable entries \<Rightarrow>
          (case compile_globs en (es_globs spec) of
             Inl e \<Rightarrow> Some (Inl e, [])
           | Inr _ \<Rightarrow>
               (case search_walk en spec [([], readable, entries)] walk_start of
                  None \<Rightarrow> None
                | Some (Inl e, st) \<Rightarrow> Some (Inl e, wk_frames st)
                | Some (Inr _, st) \<Rightarrow> Some (finish_search en spec st))))"

end
