(* ===== verification/Walk_Properties.thy ===== *)
theory Walk_Properties
  imports Helper_Walk "HOL-Library.Multiset"
begin

text \<open>
  The walk of a native search ends, stays within its limits, and streams only matches of regular
  files that are reached from the root through directories.
\<close>

section \<open>The tree below the root\<close>

inductive tree_dir :: "(string \<times> fs_node) list \<Rightarrow> string \<Rightarrow> (string \<times> fs_node) list \<Rightarrow> bool" for root where
  tree_root: "tree_dir root [] root"
| tree_child: "tree_dir root parent entries \<Longrightarrow> (name, Dir_Node readable children) \<in> set entries \<Longrightarrow>
    tree_dir root (child_path parent name) children"

definition tree_file ::
  "(string \<times> fs_node) list \<Rightarrow> string \<Rightarrow> string + read_event list \<Rightarrow> string + read_event list \<Rightarrow> bool" where
  "tree_file root relative first_open second_open \<longleftrightarrow>
     (\<exists>parent entries name. tree_dir root parent entries \<and> relative = child_path parent name \<and>
        (name, File_Node first_open second_open) \<in> set entries)"

text \<open>The record of a match that a search of a file of the tree reports.\<close>

definition found_below :: "search_env \<Rightarrow> search_spec \<Rightarrow> (string \<times> fs_node) list \<Rightarrow> string \<Rightarrow> bool" where
  "found_below en spec root encoded \<longleftrightarrow>
     (\<exists>relative first_open second_open st outcome found.
        tree_file root relative first_open second_open \<and> helper_matches_globs en (es_globs spec) relative \<and>
        search_file (file_params en spec st) first_open second_open = Inr outcome \<and>
        found \<in> set (so_matches outcome) \<and>
        encode_search_match (search_path (es_root spec) relative) (fm_line found) (fm_column found)
          (fm_content found) = Inr encoded)"

section \<open>Invariant\<close>

definition walk_ok :: "search_env \<Rightarrow> search_spec \<Rightarrow> (string \<times> fs_node) list \<Rightarrow> walk_state \<Rightarrow> bool" where
  "walk_ok en spec root st \<longleftrightarrow>
     (\<forall>f\<in>set (wk_frames st). f = stdout_frame (es_request_id spec) (fr_payload f) \<and>
        found_below en spec root (fr_payload f) \<and> length (fr_payload f) \<le> en_max_frame en) \<and>
     sum_list (map (length \<circ> fr_payload) (wk_frames st)) \<le> wk_seen st \<and> wk_seen st \<le> es_stdout_limit spec \<and>
     length (wk_frames st) \<le> wk_matched st \<and> wk_matched st \<le> es_max_results spec"

lemma walk_ok_tick [simp]: "walk_ok en spec root (tick st) = walk_ok en spec root st"
  by (simp add: walk_ok_def tick_def)

lemma emit_matches_ok:
  "walk_ok en spec root st \<Longrightarrow> wk_matched st < es_max_results spec \<Longrightarrow> es_stdout_limit spec \<le> u64_max \<Longrightarrow>
   es_max_results spec \<le> u64_max \<Longrightarrow>
   \<forall>found\<in>set matches. \<forall>encoded.
     encode_search_match path (fm_line found) (fm_column found) (fm_content found) = Inr encoded \<longrightarrow>
     found_below en spec root encoded \<Longrightarrow>
   emit_matches en spec path matches st = (r, st') \<Longrightarrow> walk_ok en spec root st'"
proof (induction matches arbitrary: st)
  case (Cons found matches)
  show ?case
  proof (cases "encode_search_match path (fm_line found) (fm_column found) (fm_content found)")
    case (Inl e)
    then show ?thesis using Cons.prems by simp
  next
    case (Inr encoded)
    let ?st = "(tick st)\<lparr>wk_frames := (if en_cancelled en (wk_clock st) then wk_frames st
        else wk_frames st @ [stdout_frame (es_request_id spec) encoded]),
      wk_seen := saturating_add (wk_seen st) (length encoded), wk_matched := saturating_add (wk_matched st) 1\<rparr>"
    consider (over) "es_stdout_limit spec - wk_seen st < length encoded"
      | (refused) "\<not> en_cancelled en (wk_clock st)" "en_max_frame en < length encoded"
          "length encoded \<le> es_stdout_limit spec - wk_seen st"
      | (sent) "length encoded \<le> es_stdout_limit spec - wk_seen st"
          "en_cancelled en (wk_clock st) \<or> length encoded \<le> en_max_frame en"
      by linarith
    then show ?thesis
    proof cases
      case over
      then show ?thesis using Cons.prems Inr by (auto simp: saturating_sub_def walk_ok_def)
    next
      case refused
      then show ?thesis using Cons.prems Inr by (auto simp: saturating_sub_def Let_def tick_def walk_ok_def)
    next
      case sent
      have add: "saturating_add (wk_seen st) (length encoded) = wk_seen st + length encoded"
        "saturating_add (wk_matched st) 1 = wk_matched st + 1"
        using sent(1) Cons.prems(1-4) by (auto simp: saturating_add_def walk_ok_def)
      have ok: "walk_ok en spec root ?st"
        using Cons.prems(1,2,5) Inr sent add
        by (auto simp: walk_ok_def stdout_frame_def saturating_sub_def)
      have "emit_matches en spec path (found # matches) st =
          (if es_max_results spec \<le> wk_matched ?st then (Inr (), ?st)
           else emit_matches en spec path matches ?st)"
        using Inr sent by (auto simp: saturating_sub_def Let_def tick_def)
      then show ?thesis
        using Cons.IH [OF ok _ Cons.prems(3,4)] Cons.prems(5,6) ok by (auto split: if_splits)
    qed
  qed
qed simp

lemma visit_file_ok:
  assumes "walk_ok en spec root st" "es_stdout_limit spec \<le> u64_max" "es_max_results spec \<le> u64_max"
    "tree_file root relative first_open second_open" "helper_matches_globs en (es_globs spec) relative"
    "visit_file en spec relative first_open second_open st = (r, st')"
  shows "walk_ok en spec root st'"
proof (cases "search_file (file_params en spec st) first_open second_open")
  case (Inl e)
  then show ?thesis using assms(1,6) by (simp add: visit_file_def)
next
  case (Inr outcome)
  let ?st = "st\<lparr>wk_timed_out := wk_timed_out st \<or> so_timed_out outcome,
    wk_truncated := wk_truncated st \<or> so_output_truncated outcome\<rparr>"
  have ok: "walk_ok en spec root ?st" using assms(1) by (simp add: walk_ok_def)
  have e: "emit_matches en spec (search_path (es_root spec) relative) (so_matches outcome) ?st = (r, st')"
    using assms(6) Inr by (simp add: visit_file_def)
  have found: "\<forall>found\<in>set (so_matches outcome). \<forall>encoded.
      encode_search_match (search_path (es_root spec) relative) (fm_line found) (fm_column found)
        (fm_content found) = Inr encoded \<longrightarrow> found_below en spec root encoded"
    unfolding found_below_def using assms(4,5) Inr by blast
  show ?thesis
  proof (cases "wk_matched st < es_max_results spec")
    case True
    then show ?thesis using emit_matches_ok [OF ok _ assms(2,3) found e] by simp
  next
    case False
    then have "sp_max_results (file_params en spec st) = 0" by (simp add: file_params_def saturating_sub_def)
    then have "so_matches outcome = []" using Inr by (auto simp: search_file_def)
    then show ?thesis using e ok by simp
  qed
qed

definition paths_ok :: "(string \<times> fs_node) list \<Rightarrow> walk_item list \<Rightarrow> bool" where
  "paths_ok root paths \<longleftrightarrow> (\<forall>(parent, readable, entries) \<in> set paths. tree_dir root parent entries)"

lemma visit_entries_ok:
  "visit_entries en spec parent entries paths st = (r, st') \<Longrightarrow> walk_ok en spec root st \<Longrightarrow>
   es_stdout_limit spec \<le> u64_max \<Longrightarrow> es_max_results spec \<le> u64_max \<Longrightarrow>
   tree_dir root parent all_entries \<Longrightarrow> set entries \<subseteq> set all_entries \<Longrightarrow> paths_ok root paths \<Longrightarrow>
   walk_ok en spec root st' \<and> (\<forall>stack. r = Inr stack \<longrightarrow> paths_ok root stack)"
proof (induction entries arbitrary: paths st)
  case (Cons entry entries)
  obtain name node where entry: "entry = (name, node)" by (cases entry)
  note IH = Cons.IH [OF _ _ Cons.prems(3-5)]
  have ok: "walk_ok en spec root (tick st)" using Cons.prems(2) by simp
  show ?case
  proof (cases node)
    case (File_Node first_open second_open)
    obtain r1 st1 where v: "visit_file en spec (child_path parent name) first_open second_open (tick st) = (r1, st1)"
      by fastforce
    have "tree_file root (child_path parent name) first_open second_open"
      using Cons.prems(5,6) entry File_Node by (auto simp: tree_file_def)
    then have ok1: "walk_ok en spec root st1" if "helper_matches_globs en (es_globs spec) (child_path parent name)"
      using visit_file_ok [OF ok Cons.prems(3,4) _ that v] by simp
    show ?thesis
      using Cons.prems(1,2,6,7) IH [OF _ ok] IH [OF _ ok1] v ok ok1 entry File_Node
      by (auto simp: Let_def split: if_splits sum.splits)
  next
    case (Dir_Node readable children)
    have "paths_ok root ((child_path parent name, readable, children) # paths)"
      using Cons.prems(5-7) entry Dir_Node tree_child by (fastforce simp: paths_ok_def)
    then show ?thesis
      using Cons.prems(1,2,6,7) IH [OF _ ok] ok entry Dir_Node by (auto simp: Let_def split: if_splits)
  qed (use Cons.prems(1,2,6,7) IH [OF _ ok] ok entry in \<open>auto simp: Let_def split: if_splits\<close>)
qed auto

section \<open>The walk ends\<close>

definition entries_size :: "(string \<times> fs_node) list \<Rightarrow> nat" where
  "entries_size entries = size_list (size_prod (\<lambda>_. 0) size) entries"

definition stack_size :: "walk_item list \<Rightarrow> nat" where
  "stack_size paths = (\<Sum>(parent, readable, entries) \<leftarrow> paths. Suc (entries_size entries))"

lemma entries_size_simps [simp]:
  "entries_size [] = 0"
  "entries_size ((name, node) # entries) = entries_size entries + size node + 2"
  by (simp_all add: entries_size_def)

lemma entries_size_sort: "entries_size (rev (sort_key fst entries)) = entries_size entries"
proof -
  have "entries_size es = (\<Sum>e\<in>#mset es. size_prod (\<lambda>_. 0) size e) + size (mset es)" for es
    unfolding entries_size_def size_list_conv_sum_list by (simp add: sum_mset_sum_list flip: mset_map)
  then show ?thesis by simp
qed

lemma visit_entries_size:
  "visit_entries en spec parent entries paths st = (Inr stack, st') \<Longrightarrow>
   stack_size stack \<le> stack_size paths + entries_size entries"
proof (induction entries arbitrary: paths st)
  case (Cons entry entries)
  obtain name node where entry: "entry = (name, node)" by (cases entry)
  show ?case
  proof (cases node)
    case (Dir_Node readable children)
    then show ?thesis
      using Cons.prems entry Cons.IH [of "(child_path parent name, readable, children) # paths" "tick st"]
      by (auto simp: Let_def stack_size_def entries_size_def [of children] split: if_splits)
  next
    case (File_Node first_open second_open)
    then show ?thesis
      using Cons.prems entry by (auto simp: Let_def split: if_splits prod.splits sum.splits dest!: Cons.IH)
  qed (use Cons.prems entry in \<open>auto simp: Let_def split: if_splits dest!: Cons.IH\<close>)
qed simp

lemma stack_size_Cons [simp]:
  "stack_size ((parent, readable, entries) # paths) = Suc (entries_size entries) + stack_size paths"
  by (simp add: stack_size_def)

lemma search_walk_returns:
  "paths_ok root paths \<Longrightarrow> walk_ok en spec root st \<Longrightarrow> es_stdout_limit spec \<le> u64_max \<Longrightarrow>
   es_max_results spec \<le> u64_max \<Longrightarrow>
   \<exists>r st'. search_walk en spec paths st = Some (r, st') \<and> walk_ok en spec root st'"
proof (induction "stack_size paths" arbitrary: paths st rule: less_induct)
  case less
  show ?case
  proof (cases paths)
    case Nil
    then show ?thesis using less.prems(2) by (simp add: search_walk.simps)
  next
    case (Cons item rest)
    obtain parent readable entries where item: "item = (parent, readable, entries)" by (cases item)
    have dir: "tree_dir root parent entries" "paths_ok root rest"
      using less.prems(1) Cons item by (auto simp: paths_ok_def)
    obtain r1 st1 where v: "visit_entries en spec parent (rev (sort_key fst entries)) rest (tick (tick st)) = (r1, st1)"
      by fastforce
    have ok: "walk_ok en spec root st1" "r1 = Inr stack \<Longrightarrow> paths_ok root stack" for stack
      using visit_entries_ok [OF v _ less.prems(3,4) dir(1) _ dir(2)] less.prems(2) by auto
    have smaller: "stack_size stack < stack_size paths" if "r1 = Inr stack" for stack
      using visit_entries_size v that Cons item by (fastforce simp: entries_size_sort)
    have ok': "walk_ok en spec root (st\<lparr>wk_timed_out := b\<rparr>)" for b
      using less.prems(2) by (simp add: walk_ok_def)
    show ?thesis
      using less.prems(2) ok' less.hyps [OF smaller ok(2) ok(1) less.prems(3,4)] ok(1) Cons item v
      by (subst search_walk.simps) (auto simp: walk_ok_def tick_def split: sum.splits)
  qed
qed

lemma finish_search_frames:
  "snd (finish_search en spec st) = wk_frames st \<or>
   (\<exists>payload. snd (finish_search en spec st) = wk_frames st @ [exit_frame (es_request_id spec) payload])"
  by (simp add: finish_search_def Let_def) blast

text \<open>C17: A native search always returns, whatever the tree, the clock and the contents of the files;
  it streams at most the bytes and the results it was asked for, each in a frame within the limit,
  and each the record of a match in a regular file that the globs select and that is reached from
  the root through directories only, never through a link.\<close>

theorem native_search_returns:
  assumes "es_stdout_limit spec \<le> u64_max" "es_max_results spec \<le> u64_max"
  shows "\<exists>r frames. execute_search en spec (Root_Directory readable root) = Some (r, frames) \<and>
    (let streamed = filter (\<lambda>f. fr_kind f = Stdout) frames in
      sum_list (map (length \<circ> fr_payload) streamed) \<le> es_stdout_limit spec \<and>
      length streamed \<le> es_max_results spec \<and>
      (\<forall>f\<in>set streamed. fr_request_id f = es_request_id spec \<and> length (fr_payload f) \<le> en_max_frame en \<and>
         found_below en spec root (fr_payload f)) \<and>
      (\<forall>f\<in>set frames. fr_kind f = Stdout \<or> f = last frames \<and> fr_kind f = Exit))"
proof -
  have start: "paths_ok root [([], readable, root)]" "walk_ok en spec root walk_start"
    by (auto simp: paths_ok_def tree_root walk_ok_def walk_start_def)
  obtain r st where w: "search_walk en spec [([], readable, root)] walk_start = Some (r, st)" "walk_ok en spec root st"
    using search_walk_returns [OF start assms] by blast
  have st: "\<forall>f\<in>set (wk_frames st). fr_kind f = Stdout \<and> fr_request_id f = es_request_id spec"
    using w(2) unfolding walk_ok_def stdout_frame_def by (metis frame.select_convs(1,2))
  have all: "filter (\<lambda>f. fr_kind f = Stdout) (wk_frames st) = wk_frames st"
    using st by (intro filter_True) simp
  show ?thesis
  proof (cases "compile_globs en (es_globs spec)")
    case (Inl e)
    then show ?thesis by (simp add: execute_search_def)
  next
    case (Inr u)
    obtain frames r' where e: "execute_search en spec (Root_Directory readable root) = Some (r', frames)"
      "frames = wk_frames st \<or> (\<exists>payload. frames = wk_frames st @ [exit_frame (es_request_id spec) payload])"
      using Inr w(1) finish_search_frames [of en spec st]
      by (cases r; cases "finish_search en spec st") (auto simp: execute_search_def)
    then show ?thesis
      using w(2) all st by (auto simp: walk_ok_def exit_frame_def Let_def)
  qed
qed

definition walk_demo_env :: search_env where
  "walk_demo_env = \<lparr>en_cancelled = (\<lambda>_. False), en_expired = (\<lambda>_. False), en_glob_ok = (\<lambda>_. True),
     en_glob_match = (\<lambda>_ _. True), en_finder = (\<lambda>_ _. Some 0), en_newlines = (\<lambda>_. []),
     en_nul_at = (\<lambda>_. None), en_max_frame = 100\<rparr>"

definition demo_search :: search_spec where
  "demo_search = \<lparr>es_request_id = 7, es_root = ''/r'', es_query = ''a'', es_globs = [], es_max_results = 4,
     es_binary = False, es_timeout_ms = 0, es_stdout_limit = 80\<rparr>"

theorem native_search_returns_witness:
  "\<exists>r frames. execute_search walk_demo_env demo_search
      (Root_Directory True [(''f'', File_Node (Inr [Read_Buffer ''abc'']) (Inr [Read_Buffer ''abc'']))]) =
      Some (r, frames)"
  using native_search_returns [of demo_search walk_demo_env True
      "[(''f'', File_Node (Inr [Read_Buffer ''abc'']) (Inr [Read_Buffer ''abc'']))]"]
  by (auto simp: demo_search_def u64_max_def)

end
