(* ===== verification/Session_Output.thy ===== *)
theory Session_Output
  imports Session_Mux Helper_Walk
begin

text \<open>
  The output of a request over the session: how the helper cuts a pipe into frames
  (\<open>drain_stream\<close> in \<open>src/remote_helper.rs\<close>), what the bridge keeps of any interleaving of the
  two streams, and the EXIT payload, which the bridge reads as the helper prints it.
\<close>

section \<open>Draining a pipe\<close>

text \<open>One successful read: its bytes, whether sending had been stopped, whether the writer failed.\<close>

record drain_read =
  dr_bytes :: string
  dr_stopped :: bool
  dr_failed :: bool

definition STREAM_BUFFER_BYTES :: nat where "STREAM_BUFFER_BYTES = 64 * 1024"

definition drain_chunk_size :: "nat \<Rightarrow> nat" where
  "drain_chunk_size max_frame_bytes = min STREAM_BUFFER_BYTES (max max_frame_bytes 1)"

text \<open>The frames sent and whether the stream was truncated; the end of the list is the end of the pipe.\<close>

fun drain_stream ::
  "64 word \<Rightarrow> frame_kind \<Rightarrow> nat \<Rightarrow> drain_read list \<Rightarrow> nat \<Rightarrow> bool \<Rightarrow> frame list \<times> bool"
where
  "drain_stream request_id fkind limit [] seen truncated = ([], truncated)"
| "drain_stream request_id fkind limit (r # reads) seen truncated =
     (let n = length (dr_bytes r); allowed = min (saturating_sub limit seen) n;
          truncated1 = (truncated \<or> allowed < n);
          sends = (0 < allowed \<and> \<not> dr_stopped r)
      in if sends \<and> dr_failed r then ([], truncated1)
         else
           (let (frames, t) = drain_stream request_id fkind limit reads (saturating_add seen n) truncated1 in
            (if sends then \<lparr>fr_kind = fkind, fr_request_id = request_id,
                            fr_payload = take allowed (dr_bytes r)\<rparr> # frames else frames, t)))"

lemma drain_stream_frames:
  "\<forall>r\<in>set reads. \<not> dr_stopped r \<and> \<not> dr_failed r \<Longrightarrow> seen + length (concat (map dr_bytes reads)) \<le> u64_max \<Longrightarrow>
   concat (map fr_payload (fst (drain_stream i fkind limit reads seen t))) =
     take (limit - seen) (concat (map dr_bytes reads)) \<and>
   (snd (drain_stream i fkind limit reads seen t) \<longleftrightarrow>
     t \<or> (reads \<noteq> [] \<and> limit - seen < length (concat (map dr_bytes reads))))"
proof (induction reads arbitrary: seen t)
  case (Cons r reads)
  let ?n = "length (dr_bytes r)" and ?rest = "concat (map dr_bytes reads)"
  have add: "saturating_add seen ?n = seen + ?n"
    by (rule saturating_add_exact) (use Cons.prems(2) in simp)
  obtain fs t' where rest: "drain_stream i fkind limit reads (seen + ?n) (t \<or> limit - seen < ?n) = (fs, t')"
    by fastforce
  have IH: "concat (map fr_payload fs) = take (limit - seen - ?n) ?rest"
    "t' \<longleftrightarrow> (t \<or> limit - seen < ?n) \<or> (reads \<noteq> [] \<and> limit - seen - ?n < length ?rest)"
    using Cons.IH [of "seen + ?n" "t \<or> limit - seen < ?n"] Cons.prems rest by auto
  have "drain_stream i fkind limit (r # reads) seen t =
      (if 0 < min (limit - seen) ?n
       then \<lparr>fr_kind = fkind, fr_request_id = i, fr_payload = take (limit - seen) (dr_bytes r)\<rparr> # fs else fs, t')"
  proof -
    have "(min (limit - seen) ?n < ?n) = (limit - seen < ?n)" "take (min (limit - seen) ?n) (dr_bytes r) = take (limit - seen) (dr_bytes r)"
      by (auto simp: min_def)
    then show ?thesis using Cons.prems(1) rest by (simp add: Let_def add saturating_sub_def)
  qed
  moreover have "take (limit - seen) (dr_bytes r) = []" if "\<not> 0 < min (limit - seen) ?n" using that by auto
  moreover have "limit - seen < ?n \<or> (reads \<noteq> [] \<and> limit - seen - ?n < length ?rest) \<longleftrightarrow>
      limit - seen < ?n + length ?rest"
    by (cases reads) auto
  ultimately show ?case using IH by auto
qed simp

section \<open>What the bridge keeps\<close>

definition request_outputs :: "dispatch_env \<Rightarrow> (bool \<times> string) list \<Rightarrow> pending_request \<Rightarrow> pending_request" where
  "request_outputs env xs p = fold (\<lambda>(is_stdout, payload). request_output env is_stdout payload) xs p"

definition stream_of :: "bool \<Rightarrow> (bool \<times> string) list \<Rightarrow> string" where
  "stream_of b xs = concat (map snd (filter (\<lambda>x. fst x = b) xs))"

text \<open>A capture that was not truncated is the stream, a truncated one a prefix that will not grow.\<close>

definition captured :: "nat \<Rightarrow> nat \<Rightarrow> string \<Rightarrow> stream_capture \<Rightarrow> bool" where
  "captured aggregate used bytes sc \<longleftrightarrow>
     sc_sink sc = None \<and> sc_seen sc = min u64_max (length bytes) \<and> sc_limit sc \<le> u64_max \<and>
     length (sc_bytes sc) \<le> sc_limit sc \<and> (\<exists>rest. bytes = sc_bytes sc @ rest) \<and>
     (if sc_truncated sc then sc_limit sc \<le> sc_seen sc \<or> aggregate \<le> used else sc_bytes sc = bytes)"

lemma captured_receive:
  assumes "captured aggregate used bytes sc" "aggregate \<le> u64_max" "used = saturating_add (sc_seen sc) other"
    "sc' = receive_output aggregate used accepts payload sc"
  shows "captured aggregate (saturating_add (sc_seen sc') other) (bytes @ payload) sc'"
    "length (sc_bytes sc') \<le> length (sc_bytes sc) + (aggregate - used)" "sc_seen sc \<le> sc_seen sc'"
    "sc_limit sc' = sc_limit sc"
proof -
  let ?r = "min (sc_limit sc - sc_seen sc) (aggregate - used)"
  obtain rest where rest: "bytes = sc_bytes sc @ rest" using assms(1) by (auto simp: captured_def)
  have cut: "take (min ?r (length payload)) payload = take ?r payload" by (simp add: min_def)
  have none: "sc_sink sc = None" using assms(1) by (simp add: captured_def)
  have sc': "sc_truncated sc' = (sc_truncated sc \<or> ?r < length payload)"
    "sc_bytes sc' = sc_bytes sc @ take ?r payload" "sc_limit sc' = sc_limit sc" "sc_sink sc' = None"
    "sc_seen sc' = saturating_add (sc_seen sc) (length payload)"
    unfolding assms(4) receive_output_def
    by (cases "?r < length payload"; simp add: none cut saturating_sub_def Let_def)+
  have seen: "sc_seen sc' = min u64_max (length (bytes @ payload))"
    using assms(1) by (auto simp: sc' captured_def saturating_add_def)
  have room: "?r = 0" if "sc_truncated sc" using assms(1) that by (auto simp: captured_def)
  have limit: "length (sc_bytes sc) \<le> sc_seen sc \<or> sc_limit sc \<le> sc_seen sc"
    using assms(1) rest by (auto simp: captured_def)
  have kept: "sc_sink sc' = None" "sc_limit sc' \<le> u64_max"
    using assms(1) by (simp_all add: sc' captured_def)
  have "sc_limit sc' \<le> sc_seen sc' \<or> aggregate \<le> saturating_add (sc_seen sc') other" if "sc_truncated sc'"
  proof (cases "sc_truncated sc")
    case True
    then show ?thesis using assms(1,3) by (auto simp: captured_def sc' saturating_add_def)
  next
    case False
    then have "sc_limit sc - sc_seen sc < length payload \<or> aggregate - used < length payload"
      using that by (auto simp: sc')
    moreover have "sc_limit sc \<le> u64_max" using assms(1) by (simp add: captured_def)
    ultimately show ?thesis using assms(2,3) by (auto simp: sc' saturating_add_def)
  qed
  moreover have "length (sc_bytes sc') \<le> sc_limit sc'"
    using assms(1) limit by (auto simp: captured_def sc' min_def)
  moreover have "\<exists>rest. bytes @ payload = sc_bytes sc' @ rest"
  proof (cases "sc_truncated sc")
    case True
    then show ?thesis using rest room by (auto simp: sc')
  next
    case False
    then have "bytes = sc_bytes sc" using assms(1) by (simp add: captured_def)
    then show ?thesis by (simp add: sc') (metis append_take_drop_id)
  qed
  moreover have "sc_bytes sc' = bytes @ payload" if "\<not> sc_truncated sc'"
    using assms(1) that by (auto simp: captured_def sc')
  ultimately show "captured aggregate (saturating_add (sc_seen sc') other) (bytes @ payload) sc'"
    unfolding captured_def using seen kept by simp
  show "length (sc_bytes sc') \<le> length (sc_bytes sc) + (aggregate - used)" by (simp add: sc')
  show "sc_seen sc \<le> sc_seen sc'" using assms(1) by (auto simp: sc' captured_def saturating_add_def)
  show "sc_limit sc' = sc_limit sc" by (rule sc'(3))
qed

definition request_limits :: "pending_request \<Rightarrow> nat \<times> nat \<times> nat" where
  "request_limits p = (sc_limit (pr_stdout p), sc_limit (pr_stderr p), pr_aggregate_limit p)"

definition request_captured :: "nat \<times> nat \<times> nat \<Rightarrow> (bool \<times> string) list \<Rightarrow> pending_request \<Rightarrow> bool" where
  "request_captured limits xs p \<longleftrightarrow>
     captured (pr_aggregate_limit p) (aggregate_used p) (stream_of True xs) (pr_stdout p) \<and>
     captured (pr_aggregate_limit p) (aggregate_used p) (stream_of False xs) (pr_stderr p) \<and>
     pr_aggregate_limit p \<le> u64_max \<and> request_limits p = limits \<and>
     length (sc_bytes (pr_stdout p)) + length (sc_bytes (pr_stderr p)) \<le> pr_aggregate_limit p"

lemma captured_mono: "captured aggregate used bytes sc \<Longrightarrow> used \<le> used' \<Longrightarrow> captured aggregate used' bytes sc"
  by (auto simp: captured_def)

lemma saturating_add_commute: "saturating_add a b = saturating_add b a"
  by (simp add: saturating_add_def add.commute)

lemma captured_bytes: "captured aggregate used bytes sc \<Longrightarrow> length (sc_bytes sc) \<le> sc_seen sc"
  by (auto simp: captured_def)

lemma sum_within:
  assumes "b1' \<le> b1 + (aggregate - used)" "b1 + b2 \<le> aggregate" "b1 \<le> s1" "b2 \<le> s2"
    "used = saturating_add s1 s2" "aggregate \<le> u64_max"
  shows "b1' + b2 \<le> (aggregate :: nat)"
  using assms by (auto simp: saturating_add_def min_def split: if_splits)

lemma request_captured_output:
  assumes "request_captured limits xs p"
  shows "request_captured limits (xs @ [(b, payload)]) (request_output env b payload p)"
proof -
  let ?a = "pr_aggregate_limit p" and ?u = "aggregate_used p" and ?p = "request_output env b payload p"
  note c = assms [unfolded request_captured_def]
  have streams: "stream_of True (xs @ [(b, payload)]) = (if b then stream_of True xs @ payload else stream_of True xs)"
    "stream_of False (xs @ [(b, payload)]) = (if b then stream_of False xs else stream_of False xs @ payload)"
    by (auto simp: stream_of_def)
  show ?thesis
  proof (cases b)
    case True
    let ?s = "receive_output ?a ?u (de_accepts env) payload (pr_stdout p)"
    have p: "?p = p\<lparr>pr_stdout := ?s\<rparr>" using True by (simp add: request_output_def Let_def)
    note r = captured_receive [OF conjunct1 [OF c] _ aggregate_used_def refl, of "de_accepts env" payload]
    have u: "aggregate_used ?p = saturating_add (sc_seen ?s) (sc_seen (pr_stderr p))"
      by (simp add: p aggregate_used_def)
    have "?u \<le> aggregate_used ?p" 
    proof -
      have "sc_seen (pr_stdout p) \<le> sc_seen ?s" using r(3) c by blast
      then show ?thesis unfolding u by (subst aggregate_used_def) (simp add: saturating_add_mono)
    qed
    moreover have "length (sc_bytes ?s) + length (sc_bytes (pr_stderr p)) \<le> ?a"
      using c by (intro sum_within [OF r(2) _ captured_bytes captured_bytes aggregate_used_def]) auto
    moreover have "captured ?a (aggregate_used ?p) (stream_of False xs) (pr_stderr p)"
      using captured_mono c calculation(1) by blast
    moreover have "captured ?a (aggregate_used ?p) (stream_of True xs @ payload) ?s" using r(1) c u by simp
    ultimately show ?thesis unfolding request_captured_def streams p using c True r(4) by (simp add: request_limits_def)
  next
    case False
    let ?s = "receive_output ?a ?u (de_accepts env) payload (pr_stderr p)"
    have p: "?p = p\<lparr>pr_stderr := ?s\<rparr>" using False by (simp add: request_output_def Let_def)
    have used: "?u = saturating_add (sc_seen (pr_stderr p)) (sc_seen (pr_stdout p))"
      by (simp add: aggregate_used_def saturating_add_commute)
    note r = captured_receive [OF conjunct1 [OF conjunct2 [OF c]] _ used refl, of "de_accepts env" payload]
    have u: "aggregate_used ?p = saturating_add (sc_seen ?s) (sc_seen (pr_stdout p))"
      by (simp add: p aggregate_used_def saturating_add_commute)
    have "?u \<le> aggregate_used ?p" 
    proof -
      have "sc_seen (pr_stderr p) \<le> sc_seen ?s" using r(3) c by blast
      then show ?thesis unfolding u by (subst used) (simp add: saturating_add_mono)
    qed
    moreover have "length (sc_bytes ?s) + length (sc_bytes (pr_stdout p)) \<le> ?a"
      using c by (intro sum_within [OF r(2) _ captured_bytes captured_bytes used]) auto
    moreover have "captured ?a (aggregate_used ?p) (stream_of True xs) (pr_stdout p)"
      using captured_mono c calculation(1) by blast
    moreover have "captured ?a (aggregate_used ?p) (stream_of False xs @ payload) ?s" using r(1) c u by simp
    ultimately show ?thesis unfolding request_captured_def streams p using c False r(4) by (simp add: request_limits_def)
  qed
qed

lemma request_captured_outputs:
  "request_captured limits xs p \<Longrightarrow> request_captured limits (xs @ ys) (request_outputs env ys p)"
proof (induction ys arbitrary: xs p)
  case (Cons y ys)
  obtain b payload where y: "y = (b, payload)" by (cases y)
  show ?case
    using Cons.IH [OF request_captured_output [OF Cons.prems]] by (simp add: request_outputs_def y)
qed (simp add: request_outputs_def)

lemma request_captured_new:
  assumes "\<not> sq_output q" "sq_stdout_limit q \<le> u64_max" "sq_stderr_limit q \<le> u64_max"
  shows "request_captured (sq_stdout_limit q, sq_stderr_limit q,
      min (saturating_add (sq_stdout_limit q) (sq_stderr_limit q)) (se_max_output_bytes s)) [] (new_pending s q)"
  using assms by (simp add: request_captured_def captured_def new_pending_def new_capture_def stream_of_def
      aggregate_used_def request_limits_def saturating_add_def)

lemma captured_facts:
  assumes "captured aggregate used bytes sc"
  shows "(\<exists>rest. bytes = sc_bytes sc @ rest) \<and> (sc_truncated sc \<or> sc_bytes sc = bytes) \<and>
    length (sc_bytes sc) \<le> sc_limit sc"
  using assms unfolding captured_def by (metis (full_types))

text \<open>C18: Whatever the interleaving of the frames of its two streams, what the bridge holds of each is a
  prefix of what arrived, within the limit of the stream, the whole of it unless it is marked as
  truncated, and both together are within the limit of the session.\<close>

theorem captured_output_bounded:
  assumes "\<not> sq_output q" "sq_stdout_limit q \<le> u64_max" "sq_stderr_limit q \<le> u64_max"
    "p = request_outputs env xs (new_pending s q)"
  shows "(\<exists>rest. stream_of True xs = sc_bytes (pr_stdout p) @ rest) \<and>
    (\<exists>rest. stream_of False xs = sc_bytes (pr_stderr p) @ rest) \<and>
    (sc_truncated (pr_stdout p) \<or> sc_bytes (pr_stdout p) = stream_of True xs) \<and>
    (sc_truncated (pr_stderr p) \<or> sc_bytes (pr_stderr p) = stream_of False xs) \<and>
    length (sc_bytes (pr_stdout p)) \<le> sq_stdout_limit q \<and> length (sc_bytes (pr_stderr p)) \<le> sq_stderr_limit q \<and>
    length (sc_bytes (pr_stdout p)) + length (sc_bytes (pr_stderr p)) \<le> se_max_output_bytes s"
proof -
  note c = request_captured_outputs [OF request_captured_new [OF assms(1-3), of s], of xs env]
  have lim: "request_limits p = (sq_stdout_limit q, sq_stderr_limit q,
      min (saturating_add (sq_stdout_limit q) (sq_stderr_limit q)) (se_max_output_bytes s))"
    using c assms(4) by (simp add: request_captured_def)
  have "captured (pr_aggregate_limit p) (aggregate_used p) (stream_of True xs) (pr_stdout p)"
    "captured (pr_aggregate_limit p) (aggregate_used p) (stream_of False xs) (pr_stderr p)"
    "length (sc_bytes (pr_stdout p)) + length (sc_bytes (pr_stderr p)) \<le> pr_aggregate_limit p"
    using c unfolding request_captured_def assms(4) by simp_all
  note facts = captured_facts [OF this(1)] captured_facts [OF this(2)] this(3)
  have "sc_limit (pr_stdout p) = sq_stdout_limit q" "sc_limit (pr_stderr p) = sq_stderr_limit q"
    "pr_aggregate_limit p \<le> se_max_output_bytes s"
    using lim by (simp_all add: request_limits_def)
  with facts show ?thesis by simp
qed

definition capture_session :: session where
  "capture_session = \<lparr>se_host = ''h'', se_helper_mode = Shell_Mode, se_max_payload = 9, se_max_output_bytes = 7,
     se_pending = Map.empty, se_next_id = 1, se_closed = False, se_retired = False, se_ready = {},
     se_answers = Map.empty\<rparr>"

definition capture_request :: session_request where
  "capture_request = \<lparr>sq_action = Job_Action ''{}'', sq_env = [], sq_timeout_ms = 0, sq_admission_deadline = 0,
     sq_response_timeout = 0, sq_stdout_limit = 5, sq_stderr_limit = 5, sq_output = False\<rparr>"

definition capture_env :: dispatch_env where
  "capture_env = \<lparr>de_accepts = 0, de_stdout_failed = False, de_stderr_failed = False, de_elapsed_ms = 0\<rparr>"

theorem captured_output_bounded_witness:
  "length (sc_bytes (pr_stdout (request_outputs capture_env [(True, ''abc''), (False, ''e''), (True, ''def'')]
     (new_pending capture_session capture_request)))) \<le> 5"
proof -
  have "\<not> sq_output capture_request" "sq_stdout_limit capture_request \<le> u64_max"
    "sq_stderr_limit capture_request \<le> u64_max"
    by (simp_all add: capture_request_def u64_max_def)
  from captured_output_bounded [where env = capture_env and s = capture_session and
      xs = "[(True, ''abc''), (False, ''e''), (True, ''def'')]", OF this refl]
  show ?thesis by (simp add: capture_request_def)
qed

section \<open>The EXIT payload\<close>

definition i32_text :: "int \<Rightarrow> string" where
  "i32_text v = (if v < 0 then ''-'' @ decimal (nat (- v)) else decimal (nat v))"

lemma parse_i32_text:
  assumes "- (2 ^ 31) \<le> v" "v < 2 ^ 31"
  shows "parse_i32 (i32_text v) = Some v"
proof (cases "v < 0")
  case True
  then show ?thesis
    using assms by (simp add: parse_i32_def i32_text_def decimal_digits nat_le_iff)
next
  case False
  obtain c r where cr: "decimal (nat v) = c # r" by (metis decimal_nonempty list.exhaust)
  then have "is_ascii_digit c" using decimal_digits [of "nat v"] by simp
  then have "c \<noteq> CHR ''-''" by (auto simp: is_ascii_digit_def byte_def)
  moreover have "parse_unsigned (2 ^ 31 - 1) (decimal (nat v)) = Some (nat v)"
    by (rule parse_decimal_roundtrip) (use False assms(2) in \<open>simp add: nat_le_iff\<close>)
  ultimately show ?thesis using False by (simp add: parse_i32_def i32_text_def cr)
qed

lemma i32_text_chars: "c \<in> set (i32_text v) \<Longrightarrow> c = CHR ''-'' \<or> is_ascii_digit c"
  by (auto simp: i32_text_def dest: decimal_set split: if_splits)

lemma i32_text_line: "LF \<notin> set (i32_text v)" "last (i32_text v) \<noteq> CHR 0x0D" "valid_utf8 (i32_text v)"
proof -
  have ok: "byte c < 0x80 \<and> c \<noteq> LF \<and> c \<noteq> CHR 0x0D" if "c = CHR ''-'' \<or> is_ascii_digit c" for c
    using that by (auto simp: is_ascii_digit_def byte_def)
  show "LF \<notin> set (i32_text v)" using i32_text_chars ok by blast
  have "i32_text v \<noteq> []" by (simp add: i32_text_def)
  then have "last (i32_text v) \<in> set (i32_text v)" by simp
  then show "last (i32_text v) \<noteq> CHR 0x0D" using i32_text_chars ok by blast
  show "valid_utf8 (i32_text v)" by (rule valid_utf8_ascii) (use i32_text_chars ok in blast)
qed

lemma exit_payload_lines:
  "str_lines (exit_payload (i32_text v) a b c d) =
     [i32_text v, bool_digit a, bool_digit b, bool_digit c, bool_digit d]"
proof -
  have digit: "LF \<notin> set (bool_digit x)" "bool_digit x = [] \<or> last (bool_digit x) \<noteq> CHR 0x0D" for x
    by (simp_all add: bool_digit_def)
  have "exit_payload (i32_text v) a b c d = i32_text v @ LF # bool_digit a @ LF # bool_digit b @ LF #
      bool_digit c @ LF # bool_digit d @ LF # []"
    by (simp add: exit_payload_def)
  then show ?thesis using i32_text_line by (simp only: str_lines_line digit str_lines_Nil simp_thms)
qed

lemma exit_payload_valid: "valid_utf8 (exit_payload (i32_text v) a b c d)"
proof (rule valid_utf8_ascii, rule ballI)
  fix x assume "x \<in> set (exit_payload (i32_text v) a b c d)"
  then have "x \<in> set (i32_text v) \<or> x \<in> {LF, CHR ''0'', CHR ''1''}"
    by (auto simp: exit_payload_def bool_digit_def split: if_splits)
  then show "byte x < 0x80" using i32_text_chars by (fastforce simp: is_ascii_digit_def byte_def)
qed

lemma parse_exit_payload:
  assumes "- (2 ^ 31) \<le> v" "v < 2 ^ 31"
  shows "parse_exit (exit_payload (i32_text v) a b c d) =
    Inr \<lparr>xi_status = v, xi_stdout_truncated = a, xi_stderr_truncated = b, xi_may_continue = c, xi_timed_out = d\<rparr>"
proof -
  have "parse_flag (bool_digit x) = Inr x" for x by (simp add: parse_flag_def bool_digit_def)
  then show ?thesis
    by (simp add: parse_exit_def exit_payload_valid exit_payload_lines parse_i32_text [OF assms] bindR_def ok_or_def)
qed

text \<open>The EXIT frame the helper prints ends the request it names: the bridge reads the status and the
  four flags back, answers the call once, with the output it holds, marked as truncated when either
  end truncated it, and forgets the request.\<close>

theorem exit_frame_answers_request:
  assumes "- (2 ^ 31) \<le> v" "v < 2 ^ 31" "se_pending s i = Some p" "pr_sender p"
    "dispatch_frame env (exit_frame i (exit_payload (i32_text v) out_cut err_cut may_continue timed_out)) s = (r, s')"
  shows "r = Inr () \<and> se_pending s' i = None \<and>
    (\<exists>a. se_answers s' i = Some (Inr a) \<and> sa_request_id a = i \<and> sa_status a = v \<and>
       sa_stdout a = sc_bytes (pr_stdout p) \<and> sa_stderr a = sc_bytes (pr_stderr p) \<and>
       sa_may_continue a = may_continue \<and> sa_timed_out a = timed_out \<and>
       (sc_truncated (pr_stdout p) \<or> out_cut \<longrightarrow> sa_stdout_truncated a) \<and>
       (sc_truncated (pr_stderr p) \<or> err_cut \<longrightarrow> sa_stderr_truncated a))"
  using assms(3-5)
  by (auto simp: dispatch_frame_def dispatch_exit_def exit_frame_def parse_exit_payload [OF assms(1,2)]
      answer_with_def exit_answer_def)

theorem exit_frame_answers_request_witness:
  "\<exists>a. se_answers (snd (dispatch_frame capture_env
      (exit_frame 1 (exit_payload (i32_text (- 3)) False False True False))
      (capture_session\<lparr>se_pending := [1 \<mapsto> new_pending capture_session capture_request]\<rparr>))) 1 = Some (Inr a) \<and>
    sa_status a = - 3"
proof -
  have "pr_sender (new_pending capture_session capture_request)" by (simp add: new_pending_def)
  moreover let ?s = "capture_session\<lparr>se_pending := [1 \<mapsto> new_pending capture_session capture_request]\<rparr>"
  let ?f = "exit_frame 1 (exit_payload (i32_text (- 3)) False False True False)"
  obtain r s' where d: "dispatch_frame capture_env ?f ?s = (r, s')" by (cases "dispatch_frame capture_env ?f ?s")
  have "- (2 ^ 31) \<le> (- 3 :: int)" "(- 3 :: int) < 2 ^ 31" by simp_all
  moreover have "se_pending ?s 1 = Some (new_pending capture_session capture_request)" by simp
  ultimately show ?thesis using exit_frame_answers_request d by fastforce
qed

end
