(* ===== verification/Job_Store.thy ===== *)
theory Job_Store
  imports Job_Protocol Utf8 "HOL-Library.List_Lexorder" "HOL-Library.Char_ord" "HOL-Library.Product_Lexorder"
begin

text \<open>
  The store of remote jobs and its control operations (\<open>JobStore\<close>, \<open>execute_control\<close>, \<open>start_job\<close> in
  \<open>src/remote_job_runner.rs\<close>), one operation at a time.  The store is the list of its directories in
  the order in which they are read.  A record file is absent, unreadable or a record; ownership and
  permission checks always succeed, and a file that is there can be read.  The boot identifier, the clock, the live
  processes and the locks that other processes hold are an environment.  Base64 is a parameter.
\<close>

section \<open>Errors and files\<close>

datatype job_io_kind = Io_NotFound | Io_InvalidData | Io_InvalidInput | Io_PermissionDenied | Io_TimedOut
  | Io_AlreadyExists | Io_WouldBlock | Io_Other

type_synonym io_failure = "job_io_kind \<times> string"

definition invalid_data :: "string \<Rightarrow> io_failure" where
  "invalid_data message = (Io_InvalidData, message)"

definition os_error :: "job_io_kind \<Rightarrow> io_failure" where
  "os_error k = (k, [])"

datatype 'a record_file = Absent | Broken | Stored 'a

record job_dir =
  jd_request :: "job_request_record record_file"
  jd_state :: "job_state_record record_file"
  jd_stdout :: "string option"
  jd_stderr :: "string option"
  jd_lock_file :: bool
  jd_cancel :: bool
  jd_other :: "string list"

type_synonym job_store = "(string \<times> job_dir) list"

record job_env =
  je_boot :: string
  je_now :: nat
  je_alive :: "process_identity \<Rightarrow> bool"
  je_locked :: "string \<Rightarrow> bool"

section \<open>Operations in sequence\<close>

type_synonym 'a job_op = "job_store \<Rightarrow> (io_failure + 'a) \<times> job_store"

definition bindJ :: "'a job_op \<Rightarrow> ('a \<Rightarrow> 'b job_op) \<Rightarrow> 'b job_op" where
  "bindJ m f = (\<lambda>s. case m s of (Inl e, s1) \<Rightarrow> (Inl e, s1) | (Inr a, s1) \<Rightarrow> f a s1)"

definition pureJ :: "io_failure + 'a \<Rightarrow> 'a job_op" where
  "pureJ r = (\<lambda>s. (r, s))"

definition update_dir :: "string \<Rightarrow> (job_dir \<Rightarrow> job_dir) \<Rightarrow> unit job_op" where
  "update_dir name f = (\<lambda>s. (Inr (), map (\<lambda>(n, d). (n, if n = name then f d else d)) s))"

definition remove_dir :: "string \<Rightarrow> unit job_op" where
  "remove_dir name = (\<lambda>s. (Inr (), filter (\<lambda>(n, d). n \<noteq> name) s))"

section \<open>Reading records\<close>

definition checked_id :: "job_id \<Rightarrow> io_failure + string" where
  "checked_id jid =
     (case job_id_parse (job_id_as_str jid) of
        Inl _ \<Rightarrow> Inl (invalid_data ''invalid job id'')
      | Inr _ \<Rightarrow> Inr (job_id_as_str jid))"

definition open_job :: "job_id \<Rightarrow> job_dir job_op" where
  "open_job jid =
     bindJ (pureJ (checked_id jid)) (\<lambda>name s. (ok_or (os_error Io_NotFound) (map_of s name), s))"

fun read_record :: "'a record_file \<Rightarrow> io_failure + 'a" where
  "read_record Absent = Inl (os_error Io_NotFound)"
| "read_record Broken = Inl (os_error Io_InvalidData)"
| "read_record (Stored r) = Inr r"

definition read_state :: "job_id \<Rightarrow> job_state_record job_op" where
  "read_state jid =
     bindJ (open_job jid) (\<lambda>job.
     bindJ (pureJ (read_record (jd_state job))) (\<lambda>state.
     if js_version state \<noteq> JOB_RECORD_VERSION \<or> js_job_id state \<noteq> jid then
       pureJ (Inl (invalid_data ''invalid job state record''))
     else pureJ (Inr state)))"

definition write_state :: "job_id \<Rightarrow> job_state_record \<Rightarrow> unit job_op" where
  "write_state jid state = update_dir (job_id_as_str jid) (\<lambda>d. d\<lparr>jd_state := Stored state\<rparr>)"

definition replace_state :: "job_id \<Rightarrow> job_state_record \<Rightarrow> unit job_op" where
  "replace_state jid state =
     (if js_version state \<noteq> JOB_RECORD_VERSION \<or> js_job_id state \<noteq> jid then
        pureJ (Inl (invalid_data ''invalid job state replacement''))
      else bindJ (open_job jid) (\<lambda>_. write_state jid state))"

section \<open>Reconciling\<close>

definition runner_missing :: "job_env \<Rightarrow> job_state_record \<Rightarrow> bool" where
  "runner_missing en state \<longleftrightarrow>
     js_state state = Running \<and> (case js_runner state of None \<Rightarrow> True | Some r \<Rightarrow> \<not> je_alive en r)"

text \<open>The lock file is opened, then locked without waiting.\<close>

definition try_lock :: "job_env \<Rightarrow> string \<Rightarrow> job_dir \<Rightarrow> io_failure + unit" where
  "try_lock en name job =
     (if \<not> jd_lock_file job then Inl (os_error Io_NotFound)
      else if je_locked en name then Inl (os_error Io_WouldBlock) else Inr ())"

definition mark_lost :: "job_env \<Rightarrow> job_state_record \<Rightarrow> job_state_record" where
  "mark_lost en state = state\<lparr>js_state := Lost, js_finished_unix_ms := Some (je_now en)\<rparr>"

definition boot_changed :: "job_env \<Rightarrow> job_state_record \<Rightarrow> bool" where
  "boot_changed en state \<longleftrightarrow> js_boot_id state \<noteq> je_boot en"

text \<open>What is done with the record read again under the lock: \<open>None\<close> when it stands, otherwise the record
  that replaces it.  \<open>changed\<close> is the comparison of the boots made before the lock was taken.\<close>

definition settle_fresh :: "job_env \<Rightarrow> bool \<Rightarrow> job_state_record \<Rightarrow> job_state_record option" where
  "settle_fresh en changed fresh =
     (if is_terminal (js_state fresh) then None
      else if \<not> changed \<and> js_state fresh = Running \<and>
              (case js_runner fresh of None \<Rightarrow> False | Some r \<Rightarrow> je_alive en r) then None
      else Some (mark_lost en fresh))"

definition stands :: "job_env \<Rightarrow> job_state_record \<Rightarrow> bool" where
  "stands en state \<longleftrightarrow>
     is_terminal (js_state state) \<or> (\<not> boot_changed en state \<and> \<not> runner_missing en state)"

definition reconcile_state :: "job_env \<Rightarrow> job_state_record \<Rightarrow> job_state_record job_op" where
  "reconcile_state en state =
     (if stands en state then pureJ (Inr state)
      else
        bindJ (open_job (js_job_id state)) (\<lambda>job.
        case try_lock en (job_id_as_str (js_job_id state)) job of
          Inl e \<Rightarrow> if fst e = Io_WouldBlock then pureJ (Inr state) else pureJ (Inl e)
        | Inr _ \<Rightarrow>
            bindJ (pureJ (read_record (jd_state job))) (\<lambda>fresh.
            (case settle_fresh en (boot_changed en state) fresh of
               None \<Rightarrow> pureJ (Inr fresh)
             | Some lost \<Rightarrow>
                 bindJ (write_state (js_job_id state) lost) (\<lambda>_. pureJ (Inr lost))))))"

definition status :: "job_env \<Rightarrow> job_id \<Rightarrow> job_state_record job_op" where
  "status en jid = bindJ (read_state jid) (reconcile_state en)"

section \<open>Requests\<close>

definition is_canonical_base64 :: "(string \<Rightarrow> string) \<Rightarrow> (string \<Rightarrow> string option) \<Rightarrow> string \<Rightarrow> bool" where
  "is_canonical_base64 encode64 decode64 text64 \<longleftrightarrow>
     (case decode64 text64 of None \<Rightarrow> False | Some bytes \<Rightarrow> encode64 bytes = text64)"

definition validate_request ::
  "(string \<Rightarrow> string) \<Rightarrow> (string \<Rightarrow> string option) \<Rightarrow> job_request_record \<Rightarrow> io_failure + unit" where
  "validate_request encode64 decode64 request =
     (if jr_version request \<noteq> JOB_RECORD_VERSION \<or> jr_command request = [] \<or> NUL \<in> set (jr_command request) \<or>
         \<not> starts_with ''/'' (jr_cwd request) \<or> NUL \<in> set (jr_cwd request) \<or>
         jr_timeout_ms request = Some 0 \<or> jr_max_output_bytes request = 0 \<or>
         (case jr_label request of None \<Rightarrow> False
          | Some label \<Rightarrow> MAX_JOB_LABEL_BYTES < length label \<or> NUL \<in> set label)
      then Inl (invalid_data ''invalid job request'')
      else
        (case job_id_parse (job_id_as_str (jr_job_id request)) of
           Inl _ \<Rightarrow> Inl (invalid_data ''invalid job id'')
         | Inr _ \<Rightarrow>
             (case decode64 (jr_stdin_base64 request) of
                None \<Rightarrow> Inl (invalid_data ''job stdin is not Base64'')
              | Some bytes \<Rightarrow>
                  if encode64 bytes \<noteq> jr_stdin_base64 request then
                    Inl (invalid_data ''job stdin is not canonical Base64'')
                  else Inr ())))"

definition read_job_request ::
  "(string \<Rightarrow> string) \<Rightarrow> (string \<Rightarrow> string option) \<Rightarrow> job_id \<Rightarrow> job_request_record job_op" where
  "read_job_request encode64 decode64 jid =
     bindJ (open_job jid) (\<lambda>job.
     bindJ (pureJ (read_record (jd_request job))) (\<lambda>request.
     bindJ (pureJ (validate_request encode64 decode64 request)) (\<lambda>_.
     if jr_job_id request \<noteq> jid then pureJ (Inl (invalid_data ''job request id mismatch''))
     else pureJ (Inr request))))"

definition starting_state :: "job_env \<Rightarrow> job_request_record \<Rightarrow> job_state_record" where
  "starting_state en request =
     \<lparr>js_version = JOB_RECORD_VERSION, js_job_id = jr_job_id request, js_state = Starting,
      js_boot_id = je_boot en, js_runner = None, js_command_group = None,
      js_created_unix_ms = jr_created_unix_ms request, js_started_unix_ms = None,
      js_finished_unix_ms = None, js_exit_code = None, js_signal = None,
      js_stdout_retained_bytes = 0, js_stdout_observed_bytes = 0, js_stderr_retained_bytes = 0,
      js_stderr_observed_bytes = 0, js_stdout_truncated = False, js_stderr_truncated = False\<rparr>"

text \<open>\<open>written\<close> tells whether all the files of the new job were created; otherwise they are removed again.\<close>

definition create_job ::
  "(string \<Rightarrow> string) \<Rightarrow> (string \<Rightarrow> string option) \<Rightarrow> io_failure + unit \<Rightarrow> job_env \<Rightarrow> job_request_record
     \<Rightarrow> unit job_op" where
  "create_job encode64 decode64 written en request =
     bindJ (pureJ (validate_request encode64 decode64 request)) (\<lambda>_.
     bindJ (pureJ (checked_id (jr_job_id request))) (\<lambda>name s.
     if map_of s name \<noteq> None then (Inl (os_error Io_AlreadyExists), s)
     else
       (case written of
          Inl e \<Rightarrow> (Inl e, s)
        | Inr _ \<Rightarrow>
            (Inr (), s @ [(name, \<lparr>jd_request = Stored request, jd_state = Stored (starting_state en request),
               jd_stdout = Some [], jd_stderr = Some [], jd_lock_file = True, jd_cancel = False,
               jd_other = []\<rparr>)]))))"

section \<open>Deleting and collecting\<close>

text \<open>
  The source unlinks the files of a terminal job one after the other, under the lock it has
  taken, and then the directory; here the directory goes in one step.  An unlink that fails half
  way, which leaves a directory with some of its files, is not a step of this model.
\<close>

definition delete_terminal :: "job_env \<Rightarrow> job_id \<Rightarrow> unit job_op" where
  "delete_terminal en jid = (\<lambda>s.
     case status en jid s of
       (Inl e, s1) \<Rightarrow> (if fst e = Io_NotFound then Inr () else Inl e, s1)
     | (Inr state, s1) \<Rightarrow>
         if \<not> is_terminal (js_state state) then (Inl (Io_InvalidInput, ''remote job is not terminal''), s1)
         else
           bindJ (open_job jid) (\<lambda>job.
           if \<not> jd_lock_file job then pureJ (Inl (os_error Io_NotFound))
           else if jd_other job \<noteq> [] then
             pureJ (Inl (Io_PermissionDenied, ''remote job directory contains an unexpected entry''))
           else remove_dir (job_id_as_str jid)) s1)"

definition JOB_RETENTION_MS :: nat where "JOB_RETENTION_MS = 7 * 24 * 60 * 60 * 1000"
definition RETENTION_BUDGET :: nat where "RETENTION_BUDGET = 32"

definition job_expired :: "nat \<Rightarrow> job_state_record \<Rightarrow> bool" where
  "job_expired now state \<longleftrightarrow>
     is_terminal (js_state state) \<and>
     (case js_finished_unix_ms state of None \<Rightarrow> False
      | Some finished \<Rightarrow> saturating_add finished JOB_RETENTION_MS \<le> now)"

fun collect_names :: "job_env \<Rightarrow> nat \<Rightarrow> string list \<Rightarrow> nat \<Rightarrow> unit job_op" where
  "collect_names en budget [] removed = pureJ (Inr ())"
| "collect_names en budget (name # names) removed =
     (if budget \<le> removed then pureJ (Inr ())
      else
        (case job_id_parse name of
           Inl _ \<Rightarrow> collect_names en budget names removed
         | Inr jid \<Rightarrow>
             bindJ (status en jid) (\<lambda>state.
             if job_expired (je_now en) state then
               bindJ (delete_terminal en jid) (\<lambda>_. collect_names en budget names (removed + 1))
             else collect_names en budget names removed)))"

definition collect_expired :: "job_env \<Rightarrow> nat \<Rightarrow> unit job_op" where
  "collect_expired en budget =
     (if budget = 0 then pureJ (Inr ()) else (\<lambda>s. collect_names en budget (map fst s) 0 s))"

section \<open>Listing\<close>

definition job_summary_of :: "job_id \<Rightarrow> job_request_record \<Rightarrow> job_state_record \<Rightarrow> job_summary" where
  "job_summary_of jid request state =
     \<lparr>jm_job_id = jid, jm_label = jr_label request, jm_state = js_state state, jm_cwd = jr_cwd request,
      jm_created_unix_ms = js_created_unix_ms state, jm_started_unix_ms = js_started_unix_ms state,
      jm_finished_unix_ms = js_finished_unix_ms state, jm_exit_code = js_exit_code state,
      jm_signal = js_signal state\<rparr>"

fun list_names ::
  "(string \<Rightarrow> string) \<Rightarrow> (string \<Rightarrow> string option) \<Rightarrow> job_env \<Rightarrow> string list \<Rightarrow> job_summary list
     \<Rightarrow> job_summary list job_op" where
  "list_names encode64 decode64 en [] jobs = pureJ (Inr jobs)"
| "list_names encode64 decode64 en (name # names) jobs =
     (case job_id_parse name of
        Inl _ \<Rightarrow> list_names encode64 decode64 en names jobs
      | Inr jid \<Rightarrow>
          bindJ (status en jid) (\<lambda>state.
          bindJ (read_job_request encode64 decode64 jid) (\<lambda>request.
          list_names encode64 decode64 en names (jobs @ [job_summary_of jid request state]))))"

text \<open>Newest first, then by identifier downwards; identifiers differ, so the order is a total one.\<close>

definition sort_jobs :: "job_summary list \<Rightarrow> job_summary list" where
  "sort_jobs jobs = rev (sort_key (\<lambda>j. (jm_created_unix_ms j, job_id_as_str (jm_job_id j))) jobs)"

definition list_jobs ::
  "(string \<Rightarrow> string) \<Rightarrow> (string \<Rightarrow> string option) \<Rightarrow> job_env \<Rightarrow> nat \<Rightarrow> job_summary list job_op" where
  "list_jobs encode64 decode64 en max_jobs =
     (if max_jobs = 0 \<or> MAX_JOB_LIST_ENTRIES < max_jobs then
        pureJ (Inl (invalid_data ''invalid remote job list limit''))
      else
        (\<lambda>s. bindJ (list_names encode64 decode64 en (map fst s) [])
               (\<lambda>jobs. pureJ (Inr (take max_jobs (sort_jobs jobs)))) s))"

section \<open>Logs\<close>

definition read_log_page_at ::
  "(string \<Rightarrow> string) \<Rightarrow> string option \<Rightarrow> nat \<Rightarrow> nat \<Rightarrow> nat \<Rightarrow> bool \<Rightarrow> io_failure + job_log_page" where
  "read_log_page_at encode64 log offset maximum observed_bytes truncated =
     bindR (ok_or (os_error Io_NotFound) log) (\<lambda>file_bytes.
     let retained_bytes = length file_bytes in
     if retained_bytes < offset then Inl (invalid_data ''job log offset exceeds retained length'')
     else
       (let bytes = take (min maximum (retained_bytes - offset)) (drop offset file_bytes) in
        bindR (ok_or (invalid_data ''job log offset overflow'') (checked_add offset (length bytes))) (\<lambda>next_offset.
        let (encoding, v) = (if valid_utf8 bytes then (Log_Utf8, bytes) else (Log_Base64, encode64 bytes)) in
        Inr \<lparr>jp_encoding = encoding, jp_value = v, jp_next_offset = next_offset,
             jp_eof = (next_offset = retained_bytes), jp_retained_bytes = retained_bytes,
             jp_observed_bytes = max observed_bytes retained_bytes, jp_truncated = truncated\<rparr>)))"

definition decoded_page :: "(string \<Rightarrow> string option) \<Rightarrow> job_log_page \<Rightarrow> string option" where
  "decoded_page decode64 page =
     (case jp_encoding page of Log_Utf8 \<Rightarrow> Some (jp_value page) | Log_Base64 \<Rightarrow> decode64 (jp_value page))"

definition decoded_page_len :: "(string \<Rightarrow> string option) \<Rightarrow> job_log_page \<Rightarrow> io_failure + nat" where
  "decoded_page_len decode64 page =
     ok_or (invalid_data ''internal job log encoding is invalid'') (map_option length (decoded_page decode64 page))"

definition job_logs ::
  "(string \<Rightarrow> string) \<Rightarrow> (string \<Rightarrow> string option) \<Rightarrow> job_env \<Rightarrow> job_logs_request \<Rightarrow> job_logs_response job_op" where
  "job_logs encode64 decode64 en request =
     (if jl_max_bytes request = 0 \<or> MAX_JOB_LOG_PAGE_BYTES < jl_max_bytes request then
        pureJ (Inl (invalid_data ''invalid job log page size''))
      else
        bindJ (open_job (jl_job_id request)) (\<lambda>job.
        bindJ (status en (jl_job_id request)) (\<lambda>state.
        bindJ (pureJ (read_log_page_at encode64 (jd_stdout job) (jl_stdout_offset request)
                 (jl_max_bytes request) (js_stdout_observed_bytes state) (js_stdout_truncated state))) (\<lambda>stdout.
        bindJ (pureJ (decoded_page_len decode64 stdout)) (\<lambda>stdout_raw.
        bindJ (pureJ (read_log_page_at encode64 (jd_stderr job) (jl_stderr_offset request)
                 (saturating_sub (jl_max_bytes request) stdout_raw) (js_stderr_observed_bytes state)
                 (js_stderr_truncated state))) (\<lambda>stderr.
        pureJ (Inr \<lparr>jlr_job_id = jl_job_id request, jlr_state = js_state state, jlr_stdout = stdout,
                    jlr_stderr = stderr\<rparr>)))))))"

section \<open>Cancelling and starting\<close>

text \<open>What other processes do between two looks at the job, until the deadline.\<close>

type_synonym job_pause = "job_env \<times> (job_store \<Rightarrow> job_store)"

fun await_terminal :: "job_id \<Rightarrow> job_pause list \<Rightarrow> job_env \<Rightarrow> job_state_record job_op" where
  "await_terminal jid pauses en = bindJ (status en jid) (\<lambda>state.
     if is_terminal (js_state state) then pureJ (Inr state)
     else
       (case pauses of
          [] \<Rightarrow> pureJ (Inl (Io_TimedOut, ''remote job cancellation was not confirmed''))
        | (en1, others) # rest \<Rightarrow> (\<lambda>s. await_terminal jid rest en1 (others s))))"

definition cancel_job :: "job_env \<Rightarrow> job_pause list \<Rightarrow> job_id \<Rightarrow> job_state_record job_op" where
  "cancel_job en pauses jid =
     bindJ (status en jid) (\<lambda>state.
     if is_terminal (js_state state) then pureJ (Inr state)
     else
       bindJ (open_job jid) (\<lambda>_.
       bindJ (update_dir (job_id_as_str jid) (\<lambda>d. d\<lparr>jd_cancel := True\<rparr>)) (\<lambda>_.
       await_terminal jid pauses en)))"

text \<open>\<open>spawned\<close> is what starting the runner and waiting for its readiness gives.\<close>

definition start_job ::
  "(string \<Rightarrow> string) \<Rightarrow> (string \<Rightarrow> string option) \<Rightarrow> io_failure + unit \<Rightarrow> unit job_op \<Rightarrow> job_env \<Rightarrow> job_env
     \<Rightarrow> job_request_record \<Rightarrow> job_state_record job_op" where
  "start_job encode64 decode64 written spawned en en1 request =
     bindJ (create_job encode64 decode64 written en request) (\<lambda>_.
     bindJ spawned (\<lambda>_.
     bindJ (status en1 (jr_job_id request)) (\<lambda>state.
     if js_state state \<noteq> Running \<and> \<not> is_terminal (js_state state) then
       pureJ (Inl (invalid_data ''remote job runner reported invalid readiness''))
     else pureJ (Inr state))))"

definition execute_control ::
  "(string \<Rightarrow> string) \<Rightarrow> (string \<Rightarrow> string option) \<Rightarrow> io_failure + unit \<Rightarrow> unit job_op \<Rightarrow> job_pause list
     \<Rightarrow> job_env \<Rightarrow> job_env \<Rightarrow> job_control_request \<Rightarrow> job_control_response job_op" where
  "execute_control encode64 decode64 written spawned pauses en en1 request =
     bindJ (collect_expired en RETENTION_BUDGET) (\<lambda>_.
     case request of
       Req_Start r \<Rightarrow>
         bindJ (start_job encode64 decode64 written spawned en en1 r) (\<lambda>state. pureJ (Inr (Resp_Started state)))
     | Req_Status jid \<Rightarrow> bindJ (status en jid) (\<lambda>state. pureJ (Inr (Resp_Status state)))
     | Req_Logs r \<Rightarrow> bindJ (job_logs encode64 decode64 en r) (\<lambda>logs. pureJ (Inr (Resp_Logs logs)))
     | Req_Cancel jid \<Rightarrow> bindJ (cancel_job en pauses jid) (\<lambda>state. pureJ (Inr (Resp_Cancelled state)))
     | Req_List max_jobs \<Rightarrow> bindJ (list_jobs encode64 decode64 en max_jobs) (\<lambda>jobs. pureJ (Inr (Resp_Listed jobs)))
     | Req_Delete jid \<Rightarrow> bindJ (delete_terminal en jid) (\<lambda>_. pureJ (Inr (Resp_Deleted jid))))"

end
