(* ===== verification/Job_Runner.thy ===== *)
theory Job_Runner
  imports Job_Store Fixed_Protocol
begin

text \<open>
  The process that runs one remote job (\<open>run_job\<close> in \<open>src/remote_job_runner.rs\<close>): what it does before the job
  counts as running, the loop that watches the command, the two threads that drain its output
  against one quota, and the record it leaves.  The last section puts the runner, any number of observers and the
  machine into one step relation for one job.
\<close>

section \<open>The command\<close>

definition shell_command :: "job_shell \<Rightarrow> io_failure + string \<times> string list" where
  "shell_command shell =
     (case shell of
        Bash \<Rightarrow> Inr (''bash'', [''--noprofile'', ''--norc'', ''-c''])
      | Sh \<Rightarrow> Inr (''sh'', [''-c''])
      | Login path \<Rightarrow>
          if \<not> starts_with ''/'' path \<or> NUL \<in> set path then Inl (invalid_data ''invalid login shell path'')
          else Inr (path, [''-lc'']))"

text \<open>\<open>std::process::ExitStatus\<close>: how the command ended.\<close>

datatype exit_status = Exited int | Signaled int

fun exit_success :: "exit_status \<Rightarrow> bool" where
  "exit_success (Exited n) \<longleftrightarrow> n = 0"
| "exit_success (Signaled _) \<longleftrightarrow> False"

fun exit_code :: "exit_status \<Rightarrow> int option" where
  "exit_code (Exited n) = Some n"
| "exit_code (Signaled _) = None"

fun exit_signal :: "exit_status \<Rightarrow> int option" where
  "exit_signal (Exited _) = None"
| "exit_signal (Signaled n) = Some n"

section \<open>Up to the running record\<close>

text \<open>The lock of the job is held; \<open>spawned\<close> is the command with its standard input written, \<open>me\<close> the
  runner.\<close>

definition mark_running ::
  "string \<Rightarrow> process_identity \<Rightarrow> process_identity \<Rightarrow> nat \<Rightarrow> job_state_record \<Rightarrow> job_state_record" where
  "mark_running boot me command now state =
     state\<lparr>js_state := Running, js_boot_id := boot, js_runner := Some me,
       js_command_group := Some command, js_started_unix_ms := Some now\<rparr>"

definition launch_command ::
  "(string \<Rightarrow> string) \<Rightarrow> (string \<Rightarrow> string option) \<Rightarrow> (string \<times> string list \<Rightarrow> string \<Rightarrow> io_failure + process_identity)
     \<Rightarrow> job_id \<Rightarrow> job_request_record \<Rightarrow> process_identity job_op" where
  "launch_command encode64 decode64 spawn jid request =
     (case decode64 (jr_stdin_base64 request) of
       None \<Rightarrow> pureJ (Inl (invalid_data ''job stdin is not canonical Base64''))
     | Some stdin \<Rightarrow>
         if encode64 stdin \<noteq> jr_stdin_base64 request then
           pureJ (Inl (invalid_data ''job stdin is not canonical Base64''))
         else
           bindJ (open_job jid) (\<lambda>job.
           if jd_stdout job = None \<or> jd_stderr job = None then pureJ (Inl (os_error Io_NotFound))
           else
             bindJ (pureJ (shell_command (jr_shell request))) (\<lambda>shell.
             pureJ (spawn (fst shell, snd shell @ [jr_command request]) stdin))))"

definition runner_begin ::
  "(string \<Rightarrow> string) \<Rightarrow> (string \<Rightarrow> string option) \<Rightarrow> (string \<times> string list \<Rightarrow> string \<Rightarrow> io_failure + process_identity)
     \<Rightarrow> job_env \<Rightarrow> process_identity \<Rightarrow> job_id \<Rightarrow> job_state_record job_op" where
  "runner_begin encode64 decode64 spawn en me jid =
     bindJ (read_job_request encode64 decode64 jid) (\<lambda>request.
     bindJ (launch_command encode64 decode64 spawn jid request) (\<lambda>command.
     bindJ (status en jid) (\<lambda>state.
     bindJ (replace_state jid (mark_running (je_boot en) me command (je_now en) state)) (\<lambda>_.
       pureJ (Inr (mark_running (je_boot en) me command (je_now en) state))))))"

section \<open>Watching the command\<close>

record look =
  lk_wait :: "io_failure + exit_status option"
  lk_cancel :: "io_failure + bool"
  lk_elapsed :: nat

definition timeout_reached :: "nat option \<Rightarrow> nat \<Rightarrow> bool" where
  "timeout_reached timeout_ms elapsed =
     (case timeout_ms of None \<Rightarrow> False | Some milliseconds \<Rightarrow> milliseconds \<le> elapsed)"

text \<open>The loop, over what it sees in each turn: the status of the command, the two flags \<open>cancelled\<close> and
  \<open>timed_out\<close>; \<open>None\<close> while it goes on.  \<open>stopped\<close> is what stopping the process group gives.\<close>

fun watch ::
  "nat option \<Rightarrow> io_failure + exit_status \<Rightarrow> look list \<Rightarrow> (io_failure + bool \<times> bool \<times> exit_status) option" where
  "watch timeout_ms stopped [] = None"
| "watch timeout_ms stopped (l # ls) =
     (case lk_wait l of
        Inl e \<Rightarrow> Some (Inl e)
      | Inr (Some st) \<Rightarrow> Some (Inr (False, False, st))
      | Inr None \<Rightarrow>
          (case lk_cancel l of
             Inl e \<Rightarrow> Some (Inl e)
           | Inr True \<Rightarrow> Some (map_sum id (\<lambda>st. (True, False, st)) stopped)
           | Inr False \<Rightarrow>
               if timeout_reached timeout_ms (lk_elapsed l) then
                 Some (map_sum id (\<lambda>st. (False, True, st)) stopped)
               else watch timeout_ms stopped ls))"

datatype kill_result = Killed | No_Such_Process | Kill_Error io_failure

definition terminate_verified_group ::
  "(process_identity \<Rightarrow> bool) \<Rightarrow> kill_result \<Rightarrow> process_identity \<Rightarrow> io_failure + bool" where
  "terminate_verified_group matches kill identity =
     (if pi_pid identity \<le> 0 \<or> \<not> matches identity then Inr False
      else (case kill of Killed \<Rightarrow> Inr True | No_Such_Process \<Rightarrow> Inr False | Kill_Error e \<Rightarrow> Inl e))"

text \<open>\<open>waits\<close> are the answers of \<open>try_wait\<close> until the grace is over; then the group is killed and waited for.\<close>

fun wait_after_signal ::
  "io_failure + bool \<Rightarrow> io_failure + exit_status \<Rightarrow> (io_failure + exit_status option) list
     \<Rightarrow> io_failure + exit_status" where
  "wait_after_signal killed waited [] = bindR killed (\<lambda>_. waited)"
| "wait_after_signal killed waited (r # rs) =
     (case r of
        Inl e \<Rightarrow> Inl e
      | Inr (Some st) \<Rightarrow> Inr st
      | Inr None \<Rightarrow> wait_after_signal killed waited rs)"

section \<open>Draining the output\<close>

text \<open>\<open>reserve_quota\<close> is a compare-and-exchange loop: \<open>seen\<close> are the values other threads left there at the
  failed attempts, the value at the successful one is the last.\<close>

definition quota_share :: "nat \<Rightarrow> nat \<Rightarrow> nat \<Rightarrow> nat" where
  "quota_share maximum wanted used = min wanted (saturating_sub maximum used)"

fun reserve_quota :: "nat \<Rightarrow> nat \<Rightarrow> nat \<Rightarrow> nat list \<Rightarrow> nat \<times> nat" where
  "reserve_quota maximum wanted used [] =
     (let retained = quota_share maximum wanted used in (retained, saturating_add used retained))"
| "reserve_quota maximum wanted used (observed # seen) = reserve_quota maximum wanted observed seen"

record drain_stats =
  dr_observed :: nat
  dr_retained :: nat

record drains =
  dn_quota :: nat
  dn_stdout :: drain_stats
  dn_stderr :: drain_stats
  dn_stdout_file :: string
  dn_stderr_file :: string

definition no_drains :: drains where
  "no_drains = \<lparr>dn_quota = 0, dn_stdout = \<lparr>dr_observed = 0, dr_retained = 0\<rparr>,
     dn_stderr = \<lparr>dr_observed = 0, dr_retained = 0\<rparr>, dn_stdout_file = [], dn_stderr_file = []\<rparr>"

text \<open>One chunk read from a pipe; the counters wrap.\<close>

definition count_chunk :: "nat \<Rightarrow> nat \<Rightarrow> drain_stats \<Rightarrow> drain_stats" where
  "count_chunk observed retained st =
     \<lparr>dr_observed = (dr_observed st + observed) mod (u64_max + 1),
      dr_retained = (dr_retained st + retained) mod (u64_max + 1)\<rparr>"

definition drain_chunk :: "nat \<Rightarrow> stream_kind \<Rightarrow> string \<Rightarrow> drains \<Rightarrow> drains" where
  "drain_chunk maximum stream chunk d =
     (let (retained, quota) = reserve_quota maximum (length chunk) (dn_quota d) [] in
      (case stream of
         Stdout_Stream \<Rightarrow> d\<lparr>dn_quota := quota, dn_stdout := count_chunk (length chunk) retained (dn_stdout d),
                     dn_stdout_file := dn_stdout_file d @ take retained chunk\<rparr>
       | Stderr_Stream \<Rightarrow> d\<lparr>dn_quota := quota, dn_stderr := count_chunk (length chunk) retained (dn_stderr d),
                     dn_stderr_file := dn_stderr_file d @ take retained chunk\<rparr>))"

text \<open>Both threads: the chunks in the order in which they reserve their share.\<close>

fun drain_streams :: "nat \<Rightarrow> (stream_kind \<times> string) list \<Rightarrow> drains \<Rightarrow> drains" where
  "drain_streams maximum [] d = d"
| "drain_streams maximum ((stream, chunk) # chunks) d =
     drain_streams maximum chunks (drain_chunk maximum stream chunk d)"

section \<open>The final record\<close>

definition final_state :: "bool \<Rightarrow> bool \<Rightarrow> exit_status \<Rightarrow> job_state" where
  "final_state cancelled timed_out st =
     (if cancelled then job_state.Cancelled else if timed_out then TimedOut
      else if exit_success st then Succeeded else Failed)"

definition finish_record ::
  "bool \<Rightarrow> bool \<Rightarrow> exit_status \<Rightarrow> nat \<Rightarrow> drains \<Rightarrow> job_state_record \<Rightarrow> job_state_record" where
  "finish_record cancelled timed_out st now d state =
     state\<lparr>js_state := final_state cancelled timed_out st, js_exit_code := exit_code st,
       js_signal := exit_signal st, js_finished_unix_ms := Some now,
       js_stdout_retained_bytes := dr_retained (dn_stdout d),
       js_stdout_observed_bytes := dr_observed (dn_stdout d),
       js_stderr_retained_bytes := dr_retained (dn_stderr d),
       js_stderr_observed_bytes := dr_observed (dn_stderr d),
       js_stdout_truncated := dr_retained (dn_stdout d) < dr_observed (dn_stdout d),
       js_stderr_truncated := dr_retained (dn_stderr d) < dr_observed (dn_stderr d)\<rparr>"

definition runner_finish ::
  "job_id \<Rightarrow> bool \<Rightarrow> bool \<Rightarrow> exit_status \<Rightarrow> nat \<Rightarrow> drains \<Rightarrow> job_state_record \<Rightarrow> unit job_op" where
  "runner_finish jid cancelled timed_out st now d state =
     replace_state jid (finish_record cancelled timed_out st now d state)"

section \<open>One job and those who look at it\<close>

datatype job_holder = By_Runner | By_Observer nat

text \<open>The runner: before its lock; with it; after the running record; after the loop, with what it saw.\<close>

datatype runner_phase =
    R_Waiting
  | R_Locked
  | R_Running job_state_record
  | R_Stopping job_state_record bool bool exit_status
  | R_Gone

text \<open>An observer runs \<open>status\<close>: it has read the record, has decided that it must be settled (with the comparison of the
  boots), holds the lock, or has its answer.\<close>

datatype observer_phase =
    O_Idle
  | O_Read job_state_record
  | O_Judged job_state_record bool
  | O_Holding bool
  | O_Answered job_state_record

record job_world =
  jw_store :: job_store
  jw_boot :: string
  jw_now :: nat
  jw_alive :: "process_identity \<Rightarrow> bool"
  jw_holder :: "job_holder option"
  jw_runner :: runner_phase
  jw_observers :: "nat \<Rightarrow> observer_phase"
  jw_history :: "job_state list"

definition world_env :: "job_world \<Rightarrow> job_env" where
  "world_env w = \<lparr>je_boot = jw_boot w, je_now = jw_now w, je_alive = jw_alive w,
     je_locked = (\<lambda>_. jw_holder w \<noteq> None)\<rparr>"

definition set_observer :: "nat \<Rightarrow> observer_phase \<Rightarrow> job_world \<Rightarrow> job_world" where
  "set_observer k p w = w\<lparr>jw_observers := (jw_observers w)(k := p)\<rparr>"

definition runner_alive :: "runner_phase \<Rightarrow> bool" where
  "runner_alive p \<longleftrightarrow> p \<noteq> R_Gone"

text \<open>The world after \<open>create\<close>: the runner \<open>me\<close> is about to start.\<close>

definition job_created ::
  "(string \<Rightarrow> string) \<Rightarrow> (string \<Rightarrow> string option) \<Rightarrow> process_identity \<Rightarrow> job_id \<Rightarrow> job_world \<Rightarrow> bool" where
  "job_created encode64 decode64 me jid w \<longleftrightarrow>
     (\<exists>request before. jr_job_id request = jid \<and>
        create_job encode64 decode64 (Inr ()) (world_env w) request before = (Inr (), jw_store w)) \<and>
     jw_alive w me \<and> jw_holder w = None \<and> jw_runner w = R_Waiting \<and>
     jw_observers w = (\<lambda>_. O_Idle) \<and> jw_history w = []"

inductive job_step ::
  "(string \<Rightarrow> string) \<Rightarrow> (string \<Rightarrow> string option) \<Rightarrow> process_identity \<Rightarrow> job_id \<Rightarrow> job_world \<Rightarrow> job_world
     \<Rightarrow> bool"
  for encode64 decode64 me jid where
  runner_locks:
    "jw_runner w = R_Waiting \<Longrightarrow> jw_holder w = None \<Longrightarrow>
     job_step encode64 decode64 me jid w (w\<lparr>jw_runner := R_Locked, jw_holder := Some By_Runner\<rparr>)"
| runner_begins:
    "jw_runner w = R_Locked \<Longrightarrow>
     runner_begin encode64 decode64 spawn (world_env w) me jid (jw_store w) = (Inr running, store) \<Longrightarrow>
     job_step encode64 decode64 me jid w
       (w\<lparr>jw_store := store, jw_runner := R_Running running, jw_history := jw_history w @ [Running]\<rparr>)"
| runner_stops:
    "jw_runner w = R_Running running \<Longrightarrow>
     read_job_request encode64 decode64 jid (jw_store w) = (Inr request, jw_store w) \<Longrightarrow>
     open_job jid (jw_store w) = (Inr job, jw_store w) \<Longrightarrow>
     \<forall>l \<in> set looks. lk_cancel l = Inr True \<longrightarrow> jd_cancel job \<Longrightarrow>
     watch (jr_timeout_ms request) stopped looks = Some (Inr (cancelled, timed_out, st)) \<Longrightarrow>
     job_step encode64 decode64 me jid w
       (w\<lparr>jw_runner := R_Stopping running cancelled timed_out st\<rparr>)"
| runner_finishes:
    "jw_runner w = R_Stopping running cancelled timed_out st \<Longrightarrow>
     runner_finish jid cancelled timed_out st (jw_now w) d running (jw_store w) = (Inr (), store) \<Longrightarrow>
     job_step encode64 decode64 me jid w
       (w\<lparr>jw_store := store, jw_runner := R_Gone, jw_holder := None,
          jw_history := jw_history w @ [final_state cancelled timed_out st]\<rparr>)"
| runner_dies:
    "runner_alive (jw_runner w) \<Longrightarrow>
     job_step encode64 decode64 me jid w
       (w\<lparr>jw_runner := R_Gone,
          jw_holder := (if jw_holder w = Some By_Runner then None else jw_holder w)\<rparr>)"
| machine:
    "runner_alive (jw_runner w) \<longrightarrow> alive me \<Longrightarrow>
     job_step encode64 decode64 me jid w (w\<lparr>jw_now := now, jw_alive := alive\<rparr>)"
| reboot:
    "boot \<noteq> jw_boot w \<Longrightarrow>
     job_step encode64 decode64 me jid w
       (w\<lparr>jw_boot := boot, jw_alive := (\<lambda>_. False), jw_holder := None, jw_runner := R_Gone,
          jw_observers := (\<lambda>_. O_Idle)\<rparr>)"
| cancel_asked:
    "update_dir (job_id_as_str jid) (\<lambda>d. d\<lparr>jd_cancel := True\<rparr>) (jw_store w) = (Inr (), store) \<Longrightarrow>
     job_step encode64 decode64 me jid w (w\<lparr>jw_store := store\<rparr>)"
| observer_reads:
    "jw_observers w k = O_Idle \<or> (\<exists>st. jw_observers w k = O_Answered st) \<Longrightarrow>
     read_state jid (jw_store w) = (Inr state, jw_store w) \<Longrightarrow>
     job_step encode64 decode64 me jid w (set_observer k (O_Read state) w)"
| observer_judges:
    "jw_observers w k = O_Read state \<Longrightarrow>
     job_step encode64 decode64 me jid w
       (set_observer k
          (if stands (world_env w) state then O_Answered state
           else O_Judged state (boot_changed (world_env w) state)) w)"
| observer_locks:
    "jw_observers w k = O_Judged state changed \<Longrightarrow>
     job_step encode64 decode64 me jid w
       (if jw_holder w = None then (set_observer k (O_Holding changed) w)\<lparr>jw_holder := Some (By_Observer k)\<rparr>
        else set_observer k (O_Answered state) w)"
| observer_settles:
    "jw_observers w k = O_Holding changed \<Longrightarrow>
     open_job jid (jw_store w) = (Inr job, jw_store w) \<Longrightarrow>
     jd_state job = Stored fresh \<Longrightarrow>
     job_step encode64 decode64 me jid w
       (case settle_fresh (world_env w) changed fresh of
          None \<Rightarrow> (set_observer k (O_Answered fresh) w)\<lparr>jw_holder := None\<rparr>
        | Some lost \<Rightarrow>
            (set_observer k (O_Answered lost) w)
              \<lparr>jw_holder := None, jw_store := snd (write_state jid lost (jw_store w)),
               jw_history := jw_history w @ [Lost]\<rparr>)"
| observer_fails:
    "job_step encode64 decode64 me jid w
       ((set_observer k O_Idle w)
          \<lparr>jw_holder := (if jw_holder w = Some (By_Observer k) then None else jw_holder w)\<rparr>)"
| job_removed:
    "jw_observers w k = O_Answered state \<Longrightarrow> is_terminal (js_state state) \<Longrightarrow> jw_holder w = None \<Longrightarrow>
     remove_dir (job_id_as_str jid) (jw_store w) = (Inr (), store) \<Longrightarrow>
     job_step encode64 decode64 me jid w (w\<lparr>jw_store := store\<rparr>)"

inductive job_reached ::
  "(string \<Rightarrow> string) \<Rightarrow> (string \<Rightarrow> string option) \<Rightarrow> process_identity \<Rightarrow> job_id \<Rightarrow> job_world \<Rightarrow> bool"
  for encode64 decode64 me jid where
  created: "job_created encode64 decode64 me jid w \<Longrightarrow> job_reached encode64 decode64 me jid w"
| stepped: "job_reached encode64 decode64 me jid w \<Longrightarrow> job_step encode64 decode64 me jid w w'
    \<Longrightarrow> job_reached encode64 decode64 me jid w'"

end
