(* ===== verification/Job_Life.thy ===== *)
theory Job_Life
  imports Job_Runner
begin

text \<open>
  The life of one job over every interleaving of its runner, its observers, deaths and reboots: its record only
  makes the transitions of the life cycle, a live runner is never declared lost, and a terminal answer is
  final.
\<close>

section \<open>Operations of the store\<close>

lemma pureJ_apply [simp]: "pureJ r s = (r, s)"
  by (simp add: pureJ_def)

lemma bindJ_apply: "bindJ m f s = (case m s of (Inl e, s1) \<Rightarrow> (Inl e, s1) | (Inr a, s1) \<Rightarrow> f a s1)"
  by (simp add: bindJ_def)

lemma bindJ_Inl [simp]: "m s = (Inl e, s1) \<Longrightarrow> bindJ m f s = (Inl e, s1)"
  by (simp add: bindJ_apply)

lemma bindJ_Inr [simp]: "m s = (Inr a, s1) \<Longrightarrow> bindJ m f s = f a s1"
  by (simp add: bindJ_apply)

lemma bindJ_InrE:
  assumes "bindJ m f s = (Inr b, s2)"
  obtains a s1 where "m s = (Inr a, s1)" "f a s1 = (Inr b, s2)"
  using assms by (auto simp: bindJ_apply split: prod.splits sum.splits)

lemma map_of_update:
  "map_of (map (\<lambda>(n, d). (n, if n = name then f d else d)) s) n =
     (if n = name then map_option f (map_of s n) else map_of s n)"
  by (induction s) auto

lemma map_of_update_dir [simp]:
  "update_dir name f s = (Inr (), s') \<Longrightarrow>
   map_of s' n = (if n = name then map_option f (map_of s n) else map_of s n)"
  by (auto simp: update_dir_def map_of_update)

lemma map_of_remove: "map_of (filter (\<lambda>(n, d). n \<noteq> name) s) n = (if n = name then None else map_of s n)"
  by (induction s) auto

lemma map_of_remove_dir:
  "remove_dir name s = (Inr (), s') \<Longrightarrow> map_of s' n = (if n = name then None else map_of s n)"
  by (auto simp: remove_dir_def map_of_remove)

lemma checked_id_Inr: "checked_id jid = Inr name \<Longrightarrow> name = job_id_as_str jid"
  by (auto simp: checked_id_def split: sum.splits)

lemma open_job_InrD:
  assumes "open_job jid s = (Inr job, s')"
  shows "s' = s" "map_of s (job_id_as_str jid) = Some job" "checked_id jid = Inr (job_id_as_str jid)"
  using assms
  by (auto simp: open_job_def bindJ_apply ok_or_def dest: checked_id_Inr split: sum.splits option.splits)

lemma open_job_eq:
  "checked_id jid = Inr (job_id_as_str jid) \<Longrightarrow> map_of s (job_id_as_str jid) = Some job \<Longrightarrow>
   open_job jid s = (Inr job, s)"
  by (simp add: open_job_def bindJ_apply ok_or_def)

lemma read_state_InrD:
  assumes "read_state jid s = (Inr st, s')"
  shows "s' = s" "\<exists>job. map_of s (job_id_as_str jid) = Some job \<and> jd_state job = Stored st"
    "js_version st = JOB_RECORD_VERSION" "js_job_id st = jid"
proof -
  obtain job s1 where job: "open_job jid s = (Inr job, s1)"
    and rest: "bindJ (pureJ (read_record (jd_state job))) (\<lambda>state.
      if js_version state \<noteq> JOB_RECORD_VERSION \<or> js_job_id state \<noteq> jid then
        pureJ (Inl (invalid_data ''invalid job state record'')) else pureJ (Inr state)) s1 = (Inr st, s')"
    using assms unfolding read_state_def by (rule bindJ_InrE)
  note o = open_job_InrD [OF job]
  have st: "jd_state job = Stored st" and v: "js_version st = JOB_RECORD_VERSION" "js_job_id st = jid"
    and s: "s' = s1"
    using rest by (cases "jd_state job"; auto simp: bindJ_apply split: if_splits)+
  show "s' = s" using s o by simp
  show "\<exists>job. map_of s (job_id_as_str jid) = Some job \<and> jd_state job = Stored st" using o st by blast
  show "js_version st = JOB_RECORD_VERSION" "js_job_id st = jid" by (fact v)+
qed

lemma status_standing:
  assumes "read_state jid s = (Inr st, s)" and "stands en st"
  shows "status en jid s = (Inr st, s)"
  using assms by (simp add: status_def reconcile_state_def)

lemma status_stored:
  assumes "status en jid s = (Inr got, s1)"
    and "map_of s (job_id_as_str jid) = Some d" "jd_state d = Stored st" "stands en st"
  shows "got = st" "s1 = s"
proof -
  obtain st1 s2 where r: "read_state jid s = (Inr st1, s2)" and rest: "reconcile_state en st1 s2 = (Inr got, s1)"
    using assms(1) unfolding status_def by (rule bindJ_InrE)
  note f = read_state_InrD [OF r]
  have "st1 = st" using f(2) assms(2,3) by auto
  with rest f(1) assms(4) show "got = st" "s1 = s" by (auto simp: reconcile_state_def)
qed

lemma write_state_eq:
  "write_state jid r s = (Inr (), s') \<Longrightarrow>
   map_of s' n = (if n = job_id_as_str jid then map_option (\<lambda>d. d\<lparr>jd_state := Stored r\<rparr>) (map_of s n)
     else map_of s n)"
  by (simp add: write_state_def)

lemma replace_state_InrD:
  assumes "replace_state jid r s = (Inr (), s')"
  shows "map_of s' n = (if n = job_id_as_str jid then map_option (\<lambda>d. d\<lparr>jd_state := Stored r\<rparr>) (map_of s n)
      else map_of s n)" "js_version r = JOB_RECORD_VERSION" "js_job_id r = jid"
proof -
  have v: "js_version r = JOB_RECORD_VERSION" "js_job_id r = jid"
    and b: "bindJ (open_job jid) (\<lambda>_. write_state jid r) s = (Inr (), s')"
    using assms by (auto simp: replace_state_def split: if_splits)
  obtain a s1 where "open_job jid s = (Inr a, s1)" "write_state jid r s1 = (Inr (), s')"
    using b by (rule bindJ_InrE)
  then show "map_of s' n = (if n = job_id_as_str jid then map_option (\<lambda>d. d\<lparr>jd_state := Stored r\<rparr>) (map_of s n)
      else map_of s n)"
    using open_job_InrD(1) write_state_eq by metis
  show "js_version r = JOB_RECORD_VERSION" "js_job_id r = jid" by (fact v)+
qed

lemma read_job_request_store: "read_job_request e d jid s = (Inr request, s') \<Longrightarrow>
    s' = s \<and> (\<exists>job. map_of s (job_id_as_str jid) = Some job \<and> jd_request job = Stored request)"
proof -
  assume a: "read_job_request e d jid s = (Inr request, s')"
  obtain job s1 where job: "open_job jid s = (Inr job, s1)" and rest:
    "bindJ (pureJ (read_record (jd_request job))) (\<lambda>request.
       bindJ (pureJ (validate_request e d request)) (\<lambda>_.
       if jr_job_id request \<noteq> jid then pureJ (Inl (invalid_data ''job request id mismatch''))
       else pureJ (Inr request))) s1 = (Inr request, s')"
    using a unfolding read_job_request_def by (rule bindJ_InrE)
  note o = open_job_InrD [OF job]
  from rest have "jd_request job = Stored request \<and> s' = s1"
    by (cases "jd_request job") (auto simp: bindJ_apply split: sum.splits if_splits)
  with o show ?thesis by blast
qed

lemma launch_command_store:
  "launch_command e d spawn jid request s = (Inr command, s') \<Longrightarrow> s' = s"
  by (auto simp: launch_command_def split: option.splits if_splits sum.splits
      elim!: bindJ_InrE dest!: open_job_InrD(1))

text \<open>Starting the command replaces a standing record by the running one.\<close>

lemma runner_begin_InrD:
  assumes "runner_begin e d spawn en me jid s = (Inr running, s')"
    and "map_of s (job_id_as_str jid) = Some job" "jd_state job = Stored st" "stands en st"
  shows "\<exists>command. running = mark_running (je_boot en) me command (je_now en) st"
    and "\<And>n. map_of s' n = (if n = job_id_as_str jid
           then map_option (\<lambda>d. d\<lparr>jd_state := Stored running\<rparr>) (map_of s n) else map_of s n)"
    and "js_version running = JOB_RECORD_VERSION" "js_job_id running = jid"
proof -
  obtain command st1 s1 where st1: "status en jid s = (Inr st1, s1)"
    and r: "replace_state jid (mark_running (je_boot en) me command (je_now en) st1) s1 = (Inr (), s')"
    and run: "running = mark_running (je_boot en) me command (je_now en) st1"
    using assms(1) unfolding runner_begin_def
    by (auto elim!: bindJ_InrE dest!: read_job_request_store launch_command_store)
  note same = status_stored [OF st1 assms(2-4)]
  note w = r [unfolded same] and fin = run [unfolded same]
  note rep = replace_state_InrD [OF w]
  show "\<exists>command. running = mark_running (je_boot en) me command (je_now en) st" using fin by blast
  show "\<And>n. map_of s' n = (if n = job_id_as_str jid
           then map_option (\<lambda>d. d\<lparr>jd_state := Stored running\<rparr>) (map_of s n) else map_of s n)"
    using rep(1) fin by simp
  show "js_version running = JOB_RECORD_VERSION" "js_job_id running = jid" using rep(2,3) fin by simp_all
qed

section \<open>The invariant\<close>

definition job_entry :: "job_id \<Rightarrow> job_world \<Rightarrow> job_dir option" where
  "job_entry jid w = map_of (jw_store w) (job_id_as_str jid)"

definition last_state :: "job_world \<Rightarrow> job_state" where
  "last_state w = last (Starting # jw_history w)"

definition may_time_out :: "job_dir \<Rightarrow> bool" where
  "may_time_out d \<longleftrightarrow> (\<exists>request. jd_request d = Stored request \<and> jr_timeout_ms request \<noteq> None)"

text \<open>The directory belongs to the history: its record is the last state, and what ended the job was asked for.\<close>

definition dir_ok :: "job_id \<Rightarrow> job_world \<Rightarrow> job_dir \<Rightarrow> job_state_record \<Rightarrow> bool" where
  "dir_ok jid w d st \<longleftrightarrow>
     jd_state d = Stored st \<and> js_version st = JOB_RECORD_VERSION \<and> js_job_id st = jid \<and>
     js_state st = last_state w \<and>
     (job_state.Cancelled \<in> set (jw_history w) \<longrightarrow> jd_cancel d) \<and>
     (TimedOut \<in> set (jw_history w) \<longrightarrow> may_time_out d)"

definition job_history_ok :: "job_world \<Rightarrow> bool" where
  "job_history_ok w \<longleftrightarrow> job_run Starting (jw_history w) \<and> (Lost \<in> set (jw_history w) \<longrightarrow> jw_runner w = R_Gone)"

fun phase_ok :: "process_identity \<Rightarrow> job_world \<Rightarrow> job_dir \<Rightarrow> job_state_record \<Rightarrow> runner_phase \<Rightarrow> bool" where
  "phase_ok me w d st R_Waiting \<longleftrightarrow> js_state st = Starting"
| "phase_ok me w d st R_Locked \<longleftrightarrow> js_state st = Starting"
| "phase_ok me w d st (R_Running r) \<longleftrightarrow> st = r \<and> js_state r = Running \<and> js_runner r = Some me"
| "phase_ok me w d st (R_Stopping r cancelled timed_out x) \<longleftrightarrow>
     st = r \<and> js_state r = Running \<and> js_runner r = Some me \<and> (cancelled \<longrightarrow> jd_cancel d) \<and>
     (timed_out \<longrightarrow> may_time_out d)"
| "phase_ok me w d st R_Gone \<longleftrightarrow> True"

definition record_ok :: "process_identity \<Rightarrow> job_id \<Rightarrow> job_world \<Rightarrow> bool" where
  "record_ok me jid w \<longleftrightarrow>
     (case job_entry jid w of
        None \<Rightarrow> is_terminal (last_state w) \<and> jw_runner w = R_Gone
      | Some d \<Rightarrow> \<exists>st. dir_ok jid w d st \<and> phase_ok me w d st (jw_runner w) \<and>
          (jw_runner w \<noteq> R_Gone \<longrightarrow> js_boot_id st = jw_boot w \<and> jw_alive w me))"

text \<open>What an observer has read: a state of the history; if it is terminal, it still stands; and while the
  runner lives, the record says so.\<close>

definition seen_ok :: "process_identity \<Rightarrow> job_id \<Rightarrow> job_world \<Rightarrow> job_state_record \<Rightarrow> bool" where
  "seen_ok me jid w st \<longleftrightarrow>
     js_state st \<in> set (Starting # jw_history w) \<and>
     (is_terminal (js_state st) \<longrightarrow> (\<forall>d. job_entry jid w = Some d \<longrightarrow> jd_state d = Stored st)) \<and>
     (jw_runner w \<noteq> R_Gone \<longrightarrow>
        js_boot_id st = jw_boot w \<and> (js_state st = Running \<longrightarrow> js_runner st = Some me))"

fun observer_ok :: "process_identity \<Rightarrow> job_id \<Rightarrow> job_world \<Rightarrow> observer_phase \<Rightarrow> bool" where
  "observer_ok me jid w O_Idle \<longleftrightarrow> True"
| "observer_ok me jid w (O_Read st) \<longleftrightarrow> seen_ok me jid w st"
| "observer_ok me jid w (O_Judged st changed) \<longleftrightarrow> seen_ok me jid w st \<and> jw_runner w = R_Gone"
| "observer_ok me jid w (O_Holding changed) \<longleftrightarrow> jw_runner w = R_Gone"
| "observer_ok me jid w (O_Answered st) \<longleftrightarrow> seen_ok me jid w st"

definition world_ok :: "process_identity \<Rightarrow> job_id \<Rightarrow> job_world \<Rightarrow> bool" where
  "world_ok me jid w \<longleftrightarrow>
     job_history_ok w \<and> record_ok me jid w \<and> (\<forall>k. observer_ok me jid w (jw_observers w k))"

lemma world_okD:
  assumes "world_ok me jid w"
  shows "job_history_ok w" "record_ok me jid w" "observer_ok me jid w (jw_observers w k)"
  using assms by (auto simp: world_ok_def)

lemma record_okE:
  assumes "record_ok me jid w" and "job_entry jid w = Some d"
  obtains st where "dir_ok jid w d st" "phase_ok me w d st (jw_runner w)"
    "jw_runner w \<noteq> R_Gone \<longrightarrow> js_boot_id st = jw_boot w \<and> jw_alive w me"
  using assms by (auto simp: record_ok_def)

text \<open>Observers keep what they know when the record, the history and the boot stay and the runner does not
  come back.\<close>

definition frame_ok :: "job_id \<Rightarrow> job_world \<Rightarrow> job_world \<Rightarrow> bool" where
  "frame_ok jid w w' \<longleftrightarrow>
     set (jw_history w) \<subseteq> set (jw_history w') \<and>
     (jw_runner w = R_Gone \<longrightarrow> jw_runner w' = R_Gone) \<and>
     (jw_runner w' \<noteq> R_Gone \<longrightarrow> jw_boot w' = jw_boot w) \<and>
     (\<forall>d'. job_entry jid w' = Some d' \<longrightarrow> (\<exists>d. job_entry jid w = Some d \<and>
        (\<forall>st. jd_state d = Stored st \<longrightarrow> is_terminal (js_state st) \<longrightarrow> jd_state d' = Stored st)))"

lemma seen_ok_frame: "seen_ok me jid w st \<Longrightarrow> frame_ok jid w w' \<Longrightarrow> seen_ok me jid w' st"
  unfolding seen_ok_def frame_ok_def by (cases "job_entry jid w'") auto

lemma observer_ok_frame: "observer_ok me jid w p \<Longrightarrow> frame_ok jid w w' \<Longrightarrow> observer_ok me jid w' p"
  by (cases p) (auto intro: seen_ok_frame simp: frame_ok_def)

text \<open>A step that leaves the observers but one as they were.\<close>

lemma world_ok_step:
  assumes "world_ok me jid w" and "record_ok me jid w'" and "job_history_ok w'" and "frame_ok jid w w'"
    and "\<And>k. jw_observers w' k = jw_observers w k \<or> observer_ok me jid w' (jw_observers w' k)"
  shows "world_ok me jid w'"
proof -
  have "observer_ok me jid w' (jw_observers w' k)" for k
    using assms(5) [of k] observer_ok_frame [OF world_okD(3) [OF assms(1)] assms(4), of k] by metis
  with assms(2,3) show ?thesis by (simp add: world_ok_def)
qed

lemma frame_ok_same:
  assumes "jw_history w' = jw_history w" "jw_store w' = jw_store w" "jw_boot w' = jw_boot w"
    and "jw_runner w = R_Gone \<longrightarrow> jw_runner w' = R_Gone"
  shows "frame_ok jid w w'"
  using assms by (auto simp: frame_ok_def job_entry_def)

lemma record_ok_same:
  assumes "record_ok me jid w" and "jw_history w' = jw_history w" "jw_store w' = jw_store w"
    "jw_boot w' = jw_boot w" "jw_runner w' = jw_runner w"
    and "jw_runner w \<noteq> R_Gone \<longrightarrow> jw_alive w' me"
  shows "record_ok me jid w'"
proof -
  have p: "phase_ok me w' d st p = phase_ok me w d st p" for d st p by (cases p) auto
  show ?thesis using assms
    by (auto simp: record_ok_def job_entry_def dir_ok_def last_state_def p split: option.splits)
qed

text \<open>The record of a job whose runner is gone.\<close>

lemma record_ok_gone:
  assumes "record_ok me jid w" and "jw_history w' = jw_history w" "jw_store w' = jw_store w"
    "jw_runner w' = R_Gone"
  shows "record_ok me jid w'"
  using assms by (auto simp: record_ok_def job_entry_def dir_ok_def last_state_def split: option.splits)

lemma job_history_ok_gone:
  assumes "job_history_ok w" and "jw_history w' = jw_history w" "jw_runner w' = jw_runner w \<or> jw_runner w' = R_Gone"
  shows "job_history_ok w'"
  using assms by (auto simp: job_history_ok_def)

text \<open>A write to the record by the runner or an observer.\<close>

lemma job_run_snoc: "job_run s (ts @ [t]) \<longleftrightarrow> job_run s ts \<and> can_transition_to (last (s # ts)) t"
  by (induction ts arbitrary: s) auto

lemma last_state_snoc [simp]: "jw_history w' = jw_history w @ [t] \<Longrightarrow> last_state w' = t"
  by (simp add: last_state_def)

lemma frame_ok_write:
  assumes "jw_history w' = jw_history w @ [t]" "jw_boot w' = jw_boot w"
    and "jw_runner w = R_Gone \<longrightarrow> jw_runner w' = R_Gone"
    and "job_entry jid w = Some d" "jd_state d = Stored st" "\<not> is_terminal (js_state st)"
  shows "frame_ok jid w w'"
  using assms by (auto simp: frame_ok_def)

section \<open>The steps\<close>

lemma created_ok:
  assumes "job_created e d me jid w"
  shows "world_ok me jid w"
proof -
  from assms obtain request before where r: "jr_job_id request = jid"
    and c: "create_job e d (Inr ()) (world_env w) request before = (Inr (), jw_store w)"
    and f: "jw_alive w me" "jw_runner w = R_Waiting" "jw_observers w = (\<lambda>_. O_Idle)" "jw_history w = []"
    unfolding job_created_def by auto
  let ?d = "\<lparr>jd_request = Stored request, jd_state = Stored (starting_state (world_env w) request),
               jd_stdout = Some [], jd_stderr = Some [], jd_lock_file = True, jd_cancel = False,
               jd_other = []\<rparr>"
  have "map_of before (job_id_as_str jid) = None" "jw_store w = before @ [(job_id_as_str jid, ?d)]"
    using c r unfolding create_job_def
    by (auto elim!: bindJ_InrE dest!: checked_id_Inr split: if_splits)
  then have e: "job_entry jid w = Some ?d" by (simp add: job_entry_def map_add_def)
  have "record_ok me jid w"
    using f r by (auto simp: record_ok_def e dir_ok_def starting_state_def last_state_def world_env_def)
  then show ?thesis using f by (auto simp: world_ok_def job_history_ok_def)
qed

lemma stands_alive:
  assumes "seen_ok me jid w st" "jw_runner w \<noteq> R_Gone" "jw_alive w me"
  shows "stands (world_env w) st"
  using assms
  by (auto simp: stands_def seen_ok_def boot_changed_def runner_missing_def world_env_def split: option.splits)

lemma alive_of: "record_ok me jid w \<Longrightarrow> jw_runner w \<noteq> R_Gone \<Longrightarrow> jw_alive w me"
  by (auto simp: record_ok_def split: option.splits)

lemma entry_of: "record_ok me jid w \<Longrightarrow> jw_runner w \<noteq> R_Gone \<Longrightarrow> \<exists>d. job_entry jid w = Some d"
  by (auto simp: record_ok_def split: option.splits)

lemma record_okI:
  "job_entry jid w = Some d \<Longrightarrow> dir_ok jid w d st \<Longrightarrow> phase_ok me w d st (jw_runner w) \<Longrightarrow>
   (jw_runner w \<noteq> R_Gone \<Longrightarrow> js_boot_id st = jw_boot w \<and> jw_alive w me) \<Longrightarrow> record_ok me jid w"
  by (auto simp: record_ok_def)

lemma dir_ok_write:
  assumes "dir_ok jid w d st" and "js_version r = JOB_RECORD_VERSION" "js_job_id r = jid"
    and "jw_history w' = jw_history w @ [js_state r]"
    and "js_state r = job_state.Cancelled \<Longrightarrow> jd_cancel d" "js_state r = TimedOut \<Longrightarrow> may_time_out d"
  shows "dir_ok jid w' (d\<lparr>jd_state := Stored r\<rparr>) r"
  using assms by (auto simp: dir_ok_def may_time_out_def last_state_def)

lemma runner_begins_ok:
  assumes ok: "world_ok me jid w" and ph: "jw_runner w = R_Locked"
    and b: "runner_begin e d spawn (world_env w) me jid (jw_store w) = (Inr running, store)"
  shows "world_ok me jid
    (w\<lparr>jw_store := store, jw_runner := R_Running running, jw_history := jw_history w @ [Running]\<rparr>)"
    (is "world_ok me jid ?w")
proof -
  note rec = world_okD(2) [OF ok]
  obtain dd where d: "job_entry jid w = Some dd" using entry_of [OF rec] ph by auto
  obtain st where st: "dir_ok jid w dd st" "js_state st = Starting" "js_boot_id st = jw_boot w" "jw_alive w me"
    using record_okE [OF rec d] ph by auto
  have ds: "jd_state dd = Stored st" using st(1) by (simp add: dir_ok_def)
  have "stands (world_env w) st"
    using st by (simp add: stands_def boot_changed_def runner_missing_def world_env_def)
  note r = runner_begin_InrD [OF b d [unfolded job_entry_def] ds this]
  have e: "job_entry jid ?w = Some (dd\<lparr>jd_state := Stored running\<rparr>)"
    using r(2) d by (simp add: job_entry_def)
  obtain command where run: "running = mark_running (jw_boot w) me command (jw_now w) st"
    using r(1) by (auto simp: world_env_def)
  have last: "last_state w = Starting" using st(1,2) by (simp add: dir_ok_def)
  have h: "job_run Starting (jw_history w @ [Running])"
    using world_okD(1) [OF ok] last by (simp add: job_history_ok_def last_state_def job_run_snoc)
  have rs: "js_state running = Running" "js_runner running = Some me" "js_boot_id running = jw_boot w"
    using run by (simp_all add: mark_running_def)
  have "dir_ok jid ?w (dd\<lparr>jd_state := Stored running\<rparr>) running"
    by (rule dir_ok_write [OF st(1) r(3,4)]) (simp_all add: rs)
  then have "record_ok me jid ?w" by (rule record_okI [OF e]) (simp_all add: rs st(4))
  moreover have "job_history_ok ?w"
    using h world_okD(1) [OF ok] ph by (auto simp: job_history_ok_def)
  moreover have "frame_ok jid w ?w"
    by (rule frame_ok_write [OF _ _ _ d ds]) (use st(2) ph in auto)
  ultimately show ?thesis by (rule world_ok_step [OF ok]) auto
qed

lemma watch_reasons:
  assumes "watch timeout_ms stopped looks = Some (Inr (cancelled, timed_out, st))"
  shows "(cancelled \<longrightarrow> (\<exists>l \<in> set looks. lk_cancel l = Inr True)) \<and> (timed_out \<longrightarrow> timeout_ms \<noteq> None)"
  using assms
  by (induction looks; cases stopped)
    (auto simp: timeout_reached_def split: sum.splits option.splits bool.splits if_splits)

lemma runner_stops_ok:
  assumes ok: "world_ok me jid w" and ph: "jw_runner w = R_Running running"
    and req: "read_job_request e d jid (jw_store w) = (Inr request, jw_store w)"
    and job: "open_job jid (jw_store w) = (Inr job, jw_store w)"
    and looks: "\<forall>l \<in> set looks. lk_cancel l = Inr True \<longrightarrow> jd_cancel job"
    and watch: "watch (jr_timeout_ms request) stopped looks = Some (Inr (cancelled, timed_out, st))"
  shows "world_ok me jid (w\<lparr>jw_runner := R_Stopping running cancelled timed_out st\<rparr>)" (is "world_ok me jid ?w")
proof -
  note rec = world_okD(2) [OF ok]
  obtain dd where d: "job_entry jid w = Some dd" using entry_of [OF rec] ph by auto
  have same: "job = dd" "jd_request dd = Stored request"
    using open_job_InrD(2) [OF job] read_job_request_store [OF req] d by (auto simp: job_entry_def)
  have why: "cancelled \<longrightarrow> jd_cancel dd" "timed_out \<longrightarrow> may_time_out dd"
    using watch_reasons [OF watch] looks same by (auto simp: may_time_out_def)
  have e: "job_entry jid ?w = Some dd" using d by (simp add: job_entry_def)
  obtain r where r: "dir_ok jid w dd r" "phase_ok me w dd r (jw_runner w)"
    "js_boot_id r = jw_boot w" "jw_alive w me"
    using record_okE [OF rec d] ph by auto
  have "dir_ok jid ?w dd r" using r(1) by (simp add: dir_ok_def last_state_def)
  then have "record_ok me jid ?w"
    by (rule record_okI [OF e]) (use r(2-4) why ph in simp_all)
  moreover have "job_history_ok ?w" using world_okD(1) [OF ok] ph by (auto simp: job_history_ok_def)
  moreover have "frame_ok jid w ?w" using ph by (auto intro!: frame_ok_same)
  ultimately show ?thesis by (rule world_ok_step [OF ok]) auto
qed

lemma final_state_terminal: "is_terminal (final_state c t st)"
  by (simp add: final_state_def)

lemma final_state_cases:
  "final_state c t st = job_state.Cancelled \<longleftrightarrow> c" "final_state c t st = TimedOut \<Longrightarrow> t"
  "final_state c t st \<noteq> Lost"
  by (auto simp: final_state_def split: if_splits)

lemma runner_finishes_ok:
  assumes ok: "world_ok me jid w" and ph: "jw_runner w = R_Stopping running cancelled timed_out st"
    and b: "runner_finish jid cancelled timed_out st (jw_now w) dr running (jw_store w) = (Inr (), store)"
  shows "world_ok me jid
    (w\<lparr>jw_store := store, jw_runner := R_Gone, jw_holder := None,
       jw_history := jw_history w @ [final_state cancelled timed_out st]\<rparr>)" (is "world_ok me jid ?w")
proof -
  note rec = world_okD(2) [OF ok]
  obtain dd where d: "job_entry jid w = Some dd" using entry_of [OF rec] ph by auto
  have run: "dir_ok jid w dd running" "js_state running = Running"
    and why: "cancelled \<longrightarrow> jd_cancel dd" "timed_out \<longrightarrow> may_time_out dd"
    using record_okE [OF rec d] ph by auto
  note r = replace_state_InrD [OF b [unfolded runner_finish_def]]
  let ?r = "finish_record cancelled timed_out st (jw_now w) dr running"
  have e: "job_entry jid ?w = Some (dd\<lparr>jd_state := Stored ?r\<rparr>)"
    using r(1) d by (simp add: job_entry_def)
  have last: "last_state w = Running" using run by (simp add: dir_ok_def)
  have rs: "js_state ?r = final_state cancelled timed_out st" by (simp add: finish_record_def)
  have "dir_ok jid ?w (dd\<lparr>jd_state := Stored ?r\<rparr>) ?r"
    by (rule dir_ok_write [OF run(1) r(2,3)]) (use why in \<open>auto simp: rs final_state_cases(1) dest: final_state_cases(2)\<close>)
  then have "record_ok me jid ?w" by (rule record_okI [OF e]) simp_all
  moreover have "job_history_ok ?w"
    using world_okD(1) [OF ok] last ph final_state_terminal
    by (auto simp: job_history_ok_def job_run_snoc last_state_def)
  moreover have "frame_ok jid w ?w"
    by (rule frame_ok_write [OF _ _ _ d]) (use run in \<open>auto simp: dir_ok_def\<close>)
  ultimately show ?thesis by (rule world_ok_step [OF ok]) auto
qed

lemma world_ok_gone:
  assumes ok: "world_ok me jid w" and "jw_history w' = jw_history w" "jw_store w' = jw_store w"
    and "jw_runner w' = R_Gone"
    and "\<And>k. jw_observers w' k = jw_observers w k \<or> jw_observers w' k = O_Idle"
  shows "world_ok me jid w'"
proof -
  have "record_ok me jid w'" by (rule record_ok_gone [OF world_okD(2) [OF ok] assms(2-4)])
  moreover have "job_history_ok w'" using job_history_ok_gone [OF world_okD(1) [OF ok]] assms(2,4) by blast
  moreover have "frame_ok jid w w'" using assms(2-4) by (auto simp: frame_ok_def job_entry_def)
  ultimately show ?thesis by (rule world_ok_step [OF ok]) (metis assms(5) observer_ok.simps(1))
qed

text \<open>A step of one observer that writes nothing.\<close>

lemma world_ok_observer:
  assumes ok: "world_ok me jid w" and p: "observer_ok me jid w p"
  shows "world_ok me jid (set_observer k p w\<lparr>jw_holder := h\<rparr>)" (is "world_ok me jid ?w")
proof -
  have f: "frame_ok jid w ?w" by (rule frame_ok_same) (simp_all add: set_observer_def)
  have "record_ok me jid ?w"
    by (rule record_ok_same [OF world_okD(2) [OF ok]])
      (use alive_of [OF world_okD(2) [OF ok]] in \<open>simp_all add: set_observer_def\<close>)
  moreover have "job_history_ok ?w"
    by (rule job_history_ok_gone [OF world_okD(1) [OF ok]]) (simp_all add: set_observer_def)
  ultimately show ?thesis using f
  proof (rule world_ok_step [OF ok])
    fix j show "jw_observers ?w j = jw_observers w j \<or> observer_ok me jid ?w (jw_observers ?w j)"
      using observer_ok_frame [OF p f] by (cases "j = k") (simp_all add: set_observer_def)
  qed
qed

lemma world_ok_observer':
  assumes "world_ok me jid w" and "observer_ok me jid w p"
  shows "world_ok me jid (set_observer k p w)"
proof -
  have "set_observer k p w = set_observer k p w\<lparr>jw_holder := jw_holder w\<rparr>" by (simp add: set_observer_def)
  then show ?thesis using world_ok_observer [OF assms, where k = k and h = "jw_holder w"] by simp
qed

lemma seen_current:
  assumes "world_ok me jid w" and "job_entry jid w = Some d" "jd_state d = Stored st"
  shows "seen_ok me jid w st"
proof -
  obtain s where s: "dir_ok jid w d s" "phase_ok me w d s (jw_runner w)"
    "jw_runner w \<noteq> R_Gone \<longrightarrow> js_boot_id s = jw_boot w \<and> jw_alive w me"
    using record_okE [OF world_okD(2) [OF assms(1)] assms(2)] .
  have st: "s = st" using s(1) assms(3) by (simp add: dir_ok_def)
  have "js_state st \<in> set (Starting # jw_history w)"
    using s(1) st last_in_set [of "Starting # jw_history w"] by (simp add: dir_ok_def last_state_def)
  moreover have "jw_runner w \<noteq> R_Gone \<longrightarrow> js_state st = Running \<longrightarrow> js_runner st = Some me"
    using s(2) st by (cases "jw_runner w") auto
  ultimately show ?thesis using assms(2,3) s(3) st by (simp add: seen_ok_def)
qed

lemma observer_judges_ok:
  assumes ok: "world_ok me jid w" and p: "jw_observers w k = O_Read state"
  shows "world_ok me jid (set_observer k (if stands (world_env w) state then O_Answered state
           else O_Judged state (boot_changed (world_env w) state)) w)"
proof (rule world_ok_observer' [OF ok])
  have seen: "seen_ok me jid w state" using world_okD(3) [OF ok, of k] p by simp
  then have "jw_runner w = R_Gone" if "\<not> stands (world_env w) state"
    using stands_alive [OF seen] alive_of [OF world_okD(2) [OF ok]] that by blast
  with seen show "observer_ok me jid w (if stands (world_env w) state then O_Answered state
      else O_Judged state (boot_changed (world_env w) state))" by simp
qed

lemma mark_lost_state: "js_state (mark_lost en st) = Lost" "js_version (mark_lost en st) = js_version st"
  "js_job_id (mark_lost en st) = js_job_id st"
  by (simp_all add: mark_lost_def)

lemma observer_writes_lost:
  assumes ok: "world_ok me jid w" and gone: "jw_runner w = R_Gone" and d: "job_entry jid w = Some dd"
    and fresh: "jd_state dd = Stored fresh" "\<not> is_terminal (js_state fresh)"
  shows "world_ok me jid (set_observer k (O_Answered (mark_lost en fresh)) w
      \<lparr>jw_holder := None, jw_store := snd (write_state jid (mark_lost en fresh) (jw_store w)),
       jw_history := jw_history w @ [Lost]\<rparr>)" (is "world_ok me jid ?w")
proof -
  let ?lost = "mark_lost en fresh"
  obtain st where "dir_ok jid w dd st" using record_okE [OF world_okD(2) [OF ok] d] .
  then have dir: "dir_ok jid w dd fresh" using fresh(1) by (simp add: dir_ok_def)
  obtain store where b: "write_state jid ?lost (jw_store w) = (Inr (), store)"
    by (simp add: write_state_def update_dir_def)
  have e: "job_entry jid ?w = Some (dd\<lparr>jd_state := Stored ?lost\<rparr>)"
    using write_state_eq [OF b, of "job_id_as_str jid"] b d by (simp add: job_entry_def set_observer_def)
  have "dir_ok jid ?w (dd\<lparr>jd_state := Stored ?lost\<rparr>) ?lost"
    by (rule dir_ok_write [OF dir]) (use dir in \<open>simp_all add: mark_lost_state set_observer_def dir_ok_def\<close>)
  then have rec: "record_ok me jid ?w"
    by (rule record_okI [OF e]) (simp_all add: gone set_observer_def)
  have "last_state w = js_state fresh" using dir by (simp add: dir_ok_def)
  then have hist: "job_history_ok ?w"
    using world_okD(1) [OF ok] gone not_terminal_progress [OF fresh(2)]
    by (simp add: job_history_ok_def job_run_snoc last_state_def set_observer_def)
  have f: "frame_ok jid w ?w"
    by (rule frame_ok_write [OF _ _ _ d fresh]) (simp_all add: gone set_observer_def)
  have "seen_ok me jid ?w ?lost"
    using e gone by (simp add: seen_ok_def mark_lost_state) (simp add: set_observer_def)
  then have "jw_observers ?w j = jw_observers w j \<or> observer_ok me jid ?w (jw_observers ?w j)" for j
    by (cases "j = k") (simp_all add: set_observer_def)
  then show ?thesis by (rule world_ok_step [OF ok rec hist f])
qed

lemma observer_settles_ok:
  assumes ok: "world_ok me jid w" and p: "jw_observers w k = O_Holding changed"
    and job: "open_job jid (jw_store w) = (Inr job, jw_store w)" and fresh: "jd_state job = Stored fresh"
  shows "world_ok me jid
       (case settle_fresh (world_env w) changed fresh of
          None \<Rightarrow> set_observer k (O_Answered fresh) w\<lparr>jw_holder := None\<rparr>
        | Some lost \<Rightarrow>
            set_observer k (O_Answered lost) w
              \<lparr>jw_holder := None, jw_store := snd (write_state jid lost (jw_store w)),
               jw_history := jw_history w @ [Lost]\<rparr>)"
proof (cases "settle_fresh (world_env w) changed fresh")
  case None
  have d: "job_entry jid w = Some job" using open_job_InrD(2) [OF job] by (simp add: job_entry_def)
  show ?thesis unfolding None
    using world_ok_observer [OF ok, of "O_Answered fresh"] seen_current [OF ok d fresh] by simp
next
  case (Some lost)
  have d: "job_entry jid w = Some job" using open_job_InrD(2) [OF job] by (simp add: job_entry_def)
  have gone: "jw_runner w = R_Gone" using world_okD(3) [OF ok, of k] p by simp
  have "lost = mark_lost (world_env w) fresh" "\<not> is_terminal (js_state fresh)"
    using Some by (auto simp: settle_fresh_def split: if_splits)
  with observer_writes_lost [OF ok gone d fresh] show ?thesis unfolding Some by simp
qed

lemma cancel_asked_ok:
  assumes ok: "world_ok me jid w"
    and u: "update_dir (job_id_as_str jid) (\<lambda>d. d\<lparr>jd_cancel := True\<rparr>) (jw_store w) = (Inr (), store)"
  shows "world_ok me jid (w\<lparr>jw_store := store\<rparr>)" (is "world_ok me jid ?w")
proof -
  have e: "job_entry jid ?w = map_option (\<lambda>d. d\<lparr>jd_cancel := True\<rparr>) (job_entry jid w)"
    using map_of_update_dir [OF u] by (simp add: job_entry_def)
  have "record_ok me jid ?w"
  proof (cases "job_entry jid w")
    case None
    then show ?thesis using world_okD(2) [OF ok] e by (simp add: record_ok_def last_state_def)
  next
    case (Some d)
    obtain st where st: "dir_ok jid w d st" "phase_ok me w d st (jw_runner w)"
      "jw_runner w \<noteq> R_Gone \<longrightarrow> js_boot_id st = jw_boot w \<and> jw_alive w me"
      using record_okE [OF world_okD(2) [OF ok] Some] .
    have "dir_ok jid ?w (d\<lparr>jd_cancel := True\<rparr>) st"
      using st(1) by (simp add: dir_ok_def last_state_def may_time_out_def)
    moreover have "phase_ok me ?w (d\<lparr>jd_cancel := True\<rparr>) st (jw_runner ?w)"
      using st(2) by (cases "jw_runner w") (simp_all add: may_time_out_def)
    ultimately show ?thesis using e Some st(3) by (intro record_okI) auto
  qed
  moreover have "job_history_ok ?w" by (rule job_history_ok_gone [OF world_okD(1) [OF ok]]) simp_all
  moreover have "frame_ok jid w ?w" using e by (auto simp: frame_ok_def)
  ultimately show ?thesis by (rule world_ok_step [OF ok]) simp
qed

lemma job_removed_ok:
  assumes ok: "world_ok me jid w"
    and p: "jw_observers w k = O_Answered state" "is_terminal (js_state state)"
    and r: "remove_dir (job_id_as_str jid) (jw_store w) = (Inr (), store)"
  shows "world_ok me jid (w\<lparr>jw_store := store\<rparr>)" (is "world_ok me jid ?w")
proof -
  have e: "job_entry jid ?w = None" using map_of_remove_dir [OF r] by (simp add: job_entry_def)
  have seen: "seen_ok me jid w state" using world_okD(3) [OF ok, of k] p(1) by simp
  have "is_terminal (last_state w) \<and> jw_runner w = R_Gone"
  proof (cases "job_entry jid w")
    case None
    then show ?thesis using world_okD(2) [OF ok] by (simp add: record_ok_def)
  next
    case (Some d)
    obtain st where st: "dir_ok jid w d st" "phase_ok me w d st (jw_runner w)"
      using record_okE [OF world_okD(2) [OF ok] Some] .
    have "st = state" using seen p(2) Some st(1) by (simp add: seen_ok_def dir_ok_def)
    then show ?thesis using st p(2) by (cases "jw_runner w") (auto simp: dir_ok_def)
  qed
  then have "record_ok me jid ?w" using e by (simp add: record_ok_def last_state_def)
  moreover have "job_history_ok ?w" by (rule job_history_ok_gone [OF world_okD(1) [OF ok]]) simp_all
  moreover have "frame_ok jid w ?w" using e by (simp add: frame_ok_def)
  ultimately show ?thesis by (rule world_ok_step [OF ok]) simp
qed

lemma runner_locks_ok:
  assumes ok: "world_ok me jid w" and ph: "jw_runner w = R_Waiting"
  shows "world_ok me jid (w\<lparr>jw_runner := R_Locked, jw_holder := Some By_Runner\<rparr>)" (is "world_ok me jid ?w")
proof -
  obtain d where d: "job_entry jid w = Some d" using entry_of [OF world_okD(2) [OF ok]] ph by auto
  obtain st where st: "dir_ok jid w d st" "phase_ok me w d st (jw_runner w)"
    "jw_runner w \<noteq> R_Gone \<longrightarrow> js_boot_id st = jw_boot w \<and> jw_alive w me"
    using record_okE [OF world_okD(2) [OF ok] d] .
  have "job_entry jid ?w = Some d" using d by (simp add: job_entry_def)
  moreover have "dir_ok jid ?w d st" using st(1) by (simp add: dir_ok_def last_state_def)
  ultimately have "record_ok me jid ?w" using st(2,3) ph by (intro record_okI) auto
  moreover have "job_history_ok ?w" using world_okD(1) [OF ok] ph by (simp add: job_history_ok_def)
  moreover have "frame_ok jid w ?w" using ph by (auto intro: frame_ok_same)
  ultimately show ?thesis by (rule world_ok_step [OF ok]) simp
qed

lemma machine_ok:
  assumes ok: "world_ok me jid w" and alive: "runner_alive (jw_runner w) \<longrightarrow> alive me"
  shows "world_ok me jid (w\<lparr>jw_now := now, jw_alive := alive\<rparr>)" (is "world_ok me jid ?w")
proof -
  have "record_ok me jid ?w"
    by (rule record_ok_same [OF world_okD(2) [OF ok]]) (use alive in \<open>simp_all add: runner_alive_def\<close>)
  moreover have "job_history_ok ?w" by (rule job_history_ok_gone [OF world_okD(1) [OF ok]]) simp_all
  moreover have "frame_ok jid w ?w" by (rule frame_ok_same) simp_all
  ultimately show ?thesis by (rule world_ok_step [OF ok]) simp
qed

lemma observer_reads_ok:
  assumes ok: "world_ok me jid w" and r: "read_state jid (jw_store w) = (Inr state, jw_store w)"
  shows "world_ok me jid (set_observer k (O_Read state) w)"
proof (rule world_ok_observer' [OF ok])
  obtain d where "job_entry jid w = Some d" "jd_state d = Stored state"
    using read_state_InrD(2) [OF r] by (auto simp: job_entry_def)
  then show "observer_ok me jid w (O_Read state)" using seen_current [OF ok] by simp
qed

lemma observer_locks_ok:
  assumes ok: "world_ok me jid w" and p: "jw_observers w k = O_Judged state changed"
  shows "world_ok me jid
       (if jw_holder w = None then (set_observer k (O_Holding changed) w)\<lparr>jw_holder := Some (By_Observer k)\<rparr>
        else set_observer k (O_Answered state) w)"
proof -
  have "seen_ok me jid w state" "jw_runner w = R_Gone" using world_okD(3) [OF ok, of k] p by simp_all
  then show ?thesis
    using world_ok_observer [OF ok, where p = "O_Holding changed" and k = k and h = "Some (By_Observer k)"]
      world_ok_observer' [OF ok, where p = "O_Answered state" and k = k] by simp
qed

theorem job_step_ok:
  assumes "job_step e d me jid w w'" and ok: "world_ok me jid w"
  shows "world_ok me jid w'"
  using assms(1)
proof cases
  case runner_locks
  then show ?thesis using runner_locks_ok [OF ok] by simp
next
  case runner_begins
  then show ?thesis using runner_begins_ok [OF ok] by simp
next
  case runner_stops
  then show ?thesis using runner_stops_ok [OF ok] by blast
next
  case runner_finishes
  then show ?thesis using runner_finishes_ok [OF ok] by simp
next
  case runner_dies
  then show ?thesis by (auto intro: world_ok_gone [OF ok])
next
  case machine
  then show ?thesis using machine_ok [OF ok] by simp
next
  case reboot
  then show ?thesis by (auto intro: world_ok_gone [OF ok])
next
  case cancel_asked
  then show ?thesis using cancel_asked_ok [OF ok] by simp
next
  case observer_reads
  then show ?thesis using observer_reads_ok [OF ok] by simp
next
  case observer_judges
  then show ?thesis using observer_judges_ok [OF ok] by simp
next
  case observer_locks
  then show ?thesis using observer_locks_ok [OF ok] by simp
next
  case observer_settles
  then show ?thesis using observer_settles_ok [OF ok] by simp
next
  case observer_fails
  then show ?thesis using world_ok_observer [OF ok, of O_Idle] by simp
next
  case job_removed
  then show ?thesis using job_removed_ok [OF ok] by simp
qed

lemma job_reached_ok: "job_reached e d me jid w \<Longrightarrow> world_ok me jid w"
  by (induction rule: job_reached.induct) (auto intro: created_ok job_step_ok)

end
