(* ===== verification/Job_Properties.thy ===== *)
theory Job_Properties
  imports Job_Life
begin

text \<open>
  The properties of remote jobs: the life of one job, the meaning of \<open>status\<close> as observer steps, the logs read page
  by page, the bound on what is kept of the output, and the list of jobs.
\<close>

section \<open>The life of a job\<close>

text \<open>A job started, observed, killed and found lost; the observer ran between the steps of the runner.\<close>

definition demo_jid :: job_id where
  "demo_jid = JobId (replicate 32 CHR ''a'')"

definition demo_job :: job_request_record where
  "demo_job = \<lparr>jr_version = 1, jr_job_id = demo_jid, jr_shell = Sh, jr_cwd = ''/w'', jr_command = ''make'',
     jr_stdin_base64 = [], jr_timeout_ms = None, jr_label = None, jr_max_output_bytes = 4,
     jr_created_unix_ms = 5\<rparr>"

definition demo_runner :: process_identity where
  "demo_runner = \<lparr>pi_pid = 7, pi_start_ticks = 100\<rparr>"

definition demo_command :: process_identity where
  "demo_command = \<lparr>pi_pid = 8, pi_start_ticks = 101\<rparr>"

definition demo_env :: job_env where
  "demo_env = \<lparr>je_boot = ''b1'', je_now = 6, je_alive = (\<lambda>_. True), je_locked = (\<lambda>_. False)\<rparr>"

definition demo_store :: job_store where
  "demo_store = snd (create_job (\<lambda>x. x) Some (Inr ()) demo_env demo_job [])"

definition demo_world :: job_world where
  "demo_world = \<lparr>jw_store = demo_store, jw_boot = ''b1'', jw_now = 6, jw_alive = (\<lambda>_. True), jw_holder = None,
     jw_runner = R_Waiting, jw_observers = (\<lambda>_. O_Idle), jw_history = []\<rparr>"

definition demo_running :: job_state_record where
  "demo_running = mark_running ''b1'' demo_runner demo_command 6 (starting_state demo_env demo_job)"

definition demo_running_store :: job_store where
  "demo_running_store = snd (write_state demo_jid demo_running demo_store)"

definition demo_begun :: job_world where
  "demo_begun = demo_world\<lparr>jw_store := demo_running_store, jw_runner := R_Running demo_running,
     jw_holder := Some By_Runner, jw_history := [Running]\<rparr>"

definition demo_dead :: job_world where
  "demo_dead = demo_begun\<lparr>jw_runner := R_Gone, jw_holder := None, jw_now := 9, jw_alive := (\<lambda>_. False)\<rparr>"

definition demo_lost :: job_world where
  "demo_lost = (set_observer 0 (O_Answered (mark_lost (world_env demo_dead) demo_running)) demo_dead)
     \<lparr>jw_holder := None, jw_store := snd (write_state demo_jid (mark_lost (world_env demo_dead) demo_running)
        demo_running_store), jw_history := [Running, Lost]\<rparr>"

lemma demo_created: "job_created (\<lambda>x. x) Some demo_runner demo_jid demo_world"
proof -
  have "create_job (\<lambda>x. x) Some (Inr ()) (world_env demo_world) demo_job [] = (Inr (), demo_store)"
    by code_simp
  moreover have "jr_job_id demo_job = demo_jid" by (simp add: demo_job_def)
  ultimately show ?thesis unfolding job_created_def
    by (intro conjI exI [of _ demo_job] exI [of _ "[]"]) (simp_all add: demo_world_def)
qed

lemma demo_begins:
  "runner_begin (\<lambda>x. x) Some (\<lambda>_ _. Inr demo_command) (world_env (demo_world\<lparr>jw_runner := R_Locked,
     jw_holder := Some By_Runner\<rparr>)) demo_runner demo_jid demo_store = (Inr demo_running, demo_running_store)"
  by code_simp

lemma demo_begun_reached: "job_reached (\<lambda>x. x) Some demo_runner demo_jid demo_begun"
proof -
  let ?w = "demo_world\<lparr>jw_runner := R_Locked, jw_holder := Some By_Runner\<rparr>"
  have "job_step (\<lambda>x. x) Some demo_runner demo_jid demo_world ?w"
    by (rule job_step.runner_locks) (simp_all add: demo_world_def)
  then have r: "job_reached (\<lambda>x. x) Some demo_runner demo_jid ?w"
    using demo_created by (blast intro: job_reached.intros)
  have "jw_runner ?w = R_Locked" "jw_store ?w = demo_store" by (simp_all add: demo_world_def)
  with demo_begins have "job_step (\<lambda>x. x) Some demo_runner demo_jid ?w
      (?w\<lparr>jw_store := demo_running_store, jw_runner := R_Running demo_running,
          jw_history := jw_history ?w @ [Running]\<rparr>)"
    by (intro job_step.runner_begins) simp_all
  moreover have "?w\<lparr>jw_store := demo_running_store, jw_runner := R_Running demo_running,
          jw_history := jw_history ?w @ [Running]\<rparr> = demo_begun"
    by (simp add: demo_begun_def demo_world_def)
  ultimately show ?thesis using r by (metis job_reached.stepped)
qed

lemma demo_dead_reached: "job_reached (\<lambda>x. x) Some demo_runner demo_jid demo_dead"
proof -
  let ?w = "demo_begun\<lparr>jw_runner := R_Gone, jw_holder := None\<rparr>"
  have "job_step (\<lambda>x. x) Some demo_runner demo_jid demo_begun (demo_begun\<lparr>jw_runner := R_Gone,
      jw_holder := (if jw_holder demo_begun = Some By_Runner then None else jw_holder demo_begun)\<rparr>)"
    by (rule job_step.runner_dies) (simp add: demo_begun_def runner_alive_def)
  then have r: "job_reached (\<lambda>x. x) Some demo_runner demo_jid ?w"
    using demo_begun_reached by (auto simp: demo_begun_def intro: job_reached.stepped)
  have "job_step (\<lambda>x. x) Some demo_runner demo_jid ?w (?w\<lparr>jw_now := 9, jw_alive := (\<lambda>_. False)\<rparr>)"
    by (rule job_step.machine) (simp add: runner_alive_def)
  then show ?thesis using r unfolding demo_dead_def by (metis job_reached.stepped)
qed

section \<open>Status as steps of an observer\<close>

lemma try_lock_free:
  "try_lock (world_env w) name job = Inr () \<longleftrightarrow> jd_lock_file job \<and> jw_holder w = None"
  by (simp add: try_lock_def world_env_def)

text \<open>What \<open>reconcile_state\<close> does with a record that does not stand, when the lock is free.\<close>

lemma reconcile_settles:
  assumes "reconcile_state en st s = (Inr got, s')" and "\<not> stands en st" and "\<not> je_locked en (job_id_as_str (js_job_id st))"
    and "map_of s (job_id_as_str (js_job_id st)) = Some d" "jd_state d = Stored st"
  shows "open_job (js_job_id st) s = (Inr d, s)"
    and "case settle_fresh en (boot_changed en st) st of
      None \<Rightarrow> got = st \<and> s' = s
    | Some lost \<Rightarrow> got = lost \<and> s' = snd (write_state (js_job_id st) lost s)"
proof -
  obtain job s1 where job: "open_job (js_job_id st) s = (Inr job, s1)" and rest:
    "(case try_lock en (job_id_as_str (js_job_id st)) job of
        Inl e \<Rightarrow> if fst e = Io_WouldBlock then pureJ (Inr st) else pureJ (Inl e)
      | Inr _ \<Rightarrow>
          bindJ (pureJ (read_record (jd_state job))) (\<lambda>fresh.
          (case settle_fresh en (boot_changed en st) fresh of
             None \<Rightarrow> pureJ (Inr fresh)
           | Some lost \<Rightarrow> bindJ (write_state (js_job_id st) lost) (\<lambda>_. pureJ (Inr lost))))) s1 = (Inr got, s')"
    using assms(1,2) unfolding reconcile_state_def by (auto elim: bindJ_InrE)
  have same: "job = d" "s1 = s" using open_job_InrD(1,2) [OF job] assms(4) by simp_all
  show "open_job (js_job_id st) s = (Inr d, s)" using job same by simp
  have w: "bindJ (write_state (js_job_id st) lost) (\<lambda>_. f) s = f (snd (write_state (js_job_id st) lost s))"
    for lost and f :: "job_state_record job_op"
    by (simp add: bindJ_apply write_state_def update_dir_def)
  have "jd_lock_file d" using rest assms(3) same
    by (auto simp: try_lock_def os_error_def split: if_splits)
  then show "case settle_fresh en (boot_changed en st) st of None \<Rightarrow> got = st \<and> s' = s
    | Some lost \<Rightarrow> got = lost \<and> s' = snd (write_state (js_job_id st) lost s)"
    using rest assms(3,5) same
    by (auto simp: try_lock_def w split: option.splits)
qed

text \<open>When another process holds the lock, the record is answered as it was read and nothing is written.\<close>

lemma reconcile_held:
  assumes "reconcile_state en st s = (Inr got, s')" and "\<not> stands en st" and "je_locked en (job_id_as_str (js_job_id st))"
  shows "got = st \<and> s' = s"
proof -
  obtain job s1 where "open_job (js_job_id st) s = (Inr job, s1)"
    "(case try_lock en (job_id_as_str (js_job_id st)) job of
        Inl e \<Rightarrow> if fst e = Io_WouldBlock then pureJ (Inr st) else pureJ (Inl e)
      | Inr _ \<Rightarrow>
          bindJ (pureJ (read_record (jd_state job))) (\<lambda>fresh.
          (case settle_fresh en (boot_changed en st) fresh of
             None \<Rightarrow> pureJ (Inr fresh)
           | Some lost \<Rightarrow> bindJ (write_state (js_job_id st) lost) (\<lambda>_. pureJ (Inr lost))))) s1 = (Inr got, s')"
    using assms(1,2) unfolding reconcile_state_def by (auto elim: bindJ_InrE)
  with assms(3) show ?thesis
    by (auto simp: try_lock_def os_error_def dest: open_job_InrD(1) split: if_splits)
qed

text \<open>Steps of one observer leave the runner, the machine and the other observers as they were and the lock with its
  holder; while another holds it, they write nothing.\<close>

definition observed_alone :: "nat \<Rightarrow> job_world \<Rightarrow> job_world \<Rightarrow> bool" where
  "observed_alone k w w' \<longleftrightarrow>
     jw_runner w' = jw_runner w \<and> jw_boot w' = jw_boot w \<and> jw_holder w' = jw_holder w \<and>
     (\<forall>j. j \<noteq> k \<longrightarrow> jw_observers w' j = jw_observers w j) \<and>
     (jw_holder w \<noteq> None \<longrightarrow> jw_store w' = jw_store w \<and> jw_history w' = jw_history w)"

lemma observed_alone_trans: "observed_alone k w w1 \<Longrightarrow> observed_alone k w1 w2 \<Longrightarrow> observed_alone k w w2"
  by (auto simp: observed_alone_def)

lemma observed_alone_set: "observed_alone k w (set_observer k p w)"
  by (simp add: observed_alone_def set_observer_def)

lemma job_steps_into:
  "job_step e d me jid w w1 \<Longrightarrow> (job_step e d me jid)\<^sup>*\<^sup>* w1 w2 \<Longrightarrow> (job_step e d me jid)\<^sup>*\<^sup>* w w2"
  by (rule converse_rtranclp_into_rtranclp)

text \<open>Reading and judging.\<close>

lemma observer_reads_judges:
  assumes "jw_observers w k = O_Idle" and "read_state jid (jw_store w) = (Inr state, jw_store w)"
  shows "(job_step e d me jid)\<^sup>*\<^sup>* w (set_observer k
    (if stands (world_env w) state then O_Answered state else O_Judged state (boot_changed (world_env w) state)) w)"
proof -
  let ?w = "set_observer k (O_Read state) w"
  have env: "world_env ?w = world_env w" by (simp add: world_env_def set_observer_def)
  have "job_step e d me jid w ?w" by (rule job_step.observer_reads) (use assms in simp_all)
  moreover have "job_step e d me jid ?w (set_observer k (if stands (world_env w) state then O_Answered state
      else O_Judged state (boot_changed (world_env w) state)) ?w)"
    unfolding env [symmetric] by (rule job_step.observer_judges) (simp add: set_observer_def)
  moreover have "set_observer k p ?w = set_observer k p w" for p by (simp add: set_observer_def)
  ultimately show ?thesis by (auto intro: job_steps_into)
qed

lemma observer_locks_settles:
  assumes "jw_observers w k = O_Judged state changed" and "jw_holder w = None"
    and "open_job jid (jw_store w) = (Inr job, jw_store w)" "jd_state job = Stored fresh"
  shows "\<exists>w'. (job_step e d me jid)\<^sup>*\<^sup>* w w' \<and>
    (case settle_fresh (world_env w) changed fresh of
       None \<Rightarrow> jw_observers w' k = O_Answered fresh \<and> jw_store w' = jw_store w
     | Some lost \<Rightarrow> jw_observers w' k = O_Answered lost \<and>
         jw_store w' = snd (write_state jid lost (jw_store w))) \<and> observed_alone k w w'"
proof -
  let ?w = "(set_observer k (O_Holding changed) w)\<lparr>jw_holder := Some (By_Observer k)\<rparr>"
  have lock: "job_step e d me jid w ?w"
    using job_step.observer_locks [OF assms(1), of e d me jid] assms(2) by simp
  have settle: "settle_fresh (world_env ?w) changed fresh = settle_fresh (world_env w) changed fresh"
    by (simp add: settle_fresh_def world_env_def mark_lost_def set_observer_def split: option.splits)
  have "jw_observers ?w k = O_Holding changed" "open_job jid (jw_store ?w) = (Inr job, jw_store ?w)"
    using assms(3) by (simp_all add: set_observer_def)
  note step = job_step.observer_settles [OF this assms(4), of e d me, unfolded settle]
  show ?thesis
  proof (cases "settle_fresh (world_env w) changed fresh")
    case None
    show ?thesis
      by (rule exI, rule conjI, rule job_steps_into [OF lock], rule job_steps_into [OF step],
          rule rtranclp.rtrancl_refl) (simp add: None, simp add: set_observer_def observed_alone_def assms(2))
  next
    case (Some lost)
    show ?thesis
      by (rule exI, rule conjI, rule job_steps_into [OF lock], rule job_steps_into [OF step],
          rule rtranclp.rtrancl_refl) (simp add: Some, simp add: set_observer_def observed_alone_def assms(2))
  qed
qed

lemma observer_gives_way:
  assumes "jw_observers w k = O_Judged state changed" and "jw_holder w \<noteq> None"
  shows "job_step e d me jid w (set_observer k (O_Answered state) w)"
  using job_step.observer_locks [OF assms(1), of e d me jid] assms(2) by simp

text \<open>From the judgement on: the lock is taken and the record settled, or another holds it.\<close>

lemma reconcile_is_steps:
  assumes c: "reconcile_state (world_env w) st (jw_store w) = (Inr got, s')" and "\<not> stands (world_env w) st"
    and v: "js_job_id st = jid" and d: "map_of (jw_store w) (job_id_as_str jid) = Some dd" "jd_state dd = Stored st"
    and o: "jw_observers w k = O_Judged st (boot_changed (world_env w) st)"
  shows "\<exists>w'. (job_step e d me jid)\<^sup>*\<^sup>* w w' \<and> jw_observers w' k = O_Answered got \<and> jw_store w' = s' \<and>
    observed_alone k w w'"
proof (cases "jw_holder w = None")
  case True
  then have free: "\<not> je_locked (world_env w) (job_id_as_str (js_job_id st))" by (simp add: world_env_def)
  note rec = reconcile_settles [OF c assms(2) free, unfolded v, OF d]
  show ?thesis
    using observer_locks_settles [OF o True rec(1) d(2), of e d me] rec(2) by (auto split: option.splits)
next
  case False
  then have "je_locked (world_env w) (job_id_as_str (js_job_id st))" by (simp add: world_env_def)
  with reconcile_held [OF c assms(2)] have "got = st" "s' = jw_store w" by simp_all
  then show ?thesis
    using observer_gives_way [OF o False, of e d me jid] observed_alone_set [of k w]
    by (intro exI [of _ "set_observer k (O_Answered st) w"]) (auto simp: set_observer_def)
qed

lemma status_is_steps:
  assumes "jw_observers w k = O_Idle"
    and st: "status (world_env w) jid (jw_store w) = (Inr got, s')"
  shows "\<exists>w'. (job_step e d me jid)\<^sup>*\<^sup>* w w' \<and> jw_observers w' k = O_Answered got \<and> jw_store w' = s' \<and>
    observed_alone k w w'"
proof -
  obtain st0 s1 where r: "read_state jid (jw_store w) = (Inr st0, s1)"
    and c: "reconcile_state (world_env w) st0 s1 = (Inr got, s')"
    using st unfolding status_def by (rule bindJ_InrE)
  have s1: "s1 = jw_store w" and v: "js_job_id st0 = jid" using read_state_InrD(1,4) [OF r] by simp_all
  obtain dd where d: "map_of (jw_store w) (job_id_as_str jid) = Some dd" "jd_state dd = Stored st0"
    using read_state_InrD(2) [OF r] by blast
  note judged = observer_reads_judges [OF assms(1) r [unfolded s1], of e d me]
  show ?thesis
  proof (cases "stands (world_env w) st0")
    case True
    with c s1 have "got = st0" "s' = jw_store w" by (simp_all add: reconcile_state_def)
    then show ?thesis using judged True observed_alone_set [of k w]
      by (intro exI [of _ "set_observer k (O_Answered st0) w"]) (simp add: set_observer_def)
  next
    case False
    let ?w = "set_observer k (O_Judged st0 (boot_changed (world_env w) st0)) w"
    have env: "world_env ?w = world_env w" and sw: "jw_store ?w = jw_store w"
      and o: "jw_observers ?w k = O_Judged st0 (boot_changed (world_env w) st0)"
      by (simp_all add: world_env_def set_observer_def)
    obtain w' where w': "(job_step e d me jid)\<^sup>*\<^sup>* ?w w'" "jw_observers w' k = O_Answered got" "jw_store w' = s'"
      "observed_alone k ?w w'"
      using reconcile_is_steps [of ?w st0 got s' jid dd k e d me] c s1 False v d o unfolding env sw by auto
    show ?thesis
    proof (intro exI [of _ w'] conjI w'(2,3))
      show "(job_step e d me jid)\<^sup>*\<^sup>* w w'" using judged False w'(1) by (auto intro: rtranclp_trans)
      show "observed_alone k w w'" by (rule observed_alone_trans [OF observed_alone_set w'(4)])
    qed
  qed
qed

lemma status_held:
  assumes "status en jid s = (Inr got, s')" and "je_locked en (job_id_as_str jid)"
  shows "s' = s \<and> read_state jid s = (Inr got, s')"
proof -
  obtain st s1 where r: "read_state jid s = (Inr st, s1)" and c: "reconcile_state en st s1 = (Inr got, s')"
    using assms(1) unfolding status_def by (rule bindJ_InrE)
  note v = read_state_InrD(1,4) [OF r]
  have "got = st \<and> s' = s1"
  proof (cases "stands en st")
    case True
    with c show ?thesis by (simp add: reconcile_state_def)
  next
    case False
    show ?thesis by (rule reconcile_held [OF c False]) (simp add: v assms(2))
  qed
  with r v show ?thesis by simp
qed

lemma status_writes:
  assumes "status en jid s = (Inr got, s')"
  shows "s' = s \<or> js_state got = Lost"
proof -
  obtain st s1 where r: "read_state jid s = (Inr st, s1)" and c: "reconcile_state en st s1 = (Inr got, s')"
    using assms(1) unfolding status_def by (rule bindJ_InrE)
  note v = read_state_InrD(1,4) [OF r]
  obtain d where d: "map_of s (job_id_as_str jid) = Some d" "jd_state d = Stored st"
    using read_state_InrD(2) [OF r] by blast
  consider "stands en st" | "\<not> stands en st" "je_locked en (job_id_as_str jid)"
    | "\<not> stands en st" "\<not> je_locked en (job_id_as_str jid)" by blast
  then show ?thesis
  proof cases
    case 1
    with c v show ?thesis by (simp add: reconcile_state_def)
  next
    case 2
    with reconcile_held [OF c] v show ?thesis by simp
  next
    case 3
    from reconcile_settles(2) [OF c 3(1), unfolded v, OF 3(2) d]
    show ?thesis by (auto simp: settle_fresh_def mark_lost_state split: option.splits if_splits)
  qed
qed

lemma job_reached_steps: "(job_step e d me jid)\<^sup>*\<^sup>* w w' \<Longrightarrow> job_reached e d me jid w \<Longrightarrow> job_reached e d me jid w'"
  by (induction rule: rtranclp_induct) (auto intro: job_reached.stepped)

lemma demo_lost_answer:
  "status (world_env demo_dead) demo_jid (jw_store demo_dead) =
    (Inr (mark_lost (world_env demo_dead) demo_running),
     snd (status (world_env demo_dead) demo_jid (jw_store demo_dead)))"
  by code_simp

lemma demo_dead_idle: "jw_observers demo_dead k = O_Idle" "jw_holder demo_dead = None"
  by (simp_all add: demo_dead_def demo_begun_def demo_world_def)

section \<open>What the life of a job guarantees\<close>

text \<open>C9: In every interleaving of the runner of a job, any number of observers, the death of the runner, the
  end of its process entry and reboots: the record only makes the transitions of the life cycle and is the last one
  made; a job is declared lost only when its runner is gone; it is cancelled only if that was asked and times
  out only if it has a timeout; and an observer only answers with a state the job had, which is final when it is terminal.\<close>

theorem job_life_cycle:
  assumes "job_reached encode64 decode64 me jid w"
  shows "job_run Starting (jw_history w) \<and>
    (case map_of (jw_store w) (job_id_as_str jid) of
       None \<Rightarrow> is_terminal (last (Starting # jw_history w))
     | Some d \<Rightarrow> (\<exists>st. jd_state d = Stored st \<and> js_job_id st = jid \<and> js_state st = last (Starting # jw_history w)) \<and>
         (job_state.Cancelled \<in> set (jw_history w) \<longrightarrow> jd_cancel d) \<and>
         (TimedOut \<in> set (jw_history w) \<longrightarrow>
            (\<exists>request. jd_request d = Stored request \<and> jr_timeout_ms request \<noteq> None))) \<and>
    (Lost \<in> set (jw_history w) \<longrightarrow> jw_runner w = R_Gone) \<and>
    (\<forall>k st. jw_observers w k = O_Answered st \<longrightarrow>
       js_state st \<in> set (Starting # jw_history w) \<and>
       (is_terminal (js_state st) \<longrightarrow>
          (\<forall>d. map_of (jw_store w) (job_id_as_str jid) = Some d \<longrightarrow> jd_state d = Stored st)))"
proof -
  note ok = job_reached_ok [OF assms]
  have "job_run Starting (jw_history w)" "Lost \<in> set (jw_history w) \<longrightarrow> jw_runner w = R_Gone"
    using world_okD(1) [OF ok] by (simp_all add: job_history_ok_def)
  moreover have "seen_ok me jid w st" if "jw_observers w k = O_Answered st" for k st
    using world_okD(3) [OF ok, of k] that by simp
  moreover have "case map_of (jw_store w) (job_id_as_str jid) of
       None \<Rightarrow> is_terminal (last (Starting # jw_history w))
     | Some d \<Rightarrow> (\<exists>st. jd_state d = Stored st \<and> js_job_id st = jid \<and> js_state st = last (Starting # jw_history w)) \<and>
         (job_state.Cancelled \<in> set (jw_history w) \<longrightarrow> jd_cancel d) \<and>
         (TimedOut \<in> set (jw_history w) \<longrightarrow>
            (\<exists>request. jd_request d = Stored request \<and> jr_timeout_ms request \<noteq> None))"
    using world_okD(2) [OF ok]
    by (auto simp: record_ok_def job_entry_def dir_ok_def last_state_def may_time_out_def split: option.splits)
  ultimately show ?thesis unfolding seen_ok_def job_entry_def by blast
qed

lemma job_life_cycle_witness:
  "\<exists>w. job_reached (\<lambda>x. x) Some demo_runner demo_jid w \<and> Lost \<in> set (jw_history w) \<and>
     job_run Starting (jw_history w) \<and> jw_runner w = R_Gone"
proof -
  obtain w where steps: "(job_step (\<lambda>x. x) Some demo_runner demo_jid)\<^sup>*\<^sup>* demo_dead w"
    and answer: "jw_observers w 0 = O_Answered (mark_lost (world_env demo_dead) demo_running)"
    using status_is_steps [OF demo_dead_idle(1) demo_lost_answer] by blast
  have r: "job_reached (\<lambda>x. x) Some demo_runner demo_jid w"
    using job_reached_steps [OF steps demo_dead_reached] .
  note life = job_life_cycle [OF r]
  then have "js_state (mark_lost (world_env demo_dead) demo_running) \<in> set (Starting # jw_history w)"
    using answer by blast
  then have "Lost \<in> set (jw_history w)" by (simp add: mark_lost_state)
  with r life show ?thesis by blast
qed

text \<open>C10: The operation \<open>status\<close>, run in any reachable world, is a sequence of the steps of one observer: it leaves the
  store of a reachable world and disturbs neither the runner, nor the other observers, nor the lock.  Its answer is
  a state the job had, which is what the record still says when it is terminal.  When another process holds the lock
  of the job, nothing is written: the record is answered as it was read.  What is
  ever written is the loss of a job whose runner is gone.\<close>

theorem status_refines_observer:
  assumes "job_reached encode64 decode64 me jid w" and "jw_observers w k = O_Idle"
    and "status (world_env w) jid (jw_store w) = (Inr answer, store)"
  shows "\<exists>w'. job_reached encode64 decode64 me jid w' \<and>
    (job_step encode64 decode64 me jid)\<^sup>*\<^sup>* w w' \<and> jw_store w' = store \<and>
    jw_observers w' k = O_Answered answer \<and> observed_alone k w w' \<and>
    (jw_holder w \<noteq> None \<longrightarrow> store = jw_store w \<and> read_state jid (jw_store w) = (Inr answer, store)) \<and>
    (store = jw_store w \<or> js_state answer = Lost \<and> jw_runner w = R_Gone) \<and>
    js_state answer \<in> set (Starting # jw_history w') \<and>
    (\<not> is_terminal (js_state answer) \<or> (\<forall>d. map_of store (job_id_as_str jid) = Some d \<longrightarrow> jd_state d = Stored answer))"
proof -
  obtain w' where steps: "(job_step encode64 decode64 me jid)\<^sup>*\<^sup>* w w'"
    and w': "jw_observers w' k = O_Answered answer" "jw_store w' = store" "observed_alone k w w'"
    using status_is_steps [OF assms(2,3)] by blast
  have r: "job_reached encode64 decode64 me jid w'" using job_reached_steps [OF steps assms(1)] .
  have "seen_ok me jid w' answer" using world_okD(3) [OF job_reached_ok [OF r], of k] w'(1) by simp
  moreover have held: "jw_holder w \<noteq> None \<longrightarrow> store = jw_store w \<and> read_state jid (jw_store w) = (Inr answer, store)"
    using status_held [OF assms(3)] by (auto simp: world_env_def)
  moreover have "store = jw_store w \<or> js_state answer = Lost \<and> jw_runner w = R_Gone"
    using status_writes [OF assms(3)] world_okD(1) [OF job_reached_ok [OF r]] \<open>seen_ok me jid w' answer\<close> w'(3)
    by (auto simp: seen_ok_def job_history_ok_def observed_alone_def)
  ultimately show ?thesis unfolding seen_ok_def job_entry_def w'(2)
    by (intro exI [of _ w'] conjI r steps w') (elim conjE, assumption | blast)+
qed

text \<open>Another observer has judged the dead runner and holds the lock.\<close>

definition demo_held :: job_world where
  "demo_held = (set_observer 1 (O_Holding False) demo_dead)\<lparr>jw_holder := Some (By_Observer 1)\<rparr>"

lemma demo_held_reached: "job_reached (\<lambda>x. x) Some demo_runner demo_jid demo_held"
proof -
  have judged: "\<not> stands (world_env demo_dead) demo_running" "\<not> boot_changed (world_env demo_dead) demo_running"
    by code_simp+
  have "read_state demo_jid (jw_store demo_dead) = (Inr demo_running, jw_store demo_dead)" by code_simp
  from observer_reads_judges [OF demo_dead_idle(1) this, of "\<lambda>x. x" Some demo_runner 1] judged
  have r: "job_reached (\<lambda>x. x) Some demo_runner demo_jid (set_observer 1 (O_Judged demo_running False) demo_dead)"
    by (auto intro: job_reached_steps [OF _ demo_dead_reached])
  have "job_step (\<lambda>x. x) Some demo_runner demo_jid (set_observer 1 (O_Judged demo_running False) demo_dead) demo_held"
    using job_step.observer_locks [of "set_observer 1 (O_Judged demo_running False) demo_dead" 1 demo_running False
        "\<lambda>x. x" Some demo_runner demo_jid] demo_dead_idle(2)
    by (simp add: demo_held_def set_observer_def)
  with r show ?thesis by (rule job_reached.stepped)
qed

lemma demo_held_answer:
  "status (world_env demo_held) demo_jid (jw_store demo_held) = (Inr demo_running, jw_store demo_held)"
  by code_simp

lemma status_refines_observer_witness:
  "(\<exists>w'. job_reached (\<lambda>x. x) Some demo_runner demo_jid w' \<and>
     jw_observers w' 0 = O_Answered (mark_lost (world_env demo_dead) demo_running) \<and> Lost \<in> set (jw_history w')) \<and>
   (\<exists>w'. job_reached (\<lambda>x. x) Some demo_runner demo_jid w' \<and>
     jw_observers w' 0 = O_Answered demo_running \<and> jw_holder w' = Some (By_Observer 1) \<and>
     jw_store w' = jw_store demo_dead)"
proof
  obtain w' where "job_reached (\<lambda>x. x) Some demo_runner demo_jid w'"
    "jw_observers w' 0 = O_Answered (mark_lost (world_env demo_dead) demo_running)"
    "js_state (mark_lost (world_env demo_dead) demo_running) \<in> set (Starting # jw_history w')"
    using status_refines_observer [OF demo_dead_reached demo_dead_idle(1) demo_lost_answer] by blast
  then show "\<exists>w'. job_reached (\<lambda>x. x) Some demo_runner demo_jid w' \<and>
     jw_observers w' 0 = O_Answered (mark_lost (world_env demo_dead) demo_running) \<and> Lost \<in> set (jw_history w')"
    by (auto simp: mark_lost_state)
next
  have "jw_observers demo_held 0 = O_Idle" by (simp add: demo_held_def set_observer_def demo_dead_idle)
  from status_refines_observer [OF demo_held_reached this demo_held_answer] obtain w' where
    "job_reached (\<lambda>x. x) Some demo_runner demo_jid w'" "jw_observers w' 0 = O_Answered demo_running"
    "jw_store w' = jw_store demo_held" "observed_alone 0 demo_held w'" by blast
  then show "\<exists>w'. job_reached (\<lambda>x. x) Some demo_runner demo_jid w' \<and>
     jw_observers w' 0 = O_Answered demo_running \<and> jw_holder w' = Some (By_Observer 1) \<and>
     jw_store w' = jw_store demo_dead"
    by (auto simp: observed_alone_def demo_held_def set_observer_def)
qed

section \<open>A runner that dies early\<close>

lemma stuck_status:
  assumes "map_of s (job_id_as_str jid) = Some d" "jd_state d = Stored st" "js_version st = JOB_RECORD_VERSION"
    and "js_job_id st = jid" "checked_id jid = Inr (job_id_as_str jid)"
    and "js_state st = Starting" "js_boot_id st = je_boot en"
  shows "status en jid s = (Inr st, s)"
proof -
  have "read_state jid s = (Inr st, s)"
    using assms(2-4) by (simp add: read_state_def bindJ_apply open_job_eq [OF assms(5,1)])
  then show ?thesis
    by (rule status_standing) (simp add: stands_def boot_changed_def runner_missing_def assms(6,7))
qed

text \<open>C39: A runner that ends after its lock and before its running record leaves the job behind: whatever processes live and
  whatever time it is, until the machine is booted again, \<open>status\<close> answers \<open>Starting\<close> and the job cannot be deleted.\<close>

theorem dead_start_is_never_settled:
  assumes "job_reached encode64 decode64 me jid w" and "jw_runner w = R_Gone" and "jw_history w = []"
    and "checked_id jid = Inr (job_id_as_str jid)"
    and "map_of (jw_store w) (job_id_as_str jid) = Some d" "jd_state d = Stored st" "js_boot_id st = je_boot en"
  shows "status en jid (jw_store w) = (Inr st, jw_store w) \<and> js_state st = Starting \<and>
    delete_terminal en jid (jw_store w) = (Inl (Io_InvalidInput, ''remote job is not terminal''), jw_store w)"
proof -
  have "dir_ok jid w d st"
    using record_okE [OF world_okD(2) [OF job_reached_ok [OF assms(1)]], of d] assms(5,6)
    by (auto simp: job_entry_def dir_ok_def)
  then have st: "js_version st = JOB_RECORD_VERSION" "js_job_id st = jid" "js_state st = Starting"
    using assms(3) by (simp_all add: dir_ok_def last_state_def)
  have "status en jid (jw_store w) = (Inr st, jw_store w)"
    by (rule stuck_status [OF assms(5,6) st(1,2) assms(4) st(3) assms(7)])
  with st(3) show ?thesis by (simp add: delete_terminal_def)
qed

definition demo_unlucky :: job_world where
  "demo_unlucky = demo_world\<lparr>jw_runner := R_Gone\<rparr>"

lemma demo_unlucky_reached: "job_reached (\<lambda>x. x) Some demo_runner demo_jid demo_unlucky"
proof -
  have "job_step (\<lambda>x. x) Some demo_runner demo_jid demo_world (demo_world\<lparr>jw_runner := R_Gone,
      jw_holder := (if jw_holder demo_world = Some By_Runner then None else jw_holder demo_world)\<rparr>)"
    by (rule job_step.runner_dies) (simp add: demo_world_def runner_alive_def)
  then show ?thesis using demo_created
    by (auto simp: demo_unlucky_def demo_world_def intro: job_reached.intros)
qed

lemma dead_start_is_never_settled_witness:
  "delete_terminal (demo_env\<lparr>je_now := 10 ^ 15, je_alive := (\<lambda>_. False)\<rparr>) demo_jid (jw_store demo_unlucky) =
    (Inl (Io_InvalidInput, ''remote job is not terminal''), jw_store demo_unlucky)"
proof -
  have id: "checked_id demo_jid = Inr (job_id_as_str demo_jid)" by code_simp
  have dir: "map_of (jw_store demo_unlucky) (job_id_as_str demo_jid) = Some \<lparr>jd_request = Stored demo_job,
      jd_state = Stored (starting_state demo_env demo_job), jd_stdout = Some [], jd_stderr = Some [],
      jd_lock_file = True, jd_cancel = False, jd_other = []\<rparr>"
    by code_simp
  have gone: "jw_runner demo_unlucky = R_Gone" "jw_history demo_unlucky = []"
    by (simp_all add: demo_unlucky_def demo_world_def)
  have "js_boot_id (starting_state demo_env demo_job) =
      je_boot (demo_env\<lparr>je_now := 10 ^ 15, je_alive := (\<lambda>_. False)\<rparr>)"
    by (simp add: starting_state_def)
  from dead_start_is_never_settled [OF demo_unlucky_reached gone id dir _ this] show ?thesis by simp
qed

end
