(* ===== verification/Job_Logs.thy ===== *)
theory Job_Logs
  imports Job_Properties
begin

text \<open>
  What is kept of the output of a job, how a reader gets it back page by page, and the list of jobs.
\<close>

section \<open>Two threads and one quota\<close>

text \<open>A reservation that lost races is the reservation on the value it finally saw.\<close>

lemma reserve_quota_linear:
  "reserve_quota maximum wanted used seen =
     (quota_share maximum wanted (last (used # seen)),
      saturating_add (last (used # seen)) (quota_share maximum wanted (last (used # seen))))"
  by (induction maximum wanted used seen rule: reserve_quota.induct) (simp_all add: Let_def)

fun stream_bytes :: "stream_kind \<Rightarrow> (stream_kind \<times> string) list \<Rightarrow> string" where
  "stream_bytes k [] = []"
| "stream_bytes k ((stream, chunk) # chunks) = (if stream = k then chunk else []) @ stream_bytes k chunks"

definition kept_ok :: "nat \<Rightarrow> nat \<Rightarrow> drain_stats \<Rightarrow> string \<Rightarrow> string \<Rightarrow> bool" where
  "kept_ok maximum quota st kept whole \<longleftrightarrow>
     dr_observed st = length whole \<and> dr_retained st = length kept \<and> kept = take (length kept) whole \<and>
     (quota < maximum \<longrightarrow> kept = whole)"

definition drains_ok :: "nat \<Rightarrow> string \<Rightarrow> string \<Rightarrow> drains \<Rightarrow> bool" where
  "drains_ok maximum stdout stderr d \<longleftrightarrow>
     dn_quota d = length (dn_stdout_file d) + length (dn_stderr_file d) \<and> dn_quota d \<le> maximum \<and>
     kept_ok maximum (dn_quota d) (dn_stdout d) (dn_stdout_file d) stdout \<and>
     kept_ok maximum (dn_quota d) (dn_stderr d) (dn_stderr_file d) stderr"

lemma quota_share_eq: "used \<le> maximum \<Longrightarrow> quota_share maximum wanted used = min wanted (maximum - used)"
  by (simp add: quota_share_def saturating_sub_def)

lemma kept_ok_other: "kept_ok maximum quota st kept whole \<Longrightarrow> quota \<le> quota' \<Longrightarrow> kept_ok maximum quota' st kept whole"
  by (auto simp: kept_ok_def)

lemma kept_ok_chunk:
  assumes "kept_ok maximum quota st kept whole" and "quota \<le> maximum"
    and r: "r = min (length chunk) (maximum - quota)" and "length whole + length chunk \<le> u64_max"
  shows "kept_ok maximum (quota + r) (count_chunk (length chunk) r st) (kept @ take r chunk) (whole @ chunk)"
proof -
  have len: "length kept \<le> length whole"
    using assms(1) by (metis kept_ok_def length_take min.cobounded1)
  have "(length whole + length chunk) mod (u64_max + 1) = length whole + length chunk"
    "(length kept + r) mod (u64_max + 1) = length kept + r"
    using assms(4) len r by simp_all
  moreover have "kept @ take r chunk = take (length kept + r) (whole @ chunk)"
  proof (cases "quota < maximum")
    case True
    then have "kept = whole" using assms(1) by (simp add: kept_ok_def)
    then show ?thesis by simp
  next
    case False
    then have "r = 0" using r by simp
    then show ?thesis using assms(1) len by (simp add: kept_ok_def)
  qed
  moreover have "quota + r < maximum \<longrightarrow> kept @ take r chunk = whole @ chunk"
    using assms(1) r by (auto simp: kept_ok_def min_def)
  moreover have "length (kept @ take r chunk) = length kept + r" "length (whole @ chunk) = length whole + length chunk"
    using r by simp_all
  ultimately show ?thesis using assms(1)
    unfolding kept_ok_def count_chunk_def drain_stats.simps by metis
qed

lemma drain_chunk_ok:
  assumes "drains_ok maximum stdout stderr d" and "maximum \<le> u64_max"
    and "length stdout + length stderr + length chunk \<le> u64_max"
  shows "drains_ok maximum (stdout @ (if stream = Stdout_Stream then chunk else []))
    (stderr @ (if stream = Stderr_Stream then chunk else [])) (drain_chunk maximum stream chunk d)"
proof -
  let ?q = "dn_quota d"
  define r where "r = min (length chunk) (maximum - ?q)"
  have q: "?q \<le> maximum" "?q = length (dn_stdout_file d) + length (dn_stderr_file d)"
    and ok: "kept_ok maximum ?q (dn_stdout d) (dn_stdout_file d) stdout"
      "kept_ok maximum ?q (dn_stderr d) (dn_stderr_file d) stderr"
    using assms(1) unfolding drains_ok_def by blast+
  have r: "?q + r \<le> maximum" "min (length chunk) r = r" using q(1) by (simp_all add: r_def)
  then have add: "saturating_add ?q r = ?q + r" using assms(2) by (simp add: saturating_add_def)
  have eq: "reserve_quota maximum (length chunk) ?q [] = (r, ?q + r)"
    using add by (simp add: quota_share_eq [OF q(1)] Let_def r_def)
  have new: "kept_ok maximum (?q + r) (count_chunk (length chunk) r (dn_stdout d)) (dn_stdout_file d @ take r chunk) (stdout @ chunk)"
    "kept_ok maximum (?q + r) (count_chunk (length chunk) r (dn_stderr d)) (dn_stderr_file d @ take r chunk) (stderr @ chunk)"
    using kept_ok_chunk [OF ok(1) q(1) r_def] kept_ok_chunk [OF ok(2) q(1) r_def] assms(3) by simp_all
  have old: "kept_ok maximum (?q + r) (dn_stdout d) (dn_stdout_file d) stdout"
    "kept_ok maximum (?q + r) (dn_stderr d) (dn_stderr_file d) stderr"
    using kept_ok_other ok by simp_all
  show ?thesis
    using new old r q(2) unfolding drain_chunk_def eq
    by (cases stream) (simp_all add: drains_ok_def)
qed

lemma drain_streams_ok:
  assumes "drains_ok maximum stdout stderr d" and "maximum \<le> u64_max"
    and "length stdout + length stderr + length (stream_bytes Stdout_Stream chunks) +
      length (stream_bytes Stderr_Stream chunks) \<le> u64_max"
  shows "drains_ok maximum (stdout @ stream_bytes Stdout_Stream chunks)
    (stderr @ stream_bytes Stderr_Stream chunks) (drain_streams maximum chunks d)"
  using assms
proof (induction chunks arbitrary: stdout stderr d)
  case (Cons c chunks)
  obtain stream chunk where c: "c = (stream, chunk)" by (cases c)
  let ?out = "stdout @ (if stream = Stdout_Stream then chunk else [])"
  let ?err = "stderr @ (if stream = Stderr_Stream then chunk else [])"
  have "length stdout + length stderr + length chunk \<le> u64_max"
    using Cons.prems(3) c by (cases stream) simp_all
  from drain_chunk_ok [OF Cons.prems(1,2) this]
  have "drains_ok maximum ?out ?err (drain_chunk maximum stream chunk d)" .
  moreover have "length ?out + length ?err + length (stream_bytes Stdout_Stream chunks) +
      length (stream_bytes Stderr_Stream chunks) \<le> u64_max"
    using Cons.prems(3) c by (cases stream) simp_all
  ultimately show ?case using Cons.IH [of ?out ?err] Cons.prems(2) c by simp
qed simp

lemma kept_okD:
  assumes "kept_ok maximum quota st kept whole"
  shows "dr_observed st = length whole" "dr_retained st = length kept" "length kept \<le> length whole"
    "length kept < length whole \<longleftrightarrow> kept \<noteq> whole" "quota < maximum \<Longrightarrow> kept = whole"
    "kept = take (length kept) whole"
proof -
  have p: "kept = take (length kept) whole" using assms by (simp add: kept_ok_def)
  then have le: "length kept \<le> length whole" by (metis length_take min.cobounded1)
  show "length kept < length whole \<longleftrightarrow> kept \<noteq> whole" using p le by (metis le_neq_implies_less nat_less_le take_all_iff)
  show "length kept \<le> length whole" "kept = take (length kept) whole" by (fact le, fact p)
qed (use assms in \<open>simp_all add: kept_ok_def\<close>)

lemma no_drains_ok: "drains_ok maximum [] [] no_drains"
  by (simp add: drains_ok_def kept_ok_def no_drains_def)

text \<open>C12: Whatever the order in which the two threads reserve their shares, the two logs of a job together never exceed
  its limit; each is a prefix of what the command wrote; and the final record gives the exact sizes and
  marks a log as truncated exactly when it is not the whole stream, which cannot happen below the limit.\<close>

theorem job_output_bounded:
  fixes chunks maximum
  defines "out \<equiv> stream_bytes Stdout_Stream chunks" and "err \<equiv> stream_bytes Stderr_Stream chunks"
    and "d \<equiv> drain_streams maximum chunks no_drains"
  assumes "maximum \<le> u64_max" and "length out + length err \<le> u64_max"
  shows "length (dn_stdout_file d) + length (dn_stderr_file d) \<le> maximum \<and>
    dn_stdout_file d = take (length (dn_stdout_file d)) out \<and>
    dn_stderr_file d = take (length (dn_stderr_file d)) err \<and>
    (let r = finish_record cancelled timed_out st now d state in
       js_stdout_retained_bytes r = length (dn_stdout_file d) \<and> js_stdout_observed_bytes r = length out \<and>
       js_stderr_retained_bytes r = length (dn_stderr_file d) \<and> js_stderr_observed_bytes r = length err \<and>
       (js_stdout_truncated r \<longleftrightarrow> dn_stdout_file d \<noteq> out) \<and> (js_stderr_truncated r \<longleftrightarrow> dn_stderr_file d \<noteq> err) \<and>
       (length out + length err < maximum \<longrightarrow> \<not> js_stdout_truncated r \<and> \<not> js_stderr_truncated r))"
proof -
  have ok: "drains_ok maximum out err d"
    using drain_streams_ok [OF no_drains_ok, of maximum chunks] assms by simp
  have q: "length (dn_stdout_file d) + length (dn_stderr_file d) = dn_quota d" "dn_quota d \<le> maximum"
    and ko: "kept_ok maximum (dn_quota d) (dn_stdout d) (dn_stdout_file d) out"
      "kept_ok maximum (dn_quota d) (dn_stderr d) (dn_stderr_file d) err"
    using ok unfolding drains_ok_def by (blast intro: sym)+
  note o = kept_okD [OF ko(1)] and e = kept_okD [OF ko(2)]
  have "dn_quota d < maximum" if "length out + length err < maximum" using q(1) o(3) e(3) that by linarith
  then have below: "length out + length err < maximum \<longrightarrow> dn_stdout_file d = out \<and> dn_stderr_file d = err"
    using o(5) e(5) by blast
  show ?thesis
    using q o(1,2,4) e(1,2,4) below unfolding Let_def finish_record_def
    by (intro conjI o(6) e(6)) simp_all
qed

lemma job_output_bounded_witness:
  "let chunks = [(Stdout_Stream, ''abc''), (Stderr_Stream, ''xy''), (Stdout_Stream, ''d'')];
       d = drain_streams 4 chunks no_drains in
     length (dn_stdout_file d) + length (dn_stderr_file d) \<le> 4 \<and>
     dn_stderr_file d = take (length (dn_stderr_file d)) ''xy'' \<and>
     (js_stderr_truncated (finish_record False False (Exited 0) 9 d demo_running) \<longleftrightarrow> dn_stderr_file d \<noteq> ''xy'')"
  using job_output_bounded [of 4 "[(Stdout_Stream, ''abc''), (Stderr_Stream, ''xy''), (Stdout_Stream, ''d'')]"
      False False "Exited 0" 9 demo_running]
  by (simp add: u64_max_def Let_def)

section \<open>Reading the logs page by page\<close>

definition page_bytes :: "nat \<Rightarrow> nat \<Rightarrow> string \<Rightarrow> string" where
  "page_bytes maximum offset log = take maximum (drop offset log)"

lemma page_bytes_take:
  "offset \<le> length log \<Longrightarrow> take (min maximum (length log - offset)) (drop offset log) = page_bytes maximum offset log"
  by (simp add: page_bytes_def min_def)

lemma page_bytes_append: "page_bytes maximum offset log @ drop (offset + length (page_bytes maximum offset log)) log = drop offset log"
proof (cases "maximum \<le> length log - offset")
  case True
  then have "length (page_bytes maximum offset log) = maximum" by (simp add: page_bytes_def)
  then show ?thesis
    using append_take_drop_id [of maximum "drop offset log"] by (simp add: page_bytes_def add.commute)
next
  case False
  then show ?thesis by (simp add: page_bytes_def)
qed

definition log_page :: "(string \<Rightarrow> string) \<Rightarrow> string \<Rightarrow> nat \<Rightarrow> nat \<Rightarrow> nat \<Rightarrow> bool \<Rightarrow> job_log_page" where
  "log_page encode64 log offset maximum observed truncated =
     (let bytes = page_bytes maximum offset log in
      \<lparr>jp_encoding = (if valid_utf8 bytes then Log_Utf8 else Log_Base64),
       jp_value = (if valid_utf8 bytes then bytes else encode64 bytes), jp_next_offset = offset + length bytes,
       jp_eof = (offset + length bytes = length log), jp_retained_bytes = length log,
       jp_observed_bytes = max observed (length log), jp_truncated = truncated\<rparr>)"

lemma read_log_page_eq:
  assumes "offset \<le> length log" and "length log \<le> u64_max"
  shows "read_log_page_at encode64 (Some log) offset maximum observed truncated =
    Inr (log_page encode64 log offset maximum observed truncated)"
proof -
  have "length (page_bytes maximum offset log) \<le> length log - offset" by (simp add: page_bytes_def)
  then have "offset + length (page_bytes maximum offset log) \<le> u64_max" using assms by linarith
  then have "checked_add offset (length (page_bytes maximum offset log)) =
      Some (offset + length (page_bytes maximum offset log))"
    by (simp add: checked_add_def)
  then show ?thesis
    using assms(1) by (simp add: read_log_page_at_def ok_or_def Let_def page_bytes_take log_page_def)
qed

lemma log_page_fields [simp]:
  "jp_next_offset (log_page encode64 log offset maximum observed truncated) = offset + length (page_bytes maximum offset log)"
  "jp_eof (log_page encode64 log offset maximum observed truncated) \<longleftrightarrow>
     offset + length (page_bytes maximum offset log) = length log"
  by (simp_all add: log_page_def Let_def)

lemma decoded_log_page:
  assumes "\<forall>x. decode64 (encode64 x) = Some x"
  shows "decoded_page decode64 (log_page encode64 log offset maximum observed truncated) = Some (page_bytes maximum offset log)"
  using assms by (simp add: decoded_page_def log_page_def Let_def)

text \<open>A reader that asks for pages of at most \<open>limit\<close> bytes, each from where the last one ended, until both logs are at
  their end: the bytes it has put together, \<open>None\<close> when a request fails or \<open>fuel\<close> requests were not enough.\<close>

fun follow_logs ::
  "(string \<Rightarrow> string) \<Rightarrow> (string \<Rightarrow> string option) \<Rightarrow> job_env \<Rightarrow> job_id \<Rightarrow> nat \<Rightarrow> nat \<Rightarrow> nat \<Rightarrow> nat \<Rightarrow> job_store
     \<Rightarrow> (string \<times> string) option" where
  "follow_logs encode64 decode64 en jid limit 0 o1 o2 s = None"
| "follow_logs encode64 decode64 en jid limit (Suc fuel) o1 o2 s =
     (case job_logs encode64 decode64 en
        \<lparr>jl_job_id = jid, jl_stdout_offset = o1, jl_stderr_offset = o2, jl_max_bytes = limit\<rparr> s of
        (Inl _, _) \<Rightarrow> None
      | (Inr r, s1) \<Rightarrow>
          (case (decoded_page decode64 (jlr_stdout r), decoded_page decode64 (jlr_stderr r)) of
             (Some a, Some b) \<Rightarrow>
               if jp_eof (jlr_stdout r) \<and> jp_eof (jlr_stderr r) then Some (a, b)
               else map_option (\<lambda>(x, y). (a @ x, b @ y))
                 (follow_logs encode64 decode64 en jid limit fuel (jp_next_offset (jlr_stdout r))
                    (jp_next_offset (jlr_stderr r)) s1)
           | _ \<Rightarrow> None))"

text \<open>A finished job with its two logs.\<close>

definition finished_job :: "job_id \<Rightarrow> string \<Rightarrow> string \<Rightarrow> job_state_record \<Rightarrow> job_store \<Rightarrow> bool" where
  "finished_job jid stdout stderr st s \<longleftrightarrow>
     checked_id jid = Inr (job_id_as_str jid) \<and> js_version st = JOB_RECORD_VERSION \<and> js_job_id st = jid \<and>
     is_terminal (js_state st) \<and> length stdout \<le> u64_max \<and> length stderr \<le> u64_max \<and>
     (case map_of s (job_id_as_str jid) of
        None \<Rightarrow> False
      | Some d \<Rightarrow> jd_state d = Stored st \<and> jd_stdout d = Some stdout \<and> jd_stderr d = Some stderr)"

lemma job_logs_finished:
  assumes f: "finished_job jid stdout stderr st s" and b64: "\<forall>x. decode64 (encode64 x) = Some x"
    and limit: "0 < limit" "limit \<le> MAX_JOB_LOG_PAGE_BYTES" and o: "o1 \<le> length stdout" "o2 \<le> length stderr"
  shows "job_logs encode64 decode64 en
      \<lparr>jl_job_id = jid, jl_stdout_offset = o1, jl_stderr_offset = o2, jl_max_bytes = limit\<rparr> s =
    (Inr \<lparr>jlr_job_id = jid, jlr_state = js_state st,
       jlr_stdout = log_page encode64 stdout o1 limit (js_stdout_observed_bytes st) (js_stdout_truncated st),
       jlr_stderr = log_page encode64 stderr o2 (limit - length (page_bytes limit o1 stdout))
         (js_stderr_observed_bytes st) (js_stderr_truncated st)\<rparr>, s)"
proof -
  obtain d where d: "map_of s (job_id_as_str jid) = Some d" "jd_state d = Stored st"
    "jd_stdout d = Some stdout" "jd_stderr d = Some stderr"
    and v: "checked_id jid = Inr (job_id_as_str jid)" "js_version st = JOB_RECORD_VERSION" "js_job_id st = jid"
      "is_terminal (js_state st)" and len: "length stdout \<le> u64_max" "length stderr \<le> u64_max"
    using f by (auto simp: finished_job_def split: option.splits)
  note open_ok = open_job_eq [OF v(1) d(1)]
  have "read_state jid s = (Inr st, s)" using d(2) v by (simp add: read_state_def bindJ_apply open_ok)
  then have st: "status en jid s = (Inr st, s)" by (rule status_standing) (simp add: stands_def v(4))
  have "decoded_page_len decode64 (log_page encode64 stdout o1 limit obs tr) = Inr (length (page_bytes limit o1 stdout))"
    for obs tr by (simp add: decoded_page_len_def decoded_log_page [where ?encode64.0 = encode64 and ?decode64.0 = decode64, OF b64] ok_or_def)
  then show ?thesis
    using limit o len by (simp add: job_logs_def bindJ_apply open_ok st d(3,4) read_log_page_eq saturating_sub_def)
qed

lemma follow_logs_rest:
  assumes f: "finished_job jid stdout stderr st s" and b64: "\<forall>x. decode64 (encode64 x) = Some x"
    and limit: "0 < limit" "limit \<le> MAX_JOB_LOG_PAGE_BYTES"
  shows "o1 \<le> length stdout \<Longrightarrow> o2 \<le> length stderr \<Longrightarrow>
    (length stdout - o1) + (length stderr - o2) \<le> fuel \<Longrightarrow>
    follow_logs encode64 decode64 en jid limit (Suc fuel) o1 o2 s = Some (drop o1 stdout, drop o2 stderr)"
proof (induction fuel arbitrary: o1 o2)
  case 0
  then have "o1 = length stdout" "o2 = length stderr" by simp_all
  then show ?case
    by (simp add: job_logs_finished [where ?encode64.0 = encode64 and ?decode64.0 = decode64 and limit = limit, OF f b64 limit] decoded_log_page [where ?encode64.0 = encode64 and ?decode64.0 = decode64, OF b64]) (simp add: page_bytes_def)
next
  case (Suc fuel)
  let ?a = "page_bytes limit o1 stdout" let ?b = "page_bytes (limit - length ?a) o2 stderr"
  note page = job_logs_finished [where ?encode64.0 = encode64 and ?decode64.0 = decode64 and limit = limit, OF f b64 limit Suc.prems(1,2)]
  have o: "o1 + length ?a \<le> length stdout" "o2 + length ?b \<le> length stderr"
    using Suc.prems(1,2) by (simp_all add: page_bytes_def)
  note whole = page_bytes_append [of limit o1 stdout] page_bytes_append [of "limit - length ?a" o2 stderr]
  show ?case
  proof (cases "o1 + length ?a = length stdout \<and> o2 + length ?b = length stderr")
    case True
    then have "?a = drop o1 stdout" "?b = drop o2 stderr" using whole by (metis append_Nil2 drop_all order_refl)+
    then show ?thesis using True by (subst follow_logs.simps) (simp add: page decoded_log_page [where ?encode64.0 = encode64 and ?decode64.0 = decode64, OF b64])
  next
    case False
    have "0 < length ?a + length ?b"
      using False limit(1) o Suc.prems(1,2) by (auto simp: page_bytes_def)
    then have "(length stdout - (o1 + length ?a)) + (length stderr - (o2 + length ?b)) \<le> fuel"
      using Suc.prems(3) o by linarith
    from Suc.IH [OF o this] show ?thesis using False whole
      by (subst follow_logs.simps(2)) (auto simp del: follow_logs.simps simp: page decoded_log_page [where ?encode64.0 = encode64 and ?decode64.0 = decode64, OF b64])
  qed
qed

text \<open>C11: Once a job has ended, a reader that follows the offsets gets exactly the two logs, in at most one request per
  byte and one more, whatever page size it asks for; no answer holds more bytes than asked for, even where a
  character is cut at the boundary of a page.\<close>

theorem followed_logs_complete:
  assumes "finished_job jid stdout stderr st s" and "\<forall>x. decode64 (encode64 x) = Some x"
    and "0 < limit" "limit \<le> MAX_JOB_LOG_PAGE_BYTES"
  shows "follow_logs encode64 decode64 en jid limit (Suc (length stdout + length stderr)) 0 0 s = Some (stdout, stderr) \<and>
    (\<forall>o1 o2. o1 \<le> length stdout \<and> o2 \<le> length stderr \<longrightarrow>
      (\<exists>r a b. job_logs encode64 decode64 en
          \<lparr>jl_job_id = jid, jl_stdout_offset = o1, jl_stderr_offset = o2, jl_max_bytes = limit\<rparr> s = (Inr r, s) \<and>
        decoded_page decode64 (jlr_stdout r) = Some a \<and> decoded_page decode64 (jlr_stderr r) = Some b \<and>
        length a + length b \<le> limit))"
proof -
  have b64: "\<forall>x. decode64 (encode64 x) = Some x" using assms(2) by simp
  note follow = follow_logs_rest [where fuel = "length stdout + length stderr" and en = en and ?encode64.0 = encode64 and
      ?decode64.0 = decode64 and limit = limit and ?o1.0 = 0 and ?o2.0 = 0, OF assms(1) b64 assms(3,4)]
  have page: "length (page_bytes limit o1 stdout) + length (page_bytes (limit - length (page_bytes limit o1 stdout)) o2 stderr) \<le> limit"
    for o1 o2 by (simp add: page_bytes_def)
  show ?thesis
    using follow page
    by (auto simp: job_logs_finished [where ?encode64.0 = encode64 and ?decode64.0 = decode64 and limit = limit, OF assms(1) b64 assms(3,4)] decoded_log_page [where ?encode64.0 = encode64 and ?decode64.0 = decode64, OF b64])
qed

definition demo_finished :: job_state_record where
  "demo_finished = mark_lost demo_env demo_running"

lemma followed_logs_complete_witness:
  "follow_logs (\<lambda>x. x) Some demo_env demo_jid 2 (Suc (length [CHR ''a'', CHR 0xC3, CHR 0xA9, CHR ''b''] + length ''xyz'')) 0 0
     [(job_id_as_str demo_jid, \<lparr>jd_request = Stored demo_job, jd_state = Stored demo_finished,
       jd_stdout = Some [CHR ''a'', CHR 0xC3, CHR 0xA9, CHR ''b''], jd_stderr = Some ''xyz'', jd_lock_file = True,
       jd_cancel = False, jd_other = []\<rparr>)] = Some ([CHR ''a'', CHR 0xC3, CHR 0xA9, CHR ''b''], ''xyz'')"
proof -
  have "finished_job demo_jid [CHR ''a'', CHR 0xC3, CHR 0xA9, CHR ''b''] ''xyz'' demo_finished
    [(job_id_as_str demo_jid, \<lparr>jd_request = Stored demo_job, jd_state = Stored demo_finished,
       jd_stdout = Some [CHR ''a'', CHR 0xC3, CHR 0xA9, CHR ''b''], jd_stderr = Some ''xyz'', jd_lock_file = True,
       jd_cancel = False, jd_other = []\<rparr>)]" by code_simp
  from followed_logs_complete [OF this, of Some "\<lambda>x. x" 2 demo_env] show ?thesis
    by (simp add: MAX_JOB_LOG_PAGE_BYTES_def)
qed

section \<open>Listing\<close>

definition listed_names :: "string list \<Rightarrow> string list" where
  "listed_names names = filter (\<lambda>n. length n = JOB_ID_HEX_BYTES \<and> list_all lower_hex_char n) names"

lemma list_names_ids:
  "list_names e d en names jobs s = (Inr all, s1) \<Longrightarrow>
   \<exists>new. all = jobs @ new \<and> map (\<lambda>j. job_id_as_str (jm_job_id j)) new = listed_names names"
proof (induction names arbitrary: jobs s)
  case (Cons name names)
  show ?case
  proof (cases "job_id_parse name")
    case (Inl x)
    then have "listed_names (name # names) = listed_names names"
      by (auto simp: listed_names_def job_id_parse_def split: if_splits)
    with Cons Inl show ?thesis by simp
  next
    case (Inr jid)
    then have name: "jid = JobId name" "listed_names (name # names) = name # listed_names names"
      by (auto simp: listed_names_def job_id_parse_def split: if_splits)
    from Cons.prems Inr obtain st request s2 where
      "list_names e d en names (jobs @ [job_summary_of jid request st]) s2 = (Inr all, s1)"
      by (auto elim!: bindJ_InrE)
    from Cons.IH [OF this] show ?thesis using name by (auto simp: job_summary_of_def)
  qed
qed (simp add: listed_names_def)

definition job_key :: "job_summary \<Rightarrow> nat \<times> string" where
  "job_key j = (jm_created_unix_ms j, job_id_as_str (jm_job_id j))"

lemma sort_jobs_sorted: "sorted_wrt (\<lambda>a b. job_key b \<le> job_key a) (sort_jobs jobs)"
proof -
  have "sort_jobs jobs = rev (sort_key job_key jobs)"
    by (simp add: sort_jobs_def job_key_def [abs_def])
  then show ?thesis using sorted_sort_key [of job_key jobs] by (simp only: sorted_wrt_rev sorted_map)
qed

lemma set_sort_jobs: "set (sort_jobs jobs) = set jobs" "length (sort_jobs jobs) = length jobs"
  by (simp_all add: sort_jobs_def)

lemma distinct_sort_jobs: "distinct jobs \<Longrightarrow> distinct (sort_jobs jobs)"
  by (simp add: sort_jobs_def)

text \<open>A successful list holds the newest jobs: there is one summary for every directory whose name is a job
  identifier, the answer is sorted by the time of creation and then the identifier, both downwards, is within the
  limit asked for, and every job left out is at most as new as each one in it.\<close>

theorem job_list_newest:
  assumes "list_jobs encode64 decode64 en max_jobs s = (Inr jobs, s1)" and "distinct (map fst s)"
  shows "\<exists>every. map (\<lambda>j. job_id_as_str (jm_job_id j)) every = listed_names (map fst s) \<and> distinct every \<and>
    set jobs \<subseteq> set every \<and> length jobs = min max_jobs (length every) \<and> 0 < max_jobs \<and>
    max_jobs \<le> MAX_JOB_LIST_ENTRIES \<and> sorted_wrt (\<lambda>a b. job_key b \<le> job_key a) jobs \<and>
    (\<forall>left \<in> set every - set jobs. \<forall>j \<in> set jobs. job_key left \<le> job_key j)"
proof -
  have limit: "0 < max_jobs" "max_jobs \<le> MAX_JOB_LIST_ENTRIES"
    using assms(1) by (auto simp: list_jobs_def split: if_splits)
  then obtain every s2 where l: "list_names encode64 decode64 en (map fst s) [] s = (Inr every, s2)"
    and jobs: "jobs = take max_jobs (sort_jobs every)"
    using assms(1) by (auto simp: list_jobs_def elim!: bindJ_InrE)
  have ids: "map (\<lambda>j. job_id_as_str (jm_job_id j)) every = listed_names (map fst s)"
    using list_names_ids [OF l] by simp
  then have "distinct (map (\<lambda>j. job_id_as_str (jm_job_id j)) every)"
    using assms(2) by (simp add: listed_names_def)
  then have dist: "distinct every" by (simp add: distinct_map)
  have split: "sort_jobs every = jobs @ drop max_jobs (sort_jobs every)" unfolding jobs by simp
  have sorted: "sorted_wrt (\<lambda>a b. job_key b \<le> job_key a) (jobs @ drop max_jobs (sort_jobs every))"
    using sort_jobs_sorted [of every] split by simp
  have "job_key left \<le> job_key j" if "left \<in> set every - set jobs" "j \<in> set jobs" for left j
  proof -
    have "set every = set jobs \<union> set (drop max_jobs (sort_jobs every))"
      using set_sort_jobs(1) [of every] split by (metis set_append)
    then have "left \<in> set (drop max_jobs (sort_jobs every))" using that(1) by blast
    then show ?thesis using sorted that(2) by (simp add: sorted_wrt_append)
  qed
  moreover have "set jobs \<subseteq> set every" unfolding jobs using set_take_subset set_sort_jobs(1) by fastforce
  moreover have "length jobs = min max_jobs (length every)"
    unfolding jobs using set_sort_jobs(2) [of every] by (simp add: min.commute)
  moreover have "sorted_wrt (\<lambda>a b. job_key b \<le> job_key a) jobs" using sorted by (simp add: sorted_wrt_append)
  ultimately show ?thesis using ids dist limit by (intro exI [of _ every] conjI ballI) simp_all
qed

definition demo_dir :: "nat \<Rightarrow> job_id \<Rightarrow> job_dir" where
  "demo_dir created jid =
     \<lparr>jd_request = Stored (demo_job\<lparr>jr_job_id := jid, jr_created_unix_ms := created\<rparr>),
      jd_state = Stored (demo_finished\<lparr>js_job_id := jid, js_created_unix_ms := created\<rparr>),
      jd_stdout = Some [], jd_stderr = Some [], jd_lock_file = True, jd_cancel = False, jd_other = []\<rparr>"

definition demo_jobs :: job_store where
  "demo_jobs = [(replicate 32 CHR ''1'', demo_dir 4 (JobId (replicate 32 CHR ''1''))), (''tmp'', demo_dir 1 demo_jid),
     (replicate 32 CHR ''2'', demo_dir 9 (JobId (replicate 32 CHR ''2'')))]"

lemma job_list_newest_witness:
  "\<exists>jobs s1. list_jobs (\<lambda>x. x) Some demo_env 1 demo_jobs = (Inr jobs, s1) \<and>
     map jm_created_unix_ms jobs = [9] \<and> sorted_wrt (\<lambda>a b. job_key b \<le> job_key a) jobs"
proof -
  define jobs where "jobs = map (\<lambda>(n, c). job_summary_of (JobId n) (demo_job\<lparr>jr_job_id := JobId n, jr_created_unix_ms := c\<rparr>)
     (demo_finished\<lparr>js_job_id := JobId n, js_created_unix_ms := c\<rparr>)) [(replicate 32 CHR ''1'', 4), (replicate 32 CHR ''2'', 9)]"
  have "list_names (\<lambda>x. x) Some demo_env (map fst demo_jobs) [] demo_jobs = (Inr jobs, demo_jobs)"
    unfolding jobs_def by code_simp
  then have l: "list_jobs (\<lambda>x. x) Some demo_env 1 demo_jobs = (Inr (take 1 (sort_jobs jobs)), demo_jobs)"
    by (simp add: list_jobs_def MAX_JOB_LIST_ENTRIES_def)
  have "map jm_created_unix_ms (take 1 (sort_jobs jobs)) = [9]"
    by (simp add: jobs_def sort_jobs_def job_summary_of_def)
  moreover have dist: "distinct (map fst demo_jobs)" by code_simp
  moreover have "sorted_wrt (\<lambda>a b. job_key b \<le> job_key a) (take 1 (sort_jobs jobs))"
    using job_list_newest [OF l dist] by (elim exE conjE)
  ultimately show ?thesis using l by (intro exI conjI)
qed

section \<open>A directory without a record\<close>

text \<open>C40: While one job directory has no state record yet, because its \<open>create\<close> is between \<open>mkdir\<close> and the last file or was
  killed there, and is read first, every control request fails, whatever job it is about.\<close>

theorem missing_record_blocks_control:
  assumes "s = (name, d) # rest" and "job_id_parse name = Inr jid" and "jd_state d = Absent"
  shows "execute_control encode64 decode64 written spawned pauses en en1 request s = (Inl (os_error Io_NotFound), s)"
proof -
  have jid: "jid = JobId name" "checked_id jid = Inr name"
    using assms(2) by (auto simp: job_id_parse_def checked_id_def split: if_splits sum.splits)
  have "open_job jid s = (Inr d, s)"
    using open_job_eq [of jid s d] assms(1) jid by simp
  then have "status en jid s = (Inl (os_error Io_NotFound), s)"
    by (simp add: status_def read_state_def bindJ_apply assms(3))
  then have "collect_expired en RETENTION_BUDGET s = (Inl (os_error Io_NotFound), s)"
    using assms(1,2) by (simp add: collect_expired_def RETENTION_BUDGET_def bindJ_apply)
  then show ?thesis by (simp add: execute_control_def)
qed

lemma missing_record_blocks_control_witness:
  "execute_control (\<lambda>x. x) Some (Inr ()) (pureJ (Inr ())) [] demo_env demo_env (Req_Status demo_jid)
     [(replicate 32 CHR ''0'', demo_dir 1 demo_jid\<lparr>jd_state := Absent\<rparr>), (job_id_as_str demo_jid, demo_dir 1 demo_jid)] =
   (Inl (os_error Io_NotFound),
     [(replicate 32 CHR ''0'', demo_dir 1 demo_jid\<lparr>jd_state := Absent\<rparr>), (job_id_as_str demo_jid, demo_dir 1 demo_jid)])"
proof -
  have "job_id_parse (replicate 32 CHR ''0'') = Inr (JobId (replicate 32 CHR ''0''))" by code_simp
  from missing_record_blocks_control [OF refl this, of "demo_dir 1 demo_jid\<lparr>jd_state := Absent\<rparr>"] show ?thesis by simp
qed

end
