(* ===== verification/Search_Parse.thy ===== *)
theory Search_Parse
  imports Search_Records Fixed_Command
begin

text \<open>
  Reading what the search engines of the remote side print (\<open>src/remote/search.rs\<close>): paths that are pinned below the
  operation root, the records of \<open>grep\<close>, the JSON events of \<open>rg\<close>, and what is read when the output was cut at
  its limit.  The JSON parser is a parameter, the values it gives are modelled; so are Base64 and the matcher of the globs.
\<close>

section \<open>Paths\<close>

definition pinned_relative :: "string \<Rightarrow> string bridge_result" where
  "pinned_relative pinned =
     bindR (ok_or (protocol_error ''search path is not relative to the pinned root'')
              (case strip_prefix ''./'' pinned of Some r \<Rightarrow> if r \<noteq> [] then Some r else None | None \<Rightarrow> None))
       (\<lambda>relative.
         if list_ex (\<lambda>p. p = [] \<or> p = ''.'' \<or> p = ''..'') (split_on (CHR ''/'') relative) then
           Inl (protocol_error ''search path is not normalized beneath the pinned root'')
         else Inr relative)"

definition logical_from_pinned :: "string \<Rightarrow> string \<Rightarrow> string bridge_result" where
  "logical_from_pinned root pinned =
     (if pinned = ''.'' then Inr root
      else bindR (pinned_relative pinned) (\<lambda>relative.
        Inr (root @ (if strip_suffix ''/'' root = None then ''/'' else []) @ relative)))"

text \<open>\<open>windows(n).position\<close>: where the needle begins first; the query is never empty.\<close>

fun find_bytes :: "string \<Rightarrow> string \<Rightarrow> nat option" where
  "find_bytes [] needle = (if needle = [] then Some 0 else None)"
| "find_bytes (c # haystack) needle =
     (if starts_with needle (c # haystack) then Some 0 else map_option Suc (find_bytes haystack needle))"

section \<open>The records of grep\<close>

text \<open>\<open>line:content\<close>.\<close>

definition grep_record :: "string \<Rightarrow> string \<Rightarrow> (nat \<times> nat \<times> string) bridge_result" where
  "grep_record query rec =
     bindR (ok_or (protocol_error ''grep line number is missing'') (position (\<lambda>b. b = CHR '':'') rec)) (\<lambda>colon.
     bindR (ok_or (protocol_error ''grep line number is invalid'')
              (if valid_utf8 (take colon rec) then parse_unsigned u64_max (take colon rec) else None)) (\<lambda>line.
     let content = drop (colon + 1) rec in
     bindR (ok_or (protocol_error ''grep result does not contain the query'')
              (case find_bytes content query of
                 Some v \<Rightarrow> if v + 1 \<le> u64_max then Some (v + 1) else None
               | None \<Rightarrow> None)) (\<lambda>column. Inr (line, column, content))))"

definition search_match_of :: "(string \<Rightarrow> string) \<Rightarrow> string \<Rightarrow> string \<Rightarrow> nat \<Rightarrow> nat \<Rightarrow> string \<Rightarrow> search_match" where
  "search_match_of base64 actual relative line column content =
     \<lparr>sr_actual_path = encode_bytes base64 actual, sr_relative_path = encode_bytes base64 relative,
      sr_line = line, sr_column = column, sr_content = encode_bytes base64 content\<rparr>"

definition read_field :: "bool \<Rightarrow> spool_cursor \<Rightarrow> nat \<Rightarrow> string option bridge_result \<times> spool_cursor" where
  "read_field capped c limit = (if capped then next_field_capped c limit else next_field c limit)"

definition read_line :: "bool \<Rightarrow> spool_cursor \<Rightarrow> nat \<Rightarrow> string option bridge_result \<times> spool_cursor" where
  "read_line capped c limit = (if capped then next_line_capped c limit else next_line c limit)"

definition finish_events ::
  "bool \<Rightarrow> nat \<Rightarrow> search_match list \<times> bool \<Rightarrow> spool_cursor \<Rightarrow> (search_match list \<times> bool) bridge_result" where
  "finish_events capped completed result c =
     (if capped \<and> sc_discarded_incomplete c \<and> completed = 0 then
        Inl (protocol_error ''search event is oversized'')
      else Inr result)"

text \<open>Keeping a match, or noticing that there are more.\<close>

definition retain_match :: "nat \<Rightarrow> search_match \<Rightarrow> search_match list \<times> bool \<Rightarrow> search_match list \<times> bool" where
  "retain_match retain m result =
     (case result of (matches, lookahead) \<Rightarrow>
        if length matches < retain then (matches @ [m], lookahead) else (matches, True))"

text \<open>What a cursor has not given yet shrinks with every record.\<close>

definition cursor_left :: "spool_cursor \<Rightarrow> nat" where
  "cursor_left c = (cursor_length c - sc_offset c) + (length (sc_page c) - sc_page_index c)"

lemma internal_read_sizes:
  assumes "internal_read out stream offset n = Inr page"
  shows "op_next_offset page = offset + length (op_bytes page) \<and> op_next_offset page \<le> stream_len out stream"
  using assms
  by (auto simp: internal_read_def file_read_exact_def result_simps byte_simps split: if_splits option.splits)

lemma next_delimited_left:
  "next_delimited c d maximum incomplete discard rec = (Inr (Some r), c') \<Longrightarrow> cursor_left c' < cursor_left c"
proof (induction c d maximum incomplete discard rec rule: next_delimited.induct)
  case (1 c d maximum incomplete discard rec)
  note step = next_delimited.simps [of c d maximum incomplete discard rec]
  show ?case
  proof (cases "sc_page_index c = length (sc_page c)")
    case drained: True
    with "1.prems" step have off: "sc_offset c \<noteq> cursor_length c" by (auto split: if_splits)
    with "1.prems" step drained obtain page where
      page: "internal_read (sc_output c) (sc_stream c) (sc_offset c) CURSOR_PAGE_BYTES = Inr page"
      and ok: "\<not> (op_bytes page = [] \<and> \<not> op_eof page)"
      by (auto split: sum.splits if_splits)
    let ?c = "c\<lparr>sc_offset := op_next_offset page, sc_page := op_bytes page, sc_page_index := 0\<rparr>"
    have "next_delimited ?c d maximum incomplete discard rec = (Inr (Some r), c')"
      using "1.prems" step drained off page ok by simp
    then have "cursor_left c' < cursor_left ?c"
      using "1.IH"(1) drained off page ok by blast
    moreover have "cursor_left ?c \<le> cursor_left c"
      using internal_read_sizes [OF page] drained by (simp add: cursor_left_def cursor_length_def)
    ultimately show ?thesis by simp
  next
    case False
    let ?rem = "drop (sc_page_index c) (sc_page c)"
    show ?thesis
    proof (cases "position (\<lambda>b. b = d) ?rem")
      case (Some i)
      then have "c' = c\<lparr>sc_page_index := sc_page_index c + i + 1\<rparr>"
        using "1.prems" step False by (auto simp: Let_def split: sum.splits)
      moreover have "i < length ?rem" using position_less [OF Some] .
      ultimately show ?thesis by (simp add: cursor_left_def cursor_length_def)
    next
      case None
      with "1.prems" step False obtain rec' where ext: "extend_record rec ?rem maximum = Inr rec'"
        by (auto simp: Let_def split: sum.splits)
      let ?c = "c\<lparr>sc_page_index := length (sc_page c)\<rparr>"
      have "next_delimited ?c d maximum incomplete discard rec' = (Inr (Some r), c')"
        using "1.prems" step False None ext by (simp add: Let_def)
      then have "cursor_left c' < cursor_left ?c" using "1.IH"(2) [OF False refl None ext] by blast
      then show ?thesis by (simp add: cursor_left_def cursor_length_def)
    qed
  qed
qed

lemma read_field_left: "read_field capped c limit = (Inr (Some r), c') \<Longrightarrow> cursor_left c' < cursor_left c"
  by (auto simp: read_field_def next_field_def next_field_capped_def intro: next_delimited_left split: if_splits)

lemma read_line_left: "read_line capped c limit = (Inr (Some r), c') \<Longrightarrow> cursor_left c' < cursor_left c"
  by (auto simp: read_line_def next_line_def next_line_capped_def intro: next_delimited_left split: if_splits)

function parse_grep_loop ::
  "(string \<Rightarrow> string) \<Rightarrow> string \<Rightarrow> string \<Rightarrow> string \<Rightarrow> bool \<Rightarrow> nat \<Rightarrow> nat \<Rightarrow> (string \<Rightarrow> bool) \<Rightarrow> nat
     \<Rightarrow> search_match list \<times> bool \<Rightarrow> spool_cursor \<Rightarrow> (search_match list \<times> bool) bridge_result" where
  "parse_grep_loop base64 root display query capped retain limit keep completed result c =
     (case read_field capped c limit of
        (Inl e, c1) \<Rightarrow> Inl e
      | (Inr None, c1) \<Rightarrow> finish_events capped completed result c1
      | (Inr (Some pinned), c1) \<Rightarrow>
          bindR (logical_from_pinned root pinned) (\<lambda>actual.
          case read_line capped c1 limit of
            (Inl e, c2) \<Rightarrow> Inl e
          | (Inr None, c2) \<Rightarrow>
              if capped then finish_events capped completed result c2
              else Inl (protocol_error ''grep line is incomplete'')
          | (Inr (Some rec), c2) \<Rightarrow>
              bindR (grep_record query rec) (\<lambda>(line, column, content).
              bindR (search_relative display actual) (\<lambda>relative.
                parse_grep_loop base64 root display query capped retain limit keep (completed + 1)
                  (if keep relative then
                     retain_match retain (search_match_of base64 actual relative line column content) result
                   else result) c2))))"
  by pat_completeness auto
termination
proof (relation "measure (\<lambda>(_, _, _, _, _, _, _, _, _, _, c). cursor_left c)", goal_cases)
  case (2 base64 root display query capped retain limit keep completed result c x y pinned c1 actual u v rec c2)
  then show ?case by (auto dest!: read_field_left [OF sym] read_line_left [OF sym])
qed simp

declare parse_grep_loop.simps [simp del]

definition parse_grep_records ::
  "(string \<Rightarrow> string) \<Rightarrow> string \<Rightarrow> string \<Rightarrow> string \<Rightarrow> bool \<Rightarrow> nat \<Rightarrow> nat \<Rightarrow> (string \<Rightarrow> bool) \<Rightarrow> spool_cursor
     \<Rightarrow> (search_match list \<times> bool) bridge_result" where
  "parse_grep_records base64 root display query capped retain limit keep c =
     parse_grep_loop base64 root display query capped retain limit keep 0 ([], False) c"

definition parse_grep ::
  "(string \<Rightarrow> string) \<Rightarrow> string \<Rightarrow> string \<Rightarrow> string \<Rightarrow> bool \<Rightarrow> nat \<Rightarrow> nat \<Rightarrow> spool_cursor
     \<Rightarrow> (search_match list \<times> bool) bridge_result" where
  "parse_grep base64 root display query capped retain limit c =
     parse_grep_records base64 root display query capped retain limit (\<lambda>_. True) c"

text \<open>The globs see the relative path and its last component.\<close>

definition glob_keep :: "(string \<Rightarrow> bool) \<Rightarrow> bool \<Rightarrow> string \<Rightarrow> bool" where
  "glob_keep is_match globs_empty relative \<longleftrightarrow>
     globs_empty \<or> is_match relative \<or> is_match (last (split_on (CHR ''/'') relative))"

definition parse_grep_filtered ::
  "(string \<Rightarrow> string) \<Rightarrow> string \<Rightarrow> string \<Rightarrow> string \<Rightarrow> bool \<Rightarrow> nat \<Rightarrow> nat \<Rightarrow> (string \<Rightarrow> bool) \<Rightarrow> bool
     \<Rightarrow> spool_cursor \<Rightarrow> (search_match list \<times> bool) bridge_result" where
  "parse_grep_filtered base64 root display query capped retain limit is_match globs_empty c =
     parse_grep_records base64 root display query capped retain limit (glob_keep is_match globs_empty) c"

section \<open>The events of rg\<close>

text \<open>\<open>serde_json::Value\<close>; a number is kept when it is a \<open>u64\<close>.\<close>

datatype json =
    J_Null
  | J_Bool bool
  | J_Number "nat option"
  | J_String string
  | J_Array "json list"
  | J_Object "(string \<times> json) list"

fun json_get :: "string \<Rightarrow> json \<Rightarrow> json option" where
  "json_get key (J_Object members) = map_of members key"
| "json_get key _ = None"

fun json_str :: "json \<Rightarrow> string option" where
  "json_str (J_String s) = Some s"
| "json_str _ = None"

fun json_u64 :: "json \<Rightarrow> nat option" where
  "json_u64 (J_Number n) = n"
| "json_u64 _ = None"

fun json_first :: "json \<Rightarrow> json option" where
  "json_first (J_Array (v # vs)) = Some v"
| "json_first _ = None"

definition json_bytes :: "(string \<Rightarrow> string option) \<Rightarrow> json \<Rightarrow> string bridge_result" where
  "json_bytes unbase64 v =
     (case Option.bind (json_get ''text'' v) json_str of
        Some text \<Rightarrow> Inr text
      | None \<Rightarrow>
          (case Option.bind (json_get ''bytes'' v) json_str of
             Some bytes \<Rightarrow> ok_or (protocol_error ''rg byte field is invalid'') (unbase64 bytes)
           | None \<Rightarrow> Inl (protocol_error ''rg text/bytes field is missing'')))"

text \<open>One line of output: \<open>None\<close> for an event that is no match.\<close>

definition rg_event :: "(string \<Rightarrow> json option) \<Rightarrow> string \<Rightarrow> json option bridge_result" where
  "rg_event parse_json line =
     bindR (ok_or (protocol_error ''rg JSON event is invalid'') (parse_json line)) (\<lambda>v.
     bindR (ok_or (protocol_error ''rg JSON event has no type'') (Option.bind (json_get ''type'' v) json_str)) (\<lambda>event.
     if event \<in> {''begin'', ''end'', ''summary''} then Inr None
     else if event = ''match'' then Inr (Some v)
     else Inl (protocol_error ''rg JSON event type is unknown'')))"

definition strip_line_feed :: "string \<Rightarrow> string" where
  "strip_line_feed content = (if content \<noteq> [] \<and> last content = LF then butlast content else content)"

definition rg_match ::
  "(string \<Rightarrow> string) \<Rightarrow> (string \<Rightarrow> string option) \<Rightarrow> string \<Rightarrow> string \<Rightarrow> json \<Rightarrow> search_match bridge_result" where
  "rg_match base64 unbase64 root display v =
     bindR (ok_or (protocol_error ''rg match has no data'') (json_get ''data'' v)) (\<lambda>data.
     bindR (ok_or (protocol_error ''rg match has no path'') (json_get ''path'' data)) (\<lambda>path.
     bindR (json_bytes unbase64 path) (\<lambda>pinned.
     bindR (logical_from_pinned root pinned) (\<lambda>actual.
     bindR (search_relative display actual) (\<lambda>relative.
     bindR (ok_or (protocol_error ''rg match has no lines'') (json_get ''lines'' data)) (\<lambda>lines.
     bindR (json_bytes unbase64 lines) (\<lambda>content.
     bindR (ok_or (protocol_error ''rg match line is invalid'')
              (Option.bind (json_get ''line_number'' data) json_u64)) (\<lambda>line.
     bindR (ok_or (protocol_error ''rg match column is invalid'')
              (Option.bind (json_get ''submatches'' data) (\<lambda>a.
               Option.bind (json_first a) (\<lambda>f.
               Option.bind (json_get ''start'' f) (\<lambda>s.
               Option.bind (json_u64 s) (\<lambda>n. checked_add n 1)))))) (\<lambda>column.
       Inr (search_match_of base64 actual relative line column (strip_line_feed content)))))))))))"

function parse_rg_loop ::
  "(string \<Rightarrow> string) \<Rightarrow> (string \<Rightarrow> string option) \<Rightarrow> (string \<Rightarrow> json option) \<Rightarrow> string \<Rightarrow> string \<Rightarrow> bool \<Rightarrow> nat
     \<Rightarrow> nat \<Rightarrow> nat \<Rightarrow> search_match list \<times> bool \<Rightarrow> spool_cursor \<Rightarrow> (search_match list \<times> bool) bridge_result" where
  "parse_rg_loop base64 unbase64 parse_json root display capped retain limit completed result c =
     (case read_line capped c limit of
        (Inl e, c1) \<Rightarrow> Inl e
      | (Inr None, c1) \<Rightarrow> finish_events capped completed result c1
      | (Inr (Some line), c1) \<Rightarrow>
          bindR (rg_event parse_json line) (\<lambda>event.
          case event of
            None \<Rightarrow>
              parse_rg_loop base64 unbase64 parse_json root display capped retain limit completed result c1
          | Some v \<Rightarrow>
              bindR (rg_match base64 unbase64 root display v) (\<lambda>m.
                parse_rg_loop base64 unbase64 parse_json root display capped retain limit (completed + 1)
                  (retain_match retain m result) c1)))"
  by pat_completeness auto
termination
  by (relation "measure (\<lambda>(_, _, _, _, _, _, _, _, _, _, c). cursor_left c)") (auto dest!: read_line_left [OF sym])

declare parse_rg_loop.simps [simp del]

definition parse_rg ::
  "(string \<Rightarrow> string) \<Rightarrow> (string \<Rightarrow> string option) \<Rightarrow> (string \<Rightarrow> json option) \<Rightarrow> string \<Rightarrow> string \<Rightarrow> bool \<Rightarrow> nat
     \<Rightarrow> nat \<Rightarrow> spool_cursor \<Rightarrow> (search_match list \<times> bool) bridge_result" where
  "parse_rg base64 unbase64 parse_json root display capped retain limit c =
     parse_rg_loop base64 unbase64 parse_json root display capped retain limit 0 ([], False) c"

end
