(* ===== verification/Search_Parsed.thy ===== *)
theory Search_Parsed
  imports Search_Parse
begin

text \<open>
  What the parsers of a search read: the bridge gets back exactly the hits that the engine printed in full, wherever
  the output was cut, and a pinned path names what it was pinned from.
\<close>

section \<open>One field, one line\<close>

lemma read_field_flat:
  "cursor_ok c \<Longrightarrow> next_agrees c (read_field capped c limit)
     (flat_next NUL limit ''protocol record is not NUL terminated'' capped [] (pending c))"
  by (auto simp: read_field_def next_field_def next_field_capped_def intro!: next_delimited_flat
      dest: cursor_pending_bound)

lemma read_line_flat:
  "cursor_ok c \<Longrightarrow> next_agrees c (read_line capped c limit)
     (flat_next LF limit ''protocol line is not newline terminated'' capped [] (pending c))"
  by (auto simp: read_line_def next_line_def next_line_capped_def intro!: next_delimited_flat
      dest: cursor_pending_bound)

lemma flat_next_hit:
  assumes "d \<notin> set f" and "length f \<le> limit"
  shows "flat_next d limit e capped [] (f @ d # s) = (Inr (Some f), s)"
proof -
  have "position (\<lambda>b. b = d) (f @ d # s) = Some (length f)"
    using assms(1) by (intro position_append_hit) auto
  then show ?thesis using assms(2) by (simp add: flat_next_def)
qed

lemma flat_next_miss:
  assumes "d \<notin> set s" and "length s \<le> limit" and "capped \<or> s = []"
  shows "flat_next d limit e capped [] s = (Inr None, [])"
proof -
  have "position (\<lambda>b. b = d) s = None" using assms(1) by (auto simp: position_eq_None)
  then show ?thesis using assms(2,3) by (auto simp: flat_next_def)
qed

text \<open>The mark of a discarded record is set exactly when the last record was begun and not finished.\<close>

lemma next_delimited_discarded:
  "cursor_ok c \<Longrightarrow> next_delimited c d maximum incomplete discard rec = (Inr r, c') \<Longrightarrow>
   sc_discarded_incomplete c' \<longleftrightarrow> sc_discarded_incomplete c \<or> r = None \<and> (rec \<noteq> [] \<or> pending c \<noteq> [])"
proof (induction c d maximum incomplete discard rec rule: next_delimited.induct)
  case (1 c d maximum incomplete discard rec)
  note step = next_delimited.simps [of c d maximum incomplete discard rec]
  show ?case
  proof (cases "sc_page_index c = length (sc_page c)")
    case drained: True
    show ?thesis
    proof (cases "sc_offset c = cursor_length c")
      case True
      have "pending c = []" by (rule pending_end [OF "1.prems"(1) drained True])
      then show ?thesis using "1.prems"(2) True drained by (auto simp: step split: if_splits)
    next
      case False
      from page_read_exists [OF "1.prems"(1) False] obtain page where
        page: "internal_read (sc_output c) (sc_stream c) (sc_offset c) CURSOR_PAGE_BYTES = Inr page"
          "op_bytes page \<noteq> []" .
      note loaded = load_page_ok [OF "1.prems"(1) drained page(1)]
      have "next_delimited (load_page c page) d maximum incomplete discard rec = (Inr r, c')"
        using "1.prems"(2) drained False page by (simp add: step load_page_def)
      with "1.IH"(1) [OF drained False page(1)] page(2) loaded show ?thesis by (simp add: load_page_def)
    qed
  next
    case False
    let ?rem = "drop (sc_page_index c) (sc_page c)"
    show ?thesis
    proof (cases "position (\<lambda>b. b = d) ?rem")
      case (Some i)
      with "1.prems"(2) False show ?thesis by (auto simp: step Let_def split: sum.splits)
    next
      case None
      with "1.prems"(2) False obtain rec' where ext: "extend_record rec ?rem maximum = Inr rec'"
        by (auto simp: step Let_def split: sum.splits)
      let ?c = "c\<lparr>sc_page_index := length (sc_page c)\<rparr>"
      have run: "next_delimited ?c d maximum incomplete discard rec' = (Inr r, c')"
        using "1.prems"(2) False None ext by (simp add: step Let_def)
      have ok: "cursor_ok ?c" using "1.prems"(1) cursor_ok_advance by auto
      have some: "?rem \<noteq> []" using False "1.prems"(1) by (auto simp: cursor_ok_def)
      then have "rec' \<noteq> []" "pending c \<noteq> []" using ext
        by (auto simp: extend_record_def pending_def bindR_eq_Inr ok_or_eq_Inr split: if_splits)
      with "1.IH"(2) [OF False refl None ext ok run] show ?thesis by simp
    qed
  qed
qed

lemma read_discarded:
  "cursor_ok c \<Longrightarrow> read_field capped c limit = (Inr r, c') \<Longrightarrow>
     sc_discarded_incomplete c' \<longleftrightarrow> sc_discarded_incomplete c \<or> r = None \<and> pending c \<noteq> []"
  "cursor_ok c \<Longrightarrow> read_line capped c limit = (Inr r, c') \<Longrightarrow>
     sc_discarded_incomplete c' \<longleftrightarrow> sc_discarded_incomplete c \<or> r = None \<and> pending c \<noteq> []"
  by (auto simp: read_field_def next_field_def next_field_capped_def read_line_def next_line_def next_line_capped_def
      dest: next_delimited_discarded split: if_splits)

lemma read_field_hit:
  assumes "cursor_ok c" "pending c = f @ NUL # s" "NUL \<notin> set f" "length f \<le> limit"
  obtains c' where "read_field capped c limit = (Inr (Some f), c')" "pending c' = s" "cursor_ok c'"
  using read_field_flat [OF assms(1), of capped limit] flat_next_hit [OF assms(3,4)] assms(2) that
  by (cases "read_field capped c limit") (auto simp: next_agrees_def)

lemma read_line_hit:
  assumes "cursor_ok c" "pending c = f @ LF # s" "LF \<notin> set f" "length f \<le> limit"
  obtains c' where "read_line capped c limit = (Inr (Some f), c')" "pending c' = s" "cursor_ok c'"
  using read_line_flat [OF assms(1), of capped limit] flat_next_hit [OF assms(3,4)] assms(2) that
  by (cases "read_line capped c limit") (auto simp: next_agrees_def)

lemma read_field_miss:
  assumes "cursor_ok c" "NUL \<notin> set (pending c)" "length (pending c) \<le> limit" "capped \<or> pending c = []"
  obtains c' where "read_field capped c limit = (Inr None, c')"
  using read_field_flat [OF assms(1), of capped limit] flat_next_miss [OF assms(2-4)] that
  by (cases "read_field capped c limit") (auto simp: next_agrees_def)

lemma read_line_miss:
  assumes "cursor_ok c" "LF \<notin> set (pending c)" "length (pending c) \<le> limit" "capped \<or> pending c = []"
  obtains c' where "read_line capped c limit = (Inr None, c')"
  using read_line_flat [OF assms(1), of capped limit] flat_next_miss [OF assms(2-4)] that
  by (cases "read_line capped c limit") (auto simp: next_agrees_def)

section \<open>Pinned paths\<close>

definition normal_relative :: "string \<Rightarrow> bool" where
  "normal_relative p \<longleftrightarrow> p \<noteq> [] \<and> list_all (\<lambda>q. q \<noteq> [] \<and> q \<noteq> ''.'' \<and> q \<noteq> ''..'') (split_on (CHR ''/'') p)"

definition below :: "string \<Rightarrow> string \<Rightarrow> string" where
  "below root p = root @ (if strip_suffix ''/'' root = None then ''/'' else []) @ p"

lemma pinned_relative_Inr: "pinned_relative pinned = Inr p \<longleftrightarrow> pinned = ''./'' @ p \<and> normal_relative p"
proof -
  have neg: "list_ex (\<lambda>p. p = [] \<or> p = ''.'' \<or> p = ''..'') xs \<longleftrightarrow>
      \<not> list_all (\<lambda>q. q \<noteq> [] \<and> q \<noteq> ''.'' \<and> q \<noteq> ''..'') xs" for xs :: "string list"
    by (induction xs) auto
  show ?thesis
  proof (cases "strip_prefix ''./'' pinned")
    case None
    then have "pinned \<noteq> ''./'' @ p" for p by (auto simp only: strip_prefix_append option.distinct)
    then show ?thesis unfolding pinned_relative_def None by simp
  next
    case (Some r)
    then have pinned: "pinned = ''./'' @ r" by (simp only: strip_prefix_eq_Some)
    show ?thesis unfolding pinned_relative_def Some neg unfolding pinned normal_relative_def by auto
  qed
qed

lemma logical_from_pinned_Inr:
  "logical_from_pinned root pinned = Inr actual \<longleftrightarrow>
     pinned = ''.'' \<and> actual = root \<or> (\<exists>p. pinned = ''./'' @ p \<and> normal_relative p \<and> actual = below root p)"
  by (auto simp: logical_from_pinned_def pinned_relative_Inr result_simps below_def)

lemma logical_from_pinned_below:
  "normal_relative p \<Longrightarrow> logical_from_pinned root (''./'' @ p) = Inr (below root p)"
  by (auto simp: logical_from_pinned_Inr)

section \<open>The records of grep\<close>

record grep_hit =
  gh_path :: string
  gh_line :: nat
  gh_content :: string

definition hit_line :: "grep_hit \<Rightarrow> string" where
  "hit_line h = decimal (gh_line h) @ '':'' @ gh_content h"

text \<open>\<open>grep -nZ\<close>.\<close>

definition grep_line :: "grep_hit \<Rightarrow> string" where
  "grep_line h = (''./'' @ gh_path h) @ NUL # hit_line h @ [LF]"

definition hit_ok :: "string \<Rightarrow> string \<Rightarrow> string \<Rightarrow> nat \<Rightarrow> grep_hit \<Rightarrow> bool" where
  "hit_ok root display query limit h \<longleftrightarrow>
     normal_relative (gh_path h) \<and> NUL \<notin> set (gh_path h) \<and> LF \<notin> set (gh_content h) \<and>
     gh_line h \<le> u64_max \<and> length (gh_content h) < u64_max \<and> find_bytes (gh_content h) query \<noteq> None \<and>
     is_ok (search_relative display (below root (gh_path h))) \<and>
     length (gh_path h) + 2 \<le> limit \<and> length (hit_line h) \<le> limit"

definition hit_relative :: "string \<Rightarrow> string \<Rightarrow> grep_hit \<Rightarrow> string" where
  "hit_relative root display h =
     (case search_relative display (below root (gh_path h)) of Inr r \<Rightarrow> r | Inl _ \<Rightarrow> [])"

definition hit_match :: "(string \<Rightarrow> string) \<Rightarrow> string \<Rightarrow> string \<Rightarrow> string \<Rightarrow> grep_hit \<Rightarrow> search_match" where
  "hit_match base64 root display query h =
     search_match_of base64 (below root (gh_path h)) (hit_relative root display h) (gh_line h)
       (case find_bytes (gh_content h) query of Some v \<Rightarrow> v + 1 | None \<Rightarrow> 0) (gh_content h)"

lemma find_bytes_bound: "find_bytes s q = Some v \<Longrightarrow> v \<le> length s"
  by (induction s q arbitrary: v rule: find_bytes.induct) (auto split: if_splits)

text \<open>What is found is the query, and it is not found before.\<close>

lemma find_bytes_first:
  "find_bytes s q = Some v \<Longrightarrow> starts_with q (drop v s) \<and> (\<forall>u < v. \<not> starts_with q (drop u s))"
proof (induction s q arbitrary: v rule: find_bytes.induct)
  case (2 c s q)
  show ?case
  proof (cases "starts_with q (c # s)")
    case True
    with 2 show ?thesis by simp
  next
    case False
    with "2.prems" obtain w where w: "find_bytes s q = Some w" "v = Suc w" by auto
    have "\<not> starts_with q (drop u (c # s))" if "u < v" for u
      using "2.IH" [OF False w(1)] False that w(2) by (cases u) auto
    with "2.IH" [OF False w(1)] w(2) show ?thesis by simp
  qed
qed (auto simp: starts_with_def split: if_splits)

lemma grep_record_hit:
  assumes "hit_ok root display query limit h" and "find_bytes (gh_content h) query = Some v"
  shows "grep_record query (hit_line h) = Inr (gh_line h, v + 1, gh_content h)"
proof -
  have digits: "list_all is_ascii_digit (decimal (gh_line h))" by (rule decimal_digits)
  then have "CHR '':'' \<notin> set (decimal (gh_line h))"
    by (auto simp: list_all_iff is_ascii_digit_def byte_def)
  then have pos: "position (\<lambda>b. b = CHR '':'') (hit_line h) = Some (length (decimal (gh_line h)))"
    unfolding hit_line_def by (auto intro!: position_append_hit)
  have line: "parse_unsigned u64_max (decimal (gh_line h)) = Some (gh_line h)"
    using assms(1) by (simp add: parse_decimal_roundtrip hit_ok_def)
  have "valid_utf8 (decimal (gh_line h))"
    using parse_u64_decimal [of "gh_line h"] assms(1)
    by (auto simp: hit_ok_def parse_u64_def utf8_def split: if_splits)
  moreover have "v + 1 \<le> u64_max" using find_bytes_bound [OF assms(2)] assms(1) by (simp add: hit_ok_def)
  ultimately show ?thesis using pos line assms(2) by (simp add: grep_record_def hit_line_def)
qed

lemma hit_line_no_LF: "hit_ok root display query limit h \<Longrightarrow> LF \<notin> set (hit_line h)"
  by (auto simp: hit_line_def hit_ok_def is_ascii_digit_def byte_def dest!: decimal_set)

text \<open>The hits printed in full within the first \<open>n\<close> bytes.\<close>

fun whole_hits :: "nat \<Rightarrow> grep_hit list \<Rightarrow> grep_hit list" where
  "whole_hits n [] = []"
| "whole_hits n (h # hs) =
     (if length (grep_line h) \<le> n then h # whole_hits (n - length (grep_line h)) hs else [])"

definition retain_hit ::
  "(string \<Rightarrow> string) \<Rightarrow> string \<Rightarrow> string \<Rightarrow> string \<Rightarrow> nat \<Rightarrow> (string \<Rightarrow> bool) \<Rightarrow> grep_hit
     \<Rightarrow> search_match list \<times> bool \<Rightarrow> search_match list \<times> bool" where
  "retain_hit base64 root display query retain keep h result =
     (if keep (hit_relative root display h) then retain_match retain (hit_match base64 root display query h) result
      else result)"

lemma parse_grep_step_hit:
  assumes ok: "hit_ok root display query limit h" and c: "cursor_ok c" "pending c = grep_line h @ s"
  obtains c' where "cursor_ok c'" "pending c' = s" "sc_discarded_incomplete c' = sc_discarded_incomplete c"
    "parse_grep_loop base64 root display query capped retain limit keep completed result c =
       parse_grep_loop base64 root display query capped retain limit keep (completed + 1)
         (retain_hit base64 root display query retain keep h result) c'"
proof -
  have path: "normal_relative (gh_path h)" "NUL \<notin> set (''./'' @ gh_path h)" "length (''./'' @ gh_path h) \<le> limit"
    and line: "length (hit_line h) \<le> limit"
    using ok by (simp_all add: hit_ok_def)
  have "pending c = (''./'' @ gh_path h) @ NUL # (hit_line h @ LF # s)" using c(2) by (simp add: grep_line_def)
  then obtain c1 where c1: "read_field capped c limit = (Inr (Some (''./'' @ gh_path h)), c1)"
    "pending c1 = hit_line h @ LF # s" "cursor_ok c1"
    using read_field_hit [OF c(1) _ path(2,3)] by metis
  obtain c2 where c2: "read_line capped c1 limit = (Inr (Some (hit_line h)), c2)" "pending c2 = s" "cursor_ok c2"
    using read_line_hit [OF c1(3,2) hit_line_no_LF [OF ok] line] by metis
  obtain v where v: "find_bytes (gh_content h) query = Some v" using ok by (auto simp: hit_ok_def)
  obtain rel where rel: "search_relative display (below root (gh_path h)) = Inr rel"
    using ok by (auto simp: hit_ok_def is_ok_iff)
  have "retain_hit base64 root display query retain keep h result = (if keep rel then
      retain_match retain (search_match_of base64 (below root (gh_path h)) rel (gh_line h) (v + 1) (gh_content h)) result
      else result)"
    by (simp add: retain_hit_def hit_match_def hit_relative_def rel v)
  then have "parse_grep_loop base64 root display query capped retain limit keep completed result c =
       parse_grep_loop base64 root display query capped retain limit keep (completed + 1)
         (retain_hit base64 root display query retain keep h result) c2"
    using c1(1) c2(1) logical_from_pinned_below [OF path(1), of root] grep_record_hit [OF ok v] rel
    by (subst parse_grep_loop.simps) simp
  moreover have "sc_discarded_incomplete c2 = sc_discarded_incomplete c"
    using read_discarded(1) [OF c(1) c1(1)] read_discarded(2) [OF c1(3) c2(1)] by simp
  ultimately show thesis using that [OF c2(3,2)] by blast
qed

text \<open>The output ends within the first hit: after some of its path, or after some of its line.\<close>

fun torn_first :: "nat \<Rightarrow> grep_hit list \<Rightarrow> bool" where
  "torn_first n [] \<longleftrightarrow> False"
| "torn_first n (h # hs) \<longleftrightarrow> 0 < n \<and> n < length (grep_line h) \<and> n \<noteq> length (gh_path h) + 3"

text \<open>A record cut somewhere ends the loop.  Without a record before it, that is an error, but for a cut between a path and
  its line, which leaves no part of a record behind.\<close>

lemma parse_grep_step_cut:
  assumes ok: "hit_ok root display query limit h" and c: "cursor_ok c" "pending c = take n (grep_line h)"
    and n: "n < length (grep_line h)" and fresh: "\<not> sc_discarded_incomplete c"
  shows "parse_grep_loop base64 root display query True retain limit keep completed result c =
    (if completed = 0 \<and> torn_first n (h # hs) then Inl (protocol_error ''search event is oversized'') else Inr result)"
proof -
  define f where "f = ''./'' @ gh_path h"
  have path: "normal_relative (gh_path h)" "NUL \<notin> set f" "length f \<le> limit"
    and line: "length (hit_line h) \<le> limit"
    using ok by (simp_all add: hit_ok_def f_def)
  have gl: "grep_line h = f @ NUL # hit_line h @ [LF]" and len: "length f = length (gh_path h) + 2"
    by (simp_all add: grep_line_def f_def)
  have logical: "logical_from_pinned root f = Inr (below root (gh_path h))"
    unfolding f_def by (rule logical_from_pinned_below [OF path(1)])
  show ?thesis
  proof (cases "n \<le> length f")
    case True
    then have t: "pending c = take n f" using c(2) gl by simp
    then have "NUL \<notin> set (pending c)" "length (pending c) \<le> limit"
      using path(2,3) by (auto dest: in_set_takeD simp: min_def)
    then obtain c' where c': "read_field True c limit = (Inr None, c')" using read_field_miss [OF c(1)] by metis
    have "sc_discarded_incomplete c' \<longleftrightarrow> 0 < n"
      using read_discarded(1) [OF c(1) c'] fresh t len by auto
    then show ?thesis using c' True n len by (subst parse_grep_loop.simps) (simp add: finish_events_def)
  next
    case False
    define m where "m = n - length f - 1"
    have nm: "n = length f + Suc m" "m \<le> length (hit_line h)" using n False by (simp_all add: gl m_def)
    then have t: "pending c = f @ NUL # take m (hit_line h)" unfolding c(2) gl by simp
    obtain c1 where c1: "read_field True c limit = (Inr (Some f), c1)" "pending c1 = take m (hit_line h)" "cursor_ok c1"
      using read_field_hit [OF c(1) t path(2,3)] by metis
    have "LF \<notin> set (pending c1)" "length (pending c1) \<le> limit"
      using c1(2) hit_line_no_LF [OF ok] line by (auto dest: in_set_takeD simp: min_def)
    then obtain c2 where c2: "read_line True c1 limit = (Inr None, c2)" using read_line_miss [OF c1(3)] by metis
    have "hit_line h \<noteq> []" by (simp add: hit_line_def)
    then have "sc_discarded_incomplete c2 \<longleftrightarrow> m \<noteq> 0"
      using read_discarded(1) [OF c(1) c1(1)] read_discarded(2) [OF c1(3) c2] fresh c1(2) by simp
    then show ?thesis using c1(1) c2 logical n nm len
      by (subst parse_grep_loop.simps) (simp add: finish_events_def)
  qed
qed

lemma parse_grep_hits:
  assumes "\<forall>h \<in> set hits. hit_ok root display query limit h"
  shows "cursor_ok c \<Longrightarrow> pending c = take n (concat (map grep_line hits)) \<Longrightarrow>
    capped \<or> length (concat (map grep_line hits)) \<le> n \<Longrightarrow> \<not> sc_discarded_incomplete c \<Longrightarrow>
    parse_grep_loop base64 root display query capped retain limit keep completed result c =
      (if capped \<and> completed = 0 \<and> torn_first n hits then Inl (protocol_error ''search event is oversized'')
       else Inr (fold (retain_hit base64 root display query retain keep) (whole_hits n hits) result))"
  using assms
proof (induction hits arbitrary: c n completed result)
  case Nil
  then have "pending c = []" by simp
  then obtain c' where c': "read_field capped c limit = (Inr None, c')"
    using read_field_miss [OF Nil.prems(1), of limit capped] by auto
  have "\<not> sc_discarded_incomplete c'"
    using read_discarded(1) [OF Nil.prems(1) c'] Nil.prems(4) \<open>pending c = []\<close> by simp
  with c' show ?case by (subst parse_grep_loop.simps) (auto simp: finish_events_def)
next
  case (Cons h hs)
  have ok: "hit_ok root display query limit h" using Cons.prems(5) by simp
  show ?case
  proof (cases "length (grep_line h) \<le> n")
    case True
    let ?n = "n - length (grep_line h)"
    have "pending c = grep_line h @ take ?n (concat (map grep_line hs))" using Cons.prems(2) True by simp
    from parse_grep_step_hit [OF ok Cons.prems(1) this, of base64 capped retain keep completed result]
    obtain c' where c': "cursor_ok c'" "pending c' = take ?n (concat (map grep_line hs))"
      and fresh: "\<not> sc_discarded_incomplete c'"
      and step: "parse_grep_loop base64 root display query capped retain limit keep completed result c =
       parse_grep_loop base64 root display query capped retain limit keep (completed + 1)
         (retain_hit base64 root display query retain keep h result) c'" using Cons.prems(4) by metis
    have "capped \<or> length (concat (map grep_line hs)) \<le> ?n" using Cons.prems(3) True by auto
    from Cons.IH [OF c' this fresh, of "completed + 1"] show ?thesis using Cons.prems(5) True step by simp
  next
    case False
    then have capped: "capped" and n: "n < length (grep_line h)" using Cons.prems(3) by auto
    have cut: "pending c = take n (grep_line h)" using Cons.prems(2) False by simp
    have "fold (retain_hit base64 root display query retain keep) (whole_hits n (h # hs)) result = result"
      using False by simp
    then show ?thesis
      using parse_grep_step_cut [OF ok Cons.prems(1) cut n Cons.prems(4), of base64 retain keep completed result hs] capped
      by simp
  qed
qed

lemma fold_retain_hit:
  "length ms \<le> retain \<Longrightarrow>
   fold (retain_hit base64 root display query retain keep) hits (ms, beyond) =
     (let new = map (hit_match base64 root display query) (filter (\<lambda>h. keep (hit_relative root display h)) hits) in
      (take retain (ms @ new), beyond \<or> retain < length (ms @ new)))"
proof (induction hits arbitrary: ms beyond)
  case (Cons h hs)
  show ?case
  proof (cases "keep (hit_relative root display h)")
    case True
    show ?thesis
    proof (cases "length ms < retain")
      case lt: True
      then show ?thesis using Cons.IH [of "ms @ [hit_match base64 root display query h]" beyond] True
        by (simp add: retain_hit_def retain_match_def Let_def)
    next
      case False
      then show ?thesis using Cons.IH [of ms True] Cons.prems True
        by (simp add: retain_hit_def retain_match_def Let_def)
    qed
  next
    case False
    then show ?thesis using Cons by (simp add: retain_hit_def)
  qed
qed (simp add: Let_def)

text \<open>The output of \<open>grep\<close> cut at its limit, wherever that falls: the hits printed in full are read back with their
  paths, line numbers, contents and the column at which the query begins first; as many as asked for are kept and
  more are noticed; the record that was cut is dropped, and is an error when it is the first.\<close>

theorem grep_output_read_back:
  assumes "cursor_new out Stdout_Stream maximum = Inr c" and "stream_ok out Stdout_Stream"
    and "stream_content out Stdout_Stream = take n (concat (map grep_line hits))"
    and "\<forall>h \<in> set hits. hit_ok root display query limit h"
    and "capped \<or> length (concat (map grep_line hits)) \<le> n"
  shows "parse_grep_records base64 root display query capped retain limit keep c =
    (if capped \<and> torn_first n hits then Inl (protocol_error ''search event is oversized'')
     else
       let found = map (hit_match base64 root display query)
         (filter (\<lambda>h. keep (hit_relative root display h)) (whole_hits n hits)) in
       Inr (take retain found, retain < length found))"
proof -
  have c: "cursor_ok c" "pending c = take n (concat (map grep_line hits))"
    using pending_new [OF assms(1,2)] assms(3) by simp_all
  have fresh: "\<not> sc_discarded_incomplete c"
    using assms(1) by (auto simp: cursor_new_def split: if_splits)
  have "parse_grep_records base64 root display query capped retain limit keep c =
      (if capped \<and> torn_first n hits then Inl (protocol_error ''search event is oversized'')
       else Inr (fold (retain_hit base64 root display query retain keep) (whole_hits n hits) ([], False)))"
    unfolding parse_grep_records_def parse_grep_hits [OF assms(4) c assms(5) fresh] by simp
  then show ?thesis by (simp add: fold_retain_hit Let_def)
qed

end
