(* ===== verification/Search_Operation.thy ===== *)
theory Search_Operation
  imports Search_Parse Remote_Snapshot "HOL-Library.List_Lexorder" "HOL-Library.Char_ord" "HOL-Library.Product_Lexorder"
begin

text \<open>
  The search operation of the bridge (\<open>resolve_search\<close> in \<open>src/remote/mod.rs\<close>, \<open>search\<close> and
  \<open>search_complete_grep_tree\<close> in \<open>src/remote/search.rs\<close>): the checks of a request, the native search of the
  helper when there is one, and otherwise one fixed operation that lists candidates and one that searches them.  The scripts, the
  native search, the glob compiler and the JSON parser are parameters.
\<close>

section \<open>Requests\<close>

definition DEFAULT_SEARCH_RESULTS :: nat where "DEFAULT_SEARCH_RESULTS = 100"
definition MAX_SEARCH_RESULTS :: nat where "MAX_SEARCH_RESULTS = 10000"
definition MAX_QUERY_BYTES :: nat where "MAX_QUERY_BYTES = 64 * 1024"
definition MAX_GLOBS :: nat where "MAX_GLOBS = 128"
definition MAX_GLOB_BYTES :: nat where "MAX_GLOB_BYTES = 4 * 1024"
definition MAX_SEARCH_CANDIDATE_BYTES :: nat where "MAX_SEARCH_CANDIDATE_BYTES = 128 * 1024"
definition MAX_SEARCH_OPERATION_TIMEOUT_MS :: nat where "MAX_SEARCH_OPERATION_TIMEOUT_MS = 30000"

record search_input =
  si_host :: string
  si_query :: string
  si_path :: "string option"
  si_globs :: "string list"
  si_max_results :: "nat option"
  si_binary :: "bool option"

record resolved_search =
  rv_host :: string
  rv_query :: string
  rv_path :: string
  rv_globs :: "string list"
  rv_max_results :: nat
  rv_binary :: bool

definition frame_too_large :: bridge_error where
  "frame_too_large = new_error RequestTooLarge ''request exceeds the configured frame limit'' False"

definition absolute_path_required :: bridge_error where
  "absolute_path_required =
     new_error RemoteAbsolutePathRequired ''remote path or cwd must be provided as an absolute path'' False"

definition validate_input_path :: "string \<Rightarrow> unit bridge_result" where
  "validate_input_path path =
     (if MAX_INPUT_PATH_BYTES < length path then Inl frame_too_large
      else if NUL \<in> set path then Inl (invalid_argument ''NUL is not valid in a remote path'')
      else Inr ())"

definition validate_glob :: "(string \<Rightarrow> bool) \<Rightarrow> string \<Rightarrow> unit bridge_result" where
  "validate_glob glob_ok glob =
     (if glob = [] \<or> MAX_GLOB_BYTES < length glob then
        Inl (if MAX_GLOB_BYTES < length glob then frame_too_large
             else invalid_argument ''search glob must not be empty'')
      else if NUL \<in> set glob \<or> starts_with ''/'' glob \<or> starts_with ''!'' glob \<or>
              list_ex (\<lambda>p. p = ''..'') (split_on (CHR ''/'') glob) then
        Inl (invalid_argument ''search glob must be a positive root-relative pattern'')
      else if glob_ok glob then Inr () else Inl (invalid_argument ''search glob is invalid''))"

fun sum_lengths :: "nat \<Rightarrow> nat list \<Rightarrow> nat bridge_result" where
  "sum_lengths acc [] = Inr acc"
| "sum_lengths acc (n # ns) = bindR (ok_or frame_too_large (checked_add acc n)) (\<lambda>s. sum_lengths s ns)"

definition validate_frame :: "effective_limits \<Rightarrow> nat list \<Rightarrow> unit bridge_result" where
  "validate_frame limits lengths =
     bindR (sum_lengths 0 lengths) (\<lambda>s. if lim_max_frame_bytes limits < s then Inl frame_too_large else Inr ())"

definition resolve_search :: "(string \<Rightarrow> bool) \<Rightarrow> bridge_config \<Rightarrow> search_input \<Rightarrow> resolved_search bridge_result" where
  "resolve_search glob_ok config request =
     bindR (require_discovered_alias config (si_host request)) (\<lambda>_.
     if si_query request = [] \<or> NUL \<in> set (si_query request) \<or> CHR 0x0D \<in> set (si_query request) \<or>
        LF \<in> set (si_query request) then
       Inl (invalid_argument ''search query must be non-empty and single-line'')
     else if MAX_QUERY_BYTES < length (si_query request) then Inl frame_too_large
     else if MAX_GLOBS < length (si_globs request) then
       Inl (invalid_argument ''search accepts at most 128 globs'')
     else
       bindR (collectR (validate_glob glob_ok) (si_globs request)) (\<lambda>_.
       bindR (ok_or absolute_path_required (si_path request)) (\<lambda>requested.
       bindR (validate_input_path requested) (\<lambda>_.
       bindR (absolute requested) (\<lambda>path.
       let max_results = (case si_max_results request of None \<Rightarrow> DEFAULT_SEARCH_RESULTS | Some n \<Rightarrow> n) in
       if max_results < 1 \<or> MAX_SEARCH_RESULTS < max_results then
         Inl (invalid_argument ''search max_results must be between 1 and 10000'')
       else
         bindR (validate_frame (config_limits config)
                  (length (si_query request) # length (rp_absolute path) # map (\<lambda>g. length g + 1) (si_globs request))) (\<lambda>_.
         Inr \<lparr>rv_host = si_host request, rv_query = si_query request, rv_path = rp_absolute path,
              rv_globs = si_globs request, rv_max_results = max_results,
              rv_binary = (case si_binary request of None \<Rightarrow> False | Some b \<Rightarrow> b)\<rparr>))))))"

section \<open>Results\<close>

datatype search_engine = Engine_Native | Engine_Rg | Engine_Grep

record search_result =
  sx_context :: remote_context
  sx_engine :: search_engine
  sx_matches :: "search_match list"
  sx_truncated :: bool

definition decoded_path :: "(string \<Rightarrow> string option) \<Rightarrow> encoded_value \<Rightarrow> string" where
  "decoded_path unbase64 v =
     (case ev_encoding v of
        Encoding_Utf8 \<Rightarrow> ev_value v
      | Encoding_Base64 \<Rightarrow> (case unbase64 (ev_value v) of Some bytes \<Rightarrow> bytes | None \<Rightarrow> []))"

definition match_key :: "(string \<Rightarrow> string option) \<Rightarrow> search_match \<Rightarrow> string \<times> nat \<times> nat" where
  "match_key unbase64 m = (decoded_path unbase64 (sr_relative_path m), sr_line m, sr_column m)"

definition sort_matches :: "(string \<Rightarrow> string option) \<Rightarrow> search_match list \<Rightarrow> search_match list" where
  "sort_matches unbase64 matches = sort_key (match_key unbase64) matches"

text \<open>Sorting, and telling whether anything is left out.\<close>

definition rank_matches ::
  "(string \<Rightarrow> string option) \<Rightarrow> nat \<Rightarrow> bool \<Rightarrow> search_match list \<times> bool \<Rightarrow> search_match list \<times> bool" where
  "rank_matches unbase64 max_results truncated found =
     (case found of (matches, lookahead) \<Rightarrow>
        (take max_results (sort_matches unbase64 matches),
         truncated \<or> lookahead \<or> max_results < length matches))"

section \<open>What the operation uses\<close>

record native_search_request =
  nq_host :: string
  nq_root :: string
  nq_query :: string
  nq_globs :: "string list"
  nq_max_results :: nat
  nq_binary :: bool
  nq_timeout_ms :: nat
  nq_stdout_limit :: nat

record native_search_result =
  ns_capability :: capability
  ns_shell :: shell_selection
  ns_helper_mode :: helper_mode
  ns_output :: string

record 'r search_bridge =
  sb_bridge :: "'r bridge"
  sb_native :: "'r \<Rightarrow> native_search_request \<Rightarrow> native_search_result option bridge_result \<times> 'r"
  sb_candidate_script :: string
  sb_rg_script :: string
  sb_grep_script :: string
  sb_grep_tree_script :: string
  sb_glob_ok :: "string \<Rightarrow> bool"
  sb_glob_match :: "string list \<Rightarrow> string \<Rightarrow> bool"
  sb_json :: "string \<Rightarrow> json option"

definition search_limits :: "'r search_bridge \<Rightarrow> effective_limits" where
  "search_limits sb = config_limits (br_config (sb_bridge sb))"

definition search_timeout_ms :: "'r search_bridge \<Rightarrow> nat" where
  "search_timeout_ms sb = min (lim_command_timeout_ms (search_limits sb)) MAX_SEARCH_OPERATION_TIMEOUT_MS"

definition search_fixed_request ::
  "'r search_bridge \<Rightarrow> string \<Rightarrow> string \<Rightarrow> string list \<Rightarrow> string option \<Rightarrow> nat list \<Rightarrow> string list \<Rightarrow> fixed_run_request" where
  "search_fixed_request sb host script args stdin rooted tools =
     \<lparr>fr_kind = Op_ReadOnly, fr_host = host, fr_script = script, fr_args = args, fr_stdin = stdin,
      fr_rooted = \<lparr>rpi_argument_indices = rooted, rpi_argument_stride = None, rpi_stdin_nul_paths = False\<rparr>,
      fr_required = tools, fr_stdout_limit = lim_max_frame_bytes (search_limits sb) + 1,
      fr_stderr_limit = 1024, fr_timeout_ms = search_timeout_ms sb\<rparr>"

text \<open>The control record on standard error: whether the output was capped; \<open>domain\<close> maps the records for a root
  that cannot be searched.\<close>

definition CAPPED :: string where "CAPPED = ''CAPPED'' @ [NUL]"

definition root_error :: "string \<Rightarrow> string \<Rightarrow> bridge_error" where
  "root_error message stderr =
     (if stderr = ''NOT_FOUND'' @ [NUL] then not_found_error
      else if stderr = ''PERMISSION_DENIED'' @ [NUL] then permission_denied_error
      else if stderr = ''NOT_DIRECTORY'' @ [NUL] then not_directory_error
      else protocol_error message)"

definition read_control :: "(string \<Rightarrow> bridge_error) \<Rightarrow> captured_output \<Rightarrow> bool bridge_result" where
  "read_control domain out =
     bindR (read_small_stream out Stderr_Stream 1024) (\<lambda>stderr.
       if stderr = [] then Inr False else if stderr = CAPPED then Inr True else Inl (domain stderr))"

section \<open>The native search\<close>

definition native_request :: "'r search_bridge \<Rightarrow> resolved_search \<Rightarrow> native_search_request" where
  "native_request sb request =
     \<lparr>nq_host = rv_host request, nq_root = rv_path request, nq_query = rv_query request,
      nq_globs = rv_globs request, nq_max_results = saturating_add (rv_max_results request) 1,
      nq_binary = rv_binary request, nq_timeout_ms = search_timeout_ms sb,
      nq_stdout_limit = min (lim_max_output_bytes (search_limits sb)) (lim_max_frame_bytes (search_limits sb))\<rparr>"

definition native_answer ::
  "'r search_bridge \<Rightarrow> resolved_search \<Rightarrow> native_search_result \<Rightarrow> search_result bridge_result" where
  "native_answer sb request result =
     bindR (parse_native_search_records (br_base64 (sb_bridge sb)) (ns_output result) (rv_path request)
              (saturating_add (rv_max_results request) 1) 0 [] False) (\<lambda>found.
     let (matches, truncated) = rank_matches (br_unbase64 (sb_bridge sb)) (rv_max_results request) False found in
     Inr \<lparr>sx_context = mk_context (rv_host request) (cap_physical_root (ns_capability result)) (ns_shell result)
            (ns_helper_mode result),
          sx_engine = Engine_Native, sx_matches = matches, sx_truncated = truncated\<rparr>)"

section \<open>The candidates\<close>

definition MAX_CANDIDATES :: nat where "MAX_CANDIDATES = 10000"

text \<open>The candidates that match the globs, up to one more than are used, and the number of all.\<close>

function collect_candidates ::
  "(string \<Rightarrow> bool) \<Rightarrow> string \<Rightarrow> string \<Rightarrow> bool \<Rightarrow> nat \<Rightarrow> string list \<Rightarrow> nat \<Rightarrow> spool_cursor
     \<Rightarrow> (string list \<times> nat \<times> spool_cursor) bridge_result" where
  "collect_candidates keep root display capped limit candidates listed_count c =
     (case read_field capped c limit of
        (Inl e, c1) \<Rightarrow> Inl e
      | (Inr None, c1) \<Rightarrow> Inr (candidates, listed_count, c1)
      | (Inr (Some pinned), c1) \<Rightarrow>
          if pinned = [] then Inl (protocol_error ''search candidate path is empty'')
          else
            bindR (logical_from_pinned root pinned) (\<lambda>actual.
            bindR (search_relative display actual) (\<lambda>relative.
            bindR (ok_or (protocol_error ''search candidate count overflowed'') (checked_add listed_count 1)) (\<lambda>listed_count1.
              collect_candidates keep root display capped limit
                (if length candidates < MAX_CANDIDATES + 1 \<and> keep relative then candidates @ [pinned] else candidates)
                listed_count1 c1))))"
  by pat_completeness auto
termination
  by (relation "measure (\<lambda>(_, _, _, _, _, _, _, c). cursor_left c)") (auto dest!: read_field_left [OF sym])

declare collect_candidates.simps [simp del]

definition candidate_request :: "'r search_bridge \<Rightarrow> resolved_search \<Rightarrow> fixed_run_request" where
  "candidate_request sb request =
     search_fixed_request sb (rv_host request) (sb_candidate_script sb)
       [rv_path request,
        decimal (min (MAX_SEARCH_CANDIDATE_BYTES + 1) (lim_max_frame_bytes (search_limits sb) + 1))]
       None [0] [''find_nul'', ''search_bound'']"

definition request_keep :: "'r search_bridge \<Rightarrow> resolved_search \<Rightarrow> string \<Rightarrow> bool" where
  "request_keep sb request = glob_keep (sb_glob_match sb (rv_globs request)) (rv_globs request = [])"

definition compile_search_globs :: "'r search_bridge \<Rightarrow> resolved_search \<Rightarrow> unit bridge_result" where
  "compile_search_globs sb request =
     (if list_all (sb_glob_ok sb) (rv_globs request) then Inr ()
      else Inl (invalid_argument ''search glob is invalid''))"

section \<open>The search of the candidates\<close>

text \<open>As many candidates as fit the frame beside the command.\<close>

fun fill_stdin :: "nat \<Rightarrow> nat \<Rightarrow> string list \<Rightarrow> string \<Rightarrow> string \<times> bool" where
  "fill_stdin reserve maximum [] stdin = (stdin, False)"
| "fill_stdin reserve maximum (candidate # candidates) stdin =
     (case checked_add (length stdin) (length candidate + 1) of
        None \<Rightarrow> (stdin, True)
      | Some next_length \<Rightarrow>
          if maximum < next_length + reserve then (stdin, True)
          else fill_stdin reserve maximum candidates (stdin @ candidate @ [NUL]))"

definition engine_command ::
  "'r search_bridge \<Rightarrow> resolved_search \<Rightarrow> bool \<Rightarrow> string \<times> string list \<times> string list" where
  "engine_command sb request rg =
     (let limit = decimal (lim_max_frame_bytes (search_limits sb) + 1) in
      if rg then
        (sb_rg_script sb, [rv_query request, if rv_binary request then ''1'' else ''0'', limit],
         [''rg_json'', ''xargs_nul'', ''search_bound''])
      else
        (sb_grep_script sb, [rv_query request, limit], [''grep_nul'', ''xargs_nul'', ''search_bound'']))"

definition parse_engine_output ::
  "'r search_bridge \<Rightarrow> resolved_search \<Rightarrow> bool \<Rightarrow> bool \<Rightarrow> spool_cursor \<Rightarrow> (search_match list \<times> bool) bridge_result" where
  "parse_engine_output sb request rg capped c =
     (let b = sb_bridge sb; retain = saturating_add (rv_max_results request) 1;
          limit = lim_max_frame_bytes (search_limits sb) in
      if rg then
        parse_rg (br_base64 b) (br_unbase64 b) (sb_json sb) REMOTE_OPERATION_ROOT (rv_path request) capped retain limit c
      else
        parse_grep (br_base64 b) REMOTE_OPERATION_ROOT (rv_path request) (rv_query request) capped retain limit c)"

definition engine_answer ::
  "'r search_bridge \<Rightarrow> resolved_search \<Rightarrow> bool \<Rightarrow> bool \<Rightarrow> fixed_run_result \<Rightarrow> search_result bridge_result" where
  "engine_answer sb request rg truncated result =
     bindR (read_control (\<lambda>_. protocol_error ''search engine control record is invalid'') (fx_output result)) (\<lambda>capped.
     bindR (cursor_new (fx_output result) Stdout_Stream (lim_max_frame_bytes (search_limits sb) + 1)) (\<lambda>c.
     bindR (parse_engine_output sb request rg capped c) (\<lambda>found.
     let (matches, left_out) = rank_matches (br_unbase64 (sb_bridge sb)) (rv_max_results request) (truncated \<or> capped) found in
     Inr \<lparr>sx_context = result_context (rv_host request) result,
          sx_engine = (if rg then Engine_Rg else Engine_Grep), sx_matches = matches, sx_truncated = left_out\<rparr>)))"

definition search_candidates ::
  "'r search_bridge \<Rightarrow> resolved_search \<Rightarrow> fixed_run_result \<Rightarrow> bool \<Rightarrow> string list \<Rightarrow> 'r
     \<Rightarrow> search_result bridge_result \<times> 'r" where
  "search_candidates sb request listed truncated candidates r =
     (let rg = (cap_tools (fx_capability listed) ''rg_json'' = Some True);
          attach = (\<lambda>e. attach_fixed_result_context e (rv_host request) listed);
          maximum = lim_max_frame_bytes (search_limits sb) in
      if rv_binary request \<and> \<not> rg then
        (Inl (attach (new_error RemoteCapabilityMissing ''binary search requires remote rg JSON support'' False)), r)
      else
        (let (script, args, tools) = engine_command sb request rg in
         case render_fixed_command_length script args of
           Inl e \<Rightarrow> (Inl (attach e), r)
         | Inr reserve \<Rightarrow>
             if maximum \<le> reserve then
               (Inl (attach (new_error RequestTooLarge ''fixed request exceeds the configured frame limit'' False)), r)
             else
               (case fill_stdin reserve maximum candidates [] of
                  (stdin, cut_off) \<Rightarrow>
                    if stdin = [] then
                      (Inr \<lparr>sx_context = result_context (rv_host request) listed,
                            sx_engine = (if rg then Engine_Rg else Engine_Grep), sx_matches = [],
                            sx_truncated = (truncated \<or> cut_off)\<rparr>, r)
                    else
                      (case execute_readonly_fixed (sb_bridge sb) r
                              (search_fixed_request sb (rv_host request) script args (Some stdin) [] tools) of
                         (Inl e, r1) \<Rightarrow> (Inl (attach e), r1)
                       | (Inr result, r1) \<Rightarrow>
                           (map_err (\<lambda>e. attach_fixed_result_context e (rv_host request) result)
                              (engine_answer sb request rg (truncated \<or> cut_off) result), r1)))))"

section \<open>The search of the whole tree\<close>

definition exact_glob :: "string \<Rightarrow> bool" where
  "exact_glob glob \<longleftrightarrow> CHR ''/'' \<notin> set glob \<and> list_all (\<lambda>c. c \<noteq> CHR ''{'' \<and> c \<noteq> CHR ''}'' \<and> c \<noteq> CHR 0x5C) glob"

definition tree_request :: "'r search_bridge \<Rightarrow> resolved_search \<Rightarrow> fixed_run_request" where
  "tree_request sb request =
     search_fixed_request sb (rv_host request) (sb_grep_tree_script sb)
       ([rv_query request, rv_path request, decimal (lim_max_frame_bytes (search_limits sb) + 1)] @
        (if list_all exact_glob (rv_globs request) then map (\<lambda>g. ''--include='' @ g) (rv_globs request) else []))
       None [1] [''grep_nul'', ''search_bound'']"

definition tree_answer :: "'r search_bridge \<Rightarrow> resolved_search \<Rightarrow> fixed_run_result \<Rightarrow> search_result bridge_result" where
  "tree_answer sb request result =
     bindR (read_control (root_error ''search engine control record is invalid'') (fx_output result)) (\<lambda>capped.
     bindR (cursor_new (fx_output result) Stdout_Stream (lim_max_frame_bytes (search_limits sb) + 1)) (\<lambda>c.
     bindR (parse_grep_filtered (br_base64 (sb_bridge sb)) REMOTE_OPERATION_ROOT (rv_path request) (rv_query request)
              capped (saturating_add (rv_max_results request) 1) (lim_max_frame_bytes (search_limits sb))
              (sb_glob_match sb (rv_globs request)) (rv_globs request = []) c) (\<lambda>found.
     if capped \<and> \<not> list_all exact_glob (rv_globs request) \<and> length (fst found) \<le> rv_max_results request then
       Inl (new_error OutputLimit ''search output ended before complex glob filtering completed'' False)
     else
       (let (matches, truncated) = rank_matches (br_unbase64 (sb_bridge sb)) (rv_max_results request) capped found in
        Inr \<lparr>sx_context = result_context (rv_host request) result, sx_engine = Engine_Grep,
             sx_matches = matches, sx_truncated = truncated\<rparr>))))"

definition search_complete_grep_tree ::
  "'r search_bridge \<Rightarrow> resolved_search \<Rightarrow> 'r \<Rightarrow> search_result bridge_result \<times> 'r" where
  "search_complete_grep_tree sb request r =
     (case execute_readonly_fixed (sb_bridge sb) r (tree_request sb request) of
        (Inl e, r1) \<Rightarrow> (Inl e, r1)
      | (Inr result, r1) \<Rightarrow>
          (map_err (\<lambda>e. attach_fixed_result_context e (rv_host request) result) (tree_answer sb request result), r1))"

section \<open>The operation\<close>

text \<open>The candidates, sorted and bounded, and whether some are left out; \<open>None\<close> when the list was capped and the
  whole tree is searched instead.\<close>

definition list_candidates ::
  "'r search_bridge \<Rightarrow> resolved_search \<Rightarrow> fixed_run_result \<Rightarrow> (string list \<times> bool) option bridge_result" where
  "list_candidates sb request listed =
     bindR (read_control (root_error ''search candidate control record is invalid'') (fx_output listed)) (\<lambda>capped.
     bindR (cursor_new (fx_output listed) Stdout_Stream (lim_max_frame_bytes (search_limits sb) + 1)) (\<lambda>c.
     bindR (compile_search_globs sb request) (\<lambda>_.
     if capped \<and> \<not> rv_binary request then Inr None
     else
       bindR (collect_candidates (request_keep sb request) REMOTE_OPERATION_ROOT (rv_path request) capped
                (lim_max_frame_bytes (search_limits sb)) [] 0 c) (\<lambda>(candidates, listed_count, c1).
       if capped \<and> sc_discarded_incomplete c1 \<and> listed_count = 0 then
         Inl (protocol_error ''search candidate record is oversized'')
       else
         Inr (Some (take MAX_CANDIDATES (sort candidates),
                    capped \<or> MAX_CANDIDATES < listed_count \<or> MAX_CANDIDATES < length candidates))))))"

definition search_fallback ::
  "'r search_bridge \<Rightarrow> resolved_search \<Rightarrow> 'r \<Rightarrow> search_result bridge_result \<times> 'r" where
  "search_fallback sb request r =
     (case execute_readonly_fixed (sb_bridge sb) r (candidate_request sb request) of
        (Inl e, r1) \<Rightarrow> (Inl e, r1)
      | (Inr listed, r1) \<Rightarrow>
          (case list_candidates sb request listed of
             Inl e \<Rightarrow> (Inl (attach_fixed_result_context e (rv_host request) listed), r1)
           | Inr None \<Rightarrow>
               (case search_complete_grep_tree sb request r1 of
                  (answer, r2) \<Rightarrow>
                    (map_err (\<lambda>e. attach_fixed_result_context e (rv_host request) listed) answer, r2))
           | Inr (Some (candidates, truncated)) \<Rightarrow>
               search_candidates sb request listed truncated candidates r1))"

definition bridge_search ::
  "'r search_bridge \<Rightarrow> resolved_search \<Rightarrow> 'r \<Rightarrow> search_result bridge_result \<times> 'r" where
  "bridge_search sb request r =
     (case sb_native sb r (native_request sb request) of
        (Inl e, r1) \<Rightarrow> (Inl e, r1)
      | (Inr (Some result), r1) \<Rightarrow> (native_answer sb request result, r1)
      | (Inr None, r1) \<Rightarrow> search_fallback sb request r1)"

end
