(* ===== verification/Search_Answer.thy ===== *)
theory Search_Answer
  imports Search_Parsed Search_Operation Write_Properties
begin

text \<open>
  What a search answers: matches below the root that was asked for, ordered and within the limit, and an
  honest mark when something is left out.
\<close>

section \<open>Every match is below the root\<close>

definition match_below :: "(string \<Rightarrow> string) \<Rightarrow> string \<Rightarrow> search_match \<Rightarrow> bool" where
  "match_below base64 display m \<longleftrightarrow>
     (\<exists>actual relative. search_relative display actual = Inr relative \<and>
        sr_actual_path m = encode_bytes base64 actual \<and> sr_relative_path m = encode_bytes base64 relative)"

lemma retain_match_all:
  "(\<forall>m \<in> set (fst result). P m) \<Longrightarrow> P x \<Longrightarrow> \<forall>m \<in> set (fst (retain_match retain x result)). P m"
  by (cases result) (auto simp: retain_match_def)

lemma finish_events_Inr: "finish_events capped completed result c = Inr found \<Longrightarrow> found = result"
  by (auto simp: finish_events_def split: if_splits)

lemma parse_grep_loop_below:
  "parse_grep_loop base64 root display query capped retain limit keep completed result c = Inr found \<Longrightarrow>
   \<forall>m \<in> set (fst result). match_below base64 display m \<Longrightarrow> \<forall>m \<in> set (fst found). match_below base64 display m"
proof (induction base64 root display query capped retain limit keep completed result c rule: parse_grep_loop.induct)
  case (1 base64 root display query capped retain limit keep completed result c)
  note step = parse_grep_loop.simps [of base64 root display query capped retain limit keep completed result c]
  obtain f c1 where f: "read_field capped c limit = (Inr f, c1)"
    using "1.prems"(1) step by (auto split: prod.splits sum.splits)
  show ?case
  proof (cases f)
    case None
    then show ?thesis using "1.prems" step f by (auto dest: finish_events_Inr)
  next
    case (Some pinned)
    note f = f [unfolded Some]
    obtain actual where a: "logical_from_pinned root pinned = Inr actual"
      using "1.prems"(1) step f by (auto simp: bindR_eq_Inr)
    obtain l c2 where l: "read_line capped c1 limit = (Inr l, c2)"
      using "1.prems"(1) step f a by (auto split: prod.splits sum.splits)
    show ?thesis
    proof (cases l)
      case None
      then show ?thesis using "1.prems" step f a l by (auto dest: finish_events_Inr split: if_splits)
    next
      case (Some rec)
      note l = l [unfolded Some]
      obtain line column content relative where
        r: "grep_record query rec = Inr (line, column, content)" "search_relative display actual = Inr relative"
        using "1.prems"(1) step f a l by (auto simp: bindR_eq_Inr)
      let ?m = "search_match_of base64 actual relative line column content"
      let ?result = "if keep relative then retain_match retain ?m result else result"
      have next_call: "parse_grep_loop base64 root display query capped retain limit keep (completed + 1) ?result c2 = Inr found"
        using "1.prems"(1) step f a l r by simp
      have "match_below base64 display ?m" using r(2) by (auto simp: match_below_def search_match_of_def)
      then have "\<forall>m \<in> set (fst ?result). match_below base64 display m"
        using "1.prems"(2) retain_match_all [of result, OF "1.prems"(2)] by simp
      then show ?thesis
        using "1.IH" [OF f [symmetric] refl refl a l [symmetric] refl refl r(1) refl refl r(2) next_call] by blast
    qed
  qed
qed

lemma rg_match_below: "rg_match base64 unbase64 root display v = Inr m \<Longrightarrow> match_below base64 display m"
proof -
  assume "rg_match base64 unbase64 root display v = Inr m"
  then obtain actual relative line column content where "search_relative display actual = Inr relative"
    "m = search_match_of base64 actual relative line column content"
    unfolding rg_match_def bindR_eq_Inr by force
  then show ?thesis unfolding match_below_def search_match_of_def by auto
qed

lemma parse_rg_loop_below:
  "parse_rg_loop base64 unbase64 json root display capped retain limit completed result c = Inr found \<Longrightarrow>
   \<forall>m \<in> set (fst result). match_below base64 display m \<Longrightarrow> \<forall>m \<in> set (fst found). match_below base64 display m"
proof (induction base64 unbase64 json root display capped retain limit completed result c rule: parse_rg_loop.induct)
  case (1 base64 unbase64 json root display capped retain limit completed result c)
  note step = parse_rg_loop.simps [of base64 unbase64 json root display capped retain limit completed result c]
  obtain l c1 where l: "read_line capped c limit = (Inr l, c1)"
    using "1.prems"(1) step by (auto split: prod.splits sum.splits)
  show ?case
  proof (cases l)
    case None
    then show ?thesis using "1.prems" step l by (auto dest: finish_events_Inr)
  next
    case (Some line)
    note l = l [unfolded Some]
    obtain event where e: "rg_event json line = Inr event" using "1.prems"(1) step l by (auto simp: bindR_eq_Inr)
    show ?thesis
    proof (cases event)
      case None
      then have "parse_rg_loop base64 unbase64 json root display capped retain limit completed result c1 = Inr found"
        using "1.prems"(1) step l e by simp
      then show ?thesis using "1.IH"(1) [OF l [symmetric] refl refl e None] "1.prems"(2) by blast
    next
      case (Some v)
      then obtain m where m: "rg_match base64 unbase64 root display v = Inr m"
        using "1.prems"(1) step l e by (auto simp: bindR_eq_Inr)
      have next_call: "parse_rg_loop base64 unbase64 json root display capped retain limit (completed + 1)
          (retain_match retain m result) c1 = Inr found"
        using "1.prems"(1) step l e Some m by simp
      have "\<forall>x \<in> set (fst (retain_match retain m result)). match_below base64 display x"
        using retain_match_all [of result, OF "1.prems"(2) rg_match_below [OF m]] .
      then show ?thesis using "1.IH"(2) [OF l [symmetric] refl refl e Some m next_call] by blast
    qed
  qed
qed

lemma parse_native_record_below:
  "parse_native_record base64 bytes display offset = Inr (m, e) \<Longrightarrow> match_below base64 display m"
proof -
  assume "parse_native_record base64 bytes display offset = Inr (m, e)"
  then obtain actual relative where "search_relative display actual = Inr relative"
    "sr_actual_path m = encode_bytes base64 actual" "sr_relative_path m = encode_bytes base64 relative"
    unfolding parse_native_record_def bindR_eq_Inr Let_def by force
  then show ?thesis unfolding match_below_def by blast
qed

lemma parse_native_below:
  "parse_native_search_records base64 bytes display retain offset matches lookahead = Inr found \<Longrightarrow>
   \<forall>m \<in> set matches. match_below base64 display m \<Longrightarrow> \<forall>m \<in> set (fst found). match_below base64 display m"
proof (induction base64 bytes display retain offset matches lookahead rule: parse_native_search_records.induct)
  case (1 base64 bytes display retain offset matches lookahead)
  note step = parse_native_search_records.simps [of base64 bytes display retain offset matches lookahead]
  show ?case
  proof (cases "length bytes \<le> offset")
    case True
    then show ?thesis using "1.prems" step by auto
  next
    case False
    with "1.prems"(1) step obtain m e where m: "parse_native_record base64 bytes display offset = Inr (m, e)"
      by (auto split: sum.splits)
    note below = parse_native_record_below [OF m]
    show ?thesis
    proof (cases "length matches < retain")
      case True
      have "parse_native_search_records base64 bytes display retain e (matches @ [m]) lookahead = Inr found"
        using "1.prems"(1) step False m True by simp
      moreover have "\<forall>x \<in> set (matches @ [m]). match_below base64 display x" using "1.prems"(2) below by simp
      ultimately show ?thesis using "1.IH"(1) False m True by blast
    next
      case lookahead: False
      have "parse_native_search_records base64 bytes display retain e matches True = Inr found"
        using "1.prems"(1) step False m lookahead by simp
      then show ?thesis using "1.IH"(2) False m lookahead "1.prems"(2) by blast
    qed
  qed
qed

section \<open>Ranking\<close>

definition answer_ok :: "'r search_bridge \<Rightarrow> resolved_search \<Rightarrow> search_result \<Rightarrow> bool" where
  "answer_ok sb request a \<longleftrightarrow>
     length (sx_matches a) \<le> rv_max_results request \<and>
     sorted (map (match_key (br_unbase64 (sb_bridge sb))) (sx_matches a)) \<and>
     (\<forall>m \<in> set (sx_matches a). match_below (br_base64 (sb_bridge sb)) (rv_path request) m) \<and>
     (rv_binary request \<longrightarrow> sx_engine a \<noteq> Engine_Grep)"

lemma rank_matches_ok:
  assumes "rank_matches unbase64 max_results truncated found = (matches, left_out)"
  shows "length matches \<le> max_results" "sorted (map (match_key unbase64) matches)"
    "set matches \<subseteq> set (fst found)"
    "\<not> left_out \<Longrightarrow> set matches = set (fst found) \<and> length matches = length (fst found) \<and> \<not> snd found \<and> \<not> truncated"
proof -
  obtain ms more where f: "found = (ms, more)" by (cases found)
  have m: "matches = take max_results (sort_matches unbase64 ms)" "left_out = (truncated \<or> more \<or> max_results < length ms)"
    using assms by (auto simp: rank_matches_def f)
  have s: "set (sort_matches unbase64 ms) = set ms" "length (sort_matches unbase64 ms) = length ms"
    by (simp_all add: sort_matches_def)
  show "length matches \<le> max_results" unfolding m by simp
  show "sorted (map (match_key unbase64) matches)"
    unfolding m take_map [symmetric] sort_matches_def by (simp add: sorted_wrt_take)
  show "set matches \<subseteq> set (fst found)" unfolding m f using set_take_subset s(1) by fastforce
  show "set matches = set (fst found) \<and> length matches = length (fst found) \<and> \<not> snd found \<and> \<not> truncated" if "\<not> left_out"
    using that s unfolding m f by simp
qed

lemma native_answer_ok:
  assumes "native_answer sb request result = Inr a"
  shows "answer_ok sb request a"
proof -
  obtain found where f: "parse_native_search_records (br_base64 (sb_bridge sb)) (ns_output result)
      (rv_path request) (saturating_add (rv_max_results request) 1) 0 [] False = Inr found"
    using assms unfolding native_answer_def bindR_eq_Inr by blast
  obtain matches left_out where
    r: "rank_matches (br_unbase64 (sb_bridge sb)) (rv_max_results request) False found = (matches, left_out)"
    by (cases "rank_matches (br_unbase64 (sb_bridge sb)) (rv_max_results request) False found")
  have a: "sx_matches a = matches" "sx_engine a = Engine_Native"
    using assms unfolding native_answer_def f bindR_simps by (auto simp: r)
  show ?thesis
    using rank_matches_ok(1-3) [OF r] parse_native_below [OF f] a by (auto simp: answer_ok_def)
qed

lemma parse_engine_below:
  "parse_engine_output sb request rg capped c = Inr found \<Longrightarrow>
   \<forall>m \<in> set (fst found). match_below (br_base64 (sb_bridge sb)) (rv_path request) m"
  by (auto simp: parse_engine_output_def Let_def parse_rg_def parse_grep_def parse_grep_records_def
      dest: parse_rg_loop_below parse_grep_loop_below split: if_splits)

lemma engine_answer_ok:
  assumes "engine_answer sb request rg truncated result = Inr a" and "rv_binary request \<longrightarrow> rg"
  shows "answer_ok sb request a"
proof -
  obtain capped c found where
    rc: "read_control (\<lambda>_. protocol_error ''search engine control record is invalid'') (fx_output result) = Inr capped"
    and cn: "cursor_new (fx_output result) Stdout_Stream (lim_max_frame_bytes (search_limits sb) + 1) = Inr c"
    and f: "parse_engine_output sb request rg capped c = Inr found"
    using assms(1) unfolding engine_answer_def bindR_eq_Inr by blast
  obtain matches left_out where
    r: "rank_matches (br_unbase64 (sb_bridge sb)) (rv_max_results request) (truncated \<or> capped) found = (matches, left_out)"
    by (cases "rank_matches (br_unbase64 (sb_bridge sb)) (rv_max_results request) (truncated \<or> capped) found")
  have a: "sx_matches a = matches" "sx_engine a = (if rg then Engine_Rg else Engine_Grep)"
    using assms(1) unfolding engine_answer_def rc cn bindR_simps f by (auto simp: r)
  show ?thesis
    using rank_matches_ok(1-3) [OF r] parse_engine_below [OF f] a assms(2) by (auto simp: answer_ok_def)
qed

lemma tree_answer_ok:
  assumes "tree_answer sb request result = Inr a" and "\<not> rv_binary request"
  shows "answer_ok sb request a"
proof -
  obtain capped c found where
    rc: "read_control (root_error ''search engine control record is invalid'') (fx_output result) = Inr capped"
    and cn: "cursor_new (fx_output result) Stdout_Stream (lim_max_frame_bytes (search_limits sb) + 1) = Inr c"
    and f: "parse_grep_filtered (br_base64 (sb_bridge sb)) REMOTE_OPERATION_ROOT
      (rv_path request) (rv_query request) capped (saturating_add (rv_max_results request) 1)
      (lim_max_frame_bytes (search_limits sb)) (sb_glob_match sb (rv_globs request)) (rv_globs request = []) c = Inr found"
    using assms(1) unfolding tree_answer_def bindR_eq_Inr by blast
  obtain matches left_out where
    r: "rank_matches (br_unbase64 (sb_bridge sb)) (rv_max_results request) capped found = (matches, left_out)"
    by (cases "rank_matches (br_unbase64 (sb_bridge sb)) (rv_max_results request) capped found")
  have a: "sx_matches a = matches"
    using assms(1) unfolding tree_answer_def rc cn bindR_simps f by (auto simp: r split: if_splits)
  have "\<forall>m \<in> set (fst found). match_below (br_base64 (sb_bridge sb)) (rv_path request) m"
    using parse_grep_loop_below [OF f [unfolded parse_grep_filtered_def parse_grep_records_def]] by simp
  then show ?thesis using rank_matches_ok(1-3) [OF r] a assms(2) by (auto simp: answer_ok_def)
qed

lemma search_candidates_ok:
  assumes "search_candidates sb request listed truncated candidates r = (Inr a, r')"
  shows "answer_ok sb request a"
proof -
  let ?rg = "cap_tools (fx_capability listed) ''rg_json'' = Some True"
  have binary: "rv_binary request \<longrightarrow> ?rg"
    using assms by (auto simp: search_candidates_def Let_def split: if_splits)
  have "sx_matches a = [] \<and> sx_engine a = (if ?rg then Engine_Rg else Engine_Grep) \<or>
      (\<exists>t result. engine_answer sb request ?rg t result = Inr a)"
    using assms binary unfolding search_candidates_def Let_def
    by (auto simp: map_err_eq_Inr split: if_splits prod.splits sum.splits)
  then show ?thesis
  proof
    assume "sx_matches a = [] \<and> sx_engine a = (if ?rg then Engine_Rg else Engine_Grep)"
    then show ?thesis using binary by (auto simp: answer_ok_def)
  next
    assume "\<exists>t result. engine_answer sb request ?rg t result = Inr a"
    then show ?thesis using engine_answer_ok binary by blast
  qed
qed

lemma search_fallback_ok:
  assumes "search_fallback sb request r = (Inr a, r')"
  shows "answer_ok sb request a"
proof -
  obtain listed r1 where l: "execute_readonly_fixed (sb_bridge sb) r (candidate_request sb request) = (Inr listed, r1)"
    using assms by (auto simp: search_fallback_def split: prod.splits sum.splits)
  then obtain choice where c: "list_candidates sb request listed = Inr choice"
    using assms by (auto simp: search_fallback_def split: sum.splits)
  show ?thesis
  proof (cases choice)
    case None
    then have "\<not> rv_binary request"
      using c by (auto simp: list_candidates_def bindR_eq_Inr split: if_splits prod.splits)
    moreover obtain result where "tree_answer sb request result = Inr a"
      using assms l c None by (auto simp: search_fallback_def search_complete_grep_tree_def map_err_eq_Inr
          split: prod.splits sum.splits)
    ultimately show ?thesis using tree_answer_ok by blast
  next
    case (Some x)
    then show ?thesis using assms l c search_candidates_ok
      by (cases x) (auto simp: search_fallback_def)
  qed
qed

text \<open>C24: Every answer of a search, whichever engine gave it, has at most as many matches as asked for, ordered by path, line
  and column; each match names, consistently as an absolute and as a relative path, something below the root of
  the search; and a binary search is never answered by an engine that skips binary files.\<close>

theorem search_answers_in_order:
  assumes "bridge_search sb request r = (Inr a, r')"
  shows "length (sx_matches a) \<le> rv_max_results request \<and>
    sorted (map (match_key (br_unbase64 (sb_bridge sb))) (sx_matches a)) \<and>
    (\<forall>m \<in> set (sx_matches a). \<exists>actual relative. search_relative (rv_path request) actual = Inr relative \<and>
       sr_actual_path m = encode_bytes (br_base64 (sb_bridge sb)) actual \<and>
       sr_relative_path m = encode_bytes (br_base64 (sb_bridge sb)) relative) \<and>
    (rv_binary request \<longrightarrow> sx_engine a \<noteq> Engine_Grep)"
proof -
  have "answer_ok sb request a"
    using assms native_answer_ok search_fallback_ok
    by (auto simp: bridge_search_def split: prod.splits sum.splits option.splits)
  then show ?thesis by (simp add: answer_ok_def match_below_def)
qed

text \<open>Two files below \<open>/w\<close>; the second has two hits, given in the other order.\<close>

definition demo_hits :: "grep_hit list" where
  "demo_hits = [\<lparr>gh_path = ''w/b'', gh_line = 3, gh_content = ''xab''\<rparr>, \<lparr>gh_path = ''w/b'', gh_line = 2, gh_content = ''ab''\<rparr>,
     \<lparr>gh_path = ''w/a'', gh_line = 7, gh_content = ''ab''\<rparr>]"

definition demo_captured :: "string \<Rightarrow> string \<Rightarrow> captured_output" where
  "demo_captured stdout stderr =
     \<lparr>co_stdout_file = Some stdout, co_stderr_file = Some stderr, co_stdout_len = length stdout,
      co_stderr_len = length stderr, co_aggregate_bytes = length stdout + length stderr\<rparr>"

definition demo_fixed_result :: "string \<Rightarrow> string \<Rightarrow> fixed_run_result" where
  "demo_fixed_result stdout stderr =
     \<lparr>fx_capability = sample_capability\<lparr>cap_tools := (\<lambda>_. None)\<rparr>,
      fx_shell = \<lparr>ss_shell = PosixSh_Shell, ss_fallback = False\<rparr>, fx_helper_mode = Shell_Mode,
      fx_output = demo_captured stdout stderr, fx_elapsed_ms = 1, fx_remote_process_may_continue = False\<rparr>"

definition demo_run :: "session_command list \<Rightarrow> fixed_run_request \<Rightarrow> fixed_run_result bridge_result \<times> session_command list" where
  "demo_run r q =
     (Inr (demo_fixed_result
        (if fr_script q = ''list'' then ''./w/b'' @ NUL # ''./w/a'' @ [NUL] else concat (map grep_line demo_hits)) []), r)"

definition demo_search_bridge :: "session_command list search_bridge" where
  "demo_search_bridge =
     \<lparr>sb_bridge = demo_bridge\<lparr>br_run := demo_run\<rparr>, sb_native = (\<lambda>r _. (Inr None, r)), sb_candidate_script = ''list'',
      sb_rg_script = ''rg'', sb_grep_script = ''grep'', sb_grep_tree_script = ''tree'', sb_glob_ok = (\<lambda>_. True),
      sb_glob_match = (\<lambda>_ _. True), sb_json = (\<lambda>_. None)\<rparr>"

definition demo_grep_search :: resolved_search where
  "demo_grep_search = \<lparr>rv_host = ''web'', rv_query = ''ab'', rv_path = ''/w'', rv_globs = [], rv_max_results = 2,
     rv_binary = False\<rparr>"

lemma search_answers_in_order_witness:
  "\<exists>a r'. bridge_search demo_search_bridge demo_grep_search [] = (Inr a, r') \<and> length (sx_matches a) \<le> 2 \<and>
     sorted (map (match_key (\<lambda>_. None)) (sx_matches a)) \<and> sx_engine a = Engine_Grep \<and>
     map sr_line (sx_matches a) = [7, 2]"
proof -
  define out where "out = bridge_search demo_search_bridge demo_grep_search []"
  have ok: "case fst out of Inl _ \<Rightarrow> False | Inr a \<Rightarrow> map sr_line (sx_matches a) = [7, 2] \<and> sx_engine a = Engine_Grep"
    unfolding out_def by code_simp
  obtain a r' where out: "out = (Inr a, r')" and a: "map sr_line (sx_matches a) = [7, 2]" "sx_engine a = Engine_Grep"
    using ok by (cases out; cases "fst out") auto
  note answer = search_answers_in_order [OF out [unfolded out_def]]
  have "br_unbase64 (sb_bridge demo_search_bridge) = (\<lambda>_. None)" "rv_max_results demo_grep_search = 2"
    by (simp_all add: demo_search_bridge_def demo_bridge_def demo_grep_search_def)
  then show ?thesis using answer a out unfolding out_def by (intro exI [of _ a] exI [of _ r']) auto
qed

section \<open>A search by grep\<close>





end
