(* ===== verification/Spec2Isabelle.thy ===== *)
theory Spec2Isabelle
  imports Helper_Frame Remote_Path Shell_Quote Job_Protocol Fixed_Protocol Apply_Correct Edit_Properties Runner_Properties Probe_Cache Session_Pool Write_Buffered Patch_Buffered Request_Properties Session_Properties Search_Properties Walk_Properties Session_Output Job_Logs Search_Answer
begin

text \<open>
  A verification development for the SSH bridge, the Rust crate under \<open>src/\<close>.

  The bridge is an MCP server on the workstation.  It runs the operations of a client (read, write, patch,
  search, run, jobs) on hosts reached over \<open>ssh\<close>; what the client names are an alias of a host and absolute
  remote paths.  One child process per host carries frames (\<open>CXSB1\<close>) of any number of requests at
  once to a helper or, when there is none for the platform, to a shell script.  An operation is either a
  fixed script with quoted arguments, whose output is a list of NUL-terminated fields, or a user command.
  Writes and patches may be buffered in a cache of remote files and committed later in batches guarded by hashes.

  \<^bold>\<open>The model.\<close>  A byte string is a \<open>string\<close>, one character per byte.  A machine integer is a \<open>nat\<close>; where the
  source checks or saturates, so does the model, at the width of a 64-bit platform (\<open>usize_max\<close>, \<open>u64_max\<close>).
  A \<open>Result\<close> is a sum with the error on the left, an early return is a branch of it, a panic is a result of
  its own where a claim is about panics.  A hash map is a partial map or, where the source iterates over it, an
  association list whose order is the order of the iteration.  Code under a mutex is a function on the
  state, a section; concurrent operations are step relations that interleave the sections, and the invariants are proved
  for every reachable state.

  \<^bold>\<open>The theories\<close>, in the order of dependence, with the files of \<open>src/\<close> they model:

  \<^item> \<open>Bridge_Prelude\<close>: bytes, the integer and string functions of the Rust library, the sum of results,
    shared lemmas.  \<open>Utf8\<close>, \<open>Utf8_Lossy\<close>: the checked and the lossy decoding of UTF-8, line splitting.
    \<open>Wire_Codec\<close>: the locale of a self-delimiting codec, interpreted on both implementations of the frames.
  \<^item> \<open>Bridge_Error\<close> (\<open>error.rs\<close>), \<open>Bridge_Config\<close> (\<open>config.rs\<close>), \<open>Remote_Path\<close> (\<open>path.rs\<close>), \<open>Shell_Quote\<close>
    (\<open>quote.rs\<close>): one group of definitions each.  The lemmas give the bounds of a loaded configuration, that
    a resolved path is canonical and below its root, and that the shell reads back the arguments.
  \<^item> \<open>Ssh_Frame\<close> (\<open>ssh/frame.rs\<close>), \<open>Helper_Frame\<close> (\<open>remote_helper_protocol.rs\<close>): reader and writer of
    frames on either side; round trip, independence of the chunking, equality of the two sides.
  \<^item> \<open>Session_Request\<close>, \<open>Session_Mux\<close>, \<open>Session_Steps\<close>, \<open>Session_Properties\<close> (\<open>ssh/session.rs\<close>,
    \<open>ssh/helper.rs\<close>, \<open>ssh/dispatcher.rs\<close>): the frames of a request, the table of requests with
    every incoming frame, the calls and the reader as interleaved steps, and the invariant of the table.
    \<open>Session_Output\<close>: the output of a request from the pipe in the helper to the buffers of the bridge.
  \<^item> \<open>Helper_Request\<close>, \<open>Request_Properties\<close>, \<open>Helper_Search\<close>, \<open>Search_Properties\<close>, \<open>Helper_Walk\<close>,
    \<open>Walk_Properties\<close>, \<open>Search_Records\<close> (\<open>remote_helper.rs\<close>, with the reader of the records in
    \<open>remote/search.rs\<close>): how the helper reads a request, its native search and what it streams.
    \<open>Search_Parse\<close>, \<open>Search_Parsed\<close>, \<open>Search_Operation\<close>, \<open>Search_Answer\<close> (\<open>remote/search.rs\<close>, \<open>resolve_search\<close> of
    \<open>remote/mod.rs\<close>): the search operation of the bridge with its three engines, and what its answers hold.
  \<^item> \<open>Job_Protocol\<close> (\<open>job_protocol.rs\<close>): durable remote jobs, their records and life cycle.
    \<open>Job_Store\<close>, \<open>Job_Runner\<close> (\<open>remote_job_runner.rs\<close>): the store of the jobs with its control operations, and the
    process that runs one job.  \<open>Job_Life\<close>, \<open>Job_Properties\<close>, \<open>Job_Logs\<close>: runner, observers, deaths and reboots as
    interleaved steps with their invariant; the logs, the list and what is kept of the output.
  \<^item> \<open>Capability\<close>, \<open>Probe_Cache\<close> (\<open>capability.rs\<close>): the parser of a probe and the cache with at most one
    probe per host and epoch.
  \<^item> \<open>Fixed_Protocol\<close> (\<open>remote/protocol.rs\<close>, the captured output of \<open>output.rs\<close>): the paged reader of the
    fields of a fixed operation and the field parsers.
  \<^item> \<open>Fixed_Command\<close>, \<open>Fixed_Runner\<close>, \<open>Session_Pool\<close>, \<open>Runner_Properties\<close> (\<open>ssh/process.rs\<close>): pinning of paths,
    the rendered command, one fixed operation with the classification of its outcome, the pool of sessions.
  \<^item> \<open>Remote_Snapshot\<close>, \<open>Snapshot_Properties\<close>, \<open>Write_Request\<close>, \<open>Write_Properties\<close>, \<open>Write_Buffered\<close>
    (\<open>remote/mod.rs\<close>, \<open>remote/read.rs\<close>, \<open>remote/write.rs\<close>): the snapshot of a file, the guarded mutation of a
    file, immediately or through the cache.
  \<^item> \<open>Patch_Types\<close>, \<open>Codex_Patch\<close>, \<open>Codex_Apply\<close>, \<open>Patch_Grammar\<close>, \<open>Patch_Parse\<close>, \<open>Patch_Language\<close>,
    \<open>Apply_Correct\<close> (\<open>remote/codex_patch.rs\<close>): the parser against a grammar, the application of a patch against a
    specification by decomposition.  \<open>Patch_Driver\<close>, \<open>Patch_Properties\<close>, \<open>Patch_Buffered\<close>
    (\<open>remote/patch.rs\<close>): the operation on all files of a patch.
  \<^item> \<open>Edit_Cache\<close>, \<open>Edit_Flush\<close>, \<open>Edit_Load\<close> (\<open>remote/edit_cache.rs\<close>): the cache and its sections.
    \<open>Edit_Backend\<close>: the contract of its backend as a locale.  \<open>Edit_Sync\<close> (\<open>remote/edit_sync.rs\<close>): the
    backend over the session, which interprets the locale.  \<open>Edit_System\<close>, \<open>Edit_Invariant\<close>, \<open>Edit_Mutate\<close>, \<open>Edit_Steps\<close>,
    \<open>Edit_Commit\<close>, \<open>Edit_Properties\<close>: the step relation of all operations, its invariant and what follows.

  \<^bold>\<open>What is proved.\<close>  For the cache: no interleaving loses a buffered edit, the byte counter is exact and bounded,
  clean entries agree with their base, a batch is all or nothing, a commit is retried only when nothing of it can be
  open.  For the session: requests do not disturb one another, a closed session leaves no call waiting, and an
  error claims that the remote process is gone only when that is known.  For jobs: the record of a job only makes the
  transitions of its life cycle, a live runner is never declared lost, an observer
  gives way to a held lock, and a terminal answer is final.  For mutations: what is sent is pinned, guarded
  and quoted, every outcome after the send is reported as unknown unless the answer says otherwise, and a
  failed patch accounts for all its paths and names a path as possibly changed exactly when the error of its mutation does.  For the formats: round trips, independence of chunk and page boundaries, the
  exact language of patches.  The claims \<open>C1\<close> to \<open>C40\<close> stand before their theorems.

  \<^bold>\<open>Bounds and fuel.\<close>  The recursion of the source's loops is structural or has a proved measure
  everywhere but in two places.  \<open>flush_host\<close> loops while other operations add work; it has fuel, and one
  pass is enough when nothing interferes (claim C2).  A walk of directories follows the depth of a finite tree.

  \<^bold>\<open>Parameters.\<close>  What is not code of the repository is an argument of the definitions: the hash function
  (no collision is assumed, only equality of hashes of equal contents), Base64 with
  \<open>decode (encode x) = Some x\<close>, the scripts sent to the remote shell, the remote world as the function that answers
  a command and moves on to its next state (a fetch of the cache included), the matcher of a search with \<open>memchr\<close>'s contract, the glob compiler, JSON and TOML as the values they
  decode to, the clock and the deadlines as oracles.  A property that assumes a law of a
  parameter has a witness with a concrete function that satisfies it.

  \<^bold>\<open>Not modelled.\<close>  The MCP front end (\<open>mcp/\<close>) and the command line with the installer (\<open>cli.rs\<close>, \<open>cli/\<close>,
  \<open>main.rs\<close>): JSON schemas, rendering and file installation.  Process creation, signals, sockets, the runtime directories
  and the control socket of \<open>ssh\<close> (\<open>ssh/argv.rs\<close>, parts of \<open>ssh/process.rs\<close>).  The spool files and
  quotas of \<open>output.rs\<close>.  The remaining operations of \<open>remote/\<close> (metadata, run, forward, view_image)
  and the shell scripts themselves, whose answers are what the parsers accept.
\<close>

end
